(* ===== verification/Prelude.thy ===== *)
theory Prelude
  imports Main "HOL-Library.Char_ord" "HOL-Library.List_Lexorder" "HOL-Library.Product_Lexorder"
begin

section \<open>Prelude: collections of facts, results, and the worklist-search invariant\<close>

text \<open>
  What every component of the development shares: the fact collections the proofs name, the
  fallible result type of the Rust code (\<open>Result<T, String>\<close> is a sum, \<open>Inl\<close> the error), and the
  generic invariant of the worklist loops of the repository (breadth-first and depth-first
  searches with a visited set).  The Rust code has about ten such loops; each of them is
  modelled on its own, and its proof only instantiates the lemmas here.
\<close>

named_theorems str_simps "evaluation and characterisation of the string helpers"
named_theorems coll_simps "sorted maps and sets"
named_theorems inv_intros "invariants kept by operations"

type_synonym 'a res = "string + 'a"

abbreviation Err :: "string \<Rightarrow> 'a res" where
  "Err \<equiv> Inl"

abbreviation Ok :: "'a \<Rightarrow> 'a res" where
  "Ok \<equiv> Inr"

subsection \<open>The error-propagation operator\<close>

text \<open>\<open>res_bind r f\<close> is Rust's \<open>let x = r?; f(x)\<close>.\<close>

definition res_bind :: "'e + 'a \<Rightarrow> ('a \<Rightarrow> 'e + 'b) \<Rightarrow> 'e + 'b" where
  "res_bind r f = (case r of Inl e \<Rightarrow> Inl e | Inr x \<Rightarrow> f x)"

lemma res_bind_simps [simp]:
  "res_bind (Inl e) f = Inl e"
  "res_bind (Inr x) f = f x"
  by (simp_all add: res_bind_def)

lemma res_bind_Inr_iff: "res_bind r f = Inr y \<longleftrightarrow> (\<exists>x. r = Inr x \<and> f x = Inr y)"
  by (cases r) auto

lemma res_bind_cong [fundef_cong]:
  "r = r' \<Longrightarrow> (\<And>x. r' = Inr x \<Longrightarrow> f x = f' x) \<Longrightarrow> res_bind r f = res_bind r' f'"
  by (cases r') auto

fun res_mapM :: "('a \<Rightarrow> 'e + 'b) \<Rightarrow> 'a list \<Rightarrow> 'e + 'b list" where
  "res_mapM f [] = Inr []"
| "res_mapM f (x # xs) = res_bind (f x) (\<lambda>y. res_bind (res_mapM f xs) (\<lambda>ys. Inr (y # ys)))"

subsection \<open>Worklist search, marking on insertion into the worklist\<close>

text \<open>
  \<open>seen\<close> holds every node ever put on the worklist; a node leaves the worklist when its successors
  have all been marked.
\<close>

definition bfs_inv :: "('a \<times> 'a) set \<Rightarrow> 'a set \<Rightarrow> 'a set \<Rightarrow> 'a set \<Rightarrow> bool" where
  "bfs_inv R roots seen work \<longleftrightarrow>
     roots \<subseteq> seen \<and> work \<subseteq> seen \<and> seen \<subseteq> R\<^sup>* `` roots \<and>
     (\<forall>x \<in> seen - work. R `` {x} \<subseteq> seen)"

lemma bfs_inv_init: "bfs_inv R roots roots roots"
  by (auto simp: bfs_inv_def)

lemma bfs_inv_step:
  assumes "bfs_inv R roots seen work" "x \<in> work"
    and "seen' = seen \<union> R `` {x}" "work' \<subseteq> seen'"
    and "work - {x} \<subseteq> work'" "R `` {x} - seen \<subseteq> work'"
  shows "bfs_inv R roots seen' work'"
proof -
  have "x \<in> R\<^sup>* `` roots" using assms(1,2) by (auto simp: bfs_inv_def)
  then have "R `` {x} \<subseteq> R\<^sup>* `` roots" by (auto intro: rtrancl_into_rtrancl)
  with assms show ?thesis unfolding bfs_inv_def by blast
qed

lemma bfs_inv_final: "bfs_inv R roots seen {} \<Longrightarrow> seen = R\<^sup>* `` roots"
proof
  assume inv: "bfs_inv R roots seen {}"
  then show "seen \<subseteq> R\<^sup>* `` roots" by (simp add: bfs_inv_def)
  have "y \<in> seen" if "(x, y) \<in> R\<^sup>*" "x \<in> roots" for x y
    using that
  proof (induction rule: rtrancl_induct)
    case base
    then show ?case using inv by (auto simp: bfs_inv_def)
  next
    case (step y z)
    then show ?case using inv by (auto simp: bfs_inv_def)
  qed
  then show "R\<^sup>* `` roots \<subseteq> seen" by auto
qed

subsection \<open>Worklist search, marking when a node is taken off the stack\<close>

definition dfs_inv :: "('a \<times> 'a) set \<Rightarrow> 'a set \<Rightarrow> 'a set \<Rightarrow> 'a set \<Rightarrow> bool" where
  "dfs_inv R roots visited stack \<longleftrightarrow>
     roots \<subseteq> visited \<union> stack \<and> visited \<union> stack \<subseteq> R\<^sup>* `` roots \<and>
     (\<forall>x \<in> visited. R `` {x} \<subseteq> visited \<union> stack)"

lemma dfs_inv_init: "dfs_inv R roots {} roots"
  by (auto simp: dfs_inv_def)

lemma dfs_inv_skip:
  "dfs_inv R roots visited (insert x stack) \<Longrightarrow> x \<in> visited \<Longrightarrow> dfs_inv R roots visited stack"
  by (auto simp: dfs_inv_def)

lemma dfs_inv_visit:
  "dfs_inv R roots visited (insert x stack) \<Longrightarrow>
   dfs_inv R roots (insert x visited) (R `` {x} \<union> stack)"
  by (auto simp: dfs_inv_def intro: rtrancl_into_rtrancl)

lemma dfs_inv_final: "dfs_inv R roots visited {} \<Longrightarrow> visited = R\<^sup>* `` roots"
proof -
  assume "dfs_inv R roots visited {}"
  then have "bfs_inv R roots visited {}" by (auto simp: dfs_inv_def bfs_inv_def)
  then show ?thesis by (rule bfs_inv_final)
qed

subsection \<open>Prefix codes\<close>

text \<open>
  The byte encodings of the repository (the action key, the wire values) all rest on one contract:
  an encoded item can be told apart from what follows it.  A sequence of items is then determined by
  the concatenation of their encodings.
\<close>

locale prefix_code =
  fixes enc :: "'a \<Rightarrow> 'b list"
    and ok :: "'a \<Rightarrow> bool"
  assumes prefix: "ok x \<Longrightarrow> ok y \<Longrightarrow> enc x @ r = enc y @ s \<Longrightarrow> x = y \<and> r = s"
    and nonempty: "ok x \<Longrightarrow> enc x \<noteq> []"
begin

lemma enc_inj: "ok x \<Longrightarrow> ok y \<Longrightarrow> enc x = enc y \<Longrightarrow> x = y"
  using prefix [of x y "[]" "[]"] by simp

lemma concat_prefix:
  "list_all ok xs \<Longrightarrow> list_all ok ys \<Longrightarrow>
   concat (map enc xs) = concat (map enc ys) \<Longrightarrow> xs = ys"
proof (induction xs arbitrary: ys)
  case Nil
  then show ?case using nonempty by (cases ys) auto
next
  case (Cons x xs)
  then obtain y ys' where ys: "ys = y # ys'" using nonempty by (cases ys) auto
  with Cons.prems have "x = y \<and> concat (map enc xs) = concat (map enc ys')"
    by (intro prefix) auto
  with Cons ys show ?case by simp
qed

end

subsection \<open>Generic list facts\<close>

lemma list_all2_memD: "list_all2 P xs ys \<Longrightarrow> x \<in> set xs \<Longrightarrow> \<exists>y \<in> set ys. P x y"
  by (fastforce simp: list_all2_conv_all_nth in_set_conv_nth)

lemma sorted_wrt_less_distinct: "sorted_wrt (<) (xs :: 'a::order list) \<Longrightarrow> distinct xs"
  by (induction xs) auto

lemma strict_sorted_unique:
  "sorted_wrt (<) (xs :: 'a::linorder list) \<Longrightarrow> sorted_wrt (<) ys \<Longrightarrow> set xs = set ys \<Longrightarrow> xs = ys"
  by (rule strict_sorted_equal)

lemma card_diff_insert_less:
  "finite A \<Longrightarrow> x \<in> A \<Longrightarrow> x \<notin> B \<Longrightarrow> card (A - insert x B) < card (A - B)"
  by (rule psubset_card_mono) auto

end
