(* ===== verification/Std_Str.thy ===== *)
theory Std_Str
  imports Prelude
begin

section \<open>The string operations of the Rust standard library\<close>

text \<open>
  A Rust \<open>str\<close> is a sequence of UTF-8 bytes and every pattern the code searches for is an ASCII
  character or an ASCII literal, so the searches can be read bytewise: \<open>string\<close> is the list of the
  bytes.  Each definition is named after the method of \<open>str\<close> that it stands for.
\<close>

definition starts_with :: "string \<Rightarrow> string \<Rightarrow> bool" where
  "starts_with s p \<longleftrightarrow> take (length p) s = p"

definition ends_with :: "string \<Rightarrow> string \<Rightarrow> bool" where
  "ends_with s p \<longleftrightarrow> starts_with (rev s) (rev p)"

definition strip_prefix :: "string \<Rightarrow> string \<Rightarrow> string option" where
  "strip_prefix s p = (if starts_with s p then Some (drop (length p) s) else None)"

definition strip_suffix :: "string \<Rightarrow> string \<Rightarrow> string option" where
  "strip_suffix s p = (if ends_with s p then Some (take (length s - length p) s) else None)"

fun split_once :: "string \<Rightarrow> char \<Rightarrow> (string \<times> string) option" where
  "split_once [] c = None"
| "split_once (x # xs) c =
     (if x = c then Some ([], xs)
      else map_option (\<lambda>(a, b). (x # a, b)) (split_once xs c))"

definition rsplit_once :: "string \<Rightarrow> char \<Rightarrow> (string \<times> string) option" where
  "rsplit_once s c = map_option (\<lambda>(a, b). (rev b, rev a)) (split_once (rev s) c)"

text \<open>\<open>str_find s p\<close> is \<open>s.find(p)\<close>: the index of the first occurrence.\<close>

fun str_find :: "string \<Rightarrow> string \<Rightarrow> nat option" where
  "str_find [] p = (if p = [] then Some 0 else None)"
| "str_find (x # xs) p =
     (if starts_with (x # xs) p then Some 0 else map_option Suc (str_find xs p))"

definition split_once_str :: "string \<Rightarrow> string \<Rightarrow> (string \<times> string) option" where
  "split_once_str s p =
     map_option (\<lambda>i. (take i s, drop (i + length p) s)) (str_find s p)"

text \<open>\<open>s.split(c)\<close> as the list of the pieces.\<close>

fun split_char :: "string \<Rightarrow> char \<Rightarrow> string list" where
  "split_char [] c = [[]]"
| "split_char (x # xs) c =
     (if x = c then [] # split_char xs c
      else (case split_char xs c of [] \<Rightarrow> [[x]] | p # ps \<Rightarrow> (x # p) # ps))"

text \<open>\<open>s.rsplit(c).next().unwrap_or("")\<close>: the last piece.\<close>

definition rsplit_last :: "string \<Rightarrow> char \<Rightarrow> string" where
  "rsplit_last s c = (case rsplit_once s c of None \<Rightarrow> s | Some (_, b) \<Rightarrow> b)"

fun join_with :: "string \<Rightarrow> string list \<Rightarrow> string" where
  "join_with sep [] = []"
| "join_with sep [s] = s"
| "join_with sep (s # t # ts) = s @ sep @ join_with sep (t # ts)"

subsection \<open>Characterisations\<close>

lemma starts_with_iff: "starts_with s p \<longleftrightarrow> (\<exists>t. s = p @ t)"
  unfolding starts_with_def by (metis append_eq_conv_conj append_take_drop_id)

lemma starts_with_append [simp]: "starts_with (p @ t) p"
  by (simp add: starts_with_def)

lemma starts_with_Nil [simp]: "starts_with s []"
  by (simp add: starts_with_def)

lemma starts_with_Cons: "starts_with (x # s) (y # p) \<longleftrightarrow> x = y \<and> starts_with s p"
  by (auto simp: starts_with_def)

lemma starts_with_Nil2 [simp]: "starts_with [] p \<longleftrightarrow> p = []"
  by (auto simp: starts_with_def)

lemma starts_with_append_long:
  "length p \<le> length s \<Longrightarrow> starts_with (s @ t) p \<longleftrightarrow> starts_with s p"
  by (simp add: starts_with_def)

lemma starts_with_mono: "starts_with s p \<Longrightarrow> starts_with (s @ t) p"
  by (auto simp: starts_with_iff)

lemma drop_append_le: "i \<le> length s \<Longrightarrow> drop i (s @ t) = drop i s @ t"
  by simp

lemma strip_prefix_Some: "strip_prefix s p = Some t \<longleftrightarrow> s = p @ t"
  by (auto simp: strip_prefix_def starts_with_iff)

lemma strip_prefix_append [simp]: "strip_prefix (p @ t) p = Some t"
  by (simp add: strip_prefix_Some)

lemma strip_prefix_None: "strip_prefix s p = None \<longleftrightarrow> \<not> starts_with s p"
  by (simp add: strip_prefix_def)

lemma ends_with_iff: "ends_with s p \<longleftrightarrow> (\<exists>t. s = t @ p)"
  unfolding ends_with_def starts_with_iff
  by (metis rev_append rev_rev_ident)

lemma strip_suffix_Some: "strip_suffix s p = Some t \<longleftrightarrow> s = t @ p"
  by (auto simp: strip_suffix_def ends_with_iff)

lemma strip_suffix_append [simp]: "strip_suffix (t @ p) p = Some t"
  by (simp add: strip_suffix_Some)

lemma split_once_Some: "split_once s c = Some (a, b) \<longleftrightarrow> s = a @ c # b \<and> c \<notin> set a"
proof (induction s arbitrary: a)
  case Nil
  then show ?case by simp
next
  case (Cons x xs)
  then show ?case by (cases a) auto
qed

lemma split_once_None: "split_once s c = None \<longleftrightarrow> c \<notin> set s"
  by (induction s) auto

lemma rsplit_once_Some: "rsplit_once s c = Some (a, b) \<longleftrightarrow> s = a @ c # b \<and> c \<notin> set b"
proof -
  have "rsplit_once s c = Some (a, b) \<longleftrightarrow> split_once (rev s) c = Some (rev b, rev a)"
    by (auto simp: rsplit_once_def)
  also have "\<dots> \<longleftrightarrow> rev s = rev b @ c # rev a \<and> c \<notin> set b"
    by (simp add: split_once_Some)
  also have "rev s = rev b @ c # rev a \<longleftrightarrow> s = a @ c # b"
    by (metis append.assoc append_Cons append_Nil rev.simps(2) rev_append rev_rev_ident)
  finally show ?thesis .
qed

lemma rsplit_once_None: "rsplit_once s c = None \<longleftrightarrow> c \<notin> set s"
  by (simp add: rsplit_once_def split_once_None)

lemma split_once_append [simp]: "c \<notin> set a \<Longrightarrow> split_once (a @ c # b) c = Some (a, b)"
  by (simp add: split_once_Some)

lemma rsplit_once_append [simp]: "c \<notin> set b \<Longrightarrow> rsplit_once (a @ c # b) c = Some (a, b)"
  by (simp add: rsplit_once_Some)

lemma rsplit_last_notin: "c \<notin> set (rsplit_last s c)"
  by (auto simp: rsplit_last_def rsplit_once_None rsplit_once_Some split: option.splits)

lemma rsplit_last_suffix: "\<exists>p. s = p @ rsplit_last s c"
  by (auto simp: rsplit_last_def rsplit_once_Some split: option.splits)

lemma str_find_Some:
  "str_find s p = Some i \<Longrightarrow> take i s @ p @ drop (i + length p) s = s"
proof (induction s arbitrary: i)
  case Nil
  then show ?case by (auto split: if_splits)
next
  case (Cons x xs)
  show ?case
  proof (cases "starts_with (x # xs) p")
    case True
    with Cons.prems show ?thesis
      by (auto simp: starts_with_iff)
  next
    case False
    with Cons.prems obtain j where "str_find xs p = Some j" "i = Suc j" by auto
    with Cons.IH show ?thesis by simp
  qed
qed

lemma str_find_None: "str_find s p = None \<Longrightarrow> \<not> (\<exists>a b. s = a @ p @ b)"
proof (induction s)
  case Nil
  then show ?case by (auto split: if_splits)
next
  case (Cons x xs)
  have no: "\<not> starts_with (x # xs) p" and none: "str_find xs p = None"
    using Cons.prems by (auto split: if_splits)
  show ?case
  proof (clarify)
    fix a b
    assume eq: "x # xs = a @ p @ b"
    show False
    proof (cases a)
      case Nil
      with eq no show False by (simp add: starts_with_iff)
    next
      case (Cons y ys)
      with eq Cons.IH [OF none] show False by auto
    qed
  qed
qed

text \<open>The first occurrence: nothing matches earlier.\<close>

lemma str_find_first:
  "str_find s p = Some i \<Longrightarrow> j < i \<Longrightarrow> \<not> starts_with (drop j s) p"
proof (induction s arbitrary: i j)
  case Nil
  then show ?case by (auto split: if_splits)
next
  case (Cons x xs)
  then show ?case by (cases j) (auto split: if_splits)
qed

lemma str_find_append:
  assumes "\<And>j. j < length a \<Longrightarrow> \<not> starts_with (drop j (a @ p @ b)) p"
  shows "str_find (a @ p @ b) p = Some (length a)"
  using assms
proof (induction a)
  case Nil
  have "starts_with (p @ b) p" by simp
  then show ?case by (cases "p @ b") auto
next
  case (Cons x xs)
  from Cons.prems [of 0] have "\<not> starts_with (x # xs @ p @ b) p" by simp
  moreover have "str_find (xs @ p @ b) p = Some (length xs)"
    using Cons.prems [of "Suc j" for j] by (intro Cons.IH) auto
  ultimately show ?case by simp
qed

lemma split_char_nonempty [simp]: "split_char s c \<noteq> []"
  by (cases s) (auto split: list.splits)

lemma split_char_notin: "p \<in> set (split_char s c) \<Longrightarrow> c \<notin> set p"
  by (induction s arbitrary: p) (auto split: if_splits list.splits)

lemma join_split_char: "join_with [c] (split_char s c) = s"
proof (induction s)
  case Nil
  then show ?case by simp
next
  case (Cons x xs)
  obtain p ps where pp: "split_char xs c = p # ps" by (meson neq_Nil_conv split_char_nonempty)
  with Cons show ?case by (cases ps) (auto split: list.splits)
qed

lemma split_char_no_sep: "c \<notin> set s \<Longrightarrow> split_char s c = [s]"
  by (induction s) auto

lemma split_char_append: "c \<notin> set a \<Longrightarrow> split_char (a @ c # b) c = a # split_char b c"
  by (induction a) auto

lemma split_join_char:
  "ps \<noteq> [] \<Longrightarrow> (\<And>p. p \<in> set ps \<Longrightarrow> c \<notin> set p) \<Longrightarrow> split_char (join_with [c] ps) c = ps"
  by (induction "[c]" ps rule: join_with.induct) (simp_all add: split_char_no_sep split_char_append)

subsection \<open>Decimal numbers\<close>

text \<open>\<open>s.parse::<u32>()\<close>: an optional \<open>+\<close>, then at least one decimal digit, and no overflow.\<close>

definition digit_val :: "char \<Rightarrow> nat option" where
  "digit_val c =
     (let n = of_char c :: nat in if 48 \<le> n \<and> n \<le> 57 then Some (n - 48) else None)"

fun parse_digits :: "nat \<Rightarrow> nat \<Rightarrow> string \<Rightarrow> nat option" where
  "parse_digits lim acc [] = Some acc"
| "parse_digits lim acc (c # cs) =
     (case digit_val c of
        None \<Rightarrow> None
      | Some d \<Rightarrow> if 10 * acc + d < lim then parse_digits lim (10 * acc + d) cs else None)"

definition parse_uint :: "nat \<Rightarrow> string \<Rightarrow> nat option" where
  "parse_uint lim s =
     (let ds = (case s of c # cs \<Rightarrow> if c = CHR ''+'' then cs else s | [] \<Rightarrow> s)
      in if ds = [] then None else parse_digits lim 0 ds)"

definition parse_u32 :: "string \<Rightarrow> nat option" where
  "parse_u32 s = parse_uint (2 ^ 32) s"

lemma parse_digits_bound: "acc < lim \<Longrightarrow> parse_digits lim acc s = Some n \<Longrightarrow> n < lim"
  by (induction lim acc s rule: parse_digits.induct) (auto split: option.splits if_splits)

lemma parse_uint_bound:
  assumes "0 < lim" "parse_uint lim s = Some n"
  shows "n < lim"
proof -
  from assms(2) obtain ds where "parse_digits lim 0 ds = Some n"
    by (auto simp: parse_uint_def Let_def simp del: parse_digits.simps
        split: if_splits list.splits)
  with assms(1) show ?thesis by (rule parse_digits_bound)
qed

lemma parse_u32_bound: "parse_u32 s = Some n \<Longrightarrow> n < 2 ^ 32"
  unfolding parse_u32_def by (rule parse_uint_bound) simp_all

subsection \<open>Decimal numbers, as \<open>Display\<close> prints them\<close>

fun digit_char :: "nat \<Rightarrow> char" where
  "digit_char n = char_of (48 + n)"

fun dec :: "nat \<Rightarrow> string" where
  "dec n = (if n < 10 then [digit_char n] else dec (n div 10) @ [digit_char (n mod 10)])"

declare dec.simps [simp del]

definition int_dec :: "int \<Rightarrow> string" where
  "int_dec i = (if i < 0 then CHR ''-'' # dec (nat (- i)) else dec (nat i))"

lemma digit_val_char: "d < 10 \<Longrightarrow> digit_val (digit_char d) = Some d"
  by (simp add: digit_val_def)

lemma parse_digits_append:
  "parse_digits lim acc (s @ t) = Option.bind (parse_digits lim acc s) (\<lambda>n. parse_digits lim n t)"
  by (induction s arbitrary: acc) (auto split: option.split)

lemma parse_digits_dec: "n < lim \<Longrightarrow> parse_digits lim 0 (dec n) = Some n"
proof (induction n rule: dec.induct)
  case (1 n)
  show ?case
  proof (cases "n < 10")
    case True
    with 1 show ?thesis by (simp add: dec.simps [of n] digit_val_char del: digit_char.simps)
  next
    case False
    then have "parse_digits lim 0 (dec (n div 10)) = Some (n div 10)" using 1 by simp
    moreover have "10 * (n div 10) + n mod 10 = n" by simp
    ultimately show ?thesis
      using False 1(2) by (simp add: dec.simps [of n] parse_digits_append digit_val_char del: digit_char.simps)
  qed
qed

lemma dec_not_Nil [simp]: "dec n \<noteq> []"
  by (simp add: dec.simps [of n])

lemma digit_char_ne: "n < 10 \<Longrightarrow> digit_char n \<noteq> CHR ''+''"
proof
  assume "n < 10" "digit_char n = CHR ''+''"
  then have "digit_val (CHR ''+'') = Some n" using digit_val_char by metis
  then show False by (simp add: digit_val_def)
qed

lemma hd_dec: "\<exists>d < 10. hd (dec n) = digit_char d"
proof (induction n rule: dec.induct)
  case (1 n)
  then show ?case by (cases "n < 10") (auto simp: dec.simps [of n] simp del: digit_char.simps)
qed

lemma parse_u32_dec: "n < 2 ^ 32 \<Longrightarrow> parse_u32 (dec n) = Some n"
proof -
  assume n: "n < 2 ^ 32"
  obtain c cs where c: "dec n = c # cs" by (cases "dec n") auto
  with hd_dec [of n] digit_char_ne have "c \<noteq> CHR ''+''" by (metis list.sel(1))
  with n c parse_digits_dec [of n "2 ^ 32"] show ?thesis
    by (simp add: parse_u32_def parse_uint_def Let_def)
qed

lemma dec_digits: "c \<in> set (dec n) \<Longrightarrow> digit_val c \<noteq> None"
proof (induction n rule: dec.induct)
  case (1 n)
  then show ?case
    by (cases "n < 10") (auto simp: dec.simps [of n] digit_val_char simp del: digit_char.simps)
qed

lemma dec_inj: "dec m = dec n \<Longrightarrow> m = n"
proof -
  assume eq: "dec m = dec n"
  have "m < Suc (m + n)" "n < Suc (m + n)" by simp_all
  then have "Some m = Some n" using parse_digits_dec eq by metis
  then show "m = n" by simp
qed

text \<open>\<open>s.contains(p)\<close> and \<open>s.trim_start_matches(c)\<close>.\<close>

definition contains_str :: "string \<Rightarrow> string \<Rightarrow> bool" where
  "contains_str s p \<longleftrightarrow> str_find s p \<noteq> None"

end
