(* ===== verification/Std_Coll.thy ===== *)
theory Std_Coll
  imports Prelude
begin

section \<open>BTreeMap and BTreeSet\<close>

text \<open>
  The Rust code keys almost everything by \<open>BTreeMap\<close> and \<open>BTreeSet\<close> so that iteration is in
  key order.  A \<open>BTreeMap<K, V>\<close> is modelled by its list of entries in strictly ascending key order,
  a \<open>BTreeSet<T>\<close> by its list of elements in strictly ascending order.  Both are executable and
  iterate as the Rust collections do; lookup is \<open>map_of\<close>, membership is \<open>\<in> set\<close>.
\<close>

type_synonym ('k, 'v) bmap = "('k \<times> 'v) list"
type_synonym 'a bset = "'a list"

fun bm_insert :: "'k::linorder \<Rightarrow> 'v \<Rightarrow> ('k, 'v) bmap \<Rightarrow> ('k, 'v) bmap" where
  "bm_insert k v [] = [(k, v)]"
| "bm_insert k v ((k', v') # m) =
     (if k < k' then (k, v) # (k', v') # m
      else if k = k' then (k, v) # m
      else (k', v') # bm_insert k v m)"

fun bm_remove :: "'k::linorder \<Rightarrow> ('k, 'v) bmap \<Rightarrow> ('k, 'v) bmap" where
  "bm_remove k [] = []"
| "bm_remove k ((k', v') # m) = (if k = k' then m else (k', v') # bm_remove k m)"

definition bm_get :: "('k, 'v) bmap \<Rightarrow> 'k \<Rightarrow> 'v option" where
  "bm_get m k = map_of m k"

definition bm_keys :: "('k, 'v) bmap \<Rightarrow> 'k list" where
  "bm_keys m = map fst m"

definition bm_ok :: "('k::linorder, 'v) bmap \<Rightarrow> bool" where
  "bm_ok m \<longleftrightarrow> sorted_wrt (<) (map fst m)"

fun bs_insert :: "'a::linorder \<Rightarrow> 'a bset \<Rightarrow> 'a bset" where
  "bs_insert x [] = [x]"
| "bs_insert x (y # ys) =
     (if x < y then x # y # ys else if x = y then y # ys else y # bs_insert x ys)"

definition bs_ok :: "'a::linorder bset \<Rightarrow> bool" where
  "bs_ok xs \<longleftrightarrow> sorted_wrt (<) xs"

text \<open>\<open>map.entry(k).or_insert(d)\<close> followed by an update in place.\<close>

definition bm_entry :: "'k::linorder \<Rightarrow> 'v \<Rightarrow> ('v \<Rightarrow> 'v) \<Rightarrow> ('k, 'v) bmap \<Rightarrow> ('k, 'v) bmap" where
  "bm_entry k d f m = bm_insert k (f (case bm_get m k of None \<Rightarrow> d | Some v \<Rightarrow> v)) m"

text \<open>
  A \<open>HashSet\<close> iterates in an unspecified order: it is the list of its elements in whatever order the
  iteration has, and no result below depends on that order.
\<close>

definition hs_insert :: "'a \<Rightarrow> 'a list \<Rightarrow> 'a list" where
  "hs_insert x xs = (if x \<in> set xs then xs else xs @ [x])"

text \<open>
  The loop body every breadth-first search of the repository has: each neighbour that
  \<open>seen.insert\<close> reports as new is pushed on the queue.
\<close>

fun mark_new :: "'a::linorder list \<Rightarrow> 'a bset \<Rightarrow> 'a list \<Rightarrow> 'a bset \<times> 'a list" where
  "mark_new [] seen q = (seen, q)"
| "mark_new (d # ds) seen q =
     (if d \<in> set seen then mark_new ds seen q
      else mark_new ds (bs_insert d seen) (q @ [d]))"

text \<open>\<open>set.extend(xs)\<close>, \<open>iter.collect()\<close>, \<open>&a | &b\<close>, \<open>&a - &b\<close>, \<open>&a & &b\<close>.\<close>

definition bs_extend :: "'a::linorder bset \<Rightarrow> 'a list \<Rightarrow> 'a bset" where
  "bs_extend s xs = fold bs_insert xs s"

definition bs_of :: "'a::linorder list \<Rightarrow> 'a bset" where
  "bs_of xs = bs_extend [] xs"

definition bs_union :: "'a::linorder bset \<Rightarrow> 'a bset \<Rightarrow> 'a bset" where
  "bs_union a b = bs_extend a b"

definition bs_diff :: "'a::linorder bset \<Rightarrow> 'a bset \<Rightarrow> 'a bset" where
  "bs_diff a b = filter (\<lambda>x. x \<notin> set b) a"

definition bs_inter :: "'a::linorder bset \<Rightarrow> 'a bset \<Rightarrow> 'a bset" where
  "bs_inter a b = filter (\<lambda>x. x \<in> set b) a"

definition bm_of :: "('k::linorder \<times> 'v) list \<Rightarrow> ('k, 'v) bmap" where
  "bm_of kvs = fold (\<lambda>(k, v). bm_insert k v) kvs []"

subsection \<open>Laws of the map\<close>

lemma bm_get_Nil [simp]: "bm_get [] k = None"
  by (simp add: bm_get_def)

lemma bm_keys_set: "set (bm_keys m) = {k. bm_get m k \<noteq> None}"
  by (simp add: bm_keys_def bm_get_def map_of_eq_None_iff)

lemma bm_get_insert [simp]:
  "bm_get (bm_insert k v m) k' = (if k' = k then Some v else bm_get m k')"
  by (induction m) (auto simp: bm_get_def)

lemma set_fst_bm_insert [simp]: "fst ` set (bm_insert k v m) = insert k (fst ` set m)"
  by (induction k v m rule: bm_insert.induct) (simp_all add: insert_commute)

lemma bm_ok_Nil [simp]: "bm_ok []"
  by (simp add: bm_ok_def)

lemma bm_ok_Cons [simp]: "bm_ok ((k, v) # m) \<longleftrightarrow> (\<forall>k' \<in> fst ` set m. k < k') \<and> bm_ok m"
  by (auto simp: bm_ok_def)

lemma bm_ok_insert [simp, inv_intros]: "bm_ok m \<Longrightarrow> bm_ok (bm_insert k v m)"
proof (induction k v m rule: bm_insert.induct)
  case (1 k v)
  then show ?case by simp
next
  case (2 k v k' v' m)
  show ?case
  proof (cases k k' rule: linorder_cases)
    case less
    then have "k < fst x" if "x \<in> set m" for x
      using 2 that by (auto dest: less_trans)
    with less 2 show ?thesis by simp
  qed (use 2 in \<open>auto dest: less_asym\<close>)
qed

lemma bm_get_remove:
  "bm_ok m \<Longrightarrow> bm_get (bm_remove k m) k' = (if k' = k then None else bm_get m k')"
proof (induction m)
  case Nil
  then show ?case by simp
next
  case (Cons p m)
  obtain a b where p: "p = (a, b)" by (cases p)
  have "map_of m a = None"
    using Cons.prems p by (auto simp: map_of_eq_None_iff)
  with Cons p show ?case by (auto simp: bm_get_def)
qed

lemma set_bm_remove_subset: "set (bm_remove k m) \<subseteq> set m"
  by (induction k m rule: bm_remove.induct) auto

lemma set_fst_bm_remove: "fst ` set (bm_remove k m) \<subseteq> fst ` set m"
  by (rule image_mono) (rule set_bm_remove_subset)

lemma bm_ok_remove [simp, inv_intros]: "bm_ok m \<Longrightarrow> bm_ok (bm_remove k m)"
proof (induction m)
  case (Cons p m)
  obtain a b where p: "p = (a, b)" by (cases p)
  have "a < k'" if "k' \<in> fst ` set (bm_remove k m)" for k'
    using Cons.prems p that set_fst_bm_remove [of k m] by fastforce
  with Cons p show ?case by simp
qed simp

lemma bm_ok_distinct: "bm_ok m \<Longrightarrow> distinct (map fst m)"
  by (simp add: bm_ok_def sorted_wrt_less_distinct)

lemma bm_get_in_set: "bm_ok m \<Longrightarrow> bm_get m k = Some v \<longleftrightarrow> (k, v) \<in> set m"
  by (simp add: bm_get_def bm_ok_distinct)

lemma bm_get_Some_in_set: "bm_get m k = Some v \<Longrightarrow> (k, v) \<in> set m"
  by (simp add: bm_get_def map_of_SomeD)

lemma bm_eq_by_get:
  assumes "bm_ok m" "bm_ok m'" "\<And>k. bm_get m k = bm_get m' k"
  shows "m = m'"
proof -
  have "set m = set m'"
    using assms bm_get_in_set by (metis surj_pair subsetI subset_antisym)
  then show ?thesis
    using assms(1,2) by (intro map_sorted_distinct_set_unique [where f = fst])
      (auto simp: bm_ok_def strict_sorted_iff distinct_map)
qed

lemma bm_ok_of: "bm_ok (bm_of kvs)"
proof -
  have "bm_ok m \<Longrightarrow> bm_ok (fold (\<lambda>(k, v). bm_insert k v) kvs m)" for m
    by (induction kvs arbitrary: m) auto
  then show ?thesis by (simp add: bm_of_def)
qed

subsection \<open>Laws of the set\<close>

lemma set_bs_insert [simp]: "set (bs_insert x s) = insert x (set s)"
  by (induction x s rule: bs_insert.induct) (simp_all add: insert_commute)

lemma bs_ok_Nil [simp]: "bs_ok []"
  by (simp add: bs_ok_def)

lemma bs_ok_Cons [simp]: "bs_ok (x # xs) \<longleftrightarrow> (\<forall>y \<in> set xs. x < y) \<and> bs_ok xs"
  by (simp add: bs_ok_def)

lemma bs_ok_insert [simp, inv_intros]: "bs_ok s \<Longrightarrow> bs_ok (bs_insert x s)"
proof (induction x s rule: bs_insert.induct)
  case (1 x)
  then show ?case by simp
next
  case (2 x y ys)
  show ?case
  proof (cases x y rule: linorder_cases)
    case less
    with 2 show ?thesis by (auto dest: less_trans)
  qed (use 2 in \<open>auto dest: less_asym\<close>)
qed

lemma set_bs_extend [simp]: "set (bs_extend s xs) = set s \<union> set xs"
  by (induction xs arbitrary: s) (auto simp: bs_extend_def)

lemma bs_ok_extend [simp, inv_intros]: "bs_ok s \<Longrightarrow> bs_ok (bs_extend s xs)"
  by (induction xs arbitrary: s) (simp_all add: bs_extend_def)

lemma set_bs_of [simp]: "set (bs_of xs) = set xs"
  by (simp add: bs_of_def)

lemma bs_ok_of [simp, inv_intros]: "bs_ok (bs_of xs)"
  by (simp add: bs_of_def)

lemma set_bs_union [simp]: "set (bs_union a b) = set a \<union> set b"
  by (simp add: bs_union_def)

lemma bs_ok_union [simp, inv_intros]: "bs_ok a \<Longrightarrow> bs_ok (bs_union a b)"
  by (simp add: bs_union_def)

lemma set_bs_diff [simp]: "set (bs_diff a b) = set a - set b"
  by (auto simp: bs_diff_def)

lemma set_bs_inter [simp]: "set (bs_inter a b) = set a \<inter> set b"
  by (auto simp: bs_inter_def)

lemma bs_ok_filter [simp, inv_intros]: "bs_ok s \<Longrightarrow> bs_ok (filter P s)"
  by (simp add: bs_ok_def sorted_wrt_filter)

lemma bs_ok_diff [simp, inv_intros]: "bs_ok a \<Longrightarrow> bs_ok (bs_diff a b)"
  by (simp add: bs_diff_def)

lemma bs_ok_inter [simp, inv_intros]: "bs_ok a \<Longrightarrow> bs_ok (bs_inter a b)"
  by (simp add: bs_inter_def)

lemma bs_eq_by_set: "bs_ok a \<Longrightarrow> bs_ok b \<Longrightarrow> set a = set b \<Longrightarrow> a = b"
  unfolding bs_ok_def by (rule strict_sorted_unique)

lemma bs_of_id: "bs_ok s \<Longrightarrow> bs_of s = s"
  by (rule bs_eq_by_set) simp_all

lemma bs_ok_keys: "bm_ok m \<Longrightarrow> bs_ok (bm_keys m)"
  by (simp add: bm_ok_def bs_ok_def bm_keys_def)

lemma set_hs_insert [simp]: "set (hs_insert x xs) = insert x (set xs)"
  by (auto simp: hs_insert_def)

lemma distinct_hs_insert [simp]: "distinct xs \<Longrightarrow> distinct (hs_insert x xs)"
  by (simp add: hs_insert_def)

lemma bm_get_entry [simp]:
  "bm_get (bm_entry k d f m) k' =
     (if k' = k then Some (f (case bm_get m k of None \<Rightarrow> d | Some v \<Rightarrow> v)) else bm_get m k')"
  by (simp add: bm_entry_def)

lemma bm_ok_entry [simp, inv_intros]: "bm_ok m \<Longrightarrow> bm_ok (bm_entry k d f m)"
  by (simp add: bm_entry_def)

lemma mark_new_result:
  assumes "mark_new ds seen q = (seen', q')"
  obtains new where "q' = q @ new" "set seen' = set seen \<union> set ds"
    "set new = set ds - set seen" "distinct new"
proof -
  have "\<exists>new. q' = q @ new \<and> set seen' = set seen \<union> set ds \<and> set new = set ds - set seen \<and> distinct new"
    using assms
  proof (induction ds seen q rule: mark_new.induct)
    case (1 seen q)
    then show ?case by simp
  next
    case (2 d ds seen q)
    show ?case
    proof (cases "d \<in> set seen")
      case True
      with 2 show ?thesis by auto
    next
      case False
      with 2 obtain new where "q' = q @ d # new" "set seen' = insert d (set seen) \<union> set ds"
        "set new = set ds - insert d (set seen)" "distinct new" by auto
      with False show ?thesis by (intro exI [of _ "d # new"]) auto
    qed
  qed
  with that show thesis by blast
qed

lemma mark_new_ok [inv_intros]: "mark_new ds seen q = (seen', q') \<Longrightarrow> bs_ok seen \<Longrightarrow> bs_ok seen'"
  by (induction ds seen q rule: mark_new.induct) (auto split: if_splits)

text \<open>
  The measure of a search: what is not marked yet plus what waits.  One step removes a waiting
  node and moves every node it adds from the first part to the second.
\<close>

lemma search_measure:
  assumes "finite U" "mark_new ds seen q = (seen', q')" "set ds \<subseteq> U"
  shows "card (U - set seen') + length q' = card (U - set seen) + length q"
proof -
  obtain new where new: "q' = q @ new" "set seen' = set seen \<union> set ds"
    "set new = set ds - set seen" "distinct new"
    by (rule mark_new_result [OF assms(2)])
  have "U - set seen = (U - set seen') \<union> set new" "(U - set seen') \<inter> set new = {}"
    using new assms(3) by auto
  with assms(1) have "card (U - set seen) = card (U - set seen') + length new"
    by (simp add: card_Un_disjoint distinct_card [OF new(4)])
  with new(1) show ?thesis by simp
qed

subsection \<open>The interfaces the components rely on\<close>

text \<open>
  What a component needs of a map: lookups after \<open>insert\<close> and \<open>remove\<close>, and a representation
  invariant that both keep.  The laws hold for the ordered map above; the components that keep their
  facts in a map (the provider store, the query graph, the overlay views) use them through the
  interpretations of this locale.
\<close>

locale map_store =
  fixes get :: "'m \<Rightarrow> 'k \<Rightarrow> 'v option"
    and put :: "'k \<Rightarrow> 'c \<Rightarrow> 'm \<Rightarrow> 'm"
    and stored :: "'c \<Rightarrow> 'v"
    and ok :: "'m \<Rightarrow> bool"
  assumes get_put: "ok m \<Longrightarrow> get (put k c m) k' = (if k' = k then Some (stored c) else get m k')"
    and ok_put: "ok m \<Longrightarrow> ok (put k c m)"
begin

definition put_all :: "('k \<times> 'c) list \<Rightarrow> 'm \<Rightarrow> 'm" where
  "put_all kcs m = fold (\<lambda>(k, c). put k c) kcs m"

lemma put_all_Nil [simp]: "put_all [] m = m"
  by (simp add: put_all_def)

lemma put_all_Cons [simp]: "put_all ((k, c) # kcs) m = put_all kcs (put k c m)"
  by (simp add: put_all_def)

lemma ok_put_all: "ok m \<Longrightarrow> ok (put_all kcs m)"
proof (induction kcs arbitrary: m)
  case (Cons p kcs)
  then show ?case by (cases p) (simp add: ok_put)
qed simp

lemma get_put_all:
  "ok m \<Longrightarrow> get (put_all kcs m) k =
     (case map_of (rev kcs) k of Some c \<Rightarrow> Some (stored c) | None \<Rightarrow> get m k)"
proof (induction kcs arbitrary: m)
  case Nil
  then show ?case by simp
next
  case (Cons p kcs)
  obtain a b where p: "p = (a, b)" by (cases p)
  from Cons.prems have "ok (put a b m)" by (rule ok_put)
  with Cons.IH [of "put a b m"] Cons.prems p show ?case
    by (auto simp: get_put map_add_def split: option.splits)
qed

lemma put_overwrites: "ok m \<Longrightarrow> get (put k c (put k d m)) = get (put k c m)"
  by (rule ext) (simp add: get_put ok_put)

lemma put_commute:
  "ok m \<Longrightarrow> k \<noteq> k' \<Longrightarrow> get (put k c (put k' c' m)) = get (put k' c' (put k c m))"
  by (rule ext) (simp add: get_put ok_put)

end

interpretation bm: map_store
  "bm_get :: ('k::linorder, 'v) bmap \<Rightarrow> 'k \<Rightarrow> 'v option" bm_insert "\<lambda>v. v" bm_ok
  by unfold_locales simp_all

lemma bm_get_of: "bm_get (bm_of kvs) k = map_of (rev kvs) k"
proof -
  have "bm_of kvs = bm.put_all kvs []"
    by (simp add: bm_of_def bm.put_all_def)
  then show ?thesis by (simp add: bm.get_put_all split: option.splits)
qed

end
