(* ===== verification/Core.thy ===== *)
theory Core
  imports Std_Str Std_Coll "HOL-Library.Word"
begin

section \<open>razel-core: digests, logical ids, canonical labels\<close>

text \<open>
  \<^verbatim>\<open>crates/razel-core/src/lib.rs\<close>.  The digest is a newtype over 32 bytes; the hash
  function itself (the \<open>blake3\<close> crate) is not in the repository, so every definition that hashes
  takes it as the argument \<open>hash\<close>.  The derived orders of the Rust types are the lexicographic orders
  of their fields, stated once through an injective key into an ordered type.  \<open>Istr\<close> (a shared string
  slice with value semantics) is \<open>string\<close>.
\<close>

type_synonym byte = "8 word"

subsection \<open>Digests\<close>

datatype digest = Digest (digest_bytes: "byte list")

text \<open>\<open>[u8; 32]\<close>: every digest of the program has 32 bytes.\<close>

definition digest_ok :: "digest \<Rightarrow> bool" where
  "digest_ok d \<longleftrightarrow> length (digest_bytes d) = 32"

definition str_bytes :: "string \<Rightarrow> byte list" where
  "str_bytes s = map (\<lambda>c. of_nat (of_char c)) s"

definition digest_of :: "(byte list \<Rightarrow> byte list) \<Rightarrow> byte list \<Rightarrow> digest" where
  "digest_of hash bs = Digest (hash bs)"

definition hex_digit :: "nat \<Rightarrow> char" where
  "hex_digit n = char_of (if n < 10 then 48 + n else 87 + n)"

definition hex_byte :: "byte \<Rightarrow> string" where
  "hex_byte b = [hex_digit (unat b div 16), hex_digit (unat b mod 16)]"

definition to_hex :: "digest \<Rightarrow> string" where
  "to_hex d = concat (map hex_byte (digest_bytes d))"

definition digest_debug :: "digest \<Rightarrow> string" where
  "digest_debug d = ''Digest('' @ take 8 (to_hex d) @ [CHR 0xE2, CHR 0x80, CHR 0xA6] @ '')''"

text \<open>The derived order of \<open>Digest([u8; 32])\<close>: the bytes, lexicographically.\<close>

instantiation digest :: linorder
begin

definition less_eq_digest :: "digest \<Rightarrow> digest \<Rightarrow> bool" where
  "less_eq_digest a b \<longleftrightarrow> digest_bytes a \<le> digest_bytes b"

definition less_digest :: "digest \<Rightarrow> digest \<Rightarrow> bool" where
  "less_digest a b \<longleftrightarrow> digest_bytes a < digest_bytes b"

instance
  by standard (auto simp: less_eq_digest_def less_digest_def intro: digest.expand)

end

subsection \<open>Ids and node references\<close>

datatype file_id = FileId string
datatype action_id = ActionId string
datatype target_id = TargetId string

datatype node_ref = NFile file_id | NAction action_id | NTarget target_id

text \<open>The derived \<open>Ord\<close>: the variants in declaration order, then the string.\<close>

fun node_ref_key :: "node_ref \<Rightarrow> nat \<times> string" where
  "node_ref_key (NFile (FileId s)) = (0, s)"
| "node_ref_key (NAction (ActionId s)) = (1, s)"
| "node_ref_key (NTarget (TargetId s)) = (2, s)"

lemma node_ref_key_inj: "node_ref_key a = node_ref_key b \<Longrightarrow> a = b"
  by (cases a rule: node_ref_key.cases; cases b rule: node_ref_key.cases) auto

instantiation node_ref :: linorder
begin

definition less_eq_node_ref :: "node_ref \<Rightarrow> node_ref \<Rightarrow> bool" where
  "less_eq_node_ref a b \<longleftrightarrow> node_ref_key a \<le> node_ref_key b"

definition less_node_ref :: "node_ref \<Rightarrow> node_ref \<Rightarrow> bool" where
  "less_node_ref a b \<longleftrightarrow> node_ref_key a < node_ref_key b"

instance
  by standard (auto simp: less_eq_node_ref_def less_node_ref_def dest: node_ref_key_inj)

end

instantiation target_id :: linorder
begin

fun less_eq_target_id :: "target_id \<Rightarrow> target_id \<Rightarrow> bool" where
  "less_eq_target_id (TargetId a) (TargetId b) \<longleftrightarrow> a \<le> b"

fun less_target_id :: "target_id \<Rightarrow> target_id \<Rightarrow> bool" where
  "less_target_id (TargetId a) (TargetId b) \<longleftrightarrow> a < b"

instance
proof
  fix x y z :: target_id
  show "x < y \<longleftrightarrow> x \<le> y \<and> \<not> y \<le> x" by (cases x; cases y) auto
  show "x \<le> x" by (cases x) auto
  show "x \<le> y \<Longrightarrow> y \<le> z \<Longrightarrow> x \<le> z" by (cases x; cases y; cases z) auto
  show "x \<le> y \<Longrightarrow> y \<le> x \<Longrightarrow> x = y" by (cases x; cases y) auto
  show "x \<le> y \<or> y \<le> x" by (cases x; cases y) auto
qed

end

subsection \<open>Canonical labels\<close>

datatype label = Label (repository: string) (package_name: string) (label_name: string)

datatype label_error = LabelError string

definition label_key :: "label \<Rightarrow> string \<times> string \<times> string" where
  "label_key l = (repository l, package_name l, label_name l)"

lemma label_key_inj: "label_key a = label_key b \<Longrightarrow> a = b"
  by (cases a; cases b) (simp add: label_key_def)

instantiation label :: linorder
begin

definition less_eq_label :: "label \<Rightarrow> label \<Rightarrow> bool" where
  "less_eq_label a b \<longleftrightarrow> label_key a \<le> label_key b"

definition less_label :: "label \<Rightarrow> label \<Rightarrow> bool" where
  "less_label a b \<longleftrightarrow> label_key a < label_key b"

instance
  by standard (auto simp: less_eq_label_def less_label_def dest: label_key_inj)

end

text \<open>The body \<open>package[:name]\<close>; the name defaults to the last segment of the package.\<close>

definition finish :: "string \<Rightarrow> string \<Rightarrow> label option" where
  "finish repo body =
     (let (package, name) =
        (case split_once body (CHR '':'') of
           Some (pkg, name) \<Rightarrow> (pkg, name)
         | None \<Rightarrow> (body, rsplit_last body (CHR ''/'')))
      in if name = [] then None else Some (Label repo package name))"

definition parse_canonical :: "string \<Rightarrow> label_error + label" where
  "parse_canonical s =
     (let err = (\<lambda>m. Inl (LabelError (m @ '': `'' @ s @ ''`'')));
          (rest, had_repo) =
            (case strip_prefix s ''@@'' of
               Some r \<Rightarrow> (r, True)
             | None \<Rightarrow> (case strip_prefix s ''@'' of Some r \<Rightarrow> (r, True) | None \<Rightarrow> (s, False)))
      in if had_repo then
           (case str_find rest ''//'' of
              None \<Rightarrow>
                if rest = [] then err ''empty repository name''
                else Inr (Label rest [] rest)
            | Some idx \<Rightarrow>
                (let repo_name = take idx rest
                 in if repo_name = [] then err ''empty repository name''
                    else (case finish repo_name (drop (idx + 2) rest) of
                            None \<Rightarrow> err ''invalid label body''
                          | Some l \<Rightarrow> Inr l)))
         else
           (case strip_prefix s ''//'' of
              None \<Rightarrow> err ''label must start with `//` or `@`''
            | Some body \<Rightarrow>
                (case finish [] body of
                   None \<Rightarrow> err ''invalid label body''
                 | Some l \<Rightarrow> Inr l)))"

definition label_display :: "label \<Rightarrow> string" where
  "label_display l =
     (if repository l = [] then ''//'' @ package_name l @ '':'' @ label_name l
      else ''@@'' @ repository l @ ''//'' @ package_name l @ '':'' @ label_name l)"

text \<open>
  What parsing guarantees and printing needs: a name, a package without a colon (the first colon ends
  it), and a repository in which the separator \<open>//\<close> that follows is the first one.
\<close>

definition label_ok :: "label \<Rightarrow> bool" where
  "label_ok l \<longleftrightarrow>
     label_name l \<noteq> [] \<and> CHR '':'' \<notin> set (package_name l) \<and>
     (\<forall>i < length (repository l). \<not> starts_with (drop i (repository l @ ''//'')) ''//'')"

subsection \<open>Facts about digests\<close>

lemma digest_ok_of: "(\<And>bs. length (hash bs) = 32) \<Longrightarrow> digest_ok (digest_of hash bs)"
  by (simp add: digest_ok_def digest_of_def)

lemma of_char_hex_digit:
  "n < 16 \<Longrightarrow> (of_char (hex_digit n) :: nat) = (if n < 10 then 48 + n else 87 + n)"
  by (simp add: hex_digit_def)

lemma hex_digit_inj: "m < 16 \<Longrightarrow> n < 16 \<Longrightarrow> hex_digit m = hex_digit n \<Longrightarrow> m = n"
  by (drule arg_cong [where f = "of_char :: char \<Rightarrow> nat"])
    (simp add: of_char_hex_digit split: if_splits)

lemma hex_byte_inj: "hex_byte a = hex_byte b \<Longrightarrow> a = b"
proof -
  assume eq: "hex_byte a = hex_byte b"
  have "unat a < 256" "unat b < 256"
    using unsigned_less [of a] unsigned_less [of b] by simp_all
  with eq have "unat a div 16 = unat b div 16" "unat a mod 16 = unat b mod 16"
    by (auto simp: hex_byte_def intro: hex_digit_inj)
  then have "unat a = unat b" by (metis div_mult_mod_eq)
  then show "a = b" by (rule word_unat_eq_iff [THEN iffD2])
qed

lemma length_hex_byte [simp]: "length (hex_byte b) = 2"
  by (simp add: hex_byte_def)

lemma length_concat_hex [simp]: "length (concat (map hex_byte bs)) = 2 * length bs"
  by (induction bs) simp_all

lemma to_hex_length: "length (to_hex d) = 2 * length (digest_bytes d)"
  by (simp add: to_hex_def)

lemma concat_hex_inj:
  "concat (map hex_byte as) = concat (map hex_byte bs) \<Longrightarrow> as = bs"
proof (induction as arbitrary: bs)
  case Nil
  then show ?case by (cases bs) (auto simp: hex_byte_def)
next
  case (Cons a as)
  then obtain b bs' where bs: "bs = b # bs'" by (cases bs) (auto simp: hex_byte_def)
  with Cons.prems have "hex_byte a = hex_byte b"
    and "concat (map hex_byte as) = concat (map hex_byte bs')"
    by (auto dest: append_eq_append_conv [THEN iffD1, rotated])
  with Cons.IH bs show ?case by (auto dest: hex_byte_inj)
qed

lemma to_hex_inj: "to_hex a = to_hex b \<Longrightarrow> a = b"
  by (auto simp: to_hex_def dest: concat_hex_inj intro: digest.expand)

lemma char_byte_inj: "(of_nat (of_char x) :: byte) = of_nat (of_char y) \<Longrightarrow> x = y"
  by (drule arg_cong [where f = unat]) (simp add: unsigned_of_nat take_bit_eq_mod)

lemma str_bytes_inj: "str_bytes a = str_bytes b \<Longrightarrow> a = b"
  unfolding str_bytes_def by (rule map_injective) (auto intro!: injI char_byte_inj)

lemma length_str_bytes [simp]: "length (str_bytes s) = length s"
  by (simp add: str_bytes_def)

subsection \<open>Facts about labels\<close>

lemma finish_Some:
  assumes "finish repo body = Some l"
  shows "repository l = repo" "label_name l \<noteq> []" "CHR '':'' \<notin> set (package_name l)"
  using assms
  by (auto simp: finish_def split_once_Some split_once_None split: option.splits if_splits)

lemma finish_display:
  assumes "label_name l \<noteq> []" "CHR '':'' \<notin> set (package_name l)"
  shows "finish (repository l) (package_name l @ CHR '':'' # label_name l) = Some l"
  using assms by (cases l) (simp add: finish_def)

lemma no_separator_inside:
  assumes "str_find r ''//'' = None" "r \<noteq> []" "last r \<noteq> CHR ''/''" "i < length r"
  shows "\<not> starts_with (drop i (r @ ''//'')) ''//''"
proof
  assume sw: "starts_with (drop i (r @ ''//'')) ''//''"
  show False
  proof (cases "Suc i < length r")
    case True
    then have "length ''//'' \<le> length (drop i r)" by simp
    with sw \<open>i < length r\<close> have "starts_with (drop i r) ''//''"
      by (simp add: starts_with_append_long)
    then obtain t where "drop i r = ''//'' @ t" by (auto simp: starts_with_iff)
    then have "r = take i r @ ''//'' @ t" by (metis append_take_drop_id)
    with str_find_None [OF assms(1)] show False by blast
  next
    case False
    with \<open>i < length r\<close> have i: "i = length r - 1" by simp
    then have "drop i r = [last r]" using \<open>r \<noteq> []\<close>
      by (metis append_butlast_last_id append_eq_conv_conj length_butlast)
    with sw \<open>i < length r\<close> assms(3) show False by (simp add: starts_with_def)
  qed
qed

lemma parse_label_ok:
  assumes "parse_canonical s = Inr l"
    and "repository l = [] \<or> last (repository l) \<noteq> CHR ''/''"
  shows "label_ok l"
proof -
  consider (short) r where "r \<noteq> []" "str_find r ''//'' = None" "l = Label r [] r"
    | (repo) r idx where "str_find r ''//'' = Some idx" "finish (take idx r) (drop (idx + 2) r) = Some l"
    | (main) body where "finish [] body = Some l"
    using assms(1)
    by (auto simp: parse_canonical_def Let_def split: option.splits if_splits)
  then show ?thesis
  proof cases
    case short
    with assms(2) show ?thesis by (auto simp: label_ok_def dest: no_separator_inside)
  next
    case repo
    note l = finish_Some [OF repo(2)]
    have split: "r = (take idx r @ ''//'') @ drop (idx + 2) r"
      using str_find_Some [OF repo(1)] by simp
    have "\<not> starts_with (drop i (take idx r @ ''//'')) ''//''" if "i < length (take idx r)" for i
    proof -
      have "\<not> starts_with (drop i r) ''//''"
        using str_find_first [OF repo(1)] that by simp
      moreover have "drop i r = drop i (take idx r @ ''//'') @ drop (idx + 2) r"
        using that arg_cong [OF split, of "drop i"]
          drop_append_le [of i "take idx r @ ''//''" "drop (idx + 2) r"] by simp
      ultimately show ?thesis by (metis starts_with_mono)
    qed
    with l show ?thesis by (simp add: label_ok_def)
  next
    case main
    from finish_Some [OF main] show ?thesis by (simp add: label_ok_def)
  qed
qed

lemma parse_display:
  assumes "label_ok l"
  shows "parse_canonical (label_display l) = Inr l"
proof (cases "repository l = []")
  case True
  with assms finish_display [of l] show ?thesis
    by (simp add: label_display_def parse_canonical_def label_ok_def strip_prefix_def starts_with_Cons)
next
  case False
  let ?r = "repository l" and ?b = "package_name l @ CHR '':'' # label_name l"
  have disp: "label_display l = ''@@'' @ ?r @ ''//'' @ ?b"
    using False by (simp add: label_display_def)
  have "str_find (?r @ ''//'' @ ?b) ''//'' = Some (length ?r)"
  proof (rule str_find_append)
    fix j
    assume j: "j < length ?r"
    then have "\<not> starts_with (drop j (?r @ ''//'')) ''//''"
      using assms by (simp add: label_ok_def)
    moreover have "drop j (?r @ ''//'' @ ?b) = drop j (?r @ ''//'') @ ?b" "2 \<le> length (drop j (?r @ ''//''))"
      using j by simp_all
    ultimately show "\<not> starts_with (drop j (?r @ ''//'' @ ?b)) ''//''"
      by (simp add: starts_with_append_long del: drop_append)
  qed
  with False finish_display [of l] assms show ?thesis
    unfolding disp parse_canonical_def strip_prefix_append
    by (simp add: label_ok_def)
qed

end
