(* ===== verification/Vfs.thy ===== *)
theory Vfs
  imports Core
begin

section \<open>razel-vfs: content providers and copy-on-write views\<close>

text \<open>
  \<^verbatim>\<open>crates/razel-vfs/src/lib.rs\<close>.  A content provider is what its only method computes, a
  function from a path to an optional digest; \<open>MemBase\<close> and \<open>View\<close> are its two implementations.
  A \<open>HashMap\<close> that is only read by key is a partial function.  The shared reference
  \<open>base: &dyn ContentProvider\<close> is that function; Rust's borrow rules keep it unchanged while a view
  of it lives, as the function is.
\<close>

type_synonym provider_fn = "string \<Rightarrow> digest option"

record mem_base =
  files :: "string \<rightharpoonup> digest"

record view =
  base :: provider_fn
  overlays :: "string \<rightharpoonup> digest"
  version :: nat

definition membase_new :: mem_base where
  "membase_new = \<lparr>files = Map.empty\<rparr>"

definition membase_set ::
    "(byte list \<Rightarrow> byte list) \<Rightarrow> string \<Rightarrow> byte list \<Rightarrow> mem_base \<Rightarrow> mem_base" where
  "membase_set hash path content b = b\<lparr>files := (files b)(path \<mapsto> digest_of hash content)\<rparr>"

definition membase_digest :: "mem_base \<Rightarrow> provider_fn" where
  "membase_digest b path = files b path"

definition view_new :: "provider_fn \<Rightarrow> view" where
  "view_new b = \<lparr>base = b, overlays = Map.empty, version = 0\<rparr>"

definition view_write ::
    "(byte list \<Rightarrow> byte list) \<Rightarrow> string \<Rightarrow> byte list \<Rightarrow> view \<Rightarrow> view \<times> nat" where
  "view_write hash path content v =
     (let v' = v\<lparr>overlays := (overlays v)(path \<mapsto> digest_of hash content),
                 version := version v + 1\<rparr>
      in (v', version v'))"

definition view_fork :: "view \<Rightarrow> view" where
  "view_fork v = \<lparr>base = base v, overlays = overlays v, version = version v\<rparr>"

definition view_digest :: "view \<Rightarrow> provider_fn" where
  "view_digest v path =
     (case overlays v path of Some d \<Rightarrow> Some d | None \<Rightarrow> base v path)"

text \<open>A run of writes, as one agent makes them on its own view.\<close>

definition view_writes ::
    "(byte list \<Rightarrow> byte list) \<Rightarrow> (string \<times> byte list) list \<Rightarrow> view \<Rightarrow> view" where
  "view_writes hash ws v = fold (\<lambda>(p, c) v. fst (view_write hash p c v)) ws v"

text \<open>Both providers are stores in the sense of the map interface.\<close>

interpretation mem: map_store membase_digest "membase_set hash" "digest_of hash" "\<lambda>_. True" for hash
  by unfold_locales (simp_all add: membase_digest_def membase_set_def)

interpretation overlay: map_store view_digest "\<lambda>p c v. fst (view_write hash p c v)"
  "digest_of hash" "\<lambda>_. True" for hash
  by unfold_locales (simp_all add: view_digest_def view_write_def Let_def split: option.split)

lemma view_writes_put_all: "view_writes hash ws v = overlay.put_all hash ws v"
  by (simp add: view_writes_def overlay.put_all_def)

lemma view_write_version: "snd (view_write hash p c v) = version v + 1"
  and view_write_version_state: "version (fst (view_write hash p c v)) = version v + 1"
  and view_write_base: "base (fst (view_write hash p c v)) = base v"
  by (simp_all add: view_write_def Let_def)

lemma view_writes_frame:
  "base (view_writes hash ws v) = base v \<and> version (view_writes hash ws v) = version v + length ws"
proof (induction ws arbitrary: v)
  case Nil
  then show ?case by (simp add: view_writes_def)
next
  case (Cons w ws)
  obtain p c where "w = (p, c)" by (cases w)
  with Cons [of "fst (view_write hash p c v)"] show ?case
    by (simp add: view_writes_def view_write_version_state view_write_base)
qed

lemma view_fork_digest: "view_digest (view_fork v) = view_digest v"
  by (simp add: view_digest_def view_fork_def fun_eq_iff split: option.split)

lemma view_new_digest: "view_digest (view_new b) = b"
  by (simp add: view_digest_def view_new_def fun_eq_iff)

text \<open>A forked view with any run of speculative writes answers the last write of a path, and what
  the parent answers for every other path; its version advances once per write.\<close>

theorem fork_writes_read_back:
  "view_digest (view_writes hash ws (view_fork v)) p =
     (case map_of (rev ws) p of Some c \<Rightarrow> Some (digest_of hash c) | None \<Rightarrow> view_digest v p) \<and>
   version (view_writes hash ws (view_fork v)) = version v + length ws"
proof
  show "view_digest (view_writes hash ws (view_fork v)) p =
      (case map_of (rev ws) p of Some c \<Rightarrow> Some (digest_of hash c) | None \<Rightarrow> view_digest v p)"
    by (simp add: view_writes_put_all overlay.get_put_all view_fork_digest split: option.split)
  show "version (view_writes hash ws (view_fork v)) = version v + length ws"
    by (simp add: view_writes_frame) (simp add: view_fork_def)
qed

end
