(* ===== verification/Ir.thy ===== *)
theory Ir
  imports Core
begin

section \<open>razel-ir: the build graph and the impact query\<close>

text \<open>
  \<^verbatim>\<open>crates/razel-ir/src/lib.rs\<close>.  Nodes are kept in hash maps that are only read by key; the
  adjacency maps \<open>fwd\<close> and \<open>rev\<close> hold one entry per node with its set of neighbours.  The search
  loop of \<open>affects\<close> is the function \<open>affects_loop\<close>: it stops because every queued node is an element
  of one of the stored sets and is queued once.
\<close>

datatype file_kind = FSource | FGenerated
datatype target_kind = KLibrary | KBinary | KTest

record file_node =
  fn_id :: file_id
  fn_digest :: "digest option"
  fn_exists :: bool
  fn_kind :: file_kind

record target_node =
  tn_id :: target_id
  tn_kind :: target_kind

record action_node =
  an_id :: action_id
  an_content_key :: digest

record graph =
  g_files :: "file_id \<rightharpoonup> file_node"
  g_actions :: "action_id \<rightharpoonup> action_node"
  g_targets :: "target_id \<rightharpoonup> target_node"
  g_fwd :: "(node_ref, node_ref list) bmap"
  g_rev :: "(node_ref, node_ref list) bmap"

definition graph_new :: graph where
  "graph_new = \<lparr>g_files = Map.empty, g_actions = Map.empty, g_targets = Map.empty,
     g_fwd = [], g_rev = []\<rparr>"

definition add_file :: "file_node \<Rightarrow> graph \<Rightarrow> graph" where
  "add_file n g = g\<lparr>g_files := (g_files g)(fn_id n \<mapsto> n)\<rparr>"

definition add_action :: "action_node \<Rightarrow> graph \<Rightarrow> graph" where
  "add_action n g = g\<lparr>g_actions := (g_actions g)(an_id n \<mapsto> n)\<rparr>"

definition add_target :: "target_node \<Rightarrow> graph \<Rightarrow> graph" where
  "add_target n g = g\<lparr>g_targets := (g_targets g)(tn_id n \<mapsto> n)\<rparr>"

definition add_dep :: "node_ref \<Rightarrow> node_ref \<Rightarrow> graph \<Rightarrow> graph" where
  "add_dep dependent dependency g =
     g\<lparr>g_fwd := bm_entry dependent [] (hs_insert dependency) (g_fwd g),
       g_rev := bm_entry dependency [] (hs_insert dependent) (g_rev g)\<rparr>"

definition rdeps_of :: "graph \<Rightarrow> node_ref \<Rightarrow> node_ref list" where
  "rdeps_of g n = (case bm_get (g_rev g) n of Some deps \<Rightarrow> deps | None \<Rightarrow> [])"

definition deps_of :: "graph \<Rightarrow> node_ref \<Rightarrow> node_ref list" where
  "deps_of g n = (case bm_get (g_fwd g) n of Some deps \<Rightarrow> deps | None \<Rightarrow> [])"

text \<open>Every node that is stored as somebody's dependent: the only nodes the search can queue.\<close>

definition stored_rdeps :: "graph \<Rightarrow> node_ref set" where
  "stored_rdeps g = (\<Union>(n, ds) \<in> set (g_rev g). set ds)"

lemma finite_stored_rdeps [simp]: "finite (stored_rdeps g)"
  by (auto simp: stored_rdeps_def)

lemma rdeps_of_stored: "set (rdeps_of g n) \<subseteq> stored_rdeps g"
  by (cases "bm_get (g_rev g) n") (auto simp: rdeps_of_def stored_rdeps_def dest!: bm_get_Some_in_set)

function affects_loop :: "graph \<Rightarrow> node_ref bset \<Rightarrow> node_ref list \<Rightarrow> node_ref bset" where
  "affects_loop g seen [] = seen"
| "affects_loop g seen (n # q) =
     (let (seen', q') = mark_new (rdeps_of g n) seen q in affects_loop g seen' q')"
  by pat_completeness auto
termination
proof (relation "measure (\<lambda>(g, seen, q). card (stored_rdeps g - set seen) + length q)", goal_cases)
  case 1
  show ?case by simp
next
  case (2 g seen n q x seen' q')
  then have "mark_new (rdeps_of g n) seen q = (seen', q')" by simp
  from search_measure [OF finite_stored_rdeps this rdeps_of_stored] this show ?case
    by (simp add: 2(1))
qed

definition affects :: "graph \<Rightarrow> node_ref \<Rightarrow> node_ref bset" where
  "affects g node =
     (let (seen, q) = mark_new (rdeps_of g node) [] [] in affects_loop g seen q)"

text \<open>The partition of the affected targets, by the kind the target was declared with.\<close>

fun partition_targets ::
    "graph \<Rightarrow> node_ref list \<Rightarrow> target_id bset \<Rightarrow> target_id bset \<Rightarrow> target_id bset \<times> target_id bset" where
  "partition_targets g [] tests deliverables = (tests, deliverables)"
| "partition_targets g (NTarget tid # ns) tests deliverables =
     (case map_option tn_kind (g_targets g tid) of
        Some KTest \<Rightarrow> partition_targets g ns (bs_insert tid tests) deliverables
      | Some _ \<Rightarrow> partition_targets g ns tests (bs_insert tid deliverables)
      | None \<Rightarrow> partition_targets g ns tests deliverables)"
| "partition_targets g (_ # ns) tests deliverables = partition_targets g ns tests deliverables"

definition impacted_targets :: "graph \<Rightarrow> file_id \<Rightarrow> target_id bset \<times> target_id bset" where
  "impacted_targets g file = partition_targets g (affects g (NFile file)) [] []"

subsection \<open>The two adjacency maps mirror each other\<close>

definition dep_rel :: "graph \<Rightarrow> (node_ref \<times> node_ref) set" where
  "dep_rel g = {(a, b). b \<in> set (deps_of g a)}"

definition graph_ok :: "graph \<Rightarrow> bool" where
  "graph_ok g \<longleftrightarrow>
     bm_ok (g_fwd g) \<and> bm_ok (g_rev g) \<and>
     (\<forall>a b. b \<in> set (deps_of g a) \<longleftrightarrow> a \<in> set (rdeps_of g b))"

lemma deps_of_add_dep:
  "deps_of (add_dep a b g) x = (if x = a then hs_insert b (deps_of g a) else deps_of g x)"
  by (auto simp: deps_of_def add_dep_def split: option.splits)

lemma rdeps_of_add_dep:
  "rdeps_of (add_dep a b g) x = (if x = b then hs_insert a (rdeps_of g b) else rdeps_of g x)"
  by (auto simp: rdeps_of_def add_dep_def split: option.splits)

lemma graph_ok_new [simp]: "graph_ok graph_new"
  by (simp add: graph_ok_def graph_new_def deps_of_def rdeps_of_def)

lemma graph_ok_add_dep [inv_intros]: "graph_ok g \<Longrightarrow> graph_ok (add_dep a b g)"
  unfolding graph_ok_def deps_of_add_dep rdeps_of_add_dep
  by (auto simp: add_dep_def)

lemma graph_ok_add_node [inv_intros]:
  "graph_ok g \<Longrightarrow> graph_ok (add_file fn g)"
  "graph_ok g \<Longrightarrow> graph_ok (add_action an g)"
  "graph_ok g \<Longrightarrow> graph_ok (add_target tn g)"
  by (simp_all add: graph_ok_def add_file_def add_action_def add_target_def deps_of_def rdeps_of_def)

lemma dep_rel_add_dep: "dep_rel (add_dep a b g) = insert (a, b) (dep_rel g)"
  by (auto simp: dep_rel_def deps_of_add_dep split: if_splits)

subsection \<open>The search computes reverse reachability\<close>

definition rdep_rel :: "graph \<Rightarrow> (node_ref \<times> node_ref) set" where
  "rdep_rel g = {(b, a). a \<in> set (rdeps_of g b)}"

lemma rdep_rel_Image: "rdep_rel g `` {n} = set (rdeps_of g n)"
  by (auto simp: rdep_rel_def)

lemma affects_loop_reach:
  "bfs_inv (rdep_rel g) roots (set seen) (set q) \<Longrightarrow>
   set (affects_loop g seen q) = (rdep_rel g)\<^sup>* `` roots"
proof (induction g seen q rule: affects_loop.induct)
  case (1 g seen)
  then show ?case by (simp add: bfs_inv_final)
next
  case (2 g seen n q)
  obtain seen' q' where mark: "mark_new (rdeps_of g n) seen q = (seen', q')" by force
  obtain new where new: "q' = q @ new" "set seen' = set seen \<union> set (rdeps_of g n)"
    "set new = set (rdeps_of g n) - set seen"
    by (rule mark_new_result [OF mark])
  have "bfs_inv (rdep_rel g) roots (set seen') (set q')"
    by (rule bfs_inv_step [OF "2.prems", of n])
      (use new "2.prems" in \<open>auto simp: rdep_rel_Image bfs_inv_def\<close>)
  with 2 mark show ?case by simp
qed

lemma affects_reach: "set (affects g node) = (rdep_rel g)\<^sup>+ `` {node}"
proof -
  obtain seen q where mark: "mark_new (rdeps_of g node) [] [] = (seen, q)" by force
  obtain new where "q = [] @ new" "set seen = set [] \<union> set (rdeps_of g node)"
    "set new = set (rdeps_of g node) - set []"
    by (rule mark_new_result [OF mark])
  then have "bfs_inv (rdep_rel g) (set (rdeps_of g node)) (set seen) (set q)"
    using bfs_inv_init by simp
  then have "set (affects g node) = (rdep_rel g)\<^sup>* `` (rdep_rel g `` {node})"
    using mark by (simp add: affects_def affects_loop_reach rdep_rel_Image)
  then show ?thesis by (auto simp: trancl_unfold_left)
qed

lemma affects_loop_ok: "bs_ok seen \<Longrightarrow> bs_ok (affects_loop g seen q)"
proof (induction g seen q rule: affects_loop.induct)
  case (2 g seen n q)
  obtain seen' q' where "mark_new (rdeps_of g n) seen q = (seen', q')" by force
  with 2 show ?case by (simp add: mark_new_ok)
qed simp

lemma affects_ok: "bs_ok (affects g n)"
proof -
  obtain seen q where mark: "mark_new (rdeps_of g n) [] [] = (seen, q)" by force
  from mark_new_ok [OF this] mark show ?thesis by (simp add: affects_def affects_loop_ok)
qed

lemma partition_targets_spec:
  "partition_targets g ns tests dels = (tests', dels') \<Longrightarrow>
   set tests' = set tests \<union> {t. NTarget t \<in> set ns \<and> map_option tn_kind (g_targets g t) = Some KTest} \<and>
   set dels' = set dels \<union> {t. NTarget t \<in> set ns \<and>
     (\<exists>k. map_option tn_kind (g_targets g t) = Some k \<and> k \<noteq> KTest)}"
  by (induction g ns tests dels rule: partition_targets.induct)
    (auto split: option.splits target_kind.splits)

lemma partition_targets_ok:
  "partition_targets g ns tests dels = (tests', dels') \<Longrightarrow> bs_ok tests \<Longrightarrow> bs_ok dels \<Longrightarrow> bs_ok tests' \<and> bs_ok dels'"
  by (induction g ns tests dels rule: partition_targets.induct) (auto split: option.splits target_kind.splits)

lemma rdep_rel_converse: "graph_ok g \<Longrightarrow> rdep_rel g = (dep_rel g)\<inverse>"
  by (auto simp: rdep_rel_def dep_rel_def graph_ok_def)

text \<open>on every graph the operations can build, \<open>affects\<close> is exactly the set of transitive
  dependents along the recorded dependencies, without duplicates and in key order.\<close>

theorem affects_exact:
  assumes "graph_ok g"
  shows "set (affects g node) = {n. (n, node) \<in> (dep_rel g)\<^sup>+} \<and> bs_ok (affects g node)"
  using affects_reach [of g node] affects_ok rdep_rel_converse [OF assms]
  by (auto simp: trancl_converse)

theorem affects_exact_witness:
  "let g = add_dep (NTarget (TargetId ''t'')) (NFile (FileId ''f'')) graph_new
   in graph_ok g \<and> affects g (NFile (FileId ''f'')) = [NTarget (TargetId ''t'')] \<and>
      {n. (n, NFile (FileId ''f'')) \<in> (dep_rel g)\<^sup>+} = {NTarget (TargetId ''t'')}"
proof -
  let ?g = "add_dep (NTarget (TargetId ''t'')) (NFile (FileId ''f'')) graph_new"
  have ok: "graph_ok ?g" by (intro inv_intros) simp
  have "affects ?g (NFile (FileId ''f'')) = [NTarget (TargetId ''t'')]"
    by (simp add: affects_def rdeps_of_def add_dep_def graph_new_def bm_entry_def hs_insert_def bm_get_def)
  with affects_exact [OF ok, of "NFile (FileId ''f'')"] ok show ?thesis by (simp add: Let_def)
qed

lemma impacted_split:
  assumes "graph_ok g" "impacted_targets g file = (tests, deliverables)"
  shows "set tests = {t. (NTarget t, NFile file) \<in> (dep_rel g)\<^sup>+ \<and>
           (\<exists>n. g_targets g t = Some n \<and> tn_kind n = KTest)}"
    and "set deliverables = {t. (NTarget t, NFile file) \<in> (dep_rel g)\<^sup>+ \<and>
           (\<exists>n. g_targets g t = Some n \<and> tn_kind n \<noteq> KTest)}"
    and "bs_ok tests" "bs_ok deliverables"
  using partition_targets_spec [OF assms(2) [unfolded impacted_targets_def]]
    partition_targets_ok [OF assms(2) [unfolded impacted_targets_def]]
    affects_reach [of g "NFile file"] rdep_rel_converse [OF assms(1)]
  by (auto simp: trancl_converse)

text \<open>The graphs that the operations build.\<close>

inductive graph_built :: "graph \<Rightarrow> bool" where
  gb_new: "graph_built graph_new"
| gb_file: "graph_built g \<Longrightarrow> graph_built (add_file fn g)"
| gb_action: "graph_built g \<Longrightarrow> graph_built (add_action an g)"
| gb_target: "graph_built g \<Longrightarrow> graph_built (add_target tn g)"
| gb_dep: "graph_built g \<Longrightarrow> graph_built (add_dep a b g)"

lemma graph_built_ok: "graph_built g \<Longrightarrow> graph_ok g"
  by (induction rule: graph_built.induct) (simp_all add: inv_intros)

text \<open>C17: In a graph that was built by adding nodes and dependencies in any order, the impact of editing a file is split in
  two: the declared tests that depend on the file, directly or through any chain of recorded dependencies, and the
  declared targets of the other kinds that do.  Both are in order and without repetition, no target is in both, and one that
  was never declared is in neither.\<close>

theorem impacted_targets_partition:
  assumes "graph_built g" "impacted_targets g file = (tests, deliverables)"
  shows "set tests = {t. (NTarget t, NFile file) \<in> (dep_rel g)\<^sup>+ \<and>
           (\<exists>n. g_targets g t = Some n \<and> tn_kind n = KTest)} \<and>
         set deliverables = {t. (NTarget t, NFile file) \<in> (dep_rel g)\<^sup>+ \<and>
           (\<exists>n. g_targets g t = Some n \<and> tn_kind n \<noteq> KTest)} \<and>
         set tests \<inter> set deliverables = {} \<and> bs_ok tests \<and> bs_ok deliverables"
  using impacted_split [OF graph_built_ok [OF assms(1)] assms(2)] by auto

theorem impacted_targets_partition_witness:
  "let g = add_dep (NTarget (TargetId ''t'')) (NTarget (TargetId ''lib''))
             (add_dep (NTarget (TargetId ''lib'')) (NFile (FileId ''f''))
               (add_target \<lparr>tn_id = TargetId ''t'', tn_kind = KTest\<rparr>
                 (add_target \<lparr>tn_id = TargetId ''lib'', tn_kind = KLibrary\<rparr> graph_new)))
   in impacted_targets g (FileId ''f'') = ([TargetId ''t''], [TargetId ''lib'']) \<and>
      (NTarget (TargetId ''t''), NFile (FileId ''f'')) \<in> (dep_rel g)\<^sup>+"
proof -
  let ?g = "add_dep (NTarget (TargetId ''t'')) (NTarget (TargetId ''lib''))
             (add_dep (NTarget (TargetId ''lib'')) (NFile (FileId ''f''))
               (add_target \<lparr>tn_id = TargetId ''t'', tn_kind = KTest\<rparr>
                 (add_target \<lparr>tn_id = TargetId ''lib'', tn_kind = KLibrary\<rparr> graph_new)))"
  have ok: "graph_built ?g" by (intro graph_built.intros)
  have imp: "impacted_targets ?g (FileId ''f'') = ([TargetId ''t''], [TargetId ''lib''])"
    by (simp add: impacted_targets_def affects_def rdeps_of_def add_dep_def add_target_def
        graph_new_def bm_entry_def hs_insert_def bm_get_def)
  from impacted_targets_partition [OF ok imp]
  have "TargetId ''t'' \<in> {t. (NTarget t, NFile (FileId ''f'')) \<in> (dep_rel ?g)\<^sup>+ \<and>
      (\<exists>n. g_targets ?g t = Some n \<and> tn_kind n = KTest)}" by (metis list.set_intros(1))
  with imp show ?thesis by (simp add: Let_def)
qed

end
