(* ===== verification/Loaded.thy ===== *)
theory Loaded
  imports Ir Std_Str
begin

section \<open>razel-loading: the loading-phase node model\<close>

text \<open>
  \<^verbatim>\<open>crates/razel-loading/src/loaded.rs\<close>: attribute values, their canonical text, the label references of
  the label-valued attributes, the typed edges, and the capture and finalisation of targets.  The
  conversion of a Starlark value (the \<open>starlark\<close> crate) is the parameter \<open>to_raw\<close>, the canonicalisation
  of a label in the session the parameter \<open>canon\<close>, the file system the parameter \<open>exists\<close>.
\<close>

datatype raw_attr =
    RStr string
  | RInt int
  | RBool bool
  | RNone
  | RList "raw_attr list"
  | RTuple "raw_attr list"
  | RDict "(raw_attr \<times> raw_attr) list"
  | RLabel string
  | RSelect "(string \<times> raw_attr) list" "raw_attr option"
  | RConcat "raw_attr list"

subsection \<open>Canonical text\<close>

definition quote_char :: "char \<Rightarrow> string" where
  "quote_char c =
     (if c = CHR 0x22 then [CHR 0x5C, CHR 0x22]
      else if c = CHR 0x5C then [CHR 0x5C, CHR 0x5C]
      else if c = CHR 0x0A then [CHR 0x5C, CHR ''n'']
      else [c])"

definition write_quoted :: "string \<Rightarrow> string" where
  "write_quoted s = CHR 0x22 # concat (map quote_char s) @ [CHR 0x22]"

definition write_seq :: "char \<Rightarrow> char \<Rightarrow> string list \<Rightarrow> bool \<Rightarrow> string" where
  "write_seq open close items tuple =
     open # join_with '', '' items @ (if tuple \<and> length items = 1 then '','' else []) @ [close]"

fun canonical :: "raw_attr \<Rightarrow> string" where
  "canonical (RStr v) = write_quoted v"
| "canonical (RInt n) = int_dec n"
| "canonical (RBool b) = (if b then ''True'' else ''False'')"
| "canonical RNone = ''None''"
| "canonical (RList items) = write_seq (CHR ''['') (CHR '']'') (map canonical items) False"
| "canonical (RTuple items) = write_seq (CHR ''('') (CHR '')'') (map canonical items) True"
| "canonical (RDict pairs) =
     ''{'' @ join_with '', '' (map (\<lambda>(k, v). canonical k @ '': '' @ canonical v) pairs) @ ''}''"
| "canonical (RLabel l) = l"
| "canonical (RSelect arms dflt) =
     ''select({'' @ join_with '', '' (map (\<lambda>(c, v). c @ '': '' @ canonical v) arms) @ ''}'' @
     (case dflt of None \<Rightarrow> [] | Some d \<Rightarrow> '', default='' @ canonical d) @ '')''"
| "canonical (RConcat items) = join_with '' + '' (map canonical items)"

subsection \<open>Label references\<close>

record raw_label_ref =
  lr_label :: string
  lr_attr :: string
  in_select_condition :: bool

definition rust_label_attrs :: "string list" where
  "rust_label_attrs =
     [''srcs'', ''deps'', ''proc_macro_deps'', ''aliases'', ''compile_data'', ''data'',
      ''target_compatible_with'']"

definition label_attrs :: "string \<Rightarrow> string list" where
  "label_attrs rule_class =
     (if rule_class = ''filegroup'' then [''srcs'', ''data'']
      else if rule_class = ''alias'' then [''actual'']
      else if rule_class = ''genrule'' then [''srcs'', ''tools'', ''exec_tools'']
      else if rule_class = ''config_setting'' then [''constraint_values'', ''flag_values'']
      else if rule_class \<in> set [''rust_library'', ''rust_binary'', ''rust_shared_library'',
          ''rust_library_group'', ''rust_proc_macro''] then rust_label_attrs
      else if rule_class = ''cc_library'' \<or> rule_class = ''cc_binary'' then
        [''srcs'', ''hdrs'', ''deps'', ''data'']
      else if rule_class = ''cargo_build_script'' then
        [''srcs'', ''deps'', ''data'', ''compile_data'', ''link_deps'', ''rustc_env_files'']
      else [])"

text \<open>The accumulator \<open>out\<close> only grows at its end: the references are returned in that order.\<close>

fun extract_label_refs :: "string \<Rightarrow> raw_attr \<Rightarrow> raw_label_ref list" where
  "extract_label_refs a (RStr s) = [\<lparr>lr_label = s, lr_attr = a, in_select_condition = False\<rparr>]"
| "extract_label_refs a (RLabel l) = [\<lparr>lr_label = l, lr_attr = a, in_select_condition = False\<rparr>]"
| "extract_label_refs a (RList xs) = concat (map (extract_label_refs a) xs)"
| "extract_label_refs a (RTuple xs) = concat (map (extract_label_refs a) xs)"
| "extract_label_refs a (RConcat xs) = concat (map (extract_label_refs a) xs)"
| "extract_label_refs a (RDict pairs) = concat (map (\<lambda>(k, v). extract_label_refs a k) pairs)"
| "extract_label_refs a (RSelect arms dflt) =
     concat (map (\<lambda>(cond, v). \<lparr>lr_label = cond, lr_attr = a, in_select_condition = True\<rparr> #
       extract_label_refs a v) arms) @
     (case dflt of None \<Rightarrow> [] | Some d \<Rightarrow> extract_label_refs a d)"
| "extract_label_refs a _ = []"

subsection \<open>Nodes and edges\<close>

datatype edge_kind = ERule | EAlias | ESourceFile | EGeneratedFile | EConfigSetting | EImplicit

record edge =
  e_to :: string
  e_kind :: edge_kind
  e_attr :: string

record loaded_target =
  lt_label :: string
  lt_repo :: string
  lt_package :: string
  rule_class :: string
  lt_kind :: target_kind
  lt_attrs :: "(string, raw_attr) bmap"
  lt_edges :: "edge list"
  raw_refs :: "raw_label_ref list"

datatype query_node =
    QTarget loaded_target
  | QSourceFile string
  | QGeneratedFile string string
  | QImplicit string string

fun qn_label :: "query_node \<Rightarrow> string" where
  "qn_label (QTarget t) = lt_label t"
| "qn_label (QSourceFile l) = l"
| "qn_label (QGeneratedFile l _) = l"
| "qn_label (QImplicit l _) = l"

fun kind_string :: "query_node \<Rightarrow> string" where
  "kind_string (QTarget t) = rule_class t @ '' rule''"
| "kind_string (QSourceFile _) = ''source file''"
| "kind_string (QGeneratedFile _ _) = ''generated file''"
| "kind_string (QImplicit _ c) = c @ '' rule''"

record edge_facts =
  is_alias :: bool
  is_generated :: bool
  is_config_setting :: bool
  is_declared_rule :: bool
  is_source_file :: bool

definition classify_kind :: "bool \<Rightarrow> edge_facts \<Rightarrow> edge_kind option" where
  "classify_kind in_cond f =
     (if is_alias f then Some EAlias
      else if is_generated f then Some EGeneratedFile
      else if in_cond \<and> is_config_setting f then Some EConfigSetting
      else if is_declared_rule f then Some ERule
      else if is_source_file f then Some ESourceFile
      else None)"

primrec resolve_edges ::
    "raw_label_ref list \<Rightarrow> (string \<Rightarrow> string) \<Rightarrow> (string \<Rightarrow> edge_facts) \<Rightarrow> edge list res" where
  "resolve_edges [] canon gather = Ok []"
| "resolve_edges (r # refs) canon gather =
     (let c = canon (lr_label r) in
      case classify_kind (in_select_condition r) (gather c) of
        Some k \<Rightarrow> res_bind (resolve_edges refs canon gather)
          (\<lambda>edges. Ok (\<lparr>e_to = c, e_kind = k, e_attr = lr_attr r\<rparr> # edges))
      | None \<Rightarrow> Err (''unresolved label `'' @ lr_label r @ ''` in attr `'' @ lr_attr r @ ''`''))"

subsection \<open>Capture and finalisation\<close>

definition kind_for :: "string \<Rightarrow> target_kind" where
  "kind_for rc =
     (if contains_str rc ''test'' then KTest
      else if contains_str rc ''binary'' then KBinary
      else KLibrary)"

text \<open>The parts of the session the loading-phase graph reads and writes.\<close>

record load_session =
  aliases :: "string bset"
  output_index :: "string bset"
  config_specs :: "string bset"
  loaded_targets :: "(string, loaded_target) bmap"

definition capture_loaded :: "('v \<Rightarrow> raw_attr) \<Rightarrow> (string \<Rightarrow> string) \<Rightarrow> (string \<Rightarrow> string option) \<Rightarrow>
    string \<Rightarrow> string \<Rightarrow> (string \<times> 'v) list \<Rightarrow> load_session \<Rightarrow> load_session" where
  "capture_loaded to_raw canon pkg_of label rc attrs sess =
     (let attr_map = bm_of (map (\<lambda>(n, v). (n, to_raw v)) attrs);
          refs = concat (map (\<lambda>a. case bm_get attr_map a of None \<Rightarrow> [] | Some raw \<Rightarrow> extract_label_refs a raw)
            (label_attrs rc));
          refs = map (\<lambda>r. r\<lparr>lr_label := canon (lr_label r)\<rparr>) refs;
          node = \<lparr>lt_label = label, lt_repo = [],
            lt_package = (case pkg_of label of None \<Rightarrow> [] | Some p \<Rightarrow> p),
            rule_class = rc, lt_kind = kind_for rc, lt_attrs = attr_map, lt_edges = [], raw_refs = refs\<rparr>
      in sess\<lparr>loaded_targets := bm_insert label node (loaded_targets sess)\<rparr>)"

definition capture_rule :: "('v \<Rightarrow> raw_attr) \<Rightarrow> (string \<Rightarrow> string) \<Rightarrow> (string \<Rightarrow> string option) \<Rightarrow>
    string \<Rightarrow> string \<Rightarrow> (string \<times> 'v option) list \<Rightarrow> (string \<times> 'v) list \<Rightarrow> load_session \<Rightarrow> load_session" where
  "capture_rule to_raw canon pkg_of label rc named kw sess =
     capture_loaded to_raw canon pkg_of label rc
       (concat (map (\<lambda>(n, v). case v of None \<Rightarrow> [] | Some v \<Rightarrow> [(n, v)]) named) @ kw) sess"

definition capture_cargo_build_script :: "('v \<Rightarrow> raw_attr) \<Rightarrow> (string \<Rightarrow> string) \<Rightarrow> (string \<Rightarrow> string option) \<Rightarrow>
    string \<Rightarrow> (string \<times> 'v option) list \<Rightarrow> (string \<times> 'v) list \<Rightarrow> load_session \<Rightarrow> load_session" where
  "capture_cargo_build_script to_raw canon pkg_of label named kw sess =
     (let bin = label @ ''_'';
          runfiles = label @ ''-'';
          sess = capture_loaded to_raw canon pkg_of bin ''rust_binary'' [] sess;
          sess = capture_loaded to_raw canon pkg_of runfiles ''cargo_build_script_runfiles'' [] sess;
          sess = capture_rule to_raw canon pkg_of label ''cargo_build_script'' named kw sess
      in case bm_get (loaded_targets sess) label of
           None \<Rightarrow> sess
         | Some t \<Rightarrow> sess\<lparr>loaded_targets := bm_insert label
             (t\<lparr>raw_refs := raw_refs t @
                map (\<lambda>child. \<lparr>lr_label = child, lr_attr = [], in_select_condition = False\<rparr>) [bin, runfiles]\<rparr>)
             (loaded_targets sess)\<rparr>)"

definition trim_slashes :: "string \<Rightarrow> string" where
  "trim_slashes s =
     drop (2 * (length (takeWhile (\<lambda>c. c = CHR ''/'') s) div 2)) s"

definition source_exists :: "(string \<Rightarrow> string \<Rightarrow> bool) \<Rightarrow> string \<Rightarrow> bool" where
  "source_exists exists canon_label =
     (case split_once (trim_slashes canon_label) (CHR '':'') of
        None \<Rightarrow> False
      | Some (pkg, name) \<Rightarrow> exists pkg name)"

definition gather_facts :: "(string \<Rightarrow> string \<Rightarrow> bool) \<Rightarrow> load_session \<Rightarrow> string \<Rightarrow> edge_facts" where
  "gather_facts exists sess c =
     (let alias = c \<in> set (aliases sess);
          generated = c \<in> set (output_index sess);
          config = c \<in> set (config_specs sess);
          declared = c \<in> set (bm_keys (loaded_targets sess));
          source = (\<not> (alias \<or> generated \<or> declared) \<and> source_exists exists c)
      in \<lparr>is_alias = alias, is_generated = generated, is_config_setting = config,
          is_declared_rule = declared, is_source_file = source\<rparr>)"

definition typed_edges :: "(string \<Rightarrow> edge_facts) \<Rightarrow> raw_label_ref list \<Rightarrow> edge list" where
  "typed_edges gather refs =
     concat (map (\<lambda>r. case classify_kind (in_select_condition r) (gather (lr_label r)) of
         None \<Rightarrow> []
       | Some k \<Rightarrow> [\<lparr>e_to = lr_label r, e_kind = k, e_attr = lr_attr r\<rparr>]) refs)"

definition finalize_edges :: "(string \<Rightarrow> string \<Rightarrow> bool) \<Rightarrow> load_session \<Rightarrow> load_session" where
  "finalize_edges exists sess =
     fold (\<lambda>label sess.
       case bm_get (loaded_targets sess) label of
         None \<Rightarrow> sess
       | Some t \<Rightarrow> sess\<lparr>loaded_targets := bm_insert label
           (t\<lparr>lt_edges := typed_edges (gather_facts exists sess) (raw_refs t)\<rparr>) (loaded_targets sess)\<rparr>)
       (bm_keys (loaded_targets sess)) sess"

subsection \<open>Lemmas\<close>

text \<open>The canonical text of a string is self-delimiting, whatever characters it has.\<close>

lemma quote_char_prefix:
  "quote_char c @ r = quote_char d @ s \<Longrightarrow> c = d \<and> r = s"
  by (auto simp: quote_char_def split: if_splits)

lemma quote_char_not_quote: "hd (quote_char c) \<noteq> CHR 0x22" "quote_char c \<noteq> []"
  by (auto simp: quote_char_def)

lemma quoted_prefix:
  "concat (map quote_char s) @ CHR 0x22 # r = concat (map quote_char t) @ CHR 0x22 # u \<Longrightarrow> s = t \<and> r = u"
proof (induction s arbitrary: t)
  case Nil
  then show ?case
  proof (cases t)
    case (Cons d t')
    with Nil quote_char_not_quote [of d] show ?thesis by (cases "quote_char d") auto
  qed auto
next
  case (Cons c s)
  show ?case
  proof (cases t)
    case Nil
    with Cons.prems quote_char_not_quote [of c] show ?thesis by (cases "quote_char c") auto
  next
    case (Cons d t')
    with Cons.prems have "quote_char c @ (concat (map quote_char s) @ CHR 0x22 # r) =
        quote_char d @ (concat (map quote_char t') @ CHR 0x22 # u)" by simp
    from quote_char_prefix [OF this] Cons.IH [of t'] Cons show ?thesis by simp
  qed
qed

interpretation quoted: prefix_code write_quoted "\<lambda>_. True"
  by unfold_locales (auto simp: write_quoted_def dest: quoted_prefix)

lemma join_quoted_inj:
  "join_with '', '' (map write_quoted xs) @ [c] = join_with '', '' (map write_quoted ys) @ [c] \<Longrightarrow>
   c \<noteq> CHR '','' \<Longrightarrow> c \<noteq> CHR 0x22 \<Longrightarrow> xs = ys"
proof (induction xs arbitrary: ys)
  case Nil
  then show ?case
  proof (cases ys)
    case (Cons y ys')
    with Nil show ?thesis by (cases ys') (auto simp: write_quoted_def)
  qed simp
next
  case (Cons x xs)
  show ?case
  proof (cases ys)
    case Nil
    with Cons.prems show ?thesis by (cases xs) (auto simp: write_quoted_def)
  next
    case (Cons y ys')
    have split: "join_with '', '' (map write_quoted (z # zs)) @ [c] =
        write_quoted z @ (if zs = [] then [c] else '', '' @ join_with '', '' (map write_quoted zs) @ [c])" for z zs
      by (cases zs) simp_all
    from Cons.prems(1) have eq: "write_quoted x @ (if xs = [] then [c] else '', '' @ join_with '', '' (map write_quoted xs) @ [c])
        = write_quoted y @ (if ys' = [] then [c] else '', '' @ join_with '', '' (map write_quoted ys') @ [c])"
      unfolding Cons split by simp
    from quoted.prefix [OF _ _ eq] have "x = y"
      "(if xs = [] then [c] else '', '' @ join_with '', '' (map write_quoted xs) @ [c]) =
       (if ys' = [] then [c] else '', '' @ join_with '', '' (map write_quoted ys') @ [c])" by simp_all
    with Cons.IH [of ys'] Cons.prems Cons show ?thesis by (auto split: if_splits)
  qed
qed

lemma classify_kind_cases:
  "classify_kind b f = None \<longleftrightarrow>
     \<not> is_alias f \<and> \<not> is_generated f \<and> \<not> (b \<and> is_config_setting f) \<and> \<not> is_declared_rule f \<and> \<not> is_source_file f"
  by (simp add: classify_kind_def)

lemma resolve_edges_Ok:
  "resolve_edges refs canon gather = Ok edges \<longleftrightarrow>
     list_all2 (\<lambda>r e. e_to e = canon (lr_label r) \<and> e_attr e = lr_attr r \<and>
       classify_kind (in_select_condition r) (gather (canon (lr_label r))) = Some (e_kind e)) refs edges"
proof (induction refs arbitrary: edges)
  case (Cons r refs)
  show ?case
  proof (cases edges)
    case Nil
    then show ?thesis by (auto simp: Let_def res_bind_Inr_iff split: option.split)
  next
    case (Cons e es)
    with Cons.IH [of es] show ?thesis
      by (cases e) (auto simp: Let_def res_bind_Inr_iff split: option.split)
  qed
qed auto

end
