(* ===== verification/Query_Graph.thy ===== *)
theory Query_Graph
  imports Loaded
begin

section \<open>razel-query: the query graph\<close>

text \<open>
  \<^verbatim>\<open>crates/razel-query/src/graph.rs\<close>: the adjacency built from the loaded targets, the depth-bounded
  closures, \<open>allpaths\<close>, \<open>somepath\<close> and the target patterns.  A label set is a sorted list without
  duplicates (\<open>BTreeSet\<close>).  The depth counter is a \<open>u32\<close>; it counts levels of the search, each of which
  adds a label, so it stays below the number of labels of the graph.
\<close>

type_synonym label_set = "string bset"

record query_graph =
  qg_targets :: "(string, loaded_target) bmap"
  qg_rev :: "(string, label_set) bmap"
  qg_kinds :: "(string, string) bmap"

definition leaf_kind :: "edge_kind \<Rightarrow> string option" where
  "leaf_kind k =
     (case k of
        ESourceFile \<Rightarrow> Some ''source file''
      | EGeneratedFile \<Rightarrow> Some ''generated file''
      | _ \<Rightarrow> None)"

type_synonym adjacency = "(string, label_set) bmap \<times> (string, string) bmap"

definition index_edge :: "(string, loaded_target) bmap \<Rightarrow> string \<Rightarrow> edge \<Rightarrow> adjacency \<Rightarrow> adjacency" where
  "index_edge targets label e adj =
     (case adj of (rv, kinds) \<Rightarrow>
       (let rv = bm_entry (e_to e) [] (bs_insert label) rv
        in if e_to e \<notin> set (bm_keys targets) then
             (case leaf_kind (e_kind e) of
                None \<Rightarrow> (rv, kinds)
              | Some k \<Rightarrow> (rv, bm_entry (e_to e) k (\<lambda>old. old) kinds))
           else (rv, kinds)))"

definition index_target :: "(string, loaded_target) bmap \<Rightarrow> string \<times> loaded_target \<Rightarrow> adjacency \<Rightarrow> adjacency" where
  "index_target targets lt adj =
     (case lt of (label, t) \<Rightarrow> (case adj of (rv, kinds) \<Rightarrow>
        fold (index_edge targets label) (lt_edges t)
          (rv, bm_insert label (rule_class t @ '' rule'') kinds)))"

definition qg_new :: "(string, loaded_target) bmap \<Rightarrow> query_graph" where
  "qg_new targets =
     (case fold (index_target targets) targets ([], []) of
        (rv, kinds) \<Rightarrow> \<lparr>qg_targets = targets, qg_rev = rv, qg_kinds = kinds\<rparr>)"

definition all_targets :: "query_graph \<Rightarrow> label_set" where
  "all_targets g = bm_keys (qg_targets g)"

definition qg_kind :: "query_graph \<Rightarrow> string \<Rightarrow> string option" where
  "qg_kind g label = bm_get (qg_kinds g) label"

definition qg_target :: "query_graph \<Rightarrow> string \<Rightarrow> loaded_target option" where
  "qg_target g label = bm_get (qg_targets g) label"

definition successors :: "query_graph \<Rightarrow> bool \<Rightarrow> string \<Rightarrow> string list" where
  "successors g implicit label =
     (case bm_get (qg_targets g) label of
        Some t \<Rightarrow> map e_to (filter (\<lambda>e. implicit \<or> e_kind e \<noteq> EImplicit) (lt_edges t))
      | None \<Rightarrow> [])"

definition preds :: "query_graph \<Rightarrow> string \<Rightarrow> label_set" where
  "preds g label = (case bm_get (qg_rev g) label of Some ps \<Rightarrow> ps | None \<Rightarrow> [])"

subsection \<open>The depth-bounded closures\<close>

definition depth_reached :: "nat option \<Rightarrow> nat \<Rightarrow> bool" where
  "depth_reached depth d = (case depth of None \<Rightarrow> False | Some m \<Rightarrow> m \<le> d)"

text \<open>The labels that can be added to \<open>seen\<close> are finitely many, and a level that adds none is the last.\<close>

definition edge_labels :: "query_graph \<Rightarrow> string set" where
  "edge_labels g = (\<Union>(l, t) \<in> set (qg_targets g). e_to ` set (lt_edges t))"

definition rev_labels :: "query_graph \<Rightarrow> string set" where
  "rev_labels g = (\<Union>(l, ps) \<in> set (qg_rev g). set ps)"

lemma finite_labels [simp]: "finite (edge_labels g)" "finite (rev_labels g)"
  by (auto simp: edge_labels_def rev_labels_def)

lemma successors_labels: "set (successors g i l) \<subseteq> edge_labels g"
proof (cases "bm_get (qg_targets g) l")
  case (Some t)
  from bm_get_Some_in_set [OF this] show ?thesis by (force simp: successors_def edge_labels_def Some)
qed (simp add: successors_def)

lemma preds_labels: "set (preds g l) \<subseteq> rev_labels g"
proof (cases "bm_get (qg_rev g) l")
  case (Some ps)
  from bm_get_Some_in_set [OF this] show ?thesis by (force simp: preds_def rev_labels_def Some)
qed (simp add: preds_def)

lemma level_measure:
  assumes "finite U" "mark_new ds seen [] = (seen', next')" "set ds \<subseteq> U" "frontier \<noteq> []"
  shows "card (U - set seen') + (if next' = [] then 0 else 1) < card (U - set seen) + (if frontier = [] then 0 else 1)"
  using search_measure [OF assms(1-3)] assms(4) by (cases next') auto

function deps_loop :: "query_graph \<Rightarrow> bool \<Rightarrow> nat option \<Rightarrow> nat \<Rightarrow> label_set \<Rightarrow> string list \<Rightarrow> label_set" where
  "deps_loop g implicit depth d seen frontier =
     (if frontier = [] \<or> depth_reached depth d then seen
      else (case mark_new (concat (map (successors g implicit) frontier)) seen [] of
              (seen, next') \<Rightarrow> deps_loop g implicit depth (d + 1) seen next'))"
  by pat_completeness auto
termination
proof (relation "measure (\<lambda>(g, i, dep, d, seen, fr). card (edge_labels g - set seen) + (if fr = [] then 0 else 1))", goal_cases)
  case 1
  show ?case by simp
next
  case (2 g i dep d seen fr seen' next')
  then have m: "mark_new (concat (map (successors g i) fr)) seen [] = (seen', next')" by simp
  have "set (concat (map (successors g i) fr)) \<subseteq> edge_labels g" using successors_labels by auto
  from level_measure [OF finite_labels(1) m this, of fr] 2(1) m show ?case by simp
qed

definition qg_deps :: "query_graph \<Rightarrow> label_set \<Rightarrow> nat option \<Rightarrow> bool \<Rightarrow> label_set" where
  "qg_deps g roots depth implicit = deps_loop g implicit depth 0 roots roots"

function rdeps_loop :: "query_graph \<Rightarrow> label_set \<Rightarrow> nat option \<Rightarrow> nat \<Rightarrow> label_set \<Rightarrow> string list \<Rightarrow> label_set" where
  "rdeps_loop g universe depth d seen frontier =
     (if frontier = [] \<or> depth_reached depth d then seen
      else (case mark_new (concat (map (\<lambda>l. filter (\<lambda>p. p \<in> set universe) (preds g l)) frontier)) seen [] of
              (seen, next') \<Rightarrow> rdeps_loop g universe depth (d + 1) seen next'))"
  by pat_completeness auto
termination
proof (relation "measure (\<lambda>(g, u, dep, d, seen, fr). card (rev_labels g - set seen) + (if fr = [] then 0 else 1))", goal_cases)
  case 1
  show ?case by simp
next
  case (2 g u dep d seen fr seen' next')
  then have m: "mark_new (concat (map (\<lambda>l. filter (\<lambda>p. p \<in> set u) (preds g l)) fr)) seen [] = (seen', next')" by simp
  have "set (concat (map (\<lambda>l. filter (\<lambda>p. p \<in> set u) (preds g l)) fr)) \<subseteq> rev_labels g"
    using preds_labels by auto
  from level_measure [OF finite_labels(2) m this, of fr] 2(1) m show ?case by simp
qed

definition qg_rdeps :: "query_graph \<Rightarrow> label_set \<Rightarrow> label_set \<Rightarrow> nat option \<Rightarrow> label_set" where
  "qg_rdeps g universe roots depth =
     (let seen = filter (\<lambda>r. r \<in> set universe) roots in rdeps_loop g universe depth 0 seen seen)"

definition qg_allpaths :: "query_graph \<Rightarrow> label_set \<Rightarrow> label_set \<Rightarrow> bool \<Rightarrow> label_set" where
  "qg_allpaths g from to implicit =
     (let forward = qg_deps g from None implicit in qg_rdeps g forward to None)"

text \<open>\<open>l.rsplit_once(':').map(|(p, _)| p).unwrap_or(l)\<close>\<close>

definition pkg_prefix :: "string \<Rightarrow> string" where
  "pkg_prefix l = (case rsplit_once l (CHR '':'') of Some (p, _) \<Rightarrow> p | None \<Rightarrow> l)"

definition same_pkg_direct_rdeps :: "query_graph \<Rightarrow> label_set \<Rightarrow> label_set" where
  "same_pkg_direct_rdeps g roots =
     bs_of (concat (map (\<lambda>t. filter (\<lambda>p. pkg_prefix p = pkg_prefix t) (preds g t)) roots))"

subsection \<open>Somepath\<close>

type_synonym parents = "(string, string option) bmap"

text \<open>The path is read back from the parents; its length is at most the number of the parents.\<close>

primrec trace_back :: "nat \<Rightarrow> parents \<Rightarrow> string option \<Rightarrow> label_set \<Rightarrow> label_set" where
  "trace_back 0 parent node path = path"
| "trace_back (Suc fuel) parent node path =
     (case node of
        None \<Rightarrow> path
      | Some n \<Rightarrow>
          trace_back fuel parent (case bm_get parent n of None \<Rightarrow> None | Some p \<Rightarrow> p) (bs_insert n path))"

fun add_parents :: "string \<Rightarrow> string list \<Rightarrow> parents \<Rightarrow> string list \<Rightarrow> parents \<times> string list" where
  "add_parents cur [] parent q = (parent, q)"
| "add_parents cur (s # ss) parent q =
     (if bm_get parent s = None then add_parents cur ss (bm_insert s (Some cur) parent) (q @ [s])
      else add_parents cur ss parent q)"

lemma add_parents_result:
  assumes "add_parents cur ss parent q = (parent', q')"
  obtains new where "q' = q @ new" "distinct new" "set new = {s \<in> set ss. bm_get parent s = None}"
    "bm_get parent' = (\<lambda>x. if x \<in> set new then Some (Some cur) else bm_get parent x)"
proof -
  have "\<exists>new. q' = q @ new \<and> distinct new \<and> set new = {s \<in> set ss. bm_get parent s = None} \<and>
      bm_get parent' = (\<lambda>x. if x \<in> set new then Some (Some cur) else bm_get parent x)"
    using assms
  proof (induction cur ss parent q rule: add_parents.induct)
    case (1 cur parent q)
    then show ?case by auto
  next
    case (2 cur s ss parent q)
    show ?case
    proof (cases "bm_get parent s = None")
      case False
      with 2 show ?thesis by auto
    next
      case True
      with 2 obtain new where "q' = q @ s # new" "distinct new"
        "set new = {x \<in> set ss. bm_get (bm_insert s (Some cur) parent) x = None}"
        "bm_get parent' = (\<lambda>x. if x \<in> set new then Some (Some cur) else bm_get (bm_insert s (Some cur) parent) x)"
        by auto
      with True show ?thesis by (intro exI [of _ "s # new"]) (auto simp: fun_eq_iff)
    qed
  qed
  with that show thesis by blast
qed

definition unparented :: "query_graph \<Rightarrow> parents \<Rightarrow> string set" where
  "unparented g parent = {x \<in> edge_labels g. bm_get parent x = None}"

function somepath_loop :: "query_graph \<Rightarrow> bool \<Rightarrow> label_set \<Rightarrow> parents \<Rightarrow> string list \<Rightarrow> label_set" where
  "somepath_loop g implicit to parent [] = []"
| "somepath_loop g implicit to parent (cur # q) =
     (if cur \<in> set to then trace_back (length parent) parent (Some cur) []
      else (case add_parents cur (sort (successors g implicit cur)) parent q of
              (parent, q) \<Rightarrow> somepath_loop g implicit to parent q))"
  by pat_completeness auto
termination
proof (relation "measure (\<lambda>(g, i, to, parent, q). card (unparented g parent) + length q)", goal_cases)
  case 1
  show ?case by simp
next
  case (2 g i to parent cur q parent' q')
  then have "add_parents cur (sort (successors g i cur)) parent q = (parent', q')" by simp
  then obtain new where new: "q' = q @ new" "distinct new"
    "set new = {s \<in> set (sort (successors g i cur)). bm_get parent s = None}"
    "bm_get parent' = (\<lambda>x. if x \<in> set new then Some (Some cur) else bm_get parent x)"
    by (rule add_parents_result)
  have "set new \<subseteq> unparented g parent" using new(3) successors_labels [of g i cur] by (auto simp: unparented_def)
  moreover have "unparented g parent' = unparented g parent - set new"
    using new(4) by (auto simp: unparented_def)
  moreover have "finite (unparented g parent)" by (simp add: unparented_def)
  moreover have "card (set new) = length new" using new(2) by (rule distinct_card)
  ultimately have "card (unparented g parent') + length new = card (unparented g parent)"
    using card_mono [of "unparented g parent" "set new"] by (simp add: card_Diff_subset)
  then show ?case using new(1) by simp
qed

definition qg_somepath :: "query_graph \<Rightarrow> label_set \<Rightarrow> label_set \<Rightarrow> bool \<Rightarrow> label_set" where
  "qg_somepath g from to implicit =
     somepath_loop g implicit to (fold (\<lambda>s. bm_insert s None) from []) from"

subsection \<open>Target patterns\<close>

definition or_else :: "'a option \<Rightarrow> 'a option \<Rightarrow> 'a option" where
  "or_else a b = (case a of None \<Rightarrow> b | Some _ \<Rightarrow> a)"

definition labels_where :: "(loaded_target \<Rightarrow> bool) \<Rightarrow> query_graph \<Rightarrow> label_set" where
  "labels_where P g = bs_of (map lt_label (filter P (map snd (qg_targets g))))"

definition in_package :: "string \<Rightarrow> string \<Rightarrow> bool" where
  "in_package pkg l =
     (Option.bind (strip_prefix l ''//'') (\<lambda>b. map_option fst (split_once b (CHR '':''))) = Some pkg)"

definition match_pattern :: "query_graph \<Rightarrow> string \<Rightarrow> label_set" where
  "match_pattern g pattern =
     (let body = (case strip_prefix pattern ''//'' of Some b \<Rightarrow> b | None \<Rightarrow> pattern) in
      if body = ''...'' \<or> body = ''...:all'' then all_targets g
      else case or_else (strip_suffix body ''/...:all'') (strip_suffix body ''/...'') of
        Some pfx \<Rightarrow> labels_where (\<lambda>t. lt_package t = pfx \<or> starts_with (lt_package t) (pfx @ ''/'')) g
      | None \<Rightarrow>
         (case or_else (strip_suffix body '':*'') (strip_suffix body '':all-targets'') of
            Some pkg \<Rightarrow>
              bs_insert (''//'' @ pkg @ '':BUILD'')
                (filter (in_package pkg) (bm_keys (qg_kinds g)))
          | None \<Rightarrow>
             (case strip_suffix body '':all'' of
                Some pkg \<Rightarrow> labels_where (\<lambda>t. lt_package t = pkg) g
              | None \<Rightarrow> filter (\<lambda>l. l = pattern) (bm_keys (qg_targets g)))))"

end
