(* ===== verification/Query_Reach.thy ===== *)
theory Query_Reach
  imports Query_Graph
begin

section \<open>razel-query: the searches compute what the documentation says\<close>

text \<open>
  The depth-bounded closures of \<open>Query_Graph\<close> against reachability in at most so many steps.  Both
  loops are instances of one search, proved once in the locale \<open>level_search\<close>.
\<close>

definition within :: "('a \<times> 'a) set \<Rightarrow> nat option \<Rightarrow> 'a set \<Rightarrow> 'a set" where
  "within R D S = {y. \<exists>k. (\<forall>m. D = Some m \<longrightarrow> k \<le> m) \<and> (\<exists>x \<in> S. (x, y) \<in> R ^^ k)}"

lemma within_None: "within R None S = R\<^sup>* `` S"
proof -
  have "within R None S = {y. \<exists>x \<in> S. \<exists>k. (x, y) \<in> R ^^ k}" unfolding within_def by auto
  also have "\<dots> = R\<^sup>* `` S" unfolding rtrancl_is_UN_relpow by auto
  finally show ?thesis .
qed

definition upto_level :: "('a \<times> 'a) set \<Rightarrow> 'a set \<Rightarrow> nat \<Rightarrow> 'a set" where
  "upto_level R S d = {y. \<exists>k < d. \<exists>x \<in> S. (x, y) \<in> R ^^ k}"

lemma upto_level_Suc: "upto_level R S (Suc d) = upto_level R S d \<union> (R ^^ d) `` S"
  by (auto simp: upto_level_def less_Suc_eq)

lemma Image_upto_level: "R `` upto_level R S d \<subseteq> upto_level R S (Suc d)"
proof
  fix z
  assume "z \<in> R `` upto_level R S d"
  then obtain k x y where "k < d" "x \<in> S" "(x, y) \<in> R ^^ k" "(y, z) \<in> R" by (auto simp: upto_level_def)
  then have "Suc k < Suc d" "(x, z) \<in> R ^^ Suc k" by auto
  with \<open>x \<in> S\<close> show "z \<in> upto_level R S (Suc d)" unfolding upto_level_def by blast
qed

lemma upto_level_closed:
  assumes "R `` A \<subseteq> A" "S \<subseteq> A"
  shows "upto_level R S n \<subseteq> A"
proof (induction n)
  case 0
  show ?case by (simp add: upto_level_def)
next
  case (Suc n)
  have "(R ^^ k) `` S \<subseteq> A" for k
  proof (induction k)
    case (Suc k)
    then show ?case using assms(1) by fastforce
  qed (use assms in simp)
  with Suc show ?case by (simp add: upto_level_Suc)
qed

locale level_search =
  fixes succ :: "'a::linorder \<Rightarrow> 'a list"
    and loop :: "nat option \<Rightarrow> nat \<Rightarrow> 'a bset \<Rightarrow> 'a list \<Rightarrow> 'a bset"
  assumes finite_succ: "finite (\<Union>x. set (succ x))"
    and loop_unfold: "loop D d seen fr =
      (if fr = [] \<or> depth_reached D d then seen
       else (case mark_new (concat (map succ fr)) seen [] of (seen, nx) \<Rightarrow> loop D (d + 1) seen nx))"
begin

definition rel :: "('a \<times> 'a) set" where
  "rel = {(x, y). y \<in> set (succ x)}"

lemma Image_rel: "rel `` X = (\<Union>x \<in> X. set (succ x))"
  by (auto simp: rel_def)

lemma within_level:
  assumes "\<And>m. D = Some m \<Longrightarrow> d \<le> m" "D = Some d \<or> rel `` upto_level rel S (Suc d) \<subseteq> upto_level rel S (Suc d)"
  shows "within rel D S = upto_level rel S (Suc d)"
proof
  show "upto_level rel S (Suc d) \<subseteq> within rel D S"
  proof
    fix y
    assume "y \<in> upto_level rel S (Suc d)"
    then obtain k x where k: "k < Suc d" "x \<in> S" "(x, y) \<in> rel ^^ k" by (auto simp: upto_level_def)
    then have "k \<le> m" if "D = Some m" for m using assms(1) [OF that] by simp
    with k(2,3) show "y \<in> within rel D S" unfolding within_def by blast
  qed
  show "within rel D S \<subseteq> upto_level rel S (Suc d)"
  proof
    fix y
    assume "y \<in> within rel D S"
    then obtain k x where k: "\<forall>m. D = Some m \<longrightarrow> k \<le> m" "x \<in> S" "(x, y) \<in> rel ^^ k"
      unfolding within_def by blast
    from assms(2) show "y \<in> upto_level rel S (Suc d)"
    proof
      assume "D = Some d"
      with k show ?thesis unfolding upto_level_def by (auto simp: less_Suc_eq_le)
    next
      assume closed: "rel `` upto_level rel S (Suc d) \<subseteq> upto_level rel S (Suc d)"
      have "S \<subseteq> upto_level rel S (Suc d)" by (force simp: upto_level_def)
      from upto_level_closed [OF closed this, of "Suc k"] k show ?thesis
        by (force simp: upto_level_Suc)
    qed
  qed
qed

lemma loop_within:
  assumes "set seen = upto_level rel S (Suc d)" "set fr \<subseteq> (rel ^^ d) `` S"
    and "(rel ^^ d) `` S \<subseteq> set fr \<union> upto_level rel S d" "\<And>m. D = Some m \<Longrightarrow> d \<le> m"
  shows "set (loop D d seen fr) = within rel D S"
  using assms
proof (induction "card ((\<Union>x. set (succ x)) - set seen) + (if fr = [] then 0 else 1)" arbitrary: d seen fr
    rule: less_induct)
  case less
  show ?case
  proof (cases "fr = [] \<or> depth_reached D d")
    case True
    have "D = Some d \<or> rel `` upto_level rel S (Suc d) \<subseteq> upto_level rel S (Suc d)"
    proof (cases "fr = []")
      case True
      with less.prems(3) have "upto_level rel S (Suc d) = upto_level rel S d" by (auto simp: upto_level_Suc)
      with Image_upto_level [of rel S d] show ?thesis by simp
    next
      case False
      with True obtain m where "D = Some m" "m \<le> d" by (auto simp: depth_reached_def split: option.splits)
      with less.prems(4) show ?thesis by force
    qed
    from within_level [OF less.prems(4) this] True less.prems(1) show ?thesis
      by (simp add: loop_unfold)
  next
    case False
    obtain seen' nx where mark: "mark_new (concat (map succ fr)) seen [] = (seen', nx)" by force
    obtain new where new: "nx = [] @ new" "set seen' = set seen \<union> set (concat (map succ fr))"
      "set new = set (concat (map succ fr)) - set seen"
      by (rule mark_new_result [OF mark])
    have step: "set (concat (map succ fr)) = rel `` set fr" by (simp add: Image_rel)
    have next_level: "(rel ^^ Suc d) `` S = rel `` ((rel ^^ d) `` S)" by (auto simp: relcomp_Image)
    have old: "rel `` upto_level rel S d \<subseteq> set seen" using Image_upto_level less.prems(1) by metis
    have fr1: "rel `` set fr \<subseteq> (rel ^^ Suc d) `` S" unfolding next_level using less.prems(2) by blast
    have fr2: "(rel ^^ Suc d) `` S \<subseteq> rel `` set fr \<union> set seen"
      unfolding next_level using less.prems(3) old by blast
    have "set (loop D (d + 1) seen' nx) = within rel D S"
    proof (rule less.hyps)
      have "set (concat (map succ fr)) \<subseteq> (\<Union>x. set (succ x))" by auto
      from level_measure [OF finite_succ mark this, of fr] False
      show "card ((\<Union>x. set (succ x)) - set seen') + (if nx = [] then 0 else 1)
        < card ((\<Union>x. set (succ x)) - set seen) + (if fr = [] then 0 else 1)" by simp
      show "set seen' = upto_level rel S (Suc (d + 1))"
        unfolding upto_level_Suc [of _ _ "d + 1"] new(2) step
        using fr1 fr2 less.prems(1) by (simp del: relpow.simps) blast
      show "set nx \<subseteq> (rel ^^ (d + 1)) `` S" using new(1,3) step fr1 by auto
      show "(rel ^^ (d + 1)) `` S \<subseteq> set nx \<union> upto_level rel S (d + 1)"
        using new(1,3) step fr2 less.prems(1) by auto
      show "d + 1 \<le> m" if "D = Some m" for m
        using that less.prems(4) [OF that] False by (auto simp: depth_reached_def)
    qed
    with False mark show ?thesis by (simp add: loop_unfold [of D d seen fr])
  qed
qed

lemma search_within: "set (loop D 0 roots roots) = within rel D (set roots)"
  by (rule loop_within) (auto simp: upto_level_Suc upto_level_def)

lemma loop_ok: "bs_ok seen \<Longrightarrow> bs_ok (loop D d seen fr)"
proof (induction "card ((\<Union>x. set (succ x)) - set seen) + (if fr = [] then 0 else 1)" arbitrary: d seen fr
    rule: less_induct)
  case less
  show ?case
  proof (cases "fr = [] \<or> depth_reached D d")
    case True
    with less.prems show ?thesis by (simp add: loop_unfold)
  next
    case False
    obtain seen' nx where mark: "mark_new (concat (map succ fr)) seen [] = (seen', nx)" by force
    have "set (concat (map succ fr)) \<subseteq> (\<Union>x. set (succ x))" by auto
    from level_measure [OF finite_succ mark this, of fr] False
    have "card ((\<Union>x. set (succ x)) - set seen') + (if nx = [] then 0 else 1)
        < card ((\<Union>x. set (succ x)) - set seen) + (if fr = [] then 0 else 1)" by simp
    from less.hyps [OF this mark_new_ok [OF mark less.prems]] False mark show ?thesis
      by (simp add: loop_unfold [of D d seen fr])
  qed
qed

end

interpretation fwd: level_search "successors g implicit" "deps_loop g implicit" for g implicit
proof
  show "finite (\<Union>x. set (successors g implicit x))"
    by (rule finite_subset [OF _ finite_labels(1)]) (use successors_labels in blast)
qed (rule deps_loop.simps)

interpretation bwd: level_search "\<lambda>l. filter (\<lambda>p. p \<in> set universe) (preds g l)" "rdeps_loop g universe"
  for g universe
proof
  show "finite (\<Union>x. set (filter (\<lambda>p. p \<in> set universe) (preds g x)))"
    by (rule finite_subset [OF _ finite_labels(2)]) (use preds_labels in auto)
qed (rule rdeps_loop.simps)

subsection \<open>Edges and the reverse adjacency\<close>

definition edge_rel :: "query_graph \<Rightarrow> bool \<Rightarrow> (string \<times> string) set" where
  "edge_rel g implicit = {(a, b). b \<in> set (successors g implicit a)}"

lemma deps_within: "set (qg_deps g roots depth implicit) = within (edge_rel g implicit) depth (set roots)"
  unfolding qg_deps_def fwd.search_within fwd.rel_def edge_rel_def ..

lemma deps_ok: "bs_ok roots \<Longrightarrow> bs_ok (qg_deps g roots depth implicit)"
  unfolding qg_deps_def by (rule fwd.loop_ok)

lemma rdeps_ok: "bs_ok roots \<Longrightarrow> bs_ok (qg_rdeps g universe roots depth)"
  unfolding qg_rdeps_def Let_def by (intro bwd.loop_ok bs_ok_filter)

definition qg_ok :: "query_graph \<Rightarrow> bool" where
  "qg_ok g \<longleftrightarrow> bm_ok (qg_targets g) \<and> (\<forall>a b. a \<in> set (preds g b) \<longleftrightarrow> (a, b) \<in> edge_rel g True)"

lemma rdeps_within:
  assumes "qg_ok g"
  shows "set (qg_rdeps g universe roots depth) =
    within {(b, a). (a, b) \<in> edge_rel g True \<and> a \<in> set universe} depth (set roots \<inter> set universe)"
proof -
  have "bwd.rel universe g = {(b, a). (a, b) \<in> edge_rel g True \<and> a \<in> set universe}"
    using assms by (auto simp: bwd.rel_def qg_ok_def)
  moreover have "set (filter (\<lambda>r. r \<in> set universe) roots) = set roots \<inter> set universe" by auto
  ultimately show ?thesis unfolding qg_rdeps_def Let_def bwd.search_within by simp
qed

lemma successors_all:
  "b \<in> set (successors g True a) \<longleftrightarrow> (\<exists>t. bm_get (qg_targets g) a = Some t \<and> b \<in> e_to ` set (lt_edges t))"
  by (cases "bm_get (qg_targets g) a") (auto simp: successors_def)

lemma preds_entry:
  "(case bm_get (bm_entry k [] (bs_insert l) rv) b of Some ps \<Rightarrow> set ps | None \<Rightarrow> {}) =
   (case bm_get rv b of Some ps \<Rightarrow> set ps | None \<Rightarrow> {}) \<union> (if b = k then {l} else {})"
  by (auto split: option.split)

abbreviation rev_at :: "(string, label_set) bmap \<Rightarrow> string \<Rightarrow> string set" where
  "rev_at rv b \<equiv> (case bm_get rv b of Some ps \<Rightarrow> set ps | None \<Rightarrow> {})"

lemma index_edge_rev: "rev_at (fst (index_edge ts l e adj)) b = rev_at (fst adj) b \<union> (if b = e_to e then {l} else {})"
proof -
  have "fst (index_edge ts l e adj) = bm_entry (e_to e) [] (bs_insert l) (fst adj)"
    by (cases adj) (auto simp: index_edge_def Let_def split: option.split)
  then show ?thesis by (simp only: preds_entry)
qed

lemma fold_edges_rev:
  "rev_at (fst (fold (index_edge ts l) es adj)) b = rev_at (fst adj) b \<union> (if b \<in> e_to ` set es then {l} else {})"
  by (induction es arbitrary: adj) (auto simp: index_edge_rev)

lemma index_target_rev:
  "rev_at (fst (index_target ts lt adj)) b = rev_at (fst adj) b \<union> (if b \<in> e_to ` set (lt_edges (snd lt)) then {fst lt} else {})"
  by (cases lt; cases adj) (simp only: index_target_def prod.case fold_edges_rev fst_conv snd_conv)

lemma fold_targets_rev:
  "rev_at (fst (fold (index_target ts) lts adj)) b =
   rev_at (fst adj) b \<union> {l. \<exists>t. (l, t) \<in> set lts \<and> b \<in> e_to ` set (lt_edges t)}"
proof (induction lts arbitrary: adj)
  case (Cons lt lts)
  have "rev_at (fst (fold (index_target ts) (lt # lts) adj)) b =
      rev_at (fst (index_target ts lt adj)) b \<union> {l. \<exists>t. (l, t) \<in> set lts \<and> b \<in> e_to ` set (lt_edges t)}"
    using Cons by simp
  also have "\<dots> = rev_at (fst adj) b \<union> {l. \<exists>t. (l, t) \<in> set (lt # lts) \<and> b \<in> e_to ` set (lt_edges t)}"
    unfolding index_target_rev by (cases lt) auto
  finally show ?case .
qed simp

lemma qg_ok_new: "bm_ok targets \<Longrightarrow> qg_ok (qg_new targets)"
proof -
  assume ok: "bm_ok targets"
  obtain rv kinds where r: "fold (index_target targets) targets ([], []) = (rv, kinds)" by force
  have "set (preds (qg_new targets) b) = {a. (a, b) \<in> edge_rel (qg_new targets) True}" for b
  proof -
    have "set (preds (qg_new targets) b) = rev_at rv b"
      by (simp add: preds_def qg_new_def r split: option.split)
    also have "\<dots> = {l. \<exists>t. (l, t) \<in> set targets \<and> b \<in> e_to ` set (lt_edges t)}"
      using fold_targets_rev [of targets targets "([], [])" b] by (simp add: r)
    also have "\<dots> = {a. (a, b) \<in> edge_rel (qg_new targets) True}"
      using ok by (auto simp: edge_rel_def successors_all qg_new_def r bm_get_in_set)
    finally show ?thesis .
  qed
  with ok show ?thesis by (auto simp: qg_ok_def qg_new_def r)
qed

section \<open>razel-query: somepath returns a shortest path\<close>

text \<open>
  The invariant of the multi-source breadth-first search of \<open>somepath\<close>.  \<open>dep\<close> is the depth at which a
  label was found: it decreases along the parents, so the parents are a forest, and it grows along the
  queue, so the first target taken off the queue is a nearest one.
\<close>

definition sp_inv :: "(string \<times> string) set \<Rightarrow> string set \<Rightarrow> string set \<Rightarrow>
    (string \<Rightarrow> string option option) \<Rightarrow> string list \<Rightarrow> (string \<Rightarrow> nat) \<Rightarrow> bool" where
  "sp_inv E F T par q dep \<longleftrightarrow>
     (\<forall>s \<in> F. par s = Some None) \<and>
     (\<forall>k. par k = Some None \<longrightarrow> k \<in> F \<and> dep k = 1) \<and>
     (\<forall>k p. par k = Some (Some p) \<longrightarrow> (p, k) \<in> E \<and> par p \<noteq> None \<and> dep k = Suc (dep p)) \<and>
     (\<forall>x \<in> set q. par x \<noteq> None) \<and>
     sorted (map dep q) \<and> (q \<noteq> [] \<longrightarrow> (\<forall>x. par x \<noteq> None \<longrightarrow> dep x \<le> Suc (dep (hd q)))) \<and>
     (\<forall>x. par x \<noteq> None \<longrightarrow> x \<notin> set q \<longrightarrow>
        x \<notin> T \<and> (\<forall>y. (x, y) \<in> E \<longrightarrow> par y \<noteq> None \<and> dep y \<le> Suc (dep x)))"

lemma sp_invD:
  assumes "sp_inv E F T par q dep"
  shows "s \<in> F \<Longrightarrow> par s = Some None" "par k = Some None \<Longrightarrow> k \<in> F \<and> dep k = 1"
    "par k = Some (Some p) \<Longrightarrow> (p, k) \<in> E \<and> par p \<noteq> None \<and> dep k = Suc (dep p)"
    "x \<in> set q \<Longrightarrow> par x \<noteq> None" "sorted (map dep q)"
    "q \<noteq> [] \<Longrightarrow> par x \<noteq> None \<Longrightarrow> dep x \<le> Suc (dep (hd q))"
    "par x \<noteq> None \<Longrightarrow> x \<notin> set q \<Longrightarrow> x \<notin> T"
    "par x \<noteq> None \<Longrightarrow> x \<notin> set q \<Longrightarrow> (x, y) \<in> E \<Longrightarrow> par y \<noteq> None \<and> dep y \<le> Suc (dep x)"
  using assms unfolding sp_inv_def by blast+

lemma sp_inv_init:
  "(\<And>x. par x = (if x \<in> set q then Some None else None)) \<Longrightarrow> sp_inv E (set q) T par q (\<lambda>_. 1)"
  by (auto simp: sp_inv_def map_replicate_const split: if_splits)

lemma sp_inv_step:
  assumes inv: "sp_inv E F T par (cur # q) dep" and out: "cur \<notin> T"
    and new: "set new = {y. (cur, y) \<in> E \<and> par y = None}"
    and par': "par' = (\<lambda>x. if x \<in> set new then Some (Some cur) else par x)"
  shows "sp_inv E F T par' (q @ new) (\<lambda>x. if x \<in> set new then Suc (dep cur) else dep x)"
proof -
  let ?d = "\<lambda>x. if x \<in> set new then Suc (dep cur) else dep x"
  note I = sp_invD [OF inv]
  have old: "x \<notin> set new" if "par x \<noteq> None" for x using that new by auto
  have cur: "par cur \<noteq> None" "cur \<notin> set new" using I(4) [of cur] old by auto
  have q_old: "\<forall>x \<in> set q. x \<notin> set new" using I(4) old by auto
  have q_ge: "\<forall>x \<in> set q. dep cur \<le> dep x" using I(5) by simp
  have le: "dep x \<le> Suc (dep cur)" if "par x \<noteq> None" for x using I(6) [OF _ that] by simp
  have map_q: "map ?d q = map dep q" using q_old by simp
  have map_new: "map ?d new = map (\<lambda>_. Suc (dep cur)) new" by simp
  have srt: "sorted (map ?d (q @ new))"
    unfolding map_append map_q map_new sorted_append
    using I(5) le I(4) by (auto simp: map_replicate_const)
  have le': "?d x \<le> Suc (dep cur)" if "par' x \<noteq> None" for x using that le by (auto simp: par' split: if_splits)
  have hd_ge: "dep cur \<le> ?d (hd (q @ new))" if "q @ new \<noteq> []"
    using that q_ge q_old by (cases q; cases new) auto
  have parent: "(p, k) \<in> E \<and> par' p \<noteq> None \<and> ?d k = Suc (?d p)" if "par' k = Some (Some p)" for k p
  proof (cases "k \<in> set new")
    case True
    with that new cur show ?thesis by (auto simp: par')
  next
    case False
    with that have "par k = Some (Some p)" by (simp add: par')
    from I(3) [OF this] False old show ?thesis by (auto simp: par')
  qed
  have processed: "x \<notin> T \<and> (\<forall>y. (x, y) \<in> E \<longrightarrow> par' y \<noteq> None \<and> ?d y \<le> Suc (?d x))"
    if x: "par' x \<noteq> None" "x \<notin> set (q @ new)" for x
  proof (cases "x = cur")
    case True
    have "par' y \<noteq> None" if "(cur, y) \<in> E" for y using that new by (auto simp: par')
    with True out cur le' show ?thesis by simp
  next
    case False
    with x have px: "par x \<noteq> None" "x \<notin> set (cur # q)" "x \<notin> set new" by (auto simp: par' split: if_splits)
    have "par' y \<noteq> None \<and> ?d y \<le> Suc (?d x)" if "(x, y) \<in> E" for y
      using I(8) [OF px(1,2) that] old [of y] px(3) by (simp add: par')
    with I(7) [OF px(1,2)] show ?thesis by simp
  qed
  have roots: "\<forall>s \<in> F. par' s = Some None" "\<forall>k. par' k = Some None \<longrightarrow> k \<in> F \<and> ?d k = 1"
    using I(1,2) old by (auto simp: par')
  have keys: "\<forall>x \<in> set (q @ new). par' x \<noteq> None" using I(4) by (auto simp: par')
  have far: "q @ new \<noteq> [] \<longrightarrow> (\<forall>x. par' x \<noteq> None \<longrightarrow> ?d x \<le> Suc (?d (hd (q @ new))))"
    using le' hd_ge by (meson le_trans Suc_le_mono)
  show ?thesis
    unfolding sp_inv_def using roots parent keys srt far processed by blast
qed

text \<open>Reading a path back from the parents.\<close>

lemma trace_path:
  assumes inv: "sp_inv E F T (bm_get parent) q dep"
  shows "bm_get parent k \<noteq> None \<Longrightarrow> dep k \<le> fuel \<Longrightarrow>
    \<exists>xs. xs \<noteq> [] \<and> length xs = dep k \<and> successively (\<lambda>a b. (a, b) \<in> E) xs \<and> hd xs \<in> F \<and> last xs = k \<and>
      set (trace_back fuel parent (Some k) acc) = set acc \<union> set xs \<and>
      (\<forall>x \<in> set xs. bm_get parent x \<noteq> None) \<and> map dep xs = [1 ..< Suc (dep k)]"
proof (induction "dep k" arbitrary: k fuel acc rule: less_induct)
  case less
  note I = sp_invD [OF inv]
  from less.prems(1) obtain o1 where o1: "bm_get parent k = Some o1" by blast
  show ?case
  proof (cases o1)
    case None
    with I(2) [of k] o1 have k: "k \<in> F" "dep k = 1" by simp_all
    with less.prems(2) obtain f where f: "fuel = Suc f" by (cases fuel) auto
    show ?thesis
    proof (cases f)
      case 0
      with k f o1 None show ?thesis by (intro exI [of _ "[k]"]) simp
    next
      case (Suc f')
      with k f o1 None show ?thesis by (intro exI [of _ "[k]"]) simp
    qed
  next
    case (Some p)
    with I(3) [of k p] o1 have p: "(p, k) \<in> E" "bm_get parent p \<noteq> None" "dep k = Suc (dep p)" by auto
    from less.prems(2) p obtain f where f: "fuel = Suc f" "dep p \<le> f" by (cases fuel) auto
    from less.hyps [OF _ p(2) f(2), of "bs_insert k acc"] p(3) obtain xs where
      xs: "xs \<noteq> []" "length xs = dep p" "successively (\<lambda>a b. (a, b) \<in> E) xs" "hd xs \<in> F" "last xs = p"
        "set (trace_back f parent (Some p) (bs_insert k acc)) = set (bs_insert k acc) \<union> set xs"
        "\<forall>x \<in> set xs. bm_get parent x \<noteq> None" "map dep xs = [1 ..< Suc (dep p)]" by auto
    have "successively (\<lambda>a b. (a, b) \<in> E) (xs @ [k])"
      using xs(1,3,5) p(1) by (simp add: successively_append_iff)
    with xs p f o1 Some less.prems(1) show ?thesis
      by (intro exI [of _ "xs @ [k]"]) (auto simp del: upt_Suc simp: upt_Suc_append)
  qed
qed

lemma dep_le_length:
  assumes inv: "sp_inv E F T (bm_get parent) q dep" and k: "bm_get parent k \<noteq> None"
  shows "dep k \<le> length parent"
proof -
  from trace_path [OF inv k order_refl, of "[]"] obtain xs where
    xs: "length xs = dep k" "\<forall>x \<in> set xs. bm_get parent x \<noteq> None" "map dep xs = [1 ..< Suc (dep k)]" by auto
  have "distinct xs" using xs(3) distinct_upt distinct_map by metis
  then have "dep k = card (set xs)" using xs(1) by (simp add: distinct_card)
  also have "set xs \<subseteq> fst ` set parent"
    using xs(2) by (force simp: bm_get_def map_of_eq_None_iff)
  then have "card (set xs) \<le> card (fst ` set parent)" by (intro card_mono) simp_all
  also have "\<dots> \<le> length parent" by (metis card_image_le card_length dual_order.trans finite_set)
  finally show ?thesis .
qed

definition is_path :: "(string \<times> string) set \<Rightarrow> string set \<Rightarrow> string set \<Rightarrow> string list \<Rightarrow> bool" where
  "is_path E F T xs \<longleftrightarrow>
     xs \<noteq> [] \<and> successively (\<lambda>a b. (a, b) \<in> E) xs \<and> hd xs \<in> F \<and> last xs \<in> T"

lemma sp_inv_nearest:
  assumes inv: "sp_inv E F T par q dep" and p: "is_path E F T ys"
    and far: "\<forall>x \<in> set q. length ys < dep x"
  shows False
proof -
  note I = sp_invD [OF inv]
  have reach: "par (ys ! i) \<noteq> None \<and> dep (ys ! i) \<le> Suc i" if "i < length ys" for i
    using that
  proof (induction i)
    case 0
    then have "ys ! 0 \<in> F" using p by (auto simp: is_path_def hd_conv_nth)
    with I(1) I(2) show ?case by fastforce
  next
    case (Suc i)
    then have ih: "par (ys ! i) \<noteq> None" "dep (ys ! i) \<le> Suc i" by simp_all
    with far Suc.prems have "ys ! i \<notin> set q" by fastforce
    moreover have "(ys ! i, ys ! Suc i) \<in> E"
      using p Suc.prems by (simp add: is_path_def successively_conv_nth)
    ultimately show ?case using I(8) [OF ih(1)] ih(2) by fastforce
  qed
  let ?n = "length ys - 1"
  have "ys \<noteq> []" "last ys \<in> T" using p by (simp_all add: is_path_def)
  then have n: "?n < length ys" "ys ! ?n \<in> T" by (simp_all add: last_conv_nth)
  from reach [OF n(1)] n far have "ys ! ?n \<notin> set q" by fastforce
  with reach [OF n(1)] I(7) n(2) show False by blast
qed

lemma somepath_loop_spec:
  assumes "sp_inv (edge_rel g i) F (set to) (bm_get parent) q dep"
  shows "(somepath_loop g i to parent q = [] \<and> (\<nexists>ys. is_path (edge_rel g i) F (set to) ys)) \<or>
    (\<exists>xs. is_path (edge_rel g i) F (set to) xs \<and> set (somepath_loop g i to parent q) = set xs \<and>
       (\<forall>ys. is_path (edge_rel g i) F (set to) ys \<longrightarrow> length xs \<le> length ys))"
  using assms
proof (induction g i to parent q arbitrary: dep rule: somepath_loop.induct)
  case (1 g i to parent)
  with sp_inv_nearest [OF 1] show ?case by auto
next
  case (2 g i to parent cur q)
  note inv = "2.prems"
  note I = sp_invD [OF inv]
  show ?case
  proof (cases "cur \<in> set to")
    case True
    have cur: "bm_get parent cur \<noteq> None" using I(4) [of cur] by simp
    from trace_path [OF inv cur dep_le_length [OF inv cur], of "[]"] obtain xs where
      xs: "xs \<noteq> []" "length xs = dep cur" "successively (\<lambda>a b. (a, b) \<in> edge_rel g i) xs" "hd xs \<in> F" "last xs = cur"
        "set (trace_back (length parent) parent (Some cur) []) = set xs" by auto
    have "is_path (edge_rel g i) F (set to) xs" using xs True by (simp add: is_path_def)
    moreover have "length xs \<le> length ys" if "is_path (edge_rel g i) F (set to) ys" for ys
    proof (rule ccontr)
      assume "\<not> length xs \<le> length ys"
      then have "\<forall>x \<in> set (cur # q). length ys < dep x" using xs(2) I(5) by auto
      with sp_inv_nearest [OF inv that] show False by blast
    qed
    ultimately show ?thesis using True xs(6) by auto
  next
    case False
    obtain parent' q' where add: "add_parents cur (sort (successors g i cur)) parent q = (parent', q')" by force
    then obtain new where new: "q' = q @ new"
      "set new = {s \<in> set (sort (successors g i cur)). bm_get parent s = None}"
      "bm_get parent' = (\<lambda>x. if x \<in> set new then Some (Some cur) else bm_get parent x)"
      by (rule add_parents_result)
    have "set new = {y. (cur, y) \<in> edge_rel g i \<and> bm_get parent y = None}"
      using new(2) by (auto simp: edge_rel_def)
    from sp_inv_step [OF inv False this new(3)] new(1) "2.IH" [OF False add [symmetric]] show ?thesis
      using False add by simp
  qed
qed

lemma bm_get_fold_roots:
  "bm_get (fold (\<lambda>s. bm_insert s None) from m) x = (if x \<in> set from then Some None else bm_get m x)"
  by (induction "from" arbitrary: m) auto

end
