(* ===== verification/Query_Parse.thy ===== *)
theory Query_Parse
  imports Std_Str
begin

section \<open>razel-query: the expression parser\<close>

text \<open>
  \<^verbatim>\<open>crates/razel-query/src/parse.rs\<close>: the tokenizer and the recursive-descent parser of the query
  language.  The parser state \<open>(tokens, pos)\<close> is the list of the tokens from \<open>pos\<close> on.  A parser
  answers \<open>None\<close> when the bound on its recursion is used up, which \<open>p_expr_total\<close> shows never happens
  with the bound \<open>parse\<close> takes.  Input is ASCII: whitespace is the ASCII whitespace of
  \<open>char::is_whitespace\<close>.
\<close>

datatype expr =
    Pattern string
  | Var string
  | Deps expr "nat option"
  | Rdeps expr expr "nat option"
  | Kind string expr
  | Filter string expr
  | Attr string string expr
  | Labels string expr
  | SomePath expr expr
  | AllPaths expr expr
  | Siblings expr
  | SamePkgDirectRdeps expr
  | Tests expr
  | Visible expr expr
  | Union expr expr
  | Except expr expr
  | Intersect expr expr
  | Let string expr expr

datatype tok = Word string | Str string | LParen | RParen | Comma

fun tok_text :: "tok \<Rightarrow> string" where
  "tok_text (Word s) = s"
| "tok_text (Str s) = s"
| "tok_text LParen = ''(''"
| "tok_text RParen = '')''"
| "tok_text Comma = '',''"

subsection \<open>Tokenizer\<close>

definition is_ws :: "char \<Rightarrow> bool" where
  "is_ws c \<longleftrightarrow> of_char c \<in> {9, 10, 11, 12, 13, 32 :: nat}"

definition flush :: "string \<Rightarrow> tok list \<Rightarrow> tok list" where
  "flush word out = (if word \<noteq> [] then out @ [Word word] else out)"

function tokenize_loop :: "string \<Rightarrow> string \<Rightarrow> tok list \<Rightarrow> tok list res" where
  "tokenize_loop [] word out = Ok (flush word out)"
| "tokenize_loop (c # cs) word out =
     (if is_ws c then tokenize_loop cs [] (flush word out)
      else if c = CHR ''('' then tokenize_loop cs [] (flush word out @ [LParen])
      else if c = CHR '')'' then tokenize_loop cs [] (flush word out @ [RParen])
      else if c = CHR '','' then tokenize_loop cs [] (flush word out @ [Comma])
      else if c = CHR 0x22 then
        (case split_once cs (CHR 0x22) of
           None \<Rightarrow> Err ''unterminated quoted string''
         | Some (s, rest) \<Rightarrow> tokenize_loop rest [] (flush word out @ [Str s]))
      else tokenize_loop cs (word @ [c]) out)"
  by pat_completeness auto

termination
  by (relation "measure (\<lambda>(cs, _, _). length cs)") (auto simp: split_once_Some)

definition tokenize :: "string \<Rightarrow> tok list res" where
  "tokenize input = tokenize_loop input [] []"

subsection \<open>Parser\<close>

type_synonym 'a pr = "(string + 'a \<times> tok list) option"

definition p_bind :: "'a pr \<Rightarrow> ('a \<Rightarrow> tok list \<Rightarrow> 'b pr) \<Rightarrow> 'b pr" where
  "p_bind r f = (case r of None \<Rightarrow> None | Some (Inl e) \<Rightarrow> Some (Inl e) | Some (Inr (x, ts)) \<Rightarrow> f x ts)"

definition p_ok :: "'a \<Rightarrow> tok list \<Rightarrow> 'a pr" where
  "p_ok x ts = Some (Inr (x, ts))"

definition p_err :: "string \<Rightarrow> 'a pr" where
  "p_err m = Some (Inl m)"

definition peek_word :: "tok list \<Rightarrow> string option" where
  "peek_word ts = (case ts of Word s # _ \<Rightarrow> Some s | _ \<Rightarrow> None)"

definition found :: "tok list \<Rightarrow> string" where
  "found ts = (case ts of [] \<Rightarrow> ''<end>'' | t # _ \<Rightarrow> tok_text t)"

definition expect :: "tok \<Rightarrow> string \<Rightarrow> tok list \<Rightarrow> unit pr" where
  "expect want ctx ts =
     (if ts \<noteq> [] \<and> hd ts = want then p_ok () (tl ts)
      else p_err (''expected `'' @ tok_text want @ ''` '' @ ctx @ '', found `'' @ found ts @ ''`''))"

definition string_arg :: "string \<Rightarrow> tok list \<Rightarrow> string pr" where
  "string_arg ctx ts =
     (case ts of
        Word s # ts \<Rightarrow> p_ok s ts
      | Str s # ts \<Rightarrow> p_ok s ts
      | _ \<Rightarrow> p_err (''expected a string '' @ ctx @ '', found `'' @ found ts @ ''`''))"

definition opt_depth :: "tok list \<Rightarrow> nat option pr" where
  "opt_depth ts =
     (if ts \<noteq> [] \<and> hd ts = Comma then
        p_bind (string_arg ''as the depth'' (tl ts)) (\<lambda>n ts.
          (case parse_u32 n of
             Some d \<Rightarrow> p_ok (Some d) ts
           | None \<Rightarrow> p_err (''depth `'' @ n @ ''` is not a non-negative integer'')))
      else p_ok None ts)"

text \<open>The productions, with the parser of \<open>expr\<close> as a parameter; each starts at its keyword.\<close>

definition parse_let :: "(tok list \<Rightarrow> expr pr) \<Rightarrow> tok list \<Rightarrow> expr pr" where
  "parse_let ex ts =
     (case tl ts of
        Word name # ts \<Rightarrow>
          if peek_word ts \<noteq> Some ''='' then p_err ''expected `=` in `let`''
          else p_bind (ex (tl ts)) (\<lambda>value ts.
            if peek_word ts \<noteq> Some ''in'' then p_err ''expected `in` in `let`''
            else p_bind (ex (tl ts)) (\<lambda>body ts. p_ok (Let name value body) ts))
      | ts \<Rightarrow> p_err (''expected a variable name after `let`, found `'' @ found ts @ ''`''))"

definition parse_deps :: "(tok list \<Rightarrow> expr pr) \<Rightarrow> tok list \<Rightarrow> expr pr" where
  "parse_deps ex ts =
     p_bind (expect LParen ''after `deps`'' (tl ts)) (\<lambda>_ ts.
     p_bind (ex ts) (\<lambda>x ts.
     p_bind (opt_depth ts) (\<lambda>depth ts.
     p_bind (expect RParen ''to close `deps(`'' ts) (\<lambda>_ ts.
     p_ok (Deps x depth) ts))))"

definition parse_rdeps :: "(tok list \<Rightarrow> expr pr) \<Rightarrow> tok list \<Rightarrow> expr pr" where
  "parse_rdeps ex ts =
     p_bind (expect LParen ''after `rdeps`'' (tl ts)) (\<lambda>_ ts.
     p_bind (ex ts) (\<lambda>universe ts.
     p_bind (expect Comma ''after the rdeps universe'' ts) (\<lambda>_ ts.
     p_bind (ex ts) (\<lambda>x ts.
     p_bind (opt_depth ts) (\<lambda>depth ts.
     p_bind (expect RParen ''to close `rdeps(`'' ts) (\<lambda>_ ts.
     p_ok (Rdeps universe x depth) ts))))))"

definition parse_filter2 :: "(string \<Rightarrow> expr \<Rightarrow> expr) \<Rightarrow> (tok list \<Rightarrow> expr pr) \<Rightarrow> tok list \<Rightarrow> expr pr" where
  "parse_filter2 make ex ts =
     p_bind (expect LParen ''after the function name'' (tl ts)) (\<lambda>_ ts.
     p_bind (string_arg ''as the first argument'' ts) (\<lambda>s ts.
     p_bind (expect Comma ''after the first argument'' ts) (\<lambda>_ ts.
     p_bind (ex ts) (\<lambda>x ts.
     p_bind (expect RParen ''to close the function call'' ts) (\<lambda>_ ts.
     p_ok (make s x) ts)))))"

definition parse_attr :: "(tok list \<Rightarrow> expr pr) \<Rightarrow> tok list \<Rightarrow> expr pr" where
  "parse_attr ex ts =
     p_bind (expect LParen ''after `attr`'' (tl ts)) (\<lambda>_ ts.
     p_bind (string_arg ''as the attr name'' ts) (\<lambda>name ts.
     p_bind (expect Comma ''after the attr name'' ts) (\<lambda>_ ts.
     p_bind (string_arg ''as the attr regex'' ts) (\<lambda>regex ts.
     p_bind (expect Comma ''after the attr regex'' ts) (\<lambda>_ ts.
     p_bind (ex ts) (\<lambda>x ts.
     p_bind (expect RParen ''to close `attr(`'' ts) (\<lambda>_ ts.
     p_ok (Attr name regex x) ts)))))))"

definition parse_path2 :: "(expr \<Rightarrow> expr \<Rightarrow> expr) \<Rightarrow> (tok list \<Rightarrow> expr pr) \<Rightarrow> tok list \<Rightarrow> expr pr" where
  "parse_path2 make ex ts =
     p_bind (expect LParen ''after the function name'' (tl ts)) (\<lambda>_ ts.
     p_bind (ex ts) (\<lambda>a ts.
     p_bind (expect Comma ''between the two path arguments'' ts) (\<lambda>_ ts.
     p_bind (ex ts) (\<lambda>b ts.
     p_bind (expect RParen ''to close the function call'' ts) (\<lambda>_ ts.
     p_ok (make a b) ts)))))"

definition parse_unary :: "(expr \<Rightarrow> expr) \<Rightarrow> (tok list \<Rightarrow> expr pr) \<Rightarrow> tok list \<Rightarrow> expr pr" where
  "parse_unary make ex ts =
     p_bind (expect LParen ''after the function name'' (tl ts)) (\<lambda>_ ts.
     p_bind (ex ts) (\<lambda>x ts.
     p_bind (expect RParen ''to close the function call'' ts) (\<lambda>_ ts.
     p_ok (make x) ts)))"

definition p_primary :: "(tok list \<Rightarrow> expr pr) \<Rightarrow> tok list \<Rightarrow> expr pr" where
  "p_primary ex ts =
     (case ts of
        [] \<Rightarrow> p_err ''unexpected end of expression''
      | LParen # ts \<Rightarrow>
          p_bind (ex ts) (\<lambda>e ts. p_bind (expect RParen ''to close `(`'' ts) (\<lambda>_ ts. p_ok e ts))
      | Str s # _ \<Rightarrow> p_bind (string_arg [] ts) (\<lambda>s ts. p_ok (Pattern s) ts)
      | Word w # rest \<Rightarrow>
          if w = ''let'' then parse_let ex ts
          else if w = ''deps'' then parse_deps ex ts
          else if w = ''rdeps'' then parse_rdeps ex ts
          else if w = ''kind'' then parse_filter2 Kind ex ts
          else if w = ''filter'' then parse_filter2 Filter ex ts
          else if w = ''labels'' then parse_filter2 Labels ex ts
          else if w = ''attr'' then parse_attr ex ts
          else if w = ''somepath'' then parse_path2 SomePath ex ts
          else if w = ''allpaths'' then parse_path2 AllPaths ex ts
          else if w = ''siblings'' then parse_unary Siblings ex ts
          else if w = ''same_pkg_direct_rdeps'' then parse_unary SamePkgDirectRdeps ex ts
          else if w = ''tests'' then parse_unary Tests ex ts
          else if w = ''visible'' then parse_path2 Visible ex ts
          else if w = ''set'' \<or> w = ''buildfiles'' \<or> w = ''loadfiles'' \<or> w = ''rbuildfiles'' then
            p_err (''`'' @ w @ ''` is not supported in razel query v1 (deferred '' @ [CHR 0xE2, CHR 0x80, CHR 0x94, CHR '' '', CHR 0xC2, CHR 0xA7] @ ''12)'')
          else if starts_with w ''$'' then p_ok (Var (tl w)) rest
          else if w \<in> set [''+'', ''-'', ''^'', ''union'', ''except'', ''intersect'', ''in''] then
            p_err (''unexpected operator `'' @ w @ ''`'')
          else p_ok (Pattern w) rest
      | t # _ \<Rightarrow> p_err (''unexpected token `'' @ tok_text t @ ''`''))"

definition set_op :: "string \<Rightarrow> (expr \<Rightarrow> expr \<Rightarrow> expr) option" where
  "set_op w =
     (if w = ''+'' \<or> w = ''union'' then Some Union
      else if w = ''-'' \<or> w = ''except'' then Some Except
      else if w = ''^'' \<or> w = ''intersect'' then Some Intersect
      else None)"

text \<open>The operator loop of \<open>expr\<close>, with the parser of \<open>primary\<close> as a parameter.\<close>

primrec p_ops :: "nat \<Rightarrow> (tok list \<Rightarrow> expr pr) \<Rightarrow> expr \<Rightarrow> tok list \<Rightarrow> expr pr" where
  "p_ops 0 prim left ts = None"
| "p_ops (Suc n) prim left ts =
     (case Option.bind (peek_word ts) set_op of
        None \<Rightarrow> p_ok left ts
      | Some make \<Rightarrow> p_bind (prim (tl ts)) (\<lambda>right ts. p_ops n prim (make left right) ts))"

primrec p_expr :: "nat \<Rightarrow> tok list \<Rightarrow> expr pr" where
  "p_expr 0 ts = None"
| "p_expr (Suc n) ts =
     p_bind (p_primary (p_expr n) ts) (\<lambda>left ts. p_ops (Suc n) (p_primary (p_expr n)) left ts)"

definition parse :: "string \<Rightarrow> expr res" where
  "parse input =
     res_bind (tokenize input) (\<lambda>tokens.
       (case p_expr (Suc (length tokens)) tokens of
          None \<Rightarrow> Err ''recursion limit''
        | Some (Inl m) \<Rightarrow> Err m
        | Some (Inr (e, ts)) \<Rightarrow>
            if ts \<noteq> [] then Err (''unexpected trailing token `'' @ tok_text (hd ts) @ ''`'') else Ok e))"

subsection \<open>Every parser consumes what it reads, and the bound is enough\<close>

text \<open>\<open>advances k p\<close>: on at most \<open>n\<close> tokens the parser answers, and what is left is shorter by \<open>k\<close>.\<close>

definition advances :: "nat \<Rightarrow> nat \<Rightarrow> (tok list \<Rightarrow> 'a pr) \<Rightarrow> bool" where
  "advances n k p \<longleftrightarrow>
     (\<forall>ts. length ts \<le> n \<longrightarrow> p ts \<noteq> None \<and> (\<forall>x ts'. p ts = Some (Inr (x, ts')) \<longrightarrow> length ts' + k \<le> length ts))"

lemma advancesD:
  "advances n k p \<Longrightarrow> length ts \<le> n \<Longrightarrow> p ts \<noteq> None"
  "advances n k p \<Longrightarrow> length ts \<le> n \<Longrightarrow> p ts = Some (Inr (x, ts')) \<Longrightarrow> length ts' + k \<le> length ts"
  by (auto simp: advances_def)

lemma p_simps [simp]:
  "p_bind (p_ok x ts) f = f x ts" "p_bind (p_err m) f = p_err m"
  "p_ok x ts \<noteq> None" "p_err m \<noteq> None" "p_ok x ts = Some (Inr (y, us)) \<longleftrightarrow> x = y \<and> ts = us"
  "p_err m \<noteq> Some (Inr z)"
  by (simp_all add: p_bind_def p_ok_def p_err_def)

lemma p_bind_None: "p_bind r f = None \<longleftrightarrow> r = None \<or> (\<exists>x ts. r = Some (Inr (x, ts)) \<and> f x ts = None)"
  by (auto simp: p_bind_def split: option.splits sum.splits)

lemma p_bind_Some_Inr:
  "p_bind r f = Some (Inr z) \<longleftrightarrow> (\<exists>x ts. r = Some (Inr (x, ts)) \<and> f x ts = Some (Inr z))"
  by (auto simp: p_bind_def split: option.splits sum.splits)

lemma p_bind_cong [fundef_cong]:
  "r = r' \<Longrightarrow> (\<And>x ts. r' = Some (Inr (x, ts)) \<Longrightarrow> f x ts = f' x ts) \<Longrightarrow> p_bind r f = p_bind r' f'"
  by (auto simp: p_bind_def split: option.splits sum.splits)

lemma advances_weaken: "advances n k p \<Longrightarrow> m \<le> n \<Longrightarrow> j \<le> k \<Longrightarrow> advances m j p"
proof -
  assume a: "advances n k p" "m \<le> n" "j \<le> k"
  have "length ts' + j \<le> length ts" if "length ts \<le> m" "p ts = Some (Inr (x, ts'))" for ts x ts'
    using advancesD(2) [OF a(1) _ that(2)] that(1) a(2,3) by simp
  with a show ?thesis by (simp add: advances_def)
qed

lemma advances_bind:
  assumes "advances n 0 p" "\<And>x. advances n 0 (f x)"
  shows "advances n 0 (\<lambda>ts. p_bind (p ts) f)"
  unfolding advances_def
proof (intro allI impI conjI)
  fix ts :: "tok list"
  assume len: "length ts \<le> n"
  have step: "length us \<le> length ts" if "p ts = Some (Inr (x, us))" for x us
    using advancesD(2) [OF assms(1) len that] by auto
  have second: "f x us \<noteq> None" if "p ts = Some (Inr (x, us))" for x us
    using advancesD(1) [OF assms(2), of us] step [OF that] len by simp
  show "p_bind (p ts) f \<noteq> None"
    unfolding p_bind_None using advancesD(1) [OF assms(1) len] second by blast
  fix z ts'
  assume "p_bind (p ts) f = Some (Inr (z, ts'))"
  then obtain x us where u: "p ts = Some (Inr (x, us))" "f x us = Some (Inr (z, ts'))"
    by (auto simp: p_bind_Some_Inr)
  from advancesD(2) [OF assms(2) _ u(2)] step [OF u(1)] len show "length ts' + 0 \<le> length ts" by simp
qed

lemma advances_ok: "advances n 0 (\<lambda>ts. p_ok x ts)"
  by (simp add: advances_def p_ok_def)

lemma advances_err: "advances n k (\<lambda>ts. p_err (m ts))"
  by (simp add: advances_def p_err_def)

lemma advances_if: "advances n k p \<Longrightarrow> advances n k q \<Longrightarrow> advances n k (\<lambda>ts. if b ts then p ts else q ts)"
  by (simp add: advances_def)

lemma advances_tl: "advances n 0 p \<Longrightarrow> advances n 0 (\<lambda>ts. p (tl ts))"
proof -
  assume a: "advances n 0 p"
  have le: "length (tl ts) \<le> length ts" for ts :: "tok list" by simp
  have "p (tl ts) \<noteq> None" if "length ts \<le> n" for ts
    using advancesD(1) [OF a, of "tl ts"] le [of ts] that by simp
  moreover have "length ts' \<le> length ts" if "length ts \<le> n" "p (tl ts) = Some (Inr (x, ts'))" for ts x ts'
  proof -
    have "length (tl ts) \<le> n" using le [of ts] that(1) by (rule le_trans)
    from advancesD(2) [OF a this that(2)] le [of ts] show ?thesis by linarith
  qed
  ultimately show ?thesis by (simp add: advances_def)
qed

lemma advances_expect: "advances n 0 (expect t ctx)"
  by (auto simp: advances_def expect_def p_ok_def p_err_def)

lemma advances_string_arg: "advances n 0 (string_arg ctx)"
  by (auto simp: advances_def string_arg_def p_ok_def p_err_def split: list.splits tok.splits)

lemma advances_depth:
  "advances n 0 (\<lambda>ts. case parse_u32 d of Some d \<Rightarrow> p_ok (Some d) ts | None \<Rightarrow> p_err (m d))"
  by (cases "parse_u32 d") (simp_all add: advances_ok advances_err)

lemma advances_opt_depth: "advances n 0 opt_depth"
  unfolding opt_depth_def
  by (intro advances_if advances_ok advances_bind advances_depth
      advances_tl [of n "string_arg ''as the depth''"] advances_string_arg)

lemmas advances_intros =
  advances_if advances_ok advances_err advances_bind advances_expect advances_string_arg
  advances_opt_depth

text \<open>A production reads its keyword and then does not go back.\<close>

lemma advances_productions:
  assumes ex: "advances m 0 ex"
  shows "advances m 0 (\<lambda>ts. parse_deps ex (t # ts))" "advances m 0 (\<lambda>ts. parse_rdeps ex (t # ts))"
    "advances m 0 (\<lambda>ts. parse_filter2 mk ex (t # ts))" "advances m 0 (\<lambda>ts. parse_attr ex (t # ts))"
    "advances m 0 (\<lambda>ts. parse_path2 mk2 ex (t # ts))" "advances m 0 (\<lambda>ts. parse_unary mk1 ex (t # ts))"
  unfolding parse_deps_def parse_rdeps_def parse_filter2_def parse_attr_def parse_path2_def
    parse_unary_def list.sel
  by (intro advances_intros ex)+

lemma advances_let:
  assumes ex: "advances m 0 ex"
  shows "advances m 0 (\<lambda>ts. parse_let ex (t # ts))"
proof -
  have body: "advances m 0 (\<lambda>ts. if peek_word ts \<noteq> Some ''='' then p_err ''expected `=` in `let`''
      else p_bind (ex (tl ts)) (\<lambda>value ts.
        if peek_word ts \<noteq> Some ''in'' then p_err ''expected `in` in `let`''
        else p_bind (ex (tl ts)) (\<lambda>body ts. p_ok (Let name value body) ts)))" for name
    by (intro advances_intros advances_tl [OF ex])
  show ?thesis
    unfolding advances_def parse_let_def list.sel
  proof (intro allI impI)
    fix ts :: "tok list"
    assume len: "length ts \<le> m"
    show "(case ts of
        Word name # ts \<Rightarrow>
          if peek_word ts \<noteq> Some ''='' then p_err ''expected `=` in `let`''
          else p_bind (ex (tl ts)) (\<lambda>value ts.
            if peek_word ts \<noteq> Some ''in'' then p_err ''expected `in` in `let`''
            else p_bind (ex (tl ts)) (\<lambda>body ts. p_ok (Let name value body) ts))
      | ts \<Rightarrow> p_err (''expected a variable name after `let`, found `'' @ found ts @ ''`'')) \<noteq> None \<and>
      (\<forall>x ts'. (case ts of
        Word name # ts \<Rightarrow>
          if peek_word ts \<noteq> Some ''='' then p_err ''expected `=` in `let`''
          else p_bind (ex (tl ts)) (\<lambda>value ts.
            if peek_word ts \<noteq> Some ''in'' then p_err ''expected `in` in `let`''
            else p_bind (ex (tl ts)) (\<lambda>body ts. p_ok (Let name value body) ts))
      | ts \<Rightarrow> p_err (''expected a variable name after `let`, found `'' @ found ts @ ''`'')) =
      Some (Inr (x, ts')) \<longrightarrow> length ts' + 0 \<le> length ts)"
    proof (cases "\<exists>name us. ts = Word name # us")
      case True
      then obtain name us where ts: "ts = Word name # us" by blast
      with len advancesD [OF body [of name], of us] show ?thesis by (fastforce simp: ts)
    next
      case False
      then show ?thesis by (auto simp: p_err_def split: list.split tok.split)
    qed
  qed
qed

lemma advances_primary:
  assumes ex: "\<And>m. n = Suc m \<Longrightarrow> advances m 0 ex"
  shows "advances n 1 (p_primary ex)"
  unfolding advances_def
proof (intro allI impI)
  fix ts :: "tok list"
  assume len: "length ts \<le> n"
  show "p_primary ex ts \<noteq> None \<and>
      (\<forall>x ts'. p_primary ex ts = Some (Inr (x, ts')) \<longrightarrow> length ts' + 1 \<le> length ts)"
  proof (cases ts)
    case Nil
    then show ?thesis by (simp add: p_primary_def p_err_def)
  next
    case (Cons t us)
    then obtain m where m: "n = Suc m" "length us \<le> m" using len by (cases n) auto
    note ex = ex [OF m(1)]
    have all: "advances m 0 (\<lambda>us. p_primary ex (t # us))"
    proof (cases t)
      case (Word w)
      show ?thesis
        unfolding p_primary_def Word list.case tok.case
        by (intro advances_if advances_ok advances_err advances_productions [OF ex] advances_let [OF ex])
    next
      case (Str s)
      show ?thesis
        by (simp add: p_primary_def Str string_arg_def advances_ok)
    next
      case LParen
      have "advances m 0 (\<lambda>ts. p_bind (ex ts) (\<lambda>e ts.
          p_bind (expect RParen ''to close `(`'' ts) (\<lambda>_ ts. p_ok e ts)))"
        by (intro advances_intros ex)
      then show ?thesis by (simp add: p_primary_def LParen)
    qed (simp_all add: p_primary_def advances_err)
    from advancesD(1) [OF all m(2)] advancesD(2) [OF all m(2)] Cons show ?thesis by fastforce
  qed
qed

lemma advances_ops:
  "advances n 1 prim \<Longrightarrow> k \<le> n \<Longrightarrow> advances k 0 (p_ops (Suc k) prim left)"
proof (induction k arbitrary: left)
  case 0
  then show ?case by (simp add: advances_def peek_word_def)
next
  case (Suc k)
  show ?case
    unfolding advances_def
  proof (intro allI impI)
    fix ts :: "tok list"
    assume len: "length ts \<le> Suc k"
    show "p_ops (Suc (Suc k)) prim left ts \<noteq> None \<and>
      (\<forall>x ts'. p_ops (Suc (Suc k)) prim left ts = Some (Inr (x, ts')) \<longrightarrow> length ts' + 0 \<le> length ts)"
    proof (cases "Option.bind (peek_word ts) set_op")
      case None
      then show ?thesis by simp
    next
      case (Some make)
      then obtain w us where ts: "ts = Word w # us"
        by (auto simp: peek_word_def bind_eq_Some_conv split: list.splits tok.splits)
      have "advances k 0 (\<lambda>us. p_bind (prim us) (\<lambda>right us. p_ops (Suc k) prim (make left right) us))"
      proof (rule advances_bind)
        show "advances k 0 prim" using Suc.prems by (auto intro: advances_weaken)
        show "advances k 0 (p_ops (Suc k) prim (make left x))" for x
          using Suc.prems by (intro Suc.IH) simp_all
      qed
      from advancesD [OF this, of us] len ts Some show ?thesis
        by (fastforce simp del: p_ops.simps simp: p_ops.simps(2) [of "Suc k"])
    qed
  qed
qed

lemma p_expr_advances: "advances n 0 (p_expr (Suc n))"
proof (induction n)
  case 0
  show ?case by (simp add: advances_def p_primary_def p_bind_def p_err_def)
next
  case (Suc n)
  have prim: "advances (Suc n) 1 (p_primary (p_expr (Suc n)))"
    using Suc by (intro advances_primary) (metis nat.inject)
  have "advances (Suc n) 0 (\<lambda>ts. p_bind (p_primary (p_expr (Suc n)) ts)
      (\<lambda>left ts. p_ops (Suc (Suc n)) (p_primary (p_expr (Suc n))) left ts))"
    using prim by (intro advances_bind advances_ops) (auto intro: advances_weaken)
  moreover have "p_expr (Suc (Suc n)) = (\<lambda>ts. p_bind (p_primary (p_expr (Suc n)) ts)
      (\<lambda>left ts. p_ops (Suc (Suc n)) (p_primary (p_expr (Suc n))) left ts))"
    by (rule ext) (rule p_expr.simps(2))
  ultimately show ?case by (simp only:)
qed

lemma p_expr_total: "length ts < n \<Longrightarrow> p_expr n ts \<noteq> None"
  using advancesD(1) [OF p_expr_advances] by (cases n) (auto simp del: p_expr.simps(2))

end
