(* ===== verification/Query_Print.thy ===== *)
theory Query_Print
  imports Query_Parse
begin

section \<open>razel-query: what is printed is parsed back\<close>

text \<open>
  The specification of the parser: \<open>rend\<close> writes an expression as tokens, with parentheses only where
  the left-associative operators need them, and \<open>unlex\<close> writes tokens as text.  Reading the text back
  gives the expression.
\<close>

fun is_let :: "expr \<Rightarrow> bool" where
  "is_let (Let _ _ _) = True"
| "is_let _ = False"

definition wrap :: "bool \<Rightarrow> tok list \<Rightarrow> tok list" where
  "wrap p ts = (if p then LParen # ts @ [RParen] else ts)"

definition rend_depth :: "nat option \<Rightarrow> tok list" where
  "rend_depth d = (case d of None \<Rightarrow> [] | Some n \<Rightarrow> [Comma, Word (dec n)])"

fun rend :: "bool \<Rightarrow> expr \<Rightarrow> tok list" where
  "rend p (Pattern s) = [Str s]"
| "rend p (Var v) = [Word (CHR ''$'' # v)]"
| "rend p (Deps e d) = [Word ''deps'', LParen] @ rend False e @ rend_depth d @ [RParen]"
| "rend p (Rdeps u e d) =
     [Word ''rdeps'', LParen] @ rend False u @ [Comma] @ rend False e @ rend_depth d @ [RParen]"
| "rend p (Kind r e) = [Word ''kind'', LParen, Str r, Comma] @ rend False e @ [RParen]"
| "rend p (Filter r e) = [Word ''filter'', LParen, Str r, Comma] @ rend False e @ [RParen]"
| "rend p (Attr a r e) = [Word ''attr'', LParen, Str a, Comma, Str r, Comma] @ rend False e @ [RParen]"
| "rend p (Labels a e) = [Word ''labels'', LParen, Str a, Comma] @ rend False e @ [RParen]"
| "rend p (SomePath a b) = [Word ''somepath'', LParen] @ rend False a @ [Comma] @ rend False b @ [RParen]"
| "rend p (AllPaths a b) = [Word ''allpaths'', LParen] @ rend False a @ [Comma] @ rend False b @ [RParen]"
| "rend p (Visible a b) = [Word ''visible'', LParen] @ rend False a @ [Comma] @ rend False b @ [RParen]"
| "rend p (Siblings e) = [Word ''siblings'', LParen] @ rend False e @ [RParen]"
| "rend p (SamePkgDirectRdeps e) = [Word ''same_pkg_direct_rdeps'', LParen] @ rend False e @ [RParen]"
| "rend p (Tests e) = [Word ''tests'', LParen] @ rend False e @ [RParen]"
| "rend p (Union a b) = wrap p (rend (is_let a) a @ [Word ''+''] @ rend True b)"
| "rend p (Except a b) = wrap p (rend (is_let a) a @ [Word ''-''] @ rend True b)"
| "rend p (Intersect a b) = wrap p (rend (is_let a) a @ [Word ''^''] @ rend True b)"
| "rend p (Let v e b) = wrap p ([Word ''let'', Word v, Word ''=''] @ rend False e @ [Word ''in''] @ rend False b)"

definition depth_ok :: "nat option \<Rightarrow> bool" where
  "depth_ok d \<longleftrightarrow> (case d of None \<Rightarrow> True | Some n \<Rightarrow> n < 2 ^ 32)"

fun expr_ok :: "(string \<Rightarrow> bool) \<Rightarrow> (string \<Rightarrow> bool) \<Rightarrow> expr \<Rightarrow> bool" where
  "expr_ok W S (Pattern s) = S s"
| "expr_ok W S (Var v) = W (CHR ''$'' # v)"
| "expr_ok W S (Deps e d) = (expr_ok W S e \<and> depth_ok d)"
| "expr_ok W S (Rdeps u e d) = (expr_ok W S u \<and> expr_ok W S e \<and> depth_ok d)"
| "expr_ok W S (Kind r e) = (S r \<and> expr_ok W S e)"
| "expr_ok W S (Filter r e) = (S r \<and> expr_ok W S e)"
| "expr_ok W S (Attr a r e) = (S a \<and> S r \<and> expr_ok W S e)"
| "expr_ok W S (Labels a e) = (S a \<and> expr_ok W S e)"
| "expr_ok W S (SomePath a b) = (expr_ok W S a \<and> expr_ok W S b)"
| "expr_ok W S (AllPaths a b) = (expr_ok W S a \<and> expr_ok W S b)"
| "expr_ok W S (Visible a b) = (expr_ok W S a \<and> expr_ok W S b)"
| "expr_ok W S (Siblings e) = expr_ok W S e"
| "expr_ok W S (SamePkgDirectRdeps e) = expr_ok W S e"
| "expr_ok W S (Tests e) = expr_ok W S e"
| "expr_ok W S (Union a b) = (expr_ok W S a \<and> expr_ok W S b)"
| "expr_ok W S (Except a b) = (expr_ok W S a \<and> expr_ok W S b)"
| "expr_ok W S (Intersect a b) = (expr_ok W S a \<and> expr_ok W S b)"
| "expr_ok W S (Let v e b) = (W v \<and> expr_ok W S e \<and> expr_ok W S b)"

subsection \<open>The parser reads what the printer writes\<close>

definition noop :: "tok list \<Rightarrow> bool" where
  "noop ts \<longleftrightarrow> Option.bind (peek_word ts) set_op = None"

lemma noop_simps [simp]:
  "noop []" "noop (RParen # ts)" "noop (Comma # ts)" "noop (Word ''in'' # ts)"
  by (simp_all add: noop_def peek_word_def set_op_def)

fun spine :: "expr \<Rightarrow> nat" where
  "spine (Union a b) = Suc (if is_let a then 0 else spine a)"
| "spine (Except a b) = Suc (if is_let a then 0 else spine a)"
| "spine (Intersect a b) = Suc (if is_let a then 0 else spine a)"
| "spine _ = 0"

fun is_op :: "expr \<Rightarrow> bool" where
  "is_op (Union _ _) = True"
| "is_op (Except _ _) = True"
| "is_op (Intersect _ _) = True"
| "is_op _ = False"

lemma rend_not_Nil: "rend p e \<noteq> []"
  by (cases e) (simp_all add: wrap_def)

lemma rend_paren: "is_op e \<or> is_let e \<Longrightarrow> rend True e = LParen # rend False e @ [RParen]"
  by (cases e) (simp_all add: wrap_def)

lemma rend_no_paren: "\<not> is_op e \<Longrightarrow> \<not> is_let e \<Longrightarrow> rend True e = rend False e"
  by (cases e) simp_all

lemma spine_less: "spine e < length (rend p e)"
proof (induction e arbitrary: p)
  case (Union a b)
  have "spine a < length (rend False a)" by (rule Union)
  then show ?case by (auto simp: wrap_def rend_not_Nil)
next
  case (Except a b)
  have "spine a < length (rend False a)" by (rule Except)
  then show ?case by (auto simp: wrap_def rend_not_Nil)
next
  case (Intersect a b)
  have "spine a < length (rend False a)" by (rule Intersect)
  then show ?case by (auto simp: wrap_def rend_not_Nil)
qed (simp_all add: wrap_def)

text \<open>What the parser does on each of the three places an expression can stand in.\<close>

abbreviation prim :: "nat \<Rightarrow> tok list \<Rightarrow> expr pr" where
  "prim n \<equiv> p_primary (p_expr n)"

definition reads_primary :: "expr \<Rightarrow> bool" where
  "reads_primary e \<longleftrightarrow>
     (\<forall>n rest. length (rend True e) \<le> n \<longrightarrow> prim n (rend True e @ rest) = p_ok e rest)"

definition reads_expr :: "expr \<Rightarrow> bool" where
  "reads_expr e \<longleftrightarrow>
     (\<forall>n rest. length (rend False e) < n \<longrightarrow> noop rest \<longrightarrow> p_expr n (rend False e @ rest) = p_ok e rest)"

definition reads_spine :: "expr \<Rightarrow> bool" where
  "reads_spine e \<longleftrightarrow>
     (\<forall>n k rest. length (rend False e) \<le> n \<longrightarrow> spine e \<le> k \<longrightarrow>
        p_bind (prim n (rend False e @ rest)) (\<lambda>l ts. p_ops k (prim n) l ts) = p_ops (k - spine e) (prim n) e rest)"

lemma p_ops_noop: "noop rest \<Longrightarrow> 0 < k \<Longrightarrow> p_ops k pr e rest = p_ok e rest"
  by (cases k) (simp_all add: noop_def)

lemma spine_reads_expr: "\<not> is_let e \<Longrightarrow> reads_spine e \<Longrightarrow> reads_expr e"
  unfolding reads_expr_def
proof (intro allI impI)
  fix n rest
  assume a: "reads_spine e" "length (rend False e) < n" "noop rest"
  then obtain m where m: "n = Suc m" "length (rend False e) \<le> m" by (cases n) auto
  have "spine e < Suc m" using spine_less [of e False] m(2) by simp
  then have "p_bind (prim m (rend False e @ rest)) (\<lambda>l ts. p_ops (Suc m) (prim m) l ts)
      = p_ops (Suc m - spine e) (prim m) e rest"
    using a(1) m(2) by (simp add: reads_spine_def del: p_ops.simps)
  with a(3) \<open>spine e < Suc m\<close> show "p_expr n (rend False e @ rest) = p_ok e rest"
    unfolding m(1) p_expr.simps(2) by (simp add: p_ops_noop del: p_ops.simps)
qed

lemma paren_reads_primary:
  assumes "is_op e \<or> is_let e" "reads_expr e"
  shows "reads_primary e"
  unfolding reads_primary_def
proof (intro allI impI)
  fix n rest
  assume "length (rend True e) \<le> n"
  then have "p_expr n (rend False e @ RParen # rest) = p_ok e (RParen # rest)"
    using assms by (auto simp: reads_expr_def rend_paren)
  then show "prim n (rend True e @ rest) = p_ok e rest"
    using assms(1) by (simp add: rend_paren p_primary_def expect_def)
qed

lemma atom_reads_spine:
  "\<not> is_op e \<Longrightarrow> \<not> is_let e \<Longrightarrow> reads_primary e \<Longrightarrow> reads_spine e"
proof -
  assume a: "\<not> is_op e" "\<not> is_let e" "reads_primary e"
  then have "spine e = 0" by (cases e) simp_all
  with a show ?thesis by (simp add: reads_spine_def reads_primary_def rend_no_paren)
qed

lemma op_reads_spine:
  assumes op: "set_op w = Some mk"
    and rend: "rend False (mk a b) = rend (is_let a) a @ [Word w] @ rend True b"
    and spine: "spine (mk a b) = Suc (if is_let a then 0 else spine a)"
    and a: "reads_primary a" "\<not> is_let a \<Longrightarrow> reads_spine a" and b: "reads_primary b"
  shows "reads_spine (mk a b)"
  unfolding reads_spine_def
proof (intro allI impI)
  fix n k rest
  assume n: "length (rend False (mk a b)) \<le> n" and k: "spine (mk a b) \<le> k"
  let ?s = "if is_let a then 0 else spine a"
  let ?rest = "Word w # rend True b @ rest"
  have first: "p_bind (prim n (rend (is_let a) a @ ?rest)) (\<lambda>l ts. p_ops k (prim n) l ts) =
      p_ops (k - ?s) (prim n) a ?rest"
  proof (cases "is_let a")
    case True
    with a(1) n rend show ?thesis by (simp add: reads_primary_def)
  next
    case False
    with a(2) n rend k spine show ?thesis by (simp add: reads_spine_def)
  qed
  obtain j where j: "k - ?s = Suc j" using k spine by (cases "k - ?s") auto
  have read: "prim n (rend True b @ rest) = p_ok b rest" using b n rend by (simp add: reads_primary_def)
  have "p_ops (k - ?s) (prim n) a ?rest = p_ops j (prim n) (mk a b) rest"
    unfolding j p_ops.simps by (simp add: op peek_word_def read del: p_ops.simps)
  also have "j = k - spine (mk a b)" using j spine by auto
  finally have second: "p_ops (k - ?s) (prim n) a ?rest = p_ops (k - spine (mk a b)) (prim n) (mk a b) rest" .
  have "rend False (mk a b) @ rest = rend (is_let a) a @ ?rest" using rend by simp
  then show "p_bind (prim n (rend False (mk a b) @ rest)) (\<lambda>l ts. p_ops k (prim n) l ts) =
      p_ops (k - spine (mk a b)) (prim n) (mk a b) rest"
    using first second by (simp only:)
qed

lemma opt_depth_rend: "depth_ok d \<Longrightarrow> opt_depth (rend_depth d @ RParen # ts) = p_ok d (RParen # ts)"
  by (cases d) (simp_all add: opt_depth_def rend_depth_def depth_ok_def string_arg_def parse_u32_dec)

lemma noop_depth [simp]: "noop (rend_depth d @ RParen # ts)"
  by (cases d) (simp_all add: rend_depth_def)

lemmas production_defs =
  p_primary_def parse_let_def parse_deps_def parse_rdeps_def parse_filter2_def parse_attr_def
  parse_path2_def parse_unary_def expect_def string_arg_def opt_depth_rend peek_word_def starts_with_def

lemma reads_exprD:
  "reads_expr e \<Longrightarrow> length (rend False e) < n \<Longrightarrow> noop rest \<Longrightarrow> p_expr n (rend False e @ rest) = p_ok e rest"
  by (simp add: reads_expr_def)

lemma let_reads_expr:
  assumes "reads_expr e" "reads_expr b"
  shows "reads_expr (Let v e b)"
  unfolding reads_expr_def
proof (intro allI impI)
  fix n rest
  assume n: "length (rend False (Let v e b)) < n" and r: "noop rest"
  then obtain m where m: "n = Suc m" by (cases n) auto
  have "prim m (rend False (Let v e b) @ rest) = p_ok (Let v e b) rest"
    using reads_exprD [OF assms(1), of m "Word ''in'' # rend False b @ rest"]
      reads_exprD [OF assms(2), of m rest] n m r
    by (simp add: wrap_def production_defs)
  with r show "p_expr n (rend False (Let v e b) @ rest) = p_ok (Let v e b) rest"
    unfolding m p_expr.simps(2) by (simp add: p_ops_noop del: p_ops.simps)
qed

lemma reads_all: "expr_ok W S e \<Longrightarrow> reads_primary e \<and> reads_expr e \<and> (\<not> is_let e \<longrightarrow> reads_spine e)"
proof (induction e)
  case (Let v e b)
  then have "reads_expr (Let v e b)" by (simp add: let_reads_expr)
  then show ?case by (simp add: paren_reads_primary)
next
  case (Union a b)
  then have "reads_spine (Union a b)"
    by (intro op_reads_spine [where w = "''+''" and mk = Union]) (simp_all add: set_op_def wrap_def)
  then show ?case by (simp add: spine_reads_expr paren_reads_primary)
next
  case (Except a b)
  then have "reads_spine (Except a b)"
    by (intro op_reads_spine [where w = "''-''" and mk = Except]) (simp_all add: set_op_def wrap_def)
  then show ?case by (simp add: spine_reads_expr paren_reads_primary)
next
  case (Intersect a b)
  then have "reads_spine (Intersect a b)"
    by (intro op_reads_spine [where w = "''^''" and mk = Intersect]) (simp_all add: set_op_def wrap_def)
  then show ?case by (simp add: spine_reads_expr paren_reads_primary)
next
  case (Pattern s)
  have "reads_primary (Pattern s)" by (simp add: reads_primary_def production_defs)
  then show ?case by (simp add: atom_reads_spine spine_reads_expr)
next
  case (Var v)
  have "reads_primary (Var v)" by (simp add: reads_primary_def production_defs)
  then show ?case by (simp add: atom_reads_spine spine_reads_expr)
next
  case (Deps e d)
  then have "reads_primary (Deps e d)"
    by (simp add: reads_primary_def production_defs reads_exprD)
  then show ?case by (simp add: atom_reads_spine spine_reads_expr)
next
  case (Rdeps u e d)
  then have "reads_primary (Rdeps u e d)"
    by (simp add: reads_primary_def production_defs reads_exprD)
  then show ?case by (simp add: atom_reads_spine spine_reads_expr)
next
  case (Kind r e)
  then have "reads_primary (Kind r e)" by (simp add: reads_primary_def production_defs reads_exprD)
  then show ?case by (simp add: atom_reads_spine spine_reads_expr)
next
  case (Filter r e)
  then have "reads_primary (Filter r e)" by (simp add: reads_primary_def production_defs reads_exprD)
  then show ?case by (simp add: atom_reads_spine spine_reads_expr)
next
  case (Attr a r e)
  then have "reads_primary (Attr a r e)" by (simp add: reads_primary_def production_defs reads_exprD)
  then show ?case by (simp add: atom_reads_spine spine_reads_expr)
next
  case (Labels a e)
  then have "reads_primary (Labels a e)" by (simp add: reads_primary_def production_defs reads_exprD)
  then show ?case by (simp add: atom_reads_spine spine_reads_expr)
next
  case (SomePath a b)
  then have "reads_primary (SomePath a b)" by (simp add: reads_primary_def production_defs reads_exprD)
  then show ?case by (simp add: atom_reads_spine spine_reads_expr)
next
  case (AllPaths a b)
  then have "reads_primary (AllPaths a b)" by (simp add: reads_primary_def production_defs reads_exprD)
  then show ?case by (simp add: atom_reads_spine spine_reads_expr)
next
  case (Visible a b)
  then have "reads_primary (Visible a b)" by (simp add: reads_primary_def production_defs reads_exprD)
  then show ?case by (simp add: atom_reads_spine spine_reads_expr)
next
  case (Siblings e)
  then have "reads_primary (Siblings e)" by (simp add: reads_primary_def production_defs reads_exprD)
  then show ?case by (simp add: atom_reads_spine spine_reads_expr)
next
  case (SamePkgDirectRdeps e)
  then have "reads_primary (SamePkgDirectRdeps e)"
    by (simp add: reads_primary_def production_defs reads_exprD)
  then show ?case by (simp add: atom_reads_spine spine_reads_expr)
next
  case (Tests e)
  then have "reads_primary (Tests e)" by (simp add: reads_primary_def production_defs reads_exprD)
  then show ?case by (simp add: atom_reads_spine spine_reads_expr)
qed

subsection \<open>The tokenizer reads what the printer writes\<close>

fun unlex_tok :: "tok \<Rightarrow> string" where
  "unlex_tok (Word w) = w"
| "unlex_tok (Str s) = CHR 0x22 # s @ [CHR 0x22]"
| "unlex_tok LParen = ''(''"
| "unlex_tok RParen = '')''"
| "unlex_tok Comma = '',''"

definition unlex :: "tok list \<Rightarrow> string" where
  "unlex ts = concat (map (\<lambda>t. unlex_tok t @ '' '') ts)"

definition word_char :: "char \<Rightarrow> bool" where
  "word_char c \<longleftrightarrow> \<not> is_ws c \<and> c \<notin> {CHR ''('', CHR '')'', CHR '','', CHR 0x22}"

definition word_ok :: "string \<Rightarrow> bool" where
  "word_ok w \<longleftrightarrow> w \<noteq> [] \<and> list_all word_char w"

definition quoted_ok :: "string \<Rightarrow> bool" where
  "quoted_ok s \<longleftrightarrow> CHR 0x22 \<notin> set s"

fun tok_ok :: "tok \<Rightarrow> bool" where
  "tok_ok (Word w) = word_ok w"
| "tok_ok (Str s) = quoted_ok s"
| "tok_ok _ = True"

lemma is_ws_simps [simp]: "is_ws (CHR '' '')" "\<not> is_ws (CHR ''('')" "\<not> is_ws (CHR '')'')"
    "\<not> is_ws (CHR '','')" "\<not> is_ws (CHR 0x22)"
  by (simp_all add: is_ws_def)

lemma flush_Nil [simp]: "flush [] out = out"
  by (simp add: flush_def)

lemma tokenize_word:
  "list_all word_char w \<Longrightarrow> tokenize_loop (w @ CHR '' '' # rest) acc out = tokenize_loop rest [] (flush (acc @ w) out)"
  by (induction w arbitrary: acc) (simp_all add: word_char_def)

lemma tokenize_tok:
  "tok_ok t \<Longrightarrow> tokenize_loop (unlex_tok t @ CHR '' '' # rest) [] out = tokenize_loop rest [] (out @ [t])"
  by (cases t) (simp_all add: word_ok_def tokenize_word quoted_ok_def flush_def)

lemma tokenize_unlex: "list_all tok_ok ts \<Longrightarrow> tokenize (unlex ts) = Inr ts"
proof -
  have "list_all tok_ok ts \<Longrightarrow> tokenize_loop (unlex ts) [] out = Inr (out @ ts)" for out
    by (induction ts arbitrary: out) (simp_all add: unlex_def tokenize_tok)
  then show "list_all tok_ok ts \<Longrightarrow> tokenize (unlex ts) = Inr ts" by (simp add: tokenize_def)
qed

lemma word_char_digit: "d < 10 \<Longrightarrow> word_char (digit_char d)"
proof -
  assume d: "d < 10"
  have "digit_val c = None" if "\<not> word_char c" for c
    using that by (auto simp: word_char_def is_ws_def digit_val_def)
  then show ?thesis using digit_val_char [OF d] by force
qed

lemma dec_word: "word_ok (dec n)"
proof (induction n rule: dec.induct)
  case (1 n)
  then show ?case
    by (cases "n < 10") (simp_all add: dec.simps [of n] word_ok_def word_char_digit del: digit_char.simps)
qed

lemma keyword_ok [simp]:
  "word_ok ''deps''" "word_ok ''rdeps''" "word_ok ''kind''" "word_ok ''filter''" "word_ok ''attr''"
  "word_ok ''labels''" "word_ok ''somepath''" "word_ok ''allpaths''" "word_ok ''visible''"
  "word_ok ''siblings''" "word_ok ''same_pkg_direct_rdeps''" "word_ok ''tests''" "word_ok ''+''"
  "word_ok ''-''" "word_ok ''^''" "word_ok ''let''" "word_ok ''=''" "word_ok ''in''"
  by (simp_all add: word_ok_def word_char_def is_ws_def)

lemma rend_ok: "expr_ok word_ok quoted_ok e \<Longrightarrow> list_all tok_ok (rend p e)"
proof (induction e arbitrary: p)
  case (Deps e d)
  then show ?case by (cases d) (simp_all add: rend_depth_def dec_word)
next
  case (Rdeps u e d)
  then show ?case by (cases d) (simp_all add: rend_depth_def dec_word)
qed (auto simp: wrap_def)

subsection \<open>The theorems\<close>

text \<open>C8: Whatever well-formed expression is written out with as few parentheses as left-associative
  operators allow, parsing the text gives that expression: no operator, argument or depth is lost,
  reordered or regrouped.\<close>

theorem parse_round_trip:
  assumes "expr_ok word_ok quoted_ok e"
  shows "parse (unlex (rend False e)) = Ok e"
proof -
  have "reads_expr e" using reads_all [OF assms] by simp
  then have "p_expr (Suc (length (rend False e))) (rend False e) = p_ok e []"
    using reads_exprD [of e _ "[]"] by (simp del: p_expr.simps)
  then show ?thesis
    using rend_ok [OF assms, of False]
    by (simp add: parse_def tokenize_unlex p_ok_def del: p_expr.simps)
qed

theorem parse_round_trip_witness:
  "parse (unlex (rend False (Except (Except (Pattern ''//...'') (Deps (Pattern ''//a:b'') (Some 12)))
     (Let ''x'' (Tests (Pattern '':t'')) (Union (Var ''x'') (Kind ''cc.*'' (Var ''x'')))))))
   = Ok (Except (Except (Pattern ''//...'') (Deps (Pattern ''//a:b'') (Some 12)))
     (Let ''x'' (Tests (Pattern '':t'')) (Union (Var ''x'') (Kind ''cc.*'' (Var ''x'')))))"
  by (rule parse_round_trip) (simp add: quoted_ok_def word_ok_def word_char_def is_ws_def depth_ok_def)

text \<open>The recursive descent always ends: on any list of tokens, well formed or not, a recursion depth
  of one more than the number of tokens is enough, so every parse is an expression or an error.\<close>

theorem parse_terminates: "p_expr (Suc (length ts)) ts \<noteq> None"
  by (rule p_expr_total) simp

end
