(* ===== verification/Query_Eval.thy ===== *)
theory Query_Eval
  imports Query_Reach Query_Print
begin

section \<open>razel-query: the evaluator\<close>

text \<open>
  \<^verbatim>\<open>crates/razel-query/src/eval.rs\<close>.  The \<open>regex\<close> crate is a parameter: \<open>compile re\<close> is the matcher of
  \<open>re\<close>, or the error.  The evaluator's environment is threaded through every call, as the code mutates
  it; a \<open>let\<close> restores the shadowed binding, on errors of its body too.
\<close>

fun attr_labels :: "raw_attr \<Rightarrow> string list" where
  "attr_labels (RStr s) = [s]"
| "attr_labels (RLabel l) = [l]"
| "attr_labels (RList xs) = concat (map attr_labels xs)"
| "attr_labels (RTuple xs) = concat (map attr_labels xs)"
| "attr_labels (RConcat xs) = concat (map attr_labels xs)"
| "attr_labels (RDict pairs) = concat (map (\<lambda>(k, v). attr_labels k) pairs)"
| "attr_labels (RSelect arms dflt) =
     concat (map (\<lambda>(cond, v). attr_labels v) arms) @ (case dflt of None \<Rightarrow> [] | Some d \<Rightarrow> attr_labels d)"
| "attr_labels _ = []"

definition canonical_label :: "string \<Rightarrow> string \<Rightarrow> string" where
  "canonical_label raw pre =
     (if starts_with raw ''//'' \<or> starts_with raw ''@'' then raw
      else case strip_prefix raw '':'' of
        Some r \<Rightarrow> pre @ '':'' @ r
      | None \<Rightarrow> pre @ '':'' @ raw)"

definition label_pkg_of :: "string \<Rightarrow> string" where
  "label_pkg_of label =
     (let after = (case split_once_str label ''//'' of Some (_, p) \<Rightarrow> p | None \<Rightarrow> label)
      in case split_once after (CHR '':'') of Some (p, _) \<Rightarrow> p | None \<Rightarrow> after)"

definition spec_grants :: "string \<Rightarrow> string \<Rightarrow> bool res" where
  "spec_grants spec from_pkg =
     (if spec = ''//visibility:public'' then Ok True
      else if spec = ''//visibility:private'' then Ok False
      else case Option.bind (strip_prefix spec ''//'') (\<lambda>s. strip_suffix s '':__pkg__'') of
        Some pkg \<Rightarrow> Ok (from_pkg = pkg)
      | None \<Rightarrow>
         (case Option.bind (strip_prefix spec ''//'') (\<lambda>s. strip_suffix s '':__subpackages__'') of
            Some pkg \<Rightarrow> Ok (from_pkg = pkg \<or>
              (case strip_prefix from_pkg pkg of None \<Rightarrow> False | Some r \<Rightarrow> starts_with r ''/''))
          | None \<Rightarrow> Err (''visible(): package_group visibility spec `'' @ spec @
              ''` is not supported (deferred '' @ [CHR 0xE2, CHR 0x80, CHR 0x94, CHR '' '', CHR 0xC2, CHR 0xA7] @ ''12)'')))"

fun any_grants :: "string list \<Rightarrow> string \<Rightarrow> bool res" where
  "any_grants [] from_pkg = Ok False"
| "any_grants (s # specs) from_pkg =
     res_bind (spec_grants s from_pkg) (\<lambda>ok. if ok then Ok True else any_grants specs from_pkg)"

definition is_visible_to :: "query_graph \<Rightarrow> string \<Rightarrow> string \<Rightarrow> bool res" where
  "is_visible_to g target from_pkg =
     (if label_pkg_of target = from_pkg then Ok True
      else any_grants
        (case Option.bind (qg_target g target) (\<lambda>t. bm_get (lt_attrs t) ''visibility'') of
           None \<Rightarrow> []
         | Some v \<Rightarrow> attr_labels v) from_pkg)"

fun visible_to_all :: "query_graph \<Rightarrow> string \<Rightarrow> string list \<Rightarrow> bool res" where
  "visible_to_all g t [] = Ok True"
| "visible_to_all g t (p # ps) =
     res_bind (is_visible_to g t p) (\<lambda>ok. if ok then visible_to_all g t ps else Ok False)"

fun filter_visible :: "query_graph \<Rightarrow> string list \<Rightarrow> string list \<Rightarrow> label_set \<Rightarrow> label_set res" where
  "filter_visible g from_pkgs [] out = Ok out"
| "filter_visible g from_pkgs (t # ts) out =
     res_bind (visible_to_all g t from_pkgs)
       (\<lambda>ok. filter_visible g from_pkgs ts (if ok then bs_insert t out else out))"

definition labels_of :: "query_graph \<Rightarrow> string \<Rightarrow> label_set \<Rightarrow> label_set" where
  "labels_of g attr s =
     fold (\<lambda>l out.
       case Option.bind (qg_target g l) (\<lambda>t. bm_get (lt_attrs t) attr) of
         None \<Rightarrow> out
       | Some a \<Rightarrow> bs_extend out (map (\<lambda>raw. canonical_label raw (pkg_prefix l)) (attr_labels a))) s []"

definition siblings_of :: "query_graph \<Rightarrow> label_set \<Rightarrow> label_set" where
  "siblings_of g s =
     fold (\<lambda>pkg out. bs_union out (match_pattern g (pkg @ '':*''))) (bs_of (map pkg_prefix s)) []"

subsection \<open>The expansion of test suites\<close>

definition suite_members :: "query_graph \<Rightarrow> string \<Rightarrow> string list" where
  "suite_members g t =
     (case Option.bind (qg_target g t) (\<lambda>tgt. bm_get (lt_attrs tgt) ''tests'') of
        None \<Rightarrow> []
      | Some a \<Rightarrow> map (\<lambda>m. canonical_label m (pkg_prefix t)) (attr_labels a))"

definition suite_labels :: "query_graph \<Rightarrow> string set" where
  "suite_labels g = (\<Union>(l, t) \<in> set (qg_targets g). set (suite_members g l))"

lemma finite_suite_labels [simp]: "finite (suite_labels g)"
  by (auto simp: suite_labels_def)

lemma suite_members_labels: "set (suite_members g t) \<subseteq> suite_labels g"
proof (cases "qg_target g t")
  case None
  then show ?thesis by (simp add: suite_members_def)
next
  case (Some tgt)
  then have "(t, tgt) \<in> set (qg_targets g)" by (auto simp: qg_target_def dest: bm_get_Some_in_set)
  then show ?thesis by (auto simp: suite_labels_def)
qed

text \<open>The stack is a \<open>Vec\<close> popped at its end: the head of the list is its top.\<close>

definition push_new :: "string list \<Rightarrow> label_set \<Rightarrow> string list \<Rightarrow> label_set \<times> string list" where
  "push_new ms visited stack =
     (case mark_new ms visited [] of (visited, new) \<Rightarrow> (visited, rev new @ stack))"

function tests_loop :: "query_graph \<Rightarrow> label_set \<Rightarrow> string list \<Rightarrow> label_set \<Rightarrow> label_set" where
  "tests_loop g visited [] out = out"
| "tests_loop g visited (t # stack) out =
     (case qg_target g t of
        None \<Rightarrow> tests_loop g visited stack out
      | Some tgt \<Rightarrow>
          if rule_class tgt = ''test_suite'' then
            (case push_new (suite_members g t) visited stack of
               (visited, stack) \<Rightarrow> tests_loop g visited stack out)
          else if ends_with (rule_class tgt) ''_test'' then tests_loop g visited stack (bs_insert t out)
          else tests_loop g visited stack out)"
  by pat_completeness auto
termination
proof (relation "measure (\<lambda>(g, visited, stack, out). card (suite_labels g - set visited) + length stack)", goal_cases)
  case (3 g visited t stack out tgt visited' stack')
  then obtain new where new: "mark_new (suite_members g t) visited [] = (visited', new)" "stack' = rev new @ stack"
    by (auto simp: push_new_def split: prod.splits)
  from search_measure [OF finite_suite_labels new(1) suite_members_labels] new(2) show ?case by simp
qed simp_all

definition tests_of :: "query_graph \<Rightarrow> label_set \<Rightarrow> label_set" where
  "tests_of g s = tests_loop g s (rev s) []"

subsection \<open>Evaluation\<close>

type_synonym env = "(string, label_set) bmap"
type_synonym 'a ev = "env \<Rightarrow> 'a res \<times> env"
type_synonym regex_compile = "string \<Rightarrow> (string \<Rightarrow> bool) res"

definition ev_bind :: "'a ev \<Rightarrow> ('a \<Rightarrow> 'b ev) \<Rightarrow> 'b ev" where
  "ev_bind m f env = (case m env of (Inl e, env) \<Rightarrow> (Inl e, env) | (Inr x, env) \<Rightarrow> f x env)"

definition ev_ok :: "'a \<Rightarrow> 'a ev" where
  "ev_ok x env = (Ok x, env)"

definition ev_lift :: "'a res \<Rightarrow> 'a ev" where
  "ev_lift r env = (r, env)"

primrec eval_go :: "query_graph \<Rightarrow> bool \<Rightarrow> regex_compile \<Rightarrow> expr \<Rightarrow> label_set ev" where
  "eval_go g implicit compile (Pattern p) = ev_ok (match_pattern g p)"
| "eval_go g implicit compile (Var v) =
     (\<lambda>env. (case bm_get env v of Some s \<Rightarrow> Ok s | None \<Rightarrow> Err (''undefined variable `$'' @ v @ ''`''), env))"
| "eval_go g implicit compile (Deps x depth) =
     ev_bind (eval_go g implicit compile x) (\<lambda>s. ev_ok (qg_deps g s depth implicit))"
| "eval_go g implicit compile (Rdeps u x depth) =
     ev_bind (eval_go g implicit compile u) (\<lambda>universe.
     ev_bind (eval_go g implicit compile x) (\<lambda>roots. ev_ok (qg_rdeps g universe roots depth)))"
| "eval_go g implicit compile (Union a b) =
     ev_bind (eval_go g implicit compile a) (\<lambda>a.
     ev_bind (eval_go g implicit compile b) (\<lambda>b. ev_ok (bs_union a b)))"
| "eval_go g implicit compile (Except a b) =
     ev_bind (eval_go g implicit compile a) (\<lambda>a.
     ev_bind (eval_go g implicit compile b) (\<lambda>b. ev_ok (bs_diff a b)))"
| "eval_go g implicit compile (Intersect a b) =
     ev_bind (eval_go g implicit compile a) (\<lambda>a.
     ev_bind (eval_go g implicit compile b) (\<lambda>b. ev_ok (bs_inter a b)))"
| "eval_go g implicit compile (Let name val body) =
     ev_bind (eval_go g implicit compile val) (\<lambda>v env.
       (case eval_go g implicit compile body (bm_insert name v env) of
          (r, env') \<Rightarrow>
            (r, case bm_get env name of
                  Some p \<Rightarrow> bm_insert name p env'
                | None \<Rightarrow> bm_remove name env')))"
| "eval_go g implicit compile (Kind re x) =
     ev_bind (eval_go g implicit compile x) (\<lambda>s.
     ev_bind (ev_lift (compile re)) (\<lambda>m.
       ev_ok (filter (\<lambda>l. case qg_kind g l of None \<Rightarrow> False | Some k \<Rightarrow> m k) s)))"
| "eval_go g implicit compile (Filter re x) =
     ev_bind (eval_go g implicit compile x) (\<lambda>s.
     ev_bind (ev_lift (compile re)) (\<lambda>m. ev_ok (filter m s)))"
| "eval_go g implicit compile (Attr name re x) =
     ev_bind (eval_go g implicit compile x) (\<lambda>s.
     ev_bind (ev_lift (compile re)) (\<lambda>m.
       ev_ok (filter (\<lambda>l. case Option.bind (qg_target g l) (\<lambda>t. bm_get (lt_attrs t) name) of
           None \<Rightarrow> False | Some a \<Rightarrow> m (canonical a)) s)))"
| "eval_go g implicit compile (Labels attr x) =
     ev_bind (eval_go g implicit compile x) (\<lambda>s. ev_ok (labels_of g attr s))"
| "eval_go g implicit compile (SomePath a b) =
     ev_bind (eval_go g implicit compile a) (\<lambda>a.
     ev_bind (eval_go g implicit compile b) (\<lambda>b. ev_ok (qg_somepath g a b implicit)))"
| "eval_go g implicit compile (AllPaths a b) =
     ev_bind (eval_go g implicit compile a) (\<lambda>a.
     ev_bind (eval_go g implicit compile b) (\<lambda>b. ev_ok (qg_allpaths g a b implicit)))"
| "eval_go g implicit compile (Siblings x) =
     ev_bind (eval_go g implicit compile x) (\<lambda>s. ev_ok (siblings_of g s))"
| "eval_go g implicit compile (SamePkgDirectRdeps x) =
     ev_bind (eval_go g implicit compile x) (\<lambda>s. ev_ok (same_pkg_direct_rdeps g s))"
| "eval_go g implicit compile (Tests x) =
     ev_bind (eval_go g implicit compile x) (\<lambda>s. ev_ok (tests_of g s))"
| "eval_go g implicit compile (Visible pred x) =
     ev_bind (eval_go g implicit compile pred) (\<lambda>fr.
     ev_bind (eval_go g implicit compile x) (\<lambda>s.
       ev_lift (filter_visible g (bs_of (map label_pkg_of fr)) s [])))"

definition query_eval :: "query_graph \<Rightarrow> regex_compile \<Rightarrow> expr \<Rightarrow> bool \<Rightarrow> label_set res" where
  "query_eval g compile expr implicit = fst (eval_go g implicit compile expr [])"

subsection \<open>Lemmas\<close>

lemma ev_bind_Inr:
  "fst (ev_bind m f env) = Inr y \<longleftrightarrow> (\<exists>x. fst (m env) = Inr x \<and> fst (f x (snd (m env))) = Inr y)"
  by (auto simp: ev_bind_def split: prod.splits sum.splits)

lemma ev_bind_env:
  "snd (m env) = env \<Longrightarrow> (\<And>x. snd (f x env) = env) \<Longrightarrow> snd (ev_bind m f env) = env"
  by (auto simp: ev_bind_def split: prod.splits sum.splits)

lemma ev_simps [simp]: "fst (ev_ok x env) = Inr x" "snd (ev_ok x env) = env"
    "fst (ev_lift r env) = r" "snd (ev_lift r env) = env"
  by (simp_all add: ev_ok_def ev_lift_def)

lemma bm_remove_insert: "bm_ok m \<Longrightarrow> bm_get m k = None \<Longrightarrow> bm_remove k (bm_insert k v m) = m"
  by (rule bm_eq_by_get) (auto simp: bm_get_remove)

lemma bm_insert_same: "bm_ok m \<Longrightarrow> bm_get m k = Some p \<Longrightarrow> bm_insert k p (bm_insert k v m) = m"
  by (rule bm_eq_by_get) auto

text \<open>Variables are lexically scoped: evaluation leaves the environment as it was.\<close>

lemma eval_go_env: "bm_ok env \<Longrightarrow> snd (eval_go g i c e env) = env"
proof (induction e arbitrary: env)
  case (Let name val body)
  have "snd (case eval_go g i c body (bm_insert name v env) of (r, env') \<Rightarrow>
      (r, case bm_get env name of Some p \<Rightarrow> bm_insert name p env' | None \<Rightarrow> bm_remove name env')) = env" for v
  proof -
    have "snd (eval_go g i c body (bm_insert name v env)) = bm_insert name v env"
      using Let by (intro Let.IH) simp
    then show ?thesis
      using Let.prems by (cases "eval_go g i c body (bm_insert name v env)")
        (auto simp: bm_remove_insert bm_insert_same split: option.split)
  qed
  with Let show ?case by (auto intro: ev_bind_env)
qed (auto intro!: ev_bind_env)

text \<open>The label sets stay sorted sets.\<close>

lemma bs_ok_fold: "bs_ok s \<Longrightarrow> (\<And>x s. bs_ok s \<Longrightarrow> bs_ok (f x s)) \<Longrightarrow> bs_ok (fold f xs s)"
  by (induction xs arbitrary: s) auto

lemma trace_back_ok: "bs_ok p \<Longrightarrow> bs_ok (trace_back fuel parent n p)"
  by (induction fuel arbitrary: n p) (auto split: option.split)

lemma somepath_ok: "bs_ok (somepath_loop g i to parent q)"
proof (induction g i to parent q rule: somepath_loop.induct)
  case (2 g i to parent cur q)
  then show ?case by (auto simp: trace_back_ok split: prod.split)
qed simp

lemma tests_ok: "bs_ok out \<Longrightarrow> bs_ok (tests_loop g v st out)"
proof (induction g v st out rule: tests_loop.induct)
  case (2 g visited t stack out)
  then show ?case by (auto split: option.split prod.split)
qed simp

lemma filter_visible_ok: "filter_visible g ps ts out = Inr s \<Longrightarrow> bs_ok out \<Longrightarrow> bs_ok s"
  by (induction ts arbitrary: out) (auto simp: res_bind_Inr_iff split: if_splits)

lemma labels_of_ok: "bs_ok (labels_of g a s)"
  unfolding labels_of_def by (rule bs_ok_fold) (auto split: option.split)

lemma siblings_ok: "bs_ok (siblings_of g s)"
  unfolding siblings_of_def by (rule bs_ok_fold) auto

lemma match_pattern_ok: "bm_ok (qg_targets g) \<Longrightarrow> bm_ok (qg_kinds g) \<Longrightarrow> bs_ok (match_pattern g p)"
  by (auto simp: match_pattern_def Let_def all_targets_def labels_where_def bs_ok_keys split: option.split)

end
