(* ===== verification/Query_Props.thy ===== *)
theory Query_Props
  imports Query_Eval
begin

section \<open>razel-query: what a query denotes\<close>

text \<open>
  The abstract specification of the query language: \<open>denotes\<close> gives each operator its set-theoretic
  meaning (closures by reachability, paths by edges), with no search, no worklist and no ordering.  The
  evaluator refines it.
\<close>

subsection \<open>Specifications of the searches\<close>

definition suite_rel :: "query_graph \<Rightarrow> (string \<times> string) set" where
  "suite_rel g = {(t, m). (\<exists>tgt. qg_target g t = Some tgt \<and> rule_class tgt = ''test_suite'') \<and>
     m \<in> set (suite_members g t)}"

definition is_test :: "query_graph \<Rightarrow> string \<Rightarrow> bool" where
  "is_test g t \<longleftrightarrow> (\<exists>tgt. qg_target g t = Some tgt \<and> rule_class tgt \<noteq> ''test_suite'' \<and>
     ends_with (rule_class tgt) ''_test'')"

lemma push_new_result:
  assumes "push_new ms visited stack = (visited', stack')"
  shows "set visited' = set visited \<union> set ms" "set stack' = set stack \<union> (set ms - set visited)"
proof -
  from assms obtain new where m: "mark_new ms visited [] = (visited', new)" "stack' = rev new @ stack"
    by (auto simp: push_new_def split: prod.splits)
  obtain new' where "new = [] @ new'" "set visited' = set visited \<union> set ms" "set new' = set ms - set visited"
    by (rule mark_new_result [OF m(1)])
  with m(2) show "set visited' = set visited \<union> set ms" "set stack' = set stack \<union> (set ms - set visited)"
    by auto
qed

lemma tests_loop_reach:
  "bfs_inv (suite_rel g) roots (set visited) (set stack) \<Longrightarrow> distinct stack \<Longrightarrow>
   set out = {t \<in> set visited - set stack. is_test g t} \<Longrightarrow>
   set (tests_loop g visited stack out) = {t \<in> (suite_rel g)\<^sup>* `` roots. is_test g t}"
proof (induction g visited stack out rule: tests_loop.induct)
  case (1 g visited out)
  then show ?case by (auto dest: bfs_inv_final)
next
  case (2 g visited t stack out)
  have t: "t \<in> set visited" "t \<notin> set stack" using 2(5,6) by (auto simp: bfs_inv_def)
  have leaf: "bfs_inv (suite_rel g) roots (set visited) (set stack)" if "suite_rel g `` {t} = {}"
    by (rule bfs_inv_step [OF 2(5), of t]) (use that 2(5,6) in \<open>auto simp: bfs_inv_def\<close>)
  show ?case
  proof (cases "qg_target g t")
    case None
    then have "suite_rel g `` {t} = {}" "\<not> is_test g t" by (auto simp: suite_rel_def is_test_def)
    with leaf 2 None t show ?thesis by auto
  next
    case (Some tgt)
    show ?thesis
    proof (cases "rule_class tgt = ''test_suite''")
      case True
      obtain visited' stack' where p: "push_new (suite_members g t) visited stack = (visited', stack')" by force
      note pr = push_new_result [OF p]
      have im: "suite_rel g `` {t} = set (suite_members g t)" using Some True by (auto simp: suite_rel_def)
      have inv: "bfs_inv (suite_rel g) roots (set visited') (set stack')"
        by (rule bfs_inv_step [OF 2(5), of t]) (use im pr 2(5) in \<open>auto simp: bfs_inv_def\<close>)
      have sub: "set stack \<subseteq> set visited" using 2(5) by (auto simp: bfs_inv_def)
      have "distinct stack'"
      proof -
        from p obtain new where m: "mark_new (suite_members g t) visited [] = (visited', new)" "stack' = rev new @ stack"
          by (auto simp: push_new_def split: prod.splits)
        obtain new' where "new = [] @ new'" "set new' = set (suite_members g t) - set visited" "distinct new'"
          by (rule mark_new_result [OF m(1)])
        with m(2) sub 2(6) show ?thesis by auto
      qed
      moreover have "set out = {x \<in> set visited' - set stack'. is_test g x}"
        using 2(7) pr sub Some True t by (auto simp: is_test_def)
      ultimately show ?thesis using 2(2) Some True p inv by simp
    next
      case False
      then have "suite_rel g `` {t} = {}" using Some by (auto simp: suite_rel_def)
      moreover have "is_test g t \<longleftrightarrow> ends_with (rule_class tgt) ''_test''"
        using Some False by (auto simp: is_test_def)
      ultimately show ?thesis using leaf 2 Some False t by auto
    qed
  qed
qed

lemma tests_of_reach: "distinct s \<Longrightarrow> set (tests_of g s) = {t \<in> (suite_rel g)\<^sup>* `` set s. is_test g t}"
  unfolding tests_of_def using bfs_inv_init by (intro tests_loop_reach) auto

lemma bs_ok_distinct: "bs_ok s \<Longrightarrow> distinct s"
  unfolding bs_ok_def by (rule sorted_wrt_less_distinct)

definition shortest :: "(string \<times> string) set \<Rightarrow> string set \<Rightarrow> string set \<Rightarrow> string set \<Rightarrow> bool" where
  "shortest E F T S \<longleftrightarrow>
     (S = {} \<and> (\<nexists>ys. is_path E F T ys)) \<or>
     (\<exists>xs. is_path E F T xs \<and> S = set xs \<and> (\<forall>ys. is_path E F T ys \<longrightarrow> length xs \<le> length ys))"

lemma somepath_shortest: "shortest (edge_rel g i) (set fr) (set to) (set (qg_somepath g fr to i))"
  unfolding shortest_def qg_somepath_def
  using somepath_loop_spec [OF sp_inv_init [of "bm_get (fold (\<lambda>s. bm_insert s None) fr [])" fr], of g i to]
  by (auto simp: bm_get_fold_roots)

definition rev_within :: "query_graph \<Rightarrow> string set \<Rightarrow> nat option \<Rightarrow> string set \<Rightarrow> string set" where
  "rev_within g U D S = within {(b, a). (a, b) \<in> edge_rel g True \<and> a \<in> U} D (S \<inter> U)"

lemma allpaths_all_edges:
  assumes "qg_ok g"
  shows "set (qg_allpaths g fr to True) =
    {n. (\<exists>a \<in> set fr. (a, n) \<in> (edge_rel g True)\<^sup>*) \<and> (\<exists>b \<in> set to. (n, b) \<in> (edge_rel g True)\<^sup>*)}"
proof -
  let ?E = "edge_rel g True"
  let ?F = "?E\<^sup>* `` set fr"
  let ?R = "{(b, a). (a, b) \<in> ?E \<and> a \<in> ?F}"
  have eq: "set (qg_allpaths g fr to True) = ?R\<^sup>* `` (set to \<inter> ?F)"
    by (simp add: qg_allpaths_def Let_def rdeps_within [OF assms] deps_within within_None)
  have fwd: "n \<in> ?F \<and> (n, b) \<in> ?E\<^sup>*" if "(b, n) \<in> ?R\<^sup>*" "b \<in> ?F" for b n
    using that
  proof (induction rule: rtrancl_induct)
    case (step y z)
    then show ?case by (auto intro: converse_rtrancl_into_rtrancl)
  qed simp
  have bwd: "(b, n) \<in> ?R\<^sup>*" if "(n, b) \<in> ?E\<^sup>*" "n \<in> ?F" for n b
    using that
  proof (induction rule: converse_rtrancl_induct)
    case (step y z)
    then have "z \<in> ?F" by (auto intro: rtrancl_into_rtrancl)
    with step have "(b, z) \<in> ?R\<^sup>*" "(z, y) \<in> ?R" by auto
    then show ?case by (rule rtrancl_into_rtrancl)
  qed simp
  have mem: "b \<in> ?F" if "n \<in> ?F" "(n, b) \<in> ?E\<^sup>*" for n b
    using that by (auto intro: rtrancl_trans)
  show ?thesis
    unfolding eq using fwd bwd mem by blast
qed

subsection \<open>The denotation\<close>

inductive denotes :: "query_graph \<Rightarrow> bool \<Rightarrow> regex_compile \<Rightarrow> (string \<Rightarrow> string set option) \<Rightarrow> expr \<Rightarrow> string set \<Rightarrow> bool"
  for g i c where
  dn_pattern: "denotes g i c \<rho> (Pattern p) (set (match_pattern g p))"
| dn_var: "\<rho> v = Some S \<Longrightarrow> denotes g i c \<rho> (Var v) S"
| dn_deps: "denotes g i c \<rho> x S \<Longrightarrow> denotes g i c \<rho> (Deps x d) (within (edge_rel g i) d S)"
| dn_rdeps: "denotes g i c \<rho> u U \<Longrightarrow> denotes g i c \<rho> x S \<Longrightarrow>
    denotes g i c \<rho> (Rdeps u x d) (rev_within g U d S)"
| dn_union: "denotes g i c \<rho> a A \<Longrightarrow> denotes g i c \<rho> b B \<Longrightarrow> denotes g i c \<rho> (Union a b) (A \<union> B)"
| dn_except: "denotes g i c \<rho> a A \<Longrightarrow> denotes g i c \<rho> b B \<Longrightarrow> denotes g i c \<rho> (Except a b) (A - B)"
| dn_intersect: "denotes g i c \<rho> a A \<Longrightarrow> denotes g i c \<rho> b B \<Longrightarrow> denotes g i c \<rho> (Intersect a b) (A \<inter> B)"
| dn_let: "denotes g i c \<rho> val V \<Longrightarrow> denotes g i c (\<rho>(v \<mapsto> V)) body S \<Longrightarrow> denotes g i c \<rho> (Let v val body) S"
| dn_kind: "denotes g i c \<rho> x S \<Longrightarrow> c re = Inr m \<Longrightarrow>
    denotes g i c \<rho> (Kind re x) {l \<in> S. \<exists>k. qg_kind g l = Some k \<and> m k}"
| dn_filter: "denotes g i c \<rho> x S \<Longrightarrow> c re = Inr m \<Longrightarrow> denotes g i c \<rho> (Filter re x) {l \<in> S. m l}"
| dn_attr: "denotes g i c \<rho> x S \<Longrightarrow> c re = Inr m \<Longrightarrow>
    denotes g i c \<rho> (Attr n re x)
      {l \<in> S. \<exists>t a. qg_target g l = Some t \<and> bm_get (lt_attrs t) n = Some a \<and> m (canonical a)}"
| dn_labels: "denotes g i c \<rho> x S \<Longrightarrow>
    denotes g i c \<rho> (Labels n x)
      {canonical_label raw (pkg_prefix l) | l raw t a.
         l \<in> S \<and> qg_target g l = Some t \<and> bm_get (lt_attrs t) n = Some a \<and> raw \<in> set (attr_labels a)}"
| dn_somepath: "denotes g i c \<rho> a A \<Longrightarrow> denotes g i c \<rho> b B \<Longrightarrow> shortest (edge_rel g i) A B S \<Longrightarrow>
    denotes g i c \<rho> (SomePath a b) S"
| dn_allpaths: "denotes g i c \<rho> a A \<Longrightarrow> denotes g i c \<rho> b B \<Longrightarrow>
    denotes g i c \<rho> (AllPaths a b) (rev_within g ((edge_rel g i)\<^sup>* `` A) None B)"
| dn_siblings: "denotes g i c \<rho> x S \<Longrightarrow>
    denotes g i c \<rho> (Siblings x) (\<Union>l \<in> S. set (match_pattern g (pkg_prefix l @ '':*'')))"
| dn_same_pkg: "denotes g i c \<rho> x S \<Longrightarrow>
    denotes g i c \<rho> (SamePkgDirectRdeps x) {p. \<exists>t \<in> S. (p, t) \<in> edge_rel g True \<and> pkg_prefix p = pkg_prefix t}"
| dn_tests: "denotes g i c \<rho> x S \<Longrightarrow> denotes g i c \<rho> (Tests x) {t \<in> (suite_rel g)\<^sup>* `` S. is_test g t}"
| dn_visible: "denotes g i c \<rho> p P \<Longrightarrow> denotes g i c \<rho> x S \<Longrightarrow>
    denotes g i c \<rho> (Visible p x) {t \<in> S. \<forall>f \<in> P. is_visible_to g t (label_pkg_of f) = Inr True}"

subsection \<open>The evaluator refines it\<close>

lemma labels_of_set:
  "set (labels_of g n s) = {canonical_label raw (pkg_prefix l) | l raw t a.
     l \<in> set s \<and> qg_target g l = Some t \<and> bm_get (lt_attrs t) n = Some a \<and> raw \<in> set (attr_labels a)}"
proof -
  have "set (fold (\<lambda>l out. case Option.bind (qg_target g l) (\<lambda>t. bm_get (lt_attrs t) n) of
         None \<Rightarrow> out
       | Some a \<Rightarrow> bs_extend out (map (\<lambda>raw. canonical_label raw (pkg_prefix l)) (attr_labels a))) s out) =
    set out \<union> {canonical_label raw (pkg_prefix l) | l raw t a.
     l \<in> set s \<and> qg_target g l = Some t \<and> bm_get (lt_attrs t) n = Some a \<and> raw \<in> set (attr_labels a)}" for out
  proof (induction s arbitrary: out)
    case (Cons l s)
    show ?case
    proof (cases "qg_target g l")
      case None
      with Cons show ?thesis by auto
    next
      case (Some t)
      with Cons show ?thesis by (cases "bm_get (lt_attrs t) n") auto
    qed
  qed simp
  then show ?thesis by (simp add: labels_of_def)
qed

lemma siblings_of_set: "set (siblings_of g s) = (\<Union>l \<in> set s. set (match_pattern g (pkg_prefix l @ '':*'')))"
proof -
  have "set (fold (\<lambda>pkg out. bs_union out (match_pattern g (pkg @ '':*''))) ps out) =
      set out \<union> (\<Union>p \<in> set ps. set (match_pattern g (p @ '':*'')))" for ps out
    by (induction ps arbitrary: out) auto
  then show ?thesis by (simp add: siblings_of_def)
qed

lemma visible_to_all_iff: "visible_to_all g t ps = Inr b \<Longrightarrow> b \<longleftrightarrow> (\<forall>p \<in> set ps. is_visible_to g t p = Inr True)"
  by (induction ps) (auto simp: res_bind_Inr_iff split: if_splits)

lemma filter_visible_set:
  "filter_visible g ps ts out = Inr s \<Longrightarrow>
   set s = set out \<union> {t \<in> set ts. \<forall>p \<in> set ps. is_visible_to g t p = Inr True}"
proof (induction ts arbitrary: out)
  case (Cons t ts)
  then obtain b where b: "visible_to_all g t ps = Inr b"
    and r: "filter_visible g ps ts (if b then bs_insert t out else out) = Inr s"
    by (auto simp: res_bind_Inr_iff)
  from Cons.IH [OF r] visible_to_all_iff [OF b] show ?case by auto
qed simp

definition env_ok :: "env \<Rightarrow> bool" where
  "env_ok env \<longleftrightarrow> bm_ok env \<and> (\<forall>v s. bm_get env v = Some s \<longrightarrow> bs_ok s)"

definition env_sets :: "env \<Rightarrow> string \<Rightarrow> string set option" where
  "env_sets env v = map_option set (bm_get env v)"

lemma env_ok_insert: "env_ok env \<Longrightarrow> bs_ok s \<Longrightarrow> env_ok (bm_insert v s env)"
  by (auto simp: env_ok_def)

lemma env_sets_insert: "env_sets (bm_insert v s env) = (env_sets env)(v \<mapsto> set s)"
  by (auto simp: env_sets_def)

lemma ev_bind2:
  "env_ok env \<Longrightarrow>
   fst (ev_bind (eval_go g i c a) (\<lambda>A. ev_bind (eval_go g i c b) (\<lambda>B. h A B)) env) = Inr s \<longleftrightarrow>
   (\<exists>A B. fst (eval_go g i c a env) = Inr A \<and> fst (eval_go g i c b env) = Inr B \<and> fst (h A B env) = Inr s)"
  by (simp add: ev_bind_Inr eval_go_env env_ok_def)

lemma eval_refines:
  assumes "qg_ok g" "bm_ok (qg_kinds g)"
  shows "env_ok env \<Longrightarrow> fst (eval_go g i c e env) = Inr s \<Longrightarrow> bs_ok s \<and> denotes g i c (env_sets env) e (set s)"
proof (induction e arbitrary: env s)
  case (Pattern p)
  then show ?case
    using assms by (auto intro: denotes.intros match_pattern_ok simp: qg_ok_def)
next
  case (Var v)
  then show ?case
    by (auto simp: env_ok_def env_sets_def intro!: dn_var split: option.splits)
next
  case (Let v e body)
  have env: "snd (eval_go g i c e env) = env" using Let.prems(1) by (simp add: eval_go_env env_ok_def)
  from Let.prems(2) env obtain x where x: "fst (eval_go g i c e env) = Inr x"
    and b': "fst (case eval_go g i c body (bm_insert v x env) of (r, env') \<Rightarrow>
      (r, case bm_get env v of Some p \<Rightarrow> bm_insert v p env' | None \<Rightarrow> bm_remove v env')) = Inr s"
    by (auto simp: ev_bind_Inr)
  from b' have b: "fst (eval_go g i c body (bm_insert v x env)) = Inr s"
    by (cases "eval_go g i c body (bm_insert v x env)") simp
  from Let.IH(1) [OF Let.prems(1) x] have ih1: "bs_ok x" "denotes g i c (env_sets env) e (set x)" by simp_all
  from Let.IH(2) [OF env_ok_insert [OF Let.prems(1) ih1(1)] b] ih1(2) show ?case
    unfolding env_sets_insert by (blast intro: dn_let)
next
  case (Deps x d)
  then obtain y where y: "fst (eval_go g i c x env) = Inr y" "s = qg_deps g y d i"
    by (auto simp: ev_bind_Inr)
  from Deps.IH [OF Deps.prems(1) y(1)] show ?case
    by (simp add: y(2) deps_within deps_ok dn_deps)
next
  case (Rdeps u x d)
  from Rdeps.prems(2) [unfolded eval_go.simps ev_bind2 [OF Rdeps.prems(1)]] obtain A B where ab: "fst (eval_go g i c u env) = Inr A" "fst (eval_go g i c x env) = Inr B"
    "s = qg_rdeps g A B d" by auto
  have "set s = rev_within g (set A) d (set B)"
    unfolding ab(3) rdeps_within [OF assms(1)] rev_within_def ..
  moreover have "bs_ok s" if "bs_ok B" using that by (simp add: ab(3) rdeps_ok)
  ultimately show ?case
    using Rdeps.IH(1) [OF Rdeps.prems(1) ab(1)] Rdeps.IH(2) [OF Rdeps.prems(1) ab(2)] by (simp add: dn_rdeps)
next
  case (Union a b)
  from Union.prems(2) [unfolded eval_go.simps ev_bind2 [OF Union.prems(1)]] obtain A B where ab: "fst (eval_go g i c a env) = Inr A" "fst (eval_go g i c b env) = Inr B"
    "s = bs_union A B" by auto
  from Union.IH(1) [OF Union.prems(1) ab(1)] Union.IH(2) [OF Union.prems(1) ab(2)] show ?case
    unfolding ab(3) by (auto intro: dn_union)
next
  case (Except a b)
  from Except.prems(2) [unfolded eval_go.simps ev_bind2 [OF Except.prems(1)]] obtain A B where ab: "fst (eval_go g i c a env) = Inr A" "fst (eval_go g i c b env) = Inr B"
    "s = bs_diff A B" by auto
  from Except.IH(1) [OF Except.prems(1) ab(1)] Except.IH(2) [OF Except.prems(1) ab(2)] show ?case
    unfolding ab(3) by (auto intro: dn_except)
next
  case (Intersect a b)
  from Intersect.prems(2) [unfolded eval_go.simps ev_bind2 [OF Intersect.prems(1)]] obtain A B where ab: "fst (eval_go g i c a env) = Inr A" "fst (eval_go g i c b env) = Inr B"
    "s = bs_inter A B" by auto
  from Intersect.IH(1) [OF Intersect.prems(1) ab(1)] Intersect.IH(2) [OF Intersect.prems(1) ab(2)] show ?case
    unfolding ab(3) by (auto intro: dn_intersect)
next
  case (Kind re x)
  then have "\<exists>m y. c re = Inr m \<and> fst (eval_go g i c x env) = Inr y \<and>
      s = filter (\<lambda>l. case qg_kind g l of None \<Rightarrow> False | Some k \<Rightarrow> m k) y"
    by (auto simp: ev_bind_Inr eval_go_env env_ok_def)
  then obtain m y where my: "c re = Inr m" "fst (eval_go g i c x env) = Inr y"
      "s = filter (\<lambda>l. case qg_kind g l of None \<Rightarrow> False | Some k \<Rightarrow> m k) y" by blast
  have "set s = {l \<in> set y. \<exists>k. qg_kind g l = Some k \<and> m k}" unfolding my(3) by (auto split: option.splits)
  with my Kind.IH [OF Kind.prems(1) my(2)] dn_kind [of g i c _ x "set y" re m] show ?case by simp
next
  case (Filter re x)
  then have "\<exists>m y. c re = Inr m \<and> fst (eval_go g i c x env) = Inr y \<and> s = filter m y"
    by (auto simp: ev_bind_Inr eval_go_env env_ok_def)
  with Filter.IH [OF Filter.prems(1)] dn_filter [of g i c _ x _ re] show ?case by auto
next
  case (Attr n re x)
  let ?p = "\<lambda>m l. case Option.bind (qg_target g l) (\<lambda>t. bm_get (lt_attrs t) n) of None \<Rightarrow> False | Some a \<Rightarrow> m (canonical a)"
  from Attr.prems have "\<exists>m y. c re = Inr m \<and> fst (eval_go g i c x env) = Inr y \<and> s = filter (?p m) y"
    by (auto simp: ev_bind_Inr eval_go_env env_ok_def)
  then obtain m y where my: "c re = Inr m" "fst (eval_go g i c x env) = Inr y" "s = filter (?p m) y" by blast
  have "set s = {l \<in> set y. \<exists>t a. qg_target g l = Some t \<and> bm_get (lt_attrs t) n = Some a \<and> m (canonical a)}"
    unfolding my(3) by (auto split: option.splits simp: bind_eq_Some_conv bind_eq_None_conv)
  with my Attr.IH [OF Attr.prems(1) my(2)] dn_attr [of g i c _ x "set y" re m n] show ?case by simp
next
  case (Labels n x)
  then obtain y where y: "fst (eval_go g i c x env) = Inr y" "s = labels_of g n y"
    by (auto simp: ev_bind_Inr)
  from Labels.IH [OF Labels.prems(1) y(1)] show ?case
    unfolding y(2) labels_of_set using labels_of_ok dn_labels by blast
next
  case (SomePath a b)
  from SomePath.prems(2) [unfolded eval_go.simps ev_bind2 [OF SomePath.prems(1)]] obtain A B where ab: "fst (eval_go g i c a env) = Inr A" "fst (eval_go g i c b env) = Inr B"
    "s = qg_somepath g A B i" by auto
  have "bs_ok s" by (simp add: ab(3) qg_somepath_def somepath_ok)
  with SomePath.IH(1) [OF SomePath.prems(1) ab(1)] SomePath.IH(2) [OF SomePath.prems(1) ab(2)] show ?case
    unfolding ab(3) using dn_somepath somepath_shortest by blast
next
  case (AllPaths a b)
  from AllPaths.prems(2) [unfolded eval_go.simps ev_bind2 [OF AllPaths.prems(1)]] obtain A B where ab: "fst (eval_go g i c a env) = Inr A" "fst (eval_go g i c b env) = Inr B"
    "s = qg_allpaths g A B i" by auto
  have "set s = rev_within g ((edge_rel g i)\<^sup>* `` set A) None (set B)"
    by (simp add: ab(3) qg_allpaths_def Let_def rdeps_within [OF assms(1)] rev_within_def deps_within within_None)
  moreover have "bs_ok s" if "bs_ok B" using that by (simp add: ab(3) qg_allpaths_def Let_def rdeps_ok)
  ultimately show ?case
    using AllPaths.IH(1) [OF AllPaths.prems(1) ab(1)] AllPaths.IH(2) [OF AllPaths.prems(1) ab(2)]
    by (auto intro: dn_allpaths)
next
  case (Siblings x)
  then obtain y where y: "fst (eval_go g i c x env) = Inr y" "s = siblings_of g y"
    by (auto simp: ev_bind_Inr)
  from Siblings.IH [OF Siblings.prems(1) y(1)] show ?case
    unfolding y(2) siblings_of_set using siblings_ok dn_siblings by blast
next
  case (SamePkgDirectRdeps x)
  then obtain y where y: "fst (eval_go g i c x env) = Inr y" "s = same_pkg_direct_rdeps g y"
    by (auto simp: ev_bind_Inr)
  have "set s = {p. \<exists>t \<in> set y. (p, t) \<in> edge_rel g True \<and> pkg_prefix p = pkg_prefix t}"
    using assms(1) unfolding y(2) same_pkg_direct_rdeps_def by (auto simp: qg_ok_def)
  with y SamePkgDirectRdeps.IH [OF SamePkgDirectRdeps.prems(1) y(1)]
    dn_same_pkg [of g i c _ x "set y"] show ?case by (simp add: same_pkg_direct_rdeps_def)
next
  case (Tests x)
  then obtain y where y: "fst (eval_go g i c x env) = Inr y" "s = tests_of g y"
    by (auto simp: ev_bind_Inr)
  from Tests.IH [OF Tests.prems(1) y(1)] have ih: "bs_ok y" "denotes g i c (env_sets env) x (set y)" by simp_all
  have "bs_ok s" by (simp add: y(2) tests_of_def tests_ok)
  with ih(2) show ?case
    unfolding y(2) tests_of_reach [OF bs_ok_distinct [OF ih(1)]] by (blast intro: dn_tests)
next
  case (Visible p x)
  from Visible.prems(2) [unfolded eval_go.simps ev_bind2 [OF Visible.prems(1)]] obtain P y where y: "fst (eval_go g i c p env) = Inr P" "fst (eval_go g i c x env) = Inr y"
    "filter_visible g (bs_of (map label_pkg_of P)) y [] = Inr s"
    by auto
  have "set s = {t \<in> set y. \<forall>f \<in> set P. is_visible_to g t (label_pkg_of f) = Inr True}"
    using filter_visible_set [OF y(3)] by simp
  with y Visible.IH(1) [OF Visible.prems(1) y(1)] Visible.IH(2) [OF Visible.prems(1) y(2)]
    dn_visible [of g i c _ p "set P" x "set y"] filter_visible_ok [OF y(3)] show ?case by simp
qed

lemma index_edge_kinds: "bm_ok (snd adj) \<Longrightarrow> bm_ok (snd (index_edge ts l e adj))"
  by (cases adj) (auto simp: index_edge_def Let_def split: option.split)

lemma fold_edges_kinds: "bm_ok (snd adj) \<Longrightarrow> bm_ok (snd (fold (index_edge ts l) es adj))"
  by (induction es arbitrary: adj) (auto simp: index_edge_kinds)

lemma fold_targets_kinds: "bm_ok (snd adj) \<Longrightarrow> bm_ok (snd (fold (index_target ts) lts adj))"
proof (induction lts arbitrary: adj)
  case (Cons lt lts)
  then show ?case
    by (cases lt; cases adj) (simp add: index_target_def fold_edges_kinds)
qed simp

lemma qg_new_kinds: "bm_ok (qg_kinds (qg_new targets))"
  using fold_targets_kinds [of "([], [])" targets targets]
  by (cases "fold (index_target targets) targets ([], [])") (simp add: qg_new_def)

subsection \<open>A small graph, for the witnesses\<close>

definition demo_target :: "string \<Rightarrow> string \<Rightarrow> edge list \<Rightarrow> string \<times> loaded_target" where
  "demo_target l rc es =
     (l, \<lparr>lt_label = l, lt_repo = [], lt_package = ''a'', rule_class = rc, lt_kind = KLibrary,
          lt_attrs = [], lt_edges = es, raw_refs = []\<rparr>)"

definition demo_edge :: "string \<Rightarrow> edge_kind \<Rightarrow> edge" where
  "demo_edge l k = \<lparr>e_to = l, e_kind = k, e_attr = ''deps''\<rparr>"

definition demo_targets :: "(string, loaded_target) bmap" where
  "demo_targets =
     [demo_target ''//a:x'' ''cc_library'' [demo_edge ''//a:y'' ERule, demo_edge ''//a:z'' ERule],
      demo_target ''//a:y'' ''cc_library'' [demo_edge ''//a:z'' EImplicit],
      demo_target ''//a:z'' ''cc_library'' [demo_edge ''//a:f.c'' ESourceFile]]"

lemma demo_targets_ok: "bm_ok demo_targets"
  by (simp add: demo_targets_def demo_target_def)

definition no_regex :: regex_compile where
  "no_regex re = Err ''invalid regex''"

subsection \<open>The theorems\<close>

text \<open>C7: Evaluating a query over the graph of the loaded targets gives a set the query denotes: the
  closures are reachability within the depth, \<open>somepath\<close> a shortest path, \<open>tests\<close> the tests reachable
  through suites, \<open>let\<close> a lexical binding, the predicates the selected labels.  The result is sorted and
  has no duplicates.\<close>

theorem query_refines:
  assumes "bm_ok targets" "query_eval (qg_new targets) compile e implicit = Ok s"
  shows "bs_ok s \<and> denotes (qg_new targets) implicit compile (\<lambda>_. None) e (set s)"
proof -
  have "env_ok []" "env_sets [] = (\<lambda>_. None)" by (simp_all add: env_ok_def env_sets_def fun_eq_iff)
  with eval_refines [OF qg_ok_new [OF assms(1)] qg_new_kinds, of "[]" implicit compile e s] assms(2)
  show ?thesis by (simp add: query_eval_def)
qed

theorem query_refines_witness:
  "query_eval (qg_new demo_targets) no_regex (Except (Deps (Pattern ''//a:x'') None) (Pattern ''//a:all'')) False
     = Ok [''//a:f.c''] \<and>
   denotes (qg_new demo_targets) False no_regex (\<lambda>_. None)
     (Except (Deps (Pattern ''//a:x'') None) (Pattern ''//a:all'')) {''//a:f.c''}"
proof -
  have e: "query_eval (qg_new demo_targets) no_regex (Except (Deps (Pattern ''//a:x'') None) (Pattern ''//a:all'')) False
     = Ok [''//a:f.c'']" by code_simp
  from query_refines [OF demo_targets_ok e] e show ?thesis by simp
qed

text \<open>With implicit edges on, \<open>allpaths(a, b)\<close> is exactly the labels that lie on some path from a
  label of \<open>a\<close> to a label of \<open>b\<close>.\<close>

theorem allpaths_exact:
  assumes "bm_ok targets"
  shows "n \<in> set (qg_allpaths (qg_new targets) a b True) \<longleftrightarrow>
    (\<exists>x \<in> set a. (x, n) \<in> (edge_rel (qg_new targets) True)\<^sup>*) \<and>
    (\<exists>y \<in> set b. (n, y) \<in> (edge_rel (qg_new targets) True)\<^sup>*)"
  using allpaths_all_edges [OF qg_ok_new [OF assms], of a b] by blast

theorem allpaths_exact_witness:
  "''//a:y'' \<in> set (qg_allpaths (qg_new demo_targets) [''//a:x''] [''//a:z''] True) \<longleftrightarrow>
    (\<exists>x \<in> set [''//a:x'']. (x, ''//a:y'') \<in> (edge_rel (qg_new demo_targets) True)\<^sup>*) \<and>
    (\<exists>y \<in> set [''//a:z'']. (''//a:y'', y) \<in> (edge_rel (qg_new demo_targets) True)\<^sup>*)"
  by (rule allpaths_exact [OF demo_targets_ok])

text \<open>\<open>somepath\<close> answers the labels of a path that starts in the first set, follows edges, ends in
  the second set and is as short as any such path; it answers the empty set only when there is none.\<close>

theorem somepath_nearest:
  "(qg_somepath g a b implicit = [] \<and> (\<nexists>ys. is_path (edge_rel g implicit) (set a) (set b) ys)) \<or>
   (\<exists>xs. is_path (edge_rel g implicit) (set a) (set b) xs \<and> set (qg_somepath g a b implicit) = set xs \<and>
      (\<forall>ys. is_path (edge_rel g implicit) (set a) (set b) ys \<longrightarrow> length xs \<le> length ys))"
  using somepath_shortest [of g implicit a b] by (auto simp: shortest_def)

theorem somepath_nearest_witness:
  "\<exists>xs. is_path (edge_rel (qg_new demo_targets) True) (set [''//a:x'']) (set [''//a:z'']) xs \<and>
     set (qg_somepath (qg_new demo_targets) [''//a:x''] [''//a:z''] True) = set xs"
proof -
  have "qg_somepath (qg_new demo_targets) [''//a:x''] [''//a:z''] True \<noteq> []" by code_simp
  with somepath_nearest [of "qg_new demo_targets" "[''//a:x'']" "[''//a:z'']" True] show ?thesis by blast
qed

subsection \<open>Where the code departs from its documentation\<close>

text \<open>
  Without implicit edges, \<open>allpaths\<close> still walks back along them: the label below is not on any path of
  explicit edges, since its only edge to the goal is implicit.
\<close>

lemma allpaths_walks_implicit_edges:
  "''//a:y'' \<in> set (qg_allpaths (qg_new demo_targets) [''//a:x''] [''//a:z''] False) \<and>
   successors (qg_new demo_targets) False ''//a:y'' = []"
  by code_simp

text \<open>The siblings of a target of an external repository are one label that no target has.\<close>

lemma siblings_external: "siblings_of (qg_new demo_targets) [''@r//a:x''] = [''//@r//a:BUILD'']"
  by code_simp

text \<open>A package of an external repository counts as the package of the same name of the main one.\<close>

lemma visible_across_repositories: "is_visible_to g ''@r//a:x'' ''a'' = Ok True"
  by (simp add: is_visible_to_def label_pkg_of_def split_once_str_def starts_with_def)

text \<open>\<open>//:__subpackages__\<close> grants nothing below the root package.\<close>

lemma root_subpackages_grants_nothing:
  "spec_grants ''//:__subpackages__'' ''a'' = Ok False"
  by code_simp

end
