(* ===== verification/Query_Run.thy ===== *)
theory Query_Run
  imports Query_Eval
begin

section \<open>razel-query: the entry point and the output\<close>

text \<open>
  \<^verbatim>\<open>crates/razel-query/src/run.rs\<close> and \<^verbatim>\<open>output.rs\<close>.  The loader is the parameters
  \<open>packages_for\<close> (the packages of a pattern) and \<open>load\<close> (the targets of the packages), the
  canonicalisation of a pattern the parameter \<open>canon\<close>.
\<close>

datatype out_mode = OLabel | OLabelKind | OPackage | OGraph

definition output_parse :: "string \<Rightarrow> out_mode res" where
  "output_parse s =
     (if s = ''label'' then Ok OLabel
      else if s = ''label_kind'' then Ok OLabelKind
      else if s = ''package'' then Ok OPackage
      else if s = ''graph'' then Ok OGraph
      else if s \<in> set [''build'', ''proto'', ''xml'', ''cbor''] then
        Err (''--output='' @ s @ '' is deferred in query v1 ('' @ [CHR 0xC2, CHR 0xA7] @ ''12)'')
      else Err (''unknown --output='' @ s))"

definition nl :: string where
  "nl = [CHR 0x0A]"

definition package_of :: "string \<Rightarrow> string" where
  "package_of label =
     (let pkg = pkg_prefix label
      in case strip_prefix pkg ''//'' of Some p \<Rightarrow> p | None \<Rightarrow> pkg)"

definition format_line :: "query_graph \<Rightarrow> out_mode \<Rightarrow> string \<Rightarrow> string" where
  "format_line g mode label =
     (case mode of
        OLabelKind \<Rightarrow>
          (case qg_kind g label of Some k \<Rightarrow> k @ '' '' @ label | None \<Rightarrow> label)
      | _ \<Rightarrow> label) @ nl"

definition format_set :: "query_graph \<Rightarrow> label_set \<Rightarrow> out_mode \<Rightarrow> string" where
  "format_set g s mode =
     (if mode = OPackage then concat (map (\<lambda>p. p @ nl) (bs_of (map package_of s)))
      else concat (map (format_line g mode) s))"

text \<open>\<open>succs.sort(); succs.dedup();\<close> on a list of strings is the sorted set of its elements.\<close>

definition format_graph :: "query_graph \<Rightarrow> label_set \<Rightarrow> bool \<Rightarrow> string" where
  "format_graph g s implicit =
     ''digraph mygraph {'' @ nl @ ''  node [shape=box];'' @ nl @
     concat (map (\<lambda>node.
       [CHR '' '', CHR '' '', CHR 0x22] @ node @ [CHR 0x22] @ nl @
       concat (map (\<lambda>su. [CHR '' '', CHR '' '', CHR 0x22] @ node @ [CHR 0x22] @ '' -> '' @ [CHR 0x22] @ su @ [CHR 0x22] @ nl)
         (bs_of (filter (\<lambda>su. su \<in> set s) (successors g implicit node))))) s) @
     ''}'' @ nl"

fun collect_patterns :: "expr \<Rightarrow> string list" where
  "collect_patterns (Pattern p) = [p]"
| "collect_patterns (Var _) = []"
| "collect_patterns (Deps x _) = collect_patterns x"
| "collect_patterns (Kind _ x) = collect_patterns x"
| "collect_patterns (Filter _ x) = collect_patterns x"
| "collect_patterns (Attr _ _ x) = collect_patterns x"
| "collect_patterns (Labels _ x) = collect_patterns x"
| "collect_patterns (Siblings x) = collect_patterns x"
| "collect_patterns (SamePkgDirectRdeps x) = collect_patterns x"
| "collect_patterns (Tests x) = collect_patterns x"
| "collect_patterns (Rdeps a b _) = collect_patterns a @ collect_patterns b"
| "collect_patterns (SomePath a b) = collect_patterns a @ collect_patterns b"
| "collect_patterns (AllPaths a b) = collect_patterns a @ collect_patterns b"
| "collect_patterns (Visible a b) = collect_patterns a @ collect_patterns b"
| "collect_patterns (Union a b) = collect_patterns a @ collect_patterns b"
| "collect_patterns (Except a b) = collect_patterns a @ collect_patterns b"
| "collect_patterns (Intersect a b) = collect_patterns a @ collect_patterns b"
| "collect_patterns (Let _ v b) = collect_patterns v @ collect_patterns b"

primrec canonicalize_patterns :: "(string \<Rightarrow> string) \<Rightarrow> expr \<Rightarrow> expr" where
  "canonicalize_patterns canon (Pattern p) = Pattern (canon p)"
| "canonicalize_patterns canon (Var v) = Var v"
| "canonicalize_patterns canon (Deps x d) = Deps (canonicalize_patterns canon x) d"
| "canonicalize_patterns canon (Kind r x) = Kind r (canonicalize_patterns canon x)"
| "canonicalize_patterns canon (Filter r x) = Filter r (canonicalize_patterns canon x)"
| "canonicalize_patterns canon (Attr n r x) = Attr n r (canonicalize_patterns canon x)"
| "canonicalize_patterns canon (Labels n x) = Labels n (canonicalize_patterns canon x)"
| "canonicalize_patterns canon (Siblings x) = Siblings (canonicalize_patterns canon x)"
| "canonicalize_patterns canon (SamePkgDirectRdeps x) = SamePkgDirectRdeps (canonicalize_patterns canon x)"
| "canonicalize_patterns canon (Tests x) = Tests (canonicalize_patterns canon x)"
| "canonicalize_patterns canon (Rdeps a b d) = Rdeps (canonicalize_patterns canon a) (canonicalize_patterns canon b) d"
| "canonicalize_patterns canon (SomePath a b) = SomePath (canonicalize_patterns canon a) (canonicalize_patterns canon b)"
| "canonicalize_patterns canon (AllPaths a b) = AllPaths (canonicalize_patterns canon a) (canonicalize_patterns canon b)"
| "canonicalize_patterns canon (Visible a b) = Visible (canonicalize_patterns canon a) (canonicalize_patterns canon b)"
| "canonicalize_patterns canon (Union a b) = Union (canonicalize_patterns canon a) (canonicalize_patterns canon b)"
| "canonicalize_patterns canon (Except a b) = Except (canonicalize_patterns canon a) (canonicalize_patterns canon b)"
| "canonicalize_patterns canon (Intersect a b) = Intersect (canonicalize_patterns canon a) (canonicalize_patterns canon b)"
| "canonicalize_patterns canon (Let n v b) = Let n (canonicalize_patterns canon v) (canonicalize_patterns canon b)"

definition query_run :: "(string \<Rightarrow> string) \<Rightarrow> (string \<Rightarrow> string list res) \<Rightarrow>
    (string list \<Rightarrow> (string, loaded_target) bmap) \<Rightarrow> regex_compile \<Rightarrow> string \<Rightarrow> out_mode \<Rightarrow> bool \<Rightarrow> string res" where
  "query_run canon packages_for load compile expr_str out implicit =
     res_bind (parse expr_str) (\<lambda>e.
       let e = canonicalize_patterns canon e in
       res_bind (res_mapM packages_for (collect_patterns e)) (\<lambda>pkgs.
         let g = qg_new (load (bs_of (concat pkgs))) in
         res_bind (query_eval g compile e implicit) (\<lambda>s.
           Ok (case out of OGraph \<Rightarrow> format_graph g s implicit | _ \<Rightarrow> format_set g s out))))"

subsection \<open>Lemmas\<close>

text \<open>The packages that are loaded are those of the patterns that are evaluated.\<close>

lemma collect_canonicalize: "collect_patterns (canonicalize_patterns canon e) = map canon (collect_patterns e)"
  by (induction e) simp_all

lemma canonicalize_id: "(\<And>p. p \<in> set (collect_patterns e) \<Longrightarrow> canon p = p) \<Longrightarrow> canonicalize_patterns canon e = e"
  by (induction e) simp_all

lemma canonicalize_idem:
  "(\<And>p. canon (canon p) = canon p) \<Longrightarrow>
   canonicalize_patterns canon (canonicalize_patterns canon e) = canonicalize_patterns canon e"
  by (rule canonicalize_id) (auto simp: collect_canonicalize)

end
