(* ===== verification/Dds.thy ===== *)
theory Dds
  imports Core
begin

section \<open>razel-dds: the typed fact store\<close>

text \<open>
  \<^verbatim>\<open>crates/razel-dds/src/lib.rs\<close>: the value algebra, the provider schemas, the store, and the folds over
  the transitive dependencies that the read interface declares.  An interned string is its content.
  \<open>assert\<close> mutates the store in place field by field, so its failure returns the store as it is by then.
  The folds pop a \<open>Vec\<close> at its end: the head of the list is the top of the stack.
\<close>

type_synonym instance_id = nat
type_synonym provider_type_id = string
type_synonym field_id = string

definition single_instance :: instance_id where
  "single_instance = 0"

datatype target_key = TargetKey (tk_instance: instance_id) (tk_label: label)

definition target_key_pair :: "target_key \<Rightarrow> instance_id \<times> label" where
  "target_key_pair t = (tk_instance t, tk_label t)"

lemma target_key_pair_inj: "target_key_pair a = target_key_pair b \<Longrightarrow> a = b"
  by (cases a; cases b) (simp add: target_key_pair_def)

instantiation target_key :: linorder
begin

definition less_eq_target_key :: "target_key \<Rightarrow> target_key \<Rightarrow> bool" where
  "less_eq_target_key a b \<longleftrightarrow> target_key_pair a \<le> target_key_pair b"

definition less_target_key :: "target_key \<Rightarrow> target_key \<Rightarrow> bool" where
  "less_target_key a b \<longleftrightarrow> target_key_pair a < target_key_pair b"

instance
  by standard (auto simp: less_eq_target_key_def less_target_key_def dest: target_key_pair_inj)

end

subsection \<open>Values\<close>

datatype scalar = SStr string | SInt int | SBool bool

fun scalar_key :: "scalar \<Rightarrow> nat \<times> string \<times> int" where
  "scalar_key (SStr s) = (0, s, 0)"
| "scalar_key (SInt i) = (1, [], i)"
| "scalar_key (SBool b) = (2, [], if b then 1 else 0)"

lemma scalar_key_inj: "scalar_key a = scalar_key b \<Longrightarrow> a = b"
  by (cases a; cases b) (auto split: if_splits)

instantiation scalar :: linorder
begin

definition less_eq_scalar :: "scalar \<Rightarrow> scalar \<Rightarrow> bool" where
  "less_eq_scalar a b \<longleftrightarrow> scalar_key a \<le> scalar_key b"

definition less_scalar :: "scalar \<Rightarrow> scalar \<Rightarrow> bool" where
  "less_scalar a b \<longleftrightarrow> scalar_key a < scalar_key b"

instance
  by standard (auto simp: less_eq_scalar_def less_scalar_def dest: scalar_key_inj)

end

datatype field_value = FScalar scalar | FSet "scalar bset" | FDepset "scalar list"

datatype field_kind = KScalar | KSet | KDepset

datatype merge_error =
    ScalarConflict provider_type_id field_id
  | KindMismatch provider_type_id field_id
  | UnregisteredProvider provider_type_id
  | SchemaViolation provider_type_id field_id

fun value_kind :: "field_value \<Rightarrow> field_kind" where
  "value_kind (FScalar _) = KScalar"
| "value_kind (FSet _) = KSet"
| "value_kind (FDepset _) = KDepset"

text \<open>\<open>for x in b { if !a.contains(&x) { a.push(x) } }\<close>\<close>

fun append_dedup :: "'a list \<Rightarrow> 'a list \<Rightarrow> 'a list" where
  "append_dedup a [] = a"
| "append_dedup a (x # xs) = append_dedup (if x \<in> set a then a else a @ [x]) xs"

fun merge_value :: "field_value \<Rightarrow> field_value \<Rightarrow> provider_type_id \<Rightarrow> field_id \<Rightarrow> merge_error + field_value" where
  "merge_value (FScalar a) (FScalar b) prov field =
     (if a = b then Inr (FScalar a) else Inl (ScalarConflict prov field))"
| "merge_value (FSet a) (FSet b) prov field = Inr (FSet (bs_extend a b))"
| "merge_value (FDepset a) (FDepset b) prov field = Inr (FDepset (append_dedup a b))"
| "merge_value _ _ prov field = Inl (KindMismatch prov field)"

subsection \<open>Providers, schemas and the store\<close>

type_synonym dds_provider = "(field_id, field_value) bmap"
type_synonym provider_schema = "(field_id, field_kind) bmap"

definition provider_with :: "field_id \<Rightarrow> field_value \<Rightarrow> dds_provider \<Rightarrow> dds_provider" where
  "provider_with field v p = bm_insert field v p"

definition schema_field :: "field_id \<Rightarrow> field_kind \<Rightarrow> provider_schema \<Rightarrow> provider_schema" where
  "schema_field field k s = bm_insert field k s"

record dds =
  providers :: "(target_key \<times> provider_type_id, dds_provider) bmap"
  schemas :: "(provider_type_id, provider_schema) bmap"
  dds_deps :: "(target_key, target_key list) bmap"

definition dds_new :: dds where
  "dds_new = \<lparr>providers = [], schemas = [], dds_deps = []\<rparr>"

definition register_schema :: "provider_type_id \<Rightarrow> provider_schema \<Rightarrow> dds \<Rightarrow> dds" where
  "register_schema ty s d = d\<lparr>schemas := bm_insert ty s (schemas d)\<rparr>"

fun check_fields :: "provider_schema \<Rightarrow> provider_type_id \<Rightarrow> dds_provider \<Rightarrow> merge_error option" where
  "check_fields schema ty [] = None"
| "check_fields schema ty ((field, v) # fs) =
     (if bm_get schema field \<noteq> Some (value_kind v) then Some (SchemaViolation ty field)
      else check_fields schema ty fs)"

fun merge_fields :: "provider_type_id \<Rightarrow> dds_provider \<Rightarrow> dds_provider \<Rightarrow> merge_error option \<times> dds_provider" where
  "merge_fields ty [] existing = (None, existing)"
| "merge_fields ty ((field, v) # fs) existing =
     (case bm_get existing field of
        None \<Rightarrow> merge_fields ty fs (bm_insert field v existing)
      | Some cur \<Rightarrow>
          (case merge_value cur v ty field of
             Inl err \<Rightarrow> (Some err, existing)
           | Inr m \<Rightarrow> merge_fields ty fs (bm_insert field m existing)))"

definition dds_assert :: "target_key \<Rightarrow> provider_type_id \<Rightarrow> dds_provider \<Rightarrow> dds \<Rightarrow> merge_error option \<times> dds" where
  "dds_assert target ty provider d =
     (case bm_get (schemas d) ty of
        None \<Rightarrow> (Some (UnregisteredProvider ty), d)
      | Some schema \<Rightarrow>
          (case check_fields schema ty provider of
             Some err \<Rightarrow> (Some err, d)
           | None \<Rightarrow>
               (case bm_get (providers d) (target, ty) of
                  None \<Rightarrow> (None, d\<lparr>providers := bm_insert (target, ty) provider (providers d)\<rparr>)
                | Some existing \<Rightarrow>
                    (case merge_fields ty provider existing of
                       (err, p) \<Rightarrow> (err, d\<lparr>providers := bm_insert (target, ty) p (providers d)\<rparr>)))))"

definition assert_deps :: "target_key \<Rightarrow> target_key list \<Rightarrow> dds \<Rightarrow> dds" where
  "assert_deps target ds d = d\<lparr>dds_deps := bm_insert target ds (dds_deps d)\<rparr>"

definition dds_len :: "dds \<Rightarrow> nat" where
  "dds_len d = length (providers d)"

definition provider_of :: "dds \<Rightarrow> target_key \<Rightarrow> provider_type_id \<Rightarrow> dds_provider option" where
  "provider_of d target ty = bm_get (providers d) (target, ty)"

definition dep_keys :: "dds \<Rightarrow> target_key \<Rightarrow> target_key list" where
  "dep_keys d target = (case bm_get (dds_deps d) target of None \<Rightarrow> [] | Some ds \<Rightarrow> ds)"

definition field_of :: "dds \<Rightarrow> provider_type_id \<Rightarrow> field_id \<Rightarrow> target_key \<Rightarrow> field_value option" where
  "field_of d ty field t = Option.bind (provider_of d t ty) (\<lambda>p. bm_get p field)"

subsection \<open>The folds\<close>

text \<open>Only finitely many keys have dependencies, and each is expanded at most once.\<close>

lemma finite_expanded: "finite {t. dep_keys d t \<noteq> []}"
proof -
  have "{t. dep_keys d t \<noteq> []} \<subseteq> fst ` set (dds_deps d)"
  proof
    fix t
    assume "t \<in> {t. dep_keys d t \<noteq> []}"
    then obtain ds where "bm_get (dds_deps d) t = Some ds" by (auto simp: dep_keys_def split: option.splits)
    from bm_get_Some_in_set [OF this] show "t \<in> fst ` set (dds_deps d)" by force
  qed
  then show ?thesis by (rule finite_subset) simp
qed

definition unexpanded :: "dds \<Rightarrow> target_key list \<Rightarrow> nat" where
  "unexpanded d visited = card ({t. dep_keys d t \<noteq> []} - set visited)"

lemma unexpanded_less:
  "t \<notin> set visited \<Longrightarrow> dep_keys d t \<noteq> [] \<Longrightarrow> unexpanded d (hs_insert t visited) < unexpanded d visited"
  unfolding unexpanded_def set_hs_insert by (rule card_diff_insert_less) (simp_all add: finite_expanded)

lemma unexpanded_le: "unexpanded d (hs_insert t visited) \<le> unexpanded d visited"
  unfolding unexpanded_def set_hs_insert by (rule card_mono) (auto simp: finite_expanded)

definition fold_order :: "((dds \<times> target_key list \<times> target_key list) \<times> (dds \<times> target_key list \<times> target_key list)) set" where
  "fold_order = inv_image (less_than <*lex*> less_than) (\<lambda>(d, visited, stack). (unexpanded d visited, length stack))"

lemma wf_fold_order: "wf fold_order"
  by (simp add: fold_order_def wf_lex_prod)

lemma fold_order_skip: "((d, visited, stack), (d, visited, t # stack)) \<in> fold_order"
  by (simp add: fold_order_def)

lemma fold_order_prune: "((d, hs_insert t visited, stack), (d, visited, t # stack)) \<in> fold_order"
  using unexpanded_le [of d t visited] by (auto simp: fold_order_def)

lemma fold_order_push:
  "t \<notin> set visited \<Longrightarrow> length ds = length (dep_keys d t) \<Longrightarrow>
   ((d, hs_insert t visited, ds @ stack), (d, visited, t # stack)) \<in> fold_order"
  using unexpanded_le [of d t visited] unexpanded_less [of t visited d]
  by (cases "dep_keys d t = []") (auto simp: fold_order_def)

function fold_set_loop :: "dds \<Rightarrow> provider_type_id \<Rightarrow> field_id \<Rightarrow> target_key list \<Rightarrow> target_key list \<Rightarrow> scalar bset \<Rightarrow> scalar bset" where
  "fold_set_loop d ty field visited [] acc = acc"
| "fold_set_loop d ty field visited (t # stack) acc =
     (if t \<in> set visited then fold_set_loop d ty field visited stack acc
      else fold_set_loop d ty field (hs_insert t visited) (rev (dep_keys d t) @ stack)
        (case field_of d ty field t of Some (FSet s) \<Rightarrow> bs_extend acc s | _ \<Rightarrow> acc))"
  by pat_completeness auto
termination
  by (relation "inv_image fold_order (\<lambda>(d, ty, field, visited, stack, acc). (d, visited, stack))")
    (auto simp: wf_fold_order fold_order_skip fold_order_push)

definition fold_set :: "dds \<Rightarrow> target_key \<Rightarrow> provider_type_id \<Rightarrow> field_id \<Rightarrow> scalar bset" where
  "fold_set d root ty field = fold_set_loop d ty field [] [root] []"

text \<open>\<open>seen\<close> holds the elements of \<open>acc\<close>: both grow together, in the two folds below.\<close>

fun push_unseen :: "'a list \<Rightarrow> 'a list \<times> 'a list \<Rightarrow> 'a list \<times> 'a list" where
  "push_unseen [] (seen, acc) = (seen, acc)"
| "push_unseen (x # xs) (seen, acc) =
     (if x \<in> set seen then push_unseen xs (seen, acc) else push_unseen xs (hs_insert x seen, acc @ [x]))"

function fold_depset_loop :: "dds \<Rightarrow> provider_type_id \<Rightarrow> field_id \<Rightarrow> target_key list \<Rightarrow> target_key list \<Rightarrow>
    scalar list \<times> scalar list \<Rightarrow> scalar list \<times> scalar list" where
  "fold_depset_loop d ty field visited [] sa = sa"
| "fold_depset_loop d ty field visited (t # stack) sa =
     (if t \<in> set visited then fold_depset_loop d ty field visited stack sa
      else fold_depset_loop d ty field (hs_insert t visited) (dep_keys d t @ stack)
        (case field_of d ty field t of Some (FDepset xs) \<Rightarrow> push_unseen xs sa | _ \<Rightarrow> sa))"
  by pat_completeness auto
termination
  by (relation "inv_image fold_order (\<lambda>(d, ty, field, visited, stack, acc). (d, visited, stack))")
    (auto simp: wf_fold_order fold_order_skip fold_order_push)

definition fold_depset :: "dds \<Rightarrow> target_key \<Rightarrow> provider_type_id \<Rightarrow> field_id \<Rightarrow> scalar list" where
  "fold_depset d root ty field = snd (fold_depset_loop d ty field [] [root] ([], []))"

definition pruned :: "dds \<Rightarrow> provider_type_id \<Rightarrow> field_id \<Rightarrow> target_key \<Rightarrow> bool" where
  "pruned d ty prune t \<longleftrightarrow> field_of d ty prune t = Some (FScalar (SBool True))"

function fold_pruned_loop :: "dds \<Rightarrow> provider_type_id \<Rightarrow> field_id \<Rightarrow> field_id \<Rightarrow> target_key list \<Rightarrow> target_key list \<Rightarrow>
    scalar list \<times> scalar list \<Rightarrow> scalar list \<times> scalar list" where
  "fold_pruned_loop d ty field prune visited [] sa = sa"
| "fold_pruned_loop d ty field prune visited (t # stack) sa =
     (if t \<in> set visited then fold_pruned_loop d ty field prune visited stack sa
      else if pruned d ty prune t then fold_pruned_loop d ty field prune (hs_insert t visited) stack sa
      else fold_pruned_loop d ty field prune (hs_insert t visited) (dep_keys d t @ stack)
        (case field_of d ty field t of Some (FDepset xs) \<Rightarrow> push_unseen xs sa | _ \<Rightarrow> sa))"
  by pat_completeness auto
termination
  by (relation "inv_image fold_order (\<lambda>(d, ty, field, prune, visited, stack, acc). (d, visited, stack))")
    (auto simp: wf_fold_order fold_order_skip fold_order_push fold_order_prune)

definition fold_depset_pruned :: "dds \<Rightarrow> target_key \<Rightarrow> provider_type_id \<Rightarrow> field_id \<Rightarrow> field_id \<Rightarrow> scalar list" where
  "fold_depset_pruned d root ty field prune = snd (fold_pruned_loop d ty field prune [] [root] ([], []))"

end
