(* ===== verification/Dds_Props.thy ===== *)
theory Dds_Props
  imports Dds
begin

section \<open>razel-dds: the folds and the schema discipline\<close>

text \<open>
  \<open>preorder\<close> is the recursive depth-first traversal with a visited set.  The three folds of the read
  interface are one loop over an explicit stack, proved once in the locale \<open>stack_fold\<close>: they visit the
  keys in that order.  The store keeps the invariant that every stored field has the kind its schema
  declares, whatever sequence of registrations and assertions, failed ones included, built it.
\<close>

subsection \<open>Depth-first preorder\<close>

inductive preorder :: "('n \<Rightarrow> 'n list) \<Rightarrow> 'n list \<Rightarrow> 'n list \<Rightarrow> 'n list \<Rightarrow> bool" for succ where
  po_done: "preorder succ v [] []"
| po_seen: "t \<in> set v \<Longrightarrow> preorder succ v ts os \<Longrightarrow> preorder succ v (t # ts) os"
| po_visit: "t \<notin> set v \<Longrightarrow> preorder succ (v @ [t]) (succ t) os1 \<Longrightarrow> preorder succ (v @ t # os1) ts os2 \<Longrightarrow>
    preorder succ v (t # ts) (t # os1 @ os2)"

inductive_cases preorder_NilE: "preorder succ v [] os"
inductive_cases preorder_ConsE: "preorder succ v (t # ts) os"

lemma preorder_closed:
  "preorder succ v xs os \<Longrightarrow>
   set xs \<subseteq> set v \<union> set os \<and> (\<forall>x \<in> set os. set (succ x) \<subseteq> set v \<union> set os) \<and>
   distinct os \<and> set os \<inter> set v = {} \<and> set os \<subseteq> {(x, y). y \<in> set (succ x)}\<^sup>* `` set xs"
proof (induction rule: preorder.induct)
  case (po_visit t v os1 ts os2)
  let ?R = "{(x, y). y \<in> set (succ x)}"
  have "?R\<^sup>* `` set (succ t) \<subseteq> ?R\<^sup>* `` {t}"
    by (auto intro: converse_rtrancl_into_rtrancl)
  with po_visit.IH(1) have "set os1 \<subseteq> ?R\<^sup>* `` {t}" by blast
  moreover have "?R\<^sup>* `` set (t # ts) = ?R\<^sup>* `` {t} \<union> ?R\<^sup>* `` set ts" by auto
  ultimately have "set (t # os1 @ os2) \<subseteq> ?R\<^sup>* `` set (t # ts)" using po_visit.IH(2) by auto
  with po_visit show ?case by auto
qed auto

lemma preorder_reach:
  assumes "preorder succ [] xs os"
  shows "set os = {(x, y). y \<in> set (succ x)}\<^sup>* `` set xs"
proof -
  note c = preorder_closed [OF assms]
  have "y \<in> set os" if "(x, y) \<in> {(x, y). y \<in> set (succ x)}\<^sup>*" "x \<in> set os" for x y
    using that by (induction rule: rtrancl_induct) (use c in auto)
  with c show ?thesis by auto
qed

lemma preorder_append:
  "preorder succ v xs os1 \<Longrightarrow> preorder succ (v @ os1) ys os2 \<Longrightarrow> preorder succ v (xs @ ys) (os1 @ os2)"
proof (induction arbitrary: os2 rule: preorder.induct)
  case (po_visit t v os1 ts os3)
  then show ?case using preorder.po_visit [of t v succ os1 "ts @ ys" "os3 @ os2"] by simp
qed (auto intro: preorder.intros)

lemma preorder_exists:
  assumes "finite {x. succ x \<noteq> []}"
  shows "\<exists>os. preorder succ v xs os"
proof (induction "(card ({x. succ x \<noteq> []} - set v), length xs)" arbitrary: v xs rule: wf_induct [OF wf_lex_prod [OF wf_less_than wf_less_than]])
  case 1
  then have ih: "\<exists>os. preorder succ v' xs' os"
    if "card ({x. succ x \<noteq> []} - set v') < card ({x. succ x \<noteq> []} - set v) \<or>
      card ({x. succ x \<noteq> []} - set v') = card ({x. succ x \<noteq> []} - set v) \<and> length xs' < length xs" for v' xs'
    using that by auto
  have mono: "card ({x. succ x \<noteq> []} - set v') \<le> card ({x. succ x \<noteq> []} - set v)" if "set v \<subseteq> set v'" for v'
    using assms that by (intro card_mono) auto
  show ?case
  proof (cases xs)
    case Nil
    then show ?thesis using po_done by blast
  next
    case (Cons t ts)
    show ?thesis
    proof (cases "t \<in> set v")
      case True
      from ih [of v ts] Cons obtain os where "preorder succ v ts os" by auto
      with True Cons show ?thesis by (blast intro: po_seen)
    next
      case False
      have "\<exists>os1. preorder succ (v @ [t]) (succ t) os1"
      proof (cases "succ t = []")
        case True
        then show ?thesis using po_done by auto
      next
        case F: False
        then have "card ({x. succ x \<noteq> []} - insert t (set v)) < card ({x. succ x \<noteq> []} - set v)"
          using assms False by (intro card_diff_insert_less) auto
        then show ?thesis by (intro ih) simp
      qed
      then obtain os1 where os1: "preorder succ (v @ [t]) (succ t) os1" ..
      have "\<exists>os2. preorder succ (v @ t # os1) ts os2"
        using mono [of "v @ t # os1"] Cons by (intro ih) (auto simp: le_less)
      with os1 False Cons show ?thesis by (blast intro: po_visit)
    qed
  qed
qed

locale stack_fold =
  fixes succ :: "'n \<Rightarrow> 'n list"
    and step :: "'n \<Rightarrow> 'acc \<Rightarrow> 'acc"
    and loop :: "'n list \<Rightarrow> 'n list \<Rightarrow> 'acc \<Rightarrow> 'acc"
  assumes loop_Nil: "loop v [] acc = acc"
    and loop_Cons: "loop v (t # ts) acc =
      (if t \<in> set v then loop v ts acc else loop (hs_insert t v) (succ t @ ts) (step t acc))"
    and finite_succ: "finite {x. succ x \<noteq> []}"
begin

lemma loop_preorder: "preorder succ v xs os \<Longrightarrow> loop v (xs @ ys) acc = loop (v @ os) ys (fold step os acc)"
proof (induction arbitrary: ys acc rule: preorder.induct)
  case (po_visit t v os1 ts os2)
  have "loop v ((t # ts) @ ys) acc = loop (v @ [t]) (succ t @ ts @ ys) (step t acc)"
    using po_visit.hyps(1) by (simp add: loop_Cons hs_insert_def)
  also have "\<dots> = loop (v @ t # os1) (ts @ ys) (fold step os1 (step t acc))"
    using po_visit.IH(1) [of "ts @ ys"] by simp
  also have "\<dots> = loop (v @ t # os1 @ os2) ys (fold step os2 (fold step os1 (step t acc)))"
    using po_visit.IH(2) by simp
  finally show ?case by simp
qed (simp_all add: loop_Cons)

lemma loop_order: "\<exists>os. preorder succ [] roots os \<and> loop [] roots acc = fold step os acc"
proof -
  obtain os where os: "preorder succ [] roots os" using preorder_exists [OF finite_succ] by blast
  with loop_preorder [OF os, of "[]" acc] show ?thesis by (auto simp: loop_Nil)
qed

end

definition set_step :: "dds \<Rightarrow> provider_type_id \<Rightarrow> field_id \<Rightarrow> target_key \<Rightarrow> scalar bset \<Rightarrow> scalar bset" where
  "set_step d ty field t acc = (case field_of d ty field t of Some (FSet s) \<Rightarrow> bs_extend acc s | _ \<Rightarrow> acc)"

definition own_list :: "dds \<Rightarrow> provider_type_id \<Rightarrow> field_id \<Rightarrow> target_key \<Rightarrow> scalar list" where
  "own_list d ty field t = (case field_of d ty field t of Some (FDepset xs) \<Rightarrow> xs | _ \<Rightarrow> [])"

definition own_set :: "dds \<Rightarrow> provider_type_id \<Rightarrow> field_id \<Rightarrow> target_key \<Rightarrow> scalar set" where
  "own_set d ty field t = (case field_of d ty field t of Some (FSet s) \<Rightarrow> set s | _ \<Rightarrow> {})"

definition live_deps :: "dds \<Rightarrow> provider_type_id \<Rightarrow> field_id \<Rightarrow> target_key \<Rightarrow> target_key list" where
  "live_deps d ty prune t = (if pruned d ty prune t then [] else dep_keys d t)"

definition live_list :: "dds \<Rightarrow> provider_type_id \<Rightarrow> field_id \<Rightarrow> field_id \<Rightarrow> target_key \<Rightarrow> scalar list" where
  "live_list d ty field prune t = (if pruned d ty prune t then [] else own_list d ty field t)"

lemma own_list_step:
  "(case field_of d ty field t of Some (FDepset xs) \<Rightarrow> push_unseen xs sa | _ \<Rightarrow> sa) = push_unseen (own_list d ty field t) sa"
  by (cases sa) (auto simp: own_list_def split: option.split field_value.split)

interpretation fset: stack_fold "\<lambda>t. rev (dep_keys d t)" "set_step d ty field" "fold_set_loop d ty field" for d ty field
  by unfold_locales (simp_all add: set_step_def finite_expanded)

interpretation fdep: stack_fold "dep_keys d" "\<lambda>t. push_unseen (own_list d ty field t)" "fold_depset_loop d ty field"
  for d ty field
  by unfold_locales (simp_all add: own_list_step finite_expanded)

interpretation fprune: stack_fold "live_deps d ty prune" "\<lambda>t. push_unseen (live_list d ty field prune t)"
  "fold_pruned_loop d ty field prune" for d ty field prune
proof
  show "finite {t. live_deps d ty prune t \<noteq> []}"
    by (rule finite_subset [OF _ finite_expanded [of d]]) (auto simp: live_deps_def)
  show "fold_pruned_loop d ty field prune v (t # ts) acc =
      (if t \<in> set v then fold_pruned_loop d ty field prune v ts acc
       else fold_pruned_loop d ty field prune (hs_insert t v) (live_deps d ty prune t @ ts)
         (push_unseen (live_list d ty field prune t) acc))" for v t ts acc
    by (cases acc) (simp add: live_deps_def live_list_def own_list_step)
qed simp

subsection \<open>First occurrences\<close>

text \<open>\<open>remdups\<close> keeps last occurrences; the folds keep first ones.\<close>

definition firsts :: "'a list \<Rightarrow> 'a list" where
  "firsts xs = append_dedup [] xs"

lemma append_dedup_append: "append_dedup a (xs @ ys) = append_dedup (append_dedup a xs) ys"
  by (induction xs arbitrary: a) auto

lemma set_append_dedup [simp]: "set (append_dedup a xs) = set a \<union> set xs"
  by (induction xs arbitrary: a) auto

lemma distinct_append_dedup [simp]: "distinct a \<Longrightarrow> distinct (append_dedup a xs)"
  by (induction xs arbitrary: a) auto

lemma append_dedup_subset: "set xs \<subseteq> set a \<Longrightarrow> append_dedup a xs = a"
  by (induction xs) auto

lemma push_unseen_eq: "set seen = set acc \<Longrightarrow>
   \<exists>seen'. push_unseen xs (seen, acc) = (seen', append_dedup acc xs) \<and> set seen' = set (append_dedup acc xs)"
proof (induction xs arbitrary: seen acc)
  case (Cons x xs)
  show ?case
  proof (cases "x \<in> set seen")
    case True
    with Cons show ?thesis by auto
  next
    case False
    with Cons.prems Cons.IH [of "hs_insert x seen" "acc @ [x]"] show ?thesis by auto
  qed
qed simp

lemma fold_push_unseen:
  "set seen = set acc \<Longrightarrow> snd (fold (\<lambda>t. push_unseen (f t)) os (seen, acc)) = append_dedup acc (concat (map f os))"
proof (induction os arbitrary: seen acc)
  case (Cons t os)
  from push_unseen_eq [OF Cons.prems, of "f t"] obtain seen' where
    p: "push_unseen (f t) (seen, acc) = (seen', append_dedup acc (f t))" "set seen' = set (append_dedup acc (f t))"
    by blast
  from Cons.IH [OF p(2)] p(1) show ?case by (simp add: append_dedup_append)
qed simp

lemma fold_set_step:
  "set (fold (set_step d ty field) os acc) = set acc \<union> (\<Union>t \<in> set os. own_set d ty field t)"
proof (induction os arbitrary: acc)
  case (Cons t os)
  have "set (set_step d ty field t acc) = set acc \<union> own_set d ty field t"
    by (auto simp: set_step_def own_set_def split: option.split field_value.split)
  with Cons show ?case by auto
qed simp

lemma fold_set_ok: "bs_ok acc \<Longrightarrow> bs_ok (fold (set_step d ty field) os acc)"
  by (induction os arbitrary: acc) (auto simp: set_step_def split: option.split field_value.split)

subsection \<open>The schema discipline\<close>

definition conforms :: "provider_schema \<Rightarrow> dds_provider \<Rightarrow> bool" where
  "conforms schema p \<longleftrightarrow> (\<forall>f v. bm_get p f = Some v \<longrightarrow> bm_get schema f = Some (value_kind v))"

definition dds_ok :: "dds \<Rightarrow> bool" where
  "dds_ok d \<longleftrightarrow> (\<forall>t ty p. provider_of d t ty = Some p \<longrightarrow>
     (\<exists>schema. bm_get (schemas d) ty = Some schema \<and> conforms schema p))"

inductive reachable_dds :: "dds \<Rightarrow> bool" where
  rd_new: "reachable_dds dds_new"
| rd_schema: "reachable_dds d \<Longrightarrow> bm_get (schemas d) ty = None \<Longrightarrow> reachable_dds (register_schema ty s d)"
| rd_assert: "reachable_dds d \<Longrightarrow> dds_assert t ty p d = (r, d') \<Longrightarrow> reachable_dds d'"
| rd_deps: "reachable_dds d \<Longrightarrow> reachable_dds (assert_deps t ds d)"

lemma merge_value_kind: "merge_value a b ty f = Inr m \<Longrightarrow> value_kind m = value_kind a"
  by (induction a b ty f rule: merge_value.induct) (auto split: if_splits)

lemma merge_value_same_kind: "value_kind a = value_kind b \<Longrightarrow> merge_value a b ty f \<noteq> Inl (KindMismatch ty' f')"
  by (induction a b ty f rule: merge_value.induct) auto

lemma check_fields_all: "check_fields schema ty p = None \<Longrightarrow> (f, v) \<in> set p \<Longrightarrow> bm_get schema f = Some (value_kind v)"
  by (induction schema ty p rule: check_fields.induct) (auto split: if_splits)

lemma check_fields_conforms: "check_fields schema ty p = None \<Longrightarrow> conforms schema p"
  unfolding conforms_def by (intro allI impI, erule check_fields_all, erule bm_get_Some_in_set)

lemma merge_fields_conforms:
  "merge_fields ty fs p = (r, p') \<Longrightarrow> conforms schema p \<Longrightarrow>
   (\<forall>f v. (f, v) \<in> set fs \<longrightarrow> bm_get schema f = Some (value_kind v)) \<Longrightarrow>
   conforms schema p' \<and> (\<forall>t f. r \<noteq> Some (KindMismatch t f))"
proof (induction ty fs p rule: merge_fields.induct)
  case (1 ty existing)
  then show ?case by auto
next
  case (2 ty field v fs existing)
  show ?case
  proof (cases "bm_get existing field")
    case None
    have "conforms schema (bm_insert field v existing)" using 2(4,5) unfolding conforms_def bm_get_insert by auto
    with 2 None show ?thesis by simp
  next
    case (Some cur)
    have kinds: "value_kind cur = value_kind v" 
    proof -
      have "bm_get schema field = Some (value_kind cur)" using 2(4) Some unfolding conforms_def by blast
      moreover have "bm_get schema field = Some (value_kind v)" using 2(5) by auto
      ultimately show ?thesis by simp
    qed
    show ?thesis
    proof (cases "merge_value cur v ty field")
      case (Inl err)
      with 2(3,4) Some merge_value_same_kind [OF kinds] show ?thesis by auto
    next
      case (Inr m)
      have "conforms schema (bm_insert field m existing)"
        using 2(4,5) merge_value_kind [OF Inr] kinds by (auto simp: conforms_def)
      with 2 Some Inr show ?thesis by simp
    qed
  qed
qed

lemma dds_assert_ok:
  assumes ok: "dds_ok d" and out: "dds_assert t ty p d = (r, d')"
  shows "dds_ok d' \<and> (\<forall>t f. r \<noteq> Some (KindMismatch t f))"
proof (cases "bm_get (schemas d) ty")
  case None
  with out ok show ?thesis by (auto simp: dds_assert_def)
next
  case (Some schema)
  show ?thesis
  proof (cases "check_fields schema ty p")
    case (Some err)
    have "r = Some err" "d' = d" using out \<open>bm_get (schemas d) ty = Some schema\<close> Some by (auto simp: dds_assert_def)
    moreover have "err \<noteq> KindMismatch a b" for a b
      using Some by (induction schema ty p rule: check_fields.induct) (auto split: if_splits)
    ultimately show ?thesis using ok by simp
  next
    case checked: None
    have update: "dds_ok (d\<lparr>providers := bm_insert (t, ty) q (providers d)\<rparr>)" if "conforms schema q" for q
      using ok that Some by (auto simp: dds_ok_def provider_of_def)
    show ?thesis
    proof (cases "bm_get (providers d) (t, ty)")
      case None
      with out Some checked update [OF check_fields_conforms [OF checked]] show ?thesis
        by (auto simp: dds_assert_def)
    next
      case old: (Some existing)
      obtain r' q where m: "merge_fields ty p existing = (r', q)" by force
      from ok old obtain schema' where "bm_get (schemas d) ty = Some schema'" "conforms schema' existing"
        unfolding dds_ok_def provider_of_def by blast
      with \<open>bm_get (schemas d) ty = Some schema\<close> have "conforms schema existing" by simp
      from merge_fields_conforms [OF m this] check_fields_all [OF checked]
      have "conforms schema q \<and> (\<forall>t f. r' \<noteq> Some (KindMismatch t f))" by blast
      with out Some checked old m update show ?thesis by (auto simp: dds_assert_def)
    qed
  qed
qed

lemma reachable_dds_ok: "reachable_dds d \<Longrightarrow> dds_ok d"
proof (induction rule: reachable_dds.induct)
  case rd_new
  show ?case by (simp add: dds_ok_def dds_new_def provider_of_def)
next
  case (rd_schema d ty s)
  then show ?case by (auto simp: dds_ok_def register_schema_def provider_of_def) (metis option.distinct(1))
next
  case (rd_assert d t ty p r d')
  then show ?case using dds_assert_ok by blast
next
  case (rd_deps d t ds)
  then show ?case by (simp add: dds_ok_def assert_deps_def provider_of_def)
qed

text \<open>What an assertion does to the facts it does not name, and what a failed one may leave behind.\<close>

lemma dds_assert_others:
  "dds_assert t ty p d = (r, d') \<Longrightarrow> (t', ty') \<noteq> (t, ty) \<Longrightarrow> provider_of d' t' ty' = provider_of d t' ty'"
  by (auto simp: dds_assert_def provider_of_def split: option.splits prod.splits)

subsection \<open>A small store, for the witnesses\<close>

definition demo_key :: "string \<Rightarrow> target_key" where
  "demo_key n = TargetKey 0 (Label [] ''p'' n)"

definition demo_store :: dds where
  "demo_store =
     assert_deps (demo_key ''a'') [demo_key ''b'', demo_key ''c'']
       (snd (dds_assert (demo_key ''b'') ''JavaInfo'' [(''jars'', FDepset [SStr ''b.jar''])]
         (register_schema ''JavaInfo'' [(''jars'', KDepset), (''neverlink'', KScalar)] dds_new)))"

lemma demo_store_reachable: "reachable_dds demo_store"
  unfolding demo_store_def
  by (intro rd_deps rd_assert [OF rd_schema [OF rd_new] surjective_pairing]) (simp add: dds_new_def bm_get_def)

subsection \<open>The theorems\<close>

lemma fold_set_spec:
  "bs_ok (fold_set d root ty field) \<and>
   set (fold_set d root ty field) =
     (\<Union>t \<in> {(x, y). y \<in> set (dep_keys d x)}\<^sup>* `` {root}. own_set d ty field t)"
proof -
  obtain os where os: "preorder (\<lambda>t. rev (dep_keys d t)) [] [root] os"
    "fold_set_loop d ty field [] [root] [] = fold (set_step d ty field) os []"
    using fset.loop_order by blast
  have "set os = {(x, y). y \<in> set (dep_keys d x)}\<^sup>* `` {root}"
    using preorder_reach [OF os(1)] by simp
  then show ?thesis unfolding fold_set_def os(2) by (simp add: fold_set_step fold_set_ok)
qed

text \<open>C14: In any store, built in any order and with dependencies of any shape, cycles and diamonds included, the fold of a set
  field is the union of that field over every target that the root reaches along the recorded dependencies, the root
  included, sorted and without repetition.\<close>

theorem fold_set_exact:
  "bs_ok (fold_set d root ty field) \<and>
   set (fold_set d root ty field) =
     (\<Union>t \<in> {(x, y). y \<in> set (dep_keys d x)}\<^sup>* `` {root}. own_set d ty field t)"
  by (rule fold_set_spec)

lemma append_dedup_snoc:
  "append_dedup a (xs @ [x]) = (if x \<in> set a \<union> set xs then append_dedup a xs else append_dedup a xs @ [x])"
  unfolding append_dedup_append by simp

lemma firsts_spec: "firsts xs = rev (remdups (rev xs))"
  unfolding firsts_def by (induction xs rule: rev_induct) (simp_all add: append_dedup_snoc)

text \<open>C13: In any store, cycles and diamonds included, the fold of an ordered field is the depth-first preorder of the
  recursive traversal: the root first, then each dependency in its declared order with all that it reaches before the next one,
  every target that the root reaches exactly once; the result is the field's elements over the targets in that order, each element
  at its first occurrence only.\<close>

theorem fold_depset_preorder:
  "\<exists>os. preorder (dep_keys d) [] [root] os \<and> distinct os \<and>
     set os = {(x, y). y \<in> set (dep_keys d x)}\<^sup>* `` {root} \<and>
     fold_depset d root ty field = rev (remdups (rev (concat (map (own_list d ty field) os))))"
proof -
  obtain os where os: "preorder (dep_keys d) [] [root] os"
    "fold_depset_loop d ty field [] [root] ([], []) = fold (\<lambda>t. push_unseen (own_list d ty field t)) os ([], [])"
    using fdep.loop_order by blast
  then have "fold_depset d root ty field = firsts (concat (map (own_list d ty field) os))"
    unfolding fold_depset_def os(2) firsts_def using fold_push_unseen [of "[]" "[]" "own_list d ty field" os] by auto
  with os(1) preorder_reach [OF os(1)] preorder_closed [OF os(1)] show ?thesis unfolding firsts_spec by auto
qed

text \<open>The pruned fold is the ordered fold of the graph in which a pruned target has no elements and
  no dependencies: what is reachable only through pruned targets drops out, the order of the rest and
  first occurrences are as in the unpruned fold.\<close>

theorem fold_depset_pruned_preorder:
  "\<exists>os. preorder (live_deps d ty prune) [] [root] os \<and>
     fold_depset_pruned d root ty field prune = firsts (concat (map (live_list d ty field prune) os))"
proof -
  obtain os where os: "preorder (live_deps d ty prune) [] [root] os"
    "fold_pruned_loop d ty field prune [] [root] ([], []) =
       fold (\<lambda>t. push_unseen (live_list d ty field prune t)) os ([], [])"
    using fprune.loop_order by blast
  then show ?thesis
    unfolding fold_depset_pruned_def os(2) firsts_def
    using fold_push_unseen [of "[]" "[]" "live_list d ty field prune" os] by auto
qed

text \<open>In a store built by any sequence of schema registrations for new types, assertions (accepted
  or rejected) and dependency edges, every stored field has the kind its provider's schema declares, and
  no assertion fails for a difference of kinds.\<close>

theorem dds_schema_discipline:
  assumes "reachable_dds d" "provider_of d t ty = Some p" "bm_get p field = Some v"
  shows "(\<exists>schema. bm_get (schemas d) ty = Some schema \<and> bm_get schema field = Some (value_kind v)) \<and>
    fst (dds_assert t' ty' q d) \<noteq> Some (KindMismatch ty2 field2)"
proof -
  have ok: "dds_ok d" by (rule reachable_dds_ok [OF assms(1)])
  from dds_assert_ok [OF ok surjective_pairing] have "fst (dds_assert t' ty' q d) \<noteq> Some (KindMismatch ty2 field2)"
    by blast
  moreover from ok assms(2) obtain schema where "bm_get (schemas d) ty = Some schema" "conforms schema p"
    unfolding dds_ok_def by blast
  ultimately show ?thesis using assms(3) unfolding conforms_def by blast
qed

theorem dds_schema_discipline_witness:
  "(\<exists>schema. bm_get (schemas demo_store) ''JavaInfo'' = Some schema \<and> bm_get schema ''jars'' = Some KDepset) \<and>
   fst (dds_assert (demo_key ''b'') ''JavaInfo'' [(''jars'', FScalar (SBool True))] demo_store)
     \<noteq> Some (KindMismatch ''JavaInfo'' ''jars'')"
proof -
  have "provider_of demo_store (demo_key ''b'') ''JavaInfo'' = Some [(''jars'', FDepset [SStr ''b.jar''])]"
    by code_simp
  from dds_schema_discipline [OF demo_store_reachable this, of "''jars''" "FDepset [SStr ''b.jar'']"
      "demo_key ''b''" "''JavaInfo''" "[(''jars'', FScalar (SBool True))]" "''JavaInfo''" "''jars''"]
  show ?thesis by (simp add: bm_get_def)
qed

text \<open>An assertion that fails on one field keeps what it merged before it.\<close>

lemma assert_failure_keeps_earlier_fields:
  "let d = snd (dds_assert (demo_key ''a'') ''P'' [(''b'', FScalar (SInt 1))]
        (register_schema ''P'' [(''a'', KSet), (''b'', KScalar)] dds_new));
       (r, d') = dds_assert (demo_key ''a'') ''P'' [(''a'', FSet [SInt 7]), (''b'', FScalar (SInt 2))] d
   in r = Some (ScalarConflict ''P'' ''b'') \<and>
      provider_of d' (demo_key ''a'') ''P'' = Some [(''a'', FSet [SInt 7]), (''b'', FScalar (SInt 1))]"
  by code_simp

end
