(* ===== verification/Cbor.thy ===== *)
theory Cbor
  imports Core "HOL-Library.Word"
begin

section \<open>razel-wire: the deterministic CBOR codec\<close>

text \<open>
  \<^verbatim>\<open>crates/razel-wire/src/cbor.rs\<close>.  An \<open>i64\<close> is an \<open>int\<close>, a \<open>u64\<close> a \<open>nat\<close>, and the casts between them
  wrap as \<open>as\<close> does.  The decoder's offset into the data is the list of the bytes from there on.  Every
  panic of the decoder (an index or a slice out of range, an unsupported head, a key that is no integer,
  text that is not UTF-8, trailing bytes) is \<open>None\<close>.  Its recursion is bounded by the number of bytes:
  every nested item has a head of its own.
\<close>

unbundle bit_operations_syntax

datatype cbor =
    CInt int
  | CBytes "byte list"
  | CText "byte list"
  | CArray "cbor list"
  | CMap "(int \<times> cbor) list"
  | CBool bool
  | CNull

fun cbor_get :: "cbor \<Rightarrow> int \<Rightarrow> cbor option" where
  "cbor_get (CMap m) key = map_of m key"
| "cbor_get _ key = None"

fun map_entries :: "cbor \<Rightarrow> (int \<times> cbor) list" where
  "map_entries (CMap m) = m"
| "map_entries _ = []"

definition as_u64 :: "int \<Rightarrow> nat" where
  "as_u64 i = nat (i mod 2 ^ 64)"

definition as_i64 :: "nat \<Rightarrow> int" where
  "as_i64 n = (if n < 2 ^ 63 then int n else int n - 2 ^ 64)"

primrec be_bytes :: "nat \<Rightarrow> nat \<Rightarrow> byte list" where
  "be_bytes 0 n = []"
| "be_bytes (Suc k) n = word_of_nat (n div 256 ^ k) # be_bytes k n"

definition be_val :: "byte list \<Rightarrow> nat" where
  "be_val bs = foldl (\<lambda>a b. a * 256 + unat b) 0 bs"

subsection \<open>Encoding\<close>

definition head :: "byte \<Rightarrow> nat \<Rightarrow> byte list" where
  "head major n =
     (let mt = push_bit 5 major in
      if n < 24 then [mt OR word_of_nat n]
      else if n < 0x100 then (mt OR 24) # be_bytes 1 n
      else if n < 0x10000 then (mt OR 25) # be_bytes 2 n
      else if n < 0x100000000 then (mt OR 26) # be_bytes 4 n
      else (mt OR 27) # be_bytes 8 n)"

lemma size_entry: "(k, v) \<in> set m \<Longrightarrow> size v < size (CMap m)"
  by (induction m) auto

lemma size_item: "v \<in> set a \<Longrightarrow> size v < size (CArray a)"
  by (induction a) auto

function (sequential) enc :: "cbor \<Rightarrow> byte list" where
  "enc (CInt n) = (if 0 \<le> n then head 0 (as_u64 n) else head 1 (as_u64 (- 1 - n)))"
| "enc (CBytes b) = head 2 (length b) @ b"
| "enc (CText s) = head 3 (length s) @ s"
| "enc (CArray a) = head 4 (length a) @ concat (map enc a)"
| "enc (CMap m) =
     head 5 (length m) @ concat (map (\<lambda>(k, v). head 0 (as_u64 k) @ enc v) (sort_key fst m))"
| "enc (CBool b) = [if b then 0xf5 else 0xf4]"
| "enc CNull = [0xf6]"
  by pat_completeness auto
termination
  by (relation "measure size") (use size_item size_entry in auto)

subsection \<open>Decoding\<close>

definition take_bytes :: "nat \<Rightarrow> byte list \<Rightarrow> (byte list \<times> byte list) option" where
  "take_bytes n bs = (if n \<le> length bs then Some (take n bs, drop n bs) else None)"

definition read_arg :: "byte list \<Rightarrow> nat \<Rightarrow> (nat \<times> byte list) option" where
  "read_arg bs info =
     (if info < 24 then Some (info, bs)
      else if info = 24 then map_option (\<lambda>(a, r). (be_val a, r)) (take_bytes 1 bs)
      else if info = 25 then map_option (\<lambda>(a, r). (be_val a, r)) (take_bytes 2 bs)
      else if info = 26 then map_option (\<lambda>(a, r). (be_val a, r)) (take_bytes 4 bs)
      else if info = 27 then map_option (\<lambda>(a, r). (be_val a, r)) (take_bytes 8 bs)
      else None)"

text \<open>\<open>String::from_utf8\<close>: the well-formed byte sequences of the Unicode standard.\<close>

definition cont :: "byte \<Rightarrow> bool" where
  "cont b \<longleftrightarrow> 0x80 \<le> b \<and> b \<le> 0xbf"

fun utf8_ok :: "byte list \<Rightarrow> bool" where
  "utf8_ok [] = True"
| "utf8_ok (a # bs) =
     (if a < 0x80 then utf8_ok bs
      else case bs of
        b # bs1 \<Rightarrow>
          if 0xc2 \<le> a \<and> a \<le> 0xdf then cont b \<and> utf8_ok bs1
          else (case bs1 of
            c # bs2 \<Rightarrow>
              if 0xe0 \<le> a \<and> a \<le> 0xef then
                cont b \<and> cont c \<and> (a = 0xe0 \<longrightarrow> 0xa0 \<le> b) \<and> (a = 0xed \<longrightarrow> b \<le> 0x9f) \<and> utf8_ok bs2
              else (case bs2 of
                d # bs3 \<Rightarrow> 0xf0 \<le> a \<and> a \<le> 0xf4 \<and> cont b \<and> cont c \<and> cont d \<and>
                  (a = 0xf0 \<longrightarrow> 0x90 \<le> b) \<and> (a = 0xf4 \<longrightarrow> b \<le> 0x8f) \<and> utf8_ok bs3
              | [] \<Rightarrow> False)
          | [] \<Rightarrow> False)
      | [] \<Rightarrow> False)"

primrec dec_items :: "(byte list \<Rightarrow> ('a \<times> byte list) option) \<Rightarrow> nat \<Rightarrow> byte list \<Rightarrow> ('a list \<times> byte list) option" where
  "dec_items d 0 bs = Some ([], bs)"
| "dec_items d (Suc n) bs =
     Option.bind (d bs) (\<lambda>(v, bs). map_option (\<lambda>(vs, bs). (v # vs, bs)) (dec_items d n bs))"

definition dec_entry :: "(byte list \<Rightarrow> (cbor \<times> byte list) option) \<Rightarrow> byte list \<Rightarrow> ((int \<times> cbor) \<times> byte list) option" where
  "dec_entry d bs =
     Option.bind (d bs) (\<lambda>(k, bs). Option.bind (d bs) (\<lambda>(v, bs).
       case k of CInt i \<Rightarrow> Some ((i, v), bs) | _ \<Rightarrow> None))"

primrec dec_item :: "nat \<Rightarrow> byte list \<Rightarrow> (cbor \<times> byte list) option" where
  "dec_item 0 data = None"
| "dec_item (Suc fuel) data =
     (case data of
        [] \<Rightarrow> None
      | initial # bs \<Rightarrow>
          (let major = unat (drop_bit 5 initial);
               info = unat (initial AND 0x1f)
           in if major = 0 then map_option (\<lambda>(n, r). (CInt (as_i64 n), r)) (read_arg bs info)
              else if major = 1 then map_option (\<lambda>(n, r). (CInt (- 1 - as_i64 n), r)) (read_arg bs info)
              else if major = 2 then
                Option.bind (read_arg bs info) (\<lambda>(n, r). map_option (\<lambda>(b, r). (CBytes b, r)) (take_bytes n r))
              else if major = 3 then
                Option.bind (read_arg bs info) (\<lambda>(n, r). Option.bind (take_bytes n r)
                  (\<lambda>(b, r). if utf8_ok b then Some (CText b, r) else None))
              else if major = 4 then
                Option.bind (read_arg bs info) (\<lambda>(n, r).
                  map_option (\<lambda>(a, r). (CArray a, r)) (dec_items (dec_item fuel) n r))
              else if major = 5 then
                Option.bind (read_arg bs info) (\<lambda>(n, r).
                  map_option (\<lambda>(m, r). (CMap m, r)) (dec_items (dec_entry (dec_item fuel)) n r))
              else if major = 7 then
                (if info = 20 then Some (CBool False, bs)
                 else if info = 21 then Some (CBool True, bs)
                 else if info = 22 then Some (CNull, bs)
                 else None)
              else None))"

definition decode :: "byte list \<Rightarrow> cbor option" where
  "decode data =
     (case dec_item (Suc (length data)) data of
        Some (v, []) \<Rightarrow> Some v
      | _ \<Rightarrow> None)"

subsection \<open>Arithmetic of the heads\<close>

lemma as_i64_u64: "- (2 ^ 63) \<le> i \<Longrightarrow> i < 2 ^ 63 \<Longrightarrow> as_i64 (as_u64 i) = i"
proof (cases "0 \<le> i")
  case True
  assume "i < 2 ^ 63"
  with True have "i mod 2 ^ 64 = i" by simp
  with True \<open>i < 2 ^ 63\<close> show ?thesis by (simp add: as_u64_def as_i64_def)
next
  case False
  assume "- (2 ^ 63) \<le> i"
  have "(i + 2 ^ 64) mod 2 ^ 64 = i mod 2 ^ 64" by (rule mod_add_self2)
  moreover have "(i + 2 ^ 64) mod 2 ^ 64 = i + 2 ^ 64"
    using False \<open>- (2 ^ 63) \<le> i\<close> by (intro mod_pos_pos_trivial) auto
  ultimately have "i mod 2 ^ 64 = i + 2 ^ 64" by simp
  with False \<open>- (2 ^ 63) \<le> i\<close> show ?thesis by (simp add: as_u64_def as_i64_def)
qed

lemma as_u64_bound: "as_u64 i < 2 ^ 64"
  by (simp add: as_u64_def nat_less_iff)

lemma length_be_bytes [simp]: "length (be_bytes k n) = k"
  by (induction k) simp_all

lemma be_val_snoc: "foldl (\<lambda>a b. a * 256 + unat b) acc bs = acc * 256 ^ length bs + be_val (bs :: byte list)"
proof (induction bs arbitrary: acc)
  case (Cons b bs)
  show ?case using Cons [of "acc * 256 + unat b"] Cons [of "unat b"]
    by (simp add: be_val_def algebra_simps)
qed (simp add: be_val_def)

lemma be_val_bytes: "be_val (be_bytes k n) = n mod 256 ^ k"
proof (induction k)
  case (Suc k)
  have "be_val (be_bytes (Suc k) n) = (n div 256 ^ k) mod 256 * 256 ^ k + n mod 256 ^ k"
    using be_val_snoc [of "unat (word_of_nat (n div 256 ^ k) :: byte)" "be_bytes k n"] Suc
    by (simp add: be_val_def unat_of_nat)
  also have "\<dots> = n mod 256 ^ Suc k"
    using mod_mult2_eq [of n "256 ^ k" 256] by (simp add: mult.commute)
  finally show ?case .
qed (simp add: be_val_def)

lemma head_byte:
  assumes "m < 8" "i < 32"
  shows "unat (drop_bit 5 (push_bit 5 (word_of_nat m) OR word_of_nat i :: byte)) = m"
    and "unat ((push_bit 5 (word_of_nat m) OR word_of_nat i :: byte) AND 0x1f) = i"
proof -
  have "\<forall>m \<in> set [0..<8]. \<forall>i \<in> set [0..<32].
      unat (drop_bit 5 (push_bit 5 (word_of_nat m) OR word_of_nat i :: byte)) = m \<and>
      unat ((push_bit 5 (word_of_nat m) OR word_of_nat i :: byte) AND 0x1f) = i"
    by code_simp
  with assms show "unat (drop_bit 5 (push_bit 5 (word_of_nat m) OR word_of_nat i :: byte)) = m"
    "unat ((push_bit 5 (word_of_nat m) OR word_of_nat i :: byte) AND 0x1f) = i" by auto
qed

lemma take_be_bytes: "take_bytes k (be_bytes k n @ r) = Some (be_bytes k n, r)"
  by (simp add: take_bytes_def)

lemma read_head:
  assumes "m < 8" "n < 2 ^ 64"
  obtains b bs where "head (word_of_nat m) n = b # bs" "unat (drop_bit 5 b) = m"
    "\<And>r. read_arg (bs @ r) (unat (b AND 0x1f)) = Some (n, r)"
proof -
  let ?b = "\<lambda>i. push_bit 5 (word_of_nat m) OR word_of_nat i :: byte"
  have arg: "read_arg (be_bytes k n @ r) i = Some (n, r)"
    if "(i, k) \<in> {(24, 1), (25, 2), (26, 4), (27, 8)}" "n < 256 ^ k" for k i r
    using that take_be_bytes [of k n r] be_val_bytes [of k n] by (auto simp: read_arg_def simp del: be_bytes.simps)
  consider (small) "n < 24" | (one) "24 \<le> n" "n < 0x100" | (two) "0x100 \<le> n" "n < 0x10000"
    | (four) "0x10000 \<le> n" "n < 0x100000000" | (eight) "0x100000000 \<le> n" by linarith
  then show thesis
  proof cases
    case small
    show thesis
    proof (rule that)
      show "head (word_of_nat m) n = ?b n # []" using small by (simp add: head_def)
      show "unat (drop_bit 5 (?b n)) = m" using head_byte(1) [OF assms(1), of n] small by simp
      show "read_arg ([] @ r) (unat (?b n AND 0x1f)) = Some (n, r)" for r
        using head_byte(2) [OF assms(1), of n] small by (simp add: read_arg_def)
    qed
  next
    case one
    show thesis
    proof (rule that)
      show "head (word_of_nat m) n = ?b 24 # be_bytes 1 n" using one by (simp add: head_def)
      show "unat (drop_bit 5 (?b 24)) = m" using head_byte(1) [OF assms(1), of 24] by simp
      show "read_arg (be_bytes 1 n @ r) (unat (?b 24 AND 0x1f)) = Some (n, r)" for r
        using arg [of 24 1 r] one head_byte(2) [OF assms(1), of 24] by (simp del: be_bytes.simps)
    qed
  next
    case two
    show thesis
    proof (rule that)
      show "head (word_of_nat m) n = ?b 25 # be_bytes 2 n" using two by (simp add: head_def)
      show "unat (drop_bit 5 (?b 25)) = m" using head_byte(1) [OF assms(1), of 25] by simp
      show "read_arg (be_bytes 2 n @ r) (unat (?b 25 AND 0x1f)) = Some (n, r)" for r
        using arg [of 25 2 r] two head_byte(2) [OF assms(1), of 25] by (simp del: be_bytes.simps)
    qed
  next
    case four
    show thesis
    proof (rule that)
      show "head (word_of_nat m) n = ?b 26 # be_bytes 4 n" using four by (simp add: head_def)
      show "unat (drop_bit 5 (?b 26)) = m" using head_byte(1) [OF assms(1), of 26] by simp
      show "read_arg (be_bytes 4 n @ r) (unat (?b 26 AND 0x1f)) = Some (n, r)" for r
        using arg [of 26 4 r] four head_byte(2) [OF assms(1), of 26] by (simp del: be_bytes.simps)
    qed
  next
    case eight
    show thesis
    proof (rule that)
      show "head (word_of_nat m) n = ?b 27 # be_bytes 8 n" using eight by (simp add: head_def)
      show "unat (drop_bit 5 (?b 27)) = m" using head_byte(1) [OF assms(1), of 27] by simp
      show "read_arg (be_bytes 8 n @ r) (unat (?b 27 AND 0x1f)) = Some (n, r)" for r
        using arg [of 27 8 r] assms(2) head_byte(2) [OF assms(1), of 27] by (simp del: be_bytes.simps)
    qed
  qed
qed

subsection \<open>Round trip\<close>

text \<open>The values a peer can rebuild: integers and keys are \<open>i64\<close>s, text is UTF-8.\<close>

definition i64_ok :: "int \<Rightarrow> bool" where
  "i64_ok i \<longleftrightarrow> - (2 ^ 63) \<le> i \<and> i < 2 ^ 63"

function (sequential) cbor_ok :: "cbor \<Rightarrow> bool" where
  "cbor_ok (CInt n) = i64_ok n"
| "cbor_ok (CBytes b) = (length b < 2 ^ 64)"
| "cbor_ok (CText s) = (length s < 2 ^ 64 \<and> utf8_ok s)"
| "cbor_ok (CArray a) = (length a < 2 ^ 64 \<and> (\<forall>v \<in> set a. cbor_ok v))"
| "cbor_ok (CMap m) = (length m < 2 ^ 64 \<and> (\<forall>(k, v) \<in> set m. i64_ok k \<and> cbor_ok v))"
| "cbor_ok v = True"
  by pat_completeness auto
termination
  by (relation "measure size") (use size_item size_entry in auto)

text \<open>The normal form of a value: every map in the order of its keys.\<close>

function (sequential) canon :: "cbor \<Rightarrow> cbor" where
  "canon (CArray a) = CArray (map canon a)"
| "canon (CMap m) = CMap (map (\<lambda>(k, v). (k, canon v)) (sort_key fst m))"
| "canon v = v"
  by pat_completeness auto
termination
  by (relation "measure size") (use size_item size_entry in auto)

lemma dec_items_enc:
  "(\<And>x r. x \<in> set xs \<Longrightarrow> d (e x @ r) = Some (f x, r)) \<Longrightarrow>
   dec_items d (length xs) (concat (map e xs) @ r) = Some (map f xs, r)"
  by (induction xs) simp_all

lemma take_bytes_app [simp]: "take_bytes (length b) (b @ r) = Some (b, r)"
  by (simp add: take_bytes_def)

lemma length_concat_member: "x \<in> set xss \<Longrightarrow> length x \<le> length (concat xss)"
  by (induction xss) auto

lemma enc_entry_shorter:
  "(k, v) \<in> set m \<Longrightarrow>
   length (head 0 (as_u64 k) @ enc v) \<le> length (concat (map (\<lambda>(k, v). head 0 (as_u64 k) @ enc v) (sort_key fst m)))"
  by (rule length_concat_member) force

lemma dec_head_int:
  assumes "n < 2 ^ 64"
  shows "dec_item (Suc fuel) (head 0 n @ r) = Some (CInt (as_i64 n), r)"
    and "dec_item (Suc fuel) (head 1 n @ r) = Some (CInt (- 1 - as_i64 n), r)"
proof -
  obtain b bs where "head 0 n = b # bs" "unat (drop_bit 5 b) = 0"
    "\<And>r. read_arg (bs @ r) (unat (b AND 0x1f)) = Some (n, r)"
    using read_head [of 0 n] assms by auto
  then show "dec_item (Suc fuel) (head 0 n @ r) = Some (CInt (as_i64 n), r)" by (simp add: Let_def)
  obtain b bs where "head 1 n = b # bs" "unat (drop_bit 5 b) = 1"
    "\<And>r. read_arg (bs @ r) (unat (b AND 0x1f)) = Some (n, r)"
    using read_head [of 1 n] assms by auto
  then show "dec_item (Suc fuel) (head 1 n @ r) = Some (CInt (- 1 - as_i64 n), r)" by (simp add: Let_def)
qed

lemma dec_head_i64:
  assumes "i64_ok n"
  shows "dec_item (Suc fuel) (head 0 (as_u64 n) @ r) = Some (CInt n, r)"
    and "dec_item (Suc fuel) (head 1 (as_u64 (- 1 - n)) @ r) = Some (CInt n, r)"
proof -
  have "as_i64 (as_u64 n) = n" "as_i64 (as_u64 (- 1 - n)) = - 1 - n"
    using assms by (auto simp: i64_ok_def intro!: as_i64_u64)
  then show "dec_item (Suc fuel) (head 0 (as_u64 n) @ r) = Some (CInt n, r)"
    "dec_item (Suc fuel) (head 1 (as_u64 (- 1 - n)) @ r) = Some (CInt n, r)"
    unfolding dec_head_int [OF as_u64_bound] by simp_all
qed

lemma head_nonempty: "1 \<le> length (head m n)"
  by (simp add: head_def Let_def)

lemma dec_enc: "cbor_ok v \<Longrightarrow> length (enc v) \<le> fuel \<Longrightarrow> dec_item fuel (enc v @ r) = Some (canon v, r)"
proof (induction v arbitrary: fuel r rule: enc.induct)
  case (1 n)
  then obtain g where "fuel = Suc g"
    using head_nonempty [of 0 "as_u64 n"] head_nonempty [of 1 "as_u64 (- 1 - n)"]
    by (cases fuel) (auto split: if_splits)
  with 1 show ?case by (simp add: dec_head_i64 del: dec_item.simps)
next
  case (2 b)
  then obtain g where g: "fuel = Suc g" using head_nonempty [of 2 "length b"] by (cases fuel) auto
  obtain h hs where "head 2 (length b) = h # hs" "unat (drop_bit 5 h) = 2"
    "\<And>r. read_arg (hs @ r) (unat (h AND 0x1f)) = Some (length b, r)"
    using read_head [of 2 "length b"] 2 by auto
  with g show ?case by (simp add: Let_def)
next
  case (3 s)
  then obtain g where g: "fuel = Suc g" using head_nonempty [of 3 "length s"] by (cases fuel) auto
  obtain h hs where "head 3 (length s) = h # hs" "unat (drop_bit 5 h) = 3"
    "\<And>r. read_arg (hs @ r) (unat (h AND 0x1f)) = Some (length s, r)"
    using read_head [of 3 "length s"] 3 by auto
  with g 3 show ?case by (simp add: Let_def)
next
  case (4 a)
  then obtain g where g: "fuel = Suc g" using head_nonempty [of 4 "length a"] by (cases fuel) auto
  obtain h hs where h: "head 4 (length a) = h # hs" "unat (drop_bit 5 h) = 4"
    "\<And>r. read_arg (hs @ r) (unat (h AND 0x1f)) = Some (length a, r)"
    using read_head [of 4 "length a"] 4 by auto
  have "dec_item g (enc x @ r) = Some (canon x, r)" if "x \<in> set a" for x r
  proof (rule "4.IH" [OF that])
    show "cbor_ok x" using "4.prems"(1) that by simp
    show "length (enc x) \<le> g"
      using "4.prems"(2) g h length_concat_member [of "enc x" "map enc a"] that by simp
  qed
  then have "dec_items (dec_item g) (length a) (concat (map enc a) @ r) = Some (map canon a, r)"
    by (rule dec_items_enc)
  with g h show ?case by (simp add: Let_def)
next
  case (5 m)
  then obtain g where g: "fuel = Suc g" using head_nonempty [of 5 "length m"] by (cases fuel) auto
  obtain h hs where h: "head 5 (length m) = h # hs" "unat (drop_bit 5 h) = 5"
    "\<And>r. read_arg (hs @ r) (unat (h AND 0x1f)) = Some (length m, r)"
    using read_head [of 5 "length m"] 5 by auto
  let ?e = "\<lambda>(k, v). head 0 (as_u64 k) @ enc v"
  have "dec_entry (dec_item g) (?e kv @ r) = Some ((\<lambda>(k, v). (k, canon v)) kv, r)"
    if "kv \<in> set (sort_key fst m)" for kv r
  proof -
    obtain k v where "kv = (k, v)" by (cases kv)
    with that have kv: "kv = (k, v)" "(k, v) \<in> set m" by auto
    have ok: "i64_ok k" "cbor_ok v" using "5.prems"(1) kv(2) by auto
    have len: "length (head 0 (as_u64 k)) + length (enc v) \<le> g"
      using enc_entry_shorter [OF kv(2)] "5.prems"(2) g h by simp
    have "dec_item g (enc v @ r) = Some (canon v, r)"
      using "5.IH" [of "(k, v)" k v, OF _ _ ok(2)] kv(2) len by simp
    moreover have "dec_item g (head 0 (as_u64 k) @ enc v @ r) = Some (CInt k, enc v @ r)"
      using len head_nonempty [of 0 "as_u64 k"] ok(1)
      by (cases g) (auto simp: dec_head_i64 simp del: dec_item.simps)
    ultimately show ?thesis by (simp add: kv dec_entry_def)
  qed
  then have "dec_items (dec_entry (dec_item g)) (length (sort_key fst m)) (concat (map ?e (sort_key fst m)) @ r) =
      Some (map (\<lambda>(k, v). (k, canon v)) (sort_key fst m), r)"
    by (rule dec_items_enc)
  with g h show ?case by (simp add: Let_def)
qed (case_tac fuel; simp add: Let_def; code_simp?)+

text \<open>A value that fits the wire is rebuilt from its bytes, with every map in the order of its keys.\<close>

theorem cbor_round_trip: "cbor_ok v \<Longrightarrow> decode (enc v) = Some (canon v)"
  using dec_enc [of v "Suc (length (enc v))" "[]"] by (simp add: decode_def del: dec_item.simps)

definition demo_cbor :: cbor where
  "demo_cbor = CMap [(300, CArray [CInt (- 70000), CBool True]), (- 1, CText [0xc3, 0xa9])]"

theorem cbor_round_trip_witness:
  "decode (enc demo_cbor) =
     Some (CMap [(- 1, CText [0xc3, 0xa9]), (300, CArray [CInt (- 70000), CBool True])])"
proof -
  have "cbor_ok demo_cbor" by (simp add: demo_cbor_def i64_ok_def cont_def)
  from cbor_round_trip [OF this] show ?thesis by (simp add: demo_cbor_def)
qed

lemma enc_canon: "enc (canon v) = enc v"
proof (induction v rule: canon.induct)
  case (1 a)
  then have "map (enc \<circ> canon) a = map enc a" by simp
  then show ?case by (simp del: map_eq_conv)
next
  case (2 m)
  let ?c = "\<lambda>(k, v). (k, canon v)" and ?e = "\<lambda>(k, v). head 0 (as_u64 k) @ enc v"
  have "map fst (map ?c (sort_key fst m)) = map fst (sort_key fst m)" by auto
  then have "sorted (map fst (map ?c (sort_key fst m)))" by (metis sorted_sort_key)
  then have "sort_key fst (map ?c (sort_key fst m)) = map ?c (sort_key fst m)"
    by (rule sort_key_id_if_sorted)
  moreover have "map (?e \<circ> ?c) (sort_key fst m) = map ?e (sort_key fst m)" using 2 by auto
  ultimately show ?case by (simp del: map_eq_conv)
qed simp_all

text \<open>The encoding is deterministic: two values have the same bytes exactly when they differ in the
  order of map entries only.\<close>

theorem cbor_deterministic:
  "cbor_ok v \<Longrightarrow> cbor_ok w \<Longrightarrow> enc v = enc w \<longleftrightarrow> canon v = canon w"
proof
  assume ok: "cbor_ok v" "cbor_ok w"
  show "canon v = canon w" if "enc v = enc w"
    using dec_enc [OF ok(1) order_refl, of "[]"] dec_enc [OF ok(2) order_refl, of "[]"] that by simp
  show "enc v = enc w" if "canon v = canon w" using that enc_canon [of v] enc_canon [of w] by simp
qed

theorem cbor_deterministic_witness:
  "enc (CMap [(2, CNull), (1, CInt 5)]) = enc (CMap [(1, CInt 5), (2, CNull)])"
  by (rule iffD2 [OF cbor_deterministic]) (simp_all add: i64_ok_def)

text \<open>Nested values are told apart from what follows them, so the codec is a prefix code on normal forms.\<close>

interpretation wire: prefix_code enc "\<lambda>v. cbor_ok v \<and> canon v = v"
proof
  show "v = w \<and> r = s" if "cbor_ok v \<and> canon v = v" "cbor_ok w \<and> canon w = w" "enc v @ r = enc w @ s"
    for v w r s
  proof -
    let ?n = "length (enc v) + length (enc w)"
    have "dec_item ?n (enc v @ r) = Some (canon v, r)" by (rule dec_enc [OF that(1) [THEN conjunct1]]) simp
    moreover have "dec_item ?n (enc w @ s) = Some (canon w, s)" by (rule dec_enc [OF that(2) [THEN conjunct1]]) simp
    ultimately have "canon v = canon w \<and> r = s" unfolding that(3) by (metis option.inject prod.inject)
    then show ?thesis using that(1) that(2) by metis
  qed
  show "enc v \<noteq> []" for v
    by (cases v) (simp_all add: head_def Let_def)
qed

end
