(* ===== verification/Constrain.thy ===== *)
theory Constrain
  imports Std_Str Std_Coll
begin

section \<open>razel-rulepack: the feature interpreter of the cc toolchain\<close>

text \<open>
  \<^verbatim>\<open>crates/razel-rulepack/src/constrain.rs\<close>: the selection of the enabled features and the expansion of
  their flags into a command line.  The variables of an action are an ordered map; the enabled features
  are an ordered set while they are selected and a list in configuration order afterwards.
\<close>

datatype var_value = Scalar string | Sequence "string list"

type_synonym vars = "(string, var_value) bmap"

datatype flag_group = FlagGroup
  (fg_flags: "string list")
  (fg_groups: "flag_group list")
  (iterate_over: "string option")
  (expand_if_available: "string list")
  (expand_if_not_available: "string list")
  (expand_if_true: "string option")
  (expand_if_false: "string option")
  (expand_if_equal: "(string \<times> string) option")

record with_features =
  wf_features :: "string list"
  not_features :: "string list"

record flag_set =
  fs_actions :: "string list"
  fs_with :: "with_features list"
  fs_groups :: "flag_group list"

record feature =
  ft_name :: string
  ft_enabled :: bool
  flag_sets :: "flag_set list"
  implies :: "string list"
  requires :: "string list list"
  provides :: "string list"

record cc_tool =
  ct_path :: string
  ct_with :: "with_features list"

record action_config =
  action_name :: string
  ac_tools :: "cc_tool list"

record feature_config =
  features :: "feature list"
  action_configs :: "action_config list"

definition fc_get :: "feature_config \<Rightarrow> string \<Rightarrow> feature option" where
  "fc_get cfg name = List.find (\<lambda>f. ft_name f = name) (features cfg)"

subsection \<open>Selection\<close>

text \<open>One round of the closure: the names are the snapshot the loop runs over.\<close>

fun imply_all :: "string list \<Rightarrow> string bset \<Rightarrow> bool \<Rightarrow> string bset \<times> bool" where
  "imply_all [] enabled added = (enabled, added)"
| "imply_all (i # imps) enabled added = imply_all imps (bs_insert i enabled) (added \<or> i \<notin> set enabled)"

fun implies_pass :: "feature_config \<Rightarrow> string list \<Rightarrow> string bset \<Rightarrow> bool \<Rightarrow> string bset \<times> bool" where
  "implies_pass cfg [] enabled added = (enabled, added)"
| "implies_pass cfg (name # names) enabled added =
     (case fc_get cfg name of
        None \<Rightarrow> implies_pass cfg names enabled added
      | Some f \<Rightarrow>
          (case imply_all (implies f) enabled added of
             (enabled, added) \<Rightarrow> implies_pass cfg names enabled added))"

lemma imply_all_eq:
  "imply_all imps en added = (en', added') \<Longrightarrow>
   set en' = set en \<union> set imps \<and> (added' \<longleftrightarrow> added \<or> \<not> set imps \<subseteq> set en)"
  by (induction imps en added rule: imply_all.induct) auto

definition implied_by :: "feature_config \<Rightarrow> string \<Rightarrow> string list" where
  "implied_by cfg name = (case fc_get cfg name of None \<Rightarrow> [] | Some f \<Rightarrow> implies f)"

lemma implies_pass_eq:
  "implies_pass cfg names en added = (en', added') \<Longrightarrow>
   set en' = set en \<union> (\<Union>n \<in> set names. set (implied_by cfg n)) \<and> (added' \<longleftrightarrow> added \<or> set en' \<noteq> set en)"
proof (induction cfg names en added rule: implies_pass.induct)
  case (1 cfg enabled added)
  then show ?case by simp
next
  case (2 cfg name names enabled added)
  show ?case
  proof (cases "fc_get cfg name")
    case None
    with 2 show ?thesis by (simp add: implied_by_def)
  next
    case (Some f)
    obtain en1 ad1 where p: "imply_all (implies f) enabled added = (en1, ad1)" by force
    note e1 = imply_all_eq [OF p]
    have "set en' = set en1 \<union> (\<Union>n \<in> set names. set (implied_by cfg n)) \<and> (added' \<longleftrightarrow> ad1 \<or> set en' \<noteq> set en1)"
      using "2.IH"(2) [OF Some p [symmetric]] "2.prems" Some p by simp
    with e1 Some show ?thesis by (auto simp: implied_by_def)
  qed
qed

definition all_implied :: "feature_config \<Rightarrow> string set" where
  "all_implied cfg = (\<Union>f \<in> set (features cfg). set (implies f))"

lemma fc_get_Some: "fc_get cfg name = Some f \<Longrightarrow> f \<in> set (features cfg) \<and> ft_name f = name"
  unfolding fc_get_def find_Some_iff by (metis nth_mem)

lemma fc_get_None: "fc_get cfg name = None \<longleftrightarrow> name \<notin> ft_name ` set (features cfg)"
  unfolding fc_get_def find_None_iff by auto

lemma implied_by_all: "set (implied_by cfg n) \<subseteq> all_implied cfg"
  using fc_get_Some [of cfg n] unfolding implied_by_def all_implied_def by (cases "fc_get cfg n") auto

function implies_loop :: "feature_config \<Rightarrow> string bset \<Rightarrow> string bset" where
  "implies_loop cfg enabled =
     (case implies_pass cfg enabled enabled False of
        (enabled, added) \<Rightarrow> if added then implies_loop cfg enabled else enabled)"
  by pat_completeness auto
termination
proof (relation "measure (\<lambda>(cfg, en). card (all_implied cfg - set en))", goal_cases)
  case 1
  show ?case by simp
next
  case (2 cfg en en' added)
  then have p: "implies_pass cfg en en False = (en', True)" by simp
  have en': "set en' = set en \<union> (\<Union>n \<in> set en. set (implied_by cfg n))" "set en' \<noteq> set en"
    using implies_pass_eq [OF p] by (blast, blast)
  then have "set en' \<subseteq> set en \<union> all_implied cfg" "set en \<subset> set en'" using implied_by_all by blast+
  then have "all_implied cfg - set en' \<subset> all_implied cfg - set en" by blast
  then show ?case by (simp add: psubset_card_mono all_implied_def)
qed

declare implies_loop.simps [simp del]

definition met :: "feature_config \<Rightarrow> string set \<Rightarrow> string \<Rightarrow> bool" where
  "met cfg E name =
     (case fc_get cfg name of
        None \<Rightarrow> True
      | Some f \<Rightarrow> requires f = [] \<or> list_ex (list_all (\<lambda>r. r \<in> E)) (requires f))"

fun requires_pass :: "feature_config \<Rightarrow> string list \<Rightarrow> string bset \<Rightarrow> bool \<Rightarrow> string bset \<times> bool" where
  "requires_pass cfg [] enabled removed = (enabled, removed)"
| "requires_pass cfg (name # names) enabled removed =
     (if met cfg (set enabled) name then requires_pass cfg names enabled removed
      else requires_pass cfg names (removeAll name enabled) True)"

lemma requires_pass_subset:
  "requires_pass cfg names en rem = (en', rem') \<Longrightarrow> set en' \<subseteq> set en \<and> (rem \<longrightarrow> rem')"
  by (induction cfg names en rem rule: requires_pass.induct) (auto split: if_splits)

lemma requires_pass_removed:
  "requires_pass cfg names en False = (en', True) \<Longrightarrow> set names \<subseteq> set en \<Longrightarrow> set en' \<subset> set en"
proof (induction names arbitrary: en)
  case (Cons n names)
  show ?case
  proof (cases "met cfg (set en) n")
    case True
    with Cons show ?thesis by simp
  next
    case False
    then have "requires_pass cfg names (removeAll n en) True = (en', True)" using Cons.prems by simp
    from requires_pass_subset [OF this] Cons.prems(2) show ?thesis by auto
  qed
qed simp

lemma requires_pass_kept:
  "requires_pass cfg names en False = (en', False) \<Longrightarrow> en' = en \<and> (\<forall>n \<in> set names. met cfg (set en) n)"
proof (induction names)
  case (Cons n names)
  show ?case
  proof (cases "met cfg (set en) n")
    case True
    with Cons show ?thesis by simp
  next
    case False
    then have "requires_pass cfg names (removeAll n en) True = (en', False)" using Cons.prems by simp
    from requires_pass_subset [OF this] show ?thesis by simp
  qed
qed simp

function requires_loop :: "feature_config \<Rightarrow> string bset \<Rightarrow> string bset" where
  "requires_loop cfg enabled =
     (case requires_pass cfg enabled enabled False of
        (enabled, removed) \<Rightarrow> if removed then requires_loop cfg enabled else enabled)"
  by pat_completeness auto
termination
proof (relation "measure (\<lambda>(cfg, en). card (set en))", goal_cases)
  case 1
  show ?case by simp
next
  case (2 cfg en en' removed)
  then have "requires_pass cfg en en False = (en', True)" by simp
  from requires_pass_removed [OF this] show ?case by (simp add: psubset_card_mono)
qed

declare requires_loop.simps [simp del]

definition select :: "feature_config \<Rightarrow> string list \<Rightarrow> string list" where
  "select cfg requested =
     (let enabled = bs_of (map ft_name (filter ft_enabled (features cfg)));
          enabled = bs_extend enabled (filter (\<lambda>r. fc_get cfg r \<noteq> None) requested);
          enabled = implies_loop cfg enabled;
          enabled = requires_loop cfg enabled
      in filter (\<lambda>n. n \<in> set enabled) (map ft_name (features cfg)))"

subsection \<open>Expansion\<close>

definition with_features_ok :: "with_features list \<Rightarrow> string list \<Rightarrow> bool" where
  "with_features_ok sets enabled \<longleftrightarrow>
     sets = [] \<or>
     list_ex (\<lambda>w. list_all (\<lambda>f. f \<in> set enabled) (wf_features w) \<and>
                  list_all (\<lambda>f. f \<notin> set enabled) (not_features w)) sets"

definition has_var :: "vars \<Rightarrow> string \<Rightarrow> bool" where
  "has_var vars v \<longleftrightarrow> bm_get vars v \<noteq> None"

definition gates_ok :: "flag_group \<Rightarrow> vars \<Rightarrow> bool" where
  "gates_ok fg vars \<longleftrightarrow>
     list_all (has_var vars) (expand_if_available fg) \<and>
     \<not> list_ex (has_var vars) (expand_if_not_available fg) \<and>
     (case expand_if_true fg of None \<Rightarrow> True | Some v \<Rightarrow> has_var vars v) \<and>
     (case expand_if_false fg of None \<Rightarrow> True | Some v \<Rightarrow> \<not> has_var vars v) \<and>
     (case expand_if_equal fg of
        None \<Rightarrow> True
      | Some (var, val) \<Rightarrow> (case bm_get vars var of Some (Scalar s) \<Rightarrow> s = val | _ \<Rightarrow> False))"

lemma str_find_le: "str_find s p = Some i \<Longrightarrow> i + length p \<le> length s"
proof -
  assume "str_find s p = Some i"
  then have "take i s @ p @ drop (i + length p) s = s" by (rule str_find_Some)
  then have "min (length s) i + (length p + (length s - (i + length p))) = length s"
    by (metis length_append length_take length_drop)
  moreover have "i \<le> length s"
    using \<open>str_find s p = Some i\<close> by (induction s arbitrary: i) (auto split: if_splits)
  ultimately show "i + length p \<le> length s" by simp
qed

lemma split_once_shorter: "split_once (drop n s) c = Some (a, b) \<Longrightarrow> n \<le> length s \<Longrightarrow> length b < length s"
  using split_once_Some [of "drop n s" c a b] length_drop [of n s] by (auto simp del: length_drop)

function substitute :: "string \<Rightarrow> vars \<Rightarrow> string" where
  "substitute rest vars =
     (case str_find rest ''%{'' of
        None \<Rightarrow> rest
      | Some i \<Rightarrow>
          take i rest @
          (let after = drop (i + 2) rest
           in case split_once after (CHR ''}'') of
                Some (name, tail) \<Rightarrow>
                  (case bm_get vars name of Some (Scalar v) \<Rightarrow> v | _ \<Rightarrow> []) @ substitute tail vars
              | None \<Rightarrow> ''%{'' @ substitute after vars))"
  by pat_completeness auto
termination
  by (relation "measure (\<lambda>(rest, vars). length rest)") (auto dest!: str_find_le dest: split_once_shorter)

declare substitute.simps [simp del]

lemma fg_groups_smaller: "h \<in> set (fg_groups g) \<Longrightarrow> size h < size g"
  by (cases g) (auto simp: size_list_estimation' less_Suc_eq_le intro: trans_le_add2 trans_le_add1)

function (sequential) expand_flag_group :: "flag_group \<Rightarrow> vars \<Rightarrow> string list"
  and emit :: "flag_group \<Rightarrow> vars \<Rightarrow> string list" where
  "expand_flag_group fg vars =
     (case iterate_over fg of
        Some seq \<Rightarrow>
          (case bm_get vars seq of
             Some (Sequence items) \<Rightarrow> concat (map (\<lambda>item. emit fg (bm_insert seq (Scalar item) vars)) items)
           | _ \<Rightarrow> [])
      | None \<Rightarrow> emit fg vars)"
| "emit fg vars =
     (if gates_ok fg vars then
        map (\<lambda>flag. substitute flag vars) (fg_flags fg) @
        concat (map (\<lambda>nested. expand_flag_group nested vars) (fg_groups fg))
      else [])"
  by pat_completeness auto
termination
  by (relation "measure (\<lambda>x. case x of Inl (fg, _) \<Rightarrow> 2 * size fg + 1 | Inr (fg, _) \<Rightarrow> 2 * size fg)")
    (auto dest: fg_groups_smaller)

definition flag_set_flags :: "string list \<Rightarrow> string \<Rightarrow> vars \<Rightarrow> flag_set \<Rightarrow> string list" where
  "flag_set_flags enabled act vars fs =
     (if act \<notin> set (fs_actions fs) \<or> \<not> with_features_ok (fs_with fs) enabled then []
      else concat (map (\<lambda>fg. expand_flag_group fg vars) (fs_groups fs)))"

definition command_line :: "feature_config \<Rightarrow> string list \<Rightarrow> string \<Rightarrow> vars \<Rightarrow> string list" where
  "command_line cfg enabled act vars =
     concat (map (\<lambda>name. case fc_get cfg name of
                            None \<Rightarrow> []
                          | Some f \<Rightarrow> concat (map (flag_set_flags enabled act vars) (flag_sets f))) enabled)"

definition tool_path :: "feature_config \<Rightarrow> string list \<Rightarrow> string \<Rightarrow> string option" where
  "tool_path cfg enabled act =
     Option.bind (List.find (\<lambda>a. action_name a = act) (action_configs cfg))
       (\<lambda>ac. map_option ct_path (List.find (\<lambda>t. with_features_ok (ct_with t) enabled) (ac_tools ac)))"

definition full_command_line :: "feature_config \<Rightarrow> string list \<Rightarrow> string \<Rightarrow> vars \<Rightarrow> string list" where
  "full_command_line cfg enabled act vars =
     (case tool_path cfg enabled act of None \<Rightarrow> [] | Some t \<Rightarrow> [t]) @ command_line cfg enabled act vars"

subsection \<open>What the selection computes\<close>

definition imp_rel :: "feature_config \<Rightarrow> (string \<times> string) set" where
  "imp_rel cfg = {(n, m). m \<in> set (implied_by cfg n)}"

definition stable :: "feature_config \<Rightarrow> string set \<Rightarrow> bool" where
  "stable cfg E \<longleftrightarrow> (\<forall>n \<in> E. met cfg E n)"

definition greatest_stable :: "feature_config \<Rightarrow> string set \<Rightarrow> string set" where
  "greatest_stable cfg C = \<Union> {E. E \<subseteq> C \<and> stable cfg E}"

definition seeds :: "feature_config \<Rightarrow> string list \<Rightarrow> string set" where
  "seeds cfg requested =
     {ft_name f | f. f \<in> set (features cfg) \<and> ft_enabled f} \<union> (set requested \<inter> ft_name ` set (features cfg))"

lemma implies_loop_closure: "set (implies_loop cfg en) = (imp_rel cfg)\<^sup>* `` set en"
proof (induction cfg en rule: implies_loop.induct)
  case (1 cfg en)
  obtain en' added where p: "implies_pass cfg en en False = (en', added)" by force
  have pass: "set en' = set en \<union> (\<Union>n \<in> set en. set (implied_by cfg n))" "added \<longleftrightarrow> set en' \<noteq> set en"
    using implies_pass_eq [OF p] by (blast, blast)
  then have step: "set en' = set en \<union> imp_rel cfg `` set en" by (auto simp: imp_rel_def)
  show ?case
  proof (cases added)
    case True
    have "(imp_rel cfg)\<^sup>* `` set en' = (imp_rel cfg)\<^sup>* `` set en"
      unfolding step by (auto intro: converse_rtrancl_into_rtrancl)
    with True p 1 show ?thesis by (subst implies_loop.simps) simp
  next
    case False
    with pass step have "imp_rel cfg `` set en \<subseteq> set en" by blast
    then have "(imp_rel cfg)\<^sup>* `` set en = set en" by (rule Image_closed_trancl)
    with False p pass(2) show ?thesis by (subst implies_loop.simps) simp
  qed
qed

lemma met_mono: "met cfg E n \<Longrightarrow> E \<subseteq> F \<Longrightarrow> met cfg F n"
  by (auto simp: met_def list_ex_iff list_all_iff split: option.splits)

lemma stable_greatest: "stable cfg (greatest_stable cfg C)"
  unfolding stable_def greatest_stable_def by (blast intro: met_mono)

lemma requires_pass_keeps:
  "stable cfg E \<Longrightarrow> E \<subseteq> set en \<Longrightarrow> E \<subseteq> set (fst (requires_pass cfg names en rem))"
proof (induction cfg names en rem rule: requires_pass.induct)
  case (2 cfg n names en rem)
  show ?case
  proof (cases "met cfg (set en) n")
    case True
    with 2 show ?thesis by simp
  next
    case False
    with "2.prems" met_mono [of cfg E n "set en"] have "n \<notin> E" by (auto simp: stable_def)
    with "2.prems" have "E \<subseteq> set (removeAll n en)" by auto
    with 2 False show ?thesis by simp
  qed
qed simp

lemma requires_loop_greatest: "set (requires_loop cfg en) = greatest_stable cfg (set en)"
proof (induction cfg en rule: requires_loop.induct)
  case (1 cfg en)
  obtain en' rem where p: "requires_pass cfg en en False = (en', rem)" by force
  have keeps: "E \<subseteq> set en'" if "stable cfg E" "E \<subseteq> set en" for E
    using requires_pass_keeps [OF that, of en False] p by simp
  show ?case
  proof (cases rem)
    case True
    have "set en' \<subseteq> set en" using requires_pass_subset [OF p] by blast
    with keeps have "{E. E \<subseteq> set en' \<and> stable cfg E} = {E. E \<subseteq> set en \<and> stable cfg E}" by blast
    then have "greatest_stable cfg (set en') = greatest_stable cfg (set en)" by (simp add: greatest_stable_def)
    with True p 1 show ?thesis by (subst requires_loop.simps) simp
  next
    case False
    with requires_pass_kept [of cfg en en en'] p have "en' = en" "stable cfg (set en)"
      by (auto simp: stable_def)
    then have "greatest_stable cfg (set en) = set en" unfolding greatest_stable_def by blast
    with False p \<open>en' = en\<close> show ?thesis by (subst requires_loop.simps) simp
  qed
qed

text \<open>C12: The enabled features are, in configuration order, the largest set of features in which every
  requirement is met, within the closure under \<open>implies\<close> of the default and the requested features.\<close>

theorem select_exact:
  "select cfg requested =
     filter (\<lambda>n. n \<in> greatest_stable cfg ((imp_rel cfg)\<^sup>* `` seeds cfg requested)) (map ft_name (features cfg))"
proof -
  have "set (bs_extend (bs_of (map ft_name (filter ft_enabled (features cfg))))
          (filter (\<lambda>r. fc_get cfg r \<noteq> None) requested)) = seeds cfg requested"
    by (auto simp: seeds_def fc_get_None coll_simps simp del: not_None_eq)
  then show ?thesis by (simp add: select_def Let_def requires_loop_greatest implies_loop_closure)
qed

subsection \<open>Templates\<close>

text \<open>A flag template written as pieces: literal text without a percent sign, and references to variables.\<close>

datatype piece = Lit string | Ref string

fun piece_text :: "piece \<Rightarrow> string" where
  "piece_text (Lit l) = l"
| "piece_text (Ref v) = ''%{'' @ v @ ''}''"

fun piece_ok :: "piece \<Rightarrow> bool" where
  "piece_ok (Lit l) \<longleftrightarrow> CHR ''%'' \<notin> set l"
| "piece_ok (Ref v) \<longleftrightarrow> CHR ''}'' \<notin> set v"

fun piece_value :: "vars \<Rightarrow> piece \<Rightarrow> string" where
  "piece_value vars (Lit l) = l"
| "piece_value vars (Ref v) = (case bm_get vars v of Some (Scalar x) \<Rightarrow> x | _ \<Rightarrow> [])"

lemma str_find_ref: "CHR ''%'' \<notin> set l \<Longrightarrow> str_find (l @ ''%{'' @ r) ''%{'' = Some (length l)"
  by (induction l) (auto simp: starts_with_def)

lemma substitute_lit_ref:
  "CHR ''%'' \<notin> set l \<Longrightarrow> CHR ''}'' \<notin> set v \<Longrightarrow>
   substitute (l @ ''%{'' @ v @ ''}'' @ r) vars = l @ piece_value vars (Ref v) @ substitute r vars"
  by (subst substitute.simps) (simp add: str_find_ref [simplified])

lemma substitute_lit: "CHR ''%'' \<notin> set l \<Longrightarrow> substitute l vars = l"
proof -
  assume l: "CHR ''%'' \<notin> set l"
  have "str_find l ''%{'' = None"
  proof (rule ccontr)
    assume "str_find l ''%{'' \<noteq> None"
    then obtain i where "str_find l ''%{'' = Some i" by auto
    from arg_cong [where f = set, OF str_find_Some [OF this]] l show False by auto
  qed
  then show ?thesis by (subst substitute.simps) simp
qed

lemma substitute_pieces:
  "CHR ''%'' \<notin> set l \<Longrightarrow> list_all piece_ok ps \<Longrightarrow>
   substitute (l @ concat (map piece_text ps)) vars = l @ concat (map (piece_value vars) ps)"
proof (induction ps arbitrary: l)
  case Nil
  then show ?case by (simp add: substitute_lit)
next
  case (Cons p ps)
  show ?case
  proof (cases p)
    case (Lit m)
    with Cons.prems Cons.IH [of "l @ m"] show ?thesis by simp
  next
    case (Ref v)
    with Cons.prems Cons.IH [of "[]"] substitute_lit_ref [of l v "concat (map piece_text ps)" vars]
    show ?thesis by simp
  qed
qed

text \<open>A template of literal pieces and references expands to the literal text with each reference replaced by
  the value of its variable, a missing one by nothing.\<close>

theorem substitute_template:
  "list_all piece_ok ps \<Longrightarrow>
   substitute (concat (map piece_text ps)) vars = concat (map (piece_value vars) ps)"
  using substitute_pieces [of "[]" ps vars] by simp

theorem substitute_template_witness:
  "substitute ''-o%{out}'' [(''out'', Scalar ''a.o'')] = ''-oa.o''"
  using substitute_template [of "[Lit ''-o'', Ref ''out'']" "[(''out'', Scalar ''a.o'')]"]
  by (simp add: bm_get_def)

end
