(* ===== verification/Std_Fs.thy ===== *)
theory Std_Fs
  imports Std_Str Std_Coll "HOL-Library.Word" "HOL-Library.Sublist"
begin

section \<open>The file operations of the Rust standard library\<close>

text \<open>
  A directory tree is a nested finite map.  A \<open>Link\<close> is a symbolic (or hard) link that leads to a path
  below another root, the execution root; only sandboxes hold links.  A path is the list of its
  components, \<open>join\<close> is appending.  The operations answer the errors that the shape of a tree causes (a
  file where a directory is needed, and the reverse); permissions and a full disk are not modelled.
\<close>

datatype fs = File "8 word list" | Link string | Dir "(string \<times> fs) list"

type_synonym path = "string list"

definition comps :: "string \<Rightarrow> path" where
  "comps p = filter (\<lambda>c. c \<noteq> [] \<and> c \<noteq> ''.'') (split_char p (CHR ''/''))"

fun fs_get :: "fs \<Rightarrow> path \<Rightarrow> fs option" where
  "fs_get t [] = Some t"
| "fs_get (Dir es) (c # cs) = (case bm_get es c of None \<Rightarrow> None | Some t \<Rightarrow> fs_get t cs)"
| "fs_get _ (c # cs) = None"

text \<open>A lookup that follows links into the tree \<open>x\<close>, as \<open>metadata\<close>, \<open>exists\<close> and \<open>read\<close> do.\<close>

fun fs_read :: "fs \<Rightarrow> fs \<Rightarrow> path \<Rightarrow> fs option" where
  "fs_read x (Link rel) cs = fs_get x (comps rel @ cs)"
| "fs_read x t [] = Some t"
| "fs_read x (Dir es) (c # cs) = (case bm_get es c of None \<Rightarrow> None | Some t \<Rightarrow> fs_read x t cs)"
| "fs_read x (File b) (c # cs) = None"

text \<open>An update at a path; the directories above it are created (\<open>create_dir_all\<close> of the parent).\<close>

fun fs_update :: "(fs option \<Rightarrow> string + fs) \<Rightarrow> path \<Rightarrow> fs option \<Rightarrow> string + fs" where
  "fs_update f [] t = f t"
| "fs_update f (c # cs) None = res_bind (fs_update f cs None) (\<lambda>t. Ok (Dir [(c, t)]))"
| "fs_update f (c # cs) (Some (Dir es)) =
     res_bind (fs_update f cs (bm_get es c)) (\<lambda>t. Ok (Dir (bm_insert c t es)))"
| "fs_update f (c # cs) (Some _) = Err ''Not a directory''"

fun make_dir :: "fs option \<Rightarrow> string + fs" where
  "make_dir None = Ok (Dir [])"
| "make_dir (Some (Dir es)) = Ok (Dir es)"
| "make_dir (Some _) = Err ''File exists''"

fun make_link :: "string \<Rightarrow> fs option \<Rightarrow> string + fs" where
  "make_link rel None = Ok (Link rel)"
| "make_link rel (Some _) = Err ''File exists''"

text \<open>\<open>let _ = remove_file(p)\<close>: a directory and a missing file stay as they are.\<close>

fun fs_remove_file :: "path \<Rightarrow> fs \<Rightarrow> fs" where
  "fs_remove_file [c] (Dir es) =
     (case bm_get es c of Some (Dir _) \<Rightarrow> Dir es | _ \<Rightarrow> Dir (bm_remove c es))"
| "fs_remove_file (c # cs) (Dir es) =
     (case bm_get es c of Some t \<Rightarrow> Dir (bm_insert c (fs_remove_file cs t) es) | None \<Rightarrow> Dir es)"
| "fs_remove_file _ t = t"

text \<open>A tree of files and directories only, every directory an ordered map.\<close>

fun fs_ok :: "fs \<Rightarrow> bool" where
  "fs_ok (File b) \<longleftrightarrow> True"
| "fs_ok (Link rel) \<longleftrightarrow> False"
| "fs_ok (Dir es) \<longleftrightarrow> bm_ok es \<and> (\<forall>e \<in> set es. fs_ok (snd e))"

subsection \<open>Laws\<close>

lemma fs_ok_get: "fs_ok t \<Longrightarrow> fs_get t cs = Some s \<Longrightarrow> fs_ok s"
proof (induction t cs rule: fs_get.induct)
  case (2 es c cs)
  then obtain u where u: "bm_get es c = Some u" "fs_get u cs = Some s" by (auto split: option.splits)
  from u(1) have "(c, u) \<in> set es" by (rule bm_get_Some_in_set)
  with 2 u show ?case by force
qed auto

lemma fs_ok_insert:
  "fs_ok (Dir es) \<Longrightarrow> fs_ok t \<Longrightarrow> fs_ok (Dir (bm_insert c t es))"
proof -
  have "set (bm_insert c t es) \<subseteq> insert (c, t) (set es)"
    by (induction c t es rule: bm_insert.induct) auto
  then show "fs_ok (Dir es) \<Longrightarrow> fs_ok t \<Longrightarrow> fs_ok (Dir (bm_insert c t es))" by fastforce
qed

lemma fs_update_ok:
  assumes "fs_update f cs t = Inr t'" "\<And>u. t = Some u \<Longrightarrow> fs_ok u"
    and "\<And>u v. f u = Inr v \<Longrightarrow> (\<And>w. u = Some w \<Longrightarrow> fs_ok w) \<Longrightarrow> fs_ok v"
  shows "fs_ok t'"
  using assms
proof (induction f cs t arbitrary: t' rule: fs_update.induct)
  case (2 f c cs)
  then obtain u where u: "fs_update f cs None = Inr u" "t' = Dir [(c, u)]" by (auto simp: res_bind_Inr_iff)
  have "fs_ok u" by (rule "2.IH" [OF u(1)]) (use "2.prems"(3) in auto)
  with u(2) show ?case by simp
next
  case (3 f c cs es)
  then obtain u where u: "fs_update f cs (bm_get es c) = Inr u" "t' = Dir (bm_insert c u es)"
    by (auto simp: res_bind_Inr_iff)
  have es: "fs_ok (Dir es)" using "3.prems"(2) by simp
  have "fs_ok v" if "bm_get es c = Some v" for v
    using fs_ok_get [of "Dir es" "[c]" v] es that by simp
  then have "fs_ok u" by (intro "3.IH" [OF u(1)]) (use "3.prems"(3) in auto)
  with u(2) es show ?case by (simp only: fs_ok_insert)
qed auto

text \<open>What an update leaves at its own path, and at a path that neither extends it nor is extended by it.\<close>

lemma fs_get_update:
  "fs_update f cs t = Inr t' \<Longrightarrow>
   \<exists>v. fs_get t' cs = Some v \<and> f (Option.bind t (\<lambda>u. fs_get u cs)) = Inr v"
proof (induction f cs t arbitrary: t' rule: fs_update.induct)
  case (1 f t)
  then show ?case by (cases t) auto
next
  case (2 f c cs)
  then show ?case by (force simp: res_bind_Inr_iff bm_get_def)
next
  case (3 f c cs es)
  then obtain u where u: "fs_update f cs (bm_get es c) = Inr u" "t' = Dir (bm_insert c u es)"
    by (auto simp: res_bind_Inr_iff)
  from "3.IH" [OF u(1)] u(2) show ?case by (auto split: option.splits)
qed auto

lemma fs_get_update_other:
  "fs_update f cs t = Inr t' \<Longrightarrow> cs \<parallel> ds \<Longrightarrow>
   fs_get t' ds = Option.bind t (\<lambda>u. fs_get u ds)"
proof (induction f cs t arbitrary: t' ds rule: fs_update.induct)
  case (2 f c cs)
  then obtain u where u: "fs_update f cs None = Inr u" "t' = Dir [(c, u)]" by (auto simp: res_bind_Inr_iff)
  from "2.prems"(2) obtain d ds' where ds: "ds = d # ds'" by (cases ds) auto
  show ?case
  proof (cases "d = c")
    case True
    with "2.prems"(2) ds have "cs \<parallel> ds'" by (simp add: parallel_def)
    from "2.IH" [OF u(1) this] u(2) ds True show ?thesis by (simp add: bm_get_def)
  qed (use u ds in \<open>simp add: bm_get_def\<close>)
next
  case (3 f c cs es)
  then obtain u where u: "fs_update f cs (bm_get es c) = Inr u" "t' = Dir (bm_insert c u es)"
    by (auto simp: res_bind_Inr_iff)
  from "3.prems"(2) obtain d ds' where ds: "ds = d # ds'" by (cases ds) auto
  show ?case
  proof (cases "d = c")
    case True
    with "3.prems"(2) ds have "cs \<parallel> ds'" by (simp add: parallel_def)
    from "3.IH" [OF u(1) this] u(2) ds True show ?thesis by (cases "bm_get es c") simp_all
  qed (use u ds in simp)
qed auto

end
