(* ===== verification/Actions.thy ===== *)
theory Actions
  imports Core
begin

section \<open>razel-actions: spawn actions and their content keys\<close>

text \<open>
  \<^verbatim>\<open>crates/razel-actions/src/lib.rs\<close>.  An action's key is the hash of a buffer in which every
  component is written as a tagged, length-prefixed record.  The buffer is modelled apart from the hash,
  so that what the encoding guarantees (two different actions never write the same buffer) is separate
  from what the hash is trusted for.
\<close>

datatype artifact = Source string digest | Derived string

fun artifact_path :: "artifact \<Rightarrow> string" where
  "artifact_path (Source path digest) = path"
| "artifact_path (Derived path) = path"

record action =
  argv :: "string list"
  inputs :: "(string, digest) bmap"
  env :: "(string, string) bmap"
  tools :: "(string, digest) bmap"
  platform :: string
  outputs :: "string list"

text \<open>\<open>(n as u64).to_le_bytes()\<close>: eight bytes, least significant first.\<close>

fun le_bytes :: "nat \<Rightarrow> nat \<Rightarrow> byte list" where
  "le_bytes 0 n = []"
| "le_bytes (Suc k) n = of_nat n # le_bytes k (n div 256)"

definition put :: "char \<Rightarrow> string \<Rightarrow> byte list" where
  "put tag s = of_nat (of_char tag) # le_bytes 8 (length s) @ str_bytes s"

definition key_buffer :: "action \<Rightarrow> byte list" where
  "key_buffer a =
     concat (map (put (CHR ''A'')) (argv a)) @
     concat (map (\<lambda>(k, v). put (CHR ''I'') k @ put (CHR ''i'') (to_hex v)) (inputs a)) @
     concat (map (\<lambda>(k, v). put (CHR ''E'') k @ put (CHR ''e'') v) (env a)) @
     concat (map (\<lambda>(k, v). put (CHR ''T'') k @ put (CHR ''t'') (to_hex v)) (tools a)) @
     put (CHR ''P'') (platform a) @
     concat (map (put (CHR ''O'')) (outputs a))"

definition content_key :: "(byte list \<Rightarrow> byte list) \<Rightarrow> action \<Rightarrow> digest" where
  "content_key hash a = digest_of hash (key_buffer a)"

type_synonym action_graph = "action list"

definition ag_add :: "action \<Rightarrow> action_graph \<Rightarrow> action_graph" where
  "ag_add a g = g @ [a]"

definition ag_dump :: "(byte list \<Rightarrow> byte list) \<Rightarrow> action_graph \<Rightarrow> string" where
  "ag_dump hash g =
     concat (map (\<lambda>a. take 12 (to_hex (content_key hash a)) @ '' '' @ join_with '' '' (argv a) @
                      '' -> '' @ join_with '','' (outputs a) @ [CHR 0x0A]) g)"

text \<open>\<open>keys.sort(); keys.dedup(); keys.len() == n\<close>.\<close>

definition keys_unique :: "(byte list \<Rightarrow> byte list) \<Rightarrow> action_graph \<Rightarrow> bool" where
  "keys_unique hash g =
     (let keys = sort (map (content_key hash) g)
      in length (remdups_adj keys) = length keys)"

text \<open>
  What the types of the Rust program guarantee of an action: the maps are ordered maps, and every
  string has a length that fits the 64-bit length prefix.
\<close>

definition str_ok :: "string \<Rightarrow> bool" where
  "str_ok s \<longleftrightarrow> length s < 2 ^ 64"

definition action_ok :: "action \<Rightarrow> bool" where
  "action_ok a \<longleftrightarrow>
     list_all str_ok (argv a) \<and> list_all str_ok (outputs a) \<and> str_ok (platform a) \<and>
     list_all (\<lambda>(k, v). str_ok k \<and> digest_ok v) (inputs a) \<and>
     list_all (\<lambda>(k, v). str_ok k \<and> str_ok v) (env a) \<and>
     list_all (\<lambda>(k, v). str_ok k \<and> digest_ok v) (tools a) \<and>
     bm_ok (inputs a) \<and> bm_ok (env a) \<and> bm_ok (tools a)"

subsection \<open>Records form a prefix code\<close>

lemma length_le_bytes [simp]: "length (le_bytes k n) = k"
  by (induction k arbitrary: n) simp_all

lemma le_bytes_inj:
  "m < 256 ^ k \<Longrightarrow> n < 256 ^ k \<Longrightarrow> le_bytes k m = le_bytes k n \<Longrightarrow> m = n"
proof (induction k arbitrary: m n)
  case 0
  then show ?case by simp
next
  case (Suc k)
  have "m mod 256 = n mod 256"
    using Suc.prems(3) by (simp add: word_of_nat_eq_iff take_bit_eq_mod)
  moreover have "m div 256 = n div 256"
    using Suc.prems by (intro Suc.IH) (simp_all add: less_mult_imp_div_less)
  ultimately show ?case by (metis div_mult_mod_eq)
qed

lemma put_prefix:
  assumes "str_ok s" "str_ok s'" "put t s @ r = put t' s' @ r'"
  shows "t = t' \<and> s = s' \<and> r = r'"
proof -
  from assms(3) have t: "t = t'" by (auto simp: put_def dest: char_byte_inj)
  have "le_bytes 8 (length s) = le_bytes 8 (length s')"
    and tail: "str_bytes s @ r = str_bytes s' @ r'"
    using assms(3) by (auto simp: put_def dest: append_eq_append_conv [THEN iffD1, rotated])
  then have "length s = length s'"
    using assms(1,2) by (intro le_bytes_inj [of _ 8]) (simp_all add: str_ok_def)
  with tail have "str_bytes s = str_bytes s' \<and> r = r'" by simp
  with t show ?thesis by (auto dest: str_bytes_inj)
qed

interpretation rec: prefix_code "\<lambda>(t, s). put t s" "\<lambda>(t, s). str_ok s"
proof
  show "\<And>x y r s. case x of (t, s) \<Rightarrow> str_ok s \<Longrightarrow> case y of (t, s) \<Rightarrow> str_ok s \<Longrightarrow>
      (case x of (t, s) \<Rightarrow> put t s) @ r = (case y of (t, s) \<Rightarrow> put t s) @ s \<Longrightarrow> x = y \<and> r = s"
    by (auto dest: put_prefix)
  show "\<And>x. case x of (t, s) \<Rightarrow> str_ok s \<Longrightarrow> (case x of (t, s) \<Rightarrow> put t s) \<noteq> []"
    by (auto simp: put_def)
qed

definition key_records :: "action \<Rightarrow> (char \<times> string) list" where
  "key_records a =
     map (Pair (CHR ''A'')) (argv a) @
     concat (map (\<lambda>(k, v). [(CHR ''I'', k), (CHR ''i'', to_hex v)]) (inputs a)) @
     concat (map (\<lambda>(k, v). [(CHR ''E'', k), (CHR ''e'', v)]) (env a)) @
     concat (map (\<lambda>(k, v). [(CHR ''T'', k), (CHR ''t'', to_hex v)]) (tools a)) @
     [(CHR ''P'', platform a)] @
     map (Pair (CHR ''O'')) (outputs a)"

lemma concat_map_pairs:
  "concat (map (\<lambda>(t, s). put t s) (concat (map (\<lambda>(k, v). [(c, k), (d, f v)]) m))) =
   concat (map (\<lambda>(k, v). put c k @ put d (f v)) m)"
  by (induction m) auto

lemma key_buffer_records: "key_buffer a = concat (map (\<lambda>(t, s). put t s) (key_records a))"
  by (simp add: key_buffer_def key_records_def concat_map_pairs comp_def
      concat_map_pairs [where f = "\<lambda>v. v"])

lemma str_ok_hex: "digest_ok d \<Longrightarrow> str_ok (to_hex d)"
  by (simp add: str_ok_def to_hex_length digest_ok_def)

lemma key_records_ok: "action_ok a \<Longrightarrow> list_all (\<lambda>(t, s). str_ok s) (key_records a)"
  unfolding action_ok_def key_records_def
  by (auto simp: list_all_iff str_ok_hex)

text \<open>The values written under one tag, in order.\<close>

definition tagged :: "char \<Rightarrow> (char \<times> string) list \<Rightarrow> string list" where
  "tagged t rs = map snd (filter (\<lambda>r. fst r = t) rs)"

lemma tagged_simps [simp]:
  "tagged t [] = []"
  "tagged t (xs @ ys) = tagged t xs @ tagged t ys"
  "tagged t ((c, s) # xs) = (if c = t then s # tagged t xs else tagged t xs)"
  by (simp_all add: tagged_def)

lemma tagged_map_Pair [simp]: "tagged t (map (Pair c) xs) = (if c = t then xs else [])"
  by (induction xs) (auto split: if_splits)

lemma tagged_pairs [simp]:
  "tagged t (concat (map (\<lambda>(k, v). [(c, k), (d, f v)]) m)) =
     (if c = t then if d = t then concat (map (\<lambda>(k, v). [k, f v]) m) else map fst m
      else if d = t then map (f \<circ> snd) m else [])"
  by (induction m) auto

lemma map_fst_snd_eq: "map fst xs = map fst ys \<Longrightarrow> map snd xs = map snd ys \<Longrightarrow> xs = ys"
  by (metis zip_map_fst_snd)

lemma map_hex_inj: "map (to_hex \<circ> snd) xs = map (to_hex \<circ> snd) ys \<Longrightarrow> map snd xs = map snd ys"
  by (simp only: map_map [symmetric]) (rule map_injective, assumption, simp add: injI to_hex_inj)

lemma key_records_inj: "key_records a = key_records b \<Longrightarrow> a = b"
proof -
  assume eq: "key_records a = key_records b"
  have tag: "tagged t (key_records a) = tagged t (key_records b)" for t using eq by simp
  note pairs = tagged_pairs tagged_pairs [where f = "\<lambda>v. v"]
  have "argv a = argv b" "platform a = platform b" "outputs a = outputs b"
    using tag [of "CHR ''A''"] tag [of "CHR ''P''"] tag [of "CHR ''O''"]
    by (simp_all add: key_records_def pairs)
  moreover have "inputs a = inputs b"
    using tag [of "CHR ''I''"] tag [of "CHR ''i''"]
    by (intro map_fst_snd_eq map_hex_inj) (simp_all add: key_records_def pairs)
  moreover have "env a = env b"
    using tag [of "CHR ''E''"] tag [of "CHR ''e''"]
    by (intro map_fst_snd_eq) (simp_all add: key_records_def pairs comp_def)
  moreover have "tools a = tools b"
    using tag [of "CHR ''T''"] tag [of "CHR ''t''"]
    by (intro map_fst_snd_eq map_hex_inj) (simp_all add: key_records_def pairs)
  ultimately show ?thesis by simp
qed

lemma key_buffer_inj:
  "action_ok a \<Longrightarrow> action_ok b \<Longrightarrow> key_buffer a = key_buffer b \<Longrightarrow> a = b"
  unfolding key_buffer_records
  by (rule key_records_inj) (rule rec.concat_prefix; simp add: key_records_ok)

text \<open>C11: two actions have the same content key only when they are equal in every component, or when
  the hash itself collides on two different buffers.\<close>

theorem content_key_complete:
  assumes "action_ok a" "action_ok b" "content_key hash a = content_key hash b"
  shows "a = b \<or> (key_buffer a \<noteq> key_buffer b \<and> hash (key_buffer a) = hash (key_buffer b))"
  using assms key_buffer_inj by (auto simp: content_key_def digest_of_def)

theorem content_key_complete_witness:
  "let a = \<lparr>argv = [''cc''], inputs = [], env = [(''K'', ''v'')], tools = [], platform = ''p'',
            outputs = [''o'']\<rparr>
   in action_ok a \<and> content_key (\<lambda>bs. bs) a = content_key (\<lambda>bs. bs) a \<and>
      (a = a \<or> (key_buffer a \<noteq> key_buffer a \<and> key_buffer a = key_buffer a))"
proof -
  let ?a = "\<lparr>argv = [''cc''], inputs = [], env = [(''K'', ''v'')], tools = [], platform = ''p'',
            outputs = [''o'']\<rparr>"
  have ok: "action_ok ?a" by (simp add: action_ok_def str_ok_def)
  from content_key_complete [OF ok ok refl, of "\<lambda>bs. bs"] ok show ?thesis by (simp add: Let_def)
qed

lemma sorted_distinct_adj: "sorted xs \<Longrightarrow> distinct_adj xs \<Longrightarrow> distinct (xs :: 'a::linorder list)"
proof (induction xs)
  case (Cons x xs)
  have "x \<notin> set xs"
  proof (cases xs)
    case (Cons y ys)
    with Cons.prems have "x < y" "\<And>z. z \<in> set xs \<Longrightarrow> y \<le> z" by auto
    then show ?thesis by force
  qed simp
  with Cons show ?case by (auto simp: distinct_adj_Cons)
qed simp

lemma length_remdups_adj_sorted:
  "sorted xs \<Longrightarrow> length (remdups_adj xs) = length xs \<longleftrightarrow> distinct (xs :: 'a::linorder list)"
  by (metis distinct_adj_conv_length_remdups_adj remdups_adj_distinct sorted_distinct_adj)

text \<open>\<open>keys_unique\<close> decides that no two actions of the graph share a content key.\<close>

theorem keys_unique_distinct:
  "keys_unique hash g \<longleftrightarrow> distinct (map (content_key hash) g)"
  using length_remdups_adj_sorted [of "sort (map (content_key hash) g)"]
  by (simp add: keys_unique_def Let_def)

end
