(* ===== verification/Exec.thy ===== *)
theory Exec
  imports Std_Fs Actions
begin

section \<open>razel-exec: the sandbox, the output cache and the executor\<close>

text \<open>
  \<^verbatim>\<open>crates/razel-exec/src/lib.rs\<close> and \<^verbatim>\<open>sandbox.rs\<close>.  There are three trees: the execution root, the cache
  root (one directory per action key) and the directory of a sandbox, whose links lead into the execution
  root.  The process an action spawns is the parameter \<open>spawn\<close>: from the command, the environment, the
  execution root the links lead to and the sandbox directory it answers an error, or an exit code, the
  console output and the new sandbox directory.  An operation that fails leaves its trees in a state the
  model does not describe: the result is then the error only.
\<close>

type_synonym manifest = "(string \<times> digest) list"

datatype exec_outcome = Cached manifest | Executed manifest | Failed string

datatype materialize = Symlink | Hardlink

datatype isolation = NoIsolation | Seatbelt bool

record sandbox =
  sb_dir :: string
  sb_owned :: bool
  sb_how :: materialize
  sb_isolation :: isolation
  linked :: "(string, string) bmap"
  sb_tree :: fs

type_synonym spawner =
  "isolation \<Rightarrow> string list \<Rightarrow> (string, string) bmap \<Rightarrow> fs \<Rightarrow> fs \<Rightarrow> string + (int \<times> string \<times> fs)"

subsection \<open>Copies and digests\<close>

text \<open>
  \<open>copy_onto x src dst\<close> is what stands at a place that held \<open>dst\<close> once \<open>src\<close> was copied to it.  An entry
  that is a link is copied as the file it leads to.
\<close>

lemma size_prod_entry: "size_prod (\<lambda>x. 0) size = (\<lambda>e. Suc (size (snd e)))"
  by (auto simp: prod.size_gen)

function (sequential) copy_onto :: "fs \<Rightarrow> fs \<Rightarrow> fs option \<Rightarrow> string + fs"
  and copy_dir_recursive :: "fs \<Rightarrow> (string \<times> fs) list \<Rightarrow> (string \<times> fs) list \<Rightarrow> string + fs" where
  "copy_onto x (File b) dst = (case dst of Some (Dir _) \<Rightarrow> Err ''Is a directory'' | _ \<Rightarrow> Ok (File b))"
| "copy_onto x (Link rel) dst =
     (case fs_get x (comps rel) of
        Some (File b) \<Rightarrow> (case dst of Some (Dir _) \<Rightarrow> Err ''Is a directory'' | _ \<Rightarrow> Ok (File b))
      | Some _ \<Rightarrow> Err ''the source path is not an existing regular file''
      | None \<Rightarrow> Err ''No such file or directory'')"
| "copy_onto x (Dir es) dst =
     (case dst of
        None \<Rightarrow> copy_dir_recursive x es []
      | Some (Dir ds) \<Rightarrow> copy_dir_recursive x es ds
      | Some _ \<Rightarrow> Err ''File exists'')"
| "copy_dir_recursive x [] ds = Ok (Dir ds)"
| "copy_dir_recursive x ((n, s) # es) ds =
     res_bind (copy_onto x s (bm_get ds n)) (\<lambda>t. copy_dir_recursive x es (bm_insert n t ds))"
  by pat_completeness auto
termination
  by (relation "measure (\<lambda>a. case a of Inl (_, s, _) \<Rightarrow> size s
      | Inr (_, es, _) \<Rightarrow> size_list (\<lambda>e. Suc (size (snd e))) es)")
    (auto simp: size_list_conv_sum_list size_prod_entry)

definition copy_path :: "fs \<Rightarrow> fs \<Rightarrow> path \<Rightarrow> path \<Rightarrow> fs \<Rightarrow> string + fs" where
  "copy_path x src from_path to_path dst =
     (case fs_read x src from_path of
        None \<Rightarrow> Ok dst
      | Some s \<Rightarrow> fs_update (copy_onto x s) to_path (Some dst))"

text \<open>The loop over the declared outputs, each below the two given directories.\<close>

fun copy_outputs :: "fs \<Rightarrow> fs \<Rightarrow> path \<Rightarrow> path \<Rightarrow> string list \<Rightarrow> fs \<Rightarrow> string + fs" where
  "copy_outputs x src from_dir to_dir [] dst = Ok dst"
| "copy_outputs x src from_dir to_dir (out # outs) dst =
     res_bind (copy_path x src (from_dir @ comps out) (to_dir @ comps out) dst)
       (copy_outputs x src from_dir to_dir outs)"

text \<open>
  The files of a directory with their path below it, the paths written with slashes.  Only the execution
  root is digested, and it holds no links.
\<close>

function (sequential) digest_tree_into ::
    "(byte list \<Rightarrow> byte list) \<Rightarrow> string \<Rightarrow> (string \<times> fs) list \<Rightarrow> (string \<times> digest) list option" where
  "digest_tree_into hash rel [] = Some []"
| "digest_tree_into hash rel ((n, s) # es) =
     (case s of
        Dir ds \<Rightarrow>
          (case digest_tree_into hash (rel @ n @ ''/'') ds of
             None \<Rightarrow> None
           | Some a \<Rightarrow> map_option (\<lambda>b. a @ b) (digest_tree_into hash rel es))
      | File b \<Rightarrow> map_option (\<lambda>b'. (rel @ n, digest_of hash b) # b') (digest_tree_into hash rel es)
      | Link l \<Rightarrow> None)"
  by pat_completeness auto
termination
  by (relation "measure (\<lambda>(hash, rel, es). size_list (\<lambda>e. Suc (size (snd e))) es)")
    (auto simp: size_prod_entry)

definition tree_buffer :: "(string \<times> digest) list \<Rightarrow> byte list" where
  "tree_buffer files = concat (map (\<lambda>(rel, dg). str_bytes rel @ [0] @ str_bytes (to_hex dg) @ [0]) files)"

definition digest_path :: "(byte list \<Rightarrow> byte list) \<Rightarrow> fs \<Rightarrow> path \<Rightarrow> digest option" where
  "digest_path hash x p =
     (case fs_get x p of
        None \<Rightarrow> None
      | Some (File b) \<Rightarrow> Some (digest_of hash b)
      | Some (Dir es) \<Rightarrow>
          map_option (\<lambda>files. digest_of hash (tree_buffer (sort_key fst files))) (digest_tree_into hash [] es)
      | Some (Link l) \<Rightarrow> None)"

subsection \<open>The cache\<close>

definition key_dir :: "digest \<Rightarrow> path" where
  "key_dir key = [to_hex key]"

definition restore :: "fs \<Rightarrow> digest \<Rightarrow> string list \<Rightarrow> fs \<Rightarrow> string + (bool \<times> fs)" where
  "restore cache key outs x =
     (if fs_get cache (key_dir key) = None then Ok (False, x)
      else res_bind (copy_outputs x cache (key_dir key) [] outs x) (\<lambda>x. Ok (True, x)))"

definition store :: "fs \<Rightarrow> digest \<Rightarrow> string list \<Rightarrow> fs \<Rightarrow> string + fs" where
  "store cache key outs x = copy_outputs x x [] (key_dir key) outs cache"

subsection \<open>The sandbox\<close>

definition sandbox_at :: "string \<Rightarrow> bool \<Rightarrow> materialize \<Rightarrow> fs option \<Rightarrow> string + sandbox" where
  "sandbox_at dir owned how found =
     res_bind (make_dir (if owned then None else found))
       (\<lambda>t. Ok \<lparr>sb_dir = dir, sb_owned = owned, sb_how = how, sb_isolation = NoIsolation, linked = [], sb_tree = t\<rparr>)"

definition persistent :: "string \<Rightarrow> materialize \<Rightarrow> fs option \<Rightarrow> string + sandbox" where
  "persistent dir how found = sandbox_at dir False how found"

definition link_one :: "string \<Rightarrow> fs \<Rightarrow> string + fs" where
  "link_one rel t =
     (let p = comps rel
      in res_bind (fs_update make_dir (butlast p) (Some t))
           (\<lambda>t. fs_update (make_link rel) p (Some (fs_remove_file p t))))"

fun unlink_stale :: "string list \<Rightarrow> sandbox \<Rightarrow> nat \<Rightarrow> sandbox \<times> nat" where
  "unlink_stale [] sb changed = (sb, changed)"
| "unlink_stale (rel # rels) sb changed =
     unlink_stale rels
       (sb\<lparr>sb_tree := fs_remove_file (comps rel) (sb_tree sb), linked := bm_remove rel (linked sb)\<rparr>) (changed + 1)"

fun link_missing :: "string \<Rightarrow> string list \<Rightarrow> sandbox \<Rightarrow> nat \<Rightarrow> string + (nat \<times> sandbox)" where
  "link_missing root [] sb changed = Ok (changed, sb)"
| "link_missing root (rel # rels) sb changed =
     (let source = root @ ''/'' @ rel
      in if bm_get (linked sb) rel \<noteq> Some source then
           res_bind (link_one rel (sb_tree sb))
             (\<lambda>t. link_missing root rels (sb\<lparr>sb_tree := t, linked := bm_insert rel source (linked sb)\<rparr>) (changed + 1))
         else link_missing root rels sb changed)"

definition sync_inputs :: "string \<Rightarrow> string list \<Rightarrow> sandbox \<Rightarrow> string + (nat \<times> sandbox)" where
  "sync_inputs root ins sb =
     (let want = bs_of ins;
          stale = filter (\<lambda>k. k \<notin> set want) (bm_keys (linked sb));
          (sb, changed) = unlink_stale stale sb 0
      in link_missing root ins sb changed)"

fun prepare_outputs :: "string list \<Rightarrow> sandbox \<Rightarrow> string + sandbox" where
  "prepare_outputs [] sb = Ok sb"
| "prepare_outputs (out # outs) sb =
     res_bind (fs_update make_dir (butlast (comps out)) (Some (sb_tree sb)))
       (\<lambda>t. prepare_outputs outs (sb\<lparr>sb_tree := t\<rparr>))"

definition sandbox_run ::
    "spawner \<Rightarrow> sandbox \<Rightarrow> string list \<Rightarrow> (string, string) bmap \<Rightarrow> fs \<Rightarrow> string + (int \<times> string \<times> sandbox)" where
  "sandbox_run spawn sb cmd vars x =
     (if cmd = [] then Err ''empty argv''
      else res_bind (spawn (sb_isolation sb) cmd vars x (sb_tree sb))
             (\<lambda>(code, console, t). Ok (code, console, sb\<lparr>sb_tree := t\<rparr>)))"

definition capture_outputs :: "sandbox \<Rightarrow> string list \<Rightarrow> fs \<Rightarrow> string + fs" where
  "capture_outputs sb outs x = copy_outputs x (sb_tree sb) [] [] outs x"

subsection \<open>The executor\<close>

record workspace =
  ws_exec :: fs
  ws_cache :: fs
  ws_sandbox :: sandbox

definition restore_or_run ::
    "(byte list \<Rightarrow> byte list) \<Rightarrow> spawner \<Rightarrow> string \<Rightarrow> action \<Rightarrow> workspace \<Rightarrow>
     string + (bool \<times> int \<times> string \<times> workspace)" where
  "restore_or_run hash spawn root act w =
     (let key = content_key hash act
      in res_bind (restore (ws_cache w) key (outputs act) (ws_exec w)) (\<lambda>(hit, x).
           if hit then Ok (True, 0, [], w\<lparr>ws_exec := x\<rparr>)
           else
             res_bind (sync_inputs root (bm_keys (inputs act)) (ws_sandbox w)) (\<lambda>(_, sb).
             res_bind (prepare_outputs (outputs act) sb) (\<lambda>sb.
             res_bind (sandbox_run spawn sb (argv act) (env act) x) (\<lambda>(code, console, sb).
               if code = 0 then
                 res_bind (capture_outputs sb (outputs act) x) (\<lambda>x.
                 res_bind (store (ws_cache w) key (outputs act) x) (\<lambda>c.
                   Ok (False, code, console, \<lparr>ws_exec = x, ws_cache = c, ws_sandbox = sb\<rparr>)))
               else Ok (False, code, console, w\<lparr>ws_exec := x, ws_sandbox := sb\<rparr>))))))"

definition output_manifest :: "(byte list \<Rightarrow> byte list) \<Rightarrow> action \<Rightarrow> fs \<Rightarrow> manifest" where
  "output_manifest hash act x =
     sort_key fst (List.map_filter (\<lambda>out. map_option (\<lambda>dg. (out, dg)) (digest_path hash x (comps out))) (outputs act))"

text \<open>
  The text \<open>{:?}\<close> of the command is the parameter \<open>debug\<close>.  After an I/O error the workspace, the cache and
  the sandbox are not known (\<open>None\<close>): what was linked, copied or run before the error stays.
\<close>

definition execute_action ::
    "(byte list \<Rightarrow> byte list) \<Rightarrow> spawner \<Rightarrow> (string list \<Rightarrow> string) \<Rightarrow> string \<Rightarrow> action \<Rightarrow> workspace \<Rightarrow>
     exec_outcome \<times> string \<times> workspace option" where
  "execute_action hash spawn debug root act w =
     (case restore_or_run hash spawn root act w of
        Inr (True, _, _, w) \<Rightarrow> (Cached (output_manifest hash act (ws_exec w)), [], Some w)
      | Inr (False, code, out, w) \<Rightarrow>
          (if code = 0 then (Executed (output_manifest hash act (ws_exec w)), out, Some w)
           else (Failed (''action failed (rc='' @ int_dec code @ ''): '' @ debug (argv act)), out, Some w))
      | Inl e \<Rightarrow> (Failed (''razel internal: exec error: '' @ e), [], None))"

end
