(* ===== verification/Exec_Props.thy ===== *)
theory Exec_Props
  imports Exec
begin

section \<open>Properties of the executor\<close>

text \<open>
  What a build relies on: an output that went through the cache is the output that was stored, directory
  trees included; a second execution of the same action is served from the cache with the same manifest;
  a reused sandbox holds exactly the declared inputs; the digest of a directory tells its files apart.
\<close>

subsection \<open>Copying to a free place\<close>

lemma bm_insert_last: "\<forall>k \<in> fst ` set m. k < n \<Longrightarrow> bm_insert n v m = m @ [(n, v)]"
  by (induction n v m rule: bm_insert.induct) auto

lemma bm_get_fresh: "n \<notin> fst ` set m \<Longrightarrow> bm_get m n = None"
  by (simp add: bm_get_def map_of_eq_None_iff)

lemma bm_ok_append:
  "bm_ok (m @ (k, v) # m') \<longleftrightarrow>
     bm_ok m \<and> bm_ok m' \<and> (\<forall>a \<in> fst ` set m. a < k) \<and> (\<forall>b \<in> fst ` set m'. k < b) \<and>
     (\<forall>a \<in> fst ` set m. \<forall>b \<in> fst ` set m'. a < b)"
  by (auto simp: bm_ok_def sorted_wrt_append)

lemma copy_fresh:
  "fs_ok s \<Longrightarrow> dst = None \<Longrightarrow> copy_onto x s dst = Inr s"
  "\<forall>e \<in> set es. fs_ok (snd e) \<Longrightarrow> bm_ok (ds @ es) \<Longrightarrow> copy_dir_recursive x es ds = Inr (Dir (ds @ es))"
proof (induction x s dst and x es ds rule: copy_onto_copy_dir_recursive.induct)
  case (5 x n s es ds)
  from "5.prems"(2) have "\<forall>k \<in> fst ` set ds. k < n" by (simp add: bm_ok_append)
  then have get: "bm_get ds n = None" and ins: "bm_insert n s ds = ds @ [(n, s)]"
    by (auto intro!: bm_get_fresh bm_insert_last)
  with "5.IH" "5.prems" show ?case by simp
qed auto

lemma fs_read_ok: "fs_ok t \<Longrightarrow> fs_read x t cs = fs_get t cs"
proof (induction x t cs rule: fs_read.induct)
  case (3 x es c cs)
  have "fs_ok u" if "bm_get es c = Some u" for u
    using that "3.prems" fs_ok_get [of "Dir es" "[c]" u] by simp
  with 3 show ?case by (auto split: option.splits)
qed auto

text \<open>A path at which nothing stands and no file is in the way.\<close>

fun free_at :: "path \<Rightarrow> fs option \<Rightarrow> bool" where
  "free_at cs None = True"
| "free_at (c # cs) (Some (Dir es)) = free_at cs (bm_get es c)"
| "free_at _ (Some t) = False"

lemma free_at_get: "free_at cs (Some t) \<Longrightarrow> fs_get t cs = None"
proof -
  have "free_at cs t \<Longrightarrow> Option.bind t (\<lambda>u. fs_get u cs) = None" for t
    by (induction cs t rule: free_at.induct) (auto split: option.splits)
  from this [of "Some t"] show "free_at cs (Some t) \<Longrightarrow> fs_get t cs = None" by simp
qed

lemma fs_update_free: "free_at cs t \<Longrightarrow> f None = Inr v \<Longrightarrow> \<exists>t'. fs_update f cs t = Inr t' \<and> fs_get t' cs = Some v"
proof (induction f cs t rule: fs_update.induct)
  case (1 f t)
  then show ?case by (cases t) auto
next
  case (3 f c cs es)
  then show ?case by (force simp: res_bind_Inr_iff)
qed (auto simp: bm_get_def)

lemma free_at_update:
  "fs_update f cs t = Inr t' \<Longrightarrow> cs \<parallel> ds \<Longrightarrow> free_at ds t \<Longrightarrow> free_at ds (Some t')"
proof (induction f cs t arbitrary: t' ds rule: fs_update.induct)
  case (2 f c cs)
  then obtain u where u: "fs_update f cs None = Inr u" "t' = Dir [(c, u)]" by (auto simp: res_bind_Inr_iff)
  from "2.prems"(2) obtain d ds' where ds: "ds = d # ds'" by (cases ds) auto
  show ?case
  proof (cases "d = c")
    case True
    with "2.prems"(2) ds have "cs \<parallel> ds'" by (simp add: parallel_def)
    from "2.IH" [OF u(1) this] u(2) ds True show ?thesis by (simp add: bm_get_def)
  qed (use u ds in \<open>simp add: bm_get_def\<close>)
next
  case (3 f c cs es)
  then obtain u where u: "fs_update f cs (bm_get es c) = Inr u" "t' = Dir (bm_insert c u es)"
    by (auto simp: res_bind_Inr_iff)
  from "3.prems"(2) obtain d ds' where ds: "ds = d # ds'" by (cases ds) auto
  show ?case
  proof (cases "d = c")
    case True
    with "3.prems"(2) ds have "cs \<parallel> ds'" by (simp add: parallel_def)
    from "3.IH" [OF u(1) this] u(2) ds True "3.prems"(3) show ?thesis by simp
  qed (use u ds "3.prems"(3) in simp)
qed auto

text \<open>Outputs none of which lies below another.\<close>

definition separate :: "string list \<Rightarrow> bool" where
  "separate outs \<longleftrightarrow> sorted_wrt (\<lambda>a b. comps a \<parallel> comps b) outs"

lemma parallel_prefix: "cs \<parallel> ds \<Longrightarrow> p @ cs \<parallel> p @ ds"
  by (simp add: parallel_def)

lemma copy_outputs_fresh:
  assumes "separate outs" "fs_ok src" "\<forall>out \<in> set outs. free_at (to_dir @ comps out) (Some dst)"
  shows "\<exists>dst'. copy_outputs x src from_dir to_dir outs dst = Inr dst' \<and>
    (\<forall>out \<in> set outs. fs_get dst' (to_dir @ comps out) = fs_get src (from_dir @ comps out)) \<and>
    (\<forall>cs. (\<forall>out \<in> set outs. to_dir @ comps out \<parallel> cs) \<longrightarrow> fs_get dst' cs = fs_get dst cs)"
  using assms(1,3)
proof (induction outs arbitrary: dst)
  case Nil
  then show ?case by simp
next
  case (Cons a outs)
  have sep: "separate outs" "\<And>b. b \<in> set outs \<Longrightarrow> to_dir @ comps a \<parallel> to_dir @ comps b"
    using Cons.prems(1) by (auto simp: separate_def intro: parallel_prefix)
  obtain dst1 where d1: "copy_path x src (from_dir @ comps a) (to_dir @ comps a) dst = Inr dst1"
    "fs_get dst1 (to_dir @ comps a) = fs_get src (from_dir @ comps a)"
    "\<And>cs. to_dir @ comps a \<parallel> cs \<Longrightarrow> fs_get dst1 cs = fs_get dst cs"
    "\<And>cs. to_dir @ comps a \<parallel> cs \<Longrightarrow> free_at cs (Some dst) \<Longrightarrow> free_at cs (Some dst1)"
  proof (cases "fs_get src (from_dir @ comps a)")
    case None
    with Cons.prems(2) show ?thesis
      by (intro that [of dst]) (auto simp: copy_path_def fs_read_ok [OF assms(2)] dest: free_at_get)
  next
    case (Some s)
    then have "copy_onto x s None = Inr s" by (intro copy_fresh fs_ok_get [OF assms(2)]) auto
    with Cons.prems(2) obtain t where t: "fs_update (copy_onto x s) (to_dir @ comps a) (Some dst) = Inr t"
      "fs_get t (to_dir @ comps a) = Some s" using fs_update_free by force
    then show ?thesis using Some fs_get_update_other [OF t(1)] free_at_update [OF t(1)]
      by (intro that [of t]) (auto simp: copy_path_def fs_read_ok [OF assms(2)])
  qed
  have "\<forall>b \<in> set outs. free_at (to_dir @ comps b) (Some dst1)" using sep(2) d1(4) Cons.prems(2) by simp
  from Cons.IH [OF sep(1) this] obtain dst' where
    IH: "copy_outputs x src from_dir to_dir outs dst1 = Inr dst'"
      "\<forall>out \<in> set outs. fs_get dst' (to_dir @ comps out) = fs_get src (from_dir @ comps out)"
      "\<forall>cs. (\<forall>out \<in> set outs. to_dir @ comps out \<parallel> cs) \<longrightarrow> fs_get dst' cs = fs_get dst1 cs" by blast
  have "fs_get dst' (to_dir @ comps a) = fs_get dst1 (to_dir @ comps a)"
    using IH(3) sep(2) parallel_commute by blast
  with IH d1 show ?case by auto
qed

subsection \<open>The cache\<close>

lemma copy_ok:
  "copy_onto x s dst = Inr v \<Longrightarrow> fs_ok s \<Longrightarrow> (\<forall>w. dst = Some w \<longrightarrow> fs_ok w) \<Longrightarrow> fs_ok v"
  "copy_dir_recursive x es ds = Inr v \<Longrightarrow> \<forall>e \<in> set es. fs_ok (snd e) \<Longrightarrow> fs_ok (Dir ds) \<Longrightarrow> fs_ok v"
proof (induction x s dst and x es ds arbitrary: v and v rule: copy_onto_copy_dir_recursive.induct)
  case (1 x b dst)
  then show ?case by (auto split: option.splits fs.splits)
next
  case (3 x es dst)
  then show ?case by (auto split: option.splits fs.splits)
next
  case (5 x n s es ds)
  from "5.prems"(1) obtain t where t: "copy_onto x s (bm_get ds n) = Inr t"
    "copy_dir_recursive x es (bm_insert n t ds) = Inr v" by (auto simp: res_bind_Inr_iff)
  have "\<forall>w. bm_get ds n = Some w \<longrightarrow> fs_ok w"
    using fs_ok_get [OF "5.prems"(3), of "[n]"] by simp
  with "5.IH"(1) [OF t(1)] "5.prems"(2) have "fs_ok t" by simp
  with "5.prems"(3) have "fs_ok (Dir (bm_insert n t ds))" by (rule fs_ok_insert)
  with "5.IH"(2) [OF t] "5.prems"(2) show ?case by simp
qed auto

lemma copy_outputs_ok:
  "copy_outputs x src a b outs dst = Inr dst' \<Longrightarrow> fs_ok src \<Longrightarrow> fs_ok dst \<Longrightarrow> fs_ok dst'"
proof (induction x src a b outs dst arbitrary: dst' rule: copy_outputs.induct)
  case (2 x src a b out outs dst)
  from "2.prems"(1) obtain d where d: "copy_path x src (a @ comps out) (b @ comps out) dst = Inr d"
    "copy_outputs x src a b outs d = Inr dst'" by (auto simp: res_bind_Inr_iff)
  have "fs_ok d"
  proof (cases "fs_get src (a @ comps out)")
    case None
    with d(1) "2.prems" show ?thesis by (simp add: copy_path_def fs_read_ok)
  next
    case (Some s)
    then have "fs_ok s" by (rule fs_ok_get [OF "2.prems"(2)])
    moreover from d(1) Some have "fs_update (copy_onto x s) (b @ comps out) (Some dst) = Inr d"
      by (simp add: copy_path_def fs_read_ok [OF "2.prems"(2)])
    ultimately show ?thesis using copy_ok(1) "2.prems"(3) by (elim fs_update_ok) auto
  qed
  with "2.IH" [OF d "2.prems"(2)] show ?case by blast
qed simp

lemma fs_get_append: "fs_get t (a @ b) = Option.bind (fs_get t a) (\<lambda>u. fs_get u b)"
proof (induction t a rule: fs_get.induct)
  case (2 es c cs)
  then show ?case by (cases "bm_get es c") auto
qed auto

lemma store_fresh:
  assumes "separate outs" "fs_ok x" "fs_ok cache" "cache = Dir es" "fs_get cache (key_dir key) = None"
  shows "\<exists>c. store cache key outs x = Inr c \<and> fs_ok c \<and>
    (\<forall>out \<in> set outs. fs_get c (key_dir key @ comps out) = fs_get x (comps out))"
proof -
  have "bm_get es (to_hex key) = None" using assms(4,5) by (simp add: key_dir_def split: option.splits)
  then have "\<forall>out \<in> set outs. free_at (key_dir key @ comps out) (Some cache)"
    using assms(4) by (simp add: key_dir_def)
  from copy_outputs_fresh [OF assms(1,2) this, of x "[]"] copy_outputs_ok [OF _ assms(2,3)]
  show ?thesis unfolding store_def by fastforce
qed

lemma stored_restores:
  assumes "separate outs" "fs_ok x" "fs_ok cache" "cache = Dir es" "fs_get cache (key_dir key) = None"
    and "out \<in> set outs" "fs_get x (comps out) \<noteq> None"
    and "\<forall>out \<in> set outs. free_at (comps out) (Some y)"
  shows "\<exists>c y'. store cache key outs x = Inr c \<and> restore c key outs y = Inr (True, y') \<and>
    (\<forall>out \<in> set outs. fs_get y' (comps out) = fs_get x (comps out))"
proof -
  obtain c where c: "store cache key outs x = Inr c" "fs_ok c"
    "\<forall>out \<in> set outs. fs_get c (key_dir key @ comps out) = fs_get x (comps out)"
    using store_fresh [OF assms(1-5)] by blast
  then have "fs_get c (key_dir key @ comps out) \<noteq> None" using assms(6,7) by simp
  then have hit: "fs_get c (key_dir key) \<noteq> None" by (cases "fs_get c (key_dir key)") (auto simp: fs_get_append)
  have free: "\<forall>out \<in> set outs. free_at ([] @ comps out) (Some y)" using assms(8) by simp
  from copy_outputs_fresh [OF assms(1) c(2) free, of y "key_dir key"] obtain y' where
    y': "copy_outputs y c (key_dir key) [] outs y = Inr y'"
      "\<forall>out \<in> set outs. fs_get y' (comps out) = fs_get c (key_dir key @ comps out)" by auto
  with hit c show ?thesis by (auto simp: restore_def)
qed

text \<open>C10: Take outputs no two of which are the same path or one inside the other, at least one of which exists, below a
  directory of files and directories without links, and a cache that is such a directory and has no entry under the key.
  Storing the outputs under the key and restoring them into any tree in which nothing stands at their paths or, as a file,
  above them gives each output back as it was, a file or a whole directory; an output that was absent stays absent.\<close>

theorem store_restore_round_trip:
  assumes "separate outs" "fs_ok x" "fs_ok cache" "cache = Dir es" "fs_get cache (key_dir key) = None"
    and "out \<in> set outs" "fs_get x (comps out) \<noteq> None"
    and "\<forall>out \<in> set outs. free_at (comps out) (Some y)"
  shows "\<exists>c y'. store cache key outs x = Inr c \<and> restore c key outs y = Inr (True, y') \<and>
    (\<forall>out \<in> set outs. fs_get y' (comps out) = fs_get x (comps out))"
  by (rule stored_restores [OF assms])

theorem store_restore_round_trip_witness:
  "let x = Dir [(''d'', Dir [(''a'', File [1]), (''b'', File [])]), (''o'', File [2])];
       c = Dir [(''00'', Dir [(''o'', File [3])])]
   in \<exists>c' y'. store c (Digest [7]) [''d'', ''o''] x = Inr c' \<and>
        restore c' (Digest [7]) [''d'', ''o''] (Dir []) = Inr (True, y') \<and>
        (\<forall>out \<in> {''d'', ''o''}. fs_get y' (comps out) = fs_get x (comps out))"
proof -
  let ?x = "Dir [(''d'', Dir [(''a'', File [1]), (''b'', File [])]), (''o'', File [2])]"
  let ?es = "[(''00'', Dir [(''o'', File [3])])]"
  have "separate [''d'', ''o'']" by (simp add: separate_def comps_def parallel_def)
  moreover have "fs_ok ?x" "fs_ok (Dir ?es)" by simp_all
  moreover have "fs_get (Dir ?es) (key_dir (Digest [7])) = None" by code_simp
  moreover have "fs_get ?x (comps ''o'') \<noteq> None" by (simp add: comps_def bm_get_def)
  moreover have "\<forall>out \<in> set [''d'', ''o'']. free_at (comps out) (Some (Dir []))" by (simp add: comps_def)
  ultimately show ?thesis
    using store_restore_round_trip [of "[''d'', ''o'']" ?x "Dir ?es" ?es "Digest [7]" "''o''" "Dir []"]
    by (simp add: Let_def)
qed

subsection \<open>A second execution\<close>

lemma output_manifest_cong:
  "(\<And>out. out \<in> set (outputs act) \<Longrightarrow> fs_get x (comps out) = fs_get y (comps out)) \<Longrightarrow>
   output_manifest hash act x = output_manifest hash act y"
  by (auto simp: output_manifest_def digest_path_def List.map_filter_def intro!: arg_cong [of _ _ "sort_key fst"] map_cong filter_cong)

lemma execute_restored:
  assumes "restore (ws_cache w) (content_key hash act) (outputs act) (ws_exec w) = Inr (True, x)"
  shows "execute_action hash spawn debug root act w =
    (Cached (output_manifest hash act x), [], Some (w\<lparr>ws_exec := x\<rparr>))"
  using assms by (simp add: execute_action_def restore_or_run_def Let_def)

lemma execute_executed:
  assumes "execute_action hash spawn debug root act w = (Executed m, console, Some w')"
  shows "restore_or_run hash spawn root act w = Inr (False, 0, console, w') \<and>
    m = output_manifest hash act (ws_exec w')"
proof (cases "restore_or_run hash spawn root act w")
  case (Inl e)
  with assms show ?thesis by (simp add: execute_action_def)
next
  case (Inr r)
  obtain hit code out v where "r = (hit, code, out, v)" by (cases r)
  with Inr assms show ?thesis by (cases hit) (auto simp: execute_action_def split: if_splits)
qed

lemma run_missed:
  assumes "restore_or_run hash spawn root act w = Inr (False, 0, console, w')"
  obtains x where "restore (ws_cache w) (content_key hash act) (outputs act) (ws_exec w) = Inr (False, x)"
    "store (ws_cache w) (content_key hash act) (outputs act) (ws_exec w') = Inr (ws_cache w')"
proof -
  obtain hit x where r: "restore (ws_cache w) (content_key hash act) (outputs act) (ws_exec w) = Inr (hit, x)"
    using assms by (auto simp: restore_or_run_def Let_def res_bind_Inr_iff)
  have miss: "hit = False" using assms r by (cases hit) (simp_all add: restore_or_run_def Let_def)
  obtain n sb where "sync_inputs root (bm_keys (inputs act)) (ws_sandbox w) = Inr (n, sb)"
    using assms r miss by (auto simp: restore_or_run_def Let_def res_bind_Inr_iff)
  moreover from this obtain sb1 where "prepare_outputs (outputs act) sb = Inr sb1"
    using assms r miss by (auto simp: restore_or_run_def Let_def res_bind_Inr_iff)
  moreover from calculation obtain code out sb2 where "sandbox_run spawn sb1 (argv act) (env act) x = Inr (code, out, sb2)"
    using assms r miss by (auto simp: restore_or_run_def Let_def res_bind_Inr_iff)
  ultimately have "res_bind (capture_outputs sb2 (outputs act) x) (\<lambda>x.
      res_bind (store (ws_cache w) (content_key hash act) (outputs act) x) (\<lambda>c.
        Ok (False, code, out, \<lparr>ws_exec = x, ws_cache = c, ws_sandbox = sb2\<rparr>))) = Inr (False, 0, console, w')"
    using assms r miss by (simp add: restore_or_run_def Let_def split: if_splits)
  then have "store (ws_cache w) (content_key hash act) (outputs act) (ws_exec w') = Inr (ws_cache w')"
    by (auto simp: res_bind_Inr_iff)
  with r miss that show thesis by blast
qed

text \<open>C9: Let an action have run and exited with 0, with outputs no two of which are the same path or one inside the other
  and at least one of which exists afterwards, in an execution root and with a cache that are directories without links.
  Executing the same action (the same key) again with the cache it left, in any execution root in which nothing stands at the paths
  of the outputs or, as a file, above them, is a cache hit: nothing runs, and the manifest and every output are those of the
  first run.\<close>

theorem second_build_cached:
  assumes "execute_action hash spawn debug root act w = (Executed m, console, Some w')"
    and "separate (outputs act)" "ws_cache w = Dir es" "fs_ok (ws_cache w)" "fs_ok (ws_exec w')"
    and "out \<in> set (outputs act)" "fs_get (ws_exec w') (comps out) \<noteq> None"
    and "ws_cache v = ws_cache w'" "\<forall>out \<in> set (outputs act). free_at (comps out) (Some (ws_exec v))"
  shows "\<exists>v'. execute_action hash spawn debug root act v = (Cached m, [], Some v') \<and>
    (\<forall>out \<in> set (outputs act). fs_get (ws_exec v') (comps out) = fs_get (ws_exec w') (comps out))"
proof -
  let ?key = "content_key hash act"
  have r: "restore_or_run hash spawn root act w = Inr (False, 0, console, w')"
    "m = output_manifest hash act (ws_exec w')"
    using execute_executed [OF assms(1)] by simp_all
  obtain x where miss: "restore (ws_cache w) ?key (outputs act) (ws_exec w) = Inr (False, x)"
    and st: "store (ws_cache w) ?key (outputs act) (ws_exec w') = Inr (ws_cache w')"
    by (rule run_missed [OF r(1)])
  from miss have none: "fs_get (ws_cache w) (key_dir ?key) = None"
    by (auto simp: restore_def res_bind_Inr_iff split: if_splits)
  from stored_restores [OF assms(2,5,4,3) none assms(6,7,9)] st assms(8) obtain y where
    y: "restore (ws_cache v) ?key (outputs act) (ws_exec v) = Inr (True, y)"
      "\<forall>out \<in> set (outputs act). fs_get y (comps out) = fs_get (ws_exec w') (comps out)" by auto
  have "output_manifest hash act y = m" using y(2) r(2) by (auto intro: output_manifest_cong)
  with execute_restored [OF y(1)] y(2) show ?thesis by simp
qed

definition demo_action :: action where
  "demo_action =
     \<lparr>argv = [''cc''], inputs = [(''i'', Digest [])], env = [], tools = [], platform = ''p'', outputs = [''o'']\<rparr>"

definition demo_spawn :: spawner where
  "demo_spawn = (\<lambda>iso cmd vars x t. Ok (0, ''warning'', Dir [(''i'', Link ''i''), (''o'', File [1])]))"

definition demo_workspace :: workspace where
  "demo_workspace =
     \<lparr>ws_exec = Dir [(''i'', File [])], ws_cache = Dir [],
      ws_sandbox = \<lparr>sb_dir = ''s'', sb_owned = False, sb_how = Symlink, sb_isolation = NoIsolation, linked = [], sb_tree = Dir []\<rparr>\<rparr>"

theorem second_build_cached_witness:
  "\<exists>m console w' v'. execute_action (\<lambda>b. [7]) demo_spawn concat ''r'' demo_action demo_workspace = (Executed m, console, Some w') \<and>
     execute_action (\<lambda>b. [7]) demo_spawn concat ''r'' demo_action (demo_workspace\<lparr>ws_cache := ws_cache w'\<rparr>) = (Cached m, [], Some v')"
proof -
  let ?run = "execute_action (\<lambda>b. [7]) demo_spawn concat ''r'' demo_action demo_workspace"
  have run: "?run = (Executed [(''o'', Digest [7])], ''warning'', Some (the (snd (snd ?run))))"
    "ws_exec (the (snd (snd ?run))) = Dir [(''i'', File []), (''o'', File [1])]" by code_simp+
  have "separate (outputs demo_action)" by (simp add: demo_action_def separate_def)
  moreover have "ws_cache demo_workspace = Dir []" "fs_ok (ws_cache demo_workspace)"
    "''o'' \<in> set (outputs demo_action)" by (simp_all add: demo_workspace_def demo_action_def)
  moreover have "fs_ok (ws_exec (the (snd (snd ?run))))" "fs_get (ws_exec (the (snd (snd ?run)))) (comps ''o'') \<noteq> None"
    unfolding run(2) by code_simp+
  ultimately show ?thesis
    using second_build_cached [OF run(1), of "[]" "''o''" "demo_workspace\<lparr>ws_cache := ws_cache (the (snd (snd ?run)))\<rparr>"] run(1)
    by (fastforce simp: demo_action_def demo_workspace_def comps_def bm_get_def)
qed

subsection \<open>The links of a reused sandbox\<close>

lemma unlink_stale_links:
  "bm_ok (linked sb) \<Longrightarrow> unlink_stale rels sb n = (sb', n') \<Longrightarrow>
   bm_ok (linked sb') \<and> (\<forall>k. bm_get (linked sb') k = (if k \<in> set rels then None else bm_get (linked sb) k))"
  by (induction rels sb n rule: unlink_stale.induct) (auto simp: bm_get_remove)

lemma link_missing_links:
  "bm_ok (linked sb) \<Longrightarrow> link_missing root rels sb n = Inr (n', sb') \<Longrightarrow>
   bm_ok (linked sb') \<and>
   (\<forall>k. bm_get (linked sb') k = (if k \<in> set rels then Some (root @ ''/'' @ k) else bm_get (linked sb) k))"
proof (induction root rels sb n rule: link_missing.induct)
  case (2 root rel rels sb n)
  show ?case
  proof (cases "bm_get (linked sb) rel = Some (root @ ''/'' @ rel)")
    case True
    with 2 show ?thesis by (auto simp: Let_def)
  next
    case False
    with "2.prems"(2) obtain t where t: "link_one rel (sb_tree sb) = Inr t"
      "link_missing root rels (sb\<lparr>sb_tree := t, linked := bm_insert rel (root @ ''/'' @ rel) (linked sb)\<rparr>) (n + 1) = Inr (n', sb')"
      by (auto simp: Let_def res_bind_Inr_iff)
    from "2.IH"(1) [OF refl False t(1) _ t(2)] "2.prems"(1) show ?thesis by auto
  qed
qed simp

lemma link_missing_none:
  "\<forall>rel \<in> set rels. bm_get (linked sb) rel = Some (root @ ''/'' @ rel) \<Longrightarrow> link_missing root rels sb n = Inr (n, sb)"
  by (induction rels) (auto simp: Let_def)

text \<open>After \<open>sync_inputs\<close> a sandbox, whatever it held before, links exactly the declared inputs to their sources,
  and a second call for the same inputs changes nothing.\<close>

theorem sync_inputs_exact:
  assumes "sync_inputs root ins sb = Inr (n, sb')" "bm_ok (linked sb)"
  shows "bm_get (linked sb') rel = (if rel \<in> set ins then Some (root @ ''/'' @ rel) else None) \<and>
    sync_inputs root ins sb' = Inr (0, sb')"
proof -
  obtain sb1 n1 where un: "unlink_stale (filter (\<lambda>k. k \<notin> set ins) (bm_keys (linked sb))) sb 0 = (sb1, n1)" by force
  with assms(1) have li: "link_missing root ins sb1 n1 = Inr (n, sb')" by (simp add: sync_inputs_def Let_def)
  have links: "bm_get (linked sb') k = (if k \<in> set ins then Some (root @ ''/'' @ k) else None)" for k
    using unlink_stale_links [OF assms(2) un] link_missing_links [OF _ li] by (auto simp: bm_keys_set)
  then have "filter (\<lambda>k. k \<notin> set ins) (bm_keys (linked sb')) = []"
    by (auto simp: filter_empty_conv bm_keys_set split: if_splits)
  then have "sync_inputs root ins sb' = link_missing root ins sb' 0"
    by (simp add: sync_inputs_def Let_def)
  with links show ?thesis by (simp add: link_missing_none)
qed

theorem sync_inputs_exact_witness:
  "\<exists>n sb'. sync_inputs ''r'' [''a'', ''d/b''] ((ws_sandbox demo_workspace)\<lparr>linked := [(''c'', ''r/c'')], sb_tree := Dir [(''c'', Link ''c'')]\<rparr>) = Inr (n, sb') \<and>
     n = 3 \<and> bm_get (linked sb') ''c'' = None \<and> sync_inputs ''r'' [''a'', ''d/b''] sb' = Inr (0, sb')"
proof -
  let ?sb = "(ws_sandbox demo_workspace)\<lparr>linked := [(''c'', ''r/c'')], sb_tree := Dir [(''c'', Link ''c'')]\<rparr>"
  obtain sb' where "sync_inputs ''r'' [''a'', ''d/b''] ?sb = Inr (3, sb')"
  proof (rule that)
    show "sync_inputs ''r'' [''a'', ''d/b''] ?sb =
      Inr (3, ?sb\<lparr>linked := [(''a'', ''r/a''), (''d/b'', ''r/d/b'')],
        sb_tree := Dir [(''a'', Link ''a''), (''d'', Dir [(''b'', Link ''d/b'')])]\<rparr>)" by code_simp
  qed
  with sync_inputs_exact [OF this, of "''c''"] show ?thesis by (auto simp: demo_workspace_def)
qed

subsection \<open>Digests of directories\<close>

definition file_digest :: "(byte list \<Rightarrow> byte list) \<Rightarrow> fs option \<Rightarrow> digest option" where
  "file_digest hash t = (case t of Some (File b) \<Rightarrow> Some (digest_of hash b) | _ \<Rightarrow> None)"

text \<open>Names as an operating system has them: no slash, no NUL.\<close>

fun names_ok :: "fs \<Rightarrow> bool" where
  "names_ok (Dir es) \<longleftrightarrow> (\<forall>e \<in> set es. CHR ''/'' \<notin> set (fst e) \<and> CHR 0x00 \<notin> set (fst e) \<and> names_ok (snd e))"
| "names_ok _ \<longleftrightarrow> True"

lemma names_ok_path: "names_ok t \<Longrightarrow> fs_get t cs = Some s \<Longrightarrow> \<forall>c \<in> set cs. CHR ''/'' \<notin> set c \<and> CHR 0x00 \<notin> set c"
proof (induction t cs rule: fs_get.induct)
  case (2 es c cs)
  then obtain u where u: "bm_get es c = Some u" "fs_get u cs = Some s" by (auto split: option.splits)
  from bm_get_Some_in_set [OF u(1)] "2.prems"(1) have "names_ok u \<and> CHR ''/'' \<notin> set c \<and> CHR 0x00 \<notin> set c"
    by force
  with 2 u show ?case by auto
qed auto

definition file_entries :: "(byte list \<Rightarrow> byte list) \<Rightarrow> string \<Rightarrow> (string \<times> fs) list \<Rightarrow> (string \<times> digest) set" where
  "file_entries hash rel es =
     (\<lambda>(cs, d). (rel @ join_with ''/'' cs, d)) ` {(cs, d). file_digest hash (fs_get (Dir es) cs) = Some d}"

lemma file_entries_Cons:
  assumes "bm_ok ((n, s) # es)"
  shows "file_entries hash rel ((n, s) # es) =
    (case s of File b \<Rightarrow> {(rel @ n, digest_of hash b)} | Link l \<Rightarrow> {} | Dir ds \<Rightarrow> file_entries hash (rel @ n @ ''/'') ds) \<union>
    file_entries hash rel es"
proof -
  have other: "fs_get (Dir ((n, s) # es)) cs =
      (case cs of [] \<Rightarrow> Some (Dir ((n, s) # es)) | c # cs' \<Rightarrow> if c = n then fs_get s cs' else fs_get (Dir es) (c # cs'))" for cs
    by (cases cs) (auto simp: bm_get_def)
  have none: "fs_get (Dir es) (n # cs) = None" for cs
  proof -
    have "map_of es n = None" using assms by (auto simp: map_of_eq_None_iff)
    then show ?thesis by (simp add: bm_get_def)
  qed
  have "file_digest hash (fs_get (Dir ((n, s) # es)) cs) = Some d \<longleftrightarrow>
      (\<exists>cs'. cs = n # cs' \<and> file_digest hash (fs_get s cs') = Some d) \<or> file_digest hash (fs_get (Dir es) cs) = Some d" for cs d
    unfolding other using none by (cases cs) (auto simp: file_digest_def)
  then have "{(cs, d). file_digest hash (fs_get (Dir ((n, s) # es)) cs) = Some d} =
      (\<lambda>(cs, d). (n # cs, d)) ` {(cs, d). file_digest hash (fs_get s cs) = Some d} \<union>
      {(cs, d). file_digest hash (fs_get (Dir es) cs) = Some d}" by auto
  then have split: "file_entries hash rel ((n, s) # es) =
      (\<lambda>(cs, d). (rel @ join_with ''/'' (n # cs), d)) ` {(cs, d). file_digest hash (fs_get s cs) = Some d} \<union>
      file_entries hash rel es"
    by (simp add: file_entries_def image_Un image_image case_prod_unfold)
  have "(\<lambda>(cs, d). (rel @ join_with ''/'' (n # cs), d)) ` {(cs, d). file_digest hash (fs_get s cs) = Some d} =
    (case s of File b \<Rightarrow> {(rel @ n, digest_of hash b)} | Link l \<Rightarrow> {} | Dir ds \<Rightarrow> file_entries hash (rel @ n @ ''/'') ds)"
  proof (cases s)
    case (File b)
    then have "file_digest hash (fs_get s cs) = Some d \<longleftrightarrow> cs = [] \<and> d = digest_of hash b" for cs d
      by (cases cs) (auto simp: file_digest_def)
    then have "{(cs, d). file_digest hash (fs_get s cs) = Some d} = {([], digest_of hash b)}" by auto
    with File show ?thesis by simp
  next
    case (Link l)
    then have "file_digest hash (fs_get s cs) = None" for cs by (cases cs) (auto simp: file_digest_def)
    with Link show ?thesis by simp
  next
    case (Dir ds)
    have "join_with ''/'' (n # cs) = n @ ''/'' @ join_with ''/'' cs"
      if "file_digest hash (fs_get (Dir ds) cs) = Some d" for cs d
      using that by (cases cs) (auto simp: file_digest_def)
    then show ?thesis unfolding Dir fs.case file_entries_def by (intro image_cong) auto
  qed
  with split show ?thesis by simp
qed

lemma digest_tree_files:
  "fs_ok (Dir es) \<Longrightarrow> \<exists>files. digest_tree_into hash rel es = Some files \<and> set files = file_entries hash rel es"
proof (induction hash rel es rule: digest_tree_into.induct)
  case (1 hash rel)
  have "fs_get (Dir []) cs \<noteq> Some (File b)" for cs b by (cases cs) simp_all
  then have "file_digest hash (fs_get (Dir []) cs) = None" for cs
    by (auto simp: file_digest_def split: option.split fs.split)
  then show ?case by (simp add: file_entries_def)
next
  case (2 hash rel n s es)
  have ok: "fs_ok s" "fs_ok (Dir es)" "bm_ok ((n, s) # es)" using "2.prems" by auto
  show ?case
  proof (cases s)
    case (File b)
    with "2.IH" ok obtain f where "digest_tree_into hash rel es = Some f" "set f = file_entries hash rel es" by blast
    with File ok show ?thesis by (auto simp: file_entries_Cons)
  next
    case (Link l)
    with ok show ?thesis by simp
  next
    case (Dir ds)
    with "2.IH" ok(1) obtain a where a: "digest_tree_into hash (rel @ n @ ''/'') ds = Some a"
      "set a = file_entries hash (rel @ n @ ''/'') ds" by blast
    with "2.IH" Dir ok(2) obtain b where "digest_tree_into hash rel es = Some b" "set b = file_entries hash rel es"
      by blast
    with a Dir ok show ?thesis by (auto simp: file_entries_Cons)
  qed
qed

subsection \<open>The buffer of a directory is a prefix code\<close>

lemma until_sep: "xs @ c # r = ys @ c # s \<Longrightarrow> c \<notin> set xs \<Longrightarrow> c \<notin> set ys \<Longrightarrow> xs = ys \<and> r = s"
proof (induction xs arbitrary: ys)
  case Nil
  then show ?case by (cases ys) auto
next
  case (Cons x xs)
  then show ?case by (cases ys) auto
qed

definition tree_record :: "string \<times> digest \<Rightarrow> byte list" where
  "tree_record = (\<lambda>(rel, dg). str_bytes rel @ [0] @ str_bytes (to_hex dg) @ [0])"

lemma no_NUL_bytes: "CHR 0x00 \<notin> set s \<Longrightarrow> 0 \<notin> set (str_bytes s)"
proof
  assume "CHR 0x00 \<notin> set s" "0 \<in> set (str_bytes s)"
  then obtain c where "c \<in> set s" "(of_nat (of_char c) :: byte) = 0" by (auto simp: str_bytes_def)
  then have "c = CHR 0x00" using char_byte_inj [of c "CHR 0x00"] by simp
  with \<open>CHR 0x00 \<notin> set s\<close> \<open>c \<in> set s\<close> show False by simp
qed

lemma hex_byte_digits: "c \<in> set (hex_byte b) \<Longrightarrow> \<exists>n < 16. c = hex_digit n"
proof -
  have "unat b < 256" using unsigned_less [of b] by simp
  then have "unat b div 16 < 16" "unat b mod 16 < 16" by simp_all
  moreover assume "c \<in> set (hex_byte b)"
  then have "c = hex_digit (unat b div 16) \<or> c = hex_digit (unat b mod 16)" by (auto simp: hex_byte_def)
  ultimately show "\<exists>n < 16. c = hex_digit n" by blast
qed

lemma hex_no_NUL: "CHR 0x00 \<notin> set (to_hex d)"
proof
  assume "CHR 0x00 \<in> set (to_hex d)"
  then obtain b where "CHR 0x00 \<in> set (hex_byte b)" by (auto simp: to_hex_def)
  then obtain n where "n < 16" "CHR 0x00 = hex_digit n" using hex_byte_digits by blast
  moreover from this(2) have "(of_char (hex_digit n) :: nat) = 0" by (simp flip: \<open>CHR 0x00 = hex_digit n\<close>)
  ultimately show False by (simp add: of_char_hex_digit split: if_splits)
qed

interpretation tree: prefix_code tree_record "\<lambda>(rel, dg). CHR 0x00 \<notin> set rel"
proof
  fix x y :: "string \<times> digest" and r s
  assume ok: "case x of (rel, dg) \<Rightarrow> CHR 0x00 \<notin> set rel" "case y of (rel, dg) \<Rightarrow> CHR 0x00 \<notin> set rel"
    and eq: "tree_record x @ r = tree_record y @ s"
  obtain a d b e where xy: "x = (a, d)" "y = (b, e)" by (cases x; cases y)
  from eq xy have "str_bytes a @ 0 # str_bytes (to_hex d) @ 0 # r = str_bytes b @ 0 # str_bytes (to_hex e) @ 0 # s"
    by (simp add: tree_record_def)
  from until_sep [OF this] ok xy have ab: "str_bytes a = str_bytes b"
    and rest: "str_bytes (to_hex d) @ 0 # r = str_bytes (to_hex e) @ 0 # s" by (simp_all add: no_NUL_bytes)
  from until_sep [OF rest] have "str_bytes (to_hex d) = str_bytes (to_hex e)" "r = s"
    by (simp_all add: no_NUL_bytes hex_no_NUL)
  with ab xy show "x = y \<and> r = s" by (auto dest!: str_bytes_inj to_hex_inj)
qed (auto simp: tree_record_def)

lemma tree_buffer_inj:
  "tree_buffer fa = tree_buffer fb \<Longrightarrow> \<forall>(rel, dg) \<in> set fa \<union> set fb. CHR 0x00 \<notin> set rel \<Longrightarrow> fa = fb"
  using tree.concat_prefix [of fa fb] by (auto simp: tree_buffer_def tree_record_def list_all_iff)

definition dir_buffer :: "(byte list \<Rightarrow> byte list) \<Rightarrow> (string \<times> fs) list \<Rightarrow> byte list" where
  "dir_buffer hash es = tree_buffer (sort_key fst (the (digest_tree_into hash [] es)))"

lemma join_names_inj:
  "join_with ''/'' cs = join_with ''/'' ds \<Longrightarrow> cs \<noteq> [] \<Longrightarrow> ds \<noteq> [] \<Longrightarrow>
   \<forall>c \<in> set cs \<union> set ds. CHR ''/'' \<notin> set c \<Longrightarrow> cs = ds"
  by (metis UnI1 UnI2 split_join_char)

lemma join_names_chars: "x \<in> set (join_with ''/'' cs) \<Longrightarrow> x = CHR ''/'' \<or> (\<exists>c \<in> set cs. x \<in> set c)"
  by (induction "''/''" cs rule: join_with.induct) auto

lemma file_entries_path:
  assumes "names_ok (Dir es)" "names_ok (Dir fs)" "file_entries hash [] es \<subseteq> file_entries hash [] fs"
    and "file_digest hash (fs_get (Dir es) cs) = Some d"
  shows "file_digest hash (fs_get (Dir fs) cs) = Some d"
proof -
  from assms(3,4) obtain ds where ds: "join_with ''/'' cs = join_with ''/'' ds"
    "file_digest hash (fs_get (Dir fs) ds) = Some d" by (auto simp: file_entries_def)
  have ne: "cs \<noteq> []" "ds \<noteq> []" using assms(4) ds(2) by (auto simp: file_digest_def)
  have "\<forall>c \<in> set cs \<union> set ds. CHR ''/'' \<notin> set c"
    using assms(4) ds(2) names_ok_path [OF assms(1), of cs] names_ok_path [OF assms(2), of ds]
    by (auto simp: file_digest_def split: option.splits)
  with ds ne show ?thesis using join_names_inj by metis
qed

lemma file_entries_clean:
  assumes "(rel, d) \<in> file_entries hash [] gs" "names_ok (Dir gs)"
  shows "CHR 0x00 \<notin> set rel"
proof -
  obtain cs where cs: "rel = join_with ''/'' cs" "file_digest hash (fs_get (Dir gs) cs) = Some d"
    using assms(1) by (auto simp: file_entries_def)
  then obtain s where "fs_get (Dir gs) cs = Some s" by (auto simp: file_digest_def split: option.splits)
  from names_ok_path [OF assms(2) this] have "\<forall>c \<in> set cs. CHR 0x00 \<notin> set c" by blast
  with cs(1) join_names_chars [of "CHR 0x00" cs] show ?thesis by auto
qed

text \<open>Two directories with equal digests agree on the content digest of every file below them, unless the hash
  collides on their two buffers.\<close>

theorem digest_path_complete:
  assumes "fs_get x p = Some (Dir es)" "fs_get y q = Some (Dir fs)"
    and "fs_ok (Dir es)" "fs_ok (Dir fs)" "names_ok (Dir es)" "names_ok (Dir fs)"
    and "digest_path hash x p = digest_path hash y q"
  shows "file_digest hash (fs_get x (p @ cs)) = file_digest hash (fs_get y (q @ cs)) \<or>
    (dir_buffer hash es \<noteq> dir_buffer hash fs \<and> hash (dir_buffer hash es) = hash (dir_buffer hash fs))"
proof -
  obtain fa where fa: "digest_tree_into hash [] es = Some fa" "set fa = file_entries hash [] es"
    using digest_tree_files [OF assms(3)] by blast
  obtain fb where fb: "digest_tree_into hash [] fs = Some fb" "set fb = file_entries hash [] fs"
    using digest_tree_files [OF assms(4)] by blast
  have "hash (dir_buffer hash es) = hash (dir_buffer hash fs)"
    using assms(1,2,7) fa(1) fb(1) by (simp add: digest_path_def dir_buffer_def digest_of_def)
  moreover have "file_digest hash (fs_get x (p @ cs)) = file_digest hash (fs_get y (q @ cs))"
    if "dir_buffer hash es = dir_buffer hash fs"
  proof -
    have "sort_key fst fa = sort_key fst fb"
      using that fa fb assms(5,6) file_entries_clean by (intro tree_buffer_inj) (auto simp: dir_buffer_def)
    then have "set fa = set fb" by (metis set_sort)
    then have "file_entries hash [] es = file_entries hash [] fs" using fa(2) fb(2) by simp
    then have "file_digest hash (fs_get (Dir es) cs) = file_digest hash (fs_get (Dir fs) cs)"
      using file_entries_path [OF assms(5,6)] file_entries_path [OF assms(6,5)]
      by (metis not_None_eq order_refl)
    with assms(1,2) show ?thesis by (simp add: fs_get_append)
  qed
  ultimately show ?thesis by blast
qed

theorem digest_path_complete_witness:
  "let x = Dir [(''d'', Dir [(''a'', File [1])]), (''e'', Dir [])]; hash = (\<lambda>b. b)
   in digest_path hash x [''d''] \<noteq> digest_path hash x [''e''] \<and>
      (file_digest hash (fs_get x [''d'', ''a'']) = file_digest hash (fs_get x [''d'', ''a'']) \<or>
       hash (dir_buffer hash [(''a'', File [1])]) \<noteq> hash (dir_buffer hash [(''a'', File [1])]))"
proof -
  let ?x = "Dir [(''d'', Dir [(''a'', File [1])]), (''e'', Dir [])]"
  have "fs_get ?x [''d''] = Some (Dir [(''a'', File [1])])" by (simp add: bm_get_def)
  from digest_path_complete [OF this this, of "\<lambda>b. b" "[''a'']"]
  have "file_digest (\<lambda>b. b) (fs_get ?x [''d'', ''a'']) = file_digest (\<lambda>b. b) (fs_get ?x [''d'', ''a'']) \<or>
     dir_buffer (\<lambda>b. b) [(''a'', File [1])] \<noteq> dir_buffer (\<lambda>b. b) [(''a'', File [1])]" by simp
  moreover have "digest_path (\<lambda>b. b) ?x [''d''] \<noteq> digest_path (\<lambda>b. b) ?x [''e'']" by code_simp
  ultimately show ?thesis by (simp add: Let_def)
qed

subsection \<open>Where the executor departs from its contract\<close>

text \<open>
  A restored directory is merged into the one that is already there: a file of an earlier version of the
  output stays, and the manifest of the cache hit is not the manifest of the run that was cached.
\<close>

lemma restore_keeps_stale_files:
  "let act = demo_action\<lparr>outputs := [''d'']\<rparr>;
       spawn = (\<lambda>iso cmd vars x t. Ok (0, [], Dir [(''i'', Link ''i''), (''d'', Dir [(''new'', File [1])])]));
       (r1, _, w1) = execute_action (\<lambda>b. [of_nat (length b)]) spawn concat ''r'' act demo_workspace;
       (r2, _, w2) = execute_action (\<lambda>b. [of_nat (length b)]) spawn concat ''r'' act
          (demo_workspace\<lparr>ws_cache := ws_cache (the w1), ws_exec := Dir [(''d'', Dir [(''old'', File [2])]), (''i'', File [])]\<rparr>)
   in fs_get (ws_exec (the w2)) [''d'', ''old''] = Some (File [2]) \<and>
      (case (r1, r2) of (Executed m, Cached n) \<Rightarrow> m \<noteq> n | _ \<Rightarrow> False)"
  by code_simp

text \<open>An action none of whose outputs exists after the run leaves no entry in the cache: it runs every time.\<close>

lemma no_output_is_never_cached:
  "let act = demo_action\<lparr>outputs := []\<rparr>;
       (r1, _, w1) = execute_action (\<lambda>b. [7]) demo_spawn concat ''r'' act demo_workspace;
       (r2, _, w2) = execute_action (\<lambda>b. [7]) demo_spawn concat ''r'' act (the w1)
   in r1 = Executed [] \<and> r2 = Executed []"
  by code_simp

text \<open>
  A sandbox that is reused keeps the outputs of its last run: an action that exits with success and
  writes nothing is recorded with the output of an earlier version of its inputs.
\<close>

lemma sandbox_keeps_stale_output:
  "let (r, _, w) = execute_action (\<lambda>b. [7]) (\<lambda>iso cmd vars x t. Ok (0, [], t)) concat ''r'' demo_action
     (demo_workspace\<lparr>ws_sandbox := (ws_sandbox demo_workspace)\<lparr>sb_tree := Dir [(''o'', File [9])]\<rparr>\<rparr>)
   in r = Executed [(''o'', Digest [7])] \<and> fs_get (ws_exec (the w)) [''o''] = Some (File [9])"
  by code_simp

text \<open>
  The key is made of digests taken before the action runs, and nothing looks at the inputs afterwards: an input edited in
  between is read as it is then, and the output is kept under the key of the old content.  When the edit is taken back the
  wrong output is a cache hit.  Below an action copies \<open>i\<close>, whose recorded digest is that of the byte 1, to \<open>o\<close>.
\<close>

definition demo_hash :: "byte list \<Rightarrow> byte list" where
  "demo_hash b = (case b of [x] \<Rightarrow> [x] | _ \<Rightarrow> [7])"

definition demo_copies :: action where
  "demo_copies = demo_action\<lparr>inputs := [(''i'', Digest [1])]\<rparr>"

definition demo_copy :: spawner where
  "demo_copy = (\<lambda>iso cmd vars x t.
     Ok (0, [], case t of
                  Dir es \<Rightarrow> (case fs_read x t [''i''] of Some u \<Rightarrow> Dir (bm_insert ''o'' u es) | None \<Rightarrow> t)
                | _ \<Rightarrow> t))"

definition demo_edited_run :: "exec_outcome \<times> string \<times> workspace option" where
  "demo_edited_run =
     execute_action demo_hash demo_copy concat ''r'' demo_copies (demo_workspace\<lparr>ws_exec := Dir [(''i'', File [2, 2])]\<rparr>)"

lemma demo_hash_one: "digest_of demo_hash [1] = Digest [1]"
  by (simp add: digest_of_def demo_hash_def)

lemma edited_run_cached: "ws_cache (the (snd (snd demo_edited_run))) = Dir [(''07'', Dir [(''o'', File [2, 2])])]"
  by code_simp

lemma edit_during_action_is_cached:
  "let (r, _, w) = execute_action demo_hash demo_copy concat ''r'' demo_copies
     (demo_workspace\<lparr>ws_exec := Dir [(''i'', File [1])], ws_cache := Dir [(''07'', Dir [(''o'', File [2, 2])])]\<rparr>)
   in r = Cached [(''o'', Digest [7])] \<and> fs_get (ws_exec (the w)) [''o''] = Some (File [2, 2])"
  by code_simp

text \<open>A file whose bytes are the buffer of a directory has the directory's digest.\<close>

lemma file_digests_as_directory:
  "let hash = (\<lambda>b. b); es = [(''a'', File [1])]
   in digest_path hash (Dir [(''x'', Dir es)]) [''x''] = digest_path hash (Dir [(''x'', File (dir_buffer hash es))]) [''x'']"
  by code_simp

end
