(* ===== verification/Engine.thy ===== *)
theory Engine
  imports Core
begin

section \<open>razel-engine: demand-driven recomputation with early cutoff\<close>

text \<open>
  \<^verbatim>\<open>crates/razel-engine/src/lib.rs\<close>, the serial evaluator.  The state of an \<open>Engine\<close> is the record
  \<open>engine\<close>: the node table, the revision counter, the recompute counter, the set of keys being
  requested, and the cancellation flag.  A compute function is a HOL function of the named dependency
  values (actions are deterministic functions of their inputs; that is the contract the engine is
  built on).  The flag is an \<open>AtomicBool\<close> another thread writes: \<open>cancel\<close> gives the answer of
  each read, \<open>polls\<close> counts the reads, so any schedule of the other thread is some \<open>cancel\<close>.
  Error results are \<open>Fail\<close>; an \<open>expect\<close>, an \<open>unwrap\<close>, an index or an \<open>unreachable!\<close> that fails is
  \<open>Panic\<close>.  The revision is a \<open>u64\<close> that grows by one per edit and is not expected to overflow.
\<close>

datatype node_value = NDigest digest | NManifest "(string \<times> digest) list"

record dep_value =
  dv_key :: string
  dv_value :: node_value

type_synonym compute_fn = "dep_value list \<Rightarrow> string + node_value"

datatype kind = Input | Derived "string list" compute_fn

record node =
  n_kind :: kind
  n_value :: "node_value option"
  verified_at :: nat
  changed_at :: nat

record engine =
  nodes :: "(string, node) bmap"
  revision :: nat
  recomputes :: nat
  in_progress :: "string list"
  cancel :: "(nat \<Rightarrow> bool) option"
  polls :: nat

datatype engine_error = Fail string | Panic string

definition digest_equal :: "node_value \<Rightarrow> node_value \<Rightarrow> bool" where
  "digest_equal a b \<longleftrightarrow> a = b"

definition engine_new :: engine where
  "engine_new = \<lparr>nodes = [], revision = 0, recomputes = 0, in_progress = [], cancel = None, polls = 0\<rparr>"

abbreviation node_at :: "engine \<Rightarrow> string \<Rightarrow> node option" where
  "node_at e k \<equiv> bm_get (nodes e) k"

text \<open>\<open>nodes.get_mut(k).unwrap()\<close> followed by an update in place.\<close>

definition upd_node :: "string \<Rightarrow> (node \<Rightarrow> node) \<Rightarrow> engine \<Rightarrow> engine" where
  "upd_node k f e =
     (case node_at e k of None \<Rightarrow> e | Some n \<Rightarrow> e\<lparr>nodes := bm_insert k (f n) (nodes e)\<rparr>)"

subsection \<open>Definitions of nodes and edits\<close>

definition add_input :: "string \<Rightarrow> node_value \<Rightarrow> engine \<Rightarrow> engine" where
  "add_input key v e =
     e\<lparr>nodes := bm_insert key
         \<lparr>n_kind = Input, n_value = Some v, verified_at = revision e, changed_at = revision e\<rparr>
         (nodes e)\<rparr>"

definition insert_derived :: "string \<Rightarrow> string list \<Rightarrow> compute_fn \<Rightarrow> engine \<Rightarrow> engine" where
  "insert_derived key deps compute e =
     e\<lparr>nodes := bm_insert key
         \<lparr>n_kind = Derived deps compute, n_value = None, verified_at = 0, changed_at = 0\<rparr>
         (nodes e)\<rparr>"

definition add_derived ::
    "string \<Rightarrow> string list \<Rightarrow> (dep_value list \<Rightarrow> node_value) \<Rightarrow> engine \<Rightarrow> engine" where
  "add_derived key deps compute e = insert_derived key deps (\<lambda>d. Inr (compute d)) e"

definition add_action_node :: "string \<Rightarrow> string list \<Rightarrow> compute_fn \<Rightarrow> engine \<Rightarrow> engine" where
  "add_action_node key deps execute e = insert_derived key deps execute e"

definition set_input :: "string \<Rightarrow> node_value \<Rightarrow> engine \<Rightarrow> engine_error + engine" where
  "set_input key v e =
     (let rev = revision e + 1;
          e = e\<lparr>revision := rev\<rparr>
      in case node_at e key of
           None \<Rightarrow> Inl (Panic ''unknown input'')
         | Some n \<Rightarrow>
             (let n = (if n_value n \<noteq> Some v then n\<lparr>n_value := Some v, changed_at := rev\<rparr> else n);
                  n = n\<lparr>verified_at := rev\<rparr>
              in Inr (e\<lparr>nodes := bm_insert key n (nodes e)\<rparr>)))"

definition reset_recomputes :: "engine \<Rightarrow> engine" where
  "reset_recomputes e = e\<lparr>recomputes := 0\<rparr>"

definition set_cancel :: "(nat \<Rightarrow> bool) option \<Rightarrow> engine \<Rightarrow> engine" where
  "set_cancel flag e = e\<lparr>cancel := flag, polls := 0\<rparr>"

definition cancelled :: "engine \<Rightarrow> bool \<times> engine" where
  "cancelled e =
     (case cancel e of None \<Rightarrow> (False, e) | Some c \<Rightarrow> (c (polls e), e\<lparr>polls := polls e + 1\<rparr>))"

subsection \<open>The serial request\<close>

type_synonym req_result = "((engine_error + node_value) \<times> engine) option"

text \<open>The loop over the dependencies, with the request of one key as a parameter.\<close>

fun request_deps ::
    "(string \<Rightarrow> engine \<Rightarrow> req_result) \<Rightarrow> string list \<Rightarrow> dep_value list \<Rightarrow> nat \<Rightarrow> engine \<Rightarrow>
     ((engine_error + dep_value list \<times> nat) \<times> engine) option" where
  "request_deps req [] dep_values max_dep_changed e = Some (Inr (dep_values, max_dep_changed), e)"
| "request_deps req (d # ds) dep_values max_dep_changed e =
     (case req d e of
        None \<Rightarrow> None
      | Some (Inl err, e) \<Rightarrow> Some (Inl err, e)
      | Some (Inr v, e) \<Rightarrow>
          (case node_at e d of
             None \<Rightarrow> Some (Inl (Panic ''no entry found for key''), e)
           | Some nd \<Rightarrow>
               request_deps req ds (dep_values @ [\<lparr>dv_key = d, dv_value = v\<rparr>])
                 (max max_dep_changed (changed_at nd)) e))"

text \<open>What is left once the dependencies are validated: cut off, or run the compute function.\<close>

definition recompute :: "string \<Rightarrow> nat \<Rightarrow> dep_value list \<Rightarrow> engine \<Rightarrow> (engine_error + node_value) \<times> engine" where
  "recompute key cur dep_values e =
     (case node_at e key of
        None \<Rightarrow> (Inl (Panic ''no entry found for key''), e)
      | Some n \<Rightarrow>
          (case n_kind n of
             Input \<Rightarrow> (Inl (Panic ''entered unreachable code''), e)
           | Derived _ compute \<Rightarrow>
               (let e = e\<lparr>recomputes := recomputes e + 1\<rparr>
                in case compute dep_values of
                     Inl err \<Rightarrow> (Inl (Fail err), e)
                   | Inr new \<Rightarrow>
                       (Inr new,
                        upd_node key
                          (\<lambda>n. (if n_value n \<noteq> Some new then n\<lparr>changed_at := cur\<rparr> else n)
                                 \<lparr>n_value := Some new, verified_at := cur\<rparr>) e))))"

definition request_inner :: "(string \<Rightarrow> engine \<Rightarrow> req_result) \<Rightarrow> string \<Rightarrow> engine \<Rightarrow> req_result" where
  "request_inner req key e =
     (let (stop, e) = cancelled e in
      if stop then Some (Inl (Fail ''cancelled''), e)
      else
        (let cur = revision e in
         case node_at e key of
           None \<Rightarrow> Some (Inl (Fail (''unknown node `'' @ key @ ''`'')), e)
         | Some n \<Rightarrow>
             if verified_at n = cur \<and> n_value n \<noteq> None then Some (Inr (the (n_value n)), e)
             else
               (case n_kind n of
                  Input \<Rightarrow>
                    (let e = upd_node key (\<lambda>n. n\<lparr>verified_at := cur\<rparr>) e
                     in case n_value n of
                          None \<Rightarrow> Some (Inl (Panic ''input has no value''), e)
                        | Some v \<Rightarrow> Some (Inr v, e))
                | Derived deps _ \<Rightarrow>
                    (case request_deps req deps [] 0 e of
                       None \<Rightarrow> None
                     | Some (Inl err, e) \<Rightarrow> Some (Inl err, e)
                     | Some (Inr (dep_values, max_dep_changed), e) \<Rightarrow>
                         if n_value n \<noteq> None \<and> max_dep_changed \<le> verified_at n then
                           Some (Inr (the (n_value n)), upd_node key (\<lambda>n. n\<lparr>verified_at := cur\<rparr>) e)
                         else Some (recompute key cur dep_values e)))))"

text \<open>
  \<open>request\<close> with a bound on the depth of the recursion.  The recursion is over keys that are not
  yet in progress, so one more than the number of nodes is always enough (\<open>request_enough_fuel\<close>).
\<close>

primrec request :: "nat \<Rightarrow> string \<Rightarrow> engine \<Rightarrow> req_result" where
  "request 0 key e = None"
| "request (Suc fuel) key e =
     (if key \<in> set (in_progress e) then
        Some (Inl (Fail (''dependency cycle at `'' @ key @ ''`'')), e)
      else
        (case request_inner (request fuel) key (e\<lparr>in_progress := hs_insert key (in_progress e)\<rparr>) of
           None \<Rightarrow> None
         | Some (r, e) \<Rightarrow> Some (r, e\<lparr>in_progress := removeAll key (in_progress e)\<rparr>)))"

definition engine_request :: "string \<Rightarrow> engine \<Rightarrow> (engine_error + node_value) \<times> engine" where
  "engine_request key e =
     (case request (Suc (length (nodes e))) key e of
        Some r \<Rightarrow> r
      | None \<Rightarrow> (Inl (Panic ''recursion limit''), e))"

subsection \<open>Specification: evaluation from scratch\<close>

text \<open>
  What a key's value is, independently of any stored value or revision: an input has its value, a
  derived node is its compute function applied to the values of its dependencies.
\<close>

datatype ndef = DInput node_value | DDerived "string list" compute_fn

fun def_of :: "node \<Rightarrow> ndef" where
  "def_of n = (case n_kind n of Input \<Rightarrow> DInput (the (n_value n)) | Derived ds f \<Rightarrow> DDerived ds f)"

definition defs :: "engine \<Rightarrow> string \<Rightarrow> ndef option" where
  "defs e k = map_option def_of (node_at e k)"

inductive evals :: "(string \<Rightarrow> ndef option) \<Rightarrow> string \<Rightarrow> node_value \<Rightarrow> bool" for D where
  ev_input: "D k = Some (DInput v) \<Longrightarrow> evals D k v"
| ev_derived: "D k = Some (DDerived ds f) \<Longrightarrow>
     list_all2 (\<lambda>d dv. dv_key dv = d \<and> evals D d (dv_value dv)) ds dvs \<Longrightarrow>
     f dvs = Inr v \<Longrightarrow> evals D k v"

inductive_cases evalsE: "evals D k v"

lemma evals_deterministic: "evals D k v \<Longrightarrow> evals D k w \<Longrightarrow> v = w"
proof (induction arbitrary: w rule: evals.induct)
  case (ev_input k v)
  from ev_input(2) ev_input(1) show ?case by cases auto
next
  case (ev_derived k ds f dvs v)
  from ev_derived(4) show ?case
  proof cases
    case ev_input
    with ev_derived(1) show ?thesis by simp
  next
    case (ev_derived ds' f' dvs')
    with \<open>D k = Some (DDerived ds f)\<close> have eq: "ds' = ds" "f' = f" by simp_all
    have "dvs = dvs'"
      using \<open>list_all2 _ ds dvs\<close> ev_derived(2) unfolding eq
    proof (induction ds arbitrary: dvs dvs')
      case (Cons d ds)
      then show ?case by (auto simp: list_all2_Cons1)
    qed simp
    with \<open>f dvs = Inr v\<close> ev_derived(3) eq show ?thesis by simp
  qed
qed

lemma evals_mono:
  "evals D k v \<Longrightarrow> (\<And>k d. D k = Some d \<Longrightarrow> D' k = Some d) \<Longrightarrow> evals D' k v"
proof (induction rule: evals.induct)
  case (ev_input k v)
  then show ?case by (blast intro: evals.ev_input)
next
  case (ev_derived k ds f dvs v)
  have "list_all2 (\<lambda>d dv. dv_key dv = d \<and> evals D' d (dv_value dv)) ds dvs"
    using ev_derived.IH by (rule list_all2_mono) (use ev_derived.prems in auto)
  with ev_derived.hyps ev_derived.prems show ?case by (blast intro: evals.ev_derived)
qed

end
