(* ===== verification/Engine_Sound.thy ===== *)
theory Engine_Sound
  imports Engine
begin

section \<open>The engine invariant, and soundness of a request\<close>

text \<open>
  The invariant every operation keeps, and the proof that a request which returns a value returns the
  value a from-scratch evaluation gives.  The recursion is proved once, inside the locale
  \<open>validating_request\<close>: whatever evaluator of single keys keeps the contract, the dependency loop and
  the request built on it keep it too; \<open>request fuel\<close> is then an instance for every \<open>fuel\<close>.
\<close>

definition value_at :: "engine \<Rightarrow> string \<Rightarrow> node_value option" where
  "value_at e k = Option.bind (node_at e k) n_value"

definition changed_of :: "engine \<Rightarrow> string \<Rightarrow> nat" where
  "changed_of e k = (case node_at e k of None \<Rightarrow> 0 | Some n \<Rightarrow> changed_at n)"

definition named :: "engine \<Rightarrow> string \<Rightarrow> dep_value" where
  "named e d = \<lparr>dv_key = d, dv_value = the (value_at e d)\<rparr>"

definition fresh_at :: "nat \<Rightarrow> node \<Rightarrow> bool" where
  "fresh_at r n \<longleftrightarrow> n_value n \<noteq> None \<and> verified_at n = r"

definition validated :: "engine \<Rightarrow> string \<Rightarrow> bool" where
  "validated e k \<longleftrightarrow> (\<exists>n. node_at e k = Some n \<and> fresh_at (revision e) n)"

text \<open>
  A stored value is what its compute function gives on the stored values of its dependencies, unless one
  of them changed after the node was last verified.
\<close>

definition node_inv :: "engine \<Rightarrow> node \<Rightarrow> bool" where
  "node_inv e n \<longleftrightarrow>
     verified_at n \<le> revision e \<and>
     (n_kind n = Input \<longrightarrow> n_value n \<noteq> None) \<and>
     (\<forall>ds f v. n_kind n = Derived ds f \<longrightarrow> n_value n = Some v \<longrightarrow>
        (\<forall>d \<in> set ds. value_at e d \<noteq> None) \<and>
        ((\<forall>d \<in> set ds. changed_of e d \<le> verified_at n) \<longrightarrow> f (map (named e) ds) = Inr v))"

definition closed_inv :: "engine \<Rightarrow> bool" where
  "closed_inv e \<longleftrightarrow>
     (\<forall>k n ds f. node_at e k = Some n \<longrightarrow> fresh_at (revision e) n \<longrightarrow> n_kind n = Derived ds f \<longrightarrow>
        (\<forall>d \<in> set ds. validated e d))"

definition engine_inv :: "engine \<Rightarrow> bool" where
  "engine_inv e \<longleftrightarrow>
     bm_ok (nodes e) \<and>
     (\<forall>k n. node_at e k = Some n \<longrightarrow> node_inv e n) \<and>
     closed_inv e \<and>
     (\<forall>k. validated e k \<longrightarrow> evals (defs e) k (the (value_at e k)))"

subsection \<open>What a request may change\<close>

text \<open>One node is brought up to date: it was not, and its change revision moves only with its value.\<close>

definition commits :: "nat \<Rightarrow> node \<Rightarrow> node \<Rightarrow> bool" where
  "commits r n n' \<longleftrightarrow>
     \<not> fresh_at r n \<and> fresh_at r n' \<and> n_kind n' = n_kind n \<and>
     changed_at n' = (if n_value n' = n_value n then changed_at n else r) \<and>
     (n_kind n = Input \<longrightarrow> n_value n' = n_value n)"

definition frame :: "string set \<Rightarrow> engine \<Rightarrow> engine \<Rightarrow> bool" where
  "frame P e e' \<longleftrightarrow>
     revision e' = revision e \<and> cancel e' = cancel e \<and> in_progress e' = in_progress e \<and>
     recomputes e \<le> recomputes e' \<and>
     (\<forall>k. rel_option (\<lambda>n n'. n' = n \<or> commits (revision e) n n') (node_at e k) (node_at e' k)) \<and>
     (\<forall>k \<in> P. node_at e' k = node_at e k)"

lemma frame_refl [simp]: "frame P e e"
  by (simp add: frame_def option.rel_refl)

lemma frame_nodeE:
  assumes "frame P e e'" "node_at e k = Some n"
  obtains n' where "node_at e' k = Some n'" "n' = n \<or> commits (revision e) n n'"
proof -
  have "rel_option (\<lambda>n n'. n' = n \<or> commits (revision e) n n') (node_at e k) (node_at e' k)"
    using assms(1) by (simp add: frame_def)
  with assms(2) that show thesis by (auto simp: option_rel_Some1)
qed

lemma frame_node_None: "frame P e e' \<Longrightarrow> node_at e' k = None \<longleftrightarrow> node_at e k = None"
proof -
  assume "frame P e e'"
  then have "rel_option (\<lambda>n n'. n' = n \<or> commits (revision e) n n') (node_at e k) (node_at e' k)"
    by (simp add: frame_def)
  then show ?thesis by (cases "node_at e k"; cases "node_at e' k") simp_all
qed

lemma frame_validated_node:
  assumes "frame P e e'" "validated e k"
  shows "node_at e' k = node_at e k"
proof -
  from assms(2) obtain n where n: "node_at e k = Some n" "fresh_at (revision e) n"
    by (auto simp: validated_def)
  from frame_nodeE [OF assms(1) n(1)] n show ?thesis by (auto simp: commits_def)
qed

lemma frame_revision: "frame P e e' \<Longrightarrow> revision e' = revision e"
  and frame_in_progress: "frame P e e' \<Longrightarrow> in_progress e' = in_progress e"
  by (simp_all add: frame_def)

lemma frame_validated: "frame P e e' \<Longrightarrow> validated e k \<Longrightarrow> validated e' k"
  using frame_validated_node [of P e e' k] frame_revision [of P e e'] by (simp add: validated_def)

lemma frame_trans:
  assumes "frame P e e'" "frame Q e' e''" "P \<subseteq> Q"
  shows "frame P e e''"
proof -
  have "rel_option (\<lambda>n n'. n' = n \<or> commits (revision e) n n') (node_at e k) (node_at e'' k)" for k
  proof (cases "node_at e k")
    case None
    with assms(1,2) show ?thesis by (simp add: frame_node_None)
  next
    case (Some n)
    from frame_nodeE [OF assms(1) Some] obtain n'
      where n': "node_at e' k = Some n'" "n' = n \<or> commits (revision e) n n'" .
    from frame_nodeE [OF assms(2) n'(1)] obtain n''
      where n'': "node_at e'' k = Some n''" "n'' = n' \<or> commits (revision e') n' n''" .
    have "revision e' = revision e" using assms(1) by (simp add: frame_def)
    with Some n' n'' show ?thesis by (auto simp: commits_def)
  qed
  with assms show ?thesis by (auto simp: frame_def)
qed

lemma frame_defs: "frame P e e' \<Longrightarrow> defs e' = defs e"
proof
  fix k
  assume f: "frame P e e'"
  show "defs e' k = defs e k"
  proof (cases "node_at e k")
    case None
    with f show ?thesis by (simp add: defs_def frame_node_None)
  next
    case (Some n)
    from frame_nodeE [OF f Some] obtain n'
      where "node_at e' k = Some n'" "n' = n \<or> commits (revision e) n n'" .
    with Some show ?thesis by (cases "n_kind n") (auto simp: defs_def commits_def)
  qed
qed

lemma named_cong: "node_at e' d = node_at e d \<Longrightarrow> named e' d = named e d"
  by (simp add: named_def value_at_def)

subsection \<open>Bringing one node up to date keeps the invariant\<close>

lemma commit_keeps_inv:
  assumes inv: "engine_inv e" and n: "node_at e k = Some n" and c: "commits (revision e) n n'"
    and v: "n_value n' = Some v"
    and deps: "\<And>ds f. n_kind n = Derived ds f \<Longrightarrow>
      (\<forall>d \<in> set ds. validated e d) \<and> f (map (named e) ds) = Inr v"
  shows "engine_inv (e\<lparr>nodes := bm_insert k n' (nodes e)\<rparr>)" (is "engine_inv ?e")
proof -
  have nv: "\<not> validated e k" using n c by (auto simp: validated_def commits_def)
  have node: "node_at ?e j = (if j = k then Some n' else node_at e j)" for j by simp
  have val: "validated ?e j \<longleftrightarrow> j = k \<or> validated e j" for j
    using c by (auto simp: validated_def node commits_def)
  have defs: "defs ?e = defs e"
    using n c by (cases "n_kind n") (auto simp: defs_def commits_def fun_eq_iff)
  have notin: "k \<notin> set ds" if "n_kind n = Derived ds f" for ds f
    using deps [OF that] nv by auto
  have named: "map (named ?e) ds = map (named e) ds" if "n_kind n = Derived ds f" for ds f
    using notin [OF that] by (auto intro!: named_cong)
  have kv: "value_at ?e j = (if j = k then Some v else value_at e j)" for j
    by (simp add: value_at_def v)
  have ch: "changed_of ?e j = (if j = k then changed_at n' else changed_of e j)" for j
    by (simp add: changed_of_def)
  have kind: "n_kind n' = n_kind n" using c by (simp add: commits_def)
  have own: "node_inv ?e n'"
    unfolding node_inv_def
  proof (intro conjI allI impI)
    show "verified_at n' \<le> revision ?e" using c by (simp add: commits_def fresh_at_def)
    show "n_value n' \<noteq> None" using v by simp
  next
    fix ds f w
    assume d: "n_kind n' = Derived ds f" and w: "n_value n' = Some w"
    show "\<forall>d \<in> set ds. value_at ?e d \<noteq> None"
      using deps [of ds f] d kind by (auto simp: kv v validated_def fresh_at_def value_at_def)
    have k: "n_kind n = Derived ds f" using d kind by simp
    show "f (map (named ?e) ds) = Inr w"
      unfolding named [OF k] using deps [OF k] v w by simp
  qed
  have others: "node_inv ?e m" if m: "node_at e j = Some m" and "j \<noteq> k" for j m
  proof -
    have old: "node_inv e m" using inv m by (simp add: engine_inv_def)
    show ?thesis
      unfolding node_inv_def
    proof (intro conjI allI impI)
      show "verified_at m \<le> revision ?e" using old by (simp add: node_inv_def)
      show "n_kind m = Input \<Longrightarrow> n_value m \<noteq> None" using old by (simp add: node_inv_def)
    next
      fix ds f w
      assume d: "n_kind m = Derived ds f" and w: "n_value m = Some w"
      show "\<forall>d \<in> set ds. value_at ?e d \<noteq> None" using old d w by (auto simp: node_inv_def kv)
      assume le: "\<forall>d \<in> set ds. changed_of ?e d \<le> verified_at m"
      show "f (map (named ?e) ds) = Inr w"
      proof (cases "k \<in> set ds \<and> n_value n' \<noteq> n_value n")
        case True
        with le c have "revision e \<le> verified_at m" by (auto simp: ch commits_def)
        with old w have "fresh_at (revision e) m" by (simp add: node_inv_def fresh_at_def)
        with inv m d True have "validated e k" by (auto simp: engine_inv_def closed_inv_def)
        with nv show ?thesis by simp
      next
        case False
        then have same: "k \<in> set ds \<Longrightarrow> n_value n = Some v \<and> changed_at n' = changed_at n"
          using c v by (auto simp: commits_def)
        have eq: "value_at ?e d = value_at e d \<and> changed_of ?e d = changed_of e d"
          if "d \<in> set ds" for d
        proof (cases "d = k")
          case True
          have "value_at e k = n_value n" "changed_of e k = changed_at n"
            unfolding value_at_def changed_of_def n by simp_all
          moreover have "n_value n = Some v" "changed_at n' = changed_at n"
            using same that True by blast+
          ultimately show ?thesis unfolding kv ch True by simp
        next
          case False
          then show ?thesis unfolding kv ch by simp
        qed
        then have args: "map (named ?e) ds = map (named e) ds" by (simp add: named_def)
        have "\<forall>d \<in> set ds. changed_of e d \<le> verified_at m"
          using le eq by fastforce
        then show ?thesis unfolding args using old d w by (simp add: node_inv_def)
      qed
    qed
  qed
  have closed: "closed_inv ?e"
    unfolding closed_inv_def
  proof (intro allI impI)
    fix j m ds f
    assume m: "node_at ?e j = Some m" "fresh_at (revision ?e) m" "n_kind m = Derived ds f"
    show "\<forall>d \<in> set ds. validated ?e d"
    proof (cases "j = k")
      case True
      with m deps [of ds f] kind have "\<forall>d \<in> set ds. validated e d" by auto
      with val show ?thesis by blast
    next
      case False
      with m inv have "\<forall>d \<in> set ds. validated e d" by (auto simp: engine_inv_def closed_inv_def)
      with val show ?thesis by blast
    qed
  qed
  have "evals (defs e) k v"
  proof (cases "n_kind n")
    case Input
    with c v have "n_value n = Some v" by (simp add: commits_def)
    with n Input have "defs e k = Some (DInput v)" by (simp add: defs_def)
    then show ?thesis by (rule evals.ev_input)
  next
    case (Derived ds f)
    have "evals (defs e) d (the (value_at e d))" if "d \<in> set ds" for d
      using deps [OF Derived] that inv by (simp add: engine_inv_def)
    then have "list_all2 (\<lambda>d dv. dv_key dv = d \<and> evals (defs e) d (dv_value dv)) ds (map (named e) ds)"
      by (auto simp: list_all2_conv_all_nth named_def)
    moreover have "defs e k = Some (DDerived ds f)" using n Derived by (simp add: defs_def)
    ultimately show ?thesis using deps [OF Derived] by (blast intro: evals.ev_derived)
  qed
  then have "\<forall>j. validated ?e j \<longrightarrow> evals (defs ?e) j (the (value_at ?e j))"
    using inv by (auto simp: val defs kv engine_inv_def)
  moreover have "bm_ok (nodes ?e)" using inv by (simp add: engine_inv_def)
  moreover have "\<forall>j m. node_at ?e j = Some m \<longrightarrow> node_inv ?e m"
    using own others by (auto simp: node)
  ultimately show ?thesis using closed by (simp add: engine_inv_def)
qed

lemma commit_frame:
  assumes "node_at e k = Some n" "commits (revision e) n n'" "k \<notin> P"
  shows "frame P e (e\<lparr>nodes := bm_insert k n' (nodes e)\<rparr>)"
  using assms by (auto simp: frame_def option.rel_refl)

text \<open>Fields the invariant does not read.\<close>

lemma engine_fields_cong:
  assumes "nodes e' = nodes e" "revision e' = revision e"
  shows "engine_inv e' = engine_inv e" "defs e' = defs e" "validated e' = validated e"
    "value_at e' = value_at e" "changed_of e' = changed_of e" "named e' = named e"
proof -
  show d: "defs e' = defs e" and v: "validated e' = validated e"
    and va: "value_at e' = value_at e" and c: "changed_of e' = changed_of e"
    and n: "named e' = named e"
    using assms by (auto simp: fun_eq_iff defs_def validated_def value_at_def changed_of_def named_def)
  show "engine_inv e' = engine_inv e"
    unfolding engine_inv_def node_inv_def closed_inv_def d v va c n assms ..
qed

lemmas engine_inv_fields [simp] =
  engine_fields_cong [of "e\<lparr>in_progress := x\<rparr>" e for e x, simplified]
  engine_fields_cong [of "e\<lparr>polls := x\<rparr>" e for e x, simplified]
  engine_fields_cong [of "e\<lparr>recomputes := x\<rparr>" e for e x, simplified]
  engine_fields_cong [of "e\<lparr>cancel := x\<rparr>" e for e x, simplified]
  engine_fields_cong [of "e\<lparr>cancel := x, polls := y\<rparr>" e for e x y, simplified]

subsection \<open>The contract of a request, and the dependency loop under it\<close>

definition request_post :: "string \<Rightarrow> engine \<Rightarrow> engine_error + node_value \<Rightarrow> engine \<Rightarrow> bool" where
  "request_post k e r e' \<longleftrightarrow>
     engine_inv e' \<and> frame (set (in_progress e)) e e' \<and>
     (\<forall>v. r = Inr v \<longrightarrow> validated e' k \<and> value_at e' k = Some v) \<and>
     (\<forall>m. r \<noteq> Inl (Panic m))"

locale validating_request =
  fixes req :: "string \<Rightarrow> engine \<Rightarrow> req_result"
  assumes req_post: "engine_inv e \<Longrightarrow> req k e = Some (r, e') \<Longrightarrow> request_post k e r e'"
begin

lemma request_deps_post:
  assumes "engine_inv e" "request_deps req ds acc m e = Some (r, e')"
  shows "engine_inv e' \<and> frame (set (in_progress e)) e e' \<and> (\<forall>p. r \<noteq> Inl (Panic p)) \<and>
    (\<forall>dvs mx. r = Inr (dvs, mx) \<longrightarrow>
       (\<forall>d \<in> set ds. validated e' d \<and> changed_of e' d \<le> mx) \<and> m \<le> mx \<and>
       dvs = acc @ map (named e') ds)"
  using assms
proof (induction ds arbitrary: acc m e)
  case Nil
  then show ?case by auto
next
  case (Cons d ds)
  from Cons.prems(2) obtain r1 e1 where r1: "req d e = Some (r1, e1)"
    by (auto split: option.splits)
  note post = req_post [OF Cons.prems(1) r1, unfolded request_post_def]
  show ?case
  proof (cases r1)
    case (Inl err)
    with Cons.prems(2) r1 have "r = Inl err" "e' = e1" by simp_all
    with post Inl show ?thesis by auto
  next
    case (Inr v)
    then have val: "validated e1 d" "value_at e1 d = Some v" using post by auto
    then obtain nd where nd: "node_at e1 d = Some nd" by (auto simp: validated_def)
    with Cons.prems(2) r1 Inr
    have rest: "request_deps req ds (acc @ [\<lparr>dv_key = d, dv_value = v\<rparr>]) (max m (changed_at nd)) e1
        = Some (r, e')" by simp
    have inv1: "engine_inv e1" and fr1: "frame (set (in_progress e)) e e1" using post by auto
    note ih = Cons.IH [OF inv1 rest]
    have "in_progress e1 = in_progress e" using fr1 by (simp add: frame_def)
    with ih fr1 have fr: "frame (set (in_progress e)) e e'"
      by (auto intro: frame_trans)
    have fr2: "frame (set (in_progress e1)) e1 e'" using ih by simp
    have "node_at e' d = node_at e1 d" by (rule frame_validated_node [OF fr2 val(1)])
    then have "named e' d = \<lparr>dv_key = d, dv_value = v\<rparr>" "changed_of e' d = changed_at nd"
      using val nd by (auto simp: named_def value_at_def changed_of_def)
    moreover have "validated e' d" by (rule frame_validated [OF fr2 val(1)])
    ultimately show ?thesis using ih fr by auto
  qed
qed

lemma derived_post:
  assumes inv: "engine_inv e" and kin: "k \<in> set (in_progress e)"
    and n: "node_at e k = Some n" "n_kind n = Derived ds f" "\<not> fresh_at (revision e) n"
    and loop: "request_deps req ds [] 0 e = Some (Inr (dvs, mx), e1)"
    and out: "(if n_value n \<noteq> None \<and> mx \<le> verified_at n
        then (Inr (the (n_value n)), upd_node k (\<lambda>n. n\<lparr>verified_at := revision e\<rparr>) e1)
        else recompute k (revision e) dvs e1) = (r, e')"
  shows "engine_inv e' \<and> frame (set (in_progress e) - {k}) e e' \<and>
    (\<forall>v. r = Inr v \<longrightarrow> validated e' k \<and> value_at e' k = Some v) \<and> (\<forall>m. r \<noteq> Inl (Panic m))"
proof -
  note post = request_deps_post [OF inv loop]
  have fr: "frame (set (in_progress e)) e e1" and inv1: "engine_inv e1" using post by auto
  have n1: "node_at e1 k = Some n" using fr kin n(1) by (auto simp: frame_def)
  have rev: "revision e1 = revision e" by (rule frame_revision [OF fr])
  have ds: "\<forall>d \<in> set ds. validated e1 d" "dvs = map (named e1) ds"
    "\<forall>d \<in> set ds. changed_of e1 d \<le> mx" using post by auto
  have fr': "frame (set (in_progress e) - {k}) e e1" using fr by (auto simp: frame_def)
  have commit: "engine_inv (e2\<lparr>nodes := bm_insert k n' (nodes e2)\<rparr>) \<and>
      frame (set (in_progress e) - {k}) e (e2\<lparr>nodes := bm_insert k n' (nodes e2)\<rparr>) \<and>
      validated (e2\<lparr>nodes := bm_insert k n' (nodes e2)\<rparr>) k \<and>
      value_at (e2\<lparr>nodes := bm_insert k n' (nodes e2)\<rparr>) k = Some v"
    if "e2 = e1\<lparr>recomputes := c\<rparr>" "recomputes e1 \<le> c"
      and "commits (revision e) n n'" "n_value n' = Some v" "f dvs = Inr v" for e2 n' v c
  proof -
    have "engine_inv e2" "frame (set (in_progress e) - {k}) e e2"
      using that(1,2) inv1 fr' by (auto simp: frame_def)
    moreover have "engine_inv (e2\<lparr>nodes := bm_insert k n' (nodes e2)\<rparr>)"
      using that n1 n(2) rev ds inv1 by (intro commit_keeps_inv [where n = n and v = v]) auto
    moreover have "frame (set (in_progress e) - {k}) e2 (e2\<lparr>nodes := bm_insert k n' (nodes e2)\<rparr>)"
      using that n1 rev by (intro commit_frame) auto
    ultimately show ?thesis
      using that rev by (auto simp: validated_def value_at_def commits_def intro: frame_trans)
  qed
  show ?thesis
  proof (cases "n_value n \<noteq> None \<and> mx \<le> verified_at n")
    case True
    then obtain v where v: "n_value n = Some v" by auto
    have "f dvs = Inr v"
      using inv1 n1 n(2) v ds True by (force simp: engine_inv_def node_inv_def)
    moreover have "commits (revision e) n (n\<lparr>verified_at := revision e\<rparr>)"
      using n v by (simp add: commits_def fresh_at_def)
    ultimately show ?thesis
      using commit [of e1 "recomputes e1" "n\<lparr>verified_at := revision e\<rparr>" v] out True v n1
      by (auto simp: upd_node_def)
  next
    case False
    show ?thesis
    proof (cases "f dvs")
      case (Inl err)
      with False out n1 n(2) have "r = Inl (Fail err)" "e' = e1\<lparr>recomputes := recomputes e1 + 1\<rparr>"
        by (auto simp: recompute_def Let_def)
      with inv1 fr' show ?thesis by (auto simp: frame_def)
    next
      case (Inr v)
      let ?n = "(if n_value n \<noteq> Some v then n\<lparr>changed_at := revision e\<rparr> else n)
        \<lparr>n_value := Some v, verified_at := revision e\<rparr>"
      have "commits (revision e) n ?n"
        using n(2,3) by (simp add: commits_def fresh_at_def)
      moreover have "r = Inr v"
        "e' = e1\<lparr>recomputes := recomputes e1 + 1\<rparr>\<lparr>nodes := bm_insert k ?n (nodes (e1\<lparr>recomputes := recomputes e1 + 1\<rparr>))\<rparr>"
        using False out n1 n(2) Inr by (auto simp: recompute_def Let_def upd_node_def)
      ultimately show ?thesis
        using commit [of "e1\<lparr>recomputes := recomputes e1 + 1\<rparr>" "recomputes e1 + 1" ?n v] Inr by auto
    qed
  qed
qed

end

end
