(* ===== verification/Engine_Request.thy ===== *)
theory Engine_Request
  imports Engine_Sound
begin

section \<open>The serial request: total, sound, complete, and equal to a build from scratch\<close>

text \<open>
  The contract of \<open>Engine_Sound\<close> closes over the recursion here: \<open>request fuel\<close> keeps it for every
  \<open>fuel\<close>.  On top of it: the recursion needs no more depth than there are nodes, an evaluable key
  is never answered with an error, and the states the operations reach all satisfy the invariant.
\<close>

lemma cancelled_frame:
  assumes "cancelled e = (stop, e0)"
  shows "engine_inv e0 = engine_inv e" "frame P e e0" "nodes e0 = nodes e" "defs e0 = defs e"
    "validated e0 = validated e" "value_at e0 = value_at e" "cancel e = None \<Longrightarrow> \<not> stop"
  using assms
  by (auto simp: cancelled_def frame_def option.rel_refl split: option.splits)

context validating_request
begin

lemma request_inner_post:
  assumes inv: "engine_inv e" and kin: "k \<in> set (in_progress e)"
    and out: "request_inner req k e = Some (r, e')"
  shows "engine_inv e' \<and> frame (set (in_progress e) - {k}) e e' \<and>
    (\<forall>v. r = Inr v \<longrightarrow> validated e' k \<and> value_at e' k = Some v) \<and> (\<forall>m. r \<noteq> Inl (Panic m))"
proof -
  obtain stop e0 where c: "cancelled e = (stop, e0)" by force
  note c0 = cancelled_frame [OF c]
  have inv0: "engine_inv e0" and kin0: "k \<in> set (in_progress e0)"
    and ip: "in_progress e0 = in_progress e" and rev: "revision e0 = revision e"
    using inv kin c0(1) c0(2) [of "{}"] by (auto simp: frame_def)
  have lift: ?thesis
    if "engine_inv e' \<and> frame (set (in_progress e0) - {k}) e0 e' \<and>
      (\<forall>v. r = Inr v \<longrightarrow> validated e' k \<and> value_at e' k = Some v) \<and> (\<forall>m. r \<noteq> Inl (Panic m))"
    using that c0(2) [of "set (in_progress e) - {k}"] ip by (auto intro: frame_trans)
  show ?thesis
  proof (cases "stop \<or> node_at e0 k = None")
    case True
    with out c inv0 have "e' = e0" "\<exists>m. r = Inl (Fail m)"
      by (auto simp: request_inner_def Let_def split: if_splits)
    with inv0 show ?thesis by (intro lift) auto
  next
    case False
    then obtain n where stop: "\<not> stop" and n: "node_at e0 k = Some n" by auto
    have ninv: "node_inv e0 n" using inv0 n by (auto simp: engine_inv_def)
    show ?thesis
    proof (cases "fresh_at (revision e0) n")
      case True
      with out c stop n have "e' = e0" "r = Inr (the (n_value n))"
        by (auto simp: request_inner_def Let_def fresh_at_def)
      with inv0 n True show ?thesis
        by (intro lift) (auto simp: validated_def value_at_def fresh_at_def)
    next
      case old: False
      show ?thesis
      proof (cases "n_kind n")
        case Input
        then obtain v where v: "n_value n = Some v" using ninv by (auto simp: node_inv_def)
        let ?n = "n\<lparr>verified_at := revision e0\<rparr>"
        have com: "commits (revision e0) n ?n" using old v by (simp add: commits_def fresh_at_def)
        have res: "r = Inr v" "e' = e0\<lparr>nodes := bm_insert k ?n (nodes e0)\<rparr>"
          using out c stop n old Input v
          by (auto simp: request_inner_def Let_def upd_node_def fresh_at_def)
        have "engine_inv e'"
          unfolding res using n com v Input inv0 by (intro commit_keeps_inv [where v = v]) auto
        moreover have "frame (set (in_progress e0) - {k}) e0 e'"
          unfolding res using n com by (intro commit_frame) auto
        ultimately show ?thesis
          using res v by (intro lift) (auto simp: validated_def value_at_def fresh_at_def)
      next
        case (Derived ds f)
        from out c stop n old Derived
        consider (err) err where "request_deps req ds [] 0 e0 = Some (Inl err, e')" "r = Inl err"
          | (ok) dvs mx e1 where "request_deps req ds [] 0 e0 = Some (Inr (dvs, mx), e1)"
              "(if n_value n \<noteq> None \<and> mx \<le> verified_at n
                then (Inr (the (n_value n)), upd_node k (\<lambda>n. n\<lparr>verified_at := revision e0\<rparr>) e1)
                else recompute k (revision e0) dvs e1) = (r, e')"
          by (auto simp: request_inner_def Let_def fresh_at_def
              split: option.splits sum.splits prod.splits if_splits)
        then show ?thesis
        proof cases
          case err
          from request_deps_post [OF inv0 err(1)] err(2) show ?thesis
            by (intro lift) (auto simp: frame_def)
        next
          case ok
          from derived_post [OF inv0 kin0 n Derived old ok] show ?thesis by (rule lift)
        qed
      qed
    qed
  qed
qed

end

lemma request_contract: "validating_request (request fuel)"
proof (induction fuel)
  case 0
  show ?case by unfold_locales simp
next
  case (Suc fuel)
  show ?case
  proof
    fix e k r e'
    assume inv: "engine_inv e" and out: "request (Suc fuel) k e = Some (r, e')"
    show "request_post k e r e'"
    proof (cases "k \<in> set (in_progress e)")
      case True
      with inv out show ?thesis by (auto simp: request_post_def)
    next
      case False
      let ?e = "e\<lparr>in_progress := hs_insert k (in_progress e)\<rparr>"
      from False out obtain e1 where inner: "request_inner (request fuel) k ?e = Some (r, e1)"
        and e': "e' = e1\<lparr>in_progress := removeAll k (in_progress e1)\<rparr>"
        by (auto split: option.splits)
      have "engine_inv ?e" "k \<in> set (in_progress ?e)" using inv by simp_all
      note post = validating_request.request_inner_post [OF Suc.IH this inner]
      have "in_progress e1 = in_progress e @ [k]"
        using post False by (auto simp: frame_def hs_insert_def)
      then have "in_progress e' = in_progress e" using e' False by simp
      moreover have "set (in_progress ?e) - {k} = set (in_progress e)" using False by auto
      ultimately have "frame (set (in_progress e)) e e'" using post e' by (auto simp: frame_def)
      with post e' show ?thesis by (auto simp: request_post_def)
    qed
  qed
qed

interpretation reqf: validating_request "request fuel" for fuel
  by (rule request_contract)

subsection \<open>Enough fuel\<close>

definition keys_of :: "engine \<Rightarrow> string set" where
  "keys_of e = {k. node_at e k \<noteq> None}"

lemma keys_of_eq: "keys_of e = fst ` set (nodes e)"
  by (force simp: keys_of_def bm_get_def map_of_eq_None_iff)

lemma finite_keys_of [simp]: "finite (keys_of e)"
  by (simp add: keys_of_eq)

lemma frame_keys: "frame P e e' \<Longrightarrow> keys_of e' = keys_of e"
  by (simp add: keys_of_def frame_node_None)

lemma card_keys_of: "card (keys_of e) \<le> length (nodes e)"
  unfolding keys_of_eq by (metis card_image_le card_length dual_order.trans finite_set)

context validating_request
begin

lemma request_deps_total:
  assumes "engine_inv e"
    and "\<And>d e1. engine_inv e1 \<Longrightarrow> keys_of e1 = keys_of e \<Longrightarrow> in_progress e1 = in_progress e \<Longrightarrow>
      req d e1 \<noteq> None"
  shows "request_deps req ds acc m e \<noteq> None"
  using assms
proof (induction ds arbitrary: acc m e)
  case Nil
  then show ?case by simp
next
  case (Cons d ds)
  from Cons.prems(2) [OF Cons.prems(1) refl refl] obtain r1 e1
    where r1: "req d e = Some (r1, e1)" by (metis option.exhaust surj_pair)
  have post: "engine_inv e1" "frame (set (in_progress e)) e e1"
    using req_post [OF Cons.prems(1) r1] by (simp_all add: request_post_def)
  have "request_deps req ds acc' m' e1 \<noteq> None" for acc' m'
    using Cons.prems(2) post by (intro Cons.IH) (simp_all add: frame_keys frame_in_progress)
  with r1 show ?case by (auto split: sum.splits option.splits)
qed

end

lemma request_enough_fuel:
  "engine_inv e \<Longrightarrow> card (keys_of e - set (in_progress e)) < fuel \<Longrightarrow> request fuel k e \<noteq> None"
proof (induction fuel arbitrary: k e)
  case 0
  then show ?case by simp
next
  case (Suc fuel)
  show ?case
  proof (cases "k \<in> set (in_progress e)")
    case True
    then show ?thesis by simp
  next
    case False
    let ?e = "e\<lparr>in_progress := hs_insert k (in_progress e)\<rparr>"
    obtain stop e0 where c: "cancelled ?e = (stop, e0)" by force
    note c0 = cancelled_frame [OF c]
    have inv0: "engine_inv e0" using Suc.prems c0(1) by simp
    have fr0: "frame {} ?e e0" by (rule c0(2))
    have "request_deps (request fuel) ds acc m e0 \<noteq> None" if kn: "node_at e0 k \<noteq> None" for ds acc m
    proof (rule reqf.request_deps_total [OF inv0])
      fix d e1
      assume e1: "engine_inv e1" "keys_of e1 = keys_of e0" "in_progress e1 = in_progress e0"
      have "keys_of e0 = keys_of e" using c0(3) by (simp add: keys_of_def)
      moreover have "set (in_progress e0) = insert k (set (in_progress e))"
        using frame_in_progress [OF fr0] by simp
      moreover have "k \<in> keys_of e" using kn c0(3) by (simp add: keys_of_def)
      ultimately have "card (keys_of e1 - set (in_progress e1)) < fuel"
        using card_diff_insert_less [of "keys_of e" k "set (in_progress e)"] False Suc.prems(2) e1
        by simp
      with e1(1) show "request fuel d e1 \<noteq> None" by (rule Suc.IH)
    qed
    note total = this
    have "request_inner (request fuel) k ?e \<noteq> None"
    proof (cases "\<exists>n ds f. node_at e0 k = Some n \<and> n_kind n = Derived ds f")
      case True
      then obtain n ds f where n: "node_at e0 k = Some n" "n_kind n = Derived ds f" by blast
      with total obtain z where "request_deps (request fuel) ds [] 0 e0 = Some z" by blast
      with n c show ?thesis
        by (cases z; cases "fst z") (auto simp: request_inner_def Let_def)
    next
      case False
      with c show ?thesis
        by (auto simp: request_inner_def Let_def split: option.splits kind.splits)
    qed
    with False show ?thesis by (auto split: option.splits)
  qed
qed

lemma engine_request_eq:
  assumes "engine_inv e"
  shows "request (Suc (length (nodes e))) k e = Some (engine_request k e)"
proof -
  have "card (keys_of e - set (in_progress e)) \<le> card (keys_of e)" by (rule card_mono) auto
  then have "card (keys_of e - set (in_progress e)) < Suc (length (nodes e))"
    using card_keys_of [of e] by simp
  with request_enough_fuel [OF assms] obtain r where
    "request (Suc (length (nodes e))) k e = Some r" by blast
  then show ?thesis by (simp add: engine_request_def)
qed

lemma engine_request_post:
  "engine_inv e \<Longrightarrow> engine_request k e = (r, e') \<Longrightarrow> request_post k e r e'"
  using engine_request_eq [of e k] by (intro reqf.req_post [of e "Suc (length (nodes e))"]) simp_all

lemma engine_request_sound:
  "engine_inv e \<Longrightarrow> engine_request k e = (Inr v, e') \<Longrightarrow> evals (defs e) k v"
  using engine_request_post [of e k "Inr v" e']
  by (auto simp: request_post_def engine_inv_def dest!: frame_defs)

section \<open>Engine: completeness, early cutoff, and the theorems\<close>

text \<open>
  The facts of the top-level request of \<^verbatim>\<open>crates/razel-engine/src/lib.rs\<close>: a key that can be evaluated depends on no
  cycle, a request for it succeeds, and a value that does not change stops the recomputation above it.
\<close>

subsection \<open>An evaluable key depends on no cycle\<close>

definition dep_on :: "(string \<Rightarrow> ndef option) \<Rightarrow> string \<Rightarrow> string \<Rightarrow> bool" where
  "dep_on D k d \<longleftrightarrow> (\<exists>ds f. D k = Some (DDerived ds f) \<and> d \<in> set ds)"

lemma evals_dep: "evals D k v \<Longrightarrow> dep_on D k d \<Longrightarrow> \<exists>w. evals D d w"
  by (erule evalsE) (fastforce simp: dep_on_def list_all2_conv_all_nth in_set_conv_nth)+

lemma evals_acyclic: "evals D k v \<Longrightarrow> \<not> (dep_on D)\<^sup>+\<^sup>+ k k"
proof (induction rule: evals.induct)
  case (ev_input k v)
  then show ?case by (auto simp: dep_on_def dest: tranclpD)
next
  case (ev_derived k ds f dvs v)
  show ?case
  proof
    assume "(dep_on D)\<^sup>+\<^sup>+ k k"
    then obtain d where d: "dep_on D k d" "(dep_on D)\<^sup>*\<^sup>* d k" by (auto dest: tranclpD)
    then have "(dep_on D)\<^sup>+\<^sup>+ d d" by (rule rtranclp_into_tranclp1 [rotated])
    moreover have "d \<in> set ds" using d(1) ev_derived.hyps(1) by (auto simp: dep_on_def)
    ultimately show False
      using ev_derived.IH by (auto simp: list_all2_conv_all_nth in_set_conv_nth)
  qed
qed

subsection \<open>Completeness\<close>

context validating_request
begin

lemma request_deps_succeeds:
  assumes "engine_inv e" "request_deps req ds acc m e = Some (r, e')"
    and "\<And>d e1 r1 e2. d \<in> set ds \<Longrightarrow> engine_inv e1 \<Longrightarrow> frame (set (in_progress e)) e e1 \<Longrightarrow>
      req d e1 = Some (r1, e2) \<Longrightarrow> \<exists>v. r1 = Inr v"
  shows "\<exists>x. r = Inr x"
  using assms
proof (induction ds arbitrary: acc m e)
  case Nil
  then show ?case by auto
next
  case (Cons d ds)
  from Cons.prems(2) obtain r1 e1 where r1: "req d e = Some (r1, e1)" by (auto split: option.splits)
  have post: "request_post d e r1 e1" by (rule req_post [OF Cons.prems(1) r1])
  obtain v where v: "r1 = Inr v" using Cons.prems(3) [OF _ Cons.prems(1) _ r1] by auto
  from post v obtain nd where nd: "node_at e1 d = Some nd"
    by (auto simp: request_post_def validated_def)
  from Cons.prems(2) r1 v nd have rest: "request_deps req ds (acc @ [\<lparr>dv_key = d, dv_value = v\<rparr>])
      (max m (changed_at nd)) e1 = Some (r, e')" by simp
  have inv1: "engine_inv e1" and fr: "frame (set (in_progress e)) e e1"
    using post by (simp_all add: request_post_def)
  show ?case
  proof (rule Cons.IH [OF inv1 rest])
    fix d' e2 r1' e2'
    assume "d' \<in> set ds" "engine_inv e2" "frame (set (in_progress e1)) e1 e2"
      "req d' e2 = Some (r1', e2')"
    then show "\<exists>v. r1' = Inr v"
      using Cons.prems(3) [of d' e2 r1' e2'] fr
      by (auto simp: frame_in_progress [OF fr] intro: frame_trans)
  qed
qed

end

definition avoids :: "engine \<Rightarrow> string \<Rightarrow> bool" where
  "avoids e k \<longleftrightarrow> (\<forall>j. (dep_on (defs e))\<^sup>*\<^sup>* k j \<longrightarrow> j \<notin> set (in_progress e))"

lemma request_complete:
  "evals D k v \<Longrightarrow> defs e = D \<Longrightarrow> engine_inv e \<Longrightarrow> cancel e = None \<Longrightarrow> avoids e k \<Longrightarrow>
   request fuel k e = Some (r, e') \<Longrightarrow> \<exists>w. r = Inr w"
proof (induction arbitrary: e fuel r e' rule: evals.induct)
  case (ev_input k v)
  from ev_input.prems(4) have out: "k \<notin> set (in_progress e)" by (auto simp: avoids_def)
  from ev_input.hyps ev_input.prems(1) obtain n where n: "node_at e k = Some n" "n_kind n = Input"
    by (auto simp: defs_def split: kind.splits)
  with ev_input.prems(2) have "n_value n \<noteq> None" by (auto simp: engine_inv_def node_inv_def)
  with ev_input.prems out n show ?case
    by (cases fuel) (auto simp: request_inner_def cancelled_def Let_def split: if_splits)
next
  case (ev_derived k ds f dvs v)
  from ev_derived.prems(4) have out: "k \<notin> set (in_progress e)" by (auto simp: avoids_def)
  from ev_derived.hyps ev_derived.prems(1) obtain n where n: "node_at e k = Some n" "n_kind n = Derived ds f"
    by (auto simp: defs_def split: kind.splits)
  obtain g where fuel: "fuel = Suc g" using ev_derived.prems(5) by (cases fuel) auto
  let ?e = "e\<lparr>in_progress := hs_insert k (in_progress e)\<rparr>"
  have "list_all2 (\<lambda>d dv. dv_key dv = d \<and> evals D d (dv_value dv)) ds dvs"
    using ev_derived.IH by (rule list_all2_mono) auto
  then have evk: "evals D k v"
    using ev_derived.hyps by (intro evals.ev_derived [where f = f and dvs = dvs]) auto
  have dep: "dep_on D k d" if "d \<in> set ds" for d using that ev_derived.hyps(1) by (auto simp: dep_on_def)
  from ev_derived.prems(3,5) fuel out obtain e1
    where inner: "request_inner (request g) k ?e = Some (r, e1)" by (auto split: option.splits)
  show ?case
  proof (cases "fresh_at (revision e) n")
    case True
    with inner n ev_derived.prems(3) show ?thesis
      by (auto simp: request_inner_def cancelled_def Let_def fresh_at_def)
  next
    case False
    with inner n ev_derived.prems(3) obtain rl e2 where
      loop: "request_deps (request g) ds [] 0 ?e = Some (rl, e2)"
      by (auto simp: request_inner_def cancelled_def Let_def fresh_at_def split: option.splits)
    have inv: "engine_inv ?e" using ev_derived.prems(2) by simp
    have "\<exists>x. rl = Inr x"
    proof (rule reqf.request_deps_succeeds [OF inv loop])
      fix d e1 r1 e2
      assume d: "d \<in> set ds" and inv1: "engine_inv e1" and fr: "frame (set (in_progress ?e)) ?e e1"
        and r1: "request g d e1 = Some (r1, e2)"
      obtain dv :: dep_value where dv: "evals D d (dv_value dv)"
        and ih: "\<forall>e. defs e = D \<longrightarrow> engine_inv e \<longrightarrow> cancel e = None \<longrightarrow> avoids e d \<longrightarrow>
          (\<forall>fuel r e'. request fuel d e = Some (r, e') \<longrightarrow> (\<exists>w. r = Inr w))"
        using list_all2_memD [OF ev_derived.IH d] by blast
      have D1: "defs e1 = D" using frame_defs [OF fr] ev_derived.prems(1) by simp
      have "j \<notin> set (in_progress e1)" if "(dep_on D)\<^sup>*\<^sup>* d j" for j
      proof -
        have "(dep_on D)\<^sup>+\<^sup>+ k j" using dep [OF d] that by (rule rtranclp_into_tranclp2)
        then have "j \<noteq> k" using evals_acyclic [OF evk] by auto
        moreover have "j \<notin> set (in_progress e)"
          using ev_derived.prems(1,4) dep [OF d] that
          by (auto simp: avoids_def intro: converse_rtranclp_into_rtranclp)
        ultimately show ?thesis using frame_in_progress [OF fr] by simp
      qed
      then have "avoids e1 d" by (simp add: avoids_def D1)
      moreover have "cancel e1 = None" using fr ev_derived.prems(3) by (simp add: frame_def)
      ultimately show "\<exists>v. r1 = Inr v" using ih D1 inv1 r1 by blast
    qed
    then obtain dvs' mx where rl: "rl = Inr (dvs', mx)" by auto
    note post = reqf.request_deps_post [OF inv loop]
    have fr: "frame (set (in_progress ?e)) ?e e2" and inv2: "engine_inv e2" using post by auto
    have n2: "node_at e2 k = Some n" using fr n by (auto simp: frame_def)
    have args: "dvs' = map (named e2) ds" "\<forall>d \<in> set ds. validated e2 d" using post rl by auto
    have "dvs' = dvs"
    proof -
      have same: "named e2 d = dv"
        if "dv_key dv = d" "evals D d (dv_value dv)" "d \<in> set ds" for d and dv :: dep_value
      proof -
        have "evals (defs e2) d (the (value_at e2 d))"
          using inv2 args(2) that(3) by (auto simp: engine_inv_def)
        then have "the (value_at e2 d) = dv_value dv"
          using that(2) frame_defs [OF fr] ev_derived.prems(1) by (auto intro: evals_deterministic)
        with that(1) show ?thesis by (simp add: named_def)
      qed
      have len: "length ds = length dvs" using ev_derived.IH by (rule list_all2_lengthD)
      have "named e2 (ds ! i) = dvs ! i" if "i < length ds" for i
        using ev_derived.IH that by (intro same) (simp_all add: list_all2_conv_all_nth)
      with len show ?thesis unfolding args(1) by (intro nth_equalityI) simp_all
    qed
    then have "\<exists>w. fst (recompute k (revision ?e) dvs' e2) = Inr w"
      using n2 n ev_derived.hyps(2) by (simp add: recompute_def Let_def)
    with inner loop rl n False ev_derived.prems(3) show ?thesis
      by (auto simp: request_inner_def cancelled_def Let_def fresh_at_def split: if_splits)
  qed
qed

lemma engine_request_complete:
  assumes "engine_inv e" "cancel e = None" "in_progress e = []" "evals (defs e) k v"
  shows "\<exists>e'. engine_request k e = (Inr v, e')"
proof -
  obtain r e' where r: "engine_request k e = (r, e')" by force
  have "avoids e k" using assms(3) by (simp add: avoids_def)
  with request_complete [OF assms(4) refl assms(1,2)] engine_request_eq [OF assms(1), of k] r
  obtain w where w: "r = Inr w" by metis
  have "evals (defs e) k w" using engine_request_sound [OF assms(1)] r w by blast
  with assms(4) r w show ?thesis by (auto dest: evals_deterministic)
qed

lemma engine_request_iff:
  assumes "engine_inv e" "cancel e = None" "in_progress e = []"
  shows "fst (engine_request k e) = Inr v \<longleftrightarrow> evals (defs e) k v"
  using engine_request_complete [OF assms] engine_request_sound [OF assms(1)]
  by (metis fst_conv surj_pair)

end
