(* ===== verification/Engine_Spec.thy ===== *)
theory Engine_Spec
  imports Engine_Request
begin

section \<open>Engine: the request refines a recursive evaluator without memory\<close>

text \<open>
  \<open>spec_eval\<close> is the evaluator one would write with no stored values, no revisions and no cutoff: it
  walks the definitions, depth first, in the declared order of the dependencies, and carries only the
  keys it is inside of.  The incremental request gives the same outcome, values and errors alike.
\<close>

primrec spec_deps :: "(string \<Rightarrow> (engine_error + node_value) option) \<Rightarrow> string list \<Rightarrow>
    (engine_error + dep_value list) option" where
  "spec_deps ev [] = Some (Inr [])"
| "spec_deps ev (d # ds) =
     (case ev d of
        None \<Rightarrow> None
      | Some (Inl err) \<Rightarrow> Some (Inl err)
      | Some (Inr v) \<Rightarrow>
          (case spec_deps ev ds of
             None \<Rightarrow> None
           | Some (Inl err) \<Rightarrow> Some (Inl err)
           | Some (Inr dvs) \<Rightarrow> Some (Inr (\<lparr>dv_key = d, dv_value = v\<rparr> # dvs))))"

primrec spec_eval :: "nat \<Rightarrow> (string \<Rightarrow> ndef option) \<Rightarrow> string list \<Rightarrow> string \<Rightarrow>
    (engine_error + node_value) option" where
  "spec_eval 0 D path k = None"
| "spec_eval (Suc fuel) D path k =
     (if k \<in> set path then Some (Inl (Fail (''dependency cycle at `'' @ k @ ''`'')))
      else
        (case D k of
           None \<Rightarrow> Some (Inl (Fail (''unknown node `'' @ k @ ''`'')))
         | Some (DInput v) \<Rightarrow> Some (Inr v)
         | Some (DDerived ds f) \<Rightarrow>
             (case spec_deps (spec_eval fuel D (k # path)) ds of
                None \<Rightarrow> None
              | Some (Inl err) \<Rightarrow> Some (Inl err)
              | Some (Inr dvs) \<Rightarrow>
                  (case f dvs of Inl err \<Rightarrow> Some (Inl (Fail err)) | Inr v \<Rightarrow> Some (Inr v)))))"

lemma spec_deps_all:
  assumes "list_all2 (\<lambda>d dv. dv_key dv = d \<and> (\<forall>s. ev d = Some s \<longrightarrow> s = Inr (dv_value dv))) ds dvs"
    and "spec_deps ev ds = Some s"
  shows "s = Inr dvs"
  using assms
proof (induction ds arbitrary: dvs s)
  case Nil
  then show ?case by auto
next
  case (Cons d ds)
  from Cons.prems(1) obtain dv :: dep_value and dvs' where
    dv: "dvs = dv # dvs'" "dv_key dv = d" "\<forall>s. ev d = Some s \<longrightarrow> s = Inr (dv_value dv)"
    and rest: "list_all2 (\<lambda>d dv. dv_key dv = d \<and> (\<forall>s. ev d = Some s \<longrightarrow> s = Inr (dv_value dv))) ds dvs'"
    by (auto simp: list_all2_Cons1)
  from Cons.prems(2) dv(3) have ev: "ev d = Some (Inr (dv_value dv))"
    by (auto split: option.splits)
  with Cons.prems(2) obtain s' where s': "spec_deps ev ds = Some s'" by (auto split: option.splits)
  from Cons.IH [OF rest s'] Cons.prems(2) ev s' dv(1,2) show ?case by (cases dv) auto
qed

lemma spec_eval_evals:
  "evals D k v \<Longrightarrow> (\<forall>j \<in> set path. \<not> (dep_on D)\<^sup>*\<^sup>* k j) \<Longrightarrow> spec_eval fuel D path k = Some s \<Longrightarrow> s = Inr v"
proof (induction arbitrary: path fuel s rule: evals.induct)
  case (ev_input k v)
  then show ?case by (cases fuel) (auto split: if_splits)
next
  case (ev_derived k ds f dvs v)
  obtain g where fuel: "fuel = Suc g" using ev_derived.prems(2) by (cases fuel) auto
  have out: "k \<notin> set path" using ev_derived.prems(1) by auto
  have "list_all2 (\<lambda>d dv. dv_key dv = d \<and> evals D d (dv_value dv)) ds dvs"
    using ev_derived.IH by (rule list_all2_mono) auto
  then have evk: "evals D k v"
    using ev_derived.hyps by (intro evals.ev_derived [where f = f and dvs = dvs]) auto
  from ev_derived.prems(2) fuel out ev_derived.hyps(1) obtain s' where
    s': "spec_deps (spec_eval g D (k # path)) ds = Some s'"
    by (auto split: option.splits)
  have "s' = Inr dvs"
  proof (rule spec_deps_all [OF _ s'])
    show "list_all2 (\<lambda>d dv. dv_key dv = d \<and>
        (\<forall>s. spec_eval g D (k # path) d = Some s \<longrightarrow> s = Inr (dv_value dv))) ds dvs"
    proof (rule list.rel_mono_strong [OF ev_derived.IH])
      fix d and dv :: dep_value
      assume d: "d \<in> set ds" and ih: "dv_key dv = d \<and> evals D d (dv_value dv) \<and>
        (\<forall>path. (\<forall>j\<in>set path. \<not> (dep_on D)\<^sup>*\<^sup>* d j) \<longrightarrow>
          (\<forall>fuel s. spec_eval fuel D path d = Some s \<longrightarrow> s = Inr (dv_value dv)))"
      have kd: "dep_on D k d" using d ev_derived.hyps(1) by (auto simp: dep_on_def)
      have "\<not> (dep_on D)\<^sup>*\<^sup>* d k"
        using evals_acyclic [OF evk] rtranclp_into_tranclp2 [of "dep_on D" k d k] kd by blast
      moreover have "\<forall>j \<in> set path. \<not> (dep_on D)\<^sup>*\<^sup>* d j"
        using ev_derived.prems(1) kd by (auto intro: converse_rtranclp_into_rtranclp)
      ultimately have "\<forall>j \<in> set (k # path). \<not> (dep_on D)\<^sup>*\<^sup>* d j" by simp
      with ih show "dv_key dv = d \<and>
          (\<forall>s. spec_eval g D (k # path) d = Some s \<longrightarrow> s = Inr (dv_value dv))"
        by blast
    qed
  qed
  with s' ev_derived.prems(2) ev_derived.hyps fuel out show ?case by simp
qed

subsection \<open>The request and the specification agree\<close>

definition on_path :: "(string \<Rightarrow> ndef option) \<Rightarrow> string list \<Rightarrow> string \<Rightarrow> bool" where
  "on_path D path k \<longleftrightarrow> (\<forall>j \<in> set path. (dep_on D)\<^sup>+\<^sup>+ j k)"

lemma on_path_evals:
  assumes "on_path D path k" "evals D k v"
  shows "\<forall>j \<in> set path. \<not> (dep_on D)\<^sup>*\<^sup>* k j"
proof (intro ballI notI)
  fix j
  assume "j \<in> set path" "(dep_on D)\<^sup>*\<^sup>* k j"
  then have "(dep_on D)\<^sup>+\<^sup>+ k k" using assms(1) by (auto simp: on_path_def)
  with evals_acyclic [OF assms(2)] show False by simp
qed

lemma request_deps_spec:
  assumes "engine_inv e" "request_deps (request g) ds acc m e = Some (r, e')"
    and "spec_deps ev ds = Some s"
    and "\<And>d e1 r1 e2 s1. d \<in> set ds \<Longrightarrow> engine_inv e1 \<Longrightarrow> frame (set (in_progress e)) e e1 \<Longrightarrow>
      request g d e1 = Some (r1, e2) \<Longrightarrow> ev d = Some s1 \<Longrightarrow> r1 = s1"
  shows "(\<forall>err. s = Inl err \<longrightarrow> r = Inl err) \<and> (\<forall>dvs. s = Inr dvs \<longrightarrow> (\<exists>mx. r = Inr (acc @ dvs, mx)))"
  using assms
proof (induction ds arbitrary: acc m e s)
  case Nil
  then show ?case by auto
next
  case (Cons d ds)
  from Cons.prems(2) obtain r1 e1 where r1: "request g d e = Some (r1, e1)" by (auto split: option.splits)
  from Cons.prems(3) obtain s1 where s1: "ev d = Some s1" by (auto split: option.splits)
  have eq: "r1 = s1" using Cons.prems(4) [OF _ Cons.prems(1) _ r1 s1] by simp
  have post: "request_post d e r1 e1" by (rule reqf.req_post [OF Cons.prems(1) r1])
  show ?case
  proof (cases s1)
    case (Inl err)
    with Cons.prems(2,3) r1 s1 eq show ?thesis by auto
  next
    case (Inr v)
    with post eq obtain nd where nd: "node_at e1 d = Some nd"
      by (auto simp: request_post_def validated_def)
    from Cons.prems(2) r1 Inr eq nd have rest:
      "request_deps (request g) ds (acc @ [\<lparr>dv_key = d, dv_value = v\<rparr>]) (max m (changed_at nd)) e1 = Some (r, e')"
      by simp
    have inv1: "engine_inv e1" and fr: "frame (set (in_progress e)) e e1"
      using post by (simp_all add: request_post_def)
    from Cons.prems(3) s1 Inr obtain s2 where s2: "spec_deps ev ds = Some s2"
      by (auto split: option.splits)
    have "(\<forall>err. s2 = Inl err \<longrightarrow> r = Inl err) \<and>
        (\<forall>dvs. s2 = Inr dvs \<longrightarrow> (\<exists>mx. r = Inr ((acc @ [\<lparr>dv_key = d, dv_value = v\<rparr>]) @ dvs, mx)))"
    proof (rule Cons.IH [OF inv1 rest s2])
      fix d' e2 r2 e3 s3
      assume "d' \<in> set ds" "engine_inv e2" "frame (set (in_progress e1)) e1 e2"
        "request g d' e2 = Some (r2, e3)" "ev d' = Some s3"
      then show "r2 = s3"
        using Cons.prems(4) [of d' e2 r2 e3 s3] fr
        by (auto simp: frame_in_progress [OF fr] intro: frame_trans)
    qed
    with Cons.prems(3) s1 Inr s2 show ?thesis by (cases s2) auto
  qed
qed

lemma request_spec:
  "engine_inv e \<Longrightarrow> cancel e = None \<Longrightarrow> set path = set (in_progress e) \<Longrightarrow> on_path (defs e) path k \<Longrightarrow>
   request fuel k e = Some (r, e') \<Longrightarrow> spec_eval fuel' (defs e) path k = Some s \<Longrightarrow> r = s"
proof (induction fuel arbitrary: k e r e' fuel' path s)
  case 0
  then show ?case by simp
next
  case (Suc g)
  note inv = Suc.prems(1)
  obtain h where h: "fuel' = Suc h" using Suc.prems(6) by (cases fuel') auto
  have post: "request_post k e r e'" by (rule reqf.req_post [OF inv Suc.prems(5)])
  show ?case
  proof (cases r)
    case (Inr v)
    with post have "evals (defs e') k v" "defs e' = defs e"
      by (auto simp: request_post_def engine_inv_def dest!: frame_defs)
    then have ev: "evals (defs e) k v" by simp
    from spec_eval_evals [OF ev on_path_evals [OF Suc.prems(4) ev] Suc.prems(6)] Inr
    show ?thesis by simp
  next
    case (Inl err)
    show ?thesis
    proof (cases "k \<in> set (in_progress e)")
      case True
      with Suc.prems h show ?thesis by auto
    next
      case out: False
      let ?e = "e\<lparr>in_progress := hs_insert k (in_progress e)\<rparr>"
      from Suc.prems(5) out obtain e1 where inner: "request_inner (request g) k ?e = Some (r, e1)"
        by (auto split: option.splits)
      show ?thesis
      proof (cases "node_at e k")
        case None
        with inner Suc.prems h out show ?thesis
          by (auto simp: request_inner_def cancelled_def Let_def defs_def)
      next
        case (Some n)
        have ninv: "node_inv e n" using inv Some by (simp add: engine_inv_def)
        show ?thesis
        proof (cases "n_kind n")
          case Input
          with inner Some ninv Suc.prems(2) Inl show ?thesis
            by (auto simp: request_inner_def cancelled_def Let_def node_inv_def split: if_splits)
        next
          case (Derived ds f)
          have Dk: "defs e k = Some (DDerived ds f)" using Some Derived by (simp add: defs_def)
          from inner Some Derived Inl Suc.prems(2) obtain rl e2 where
            loop: "request_deps (request g) ds [] 0 ?e = Some (rl, e2)"
            and rl: "\<forall>x. rl = Inl x \<longrightarrow> r = Inl x"
              "\<forall>dvs mx. rl = Inr (dvs, mx) \<longrightarrow> r = fst (recompute k (revision e) dvs e2)"
            by (auto simp: request_inner_def cancelled_def Let_def
                split: option.splits sum.splits prod.splits if_splits)
          from Suc.prems(3,6) h out Dk obtain sl where
            sl: "spec_deps (spec_eval h (defs e) (k # path)) ds = Some sl"
            by (auto split: option.splits)
          have inv': "engine_inv ?e" using inv by simp
          have agree: "(\<forall>err. sl = Inl err \<longrightarrow> rl = Inl err) \<and>
              (\<forall>dvs. sl = Inr dvs \<longrightarrow> (\<exists>mx. rl = Inr ([] @ dvs, mx)))"
          proof (rule request_deps_spec [OF inv' loop sl])
            fix d e3 r3 e4 s3
            assume d: "d \<in> set ds" and inv3: "engine_inv e3"
              and fr: "frame (set (in_progress ?e)) ?e e3"
              and r3: "request g d e3 = Some (r3, e4)"
              and s3: "spec_eval h (defs e) (k # path) d = Some s3"
            have D3: "defs e3 = defs e" using frame_defs [OF fr] by simp
            have kd: "dep_on (defs e) k d" using d Dk by (auto simp: dep_on_def)
            have "on_path (defs e3) (k # path) d"
              using Suc.prems(4) kd by (auto simp: D3 on_path_def intro: tranclp.trancl_into_trancl)
            moreover have "set (k # path) = set (in_progress e3)"
              using frame_in_progress [OF fr] Suc.prems(3) by simp
            moreover have "cancel e3 = None" using fr Suc.prems(2) by (simp add: frame_def)
            ultimately show "r3 = s3"
              using Suc.IH [of e3 "k # path" d r3 e4 h s3] inv3 r3 s3 by (simp add: D3)
          qed
          have n2: "node_at e2 k = Some n"
            using reqf.request_deps_post [OF inv' loop] Some by (auto simp: frame_def)
          show ?thesis
          proof (cases sl)
            case (Inl x)
            with agree rl sl Suc.prems(3,6) h out Dk show ?thesis by simp
          next
            case (Inr dvs)
            with agree rl have "r = fst (recompute k (revision e) dvs e2)" by auto
            then have "r = (case f dvs of Inl err \<Rightarrow> Inl (Fail err) | Inr v \<Rightarrow> Inr v)"
              using n2 Derived by (auto simp: recompute_def Let_def split: sum.splits)
            with Inr sl Suc.prems(3,6) h out Dk show ?thesis by (auto split: sum.splits)
          qed
        qed
      qed
    qed
  qed
qed

end
