(* ===== verification/Engine_Reach.thy ===== *)
theory Engine_Reach
  imports Engine_Spec
begin

section \<open>Engine: the reachable states, and what they promise\<close>

text \<open>
  \<open>reachable_engine\<close> is the transition system of an \<open>Engine\<close> value: any sequence of definitions of new
  keys, edits of inputs, requests (cancelled or not), counter resets and changes of the cancellation
  flag.  Every reachable state keeps \<open>engine_inv\<close>, so the theorems of this theory hold for every
  history.  Defining a key a second time is not a transition: the engine overwrites the node without
  telling its dependents, and its callers define each key once.
\<close>

subsection \<open>The specification always answers\<close>

lemma spec_deps_total: "\<forall>d \<in> set ds. ev d \<noteq> None \<Longrightarrow> spec_deps ev ds \<noteq> None"
  by (induction ds) (auto split: sum.splits option.splits)

lemma spec_eval_total:
  "finite (dom D) \<Longrightarrow> card (dom D - set path) < fuel \<Longrightarrow> spec_eval fuel D path k \<noteq> None"
proof (induction fuel arbitrary: path k)
  case 0
  then show ?case by simp
next
  case (Suc fuel)
  show ?case
  proof (cases "k \<in> set path \<or> D k = None")
    case True
    then show ?thesis by auto
  next
    case False
    then have "card (dom D - insert k (set path)) < card (dom D - set path)"
      using Suc.prems by (intro card_diff_insert_less) auto
    then have "spec_eval fuel D (k # path) d \<noteq> None" for d
      using Suc.prems by (intro Suc.IH) simp_all
    then have deps: "spec_deps (spec_eval fuel D (k # path)) ds \<noteq> None" for ds
      by (intro spec_deps_total) simp
    show ?thesis
    proof (cases "the (D k)")
      case (DInput v)
      with False show ?thesis by auto
    next
      case (DDerived ds f)
      from deps [of ds] obtain out where "spec_deps (spec_eval fuel D (k # path)) ds = Some out"
        by blast
      with False DDerived show ?thesis by (auto split: sum.split)
    qed
  qed
qed

definition spec_outcome :: "engine \<Rightarrow> string \<Rightarrow> engine_error + node_value" where
  "spec_outcome e k = the (spec_eval (Suc (length (nodes e))) (defs e) [] k)"

lemma dom_defs: "dom (defs e) = keys_of e"
  by (auto simp: defs_def keys_of_def)

lemma spec_outcome_eq:
  "spec_eval (Suc (length (nodes e))) (defs e) [] k = Some (spec_outcome e k)"
proof -
  have "spec_eval (Suc (length (nodes e))) (defs e) [] k \<noteq> None"
    using card_keys_of [of e] by (intro spec_eval_total) (simp_all add: dom_defs)
  then show ?thesis by (auto simp: spec_outcome_def)
qed

lemma engine_request_spec:
  assumes "engine_inv e" "cancel e = None" "in_progress e = []"
  shows "fst (engine_request k e) = spec_outcome e k"
proof -
  have "request (Suc (length (nodes e))) k e = Some (fst (engine_request k e), snd (engine_request k e))"
    using engine_request_eq [OF assms(1)] by simp
  from request_spec [OF assms(1,2) _ _ this spec_outcome_eq] assms(3) show ?thesis
    by (simp add: on_path_def)
qed

lemma spec_eval_fuel:
  "spec_eval f D p k = Some s \<Longrightarrow> f \<le> g \<Longrightarrow> spec_eval g D p k = Some s"
proof (induction f arbitrary: g p k s)
  case 0
  then show ?case by simp
next
  case (Suc f)
  then obtain h where g: "g = Suc h" "f \<le> h" by (cases g) auto
  have deps: "spec_deps (spec_eval f D q) ds = Some t \<Longrightarrow> spec_deps (spec_eval h D q) ds = Some t" for q ds t
  proof (induction ds arbitrary: t)
    case (Cons d ds)
    from Cons.prems obtain s1 where s1: "spec_eval f D q d = Some s1" by (auto split: option.splits)
    then have "spec_eval h D q d = Some s1" using Suc.IH g by blast
    with Cons s1 show ?case by (auto split: sum.splits option.splits)
  qed simp
  from Suc.prems g show ?case by (auto split: option.splits ndef.splits if_splits dest!: deps)
qed

subsection \<open>Every operation keeps the invariant\<close>

lemma engine_new_inv: "engine_inv engine_new"
  by (simp add: engine_inv_def engine_new_def closed_inv_def validated_def)

text \<open>A new key is a dependency of no node that has a value.\<close>

lemma fresh_key_inv:
  assumes inv: "engine_inv e" and new: "node_at e k = None"
    and n: "(n_kind n = Input \<and> n_value n = Some v) \<or> (n_kind n \<noteq> Input \<and> n_value n = None)"
    and ver: "verified_at n \<le> revision e"
  shows "engine_inv (e\<lparr>nodes := bm_insert k n (nodes e)\<rparr>)" (is "engine_inv ?e")
proof -
  have node: "node_at ?e j = (if j = k then Some n else node_at e j)" for j by simp
  have keep: "value_at ?e j = value_at e j" "changed_of ?e j = changed_of e j" "named ?e j = named e j"
    if "j \<noteq> k" for j
    using that by (simp_all add: value_at_def changed_of_def named_def)
  have kout: "k \<notin> set ds" if "node_at e j = Some m" "n_kind m = Derived ds f" "n_value m \<noteq> None" for j m ds f
  proof -
    have "\<forall>d \<in> set ds. value_at e d \<noteq> None"
      using inv that by (force simp: engine_inv_def node_inv_def)
    with new show ?thesis by (auto simp: value_at_def)
  qed
  have old: "node_inv ?e m" if m: "node_at e j = Some m" "j \<noteq> k" for j m
    unfolding node_inv_def
  proof (intro conjI allI impI)
    have ni: "node_inv e m" using inv m by (simp add: engine_inv_def)
    then show "verified_at m \<le> revision ?e" "n_kind m = Input \<Longrightarrow> n_value m \<noteq> None"
      by (simp_all add: node_inv_def)
    fix ds f w
    assume d: "n_kind m = Derived ds f" and w: "n_value m = Some w"
    have out: "k \<notin> set ds" using kout m(1) d w by simp
    then have same: "d \<in> set ds \<Longrightarrow> d \<noteq> k" for d by auto
    show "\<forall>d \<in> set ds. value_at ?e d \<noteq> None"
      using ni d w by (auto simp: node_inv_def keep same)
    assume "\<forall>d \<in> set ds. changed_of ?e d \<le> verified_at m"
    then have "\<forall>d \<in> set ds. changed_of e d \<le> verified_at m" by (simp add: keep same)
    moreover have args: "map (named ?e) ds = map (named e) ds" by (simp add: keep same)
    ultimately show "f (map (named ?e) ds) = Inr w"
      unfolding args using ni d w by (simp add: node_inv_def)
  qed
  have own: "node_inv ?e n" using n ver by (auto simp: node_inv_def)
  have valid_old: "validated ?e d" if "validated e d" for d
    using that new by (auto simp: validated_def)
  have valid: "validated e d \<or> d = k \<and> n_kind n = Input" if "validated ?e d" for d
    using that n by (cases "d = k") (auto simp: validated_def fresh_at_def)
  have "closed_inv ?e"
    unfolding closed_inv_def
  proof (intro allI impI)
    fix j m ds f
    assume m: "node_at ?e j = Some m" "fresh_at (revision ?e) m" "n_kind m = Derived ds f"
    then have "j \<noteq> k" using n by (auto simp: fresh_at_def)
    with m inv have "\<forall>d \<in> set ds. validated e d" by (auto simp: engine_inv_def closed_inv_def)
    with valid_old show "\<forall>d \<in> set ds. validated ?e d" by blast
  qed
  moreover have "evals (defs ?e) d (the (value_at ?e d))" if "validated ?e d" for d
  proof (cases "d = k")
    case True
    with valid [OF that] new n have "defs ?e d = Some (DInput (the (value_at ?e d)))"
      by (auto simp: validated_def defs_def value_at_def)
    then show ?thesis by (rule evals.ev_input)
  next
    case False
    with valid [OF that] inv have "evals (defs e) d (the (value_at e d))" by (auto simp: engine_inv_def)
    moreover have "defs ?e j = Some x" if "defs e j = Some x" for j x
      using that new by (auto simp: defs_def)
    ultimately show ?thesis by (simp add: keep False evals_mono)
  qed
  ultimately show ?thesis
    using inv own old by (auto simp: engine_inv_def node split: if_splits)
qed

lemma add_input_inv: "engine_inv e \<Longrightarrow> node_at e k = None \<Longrightarrow> engine_inv (add_input k v e)"
  unfolding add_input_def by (rule fresh_key_inv [where v = v]) simp_all

lemma insert_derived_inv:
  "engine_inv e \<Longrightarrow> node_at e k = None \<Longrightarrow> engine_inv (insert_derived k ds f e)"
  unfolding insert_derived_def by (rule fresh_key_inv) simp_all

lemma set_input_Inr:
  "set_input k v e = Inr e' \<longleftrightarrow>
     (\<exists>n. node_at e k = Some n \<and>
        e' = e\<lparr>revision := revision e + 1,
               nodes := bm_insert k ((if n_value n \<noteq> Some v then n\<lparr>n_value := Some v, changed_at := revision e + 1\<rparr>
                 else n)\<lparr>verified_at := revision e + 1\<rparr>) (nodes e)\<rparr>)"
  by (auto simp: set_input_def Let_def split: option.splits)

lemma set_input_inv:
  assumes inv: "engine_inv e" and n: "node_at e k = Some n" "n_kind n = Input"
    and out: "set_input k v e = Inr e'"
  shows "engine_inv e'"
proof -
  let ?r = "revision e + 1"
  let ?n = "(if n_value n \<noteq> Some v then n\<lparr>n_value := Some v, changed_at := ?r\<rparr> else n)\<lparr>verified_at := ?r\<rparr>"
  have e': "e' = e\<lparr>revision := ?r, nodes := bm_insert k ?n (nodes e)\<rparr>"
    using out n(1) unfolding set_input_Inr by force
  have node: "node_at e' j = (if j = k then Some ?n else node_at e j)" for j by (simp add: e')
  have stale: "\<not> fresh_at (revision e') m" if "node_at e j = Some m" for j m
    using that inv by (force simp: e' engine_inv_def node_inv_def fresh_at_def)
  have keep: "value_at e' j = value_at e j" "changed_of e' j = changed_of e j" if "j \<noteq> k" for j
    using that by (simp_all add: value_at_def changed_of_def node)
  have old: "node_inv e' m" if m: "node_at e j = Some m" "j \<noteq> k" for j m
    unfolding node_inv_def
  proof (intro conjI allI impI)
    have ni: "node_inv e m" using inv m by (simp add: engine_inv_def)
    then show "verified_at m \<le> revision e'" "n_kind m = Input \<Longrightarrow> n_value m \<noteq> None"
      by (simp_all add: node_inv_def e')
    fix ds f w
    assume d: "n_kind m = Derived ds f" and w: "n_value m = Some w"
    show "\<forall>d \<in> set ds. value_at e' d \<noteq> None"
      using ni d w by (auto simp: node_inv_def value_at_def node)
    assume le: "\<forall>d \<in> set ds. changed_of e' d \<le> verified_at m"
    have "value_at e' d = value_at e d \<and> changed_of e' d = changed_of e d" if "d \<in> set ds" for d
    proof (cases "d = k")
      case True
      with le that ni have "changed_of e' k \<le> revision e" by (auto simp: node_inv_def)
      then have "n_value n = Some v" by (auto simp: changed_of_def node split: if_splits)
      with True n show ?thesis by (simp add: value_at_def changed_of_def node)
    qed (simp add: keep)
    then have le': "\<forall>d \<in> set ds. changed_of e d \<le> verified_at m"
      and args: "map (named e') ds = map (named e) ds"
      using le by (auto simp: named_def)
    show "f (map (named e') ds) = Inr w"
      unfolding args using ni d w le' by (simp add: node_inv_def)
  qed
  have own: "node_inv e' ?n" using n by (auto simp: node_inv_def e')
  have valid: "d = k" if "validated e' d" for d
    using that stale by (auto simp: validated_def node split: if_splits)
  have "closed_inv e'"
    unfolding closed_inv_def using n stale by (auto simp: node split: if_splits)
  moreover have "evals (defs e') k (the (value_at e' k))"
    using n by (intro evals.ev_input) (simp add: defs_def node value_at_def)
  moreover have "bm_ok (nodes e')" using inv by (simp add: e' engine_inv_def)
  ultimately show ?thesis
    using own old valid by (auto simp: engine_inv_def node split: if_splits)
qed

subsection \<open>The transition system\<close>

inductive reachable_engine :: "engine \<Rightarrow> bool" where
  re_new: "reachable_engine engine_new"
| re_input: "reachable_engine e \<Longrightarrow> node_at e k = None \<Longrightarrow> reachable_engine (add_input k v e)"
| re_derived: "reachable_engine e \<Longrightarrow> node_at e k = None \<Longrightarrow> reachable_engine (add_derived k ds g e)"
| re_action: "reachable_engine e \<Longrightarrow> node_at e k = None \<Longrightarrow> reachable_engine (add_action_node k ds f e)"
| re_edit: "reachable_engine e \<Longrightarrow> node_at e k = Some n \<Longrightarrow> n_kind n = Input \<Longrightarrow>
    set_input k v e = Inr e' \<Longrightarrow> reachable_engine e'"
| re_request: "reachable_engine e \<Longrightarrow> engine_request k e = (r, e') \<Longrightarrow> reachable_engine e'"
| re_reset: "reachable_engine e \<Longrightarrow> reachable_engine (reset_recomputes e)"
| re_cancel: "reachable_engine e \<Longrightarrow> reachable_engine (set_cancel c e)"

lemma reachable_engine_inv: "reachable_engine e \<Longrightarrow> engine_inv e \<and> in_progress e = []"
proof (induction rule: reachable_engine.induct)
  case re_new
  show ?case using engine_new_inv by (simp add: engine_new_def)
next
  case (re_input e k v)
  then show ?case using add_input_inv by (simp add: add_input_def)
next
  case (re_derived e k ds g)
  then have "engine_inv (insert_derived k ds (\<lambda>d. Inr (g d)) e)" by (intro insert_derived_inv) simp_all
  with re_derived show ?case by (simp add: add_derived_def insert_derived_def)
next
  case (re_action e k ds f)
  then have "engine_inv (insert_derived k ds f e)" by (intro insert_derived_inv) simp_all
  with re_action show ?case by (simp add: add_action_node_def insert_derived_def)
next
  case (re_edit e k n v e')
  then have "engine_inv e'" using set_input_inv by blast
  with re_edit show ?case by (auto simp: set_input_Inr)
next
  case (re_request e k r e')
  then have "request_post k e r e'" using engine_request_post by blast
  with re_request show ?case by (auto simp: request_post_def frame_def)
next
  case (re_reset e)
  then show ?case by (simp add: reset_recomputes_def)
next
  case (re_cancel e c)
  then show ?case by (simp add: set_cancel_def)
qed

lemmas reachable_inv = reachable_engine_inv [THEN conjunct1]
lemmas reachable_idle = reachable_engine_inv [THEN conjunct2]

end
