(* ===== verification/Par_Collect.thy ===== *)
theory Par_Collect
  imports Engine_Reach "HOL-Library.While_Combinator"
begin

section \<open>Engine, parallel: collecting the sub-graph of a request\<close>

text \<open>
  The first phase of \<^verbatim>\<open>Engine::request_parallel\<close> (\<^verbatim>\<open>crates/razel-engine/src/lib.rs\<close>): an iterative
  depth-first search that collects the dependencies, the reverse dependencies and the number of
  dependencies of every node below the key, and stops at an unknown node or at a cycle.  One run of the
  loop body is \<open>collect_step\<close>; the stack is a \<open>Vec\<close> used at its end, so the head of the list is its top.
  The loop is a \<open>while_option\<close>, and \<open>collect_total\<close> proves that it ends.
\<close>

datatype dfs_mark = Doing | Done

record collect =
  c_deps :: "(string, string list) bmap"
  c_rdeps :: "(string, string list) bmap"
  c_pending :: "(string, nat) bmap"
  c_mark :: "(string, dfs_mark) bmap"
  c_stack :: "(string \<times> nat) list"
  c_err :: "engine_error option"

definition or_insert :: "'k::linorder \<Rightarrow> 'v \<Rightarrow> ('k, 'v) bmap \<Rightarrow> ('k, 'v) bmap" where
  "or_insert k v m = bm_entry k v (\<lambda>v. v) m"

definition kind_deps :: "kind \<Rightarrow> string list" where
  "kind_deps kd = (case kd of Input \<Rightarrow> [] | Derived deps _ \<Rightarrow> deps)"

definition collect_init :: "string \<Rightarrow> collect" where
  "collect_init key =
     \<lparr>c_deps = [], c_rdeps = [], c_pending = [], c_mark = [], c_stack = [(key, 0)], c_err = None\<rparr>"

definition collect_enter :: "string \<Rightarrow> string list \<Rightarrow> collect \<Rightarrow> collect" where
  "collect_enter k kdeps c =
     c\<lparr>c_mark := bm_insert k Doing (c_mark c),
       c_deps := or_insert k kdeps (c_deps c),
       c_pending := or_insert k (length kdeps) (c_pending c),
       c_rdeps := or_insert k [] (c_rdeps c)\<rparr>"

definition collect_step :: "engine \<Rightarrow> collect \<Rightarrow> collect" where
  "collect_step e c =
     (case c_stack c of
        [] \<Rightarrow> c
      | (k, idx) # rest \<Rightarrow>
          (case node_at e k of
             None \<Rightarrow> c\<lparr>c_err := Some (Fail (''unknown node `'' @ k @ ''`''))\<rparr>
           | Some n \<Rightarrow>
               (let kdeps = kind_deps (n_kind n);
                    c = (if idx = 0 then collect_enter k kdeps c else c)
                in if idx < length kdeps then
                     (let d = kdeps ! idx;
                          c = c\<lparr>c_stack := (k, idx + 1) # rest,
                                c_rdeps := bm_entry d [] (\<lambda>rs. rs @ [k]) (c_rdeps c)\<rparr>
                      in case bm_get (c_mark c) d of
                           Some Doing \<Rightarrow> c\<lparr>c_err := Some (Fail (''dependency cycle at `'' @ d @ ''`''))\<rparr>
                         | Some Done \<Rightarrow> c
                         | None \<Rightarrow> c\<lparr>c_stack := (d, 0) # c_stack c\<rparr>)
                   else c\<lparr>c_mark := bm_insert k Done (c_mark c), c_stack := rest\<rparr>)))"

definition collect_run :: "engine \<Rightarrow> string \<Rightarrow> collect option" where
  "collect_run e key =
     while_option (\<lambda>c. c_stack c \<noteq> [] \<and> c_err c = None) (collect_step e) (collect_init key)"

subsection \<open>The invariant of the search\<close>

definition dlist :: "engine \<Rightarrow> string \<Rightarrow> string list" where
  "dlist e k = (case node_at e k of None \<Rightarrow> [] | Some n \<Rightarrow> kind_deps (n_kind n))"

lemma dep_on_dlist: "dep_on (defs e) k d \<longleftrightarrow> d \<in> set (dlist e k)"
proof (cases "node_at e k")
  case (Some n)
  then show ?thesis by (cases "n_kind n") (auto simp: dep_on_def defs_def dlist_def kind_deps_def)
qed (simp add: dep_on_def defs_def dlist_def)

lemma evals_below: "evals D k v \<Longrightarrow> (dep_on D)\<^sup>*\<^sup>* k j \<Longrightarrow> \<exists>w. evals D j w"
proof (rotate_tac 1, induction rule: rtranclp_induct)
  case base
  then show ?case by blast
next
  case (step y z)
  then show ?case using evals_dep by blast
qed

abbreviation below_dep :: "engine \<Rightarrow> string \<Rightarrow> string \<Rightarrow> bool" where
  "below_dep e k d \<equiv> (dep_on (defs e))\<^sup>*\<^sup>* k d"

definition marked :: "collect \<Rightarrow> string set" where
  "marked c = {k. bm_get (c_mark c) k \<noteq> None}"

definition finished :: "collect \<Rightarrow> string set" where
  "finished c = {k. bm_get (c_mark c) k = Some Done}"

definition rev_of :: "collect \<Rightarrow> string \<Rightarrow> string list" where
  "rev_of c d = (case bm_get (c_rdeps c) d of None \<Rightarrow> [] | Some rs \<Rightarrow> rs)"

text \<open>The entries under the top: each has just descended into the entry above it.\<close>

fun under :: "engine \<Rightarrow> string set \<Rightarrow> string \<Rightarrow> (string \<times> nat) list \<Rightarrow> bool" where
  "under e F d [] = True"
| "under e F d ((k, i) # rest) \<longleftrightarrow>
     0 < i \<and> i \<le> length (dlist e k) \<and> dlist e k ! (i - 1) = d \<and>
     set (take (i - 1) (dlist e k)) \<subseteq> F \<and> under e F k rest"

fun top_ok :: "engine \<Rightarrow> string set \<Rightarrow> (string \<times> nat) list \<Rightarrow> bool" where
  "top_ok e F [] = True"
| "top_ok e F ((k, i) # rest) \<longleftrightarrow>
     i \<le> length (dlist e k) \<and> set (take i (dlist e k)) \<subseteq> F \<and> under e F k rest"

definition pos :: "collect \<Rightarrow> string \<Rightarrow> nat" where
  "pos c k = (case map_of (c_stack c) k of Some i \<Rightarrow> i | None \<Rightarrow> 0)"

definition prog :: "engine \<Rightarrow> collect \<Rightarrow> string \<Rightarrow> nat" where
  "prog e c k = (if k \<in> finished c then length (dlist e k) else pos c k)"

definition tables_ok :: "engine \<Rightarrow> collect \<Rightarrow> bool" where
  "tables_ok e c \<longleftrightarrow>
     (\<forall>k. bm_get (c_deps c) k = (if k \<in> marked c then Some (dlist e k) else None)) \<and>
     (\<forall>k. bm_get (c_pending c) k = (if k \<in> marked c then Some (length (dlist e k)) else None)) \<and>
     (\<forall>k \<in> marked c. node_at e k \<noteq> None) \<and>
     (\<forall>d k. count_list (rev_of c d) k = count_list (take (prog e c k) (dlist e k)) d)"

definition search_inv :: "engine \<Rightarrow> string \<Rightarrow> collect \<Rightarrow> bool" where
  "search_inv e key c \<longleftrightarrow>
     tables_ok e c \<and>
     distinct (map fst (c_stack c)) \<and>
     top_ok e (finished c) (c_stack c) \<and>
     (\<forall>k. bm_get (c_mark c) k = Some Doing \<longleftrightarrow> (\<exists>i. (k, i) \<in> set (c_stack c) \<and> 0 < i)) \<and>
     (\<forall>k. (k, 0) \<in> set (c_stack c) \<longrightarrow> k \<notin> marked c) \<and>
     (\<forall>k \<in> finished c. set (dlist e k) \<subseteq> finished c) \<and>
     (\<forall>k \<in> marked c \<union> fst ` set (c_stack c). below_dep e key k) \<and>
     key \<in> marked c \<union> fst ` set (c_stack c)"

lemma under_mono: "under e F d s \<Longrightarrow> F \<subseteq> G \<Longrightarrow> under e G d s"
  by (induction e F d s rule: under.induct) auto

lemma under_positive: "under e F d s \<Longrightarrow> (k, i) \<in> set s \<Longrightarrow> 0 < i"
  by (induction e F d s rule: under.induct) auto

lemma under_reaches: "under e F d s \<Longrightarrow> (k, i) \<in> set s \<Longrightarrow> (dep_on (defs e))\<^sup>+\<^sup>+ k d"
proof (induction e F d s rule: under.induct)
  case (2 e F d k' i' rest)
  have step: "dep_on (defs e) k' d" using 2(2) by (auto simp: dep_on_dlist)
  show ?case
  proof (cases "(k, i) = (k', i')")
    case True
    with step show ?thesis by auto
  next
    case False
    with 2 have "(dep_on (defs e))\<^sup>+\<^sup>+ k k'" by auto
    with step show ?thesis by (rule tranclp.trancl_into_trancl [rotated -1])
  qed
qed simp

lemma top_ok_pop: "top_ok e F ((k, i) # rest) \<Longrightarrow> top_ok e (insert k F) rest"
proof (cases rest)
  case (Cons p rest')
  obtain k' i' where p: "p = (k', i')" by force
  assume "top_ok e F ((k, i) # rest)"
  then have u: "0 < i'" "i' \<le> length (dlist e k')" "dlist e k' ! (i' - 1) = k"
    "set (take (i' - 1) (dlist e k')) \<subseteq> F" "under e F k' rest'" by (auto simp: Cons p)
  have "take i' (dlist e k') = take (i' - 1) (dlist e k') @ [k]"
    using u(1-3) take_Suc_conv_app_nth [of "i' - 1" "dlist e k'"] by simp
  with u under_mono [of e F k' rest' "insert k F"] show ?thesis by (auto simp: Cons p)
qed simp

lemma search_inv_init: "search_inv e key (collect_init key)"
  by (simp add: search_inv_def tables_ok_def collect_init_def marked_def finished_def rev_of_def prog_def pos_def)

subsection \<open>One step of the search\<close>

text \<open>The state between the entry of the top node and the look at its next dependency.\<close>

definition search_mid :: "engine \<Rightarrow> string \<Rightarrow> collect \<Rightarrow> bool" where
  "search_mid e key c \<longleftrightarrow>
     tables_ok e c \<and>
     distinct (map fst (c_stack c)) \<and>
     top_ok e (finished c) (c_stack c) \<and>
     (\<forall>k. bm_get (c_mark c) k = Some Doing \<longleftrightarrow> k \<in> fst ` set (c_stack c)) \<and>
     (\<forall>k \<in> finished c. set (dlist e k) \<subseteq> finished c) \<and>
     (\<forall>k \<in> marked c. below_dep e key k) \<and> key \<in> marked c"

lemma in_fst_image: "x \<in> fst ` S \<longleftrightarrow> (\<exists>i. (x, i) \<in> S)"
  by force

lemma marked_cases: "k \<in> marked c \<longleftrightarrow> bm_get (c_mark c) k = Some Doing \<or> k \<in> finished c"
  by (cases "bm_get (c_mark c) k"; cases "the (bm_get (c_mark c) k)") (auto simp: marked_def finished_def)

lemma or_insert_get:
  "bm_get (or_insert k v m) j = (if j = k \<and> bm_get m k = None then Some v else bm_get m j)"
  by (auto simp: or_insert_def bm_entry_def split: option.splits)

lemma enter_mid:
  assumes inv: "search_inv e key c" and st: "c_stack c = (k, 0) # rest" and n: "node_at e k \<noteq> None"
  shows "search_mid e key (collect_enter k (dlist e k) c)"
proof -
  let ?c = "collect_enter k (dlist e k) c"
  have un: "k \<notin> marked c" and tab: "tables_ok e c" using inv st by (auto simp: search_inv_def)
  have fin: "finished ?c = finished c" using un by (auto simp: finished_def collect_enter_def marked_def)
  have mk: "marked ?c = insert k (marked c)" by (auto simp: marked_def collect_enter_def)
  have rev: "rev_of ?c d = rev_of c d" for d
    by (auto simp: rev_of_def collect_enter_def or_insert_get split: option.splits)
  have prog: "prog e ?c x = prog e c x" for x unfolding prog_def fin by (simp add: pos_def collect_enter_def)
  have tab': "tables_ok e ?c"
    unfolding tables_ok_def
  proof (intro conjI allI)
    fix x
    show "bm_get (c_deps ?c) x = (if x \<in> marked ?c then Some (dlist e x) else None)"
      using tab un unfolding tables_ok_def by (auto simp: collect_enter_def or_insert_get mk [unfolded collect_enter_def])
    show "bm_get (c_pending ?c) x = (if x \<in> marked ?c then Some (length (dlist e x)) else None)"
      using tab un unfolding tables_ok_def by (auto simp: collect_enter_def or_insert_get mk [unfolded collect_enter_def])
  next
    show "\<forall>x \<in> marked ?c. node_at e x \<noteq> None" using tab n unfolding mk tables_ok_def by blast
  next
    fix d x
    show "count_list (rev_of ?c d) x = count_list (take (prog e ?c x) (dlist e x)) d"
      using tab unfolding rev prog tables_ok_def by blast
  qed
  have dis: "distinct (map fst (c_stack c))" and top: "top_ok e (finished c) (c_stack c)"
    and doing: "\<forall>x. bm_get (c_mark c) x = Some Doing \<longleftrightarrow> (\<exists>i. (x, i) \<in> set (c_stack c) \<and> 0 < i)"
    using inv by (auto simp: search_inv_def)
  have doing': "bm_get (c_mark ?c) x = Some Doing \<longleftrightarrow> x \<in> fst ` set (c_stack ?c)" for x
  proof (cases "x = k")
    case True
    then show ?thesis by (simp add: collect_enter_def st)
  next
    case False
    have "0 < i" if "(x, i) \<in> set rest" for i using top that by (auto simp: st intro: under_positive)
    with doing False show ?thesis by (auto simp: collect_enter_def st in_fst_image)
  qed
  have stk: "c_stack ?c = c_stack c" by (simp add: collect_enter_def)
  have "x \<in> marked ?c" if "x \<in> fst ` set (c_stack c)" for x
    using doing' [of x] that unfolding stk marked_cases by blast
  moreover have "key \<in> marked c \<union> fst ` set (c_stack c)"
    "\<forall>x \<in> insert k (marked c). below_dep e key x" "\<forall>x \<in> finished c. set (dlist e x) \<subseteq> finished c"
    using inv by (simp_all add: search_inv_def st)
  ultimately show ?thesis
    using tab' dis top doing' unfolding search_mid_def fin stk mk by blast
qed

lemma entered_mid:
  assumes inv: "search_inv e key c" and st: "c_stack c = (k, i) # rest" and i: "0 < i"
  shows "search_mid e key c"
proof -
  have pos: "0 < j" if "(x, j) \<in> set (c_stack c)" for x j
  proof -
    have "under e (finished c) k rest" using inv by (simp add: search_inv_def st)
    with that i under_positive [of e "finished c" k rest x j] show ?thesis by (auto simp: st)
  qed
  have doing: "bm_get (c_mark c) x = Some Doing \<longleftrightarrow> x \<in> fst ` set (c_stack c)" for x
  proof -
    have "bm_get (c_mark c) x = Some Doing \<longleftrightarrow> (\<exists>i. (x, i) \<in> set (c_stack c) \<and> 0 < i)"
      using inv by (simp add: search_inv_def)
    with pos [of x] show ?thesis unfolding in_fst_image by blast
  qed
  then have "x \<in> marked c" if "x \<in> fst ` set (c_stack c)" for x
    using that unfolding marked_cases by blast
  with inv doing show ?thesis unfolding search_inv_def search_mid_def by blast
qed

lemma mid_pop:
  assumes mid: "search_mid e key c" and st: "c_stack c = (k, i) # rest" and i: "i = length (dlist e k)"
  shows "search_inv e key (c\<lparr>c_mark := bm_insert k Done (c_mark c), c_stack := rest\<rparr>)"
proof -
  let ?c = "c\<lparr>c_mark := bm_insert k Done (c_mark c), c_stack := rest\<rparr>"
  have dis: "distinct (map fst (c_stack c))" and tab: "tables_ok e c"
    and top: "top_ok e (finished c) ((k, i) # rest)"
    and doing: "\<forall>x. bm_get (c_mark c) x = Some Doing \<longleftrightarrow> x \<in> fst ` set (c_stack c)"
    using mid st by (auto simp: search_mid_def)
  have kd: "bm_get (c_mark c) k = Some Doing" using doing by (simp add: st)
  have fin: "finished ?c = insert k (finished c)" by (auto simp: finished_def)
  have mk: "marked ?c = marked c" using kd by (auto simp: marked_def)
  have prog: "prog e ?c x = prog e c x" for x
    using kd i dis unfolding prog_def fin by (auto simp: finished_def pos_def st)
  have tab': "tables_ok e ?c"
    using tab unfolding tables_ok_def mk prog by (simp add: rev_of_def)
  have top': "top_ok e (finished ?c) rest" unfolding fin using top by (rule top_ok_pop)
  have closed: "\<forall>x \<in> finished ?c. set (dlist e x) \<subseteq> finished ?c"
    using mid top i unfolding fin search_mid_def by auto
  have pos: "0 < j" if "(x, j) \<in> set rest" for x j using top that by (auto intro: under_positive)
  have doing': "bm_get (c_mark ?c) x = Some Doing \<longleftrightarrow> (\<exists>j. (x, j) \<in> set rest \<and> 0 < j)" for x
    using doing dis pos by (auto simp: st in_fst_image)
  have stk: "c_stack ?c = rest" by simp
  have "x \<in> marked c" if "x \<in> fst ` set rest" for x
    using doing that unfolding marked_cases st by auto
  moreover have "(x, 0) \<notin> set rest" for x using pos [of x 0] by blast
  moreover have "distinct (map fst rest)" using dis by (simp add: st)
  moreover have "key \<in> marked c" "\<forall>x \<in> marked c. below_dep e key x"
    using mid by (simp_all add: search_mid_def)
  ultimately show ?thesis
    using tab' top' closed doing' unfolding search_inv_def stk mk by blast
qed

abbreviation advance :: "string \<Rightarrow> nat \<Rightarrow> (string \<times> nat) list \<Rightarrow> string \<Rightarrow> collect \<Rightarrow> collect" where
  "advance k i rest d c \<equiv>
     c\<lparr>c_stack := (k, i + 1) # rest, c_rdeps := bm_entry d [] (\<lambda>rs. rs @ [k]) (c_rdeps c)\<rparr>"

lemma advance_tables:
  assumes mid: "search_mid e key c" and st: "c_stack c = (k, i) # rest" and i: "i < length (dlist e k)"
    and stk: "s = (k, i + 1) # rest \<or> s = (d, 0) # (k, i + 1) # rest \<and> d \<notin> marked c"
    and d: "d = dlist e k ! i"
  shows "tables_ok e ((advance k i rest d c)\<lparr>c_stack := s\<rparr>)" (is "tables_ok e ?c")
proof -
  have tab: "tables_ok e c" using mid by (simp add: search_mid_def)
  have mk: "marked ?c = marked c" by (simp add: marked_def)
  have fin: "finished ?c = finished c" by (simp add: finished_def)
  have kd: "bm_get (c_mark c) k = Some Doing" using mid by (simp add: search_mid_def st)
  then have kf: "k \<notin> finished c" by (simp add: finished_def)
  have off: "d \<notin> finished c \<and> map_of (c_stack c) d = None" if "d \<notin> marked c"
    using that mid unfolding search_mid_def marked_cases map_of_eq_None_iff by simp
  have prog: "prog e ?c x = (if x = k then i + 1 else prog e c x)" for x
    using kf stk off st unfolding prog_def fin by (auto simp: pos_def split: if_splits)
  have progk: "prog e c k = i" using kf by (simp add: prog_def pos_def st)
  have rev: "rev_of ?c x = (if x = d then rev_of c d @ [k] else rev_of c x)" for x
    by (simp add: rev_of_def bm_entry_def split: option.split)
  have cnt: "count_list (rev_of ?c y) x = count_list (take (prog e ?c x) (dlist e x)) y" for x y
  proof -
    have old: "count_list (rev_of c y) x = count_list (take (prog e c x) (dlist e x)) y"
      using tab by (simp add: tables_ok_def)
    show ?thesis
    proof (cases "x = k")
      case False
      with old show ?thesis unfolding rev prog by auto
    next
      case True
      have "take (i + 1) (dlist e k) = take i (dlist e k) @ [d]"
        using i d by (simp add: take_Suc_conv_app_nth)
      with old show ?thesis unfolding rev prog True progk by simp
    qed
  qed
  have "bm_get (c_deps ?c) = bm_get (c_deps c)" "bm_get (c_pending ?c) = bm_get (c_pending c)" by simp_all
  with tab cnt show ?thesis unfolding tables_ok_def mk by simp
qed

lemma mid_advance:
  assumes mid: "search_mid e key c" and st: "c_stack c = (k, i) # rest" and i: "i < length (dlist e k)"
    and d: "d = dlist e k ! i"
  shows "d \<in> finished c \<Longrightarrow> search_inv e key (advance k i rest d c)"
    and "d \<notin> marked c \<Longrightarrow>
      search_inv e key ((advance k i rest d c)\<lparr>c_stack := (d, 0) # (k, i + 1) # rest\<rparr>)"
proof -
  have top: "top_ok e (finished c) ((k, i) # rest)" and dis: "distinct (k # map fst rest)"
    and doing: "\<And>x. bm_get (c_mark c) x = Some Doing \<longleftrightarrow> x \<in> insert k (fst ` set rest)"
    and closed: "\<forall>x \<in> finished c. set (dlist e x) \<subseteq> finished c"
    and reach: "\<forall>x \<in> marked c. below_dep e key x" "key \<in> marked c"
    using mid by (simp_all add: search_mid_def st)
  have pos: "0 < j" if "(x, j) \<in> set rest" for x j using top that by (auto intro: under_positive)
  have mem: "insert k (fst ` set rest) \<subseteq> marked c" using doing unfolding marked_cases subset_iff by blast
  have tk: "take (Suc i) (dlist e k) = take i (dlist e k) @ [d]" using i d by (simp add: take_Suc_conv_app_nth)
  have mk: "marked (advance k i rest d c) = marked c" "finished (advance k i rest d c) = finished c"
    by (simp_all add: marked_def finished_def)
  have mk': "marked ((advance k i rest d c)\<lparr>c_stack := s\<rparr>) = marked c"
    "finished ((advance k i rest d c)\<lparr>c_stack := s\<rparr>) = finished c" for s
    by (simp_all add: marked_def finished_def)
  have doing': "bm_get (c_mark c) x = Some Doing \<longleftrightarrow> (\<exists>j. (x, j) \<in> set ((k, i + 1) # rest) \<and> 0 < j)" for x
    unfolding doing in_fst_image insert_iff using pos by auto
  have nozero: "(x, 0) \<notin> set ((k, i + 1) # rest)" for x using pos [of x 0] by auto
  show "search_inv e key (advance k i rest d c)" if "d \<in> finished c"
    unfolding search_inv_def mk
  proof (intro conjI)
    have eq: "(advance k i rest d c)\<lparr>c_stack := (k, i + 1) # rest\<rparr> = advance k i rest d c" by simp
    show "tables_ok e (advance k i rest d c)"
      by (rule advance_tables [OF mid st i disjI1 [OF refl] d, unfolded eq])
    show "distinct (map fst (c_stack (advance k i rest d c)))" using dis by simp
    show "top_ok e (finished c) (c_stack (advance k i rest d c))" using top tk that i by simp
    show "\<forall>x. (bm_get (c_mark (advance k i rest d c)) x = Some Doing) =
        (\<exists>j. (x, j) \<in> set (c_stack (advance k i rest d c)) \<and> 0 < j)" using doing' by simp
    show "\<forall>x. (x, 0) \<in> set (c_stack (advance k i rest d c)) \<longrightarrow> x \<notin> marked c" using nozero by simp
    show "\<forall>x \<in> finished c. set (dlist e x) \<subseteq> finished c" by (rule closed)
    show "\<forall>x \<in> marked c \<union> fst ` set (c_stack (advance k i rest d c)). below_dep e key x"
      using reach mem by auto
    show "key \<in> marked c \<union> fst ` set (c_stack (advance k i rest d c))" using reach by simp
  qed
  have below: "below_dep e key d"
  proof -
    have "below_dep e key k" using reach mem by blast
    moreover have "dep_on (defs e) k d" using i d by (simp add: dep_on_dlist)
    ultimately show ?thesis by (rule rtranclp.rtrancl_into_rtrancl)
  qed
  show "search_inv e key ((advance k i rest d c)\<lparr>c_stack := (d, 0) # (k, i + 1) # rest\<rparr>)" if "d \<notin> marked c"
    unfolding search_inv_def mk'
  proof (intro conjI)
    show "tables_ok e ((advance k i rest d c)\<lparr>c_stack := (d, 0) # (k, i + 1) # rest\<rparr>)"
      using that by (intro advance_tables [OF mid st i _ d]) simp
    show "distinct (map fst (c_stack ((advance k i rest d c)\<lparr>c_stack := (d, 0) # (k, i + 1) # rest\<rparr>)))"
      using dis that mem by auto
    show "top_ok e (finished c) (c_stack ((advance k i rest d c)\<lparr>c_stack := (d, 0) # (k, i + 1) # rest\<rparr>))"
      using top i d by simp
    show "\<forall>x. (bm_get (c_mark ((advance k i rest d c)\<lparr>c_stack := (d, 0) # (k, i + 1) # rest\<rparr>)) x = Some Doing) =
        (\<exists>j. (x, j) \<in> set (c_stack ((advance k i rest d c)\<lparr>c_stack := (d, 0) # (k, i + 1) # rest\<rparr>)) \<and> 0 < j)"
      using doing' by auto
    show "\<forall>x. (x, 0) \<in> set (c_stack ((advance k i rest d c)\<lparr>c_stack := (d, 0) # (k, i + 1) # rest\<rparr>)) \<longrightarrow> x \<notin> marked c"
      using nozero that by auto
    show "\<forall>x \<in> finished c. set (dlist e x) \<subseteq> finished c" by (rule closed)
    show "\<forall>x \<in> marked c \<union> fst ` set (c_stack ((advance k i rest d c)\<lparr>c_stack := (d, 0) # (k, i + 1) # rest\<rparr>)). below_dep e key x"
      using reach mem below by auto
    show "key \<in> marked c \<union> fst ` set (c_stack ((advance k i rest d c)\<lparr>c_stack := (d, 0) # (k, i + 1) # rest\<rparr>))"
      using reach by simp
  qed
qed

lemma mid_cycle:
  assumes mid: "search_mid e key c" and st: "c_stack c = (k, i) # rest" and i: "i < length (dlist e k)"
    and d: "bm_get (c_mark c) (dlist e k ! i) = Some Doing"
  shows "\<not> evals (defs e) key v"
proof
  let ?d = "dlist e k ! i"
  assume ev: "evals (defs e) key v"
  have top: "top_ok e (finished c) ((k, i) # rest)" and stk: "?d \<in> insert k (fst ` set rest)"
    using mid d by (simp_all add: search_mid_def st)
  have kd: "dep_on (defs e) k ?d" using i by (simp add: dep_on_dlist)
  have dk: "(dep_on (defs e))\<^sup>*\<^sup>* ?d k"
  proof (cases "?d = k")
    case False
    with stk obtain j where "(?d, j) \<in> set rest" unfolding insert_iff in_fst_image by blast
    with top have "(dep_on (defs e))\<^sup>+\<^sup>+ ?d k" by (auto intro: under_reaches)
    then show ?thesis by (rule tranclp_into_rtranclp)
  qed simp
  have "?d \<in> marked c" using d by (simp add: marked_def)
  then have "below_dep e key ?d" using mid by (simp add: search_mid_def)
  then obtain w where "evals (defs e) ?d w" using evals_below [OF ev] by blast
  moreover have "(dep_on (defs e))\<^sup>+\<^sup>+ ?d ?d" using dk kd by (rule rtranclp_into_tranclp1)
  ultimately show False using evals_acyclic by blast
qed

text \<open>What one run of the loop body does.\<close>

lemma collect_step_cases:
  assumes inv: "search_inv e key c" and st: "c_stack c = (k, i) # rest"
  obtains (unknown) "node_at e k = None" "collect_step e c = c\<lparr>c_err := Some (Fail (''unknown node `'' @ k @ ''`''))\<rparr>"
  | (mid) c' where "search_mid e key c'" "c_stack c' = (k, i) # rest" "c_err c' = c_err c"
      "\<And>x. prog e c' x = prog e c x" "finished c' = finished c" "i < length (dlist e k)"
      "collect_step e c = (case bm_get (c_mark c') (dlist e k ! i) of
         Some Doing \<Rightarrow> (advance k i rest (dlist e k ! i) c')
           \<lparr>c_err := Some (Fail (''dependency cycle at `'' @ dlist e k ! i @ ''`''))\<rparr>
       | Some Done \<Rightarrow> advance k i rest (dlist e k ! i) c'
       | None \<Rightarrow> (advance k i rest (dlist e k ! i) c')\<lparr>c_stack := (dlist e k ! i, 0) # (k, i + 1) # rest\<rparr>)"
  | (pop) c' where "search_mid e key c'" "c_stack c' = (k, i) # rest" "c_err c' = c_err c"
      "\<And>x. prog e c' x = prog e c x" "finished c' = finished c" "i = length (dlist e k)"
      "collect_step e c = c'\<lparr>c_mark := bm_insert k Done (c_mark c'), c_stack := rest\<rparr>"
proof (cases "node_at e k")
  case None
  then show thesis by (intro unknown) (simp_all add: collect_step_def st)
next
  case (Some n)
  have kd: "kind_deps (n_kind n) = dlist e k" by (simp add: dlist_def Some)
  let ?c = "if i = 0 then collect_enter k (dlist e k) c else c"
  have mid': "search_mid e key ?c"
    using enter_mid [OF inv, of k rest] entered_mid [OF inv, of k i rest] st Some by auto
  have un: "k \<notin> marked c" if "i = 0" using inv st that by (auto simp: search_inv_def)
  have same: "c_stack ?c = (k, i) # rest" "c_err ?c = c_err c" "finished ?c = finished c"
    using un st by (auto simp: collect_enter_def finished_def marked_def)
  have prog: "prog e ?c x = prog e c x" for x
    using same un by (auto simp: prog_def pos_def collect_enter_def st)
  have le: "i \<le> length (dlist e k)" using inv st by (simp add: search_inv_def)
  show thesis
  proof (cases "i < length (dlist e k)")
    case True
    show thesis
      by (rule mid [OF mid' same(1,2) prog same(3) True])
        (use True in \<open>auto simp: collect_step_def st Some kd Let_def split: option.split dfs_mark.split\<close>)
  next
    case False
    with le have il: "i = length (dlist e k)" by simp
    show thesis
      by (rule pop [OF mid' same(1,2) prog same(3) il])
        (use False in \<open>simp add: collect_step_def st Some kd Let_def\<close>)
  qed
qed

definition collect_ok :: "engine \<Rightarrow> string \<Rightarrow> collect \<Rightarrow> bool" where
  "collect_ok e key c \<longleftrightarrow>
     (c_err c = None \<longrightarrow> search_inv e key c) \<and>
     (\<forall>err. c_err c = Some err \<longrightarrow> (\<exists>m. err = Fail m) \<and> (\<forall>v. \<not> evals (defs e) key v))"

lemma collect_step_ok:
  assumes ok: "collect_ok e key c" and go: "c_stack c \<noteq> []" "c_err c = None"
  shows "collect_ok e key (collect_step e c)"
proof -
  have inv: "search_inv e key c" using ok go by (simp add: collect_ok_def)
  obtain k i rest where st: "c_stack c = (k, i) # rest" using go(1) by (cases "c_stack c") auto
  from inv st show ?thesis
  proof (cases rule: collect_step_cases)
    case unknown
    have "below_dep e key k" using inv st by (auto simp: search_inv_def)
    moreover have "\<not> evals (defs e) k w" for w
      using unknown(1) by (auto simp: defs_def elim!: evalsE)
    ultimately have "\<not> evals (defs e) key v" for v using evals_below by blast
    with unknown(2) show ?thesis by (simp add: collect_ok_def)
  next
    case (pop c')
    then show ?thesis using mid_pop [OF pop(1,2)] go(2) by (simp add: collect_ok_def)
  next
    case (mid c')
    note adv = mid_advance [OF mid(1,2,6) refl]
    show ?thesis
    proof (cases "bm_get (c_mark c') (dlist e k ! i)")
      case None
      then have "dlist e k ! i \<notin> marked c'" by (simp add: marked_def)
      with adv(2) None mid(3,7) go(2) show ?thesis by (simp add: collect_ok_def)
    next
      case (Some m)
      show ?thesis
      proof (cases m)
        case Doing
        with Some mid_cycle [OF mid(1,2,6)] mid(7) show ?thesis by (simp add: collect_ok_def)
      next
        case Done
        with Some have "dlist e k ! i \<in> finished c'" by (simp add: finished_def)
        with adv(1) Some Done mid(3,7) go(2) show ?thesis by (simp add: collect_ok_def)
      qed
    qed
  qed
qed

subsection \<open>The search ends\<close>

definition scanned :: "engine \<Rightarrow> collect \<Rightarrow> string \<Rightarrow> nat" where
  "scanned e c k = prog e c k + (if k \<in> finished c then 1 else 0)"

definition collect_left :: "engine \<Rightarrow> collect \<Rightarrow> nat" where
  "collect_left e c =
     (if c_err c = None then Suc (\<Sum>k \<in> keys_of e. Suc (length (dlist e k)) - scanned e c k) else 0)"

lemma sum_one_less:
  fixes f g :: "'a \<Rightarrow> nat"
  assumes "finite A" "k \<in> A" "g k < f k" "\<And>x. x \<noteq> k \<Longrightarrow> g x = f x"
  shows "sum g A < sum f A"
  using assms by (metis sum_strict_mono_ex1 less_le_not_le nle_le)

lemma collect_left_less:
  assumes k: "k \<in> keys_of e" and err: "c_err c = None"
    and other: "\<And>x. x \<noteq> k \<Longrightarrow> scanned e c' x = scanned e c x"
    and own: "scanned e c k < scanned e c' k" "scanned e c k \<le> length (dlist e k)"
  shows "collect_left e c' < collect_left e c"
proof -
  have "(\<Sum>x \<in> keys_of e. Suc (length (dlist e x)) - scanned e c' x) <
      (\<Sum>x \<in> keys_of e. Suc (length (dlist e x)) - scanned e c x)"
    by (rule sum_one_less [of _ k]) (use k other own in auto)
  with err show ?thesis by (simp add: collect_left_def)
qed

lemma mid_top:
  assumes "search_mid e key c" "c_stack c = (k, i) # rest"
  shows "k \<notin> finished c" "k \<in> keys_of e" "distinct (k # map fst rest)"
proof -
  have kd: "bm_get (c_mark c) k = Some Doing" and tab: "tables_ok e c"
    using assms by (simp_all add: search_mid_def)
  from kd show "k \<notin> finished c" by (simp add: finished_def)
  from kd have "k \<in> marked c" by (simp add: marked_def)
  with tab show "k \<in> keys_of e" unfolding tables_ok_def keys_of_def by blast
  show "distinct (k # map fst rest)" using assms by (simp add: search_mid_def)
qed

lemma collect_step_left:
  assumes ok: "collect_ok e key c" and go: "c_stack c \<noteq> []" "c_err c = None"
  shows "collect_left e (collect_step e c) < collect_left e c"
proof -
  have inv: "search_inv e key c" using ok go by (simp add: collect_ok_def)
  obtain k i rest where st: "c_stack c = (k, i) # rest" using go(1) by (cases "c_stack c") auto
  from inv st show ?thesis
  proof (cases rule: collect_step_cases)
    case unknown
    then show ?thesis using go by (simp add: collect_left_def)
  next
    case (pop c')
    let ?c = "c'\<lparr>c_mark := bm_insert k Done (c_mark c'), c_stack := rest\<rparr>"
    have kf: "k \<notin> finished c" and kk: "k \<in> keys_of e" and dis: "distinct (k # map fst rest)"
      using mid_top [OF pop(1,2)] pop(5) by simp_all
    have fin: "finished ?c = insert k (finished c)" using pop(5) by (auto simp: finished_def)
    have pc: "prog e c x = (if x \<in> finished c then length (dlist e x) else pos c' x)" for x
      using pop(4) [of x] pop(5) by (simp add: prog_def)
    have "scanned e ?c x = scanned e c x" if "x \<noteq> k" for x
      using that by (simp add: scanned_def prog_def [of e ?c] pc fin pos_def pop(2))
    moreover have "scanned e c k = length (dlist e k)" using kf pop(6) by (simp add: scanned_def pc pos_def pop(2))
    moreover have "scanned e ?c k = Suc (length (dlist e k))" by (simp add: scanned_def prog_def fin)
    ultimately show ?thesis unfolding pop(7) by (intro collect_left_less [OF kk go(2)]) simp_all
  next
    case (mid c')
    let ?d = "dlist e k ! i"
    have kf: "k \<notin> finished c" and kk: "k \<in> keys_of e" and dis: "distinct (k # map fst rest)"
      using mid_top [OF mid(1,2)] mid(5) by simp_all
    have pc: "prog e c x = (if x \<in> finished c then length (dlist e x) else pos c' x)" for x
      using mid(4) [of x] mid(5) by (simp add: prog_def)
    have off: "?d \<notin> finished c \<and> ?d \<noteq> k \<and> map_of rest ?d = None" if "bm_get (c_mark c') ?d = None"
    proof -
      have "\<forall>x. bm_get (c_mark c') x = Some Doing \<longleftrightarrow> x \<in> fst ` set (c_stack c')"
        using mid(1) by (simp add: search_mid_def)
      with that have "?d \<notin> fst ` set (c_stack c')" by (metis option.distinct(1))
      moreover have "?d \<notin> finished c'" using that by (simp add: finished_def)
      ultimately show ?thesis using mid(2,5) by (auto simp: map_of_eq_None_iff)
    qed
    have less: "collect_left e c'' < collect_left e c"
      if "finished c'' = finished c" "\<And>x. pos c'' x = (if x = k then i + 1 else pos c' x)" for c''
    proof (rule collect_left_less [OF kk go(2)])
      show "scanned e c'' x = scanned e c x" if "x \<noteq> k" for x
        using that \<open>finished c'' = finished c\<close> \<open>\<And>x. pos c'' x = _ x\<close>
        by (simp add: scanned_def prog_def [of e c''] pc)
      have "scanned e c k = i" using kf by (simp add: scanned_def pc pos_def mid(2))
      then show "scanned e c k < scanned e c'' k" "scanned e c k \<le> length (dlist e k)"
        using that kf mid(6) by (simp_all add: scanned_def prog_def)
    qed
    show ?thesis
    proof (cases "bm_get (c_mark c') ?d")
      case None
      show ?thesis unfolding mid(7) None option.case
        using off [OF None] mid(5) by (intro less) (auto simp: finished_def pos_def mid(2))
    next
      case (Some m)
      show ?thesis
      proof (cases m)
        case Doing
        then show ?thesis unfolding mid(7) Some option.case using go(2) by (simp add: collect_left_def)
      next
        case Done
        show ?thesis unfolding mid(7) Some option.case Done dfs_mark.case
          using mid(5) by (intro less) (auto simp: finished_def pos_def mid(2))
      qed
    qed
  qed
qed

subsection \<open>What the search returns\<close>

definition collected :: "engine \<Rightarrow> string \<Rightarrow> collect \<Rightarrow> bool" where
  "collected e key c \<longleftrightarrow>
     finite (marked c) \<and> key \<in> marked c \<and>
     (\<forall>k \<in> marked c. below_dep e key k \<and> node_at e k \<noteq> None \<and> set (dlist e k) \<subseteq> marked c) \<and>
     (\<forall>k. bm_get (c_deps c) k = (if k \<in> marked c then Some (dlist e k) else None)) \<and>
     (\<forall>k. bm_get (c_pending c) k = (if k \<in> marked c then Some (length (dlist e k)) else None)) \<and>
     (\<forall>d k. count_list (rev_of c d) k = (if k \<in> marked c then count_list (dlist e k) d else 0))"

lemma collect_total: "\<exists>c. collect_run e key = Some c"
  unfolding collect_run_def
proof (rule measure_while_option_Some [where P = "collect_ok e key" and f = "collect_left e"])
  show "collect_ok e key (collect_init key)"
    using search_inv_init [of e key] by (simp add: collect_ok_def collect_init_def)
qed (simp add: collect_step_ok collect_step_left)

lemma collect_run_ok:
  assumes "collect_run e key = Some c"
  shows "collect_ok e key c" "c_err c = None \<Longrightarrow> c_stack c = []"
proof -
  show "collect_ok e key c"
  proof (rule while_option_rule [OF _ assms [unfolded collect_run_def]])
    show "collect_ok e key (collect_init key)"
      using search_inv_init [of e key] by (simp add: collect_ok_def collect_init_def)
  qed (simp add: collect_step_ok)
  show "c_stack c = []" if "c_err c = None"
    using while_option_stop [OF assms [unfolded collect_run_def]] that by simp
qed

lemma collect_run_err:
  "collect_run e key = Some c \<Longrightarrow> c_err c = Some err \<Longrightarrow> (\<exists>m. err = Fail m) \<and> (\<forall>v. \<not> evals (defs e) key v)"
  using collect_run_ok(1) unfolding collect_ok_def by blast

lemma collect_run_collected:
  assumes "collect_run e key = Some c" "c_err c = None"
  shows "collected e key c"
proof -
  note ok = collect_run_ok [OF assms(1)]
  have inv: "search_inv e key c" and st: "c_stack c = []" using ok assms(2) by (simp_all add: collect_ok_def)
  have fin: "marked c = finished c"
    using inv unfolding marked_cases set_eq_iff by (simp add: search_inv_def st)
  have "marked c \<subseteq> keys_of e" using inv by (auto simp: search_inv_def tables_ok_def keys_of_def)
  then have "finite (marked c)" using finite_keys_of finite_subset by blast
  moreover have "take (prog e c k) (dlist e k) = (if k \<in> marked c then dlist e k else [])" for k
    by (simp add: prog_def fin pos_def st)
  ultimately show ?thesis
    using inv fin unfolding collected_def search_inv_def tables_ok_def by (simp add: st)
qed

end
