(* ===== verification/Engine_Par.thy ===== *)
theory Engine_Par
  imports Par_Collect
begin

section \<open>Engine, parallel: the coordinator and its workers\<close>

text \<open>
  The second phase of \<^verbatim>\<open>Engine::request_parallel\<close>.  The coordinator owns the engine, the ready queue and
  the counts of unvalidated dependencies; a task carries its key, its compute function and the values of
  its dependencies, so a worker touches no shared state but the task queue (guarded by the mutex) and
  the result channel.  A transition is one atomic action: a worker takes a task, a worker sends a result,
  or the coordinator runs one iteration of its loops.  Every schedule of the threads is a sequence of
  these transitions.  A compute function that panics is caught by the worker and is a function that
  returns the error text; the branch for a closed channel is not reachable while the pool is running.
  The ready queue starts in the iteration order of a \<open>HashMap\<close>: any order of its keys.
\<close>

type_synonym task = "string \<times> compute_fn \<times> dep_value list"

datatype phase = PTop | PDispatch | PWait | PStop | PEnd "engine_error + node_value"

record par =
  p_engine :: engine
  p_deps :: "(string, string list) bmap"
  p_rdeps :: "(string, string list) bmap"
  p_pending :: "(string, nat) bmap"
  p_ready :: "string list"
  p_done :: "string list"
  p_flight :: nat
  p_err :: "engine_error option"
  p_queue :: "task list"
  p_running :: "task list"
  p_sent :: "(string \<times> (string + node_value)) list"
  p_phase :: phase

fun relax_loop :: "string list \<Rightarrow> (string, nat) bmap \<Rightarrow> string list \<Rightarrow>
    engine_error + (string, nat) bmap \<times> string list" where
  "relax_loop [] pending ready = Inr (pending, ready)"
| "relax_loop (r # rs) pending ready =
     (case bm_get pending r of
        None \<Rightarrow> relax_loop rs pending ready
      | Some p \<Rightarrow>
          if p = 0 then Inl (Panic ''attempt to subtract with overflow'')
          else relax_loop rs (bm_insert r (p - 1) pending) (if p - 1 = 0 then ready @ [r] else ready))"

definition relax_dependents :: "string \<Rightarrow> par \<Rightarrow> engine_error + par" where
  "relax_dependents k s =
     (let s = s\<lparr>p_done := hs_insert k (p_done s)\<rparr>
      in case bm_get (p_rdeps s) k of
           None \<Rightarrow> Inr s
         | Some rs \<Rightarrow>
             (case relax_loop rs (p_pending s) (p_ready s) of
                Inl x \<Rightarrow> Inl x
              | Inr (pending, ready) \<Rightarrow> Inr (s\<lparr>p_pending := pending, p_ready := ready\<rparr>)))"

text \<open>Dispatch of one ready node: resolved in place, or handed to the workers.\<close>

definition dispatch :: "string \<Rightarrow> par \<Rightarrow> engine_error + par" where
  "dispatch k s =
     (let e = p_engine s
      in case bm_get (p_deps s) k of
           None \<Rightarrow> Inl (Panic ''no entry found for key'')
         | Some kdeps \<Rightarrow>
             (case node_at e k of
                None \<Rightarrow> Inl (Panic ''no entry found for key'')
              | Some n \<Rightarrow>
                  if list_ex (\<lambda>d. node_at e d = None) kdeps then Inl (Panic ''no entry found for key'')
                  else if list_ex (\<lambda>d. value_at e d = None) kdeps then Inl (Panic ''validated dep has a value'')
                  else
                    (let max_dep_changed = foldr max (map (changed_of e) kdeps) 0;
                         is_input = (case n_kind n of Input \<Rightarrow> True | Derived _ _ \<Rightarrow> False)
                     in if is_input \<or> n_value n \<noteq> None \<and>
                           (verified_at n = revision e \<or> max_dep_changed \<le> verified_at n) then
                          relax_dependents k
                            (s\<lparr>p_engine := upd_node k (\<lambda>n. n\<lparr>verified_at := revision e\<rparr>) e\<rparr>)
                        else
                          (case n_kind n of
                             Input \<Rightarrow> Inl (Panic ''called `Option::unwrap()` on a `None` value'')
                           | Derived _ compute \<Rightarrow>
                               Inr (s\<lparr>p_engine := e\<lparr>recomputes := recomputes e + 1\<rparr>,
                                      p_queue := p_queue s @ [(k, compute, map (named e) kdeps)],
                                      p_flight := p_flight s + 1\<rparr>)))))"

text \<open>A result of a worker that is a value.\<close>

definition accept :: "string \<Rightarrow> node_value \<Rightarrow> par \<Rightarrow> engine_error + par" where
  "accept k v s =
     (let e = p_engine s; s = s\<lparr>p_flight := p_flight s - 1\<rparr>
      in case node_at e k of
           None \<Rightarrow> Inl (Panic ''called `Option::unwrap()` on a `None` value'')
         | Some n \<Rightarrow>
             relax_dependents k
               (s\<lparr>p_engine := upd_node k
                    (\<lambda>n. (if n_value n \<noteq> Some v then n\<lparr>changed_at := revision e\<rparr> else n)
                           \<lparr>n_value := Some v, verified_at := revision e\<rparr>) e\<rparr>))"

definition or_panic :: "par \<Rightarrow> engine_error + par \<Rightarrow> par" where
  "or_panic s r = (case r of Inl x \<Rightarrow> s\<lparr>p_phase := PEnd (Inl x)\<rparr> | Inr s \<Rightarrow> s)"

text \<open>One iteration of the coordinator; \<open>None\<close> when it waits for a message or has ended.\<close>

definition coordinate :: "nat \<Rightarrow> string \<Rightarrow> par \<Rightarrow> par option" where
  "coordinate jobs key s =
     (case p_phase s of
        PTop \<Rightarrow>
          Some (if key \<in> set (p_done s) \<or> p_err s \<noteq> None then s\<lparr>p_phase := PStop\<rparr>
                else (case cancelled (p_engine s) of (stop, e) \<Rightarrow>
                  if stop then s\<lparr>p_engine := e, p_err := Some (Fail ''cancelled''), p_phase := PStop\<rparr>
                  else s\<lparr>p_engine := e, p_phase := PDispatch\<rparr>))
      | PDispatch \<Rightarrow>
          Some (if p_flight s < jobs \<and> p_ready s \<noteq> [] then
                  (let k = hd (p_ready s); s = s\<lparr>p_ready := tl (p_ready s)\<rparr>
                   in if k \<in> set (p_done s) then s else or_panic s (dispatch k s))
                else if p_flight s = 0 then
                  (if key \<in> set (p_done s) then s\<lparr>p_phase := PStop\<rparr>
                   else s\<lparr>p_err := Some (Fail (''dependency cycle at `'' @ key @ ''`'')), p_phase := PStop\<rparr>)
                else s\<lparr>p_phase := PWait\<rparr>)
      | PWait \<Rightarrow>
          (case p_sent s of
             [] \<Rightarrow> None
           | (k, Inr v) # ms \<Rightarrow>
               (let s = s\<lparr>p_sent := ms\<rparr> in Some (or_panic s (map_sum id (p_phase_update (\<lambda>_. PTop)) (accept k v s))))
           | (k, Inl x) # ms \<Rightarrow>
               Some (s\<lparr>p_sent := ms, p_flight := p_flight s - 1, p_err := Some (Fail x), p_phase := PStop\<rparr>))
      | PStop \<Rightarrow>
          (let s = s\<lparr>p_queue := []\<rparr>
           in Some (s\<lparr>p_phase := PEnd
                (case p_err s of
                   Some x \<Rightarrow> Inl x
                 | None \<Rightarrow>
                     (case value_at (p_engine s) key of
                        None \<Rightarrow> Inl (Panic ''target validated'')
                      | Some v \<Rightarrow> Inr v))\<rparr>))
      | PEnd r \<Rightarrow> None)"

inductive par_step :: "nat \<Rightarrow> string \<Rightarrow> par \<Rightarrow> par \<Rightarrow> bool" for jobs key where
  w_take: "p_queue s = t # q \<Longrightarrow> length (p_running s) < jobs \<Longrightarrow>
     par_step jobs key s (s\<lparr>p_queue := q, p_running := p_running s @ [t]\<rparr>)"
| w_send: "p_running s = ts @ (k, f, dvs) # us \<Longrightarrow>
     par_step jobs key s (s\<lparr>p_running := ts @ us, p_sent := p_sent s @ [(k, f dvs)]\<rparr>)"
| c_step: "coordinate jobs key s = Some s' \<Longrightarrow> par_step jobs key s s'"

definition par_start :: "engine \<Rightarrow> collect \<Rightarrow> string list \<Rightarrow> par" where
  "par_start e c ready =
     \<lparr>p_engine = e, p_deps = c_deps c, p_rdeps = c_rdeps c, p_pending = c_pending c, p_ready = ready,
      p_done = [], p_flight = 0, p_err = None, p_queue = [], p_running = [], p_sent = [], p_phase = PTop\<rparr>"

definition ready_keys :: "collect \<Rightarrow> string list" where
  "ready_keys c = filter (\<lambda>k. bm_get (c_pending c) k = Some 0) (bm_keys (c_pending c))"

inductive request_parallel :: "nat \<Rightarrow> string \<Rightarrow> engine \<Rightarrow> engine_error + node_value \<Rightarrow> engine \<Rightarrow> bool" where
  rp_serial: "jobs \<le> 1 \<Longrightarrow> engine_request key e = (r, e') \<Longrightarrow> request_parallel jobs key e r e'"
| rp_reject: "1 < jobs \<Longrightarrow> collect_run e key = Some c \<Longrightarrow> c_err c = Some x \<Longrightarrow>
     request_parallel jobs key e (Inl x) e"
| rp_run: "1 < jobs \<Longrightarrow> collect_run e key = Some c \<Longrightarrow> c_err c = None \<Longrightarrow>
     distinct ready \<Longrightarrow> set ready = set (ready_keys c) \<Longrightarrow>
     (par_step jobs key)\<^sup>*\<^sup>* (par_start e c ready) s \<Longrightarrow> p_phase s = PEnd r \<Longrightarrow>
     request_parallel jobs key e r (p_engine s)"

inductive_cases request_parallelE: "request_parallel jobs key e r e'"

subsection \<open>Relaxing the dependents\<close>

lemma relax_loop_spec:
  assumes "\<And>x n. bm_get p x = Some n \<Longrightarrow> count_list rs x \<le> n"
  obtains p' new where "relax_loop rs p ready = Inr (p', ready @ new)"
    "\<And>x. bm_get p' x = map_option (\<lambda>n. n - count_list rs x) (bm_get p x)"
    "distinct new" "set new = {x. 0 < count_list rs x \<and> bm_get p x = Some (count_list rs x)}"
proof -
  have "\<exists>p' new. relax_loop rs p ready = Inr (p', ready @ new) \<and>
      (\<forall>x. bm_get p' x = map_option (\<lambda>n. n - count_list rs x) (bm_get p x)) \<and>
      distinct new \<and> set new = {x. 0 < count_list rs x \<and> bm_get p x = Some (count_list rs x)}"
    using assms
  proof (induction rs p ready rule: relax_loop.induct)
    case (1 p ready)
    show ?case by (simp add: option.map_ident)
  next
    case (2 r rs p ready)
    show ?case
    proof (cases "bm_get p r")
      case None
      have "count_list rs x \<le> n" if "bm_get p x = Some n" for x n
        using "2.prems" [OF that] None that by (auto split: if_splits)
      from "2.IH"(1) [OF None this] obtain p' new where
        *: "relax_loop rs p ready = Inr (p', ready @ new)"
          "\<forall>x. bm_get p' x = map_option (\<lambda>n. n - count_list rs x) (bm_get p x)" "distinct new"
          "set new = {x. 0 < count_list rs x \<and> bm_get p x = Some (count_list rs x)}" by blast
      show ?thesis
        by (intro exI [of _ p'] exI [of _ new]) (use * None in auto)
    next
      case (Some n)
      have le: "count_list (r # rs) r \<le> n" by (rule "2.prems" [OF Some])
      then have pos: "n \<noteq> 0" by simp
      let ?p = "bm_insert r (n - 1) p" and ?ready = "if n - 1 = 0 then ready @ [r] else ready"
      have "count_list rs x \<le> m" if "bm_get ?p x = Some m" for x m
      proof (cases "x = r")
        case True
        with le that show ?thesis by simp
      next
        case False
        with "2.prems" [of x m] that show ?thesis by simp
      qed
      from "2.IH"(2) [OF Some pos this] obtain p' new where
        *: "relax_loop rs ?p ?ready = Inr (p', ?ready @ new)"
          "\<forall>x. bm_get p' x = map_option (\<lambda>m. m - count_list rs x) (bm_get ?p x)" "distinct new"
          "set new = {x. 0 < count_list rs x \<and> bm_get ?p x = Some (count_list rs x)}" by blast
      let ?new = "if n - 1 = 0 then r # new else new"
      have "relax_loop (r # rs) p ready = Inr (p', ready @ ?new)" using *(1) Some pos by auto
      moreover have "\<forall>x. bm_get p' x = map_option (\<lambda>m. m - count_list (r # rs) x) (bm_get p x)"
        using *(2) Some by simp
      moreover have "distinct ?new" using *(3,4) le by auto
      moreover have "set ?new = {x. 0 < count_list (r # rs) x \<and> bm_get p x = Some (count_list (r # rs) x)}"
      proof (rule set_eqI)
        fix x
        show "x \<in> set ?new \<longleftrightarrow> x \<in> {x. 0 < count_list (r # rs) x \<and> bm_get p x = Some (count_list (r # rs) x)}"
        proof (cases "x = r")
          case True
          have "r \<in> set new \<longleftrightarrow> 0 < count_list rs r \<and> n - 1 = count_list rs r" using *(4) by simp
          with le pos show ?thesis unfolding True by (auto simp: Some)
        next
          case False
          then show ?thesis using *(4) by simp
        qed
      qed
      ultimately show ?thesis by blast
    qed
  qed
  with that show thesis by blast
qed

lemma filter_insert_count:
  "k \<notin> D \<Longrightarrow> length (filter (\<lambda>x. x \<notin> insert k D) xs) + count_list xs k = length (filter (\<lambda>x. x \<notin> D) xs)"
  by (induction xs) auto

end
