(* ===== verification/Par_Inv.thy ===== *)
theory Par_Inv
  imports Engine_Par
begin

section \<open>Engine, parallel: the invariant of every schedule\<close>

text \<open>
  \<open>frontier_ok\<close> ties the ready queue and the tasks in flight to the validated keys: together they hold
  each key whose dependencies are all validated, once.  \<open>par_inv\<close> adds the engine invariant, the
  contents of the tasks and what is known in each phase of the coordinator.
\<close>

definition frontier_ok :: "engine \<Rightarrow> collect \<Rightarrow> string set \<Rightarrow> (string, nat) bmap \<Rightarrow> string list \<Rightarrow> bool" where
  "frontier_ok e0 c D pending L \<longleftrightarrow>
     distinct L \<and> D \<subseteq> marked c \<and> (\<forall>k \<in> D. set (dlist e0 k) \<subseteq> D) \<and>
     set L = {k \<in> marked c. k \<notin> D \<and> set (dlist e0 k) \<subseteq> D} \<and>
     (\<forall>k. bm_get pending k =
        (if k \<in> marked c then Some (length (filter (\<lambda>d. d \<notin> D) (dlist e0 k))) else None))"

lemma relax_frontier:
  assumes col: "collected e0 key c" and fo: "frontier_ok e0 c D pending (k # ready @ L)"
  obtains pending' new where "relax_loop (rev_of c k) pending ready = Inr (pending', ready @ new)"
    "frontier_ok e0 c (insert k D) pending' ((ready @ new) @ L)"
proof -
  have pend: "\<And>x. bm_get pending x =
      (if x \<in> marked c then Some (length (filter (\<lambda>d. d \<notin> D) (dlist e0 x))) else None)"
    and k: "k \<in> marked c" "k \<notin> D" "set (dlist e0 k) \<subseteq> D"
    and dis: "distinct (k # ready @ L)" and DM: "D \<subseteq> marked c" and closed: "\<forall>x \<in> D. set (dlist e0 x) \<subseteq> D"
    and open': "set (k # ready @ L) = {x \<in> marked c. x \<notin> D \<and> set (dlist e0 x) \<subseteq> D}"
    using fo by (auto simp: frontier_ok_def)
  have cnt: "count_list (rev_of c k) x = (if x \<in> marked c then count_list (dlist e0 x) k else 0)" for x
    using col by (simp add: collected_def)
  have len: "length (filter (\<lambda>d. d \<notin> insert k D) xs) + count_list xs k = length (filter (\<lambda>d. d \<notin> D) xs)" for xs
    by (rule filter_insert_count [OF k(2)])
  have le: "count_list (rev_of c k) x \<le> n" if "bm_get pending x = Some n" for x n
    using that len [of "dlist e0 x"] unfolding pend cnt by (simp split: if_splits)
  obtain p' new where new: "relax_loop (rev_of c k) pending ready = Inr (p', ready @ new)"
    "\<And>x. bm_get p' x = map_option (\<lambda>n. n - count_list (rev_of c k) x) (bm_get pending x)"
    "distinct new" "set new = {x. 0 < count_list (rev_of c k) x \<and> bm_get pending x = Some (count_list (rev_of c k) x)}"
    by (rule relax_loop_spec [where ready = ready, OF le]) (assumption, rule that)
  have mem: "x \<in> set new \<longleftrightarrow> x \<in> marked c \<and> k \<in> set (dlist e0 x) \<and> set (dlist e0 x) \<subseteq> insert k D" for x
  proof -
    have "length (filter (\<lambda>d. d \<notin> D) (dlist e0 x)) = count_list (dlist e0 x) k \<longleftrightarrow>
        filter (\<lambda>d. d \<notin> insert k D) (dlist e0 x) = []"
      using len [of "dlist e0 x"] unfolding length_0_conv [symmetric] by arith
    moreover have "0 < count_list (dlist e0 x) k \<longleftrightarrow> k \<in> set (dlist e0 x)"
      using count_list_0_iff [of "dlist e0 x" k] by linarith
    ultimately show ?thesis unfolding new(4) mem_Collect_eq cnt pend
      by (auto simp: filter_empty_conv)
  qed
  have kself: "k \<notin> set (dlist e0 k)" using k by auto
  have "frontier_ok e0 c (insert k D) p' ((ready @ new) @ L)"
    unfolding frontier_ok_def
  proof (intro conjI allI)
    show "distinct ((ready @ new) @ L)"
      using dis new(3) open' mem k(2) by (auto simp: set_eq_iff)
    show "insert k D \<subseteq> marked c" using k(1) DM by simp
    show "\<forall>x \<in> insert k D. set (dlist e0 x) \<subseteq> insert k D" using closed k(3) by auto
    show "set ((ready @ new) @ L) = {x \<in> marked c. x \<notin> insert k D \<and> set (dlist e0 x) \<subseteq> insert k D}"
    proof (rule set_eqI)
      fix x
      have old: "x \<in> set ready \<union> set L \<longleftrightarrow> x \<noteq> k \<and> x \<in> marked c \<and> x \<notin> D \<and> set (dlist e0 x) \<subseteq> D"
        using open' dis k unfolding set_eq_iff by auto
      have "x \<notin> D \<and> x \<noteq> k" if "k \<in> set (dlist e0 x)" using that closed k(2) kself by auto
      then show "x \<in> set ((ready @ new) @ L) \<longleftrightarrow>
          x \<in> {x \<in> marked c. x \<notin> insert k D \<and> set (dlist e0 x) \<subseteq> insert k D}"
        using old mem [of x] by auto
    qed
    fix x
    show "bm_get p' x = (if x \<in> marked c then Some (length (filter (\<lambda>d. d \<notin> insert k D) (dlist e0 x))) else None)"
    proof (cases "x \<in> marked c")
      case True
      then show ?thesis unfolding new(2) pend cnt len [of "dlist e0 x", symmetric] by simp
    next
      case False
      then show ?thesis unfolding new(2) pend by simp
    qed
  qed
  with new(1) that show thesis by blast
qed

subsection \<open>Tasks and messages\<close>

definition task_ok :: "engine \<Rightarrow> string \<Rightarrow> compute_fn \<Rightarrow> dep_value list \<Rightarrow> bool" where
  "task_ok e k f dvs \<longleftrightarrow>
     (\<exists>n ds. node_at e k = Some n \<and> \<not> fresh_at (revision e) n \<and> n_kind n = Derived ds f \<and>
        (\<forall>d \<in> set ds. validated e d) \<and> dvs = map (named e) ds)"

definition sent_ok :: "engine \<Rightarrow> string \<Rightarrow> (string + node_value) \<Rightarrow> bool" where
  "sent_ok e k r \<longleftrightarrow> (\<exists>f dvs. task_ok e k f dvs \<and> r = f dvs)"

definition flying :: "par \<Rightarrow> string list" where
  "flying s = map fst (p_queue s) @ map fst (p_running s) @ map fst (p_sent s)"

definition rejects :: "engine \<Rightarrow> string \<Rightarrow> engine_error \<Rightarrow> bool" where
  "rejects e0 key x \<longleftrightarrow> (\<exists>m. x = Fail m) \<and> (cancel e0 = None \<longrightarrow> (\<forall>v. \<not> evals (defs e0) key v))"

definition live :: "engine \<Rightarrow> collect \<Rightarrow> par \<Rightarrow> bool" where
  "live e0 c s \<longleftrightarrow>
     p_deps s = c_deps c \<and> p_rdeps s = c_rdeps c \<and> p_err s = None \<and>
     frontier_ok e0 c (set (p_done s)) (p_pending s) (p_ready s @ flying s) \<and>
     (\<forall>k \<in> set (p_done s). validated (p_engine s) k) \<and>
     p_flight s = length (flying s) \<and>
     (\<forall>(k, f, dvs) \<in> set (p_queue s @ p_running s). task_ok (p_engine s) k f dvs) \<and>
     (\<forall>(k, r) \<in> set (p_sent s). sent_ok (p_engine s) k r)"

definition phase_ok :: "engine \<Rightarrow> string \<Rightarrow> collect \<Rightarrow> par \<Rightarrow> bool" where
  "phase_ok e0 key c s \<longleftrightarrow>
     (case p_phase s of
        PStop \<Rightarrow> (case p_err s of None \<Rightarrow> validated (p_engine s) key | Some x \<Rightarrow> rejects e0 key x)
      | PEnd (Inl x) \<Rightarrow> rejects e0 key x
      | PEnd (Inr v) \<Rightarrow> validated (p_engine s) key \<and> value_at (p_engine s) key = Some v
      | PWait \<Rightarrow> live e0 c s \<and> 0 < p_flight s
      | _ \<Rightarrow> live e0 c s)"

definition par_inv :: "engine \<Rightarrow> string \<Rightarrow> collect \<Rightarrow> par \<Rightarrow> bool" where
  "par_inv e0 key c s \<longleftrightarrow>
     engine_inv (p_engine s) \<and> frame {} e0 (p_engine s) \<and> phase_ok e0 key c s"

lemma dlist_frame:
  assumes "frame P e e'"
  shows "dlist e' k = dlist e k"
proof (cases "node_at e k")
  case None
  then have "node_at e' k = None" using frame_node_None [OF assms] by simp
  with None show ?thesis by (simp add: dlist_def)
next
  case (Some n)
  obtain n' where n': "node_at e' k = Some n'" "n' = n \<or> commits (revision e) n n'"
    by (rule frame_nodeE [OF assms Some])
  then have "n_kind n' = n_kind n" by (auto simp: commits_def)
  with Some n'(1) show ?thesis by (simp add: dlist_def)
qed

text \<open>A commit of \<open>k\<close> leaves the tasks of the other keys as they are.\<close>

lemma named_frame:
  assumes "frame P e e'" "\<forall>d \<in> set ds. validated e d"
  shows "map (named e') ds = map (named e) ds"
  using assms frame_validated_node [OF assms(1)] by (auto intro!: named_cong)

lemma task_ok_frame:
  assumes "frame P e e'" "node_at e' k = node_at e k" "task_ok e k f dvs"
  shows "task_ok e' k f dvs"
proof -
  from assms(3) obtain n ds where *: "node_at e k = Some n" "\<not> fresh_at (revision e) n"
    "n_kind n = Derived ds f" "\<forall>d \<in> set ds. validated e d" "dvs = map (named e) ds"
    unfolding task_ok_def by blast
  have "\<forall>d \<in> set ds. validated e' d" using *(4) frame_validated [OF assms(1)] by blast
  with * assms(2) frame_revision [OF assms(1)] named_frame [OF assms(1) *(4)] show ?thesis
    unfolding task_ok_def by auto
qed

lemma sent_ok_frame:
  "frame P e e' \<Longrightarrow> node_at e' k = node_at e k \<Longrightarrow> sent_ok e k r \<Longrightarrow> sent_ok e' k r"
  unfolding sent_ok_def using task_ok_frame by blast

text \<open>The state once \<open>k\<close> has been validated.\<close>

lemma relax_live:
  assumes col: "collected e0 key c" and tabs: "p_deps s = c_deps c" "p_rdeps s = c_rdeps c" "p_err s = None"
    and fo: "frontier_ok e0 c (set (p_done s)) (p_pending s) (k # p_ready s @ flying s)"
    and fl: "p_flight s = length (flying s)"
    and done_ok: "\<forall>j \<in> insert k (set (p_done s)). validated (p_engine s) j"
    and tasks: "\<forall>(j, f, dvs) \<in> set (p_queue s @ p_running s). task_ok (p_engine s) j f dvs"
    and sent: "\<forall>(j, r) \<in> set (p_sent s). sent_ok (p_engine s) j r"
  obtains s' where "relax_dependents k s = Inr s'" "live e0 c s'" "p_engine s' = p_engine s" "p_phase s' = p_phase s"
    "set (p_done s') = insert k (set (p_done s))" "p_flight s' = p_flight s" "p_queue s' = p_queue s"
    "p_running s' = p_running s" "p_sent s' = p_sent s"
proof -
  obtain pending new where rl: "relax_loop (rev_of c k) (p_pending s) (p_ready s) = Inr (pending, p_ready s @ new)"
    and fo': "frontier_ok e0 c (insert k (set (p_done s))) pending ((p_ready s @ new) @ flying s)"
    by (rule relax_frontier [OF col fo])
  let ?s = "s\<lparr>p_done := hs_insert k (p_done s), p_pending := pending, p_ready := p_ready s @ new\<rparr>"
  have hs: "set (hs_insert k (p_done s)) = insert k (set (p_done s))" by (auto simp: hs_insert_def)
  have fly: "flying ?s = flying s" by (simp add: flying_def)
  have "relax_dependents k s = Inr ?s"
  proof (cases "bm_get (p_rdeps s) k")
    case None
    then have "rev_of c k = []" by (simp add: rev_of_def tabs)
    with rl None show ?thesis by (simp add: relax_dependents_def Let_def)
  next
    case (Some rs)
    then have "rev_of c k = rs" by (simp add: rev_of_def tabs)
    with rl Some show ?thesis by (simp add: relax_dependents_def Let_def)
  qed
  moreover have "live e0 c ?s"
    unfolding live_def fly using tabs fl fo' done_ok tasks sent by (simp add: hs)
  ultimately show thesis by (rule that) (simp_all add: hs)
qed

section \<open>Engine, parallel: every transition keeps the invariant\<close>

text \<open>The state in the middle of a transition: \<open>k\<close> has left the ready queue or the channel.\<close>

definition holding :: "engine \<Rightarrow> collect \<Rightarrow> string \<Rightarrow> par \<Rightarrow> bool" where
  "holding e0 c k s \<longleftrightarrow>
     p_deps s = c_deps c \<and> p_rdeps s = c_rdeps c \<and> p_err s = None \<and>
     frontier_ok e0 c (set (p_done s)) (p_pending s) (k # p_ready s @ flying s) \<and>
     (\<forall>j \<in> set (p_done s). validated (p_engine s) j) \<and>
     p_flight s = length (flying s) \<and>
     (\<forall>(j, f, dvs) \<in> set (p_queue s @ p_running s). task_ok (p_engine s) j f dvs) \<and>
     (\<forall>(j, r) \<in> set (p_sent s). sent_ok (p_engine s) j r)"

lemma holding_key:
  assumes "holding e0 c k s"
  shows "k \<in> marked c" "k \<notin> set (p_done s)" "\<forall>d \<in> set (dlist e0 k). validated (p_engine s) d"
    "k \<notin> set (p_ready s @ flying s)"
proof -
  have fo: "frontier_ok e0 c (set (p_done s)) (p_pending s) (k # p_ready s @ flying s)"
    and val: "\<forall>j \<in> set (p_done s). validated (p_engine s) j" using assms by (simp_all add: holding_def)
  from fo have "set (k # p_ready s @ flying s) = {j \<in> marked c. j \<notin> set (p_done s) \<and> set (dlist e0 j) \<subseteq> set (p_done s)}"
    "distinct (k # p_ready s @ flying s)"
    unfolding frontier_ok_def by blast+
  then show "k \<in> marked c" "k \<notin> set (p_done s)" "k \<notin> set (p_ready s @ flying s)"
    and "\<forall>d \<in> set (dlist e0 k). validated (p_engine s) d"
    using val by auto
qed

lemma flying_keys:
  "(j, f, dvs) \<in> set (p_queue s @ p_running s) \<Longrightarrow> j \<in> set (flying s)"
  "(j, r) \<in> set (p_sent s) \<Longrightarrow> j \<in> set (flying s)"
  by (force simp: flying_def)+

text \<open>Committing the held key and relaxing its dependents restores the live invariant.\<close>

lemma holding_finish:
  assumes col: "collected e0 key c" and hold: "holding e0 c k s"
    and fr: "frame {} (p_engine s) e'" and val: "validated e' k"
    and same: "\<And>j. j \<noteq> k \<Longrightarrow> node_at e' j = node_at (p_engine s) j"
  obtains s' where "relax_dependents k (s\<lparr>p_engine := e'\<rparr>) = Inr s'" "live e0 c s'" "p_engine s' = e'"
    "p_phase s' = p_phase s" "set (p_done s') = insert k (set (p_done s))" "p_flight s' = p_flight s"
    "p_queue s' = p_queue s" "p_running s' = p_running s" "p_sent s' = p_sent s"
proof -
  let ?s = "s\<lparr>p_engine := e'\<rparr>"
  have fly: "flying ?s = flying s" by (simp add: flying_def)
  have off: "j \<noteq> k" if "j \<in> set (flying s)" for j using holding_key(4) [OF hold] that by auto
  have "task_ok e' j f dvs" if "(j, f, dvs) \<in> set (p_queue s @ p_running s)" for j f dvs
    using hold that task_ok_frame [OF fr same [OF off [OF flying_keys(1) [OF that]]]]
    unfolding holding_def by blast
  then have tasks: "\<forall>(j, f, dvs) \<in> set (p_queue ?s @ p_running ?s). task_ok (p_engine ?s) j f dvs" by auto
  have "sent_ok e' j r" if "(j, r) \<in> set (p_sent s)" for j r
    using hold that sent_ok_frame [OF fr same [OF off [OF flying_keys(2) [OF that]]]]
    unfolding holding_def by blast
  then have sent: "\<forall>(j, r) \<in> set (p_sent ?s). sent_ok (p_engine ?s) j r" by auto
  have done_ok: "\<forall>j \<in> insert k (set (p_done ?s)). validated (p_engine ?s) j"
    using hold val frame_validated [OF fr] by (auto simp: holding_def)
  have rest: "p_deps ?s = c_deps c" "p_rdeps ?s = c_rdeps c" "p_err ?s = None"
    "frontier_ok e0 c (set (p_done ?s)) (p_pending ?s) (k # p_ready ?s @ flying ?s)"
    "p_flight ?s = length (flying ?s)"
    using hold by (simp_all add: holding_def fly)
  obtain s' where "relax_dependents k ?s = Inr s'" "live e0 c s'" "p_engine s' = p_engine ?s" "p_phase s' = p_phase ?s"
    "set (p_done s') = insert k (set (p_done ?s))" "p_flight s' = p_flight ?s" "p_queue s' = p_queue ?s"
    "p_running s' = p_running ?s" "p_sent s' = p_sent ?s"
    by (rule relax_live [OF col rest(1-5) done_ok tasks sent])
  then show thesis by (intro that [of s']) simp_all
qed

lemma commit_engine:
  assumes inv: "engine_inv e" and n: "node_at e k = Some n" and c: "commits (revision e) n n'" and v: "n_value n' = Some v"
    and deps: "\<And>ds f. n_kind n = Derived ds f \<Longrightarrow> (\<forall>d \<in> set ds. validated e d) \<and> f (map (named e) ds) = Inr v"
    and e': "e' = e\<lparr>nodes := bm_insert k n' (nodes e)\<rparr>"
  shows "engine_inv e'" "frame {} e e'" "validated e' k" "value_at e' k = Some v"
    "\<And>j. j \<noteq> k \<Longrightarrow> node_at e' j = node_at e j"
proof -
  show "engine_inv e'" unfolding e' by (rule commit_keeps_inv [OF inv n c v]) (rule deps)
  show "frame {} e e'" unfolding e' by (rule commit_frame [OF n c]) simp
  show "validated e' k" "value_at e' k = Some v" "\<And>j. j \<noteq> k \<Longrightarrow> node_at e' j = node_at e j"
    using c v by (simp_all add: e' validated_def value_at_def commits_def)
qed

text \<open>Backdating a node whose dependencies are validated and did not change after it was verified.\<close>

lemma backdate_engine:
  assumes inv: "engine_inv e" and n: "node_at e k = Some n" "n_value n \<noteq> None"
    and deps: "\<forall>d \<in> set (dlist e k). validated e d"
    and cut: "n_kind n = Input \<or> verified_at n = revision e \<or> foldr max (map (changed_of e) (dlist e k)) 0 \<le> verified_at n"
    and e': "e' = upd_node k (\<lambda>n. n\<lparr>verified_at := revision e\<rparr>) e"
  shows "engine_inv e' \<and> frame {} e e' \<and> validated e' k \<and> (\<forall>j. j \<noteq> k \<longrightarrow> node_at e' j = node_at e j)"
proof -
  let ?n = "n\<lparr>verified_at := revision e\<rparr>"
  obtain v where v: "n_value n = Some v" using n(2) by blast
  have up: "e' = e\<lparr>nodes := bm_insert k ?n (nodes e)\<rparr>" by (simp add: e' upd_node_def n(1))
  show ?thesis
  proof (cases "verified_at n = revision e")
    case True
    then have "?n = n" by simp
    then have "bm_insert k ?n (nodes e) = nodes e"
      using inv n(1) by (intro bm_eq_by_get) (auto simp: engine_inv_def)
    then have "e' = e" by (simp add: up)
    with inv n True show ?thesis by (auto simp: validated_def fresh_at_def)
  next
    case False
    have "commits (revision e) n ?n" using False v by (simp add: commits_def fresh_at_def)
    moreover have "(\<forall>d \<in> set ds. validated e d) \<and> f (map (named e) ds) = Inr v" if d: "n_kind n = Derived ds f" for ds f
    proof
      have ds: "dlist e k = ds" by (simp add: dlist_def n(1) d kind_deps_def)
      with deps show "\<forall>d \<in> set ds. validated e d" by simp
      have "foldr max (map (changed_of e) ds) 0 \<le> verified_at n" using cut d False by (simp add: ds)
      moreover have "changed_of e x \<le> foldr max (map (changed_of e) ds) 0" if "x \<in> set ds" for x
        using that by (induction ds) auto
      ultimately have "\<forall>x \<in> set ds. changed_of e x \<le> verified_at n" by (meson order_trans)
      moreover have "node_inv e n" using inv n(1) by (simp add: engine_inv_def)
      ultimately show "f (map (named e) ds) = Inr v" using d v by (simp add: node_inv_def)
    qed
    ultimately have "engine_inv e'" "frame {} e e'" "validated e' k" "\<And>j. j \<noteq> k \<Longrightarrow> node_at e' j = node_at e j"
      using commit_engine [OF inv n(1) _ _ _ up, of v] v by auto
    then show ?thesis by blast
  qed
qed

subsection \<open>The actions of the coordinator\<close>

definition par_engine_ok :: "engine \<Rightarrow> par \<Rightarrow> bool" where
  "par_engine_ok e0 s \<longleftrightarrow> engine_inv (p_engine s) \<and> frame {} e0 (p_engine s)"

definition unseen :: "collect \<Rightarrow> par \<Rightarrow> string set" where
  "unseen c s = marked c - set (p_done s) - set (flying s)"

text \<open>A node leaves the ready queue for the validated keys or for the workers.\<close>

lemma dispatch_live:
  assumes col: "collected e0 key c" and ok: "par_engine_ok e0 s" and hold: "holding e0 c k s"
  obtains s' where "dispatch k s = Inr s'" "live e0 c s'" "par_engine_ok e0 s'" "p_phase s' = p_phase s"
    "unseen c s' = unseen c s - {k}" "p_running s' = p_running s" "p_sent s' = p_sent s"
    "length (p_queue s') \<le> Suc (length (p_queue s))"
proof -
  let ?e = "p_engine s"
  have inv: "engine_inv ?e" and fr: "frame {} e0 ?e" using ok by (simp_all add: par_engine_ok_def)
  note key = holding_key [OF hold]
  have tab: "bm_get (p_deps s) k = Some (dlist ?e k)"
    using col key(1) hold by (simp add: collected_def holding_def dlist_frame [OF fr])
  have deps: "\<forall>d \<in> set (dlist ?e k). validated ?e d" using key(3) by (simp add: dlist_frame [OF fr])
  have "node_at e0 k \<noteq> None" using col key(1) unfolding collected_def by blast
  then obtain n where n: "node_at ?e k = Some n" using frame_node_None [OF fr, of k] by auto
  have noderr: "\<not> list_ex (\<lambda>d. node_at ?e d = None) (dlist ?e k)" "\<not> list_ex (\<lambda>d. value_at ?e d = None) (dlist ?e k)"
    using deps by (auto simp: list_ex_iff validated_def value_at_def fresh_at_def)
  let ?mx = "foldr max (map (changed_of ?e) (dlist ?e k)) 0"
  let ?cut = "n_kind n = Input \<or> n_value n \<noteq> None \<and> (verified_at n = revision ?e \<or> ?mx \<le> verified_at n)"
  let ?e' = "upd_node k (\<lambda>n. n\<lparr>verified_at := revision ?e\<rparr>) ?e"
  have is_in: "(case n_kind n of Input \<Rightarrow> True | Derived _ _ \<Rightarrow> False) \<longleftrightarrow> n_kind n = Input"
    by (cases "n_kind n") simp_all
  show thesis
  proof (cases ?cut)
    case True
    have "node_inv ?e n" using inv n by (simp add: engine_inv_def)
    with True have v: "n_value n \<noteq> None" by (auto simp: node_inv_def)
    have b: "engine_inv ?e' \<and> frame {} ?e ?e' \<and> validated ?e' k \<and> (\<forall>j. j \<noteq> k \<longrightarrow> node_at ?e' j = node_at ?e j)"
      by (rule backdate_engine [OF inv n v deps _ refl]) (use True in blast)
    obtain s' where s': "relax_dependents k (s\<lparr>p_engine := ?e'\<rparr>) = Inr s'" "live e0 c s'" "p_engine s' = ?e'"
      "p_phase s' = p_phase s" "set (p_done s') = insert k (set (p_done s))" "p_flight s' = p_flight s"
      "p_queue s' = p_queue s" "p_running s' = p_running s" "p_sent s' = p_sent s"
      by (rule holding_finish [OF col hold, of ?e']) (use b in auto)
    have "dispatch k s = Inr s'"
      unfolding dispatch_def Let_def tab option.case n using noderr True s'(1) by (simp add: is_in)
    moreover have "par_engine_ok e0 s'" using b fr s'(3) by (auto simp: par_engine_ok_def intro: frame_trans)
    moreover have "unseen c s' = unseen c s - {k}" unfolding unseen_def flying_def s' by blast
    ultimately show thesis using s' by (intro that [of s']) simp_all
  next
    case False
    then obtain ds f where kd: "n_kind n = Derived ds f" by (cases "n_kind n") auto
    have ds: "dlist ?e k = ds" by (simp add: dlist_def n kd kind_deps_def)
    let ?s = "s\<lparr>p_engine := ?e\<lparr>recomputes := recomputes ?e + 1\<rparr>,
      p_queue := p_queue s @ [(k, f, map (named ?e) (dlist ?e k))], p_flight := p_flight s + 1\<rparr>"
    have run: "dispatch k s = Inr ?s"
      unfolding dispatch_def Let_def tab option.case n using noderr False kd by (auto simp: is_in)
    have "\<not> fresh_at (revision ?e) n" using False by (auto simp: fresh_at_def)
    then have tk: "task_ok ?e k f (map (named ?e) (dlist ?e k))"
      using n kd deps unfolding task_ok_def ds by auto
    have cong: "task_ok (?e\<lparr>recomputes := m\<rparr>) = task_ok ?e" for m by (simp add: fun_eq_iff task_ok_def)
    have cong': "sent_ok (?e\<lparr>recomputes := m\<rparr>) = sent_ok ?e" for m by (simp add: fun_eq_iff sent_ok_def cong)
    have fly: "set (flying ?s) = insert k (set (flying s))" "length (flying ?s) = Suc (length (flying s))"
      "distinct (p_ready s @ flying ?s) = distinct (k # p_ready s @ flying s)"
      by (auto simp: flying_def)
    have "frontier_ok e0 c (set (p_done s)) (p_pending s) (p_ready s @ flying ?s)"
      using hold fly(1,3) unfolding holding_def frontier_ok_def by simp
    moreover have "\<forall>(j, f, dvs) \<in> set (p_queue ?s @ p_running ?s). task_ok ?e j f dvs"
      using hold tk unfolding holding_def by auto
    ultimately have "live e0 c ?s"
      using hold unfolding live_def holding_def by (simp add: flying_def cong cong')
    moreover have "par_engine_ok e0 ?s" using inv fr by (simp add: par_engine_ok_def frame_def)
    moreover have "unseen c ?s = unseen c s - {k}" using fly(1) by (auto simp: unseen_def)
    ultimately show thesis using run by (intro that [of ?s]) simp_all
  qed
qed

lemma accept_live:
  assumes col: "collected e0 key c" and ok: "par_engine_ok e0 s" and live: "live e0 c s"
    and msg: "p_sent s = (k, Inr v) # ms"
  obtains s' where "accept k v (s\<lparr>p_sent := ms\<rparr>) = Inr s'" "live e0 c s'" "par_engine_ok e0 s'"
    "unseen c s' = unseen c s" "p_queue s' = p_queue s" "p_running s' = p_running s" "p_sent s' = ms"
proof -
  let ?e = "p_engine s" and ?s = "s\<lparr>p_sent := ms, p_flight := p_flight s - 1\<rparr>"
  have inv: "engine_inv ?e" and fr: "frame {} e0 ?e" using ok by (simp_all add: par_engine_ok_def)
  have "sent_ok ?e k (Inr v)" using live msg by (simp add: live_def)
  then obtain n ds f where n: "node_at ?e k = Some n" "\<not> fresh_at (revision ?e) n" "n_kind n = Derived ds f"
    and deps: "\<forall>d \<in> set ds. validated ?e d" "f (map (named ?e) ds) = Inr v"
    unfolding sent_ok_def task_ok_def by metis
  let ?n = "(if n_value n \<noteq> Some v then n\<lparr>changed_at := revision ?e\<rparr> else n)
    \<lparr>n_value := Some v, verified_at := revision ?e\<rparr>"
  have com: "commits (revision ?e) n ?n" using n by (simp add: commits_def fresh_at_def)
  let ?e' = "?e\<lparr>nodes := bm_insert k ?n (nodes ?e)\<rparr>"
  have c: "engine_inv ?e'" "frame {} ?e ?e'" "validated ?e' k" "\<And>j. j \<noteq> k \<Longrightarrow> node_at ?e' j = node_at ?e j"
    using commit_engine [OF inv n(1) com _ _ refl, of v] n(3) deps by auto
  have fly: "flying s = map fst (p_queue s) @ map fst (p_running s) @ k # map fst ms"
    "flying ?s = map fst (p_queue s) @ map fst (p_running s) @ map fst ms"
    by (simp_all add: flying_def msg)
  have hold: "holding e0 c k ?s"
  proof -
    have "frontier_ok e0 c (set (p_done s)) (p_pending s) (p_ready s @ flying s)" using live by (simp add: live_def)
    then have "frontier_ok e0 c (set (p_done s)) (p_pending s) (k # p_ready s @ flying ?s)"
      unfolding frontier_ok_def fly by auto
    moreover have "p_flight s - 1 = length (flying ?s)" using live fly by (simp add: live_def)
    ultimately show ?thesis using live msg unfolding live_def holding_def by simp
  qed
  obtain s' where s': "relax_dependents k (?s\<lparr>p_engine := ?e'\<rparr>) = Inr s'" "live e0 c s'" "p_engine s' = ?e'"
    "set (p_done s') = insert k (set (p_done ?s))" "p_queue s' = p_queue ?s" "p_running s' = p_running ?s"
    "p_sent s' = p_sent ?s"
    using c by (auto intro: holding_finish [OF col hold, of ?e'])
  have up: "upd_node k (\<lambda>n. (if n_value n \<noteq> Some v then n\<lparr>changed_at := revision ?e\<rparr> else n)
      \<lparr>n_value := Some v, verified_at := revision ?e\<rparr>) ?e = ?e'"
    by (simp add: upd_node_def n(1))
  have "accept k v (s\<lparr>p_sent := ms\<rparr>) = Inr s'" using s'(1) up by (simp add: accept_def Let_def n(1))
  moreover have "par_engine_ok e0 s'" using c fr s'(3) by (auto simp: par_engine_ok_def intro: frame_trans)
  moreover have "unseen c s' = unseen c s"
  proof -
    have "k \<notin> set (p_done s)" "k \<in> set (flying s)" using holding_key(2) [OF hold] fly by simp_all
    moreover have "flying s' = map fst (p_queue s) @ map fst (p_running s) @ map fst ms"
      by (simp add: flying_def s'(5-7))
    then have "set (flying s) = insert k (set (flying s'))" by (auto simp: fly(1))
    ultimately show ?thesis using s'(4) by (auto simp: unseen_def)
  qed
  ultimately show thesis using s' by (intro that [of s']) simp_all
qed

end
