(* ===== verification/Par_Run.thy ===== *)
theory Par_Run
  imports Par_Inv "HOL-Library.Multiset"
begin

section \<open>Engine, parallel: whole runs\<close>

text \<open>
  Every schedule keeps \<open>par_inv\<close>, every transition makes \<open>work_left\<close> smaller, and a state with no
  transition has ended.  So every run ends with a result, whatever the order in which the workers answer.
\<close>

definition phase_rank :: "phase \<Rightarrow> nat" where
  "phase_rank p = (case p of PTop \<Rightarrow> 4 | PDispatch \<Rightarrow> 3 | PWait \<Rightarrow> 2 | PStop \<Rightarrow> 1 | PEnd _ \<Rightarrow> 0)"

definition work_left :: "collect \<Rightarrow> par \<Rightarrow> nat" where
  "work_left c s =
     (if phase_rank (p_phase s) < 2 then 0 else 9 * card (unseen c s)) +
     8 * length (p_queue s) + 7 * length (p_running s) + 6 * length (p_sent s) + phase_rank (p_phase s)"

lemma par_invI:
  "par_engine_ok e0 s \<Longrightarrow> phase_ok e0 key c s \<Longrightarrow> par_inv e0 key c s"
  by (simp add: par_inv_def par_engine_ok_def)

lemma par_invD: "par_inv e0 key c s \<Longrightarrow> par_engine_ok e0 s" "par_inv e0 key c s \<Longrightarrow> phase_ok e0 key c s"
  by (simp_all add: par_inv_def par_engine_ok_def)

lemma live_phase: "live e0 c (s\<lparr>p_phase := p\<rparr>) = live e0 c s" "flying (s\<lparr>p_phase := p\<rparr>) = flying s"
  "unseen c (s\<lparr>p_phase := p\<rparr>) = unseen c s"
  by (simp_all add: live_def flying_def unseen_def)

text \<open>If every reachable key is computable, some key is always ready or in flight until all are validated.\<close>

lemma stuck_rejects:
  assumes col: "collected e0 key c" and fo: "frontier_ok e0 c D pending []" and key: "key \<notin> D"
  shows "\<not> evals (defs e0) key v"
proof
  assume ev: "evals (defs e0) key v"
  have none: "\<not> set (dlist e0 k) \<subseteq> D" if "k \<in> marked c" "k \<notin> D" for k
    using fo that unfolding frontier_ok_def by auto
  have step: "\<exists>d. dep_on (defs e0) k d \<and> d \<in> marked c - D" if "k \<in> marked c - D" for k
  proof -
    have "set (dlist e0 k) \<subseteq> marked c" using col that unfolding collected_def by blast
    with none [of k] that show ?thesis unfolding dep_on_dlist by blast
  qed
  have "\<exists>w. evals (defs e0) k w \<Longrightarrow> k \<notin> marked c - D" for k
  proof (erule exE)
    fix w
    assume "evals (defs e0) k w"
    then show "k \<notin> marked c - D"
    proof (induction rule: evals.induct)
      case (ev_input k v)
      then show ?case using step [of k] by (auto simp: dep_on_def)
    next
      case (ev_derived k ds f dvs v)
      show ?case
      proof
        assume "k \<in> marked c - D"
        then obtain d where d: "dep_on (defs e0) k d" "d \<in> marked c - D" using step by blast
        then have "d \<in> set ds" using ev_derived(1) by (auto simp: dep_on_def)
        with ev_derived.IH have "d \<notin> marked c - D" by (auto dest!: list_all2_memD)
        with d(2) show False by simp
      qed
    qed
  qed
  moreover have "key \<in> marked c - D" using col key by (simp add: collected_def)
  ultimately show False using ev by blast
qed

lemma coordinate_inv:
  assumes col: "collected e0 key c" and inv: "par_inv e0 key c s" and act: "coordinate jobs key s = Some s'"
    and jobs: "0 < jobs"
  shows "par_inv e0 key c s' \<and> work_left c s' < work_left c s"
proof -
  note ok = par_invD(1) [OF inv] and ph = par_invD(2) [OF inv]
  have eng: "engine_inv (p_engine s)" "frame {} e0 (p_engine s)" using ok by (simp_all add: par_engine_ok_def)
  have fin: "finite (unseen c t)" for t using col by (simp add: collected_def unseen_def)
  show ?thesis
  proof (cases "p_phase s")
    case PTop
    then have live: "live e0 c s" using ph by (simp add: phase_ok_def)
    have err: "p_err s = None" using live by (simp add: live_def)
    obtain stop e where c: "cancelled (p_engine s) = (stop, e)" by force
    note cf = cancelled_frame [OF c]
    have eok: "par_engine_ok e0 (s\<lparr>p_engine := e\<rparr>)"
      using ok cf(1) cf(2) [of "{}"] by (auto simp: par_engine_ok_def intro: frame_trans)
    have rev: "revision e = revision (p_engine s)" using cf(2) [of "{}"] by (simp add: frame_def)
    have tasks: "task_ok e = task_ok (p_engine s)"
      by (simp add: fun_eq_iff task_ok_def engine_fields_cong [OF cf(3) rev] cf(3) rev)
    have live': "live e0 c (s\<lparr>p_engine := e\<rparr>)"
      using live tasks cf(5) unfolding live_def sent_ok_def by (simp add: flying_def)
    consider (fin) "key \<in> set (p_done s)" | (stop) "key \<notin> set (p_done s)" stop | (go) "key \<notin> set (p_done s)" "\<not> stop"
      by blast
    then show ?thesis
    proof cases
      case fin
      then have "s' = s\<lparr>p_phase := PStop\<rparr>" using act PTop by (simp add: coordinate_def)
      moreover have "validated (p_engine s) key" using live fin by (simp add: live_def)
      ultimately show ?thesis
        using ok PTop err by (simp add: par_inv_def par_engine_ok_def phase_ok_def work_left_def phase_rank_def)
    next
      case stop
      then have s': "s' = s\<lparr>p_engine := e, p_err := Some (Fail ''cancelled''), p_phase := PStop\<rparr>"
        using act PTop c err by (simp add: coordinate_def)
      have "cancel (p_engine s) \<noteq> None" using cf(7) stop(2) by blast
      then have "cancel e0 \<noteq> None" using eng(2) by (simp add: frame_def)
      then have "rejects e0 key (Fail ''cancelled'')" by (auto simp: rejects_def)
      then show ?thesis
        using eok PTop by (simp add: s' par_inv_def par_engine_ok_def phase_ok_def work_left_def phase_rank_def)
    next
      case go
      then have s': "s' = s\<lparr>p_engine := e, p_phase := PDispatch\<rparr>" using act PTop c err by (simp add: coordinate_def)
      have "unseen c s' = unseen c s" by (simp add: s' unseen_def flying_def)
      moreover have "live e0 c s'" using live' live_phase(1) [of e0 c PDispatch "s\<lparr>p_engine := e\<rparr>"] by (simp add: s')
      ultimately show ?thesis
        using eok PTop by (simp add: s' par_inv_def par_engine_ok_def phase_ok_def work_left_def phase_rank_def)
    qed
  next
    case PDispatch
    then have live: "live e0 c s" using ph by (simp add: phase_ok_def)
    show ?thesis
    proof (cases "p_flight s < jobs \<and> p_ready s \<noteq> []")
      case True
      then obtain k rest where rd: "p_ready s = k # rest" by (cases "p_ready s") auto
      let ?s = "s\<lparr>p_ready := rest\<rparr>"
      have fly: "flying ?s = flying s" by (simp add: flying_def)
      have hold: "holding e0 c k ?s" using live rd unfolding live_def holding_def by (simp add: fly)
      have ok': "par_engine_ok e0 ?s" using ok by (simp add: par_engine_ok_def)
      obtain t where t: "dispatch k ?s = Inr t" "live e0 c t" "par_engine_ok e0 t" "p_phase t = p_phase ?s"
        "unseen c t = unseen c ?s - {k}" "p_running t = p_running ?s" "p_sent t = p_sent ?s"
        "length (p_queue t) \<le> Suc (length (p_queue ?s))"
        by (rule dispatch_live [OF col ok' hold])
      note key = holding_key [OF hold]
      have s': "s' = t" using act PDispatch True rd t(1) key(2) by (simp add: coordinate_def or_panic_def)
      have "k \<in> unseen c s" using key by (simp add: unseen_def fly)
      moreover have "unseen c ?s = unseen c s" by (simp add: unseen_def fly)
      ultimately have "card (unseen c t) < card (unseen c s)"
        unfolding t(5) using fin by (metis card_Diff1_less)
      with t PDispatch show ?thesis
        by (auto simp: s' par_inv_def par_engine_ok_def phase_ok_def work_left_def phase_rank_def)
    next
      case False
      show ?thesis
      proof (cases "p_flight s = 0")
        case zero: True
        have rd: "p_ready s = []" using False zero jobs by simp
        then have empty: "p_ready s @ flying s = []" using zero live by (simp add: live_def)
        then have fo: "frontier_ok e0 c (set (p_done s)) (p_pending s) []"
          using live unfolding live_def by auto
        show ?thesis
        proof (cases "key \<in> set (p_done s)")
          case True
          then have "s' = s\<lparr>p_phase := PStop\<rparr>" using act PDispatch rd zero by (simp add: coordinate_def)
          moreover have "validated (p_engine s) key" "p_err s = None" using live True by (simp_all add: live_def)
          ultimately show ?thesis
            using ok PDispatch by (simp add: par_inv_def par_engine_ok_def phase_ok_def work_left_def phase_rank_def)
        next
          case key: False
          then have s': "s' = s\<lparr>p_err := Some (Fail (''dependency cycle at `'' @ key @ ''`'')), p_phase := PStop\<rparr>"
            using act PDispatch rd zero by (simp add: coordinate_def)
          have "rejects e0 key (Fail (''dependency cycle at `'' @ key @ ''`''))"
            using stuck_rejects [OF col fo key] by (simp add: rejects_def)
          then show ?thesis
            using ok PDispatch by (simp add: s' par_inv_def par_engine_ok_def phase_ok_def work_left_def phase_rank_def)
        qed
      next
        case pos: False
        then have "s' = s\<lparr>p_phase := PWait\<rparr>" using act PDispatch False by (auto simp: coordinate_def)
        then show ?thesis
          using ok live pos PDispatch
          by (simp add: par_inv_def par_engine_ok_def phase_ok_def work_left_def phase_rank_def live_phase)
      qed
    qed
  next
    case PWait
    then have live: "live e0 c s" using ph by (simp add: phase_ok_def)
    obtain k r ms where msg: "p_sent s = (k, r) # ms" using act PWait by (cases "p_sent s") (auto simp: coordinate_def)
    show ?thesis
    proof (cases r)
      case (Inr v)
      obtain t where t: "accept k v (s\<lparr>p_sent := ms\<rparr>) = Inr t" "live e0 c t" "par_engine_ok e0 t"
        "unseen c t = unseen c s" "p_queue t = p_queue s" "p_running t = p_running s" "p_sent t = ms"
        using msg Inr by (auto intro: accept_live [OF col ok live])
      have s': "s' = t\<lparr>p_phase := PTop\<rparr>" using act PWait msg Inr t(1) by (simp add: coordinate_def or_panic_def)
      show ?thesis
        using t PWait msg
        by (simp add: s' par_inv_def par_engine_ok_def phase_ok_def work_left_def phase_rank_def live_phase)
    next
      case (Inl x)
      have s': "s' = s\<lparr>p_sent := ms, p_flight := p_flight s - 1, p_err := Some (Fail x), p_phase := PStop\<rparr>"
        using act PWait msg Inl by (simp add: coordinate_def)
      have "rejects e0 key (Fail x)"
      proof -
        have k: "k \<in> marked c" using live msg unfolding live_def frontier_ok_def by (auto simp: flying_def)
        have "sent_ok (p_engine s) k (Inl x)" using live msg Inl by (simp add: live_def)
        then obtain n ds f where n: "node_at (p_engine s) k = Some n" "n_kind n = Derived ds f"
          "\<forall>d \<in> set ds. validated (p_engine s) d" "f (map (named (p_engine s)) ds) = Inl x"
          unfolding sent_ok_def task_ok_def by metis
        have D: "defs e0 = defs (p_engine s)" using frame_defs [OF eng(2)] by simp
        have args: "dvs = map (named (p_engine s)) ds"
          if "list_all2 (\<lambda>d dv. dv_key dv = d \<and> evals (defs e0) d (dv_value dv)) ds dvs" for dvs
        proof -
          have "list_all2 (\<lambda>d dv. dv = named (p_engine s) d) ds dvs"
          proof (rule list.rel_mono_strong [OF that])
            fix d and dv :: dep_value
            assume d: "d \<in> set ds" and dv: "dv_key dv = d \<and> evals (defs e0) d (dv_value dv)"
            have "evals (defs e0) d (the (value_at (p_engine s) d))"
              using eng(1) n(3) d unfolding D engine_inv_def by blast
            with dv have "dv_value dv = the (value_at (p_engine s) d)" using evals_deterministic by blast
            with dv show "dv = named (p_engine s) d" by (cases dv) (simp add: named_def)
          qed
          then show ?thesis by (simp add: list_all2_conv_all_nth list_eq_iff_nth_eq)
        qed
        have "\<not> evals (defs e0) k w" for w
        proof
          assume "evals (defs e0) k w"
          then show False
            using n args by (cases rule: evals.cases) (auto simp: D defs_def)
        qed
        moreover have "below_dep e0 key k" using col k unfolding collected_def by blast
        ultimately have "\<not> evals (defs e0) key v" for v using evals_below by blast
        then show ?thesis by (simp add: rejects_def)
      qed
      then show ?thesis
        using ok PWait msg by (simp add: s' par_inv_def par_engine_ok_def phase_ok_def work_left_def phase_rank_def)
    qed
  next
    case PStop
    have s': "s' = s\<lparr>p_queue := [], p_phase := PEnd (case p_err s of Some x \<Rightarrow> Inl x
        | None \<Rightarrow> (case value_at (p_engine s) key of None \<Rightarrow> Inl (Panic ''target validated'') | Some v \<Rightarrow> Inr v))\<rparr>"
      using act PStop by (simp add: coordinate_def Let_def cong: option.case_cong)
    have "phase_ok e0 key c s'"
    proof (cases "p_err s")
      case None
      then have val: "validated (p_engine s) key" using ph PStop by (simp add: phase_ok_def)
      then obtain v where "value_at (p_engine s) key = Some v" by (auto simp: validated_def value_at_def fresh_at_def)
      with val None show ?thesis by (simp add: s' phase_ok_def)
    next
      case (Some x)
      then show ?thesis using ph PStop by (simp add: s' phase_ok_def)
    qed
    then show ?thesis
      using ok PStop by (simp add: s' par_inv_def par_engine_ok_def work_left_def phase_rank_def)
  next
    case (PEnd r)
    then show ?thesis using act by (simp add: coordinate_def)
  qed
qed

subsection \<open>The actions of the workers\<close>

lemma frontier_perm:
  assumes "mset L = mset L'"
  shows "frontier_ok e0 c D p L = frontier_ok e0 c D p L'"
  unfolding frontier_ok_def mset_eq_setD [OF assms] mset_eq_imp_distinct_iff [OF assms] ..

text \<open>A worker moves one task along, and touches nothing else.\<close>

lemma worker_inv:
  assumes inv: "par_inv e0 key c s"
    and s': "s' = s\<lparr>p_queue := q, p_running := r, p_sent := m\<rparr>"
    and fly: "mset (flying s') = mset (flying s)"
    and tasks: "live e0 c s \<Longrightarrow> \<forall>(j, f, dvs) \<in> set (q @ r). task_ok (p_engine s) j f dvs"
    and sent: "live e0 c s \<Longrightarrow> \<forall>(j, x) \<in> set m. sent_ok (p_engine s) j x"
    and less: "8 * length q + 7 * length r + 6 * length m <
      8 * length (p_queue s) + 7 * length (p_running s) + 6 * length (p_sent s)"
  shows "par_inv e0 key c s' \<and> work_left c s' < work_left c s"
proof -
  have "mset (p_ready s @ flying s') = mset (p_ready s @ flying s)" using fly by simp
  note fo = frontier_perm [OF this]
  have len: "length (flying s') = length (flying s)" using fly by (metis size_mset)
  have live: "live e0 c s'" if l: "live e0 c s"
  proof -
    have "frontier_ok e0 c (set (p_done s)) (p_pending s) (p_ready s @ flying s')"
      "p_flight s = length (flying s')"
      using l fo len by (simp_all add: live_def)
    with tasks [OF l] sent [OF l] l show ?thesis unfolding live_def by (simp add: s')
  qed
  have "phase_ok e0 key c s'"
    using live par_invD(2) [OF inv] unfolding phase_ok_def
    by (simp add: s' split: phase.splits sum.splits option.splits)
  moreover have "unseen c s' = unseen c s" unfolding unseen_def mset_eq_setD [OF fly] by (simp add: s')
  ultimately show ?thesis
    using par_invD(1) [OF inv] less by (simp add: par_inv_def par_engine_ok_def work_left_def s')
qed

lemma par_step_inv:
  assumes col: "collected e0 key c" and jobs: "0 < jobs" and step: "par_step jobs key s s'" and inv: "par_inv e0 key c s"
  shows "par_inv e0 key c s' \<and> work_left c s' < work_left c s"
  using step
proof cases
  case (w_take t q)
  have "s' = s\<lparr>p_queue := q, p_running := p_running s @ [t], p_sent := p_sent s\<rparr>" using w_take(1) by simp
  then show ?thesis
    by (rule worker_inv [OF inv]) (auto simp: w_take flying_def live_def)
next
  case (w_send ts k f dvs us)
  have s': "s' = s\<lparr>p_queue := p_queue s, p_running := ts @ us, p_sent := p_sent s @ [(k, f dvs)]\<rparr>" using w_send(1) by simp
  have tk: "task_ok (p_engine s) k f dvs" if "live e0 c s" using that w_send(2) by (simp add: live_def)
  show ?thesis
  proof (rule worker_inv [OF inv s'])
    show "\<forall>(j, x) \<in> set (p_sent s @ [(k, f dvs)]). sent_ok (p_engine s) j x" if "live e0 c s"
      using that tk unfolding live_def sent_ok_def by auto
  qed (auto simp: s' w_send(2) flying_def live_def)
next
  case c_step
  then show ?thesis by (rule coordinate_inv [OF col inv _ jobs])
qed

text \<open>No schedule gets stuck before the result.\<close>

lemma par_progress:
  assumes inv: "par_inv e0 key c s" and jobs: "0 < jobs" and go: "\<forall>r. p_phase s \<noteq> PEnd r"
  shows "\<exists>s'. par_step jobs key s s'"
proof (cases "coordinate jobs key s")
  case (Some s')
  then show ?thesis by (blast intro: c_step)
next
  case None
  then have wait: "p_phase s = PWait" and empty: "p_sent s = []"
    using go by (auto simp: coordinate_def Let_def split: phase.splits list.splits sum.splits)
  have live: "live e0 c s" "0 < p_flight s" using par_invD(2) [OF inv] wait by (simp_all add: phase_ok_def)
  then have "flying s \<noteq> []" unfolding live_def by auto
  then have busy: "p_queue s \<noteq> [] \<or> p_running s \<noteq> []" by (auto simp: flying_def empty)
  show ?thesis
  proof (cases "p_running s")
    case Nil
    with busy obtain t q where "p_queue s = t # q" by (cases "p_queue s") auto
    then have "par_step jobs key s (s\<lparr>p_queue := q, p_running := p_running s @ [t]\<rparr>)"
      by (rule par_step.w_take) (simp add: Nil jobs)
    then show ?thesis by blast
  next
    case (Cons t ts)
    obtain k f dvs where "t = (k, f, dvs)" by (cases t)
    with Cons have "p_running s = [] @ (k, f, dvs) # ts" by simp
    then show ?thesis by (blast intro: w_send)
  qed
qed

lemma par_start_inv:
  assumes inv: "engine_inv e" and col: "collected e key c" and rd: "distinct ready" "set ready = set (ready_keys c)"
  shows "par_inv e key c (par_start e c ready)"
proof -
  have pend: "bm_get (c_pending c) k = (if k \<in> marked c then Some (length (dlist e k)) else None)" for k
    using col by (simp add: collected_def)
  have "set ready = {k \<in> marked c. dlist e k = []}"
    unfolding rd(2) ready_keys_def by (auto simp: bm_keys_set pend split: if_splits)
  then have "frontier_ok e c {} (c_pending c) ready"
    using rd(1) by (auto simp: frontier_ok_def pend)
  then have "live e c (par_start e c ready)" by (simp add: live_def par_start_def flying_def)
  with inv show ?thesis by (simp add: par_inv_def phase_ok_def par_start_def)
qed

lemma par_steps_inv:
  "(par_step jobs key)\<^sup>*\<^sup>* s t \<Longrightarrow> collected e0 key c \<Longrightarrow> 0 < jobs \<Longrightarrow> par_inv e0 key c s \<Longrightarrow> par_inv e0 key c t"
  by (induction rule: rtranclp_induct) (auto dest: par_step_inv)

lemma par_ends:
  "collected e0 key c \<Longrightarrow> 0 < jobs \<Longrightarrow> par_inv e0 key c s \<Longrightarrow>
   \<exists>t r. (par_step jobs key)\<^sup>*\<^sup>* s t \<and> p_phase t = PEnd r"
proof (induction "work_left c s" arbitrary: s rule: less_induct)
  case less
  show ?case
  proof (cases "\<exists>r. p_phase s = PEnd r")
    case True
    then show ?thesis by blast
  next
    case False
    then obtain s' where s': "par_step jobs key s s'" using par_progress [OF less.prems(3,2)] by blast
    with par_step_inv [OF less.prems(1,2) s' less.prems(3)] less.hyps less.prems
    obtain t r where "(par_step jobs key)\<^sup>*\<^sup>* s' t" "p_phase t = PEnd r" by blast
    with s' show ?thesis by (blast intro: converse_rtranclp_into_rtranclp)
  qed
qed

lemma par_run_result:
  assumes "collected e key c" "engine_inv e" "distinct ready" "set ready = set (ready_keys c)" "0 < jobs"
    and "(par_step jobs key)\<^sup>*\<^sup>* (par_start e c ready) s" "p_phase s = PEnd r"
  shows "engine_inv (p_engine s)" "frame {} e (p_engine s)" "\<forall>x. r = Inl x \<longrightarrow> rejects e key x"
    "\<forall>v. r = Inr v \<longrightarrow> evals (defs e) key v"
proof -
  have inv: "par_inv e key c s"
    by (rule par_steps_inv [OF assms(6,1,5) par_start_inv [OF assms(2,1,3,4)]])
  then show ei: "engine_inv (p_engine s)" and fr: "frame {} e (p_engine s)" by (simp_all add: par_inv_def)
  have ph: "phase_ok e key c s" by (rule par_invD(2) [OF inv])
  show "\<forall>x. r = Inl x \<longrightarrow> rejects e key x" using ph assms(7) by (auto simp: phase_ok_def)
  show "\<forall>v. r = Inr v \<longrightarrow> evals (defs e) key v"
  proof (intro allI impI)
    fix v
    assume "r = Inr v"
    with ph assms(7) have "validated (p_engine s) key" "value_at (p_engine s) key = Some v"
      by (simp_all add: phase_ok_def)
    then have "evals (defs (p_engine s)) key v" using ei unfolding engine_inv_def by force
    then show "evals (defs e) key v" using frame_defs [OF fr] by simp
  qed
qed

end
