(* ===== verification/Engine_Props.thy ===== *)
theory Engine_Props
  imports Engine_Reach
begin

section \<open>Engine: the theorems on every reachable state\<close>

text \<open>
  The promises of the crate's documentation, over every history of an engine: the incremental build
  is the clean build, a cancelled build can be restarted, a cycle is reported, an unrelated or a
  void edit recomputes nothing.  The last one rests on \<open>quiet\<close>: when no dependency below a key has
  changed since its user was verified, a request only moves \<open>verified_at\<close>.
\<close>

subsection \<open>A clean build\<close>

definition clean_node :: "node \<Rightarrow> node" where
  "clean_node n = n\<lparr>n_value := (if n_kind n = Input then n_value n else None), verified_at := 0, changed_at := 0\<rparr>"

definition from_scratch :: "engine \<Rightarrow> engine" where
  "from_scratch e = engine_new\<lparr>nodes := map (\<lambda>(k, n). (k, clean_node n)) (nodes e)\<rparr>"

lemma bm_get_map_val: "bm_get (map (\<lambda>(k, n). (k, h n)) m) k = map_option h (bm_get m k)"
  unfolding bm_get_def by (induction m) auto

lemma from_scratch_node: "node_at (from_scratch e) k = map_option clean_node (node_at e k)"
  unfolding from_scratch_def by (simp add: bm_get_map_val)

lemma from_scratch_defs: "defs (from_scratch e) = defs e"
proof
  fix k
  show "defs (from_scratch e) k = defs e k"
    by (cases "node_at e k") (auto simp: defs_def from_scratch_node clean_node_def split: kind.split)
qed

lemma from_scratch_inv:
  assumes "engine_inv e"
  shows "engine_inv (from_scratch e)"
proof -
  let ?e = "from_scratch e"
  have "map fst (nodes ?e) = map fst (nodes e)" by (simp add: from_scratch_def comp_def case_prod_beta)
  then have ok: "bm_ok (nodes ?e)" using assms by (simp add: engine_inv_def bm_ok_def)
  have src: "\<exists>n. node_at e k = Some n \<and> m = clean_node n" if "node_at ?e k = Some m" for k m
    using that by (auto simp: from_scratch_node)
  have input: "n_kind m = Input" if "node_at ?e k = Some m" "n_value m \<noteq> None" for k m
  proof -
    from src [OF that(1)] obtain n where "m = clean_node n" by blast
    then have "n_kind m = n_kind n" "n_value m = (if n_kind n = Input then n_value n else None)"
      by (simp_all add: clean_node_def)
    with that(2) show ?thesis by (simp split: if_splits)
  qed
  have node: "node_inv ?e m" if "node_at ?e k = Some m" for k m
  proof -
    from src [OF that] obtain n where n: "node_at e k = Some n" "m = clean_node n" by blast
    then have "n_kind n = Input \<longrightarrow> n_value n \<noteq> None"
      using assms by (simp add: engine_inv_def node_inv_def)
    moreover have "m = clean_node n" "n_kind m = n_kind n" using n by (simp_all add: clean_node_def)
    moreover have "n_kind m \<noteq> Input \<Longrightarrow> n_value m = None" using input that by blast
    ultimately show ?thesis by (auto simp: node_inv_def clean_node_def)
  qed
  have closed: "closed_inv ?e" using input by (fastforce simp: closed_inv_def fresh_at_def)
  have "evals (defs ?e) k (the (value_at ?e k))" if "validated ?e k" for k
  proof -
    from that obtain m where m: "node_at ?e k = Some m" "n_value m \<noteq> None"
      by (auto simp: validated_def fresh_at_def)
    with input have "defs ?e k = Some (DInput (the (value_at ?e k)))"
      by (auto simp: defs_def value_at_def)
    then show ?thesis by (rule evals.ev_input)
  qed
  with ok node closed show ?thesis by (auto simp: engine_inv_def)
qed

lemma from_scratch_idle:
  "cancel (from_scratch e) = None" "in_progress (from_scratch e) = []"
  "length (nodes (from_scratch e)) = length (nodes e)"
  by (simp_all add: from_scratch_def engine_new_def)

lemma spec_outcome_cong:
  "defs e' = defs e \<Longrightarrow> length (nodes e') = length (nodes e) \<Longrightarrow> spec_outcome e' k = spec_outcome e k"
  by (simp add: spec_outcome_def)

lemma request_keeps_length:
  assumes "engine_inv e" "engine_request k e = (r, e')"
  shows "length (nodes e') = length (nodes e)"
proof -
  have post: "engine_inv e'" "frame (set (in_progress e)) e e'"
    using engine_request_post [OF assms] by (simp_all add: request_post_def)
  have len: "length (nodes e) = card (keys_of e)" if "engine_inv e" for e
  proof -
    have "distinct (map fst (nodes e))" using that by (auto simp: engine_inv_def intro: bm_ok_distinct)
    then show ?thesis unfolding keys_of_eq by (metis distinct_card length_map list.set_map)
  qed
  show ?thesis using len [OF assms(1)] len [OF post(1)] frame_keys [OF post(2)] by simp
qed

subsection \<open>Nothing to recompute\<close>

definition quiet :: "engine \<Rightarrow> string \<Rightarrow> bool" where
  "quiet e k \<longleftrightarrow>
     (\<forall>x. (dep_on (defs e))\<^sup>*\<^sup>* k x \<longrightarrow>
        (\<exists>n. node_at e x = Some n \<and> n_value n \<noteq> None \<and>
           (\<forall>ds f. n_kind n = Derived ds f \<longrightarrow> (\<forall>d \<in> set ds. changed_of e d \<le> verified_at n))))"

definition touched :: "engine \<Rightarrow> engine \<Rightarrow> bool" where
  "touched e e' \<longleftrightarrow>
     revision e' = revision e \<and> cancel e' = cancel e \<and> recomputes e' = recomputes e \<and>
     (\<forall>x. rel_option (\<lambda>n n'. n' = n \<or> n' = n\<lparr>verified_at := revision e\<rparr>) (node_at e x) (node_at e' x))"

lemma touched_refl [simp]: "touched e e"
  by (simp add: touched_def option.rel_refl)

lemma touched_nodeE:
  assumes "touched e e'"
  obtains "node_at e x = None" "node_at e' x = None"
  | n n' where "node_at e x = Some n" "node_at e' x = Some n'" "n' = n \<or> n' = n\<lparr>verified_at := revision e\<rparr>"
proof -
  have "rel_option (\<lambda>n n'. n' = n \<or> n' = n\<lparr>verified_at := revision e\<rparr>) (node_at e x) (node_at e' x)"
    using assms by (simp add: touched_def)
  with that show thesis by (cases "node_at e x"; cases "node_at e' x") auto
qed

lemma touched_trans: "touched e e' \<Longrightarrow> touched e' e'' \<Longrightarrow> touched e e''"
proof -
  assume a: "touched e e'" and b: "touched e' e''"
  have rev: "revision e' = revision e" using a by (simp add: touched_def)
  have "rel_option (\<lambda>n n'. n' = n \<or> n' = n\<lparr>verified_at := revision e\<rparr>) (node_at e x) (node_at e'' x)" for x
    by (rule touched_nodeE [OF a, of x]; rule touched_nodeE [OF b, of x]) (auto simp: rev)
  with a b show ?thesis by (simp add: touched_def)
qed

lemma touched_changed: "touched e e' \<Longrightarrow> changed_of e' x = changed_of e x"
  by (rule touched_nodeE [of e e' x]) (auto simp: changed_of_def)

lemma touched_defs: "touched e e' \<Longrightarrow> defs e' = defs e"
proof
  fix x
  assume "touched e e'"
  then show "defs e' x = defs e x"
    by (rule touched_nodeE [of e e' x]) (auto simp: defs_def split: kind.splits)
qed

lemma touched_quiet:
  assumes t: "touched e e'" and q: "quiet e k" and inv: "engine_inv e"
  shows "quiet e' k"
  unfolding quiet_def touched_defs [OF t]
proof (intro allI impI)
  fix x
  assume "(dep_on (defs e))\<^sup>*\<^sup>* k x"
  with q obtain n where n: "node_at e x = Some n" "n_value n \<noteq> None"
    "\<forall>ds f. n_kind n = Derived ds f \<longrightarrow> (\<forall>d \<in> set ds. changed_of e d \<le> verified_at n)"
    unfolding quiet_def by blast
  have le: "verified_at n \<le> revision e" using inv n(1) by (simp add: engine_inv_def node_inv_def)
  from t show "\<exists>n. node_at e' x = Some n \<and> n_value n \<noteq> None \<and>
      (\<forall>ds f. n_kind n = Derived ds f \<longrightarrow> (\<forall>d \<in> set ds. changed_of e' d \<le> verified_at n))"
  proof (rule touched_nodeE [where x = x])
    fix m n'
    assume "node_at e x = Some m" "node_at e' x = Some n'" "n' = m \<or> n' = m\<lparr>verified_at := revision e\<rparr>"
    with n(1,2) le have n': "node_at e' x = Some n'" "n_value n' \<noteq> None" "n_kind n' = n_kind n"
      "verified_at n \<le> verified_at n'" by auto
    have "changed_of e' d \<le> verified_at n'" if "n_kind n' = Derived ds f" "d \<in> set ds" for ds f d
      using n(3) n'(3,4) that touched_changed [OF t, of d] by (metis order_trans)
    with n'(1,2) show ?thesis by blast
  qed (use n in simp)
qed

lemma quiet_dep:
  assumes "quiet e k" "dep_on (defs e) k d"
  shows "quiet e d"
proof -
  have "(dep_on (defs e))\<^sup>*\<^sup>* k x" if "(dep_on (defs e))\<^sup>*\<^sup>* d x" for x
    using assms(2) that by (rule converse_rtranclp_into_rtranclp)
  with assms(1) show ?thesis unfolding quiet_def by simp
qed

lemma quiet_deps_loop:
  assumes "engine_inv e" "request_deps (request g) ds acc m e = Some (r, e')" "\<forall>d \<in> set ds. quiet e d"
    and "\<forall>d \<in> set ds. changed_of e d \<le> b" "m \<le> b" "cancel e = None"
    and "\<And>d e1 r1 e2. engine_inv e1 \<Longrightarrow> quiet e1 d \<Longrightarrow> cancel e1 = None \<Longrightarrow> request g d e1 = Some (r1, e2) \<Longrightarrow>
      touched e1 e2"
  shows "touched e e' \<and> (\<forall>dvs mx. r = Inr (dvs, mx) \<longrightarrow> mx \<le> b)"
  using assms
proof (induction ds arbitrary: acc m e)
  case Nil
  then show ?case by auto
next
  case (Cons d ds)
  from Cons.prems(2) obtain r1 e1 where r1: "request g d e = Some (r1, e1)" by (auto split: option.splits)
  have t: "touched e e1" using Cons.prems(1,3,6) r1 by (intro Cons.prems(7)) auto
  have inv1: "engine_inv e1" using reqf.req_post [OF Cons.prems(1) r1] by (simp add: request_post_def)
  show ?case
  proof (cases "\<exists>v nd. r1 = Inr v \<and> node_at e1 d = Some nd")
    case False
    with Cons.prems(2) r1 t show ?thesis by (auto split: sum.splits option.splits)
  next
    case True
    then obtain v nd where v: "r1 = Inr v" "node_at e1 d = Some nd" by blast
    from Cons.prems(2) r1 v have rest: "request_deps (request g) ds
        (acc @ [\<lparr>dv_key = d, dv_value = v\<rparr>]) (max m (changed_at nd)) e1 = Some (r, e')" by simp
    have "changed_at nd = changed_of e d"
      using touched_changed [OF t, of d] v(2) by (simp add: changed_of_def)
    then have "max m (changed_at nd) \<le> b" using Cons.prems(4,5) by simp
    moreover have "\<forall>d \<in> set ds. quiet e1 d \<and> changed_of e1 d \<le> b"
      using Cons.prems(1,3,4) t by (auto simp: touched_changed intro: touched_quiet)
    moreover have "cancel e1 = None" using t Cons.prems(6) by (simp add: touched_def)
    ultimately have "touched e1 e' \<and> (\<forall>dvs mx. r = Inr (dvs, mx) \<longrightarrow> mx \<le> b)"
      using Cons.IH [OF inv1 rest] Cons.prems(7) by blast
    with t show ?thesis by (blast intro: touched_trans)
  qed
qed

lemma touched_fields:
  "touched (e\<lparr>in_progress := x\<rparr>) e' \<Longrightarrow> touched e (e'\<lparr>in_progress := y\<rparr>)"
  by (simp add: touched_def)

lemma quiet_fields [simp]: "quiet (e\<lparr>in_progress := x\<rparr>) k = quiet e k"
  by (simp add: quiet_def)

lemma touched_verify:
  "node_at e k = Some n \<Longrightarrow> touched e (upd_node k (\<lambda>n. n\<lparr>verified_at := revision e\<rparr>) e)"
  by (auto simp: touched_def upd_node_def option.rel_refl)

lemma quiet_request:
  "engine_inv e \<Longrightarrow> quiet e k \<Longrightarrow> cancel e = None \<Longrightarrow> request fuel k e = Some (r, e') \<Longrightarrow> touched e e'"
proof (induction fuel arbitrary: k e r e')
  case 0
  then show ?case by simp
next
  case (Suc g)
  show ?case
  proof (cases "k \<in> set (in_progress e)")
    case True
    with Suc.prems show ?thesis by auto
  next
    case out: False
    let ?e = "e\<lparr>in_progress := hs_insert k (in_progress e)\<rparr>"
    from Suc.prems(4) out obtain e1 where inner: "request_inner (request g) k ?e = Some (r, e1)"
      and e': "e' = e1\<lparr>in_progress := removeAll k (in_progress e1)\<rparr>"
      by (auto split: option.splits)
    from Suc.prems(2) obtain n where n: "node_at e k = Some n" "n_value n \<noteq> None"
      "\<forall>ds f. n_kind n = Derived ds f \<longrightarrow> (\<forall>d \<in> set ds. changed_of e d \<le> verified_at n)"
      unfolding quiet_def by blast
    have "touched ?e e1"
    proof (cases "fresh_at (revision e) n")
      case True
      with inner n Suc.prems(3) show ?thesis
        by (auto simp: request_inner_def cancelled_def Let_def fresh_at_def)
    next
      case old: False
      show ?thesis
      proof (cases "n_kind n")
        case Input
        with inner n old Suc.prems(3) have "e1 = upd_node k (\<lambda>n. n\<lparr>verified_at := revision ?e\<rparr>) ?e"
          by (auto simp: request_inner_def cancelled_def Let_def fresh_at_def)
        moreover have "node_at ?e k = Some n" using n by simp
        ultimately show ?thesis using touched_verify by blast
      next
        case (Derived ds f)
        from inner n Derived old Suc.prems(3) obtain rl e2 where
          loop: "request_deps (request g) ds [] 0 ?e = Some (rl, e2)"
          and rl: "\<forall>x. rl = Inl x \<longrightarrow> e1 = e2"
            "\<forall>dvs mx. rl = Inr (dvs, mx) \<longrightarrow> mx \<le> verified_at n \<longrightarrow>
               e1 = upd_node k (\<lambda>n. n\<lparr>verified_at := revision e\<rparr>) e2"
          by (auto simp: request_inner_def cancelled_def Let_def fresh_at_def
              split: option.splits sum.splits prod.splits if_splits)
        have dep: "dep_on (defs e) k d" if "d \<in> set ds" for d
          using that n(1) Derived by (auto simp: dep_on_def defs_def)
        have "touched ?e e2 \<and> (\<forall>dvs mx. rl = Inr (dvs, mx) \<longrightarrow> mx \<le> verified_at n)"
        proof (rule quiet_deps_loop [OF _ loop])
          show "\<forall>d \<in> set ds. quiet ?e d" using Suc.prems(2) dep by (auto intro: quiet_dep)
          show "\<forall>d \<in> set ds. changed_of ?e d \<le> verified_at n" using n(3) Derived by simp
        qed (use Suc in auto)
        then have t: "touched ?e e2" and mx: "\<forall>dvs mx. rl = Inr (dvs, mx) \<longrightarrow> mx \<le> verified_at n"
          by simp_all
        obtain n2 where n2: "node_at e2 k = Some n2"
          using touched_nodeE [OF t, of k] n(1) by auto
        have "revision e2 = revision e" using t by (simp add: touched_def)
        then have v: "touched e2 (upd_node k (\<lambda>n. n\<lparr>verified_at := revision e\<rparr>) e2)"
          using touched_verify [OF n2] by simp
        show ?thesis
        proof (cases rl)
          case (Inl x)
          with rl t show ?thesis by simp
        next
          case (Inr p)
          with rl mx t v show ?thesis by (cases p) (auto intro: touched_trans)
        qed
      qed
    qed
    then show ?thesis unfolding e' by (rule touched_fields)
  qed
qed

lemma dep_on_node:
  "dep_on (defs e) x d \<longleftrightarrow> (\<exists>n ds f. node_at e x = Some n \<and> n_kind n = Derived ds f \<and> d \<in> set ds)"
proof (cases "node_at e x")
  case (Some n)
  then show ?thesis by (cases "n_kind n") (auto simp: dep_on_def defs_def)
qed (simp add: dep_on_def defs_def)

lemma validated_quiet:
  assumes inv: "engine_inv e" and ch: "\<forall>x. changed_of e x \<le> revision e"
    and val: "validated e k"
  shows "quiet e k"
proof -
  have reach: "validated e x" if "(dep_on (defs e))\<^sup>*\<^sup>* k x" for x
    using that
  proof (induction rule: rtranclp_induct)
    case base
    show ?case by (rule val)
  next
    case (step y z)
    then obtain n ds f where "node_at e y = Some n" "fresh_at (revision e) n" "n_kind n = Derived ds f" "z \<in> set ds"
      by (auto simp: validated_def dep_on_node)
    with inv show ?case by (auto simp: engine_inv_def closed_inv_def)
  qed
  show ?thesis
    unfolding quiet_def
  proof (intro allI impI)
    fix x
    assume "(dep_on (defs e))\<^sup>*\<^sup>* k x"
    from reach [OF this] obtain n where "node_at e x = Some n" "n_value n \<noteq> None" "verified_at n = revision e"
      by (auto simp: validated_def fresh_at_def)
    with ch show "\<exists>n. node_at e x = Some n \<and> n_value n \<noteq> None \<and>
        (\<forall>ds f. n_kind n = Derived ds f \<longrightarrow> (\<forall>d \<in> set ds. changed_of e d \<le> verified_at n))"
      by auto
  qed
qed

lemma changed_of_insert [simp]:
  "changed_of (e\<lparr>nodes := bm_insert k n (nodes e)\<rparr>) x = (if x = k then changed_at n else changed_of e x)"
  by (simp add: changed_of_def)

lemma reachable_changed: "reachable_engine e \<Longrightarrow> changed_of e x \<le> revision e"
proof (induction arbitrary: x rule: reachable_engine.induct)
  case re_new
  show ?case by (simp add: engine_new_def changed_of_def)
next
  case (re_edit e k n v e')
  have "changed_of e' x \<le> Suc (revision e)"
    using re_edit.hyps re_edit.IH [of k] re_edit.IH [of x]
    by (auto simp: set_input_Inr changed_of_def split: if_splits)
  with re_edit.hyps show ?case by (auto simp: set_input_Inr)
next
  case (re_request e k r e')
  have fr: "frame (set (in_progress e)) e e'"
    using engine_request_post [OF reachable_inv [OF re_request.hyps(1)] re_request.hyps(2)]
    by (simp add: request_post_def)
  show ?case
  proof (cases "node_at e x")
    case None
    then have "node_at e' x = None" using frame_node_None [OF fr] by simp
    then show ?thesis by (simp add: changed_of_def)
  next
    case (Some n)
    from frame_nodeE [OF fr Some] obtain n'
      where "node_at e' x = Some n'" "n' = n \<or> commits (revision e) n n'" .
    with re_request.IH [of x] Some frame_revision [OF fr] show ?thesis
      by (auto simp: changed_of_def commits_def)
  qed
qed (auto simp: add_input_def add_derived_def add_action_node_def insert_derived_def
      reset_recomputes_def set_cancel_def changed_of_def)

lemma edit_quiet:
  assumes inv: "engine_inv e" and q: "quiet e k"
    and out: "set_input j w e = Inr e'" and j: "node_at e j = Some n" "n_kind n = Input"
    and same: "n_value n = Some w \<or> \<not> (dep_on (defs e))\<^sup>*\<^sup>* k j"
  shows "quiet e' k \<and> (\<forall>x. (dep_on (defs e))\<^sup>*\<^sup>* k x \<longrightarrow> value_at e' x = value_at e x)"
proof -
  let ?r = "revision e + 1"
  let ?n = "(if n_value n \<noteq> Some w then n\<lparr>n_value := Some w, changed_at := ?r\<rparr> else n)\<lparr>verified_at := ?r\<rparr>"
  have e': "e' = e\<lparr>revision := ?r, nodes := bm_insert j ?n (nodes e)\<rparr>"
    using out j(1) unfolding set_input_Inr by force
  have node: "node_at e' x = (if x = j then Some ?n else node_at e x)" for x by (simp add: e')
  have dep: "dep_on (defs e') = dep_on (defs e)"
  proof (intro ext)
    show "dep_on (defs e') x d = dep_on (defs e) x d" for x d
      using j by (cases "x = j") (auto simp: dep_on_def defs_def node)
  qed
  have keep: "value_at e' x = value_at e x \<and> changed_of e' x = changed_of e x"
    if "(dep_on (defs e))\<^sup>*\<^sup>* k x" for x
    using that same j by (cases "x = j") (auto simp: value_at_def changed_of_def node)
  have "quiet e' k"
    unfolding quiet_def dep
  proof (intro allI impI)
    fix x
    assume x: "(dep_on (defs e))\<^sup>*\<^sup>* k x"
    with q obtain m where m: "node_at e x = Some m" "n_value m \<noteq> None"
      "\<forall>ds f. n_kind m = Derived ds f \<longrightarrow> (\<forall>d \<in> set ds. changed_of e d \<le> verified_at m)"
      unfolding quiet_def by blast
    show "\<exists>n. node_at e' x = Some n \<and> n_value n \<noteq> None \<and>
        (\<forall>ds f. n_kind n = Derived ds f \<longrightarrow> (\<forall>d \<in> set ds. changed_of e' d \<le> verified_at n))"
    proof (cases "x = j")
      case True
      with node j m show ?thesis by auto
    next
      case False
      have "changed_of e' d = changed_of e d" if "n_kind m = Derived ds f" "d \<in> set ds" for ds f d
      proof -
        have "dep_on (defs e) x d" using that m(1) by (auto simp: dep_on_def defs_def)
        with x have "(dep_on (defs e))\<^sup>*\<^sup>* k d" by (rule rtranclp.rtrancl_into_rtrancl)
        with keep show ?thesis by simp
      qed
      with m False show ?thesis by (auto simp: node)
    qed
  qed
  with keep show ?thesis by blast
qed

subsection \<open>A small engine, for the witnesses\<close>

definition demo_engine :: engine where
  "demo_engine =
     add_action_node ''act'' [''a'', ''b''] (\<lambda>dvs. Inr (NManifest [(''o'', Digest [1])]))
       (add_derived ''top'' [''act''] (\<lambda>dvs. dv_value (hd dvs))
         (add_input ''b'' (NManifest []) (add_input ''a'' (NManifest []) engine_new)))"

lemmas engine_eval =
  demo_engine_def add_action_node_def add_derived_def insert_derived_def add_input_def engine_new_def
  engine_request_def request_inner_def cancelled_def Let_def recompute_def upd_node_def hs_insert_def
  bm_get_def set_input_def set_cancel_def

lemma demo_reachable: "reachable_engine demo_engine"
  unfolding demo_engine_def
  by (intro reachable_engine.intros)
    (simp_all add: add_action_node_def add_derived_def insert_derived_def add_input_def engine_new_def bm_get_def)

lemma demo_idle: "cancel demo_engine = None"
  by (simp add: engine_eval)

lemma evals_local:
  "evals D k v \<Longrightarrow> (\<forall>x. (dep_on D)\<^sup>*\<^sup>* k x \<longrightarrow> D' x = D x) \<Longrightarrow> evals D' k v"
proof (induction rule: evals.induct)
  case (ev_input k v)
  then have "D' k = Some (DInput v)" by auto
  then show ?case by (rule evals.ev_input)
next
  case (ev_derived k ds f dvs v)
  have "(dep_on D)\<^sup>*\<^sup>* k x" if "d \<in> set ds" "(dep_on D)\<^sup>*\<^sup>* d x" for d x
    using ev_derived.hyps(1) that by (intro converse_rtranclp_into_rtranclp [of _ k d]) (auto simp: dep_on_def)
  then have "list_all2 (\<lambda>d dv. dv_key dv = d \<and> evals D' d (dv_value dv)) ds dvs"
    using ev_derived.prems by (intro list.rel_mono_strong [OF ev_derived.IH]) simp
  moreover have "D' k = Some (DDerived ds f)" using ev_derived by auto
  ultimately show ?case using ev_derived.hyps(2) by (blast intro: evals.ev_derived)
qed

subsection \<open>The theorems\<close>

text \<open>C1: On every reachable engine a request answers exactly what the memory-less recursive evaluator
  of the current definitions answers: the same value, or the same error (cycle, unknown node, or the
  first failing action in dependency order).\<close>

theorem engine_refines_spec:
  assumes "reachable_engine e" "cancel e = None"
  shows "fst (engine_request k e) = spec_outcome e k"
  using assms by (intro engine_request_spec reachable_inv reachable_idle)

theorem engine_refines_spec_witness:
  "fst (engine_request ''top'' demo_engine) = spec_outcome demo_engine ''top''"
  by (rule engine_refines_spec [OF demo_reachable demo_idle])

text \<open>C6: Warm equals cold.  Whatever edits and builds an engine has seen, a request gives the outcome
  of a clean engine that holds the same definitions and no computed value.\<close>

theorem engine_incremental_is_clean:
  assumes "reachable_engine e" "cancel e = None"
  shows "fst (engine_request k e) = fst (engine_request k (from_scratch e))"
proof -
  have "fst (engine_request k (from_scratch e)) = spec_outcome (from_scratch e) k"
    using assms by (intro engine_request_spec from_scratch_inv from_scratch_idle reachable_inv)
  moreover have "spec_outcome (from_scratch e) k = spec_outcome e k"
    by (intro spec_outcome_cong from_scratch_defs from_scratch_idle)
  moreover have "fst (engine_request k e) = spec_outcome e k"
    using assms by (intro engine_request_spec reachable_inv reachable_idle)
  ultimately show ?thesis by simp
qed

theorem engine_incremental_is_clean_witness:
  "fst (engine_request ''top'' (snd (engine_request ''act'' demo_engine))) =
   fst (engine_request ''top'' (from_scratch (snd (engine_request ''act'' demo_engine))))"
proof (rule engine_incremental_is_clean)
  show "reachable_engine (snd (engine_request ''act'' demo_engine))"
    using demo_reachable by (rule re_request) (rule prod.collapse [symmetric])
  show "cancel (snd (engine_request ''act'' demo_engine)) = None"
    by (simp add: engine_eval)
qed

text \<open>Cancel and restart.  However the cancellation flag was read during a request, clearing the
  flag and requesting any key gives the outcome of a clean evaluation of the definitions the engine
  had before the cancelled request.\<close>

theorem engine_cancel_restart:
  assumes "reachable_engine e" "engine_request k (set_cancel flag e) = (r, e')"
  shows "fst (engine_request j (set_cancel None e')) = spec_outcome e j"
proof -
  let ?e = "set_cancel flag e"
  have re: "reachable_engine ?e" by (rule re_cancel [OF assms(1)])
  have re': "reachable_engine (set_cancel None e')" by (intro re_cancel re_request [OF re assms(2)])
  have fr: "frame (set (in_progress ?e)) ?e e'"
    using engine_request_post [OF reachable_inv [OF re] assms(2)] by (simp add: request_post_def)
  have "fst (engine_request j (set_cancel None e')) = spec_outcome (set_cancel None e') j"
    by (intro engine_request_spec reachable_inv reachable_idle re') (simp add: set_cancel_def)
  also have "\<dots> = spec_outcome e j"
    using frame_defs [OF fr] request_keeps_length [OF reachable_inv [OF re] assms(2)]
    by (intro spec_outcome_cong) (simp_all add: set_cancel_def)
  finally show ?thesis .
qed

theorem engine_cancel_restart_witness:
  "fst (engine_request ''top'' (set_cancel None (snd (engine_request ''top'' (set_cancel (Some (\<lambda>i. i = 2)) demo_engine)))))
   = spec_outcome demo_engine ''top'' \<and>
   fst (engine_request ''top'' (set_cancel (Some (\<lambda>i. i = 2)) demo_engine)) = Inl (Fail ''cancelled'')"
proof
  show "fst (engine_request ''top'' (set_cancel None (snd (engine_request ''top'' (set_cancel (Some (\<lambda>i. i = 2)) demo_engine)))))
      = spec_outcome demo_engine ''top''"
    by (rule engine_cancel_restart [OF demo_reachable, of "''top''" "Some (\<lambda>i. i = 2)"])
      (rule prod.collapse [symmetric])
  show "fst (engine_request ''top'' (set_cancel (Some (\<lambda>i. i = 2)) demo_engine)) = Inl (Fail ''cancelled'')"
    by (simp add: engine_eval)
qed

text \<open>C30: No request of a reachable engine reaches an \<open>unwrap\<close>, an \<open>expect\<close>, an index or an
  \<open>unreachable!\<close> that fails, nor recurses without end: the answer is a value or an error result, for
  every key, known or not, and every behaviour of the cancellation flag.\<close>

theorem engine_never_panics:
  assumes "reachable_engine e"
  shows "fst (engine_request k e) \<noteq> Inl (Panic m)"
  using engine_request_post [OF reachable_inv [OF assms], of k]
  by (cases "engine_request k e") (auto simp: request_post_def)

theorem engine_never_panics_witness:
  "fst (engine_request ''nope'' demo_engine) \<noteq> Inl (Panic ''no entry found for key'')"
  by (rule engine_never_panics [OF demo_reachable])

text \<open>C29: A key that depends on itself, at any distance, is answered with an error; the evaluator
  neither loops nor returns a value for it.\<close>

theorem engine_cycle_reported:
  assumes "reachable_engine e" "(dep_on (defs e))\<^sup>+\<^sup>+ k k"
  shows "\<exists>msg. fst (engine_request k e) = Inl (Fail msg)"
proof -
  obtain r e' where r: "engine_request k e = (r, e')" by force
  note post = engine_request_post [OF reachable_inv [OF assms(1)] r]
  have "r \<noteq> Inr v" for v
    using engine_request_sound [OF reachable_inv [OF assms(1)]] r evals_acyclic assms(2) by blast
  with post r show ?thesis
    by (cases r) (auto simp: request_post_def intro: engine_error.exhaust)
qed

theorem engine_cycle_reported_witness:
  "\<exists>msg. fst (engine_request ''x''
     (add_action_node ''y'' [''x''] (\<lambda>_. Inr (NManifest []))
       (add_action_node ''x'' [''y''] (\<lambda>_. Inr (NManifest [])) engine_new))) = Inl (Fail msg)"
proof (rule engine_cycle_reported)
  let ?e = "add_action_node ''y'' [''x''] (\<lambda>_. Inr (NManifest []))
       (add_action_node ''x'' [''y''] (\<lambda>_. Inr (NManifest [])) engine_new)"
  show "reachable_engine ?e"
    by (intro reachable_engine.intros)
      (simp_all add: add_action_node_def insert_derived_def engine_new_def bm_get_def)
  have "dep_on (defs ?e) ''x'' ''y''" "dep_on (defs ?e) ''y'' ''x''"
    by (simp_all add: dep_on_node add_action_node_def insert_derived_def engine_new_def bm_get_def)
  then show "(dep_on (defs ?e))\<^sup>+\<^sup>+ ''x'' ''x''" by (blast intro: tranclp.intros)
qed

text \<open>After a successful build, an edit that leaves the input's value as it was, or an edit of
  an input the key does not depend on, costs nothing: the next request gives the same value and runs
  no compute function.\<close>

theorem engine_void_edit:
  assumes "reachable_engine e" "cancel e = None" "engine_request k e = (Inr v, e1)"
    and "node_at e1 j = Some n" "n_kind n = Input" "set_input j w e1 = Inr e2"
    and "n_value n = Some w \<or> \<not> (dep_on (defs e1))\<^sup>*\<^sup>* k j"
  shows "\<exists>e3. engine_request k e2 = (Inr v, e3) \<and> recomputes e3 = recomputes e2"
proof -
  have re1: "reachable_engine e1" by (rule re_request [OF assms(1,3)])
  have re2: "reachable_engine e2" by (rule re_edit [OF re1 assms(4,5,6)])
  have post: "request_post k e (Inr v) e1"
    by (rule engine_request_post [OF reachable_inv [OF assms(1)] assms(3)])
  then have val: "validated e1 k" "value_at e1 k = Some v" and c1: "cancel e1 = None"
    using assms(2) by (auto simp: request_post_def frame_def)
  have q1: "quiet e1 k"
    using reachable_changed [OF re1] by (intro validated_quiet reachable_inv re1 val) simp
  have q2: "quiet e2 k" using edit_quiet [OF reachable_inv [OF re1] q1 assms(6,4,5,7)] by simp
  have c2: "cancel e2 = None" using assms(6) c1 by (auto simp: set_input_Inr)
  have defs2: "defs e2 x = defs e1 x" if "(dep_on (defs e1))\<^sup>*\<^sup>* k x" for x
    using assms(4-7) that by (cases "x = j") (auto simp: set_input_Inr defs_def)
  have "evals (defs e1) k v" using reachable_inv [OF re1] val by (auto simp: engine_inv_def)
  then have "evals (defs e2) k v" using defs2 by (blast intro: evals_local)
  from engine_request_complete [OF reachable_inv [OF re2] c2 reachable_idle [OF re2] this]
  obtain e3 where e3: "engine_request k e2 = (Inr v, e3)" by blast
  have "touched e2 e3"
    using engine_request_eq [OF reachable_inv [OF re2], of k] unfolding e3
    by (rule quiet_request [OF reachable_inv [OF re2] q2 c2])
  with e3 show ?thesis by (auto simp: touched_def)
qed

theorem engine_void_edit_witness:
  "\<exists>e1 e2 e3 v. engine_request ''top'' demo_engine = (Inr v, e1) \<and> set_input ''a'' (NManifest []) e1 = Inr e2 \<and>
     engine_request ''top'' e2 = (Inr v, e3) \<and> recomputes e3 = recomputes e2"
proof -
  obtain e1 v where e1: "engine_request ''top'' demo_engine = (Inr v, e1)"
    and n: "\<exists>n. node_at e1 ''a'' = Some n \<and> n_kind n = Input \<and> n_value n = Some (NManifest [])"
    by (simp add: engine_eval)
  then obtain n e2 where n: "node_at e1 ''a'' = Some n" "n_kind n = Input" "n_value n = Some (NManifest [])"
    and e2: "set_input ''a'' (NManifest []) e1 = Inr e2"
    by (auto simp: set_input_Inr)
  from engine_void_edit [OF demo_reachable demo_idle e1 n(1,2) e2] n(3) e1 e2 show ?thesis by blast
qed

end
