(* ===== verification/Par_Props.thy ===== *)
theory Par_Props
  imports Par_Run Engine_Props
begin

section \<open>Properties of the parallel request\<close>

text \<open>
  The parallel request against the serial one: same values, a clean engine afterwards, an answer under
  every schedule.  The last lemma shows where the two differ.
\<close>

lemma frame_length:
  assumes "engine_inv e" "engine_inv e'" "frame P e e'"
  shows "length (nodes e') = length (nodes e)"
proof -
  have len: "length (nodes e) = card (keys_of e)" if "engine_inv e" for e
  proof -
    have "distinct (map fst (nodes e))" using that by (auto simp: engine_inv_def intro: bm_ok_distinct)
    then show ?thesis unfolding keys_of_eq by (metis distinct_card length_map list.set_map)
  qed
  show ?thesis using len [OF assms(1)] len [OF assms(2)] frame_keys [OF assms(3)] by simp
qed

lemma parallel_result_inv:
  assumes inv: "engine_inv e" and idle: "in_progress e = []" and "request_parallel jobs key e r e'"
  shows "engine_inv e' \<and> frame {} e e' \<and>
    (\<forall>x. r = Inl x \<longrightarrow> rejects e key x) \<and> (\<forall>v. r = Inr v \<longrightarrow> evals (defs e) key v)"
  using assms(3)
proof cases
  case rp_serial
  have post: "request_post key e r e'" by (rule engine_request_post [OF inv rp_serial(2)])
  have "rejects e key x" if "r = Inl x" for x
    unfolding rejects_def
  proof
    show "\<exists>m. x = Fail m" using post that by (cases x) (auto simp: request_post_def)
    show "cancel e = None \<longrightarrow> (\<forall>v. \<not> evals (defs e) key v)"
      using engine_request_iff [OF inv _ idle, of key] rp_serial(2) that
      by auto
  qed
  moreover have "evals (defs e) key v" if "r = Inr v" for v
    using engine_request_sound [OF inv] rp_serial(2) that by blast
  ultimately show ?thesis using post by (auto simp: request_post_def frame_def)
next
  case (rp_reject c x)
  then show ?thesis using collect_run_err [of e key c] inv by (auto simp: rejects_def)
next
  case (rp_run c ready s)
  note col = collect_run_collected [OF rp_run(3,4)]
  have "0 < jobs" using rp_run(2) by simp
  from par_run_result [OF col inv rp_run(5,6) this rp_run(7,8)] rp_run(1)
  show ?thesis by blast
qed

lemmas parallel_result = parallel_result_inv [OF reachable_inv reachable_idle]

lemma parallel_exists_inv:
  assumes "engine_inv e"
  shows "\<exists>r e'. request_parallel jobs key e r e'"
proof (cases "jobs \<le> 1")
  case True
  obtain r e' where "engine_request key e = (r, e')" by force
  with True show ?thesis by (blast intro: rp_serial)
next
  case False
  obtain c where c: "collect_run e key = Some c" using collect_total by blast
  show ?thesis
  proof (cases "c_err c")
    case (Some x)
    have "request_parallel jobs key e (Inl x) e" by (rule rp_reject [OF _ c Some]) (use False in simp)
    then show ?thesis by blast
  next
    case None
    let ?ready = "remdups (ready_keys c)"
    note col = collect_run_collected [OF c None]
    have inv: "par_inv e key c (par_start e c ?ready)"
      by (rule par_start_inv [OF assms col]) simp_all
    have "0 < jobs" using False by simp
    then obtain t r where t: "(par_step jobs key)\<^sup>*\<^sup>* (par_start e c ?ready) t" "p_phase t = PEnd r"
      using par_ends [OF col _ inv] by blast
    have "request_parallel jobs key e r (p_engine t)"
      by (rule rp_run [OF _ c None _ _ t]) (use False in auto)
    then show ?thesis by blast
  qed
qed

lemmas parallel_exists = parallel_exists_inv [OF reachable_inv]

text \<open>C2: The parallel request returns a value exactly when the serial request does, and the same value, for any
  number of jobs and any schedule of the workers; it never panics.\<close>

theorem parallel_agrees:
  assumes "reachable_engine e" "cancel e = None" "request_parallel jobs key e r e'"
  shows "(r = Inr v \<longleftrightarrow> fst (engine_request key e) = Inr v) \<and> r \<noteq> Inl (Panic m)"
proof -
  note res = parallel_result [OF assms(1,1,3)]
  have iff: "fst (engine_request key e) = Inr w \<longleftrightarrow> evals (defs e) key w" for w
    by (rule engine_request_iff [OF reachable_inv [OF assms(1)] assms(2) reachable_idle [OF assms(1)]])
  have "r = Inr v" if "evals (defs e) key v"
  proof (cases r)
    case (Inl x)
    with res assms(2) that show ?thesis by (auto simp: rejects_def)
  next
    case (Inr w)
    with res that show ?thesis using evals_deterministic by blast
  qed
  moreover have "r \<noteq> Inl (Panic m)" using res by (auto simp: rejects_def)
  ultimately show ?thesis using res iff by blast
qed

theorem parallel_agrees_witness:
  "\<exists>r e'. request_parallel 4 ''top'' demo_engine r e' \<and> r = Inr (NManifest [(''o'', Digest [1])])"
proof -
  obtain r e' where run: "request_parallel 4 ''top'' demo_engine r e'"
    using parallel_exists [OF demo_reachable] by blast
  have "fst (engine_request ''top'' demo_engine) = Inr (NManifest [(''o'', Digest [1])])"
    by (simp add: engine_eval)
  with parallel_agrees [OF demo_reachable demo_idle run] have "r = Inr (NManifest [(''o'', Digest [1])])" by blast
  with run show ?thesis by blast
qed

text \<open>However a parallel request ends (with a value, an error, or cancelled at any point), the engine it
  leaves answers every later request as if nothing had been computed before.\<close>

theorem parallel_restart_is_clean:
  assumes "reachable_engine e" "request_parallel jobs key e r e'"
  shows "fst (engine_request j (set_cancel None e')) = spec_outcome e j"
proof -
  have inv: "engine_inv e'" and fr: "frame {} e e'" using parallel_result [OF assms(1,1,2)] by blast+
  let ?e = "set_cancel None e'"
  have "engine_inv ?e" using inv by (simp add: set_cancel_def)
  moreover have "cancel ?e = None" "in_progress ?e = []"
    using frame_in_progress [OF fr] reachable_idle [OF assms(1)] by (simp_all add: set_cancel_def)
  ultimately have "fst (engine_request j ?e) = spec_outcome ?e j" by (rule engine_request_spec)
  also have "\<dots> = spec_outcome e j"
  proof (rule spec_outcome_cong)
    show "defs ?e = defs e" using frame_defs [OF fr] by (simp add: set_cancel_def)
    show "length (nodes ?e) = length (nodes e)"
      using frame_length [OF reachable_inv [OF assms(1)] inv fr] by (simp add: set_cancel_def)
  qed
  finally show ?thesis .
qed

theorem parallel_restart_is_clean_witness:
  "\<exists>r e'. request_parallel 2 ''top'' (set_cancel (Some (\<lambda>i. i = 1)) demo_engine) r e' \<and>
     fst (engine_request ''act'' (set_cancel None e')) =
     spec_outcome (set_cancel (Some (\<lambda>i. i = 1)) demo_engine) ''act''"
proof -
  let ?e = "set_cancel (Some (\<lambda>i. i = (1::nat))) demo_engine"
  have re: "reachable_engine ?e" by (rule re_cancel [OF demo_reachable])
  obtain r e' where run: "request_parallel 2 ''top'' ?e r e'" using parallel_exists [OF re] by blast
  from parallel_restart_is_clean [OF re run] run show ?thesis by blast
qed

text \<open>C5: No schedule hangs: whatever the coordinator and the workers have done so far, the build has its result
  or some thread can act, and no schedule goes on for ever.\<close>

theorem parallel_never_hangs:
  assumes "reachable_engine e" "1 < jobs" "collect_run e key = Some c" "c_err c = None"
    and "distinct ready" "set ready = set (ready_keys c)"
    and "(par_step jobs key)\<^sup>*\<^sup>* (par_start e c ready) s"
  shows "((\<exists>r. p_phase s = PEnd r) \<or> (\<exists>s'. par_step jobs key s s')) \<and>
    \<not> (\<exists>f. f 0 = s \<and> (\<forall>i. par_step jobs key (f i) (f (Suc i))))"
proof
  note col = collect_run_collected [OF assms(3,4)]
  have jobs: "0 < jobs" using assms(2) by simp
  have inv: "par_inv e key c s"
    by (rule par_steps_inv [OF assms(7) col jobs par_start_inv [OF reachable_inv [OF assms(1)] col assms(5,6)]])
  show "(\<exists>r. p_phase s = PEnd r) \<or> (\<exists>s'. par_step jobs key s s')" using par_progress [OF inv jobs] by blast
  show "\<not> (\<exists>f. f 0 = s \<and> (\<forall>i. par_step jobs key (f i) (f (Suc i))))"
  proof
    assume "\<exists>f. f 0 = s \<and> (\<forall>i. par_step jobs key (f i) (f (Suc i)))"
    then obtain f where f: "f 0 = s" "\<And>i. par_step jobs key (f i) (f (Suc i))" by blast
    have "par_inv e key c (f i)" for i
      by (induction i) (use inv f par_step_inv [OF col jobs] in auto)
    then have "work_left c (f (Suc i)) < work_left c (f i)" for i
      using par_step_inv [OF col jobs f(2)] by blast
    then show False using wf_no_infinite_down_chainE [of "measure (work_left c)" f] by auto
  qed
qed

theorem parallel_never_hangs_witness:
  "\<exists>c. collect_run demo_engine ''top'' = Some c \<and>
     ((\<exists>r. p_phase (par_start demo_engine c (remdups (ready_keys c))) = PEnd r) \<or>
      (\<exists>s'. par_step 2 ''top'' (par_start demo_engine c (remdups (ready_keys c))) s'))"
proof -
  obtain c where c: "collect_run demo_engine ''top'' = Some c" using collect_total by blast
  have "fst (engine_request ''top'' demo_engine) = Inr (NManifest [(''o'', Digest [1])])"
    by (simp add: engine_eval)
  then have "evals (defs demo_engine) ''top'' (NManifest [(''o'', Digest [1])])"
    using engine_request_iff [OF reachable_inv [OF demo_reachable] demo_idle reachable_idle [OF demo_reachable]] by blast
  then have "c_err c = None" using collect_run_err [OF c] by (cases "c_err c") auto
  from parallel_never_hangs [OF demo_reachable _ c this, of 2 "remdups (ready_keys c)"] c
  show ?thesis by auto
qed

text \<open>C32: The parallel request always has a result.\<close>

theorem parallel_total:
  assumes "reachable_engine e"
  shows "\<exists>r e'. request_parallel jobs key e r e'"
  by (rule parallel_exists [OF assms])

theorem parallel_total_witness: "\<exists>r e'. request_parallel 8 ''nope'' demo_engine r e'"
  by (rule parallel_total [OF demo_reachable])

subsection \<open>Where the two evaluators differ\<close>

text \<open>
  The documentation of \<open>request_parallel\<close> says that on a failing build the returned error is identical
  to the serial one.  The search of the parallel request meets an unknown dependency before any action
  runs, while the serial request runs the failing action first.
\<close>

definition failing_engine :: engine where
  "failing_engine =
     add_action_node ''top'' [''bad'', ''gone''] (\<lambda>_. Inr (NManifest []))
       (add_action_node ''bad'' [] (\<lambda>_. Inl ''boom'') engine_new)"

text \<open>On a failing build the two evaluators can answer different errors.\<close>

theorem parallel_error_differs:
  "fst (engine_request ''top'' failing_engine) = Inl (Fail ''boom'') \<and>
   request_parallel 2 ''top'' failing_engine (Inl (Fail ''unknown node `gone`'')) failing_engine"
proof
  show "fst (engine_request ''top'' failing_engine) = Inl (Fail ''boom'')"
    by (simp add: failing_engine_def engine_eval)
  let ?b = "\<lambda>c. c_stack c \<noteq> [] \<and> c_err c = None"
  have "\<exists>c. collect_run failing_engine ''top'' = Some c \<and> c_err c = Some (Fail ''unknown node `gone`'')"
    unfolding collect_run_def collect_init_def
    by (simp add: while_option_unfold failing_engine_def engine_eval collect_step_def collect_enter_def
        or_insert_def bm_entry_def kind_deps_def)
  then show "request_parallel 2 ''top'' failing_engine (Inl (Fail ''unknown node `gone`'')) failing_engine"
    by (auto intro: rp_reject)
qed

end
