(* ===== verification/Incremental.thy ===== *)
theory Incremental
  imports Par_Props Exec Dds
begin

section \<open>razel-build: the incremental builder\<close>

text \<open>
  \<^verbatim>\<open>crates/razel-build/src/incremental.rs\<close>: the analyzed targets become nodes of the engine, a leaf file an
  input, an action a node that runs the executor, a target the digest of its actions.  The world is the
  record \<open>host\<close>: the digests of the files below the execution root, the executor, the directories that can be
  created.  The executor stands for \<open>execute_action\<close> of \<open>Exec\<close> with its cache, sandbox and files: here it is a function of
  the sandbox it is given and of the action with its input digests.  This is an assumption of the theories that build on this
  one and not a fact of the code: \<open>Exec_Props\<close> has the cases in which the outputs depend on more, a sandbox that keeps
  outputs of its last run (\<open>sandbox_keeps_stale_output\<close>), a directory restored over another (\<open>restore_keeps_stale_files\<close>)
  and a file edited while an action reads it (\<open>edit_during_action_is_cached\<close>).  Progress lines and the count of executed actions are part of what running an action
  answers; the shared sink and counter they go to are not kept in the state.
\<close>

record analyzed_action =
  mnemonic :: string
  aa_argv :: "string list"
  aa_inputs :: "string list"
  aa_outputs :: "string list"
  description :: string

record analyzed_target =
  at_name :: string
  at_deps :: "string list"
  at_actions :: "analyzed_action list"
  default_info :: "string list"
  at_providers :: "(string \<times> string, field_value) bmap"

record sandbox_ref =
  sr_dir :: string
  sr_how :: materialize
  sr_isolation :: isolation

record host =
  file_digest_at :: "string \<Rightarrow> digest option"
  run_executor :: "sandbox_ref \<Rightarrow> action \<Rightarrow> exec_outcome \<times> string"
  create_dir_error :: "string \<Rightarrow> string option"
  host_hash :: "byte list \<Rightarrow> byte list"

record builder =
  b_engine :: engine
  exec_root :: string
  leaf_inputs :: "string list"
  b_materialize :: materialize
  b_isolation :: isolation
  producer :: "(string, string) bmap"
  action_count :: nat

subsection \<open>Keys and values\<close>

definition file_key :: "string \<Rightarrow> string" where
  "file_key path = ''file:'' @ path"

definition tgt_key :: "string \<Rightarrow> string" where
  "tgt_key name = ''tgt:'' @ name"

definition action_key :: "string \<Rightarrow> nat \<Rightarrow> string" where
  "action_key target i = ''act:'' @ target @ ''#'' @ dec i"

definition leaf_value :: "host \<Rightarrow> string \<Rightarrow> node_value" where
  "leaf_value h p =
     NDigest (case file_digest_at h p of Some d \<Rightarrow> d | None \<Rightarrow> digest_of (host_hash h) [])"

fun dep_bytes :: "node_value \<Rightarrow> string" where
  "dep_bytes (NDigest g) = to_hex g"
| "dep_bytes (NManifest m) = concat (map (\<lambda>(p, g). p @ ''='' @ to_hex g) m)"

definition builder_new :: "string \<Rightarrow> builder" where
  "builder_new root =
     \<lparr>b_engine = engine_new, exec_root = root, leaf_inputs = [], b_materialize = Symlink,
      b_isolation = NoIsolation, producer = [], action_count = 0\<rparr>"

definition with_materialize :: "materialize \<Rightarrow> builder \<Rightarrow> builder" where
  "with_materialize how b = b\<lparr>b_materialize := how\<rparr>"

definition with_isolation :: "isolation \<Rightarrow> builder \<Rightarrow> builder" where
  "with_isolation how b = b\<lparr>b_isolation := how\<rparr>"

subsection \<open>Running one action\<close>

definition manifest_find :: "manifest \<Rightarrow> string \<Rightarrow> digest option" where
  "manifest_find m p = map_option snd (List.find (\<lambda>(q, g). q = p) m)"

fun input_digests ::
    "(string \<times> dep_value) list \<Rightarrow> (string, digest) bmap \<Rightarrow> string + (string, digest) bmap" where
  "input_digests [] acc = Ok acc"
| "input_digests ((inp, dv) # rest) acc =
     res_bind
       (case dv_value dv of
          NDigest g \<Rightarrow> Ok g
        | NManifest m \<Rightarrow>
            (case manifest_find m inp of
               Some g \<Rightarrow> Ok g
             | None \<Rightarrow> Err (''input `'' @ inp @ ''` not produced by `'' @ dv_key dv @ ''`'')))
       (\<lambda>g. input_digests rest (bm_insert inp g acc))"

definition spawn_action :: "string list \<Rightarrow> string list \<Rightarrow> (string, digest) bmap \<Rightarrow> action" where
  "spawn_action cmd outs digests =
     \<lparr>argv = cmd, inputs = digests, env = [(''PATH'', ''/usr/bin:/bin'')], tools = [],
      platform = ''host'', outputs = outs\<rparr>"

definition sep :: string where
  "sep = [CHR 0x1F]"

text \<open>
  The result, the lines given to the progress sink, and how much \<open>executed\<close> grows; \<open>run_executor\<close> stands for the call of
  \<open>execute_action\<close>.
\<close>

definition run_action ::
    "host \<Rightarrow> sandbox_ref \<Rightarrow> string \<Rightarrow> string list \<Rightarrow> string list \<Rightarrow> string list \<Rightarrow> dep_value list \<Rightarrow>
     (string + node_value) \<times> string list \<times> nat" where
  "run_action h sb desc cmd ins outs dep_values =
     (case input_digests (zip ins dep_values) [] of
        Inl e \<Rightarrow> (Inl e, [], 0)
      | Inr digests \<Rightarrow>
          (let (outcome, console) = run_executor h sb (spawn_action cmd outs digests);
               lines = [''S'' @ sep @ desc, ''F'' @ sep @ desc]
           in case outcome of
                Cached m \<Rightarrow> (Inr (NManifest m), lines, 0)
              | Executed m \<Rightarrow>
                  (Inr (NManifest m),
                   lines @ (if console = [] then [] else [''L'' @ sep @ desc @ sep @ console]), 1)
              | Failed msg \<Rightarrow> (Inl (if console = [] then msg else msg @ [CHR 0x0A] @ console), lines, 0)))"

definition action_compute ::
    "host \<Rightarrow> sandbox_ref \<Rightarrow> string \<Rightarrow> string list \<Rightarrow> string list \<Rightarrow> string list \<Rightarrow> compute_fn" where
  "action_compute h sb desc cmd ins outs dep_values = fst (run_action h sb desc cmd ins outs dep_values)"

definition target_compute :: "host \<Rightarrow> dep_value list \<Rightarrow> node_value" where
  "target_compute h deps =
     NDigest (digest_of (host_hash h) (str_bytes (concat (map (\<lambda>dv. dep_bytes (dv_value dv)) deps))))"

subsection \<open>Wiring the targets\<close>

fun producer_of_action :: "string \<Rightarrow> string list \<Rightarrow> (string, string) bmap \<Rightarrow> (string, string) bmap" where
  "producer_of_action akey [] made = made"
| "producer_of_action akey (out # outs) made = producer_of_action akey outs (bm_insert out akey made)"

fun producers_of_target :: "string \<Rightarrow> nat \<Rightarrow> analyzed_action list \<Rightarrow> (string, string) bmap \<Rightarrow> (string, string) bmap" where
  "producers_of_target name i [] made = made"
| "producers_of_target name i (act # acts) made =
     producers_of_target name (i + 1) acts (producer_of_action (action_key name i) (aa_outputs act) made)"

fun producers :: "analyzed_target list \<Rightarrow> (string, string) bmap \<Rightarrow> (string, string) bmap" where
  "producers [] made = made"
| "producers (t # ts) made = producers ts (producers_of_target (at_name t) 0 (at_actions t) made)"

fun action_deps :: "host \<Rightarrow> (string, string) bmap \<Rightarrow> string list \<Rightarrow> string list \<Rightarrow> builder \<Rightarrow> string list \<times> builder" where
  "action_deps h made [] deps b = (deps, b)"
| "action_deps h made (inp # ins) deps b =
     (case bm_get made inp of
        Some akey \<Rightarrow> action_deps h made ins (deps @ [akey]) b
      | None \<Rightarrow>
          (let fk = file_key inp
           in if fk \<in> set (leaf_inputs b) then action_deps h made ins (deps @ [fk]) b
              else action_deps h made ins (deps @ [fk])
                     (b\<lparr>leaf_inputs := hs_insert fk (leaf_inputs b),
                        b_engine := add_input fk (leaf_value h inp) (b_engine b)\<rparr>)))"

definition sandbox_dir :: "string \<Rightarrow> string \<Rightarrow> string" where
  "sandbox_dir root akey =
     root @ ''/.razel-sandbox/'' @ map (\<lambda>c. if c = CHR '':'' \<or> c = CHR ''#'' then CHR ''_'' else c) akey"

definition progress_label :: "analyzed_action \<Rightarrow> string" where
  "progress_label act =
     mnemonic act @ '' '' @
     (if description act = [] then (case aa_outputs act of [] \<Rightarrow> [] | out # _ \<Rightarrow> rsplit_last out (CHR ''/''))
      else description act)"

fun configure_actions ::
    "host \<Rightarrow> (string, string) bmap \<Rightarrow> string \<Rightarrow> nat \<Rightarrow> analyzed_action list \<Rightarrow> string list \<Rightarrow> builder \<Rightarrow>
     (string + string list) \<times> builder" where
  "configure_actions h made name i [] act_keys b = (Ok act_keys, b)"
| "configure_actions h made name i (act # acts) act_keys b =
     (let akey = action_key name i;
          (deps, b) = action_deps h made (aa_inputs act) [] b;
          dir = sandbox_dir (exec_root b) akey
      in case create_dir_error h dir of
           Some e \<Rightarrow> (Err e, b)
         | None \<Rightarrow>
             (let sb = \<lparr>sr_dir = dir, sr_how = b_materialize b, sr_isolation = b_isolation b\<rparr>;
                  f = action_compute h sb (progress_label act) (aa_argv act) (aa_inputs act) (aa_outputs act)
              in configure_actions h made name (i + 1) acts (act_keys @ [akey])
                   (b\<lparr>b_engine := add_action_node akey deps f (b_engine b)\<rparr>)))"

fun configure_all :: "host \<Rightarrow> (string, string) bmap \<Rightarrow> analyzed_target list \<Rightarrow> builder \<Rightarrow> (string + unit) \<times> builder" where
  "configure_all h made [] b = (Ok (), b)"
| "configure_all h made (t # ts) b =
     (case configure_actions h made (at_name t) 0 (at_actions t) [] b of
        (Inl e, b) \<Rightarrow> (Inl e, b)
      | (Inr act_keys, b) \<Rightarrow>
          configure_all h made ts
            (b\<lparr>b_engine := add_derived (tgt_key (at_name t)) act_keys (target_compute h) (b_engine b)\<rparr>))"

definition configure_targets :: "host \<Rightarrow> analyzed_target list \<Rightarrow> builder \<Rightarrow> (string + unit) \<times> builder" where
  "configure_targets h targets b =
     (let b = b\<lparr>action_count := sum_list (map (\<lambda>t. length (at_actions t)) targets)\<rparr>;
          made = producers targets []
      in case configure_all h made targets b of
           (Inl e, b) \<Rightarrow> (Inl e, b)
         | (Inr _, b) \<Rightarrow> (Inr (), b\<lparr>producer := made\<rparr>))"

subsection \<open>Edits, builds, outputs\<close>

definition sync_file :: "host \<Rightarrow> string \<Rightarrow> builder \<Rightarrow> engine_error + builder" where
  "sync_file h path b =
     (let key = file_key path
      in if key \<in> set (leaf_inputs b) then
           map_sum id (\<lambda>e. b\<lparr>b_engine := e\<rparr>) (set_input key (leaf_value h path) (b_engine b))
         else Inr b)"

definition knows_leaf :: "string \<Rightarrow> builder \<Rightarrow> bool" where
  "knows_leaf path b \<longleftrightarrow> file_key path \<in> set (leaf_inputs b)"

definition output_paths :: "builder \<Rightarrow> string list" where
  "output_paths b = bm_keys (producer b)"

definition engine_set_cancel :: "(nat \<Rightarrow> bool) option \<Rightarrow> builder \<Rightarrow> builder" where
  "engine_set_cancel flag b = b\<lparr>b_engine := set_cancel flag (b_engine b)\<rparr>"

inductive build :: "string \<Rightarrow> nat \<Rightarrow> builder \<Rightarrow> engine_error + nat \<Rightarrow> builder \<Rightarrow> bool" where
  build_run: "request_parallel jobs (tgt_key target) (reset_recomputes (b_engine b)) r e \<Longrightarrow>
     build target jobs b (map_sum id (\<lambda>_. recomputes e) r) (b\<lparr>b_engine := e\<rparr>)"

fun produced_outputs ::
    "host \<Rightarrow> string list \<Rightarrow> (string \<times> digest) list \<Rightarrow> builder \<Rightarrow>
     (engine_error + (string \<times> digest) list) \<times> builder" where
  "produced_outputs h [] out b = (Inr out, b)"
| "produced_outputs h (path # paths) out b =
     (case bm_get (producer b) path of
        Some akey \<Rightarrow>
          (case engine_request akey (b_engine b) of
             (Inl e, eng) \<Rightarrow> (Inl e, b\<lparr>b_engine := eng\<rparr>)
           | (Inr v, eng) \<Rightarrow>
               (case (case v of NDigest g \<Rightarrow> Some g | NManifest m \<Rightarrow> manifest_find m path) of
                  None \<Rightarrow> (Inl (Fail (''output `'' @ path @ ''` absent from `'' @ akey @ ''` manifest'')), b\<lparr>b_engine := eng\<rparr>)
                | Some g \<Rightarrow> produced_outputs h paths (out @ [(path, g)]) (b\<lparr>b_engine := eng\<rparr>)))
      | None \<Rightarrow>
          produced_outputs h paths
            (out @ [(path, case file_digest_at h path of Some d \<Rightarrow> d | None \<Rightarrow> digest_of (host_hash h) [])]) b)"

end
