(* ===== verification/Incremental_Props.thy ===== *)
theory Incremental_Props
  imports Incremental
begin

section \<open>The incremental builder: a warm build is a fresh build\<close>

text \<open>
  \<open>session\<close> is the life of a builder: configured once, then any sequence of edits (each followed by the
  \<open>sync_file\<close> of the edited path), builds with any number of jobs, cancelled or not, and reads of outputs.
  Its invariant says that the engine holds the definitions that a builder configured now would hold;
  the theorems on the engine do the rest.
\<close>

subsection \<open>The engine after configuration\<close>

definition unbuilt :: "engine \<Rightarrow> bool" where
  "unbuilt e \<longleftrightarrow>
     bm_ok (nodes e) \<and> cancel e = None \<and> in_progress e = [] \<and>
     (\<forall>k n. node_at e k = Some n \<longrightarrow> verified_at n \<le> revision e \<and> (n_kind n = Input \<longleftrightarrow> n_value n \<noteq> None))"

lemma unbuilt_inv:
  assumes "unbuilt e"
  shows "engine_inv e"
proof -
  have input: "n_kind n = Input" if "node_at e k = Some n" "n_value n \<noteq> None" for k n
    using assms that by (simp add: unbuilt_def)
  have node: "node_inv e n" if "node_at e k = Some n" for k n
  proof (cases "n_value n")
    case None
    with assms that show ?thesis by (auto simp: unbuilt_def node_inv_def)
  next
    case (Some v)
    with input [OF that] have "n_kind n = Input" by simp
    moreover have "verified_at n \<le> revision e" using assms that by (simp add: unbuilt_def)
    ultimately show ?thesis using Some by (simp add: node_inv_def)
  qed
  have closed: "closed_inv e" using input by (fastforce simp: closed_inv_def fresh_at_def)
  have "evals (defs e) k (the (value_at e k))" if "validated e k" for k
  proof -
    from that obtain n where n: "node_at e k = Some n" "n_value n \<noteq> None"
      by (auto simp: validated_def fresh_at_def)
    with input have "defs e k = Some (DInput (the (value_at e k)))"
      by (auto simp: defs_def value_at_def)
    then show ?thesis by (rule evals.ev_input)
  qed
  with assms node closed show ?thesis by (auto simp: engine_inv_def unbuilt_def)
qed

lemma unbuilt_new: "unbuilt engine_new"
  by (simp add: unbuilt_def engine_new_def)

lemma unbuilt_add_input: "unbuilt e \<Longrightarrow> unbuilt (add_input k v e)"
  by (auto simp: unbuilt_def add_input_def split: if_splits)

lemma unbuilt_derived: "unbuilt e \<Longrightarrow> unbuilt (insert_derived k ds f e)"
  by (auto simp: unbuilt_def insert_derived_def split: if_splits)

lemma defs_add_input: "defs (add_input k v e) = (defs e)(k \<mapsto> DInput v)"
  by (rule ext) (simp add: defs_def add_input_def)

lemma defs_insert_derived: "defs (insert_derived k ds f e) = (defs e)(k \<mapsto> DDerived ds f)"
  by (rule ext) (simp add: defs_def insert_derived_def)

lemma length_nodes_defs:
  assumes "engine_inv e" "engine_inv e'" "defs e' = defs e"
  shows "length (nodes e') = length (nodes e)"
proof -
  have len: "length (nodes e) = card (dom (defs e))" if "engine_inv e" for e
  proof -
    have "distinct (map fst (nodes e))" using that by (auto simp: engine_inv_def intro: bm_ok_distinct)
    then show ?thesis unfolding dom_defs keys_of_eq by (metis distinct_card length_map list.set_map)
  qed
  show ?thesis using len [OF assms(1)] len [OF assms(2)] assms(3) by simp
qed

subsection \<open>The same configuration on another disk\<close>

definition on_disk :: "host \<Rightarrow> (string \<Rightarrow> digest option) \<Rightarrow> host" where
  "on_disk h d = h\<lparr>file_digest_at := d\<rparr>"

lemma on_disk_simps [simp]:
  "file_digest_at (on_disk h d) = d" "run_executor (on_disk h d) = run_executor h"
  "create_dir_error (on_disk h d) = create_dir_error h" "host_hash (on_disk h d) = host_hash h"
  by (simp_all add: on_disk_def)

lemma compute_on_disk [simp]:
  "action_compute (on_disk h d) = action_compute h" "target_compute (on_disk h d) = target_compute h"
  by (auto simp: action_compute_def run_action_def target_compute_def fun_eq_iff split: sum.split)

definition redisk :: "host \<Rightarrow> (string \<Rightarrow> ndef option) \<Rightarrow> string \<Rightarrow> ndef option" where
  "redisk h D k = (case D k of Some (DInput _) \<Rightarrow> Some (DInput (leaf_value h (drop 5 k))) | x \<Rightarrow> x)"

lemma drop_file_key [simp]: "drop 5 (file_key p) = p"
  by (simp add: file_key_def)

lemma file_key_eq [simp]: "file_key p = file_key q \<longleftrightarrow> p = q"
  by (simp add: file_key_def)

lemma file_key_other: "file_key p \<noteq> action_key t i" "file_key p \<noteq> tgt_key t"
  by (simp_all add: file_key_def action_key_def tgt_key_def)

definition same_setup :: "host \<Rightarrow> builder \<Rightarrow> builder \<Rightarrow> bool" where
  "same_setup h b c \<longleftrightarrow>
     leaf_inputs c = leaf_inputs b \<and> exec_root c = exec_root b \<and> b_materialize c = b_materialize b \<and>
     b_isolation c = b_isolation b \<and> producer c = producer b \<and> defs (b_engine c) = redisk h (defs (b_engine b))"

lemma redisk_input: "redisk h (D(file_key p \<mapsto> DInput v)) = (redisk h D)(file_key p \<mapsto> DInput (leaf_value h p))"
  by (rule ext) (simp add: redisk_def)

lemma redisk_derived: "redisk h (D(k \<mapsto> DDerived ds f)) = (redisk h D)(k \<mapsto> DDerived ds f)"
  by (rule ext) (simp add: redisk_def)

lemma action_deps_same:
  "same_setup (on_disk h d') b c \<Longrightarrow> action_deps (on_disk h d) made ins deps b = (ds, b') \<Longrightarrow>
   \<exists>c'. action_deps (on_disk h d') made ins deps c = (ds, c') \<and> same_setup (on_disk h d') b' c'"
proof (induction ins arbitrary: deps b c)
  case Nil
  then show ?case by simp
next
  case (Cons inp ins)
  show ?case
  proof (cases "bm_get made inp")
    case (Some akey)
    with Cons show ?thesis by simp
  next
    case None
    have leaf: "leaf_inputs c = leaf_inputs b" using Cons.prems(1) by (simp add: same_setup_def)
    show ?thesis
    proof (cases "file_key inp \<in> set (leaf_inputs b)")
      case True
      with Cons None leaf show ?thesis by (simp add: Let_def)
    next
      case False
      let ?b = "b\<lparr>leaf_inputs := hs_insert (file_key inp) (leaf_inputs b),
        b_engine := add_input (file_key inp) (leaf_value (on_disk h d) inp) (b_engine b)\<rparr>"
      let ?c = "c\<lparr>leaf_inputs := hs_insert (file_key inp) (leaf_inputs c),
        b_engine := add_input (file_key inp) (leaf_value (on_disk h d') inp) (b_engine c)\<rparr>"
      have "same_setup (on_disk h d') ?b ?c"
        using Cons.prems(1) by (simp add: same_setup_def defs_add_input redisk_input)
      from Cons.IH [OF this] Cons.prems(2) None False leaf show ?thesis by (simp add: Let_def)
    qed
  qed
qed

lemma configure_actions_same:
  "same_setup (on_disk h d') b c \<Longrightarrow> configure_actions (on_disk h d) made name i acts aks b = (r, b') \<Longrightarrow>
   \<exists>c'. configure_actions (on_disk h d') made name i acts aks c = (r, c') \<and> same_setup (on_disk h d') b' c'"
proof (induction acts arbitrary: i aks b c)
  case Nil
  then show ?case by simp
next
  case (Cons act acts)
  obtain ds b1 where b1: "action_deps (on_disk h d) made (aa_inputs act) [] b = (ds, b1)" by force
  obtain c1 where c1: "action_deps (on_disk h d') made (aa_inputs act) [] c = (ds, c1)"
    "same_setup (on_disk h d') b1 c1" using action_deps_same [OF Cons.prems(1) b1] by blast
  have fields: "exec_root c1 = exec_root b1" "b_materialize c1 = b_materialize b1" "b_isolation c1 = b_isolation b1"
    using c1(2) by (simp_all add: same_setup_def)
  show ?case
  proof (cases "create_dir_error h (sandbox_dir (exec_root b1) (action_key name i))")
    case (Some e)
    with Cons.prems(2) b1 c1 fields show ?thesis by (auto simp: Let_def)
  next
    case None
    let ?f = "action_compute h
      \<lparr>sr_dir = sandbox_dir (exec_root b1) (action_key name i), sr_how = b_materialize b1, sr_isolation = b_isolation b1\<rparr>
      (progress_label act) (aa_argv act) (aa_inputs act) (aa_outputs act)"
    let ?b = "b1\<lparr>b_engine := add_action_node (action_key name i) ds ?f (b_engine b1)\<rparr>"
    let ?c = "c1\<lparr>b_engine := add_action_node (action_key name i) ds ?f (b_engine c1)\<rparr>"
    have "same_setup (on_disk h d') ?b ?c"
      using c1(2) by (simp add: same_setup_def add_action_node_def defs_insert_derived redisk_derived)
    from Cons.IH [OF this] Cons.prems(2) None b1 c1(1) fields show ?thesis by (simp add: Let_def)
  qed
qed

lemma configure_all_same:
  "same_setup (on_disk h d') b c \<Longrightarrow> configure_all (on_disk h d) made ts b = (r, b') \<Longrightarrow>
   \<exists>c'. configure_all (on_disk h d') made ts c = (r, c') \<and> same_setup (on_disk h d') b' c'"
proof (induction ts arbitrary: b c)
  case Nil
  then show ?case by simp
next
  case (Cons t ts)
  obtain r1 b1 where b1: "configure_actions (on_disk h d) made (at_name t) 0 (at_actions t) [] b = (r1, b1)" by force
  obtain c1 where c1: "configure_actions (on_disk h d') made (at_name t) 0 (at_actions t) [] c = (r1, c1)"
    "same_setup (on_disk h d') b1 c1" using configure_actions_same [OF Cons.prems(1) b1] by blast
  show ?case
  proof (cases r1)
    case (Inl e)
    with Cons.prems(2) b1 c1 show ?thesis by auto
  next
    case (Inr aks)
    let ?b = "b1\<lparr>b_engine := add_derived (tgt_key (at_name t)) aks (target_compute h) (b_engine b1)\<rparr>"
    let ?c = "c1\<lparr>b_engine := add_derived (tgt_key (at_name t)) aks (target_compute h) (b_engine c1)\<rparr>"
    have "same_setup (on_disk h d') ?b ?c"
      using c1(2) by (simp add: same_setup_def add_derived_def defs_insert_derived redisk_derived)
    from Cons.IH [OF this] Cons.prems(2) Inr b1 c1(1) show ?thesis by simp
  qed
qed

definition fresh_builder :: "string \<Rightarrow> materialize \<Rightarrow> isolation \<Rightarrow> builder" where
  "fresh_builder root how confine = with_isolation confine (with_materialize how (builder_new root))"

lemma fresh_builder_simps [simp]:
  "b_engine (fresh_builder root how confine) = engine_new" "leaf_inputs (fresh_builder root how confine) = []"
  by (simp_all add: fresh_builder_def with_isolation_def with_materialize_def builder_new_def)

lemma configure_same:
  assumes "configure_targets (on_disk h d) targets (fresh_builder root how confine) = (Inr (), b)"
  shows "\<exists>c. configure_targets (on_disk h d') targets (fresh_builder root how confine) = (Inr (), c) \<and>
    same_setup (on_disk h d') b c"
proof -
  let ?b = "(fresh_builder root how confine)\<lparr>action_count := sum_list (map (\<lambda>t. length (at_actions t)) targets)\<rparr>"
  have new: "defs engine_new = Map.empty" by (rule ext) (simp add: defs_def engine_new_def)
  have "same_setup (on_disk h d') ?b ?b" by (simp add: same_setup_def new redisk_def fun_eq_iff)
  moreover obtain b0 where b0: "configure_all (on_disk h d) (producers targets []) targets ?b = (Inr (), b0)"
    and b: "b = b0\<lparr>producer := producers targets []\<rparr>"
    using assms by (auto simp: configure_targets_def Let_def split: prod.splits sum.splits)
  ultimately obtain c0 where "configure_all (on_disk h d') (producers targets []) targets ?b = (Inr (), c0)"
    "same_setup (on_disk h d') b0 c0" using configure_all_same by blast
  with b show ?thesis by (simp add: configure_targets_def Let_def same_setup_def)
qed

subsection \<open>The inputs of a configured engine\<close>

definition configured :: "host \<Rightarrow> builder \<Rightarrow> bool" where
  "configured h b \<longleftrightarrow>
     unbuilt (b_engine b) \<and>
     (\<forall>k v. defs (b_engine b) k = Some (DInput v) \<longrightarrow>
        k \<in> set (leaf_inputs b) \<and> (\<exists>p. k = file_key p \<and> v = leaf_value h p)) \<and>
     (\<forall>k \<in> set (leaf_inputs b). \<exists>p v. k = file_key p \<and> defs (b_engine b) k = Some (DInput v))"

lemma configured_input:
  assumes "configured h b"
  shows "configured h (b\<lparr>leaf_inputs := hs_insert (file_key p) (leaf_inputs b),
    b_engine := add_input (file_key p) (leaf_value h p) (b_engine b)\<rparr>)"
  using assms unfolding configured_def by (auto simp: unbuilt_add_input defs_add_input)

lemma configured_derived:
  assumes "configured h b" "\<And>p. k \<noteq> file_key p"
  shows "configured h (b\<lparr>b_engine := insert_derived k ds f (b_engine b)\<rparr>)"
  using assms unfolding configured_def by (auto simp: unbuilt_derived defs_insert_derived) metis+

lemma configured_deps: "configured h b \<Longrightarrow> action_deps h made ins deps b = (ds, b') \<Longrightarrow> configured h b'"
  by (induction h made ins deps b rule: action_deps.induct)
    (auto simp: Let_def intro: configured_input split: option.splits if_splits)

lemma configured_actions:
  "configured h b \<Longrightarrow> configure_actions h made name i acts aks b = (r, b') \<Longrightarrow> configured h b'"
proof (induction acts arbitrary: i aks b)
  case (Cons act acts)
  obtain ds b1 where b1: "action_deps h made (aa_inputs act) [] b = (ds, b1)" by force
  note ok = configured_deps [OF Cons.prems(1) b1]
  have "configured h (b1\<lparr>b_engine := add_action_node (action_key name i) ds f (b_engine b1)\<rparr>)" for f
    unfolding add_action_node_def using ok by (rule configured_derived) (metis file_key_other(1))
  with Cons.IH Cons.prems(2) b1 ok show ?case by (auto simp: Let_def split: option.splits)
qed simp

lemma configured_all: "configured h b \<Longrightarrow> configure_all h made ts b = (r, b') \<Longrightarrow> configured h b'"
proof (induction ts arbitrary: b)
  case (Cons t ts)
  obtain r1 b1 where b1: "configure_actions h made (at_name t) 0 (at_actions t) [] b = (r1, b1)" by force
  note ok = configured_actions [OF Cons.prems(1) b1]
  have "configured h (b1\<lparr>b_engine := add_derived (tgt_key (at_name t)) aks g (b_engine b1)\<rparr>)" for aks g
    unfolding add_derived_def using ok by (rule configured_derived) (metis file_key_other(2))
  with Cons.IH Cons.prems(2) b1 ok show ?case by (auto split: sum.splits)
qed simp

lemma configure_configured:
  "configure_targets h targets (fresh_builder root how confine) = (Inr (), b) \<Longrightarrow> configured h b"
proof -
  assume conf: "configure_targets h targets (fresh_builder root how confine) = (Inr (), b)"
  let ?b = "(fresh_builder root how confine)\<lparr>action_count := sum_list (map (\<lambda>t. length (at_actions t)) targets)\<rparr>"
  obtain b0 where b0: "configure_all h (producers targets []) targets ?b = (Inr (), b0)"
    and b: "b = b0\<lparr>producer := producers targets []\<rparr>"
    using conf by (auto simp: configure_targets_def Let_def split: prod.splits sum.splits)
  have "defs engine_new k = None" for k by (simp add: defs_def engine_new_def)
  then have "configured h ?b" by (simp add: configured_def unbuilt_new)
  from configured_all [OF this b0] b show ?thesis by (simp add: configured_def)
qed

subsection \<open>Sessions\<close>

inductive session :: "host \<Rightarrow> analyzed_target list \<Rightarrow> builder \<Rightarrow> (string \<Rightarrow> digest option) \<Rightarrow> builder \<Rightarrow> bool"
  for h targets start where
  se_configure: "configure_targets (on_disk h d) targets start = (Inr (), b) \<Longrightarrow> session h targets start d b"
| se_edit: "session h targets start d b \<Longrightarrow> (\<And>q. q \<noteq> p \<Longrightarrow> d' q = d q) \<Longrightarrow>
    sync_file (on_disk h d') p b = Inr b' \<Longrightarrow> session h targets start d' b'"
| se_build: "session h targets start d b \<Longrightarrow> build target jobs b r b' \<Longrightarrow> session h targets start d b'"
| se_read: "session h targets start d b \<Longrightarrow> produced_outputs (on_disk h d) paths out b = (r, b') \<Longrightarrow>
    session h targets start d b'"
| se_cancel: "session h targets start d b \<Longrightarrow> session h targets start d (engine_set_cancel flag b)"

definition like_fresh :: "builder \<Rightarrow> builder \<Rightarrow> bool" where
  "like_fresh b c \<longleftrightarrow>
     engine_inv (b_engine b) \<and> in_progress (b_engine b) = [] \<and> engine_inv (b_engine c) \<and> in_progress (b_engine c) = [] \<and>
     defs (b_engine b) = defs (b_engine c) \<and> leaf_inputs b = leaf_inputs c \<and> producer b = producer c"

lemma like_fresh_step:
  assumes "like_fresh b c" "engine_inv e" "frame {} (b_engine b) e"
  shows "like_fresh (b\<lparr>b_engine := e\<rparr>) c"
  using assms frame_defs [OF assms(3)] frame_in_progress [OF assms(3)] by (simp add: like_fresh_def)

lemma request_frame:
  assumes "engine_inv e" "in_progress e = []" "engine_request k e = (r, e')"
  shows "engine_inv e' \<and> frame {} e e'"
  using engine_request_post [OF assms(1,3)] assms(2) by (simp add: request_post_def)

lemma like_fresh_read:
  "like_fresh b c \<Longrightarrow> produced_outputs h paths out b = (r, b') \<Longrightarrow> like_fresh b' c"
proof (induction h paths out b rule: produced_outputs.induct)
  case (1 h out b)
  then show ?case by simp
next
  case (2 h path paths out b)
  show ?case
  proof (cases "bm_get (producer b) path")
    case None
    with 2 show ?thesis by simp
  next
    case (Some akey)
    obtain r1 e where e: "engine_request akey (b_engine b) = (r1, e)" by force
    have "engine_inv e \<and> frame {} (b_engine b) e"
      using "2.prems"(1) e by (intro request_frame) (simp_all add: like_fresh_def)
    with "2.prems"(1) have step: "like_fresh (b\<lparr>b_engine := e\<rparr>) c" by (blast intro: like_fresh_step)
    with "2.IH" "2.prems"(2) Some e show ?thesis
      by (auto split: sum.splits option.splits node_value.splits)
  qed
qed

lemma leaf_value_other: "d' q = d q \<Longrightarrow> leaf_value (on_disk h d') q = leaf_value (on_disk h d) q"
  by (simp add: leaf_value_def split: option.split)

lemma defs_DInput: "defs e k = Some (DInput w) \<Longrightarrow> \<exists>n. node_at e k = Some n \<and> n_kind n = Input"
proof -
  assume "defs e k = Some (DInput w)"
  then obtain n where n: "node_at e k = Some n" "def_of n = DInput w" by (auto simp: defs_def)
  then show ?thesis by (cases "n_kind n") auto
qed

lemma redisk_edit:
  assumes "configured (on_disk h d) c" "\<And>q. q \<noteq> p \<Longrightarrow> d' q = d q"
  shows "redisk (on_disk h d') (defs (b_engine c)) =
    (if file_key p \<in> set (leaf_inputs c) then (defs (b_engine c))(file_key p \<mapsto> DInput (leaf_value (on_disk h d') p))
     else defs (b_engine c))"
proof
  fix k
  let ?D = "defs (b_engine c)"
  have leaf: "\<exists>v. ?D k = Some (DInput v)" if "k \<in> set (leaf_inputs c)"
    using assms(1) that unfolding configured_def by blast
  have input: "k \<in> set (leaf_inputs c) \<and> (\<exists>q. k = file_key q \<and> v = leaf_value (on_disk h d) q)" if "?D k = Some (DInput v)" for v
    using assms(1) that unfolding configured_def by blast
  show "redisk (on_disk h d') ?D k = (if file_key p \<in> set (leaf_inputs c)
     then ?D(file_key p \<mapsto> DInput (leaf_value (on_disk h d') p)) else ?D) k"
  proof (cases "\<exists>v. ?D k = Some (DInput v)")
    case True
    then obtain v q where q: "?D k = Some (DInput v)" "k = file_key q" "v = leaf_value (on_disk h d) q" "k \<in> set (leaf_inputs c)"
      using input by blast
    then have "redisk (on_disk h d') ?D k = Some (DInput (leaf_value (on_disk h d') q))" by (simp add: redisk_def)
    moreover have "leaf_value (on_disk h d') q = v" if "q \<noteq> p" using leaf_value_other [where d' = d' and d = d and q = q and h = h] assms(2) [OF that] q(3) by simp
    ultimately show ?thesis using q by auto
  next
    case False
    then have "redisk (on_disk h d') ?D k = ?D k" by (auto simp: redisk_def split: option.split ndef.split)
    with False leaf show ?thesis by auto
  qed
qed

lemma set_input_defs:
  assumes "defs e k = Some (DInput w)" "set_input k v e = Inr e'"
  shows "defs e' = (defs e)(k \<mapsto> DInput v)" "in_progress e' = in_progress e" "cancel e' = cancel e"
proof -
  obtain n where n: "node_at e k = Some n" "n_kind n = Input"
    using defs_DInput [OF assms(1)] by blast
  with assms(2) show "in_progress e' = in_progress e" "cancel e' = cancel e" by (auto simp: set_input_Inr)
  show "defs e' = (defs e)(k \<mapsto> DInput v)"
    using assms(2) n by (intro ext) (auto simp: set_input_Inr defs_def)
qed

lemma set_input_exists: "defs e k = Some D \<Longrightarrow> \<exists>e'. set_input k v e = Inr e'"
  by (auto simp: defs_def set_input_def Let_def)

lemma like_fresh_edit:
  assumes "like_fresh b c" "configured (on_disk h d) c" "\<And>q. q \<noteq> p \<Longrightarrow> d' q = d q"
    and "sync_file (on_disk h d') p b = Inr b'" "same_setup (on_disk h d') c c'" "configured (on_disk h d') c'"
  shows "like_fresh b' c'"
proof -
  have c': "engine_inv (b_engine c')" "in_progress (b_engine c') = []"
    using assms(6) by (auto simp: configured_def unbuilt_def intro: unbuilt_inv [unfolded unbuilt_def])
  have D: "defs (b_engine c') = redisk (on_disk h d') (defs (b_engine b))"
    "leaf_inputs c' = leaf_inputs b" "producer c' = producer b"
    using assms(1,5) by (simp_all add: same_setup_def like_fresh_def)
  have edit: "redisk (on_disk h d') (defs (b_engine b)) =
    (if file_key p \<in> set (leaf_inputs b) then (defs (b_engine b))(file_key p \<mapsto> DInput (leaf_value (on_disk h d') p))
     else defs (b_engine b))"
    using redisk_edit [OF assms(2,3)] assms(1) by (simp add: like_fresh_def)
  show ?thesis
  proof (cases "file_key p \<in> set (leaf_inputs b)")
    case False
    with assms(4) have "b' = b" by (simp add: sync_file_def Let_def)
    with assms(1) c' D edit False show ?thesis by (simp add: like_fresh_def)
  next
    case True
    then obtain e where e: "set_input (file_key p) (leaf_value (on_disk h d') p) (b_engine b) = Inr e"
      "b' = b\<lparr>b_engine := e\<rparr>"
      using assms(4) by (auto simp: sync_file_def Let_def map_sum_def split: sum.splits)
    obtain w where w: "defs (b_engine b) (file_key p) = Some (DInput w)"
      using assms(1,2) True unfolding configured_def like_fresh_def by metis
    then obtain n where "node_at (b_engine b) (file_key p) = Some n" "n_kind n = Input"
      using defs_DInput by blast
    then have "engine_inv e" using assms(1) e(1) set_input_inv by (auto simp: like_fresh_def)
    with set_input_defs [OF w e(1)] assms(1) c' D edit True e(2) show ?thesis by (simp add: like_fresh_def)
  qed
qed

lemma session_inv:
  assumes "session h targets (fresh_builder root how confine) d b"
  shows "\<exists>c. configure_targets (on_disk h d) targets (fresh_builder root how confine) = (Inr (), c) \<and>
    configured (on_disk h d) c \<and> like_fresh b c"
  using assms
proof (induction rule: session.induct)
  case (se_configure d b)
  then have conf: "configured (on_disk h d) b" by (rule configure_configured)
  then have "engine_inv (b_engine b)" "in_progress (b_engine b) = []"
    by (auto simp: configured_def unbuilt_def intro: unbuilt_inv [unfolded unbuilt_def])
  with se_configure conf show ?case by (auto simp: like_fresh_def)
next
  case (se_edit d b p d' b')
  then obtain c where c: "configure_targets (on_disk h d) targets (fresh_builder root how confine) = (Inr (), c)"
    "configured (on_disk h d) c" "like_fresh b c" by blast
  obtain c' where c': "configure_targets (on_disk h d') targets (fresh_builder root how confine) = (Inr (), c')"
    "same_setup (on_disk h d') c c'" using configure_same [OF c(1)] by blast
  note conf' = configure_configured [OF c'(1)]
  from like_fresh_edit [OF c(3,2) se_edit(2,3) c'(2) conf'] c'(1) conf' show ?case by blast
next
  case (se_build d b target jobs r b')
  then obtain c where c: "configure_targets (on_disk h d) targets (fresh_builder root how confine) = (Inr (), c)"
    "configured (on_disk h d) c" "like_fresh b c" by blast
  from se_build(2) obtain q e where e: "request_parallel jobs (tgt_key target) (reset_recomputes (b_engine b)) q e"
    "b' = b\<lparr>b_engine := e\<rparr>" by cases auto
  have reset: "like_fresh (b\<lparr>b_engine := reset_recomputes (b_engine b)\<rparr>) c"
    using c(3) by (simp add: like_fresh_def reset_recomputes_def defs_def)
  then have "engine_inv e \<and> frame {} (reset_recomputes (b_engine b)) e"
    using parallel_result_inv [OF _ _ e(1)] by (simp add: like_fresh_def)
  with like_fresh_step [OF reset] e(2) have "like_fresh b' c" by simp
  with c show ?case by blast
next
  case (se_read d b paths out r b')
  then show ?case by (blast intro: like_fresh_read)
next
  case (se_cancel d b flag)
  then show ?case by (auto simp: like_fresh_def engine_set_cancel_def set_cancel_def defs_def)
qed

subsection \<open>The theorems\<close>

lemma like_fresh_outputs:
  assumes "like_fresh b c" "cancel (b_engine b) = None" "cancel (b_engine c) = None"
  shows "fst (produced_outputs h paths out b) = fst (produced_outputs h paths out c)"
  using assms
proof (induction paths arbitrary: out b c)
  case Nil
  then show ?case by simp
next
  case (Cons path paths)
  have prod: "producer b = producer c" using Cons.prems(1) by (simp add: like_fresh_def)
  show ?case
  proof (cases "bm_get (producer c) path")
    case None
    with Cons prod show ?thesis by simp
  next
    case (Some akey)
    obtain r e where e: "engine_request akey (b_engine b) = (r, e)" by force
    obtain r' e' where e': "engine_request akey (b_engine c) = (r', e')" by force
    have inv: "engine_inv (b_engine b)" "in_progress (b_engine b) = []" "engine_inv (b_engine c)" "in_progress (b_engine c) = []"
      "defs (b_engine b) = defs (b_engine c)" using Cons.prems(1) by (simp_all add: like_fresh_def)
    have "r = spec_outcome (b_engine b) akey" "r' = spec_outcome (b_engine c) akey"
      using engine_request_spec [OF inv(1) Cons.prems(2) inv(2), of akey] engine_request_spec [OF inv(3) Cons.prems(3) inv(4), of akey]
        e e' by simp_all
    then have r: "r = r'" using spec_outcome_cong inv(5) length_nodes_defs [OF inv(3,1,5)] by metis
    have frame: "engine_inv e \<and> frame {} (b_engine b) e" "engine_inv e' \<and> frame {} (b_engine c) e'"
      using request_frame inv(1-4) e e' by blast+
    then have "like_fresh (b\<lparr>b_engine := e\<rparr>) (c\<lparr>b_engine := e'\<rparr>)"
      using Cons.prems(1) frame_defs [of "{}" "b_engine b" e] frame_defs [of "{}" "b_engine c" e']
        frame_in_progress [of "{}" "b_engine b" e] frame_in_progress [of "{}" "b_engine c" e']
      by (simp add: like_fresh_def)
    moreover have "cancel e = None" "cancel e' = None" using frame Cons.prems(2,3) by (simp_all add: frame_def)
    ultimately have "fst (produced_outputs h paths o' (b\<lparr>b_engine := e\<rparr>)) = fst (produced_outputs h paths o' (c\<lparr>b_engine := e'\<rparr>))" for o'
      using Cons.IH by simp
    with Some prod e e' r show ?thesis by (cases r') (auto split: option.split)
  qed
qed

text \<open>C3: After any session of edits, builds and cancellations the outputs read from the warm builder, errors
  included, are those of a builder configured afresh on the present files.\<close>

theorem warm_outputs_are_fresh:
  assumes "session h targets (fresh_builder root how confine) d b" "cancel (b_engine b) = None"
    and "configure_targets (on_disk h d) targets (fresh_builder root how confine) = (Inr (), c)"
  shows "fst (produced_outputs (on_disk h d) paths [] b) = fst (produced_outputs (on_disk h d) paths [] c)"
proof -
  from session_inv [OF assms(1)] assms(3) have "like_fresh b c" "configured (on_disk h d) c" by auto
  then show ?thesis using assms(2) by (intro like_fresh_outputs) (simp_all add: configured_def unbuilt_def)
qed

lemma like_fresh_evals:
  assumes "engine_inv (b_engine b)" "in_progress (b_engine b) = []" "cancel (b_engine b) = None" "build target jobs b r b'"
  shows "((\<exists>n. r = Inr n) \<longleftrightarrow> (\<exists>v. evals (defs (b_engine b)) (tgt_key target) v)) \<and> (\<forall>m. r \<noteq> Inl (Panic m))"
proof -
  from assms(4) obtain q e where q: "request_parallel jobs (tgt_key target) (reset_recomputes (b_engine b)) q e"
    "r = map_sum id (\<lambda>_. recomputes e) q" by cases auto
  have reset: "engine_inv (reset_recomputes (b_engine b))" "in_progress (reset_recomputes (b_engine b)) = []"
    "cancel (reset_recomputes (b_engine b)) = None" "defs (reset_recomputes (b_engine b)) = defs (b_engine b)"
    using assms(1-3) by (simp_all add: reset_recomputes_def defs_def fun_eq_iff)
  from parallel_result_inv [OF reset(1,2) q(1)] reset(3,4) q(2) show ?thesis
    by (cases q) (auto simp: rejects_def)
qed

text \<open>A warm build of a target succeeds exactly when a fresh builder on the present files builds it, with any
  number of jobs on either side, and it never panics.\<close>

theorem warm_build_as_fresh:
  assumes "session h targets (fresh_builder root how confine) d b" "cancel (b_engine b) = None"
    and "configure_targets (on_disk h d) targets (fresh_builder root how confine) = (Inr (), c)"
    and "build target jobs b r b'" "build target jobs' c s c'"
  shows "((\<exists>n. r = Inr n) \<longleftrightarrow> (\<exists>n. s = Inr n)) \<and> r \<noteq> Inl (Panic m)"
proof -
  from session_inv [OF assms(1)] assms(3) have lf: "like_fresh b c" and conf: "configured (on_disk h d) c" by auto
  have "cancel (b_engine c) = None" using conf by (simp add: configured_def unbuilt_def)
  with lf assms(2) show ?thesis
    using like_fresh_evals [of b target jobs r b'] like_fresh_evals [of c target jobs' s c'] assms(4,5)
    by (simp add: like_fresh_def)
qed

text \<open>Whatever path is reported as edited, \<open>sync_file\<close> does not meet the panic of \<open>set_input\<close> on an unknown key.\<close>

theorem sync_file_never_panics:
  assumes "session h targets (fresh_builder root how confine) d b"
  shows "\<exists>b'. sync_file h' p b = Inr b'"
proof (cases "file_key p \<in> set (leaf_inputs b)")
  case True
  from session_inv [OF assms] obtain c where "like_fresh b c" "configured (on_disk h d) c" by blast
  with True obtain v where "defs (b_engine b) (file_key p) = Some (DInput v)"
    unfolding configured_def like_fresh_def by metis
  from set_input_exists [OF this] obtain e where "set_input (file_key p) (leaf_value h' p) (b_engine b) = Inr e" by blast
  with True show ?thesis by (simp add: sync_file_def Let_def)
qed (simp add: sync_file_def Let_def)

subsection \<open>A small workspace, for the witnesses\<close>

definition demo_host :: host where
  "demo_host =
     \<lparr>file_digest_at = (\<lambda>p. None),
      run_executor = (\<lambda>sb act. (Executed [(''o'', digest_of id (str_bytes (concat (map (\<lambda>(k, d). to_hex d) (inputs act)))))], [])),
      create_dir_error = (\<lambda>dir. None), host_hash = id\<rparr>"

definition demo_targets :: "analyzed_target list" where
  "demo_targets =
     [\<lparr>at_name = ''t'', at_deps = [],
       at_actions = [\<lparr>mnemonic = ''Cc'', aa_argv = [''cc''], aa_inputs = [''a''], aa_outputs = [''o''], description = []\<rparr>],
       default_info = [''o''], at_providers = []\<rparr>]"

lemma configure_total:
  assumes "\<And>dir. create_dir_error h dir = None"
  shows "\<exists>c. configure_targets h targets b = (Inr (), c)"
proof -
  have acts: "\<exists>r c. configure_actions h made name i acts aks b = (Inr r, c)" for made name i acts aks b
    by (induction acts arbitrary: i aks b) (auto simp: Let_def assms split: prod.split)
  have "\<exists>c. configure_all h made ts b = (Inr (), c)" for made ts b
  proof (induction ts arbitrary: b)
    case (Cons t ts)
    from acts [of made "at_name t" 0 "at_actions t" "[]" b] Cons.IH show ?case by auto
  qed simp
  from this [of "producers targets []" targets
      "b\<lparr>action_count := sum_list (map (\<lambda>t. length (at_actions t)) targets)\<rparr>"] show ?thesis
    by (auto simp: configure_targets_def Let_def)
qed

lemma demo_configure:
  "\<exists>c. configure_targets (on_disk demo_host d) demo_targets (fresh_builder ''/w'' Symlink NoIsolation) = (Inr (), c) \<and>
     cancel (b_engine c) = None"
proof -
  obtain c where c: "configure_targets (on_disk demo_host d) demo_targets (fresh_builder ''/w'' Symlink NoIsolation) = (Inr (), c)"
    using configure_total [of "on_disk demo_host d"] by (auto simp: demo_host_def)
  with configure_configured [OF c] show ?thesis by (simp add: configured_def unbuilt_def)
qed

lemma sync_file_cancel: "sync_file h p b = Inr b' \<Longrightarrow> cancel (b_engine b') = cancel (b_engine b)"
  by (auto simp: sync_file_def Let_def map_sum_def set_input_Inr split: if_splits sum.splits)

text \<open>The builder configured on the empty disk, with the file \<open>a\<close> written and synced afterwards.\<close>

lemma demo_session:
  obtains b where "session demo_host demo_targets (fresh_builder ''/w'' Symlink NoIsolation) [''a'' \<mapsto> Digest [1]] b"
    "cancel (b_engine b) = None"
proof -
  let ?start = "fresh_builder ''/w'' Symlink NoIsolation"
  obtain b0 where b0: "configure_targets (on_disk demo_host (\<lambda>_. None)) demo_targets ?start = (Inr (), b0)"
    "cancel (b_engine b0) = None" using demo_configure by blast
  have s0: "session demo_host demo_targets ?start (\<lambda>_. None) b0" by (rule se_configure [OF b0(1)])
  obtain b where b: "sync_file (on_disk demo_host [''a'' \<mapsto> Digest [1]]) ''a'' b0 = Inr b"
    using sync_file_never_panics [OF s0] by blast
  have "session demo_host demo_targets ?start [''a'' \<mapsto> Digest [1]] b"
    by (rule se_edit [OF s0 _ b]) simp
  with sync_file_cancel [OF b] b0(2) that show thesis by simp
qed

theorem warm_outputs_are_fresh_witness:
  "\<exists>b c. configure_targets (on_disk demo_host [''a'' \<mapsto> Digest [1]]) demo_targets (fresh_builder ''/w'' Symlink NoIsolation) = (Inr (), c) \<and>
     session demo_host demo_targets (fresh_builder ''/w'' Symlink NoIsolation) [''a'' \<mapsto> Digest [1]] b \<and>
     fst (produced_outputs (on_disk demo_host [''a'' \<mapsto> Digest [1]]) [''o''] [] b) =
     fst (produced_outputs (on_disk demo_host [''a'' \<mapsto> Digest [1]]) [''o''] [] c)"
proof -
  obtain b where b: "session demo_host demo_targets (fresh_builder ''/w'' Symlink NoIsolation) [''a'' \<mapsto> Digest [1]] b"
    "cancel (b_engine b) = None" by (rule demo_session)
  obtain c where c: "configure_targets (on_disk demo_host [''a'' \<mapsto> Digest [1]]) demo_targets (fresh_builder ''/w'' Symlink NoIsolation) = (Inr (), c)"
    using demo_configure by blast
  from warm_outputs_are_fresh [OF b c] b c show ?thesis by blast
qed

theorem sync_file_never_panics_witness:
  "\<exists>b b'. session demo_host demo_targets (fresh_builder ''/w'' Symlink NoIsolation) [''a'' \<mapsto> Digest [1]] b \<and>
     sync_file demo_host ''new'' b = Inr b'"
proof -
  obtain b where b: "session demo_host demo_targets (fresh_builder ''/w'' Symlink NoIsolation) [''a'' \<mapsto> Digest [1]] b"
    by (rule demo_session)
  from sync_file_never_panics [OF b] b show ?thesis by blast
qed

lemma build_exists: "engine_inv (b_engine b) \<Longrightarrow> \<exists>r b'. build target jobs b r b'"
proof -
  assume "engine_inv (b_engine b)"
  then have "engine_inv (reset_recomputes (b_engine b))" by (simp add: reset_recomputes_def)
  then show ?thesis using parallel_exists_inv [of _ jobs "tgt_key target"] by (blast intro: build_run)
qed

theorem warm_build_as_fresh_witness:
  "\<exists>b c r b' s c'. build ''t'' 4 b r b' \<and> build ''t'' 1 c s c' \<and>
     session demo_host demo_targets (fresh_builder ''/w'' Symlink NoIsolation) [''a'' \<mapsto> Digest [1]] b \<and>
     ((\<exists>n. r = Inr n) \<longleftrightarrow> (\<exists>n. s = Inr n)) \<and> r \<noteq> Inl (Panic [])"
proof -
  obtain b where b: "session demo_host demo_targets (fresh_builder ''/w'' Symlink NoIsolation) [''a'' \<mapsto> Digest [1]] b"
    "cancel (b_engine b) = None" by (rule demo_session)
  from session_inv [OF b(1)] obtain c where
    c: "configure_targets (on_disk demo_host [''a'' \<mapsto> Digest [1]]) demo_targets (fresh_builder ''/w'' Symlink NoIsolation) = (Inr (), c)"
    "like_fresh b c" by blast
  then obtain r b' s c' where "build ''t'' 4 b r b'" "build ''t'' 1 c s c'"
    using build_exists by (metis like_fresh_def)
  with warm_build_as_fresh [OF b c(1), of "''t''" 4 r b' 1 s c'] b(1) show ?thesis by blast
qed

subsection \<open>The sandboxes are not always apart\<close>

text \<open>
  The comment in \<open>configure_targets\<close> says that each action has its own sandbox, so its mutex is never
  contended.  The directory is named after the key with colons and hashes replaced by underscores,
  so two actions of different targets can be given one directory, under two mutexes.
\<close>

lemma sandbox_dirs_collide:
  "action_key ''//p_x:y'' 0 \<noteq> action_key ''//p:x_y'' 0 \<and>
   sandbox_dir root (action_key ''//p_x:y'' 0) = sandbox_dir root (action_key ''//p:x_y'' 0)"
  by (simp add: action_key_def sandbox_dir_def)

end
