(* ===== verification/Paths.thy ===== *)
theory Paths
  imports Std_Str Std_Coll
begin

section \<open>razel-loading: labels and output paths\<close>

text \<open>
  \<^verbatim>\<open>crates/razel-loading/src/state/paths.rs\<close> and the crate lock of \<^verbatim>\<open>lock.rs\<close>: the canonical form of a label in
  a package, the two names of a crate repository, where sources and generated files lie.  The session is
  read for its current package, the build flags and the lock; the operating system and the architecture
  of the host are arguments.  The JSON reader of the lock is a library and is not modelled.
\<close>

record crate_repo =
  urls :: "string list"
  sha256 :: string
  crate_strip_prefix :: "string option"
  build_file_content :: string
  remote_patch_strip :: "nat option"
  archive_type :: "string option"

record crate_lock =
  lock_version :: nat
  root_contents :: "(string, string) bmap"
  crates :: "(string, crate_repo) bmap"
  recorded_inputs :: "string list"
  canonical_prefix :: string

record path_session =
  current_pkg :: "string option"
  bazel_build_compat :: bool
  bin_tree_layout :: bool
  compilation_mode :: string
  session_lock :: "crate_lock option"

subsection \<open>Helpers of the standard library\<close>

definition trim_start :: "char \<Rightarrow> string \<Rightarrow> string" where
  "trim_start c s = dropWhile (\<lambda>x. x = c) s"

definition trim_end :: "char \<Rightarrow> string \<Rightarrow> string" where
  "trim_end c s = rev (dropWhile (\<lambda>x. x = c) (rev s))"

text \<open>\<open>s.rsplit(p).next()\<close>: what follows the last occurrence.\<close>

definition rsplit_last_str :: "string \<Rightarrow> string \<Rightarrow> string" where
  "rsplit_last_str s p = (case split_once_str (rev s) (rev p) of None \<Rightarrow> s | Some (a, _) \<Rightarrow> rev a)"

subsection \<open>Crate repositories\<close>

definition defines_repo :: "crate_lock \<Rightarrow> string \<Rightarrow> bool" where
  "defines_repo lock apparent \<longleftrightarrow> apparent = ''crates'' \<or> bm_get (crates lock) apparent \<noteq> None"

definition canonical_repo :: "crate_lock \<Rightarrow> string \<Rightarrow> string option" where
  "canonical_repo lock repo =
     (case strip_prefix repo (canonical_prefix lock) of
        Some apparent \<Rightarrow> if defines_repo lock apparent then Some repo else None
      | None \<Rightarrow> if defines_repo lock repo then Some (canonical_prefix lock @ repo) else None)"

definition crate_canonical_prefix :: "string \<Rightarrow> string option" where
  "crate_canonical_prefix ext_key =
     Option.bind (strip_prefix ext_key ''@@'') (\<lambda>key.
     Option.bind (split_once_str key ''//'') (\<lambda>(module_repo, rest).
     Option.bind (split_once rest (CHR ''%'')) (\<lambda>(_, after).
       Some (module_repo @ ''+'' @ hd (split_char after (CHR ''%'')) @ ''+''))))"

definition canonicalize_crate_repo_lock :: "crate_lock \<Rightarrow> string \<Rightarrow> string" where
  "canonicalize_crate_repo_lock lock label =
     (case split_once_str (trim_start (CHR ''@'') label) ''//'' of
        None \<Rightarrow> label
      | Some (repo, rest) \<Rightarrow>
          if repo = [] then label
          else (case canonical_repo lock repo of
                  Some canon \<Rightarrow> ''@@'' @ canon @ ''//'' @ rest
                | None \<Rightarrow> label))"

definition canonicalize_crate_repo :: "path_session \<Rightarrow> string \<Rightarrow> string" where
  "canonicalize_crate_repo sess label =
     (case session_lock sess of Some lock \<Rightarrow> canonicalize_crate_repo_lock lock label | None \<Rightarrow> label)"

subsection \<open>Canonical labels\<close>

definition expand_shorthand :: "string \<Rightarrow> string" where
  "expand_shorthand label =
     (let rest = rsplit_last_str label ''//''
      in if CHR '':'' \<notin> set rest \<and> rest \<noteq> [] then label @ '':'' @ rsplit_last rest (CHR ''/'') else label)"

definition canon_label_inner :: "path_session \<Rightarrow> string \<Rightarrow> string" where
  "canon_label_inner sess s =
     (if starts_with s ''@'' then
        (if \<not> contains_str s ''//'' then s @ ''//:'' @ trim_start (CHR ''@'') s
         else expand_shorthand s)
      else
        (case current_pkg sess of
           None \<Rightarrow> (case strip_prefix s '':'' of Some n \<Rightarrow> n | None \<Rightarrow> s)
         | Some pkg \<Rightarrow>
             if starts_with pkg ''@'' then
               (let repo = (case split_once_str pkg ''//'' of Some (r, _) \<Rightarrow> r | None \<Rightarrow> pkg)
                in case strip_prefix s ''//'' of
                     Some rest \<Rightarrow> expand_shorthand (repo @ ''//'' @ rest)
                   | None \<Rightarrow>
                       (case strip_prefix s '':'' of
                          Some name \<Rightarrow> pkg @ '':'' @ name
                        | None \<Rightarrow> pkg @ '':'' @ s))
             else
               (case strip_prefix s ''//'' of
                  Some rest \<Rightarrow> expand_shorthand (''//'' @ rest)
                | None \<Rightarrow>
                    (case strip_prefix s '':'' of
                       Some name \<Rightarrow> ''//'' @ pkg @ '':'' @ name
                     | None \<Rightarrow> ''//'' @ pkg @ '':'' @ s))))"

definition canon_label :: "path_session \<Rightarrow> string \<Rightarrow> string" where
  "canon_label sess s = canonicalize_crate_repo sess (canon_label_inner sess s)"

definition pkg_of :: "string \<Rightarrow> string option" where
  "pkg_of label =
     (case strip_prefix label ''@'' of
        Some rest \<Rightarrow>
          Option.bind (split_once_str rest ''//'') (\<lambda>(repo, pkgname).
          Option.bind (split_once pkgname (CHR '':'')) (\<lambda>(pkg, _). Some (''@'' @ repo @ ''//'' @ pkg)))
      | None \<Rightarrow>
          Option.bind (strip_prefix label ''//'') (\<lambda>rest. map_option fst (split_once rest (CHR '':''))))"

subsection \<open>Paths of sources and outputs\<close>

definition qualify :: "path_session \<Rightarrow> string \<Rightarrow> string" where
  "qualify sess path =
     (case current_pkg sess of
        None \<Rightarrow> path
      | Some pkg \<Rightarrow>
          if starts_with pkg ''@'' then
            (let rest = trim_start (CHR ''@'') pkg
             in case split_once_str rest ''//'' of
                  Some (repo, sub) \<Rightarrow>
                    if sub = [] then ''external/'' @ repo @ ''/'' @ path
                    else ''external/'' @ repo @ ''/'' @ sub @ ''/'' @ path
                | None \<Rightarrow> ''external/'' @ rest @ ''/'' @ path)
          else if pkg = [] then path
          else pkg @ ''/'' @ path)"

definition config_segment :: "string \<Rightarrow> string \<Rightarrow> string \<Rightarrow> string" where
  "config_segment os arch mode =
     (let cpu = (if os = ''macos'' \<and> arch = ''aarch64'' then ''darwin_arm64''
                 else if os = ''macos'' \<and> arch = ''x86_64'' then ''darwin_x86_64''
                 else if os = ''linux'' \<and> arch = ''x86_64'' then ''k8''
                 else arch)
      in cpu @ ''-'' @ (if mode = [] then ''fastbuild'' else mode))"

definition bazel_config :: "string \<Rightarrow> string \<Rightarrow> path_session \<Rightarrow> string" where
  "bazel_config os arch sess = config_segment os arch (compilation_mode sess)"

definition convenience_symlinks :: "string \<Rightarrow> string \<Rightarrow> path_session \<Rightarrow> (string \<times> string) list" where
  "convenience_symlinks os arch flags =
     (let r = (if bazel_build_compat flags then ''bazel'' else ''razel'');
          cfg = config_segment os arch (compilation_mode flags)
      in [(r @ ''-bin'', r @ ''-out/'' @ cfg @ ''/bin''), (r @ ''-testlogs'', r @ ''-out/'' @ cfg @ ''/testlogs'')])"

definition bin_dir :: "string \<Rightarrow> string \<Rightarrow> path_session \<Rightarrow> string" where
  "bin_dir os arch sess =
     (if bazel_build_compat sess then ''bazel-out/'' @ bazel_config os arch sess @ ''/bin''
      else if bin_tree_layout sess then ''razel-out/'' @ bazel_config os arch sess @ ''/bin''
      else ''bazel-out/bin'')"

definition bin_prefix :: "string \<Rightarrow> string \<Rightarrow> path_session \<Rightarrow> string \<Rightarrow> string" where
  "bin_prefix os arch sess qualified =
     (if bazel_build_compat sess \<or> bin_tree_layout sess then bin_dir os arch sess @ ''/'' @ qualified
      else qualified)"

definition qualify_output :: "string \<Rightarrow> string \<Rightarrow> path_session \<Rightarrow> string \<Rightarrow> string" where
  "qualify_output os arch sess path = bin_prefix os arch sess (qualify sess path)"

definition out_path :: "string \<Rightarrow> string \<Rightarrow> path_session \<Rightarrow> string \<Rightarrow> string" where
  "out_path os arch sess name = bin_prefix os arch sess (qualify sess name)"

definition out_dir :: "string \<Rightarrow> string \<Rightarrow> path_session \<Rightarrow> string" where
  "out_dir os arch sess = trim_end (CHR ''/'') (out_path os arch sess [])"

subsection \<open>The two names of a crate repository\<close>

lemma canonical_repo_twice:
  "canonical_repo lock repo = Some canon \<Longrightarrow> canonical_repo lock canon = Some canon"
  by (auto simp: canonical_repo_def strip_prefix_Some split: option.splits if_splits)

definition lock_ok :: "crate_lock \<Rightarrow> bool" where
  "lock_ok lock \<longleftrightarrow> CHR ''/'' \<notin> set (canonical_prefix lock) \<and> CHR ''@'' \<notin> set (canonical_prefix lock)"

lemma slashes_at:
  "starts_with (drop j (a @ ''//'' @ b)) ''//'' \<Longrightarrow> j < length a \<Longrightarrow> a ! j = CHR ''/''"
  by (auto simp: starts_with_iff nth_append dest: arg_cong [where f = "\<lambda>s. s ! 0"])

lemma split_slashes_prefix:
  assumes "split_once_str s ''//'' = Some (a, b)" "CHR ''/'' \<notin> set p"
  shows "split_once_str (p @ a @ ''//'' @ b) ''//'' = Some (p @ a, b)"
proof -
  from assms(1) obtain i where i: "str_find s ''//'' = Some i" "a = take i s" "b = drop (i + 2) s"
    by (auto simp: split_once_str_def)
  have s: "s = a @ ''//'' @ b" using str_find_Some [OF i(1)] i(2,3) by simp
  have "i \<le> length s" using i(1) by (induction s arbitrary: i) (auto split: if_splits)
  then have la: "length a = i" using i(2) by simp
  have "\<not> starts_with (drop j ((p @ a) @ ''//'' @ b)) ''//''" if "j < length (p @ a)" for j
  proof (cases "j < length p")
    case True
    then have "p ! j \<in> set p" "(p @ a @ ''//'' @ b) ! j = p ! j" by (simp_all add: nth_append)
    with assms(2) have "(p @ a @ ''//'' @ b) ! j \<noteq> CHR ''/''" by auto
    moreover have "drop j (p @ a @ ''//'' @ b) = (p @ a @ ''//'' @ b) ! j # drop (Suc j) (p @ a @ ''//'' @ b)"
      using True by (intro Cons_nth_drop_Suc [symmetric]) simp
    ultimately show ?thesis by (simp add: starts_with_Cons)
  next
    case False
    then have "drop j (p @ a @ ''//'' @ b) = drop (j - length p) s" by (simp add: s)
    with str_find_first [OF i(1), of "j - length p"] that False la show ?thesis by simp
  qed
  from str_find_append [OF this] show ?thesis by (simp add: split_once_str_def)
qed

lemma trim_start_at: "trim_start (CHR ''@'') (''@@'' @ s) = trim_start (CHR ''@'') s"
  by (simp add: trim_start_def)

lemma trim_start_hd: "trim_start c s = [] \<or> hd (trim_start c s) \<noteq> c"
  using hd_dropWhile [of "\<lambda>x. x = c" s] by (cases "dropWhile (\<lambda>x. x = c) s = []") (simp_all add: trim_start_def)

lemma canonicalize_known:
  assumes "lock_ok lock" "split_once_str (trim_start (CHR ''@'') label) ''//'' = Some (repo, rest)" "repo \<noteq> []"
    and "canonical_repo lock repo = Some canon"
  shows "canonicalize_crate_repo_lock lock (''@@'' @ canon @ ''//'' @ rest) = ''@@'' @ canon @ ''//'' @ rest"
proof -
  obtain p where p: "canon = p @ repo" "CHR ''/'' \<notin> set p" "CHR ''@'' \<notin> set p"
  proof (cases "canon = repo")
    case True
    then show ?thesis by (intro that [of "[]"]) simp_all
  next
    case False
    with assms(4) have "canon = canonical_prefix lock @ repo"
      by (auto simp: canonical_repo_def split: option.splits if_splits)
    then show ?thesis using assms(1) by (intro that) (auto simp: lock_ok_def)
  qed
  have ne: "canon \<noteq> []" using p(1) assms(3) by simp
  have "hd (trim_start (CHR ''@'') label) = hd repo"
  proof -
    have "trim_start (CHR ''@'') label = repo @ ''//'' @ rest"
      using assms(2) str_find_Some [of "trim_start (CHR ''@'') label" "''//''"] by (auto simp: split_once_str_def)
    with assms(3) show ?thesis by simp
  qed
  moreover have "trim_start (CHR ''@'') label \<noteq> []" using assms(2,3) by (auto simp: split_once_str_def split: if_splits)
  ultimately have "hd repo \<noteq> CHR ''@''" using trim_start_hd [of "CHR ''@''" label] by metis
  then have "hd canon \<noteq> CHR ''@''" using p assms(3) by (cases p) auto
  then have "trim_start (CHR ''@'') (''@@'' @ canon @ ''//'' @ rest) = canon @ ''//'' @ rest"
    using ne by (cases canon) (simp_all add: trim_start_def)
  then have "split_once_str (trim_start (CHR ''@'') (''@@'' @ canon @ ''//'' @ rest)) ''//'' = Some (canon, rest)"
    using split_slashes_prefix [OF assms(2) p(2)] p(1) by simp
  with ne canonical_repo_twice [OF assms(4)] show ?thesis by (simp add: canonicalize_crate_repo_lock_def)
qed

text \<open>Canonicalizing the repository of a label is idempotent: the apparent name \<open>@crates\<close> and the canonical name
  of a crate repository lead to one label, on which a second pass changes nothing.\<close>

theorem canonicalize_idempotent:
  assumes "lock_ok lock"
  shows "canonicalize_crate_repo_lock lock (canonicalize_crate_repo_lock lock label) = canonicalize_crate_repo_lock lock label"
proof (cases "canonicalize_crate_repo_lock lock label = label")
  case False
  then obtain repo rest canon where
    r: "split_once_str (trim_start (CHR ''@'') label) ''//'' = Some (repo, rest)" "repo \<noteq> []"
      "canonical_repo lock repo = Some canon" "canonicalize_crate_repo_lock lock label = ''@@'' @ canon @ ''//'' @ rest"
    unfolding canonicalize_crate_repo_lock_def by (auto split: option.splits prod.splits if_splits)
  from canonicalize_known [OF assms r(1-3)] r(4) show ?thesis by simp
qed simp

definition demo_lock :: crate_lock where
  "demo_lock =
     \<lparr>lock_version = 26, root_contents = [], crates = [], recorded_inputs = [],
      canonical_prefix = ''rules_rust++crate+''\<rparr>"

theorem canonicalize_idempotent_witness:
  "canonicalize_crate_repo_lock demo_lock ''@crates//:x'' = ''@@rules_rust++crate+crates//:x'' \<and>
   canonicalize_crate_repo_lock demo_lock ''@@rules_rust++crate+crates//:x'' = ''@@rules_rust++crate+crates//:x''"
proof -
  have "lock_ok demo_lock" by (simp add: lock_ok_def demo_lock_def)
  moreover have "canonicalize_crate_repo_lock demo_lock ''@crates//:x'' = ''@@rules_rust++crate+crates//:x''"
    by code_simp
  ultimately show ?thesis using canonicalize_idempotent [of demo_lock "''@crates//:x''"] by simp
qed

lemma crate_prefix_of_extension:
  "crate_canonical_prefix ''@@rules_rust+//crate_universe:extensions.bzl%crate'' = Some ''rules_rust++crate+''"
  by code_simp

subsection \<open>The package of a label\<close>

lemma pkg_of_main: "CHR '':'' \<notin> set pkg \<Longrightarrow> pkg_of (''//'' @ pkg @ '':'' @ name) = Some pkg"
proof -
  assume "CHR '':'' \<notin> set pkg"
  then have "split_once (pkg @ CHR '':'' # name) (CHR '':'') = Some (pkg, name)" by simp
  then show ?thesis by (simp add: pkg_of_def strip_prefix_def starts_with_def)
qed

lemma canon_label_package:
  assumes "current_pkg sess = Some pkg" "\<not> starts_with pkg ''@''" "CHR '':'' \<notin> set pkg"
    and "\<not> starts_with s ''@''" "\<not> starts_with s ''//''"
  shows "pkg_of (canon_label_inner sess s) = Some pkg"
proof -
  have "strip_prefix s ''//'' = None" using assms(5) by (simp add: strip_prefix_None)
  with assms pkg_of_main show ?thesis by (auto simp: canon_label_inner_def split: option.split)
qed

end
