(* ===== verification/Sched.thy ===== *)
theory Sched
  imports Paths
begin

section \<open>razel-loading: the wait graph of the parallel loader\<close>

text \<open>
  \<^verbatim>\<open>crates/razel-loading/src/state/sched.rs\<close> and \<^verbatim>\<open>wait.rs\<close>.  Packages, \<open>.bzl\<close> modules and single declarations
  are loaded once by a pool of threads; a thread that needs what another one is loading waits for it,
  unless the wait would close a cycle.  All of it happens under one mutex and one condition variable, so
  what a thread does between taking the lock and waiting or returning is one function on the graph, a
  \<open>round\<close>.  The hash maps are partial functions; trace output and the test hook are left out.
\<close>

type_synonym thread = nat

datatype pkg_state = InFlight thread | Done | Failed string

datatype res_key = Pkg string | Bzl string | Decl string

fun res_name :: "res_key \<Rightarrow> string" where
  "res_name (Pkg s) = s"
| "res_name (Bzl s) = s"
| "res_name (Decl s) = s"

fun is_decl :: "res_key \<Rightarrow> bool" where
  "is_decl (Decl s) \<longleftrightarrow> True"
| "is_decl _ \<longleftrightarrow> False"

record wait_graph =
  res :: "res_key \<rightharpoonup> pkg_state"
  waiting :: "thread \<rightharpoonup> res_key"
  live :: "res_key \<rightharpoonup> nat"

datatype acquire = Own | Ready | Reentry | CycleProceed | FailedCached string

datatype finish_outcome = FinishOk | FailRetry | FailCached string

datatype pending_wait = Published | PkgTerminal | Proceed

text \<open>How a round ends: with an answer, or parked; \<open>Park True\<close> notifies every other waiter first.\<close>

datatype 'r round_end = Answer 'r | Park bool

definition wait_graph_new :: wait_graph where
  "wait_graph_new = \<lparr>res = Map.empty, waiting = Map.empty, live = Map.empty\<rparr>"

subsection \<open>Cycles\<close>

primrec walk_cycle :: "nat \<Rightarrow> wait_graph \<Rightarrow> thread \<Rightarrow> bool \<Rightarrow> thread \<Rightarrow> bool option" where
  "walk_cycle 0 g me has_breaker cur = None"
| "walk_cycle (Suc n) g me has_breaker cur =
     (case waiting g cur of
        None \<Rightarrow> None
      | Some next_key \<Rightarrow>
          (let has_breaker = has_breaker \<or> \<not> is_decl next_key
           in case res g next_key of
                Some (InFlight o2) \<Rightarrow> if o2 = me then Some has_breaker else walk_cycle n g me has_breaker o2
              | _ \<Rightarrow> None))"

definition walk_cycle_kind :: "wait_graph \<Rightarrow> thread \<Rightarrow> thread \<Rightarrow> bool option" where
  "walk_cycle_kind g start me = walk_cycle 128 g me False start"

subsection \<open>Acquiring a resource\<close>

definition live_of :: "wait_graph \<Rightarrow> res_key \<Rightarrow> nat" where
  "live_of g key = (case live g key of None \<Rightarrow> 0 | Some n \<Rightarrow> n)"

definition claim :: "thread \<Rightarrow> res_key \<Rightarrow> wait_graph \<Rightarrow> wait_graph" where
  "claim me key g = g\<lparr>res := (res g)(key \<mapsto> InFlight me), live := (live g)(key \<mapsto> live_of g key + 1)\<rparr>"

definition park :: "thread \<Rightarrow> res_key \<Rightarrow> wait_graph \<Rightarrow> wait_graph" where
  "park me key g = g\<lparr>waiting := (waiting g)(me \<mapsto> key)\<rparr>"

definition unpark :: "thread \<Rightarrow> wait_graph \<Rightarrow> wait_graph" where
  "unpark me g = g\<lparr>waiting := (waiting g)(me := None)\<rparr>"

definition acquire_round :: "thread \<Rightarrow> res_key \<Rightarrow> wait_graph \<Rightarrow> acquire round_end \<times> wait_graph" where
  "acquire_round me key g =
     (case res g key of
        Some Done \<Rightarrow> (Answer Ready, g)
      | Some (Failed e) \<Rightarrow> (Answer (FailedCached e), g)
      | Some (InFlight owner) \<Rightarrow>
          if owner = me then (Answer Reentry, g)
          else
            (case walk_cycle_kind g owner me of
               None \<Rightarrow> (Park False, park me key g)
             | Some has_breaker \<Rightarrow>
                 (case key of
                    Pkg _ \<Rightarrow> (Answer CycleProceed, g)
                  | Decl _ \<Rightarrow>
                      if \<not> has_breaker then (Answer CycleProceed, g) else (Park True, park me key g)
                  | Bzl _ \<Rightarrow> (Answer Own, claim me key g)))
      | None \<Rightarrow> (Answer Own, claim me key g))"

text \<open>What follows a wait, which may have timed out.\<close>

definition acquire_resume :: "thread \<Rightarrow> res_key \<Rightarrow> bool \<Rightarrow> wait_graph \<Rightarrow> acquire round_end \<times> wait_graph" where
  "acquire_resume me key timed_out g =
     (let g = unpark me g
      in if timed_out \<and> \<not> is_decl key then (Answer Own, claim me key g) else acquire_round me key g)"

subsection \<open>Waiting for a declaration of a package in flight\<close>

text \<open>The check before anything is registered; \<open>None\<close> when there is something to wait for.\<close>

definition pending_check :: "thread \<Rightarrow> res_key \<Rightarrow> wait_graph \<Rightarrow> (pending_wait \<times> bool) option" where
  "pending_check me pkey g =
     (case res g pkey of
        Some (InFlight owner) \<Rightarrow> if owner \<noteq> me then None else Some (Proceed, False)
      | Some _ \<Rightarrow> Some (PkgTerminal, False)
      | None \<Rightarrow> Some (PkgTerminal, True))"

definition decl_park :: "thread \<Rightarrow> thread \<Rightarrow> res_key \<Rightarrow> wait_graph \<Rightarrow> (pending_wait \<times> bool) round_end \<times> wait_graph" where
  "decl_park me owner dkey g =
     (case walk_cycle_kind g owner me of
        None \<Rightarrow> (Park False, park me dkey g)
      | Some has_breaker \<Rightarrow>
          if \<not> has_breaker then (Answer (Proceed, True), g) else (Park True, park me dkey g))"

definition decl_round :: "thread \<Rightarrow> res_key \<Rightarrow> res_key \<Rightarrow> wait_graph \<Rightarrow> (pending_wait \<times> bool) round_end \<times> wait_graph" where
  "decl_round me dkey pkey g =
     (case res g dkey of
        Some Done \<Rightarrow> (Answer (Published, False), g)
      | Some (Failed _) \<Rightarrow> (Answer (PkgTerminal, False), g)
      | Some (InFlight t) \<Rightarrow> if t = me then (Answer (Proceed, False), g) else decl_park me t dkey g
      | None \<Rightarrow>
          (case res g pkey of
             Some (InFlight owner) \<Rightarrow>
               if owner \<noteq> me then decl_park me owner dkey (g\<lparr>res := (res g)(dkey \<mapsto> InFlight owner)\<rparr>)
               else (Answer (Proceed, False), g)
           | Some _ \<Rightarrow> (Answer (PkgTerminal, False), g)
           | None \<Rightarrow> (Answer (PkgTerminal, True), g)))"

definition decl_resume :: "thread \<Rightarrow> res_key \<Rightarrow> res_key \<Rightarrow> wait_graph \<Rightarrow> (pending_wait \<times> bool) round_end \<times> wait_graph" where
  "decl_resume me dkey pkey g = decl_round me dkey pkey (unpark me g)"

subsection \<open>Finishing and publishing\<close>

definition sweep_decls :: "string \<Rightarrow> (res_key \<rightharpoonup> pkg_state) \<Rightarrow> (res_key \<rightharpoonup> pkg_state)" where
  "sweep_decls p m k =
     (case (k, m k) of
        (Decl l, Some (InFlight _)) \<Rightarrow> if pkg_of l = Some p then None else m k
      | _ \<Rightarrow> m k)"

definition finish_resource :: "res_key \<Rightarrow> finish_outcome \<Rightarrow> wait_graph \<Rightarrow> bool \<times> wait_graph" where
  "finish_resource key outcome g =
     (let g = g\<lparr>live := (live g)(key \<mapsto> live_of g key - 1)\<rparr>;
          last = (live_of g key = 0);
          (may_purge, g) =
            (case outcome of
               FinishOk \<Rightarrow> (False, g\<lparr>res := (res g)(key \<mapsto> Done)\<rparr>)
             | _ \<Rightarrow>
                 if res g key = Some Done then (False, g)
                 else if \<not> last then (False, g)
                 else (case outcome of
                         FailCached e \<Rightarrow> (True, g\<lparr>res := (res g)(key \<mapsto> Failed e)\<rparr>)
                       | _ \<Rightarrow> (True, g\<lparr>res := (res g)(key := None)\<rparr>)))
      in case key of
           Pkg p \<Rightarrow> (may_purge, g\<lparr>res := sweep_decls p (res g)\<rparr>)
         | _ \<Rightarrow> (may_purge, g))"

definition publish_decl :: "string \<Rightarrow> wait_graph \<Rightarrow> bool \<times> wait_graph" where
  "publish_decl label g =
     (case res g (Decl label) of
        Some (InFlight _) \<Rightarrow> (True, g\<lparr>res := (res g)(Decl label \<mapsto> Done)\<rparr>)
      | _ \<Rightarrow> (False, g))"

text \<open>The tables of analysis results a failed package is purged from.\<close>

record ('r, 'p, 'f) tables =
  results :: "(string, 'r) bmap"
  pending :: "(string, 'p) bmap"
  fold_cache :: "(string, 'f) bmap"

definition purge_partial_package :: "string \<Rightarrow> ('r, 'p, 'f) tables \<Rightarrow> ('r, 'p, 'f) tables" where
  "purge_partial_package pkg t =
     t\<lparr>results := filter (\<lambda>(k, _). pkg_of k \<noteq> Some pkg) (results t),
       pending := filter (\<lambda>(k, _). pkg_of k \<noteq> Some pkg) (pending t),
       fold_cache := filter (\<lambda>(k, _). pkg_of k \<noteq> Some pkg) (fold_cache t)\<rparr>"

definition finish_pkg_load ::
    "string \<Rightarrow> finish_outcome \<Rightarrow> wait_graph \<times> ('r, 'p, 'f) tables \<Rightarrow> wait_graph \<times> ('r, 'p, 'f) tables" where
  "finish_pkg_load pkg outcome =
     (\<lambda>(g, t). case finish_resource (Pkg pkg) outcome g of
        (may_purge, g) \<Rightarrow> (g, if may_purge then purge_partial_package pkg t else t))"

datatype bzl_begin = BzlOwn | BzlReady

fun begin_bzl :: "acquire \<Rightarrow> bzl_begin" where
  "begin_bzl Own = BzlOwn"
| "begin_bzl Reentry = BzlOwn"
| "begin_bzl Ready = BzlReady"
| "begin_bzl CycleProceed = BzlReady"
| "begin_bzl (FailedCached _) = BzlReady"

definition bzl_outcome :: "bool \<Rightarrow> finish_outcome" where
  "bzl_outcome ok = (if ok then FinishOk else FailRetry)"

subsection \<open>The threads\<close>

text \<open>
  A thread runs, is parked on the condition variable, or was woken (by a notification, spuriously, or by
  the timeout) and has not got the lock yet.  A parked thread remembers the call it is in.
\<close>

datatype waiter = WRes res_key | WDecl res_key res_key

fun waiter_key :: "waiter \<Rightarrow> res_key" where
  "waiter_key (WRes k) = k"
| "waiter_key (WDecl dkey pkey) = dkey"

datatype thread_state = Running | Parked waiter | Woken waiter bool

record loader =
  graph :: wait_graph
  thr :: "thread \<Rightarrow> thread_state"

definition loader_new :: loader where
  "loader_new = \<lparr>graph = wait_graph_new, thr = (\<lambda>t. Running)\<rparr>"

definition notify_all :: "(thread \<Rightarrow> thread_state) \<Rightarrow> thread \<Rightarrow> thread_state" where
  "notify_all f t = (case f t of Parked w \<Rightarrow> Woken w False | x \<Rightarrow> x)"

definition settle :: "thread \<Rightarrow> waiter \<Rightarrow> 'r round_end \<times> wait_graph \<Rightarrow> loader \<Rightarrow> loader" where
  "settle t w out s =
     (case out of
        (Answer _, g) \<Rightarrow> s\<lparr>graph := g, thr := (thr s)(t := Running)\<rparr>
      | (Park wake, g) \<Rightarrow> s\<lparr>graph := g, thr := (if wake then notify_all (thr s) else thr s)(t := Parked w)\<rparr>)"

inductive sched_step :: "thread set \<Rightarrow> loader \<Rightarrow> loader \<Rightarrow> bool" for W where
  st_acquire: "t \<in> W \<Longrightarrow> thr s t = Running \<Longrightarrow>
    sched_step W s (settle t (WRes key) (acquire_round t key (graph s)) s)"
| st_wait_decl: "t \<in> W \<Longrightarrow> thr s t = Running \<Longrightarrow>
    sched_step W s (settle t (WDecl (Decl label) (Pkg p)) (decl_round t (Decl label) (Pkg p) (graph s)) s)"
| st_wake: "thr s t = Parked w \<Longrightarrow> sched_step W s (s\<lparr>thr := (thr s)(t := Woken w timed_out)\<rparr>)"
| st_resume_res: "thr s t = Woken (WRes key) timed_out \<Longrightarrow>
    sched_step W s (settle t (WRes key) (acquire_resume t key timed_out (graph s)) s)"
| st_resume_decl: "thr s t = Woken (WDecl dkey pkey) timed_out \<Longrightarrow>
    sched_step W s (settle t (WDecl dkey pkey) (decl_resume t dkey pkey (graph s)) s)"
| st_finish: "t \<in> W \<Longrightarrow> thr s t = Running \<Longrightarrow> (\<And>m e. key = Bzl m \<Longrightarrow> outcome \<noteq> FailCached e) \<Longrightarrow>
    sched_step W s (s\<lparr>graph := snd (finish_resource key outcome (graph s)), thr := notify_all (thr s)\<rparr>)"
| st_publish: "t \<in> W \<Longrightarrow> thr s t = Running \<Longrightarrow> publish_decl label (graph s) = (published, g) \<Longrightarrow>
    sched_step W s (s\<lparr>graph := g, thr := (if published then notify_all (thr s) else thr s)\<rparr>)"

inductive_cases sched_stepE: "sched_step W s s'"

end
