(* ===== verification/Sched_Props.thy ===== *)
theory Sched_Props
  imports Sched
begin

section \<open>The wait graph: no deadlock, and what is loaded stays loaded\<close>

text \<open>
  \<open>blocks\<close> relates a parked thread to the thread that is loading what it waits for.  The invariant says
  that it has no cycle, in spite of take-overs and of declaration waits that park through a cycle: such a
  wait notifies everybody else, so it is alone on its cycle.
\<close>

definition blocks :: "loader \<Rightarrow> (thread \<times> thread) set" where
  "blocks s = {(t, u). \<exists>w. thr s t = Parked w \<and> res (graph s) (waiter_key w) = Some (InFlight u)}"

definition thread_ok :: "thread set \<Rightarrow> loader \<Rightarrow> thread \<Rightarrow> bool" where
  "thread_ok W s t \<longleftrightarrow>
     (case thr s t of
        Running \<Rightarrow> waiting (graph s) t = None
      | Parked w \<Rightarrow> t \<in> W \<and> waiting (graph s) t = Some (waiter_key w) \<and>
          (\<exists>u. res (graph s) (waiter_key w) = Some (InFlight u))
      | Woken w _ \<Rightarrow> t \<in> W \<and> waiting (graph s) t = Some (waiter_key w))"

definition sched_inv :: "thread set \<Rightarrow> loader \<Rightarrow> bool" where
  "sched_inv W s \<longleftrightarrow> (\<forall>t. thread_ok W s t) \<and> acyclic (blocks s)"

lemma inv_parked:
  assumes "sched_inv W s" "thr s t = Parked w"
  shows "t \<in> W" "waiting (graph s) t = Some (waiter_key w)" "\<exists>u. res (graph s) (waiter_key w) = Some (InFlight u)"
proof -
  have "thread_ok W s t" using assms(1) by (simp add: sched_inv_def)
  with assms(2) show "t \<in> W" "waiting (graph s) t = Some (waiter_key w)"
    "\<exists>u. res (graph s) (waiter_key w) = Some (InFlight u)" by (simp_all add: thread_ok_def)
qed

subsection \<open>Acyclic relations\<close>

lemma acyclic_empty: "acyclic {}"
  by (simp add: acyclic_def)

lemma acyclic_into_sink:
  assumes "acyclic r" "r' \<subseteq> r \<union> UNIV \<times> {t}" "\<And>u. (t, u) \<notin> r'"
  shows "acyclic r'"
proof (rule acyclicI, rule allI, rule notI)
  fix x
  assume "(x, x) \<in> r'\<^sup>+"
  have "y = t \<or> (x, y) \<in> r\<^sup>+" if "(x, y) \<in> r'\<^sup>+" for y
    using that
  proof (induction rule: trancl_induct)
    case (base y)
    then show ?case using assms(2) by blast
  next
    case (step y z)
    have "y \<noteq> t" using step.hyps(2) assms(3) by blast
    with step.IH have "(x, y) \<in> r\<^sup>+" by simp
    moreover have "z = t \<or> (y, z) \<in> r" using step.hyps(2) assms(2) by blast
    ultimately show ?case by (blast intro: trancl_into_trancl)
  qed
  with \<open>(x, x) \<in> r'\<^sup>+\<close> have "x = t \<or> (x, x) \<in> r\<^sup>+" by blast
  moreover have "x \<noteq> t"
  proof
    assume "x = t"
    with \<open>(x, x) \<in> r'\<^sup>+\<close> obtain u where "(t, u) \<in> r'" by (meson tranclD)
    with assms(3) show False by blast
  qed
  ultimately show False using assms(1) by (simp add: acyclic_def)
qed

lemma finite_blocks: "finite W \<Longrightarrow> sched_inv W s \<Longrightarrow> finite (blocks s) \<and> card (blocks s) \<le> card W"
proof -
  assume "finite W" "sched_inv W s"
  have "fst ` blocks s \<subseteq> W"
  proof
    fix t
    assume "t \<in> fst ` blocks s"
    then obtain w where "thr s t = Parked w" by (auto simp: blocks_def)
    with \<open>sched_inv W s\<close> show "t \<in> W" by (rule inv_parked)
  qed
  moreover have inj: "inj_on fst (blocks s)" by (auto simp: inj_on_def blocks_def)
  ultimately show ?thesis using \<open>finite W\<close>
    by (metis card_image card_mono finite_imageD finite_subset)
qed

subsection \<open>The walk finds every cycle\<close>

lemma walk_cycle_finds:
  assumes "\<And>t w. thr s t = Parked w \<Longrightarrow> waiting (graph s) t = Some (waiter_key w)"
  shows "(x, me) \<in> blocks s ^^ n \<Longrightarrow> 0 < n \<Longrightarrow> n \<le> fuel \<Longrightarrow> walk_cycle fuel (graph s) me hb x \<noteq> None"
proof (induction fuel arbitrary: n hb x)
  case 0
  then show ?case by simp
next
  case (Suc fuel)
  then obtain m where n: "n = Suc m" by (cases n) auto
  with Suc.prems(1) obtain u where u: "(x, u) \<in> blocks s" "(u, me) \<in> blocks s ^^ m"
    by (meson relpow_Suc_D2)
  then obtain w where w: "thr s x = Parked w" "res (graph s) (waiter_key w) = Some (InFlight u)"
    by (auto simp: blocks_def)
  show ?case
  proof (cases "u = me")
    case True
    with assms [OF w(1)] w(2) show ?thesis by (simp add: Let_def)
  next
    case False
    with u(2) have "0 < m" by (cases m) auto
    with Suc.IH u(2) Suc.prems(3) n have "walk_cycle fuel (graph s) me hb' u \<noteq> None" for hb' by auto
    with assms [OF w(1)] w(2) False show ?thesis by (simp add: Let_def)
  qed
qed

lemma walk_finds_cycle:
  assumes "finite W" "card W \<le> 128" "sched_inv W s" "(x, me) \<in> (blocks s)\<^sup>+"
  shows "walk_cycle_kind (graph s) x me \<noteq> None"
proof -
  have fin: "finite (blocks s)" "card (blocks s) \<le> 128" using finite_blocks [OF assms(1,3)] assms(2) by auto
  from assms(4) obtain n where n: "0 < n" "n \<le> card (blocks s)" "(x, me) \<in> blocks s ^^ n"
    unfolding trancl_finite_eq_relpow [OF fin(1)] by blast
  have "waiting (graph s) t = Some (waiter_key w)" if "thr s t = Parked w" for t w
    by (rule inv_parked [OF assms(3) that])
  from walk_cycle_finds [OF this n(3,1)] n(2) fin(2) show ?thesis by (simp add: walk_cycle_kind_def)
qed

subsection \<open>The ends of a round\<close>

lemma settle_running:
  "settle t w out s = settle t w out (s\<lparr>graph := g, thr := (thr s)(t := Running)\<rparr>)"
  by (cases out; cases "fst out") (auto simp: settle_def fun_eq_iff notify_all_def)

lemma settle_answer:
  assumes "sched_inv W s" "thr s t = Running"
  shows "sched_inv W (settle t w (Answer a, graph s) s)"
proof -
  have "(thr s)(t := Running) = thr s" using assms(2) by auto
  with assms(1) show ?thesis by (simp add: settle_def)
qed

lemma claim_inv:
  assumes "sched_inv W s" "thr s t = Running"
  shows "sched_inv W (s\<lparr>graph := claim t key (graph s)\<rparr>)"
proof -
  let ?s = "s\<lparr>graph := claim t key (graph s)\<rparr>"
  have "thread_ok W ?s x" for x
  proof -
    have "thread_ok W s x" using assms(1) by (simp add: sched_inv_def)
    then show ?thesis by (auto simp: thread_ok_def claim_def split: thread_state.splits)
  qed
  moreover have "acyclic (blocks ?s)"
  proof (rule acyclic_into_sink)
    show "acyclic (blocks s)" using assms(1) by (simp add: sched_inv_def)
    show "blocks ?s \<subseteq> blocks s \<union> UNIV \<times> {t}" by (auto simp: blocks_def claim_def split: if_splits)
    show "(t, u) \<notin> blocks ?s" for u using assms(2) by (simp add: blocks_def)
  qed
  ultimately show ?thesis by (simp add: sched_inv_def)
qed

lemma settle_claim:
  assumes "sched_inv W s" "thr s t = Running"
  shows "sched_inv W (settle t w (Answer a, claim t key (graph s)) s)"
proof -
  have "(thr s)(t := Running) = thr s" using assms(2) by auto
  with claim_inv [OF assms] show ?thesis by (simp add: settle_def)
qed

lemma park_threads:
  assumes "sched_inv W s" "t \<in> W" "res (graph s) (waiter_key w) = Some (InFlight owner)" "f = thr s \<or> f = notify_all (thr s)"
  shows "thread_ok W (s\<lparr>graph := park t (waiter_key w) (graph s), thr := f(t := Parked w)\<rparr>) x"
proof (cases "x = t")
  case True
  with assms(2,3) show ?thesis by (simp add: thread_ok_def park_def)
next
  case False
  have "thread_ok W s x" using assms(1) by (simp add: sched_inv_def)
  with False assms(4) show ?thesis
    by (auto simp: thread_ok_def park_def notify_all_def split: thread_state.splits)
qed

lemma settle_park:
  assumes "finite W" "card W \<le> 128" "sched_inv W s" "thr s t = Running" "t \<in> W"
    and "res (graph s) (waiter_key w) = Some (InFlight owner)" "owner \<noteq> t"
    and "\<not> wake \<Longrightarrow> walk_cycle_kind (graph s) owner t = None"
  shows "sched_inv W (settle t w (Park wake, park t (waiter_key w) (graph s)) s)"
proof -
  let ?f = "if wake then notify_all (thr s) else thr s"
  let ?s = "s\<lparr>graph := park t (waiter_key w) (graph s), thr := ?f(t := Parked w)\<rparr>"
  have "acyclic (blocks ?s)"
  proof (cases wake)
    case True
    then have "blocks ?s \<subseteq> {(t, owner)}"
      using assms(6) by (auto simp: blocks_def park_def notify_all_def split: if_splits thread_state.splits)
    moreover have "acyclic {(t, owner)}" using assms(7) by (simp add: acyclic_insert acyclic_empty)
    ultimately show ?thesis by (rule acyclic_subset [rotated])
  next
    case False
    have "blocks ?s = insert (t, owner) (blocks s)"
      using False assms(4,6) by (auto simp: blocks_def park_def split: if_splits)
    moreover have "(owner, t) \<notin> (blocks s)\<^sup>*"
    proof
      assume "(owner, t) \<in> (blocks s)\<^sup>*"
      with assms(7) have "(owner, t) \<in> (blocks s)\<^sup>+" by (auto simp: rtrancl_eq_or_trancl)
      from walk_finds_cycle [OF assms(1-3) this] assms(8) [OF False] show False by simp
    qed
    ultimately show ?thesis using assms(3) by (simp add: acyclic_insert sched_inv_def)
  qed
  moreover have "thread_ok W ?s x" for x by (rule park_threads [OF assms(3,5,6)]) auto
  ultimately show ?thesis by (simp add: settle_def sched_inv_def)
qed

lemma resume_inv:
  assumes "sched_inv W s"
  shows "sched_inv W (s\<lparr>graph := unpark t (graph s), thr := (thr s)(t := Running)\<rparr>)" (is "sched_inv W ?s")
proof -
  have "thread_ok W ?s x" for x
  proof -
    have "thread_ok W s x" using assms by (simp add: sched_inv_def)
    then show ?thesis by (cases "x = t") (auto simp: thread_ok_def unpark_def split: thread_state.splits)
  qed
  moreover have "blocks ?s \<subseteq> blocks s" by (auto simp: blocks_def unpark_def split: if_splits)
  ultimately show ?thesis using assms acyclic_subset unfolding sched_inv_def by blast
qed

lemma proxy_inv:
  assumes "sched_inv W s" "res (graph s) dkey = None"
  shows "sched_inv W (s\<lparr>graph := (graph s)\<lparr>res := (res (graph s))(dkey \<mapsto> InFlight owner)\<rparr>\<rparr>)" (is "sched_inv W ?s")
proof -
  have parked: "waiter_key w \<noteq> dkey" if "thr s x = Parked w" for x w
    using inv_parked(3) [OF assms(1) that] assms(2) by auto
  have "thread_ok W ?s x" for x
  proof -
    have "thread_ok W s x" using assms(1) by (simp add: sched_inv_def)
    then show ?thesis by (auto simp: thread_ok_def split: thread_state.splits)
  qed
  moreover have "blocks ?s = blocks s" using parked by (auto simp: blocks_def)
  ultimately show ?thesis using assms(1) by (simp add: sched_inv_def)
qed

lemma notified_inv:
  assumes "\<And>t. thread_ok W s t" "waiting g = waiting (graph s)"
  shows "sched_inv W (s\<lparr>graph := g, thr := notify_all (thr s)\<rparr>)" (is "sched_inv W ?s")
proof -
  have "thread_ok W ?s x" for x
    using assms(1) [of x] assms(2) by (auto simp: thread_ok_def notify_all_def split: thread_state.splits)
  moreover have "blocks ?s = {}" by (auto simp: blocks_def notify_all_def split: thread_state.splits)
  ultimately show ?thesis by (simp add: sched_inv_def acyclic_empty)
qed

subsection \<open>Every step keeps the invariant\<close>

lemma acquire_round_inv:
  assumes "finite W" "card W \<le> 128" "sched_inv W s" "thr s t = Running" "t \<in> W"
  shows "sched_inv W (settle t (WRes key) (acquire_round t key (graph s)) s)"
proof (cases "res (graph s) key")
  case None
  then show ?thesis by (simp add: acquire_round_def settle_claim [OF assms(3,4)])
next
  case (Some st)
  show ?thesis
  proof (cases st)
    case (InFlight owner)
    note ends = settle_answer [OF assms(3,4)] settle_claim [OF assms(3,4)]
    show ?thesis
    proof (cases "owner = t")
      case True
      with Some InFlight show ?thesis by (simp add: acquire_round_def ends)
    next
      case False
      show ?thesis
      proof (cases "walk_cycle_kind (graph s) owner t")
        case None
        with Some InFlight False settle_park [OF assms, of "WRes key" owner False] show ?thesis
          by (simp add: acquire_round_def)
      next
        case (Some hb)
        note st = \<open>res (graph s) key = Some st\<close> InFlight False Some
        from st have "sched_inv W (settle t (WRes key) (Park True :: acquire round_end, park t key (graph s)) s)"
          using settle_park [OF assms, of "WRes key" owner True] by simp
        with st show ?thesis by (cases key) (simp_all add: acquire_round_def ends)
      qed
    qed
  qed (use Some in \<open>simp_all add: acquire_round_def settle_answer [OF assms(3,4)]\<close>)
qed

lemma decl_park_inv:
  assumes "finite W" "card W \<le> 128" "sched_inv W s" "thr s t = Running" "t \<in> W"
    and "res (graph s) dkey = Some (InFlight owner)" "owner \<noteq> t"
  shows "sched_inv W (settle t (WDecl dkey pkey) (decl_park t owner dkey (graph s)) s)"
proof (cases "walk_cycle_kind (graph s) owner t")
  case None
  with settle_park [OF assms(1-5), of "WDecl dkey pkey" owner False] assms(6,7) show ?thesis by (simp add: decl_park_def)
next
  case (Some hb)
  have "sched_inv W (settle t (WDecl dkey pkey) (Park True :: (pending_wait \<times> bool) round_end, park t dkey (graph s)) s)"
    using settle_park [OF assms(1-5), of "WDecl dkey pkey" owner True] assms(6,7) by simp
  with Some show ?thesis by (simp add: decl_park_def settle_answer [OF assms(3,4)])
qed

lemma decl_round_inv:
  assumes "finite W" "card W \<le> 128" "sched_inv W s" "thr s t = Running" "t \<in> W"
  shows "sched_inv W (settle t (WDecl dkey pkey) (decl_round t dkey pkey (graph s)) s)"
proof (cases "res (graph s) dkey")
  case (Some st)
  show ?thesis
  proof (cases st)
    case (InFlight owner)
    show ?thesis
    proof (cases "owner = t")
      case True
      with Some InFlight show ?thesis by (simp add: decl_round_def settle_answer [OF assms(3,4)])
    next
      case False
      with Some InFlight decl_park_inv [OF assms] show ?thesis by (simp add: decl_round_def)
    qed
  qed (use Some in \<open>simp_all add: decl_round_def settle_answer [OF assms(3,4)]\<close>)
next
  case None
  show ?thesis
  proof (cases "\<exists>owner. res (graph s) pkey = Some (InFlight owner) \<and> owner \<noteq> t")
    case True
    then obtain owner where o: "res (graph s) pkey = Some (InFlight owner)" "owner \<noteq> t" by blast
    let ?g = "(graph s)\<lparr>res := (res (graph s))(dkey \<mapsto> InFlight owner)\<rparr>"
    have "sched_inv W (settle t (WDecl dkey pkey) (decl_park t owner dkey ?g) (s\<lparr>graph := ?g\<rparr>))"
      using decl_park_inv [OF assms(1,2) proxy_inv [OF assms(3) None, of owner], of t dkey owner pkey] assms(4,5) o(2)
      by simp
    moreover have "settle t (WDecl dkey pkey) x (s\<lparr>graph := ?g\<rparr>) = settle t (WDecl dkey pkey) x s" for x :: "(pending_wait \<times> bool) round_end \<times> wait_graph"
      by (cases x; cases "fst x") (auto simp: settle_def)
    ultimately show ?thesis using None o by (simp add: decl_round_def)
  next
    case False
    with None show ?thesis
      by (auto simp: decl_round_def settle_answer [OF assms(3,4)] split: option.split pkg_state.split)
  qed
qed

lemma finish_waiting: "waiting (snd (finish_resource key outcome g)) = waiting g"
  by (auto simp: finish_resource_def Let_def split: finish_outcome.splits res_key.splits)

lemma sched_step_inv:
  assumes "sched_step W s s'" "finite W" "card W \<le> 128" "sched_inv W s"
  shows "sched_inv W s'"
  using assms(1)
proof cases
  case (st_acquire t key)
  with acquire_round_inv [OF assms(2-4)] show ?thesis by simp
next
  case (st_wait_decl t label p)
  with decl_round_inv [OF assms(2-4)] show ?thesis by simp
next
  case (st_wake t w timed_out)
  have "thread_ok W s' x" for x
  proof -
    have "thread_ok W s x" using assms(4) by (simp add: sched_inv_def)
    with st_wake show ?thesis by (cases "x = t") (simp_all add: thread_ok_def cong: thread_state.case_cong)
  qed
  moreover have "blocks s' \<subseteq> blocks s" using st_wake(1) by (auto simp: blocks_def split: if_splits)
  ultimately show ?thesis using assms(4) acyclic_subset unfolding sched_inv_def by blast
next
  case (st_resume_res t key timed_out)
  let ?s = "s\<lparr>graph := unpark t (graph s), thr := (thr s)(t := Running)\<rparr>"
  have t: "t \<in> W" using assms(4) st_resume_res(2) by (auto simp: sched_inv_def thread_ok_def dest: spec [where x = t])
  have inv: "sched_inv W ?s" "thr ?s t = Running" by (simp_all add: resume_inv [OF assms(4)])
  have "s' = settle t (WRes key) (acquire_resume t key timed_out (graph s)) ?s"
    unfolding st_resume_res(1) by (rule settle_running)
  moreover have "sched_inv W (settle t (WRes key) (Answer Own, claim t key (unpark t (graph s))) ?s)"
    using settle_claim [OF inv] by simp
  moreover have "sched_inv W (settle t (WRes key) (acquire_round t key (unpark t (graph s))) ?s)"
    using acquire_round_inv [OF assms(2,3) inv t] by simp
  ultimately show ?thesis by (simp add: acquire_resume_def Let_def)
next
  case (st_resume_decl t dkey pkey timed_out)
  let ?s = "s\<lparr>graph := unpark t (graph s), thr := (thr s)(t := Running)\<rparr>"
  have t: "t \<in> W" using assms(4) st_resume_decl(2) by (auto simp: sched_inv_def thread_ok_def dest: spec [where x = t])
  have inv: "sched_inv W ?s" "thr ?s t = Running" by (simp_all add: resume_inv [OF assms(4)])
  have "s' = settle t (WDecl dkey pkey) (decl_resume t dkey pkey (graph s)) ?s"
    unfolding st_resume_decl(1) by (rule settle_running)
  with decl_round_inv [OF assms(2,3) inv t] show ?thesis by (simp add: decl_resume_def)
next
  case (st_finish t key outcome)
  have "thread_ok W s x" for x using assms(4) by (simp add: sched_inv_def)
  then show ?thesis unfolding st_finish(1) by (rule notified_inv) (rule finish_waiting)
next
  case (st_publish t label published g)
  have ok: "thread_ok W s x" for x using assms(4) by (simp add: sched_inv_def)
  show ?thesis
  proof (cases published)
    case True
    have "waiting g = waiting (graph s)" using st_publish(4) by (auto simp: publish_decl_def split: option.splits pkg_state.splits)
    with True notified_inv [OF ok] st_publish(1) show ?thesis by simp
  next
    case False
    then have "g = graph s" using st_publish(4) by (auto simp: publish_decl_def split: option.splits pkg_state.splits)
    with False st_publish(1) assms(4) show ?thesis by simp
  qed
qed

definition sched_reachable :: "thread set \<Rightarrow> loader \<Rightarrow> bool" where
  "sched_reachable W s \<longleftrightarrow> (sched_step W)\<^sup>*\<^sup>* loader_new s"

lemma reachable_sched_inv:
  assumes "sched_reachable W s" "finite W" "card W \<le> 128"
  shows "sched_inv W s"
  using assms(1) unfolding sched_reachable_def
proof (induction rule: rtranclp_induct)
  case base
  show ?case
    by (auto simp: sched_inv_def thread_ok_def blocks_def loader_new_def wait_graph_new_def acyclic_empty)
next
  case (step s s')
  with sched_step_inv assms(2,3) show ?case by blast
qed

text \<open>C20: No deadlock: in every state that at most 128 threads can reach, from a parked thread the chain of threads that
  load what the previous one waits for leads to a thread that is not parked.\<close>

theorem loader_never_deadlocks:
  assumes "sched_reachable W s" "finite W" "card W \<le> 128" "thr s t = Parked w"
  shows "\<exists>u. (t, u) \<in> (blocks s)\<^sup>+ \<and> (\<forall>w. thr s u \<noteq> Parked w)"
proof -
  note inv = reachable_sched_inv [OF assms(1-3)]
  have "finite (blocks s)" "acyclic (blocks s)" using finite_blocks [OF assms(2) inv] inv by (auto simp: sched_inv_def)
  then have "wf ((blocks s)\<inverse>)" by (rule finite_acyclic_wf_converse)
  then show ?thesis using assms(4)
  proof (induction t arbitrary: w rule: wf_induct_rule)
    case (less t)
    obtain u where u: "(t, u) \<in> blocks s" using inv_parked(3) [OF inv less.prems] less.prems by (auto simp: blocks_def)
    show ?case
    proof (cases "\<exists>w. thr s u = Parked w")
      case True
      then obtain w' where "thr s u = Parked w'" by blast
      with less.IH u obtain v where "(u, v) \<in> (blocks s)\<^sup>+" "\<forall>w. thr s v \<noteq> Parked w" by blast
      with u show ?thesis by (blast intro: trancl_into_trancl2)
    next
      case False
      with u show ?thesis by blast
    qed
  qed
qed

subsection \<open>A concrete run\<close>

text \<open>The first thread loads a package, the second one parks on it.\<close>

definition demo_owned :: loader where
  "demo_owned = settle 0 (WRes (Pkg ''a'')) (acquire_round 0 (Pkg ''a'') (graph loader_new)) loader_new"

definition demo_parked :: loader where
  "demo_parked = settle 1 (WRes (Pkg ''a'')) (acquire_round 1 (Pkg ''a'') (graph demo_owned)) demo_owned"

lemma demo_owned_facts:
  "res (graph demo_owned) = [Pkg ''a'' \<mapsto> InFlight 0]" "waiting (graph demo_owned) = Map.empty" "thr demo_owned t = Running"
  by (simp_all add: demo_owned_def acquire_round_def settle_def loader_new_def wait_graph_new_def claim_def)

lemma demo_walk: "walk_cycle_kind (graph demo_owned) 0 1 = None"
  by (simp add: walk_cycle_kind_def numeral_eq_Suc demo_owned_facts)

lemma demo_parked_eq:
  "demo_parked = demo_owned\<lparr>graph := park 1 (Pkg ''a'') (graph demo_owned), thr := (thr demo_owned)(1 := Parked (WRes (Pkg ''a'')))\<rparr>"
proof -
  have "acquire_round 1 (Pkg ''a'') (graph demo_owned) = (Park False, park 1 (Pkg ''a'') (graph demo_owned))"
    using demo_walk by (simp add: acquire_round_def demo_owned_facts)
  then show ?thesis by (simp add: demo_parked_def settle_def)
qed

lemma demo_parked_facts:
  "res (graph demo_parked) = [Pkg ''a'' \<mapsto> InFlight 0]" "thr demo_parked 1 = Parked (WRes (Pkg ''a''))" "thr demo_parked 0 = Running"
  by (simp_all add: demo_parked_eq demo_owned_facts park_def)

lemma demo_loader_reachable: "sched_reachable {0, 1} demo_owned" "sched_reachable {0, 1} demo_parked"
proof -
  have "sched_step {0, 1} loader_new demo_owned"
    unfolding demo_owned_def by (rule st_acquire) (simp_all add: loader_new_def)
  then show owned: "sched_reachable {0, 1} demo_owned" by (simp add: sched_reachable_def r_into_rtranclp)
  have "sched_step {0, 1} demo_owned demo_parked"
    unfolding demo_parked_def by (rule st_acquire) (simp_all add: demo_owned_facts)
  with owned show "sched_reachable {0, 1} demo_parked" unfolding sched_reachable_def by (rule rtranclp.rtrancl_into_rtrancl)
qed

theorem loader_never_deadlocks_witness:
  "thr demo_parked 1 = Parked (WRes (Pkg ''a'')) \<and>
   (\<exists>u. (1, u) \<in> (blocks demo_parked)\<^sup>+ \<and> (\<forall>w. thr demo_parked u \<noteq> Parked w))"
  using loader_never_deadlocks [OF demo_loader_reachable(2), of 1] demo_parked_facts(2) by simp

subsection \<open>No lost wakeup\<close>

text \<open>C21: A thread is parked only while what it waits for is in flight, and its wait is registered: whatever makes a
  resource terminal, clears it or sweeps it wakes every thread that waits for it.\<close>

theorem no_lost_wakeup:
  assumes "sched_reachable W s" "finite W" "card W \<le> 128" "thr s t = Parked w"
  shows "waiting (graph s) t = Some (waiter_key w) \<and> (\<exists>u. res (graph s) (waiter_key w) = Some (InFlight u))"
  using inv_parked [OF reachable_sched_inv [OF assms(1-3)] assms(4)] by simp

theorem no_lost_wakeup_witness:
  "waiting (graph demo_parked) 1 = Some (Pkg ''a'') \<and> (\<exists>u. res (graph demo_parked) (Pkg ''a'') = Some (InFlight u))"
  using no_lost_wakeup [OF demo_loader_reachable(2), of 1] demo_parked_facts(2) by simp

subsection \<open>What is loaded stays loaded\<close>

lemma acquire_keeps:
  "res g key = Some Done \<Longrightarrow> res (snd (acquire_round me k g)) key = Some Done"
  by (auto simp: acquire_round_def claim_def park_def split: option.split pkg_state.split res_key.split)

lemma decl_round_keeps:
  "res g key = Some Done \<Longrightarrow> res (snd (decl_round me dkey pkey g)) key = Some Done"
  by (auto simp: decl_round_def decl_park_def park_def split: option.split pkg_state.split)

lemma settle_graph: "graph (settle t w out s) = snd out"
  by (cases out; cases "fst out") (auto simp: settle_def)

lemma sweep_keeps: "m key = Some Done \<Longrightarrow> sweep_decls p m key = Some Done"
  by (auto simp: sweep_decls_def split: res_key.split)

lemma finish_keeps:
  assumes "res g key = Some Done"
  shows "res (snd (finish_resource k outcome g)) key = Some Done"
  using assms by (cases "key = k") (auto simp: finish_resource_def Let_def intro!: sweep_keeps split: finish_outcome.splits res_key.splits)

lemma publish_keeps:
  "res g key = Some Done \<Longrightarrow> res (snd (publish_decl label g)) key = Some Done"
  by (auto simp: publish_decl_def split: option.split pkg_state.split)

text \<open>The only step that can undo a finished load is the return of a timed out wait for that very resource:
  every other acquire, wait, publication, finish (failures of duplicates and sweeps included) keeps it finished.\<close>

theorem done_undone_only_by_timeout:
  assumes "sched_step W s s'" "res (graph s) key = Some Done"
  shows "res (graph s') key = Some Done \<or>
    (\<exists>t. thr s t = Woken (WRes key) True \<and> \<not> is_decl key \<and> graph s' = claim t key (unpark t (graph s)))"
  using assms(1)
proof cases
  case (st_resume_res t k timed_out)
  have unparked: "res (unpark t (graph s)) key = Some Done" using assms(2) by (simp add: unpark_def)
  from acquire_keeps [OF this, of t k] st_resume_res unparked show ?thesis
    by (auto simp: acquire_resume_def Let_def settle_graph claim_def)
next
  case (st_resume_decl t dkey pkey timed_out)
  have "res (unpark t (graph s)) key = Some Done" using assms(2) by (simp add: unpark_def)
  from decl_round_keeps [OF this, of t dkey pkey] st_resume_decl(1) show ?thesis
    by (simp add: decl_resume_def settle_graph)
next
  case (st_publish t label published g)
  with publish_keeps [OF assms(2), of label] show ?thesis by simp
qed (use acquire_keeps [OF assms(2)] decl_round_keeps [OF assms(2)] finish_keeps [OF assms(2)] assms(2) in
     \<open>simp_all add: settle_graph\<close>)

subsection \<open>A wait that times out as the load finishes\<close>

definition demo_timed_out :: loader where
  "demo_timed_out = demo_parked\<lparr>thr := (thr demo_parked)(1 := Woken (WRes (Pkg ''a'')) True)\<rparr>"

definition demo_finished :: loader where
  "demo_finished = demo_timed_out\<lparr>graph := snd (finish_resource (Pkg ''a'') FinishOk (graph demo_timed_out)),
     thr := notify_all (thr demo_timed_out)\<rparr>"

definition demo_reloaded :: loader where
  "demo_reloaded = settle 1 (WRes (Pkg ''a'')) (acquire_resume 1 (Pkg ''a'') True (graph demo_finished)) demo_finished"

lemma demo_owned_live: "live (graph demo_owned) = [Pkg ''a'' \<mapsto> 1]"
  by (simp add: demo_owned_def acquire_round_def settle_def loader_new_def wait_graph_new_def claim_def live_of_def)

lemma demo_finished_facts:
  "res (graph demo_finished) = [Pkg ''a'' \<mapsto> Done]" "live (graph demo_finished) = [Pkg ''a'' \<mapsto> 0]"
  "thr demo_finished 1 = Woken (WRes (Pkg ''a'')) True"
  by (auto simp: demo_finished_def demo_timed_out_def demo_parked_eq demo_owned_facts demo_owned_live park_def
      finish_resource_def live_of_def Let_def notify_all_def sweep_decls_def fun_eq_iff split: res_key.split)

lemma demo_finished_reachable: "sched_reachable {0, 1} demo_finished"
proof -
  have "sched_step {0, 1} demo_parked demo_timed_out"
    unfolding demo_timed_out_def by (rule st_wake) (rule demo_parked_facts)
  moreover have "sched_step {0, 1} demo_timed_out demo_finished"
    unfolding demo_finished_def
    by (rule st_finish [where t = 0]) (simp_all add: demo_timed_out_def demo_parked_facts)
  ultimately show ?thesis using demo_loader_reachable(2) unfolding sched_reachable_def
    by (meson rtranclp.rtrancl_into_rtrancl)
qed

lemma demo_reload_step: "sched_step {0, 1} demo_finished demo_reloaded"
  unfolding demo_reloaded_def by (rule st_resume_res) (rule demo_finished_facts)

lemma demo_reloaded_facts:
  "res (graph demo_reloaded) = [Pkg ''a'' \<mapsto> InFlight 1]" "live (graph demo_reloaded) = [Pkg ''a'' \<mapsto> 1]"
  by (simp_all add: demo_reloaded_def settle_graph acquire_resume_def Let_def claim_def unpark_def live_of_def demo_finished_facts)

theorem done_undone_only_by_timeout_witness:
  "\<exists>t. thr demo_finished t = Woken (WRes (Pkg ''a'')) True \<and> graph demo_reloaded = claim t (Pkg ''a'') (unpark t (graph demo_finished))"
  using done_undone_only_by_timeout [OF demo_reload_step, of "Pkg ''a''"] demo_finished_facts(1) demo_reloaded_facts(1) by simp

text \<open>A finished package can be loaded again and lost: a thread whose wait timed out does not look again before it
  takes the load over, and when its duplicate fails it is the last one and purges the results of the finished load.\<close>

theorem timeout_loses_finished_load:
  "\<exists>s s'. sched_reachable {0, 1} s \<and> res (graph s) (Pkg ''a'') = Some Done \<and> sched_step {0, 1} s s' \<and>
     res (graph s') (Pkg ''a'') = Some (InFlight 1) \<and> fst (finish_resource (Pkg ''a'') FailRetry (graph s'))"
proof -
  have "fst (finish_resource (Pkg ''a'') FailRetry (graph demo_reloaded))"
    by (simp add: finish_resource_def live_of_def demo_reloaded_facts Let_def)
  with demo_finished_reachable demo_reload_step demo_finished_facts(1) demo_reloaded_facts(1) show ?thesis
    by (intro exI [of _ demo_finished] exI [of _ demo_reloaded]) simp
qed

end
