(* ===== verification/Drive.thy ===== *)
theory Drive
  imports Incremental_Props
begin

section \<open>razel-build: the build driver\<close>

text \<open>
  \<^verbatim>\<open>crates/razel-build/src/drive.rs\<close>: the label a token of the command line stands for, the number of jobs,
  the deps-first order of the closure of a target, and the cold build through a fresh incremental builder.
  \<open>collect_order\<close> recurses over the dependencies with a set of names already entered; the model has fuel,
  and \<open>order_total\<close> shows that one more than the number of targets is always enough.
\<close>

definition canonical_target :: "string \<Rightarrow> string" where
  "canonical_target token =
     (if starts_with token ''//'' \<or> starts_with token ''@'' \<and> contains_str token ''//'' then token
      else ''//:'' @ rsplit_last token (CHR '':''))"

definition effective_jobs :: "nat \<Rightarrow> nat \<Rightarrow> nat" where
  "effective_jobs cores requested = (if requested = 0 then cores else requested)"

type_synonym order_state = "string list \<times> string set"

text \<open>The calls for the dependencies of one target, one after the other.\<close>

fun collect_each ::
    "(string \<Rightarrow> order_state \<Rightarrow> (string + order_state) option) \<Rightarrow> string list \<Rightarrow> order_state \<Rightarrow> (string + order_state) option" where
  "collect_each f [] st = Some (Ok st)"
| "collect_each f (d # ds) st =
     (case f d st of Some (Inr st) \<Rightarrow> collect_each f ds st | r \<Rightarrow> r)"

primrec collect_order ::
    "nat \<Rightarrow> (string \<rightharpoonup> analyzed_target) \<Rightarrow> string \<Rightarrow> order_state \<Rightarrow> (string + order_state) option" where
  "collect_order 0 by_name name st = None"
| "collect_order (Suc fuel) by_name name st =
     (case st of (order, seen) \<Rightarrow>
        if name \<in> seen then Some (Ok (order, seen))
        else (case by_name name of
                None \<Rightarrow> Some (Err (''unknown target: '' @ name))
              | Some t \<Rightarrow>
                  (case collect_each (collect_order fuel by_name) (at_deps t) (order, insert name seen) of
                     Some (Inr (order, seen)) \<Rightarrow> Some (Ok (order @ [name], seen))
                   | r \<Rightarrow> r)))"

record build_report =
  rep_produced :: "string list"
  rep_executed :: nat
  rep_default_outputs :: "string list"

text \<open>\<open>collect()\<close> into a map: the last target of a name wins.\<close>

definition targets_by_name :: "analyzed_target list \<Rightarrow> (string \<rightharpoonup> analyzed_target)" where
  "targets_by_name ts = map_of (rev (map (\<lambda>t. (at_name t, t)) ts))"

definition demanded :: "analyzed_target list \<Rightarrow> string \<Rightarrow> string + string list" where
  "demanded ts name =
     map_sum id fst (the (collect_order (Suc (length ts)) (targets_by_name ts) name ([], {})))"

definition produced_of :: "(string \<rightharpoonup> analyzed_target) \<Rightarrow> string list \<Rightarrow> string list" where
  "produced_of by_name order =
     concat (map (\<lambda>n. concat (map aa_outputs (at_actions (the (by_name n))))) order)"

text \<open>The count of executed actions is what the executor reports; it is left open here.\<close>

inductive execute_jobs ::
    "host \<Rightarrow> nat \<Rightarrow> analyzed_target list \<Rightarrow> string \<Rightarrow> string \<Rightarrow> nat \<Rightarrow> engine_error + build_report \<Rightarrow> bool"
  for h cores ts name root jobs where
  ej_order: "demanded ts name = Inl e \<Longrightarrow> execute_jobs h cores ts name root jobs (Inl (Fail e))"
| ej_configure: "demanded ts name = Inr order \<Longrightarrow> configure_targets h ts (builder_new root) = (Inl e, b) \<Longrightarrow>
    execute_jobs h cores ts name root jobs (Inl (Fail e))"
| ej_build: "demanded ts name = Inr order \<Longrightarrow> configure_targets h ts (builder_new root) = (Inr (), b) \<Longrightarrow>
    build name (effective_jobs cores jobs) b r b' \<Longrightarrow>
    execute_jobs h cores ts name root jobs
      (map_sum id (\<lambda>_. \<lparr>rep_produced = produced_of (targets_by_name ts) order, rep_executed = n,
          rep_default_outputs = (case order of [] \<Rightarrow> [] | _ \<Rightarrow> default_info (the (targets_by_name ts (last order))))\<rparr>) r)"

lemma canonical_target_examples:
  "canonical_target '':razel'' = ''//:razel''" "canonical_target ''razel'' = ''//:razel''"
  "canonical_target ''//a:b'' = ''//a:b''" "canonical_target ''@crates//:x'' = ''@crates//:x''"
  by code_simp+

subsection \<open>The order of the closure\<close>

definition target_deps :: "(string \<rightharpoonup> analyzed_target) \<Rightarrow> string \<Rightarrow> string set" where
  "target_deps by_name n = (case by_name n of None \<Rightarrow> {} | Some t \<Rightarrow> set (at_deps t))"

definition target_rel :: "(string \<rightharpoonup> analyzed_target) \<Rightarrow> (string \<times> string) set" where
  "target_rel by_name = {(n, d). d \<in> target_deps by_name n}"

text \<open>Every name comes after its dependencies, those in \<open>A\<close> aside.\<close>

fun deps_first :: "(string \<rightharpoonup> analyzed_target) \<Rightarrow> string set \<Rightarrow> string list \<Rightarrow> bool" where
  "deps_first by_name A [] \<longleftrightarrow> True"
| "deps_first by_name A (n # ns) \<longleftrightarrow> target_deps by_name n \<subseteq> A \<and> deps_first by_name (insert n A) ns"

lemma deps_first_append:
  "deps_first by_name A (xs @ ys) \<longleftrightarrow> deps_first by_name A xs \<and> deps_first by_name (A \<union> set xs) ys"
  by (induction xs arbitrary: A) auto

lemma deps_first_without:
  "deps_first by_name (insert x A) ns \<Longrightarrow> (\<And>n. n \<in> set ns \<Longrightarrow> x \<notin> target_deps by_name n) \<Longrightarrow> deps_first by_name A ns"
  by (induction ns arbitrary: A) (auto simp: insert_commute)

text \<open>What a call adds: names not seen before, each after its dependencies, all below the names asked for.\<close>

definition extends ::
    "(string \<rightharpoonup> analyzed_target) \<Rightarrow> string set \<Rightarrow> order_state \<Rightarrow> order_state \<Rightarrow> bool" where
  "extends by_name names st st' \<longleftrightarrow>
     (\<exists>new. fst st' = fst st @ new \<and> snd st' = snd st \<union> set new \<and> set new \<inter> snd st = {} \<and> distinct new \<and>
        deps_first by_name (snd st) new \<and> set new \<subseteq> dom by_name \<and> names \<subseteq> snd st' \<and>
        (\<forall>n \<in> set new. \<exists>m \<in> names. (m, n) \<in> (target_rel by_name)\<^sup>*))"

lemma extends_trans:
  assumes "extends by_name A st st1" "extends by_name B st1 st2"
  shows "extends by_name (A \<union> B) st st2"
proof -
  obtain xs ys where
    "fst st1 = fst st @ xs" "snd st1 = snd st \<union> set xs" "set xs \<inter> snd st = {}" "distinct xs" "deps_first by_name (snd st) xs"
    "set xs \<subseteq> dom by_name" "A \<subseteq> snd st1" "\<forall>n \<in> set xs. \<exists>m \<in> A. (m, n) \<in> (target_rel by_name)\<^sup>*"
    "fst st2 = fst st1 @ ys" "snd st2 = snd st1 \<union> set ys" "set ys \<inter> snd st1 = {}" "distinct ys" "deps_first by_name (snd st1) ys"
    "set ys \<subseteq> dom by_name" "B \<subseteq> snd st2" "\<forall>n \<in> set ys. \<exists>m \<in> B. (m, n) \<in> (target_rel by_name)\<^sup>*"
    using assms unfolding extends_def by blast
  then show ?thesis unfolding extends_def by (intro exI [of _ "xs @ ys"]) (auto simp: deps_first_append)
qed

lemma each_extends:
  assumes "\<And>d st st'. d \<in> set ds \<Longrightarrow> f d st = Some (Inr st') \<Longrightarrow> extends by_name {d} st st'"
  shows "collect_each f ds st = Some (Inr st') \<Longrightarrow> extends by_name (set ds) st st'"
  using assms
proof (induction ds arbitrary: st)
  case Nil
  then show ?case by (simp add: extends_def)
next
  case (Cons d ds)
  then obtain st1 where "f d st = Some (Inr st1)" "collect_each f ds st1 = Some (Inr st')"
    by (auto split: option.splits sum.splits)
  with Cons extends_trans [of by_name "{d}" st st1 "set ds" st'] show ?case by simp
qed

lemma collect_extends:
  assumes "acyclic (target_rel by_name)"
  shows "collect_order fuel by_name name st = Some (Inr st') \<Longrightarrow> extends by_name {name} st st'"
proof (induction fuel arbitrary: name st st')
  case (Suc fuel)
  obtain order seen where st: "st = (order, seen)" by force
  show ?case
  proof (cases "name \<in> seen")
    case True
    with Suc.prems st show ?thesis by (auto simp: extends_def)
  next
    case False
    with Suc.prems st obtain t o1 s1 where t: "by_name name = Some t" "st' = (o1 @ [name], s1)"
      "collect_each (collect_order fuel by_name) (at_deps t) (order, insert name seen) = Some (Inr (o1, s1))"
      by (auto split: option.splits sum.splits)
    from each_extends [OF Suc.IH t(3)] obtain new where new: "o1 = order @ new" "s1 = insert name seen \<union> set new"
      "set new \<inter> insert name seen = {}" "distinct new" "deps_first by_name (insert name seen) new" "set new \<subseteq> dom by_name"
      "set (at_deps t) \<subseteq> s1" "\<forall>n \<in> set new. \<exists>m \<in> set (at_deps t). (m, n) \<in> (target_rel by_name)\<^sup>*"
      unfolding extends_def by auto
    have deps: "target_deps by_name name = set (at_deps t)" using t(1) by (simp add: target_deps_def)
    have below: "(name, n) \<in> (target_rel by_name)\<^sup>+" if "n \<in> set new" for n
      using new(8) that deps by (auto simp: target_rel_def intro: rtrancl_into_trancl2)
    have no_back: "name \<notin> target_deps by_name n" if "n = name \<or> n \<in> set new" for n
    proof
      assume "name \<in> target_deps by_name n"
      then have "(n, name) \<in> target_rel by_name" by (simp add: target_rel_def)
      with below that have "(name, name) \<in> (target_rel by_name)\<^sup>+" by (blast intro: trancl_into_trancl)
      with assms show False by (simp add: acyclic_def)
    qed
    have "deps_first by_name seen new" using deps_first_without [OF new(5)] no_back by blast
    moreover have "target_deps by_name name \<subseteq> seen \<union> set new" using new(2,7) no_back [of name] deps by auto
    moreover have "\<forall>n \<in> set (new @ [name]). (name, n) \<in> (target_rel by_name)\<^sup>*" using below by (auto intro: trancl_into_rtrancl)
    ultimately show ?thesis unfolding extends_def using new t(1,2) st False
      by (intro exI [of _ "new @ [name]"]) (auto simp: deps_first_append)
  qed
qed simp

subsection \<open>One more than the number of targets is fuel enough\<close>

lemma each_total:
  assumes "\<And>d st. d \<in> set ds \<Longrightarrow> S \<subseteq> snd st \<Longrightarrow> \<exists>r. f d st = Some r \<and> (\<forall>st'. r = Inr st' \<longrightarrow> snd st \<subseteq> snd st')" "S \<subseteq> snd st"
  shows "\<exists>r. collect_each f ds st = Some r \<and> (\<forall>st'. r = Inr st' \<longrightarrow> snd st \<subseteq> snd st')"
  using assms
proof (induction ds arbitrary: st)
  case (Cons d ds)
  obtain r where r: "f d st = Some r" "\<And>st'. r = Inr st' \<Longrightarrow> snd st \<subseteq> snd st'" using Cons.prems by (meson list.set_intros(1))
  show ?case
  proof (cases r)
    case (Inr st1)
    with r(2) Cons.prems(2) have "S \<subseteq> snd st1" by blast
    with Cons obtain r2 where "collect_each f ds st1 = Some r2" "\<forall>st'. r2 = Inr st' \<longrightarrow> snd st1 \<subseteq> snd st'"
      by (meson list.set_intros(2))
    with r Inr show ?thesis by auto
  qed (use r in simp)
qed simp

lemma order_total:
  assumes "finite (dom by_name)"
  shows "card (dom by_name - snd st) < fuel \<Longrightarrow>
    \<exists>r. collect_order fuel by_name name st = Some r \<and> (\<forall>st'. r = Inr st' \<longrightarrow> snd st \<subseteq> snd st')"
proof (induction fuel arbitrary: name st)
  case (Suc fuel)
  obtain order seen where st: "st = (order, seen)" by force
  show ?case
  proof (cases "name \<in> seen \<or> by_name name = None")
    case True
    with st show ?thesis by auto
  next
    case False
    then obtain t where t: "name \<notin> seen" "by_name name = Some t" by auto
    have "card (dom by_name - insert name seen) < card (dom by_name - seen)"
      using assms t by (intro psubset_card_mono) auto
    then have less: "card (dom by_name - insert name seen) < fuel" using Suc.prems st by simp
    have step: "\<exists>r. collect_order fuel by_name d st' = Some r \<and> (\<forall>st''. r = Inr st'' \<longrightarrow> snd st' \<subseteq> snd st'')"
      if "insert name seen \<subseteq> snd st'" for d st'
    proof (rule Suc.IH)
      have "card (dom by_name - snd st') \<le> card (dom by_name - insert name seen)"
        using assms that by (intro card_mono) auto
      with less show "card (dom by_name - snd st') < fuel" by simp
    qed
    obtain r where r: "collect_each (collect_order fuel by_name) (at_deps t) (order, insert name seen) = Some r"
      "\<forall>st'. r = Inr st' \<longrightarrow> insert name seen \<subseteq> snd st'"
      using each_total [of "at_deps t" "insert name seen" "collect_order fuel by_name" "(order, insert name seen)"] step by auto
    with st t show ?thesis by (cases r) auto
  qed
qed simp

lemma demanded_collect:
  obtains r where "collect_order (Suc (length ts)) (targets_by_name ts) name ([], {}) = Some r" "demanded ts name = map_sum id fst r"
proof -
  have dom: "dom (targets_by_name ts) = at_name ` set ts"
    by (simp add: targets_by_name_def dom_map_of_conv_image_fst image_image)
  then have "card (dom (targets_by_name ts) - snd ([] :: string list, {})) < Suc (length ts)"
    using card_image_le [of "set ts" at_name] card_length [of ts] by simp
  moreover have "finite (dom (targets_by_name ts))" using dom by simp
  ultimately obtain r where "collect_order (Suc (length ts)) (targets_by_name ts) name ([], {}) = Some r"
    using order_total by meson
  then show thesis by (intro that [of r]) (simp_all only: demanded_def option.sel)
qed

text \<open>C27: The closure of a target is executed deps first: when the dependencies have no cycle the order lists exactly the
  names the target reaches, each once and after all its dependencies, and the target itself last.\<close>

theorem demanded_order:
  assumes "acyclic (target_rel (targets_by_name ts))" "demanded ts name = Inr order"
  shows "distinct order \<and> set order = {n. (name, n) \<in> (target_rel (targets_by_name ts))\<^sup>*} \<and>
    deps_first (targets_by_name ts) {} order \<and> last order = name"
proof -
  let ?by = "targets_by_name ts"
  obtain r where r: "collect_order (Suc (length ts)) ?by name ([], {}) = Some r" "demanded ts name = map_sum id fst r"
    by (rule demanded_collect)
  with assms(2) obtain seen where rs: "r = Inr (order, seen)" by (cases r) auto
  have "extends ?by {name} ([], {}) (order, seen)" by (rule collect_extends [OF assms(1) r(1) [unfolded rs]])
  then have o: "distinct order" "deps_first ?by {} order" "name \<in> set order" "\<forall>n \<in> set order. (name, n) \<in> (target_rel ?by)\<^sup>*"
    unfolding extends_def by auto
  have "n \<in> set order" if "(name, n) \<in> (target_rel ?by)\<^sup>*" for n
    using that
  proof (induction rule: rtrancl_induct)
    case base
    show ?case by (rule o(3))
  next
    case (step m n)
    then obtain xs ys where "order = xs @ m # ys" by (meson split_list)
    with o(2) step.hyps(2) show ?case by (auto simp: deps_first_append target_rel_def)
  qed
  moreover have "last order = name"
    using r(1) rs o(3) by (auto split: option.splits sum.splits)
  ultimately show ?thesis using o by auto
qed

definition demo_two :: "analyzed_target list" where
  "demo_two =
     [\<lparr>at_name = ''a'', at_deps = [''b''], at_actions = [], default_info = [], at_providers = []\<rparr>,
      \<lparr>at_name = ''b'', at_deps = [], at_actions = [], default_info = [], at_providers = []\<rparr>]"

theorem demanded_order_witness: "distinct [''b'', ''a''] \<and> deps_first (targets_by_name demo_two) {} [''b'', ''a'']"
proof -
  have "target_rel (targets_by_name demo_two) \<subseteq> {(''a'', ''b'')}"
    by (auto simp: target_rel_def target_deps_def targets_by_name_def demo_two_def split: if_splits)
  moreover have "acyclic ({} :: (string \<times> string) set)" by (simp add: acyclic_def)
  then have "acyclic {(''a'', ''b'')}" by (simp add: acyclic_insert)
  ultimately have "acyclic (target_rel (targets_by_name demo_two))" by (rule acyclic_subset [rotated])
  moreover have "demanded demo_two ''a'' = Inr [''b'', ''a'']"
    by (simp add: demanded_def demo_two_def targets_by_name_def)
  ultimately show ?thesis using demanded_order [of demo_two "''a''"] by simp
qed

end
