(* ===== verification/Actor.thy ===== *)
theory Actor
  imports Drive
begin

section \<open>razel-daemon: the warm-build actor\<close>

text \<open>
  \<^verbatim>\<open>crates/razel-daemon/src/actor.rs\<close>, with the watcher callback of \<^verbatim>\<open>rpc.rs\<close>.  One thread owns the
  incremental builder and serves the requests of its inbox; the file watcher and the client connections
  share with it the queue of changed paths, the set of generated outputs and two flags.  The actor's code
  is cut at the points where it reads or writes what is shared (a \<open>phase\<close> of its thread); what other
  threads do between two phases are steps of their own.  The workspace is a directory tree; the loader and
  the option parser are parameters of the tree they read.  The loader may fail or panic (it runs on the
  actor's thread, with nothing to catch a panic) and may change the tree, where it fetches crates.
  Progress lines are left out, and the count of executed actions, which the executor reports, is open.
  A build is one step: it reads nothing of the tree beyond the digests that were folded into the builder,
  since the executor of \<open>Incremental\<close> is a function of an action and its input digests.  So a file that
  is edited while an action reads it is outside this model.  No lock can be poisoned: what the code does while it
  holds one of the queue, the set of outputs or the snapshot cannot panic.
\<close>

subsection \<open>Messages, results, the live snapshot\<close>

datatype target_class = TLibrary | TBinary | TTest

datatype build_status = StCached | StBuilt | StFailed

record build_result =
  br_target :: string
  br_status :: build_status
  br_recomputes :: int
  br_outputs :: "(string \<times> byte list) list"
  br_message :: "string option"

record target_status =
  ts_label :: string
  ts_kind :: target_class
  ts_status :: build_status
  ts_digest :: "byte list"

record build_state =
  bs_revision :: int
  bs_targets :: "target_status list"

definition class_of_name :: "string \<Rightarrow> target_class" where
  "class_of_name name =
     (if ends_with name ''_test'' then TTest else if ends_with name ''_binary'' then TBinary else TLibrary)"

definition status_of :: "build_result \<Rightarrow> target_status" where
  "status_of result =
     \<lparr>ts_label = br_target result, ts_kind = class_of_name (rsplit_last (br_target result) (CHR '':'')),
      ts_status = br_status result,
      ts_digest = (case br_outputs result of [] \<Rightarrow> [] | (_, d) # _ \<Rightarrow> d)\<rparr>"

definition commit_snapshot :: "build_result \<Rightarrow> build_state \<Rightarrow> build_state" where
  "commit_snapshot result st =
     (let ts = status_of result
      in st\<lparr>bs_targets := sort_key ts_label (filter (\<lambda>t. ts_label t \<noteq> ts_label ts) (bs_targets st) @ [ts]),
            bs_revision := bs_revision st + 1\<rparr>)"

subsection \<open>The world\<close>

record 'f world =
  w_host :: host
  w_root :: string
  w_parse :: "fs \<Rightarrow> string list \<Rightarrow> string + ('f \<times> string list)"
  w_jobs :: "'f \<Rightarrow> nat"
  w_cores :: nat
  w_flags_text :: "'f \<Rightarrow> string"
  w_analyze :: "fs \<Rightarrow> string \<Rightarrow> 'f \<Rightarrow> (engine_error + analyzed_target list \<times> string) \<times> fs"
  w_cache :: "string option"

subsection \<open>The execution root\<close>

text \<open>
  A build of external crates runs in \<open>.razel-exec\<close> below the workspace, a directory of links to the entries of the
  workspace and of one link to the fetched crates (\<^verbatim>\<open>crates/razel-build/src/exec_root.rs\<close>); any other build runs
  in the workspace.  A link of the tree leads to a path from the workspace's root.
\<close>

definition infra_dir :: "string \<Rightarrow> bool" where
  "infra_dir n \<longleftrightarrow>
     starts_with n ''.razel-'' \<or> starts_with n ''.git'' \<or>
     n \<in> {''target'', ''bazel-out'', ''razel-out'', ''razel-bin'', ''razel-testlogs''}"

definition prepare_exec_root :: "fs \<Rightarrow> (string + unit) \<times> fs" where
  "prepare_exec_root t =
     (case t of
        Dir es \<Rightarrow>
          (case bm_get es ''.razel-exec'' of
             Some (File _) \<Rightarrow> (Inl ''File exists'', t)
           | _ \<Rightarrow>
               (let names = filter (\<lambda>n. \<not> infra_dir n) (map fst es);
                    links = map (\<lambda>n. (n, Link n)) names;
                    put = (\<lambda>ls. Dir (bm_insert ''.razel-exec'' (Dir ls) es))
                in case fs_read t t [''.razel-crates''] of
                     Some (Dir _) \<Rightarrow>
                       if ''external'' \<in> set names then (Inl ''File exists'', put links)
                       else (Inr (), put (bm_insert ''external'' (Link ''.razel-crates'') links))
                   | _ \<Rightarrow> (Inr (), put links)))
      | _ \<Rightarrow> (Inl ''Not a directory'', t))"

definition forest_root :: "'f world \<Rightarrow> string" where
  "forest_root w = w_root w @ ''/.razel-exec''"

definition exec_root_for :: "'f world \<Rightarrow> fs \<Rightarrow> (string + string) \<times> fs" where
  "exec_root_for w t =
     (case fs_read t t [''.razel-crates''] of
        Some (Dir _) \<Rightarrow>
          (case prepare_exec_root t of
             (Inl e, t) \<Rightarrow> (Inl (''prepare exec root: '' @ e), t)
           | (Inr _, t) \<Rightarrow> (Inr (forest_root w), t))
      | _ \<Rightarrow> (Inr (w_root w), t))"

text \<open>What a path names below an execution root, and its digest there.\<close>

definition seen_at :: "'f world \<Rightarrow> string \<Rightarrow> fs \<Rightarrow> string \<Rightarrow> fs option" where
  "seen_at w root t p = fs_read t t ((if root = w_root w then [] else [''.razel-exec'']) @ comps p)"

definition disk :: "'f world \<Rightarrow> string \<Rightarrow> fs \<Rightarrow> string \<Rightarrow> digest option" where
  "disk w root t p = Option.bind (seen_at w root t p) (\<lambda>u. digest_path (host_hash (w_host w)) u [])"

definition host_at :: "'f world \<Rightarrow> string \<Rightarrow> fs \<Rightarrow> host" where
  "host_at w root t = (w_host w)\<lparr>file_digest_at := disk w root t\<rparr>"

subsection \<open>The digest of the graph-shape files\<close>

definition is_watch_excluded :: "string \<Rightarrow> bool" where
  "is_watch_excluded rel \<longleftrightarrow> (\<exists>c \<in> set (comps rel). infra_dir c)"

function (sequential) collect_build_files :: "path \<Rightarrow> (string \<times> fs) list \<Rightarrow> path list" where
  "collect_build_files dir [] = []"
| "collect_build_files dir ((n, s) # es) =
     (case s of
        Dir ds \<Rightarrow> if infra_dir n then [] else collect_build_files (dir @ [n]) ds
      | _ \<Rightarrow> if n \<in> {''BUILD'', ''BUILD.bazel''} then [dir @ [n]] else []) @ collect_build_files dir es"
  by pat_completeness auto
termination
  by (relation "measure (\<lambda>(dir, es). size_list (\<lambda>e. Suc (size (snd e))) es)") (auto simp: size_prod_entry)

definition shape_entry :: "fs \<Rightarrow> string \<Rightarrow> byte list" where
  "shape_entry t f =
     (case fs_read t t (comps f) of Some (File bytes) \<Rightarrow> str_bytes f @ [0] @ bytes @ [0] | _ \<Rightarrow> [])"

text \<open>\<open>flags_text\<close> is the debug text of the flags with the number of jobs set to 0.\<close>

definition compute_analysis_digest :: "(byte list \<Rightarrow> byte list) \<Rightarrow> fs \<Rightarrow> string \<Rightarrow> digest" where
  "compute_analysis_digest hash t flags_text =
     (let fixed = [''MODULE.bazel'', ''MODULE.bazel.lock'', ''.bazelrc'', ''.razelrc''];
          entries = (case t of Dir es \<Rightarrow> es | _ \<Rightarrow> []);
          build_files = sort (map (join_with ''/'') (collect_build_files [] entries))
      in digest_of hash (concat (map (shape_entry t) fixed) @ concat (map (shape_entry t) build_files) @
           str_bytes (''flags:'' @ flags_text)))"

subsection \<open>The actor\<close>

record analysis =
  an_digest :: digest
  an_token :: string
  an_targets :: "analyzed_target list"
  an_build_name :: string

record actor =
  ac_exec_root :: string
  ac_builder :: "builder option"
  ac_analysis :: "analysis option"
  ac_cancel :: bool
  ac_aborted :: bool
  ac_pending :: "string list"
  ac_outputs :: "string list"
  ac_analyses :: nat
  ac_jobs :: nat
  ac_state :: build_state

definition actor_new :: "'f world \<Rightarrow> actor" where
  "actor_new w =
     \<lparr>ac_exec_root = w_root w, ac_builder = None, ac_analysis = None, ac_cancel = False, ac_aborted = False,
      ac_pending = [], ac_outputs = [], ac_analyses = 0, ac_jobs = 0,
      ac_state = \<lparr>bs_revision = 0, bs_targets = []\<rparr>\<rparr>"

text \<open>One change of \<open>apply_pending_changes\<close>; \<open>Inl\<close> is a panic.\<close>

definition fold_change :: "'f world \<Rightarrow> fs \<Rightarrow> string \<Rightarrow> actor \<Rightarrow> engine_error + actor" where
  "fold_change w t rel a =
     (case ac_builder a of
        Some b \<Rightarrow>
          if knows_leaf rel b then map_sum id (\<lambda>b. a\<lparr>ac_builder := Some b\<rparr>) (sync_file (host_at w (exec_root b) t) rel b)
          else Inr (a\<lparr>ac_analysis := None\<rparr>)
      | None \<Rightarrow> Inr (a\<lparr>ac_analysis := None\<rparr>))"

definition analysis_hit :: "digest \<Rightarrow> string \<Rightarrow> actor \<Rightarrow> bool" where
  "analysis_hit dg token a \<longleftrightarrow>
     (case ac_analysis a of Some n \<Rightarrow> an_digest n = dg \<and> an_token n = token | None \<Rightarrow> False)"

definition analyzed ::
    "'f world \<Rightarrow> fs \<Rightarrow> string \<Rightarrow> 'f \<Rightarrow> bool \<Rightarrow> actor \<Rightarrow> (engine_error + analyzed_target list \<times> string \<times> bool) \<times> fs" where
  "analyzed w t token flags hit a =
     (let fresh = map_prod (map_sum id (\<lambda>(ts, n). (ts, n, True))) id (w_analyze w t (canonical_target token) flags)
      in case ac_analysis a of
           Some n \<Rightarrow> if hit then (Inr (an_targets n, an_build_name n, False), t) else fresh
         | None \<Rightarrow> fresh)"

text \<open>The outcome, the actor and the tree that \<open>ensure_analysis\<close> leaves.\<close>

definition ensure_analysis ::
    "'f world \<Rightarrow> fs \<Rightarrow> string \<Rightarrow> 'f \<Rightarrow> actor \<Rightarrow> (engine_error + string) \<times> actor \<times> fs" where
  "ensure_analysis w t token flags a =
     (let dg = compute_analysis_digest (host_hash (w_host w)) t (w_flags_text w flags);
          hit = analysis_hit dg token a
      in if hit \<and> ac_builder a \<noteq> None then (Inr (an_build_name (the (ac_analysis a))), a, t)
         else
           (case analyzed w t token flags hit a of
              (Inl e, t) \<Rightarrow> (Inl e, a, t)
            | (Inr (targets, build_name, reanalyzed), t) \<Rightarrow>
                (case exec_root_for w t of
                   (Inl e, t) \<Rightarrow> (Inl (Fail e), a, t)
                 | (Inr root, t) \<Rightarrow>
                     (let a = a\<lparr>ac_exec_root := root\<rparr>
                      in case w_cache w of
                           Some e \<Rightarrow> (Inl (Fail e), a, t)
                         | None \<Rightarrow>
                             (case configure_targets (host_at w root t) targets (builder_new root) of
                                (Inl e, b) \<Rightarrow> (Inl (Fail e), a, t)
                              | (Inr _, b) \<Rightarrow>
                                  (let a = a\<lparr>ac_outputs := output_paths b, ac_builder := Some b\<rparr>
                                   in (Inr build_name,
                                       if reanalyzed then
                                         a\<lparr>ac_analysis := Some \<lparr>an_digest = dg, an_token = token, an_targets = targets,
                                                               an_build_name = build_name\<rparr>,
                                           ac_analyses := ac_analyses a + 1\<rparr>
                                       else a,
                                       t)))))))"

definition default_info_for :: "actor \<Rightarrow> string \<Rightarrow> string list" where
  "default_info_for a name =
     (case ac_analysis a of
        None \<Rightarrow> []
      | Some n \<Rightarrow> (case List.find (\<lambda>t. at_name t = name) (an_targets n) of None \<Rightarrow> [] | Some t \<Rightarrow> default_info t))"

text \<open>The outputs below the execution root are verified when nothing was executed: \<open>None\<close> asks for another pass.\<close>

definition verify_outputs ::
    "'f world \<Rightarrow> fs \<Rightarrow> string \<Rightarrow> bool \<Rightarrow> string \<Rightarrow> nat \<Rightarrow> (string \<times> digest) list \<Rightarrow> actor \<Rightarrow> build_result option \<times> actor" where
  "verify_outputs w t token rematerialized name n outs a =
     (if n = 0 \<and> \<not> rematerialized \<and> (\<exists>p \<in> set (default_info_for a name). seen_at w (ac_exec_root a) t p = None)
      then (None, a\<lparr>ac_builder := None, ac_analysis := None\<rparr>)
      else (Some \<lparr>br_target = token, br_status = (if n = 0 then StCached else StBuilt), br_recomputes = int n,
                  br_outputs = map (\<lambda>(p, d). (p, digest_bytes d)) outs, br_message = None\<rparr>, a))"

subsection \<open>The thread of the actor and its surroundings\<close>

datatype message = MBuild "string list" | MInvalidate | MInvalidateExecution | MShutdown

type_synonym outcome = "string + build_result"

record 'f build_request =
  rq_args :: "string list"
  rq_flags :: 'f
  rq_token :: string
  rq_remat :: bool

text \<open>
  Where the actor's thread is: waiting for a message; at the top of the restart loop, before each of the two
  flags is cleared; before it takes the queue; folding what it took; in the attempt; before it reads
  \<open>aborted\<close>, then \<open>cancel\<close>, then the queue; before it commits and replies.
\<close>

datatype 'f actor_phase =
  Idle | Stopped | Panicked string
| Head "string list" | Clearing "string list" | Draining "string list" | Folding "string list" "string list"
| Ensuring "'f build_request" | Building "'f build_request" string | Reading "'f build_request" string nat
| Verifying "'f build_request" string nat "(string \<times> digest) list"
| Finished "string list" outcome | Asking "string list" outcome | Looking "string list" outcome | Closing outcome

text \<open>
  \<open>sys_raised\<close> holds the paths that changed and whose event the watcher has not handled yet, \<open>sys_dropped\<close>
  those whose event it filtered out or never gets.  Neither is read by the code: they are bookkeeping, and
  \<open>sys_dropped\<close> starts again when a builder is configured, which reads everything afresh.
\<close>

record 'f system =
  sys_actor :: actor
  sys_phase :: "'f actor_phase"
  sys_inbox :: "message list"
  sys_replies :: "outcome list"
  sys_tree :: fs
  sys_raised :: "string set"
  sys_dropped :: "string set"

definition system_new :: "'f world \<Rightarrow> fs \<Rightarrow> 'f system" where
  "system_new w t =
     \<lparr>sys_actor = actor_new w, sys_phase = Idle, sys_inbox = [], sys_replies = [], sys_tree = t,
      sys_raised = {}, sys_dropped = {}\<rparr>"

text \<open>
  A change of one path can change its own digest and those of the directories above it.  Where an execution root
  shows the same change under other names (\<open>external/x\<close> for \<open>.razel-crates/x\<close>), no event names those.
\<close>

definition above :: "string \<Rightarrow> string \<Rightarrow> bool" where
  "above q p \<longleftrightarrow> prefix (comps q) (comps p)"

definition filtered :: "actor \<Rightarrow> string \<Rightarrow> bool" where
  "filtered a p \<longleftrightarrow> is_watch_excluded p \<or> p \<in> set (ac_outputs a)"

fun recv :: "message \<Rightarrow> actor \<Rightarrow> 'f actor_phase \<times> actor" where
  "recv (MBuild args) a = (Head args, a)"
| "recv MInvalidate a = (Idle, a\<lparr>ac_builder := None, ac_analysis := None\<rparr>)"
| "recv MInvalidateExecution a = (Idle, a\<lparr>ac_builder := None\<rparr>)"
| "recv MShutdown a = (Stopped, a)"

definition begin_attempt :: "'f world \<Rightarrow> fs \<Rightarrow> string list \<Rightarrow> actor \<Rightarrow> 'f actor_phase \<times> actor" where
  "begin_attempt w t args a =
     (case w_parse w t args of
        Inl e \<Rightarrow> (Finished args (Inl e), a)
      | Inr (flags, positionals) \<Rightarrow>
          (let a = a\<lparr>ac_jobs := effective_jobs (w_cores w) (w_jobs w flags)\<rparr>
           in if positionals = [] then (Finished args (Inl ''build: no target specified''), a)
              else (Ensuring \<lparr>rq_args = args, rq_flags = flags, rq_token = last positionals, rq_remat = False\<rparr>, a)))"

text \<open>An engine error ends the attempt, a panic the thread.\<close>

fun failed :: "string list \<Rightarrow> engine_error \<Rightarrow> 'f actor_phase" where
  "failed args (Fail e) = Finished args (Inl e)"
| "failed args (Panic m) = Panicked m"

definition raced :: "outcome \<Rightarrow> bool" where
  "raced r \<longleftrightarrow> r = Inl ''cancelled''"

definition changed :: "'f world \<Rightarrow> fs \<Rightarrow> fs \<Rightarrow> string set" where
  "changed w t t' = {q. \<exists>root. disk w root t' q \<noteq> disk w root t q}"

inductive actor_step :: "'f world \<Rightarrow> 'f system \<Rightarrow> 'f system \<Rightarrow> bool" for w where
  env_edit: "(\<And>q. q \<in> changed w (sys_tree s) t \<Longrightarrow> \<exists>x \<in> insert p others. above q x) \<Longrightarrow>
    actor_step w s (s\<lparr>sys_tree := t, sys_raised := insert p (sys_raised s), sys_dropped := others \<union> sys_dropped s\<rparr>)"
| env_filtered: "p \<in> sys_raised s \<Longrightarrow> filtered (sys_actor s) p \<Longrightarrow>
    actor_step w s (s\<lparr>sys_raised := sys_raised s - {p}, sys_dropped := insert p (sys_dropped s)\<rparr>)"
| env_push: "p \<in> sys_raised s \<Longrightarrow> \<not> filtered (sys_actor s) p \<Longrightarrow>
    actor_step w s (s\<lparr>sys_raised := sys_raised s - {p},
      sys_actor := (sys_actor s)\<lparr>ac_pending := ac_pending (sys_actor s) @ [p]\<rparr>\<rparr>)"
| env_cancel: "actor_step w s (s\<lparr>sys_actor := (sys_actor s)\<lparr>ac_cancel := True\<rparr>\<rparr>)"
| env_abort: "actor_step w s (s\<lparr>sys_actor := (sys_actor s)\<lparr>ac_aborted := True\<rparr>\<rparr>)"
| env_send: "actor_step w s (s\<lparr>sys_inbox := sys_inbox s @ [m]\<rparr>)"
| act_recv: "sys_phase s = Idle \<Longrightarrow> sys_inbox s = m # ms \<Longrightarrow> recv m (sys_actor s) = (ph, a) \<Longrightarrow>
    actor_step w s (s\<lparr>sys_inbox := ms, sys_phase := ph, sys_actor := a\<rparr>)"
| act_head: "sys_phase s = Head args \<Longrightarrow>
    actor_step w s (s\<lparr>sys_phase := Clearing args, sys_actor := (sys_actor s)\<lparr>ac_cancel := False\<rparr>\<rparr>)"
| act_clear: "sys_phase s = Clearing args \<Longrightarrow>
    actor_step w s (s\<lparr>sys_phase := Draining args, sys_actor := (sys_actor s)\<lparr>ac_aborted := False\<rparr>\<rparr>)"
| act_drain: "sys_phase s = Draining args \<Longrightarrow>
    actor_step w s (s\<lparr>sys_phase := Folding args (ac_pending (sys_actor s)), sys_actor := (sys_actor s)\<lparr>ac_pending := []\<rparr>\<rparr>)"
| act_fold: "sys_phase s = Folding args (p # ps) \<Longrightarrow> fold_change w (sys_tree s) p (sys_actor s) = Inr a \<Longrightarrow>
    actor_step w s (s\<lparr>sys_phase := Folding args ps, sys_actor := a\<rparr>)"
| act_fold_panic: "sys_phase s = Folding args (p # ps) \<Longrightarrow> fold_change w (sys_tree s) p (sys_actor s) = Inl e \<Longrightarrow>
    actor_step w s (s\<lparr>sys_phase := failed args e\<rparr>)"
| act_begin: "sys_phase s = Folding args [] \<Longrightarrow> begin_attempt w (sys_tree s) args (sys_actor s) = (ph, a) \<Longrightarrow>
    actor_step w s (s\<lparr>sys_phase := ph, sys_actor := a\<rparr>)"
| act_ensure: "sys_phase s = Ensuring rq \<Longrightarrow>
    ensure_analysis w (sys_tree s) (rq_token rq) (rq_flags rq) (sys_actor s) = (r, a, t) \<Longrightarrow>
    actor_step w s (s\<lparr>sys_phase := (case r of Inl e \<Rightarrow> failed (rq_args rq) e | Inr name \<Rightarrow> Building rq name),
      sys_actor := a, sys_tree := t,
      sys_dropped := (if ac_builder a = ac_builder (sys_actor s) then changed w (sys_tree s) t \<union> sys_dropped s else {})\<rparr>)"
| act_no_builder: "sys_phase s = Building rq name \<Longrightarrow> ac_builder (sys_actor s) = None \<Longrightarrow>
    actor_step w s (s\<lparr>sys_phase := Panicked ''analysis populated the builder''\<rparr>)"
| act_build: "sys_phase s = Building rq name \<Longrightarrow> ac_builder (sys_actor s) = Some b \<Longrightarrow>
    (\<And>i. flag i \<Longrightarrow> ac_cancel (sys_actor s)) \<Longrightarrow>
    build name (ac_jobs (sys_actor s)) (engine_set_cancel (Some flag) b) r b' \<Longrightarrow>
    actor_step w s (s\<lparr>sys_phase := (case r of Inl e \<Rightarrow> failed (rq_args rq) e | Inr _ \<Rightarrow> Reading rq name n),
      sys_actor := (sys_actor s)\<lparr>ac_builder := Some b'\<rparr>\<rparr>)"
| act_read: "sys_phase s = Reading rq name n \<Longrightarrow> ac_builder (sys_actor s) = Some b \<Longrightarrow>
    (\<And>i. flag i \<Longrightarrow> ac_cancel (sys_actor s)) \<Longrightarrow>
    produced_outputs (host_at w (exec_root b) (sys_tree s)) (default_info_for (sys_actor s) name) [] (engine_set_cancel (Some flag) b) = (r, b') \<Longrightarrow>
    actor_step w s (s\<lparr>sys_phase := (case r of Inl e \<Rightarrow> failed (rq_args rq) e | Inr outs \<Rightarrow> Verifying rq name n outs),
      sys_actor := (sys_actor s)\<lparr>ac_builder := Some b'\<rparr>\<rparr>)"
| act_verify: "sys_phase s = Verifying rq name n outs \<Longrightarrow>
    verify_outputs w (sys_tree s) (rq_token rq) (rq_remat rq) name n outs (sys_actor s) = (r, a) \<Longrightarrow>
    actor_step w s (s\<lparr>sys_phase := (case r of None \<Rightarrow> Ensuring (rq\<lparr>rq_remat := True\<rparr>) | Some res \<Rightarrow> Finished (rq_args rq) (Inr res)),
      sys_actor := a\<rparr>)"
| act_finished: "sys_phase s = Finished args r \<Longrightarrow>
    actor_step w s (s\<lparr>sys_phase := (if ac_aborted (sys_actor s) then Closing r else Asking args r)\<rparr>)"
| act_asking: "sys_phase s = Asking args r \<Longrightarrow>
    actor_step w s (s\<lparr>sys_phase := (if raced r \<or> ac_cancel (sys_actor s) then Head args else Looking args r)\<rparr>)"
| act_looking: "sys_phase s = Looking args r \<Longrightarrow>
    actor_step w s (s\<lparr>sys_phase := (if ac_pending (sys_actor s) \<noteq> [] then Head args else Closing r)\<rparr>)"
| act_close: "sys_phase s = Closing r \<Longrightarrow>
    actor_step w s (s\<lparr>sys_phase := Idle, sys_replies := sys_replies s @ [r],
      sys_actor := (case r of Inl e \<Rightarrow> sys_actor s
        | Inr res \<Rightarrow> (sys_actor s)\<lparr>ac_state := commit_snapshot res (ac_state (sys_actor s))\<rparr>)\<rparr>)"

definition actor_reachable :: "'f world \<Rightarrow> fs \<Rightarrow> 'f system \<Rightarrow> bool" where
  "actor_reachable w t s \<longleftrightarrow> (actor_step w)\<^sup>*\<^sup>* (system_new w t) s"

section \<open>A warm builder that lags behind the disk\<close>

text \<open>
  While edits arrive the leaves of the warm builder are those of an older disk, path by path.  \<open>tracks\<close>
  relates the builder to the disk it has seen; folding a change brings one path up to date, building and
  reading change nothing, and outputs that are read are those of a builder configured afresh on that disk.
\<close>

definition tracks :: "host \<Rightarrow> analyzed_target list \<Rightarrow> string \<Rightarrow> (string \<Rightarrow> digest option) \<Rightarrow> builder \<Rightarrow> bool" where
  "tracks h targets root d b \<longleftrightarrow>
     (\<exists>c. configure_targets (on_disk h d) targets (builder_new root) = (Inr (), c) \<and>
        configured (on_disk h d) c \<and> like_fresh b c)"

definition leaf_of :: "builder \<Rightarrow> string \<Rightarrow> bool" where
  "leaf_of b q \<longleftrightarrow> file_key q \<in> set (leaf_inputs b)"

lemma builder_new_fresh: "builder_new root = fresh_builder root Symlink NoIsolation"
  by (simp add: fresh_builder_def with_isolation_def with_materialize_def builder_new_def)

lemma configured_idle: "configured h c \<Longrightarrow> engine_inv (b_engine c) \<and> in_progress (b_engine c) = [] \<and> cancel (b_engine c) = None"
  by (auto simp: configured_def unbuilt_def intro: unbuilt_inv [unfolded unbuilt_def])

lemma tracks_configure:
  assumes "configure_targets (on_disk h d) targets (builder_new root) = (Inr (), b)"
  shows "tracks h targets root d b"
proof -
  have conf: "configured (on_disk h d) b" using assms unfolding builder_new_fresh by (rule configure_configured)
  from configured_idle [OF conf] assms conf show ?thesis unfolding tracks_def like_fresh_def by blast
qed

lemma leaf_has_input:
  assumes "tracks h targets root d b" "leaf_of b p"
  shows "\<exists>v. defs (b_engine b) (file_key p) = Some (DInput v)"
  using assms unfolding tracks_def leaf_of_def configured_def like_fresh_def by metis

lemma tracks_sync_total:
  assumes "tracks h targets root d b"
  shows "\<exists>b'. sync_file h' p b = Inr b'"
proof (cases "leaf_of b p")
  case True
  then obtain v where "defs (b_engine b) (file_key p) = Some (DInput v)" using leaf_has_input [OF assms] by blast
  from set_input_exists [OF this] obtain e where "set_input (file_key p) (leaf_value h' p) (b_engine b) = Inr e" by blast
  with True show ?thesis by (simp add: sync_file_def leaf_of_def Let_def)
qed (simp add: sync_file_def leaf_of_def Let_def)

lemma tracks_sync:
  assumes "tracks h targets root d b" "sync_file (on_disk h d') p b = Inr b'"
  shows "tracks h targets root (d(p := d' p)) b'"
proof -
  let ?d = "d(p := d' p)"
  obtain c where c: "configure_targets (on_disk h d) targets (builder_new root) = (Inr (), c)"
    "configured (on_disk h d) c" "like_fresh b c" using assms(1) unfolding tracks_def by blast
  obtain c' where c': "configure_targets (on_disk h ?d) targets (builder_new root) = (Inr (), c')"
    "same_setup (on_disk h ?d) c c'" using configure_same c(1) unfolding builder_new_fresh by blast
  have conf': "configured (on_disk h ?d) c'" using c'(1) unfolding builder_new_fresh by (rule configure_configured)
  have "leaf_value (on_disk h d') p = leaf_value (on_disk h ?d) p" by (simp add: leaf_value_def split: option.split)
  then have "sync_file (on_disk h ?d) p b = Inr b'" using assms(2) by (simp only: sync_file_def Let_def)
  from like_fresh_edit [OF c(3,2) _ this c'(2) conf'] c'(1) conf' show ?thesis unfolding tracks_def by auto
qed

lemma tracks_build:
  assumes "tracks h targets root d b" "build target jobs b r b'"
  shows "tracks h targets root d b'" "r \<noteq> Inl (Panic m)"
proof -
  obtain c where c: "configure_targets (on_disk h d) targets (builder_new root) = (Inr (), c)"
    "configured (on_disk h d) c" "like_fresh b c" using assms(1) unfolding tracks_def by blast
  from assms(2) obtain q e where e: "request_parallel jobs (tgt_key target) (reset_recomputes (b_engine b)) q e"
    "r = map_sum id (\<lambda>_. recomputes e) q" "b' = b\<lparr>b_engine := e\<rparr>" by cases auto
  have reset: "like_fresh (b\<lparr>b_engine := reset_recomputes (b_engine b)\<rparr>) c"
    using c(3) by (simp add: like_fresh_def reset_recomputes_def defs_def)
  have post: "engine_inv e \<and> frame {} (reset_recomputes (b_engine b)) e \<and>
     (\<forall>x. q = Inl x \<longrightarrow> rejects (reset_recomputes (b_engine b)) (tgt_key target) x)"
    using parallel_result_inv [OF _ _ e(1)] reset by (simp add: like_fresh_def)
  with like_fresh_step [OF reset] e(3) have "like_fresh b' c" by simp
  with c show "tracks h targets root d b'" unfolding tracks_def by blast
  from post e(2) show "r \<noteq> Inl (Panic m)" by (cases q) (auto simp: rejects_def)
qed

lemma tracks_cancel: "tracks h targets root d b \<Longrightarrow> tracks h targets root d (engine_set_cancel flag b)"
  unfolding tracks_def by (auto simp: like_fresh_def engine_set_cancel_def set_cancel_def defs_def)

lemma tracks_read:
  assumes "tracks h targets root d b" "produced_outputs h' paths out b = (r, b')"
  shows "tracks h targets root d b'"
  using assms like_fresh_read unfolding tracks_def by blast

lemma read_no_panic:
  assumes "like_fresh b c" "produced_outputs h paths out b = (r, b')"
  shows "r \<noteq> Inl (Panic m)"
  using assms
proof (induction h paths out b rule: produced_outputs.induct)
  case (2 h path paths out b)
  show ?case
  proof (cases "bm_get (producer b) path")
    case None
    with 2 show ?thesis by simp
  next
    case (Some akey)
    obtain r1 e where e: "engine_request akey (b_engine b) = (r1, e)" by force
    have inv: "engine_inv (b_engine b)" "in_progress (b_engine b) = []" using "2.prems"(1) by (simp_all add: like_fresh_def)
    have "r1 \<noteq> Inl (Panic m)" using engine_request_post [OF inv(1) e] by (simp add: request_post_def)
    moreover have "like_fresh (b\<lparr>b_engine := e\<rparr>) c" using request_frame [OF inv e] "2.prems"(1) by (blast intro: like_fresh_step)
    ultimately show ?thesis using "2.IH" "2.prems"(2) Some e by (auto split: sum.splits option.splits node_value.splits)
  qed
qed auto

subsection \<open>What does not change\<close>

lemma sync_keeps:
  "sync_file h p b = Inr b' \<Longrightarrow> leaf_inputs b' = leaf_inputs b \<and> producer b' = producer b \<and> exec_root b' = exec_root b"
  by (auto simp: sync_file_def Let_def map_sum_def split: if_splits sum.splits)

lemma build_keeps:
  "build target jobs b r b' \<Longrightarrow> leaf_inputs b' = leaf_inputs b \<and> producer b' = producer b \<and> exec_root b' = exec_root b"
  by (cases rule: build.cases) auto

lemma read_keeps:
  "produced_outputs h paths out b = (r, b') \<Longrightarrow>
     leaf_inputs b' = leaf_inputs b \<and> producer b' = producer b \<and> exec_root b' = exec_root b"
  by (induction h paths out b rule: produced_outputs.induct)
    (auto split: option.splits sum.splits node_value.splits prod.splits)

lemma cancel_keeps [simp]:
  "leaf_inputs (engine_set_cancel f b) = leaf_inputs b" "producer (engine_set_cancel f b) = producer b"
  "exec_root (engine_set_cancel f b) = exec_root b"
  by (simp_all add: engine_set_cancel_def)

lemma action_deps_root: "action_deps h made ins deps b = (ds, b') \<Longrightarrow> exec_root b' = exec_root b"
  by (induction h made ins deps b rule: action_deps.induct) (auto simp: Let_def split: option.splits if_splits)

lemma configure_actions_root: "configure_actions h made name i acts aks b = (r, b') \<Longrightarrow> exec_root b' = exec_root b"
proof (induction acts arbitrary: i aks b)
  case (Cons act acts)
  obtain ds b1 where b1: "action_deps h made (aa_inputs act) [] b = (ds, b1)" by force
  with Cons.IH Cons.prems action_deps_root [OF b1] show ?case by (fastforce simp: Let_def split: option.splits)
qed simp

lemma configure_all_root: "configure_all h made ts b = (r, b') \<Longrightarrow> exec_root b' = exec_root b"
proof (induction ts arbitrary: b)
  case (Cons t ts)
  obtain r1 b1 where b1: "configure_actions h made (at_name t) 0 (at_actions t) [] b = (r1, b1)" by force
  with Cons.IH Cons.prems configure_actions_root [OF b1] show ?case by (fastforce split: sum.splits)
qed simp

lemma configure_root: "configure_targets h ts (builder_new root) = (r, b) \<Longrightarrow> exec_root b = root"
  by (auto simp: configure_targets_def Let_def builder_new_def split: prod.splits sum.splits dest: configure_all_root)

subsection \<open>Moving to another disk\<close>

lemma redisk_same:
  assumes "configured (on_disk h d) c" "\<And>q. leaf_of c q \<Longrightarrow> d' q = d q"
  shows "redisk (on_disk h d') (defs (b_engine c)) = defs (b_engine c)"
proof
  fix k
  let ?D = "defs (b_engine c)"
  show "redisk (on_disk h d') ?D k = ?D k"
  proof (cases "\<exists>v. ?D k = Some (DInput v)")
    case True
    then obtain v q where q: "?D k = Some (DInput v)" "k = file_key q" "v = leaf_value (on_disk h d) q" "k \<in> set (leaf_inputs c)"
      using assms(1) unfolding configured_def by blast
    then have "d' q = d q" using assms(2) by (simp add: leaf_of_def)
    with q leaf_value_other [where d' = d' and d = d and q = q and h = h] show ?thesis by (simp add: redisk_def)
  next
    case False
    then show ?thesis by (auto simp: redisk_def split: option.split ndef.split)
  qed
qed

lemma configure_move:
  assumes "configure_targets (on_disk h d) targets (builder_new root) = (Inr (), c)" "\<And>q. leaf_of c q \<Longrightarrow> d' q = d q"
  shows "\<exists>c'. configure_targets (on_disk h d') targets (builder_new root) = (Inr (), c') \<and>
    configured (on_disk h d') c' \<and> like_fresh c c'"
proof -
  have conf: "configured (on_disk h d) c" using assms(1) unfolding builder_new_fresh by (rule configure_configured)
  obtain c' where c': "configure_targets (on_disk h d') targets (builder_new root) = (Inr (), c')"
    "same_setup (on_disk h d') c c'" using configure_same assms(1) unfolding builder_new_fresh by blast
  have conf': "configured (on_disk h d') c'" using c'(1) unfolding builder_new_fresh by (rule configure_configured)
  have "defs (b_engine c') = defs (b_engine c)" using c'(2) redisk_same [OF conf assms(2)] by (simp add: same_setup_def)
  with c' conf' configured_idle [OF conf] configured_idle [OF conf'] show ?thesis
    by (auto simp: like_fresh_def same_setup_def)
qed

lemma like_fresh_trans: "like_fresh a b \<Longrightarrow> like_fresh b c \<Longrightarrow> like_fresh a c"
  by (simp add: like_fresh_def)

lemma tracks_move:
  assumes "tracks h targets root d b" "\<And>q. leaf_of b q \<Longrightarrow> d' q = d q"
  shows "tracks h targets root d' b"
proof -
  obtain c where c: "configure_targets (on_disk h d) targets (builder_new root) = (Inr (), c)" "like_fresh b c"
    using assms(1) unfolding tracks_def by blast
  have "d' q = d q" if "leaf_of c q" for q using assms(2) that c(2) by (simp add: leaf_of_def like_fresh_def)
  from configure_move [OF c(1) this] c(2) show ?thesis unfolding tracks_def by (blast intro: like_fresh_trans)
qed

subsection \<open>The outputs that are read\<close>

lemma read_sound:
  assumes "like_fresh b c" "cancel (b_engine c) = None" "produced_outputs h paths out b = (Inr outs, b')"
  shows "fst (produced_outputs h paths out c) = Inr outs"
  using assms
proof (induction paths arbitrary: out b c)
  case Nil
  then show ?case by simp
next
  case (Cons path paths)
  have prod: "producer b = producer c" using Cons.prems(1) by (simp add: like_fresh_def)
  show ?case
  proof (cases "bm_get (producer c) path")
    case None
    with Cons prod show ?thesis by simp
  next
    case (Some akey)
    obtain r e where e: "engine_request akey (b_engine b) = (r, e)" by force
    obtain r' e' where e': "engine_request akey (b_engine c) = (r', e')" by force
    have inv: "engine_inv (b_engine b)" "in_progress (b_engine b) = []" "engine_inv (b_engine c)" "in_progress (b_engine c) = []"
      "defs (b_engine b) = defs (b_engine c)" using Cons.prems(1) by (simp_all add: like_fresh_def)
    obtain v where v: "r = Inr v" using Cons.prems(3) Some prod e by (cases r) auto
    have "evals (defs (b_engine c)) akey v" using engine_request_sound [OF inv(1)] e v inv(5) by metis
    then have r': "r' = Inr v" using engine_request_iff [OF inv(3) Cons.prems(2) inv(4), of akey v] e' by simp
    have frame: "engine_inv e \<and> frame {} (b_engine b) e" "engine_inv e' \<and> frame {} (b_engine c) e'"
      using request_frame inv(1-4) e e' by blast+
    then have "like_fresh (b\<lparr>b_engine := e\<rparr>) (c\<lparr>b_engine := e'\<rparr>)"
      using Cons.prems(1) frame_defs [of "{}" "b_engine b" e] frame_defs [of "{}" "b_engine c" e']
        frame_in_progress [of "{}" "b_engine b" e] frame_in_progress [of "{}" "b_engine c" e']
      by (simp add: like_fresh_def)
    moreover have "cancel e' = None" using frame Cons.prems(2) by (simp add: frame_def)
    ultimately show ?thesis using Cons.IH Cons.prems(3) Some prod e e' v r'
      by (auto split: option.splits)
  qed
qed

lemma read_disk:
  assumes "\<And>q. q \<in> set paths \<Longrightarrow> bm_get (producer b) q = None \<Longrightarrow> d' q = d q"
  shows "produced_outputs (on_disk h d') paths out b = produced_outputs (on_disk h d) paths out b"
  using assms
proof (induction paths arbitrary: out b)
  case (Cons path paths)
  have same: "produced_outputs (on_disk h d') paths o' (b\<lparr>b_engine := e\<rparr>) = produced_outputs (on_disk h d) paths o' (b\<lparr>b_engine := e\<rparr>)"
    "produced_outputs (on_disk h d') paths o' b = produced_outputs (on_disk h d) paths o' b" for o' e
    by (rule Cons.IH; use Cons.prems in simp)+
  show ?case
  proof (cases "bm_get (producer b) path")
    case None
    with Cons.prems [of path] same show ?thesis by (simp split: option.split)
  next
    case (Some akey)
    obtain r e where "engine_request akey (b_engine b) = (r, e)" by force
    with Some same show ?thesis by (cases r) (auto split: option.split)
  qed
qed simp

definition fresh_outputs ::
    "host \<Rightarrow> analyzed_target list \<Rightarrow> string \<Rightarrow> (string \<Rightarrow> digest option) \<Rightarrow> string list \<Rightarrow> (string \<times> digest) list \<Rightarrow> bool" where
  "fresh_outputs h targets root d paths outs \<longleftrightarrow>
     (\<exists>c. configure_targets (on_disk h d) targets (builder_new root) = (Inr (), c) \<and>
        fst (produced_outputs (on_disk h d) paths [] c) = Inr outs)"

lemma tracks_outputs:
  assumes "tracks h targets root d b" "produced_outputs (on_disk h d) paths [] b = (Inr outs, b')"
  shows "fresh_outputs h targets root d paths outs"
proof -
  obtain c where c: "configure_targets (on_disk h d) targets (builder_new root) = (Inr (), c)"
    "configured (on_disk h d) c" "like_fresh b c" using assms(1) unfolding tracks_def by blast
  have "cancel (b_engine c) = None" using configured_idle [OF c(2)] by simp
  from read_sound [OF c(3) this assms(2)] c(1) show ?thesis unfolding fresh_outputs_def by (intro exI conjI)
qed

lemma fresh_outputs_move:
  assumes "fresh_outputs h targets root d paths outs" "tracks h targets root d0 b"
    and "\<And>q. leaf_of b q \<Longrightarrow> d' q = d q" "\<And>q. q \<in> set paths \<Longrightarrow> bm_get (producer b) q = None \<Longrightarrow> d' q = d q"
  shows "fresh_outputs h targets root d' paths outs"
proof -
  obtain c where c: "configure_targets (on_disk h d) targets (builder_new root) = (Inr (), c)"
    "fst (produced_outputs (on_disk h d) paths [] c) = Inr outs" using assms(1) unfolding fresh_outputs_def by blast
  obtain c0 where c0: "configure_targets (on_disk h d0) targets (builder_new root) = (Inr (), c0)" "like_fresh b c0"
    using assms(2) unfolding tracks_def by blast
  obtain c1 where "configure_targets (on_disk h d) targets (builder_new root) = (Inr (), c1)" "same_setup (on_disk h d) c0 c1"
    using configure_same c0(1) unfolding builder_new_fresh by blast
  with c(1) c0(2) have same: "leaf_inputs c = leaf_inputs b" "producer c = producer b"
    by (simp_all add: same_setup_def like_fresh_def)
  have leaves: "d' q = d q" if "leaf_of c q" for q using assms(3) that same(1) by (simp add: leaf_of_def)
  from configure_move [OF c(1) this] obtain c' where c': "configure_targets (on_disk h d') targets (builder_new root) = (Inr (), c')"
    "configured (on_disk h d') c'" "like_fresh c c'" by blast
  have "produced_outputs (on_disk h d') paths [] c = produced_outputs (on_disk h d) paths [] c"
    by (rule read_disk) (use assms(4) same(2) in simp)
  with c(2) obtain b' where "produced_outputs (on_disk h d') paths [] c = (Inr outs, b')" by (metis prod.collapse)
  note read = this
  have "cancel (b_engine c') = None" using configured_idle [OF c'(2)] by simp
  from read_sound [OF c'(3) this read] c'(1) show ?thesis unfolding fresh_outputs_def by (intro exI conjI)
qed

end
