(* ===== verification/Actor_Props.thy ===== *)
theory Actor_Props
  imports Actor
begin

section \<open>The actor never answers from a stale graph\<close>

text \<open>
  The invariant of the actor: its builder tracks some disk, and every leaf that differs from the present
  tree has a change outstanding, one the watcher has not handled, one in the queue or one taken from it and
  not folded yet.  An attempt whose result passes the last look at the queue has folded every change that
  was queued before.
\<close>

definition outstanding :: "'f system \<Rightarrow> string set" where
  "outstanding s =
     sys_raised s \<union> sys_dropped s \<union> set (ac_pending (sys_actor s)) \<union>
     (case sys_phase s of Folding args ps \<Rightarrow> set ps | _ \<Rightarrow> {})"

text \<open>No leaf is a directory that holds another leaf.\<close>

definition inner_free :: "builder \<Rightarrow> bool" where
  "inner_free b \<longleftrightarrow> (\<forall>p q. leaf_of b p \<longrightarrow> leaf_of b q \<longrightarrow> above q p \<longrightarrow> q = p)"

definition lags :: "'f world \<Rightarrow> 'f system \<Rightarrow> analysis \<Rightarrow> builder \<Rightarrow> bool" where
  "lags w s n b \<longleftrightarrow>
     (\<exists>seen. tracks (w_host w) (an_targets n) (exec_root b) seen b \<and>
        (inner_free b \<longrightarrow>
           (\<forall>q. leaf_of b q \<longrightarrow> seen q \<noteq> disk w (exec_root b) (sys_tree s) q \<longrightarrow> (\<exists>p \<in> outstanding s. above q p))))"

definition info_of :: "analysis \<Rightarrow> string list" where
  "info_of n = (case List.find (\<lambda>t. at_name t = an_build_name n) (an_targets n) of None \<Rightarrow> [] | Some t \<Rightarrow> default_info t)"

definition relevant :: "builder \<Rightarrow> analysis \<Rightarrow> string \<Rightarrow> bool" where
  "relevant b n q \<longleftrightarrow> leaf_of b q \<or> q \<in> set (info_of n) \<and> bm_get (producer b) q = None"

definition settled :: "string set \<Rightarrow> builder \<Rightarrow> analysis \<Rightarrow> bool" where
  "settled P b n \<longleftrightarrow> (\<forall>q. relevant b n q \<longrightarrow> (\<forall>p \<in> P. \<not> above q p))"

definition current :: "'f world \<Rightarrow> 'f system \<Rightarrow> analysis \<Rightarrow> builder \<Rightarrow> (string \<times> digest) list \<Rightarrow> bool" where
  "current w s n b outs \<longleftrightarrow>
     (inner_free b \<longrightarrow> settled (outstanding s) b n \<longrightarrow>
        (\<exists>seen. tracks (w_host w) (an_targets n) (exec_root b) seen b \<and>
           fresh_outputs (w_host w) (an_targets n) (exec_root b) (disk w (exec_root b) (sys_tree s)) (info_of n) outs))"

definition wire_outputs :: "(string \<times> digest) list \<Rightarrow> (string \<times> byte list) list" where
  "wire_outputs outs = map (\<lambda>(p, d). (p, digest_bytes d)) outs"

definition prepared :: "'f system \<Rightarrow> 'f build_request \<Rightarrow> string \<Rightarrow> bool" where
  "prepared s rq name \<longleftrightarrow>
     (\<exists>n b. ac_analysis (sys_actor s) = Some n \<and> ac_builder (sys_actor s) = Some b \<and>
        an_build_name n = name \<and> an_token n = rq_token rq)"

definition answers :: "'f world \<Rightarrow> 'f system \<Rightarrow> build_result \<Rightarrow> bool" where
  "answers w s res \<longleftrightarrow>
     (\<exists>n b outs. ac_analysis (sys_actor s) = Some n \<and> ac_builder (sys_actor s) = Some b \<and>
        an_token n = br_target res \<and> br_outputs res = wire_outputs outs \<and> current w s n b outs)"

definition loader_panics :: "'f world \<Rightarrow> string \<Rightarrow> bool" where
  "loader_panics w m \<longleftrightarrow> (\<exists>t label flags. fst (w_analyze w t label flags) = Inl (Panic m))"

fun ac_phase_ok :: "'f world \<Rightarrow> 'f system \<Rightarrow> 'f actor_phase \<Rightarrow> bool" where
  "ac_phase_ok w s (Panicked m) \<longleftrightarrow> loader_panics w m"
| "ac_phase_ok w s (Building rq name) \<longleftrightarrow> prepared s rq name"
| "ac_phase_ok w s (Reading rq name n) \<longleftrightarrow> prepared s rq name"
| "ac_phase_ok w s (Verifying rq name k outs) \<longleftrightarrow>
     prepared s rq name \<and>
     (\<forall>n b. ac_analysis (sys_actor s) = Some n \<longrightarrow> ac_builder (sys_actor s) = Some b \<longrightarrow> current w s n b outs)"
| "ac_phase_ok w s (Finished args (Inr res)) \<longleftrightarrow> answers w s res"
| "ac_phase_ok w s (Asking args (Inr res)) \<longleftrightarrow> answers w s res"
| "ac_phase_ok w s (Looking args (Inr res)) \<longleftrightarrow> answers w s res"
| "ac_phase_ok w s _ \<longleftrightarrow> True"

definition actor_inv :: "'f world \<Rightarrow> 'f system \<Rightarrow> bool" where
  "actor_inv w s \<longleftrightarrow>
     (\<forall>b. ac_builder (sys_actor s) = Some b \<longrightarrow> (\<exists>ts root seen. tracks (w_host w) ts root seen b)) \<and>
     (\<forall>b n. ac_builder (sys_actor s) = Some b \<longrightarrow> ac_analysis (sys_actor s) = Some n \<longrightarrow> lags w s n b) \<and>
     ac_phase_ok w s (sys_phase s)"

lemma host_at_on_disk: "host_at w root t = on_disk (w_host w) (disk w root t)"
  by (simp add: host_at_def on_disk_def)

lemma default_info_of: "ac_analysis a = Some n \<Longrightarrow> default_info_for a (an_build_name n) = info_of n"
  by (simp add: default_info_for_def info_of_def)

subsection \<open>Steps that leave builder and analysis alone\<close>

text \<open>\<open>s'\<close> has all that was outstanding, and a change outstanding for everything that differs.\<close>

definition later :: "'f world \<Rightarrow> 'f system \<Rightarrow> 'f system \<Rightarrow> bool" where
  "later w s s' \<longleftrightarrow>
     ac_builder (sys_actor s') = ac_builder (sys_actor s) \<and> ac_analysis (sys_actor s') = ac_analysis (sys_actor s) \<and>
     outstanding s \<subseteq> outstanding s' \<and>
     (\<forall>root q. disk w root (sys_tree s') q \<noteq> disk w root (sys_tree s) q \<longrightarrow> (\<exists>p \<in> outstanding s'. above q p))"

lemma later_lags:
  assumes "later w s s'" "lags w s n b"
  shows "lags w s' n b"
proof -
  obtain seen where r: "tracks (w_host w) (an_targets n) (exec_root b) seen b"
    "inner_free b \<Longrightarrow> leaf_of b q \<Longrightarrow> seen q \<noteq> disk w (exec_root b) (sys_tree s) q \<Longrightarrow> \<exists>p \<in> outstanding s. above q p" for q
    using assms(2) unfolding lags_def by blast
  have "\<exists>p \<in> outstanding s'. above q p" if "inner_free b" "leaf_of b q" "seen q \<noteq> disk w (exec_root b) (sys_tree s') q" for q
  proof (cases "disk w (exec_root b) (sys_tree s') q = disk w (exec_root b) (sys_tree s) q")
    case True
    with r(2) [OF that(1,2)] that(3) assms(1) show ?thesis unfolding later_def by auto
  next
    case False
    with assms(1) show ?thesis unfolding later_def by blast
  qed
  with r(1) show ?thesis unfolding lags_def by blast
qed

lemma later_current:
  assumes "later w s s'" "current w s n b outs"
  shows "current w s' n b outs"
  unfolding current_def
proof (intro impI)
  assume sep: "inner_free b" and set': "settled (outstanding s') b n"
  have same: "disk w (exec_root b) (sys_tree s') q = disk w (exec_root b) (sys_tree s) q" if "relevant b n q" for q
    using assms(1) set' that unfolding later_def settled_def by blast
  have "settled (outstanding s) b n" using assms(1) set' unfolding later_def settled_def by blast
  with assms(2) sep obtain seen where r: "tracks (w_host w) (an_targets n) (exec_root b) seen b"
    "fresh_outputs (w_host w) (an_targets n) (exec_root b) (disk w (exec_root b) (sys_tree s)) (info_of n) outs"
    unfolding current_def by blast
  have "fresh_outputs (w_host w) (an_targets n) (exec_root b) (disk w (exec_root b) (sys_tree s')) (info_of n) outs"
    by (rule fresh_outputs_move [OF r(2,1)]) (use same in \<open>auto simp: relevant_def\<close>)
  with r(1) show "\<exists>seen. tracks (w_host w) (an_targets n) (exec_root b) seen b \<and>
      fresh_outputs (w_host w) (an_targets n) (exec_root b) (disk w (exec_root b) (sys_tree s')) (info_of n) outs" by blast
qed

lemma later_answers: "later w s s' \<Longrightarrow> answers w s res \<Longrightarrow> answers w s' res"
proof -
  assume later: "later w s s'" and "answers w s res"
  then obtain n b outs where a: "ac_analysis (sys_actor s) = Some n" "ac_builder (sys_actor s) = Some b"
    "an_token n = br_target res" "br_outputs res = wire_outputs outs" "current w s n b outs"
    unfolding answers_def by blast
  from later a(1,2) have "ac_analysis (sys_actor s') = Some n" "ac_builder (sys_actor s') = Some b"
    by (simp_all add: later_def)
  with a(3,4) later_current [OF later a(5)] show "answers w s' res" unfolding answers_def by blast
qed

lemma later_prepared: "later w s s' \<Longrightarrow> prepared s rq name \<Longrightarrow> prepared s' rq name"
  by (simp add: later_def prepared_def)

lemma later_phase: "later w s s' \<Longrightarrow> ac_phase_ok w s ph \<Longrightarrow> ac_phase_ok w s' ph"
proof (induction w s ph rule: ac_phase_ok.induct)
  case (4 w s rq name k outs)
  then show ?case using later_prepared [of w s s'] later_current [of w s s'] by (auto simp: later_def)
qed (auto intro: later_prepared later_answers)

lemma later_inv: "later w s s' \<Longrightarrow> actor_inv w s \<Longrightarrow> ac_phase_ok w s' (sys_phase s') \<Longrightarrow> actor_inv w s'"
  unfolding actor_inv_def using later_lags [of w s s'] by (auto simp: later_def)

lemma env_inv: "later w s s' \<Longrightarrow> actor_inv w s \<Longrightarrow> sys_phase s' = sys_phase s \<Longrightarrow> actor_inv w s'"
  using later_inv [of w s s'] later_phase [of w s s' "sys_phase s"] by (simp add: actor_inv_def)

text \<open>Without an analysis any builder that tracks some disk is fine.\<close>

lemma no_analysis_inv:
  "ac_analysis (sys_actor s) = None \<Longrightarrow>
   (\<And>b. ac_builder (sys_actor s) = Some b \<Longrightarrow> \<exists>ts root seen. tracks (w_host w) ts root seen b) \<Longrightarrow>
   ac_phase_ok w s (sys_phase s) \<Longrightarrow> actor_inv w s"
  by (simp add: actor_inv_def)

lemma inv_tracks:
  "actor_inv w s \<Longrightarrow> ac_builder (sys_actor s) = Some b \<Longrightarrow> \<exists>ts root seen. tracks (w_host w) ts root seen b"
  by (simp add: actor_inv_def)

lemma inv_lags:
  "actor_inv w s \<Longrightarrow> ac_builder (sys_actor s) = Some b \<Longrightarrow> ac_analysis (sys_actor s) = Some n \<Longrightarrow> lags w s n b"
  by (simp add: actor_inv_def)

subsection \<open>Folding a change\<close>

lemma fold_no_panic: "actor_inv w s \<Longrightarrow> fold_change w t p (sys_actor s) \<noteq> Inl e"
proof (cases "ac_builder (sys_actor s)")
  case (Some b)
  moreover assume "actor_inv w s"
  ultimately obtain ts root seen where "tracks (w_host w) ts root seen b" using inv_tracks by blast
  then obtain b' where "sync_file (host_at w (exec_root b) t) p b = Inr b'" using tracks_sync_total by blast
  with Some show ?thesis by (simp add: fold_change_def)
qed (simp add: fold_change_def)

lemma fold_inv:
  assumes inv: "actor_inv w s" and ph: "sys_phase s = Folding args (p # ps)"
    and fold: "fold_change w (sys_tree s) p (sys_actor s) = Inr a"
  shows "actor_inv w (s\<lparr>sys_phase := Folding args ps, sys_actor := a\<rparr>)" (is "actor_inv w ?s")
proof (cases "ac_builder (sys_actor s)")
  case None
  with fold show ?thesis by (intro no_analysis_inv) (auto simp: fold_change_def)
next
  case (Some b)
  show ?thesis
  proof (cases "leaf_of b p")
    case False
    with fold Some have "a = (sys_actor s)\<lparr>ac_analysis := None\<rparr>"
      by (auto simp: fold_change_def knows_leaf_def leaf_of_def)
    with Some inv_tracks [OF inv Some] show ?thesis by (intro no_analysis_inv) simp_all
  next
    case True
    then obtain b' where b': "sync_file (host_at w (exec_root b) (sys_tree s)) p b = Inr b'" "a = (sys_actor s)\<lparr>ac_builder := Some b'\<rparr>"
      using fold Some by (auto simp: fold_change_def knows_leaf_def leaf_of_def map_sum_def split: sum.splits)
    note sync = b'(1) [unfolded host_at_on_disk]
    obtain ts root seen where "tracks (w_host w) ts root seen b" using inv_tracks [OF inv Some] by blast
    from tracks_sync [OF this sync] have any: "\<exists>ts root seen. tracks (w_host w) ts root seen b'" by blast
    have leaves: "leaf_of b' q = leaf_of b q" for q using sync_keeps [OF sync] by (simp add: leaf_of_def)
    have root: "exec_root b' = exec_root b" using sync_keeps [OF sync] by simp
    have "lags w ?s n b'" if n: "ac_analysis (sys_actor s) = Some n" for n
    proof -
      obtain seen where r: "tracks (w_host w) (an_targets n) (exec_root b) seen b"
        "inner_free b \<Longrightarrow> leaf_of b q \<Longrightarrow> seen q \<noteq> disk w (exec_root b) (sys_tree s) q \<Longrightarrow> \<exists>x \<in> outstanding s. above q x" for q
        using inv_lags [OF inv Some n] unfolding lags_def by blast
      let ?seen = "seen(p := disk w (exec_root b) (sys_tree s) p)"
      have "\<exists>x \<in> outstanding ?s. above q x"
        if q: "inner_free b'" "leaf_of b' q" "?seen q \<noteq> disk w (exec_root b') (sys_tree ?s) q" for q
      proof -
        have sep: "inner_free b" using q(1) leaves by (simp add: inner_free_def)
        have "q \<noteq> p" "seen q \<noteq> disk w (exec_root b) (sys_tree s) q" using q(3) root by (auto split: if_splits)
        then obtain x where x: "x \<in> outstanding s" "above q x" using r(2) [OF sep] q(2) leaves by blast
        have "x \<noteq> p" using sep True q(2) leaves x(2) \<open>q \<noteq> p\<close> unfolding inner_free_def by blast
        with x ph b'(2) show ?thesis by (auto simp: outstanding_def)
      qed
      with tracks_sync [OF r(1) sync] root show ?thesis unfolding lags_def by auto
    qed
    with any b'(2) show ?thesis by (simp add: actor_inv_def)
  qed
qed

subsection \<open>An attempt\<close>

lemma analyzed_panic: "analyzed w t token flags hit a = (Inl (Panic m), t') \<Longrightarrow> loader_panics w m"
  by (auto simp: analyzed_def loader_panics_def Let_def map_prod_def map_sum_def split: option.splits if_splits prod.splits sum.splits)
    (metis fst_conv)+

lemma analyzed_again:
  assumes "analyzed w t token flags hit a = (Inr (ts, name, again), t')" "\<not> again"
  shows "hit \<and> (\<exists>n. ac_analysis a = Some n \<and> an_targets n = ts \<and> an_build_name n = name)"
  using assms by (auto simp: analyzed_def Let_def map_prod_def map_sum_def split: option.splits if_splits prod.splits sum.splits)

lemma ensure_cases:
  assumes "ensure_analysis w t token flags a = (r, a', t')"
  obtains e where "r = Inl e" "\<And>m. e = Panic m \<Longrightarrow> loader_panics w m"
      "ac_builder a' = ac_builder a" "ac_analysis a' = ac_analysis a" "ac_pending a' = ac_pending a"
  | n b where "r = Inr (an_build_name n)" "a' = a" "t' = t" "ac_builder a = Some b" "ac_analysis a = Some n" "an_token n = token"
  | n b root where "r = Inr (an_build_name n)" "ac_analysis a' = Some n" "an_token n = token" "ac_builder a' = Some b"
      "configure_targets (host_at w root t') (an_targets n) (builder_new root) = (Inr (), b)" "ac_pending a' = ac_pending a"
proof -
  let ?dg = "compute_analysis_digest (host_hash (w_host w)) t (w_flags_text w flags)"
  let ?hit = "analysis_hit ?dg token a"
  have hit: "\<exists>n. ac_analysis a = Some n \<and> an_token n = token" if ?hit
    using that by (auto simp: analysis_hit_def split: option.splits)
  show thesis
  proof (cases "?hit \<and> ac_builder a \<noteq> None")
    case True
    then obtain n b where "ac_analysis a = Some n" "an_token n = token" "ac_builder a = Some b" using hit by blast
    with True assms show thesis by (intro that(2) [of n b]) (auto simp: ensure_analysis_def Let_def)
  next
    case miss: False
    obtain r1 t1 where r1: "analyzed w t token flags ?hit a = (r1, t1)" by force
    obtain r2 t2 where r2: "exec_root_for w t1 = (r2, t2)" by force
    show thesis
    proof (cases "\<exists>ts name again root c. r1 = Inr (ts, name, again) \<and> r2 = Inr root \<and> w_cache w = None \<and>
        configure_targets (host_at w root t2) ts (builder_new root) = (Inr (), c)")
      case False
      with miss r1 r2 assms analyzed_panic [of w t token flags ?hit a _ t1]
      have "\<exists>e. r = Inl e \<and> (\<forall>m. e = Panic m \<longrightarrow> loader_panics w m) \<and>
          ac_builder a' = ac_builder a \<and> ac_analysis a' = ac_analysis a \<and> ac_pending a' = ac_pending a"
        by (auto simp: ensure_analysis_def Let_def split: sum.splits prod.splits option.splits)
      then show thesis using that(1) by blast
    next
      case True
      then obtain ts name again root c where c: "r1 = Inr (ts, name, again)" "r2 = Inr root" "w_cache w = None"
        "configure_targets (host_at w root t2) ts (builder_new root) = (Inr (), c)" by blast
      note eqs = miss r1 r2 c
      show thesis
      proof (cases again)
        case True
        with eqs assms show thesis
          by (intro that(3) [of "\<lparr>an_digest = ?dg, an_token = token, an_targets = ts, an_build_name = name\<rparr>" c root])
            (auto simp: ensure_analysis_def Let_def)
      next
        case again: False
        with analyzed_again r1 c(1) hit obtain n
          where n: "ac_analysis a = Some n" "an_token n = token" "an_targets n = ts" "an_build_name n = name" by fastforce
        with eqs again assms show thesis
          by (intro that(3) [of n c root]) (auto simp: ensure_analysis_def Let_def)
      qed
    qed
  qed
qed

lemma configured_lags:
  assumes "configure_targets (host_at w root (sys_tree s)) (an_targets n) (builder_new root) = (Inr (), b)"
  shows "lags w s n b"
  using tracks_configure [OF assms [unfolded host_at_on_disk]] configure_root [OF assms] unfolding lags_def by auto

lemma failed_ok: "(\<And>m. e = Panic m \<Longrightarrow> loader_panics w m) \<Longrightarrow> ac_phase_ok w s (failed args e)"
  by (cases e) simp_all

lemma ensure_inv:
  assumes inv: "actor_inv w s" and ph: "sys_phase s = Ensuring rq"
    and ens: "ensure_analysis w (sys_tree s) (rq_token rq) (rq_flags rq) (sys_actor s) = (r, a, t)"
  shows "actor_inv w (s\<lparr>sys_phase := (case r of Inl e \<Rightarrow> failed (rq_args rq) e | Inr name \<Rightarrow> Building rq name),
    sys_actor := a, sys_tree := t,
    sys_dropped := (if ac_builder a = ac_builder (sys_actor s) then changed w (sys_tree s) t \<union> sys_dropped s else {})\<rparr>)"
    (is "actor_inv w ?s")
  using ens
proof (cases rule: ensure_cases)
  case (1 e)
  have "\<exists>p \<in> outstanding ?s. above q p" if "disk w root (sys_tree ?s) q \<noteq> disk w root (sys_tree s) q" for root q
    using that 1(3) by (intro bexI [of _ q]) (auto simp: changed_def outstanding_def above_def)
  moreover have "outstanding s \<subseteq> outstanding ?s" using ph 1(3,5) by (auto simp: outstanding_def)
  ultimately have "later w s ?s" using 1(3,4) by (simp add: later_def)
  from later_inv [OF this inv] 1(1,2) failed_ok [of e w] show ?thesis by simp
next
  case (2 n b)
  with ph have "later w s ?s" by (auto simp: later_def outstanding_def)
  from later_inv [OF this inv] 2 show ?thesis by (auto simp: prepared_def)
next
  case (3 n b root)
  have "lags w ?s n b" using configured_lags [of w root ?s n b] 3(5) by simp
  moreover have "\<exists>ts root seen. tracks (w_host w) ts root seen b"
    using tracks_configure [OF 3(5) [unfolded host_at_on_disk]] by blast
  ultimately show ?thesis using 3(1-4) by (simp add: actor_inv_def prepared_def)
qed

text \<open>A builder that changes only in what its engine remembers.\<close>

lemma rebuilt_inv:
  assumes inv: "actor_inv w s" and b: "ac_builder (sys_actor s) = Some b" and ph: "\<And>args ps. sys_phase s \<noteq> Folding args ps"
    and keep: "leaf_inputs b' = leaf_inputs b" "exec_root b' = exec_root b"
    and tr: "\<And>ts root seen. tracks (w_host w) ts root seen b \<Longrightarrow> tracks (w_host w) ts root seen b'"
    and "ac_phase_ok w (s\<lparr>sys_phase := ph', sys_actor := (sys_actor s)\<lparr>ac_builder := Some b'\<rparr>\<rparr>) ph'"
  shows "actor_inv w (s\<lparr>sys_phase := ph', sys_actor := (sys_actor s)\<lparr>ac_builder := Some b'\<rparr>\<rparr>)" (is "actor_inv w ?s")
proof -
  have out: "outstanding s \<subseteq> outstanding ?s" using ph by (auto simp: outstanding_def split: actor_phase.splits)
  have leaves: "leaf_of b' = leaf_of b" using keep(1) by (simp add: leaf_of_def fun_eq_iff)
  have "lags w ?s n b'" if n: "ac_analysis (sys_actor s) = Some n" for n
  proof -
    obtain seen where r: "tracks (w_host w) (an_targets n) (exec_root b) seen b"
      "inner_free b \<longrightarrow> (\<forall>q. leaf_of b q \<longrightarrow> seen q \<noteq> disk w (exec_root b) (sys_tree s) q \<longrightarrow> (\<exists>p \<in> outstanding s. above q p))"
      using inv_lags [OF inv b n] unfolding lags_def by blast
    have "inner_free b' \<longrightarrow> (\<forall>q. leaf_of b' q \<longrightarrow> seen q \<noteq> disk w (exec_root b') (sys_tree ?s) q \<longrightarrow> (\<exists>p \<in> outstanding ?s. above q p))"
    proof (intro impI allI)
      fix q
      assume "inner_free b'" "leaf_of b' q" "seen q \<noteq> disk w (exec_root b') (sys_tree ?s) q"
      then have "inner_free b" "leaf_of b q" "seen q \<noteq> disk w (exec_root b) (sys_tree s) q"
        by (simp_all add: inner_free_def leaves keep(2))
      with r(2) obtain p where "p \<in> outstanding s" "above q p" by blast
      with out show "\<exists>p \<in> outstanding ?s. above q p" by (meson subsetD)
    qed
    with tr [OF r(1)] keep(2) show ?thesis unfolding lags_def by auto
  qed
  moreover have "\<exists>ts root seen. tracks (w_host w) ts root seen b'" using inv_tracks [OF inv b] tr by blast
  ultimately show ?thesis using assms(7) by (simp add: actor_inv_def)
qed

lemma build_inv:
  assumes inv: "actor_inv w s" and ph: "sys_phase s = Building rq name" and b: "ac_builder (sys_actor s) = Some b"
    and run: "build name jobs (engine_set_cancel (Some flag) b) r b'"
  shows "actor_inv w (s\<lparr>sys_phase := (case r of Inl e \<Rightarrow> failed (rq_args rq) e | Inr _ \<Rightarrow> Reading rq name k),
    sys_actor := (sys_actor s)\<lparr>ac_builder := Some b'\<rparr>\<rparr>)"
proof (rule rebuilt_inv [OF inv b])
  show "leaf_inputs b' = leaf_inputs b" "exec_root b' = exec_root b" using build_keeps [OF run] by simp_all
  show "tracks (w_host w) ts root seen b'" if "tracks (w_host w) ts root seen b" for ts root seen
    using tracks_build(1) [OF tracks_cancel [OF that] run] .
  have "r \<noteq> Inl (Panic m)" for m
    using inv_tracks [OF inv b] tracks_build(2) [OF tracks_cancel run] by blast
  moreover have "prepared s rq name" using inv ph by (simp add: actor_inv_def)
  ultimately show "ac_phase_ok w (s\<lparr>sys_phase := (case r of Inl e \<Rightarrow> failed (rq_args rq) e | Inr _ \<Rightarrow> Reading rq name k),
      sys_actor := (sys_actor s)\<lparr>ac_builder := Some b'\<rparr>\<rparr>)
    (case r of Inl e \<Rightarrow> failed (rq_args rq) e | Inr _ \<Rightarrow> Reading rq name k)"
    by (cases "(rq_args rq, case r of Inl e \<Rightarrow> e | Inr _ \<Rightarrow> Fail [])" rule: failed.cases)
      (auto simp: prepared_def split: sum.splits)
qed (use ph in auto)

lemma read_inv:
  assumes inv: "actor_inv w s" and ph: "sys_phase s = Reading rq name k" and b: "ac_builder (sys_actor s) = Some b"
    and read: "produced_outputs (host_at w (exec_root b) (sys_tree s)) (default_info_for (sys_actor s) name) []
      (engine_set_cancel (Some flag) b) = (r, b')"
  shows "actor_inv w (s\<lparr>sys_phase := (case r of Inl e \<Rightarrow> failed (rq_args rq) e | Inr outs \<Rightarrow> Verifying rq name k outs),
    sys_actor := (sys_actor s)\<lparr>ac_builder := Some b'\<rparr>\<rparr>)" (is "actor_inv w ?s")
proof (rule rebuilt_inv [OF inv b])
  have keep: "leaf_inputs b' = leaf_inputs b" "producer b' = producer b" "exec_root b' = exec_root b"
    using read_keeps [OF read] by simp_all
  show "leaf_inputs b' = leaf_inputs b" "exec_root b' = exec_root b" by (rule keep)+
  have tr: "tracks (w_host w) ts root seen b'" if "tracks (w_host w) ts root seen b" for ts root seen
    using tracks_read [OF tracks_cancel [OF that] read] .
  then show "tracks (w_host w) ts root seen b'" if "tracks (w_host w) ts root seen b" for ts root seen
    using that by blast
  have prep: "prepared s rq name" using inv ph by (simp add: actor_inv_def)
  have no_panic: "r \<noteq> Inl (Panic m)" for m
  proof -
    obtain ts root seen where "tracks (w_host w) ts root seen b" using inv_tracks [OF inv b] by blast
    then obtain c where "like_fresh (engine_set_cancel (Some flag) b) c" using tracks_cancel unfolding tracks_def by blast
    from read_no_panic [OF this read] show ?thesis .
  qed
  have "current w ?s n b' outs" if outs: "r = Inr outs" and n: "ac_analysis (sys_actor s) = Some n" for n outs
    unfolding current_def
  proof (intro impI)
    assume sep: "inner_free b'" and set': "settled (outstanding ?s) b' n"
    have same: "leaf_of b' = leaf_of b" "relevant b' n = relevant b n"
      using keep(1,2) by (simp_all add: leaf_of_def relevant_def fun_eq_iff)
    have out: "outstanding ?s = outstanding s" using ph outs by (simp add: outstanding_def)
    obtain seen where r: "tracks (w_host w) (an_targets n) (exec_root b) seen b"
      "inner_free b \<Longrightarrow> leaf_of b q \<Longrightarrow> seen q \<noteq> disk w (exec_root b) (sys_tree s) q \<Longrightarrow> \<exists>p \<in> outstanding s. above q p" for q
      using inv_lags [OF inv b n] unfolding lags_def by blast
    have "inner_free b" using sep same(1) by (simp add: inner_free_def)
    have now: "disk w (exec_root b) (sys_tree s) q = seen q" if "leaf_of b q" for q
    proof (rule ccontr)
      assume "disk w (exec_root b) (sys_tree s) q \<noteq> seen q"
      then have "seen q \<noteq> disk w (exec_root b) (sys_tree s) q" by simp
      from r(2) [OF \<open>inner_free b\<close> that this] obtain p where "p \<in> outstanding s" "above q p" by blast
      moreover have "relevant b n q" using that by (simp add: relevant_def)
      ultimately show False using set' out same(2) unfolding settled_def by metis
    qed
    have here: "tracks (w_host w) (an_targets n) (exec_root b) (disk w (exec_root b) (sys_tree s)) b" by (rule tracks_move [OF r(1) now])
    have "an_build_name n = name" using prep n by (simp add: prepared_def)
    then have "default_info_for (sys_actor s) name = info_of n" using default_info_of [OF n] by simp
    then have "produced_outputs (on_disk (w_host w) (disk w (exec_root b) (sys_tree s))) (info_of n) [] (engine_set_cancel (Some flag) b) = (Inr outs, b')"
      using read outs by (simp add: host_at_on_disk)
    from tracks_outputs [OF tracks_cancel [OF here] this] tr [OF here]
    show "\<exists>seen. tracks (w_host w) (an_targets n) (exec_root b') seen b' \<and>
        fresh_outputs (w_host w) (an_targets n) (exec_root b') (disk w (exec_root b') (sys_tree ?s)) (info_of n) outs"
      unfolding keep(3) by auto
  qed
  with prep no_panic show "ac_phase_ok w ?s (case r of Inl e \<Rightarrow> failed (rq_args rq) e | Inr outs \<Rightarrow> Verifying rq name k outs)"
    by (cases "(rq_args rq, case r of Inl e \<Rightarrow> e | Inr _ \<Rightarrow> Fail [])" rule: failed.cases)
      (auto simp: prepared_def split: sum.splits)
qed (use ph in auto)

lemma verify_inv:
  assumes inv: "actor_inv w s" and ph: "sys_phase s = Verifying rq name k outs"
    and ver: "verify_outputs w (sys_tree s) (rq_token rq) (rq_remat rq) name k outs (sys_actor s) = (r, a)"
  shows "actor_inv w (s\<lparr>sys_phase := (case r of None \<Rightarrow> Ensuring (rq\<lparr>rq_remat := True\<rparr>) | Some res \<Rightarrow> Finished (rq_args rq) (Inr res)),
    sys_actor := a\<rparr>)" (is "actor_inv w ?s")
proof (cases r)
  case None
  with ver show ?thesis by (intro no_analysis_inv) (auto simp: verify_outputs_def split: if_splits)
next
  case (Some res)
  with ver have a: "a = sys_actor s" and res: "br_target res = rq_token rq" "br_outputs res = wire_outputs outs"
    by (auto simp: verify_outputs_def wire_outputs_def split: if_splits)
  have later: "later w s ?s" using ph Some a by (simp add: later_def outstanding_def)
  obtain n b where n: "ac_analysis (sys_actor s) = Some n" "ac_builder (sys_actor s) = Some b" "an_token n = rq_token rq"
    "current w s n b outs" using inv ph by (auto simp: actor_inv_def prepared_def)
  have "answers w s res" unfolding answers_def using n res by (intro exI [of _ n] exI [of _ b] exI [of _ outs]) simp
  from later_inv [OF later inv] later_answers [OF later this] Some show ?thesis by simp
qed

subsection \<open>Every step\<close>

lemma recv_inv:
  assumes "actor_inv w s" "sys_phase s = Idle" "recv m (sys_actor s) = (ph, a)"
  shows "actor_inv w (s\<lparr>sys_inbox := ms, sys_phase := ph, sys_actor := a\<rparr>)"
proof (cases m)
  case (MBuild args)
  with assms(2,3) have "later w s (s\<lparr>sys_inbox := ms, sys_phase := ph, sys_actor := a\<rparr>)" by (auto simp: later_def outstanding_def)
  from later_inv [OF this assms(1)] MBuild assms(3) show ?thesis by auto
next
  case MShutdown
  with assms(2,3) have "later w s (s\<lparr>sys_inbox := ms, sys_phase := ph, sys_actor := a\<rparr>)" by (auto simp: later_def outstanding_def)
  from later_inv [OF this assms(1)] MShutdown assms(3) show ?thesis by auto
qed (use assms(3) in \<open>auto simp: actor_inv_def\<close>)

lemma begin_keeps:
  assumes "begin_attempt w t args a = (ph, a')"
  shows "ac_builder a' = ac_builder a" "ac_analysis a' = ac_analysis a" "ac_pending a' = ac_pending a" "ac_phase_ok w s ph"
    "\<And>args ps. ph \<noteq> Folding args ps"
  using assms by (auto simp: begin_attempt_def Let_def split: sum.splits prod.splits if_splits)

lemma actor_step_inv:
  assumes "actor_step w s s'" "actor_inv w s"
  shows "actor_inv w s'"
  using assms(1)
proof cases
  case (env_edit t p others)
  have "\<exists>x \<in> outstanding s'. above q x" if "disk w root (sys_tree s') q \<noteq> disk w root (sys_tree s) q" for root q
    using env_edit(2) [of q] that env_edit(1) by (auto simp: changed_def outstanding_def)
  with env_edit(1) have "later w s s'" by (auto simp: later_def outstanding_def)
  from env_inv [OF this assms(2)] env_edit(1) show ?thesis by simp
next
  case (env_filtered p)
  then have "later w s s'" by (auto simp: later_def outstanding_def)
  from env_inv [OF this assms(2)] env_filtered(1) show ?thesis by simp
next
  case (env_push p)
  then have "later w s s'" by (auto simp: later_def outstanding_def)
  from env_inv [OF this assms(2)] env_push(1) show ?thesis by simp
next
  case env_cancel
  then have "later w s s'" by (auto simp: later_def outstanding_def)
  from env_inv [OF this assms(2)] env_cancel show ?thesis by simp
next
  case env_abort
  then have "later w s s'" by (auto simp: later_def outstanding_def)
  from env_inv [OF this assms(2)] env_abort show ?thesis by simp
next
  case (env_send m)
  then have "later w s s'" by (auto simp: later_def outstanding_def)
  from env_inv [OF this assms(2)] env_send show ?thesis by simp
next
  case (act_recv m ms ph a)
  with recv_inv [OF assms(2)] show ?thesis by simp
next
  case (act_head args)
  then have "later w s s'" by (simp add: later_def outstanding_def)
  from later_inv [OF this assms(2)] act_head(1) show ?thesis by simp
next
  case (act_clear args)
  then have "later w s s'" by (simp add: later_def outstanding_def)
  from later_inv [OF this assms(2)] act_clear(1) show ?thesis by simp
next
  case (act_drain args)
  then have "later w s s'" by (auto simp: later_def outstanding_def)
  from later_inv [OF this assms(2)] act_drain(1) show ?thesis by simp
next
  case (act_fold args p ps a)
  with fold_inv [OF assms(2)] show ?thesis by simp
next
  case (act_fold_panic args p ps e)
  with fold_no_panic [OF assms(2)] show ?thesis by simp
next
  case (act_begin args ph a)
  then have "later w s s'" using begin_keeps [OF act_begin(3)]
    by (auto simp: later_def outstanding_def split: actor_phase.splits)
  from later_inv [OF this assms(2)] act_begin(1) begin_keeps(4) [OF act_begin(3)] show ?thesis by simp
next
  case (act_ensure rq r a t)
  with ensure_inv [OF assms(2)] show ?thesis by simp
next
  case (act_no_builder rq name)
  with assms(2) show ?thesis by (simp add: actor_inv_def prepared_def)
next
  case (act_build rq name b flag r b' n)
  with build_inv [OF assms(2)] show ?thesis by simp
next
  case (act_read rq name n b flag r b')
  with read_inv [OF assms(2)] show ?thesis by simp
next
  case (act_verify rq name n outs r a)
  with verify_inv [OF assms(2)] show ?thesis by simp
next
  case (act_finished args r)
  then have later: "later w s s'" by (simp add: later_def outstanding_def)
  have "ac_phase_ok w s (Asking args r)" using assms(2) act_finished(2) by (cases r) (simp_all add: actor_inv_def)
  moreover have "sys_phase s' = (if ac_aborted (sys_actor s) then Closing r else Asking args r)" by (simp add: act_finished(1))
  ultimately show ?thesis using later_inv [OF later assms(2)] later_phase [OF later] by simp
next
  case (act_asking args r)
  then have later: "later w s s'" by (simp add: later_def outstanding_def)
  have "ac_phase_ok w s (Looking args r)" using assms(2) act_asking(2) by (cases r) (simp_all add: actor_inv_def)
  moreover have "sys_phase s' = (if raced r \<or> ac_cancel (sys_actor s) then Head args else Looking args r)" by (simp add: act_asking(1))
  ultimately show ?thesis using later_inv [OF later assms(2)] later_phase [OF later] by simp
next
  case (act_looking args r)
  then have later: "later w s s'" by (simp add: later_def outstanding_def)
  moreover have "sys_phase s' = (if ac_pending (sys_actor s) \<noteq> [] then Head args else Closing r)" by (simp add: act_looking(1))
  ultimately show ?thesis using later_inv [OF later assms(2)] by simp
next
  case (act_close r)
  then have "later w s s'" by (auto simp: later_def outstanding_def split: sum.split)
  from later_inv [OF this assms(2)] act_close(1) show ?thesis by simp
qed

lemma reachable_actor_inv: "actor_reachable w t s \<Longrightarrow> actor_inv w s"
  unfolding actor_reachable_def
proof (induction rule: rtranclp_induct)
  case base
  show ?case by (simp add: actor_inv_def system_new_def actor_new_def)
next
  case (step s s')
  with actor_step_inv show ?case by blast
qed

subsection \<open>The snapshot\<close>

definition committed :: "outcome list \<Rightarrow> build_result list" where
  "committed rs = List.map_filter (\<lambda>r. case r of Inl e \<Rightarrow> None | Inr res \<Rightarrow> Some res) rs"

lemma committed_simps [simp]:
  "committed [] = []" "committed (rs @ [Inl e]) = committed rs" "committed (rs @ [Inr res]) = committed rs @ [res]"
  by (simp_all add: committed_def map_filter_def)

definition snapshot_ok :: "build_state \<Rightarrow> build_result list \<Rightarrow> bool" where
  "snapshot_ok st rs \<longleftrightarrow>
     bs_revision st = int (length rs) \<and> sorted (map ts_label (bs_targets st)) \<and> distinct (map ts_label (bs_targets st)) \<and>
     (\<forall>ts. ts \<in> set (bs_targets st) \<longleftrightarrow>
        (\<exists>res. List.find (\<lambda>r. br_target r = ts_label ts) (rev rs) = Some res \<and> ts = status_of res))"

lemma status_label [simp]: "ts_label (status_of res) = br_target res"
  by (simp add: status_of_def)

lemma distinct_sort_key: "distinct (map f (sort_key f xs)) \<longleftrightarrow> distinct (map f xs)"
  by (simp add: distinct_map inj_on_def distinct_sort)

lemma commit_ok:
  assumes "snapshot_ok st rs"
  shows "snapshot_ok (commit_snapshot res st) (rs @ [res])"
proof -
  let ?old = "filter (\<lambda>t. ts_label t \<noteq> br_target res) (bs_targets st)"
  have targets: "bs_targets (commit_snapshot res st) = sort_key ts_label (?old @ [status_of res])"
    by (simp add: commit_snapshot_def Let_def)
  have "distinct (map ts_label (?old @ [status_of res]))"
    using assms by (auto simp: snapshot_ok_def distinct_map_filter)
  then have "distinct (map ts_label (bs_targets (commit_snapshot res st)))" unfolding targets distinct_sort_key .
  moreover have "ts \<in> set (bs_targets (commit_snapshot res st)) \<longleftrightarrow>
      (\<exists>x. List.find (\<lambda>r. br_target r = ts_label ts) (rev (rs @ [res])) = Some x \<and> ts = status_of x)" for ts
  proof (cases "ts_label ts = br_target res")
    case True
    then show ?thesis unfolding targets by auto
  next
    case False
    then have "ts \<in> set (bs_targets (commit_snapshot res st)) \<longleftrightarrow> ts \<in> set (bs_targets st)" unfolding targets by auto
    with assms False show ?thesis by (simp add: snapshot_ok_def)
  qed
  moreover have "bs_revision (commit_snapshot res st) = bs_revision st + 1" by (simp add: commit_snapshot_def Let_def)
  ultimately show ?thesis using assms unfolding snapshot_ok_def targets by simp
qed

lemma actor_step_snapshot:
  assumes "actor_step w s s'"
  shows "(ac_state (sys_actor s') = ac_state (sys_actor s) \<and> sys_replies s' = sys_replies s) \<or>
    (\<exists>e. ac_state (sys_actor s') = ac_state (sys_actor s) \<and> sys_replies s' = sys_replies s @ [Inl e]) \<or>
    (\<exists>res. ac_state (sys_actor s') = commit_snapshot res (ac_state (sys_actor s)) \<and> sys_replies s' = sys_replies s @ [Inr res])"
  using assms
proof cases
  case (act_recv m ms ph a)
  then show ?thesis by (cases m) auto
next
  case (act_fold args p ps a)
  then show ?thesis by (auto simp: fold_change_def map_sum_def split: option.splits if_splits sum.splits)
next
  case (act_begin args ph a)
  then show ?thesis by (auto simp: begin_attempt_def Let_def split: sum.splits prod.splits if_splits)
next
  case (act_ensure rq r a t)
  then have "ac_state a = ac_state (sys_actor s)"
    by (auto simp: ensure_analysis_def Let_def split: if_splits sum.splits prod.splits option.splits)
  with act_ensure show ?thesis by simp
next
  case (act_verify rq name n outs r a)
  then show ?thesis by (auto simp: verify_outputs_def split: if_splits)
next
  case (act_close r)
  then show ?thesis by (cases r) auto
qed simp_all

subsection \<open>The theorems\<close>

lemma looked:
  assumes "actor_step w s s'" "sys_phase s = Looking args r" "sys_phase s' = Closing r'"
  shows "ac_pending (sys_actor s) = []"
  using assms by cases (auto split: if_splits)

text \<open>C4: Let the result of a build pass the last look at the queue of changes, after whatever edits, notifications,
  cancellations and restarts, at a moment when the watcher has handled every change of the tree, when no change whose
  event it filtered out or never got since the builder was configured is at or below a leaf of the graph or a source file
  among the outputs, and when no leaf is a directory that holds another leaf.  Then the outputs it answers are those that a
  builder configured afresh for the targets of the cached analysis reads on the tree as it is now.  (An action's result
  is taken to be a function of the action and of the digests of its inputs, the executor of \<open>Incremental\<close>.)\<close>

theorem no_stale_reply:
  assumes "actor_reachable w t0 s" "sys_phase s = Looking args (Inr res)"
    and "actor_step w s s'" "sys_phase s' = Closing (Inr res)"
    and "ac_analysis (sys_actor s) = Some n" "ac_builder (sys_actor s) = Some b" "inner_free b" "sys_raised s = {}"
    and "\<forall>p \<in> sys_dropped s. \<forall>q. relevant b n q \<longrightarrow> \<not> above q p"
  shows "an_token n = br_target res \<and>
    (\<exists>c outs. configure_targets (host_at w (exec_root b) (sys_tree s)) (an_targets n) (builder_new (exec_root b)) = (Inr (), c) \<and>
       fst (produced_outputs (host_at w (exec_root b) (sys_tree s)) (default_info_for (sys_actor s) (an_build_name n)) [] c)
         = Inr outs \<and>
       br_outputs res = wire_outputs outs)"
proof -
  have queue: "ac_pending (sys_actor s) = []" by (rule looked [OF assms(3,2,4)])
  have "answers w s res" using reachable_actor_inv [OF assms(1)] assms(2) by (simp add: actor_inv_def)
  then obtain outs where a: "an_token n = br_target res" "br_outputs res = wire_outputs outs" "current w s n b outs"
    using assms(5,6) by (auto simp: answers_def)
  have "settled (outstanding s) b n" using assms(2,8,9) queue by (auto simp: settled_def outstanding_def)
  with a(3) assms(7)
  have "fresh_outputs (w_host w) (an_targets n) (exec_root b) (disk w (exec_root b) (sys_tree s)) (info_of n) outs"
    unfolding current_def by blast
  with a(1,2) default_info_of [OF assms(5)] show ?thesis unfolding fresh_outputs_def host_at_on_disk by metis
qed

text \<open>C25: In any interleaving with the watcher and the clients, the thread of the actor panics only where the loader panics
  that it calls to analyze the target, and with the loader's message: neither the \<open>expect\<close> on the builder nor an
  unknown input of the engine nor anything the engine evaluates ends it.  (The loader does panic, on a glob over a name
  that is not ASCII for instance; nothing catches that, and the actor serves no build after it.)\<close>

theorem actor_never_panics:
  assumes "actor_reachable w t s" "sys_phase s = Panicked m"
  shows "\<exists>t' label flags. fst (w_analyze w t' label flags) = Inl (Panic m)"
  using reachable_actor_inv [OF assms(1)] assms(2) by (auto simp: actor_inv_def loader_panics_def)

lemma panicked_for_good: "actor_step w s s' \<Longrightarrow> sys_phase s = Panicked m \<Longrightarrow> sys_phase s' = Panicked m \<and> sys_replies s' = sys_replies s"
  by (cases rule: actor_step.cases) auto

text \<open>The live snapshot lists each target once, in the order of the labels, with the status of its last successful
  answer, and its revision counts the successful answers.\<close>

theorem snapshot_exact:
  assumes "actor_reachable w t s"
  shows "snapshot_ok (ac_state (sys_actor s)) (committed (sys_replies s))"
  using assms unfolding actor_reachable_def
proof (induction rule: rtranclp_induct)
  case base
  show ?case by (simp add: system_new_def actor_new_def snapshot_ok_def)
next
  case (step s s')
  from actor_step_snapshot [OF step.hyps(2)] step.IH commit_ok show ?case by auto
qed

subsection \<open>A small daemon, for the witnesses\<close>

text \<open>One target with an action that makes \<open>o\<close> of the source file \<open>a\<close>; both are its outputs.\<close>

definition demo_sources :: "analyzed_target list" where
  "demo_sources =
     [\<lparr>at_name = ''//:t'', at_deps = [],
       at_actions = [\<lparr>mnemonic = ''Cc'', aa_argv = [''cc''], aa_inputs = [''a''], aa_outputs = [''o''], description = []\<rparr>],
       default_info = [''a'', ''o''], at_providers = []\<rparr>]"

definition demo_world_with :: "(fs \<Rightarrow> string \<Rightarrow> unit \<Rightarrow> (engine_error + analyzed_target list \<times> string) \<times> fs) \<Rightarrow> unit world" where
  "demo_world_with loader =
     \<lparr>w_host = demo_host, w_root = ''/w'', w_parse = (\<lambda>t args. Inr ((), args)), w_jobs = (\<lambda>f. 1), w_cores = 4,
      w_flags_text = (\<lambda>f. []), w_analyze = loader, w_cache = None\<rparr>"

definition demo_world :: "unit world" where
  "demo_world = demo_world_with (\<lambda>t label f. (Inr (demo_sources, label), t))"

lemmas demo_world_simps = demo_world_def demo_world_with_def

definition demo_tree :: "8 word \<Rightarrow> fs" where
  "demo_tree x = Dir [(''a'', File [x])]"

definition demo_builder :: builder where
  "demo_builder = snd (configure_targets (host_at demo_world ''/w'' (demo_tree 1)) demo_sources (builder_new ''/w''))"

lemma demo_configured:
  "configure_targets (host_at demo_world ''/w'' (demo_tree 1)) demo_sources (builder_new ''/w'') = (Inr (), demo_builder)"
  using configure_total [of "host_at demo_world ''/w'' (demo_tree 1)" demo_sources "builder_new ''/w''"]
  by (auto simp: demo_builder_def host_at_def demo_world_simps demo_host_def)

text \<open>The builder after the build, and after its outputs are read.\<close>

definition demo_ready :: builder where
  "demo_ready = engine_set_cancel (Some (\<lambda>_. False)) demo_builder"

definition demo_built :: builder where
  "demo_built = demo_ready\<lparr>b_engine := snd (engine_request (tgt_key ''//:t'') (reset_recomputes (b_engine demo_ready)))\<rparr>"

definition demo_answer :: "(engine_error + (string \<times> digest) list) \<times> builder" where
  "demo_answer =
     produced_outputs (host_at demo_world ''/w'' (demo_tree 1)) [''a'', ''o''] [] (engine_set_cancel (Some (\<lambda>_. False)) demo_built)"

lemma demo_fields:
  "leaf_inputs demo_builder = [file_key ''a'']" "producer demo_builder = [(''o'', action_key ''//:t'' 0)]"
  "output_paths demo_builder = [''o'']"
  by code_simp+

lemma demo_request: "\<not> isl (fst (engine_request (tgt_key ''//:t'') (reset_recomputes (b_engine demo_ready))))"
  by code_simp

lemma demo_read_outputs: "fst demo_answer = Inr [(''a'', Digest [1]), (''o'', Digest [48, 49])]"
  by code_simp

lemma demo_kept:
  "exec_root demo_built = ''/w''" "leaf_inputs (snd demo_answer) = [file_key ''a'']" "exec_root (snd demo_answer) = ''/w''"
proof -
  have root: "exec_root demo_builder = ''/w''" using configure_root [OF demo_configured] .
  then show built: "exec_root demo_built = ''/w''" by (simp add: demo_built_def demo_ready_def)
  have "leaf_inputs demo_built = [file_key ''a'']" using demo_fields(1) by (simp add: demo_built_def demo_ready_def)
  with built show "leaf_inputs (snd demo_answer) = [file_key ''a'']" "exec_root (snd demo_answer) = ''/w''"
    using read_keeps [of "host_at demo_world ''/w'' (demo_tree 1)" "[''a'', ''o'']" "[]"
        "engine_set_cancel (Some (\<lambda>_. False)) demo_built" "fst demo_answer" "snd demo_answer"]
    by (simp_all add: demo_answer_def del: produced_outputs.simps)
qed

definition demo_sys :: "unit actor_phase \<Rightarrow> actor \<Rightarrow> unit system" where
  "demo_sys ph a = (system_new demo_world (demo_tree 1))\<lparr>sys_phase := ph, sys_actor := a\<rparr>"

definition demo_analysis :: analysis where
  "demo_analysis =
     \<lparr>an_digest = compute_analysis_digest id (demo_tree 1) [], an_token = ''t'', an_targets = demo_sources,
      an_build_name = ''//:t''\<rparr>"

definition demo_request_for :: "unit build_request" where
  "demo_request_for = \<lparr>rq_args = [''t''], rq_flags = (), rq_token = ''t'', rq_remat = False\<rparr>"

definition demo_actor :: "builder \<Rightarrow> actor" where
  "demo_actor b =
     (actor_new demo_world)\<lparr>ac_jobs := 1, ac_builder := Some b, ac_analysis := Some demo_analysis, ac_analyses := 1,
       ac_outputs := [''o'']\<rparr>"

definition demo_outs :: "(string \<times> digest) list" where
  "demo_outs = [(''a'', Digest [1]), (''o'', Digest [48, 49])]"

definition demo_result :: build_result where
  "demo_result =
     \<lparr>br_target = ''t'', br_status = StBuilt, br_recomputes = 1, br_outputs = wire_outputs demo_outs, br_message = None\<rparr>"

lemma demo_ensure:
  "ensure_analysis demo_world (demo_tree 1) ''t'' () ((actor_new demo_world)\<lparr>ac_jobs := 1\<rparr>) =
     (Inr ''//:t'', demo_actor demo_builder, demo_tree 1)"
proof -
  have "canonical_target ''t'' = ''//:t''" by code_simp
  moreover have "exec_root_for demo_world (demo_tree 1) = (Inr ''/w'', demo_tree 1)"
    by (simp add: exec_root_for_def demo_tree_def bm_get_def demo_world_simps)
  moreover have "host_hash (w_host demo_world) = id" by (simp add: demo_world_simps demo_host_def)
  ultimately show ?thesis using demo_configured demo_fields(3)
    by (simp add: ensure_analysis_def Let_def analysis_hit_def analyzed_def actor_new_def demo_world_simps demo_actor_def
        demo_analysis_def)
qed

lemma demo_ensuring:
  "actor_reachable (demo_world_with loader) (demo_tree 1)
     (demo_sys (Ensuring demo_request_for) ((actor_new demo_world)\<lparr>ac_jobs := 1\<rparr>))"
proof -
  let ?w = "demo_world_with loader" and ?args = "[''t'']" and ?a = "actor_new demo_world"
  let ?a1 = "?a\<lparr>ac_jobs := 1\<rparr>" and ?start = "system_new demo_world (demo_tree 1)"
  have start: "system_new ?w (demo_tree 1) = ?start" by (simp add: system_new_def actor_new_def demo_world_simps)
  have "actor_step ?w ?start (?start\<lparr>sys_inbox := [MBuild ?args]\<rparr>)"
    using env_send [of ?w ?start "MBuild ?args"] by (simp add: system_new_def)
  moreover have "actor_step ?w (?start\<lparr>sys_inbox := [MBuild ?args]\<rparr>) (demo_sys (Head ?args) ?a)"
    using act_recv [of "?start\<lparr>sys_inbox := [MBuild ?args]\<rparr>" "MBuild ?args" "[]" "Head ?args" ?a ?w]
    by (simp add: system_new_def demo_sys_def)
  moreover have "actor_step ?w (demo_sys (Head ?args) ?a) (demo_sys (Clearing ?args) ?a)"
    using act_head [of "demo_sys (Head ?args) ?a" ?args ?w] by (simp add: demo_sys_def system_new_def actor_new_def)
  moreover have "actor_step ?w (demo_sys (Clearing ?args) ?a) (demo_sys (Draining ?args) ?a)"
    using act_clear [of "demo_sys (Clearing ?args) ?a" ?args ?w] by (simp add: demo_sys_def system_new_def actor_new_def)
  moreover have "actor_step ?w (demo_sys (Draining ?args) ?a) (demo_sys (Folding ?args []) ?a)"
    using act_drain [of "demo_sys (Draining ?args) ?a" ?args ?w] by (simp add: demo_sys_def system_new_def actor_new_def)
  moreover have "actor_step ?w (demo_sys (Folding ?args []) ?a) (demo_sys (Ensuring demo_request_for) ?a1)"
    using act_begin [of "demo_sys (Folding ?args []) ?a" ?args ?w "Ensuring demo_request_for" ?a1]
    by (simp add: demo_sys_def system_new_def begin_attempt_def demo_world_simps demo_request_for_def effective_jobs_def Let_def)
  ultimately show ?thesis unfolding actor_reachable_def start
    by (meson converse_rtranclp_into_rtranclp r_into_rtranclp)
qed

lemma demo_reading:
  "actor_reachable demo_world (demo_tree 1) (demo_sys (Reading demo_request_for ''//:t'' 1) (demo_actor demo_built))"
proof -
  let ?a1 = "(actor_new demo_world)\<lparr>ac_jobs := 1\<rparr>"
  have "actor_step demo_world (demo_sys (Ensuring demo_request_for) ?a1)
      (demo_sys (Building demo_request_for ''//:t'') (demo_actor demo_builder))"
    using act_ensure [of "demo_sys (Ensuring demo_request_for) ?a1" demo_request_for demo_world "Inr ''//:t''"
        "demo_actor demo_builder" "demo_tree 1"] demo_ensure
    by (simp add: demo_sys_def system_new_def demo_request_for_def demo_actor_def actor_new_def)
  moreover have "actor_step demo_world (demo_sys (Building demo_request_for ''//:t'') (demo_actor demo_builder))
      (demo_sys (Reading demo_request_for ''//:t'' 1) (demo_actor demo_built))"
  proof -
    obtain v e where e: "engine_request (tgt_key ''//:t'') (reset_recomputes (b_engine demo_ready)) = (Inr v, e)"
      using demo_request by (cases "engine_request (tgt_key ''//:t'') (reset_recomputes (b_engine demo_ready))"; cases "fst (engine_request (tgt_key ''//:t'') (reset_recomputes (b_engine demo_ready)))") auto
    then have "request_parallel 1 (tgt_key ''//:t'') (reset_recomputes (b_engine demo_ready)) (Inr v) e" by (intro rp_serial) simp_all
    from build_run [OF this] e have run: "build ''//:t'' 1 demo_ready (Inr (recomputes e)) demo_built" by (simp add: demo_built_def)
    show ?thesis
      using act_build [of "demo_sys (Building demo_request_for ''//:t'') (demo_actor demo_builder)" demo_request_for "''//:t''"
          demo_builder "\<lambda>_. False" "Inr (recomputes e)" demo_built demo_world 1] run [unfolded demo_ready_def]
      by (simp add: demo_sys_def system_new_def demo_actor_def actor_new_def)
  qed
  ultimately show ?thesis using demo_ensuring unfolding demo_world_def [symmetric] actor_reachable_def
    by (metis (no_types, lifting) demo_world_def rtranclp.rtrancl_into_rtrancl)
qed

lemma demo_sys_simps:
  "sys_phase (demo_sys ph a) = ph" "sys_actor (demo_sys ph a) = a" "sys_tree (demo_sys ph a) = demo_tree 1"
  "sys_raised (demo_sys ph a) = {}" "sys_dropped (demo_sys ph a) = {}"
  "ac_pending (demo_actor b) = []" "ac_analysis (demo_actor b) = Some demo_analysis" "ac_builder (demo_actor b) = Some b"
  "an_targets demo_analysis = demo_sources" "an_build_name demo_analysis = ''//:t''"
  by (simp_all add: demo_sys_def system_new_def demo_actor_def actor_new_def demo_analysis_def)

lemma demo_info: "default_info_for (demo_actor b) ''//:t'' = [''a'', ''o'']"
  by (simp add: default_info_for_def demo_actor_def demo_analysis_def demo_sources_def)

lemma demo_disk: "disk demo_world ''/w'' (demo_tree x) ''a'' = Some (Digest [x])"
proof -
  have "comps ''a'' = [''a'']" by code_simp
  then show ?thesis
    by (simp add: disk_def seen_at_def digest_path_def demo_tree_def bm_get_def demo_world_simps demo_host_def digest_of_def)
qed

lemma demo_read:
  "actor_step demo_world (demo_sys (Reading demo_request_for ''//:t'' 1) (demo_actor demo_built))
    (demo_sys (Verifying demo_request_for ''//:t'' 1 demo_outs) (demo_actor (snd demo_answer)))"
proof -
  have "produced_outputs (host_at demo_world (exec_root demo_built) (demo_tree 1)) [''a'', ''o''] []
      (engine_set_cancel (Some (\<lambda>_. False)) demo_built) = (Inr demo_outs, snd demo_answer)"
    using demo_read_outputs unfolding demo_kept(1) demo_answer_def [symmetric] demo_outs_def by (metis prod.collapse)
  then show ?thesis
    using act_read [of "demo_sys (Reading demo_request_for ''//:t'' 1) (demo_actor demo_built)" demo_request_for "''//:t''" 1
        demo_built "\<lambda>_. False" demo_world "Inr demo_outs" "snd demo_answer"] demo_info [of demo_built]
    by (simp add: demo_sys_def system_new_def demo_actor_def actor_new_def)
qed

lemma demo_verify: "verify_outputs w t ''t'' r ''//:t'' 1 demo_outs a = (Some demo_result, a)"
  by (simp add: verify_outputs_def demo_result_def wire_outputs_def)

lemma demo_looking:
  "actor_reachable demo_world (demo_tree 1) (demo_sys (Looking [''t''] (Inr demo_result)) (demo_actor (snd demo_answer)))"
proof -
  let ?a = "demo_actor (snd demo_answer)"
  have "actor_step demo_world (demo_sys (Verifying demo_request_for ''//:t'' 1 demo_outs) ?a)
      (demo_sys (Finished [''t''] (Inr demo_result)) ?a)"
    using act_verify [of "demo_sys (Verifying demo_request_for ''//:t'' 1 demo_outs) ?a" demo_request_for "''//:t''" 1
        demo_outs demo_world "Some demo_result" ?a] demo_verify [of demo_world] by (simp add: demo_sys_def system_new_def demo_request_for_def)
  moreover have "actor_step demo_world (demo_sys (Finished [''t''] (Inr demo_result)) ?a) (demo_sys (Asking [''t''] (Inr demo_result)) ?a)"
    using act_finished [of "demo_sys (Finished [''t''] (Inr demo_result)) ?a" "[''t'']" "Inr demo_result" demo_world]
    by (simp add: demo_sys_def system_new_def demo_actor_def actor_new_def)
  moreover have "actor_step demo_world (demo_sys (Asking [''t''] (Inr demo_result)) ?a) (demo_sys (Looking [''t''] (Inr demo_result)) ?a)"
    using act_asking [of "demo_sys (Asking [''t''] (Inr demo_result)) ?a" "[''t'']" "Inr demo_result" demo_world]
    by (simp add: demo_sys_def system_new_def demo_actor_def actor_new_def raced_def)
  ultimately show ?thesis
    using demo_reading demo_read unfolding actor_reachable_def by (meson rtranclp.rtrancl_into_rtrancl)
qed

theorem no_stale_reply_witness:
  "\<exists>c outs. configure_targets (host_at demo_world ''/w'' (demo_tree 1)) demo_sources (builder_new ''/w'') = (Inr (), c) \<and>
     fst (produced_outputs (host_at demo_world ''/w'' (demo_tree 1)) [''a'', ''o''] [] c) = Inr outs \<and>
     br_outputs demo_result = wire_outputs outs"
proof -
  let ?b = "snd demo_answer"
  have "leaf_of ?b q \<longleftrightarrow> q = ''a''" for q using demo_kept(2) by (auto simp: leaf_of_def file_key_def)
  then have "inner_free ?b" by (simp add: inner_free_def)
  moreover have "actor_step demo_world (demo_sys (Looking [''t''] (Inr demo_result)) (demo_actor ?b))
      (demo_sys (Closing (Inr demo_result)) (demo_actor ?b))"
    using act_looking [of "demo_sys (Looking [''t''] (Inr demo_result)) (demo_actor ?b)" "[''t'']" "Inr demo_result" demo_world]
    by (simp add: demo_sys_def system_new_def demo_actor_def actor_new_def)
  ultimately show ?thesis
    using no_stale_reply [OF demo_looking, of "[''t'']" demo_result "demo_sys (Closing (Inr demo_result)) (demo_actor ?b)"
        demo_analysis ?b]
    by (simp add: demo_sys_simps demo_info demo_kept(3) del: produced_outputs.simps)
qed

text \<open>A loader that panics.\<close>

definition demo_panic :: string where
  "demo_panic = ''byte index 1 is not a char boundary''"

theorem actor_never_panics_witness:
  "\<exists>s. actor_reachable (demo_world_with (\<lambda>t label f. (Inl (Panic demo_panic), t))) (demo_tree 1) s \<and>
     sys_phase s = Panicked demo_panic \<and>
     (\<exists>t' label flags. fst ((\<lambda>t label f. (Inl (Panic demo_panic), t)) t' label flags :: (engine_error + analyzed_target list \<times> string) \<times> fs)
        = Inl (Panic demo_panic))"
proof -
  let ?loader = "\<lambda>t label f. (Inl (Panic demo_panic), t)"
  let ?a = "(actor_new demo_world)\<lparr>ac_jobs := 1\<rparr>"
  have "ensure_analysis (demo_world_with ?loader) (demo_tree 1) ''t'' () ?a = (Inl (Panic demo_panic), ?a, demo_tree 1)"
    by (simp add: ensure_analysis_def Let_def analyzed_def actor_new_def demo_world_with_def)
  then have "actor_step (demo_world_with ?loader) (demo_sys (Ensuring demo_request_for) ?a)
      (demo_sys (Panicked demo_panic) ?a\<lparr>sys_dropped := changed (demo_world_with ?loader) (demo_tree 1) (demo_tree 1)\<rparr>)"
    using act_ensure [of "demo_sys (Ensuring demo_request_for) ?a" demo_request_for "demo_world_with ?loader"
        "Inl (Panic demo_panic)" ?a "demo_tree 1"]
    by (simp add: demo_sys_def system_new_def demo_request_for_def)
  with demo_ensuring have s: "actor_reachable (demo_world_with ?loader) (demo_tree 1)
      (demo_sys (Panicked demo_panic) ?a\<lparr>sys_dropped := changed (demo_world_with ?loader) (demo_tree 1) (demo_tree 1)\<rparr>)"
    unfolding actor_reachable_def by (metis (no_types, lifting) rtranclp.rtrancl_into_rtrancl)
  moreover have "sys_phase (demo_sys (Panicked demo_panic) ?a\<lparr>sys_dropped := dropped\<rparr>) = Panicked demo_panic" for dropped
    by (simp add: demo_sys_def)
  ultimately show ?thesis using actor_never_panics [OF s] unfolding demo_world_with_def by auto
qed

theorem snapshot_exact_witness: "snapshot_ok (ac_state (sys_actor (system_new demo_world (demo_tree 1)))) []"
  using snapshot_exact [of demo_world "demo_tree 1" "system_new demo_world (demo_tree 1)"]
  by (simp add: actor_reachable_def system_new_def)

text \<open>C37: A build that a client aborted commits what it read without a look at the queue: a state can be reached in which
  the snapshot holds a digest that is no longer that of the file, with the change of the file still queued.\<close>

theorem aborted_build_commits_stale:
  "\<exists>s ts. actor_reachable demo_world (demo_tree 1) s \<and> sys_phase s = Idle \<and> ac_pending (sys_actor s) = [''a''] \<and>
     bs_targets (ac_state (sys_actor s)) = [ts] \<and> disk demo_world ''/w'' (sys_tree s) ''a'' \<noteq> Some (Digest (ts_digest ts))"
proof -
  let ?a = "demo_actor (snd demo_answer)" and ?ph = "Verifying demo_request_for ''//:t'' 1 demo_outs"
  let ?s0 = "demo_sys ?ph ?a"
  let ?s1 = "?s0\<lparr>sys_tree := demo_tree 2, sys_raised := {''a''}\<rparr>"
  let ?s2 = "?s0\<lparr>sys_tree := demo_tree 2, sys_actor := ?a\<lparr>ac_pending := [''a'']\<rparr>\<rparr>"
  let ?s3 = "?s0\<lparr>sys_tree := demo_tree 2, sys_actor := ?a\<lparr>ac_pending := [''a''], ac_aborted := True\<rparr>\<rparr>"
  let ?s4 = "?s3\<lparr>sys_phase := Finished [''t''] (Inr demo_result)\<rparr>" and ?s5 = "?s3\<lparr>sys_phase := Closing (Inr demo_result)\<rparr>"
  let ?s6 = "?s3\<lparr>sys_phase := Idle, sys_replies := [Inr demo_result],
    sys_actor := ?a\<lparr>ac_pending := [''a''], ac_aborted := True, ac_state := commit_snapshot demo_result (ac_state ?a)\<rparr>\<rparr>"
  have same: "disk demo_world root (demo_tree 2) q = disk demo_world root (demo_tree 1) q" if "\<not> above q ''a''" for root q
  proof -
    have "comps ''a'' = [''a'']" by code_simp
    with that obtain c cs where c: "comps q = c # cs" "c \<noteq> ''a'' \<or> cs \<noteq> []"
      by (cases "comps q") (auto simp: above_def)
    then have "fs_read (demo_tree x) (demo_tree x) (comps q) = None"
      "fs_read (demo_tree x) (demo_tree x) (''.razel-exec'' # comps q) = None" for x
      by (cases cs) (auto simp: demo_tree_def bm_get_def)
    then show ?thesis by (simp add: disk_def seen_at_def)
  qed
  have "\<exists>x \<in> insert ''a'' {}. above q x" if "q \<in> changed demo_world (sys_tree ?s0) (demo_tree 2)" for q
    using that same [of q] by (auto simp: changed_def demo_sys_simps)
  then have "actor_step demo_world ?s0 ?s1"
    using env_edit [of demo_world ?s0 "demo_tree 2" "''a''" "{}"] by (simp add: demo_sys_def system_new_def)
  moreover have "\<not> filtered ?a ''a''"
  proof -
    have "\<not> is_watch_excluded ''a''" by code_simp
    then show ?thesis by (simp add: filtered_def demo_actor_def actor_new_def)
  qed
  then have "actor_step demo_world ?s1 ?s2"
    using env_push [of "''a''" ?s1 demo_world] by (simp add: demo_sys_def system_new_def demo_actor_def actor_new_def)
  moreover have "actor_step demo_world ?s2 ?s3"
    using env_abort [of demo_world ?s2] by (simp add: demo_sys_def system_new_def)
  moreover have "actor_step demo_world ?s3 ?s4"
    using act_verify [of ?s3 demo_request_for "''//:t''" 1 demo_outs demo_world "Some demo_result" "sys_actor ?s3"] demo_verify [of demo_world]
    by (simp add: demo_sys_def system_new_def demo_request_for_def)
  moreover have "actor_step demo_world ?s4 ?s5"
    using act_finished [of ?s4 "[''t'']" "Inr demo_result" demo_world] by (simp add: demo_sys_def system_new_def)
  moreover have "actor_step demo_world ?s5 ?s6"
    using act_close [of ?s5 "Inr demo_result" demo_world] by (simp add: demo_sys_def system_new_def)
  ultimately have "actor_reachable demo_world (demo_tree 1) ?s6"
    using demo_reading demo_read unfolding actor_reachable_def by (meson rtranclp.rtrancl_into_rtrancl)
  moreover have "bs_targets (ac_state (sys_actor ?s6)) = [status_of demo_result]"
    by (simp add: commit_snapshot_def Let_def demo_actor_def actor_new_def)
  moreover have "disk demo_world ''/w'' (demo_tree 2) ''a'' \<noteq> Some (Digest (ts_digest (status_of demo_result)))"
    by (simp add: demo_disk status_of_def demo_result_def wire_outputs_def demo_outs_def)
  ultimately show ?thesis by (intro exI [of _ ?s6] exI [of _ "status_of demo_result"]) simp
qed

end
