(* ===== verification/Std_Text.thy ===== *)
theory Std_Text
  imports Std_Str
begin

section \<open>Lines, white space and letters\<close>

text \<open>
  More methods of \<open>str\<close>: the white space and the letters are the ASCII ones, a character outside ASCII is
  neither.
\<close>

definition is_space :: "char \<Rightarrow> bool" where
  "is_space c \<longleftrightarrow> c \<in> {CHR '' '', CHR 0x09, CHR 0x0A, CHR 0x0B, CHR 0x0C, CHR 0x0D}"

definition is_digit :: "char \<Rightarrow> bool" where
  "is_digit c \<longleftrightarrow> of_char (CHR ''0'') \<le> (of_char c :: nat) \<and> (of_char c :: nat) \<le> of_char (CHR ''9'')"

definition is_alnum :: "char \<Rightarrow> bool" where
  "is_alnum c \<longleftrightarrow>
     (let n = of_char c :: nat in 48 \<le> n \<and> n \<le> 57 \<or> 65 \<le> n \<and> n \<le> 90 \<or> 97 \<le> n \<and> n \<le> 122)"

definition to_upper :: "char \<Rightarrow> char" where
  "to_upper c = (let n = of_char c :: nat in if 97 \<le> n \<and> n \<le> 122 then char_of (n - 32) else c)"

definition to_lower :: "char \<Rightarrow> char" where
  "to_lower c = (let n = of_char c :: nat in if 65 \<le> n \<and> n \<le> 90 then char_of (n + 32) else c)"

text \<open>A character of a text in UTF-8: its first byte and the bytes that continue it.\<close>

definition whole_char :: "char \<Rightarrow> string \<Rightarrow> string" where
  "whole_char c rest =
     (if of_char c < (128 :: nat) then [c]
      else c # takeWhile (\<lambda>x. 128 \<le> (of_char x :: nat) \<and> of_char x < (192 :: nat)) rest)"

definition str_trim_start :: "string \<Rightarrow> string" where
  "str_trim_start s = dropWhile is_space s"

definition str_trim_end :: "string \<Rightarrow> string" where
  "str_trim_end s = rev (dropWhile is_space (rev s))"

definition str_trim :: "string \<Rightarrow> string" where
  "str_trim s = str_trim_end (str_trim_start s)"

text \<open>\<open>s.lines()\<close>: a line ends with a newline, or with a carriage return and a newline; the rest of a text that ends
  otherwise is a line too.\<close>

definition strip_cr :: "string \<Rightarrow> string" where
  "strip_cr s = (case strip_suffix s [CHR 0x0D] of Some t \<Rightarrow> t | None \<Rightarrow> s)"

definition str_lines :: "string \<Rightarrow> string list" where
  "str_lines s =
     (let ps = split_char s (CHR 0x0A)
      in map strip_cr (butlast ps) @ (if last ps = [] then [] else [last ps]))"

text \<open>\<open>s.split_whitespace()\<close>.\<close>

fun split_space :: "string \<Rightarrow> string \<Rightarrow> string list" where
  "split_space acc [] = (if acc = [] then [] else [rev acc])"
| "split_space acc (c # cs) =
     (if is_space c then (if acc = [] then split_space [] cs else rev acc # split_space [] cs)
      else split_space (c # acc) cs)"

definition split_whitespace :: "string \<Rightarrow> string list" where
  "split_whitespace s = split_space [] s"

text \<open>\<open>s.replace(p, r)\<close> for a text \<open>p\<close> that is not empty: every occurrence, from the left.\<close>

function str_replace :: "string \<Rightarrow> string \<Rightarrow> string \<Rightarrow> string" where
  "str_replace p r [] = []"
| "str_replace p r (c # cs) =
     (if p \<noteq> [] \<and> starts_with (c # cs) p then r @ str_replace p r (drop (length p) (c # cs))
      else c # str_replace p r cs)"
  by pat_completeness auto
termination
  by (relation "measure (\<lambda>(p, r, s). length s)") auto

subsection \<open>Lines\<close>

lemma str_lines_Nil [simp]: "str_lines [] = []"
  by (simp add: str_lines_def)

text \<open>A text of lines, each without a newline and without a carriage return at its end, reads back as those lines.\<close>

definition plain_line :: "string \<Rightarrow> bool" where
  "plain_line l \<longleftrightarrow> CHR 0x0A \<notin> set l \<and> \<not> ends_with l [CHR 0x0D]"

lemma strip_cr_plain: "\<not> ends_with l [CHR 0x0D] \<Longrightarrow> strip_cr l = l"
  by (simp add: strip_cr_def strip_suffix_def)

lemma str_lines_step:
  "CHR 0x0A \<notin> set l \<Longrightarrow> str_lines (l @ CHR 0x0A # s) = strip_cr l # str_lines s"
  by (simp add: str_lines_def split_char_append Let_def)

lemma str_lines_unlines: "(\<And>l. l \<in> set ls \<Longrightarrow> plain_line l) \<Longrightarrow> str_lines (concat (map (\<lambda>l. l @ [CHR 0x0A]) ls)) = ls"
  by (induction ls) (simp_all add: str_lines_step plain_line_def strip_cr_plain)

end
