(* ===== verification/Outlock.thy ===== *)
theory Outlock
  imports Std_Text
begin

section \<open>razel-daemon: the workspace writer lock\<close>

text \<open>
  \<^verbatim>\<open>crates/razel-daemon/src/outlock.rs\<close>: one file per workspace, created with \<open>create_new\<close> and holding a
  line with the pid of its owner.  Several processes run \<open>acquire\<close> and the release of \<open>OutLock\<close> on it;
  every file operation and every probe of a pid is a step.  A file has a number, since a process that
  created it writes through its descriptor even when the name is gone.  \<open>terminate\<close>, which sends
  signals and polls, is not modelled.
\<close>

definition quote :: string where
  "quote = [CHR 0x22]"

definition lock_line :: "nat \<Rightarrow> string \<Rightarrow> string \<Rightarrow> string" where
  "lock_line pid daemon scope =
     ''{'' @ quote @ ''pid'' @ quote @ '':'' @ dec pid @ '','' @ quote @ ''daemon'' @ quote @ '':'' @ quote @ daemon @ quote @
     '','' @ quote @ ''scope'' @ quote @ '':'' @ quote @ scope @ quote @ ''}'' @ [CHR 0x0A]"

definition field_u32 :: "string \<Rightarrow> string \<Rightarrow> nat option" where
  "field_u32 line key =
     (let pat = quote @ key @ quote @ '':''
      in Option.bind (str_find line pat) (\<lambda>i.
           parse_u32 (takeWhile is_digit (dropWhile is_space (drop (i + length pat) line)))))"

definition field_str :: "string \<Rightarrow> string \<Rightarrow> string option" where
  "field_str line key =
     (let pat = quote @ key @ quote @ '':'' @ quote
      in Option.bind (str_find line pat) (\<lambda>i.
         let rest = drop (i + length pat) line
         in map_option (\<lambda>j. take j rest) (str_find rest quote)))"

text \<open>What \<open>acquire\<close> answers when the file names a live process, in its UTF-8 bytes.\<close>

definition em_dash :: string where
  "em_dash = [CHR 0xE2, CHR 0x80, CHR 0x94]"

definition section_sign :: string where
  "section_sign = [CHR 0xC2, CHR 0xA7]"

definition held_message :: "string \<Rightarrow> string \<Rightarrow> nat \<Rightarrow> string" where
  "held_message ws held pid =
     (let holder = (case field_str held ''daemon'' of None \<Rightarrow> ''?'' | Some d \<Rightarrow> d);
          scope = (case field_str held ''scope'' of Some s \<Rightarrow> if s = [] then None else Some s | None \<Rightarrow> None);
          hint = (if holder = ''grazeld''
                  then ''; or: grazel shutdown --scope='' @ (case scope of None \<Rightarrow> ''default'' | Some s \<Rightarrow> s) else [])
      in ''workspace '' @ ws @ '' is held by '' @ holder @ '' (pid '' @ dec pid @
         (case scope of None \<Rightarrow> [] | Some s \<Rightarrow> '', scope '' @ s) @ '') '' @ em_dash @
         '' one writer per workspace across daemons ('' @ section_sign @ ''1b); stop it or use that daemon'' @ hint)"

definition lock_path :: "string \<Rightarrow> string" where
  "lock_path ws = ws @ ''/.razel-cache/workspace.lock''"

subsection \<open>The processes\<close>

text \<open>
  Where a process is: idle; in the attempt \<open>a\<close> (0 or 1) before \<open>create_new\<close>; having created file \<open>fd\<close>
  and not written it; having found a file, before and after reading it; before the reap; holding the
  lock; before its release removes the file; failed.
\<close>

datatype lock_phase =
  LIdle | LCreate nat | LWrite nat | LExists nat | LRead nat string | LReap | LHeld nat | LRelease nat | LFailed string

record lock_world =
  lk_file :: "(nat \<times> string) option"
  lk_next :: nat
  lk_phase :: "nat \<Rightarrow> lock_phase"
  lk_alive :: "nat set"

definition held_text :: "lock_world \<Rightarrow> string" where
  "held_text s = (case lk_file s of None \<Rightarrow> [] | Some (fd, c) \<Rightarrow> c)"

definition write_lock :: "nat \<Rightarrow> string \<Rightarrow> (nat \<times> string) option \<Rightarrow> (nat \<times> string) option" where
  "write_lock fd line file = (case file of Some (fd', c) \<Rightarrow> if fd' = fd then Some (fd, line) else file | None \<Rightarrow> None)"

text \<open>The decision after reading, given which processes are alive.\<close>

definition on_held :: "string \<Rightarrow> nat set \<Rightarrow> nat \<Rightarrow> string \<Rightarrow> lock_phase" where
  "on_held ws live a held =
     (case field_u32 held ''pid'' of
        Some pid \<Rightarrow>
          if pid \<in> live then LFailed (held_message ws held pid)
          else if a = 0 then LReap else LFailed (''cannot reap stale lock '' @ lock_path ws)
      | None \<Rightarrow> if a = 0 then LReap else LFailed (''cannot reap stale lock '' @ lock_path ws))"

inductive lock_step :: "string \<Rightarrow> (nat \<Rightarrow> string \<times> string) \<Rightarrow> lock_world \<Rightarrow> lock_world \<Rightarrow> bool" for ws who where
  lk_start: "p \<in> lk_alive s \<Longrightarrow> lk_phase s p = LIdle \<or> (\<exists>e. lk_phase s p = LFailed e) \<Longrightarrow>
    lock_step ws who s (s\<lparr>lk_phase := (lk_phase s)(p := LCreate 0)\<rparr>)"
| lk_create: "p \<in> lk_alive s \<Longrightarrow> lk_phase s p = LCreate a \<Longrightarrow> lk_file s = None \<Longrightarrow>
    lock_step ws who s (s\<lparr>lk_file := Some (lk_next s, []), lk_next := lk_next s + 1,
      lk_phase := (lk_phase s)(p := LWrite (lk_next s))\<rparr>)"
| lk_exists: "p \<in> lk_alive s \<Longrightarrow> lk_phase s p = LCreate a \<Longrightarrow> lk_file s \<noteq> None \<Longrightarrow>
    lock_step ws who s (s\<lparr>lk_phase := (lk_phase s)(p := LExists a)\<rparr>)"
| lk_error: "p \<in> lk_alive s \<Longrightarrow> (\<exists>a. lk_phase s p = LCreate a) \<or> (\<exists>fd. lk_phase s p = LWrite fd) \<Longrightarrow>
    lock_step ws who s (s\<lparr>lk_phase := (lk_phase s)(p := LFailed e)\<rparr>)"
| lk_write: "p \<in> lk_alive s \<Longrightarrow> lk_phase s p = LWrite fd \<Longrightarrow>
    lock_step ws who s (s\<lparr>lk_file := write_lock fd (lock_line p (fst (who p)) (snd (who p))) (lk_file s),
      lk_phase := (lk_phase s)(p := LHeld fd)\<rparr>)"
| lk_read: "p \<in> lk_alive s \<Longrightarrow> lk_phase s p = LExists a \<Longrightarrow>
    lock_step ws who s (s\<lparr>lk_phase := (lk_phase s)(p := LRead a (held_text s))\<rparr>)"
| lk_decide: "p \<in> lk_alive s \<Longrightarrow> lk_phase s p = LRead a held \<Longrightarrow>
    lock_step ws who s (s\<lparr>lk_phase := (lk_phase s)(p := on_held ws (lk_alive s) a held)\<rparr>)"
| lk_reap: "p \<in> lk_alive s \<Longrightarrow> lk_phase s p = LReap \<Longrightarrow>
    lock_step ws who s (s\<lparr>lk_file := None, lk_phase := (lk_phase s)(p := LCreate 1)\<rparr>)"
| lk_check: "p \<in> lk_alive s \<Longrightarrow> lk_phase s p = LHeld fd \<Longrightarrow>
    lock_step ws who s (s\<lparr>lk_phase := (lk_phase s)(p :=
      if field_u32 (held_text s) ''pid'' = Some p then LRelease fd else LIdle)\<rparr>)"
| lk_release: "p \<in> lk_alive s \<Longrightarrow> lk_phase s p = LRelease fd \<Longrightarrow>
    lock_step ws who s (s\<lparr>lk_file := None, lk_phase := (lk_phase s)(p := LIdle)\<rparr>)"
| lk_die: "lock_step ws who s (s\<lparr>lk_alive := lk_alive s - {p}, lk_phase := (lk_phase s)(p := LIdle)\<rparr>)"
| lk_spawn: "p \<notin> lk_alive s \<Longrightarrow>
    lock_step ws who s (s\<lparr>lk_alive := insert p (lk_alive s), lk_phase := (lk_phase s)(p := LIdle)\<rparr>)"

text \<open>Any file may be there at the start: that of a process that died.\<close>

definition lock_start :: "string option \<Rightarrow> lock_world" where
  "lock_start stale =
     \<lparr>lk_file = map_option (\<lambda>c. (0, c)) stale, lk_next = 1, lk_phase = (\<lambda>p. LIdle), lk_alive = {}\<rparr>"

definition holds_lock :: "lock_world \<Rightarrow> nat \<Rightarrow> bool" where
  "holds_lock s p \<longleftrightarrow> (\<exists>fd. lk_phase s p = LHeld fd \<or> lk_phase s p = LRelease fd)"

text \<open>The pid of a live holder, if the file names one.\<close>

definition holder_pid :: "lock_world \<Rightarrow> nat option" where
  "holder_pid s =
     (case lk_file s of
        None \<Rightarrow> None
      | Some (fd, held) \<Rightarrow>
          (case field_u32 held ''pid'' of Some pid \<Rightarrow> if pid \<in> lk_alive s then Some pid else None | None \<Rightarrow> None))"

subsection \<open>The line reads back\<close>

lemma str_find_skip:
  "(\<And>c. c \<in> set ds \<Longrightarrow> c \<noteq> x) \<Longrightarrow> str_find (ds @ t) (x # p) = map_option (\<lambda>i. length ds + i) (str_find t (x # p))"
proof (induction ds)
  case Nil
  show ?case by (cases "str_find t (x # p)") simp_all
next
  case (Cons d ds)
  from Cons.prems have "d \<noteq> x" "\<And>c. c \<in> set ds \<Longrightarrow> c \<noteq> x" by auto
  with Cons.IH show ?case by (cases "str_find t (x # p)") (simp_all add: starts_with_Cons)
qed

lemma digit_char_val: "of_char (digit_char d) = (48 + d) mod 256"
  by simp

lemma dec_digit: "c \<in> set (dec n) \<Longrightarrow> is_digit c \<and> c \<noteq> CHR 0x22"
proof -
  assume "c \<in> set (dec n)"
  then have "digit_val c \<noteq> None" by (rule dec_digits)
  then have "48 \<le> (of_char c :: nat)" "(of_char c :: nat) \<le> 57"
    by (auto simp: digit_val_def Let_def split: if_splits)
  then show ?thesis by (auto simp: is_digit_def)
qed

lemma digit_not_space: "is_digit c \<Longrightarrow> \<not> is_space c"
  by (auto simp: is_digit_def is_space_def)

lemma takeWhile_dec: "takeWhile is_digit (dec n @ CHR '','' # t) = dec n"
proof -
  have "\<not> is_digit (CHR '','')" by (simp add: is_digit_def)
  with dec_digit show ?thesis by (simp add: takeWhile_append2)
qed

lemma drop_space_dec: "dropWhile is_space (dec n @ t) = dec n @ t"
proof (cases "dec n")
  case (Cons c cs)
  with dec_digit [of c n] digit_not_space have "\<not> is_space c" by simp
  with Cons show ?thesis by simp
qed simp

text \<open>The pid is the first field, so whatever the daemon and scope texts hold it reads back.\<close>

lemma lock_line_pid: "pid < 2 ^ 32 \<Longrightarrow> field_u32 (lock_line pid daemon scope) ''pid'' = Some pid"
proof -
  assume pid: "pid < 2 ^ 32"
  have f: "str_find (lock_line pid daemon scope) (quote @ ''pid'' @ quote @ '':'') = Some 1"
    by (simp add: lock_line_def quote_def starts_with_Cons)
  have d: "drop (1 + length (quote @ ''pid'' @ quote @ '':'')) (lock_line pid daemon scope)
             = dec pid @ CHR '','' # (quote @ ''daemon'' @ quote @ '':'' @ quote @ daemon @ quote @
                 '','' @ quote @ ''scope'' @ quote @ '':'' @ quote @ scope @ quote @ ''}'' @ [CHR 0x0A])"
    by (simp add: lock_line_def quote_def)
  show ?thesis
    unfolding field_u32_def Let_def f bind.bind_lunit d drop_space_dec takeWhile_dec
    using pid by (rule parse_u32_dec)
qed

subsection \<open>The reap race\<close>

text \<open>
  Two processes and no file: A creates the file, B reads it before A has written it and takes it for a
  stale one, A writes its line, B removes the file of A and creates its own.
\<close>

definition race_world :: "(nat \<times> string) option \<Rightarrow> nat \<Rightarrow> lock_phase \<Rightarrow> lock_phase \<Rightarrow> lock_world" where
  "race_world file n a b =
     \<lparr>lk_file = file, lk_next = n, lk_phase = (\<lambda>p. LIdle)(1 := a, 2 := b), lk_alive = {1, 2}\<rparr>"

text \<open>A step in which no process dies.\<close>

definition survived_step :: "string \<Rightarrow> (nat \<Rightarrow> string \<times> string) \<Rightarrow> lock_world \<Rightarrow> lock_world \<Rightarrow> bool" where
  "survived_step ws who s t \<longleftrightarrow> lock_step ws who s t \<and> lk_alive s \<subseteq> lk_alive t"

lemmas race_simps =
  survived_step_def race_world_def fun_upd_twist [of "Suc 0" "Suc (Suc 0)"] numeral_2_eq_2 numeral_3_eq_3

lemma field_pid_Nil: "field_u32 [] ''pid'' = None"
  by (simp add: field_u32_def quote_def)

text \<open>C22: The lock does not keep a workspace to one writer: from no lock file, with no process dying and nothing else touching
  the file, two live processes can both come out of \<open>acquire\<close> with the lock, since \<open>create_new\<close> and the write of the
  line are two operations and a file that is still empty is reaped as a dead process's.\<close>

theorem reap_race_two_holders:
  "\<exists>s. (survived_step ws who)\<^sup>*\<^sup>* (lock_start None) s \<and> 1 \<in> lk_alive s \<and> 2 \<in> lk_alive s \<and>
     holds_lock s 1 \<and> holds_lock s 2"
proof -
  let ?l1 = "lock_line 1 (fst (who 1)) (snd (who 1))"
  let ?l2 = "lock_line 2 (fst (who 2)) (snd (who 2))"
  let ?step = "survived_step ws who"
  let ?a = "(lock_start None)\<lparr>lk_alive := {1}\<rparr>"
  have "?step (lock_start None) ?a"
    using lk_spawn [of 1 "lock_start None" ws who] by (simp add: survived_step_def lock_start_def fun_upd_idem)
  moreover have "?step ?a (race_world None 1 LIdle LIdle)"
    using lk_spawn [of 2 ?a ws who] by (simp add: lock_start_def race_simps fun_upd_idem insert_commute)
  moreover have "?step (race_world None 1 LIdle LIdle) (race_world None 1 (LCreate 0) LIdle)"
    using lk_start [of 1 "race_world None 1 LIdle LIdle" ws who] by (simp add: race_simps)
  moreover have "?step (race_world None 1 (LCreate 0) LIdle) (race_world (Some (1, [])) 2 (LWrite 1) LIdle)"
    using lk_create [of 1 "race_world None 1 (LCreate 0) LIdle" 0 ws who] by (simp add: race_simps)
  moreover have "?step (race_world (Some (1, [])) 2 (LWrite 1) LIdle)
                       (race_world (Some (1, [])) 2 (LWrite 1) (LCreate 0))"
    using lk_start [of 2 "race_world (Some (1, [])) 2 (LWrite 1) LIdle" ws who] by (simp add: race_simps)
  moreover have "?step (race_world (Some (1, [])) 2 (LWrite 1) (LCreate 0))
                       (race_world (Some (1, [])) 2 (LWrite 1) (LExists 0))"
    using lk_exists [of 2 "race_world (Some (1, [])) 2 (LWrite 1) (LCreate 0)" 0 ws who]
    by (simp add: race_simps)
  moreover have "?step (race_world (Some (1, [])) 2 (LWrite 1) (LExists 0))
                       (race_world (Some (1, [])) 2 (LWrite 1) (LRead 0 []))"
    using lk_read [of 2 "race_world (Some (1, [])) 2 (LWrite 1) (LExists 0)" 0 ws who]
    by (simp add: race_simps held_text_def)
  moreover have "?step (race_world (Some (1, [])) 2 (LWrite 1) (LRead 0 []))
                       (race_world (Some (1, [])) 2 (LWrite 1) LReap)"
    using lk_decide [of 2 "race_world (Some (1, [])) 2 (LWrite 1) (LRead 0 [])" 0 "[]" ws who]
    by (simp add: race_simps on_held_def field_pid_Nil)
  moreover have "?step (race_world (Some (1, [])) 2 (LWrite 1) LReap)
                       (race_world (Some (1, ?l1)) 2 (LHeld 1) LReap)"
    using lk_write [of 1 "race_world (Some (1, [])) 2 (LWrite 1) LReap" 1 ws who]
    by (simp add: race_simps write_lock_def)
  moreover have "?step (race_world (Some (1, ?l1)) 2 (LHeld 1) LReap) (race_world None 2 (LHeld 1) (LCreate 1))"
    using lk_reap [of 2 "race_world (Some (1, ?l1)) 2 (LHeld 1) LReap" ws who] by (simp add: race_simps)
  moreover have "?step (race_world None 2 (LHeld 1) (LCreate 1)) (race_world (Some (2, [])) 3 (LHeld 1) (LWrite 2))"
    using lk_create [of 2 "race_world None 2 (LHeld 1) (LCreate 1)" 1 ws who] by (simp add: race_simps)
  moreover have "?step (race_world (Some (2, [])) 3 (LHeld 1) (LWrite 2))
                       (race_world (Some (2, ?l2)) 3 (LHeld 1) (LHeld 2))"
    using lk_write [of 2 "race_world (Some (2, [])) 3 (LHeld 1) (LWrite 2)" 2 ws who]
    by (simp add: race_simps write_lock_def)
  ultimately have "?step\<^sup>*\<^sup>* (lock_start None) (race_world (Some (2, ?l2)) 3 (LHeld 1) (LHeld 2))"
    by (meson converse_rtranclp_into_rtranclp rtranclp.rtrancl_refl)
  then show ?thesis
    by (intro exI [of _ "race_world (Some (2, ?l2)) 3 (LHeld 1) (LHeld 2)"])
      (simp add: race_world_def holds_lock_def)
qed

end
