(* ===== verification/Select.thy ===== *)
theory Select
  imports Paths
begin

section \<open>razel-loading: select and the configuration\<close>

text \<open>
  \<^verbatim>\<open>crates/razel-loading/src/selects.rs\<close>, the configuration of \<^verbatim>\<open>state/flags.rs\<close> and the conditions of \<^verbatim>\<open>host.rs\<close>: the
  matching of a \<open>config_setting\<close>, the choice of a branch of \<open>select\<close>, the resolution of an attribute.
  Starlark values are a datatype over the plain ones; a key of a branch is the text \<open>key_string\<close> reads
  off it, \<open>None\<close> when it is no label.  Loading a package runs Starlark code: it is the parameter
  \<open>load\<close> and returns the session it leaves.
\<close>

subsection \<open>The configuration\<close>

record config_flags =
  cfg_compilation_mode :: string
  cfg_defines :: "(string \<times> string) list"

record config_spec =
  spec_values :: "(string, string) bmap"
  spec_define_values :: "(string, string) bmap"
  spec_group :: "(bool \<times> string list) option"
  spec_unmodeled :: bool
  spec_constraint_values :: "string list"

definition spec_default :: config_spec where
  "spec_default =
     \<lparr>spec_values = [], spec_define_values = [], spec_group = None, spec_unmodeled = False, spec_constraint_values = []\<rparr>"

record select_session =
  ss_flags :: config_flags
  ss_paths :: path_session
  ss_os :: string
  ss_arch :: string
  ss_workspace :: bool
  ss_specs :: "string \<Rightarrow> config_spec option"
  ss_aliases :: "string \<Rightarrow> string option"
  ss_warned :: "string list"

type_synonym package_loader = "string \<Rightarrow> select_session \<Rightarrow> (string + unit) \<times> select_session"

definition flags_mode :: "config_flags \<Rightarrow> string" where
  "flags_mode f = (if cfg_compilation_mode f = [] then ''fastbuild'' else cfg_compilation_mode f)"

text \<open>Where an external repository may lie: vendored, under its name or with dashes, then fetched.\<close>

definition path_join :: "string \<Rightarrow> string \<Rightarrow> string" where
  "path_join base name = (if starts_with name ''/'' then name else base @ ''/'' @ name)"

definition external_repo_dirs :: "string option \<Rightarrow> string option \<Rightarrow> string \<Rightarrow> string list" where
  "external_repo_dirs external_base fetched repo =
     (let dashed = map (\<lambda>c. if c = CHR ''_'' then CHR ''-'' else c) repo
      in (case external_base of
            None \<Rightarrow> []
          | Some base \<Rightarrow> path_join base repo # (if dashed \<noteq> repo then [path_join base dashed] else [])) @
         (case fetched of None \<Rightarrow> [] | Some f \<Rightarrow> [path_join f repo]))"

definition external_repo_dir :: "(string \<Rightarrow> bool) \<Rightarrow> string option \<Rightarrow> string option \<Rightarrow> string \<Rightarrow> string option" where
  "external_repo_dir exists external_base fetched repo = find exists (external_repo_dirs external_base fetched repo)"

definition host_cpu :: "string \<Rightarrow> string \<Rightarrow> string" where
  "host_cpu os arch =
     (if os = ''macos'' then if arch = ''aarch64'' then ''darwin_arm64'' else ''darwin_x86_64''
      else if os = ''linux'' \<and> arch = ''x86_64'' then ''k8''
      else if os = ''linux'' \<and> arch = ''aarch64'' then ''aarch64''
      else ''unknown'')"

definition host_triple :: "string \<Rightarrow> string \<Rightarrow> string" where
  "host_triple os arch =
     (if os = ''macos'' then if arch = ''aarch64'' then ''aarch64-apple-darwin'' else ''x86_64-apple-darwin''
      else if os = ''linux'' \<and> arch = ''aarch64'' then ''aarch64-unknown-linux-gnu''
      else ''x86_64-unknown-linux-gnu'')"

text \<open>\<open>s.trim_start_matches(p)\<close> for a text \<open>p\<close>.\<close>

function trim_start_str :: "string \<Rightarrow> string \<Rightarrow> string" where
  "trim_start_str p s =
     (if p \<noteq> [] \<and> starts_with s p \<and> s \<noteq> [] then trim_start_str p (drop (length p) s) else s)"
  by pat_completeness auto
termination
  by (relation "measure (\<lambda>(p, s). length s)") auto

declare trim_start_str.simps [simp del]

definition host_constraint_matches :: "string \<Rightarrow> string \<Rightarrow> string \<Rightarrow> string \<Rightarrow> bool" where
  "host_constraint_matches os arch pkg name =
     (let fam = trim_start_str ''@platforms//'' (rsplit_last pkg (CHR ''/''))
      in if fam = ''os'' then (if os = ''macos'' then name = ''osx'' \<or> name = ''macos'' else name = os)
         else if fam = ''cpu'' then (if arch = ''aarch64'' then name = ''arm64'' \<or> name = ''aarch64'' else name = arch)
         else False)"

definition host_false_condition :: "string \<Rightarrow> bool" where
  "host_false_condition canon =
     list_ex (starts_with canon)
       [''@local_config_cuda//'', ''@local_config_rocm//'', ''@local_config_sycl//'', ''@local_config_tensorrt//'']"

definition platform_condition_matches :: "string \<Rightarrow> string \<Rightarrow> string \<Rightarrow> bool option" where
  "platform_condition_matches os arch canon =
     (case strip_prefix canon ''@platforms//'' of
        Some rest \<Rightarrow> map_option (\<lambda>(fam, name). host_constraint_matches os arch fam name) (split_once rest (CHR '':''))
      | None \<Rightarrow> map_option (\<lambda>triple. triple = host_triple os arch) (strip_prefix canon ''@rules_rust//rust/platform:''))"

subsection \<open>The error texts\<close>

definition not_kv_text :: "string \<Rightarrow> string" where
  "not_kv_text want = ''config_setting `define` value `'' @ want @ ''` is not k=v''"

definition too_deep_text :: "string \<Rightarrow> string" where
  "too_deep_text canon = ''condition alias/group nesting too deep at `'' @ canon @ ''`''"

definition load_failed_text :: "string \<Rightarrow> string \<Rightarrow> string" where
  "load_failed_text canon e = ''select(): loading `'' @ canon @ ''`'' @ [CHR 0x27] @ ''s package failed: '' @ e"

definition no_member_text :: "string \<Rightarrow> string" where
  "no_member_text m = ''config_setting_group member `'' @ m @ ''` not declared''"

definition undeclared_text :: "string \<Rightarrow> string" where
  "undeclared_text cond = ''select(): `'' @ cond @ ''` is not a declared config_setting''"

definition not_label_text :: string where
  "not_label_text = ''select(): condition key is not a label''"

definition no_match_text :: string where
  "no_match_text = ''select() matched no condition and has no //conditions:default''"

definition ambiguous_text :: "string \<Rightarrow> string \<Rightarrow> string" where
  "ambiguous_text a b =
     ''select() is ambiguous: `'' @ a @ ''` and `'' @ b @ ''` both match and neither specializes the other''"

definition not_list_text :: "string \<Rightarrow> string" where
  "not_list_text shown = ''select concatenation parts must be lists (got `'' @ shown @ ''`)''"

subsection \<open>Matching a config_setting\<close>

definition has_define :: "config_flags \<Rightarrow> string \<Rightarrow> string \<Rightarrow> bool" where
  "has_define f k v = list_ex (\<lambda>(dk, dv). dk = k \<and> dv = v) (cfg_defines f)"

definition value_ok :: "select_session \<Rightarrow> string \<Rightarrow> string \<Rightarrow> (string + bool) \<times> select_session" where
  "value_ok s key want =
     (if key = ''compilation_mode'' then (Inr (flags_mode (ss_flags s) = want), s)
      else if key = ''define'' then
        (case split_once want (CHR ''='') of
           Some (k, v) \<Rightarrow> (Inr (has_define (ss_flags s) k v), s)
         | None \<Rightarrow> (Inl (not_kv_text want), s))
      else if key = ''cpu'' then (Inr (want = host_cpu (ss_os s) (ss_arch s)), s)
      else (Inr False, s\<lparr>ss_warned := hs_insert (''config_setting key '' @ key) (ss_warned s)\<rparr>))"

fun values_ok :: "select_session \<Rightarrow> (string \<times> string) list \<Rightarrow> (string + bool) \<times> select_session" where
  "values_ok s [] = (Inr True, s)"
| "values_ok s ((key, want) # kvs) =
     (case value_ok s key want of
        (Inl e, t) \<Rightarrow> (Inl e, t)
      | (Inr ok, t) \<Rightarrow> if ok then values_ok t kvs else (Inr False, t))"

definition constraint_ok :: "select_session \<Rightarrow> string \<Rightarrow> bool" where
  "constraint_ok s c =
     (case Option.bind (strip_prefix c ''@platforms//'') (\<lambda>rest. split_once rest (CHR '':'')) of
        Some (pkg, name) \<Rightarrow> host_constraint_matches (ss_os s) (ss_arch s) pkg name
      | None \<Rightarrow> False)"

definition spec_matches :: "select_session \<Rightarrow> config_spec \<Rightarrow> (string + bool) \<times> select_session" where
  "spec_matches s spec =
     (case values_ok s (spec_values spec) of
        (Inl e, t) \<Rightarrow> (Inl e, t)
      | (Inr ok, t) \<Rightarrow>
          if \<not> ok then (Inr False, t)
          else if \<not> list_all (\<lambda>(k, v). has_define (ss_flags s) k v) (spec_define_values spec) then (Inr False, t)
          else (Inr (list_all (constraint_ok s) (spec_constraint_values spec)), t))"

text \<open>The constraints a setting is compared by; the tag says whether a pair is a value or a define.\<close>

definition constraints :: "config_spec \<Rightarrow> (string \<times> string \<times> string) bset" where
  "constraints spec =
     bs_of (map (\<lambda>(k, v). (''v'', k, v)) (spec_values spec) @ map (\<lambda>(k, v). (''d'', k, v)) (spec_define_values spec))"

subsection \<open>Matching a condition\<close>

function condition_matches ::
    "package_loader \<Rightarrow> bool \<Rightarrow> nat \<Rightarrow> string \<Rightarrow> select_session \<Rightarrow> (string + bool option) \<times> select_session"
  and condition_group ::
    "package_loader \<Rightarrow> bool \<Rightarrow> nat \<Rightarrow> bool \<Rightarrow> string list \<Rightarrow> select_session \<Rightarrow> (string + bool option) \<times> select_session"
where
  "condition_matches load allow 0 canon s = (Inl (too_deep_text canon), s)"
| "condition_matches load allow (Suc fuel) canon s =
     (case ss_aliases s canon of
        Some t \<Rightarrow> condition_matches load allow fuel t s
      | None \<Rightarrow>
          if host_false_condition canon then (Inr (Some False), s)
          else
            (case ss_specs s canon of
               None \<Rightarrow>
                 (case platform_condition_matches (ss_os s) (ss_arch s) canon of
                    Some hit \<Rightarrow> (Inr (Some hit), s)
                  | None \<Rightarrow>
                      (case (if allow \<and> ss_workspace s then pkg_of canon else None) of
                         None \<Rightarrow> (Inr None, s)
                       | Some pkg \<Rightarrow>
                           (case load pkg s of
                              (Inl e, t) \<Rightarrow>
                                if ss_specs t canon = None \<and> ss_aliases t canon = None
                                then (Inl (load_failed_text canon e), t)
                                else condition_matches load False fuel canon t
                            | (Inr _, t) \<Rightarrow> condition_matches load False fuel canon t)))
             | Some spec \<Rightarrow>
                 if spec_unmodeled spec then (Inr (Some False), s)
                 else
                   (case spec_group spec of
                      Some (all, members) \<Rightarrow> condition_group load allow fuel all members s
                    | None \<Rightarrow>
                        (case spec_matches s spec of (Inl e, t) \<Rightarrow> (Inl e, t) | (Inr b, t) \<Rightarrow> (Inr (Some b), t)))))"
| "condition_group load allow fuel all [] s = (Inr (Some all), s)"
| "condition_group load allow fuel all (m # ms) s =
     (case condition_matches load allow fuel m s of
        (Inl e, t) \<Rightarrow> (Inl e, t)
      | (Inr (Some hit), t) \<Rightarrow>
          if all \<and> \<not> hit then (Inr (Some False), t)
          else if \<not> all \<and> hit then (Inr (Some True), t)
          else condition_group load allow fuel all ms t
      | (Inr None, t) \<Rightarrow>
          if allow then (Inl (no_member_text m), t)
          else (Inr None, t))"
  by pat_completeness auto
termination
  by (relation "measures [\<lambda>x. case x of Inl (_, _, fuel, _, _) \<Rightarrow> fuel | Inr (_, _, fuel, _, _, _) \<Rightarrow> fuel,
                          \<lambda>x. case x of Inl _ \<Rightarrow> 0 | Inr (_, _, _, _, ms, _) \<Rightarrow> Suc (length ms)]") auto

fun deref_alias :: "(string \<Rightarrow> string option) \<Rightarrow> nat \<Rightarrow> string \<Rightarrow> string" where
  "deref_alias al 0 cur = cur"
| "deref_alias al (Suc n) cur = (case al cur of Some t \<Rightarrow> deref_alias al n t | None \<Rightarrow> cur)"

definition deref_spec :: "select_session \<Rightarrow> string \<Rightarrow> config_spec option" where
  "deref_spec s canon = ss_specs s (deref_alias (ss_aliases s) 16 canon)"

definition branch_spec :: "select_session \<Rightarrow> string \<Rightarrow> config_spec" where
  "branch_spec s canon = (case deref_spec s canon of Some spec \<Rightarrow> spec | None \<Rightarrow> spec_default)"

subsection \<open>Picking a branch\<close>

type_synonym 'v matches = "(string \<times> config_spec \<times> 'v) list"

definition default_key :: string where
  "default_key = ''//conditions:default''"

text \<open>The loop over the branches: \<open>None\<close> defers; otherwise the default seen last and the matches in order.\<close>

fun collect_matches ::
    "package_loader \<Rightarrow> bool \<Rightarrow> bool \<Rightarrow> (string option \<times> 'v) list \<Rightarrow> 'v option \<Rightarrow> 'v matches \<Rightarrow> select_session \<Rightarrow>
     (string + ('v option \<times> 'v matches) option) \<times> select_session" where
  "collect_matches load dfr allow [] dflt ms s = (Inr (Some (dflt, ms)), s)"
| "collect_matches load dfr allow ((k, v) # kvs) dflt ms s =
     (case k of
        None \<Rightarrow> (Inl not_label_text, s)
      | Some cond \<Rightarrow>
          if cond = default_key then collect_matches load dfr allow kvs (Some v) ms s
          else
            (let canon = canon_label (ss_paths s) cond
             in (case condition_matches load allow 16 canon s of
                   (Inl e, t) \<Rightarrow> (Inl e, t)
                 | (Inr (Some True), t) \<Rightarrow>
                     collect_matches load dfr allow kvs dflt (ms @ [(cond, branch_spec t canon, v)]) t
                 | (Inr (Some False), t) \<Rightarrow> collect_matches load dfr allow kvs dflt ms t
                 | (Inr None, t) \<Rightarrow>
                     if dfr then (Inr None, t)
                     else (Inl (undeclared_text cond), t))))"

definition specificity :: "string \<times> config_spec \<times> 'v \<Rightarrow> nat" where
  "specificity m = length (constraints (fst (snd m)))"

text \<open>A stable sort by decreasing number of constraints, then the check against the first.\<close>

definition by_specificity :: "'v matches \<Rightarrow> 'v matches" where
  "by_specificity ms = sort_key (\<lambda>m. - int (specificity m)) ms"

fun pick_winner :: "'v option \<Rightarrow> 'v matches \<Rightarrow> string + 'v" where
  "pick_winner dflt ms =
     (case by_specificity ms of
        [] \<Rightarrow> (case dflt of Some v \<Rightarrow> Inr v
                 | None \<Rightarrow> Inl no_match_text)
      | (c0, s0, v0) # rest \<Rightarrow>
          (case find (\<lambda>(c, sp, v). \<not> set (constraints sp) \<subseteq> set (constraints s0)) rest of
             Some (c, sp, v) \<Rightarrow> Inl (ambiguous_text c0 c)
           | None \<Rightarrow> Inr v0))"

definition pick_branch ::
    "package_loader \<Rightarrow> (string option \<times> 'v) list \<Rightarrow> bool \<Rightarrow> bool \<Rightarrow> select_session \<Rightarrow>
     (string + 'v option) \<times> select_session" where
  "pick_branch load pairs dfr allow s =
     (case collect_matches load dfr allow pairs None [] s of
        (Inl e, t) \<Rightarrow> (Inl e, t)
      | (Inr None, t) \<Rightarrow> (Inr None, t)
      | (Inr (Some (dflt, ms)), t) \<Rightarrow> (map_sum id Some (pick_winner dflt ms), t))"

subsection \<open>Attribute values\<close>

datatype 'a attr_value =
  Plain 'a
| AList "'a attr_value list"
| ATuple "'a attr_value list"
| ASelect "(string option \<times> 'a attr_value) list"
| AExpr "'a attr_value list"

text \<open>\<open>+\<close> of a select, on either side; every other value leaves the operator to the library.\<close>

fun select_add :: "'a attr_value \<Rightarrow> 'a attr_value \<Rightarrow> 'a attr_value option" where
  "select_add (ASelect bs) other = Some (AExpr [ASelect bs, other])"
| "select_add (AExpr parts) other = Some (AExpr (parts @ [other]))"
| "select_add _ _ = None"

fun select_radd :: "'a attr_value \<Rightarrow> 'a attr_value \<Rightarrow> 'a attr_value option" where
  "select_radd (ASelect bs) lhs = Some (AExpr [lhs, ASelect bs])"
| "select_radd (AExpr parts) lhs = Some (AExpr (lhs # parts))"
| "select_radd _ _ = None"

subsection \<open>The chosen branch is one of the branches\<close>

lemma collect_matches_Cons:
  assumes "collect_matches load dfr allow ((k, v) # kvs) dflt ms s = (Inr (Some r), t)"
  obtains (dflt) "k = Some default_key" "collect_matches load dfr allow kvs (Some v) ms s = (Inr (Some r), t)"
  | (hit) cond u where "k = Some cond" "cond \<noteq> default_key"
      "condition_matches load allow 16 (canon_label (ss_paths s) cond) s = (Inr (Some True), u)"
      "collect_matches load dfr allow kvs dflt (ms @ [(cond, branch_spec u (canon_label (ss_paths s) cond), v)]) u
         = (Inr (Some r), t)"
  | (miss) cond u where "k = Some cond" "cond \<noteq> default_key"
      "condition_matches load allow 16 (canon_label (ss_paths s) cond) s = (Inr (Some False), u)"
      "collect_matches load dfr allow kvs dflt ms u = (Inr (Some r), t)"
proof (cases k)
  case None
  with assms show ?thesis by simp
next
  case k: (Some cond)
  show ?thesis
  proof (cases "cond = default_key")
    case True
    with assms k dflt show ?thesis by simp
  next
    case False
    obtain q u where c: "condition_matches load allow 16 (canon_label (ss_paths s) cond) s = (q, u)"
      by (meson surj_pair)
    consider e where "q = Inl e" | "q = Inr None" | "q = Inr (Some True)" | "q = Inr (Some False)"
      by (metis (full_types) option.exhaust sum.exhaust)
    then show ?thesis
    proof cases
      case 3
      show ?thesis using assms k False c 3 by (intro hit) simp_all
    next
      case 4
      show ?thesis using assms k False c 4 by (intro miss) simp_all
    qed (use assms k False c in \<open>simp_all split: if_splits\<close>)
  qed
qed

definition match_value :: "string \<times> config_spec \<times> 'v \<Rightarrow> 'v" where
  "match_value m = snd (snd m)"

lemma match_value_simp [simp]: "match_value (c, sp, v) = v"
  by (simp add: match_value_def)

lemma collect_matches_in:
  "collect_matches load dfr allow pairs dflt ms s = (Inr (Some (d, ms')), t) \<Longrightarrow>
     set_option d \<union> match_value ` set ms' \<subseteq> set_option dflt \<union> match_value ` set ms \<union> snd ` set pairs"
proof (induction pairs arbitrary: dflt ms s)
  case (Cons kv kvs)
  obtain k v where kv: "kv = (k, v)" by fastforce
  from Cons.prems [unfolded kv] show ?case
  proof (cases rule: collect_matches_Cons)
    case dflt
    from Cons.IH [OF dflt(2)] kv show ?thesis by simp blast
  next
    case (hit cond u)
    from Cons.IH [OF hit(4)] kv show ?thesis by simp
  next
    case (miss cond u)
    from Cons.IH [OF miss(4)] kv show ?thesis by simp blast
  qed
qed simp

lemma set_by_specificity [simp]: "set (by_specificity ms) = set ms"
  by (simp add: by_specificity_def)

lemma pick_winner_in: "pick_winner d ms = Inr v \<Longrightarrow> v \<in> set_option d \<union> match_value ` set ms"
proof -
  assume p: "pick_winner d ms = Inr v"
  show ?thesis
  proof (cases "by_specificity ms")
    case Nil
    with p show ?thesis by (auto split: option.splits)
  next
    case (Cons m rest)
    then have m: "m \<in> set ms" by (metis list.set_intros(1) set_by_specificity)
    obtain c sp w where "m = (c, sp, w)" by (metis surj_pair)
    with p Cons have "v = match_value m" by (auto split: option.splits)
    with m show ?thesis by blast
  qed
qed

lemma pick_branch_Some:
  assumes "pick_branch load pairs dfr allow s = (Inr (Some v), t)"
  obtains d ms where "collect_matches load dfr allow pairs None [] s = (Inr (Some (d, ms)), t)"
    "pick_winner d ms = Inr v"
proof -
  obtain q u where c: "collect_matches load dfr allow pairs None [] s = (q, u)" by (meson surj_pair)
  show ?thesis
  proof (cases q)
    case (Inr r)
    with assms c obtain d ms where r: "r = Some (d, ms)"
      by (cases r) (auto simp: pick_branch_def)
    with assms c Inr show ?thesis
      by (cases "pick_winner d ms") (auto simp: pick_branch_def simp del: pick_winner.simps intro: that)
  qed (use assms c in \<open>simp add: pick_branch_def\<close>)
qed

lemma pick_branch_in:
  assumes "pick_branch load pairs dfr allow s = (Inr (Some v), t)"
  shows "v \<in> snd ` set pairs"
proof -
  from assms obtain d ms where
    c: "collect_matches load dfr allow pairs None [] s = (Inr (Some (d, ms)), t)" and p: "pick_winner d ms = Inr v"
    by (rule pick_branch_Some)
  from collect_matches_in [OF c] have "set_option d \<union> match_value ` set ms \<subseteq> snd ` set pairs" by simp
  with pick_winner_in [OF p] show ?thesis by blast
qed

subsection \<open>Resolving an attribute\<close>

text \<open>A chosen branch is smaller than its select.\<close>

lemma size_picked: "v \<in> snd ` set pairs \<Longrightarrow> size v < size (ASelect pairs)"
proof clarsimp
  fix k assume "(k, v) \<in> set pairs"
  then have "size v \<le> size_list (size_prod (\<lambda>x. 0) size) pairs"
    by (rule size_list_estimation') simp
  then show "size v < Suc (size_list (size_prod (\<lambda>x. 0) size) pairs)" by simp
qed

function resolve_attr_value ::
    "package_loader \<Rightarrow> ('a attr_value \<Rightarrow> string) \<Rightarrow> 'a attr_value \<Rightarrow> select_session \<Rightarrow>
     (string + 'a attr_value) \<times> select_session"
  and resolve_parts ::
    "package_loader \<Rightarrow> ('a attr_value \<Rightarrow> string) \<Rightarrow> 'a attr_value list \<Rightarrow> 'a attr_value list \<Rightarrow> select_session \<Rightarrow>
     (string + 'a attr_value) \<times> select_session"
where
  "resolve_attr_value load display v s =
     (case v of
        ASelect pairs \<Rightarrow>
          (case pick_branch load pairs False True s of
             (Inl e, t) \<Rightarrow> (Inl e, t)
           | (Inr None, t) \<Rightarrow> (Inl ''panic: non-deferring pick'', t)
           | (Inr (Some picked), t) \<Rightarrow> resolve_attr_value load display picked t)
      | AExpr parts \<Rightarrow> resolve_parts load display parts [] s
      | _ \<Rightarrow> (Inr v, s))"
| "resolve_parts load display [] out s = (Inr (AList out), s)"
| "resolve_parts load display (p # ps) out s =
     (case resolve_attr_value load display p s of
        (Inl e, t) \<Rightarrow> (Inl e, t)
      | (Inr (AList l), t) \<Rightarrow> resolve_parts load display ps (out @ l) t
      | (Inr (ATuple l), t) \<Rightarrow> resolve_parts load display ps (out @ l) t
      | (Inr r, t) \<Rightarrow> (Inl (not_list_text (display r)), t))"
  by pat_completeness auto

termination
proof (relation "measure (\<lambda>x. case x of Inl (_, _, v, _) \<Rightarrow> Suc (2 * size v)
                                      | Inr (_, _, ps, _, _) \<Rightarrow> 2 * size_list size ps)")
qed (auto dest!: pick_branch_in [OF sym] size_picked)

declare resolve_attr_value.simps [simp del]

end
