(* ===== verification/Select_Props.thy ===== *)
theory Select_Props
  imports Select
begin

section \<open>Properties of select\<close>

text \<open>
  What a condition means is an inductive relation on the declared settings and aliases, without fuel,
  loading or order of evaluation; \<open>condition_matches\<close> and \<open>pick_branch\<close> are compared with it.
\<close>

subsection \<open>The meaning of a condition\<close>

inductive cond_value :: "select_session \<Rightarrow> string \<Rightarrow> bool \<Rightarrow> bool" for s where
  cv_alias: "ss_aliases s c = Some t \<Longrightarrow> cond_value s t b \<Longrightarrow> cond_value s c b"
| cv_host: "ss_aliases s c = None \<Longrightarrow> host_false_condition c \<Longrightarrow> cond_value s c False"
| cv_platform: "ss_aliases s c = None \<Longrightarrow> \<not> host_false_condition c \<Longrightarrow> ss_specs s c = None \<Longrightarrow>
    platform_condition_matches (ss_os s) (ss_arch s) c = Some b \<Longrightarrow> cond_value s c b"
| cv_unmodeled: "ss_aliases s c = None \<Longrightarrow> \<not> host_false_condition c \<Longrightarrow> ss_specs s c = Some sp \<Longrightarrow>
    spec_unmodeled sp \<Longrightarrow> cond_value s c False"
| cv_spec: "ss_aliases s c = None \<Longrightarrow> \<not> host_false_condition c \<Longrightarrow> ss_specs s c = Some sp \<Longrightarrow>
    \<not> spec_unmodeled sp \<Longrightarrow> spec_group sp = None \<Longrightarrow> fst (spec_matches s sp) = Inr b \<Longrightarrow> cond_value s c b"
| cv_all: "ss_aliases s c = None \<Longrightarrow> \<not> host_false_condition c \<Longrightarrow> ss_specs s c = Some sp \<Longrightarrow>
    \<not> spec_unmodeled sp \<Longrightarrow> spec_group sp = Some (all, ms) \<Longrightarrow>
    (\<And>m. m \<in> set ms \<Longrightarrow> cond_value s m all) \<Longrightarrow> cond_value s c all"
| cv_some: "ss_aliases s c = None \<Longrightarrow> \<not> host_false_condition c \<Longrightarrow> ss_specs s c = Some sp \<Longrightarrow>
    \<not> spec_unmodeled sp \<Longrightarrow> spec_group sp = Some (all, ms) \<Longrightarrow>
    m \<in> set ms \<Longrightarrow> cond_value s m (\<not> all) \<Longrightarrow> cond_value s c (\<not> all)"

inductive_simps cond_value_iff: "cond_value s c b"

lemma cond_value_unfold:
  "ss_aliases s c = Some t \<Longrightarrow> cond_value s c b \<longleftrightarrow> cond_value s t b"
  "ss_aliases s c = None \<Longrightarrow> host_false_condition c \<Longrightarrow> cond_value s c b \<longleftrightarrow> \<not> b"
  "ss_aliases s c = None \<Longrightarrow> \<not> host_false_condition c \<Longrightarrow> ss_specs s c = None \<Longrightarrow>
     cond_value s c b \<longleftrightarrow> platform_condition_matches (ss_os s) (ss_arch s) c = Some b"
  "ss_aliases s c = None \<Longrightarrow> \<not> host_false_condition c \<Longrightarrow> ss_specs s c = Some sp \<Longrightarrow> spec_unmodeled sp \<Longrightarrow>
     cond_value s c b \<longleftrightarrow> \<not> b"
  "ss_aliases s c = None \<Longrightarrow> \<not> host_false_condition c \<Longrightarrow> ss_specs s c = Some sp \<Longrightarrow> \<not> spec_unmodeled sp \<Longrightarrow>
     spec_group sp = None \<Longrightarrow> cond_value s c b \<longleftrightarrow> fst (spec_matches s sp) = Inr b"
  "ss_aliases s c = None \<Longrightarrow> \<not> host_false_condition c \<Longrightarrow> ss_specs s c = Some sp \<Longrightarrow> \<not> spec_unmodeled sp \<Longrightarrow>
     spec_group sp = Some (all, ms) \<Longrightarrow>
     cond_value s c b \<longleftrightarrow> b = all \<and> (\<forall>m \<in> set ms. cond_value s m all) \<or>
                           b = (\<not> all) \<and> (\<exists>m \<in> set ms. cond_value s m (\<not> all))"
  by (subst cond_value_iff; simp; blast)+

text \<open>A condition has at most one value.\<close>

lemma cond_value_det: "cond_value s c b \<Longrightarrow> cond_value s c b' \<Longrightarrow> b' = b"
proof (induction arbitrary: b' rule: cond_value.induct)
  case (cv_all c sp all ms)
  then show ?case unfolding cond_value_unfold(6) [OF cv_all.hyps(1-5)] by blast
next
  case (cv_some c sp all ms m)
  then show ?case unfolding cond_value_unfold(6) [OF cv_some.hyps(1-5)] by blast
qed (simp_all add: cond_value_unfold)

subsection \<open>Sessions that differ in the warnings only\<close>

definition same_config :: "select_session \<Rightarrow> select_session \<Rightarrow> bool" where
  "same_config s t \<longleftrightarrow> (\<exists>w. t = s\<lparr>ss_warned := w\<rparr>)"

lemma same_config_refl [simp]: "same_config s s"
  unfolding same_config_def by (rule exI [of _ "ss_warned s"]) simp

lemma same_config_warn [simp]: "same_config s (s\<lparr>ss_warned := w\<rparr>)"
  by (auto simp: same_config_def)

lemma same_config_trans: "same_config s t \<Longrightarrow> same_config t u \<Longrightarrow> same_config s u"
  by (auto simp: same_config_def)

lemma same_config_sym: "same_config s t \<Longrightarrow> same_config t s"
  unfolding same_config_def by (metis select_session.surjective select_session.update_convs(8))

lemma same_config_sel:
  assumes "same_config s t"
  shows "ss_flags t = ss_flags s" "ss_paths t = ss_paths s" "ss_os t = ss_os s" "ss_arch t = ss_arch s"
    "ss_workspace t = ss_workspace s" "ss_specs t = ss_specs s" "ss_aliases t = ss_aliases s"
  using assms by (auto simp: same_config_def)

lemma value_ok_same:
  "same_config s t \<Longrightarrow> fst (value_ok t k v) = fst (value_ok s k v)" "same_config s (snd (value_ok s k v))"
  by (auto simp: value_ok_def same_config_sel split: option.splits)

lemma values_ok_same: "same_config s t \<Longrightarrow> fst (values_ok t kvs) = fst (values_ok s kvs)"
proof (induction kvs arbitrary: s t)
  case (Cons kv kvs)
  obtain k v where kv: "kv = (k, v)" by fastforce
  obtain q s' where s': "value_ok s k v = (q, s')" by (meson surj_pair)
  obtain q' t' where t': "value_ok t k v = (q', t')" by (meson surj_pair)
  have "q' = q" using value_ok_same(1) [OF Cons.prems, of k v] s' t' by simp
  moreover have "same_config s' t'"
    using value_ok_same(2) [of s k v] value_ok_same(2) [of t k v] Cons.prems s' t'
    by (metis same_config_sym same_config_trans snd_conv)
  ultimately show ?case using Cons.IH kv s' t' by (simp split: sum.splits)
qed simp

lemma values_ok_snd: "same_config s (snd (values_ok s kvs))"
proof (induction kvs arbitrary: s)
  case (Cons kv kvs)
  obtain k v where kv: "kv = (k, v)" by fastforce
  obtain q t where t: "value_ok s k v = (q, t)" by (meson surj_pair)
  with value_ok_same(2) [of s k v] have st: "same_config s t" by simp
  with Cons.IH [of t] kv t show ?case by (auto split: sum.splits intro: same_config_trans)
qed simp

lemma spec_matches_same:
  assumes "same_config s t"
  shows "fst (spec_matches t sp) = fst (spec_matches s sp)"
proof -
  obtain q s' where s': "values_ok s (spec_values sp) = (q, s')" by (meson surj_pair)
  obtain q' t' where t': "values_ok t (spec_values sp) = (q', t')" by (meson surj_pair)
  have "q' = q" using values_ok_same [OF assms, of "spec_values sp"] s' t' by simp
  moreover have "constraint_ok t = constraint_ok s"
    unfolding constraint_ok_def same_config_sel [OF assms] by (rule refl)
  ultimately show ?thesis
    using s' t' same_config_sel(1) [OF assms] by (simp add: spec_matches_def split: sum.splits)
qed

lemma spec_matches_snd: "same_config s (snd (spec_matches s sp))"
  using values_ok_snd [of s "spec_values sp"] by (auto simp: spec_matches_def split: prod.splits sum.splits)

lemma cond_value_same: "cond_value s c b \<Longrightarrow> same_config s t \<Longrightarrow> cond_value t c b"
proof (induction rule: cond_value.induct)
  case (cv_spec c sp b)
  then show ?case by (auto simp: same_config_sel spec_matches_same intro!: cond_value.cv_spec)
qed (auto simp: same_config_sel intro: cond_value.intros)

subsection \<open>A verdict is the meaning\<close>

text \<open>
  Outside a workspace no package is loaded while a condition is matched.  Inside one, the load of the package of an
  undeclared condition may declare settings and aliases that conditions read earlier did not see, so a verdict
  has a meaning only for the session it was reached in; nothing is claimed about that case.
\<close>

lemma same_value:
  "same_config s t \<Longrightarrow> cond_value t c b \<Longrightarrow> cond_value s c b"
  by (rule cond_value_same) (auto intro: same_config_sym)

lemma verdict_cases:
  fixes q :: "'e + bool option"
  obtains e where "q = Inl e" | "q = Inr None" | "q = Inr (Some (\<not> all))" | "q = Inr (Some all)"
proof (cases q)
  case (Inr v)
  with that(2,3,4) show ?thesis by (cases v; cases "the v = all") auto
qed (rule that(1))

lemma condition_sound:
  shows "\<not> ss_workspace s \<Longrightarrow> condition_matches load allow fuel c s = (r, t) \<Longrightarrow>
      same_config s t \<and> (\<forall>b. r = Inr (Some b) \<longrightarrow> cond_value s c b)"
    and "\<not> ss_workspace s \<Longrightarrow> condition_group load allow fuel all ms s = (r, t) \<Longrightarrow>
      same_config s t \<and> (\<forall>b. r = Inr (Some b) \<longrightarrow>
        b = all \<and> (\<forall>m \<in> set ms. cond_value s m all) \<or> b = (\<not> all) \<and> (\<exists>m \<in> set ms. cond_value s m (\<not> all)))"
proof (induction load allow fuel c s and load allow fuel all ms s arbitrary: r t and r t
    rule: condition_matches_condition_group.induct)
  case (1 load allow canon s)
  then show ?case by auto
next
  case (2 load allow fuel canon s)
  show ?case
  proof (cases "ss_aliases s canon")
    case (Some a)
    with 2 show ?thesis by (simp add: cond_value_unfold(1))
  next
    case al: None
    show ?thesis
    proof (cases "host_false_condition canon")
      case True
      with 2(6) al show ?thesis by (auto simp: cond_value_unfold(2))
    next
      case host: False
      show ?thesis
      proof (cases "ss_specs s canon")
        case sp: None
        show ?thesis
        proof (cases "platform_condition_matches (ss_os s) (ss_arch s) canon")
          case (Some hit)
          with 2(6) al host sp show ?thesis by (auto simp: cond_value_unfold(3))
        next
          case pl: None
          with 2(5,6) al host sp show ?thesis by auto
        qed
      next
        case sp: (Some sp)
        show ?thesis
        proof (cases "spec_unmodeled sp")
          case True
          with 2(6) al host sp show ?thesis by (auto simp: cond_value_unfold(4))
        next
          case un: False
          show ?thesis
          proof (cases "spec_group sp")
            case None
            with 2(6) al host sp un spec_matches_snd [of s sp] show ?thesis
              by (auto simp: cond_value_unfold(5) split: prod.splits sum.splits)
          next
            case (Some g)
            obtain all ms where g: "g = (all, ms)" by fastforce
            with 2(3) [OF al host sp un Some g [symmetric]] 2(5,6) al host sp un Some show ?thesis
              by (auto simp: cond_value_unfold(6))
          qed
        qed
      qed
    qed
  qed
next
  case (3 load allow fuel all s)
  then show ?case by auto
next
  case (4 load allow fuel all m ms s)
  obtain q u where u: "condition_matches load allow fuel m s = (q, u)" by (meson surj_pair)
  from 4(1) [OF 4(3) u] have su: "same_config s u" and val: "\<And>b. q = Inr (Some b) \<Longrightarrow> cond_value s m b"
    by blast+
  show ?case
  proof (cases rule: verdict_cases [where q = q and all = all])
    case 3
    with 4(4) u su val show ?thesis by (cases all) auto
  next
    case q: 4
    with 4(4) u have rest: "condition_group load allow fuel all ms u = (r, t)" by (cases all) auto
    from 4(3) su have uw: "\<not> ss_workspace u" by (simp add: same_config_sel)
    have group: "same_config u t \<and> (\<forall>b. r = Inr (Some b) \<longrightarrow>
        b = all \<and> (\<forall>m \<in> set ms. cond_value u m all) \<or> b = (\<not> all) \<and> (\<exists>m \<in> set ms. cond_value u m (\<not> all)))"
      by (rule 4(2) [OF u [symmetric] q refl _ _ uw rest]) simp_all
    show ?thesis
    proof (intro conjI allI impI)
      show "same_config s t" using group su by (blast intro: same_config_trans)
    next
      fix b assume "r = Inr (Some b)"
      with group consider "b = all" "\<forall>m' \<in> set ms. cond_value u m' all"
        | m' where "b = (\<not> all)" "m' \<in> set ms" "cond_value u m' (\<not> all)" by blast
      then show "b = all \<and> (\<forall>m \<in> set (m # ms). cond_value s m all) \<or>
                 b = (\<not> all) \<and> (\<exists>m \<in> set (m # ms). cond_value s m (\<not> all))"
      proof cases
        case 1
        with val [OF q] same_value [OF su] show ?thesis by simp
      next
        case (2 m')
        with same_value [OF su] have "cond_value s m' (\<not> all)" by simp
        with 2(1,2) show ?thesis by (meson list.set_intros(2))
      qed
    qed
  qed (use 4(4) u su in \<open>auto split: if_splits\<close>)
qed

subsection \<open>The most specialized match wins\<close>

lemma hd_insort_key:
  "hd (insort_key f x ys) = (if ys = [] \<or> f x \<le> f (hd ys) then x else hd ys)"
  by (cases ys) auto

lemma find_eq_first: "find P xs = Some x \<Longrightarrow> x \<in> set xs \<and> P x"
  by (induction xs) (auto split: if_splits)

text \<open>The head of a stable sort is the first of the smallest elements.\<close>

lemma hd_sort_key:
  fixes f :: "'a \<Rightarrow> 'k::linorder"
  shows "xs \<noteq> [] \<Longrightarrow> find (\<lambda>x. \<forall>y \<in> set xs. f x \<le> f y) xs = Some (hd (sort_key f xs))"
proof (induction xs)
  case (Cons x xs)
  show ?case
  proof (cases "xs = []")
    case False
    let ?h = "hd (sort_key f xs)"
    have h: "find (\<lambda>x. \<forall>y \<in> set xs. f x \<le> f y) xs = Some ?h" using Cons.IH [OF False] .
    have least: "\<forall>y \<in> set xs. f ?h \<le> f y" and mem: "?h \<in> set xs" using find_eq_first [OF h] by blast+
    have ne: "sort_key f xs \<noteq> []" using False by (metis set_empty set_sort)
    show ?thesis
    proof (cases "f x \<le> f ?h")
      case True
      with least have "\<forall>y \<in> set (x # xs). f x \<le> f y" using order_trans by auto
      with True ne show ?thesis by (simp add: hd_insort_key)
    next
      case False
      have "find (\<lambda>z. \<forall>y \<in> set (x # xs). f z \<le> f y) xs = find (\<lambda>z. \<forall>y \<in> set xs. f z \<le> f y) xs"
      proof (rule find_cong [OF refl])
        fix z assume "z \<in> set xs"
        show "(\<forall>y \<in> set (x # xs). f z \<le> f y) = (\<forall>y \<in> set xs. f z \<le> f y)"
        proof
          assume z: "\<forall>y \<in> set xs. f z \<le> f y"
          then have "f z \<le> f ?h" using mem by blast
          with False have "f z \<le> f x" by (simp add: not_le)
          with z show "\<forall>y \<in> set (x # xs). f z \<le> f y" by simp
        qed simp
      qed
      moreover have "\<not> (\<forall>y \<in> set (x # xs). f x \<le> f y)" using False mem by auto
      moreover have "find (\<lambda>z. \<forall>y \<in> set (x # xs). f z \<le> f y) (x # xs)
          = (if \<forall>y \<in> set (x # xs). f x \<le> f y then Some x else find (\<lambda>z. \<forall>y \<in> set (x # xs). f z \<le> f y) xs)"
        by (simp only: find.simps)
      ultimately have "find (\<lambda>z. \<forall>y \<in> set (x # xs). f z \<le> f y) (x # xs) = Some ?h" using h by (simp only: if_False)
      then show ?thesis using False ne by (simp only: sort_key_simps hd_insort_key) simp
    qed
  qed simp
qed simp

definition match_constraints :: "string \<times> config_spec \<times> 'v \<Rightarrow> (string \<times> string \<times> string) set" where
  "match_constraints m = set (constraints (fst (snd m)))"

lemma specificity_card: "specificity m = card (match_constraints m)"
  unfolding specificity_def match_constraints_def constraints_def
  using bs_ok_of sorted_wrt_less_distinct distinct_card unfolding bs_ok_def by metis

text \<open>A match covers the others when its constraints include theirs.\<close>

definition covers :: "'v matches \<Rightarrow> string \<times> config_spec \<times> 'v \<Rightarrow> bool" where
  "covers ms m \<longleftrightarrow> (\<forall>m' \<in> set ms. match_constraints m' \<subseteq> match_constraints m)"

lemma covers_same:
  assumes "m \<in> set ms" "w \<in> set ms" "covers ms m" "specificity m \<le> specificity w"
  shows "match_constraints w = match_constraints m"
proof -
  have "match_constraints w \<subseteq> match_constraints m" using assms(2,3) by (simp add: covers_def)
  moreover have "finite (match_constraints m)" by (simp add: match_constraints_def)
  ultimately show ?thesis using assms(4) card_seteq specificity_card by metis
qed

lemma find_covers:
  assumes "ms \<noteq> []" "by_specificity ms = w # rest"
  shows "find (covers ms) ms = (if covers ms w then Some w else None)"
proof -
  let ?top = "\<lambda>m. \<forall>m' \<in> set ms. - int (specificity m) \<le> - int (specificity m')"
  have first: "find ?top ms = Some w"
    using hd_sort_key [OF assms(1), of "\<lambda>m. - int (specificity m)"] assms(2) by (simp add: by_specificity_def)
  then have w: "w \<in> set ms" and top: "\<And>m. m \<in> set ms \<Longrightarrow> specificity m \<le> specificity w"
    using find_eq_first [OF first] by auto
  show ?thesis
  proof (cases "covers ms w")
    case True
    have "find (covers ms) ms = find ?top ms"
    proof (rule find_cong [OF refl])
      fix m assume m: "m \<in> set ms"
      show "covers ms m = ?top m"
      proof
        assume "covers ms m"
        with covers_same [OF m w] top [OF m] have "specificity m = specificity w" by (simp add: specificity_card)
        with top show "?top m" by simp
      next
        assume "?top m"
        with w have "specificity w \<le> specificity m" by simp
        with covers_same [OF w m True] have "match_constraints m = match_constraints w" .
        with True show "covers ms m" by (simp add: covers_def)
      qed
    qed
    with first True show ?thesis by simp
  next
    case False
    have "\<not> covers ms m" if m: "m \<in> set ms" for m
      using covers_same [OF m w _ top [OF m]] False by (auto simp: covers_def)
    with False show ?thesis by (simp add: find_None_iff)
  qed
qed

text \<open>The branch chosen by sorting and one pass is the first whose constraints include those of every other
  match; when there is none the select is an error.\<close>

theorem pick_winner_exact:
  assumes "ms \<noteq> []"
  shows "case find (\<lambda>m. \<forall>m' \<in> set ms. set (constraints (fst (snd m'))) \<subseteq> set (constraints (fst (snd m)))) ms of
           Some (c, sp, v) \<Rightarrow> pick_winner dflt ms = Inr v
         | None \<Rightarrow> \<exists>a b. pick_winner dflt ms = Inl (ambiguous_text a b)"
proof -
  have P: "(\<lambda>m. \<forall>m' \<in> set ms. set (constraints (fst (snd m'))) \<subseteq> set (constraints (fst (snd m)))) = covers ms"
    by (simp add: fun_eq_iff covers_def match_constraints_def)
  obtain w rest where sorted: "by_specificity ms = w # rest"
    using assms by (metis list.exhaust set_by_specificity set_empty)
  obtain c sp v where w: "w = (c, sp, v)" by (metis surj_pair)
  have all: "set ms = insert w (set rest)" using sorted set_by_specificity [of ms] by simp
  have flt: "(\<lambda>(c, sp', v :: 'a). \<not> set (constraints sp') \<subseteq> set (constraints sp))
      = (\<lambda>m :: string \<times> config_spec \<times> 'a. \<not> match_constraints m \<subseteq> set (constraints sp))"
    by (simp add: fun_eq_iff match_constraints_def)
  have cov: "covers ms w \<longleftrightarrow> find (\<lambda>(c, sp', v). \<not> set (constraints sp') \<subseteq> set (constraints sp)) rest = None"
    unfolding flt find_None_iff covers_def all
    by (simp add: match_constraints_def w del: split_paired_All split_paired_Ex) blast
  show ?thesis
    unfolding P find_covers [OF assms sorted] using sorted cov w
    by (cases "find (\<lambda>(c, sp', v). \<not> set (constraints sp') \<subseteq> set (constraints sp)) rest") auto
qed

theorem pick_winner_exact_witness:
  "pick_winner (Some (0::nat))
     [(''//a'', spec_default\<lparr>spec_define_values := [(''x'', ''1'')]\<rparr>, 1),
      (''//b'', spec_default\<lparr>spec_values := [(''cpu'', ''k8'')], spec_define_values := [(''x'', ''1'')]\<rparr>, 2)] = Inr 2"
  (is "pick_winner _ ?ms = _")
proof -
  have "?ms \<noteq> []" by simp
  from pick_winner_exact [OF this, of "Some 0"] show ?thesis
    by (simp add: constraints_def bs_of_def bs_extend_def spec_default_def del: pick_winner.simps)
qed

subsection \<open>The whole select\<close>

text \<open>The branches whose condition is true, in order, and the default written last.\<close>

fun true_branches :: "select_session \<Rightarrow> (string option \<times> 'v) list \<Rightarrow> 'v matches" where
  "true_branches s [] = []"
| "true_branches s ((k, v) # kvs) =
     (case k of
        Some c \<Rightarrow>
          if c \<noteq> default_key \<and> cond_value s (canon_label (ss_paths s) c) True
          then (c, branch_spec s (canon_label (ss_paths s) c), v) # true_branches s kvs
          else true_branches s kvs
      | None \<Rightarrow> true_branches s kvs)"

definition default_of :: "'v option \<Rightarrow> (string option \<times> 'v) list \<Rightarrow> 'v option" where
  "default_of dflt pairs =
     (case find (\<lambda>(k, v). k = Some default_key) (rev pairs) of Some (_, v) \<Rightarrow> Some v | None \<Rightarrow> dflt)"

definition branch_decided :: "select_session \<Rightarrow> string option \<Rightarrow> bool" where
  "branch_decided s k \<longleftrightarrow>
     (\<exists>c. k = Some c \<and> (c = default_key \<or> (\<exists>b. cond_value s (canon_label (ss_paths s) c) b)))"

lemma find_append: "find P (xs @ ys) = (case find P xs of Some x \<Rightarrow> Some x | None \<Rightarrow> find P ys)"
  by (induction xs) auto

lemma default_of_Cons:
  "default_of dflt ((k, v) # kvs) = default_of (if k = Some default_key then Some v else dflt) kvs"
  by (auto simp: default_of_def find_append split: option.splits)

lemma deref_alias_same: "ss_aliases t = ss_aliases s \<Longrightarrow> ss_specs t = ss_specs s \<Longrightarrow> branch_spec t c = branch_spec s c"
  by (simp add: branch_spec_def deref_spec_def)

lemma cond_value_same_iff: "same_config s t \<Longrightarrow> cond_value t c b \<longleftrightarrow> cond_value s c b"
  by (blast intro: cond_value_same same_config_sym)

lemma true_branches_same:
  assumes "same_config s t"
  shows "true_branches t pairs = true_branches s pairs"
proof (induction pairs)
  case (Cons kv kvs)
  have "cond_value t c b \<longleftrightarrow> cond_value s c b" for c b
    using assms by (rule cond_value_same_iff)
  moreover have "branch_spec t c = branch_spec s c" for c
    using same_config_sel [OF assms] by (intro deref_alias_same)
  ultimately show ?case
    using Cons.IH same_config_sel(2) [OF assms] by (cases kv; cases "fst kv") simp_all
qed simp

lemma branch_decided_same: "same_config s t \<Longrightarrow> branch_decided t k \<longleftrightarrow> branch_decided s k"
  by (simp add: branch_decided_def cond_value_same_iff same_config_sel(2))

lemma collect_matches_exact:
  "\<not> ss_workspace s \<Longrightarrow> collect_matches load dfr allow pairs dflt ms s = (Inr (Some (d, ms')), t) \<Longrightarrow>
    d = default_of dflt pairs \<and> ms' = ms @ true_branches s pairs \<and> (\<forall>k \<in> fst ` set pairs. branch_decided s k)"
proof (induction pairs arbitrary: dflt ms s)
  case Nil
  then show ?case by (simp add: default_of_def)
next
  case (Cons kv kvs)
  obtain k v where kv: "kv = (k, v)" by fastforce
  from Cons.prems(2) [unfolded kv] show ?case
  proof (cases rule: collect_matches_Cons)
    case dflt
    from Cons.IH [OF Cons.prems(1) dflt(2)] dflt(1) kv show ?thesis by (auto simp: default_of_Cons branch_decided_def)
  next
    case (hit c u)
    from condition_sound(1) [OF Cons.prems(1) hit(3)]
    have su: "same_config s u" and val: "cond_value s (canon_label (ss_paths s) c) True" by blast+
    have bs: "branch_spec u x = branch_spec s x" for x
      using same_config_sel [OF su] by (intro deref_alias_same)
    have uw: "\<not> ss_workspace u" using Cons.prems(1) su by (simp add: same_config_sel)
    from Cons.IH [OF uw hit(4)]
    have "d = default_of dflt kvs" "ms' = ms @ (c, branch_spec s (canon_label (ss_paths s) c), v) # true_branches s kvs"
      "\<forall>k \<in> fst ` set kvs. branch_decided s k"
      by (simp_all add: true_branches_same [OF su] branch_decided_same [OF su] bs)
    with hit(1,2) val kv show ?thesis by (auto simp: default_of_Cons branch_decided_def)
  next
    case (miss c u)
    from condition_sound(1) [OF Cons.prems(1) miss(3)]
    have su: "same_config s u" and val: "cond_value s (canon_label (ss_paths s) c) False" by blast+
    then have no: "\<not> cond_value s (canon_label (ss_paths s) c) True" using cond_value_det by blast
    have uw: "\<not> ss_workspace u" using Cons.prems(1) su by (simp add: same_config_sel)
    from Cons.IH [OF uw miss(4)]
    have "d = default_of dflt kvs" "ms' = ms @ true_branches s kvs" "\<forall>k \<in> fst ` set kvs. branch_decided s k"
      by (simp_all add: true_branches_same [OF su] branch_decided_same [OF su])
    with miss(1,2) val no kv show ?thesis by (auto simp: default_of_Cons branch_decided_def)
  qed
qed

text \<open>Outside a workspace a select that returns a branch decided every condition it read; it returns the branch of the first
  true condition whose flag values and defines include those of every other true one (\<open>constraint_values\<close> take
  no part in this), and the default when none is true.\<close>

theorem select_resolves:
  assumes "\<not> ss_workspace s" "pick_branch load pairs dfr allow s = (Inr (Some v), t)"
  shows "(\<forall>k \<in> fst ` set pairs. branch_decided s k) \<and>
    (if true_branches s pairs = [] then default_of None pairs = Some v
     else \<exists>c sp. find (covers (true_branches s pairs)) (true_branches s pairs) = Some (c, sp, v))"
proof -
  from assms(2) obtain d ms where
    c: "collect_matches load dfr allow pairs None [] s = (Inr (Some (d, ms)), t)" and p: "pick_winner d ms = Inr v"
    by (rule pick_branch_Some)
  from collect_matches_exact [OF assms(1) c]
  have d: "d = default_of None pairs" and ms: "ms = true_branches s pairs"
    and dec: "\<forall>k \<in> fst ` set pairs. branch_decided s k" by simp_all
  show ?thesis
  proof (cases "ms = []")
    case True
    with p d ms dec show ?thesis by (auto simp: by_specificity_def split: option.splits)
  next
    case False
    then obtain w rest where sorted: "by_specificity ms = w # rest"
      by (metis list.exhaust set_by_specificity set_empty)
    obtain c sp v' where w: "w = (c, sp, v')" by (metis surj_pair)
    from p sorted w have v': "v' = v"
      and none: "find (\<lambda>(c, sp', v). \<not> set (constraints sp') \<subseteq> set (constraints sp)) rest = None"
      by (auto split: option.splits)
    have "set ms = insert w (set rest)" using sorted set_by_specificity [of ms] by simp
    with none w have "covers ms w" by (fastforce simp: covers_def match_constraints_def find_None_iff)
    with find_covers [OF False sorted] w v' dec ms show ?thesis by auto
  qed
qed

subsection \<open>A configuration\<close>

definition demo_specs :: "string \<Rightarrow> config_spec option" where
  "demo_specs = [
     ''//c:opt'' \<mapsto> spec_default\<lparr>spec_values := [(''compilation_mode'', ''opt'')]\<rparr>,
     ''//c:linux'' \<mapsto> spec_default\<lparr>spec_constraint_values := [''@platforms//os:linux'']\<rparr>,
     ''//c:linux_x64'' \<mapsto>
       spec_default\<lparr>spec_constraint_values := [''@platforms//os:linux'', ''@platforms//cpu:x86_64'']\<rparr>]"

definition demo_select :: select_session where
  "demo_select =
     \<lparr>ss_flags = \<lparr>cfg_compilation_mode = ''opt'', cfg_defines = []\<rparr>,
      ss_paths = \<lparr>current_pkg = None, bazel_build_compat = False, bin_tree_layout = False,
                  compilation_mode = ''opt'', session_lock = None\<rparr>,
      ss_os = ''linux'', ss_arch = ''x86_64'', ss_workspace = False, ss_specs = demo_specs,
      ss_aliases = (\<lambda>_. None), ss_warned = []\<rparr>"

definition demo_load :: package_loader where
  "demo_load pkg s = (Inr (), s)"

definition demo_pairs :: "(string option \<times> nat) list" where
  "demo_pairs = [(Some ''//c:linux'', 1), (Some ''//c:opt'', 2), (Some default_key, 0)]"

lemma demo_pick: "fst (pick_branch demo_load demo_pairs False True demo_select) = Inr (Some 2)"
  by code_simp

theorem select_resolves_witness:
  "\<exists>c sp. find (covers (true_branches demo_select demo_pairs)) (true_branches demo_select demo_pairs) = Some (c, sp, 2)"
proof -
  obtain t where "pick_branch demo_load demo_pairs False True demo_select = (Inr (Some 2), t)"
    using demo_pick by (metis prod.collapse)
  have "\<not> ss_workspace demo_select" by (simp add: demo_select_def)
  from select_resolves [OF this \<open>pick_branch demo_load demo_pairs False True demo_select = (Inr (Some 2), t)\<close>]
  have r: "if true_branches demo_select demo_pairs = [] then default_of None demo_pairs = Some 2
    else \<exists>c sp. find (covers (true_branches demo_select demo_pairs)) (true_branches demo_select demo_pairs) = Some (c, sp, 2)"
    by blast
  have "default_of None demo_pairs = Some 0" by (simp add: default_of_def demo_pairs_def)
  with r show ?thesis by (auto split: if_splits)
qed

text \<open>
  \<open>constraint_values\<close> are matched and not compared: of two settings that differ in them only, the one
  written first is taken, the more specialized one or not.
\<close>

lemma constraint_values_not_compared:
  "fst (pick_branch demo_load [(Some ''//c:linux'', 1), (Some ''//c:linux_x64'', 2)] False True demo_select)
     = Inr (Some (1::nat))"
  "fst (pick_branch demo_load [(Some ''//c:linux_x64'', 2), (Some ''//c:linux'', 1)] False True demo_select)
     = Inr (Some (2::nat))"
  by code_simp+

subsection \<open>Attributes\<close>

lemma resolve_plain:
  "resolve_attr_value load display (Plain x) s = (Inr (Plain x), s)"
  "resolve_attr_value load display (AList l) s = (Inr (AList l), s)"
  "resolve_attr_value load display (ATuple l) s = (Inr (ATuple l), s)"
  by (subst resolve_attr_value.simps; simp)+

lemma resolve_parts_append:
  "resolve_parts load display (ps @ qs) out s =
     (case resolve_parts load display ps out s of
        (Inr (AList l), t) \<Rightarrow> resolve_parts load display qs l t
      | (r, t) \<Rightarrow> (r, t))"
proof (induction ps arbitrary: out s)
  case (Cons p ps)
  obtain q u where u: "resolve_attr_value load display p s = (q, u)" by (meson surj_pair)
  show ?case
  proof (cases q)
    case (Inr v)
    with u Cons.IH show ?thesis by (cases v) simp_all
  qed (use u in simp)
qed simp

lemma resolve_parts_list: "resolve_parts load display ps out s = (Inr v, t) \<Longrightarrow> \<exists>l. v = AList l"
proof (induction ps arbitrary: out s)
  case (Cons p ps)
  obtain q u where u: "resolve_attr_value load display p s = (q, u)" by (meson surj_pair)
  with Cons.prems obtain w where "q = Inr w" by (cases q) auto
  with u Cons show ?case by (cases w) auto
qed auto

text \<open>C40: A resolved attribute is no longer a select: neither a deferred one nor a concatenation is left.\<close>

theorem resolve_not_deferred:
  assumes "resolve_attr_value load display v s = (Inr w, t)"
  shows "\<forall>bs parts. w \<noteq> ASelect bs \<and> w \<noteq> AExpr parts"
  using assms
proof (induction v arbitrary: s rule: measure_induct_rule [where f = size])
  case (less v)
  show ?case
  proof (cases v)
    case (ASelect pairs)
    obtain q u where u: "pick_branch load pairs False True s = (q, u)" by (meson surj_pair)
    have "\<exists>p. q = Inr (Some p)"
      using less.prems u unfolding ASelect resolve_attr_value.simps [of load display "ASelect pairs"]
      by (cases q; cases "projr q") simp_all
    then obtain p where q: "q = Inr (Some p)" ..
    have "pick_branch load pairs False True s = (Inr (Some p), u)" using u q by simp
    then have "size p < size v" unfolding ASelect by (intro size_picked pick_branch_in)
    moreover have "resolve_attr_value load display p u = (Inr w, t)"
      using less.prems ASelect u q by (simp add: resolve_attr_value.simps [of load display "ASelect pairs"])
    ultimately show ?thesis by (rule less.IH)
  next
    case (AExpr parts)
    with less.prems have "resolve_parts load display parts [] s = (Inr w, t)"
      by (simp add: resolve_attr_value.simps [of load display "AExpr parts"])
    then show ?thesis using resolve_parts_list by fastforce
  qed (use less.prems in \<open>auto simp: resolve_plain\<close>)
qed

theorem resolve_not_deferred_witness:
  "\<exists>t. resolve_attr_value demo_load (\<lambda>_. [])
     (AExpr [AList [Plain 1], ASelect [(Some ''//c:opt'', AList [Plain 2]), (Some default_key, AList [])]]) demo_select
       = (Inr (AList [Plain 1, Plain (2::nat)]), t) \<and> (\<forall>bs parts. AList [Plain 1, Plain (2::nat)] \<noteq> ASelect bs \<and>
         AList [Plain 1, Plain (2::nat)] \<noteq> AExpr parts)"
proof -
  let ?v = "AExpr [AList [Plain 1], ASelect [(Some ''//c:opt'', AList [Plain 2]), (Some default_key, AList [])]]"
  have "fst (resolve_attr_value demo_load (\<lambda>_. []) ?v demo_select) = Inr (AList [Plain 1, Plain (2::nat)])"
    by code_simp
  then obtain t where t: "resolve_attr_value demo_load (\<lambda>_. []) ?v demo_select = (Inr (AList [Plain 1, Plain (2::nat)]), t)"
    by (metis prod.collapse)
  with resolve_not_deferred [OF t] show ?thesis by blast
qed

end
