(* ===== verification/Glob.thy ===== *)
theory Glob
  imports Select
begin

section \<open>razel-loading: glob\<close>

text \<open>
  \<^verbatim>\<open>crates/razel-loading/src/glob.rs\<close>, the cached walk of \<^verbatim>\<open>state/tools.rs\<close>, and the discovery of packages and the
  target patterns of \<^verbatim>\<open>patterns.rs\<close>.  A text is the list of its UTF-8 bytes; slicing one inside a
  character panics, so the matcher answers an option and \<open>None\<close> is the panic.  What the disk holds is a
  finite tree in which a symbolic link carries what it leads to.
\<close>

subsection \<open>The disk\<close>

datatype wtree = WFile | WDir "(string \<times> wtree) list" | WLink "wtree option"

fun wt_is_file :: "wtree \<Rightarrow> bool" where
  "wt_is_file WFile = True"
| "wt_is_file (WDir es) = False"
| "wt_is_file (WLink None) = False"
| "wt_is_file (WLink (Some t)) = wt_is_file t"

fun wt_entries :: "wtree \<Rightarrow> (string \<times> wtree) list option" where
  "wt_entries WFile = None"
| "wt_entries (WDir es) = Some es"
| "wt_entries (WLink None) = None"
| "wt_entries (WLink (Some t)) = wt_entries t"

definition wt_has_file :: "(string \<times> wtree) list \<Rightarrow> string \<Rightarrow> bool" where
  "wt_has_file es name = (case map_of es name of Some t \<Rightarrow> wt_is_file t | None \<Rightarrow> False)"

subsection \<open>Matching\<close>

definition is_char_boundary :: "string \<Rightarrow> nat \<Rightarrow> bool" where
  "is_char_boundary s i \<longleftrightarrow>
     i = 0 \<or> i = length s \<or> i < length s \<and> \<not> (128 \<le> (of_char (s ! i) :: nat) \<and> of_char (s ! i) < (192 :: nat))"

text \<open>\<open>any\<close> with a test that may panic: it stops at the first success.\<close>

fun any_opt :: "('a \<Rightarrow> bool option) \<Rightarrow> 'a list \<Rightarrow> bool option" where
  "any_opt f [] = Some False"
| "any_opt f (x # xs) = (case f x of None \<Rightarrow> None | Some b \<Rightarrow> if b then Some True else any_opt f xs)"

lemma any_opt_cong [fundef_cong]:
  "xs = ys \<Longrightarrow> (\<And>x. x \<in> set ys \<Longrightarrow> f x = g x) \<Longrightarrow> any_opt f xs = any_opt g ys"
proof (induction xs arbitrary: ys)
  case (Cons x xs)
  then show ?case by (cases ys) (auto split: option.splits)
qed simp

function star_match :: "string \<Rightarrow> string \<Rightarrow> bool option" where
  "star_match pat s =
     (case split_once pat (CHR ''*'') of
        None \<Rightarrow> Some (pat = s)
      | Some (pre, rest) \<Rightarrow>
          (case strip_prefix s pre of
             None \<Rightarrow> Some False
           | Some t \<Rightarrow>
               any_opt (\<lambda>i. if is_char_boundary t i then star_match rest (drop i t) else None) [0..<Suc (length t)]))"
  by pat_completeness auto
termination
  by (relation "measure (\<lambda>(pat, s). length pat)") (auto simp: split_once_Some)

declare star_match.simps [simp del]

fun seg_match :: "string list \<Rightarrow> string list \<Rightarrow> bool option" where
  "seg_match [] path = Some (path = [])"
| "seg_match (seg # pat) path =
     (if seg = ''**'' then any_opt (\<lambda>i. seg_match pat (drop i path)) [0..<Suc (length path)]
      else
        (case path of
           [] \<Rightarrow> Some False
         | x # xs \<Rightarrow>
             (case star_match seg x of
                None \<Rightarrow> None
              | Some b \<Rightarrow> if b then seg_match pat xs else Some False)))"

declare seg_match.simps(2) [simp del]

definition glob_match :: "string \<Rightarrow> string \<Rightarrow> bool option" where
  "glob_match pattern path = seg_match (split_char pattern (CHR ''/'')) (split_char path (CHR ''/''))"

subsection \<open>Walking\<close>

definition render_path :: "string list \<Rightarrow> string" where
  "render_path cs = map (\<lambda>c. if c = CHR 0x5C then CHR ''/'' else c) (join_with ''/'' cs)"

definition is_package :: "(string \<times> wtree) list \<Rightarrow> bool" where
  "is_package es \<longleftrightarrow> wt_has_file es ''BUILD'' \<or> wt_has_file es ''BUILD.bazel''"

text \<open>\<open>walk_files\<close>: \<open>base\<close> says that the directory is the one the walk started in, \<open>rel\<close> is its path there.\<close>

fun walk_files :: "bool \<Rightarrow> bool \<Rightarrow> string list \<Rightarrow> wtree \<Rightarrow> string list list"
  and walk_entries :: "bool \<Rightarrow> string list \<Rightarrow> (string \<times> wtree) list \<Rightarrow> string list list" where
  "walk_files hidden base rel WFile = []"
| "walk_files hidden base rel (WLink None) = []"
| "walk_files hidden base rel (WLink (Some t)) = walk_files hidden base rel t"
| "walk_files hidden base rel (WDir es) =
     (if \<not> base \<and> is_package es then [] else walk_entries hidden rel es)"
| "walk_entries hidden rel [] = []"
| "walk_entries hidden rel ((name, t) # es) =
     (if \<not> hidden \<and> starts_with name ''.'' then walk_entries hidden rel es
      else (if wt_entries t \<noteq> None then walk_files hidden False (rel @ [name]) t else [rel @ [name]])
           @ walk_entries hidden rel es)"

subsection \<open>glob()\<close>

datatype glob_error = GlobErr string | GlobPanic

record glob_session =
  gs_pkg :: "string option"
  gs_workspace :: "string option"
  gs_external_base :: "string option"
  gs_fetched_base :: "string option"
  gs_walks :: "string \<Rightarrow> string list option"
  gs_globs :: "string \<times> string \<times> string \<Rightarrow> string list option"

type_synonym pkg_disk = "string \<Rightarrow> wtree option"

definition walk_cached :: "pkg_disk \<Rightarrow> glob_session \<Rightarrow> string \<Rightarrow> bool \<Rightarrow> string list \<times> glob_session" where
  "walk_cached disk s dir hidden =
     (case gs_walks s dir of
        Some hit \<Rightarrow> (hit, s)
      | None \<Rightarrow>
          (let files = (case disk dir of None \<Rightarrow> [] | Some t \<Rightarrow> map render_path (walk_files hidden True [] t))
           in (files, s\<lparr>gs_walks := (gs_walks s)(dir \<mapsto> files)\<rparr>)))"

definition glob_hidden :: "glob_session \<Rightarrow> bool" where
  "glob_hidden s = (case gs_pkg s of Some p \<Rightarrow> starts_with p ''@'' | None \<Rightarrow> False)"

definition glob_dir :: "pkg_disk \<Rightarrow> glob_session \<Rightarrow> string option" where
  "glob_dir disk s =
     Option.bind (gs_pkg s) (\<lambda>pkg.
       if starts_with pkg ''@'' then
         Option.bind (split_once_str (trim_start (CHR ''@'') pkg) ''//'') (\<lambda>(repo, sub).
           map_option (\<lambda>r. path_join r sub)
             (external_repo_dir (\<lambda>d. disk d \<noteq> None) (gs_external_base s) (gs_fetched_base s) repo))
       else map_option (\<lambda>root. path_join root pkg) (gs_workspace s))"

definition glob_selects :: "string list \<Rightarrow> string list \<Rightarrow> string \<Rightarrow> bool option" where
  "glob_selects includes excludes f =
     (case any_opt (\<lambda>p. glob_match p f) includes of
        None \<Rightarrow> None
      | Some b \<Rightarrow> if \<not> b then Some False else map_option Not (any_opt (\<lambda>p. glob_match p f) excludes))"

fun glob_filter :: "string list \<Rightarrow> string list \<Rightarrow> string list \<Rightarrow> string list option" where
  "glob_filter includes excludes [] = Some []"
| "glob_filter includes excludes (f # fs) =
     (case glob_selects includes excludes f of
        None \<Rightarrow> None
      | Some b \<Rightarrow> map_option (\<lambda>out. if b then f # out else out) (glob_filter includes excludes fs))"

definition glob_key :: "string \<Rightarrow> string list \<Rightarrow> string list \<Rightarrow> string \<times> string \<times> string" where
  "glob_key dir includes excludes = (dir, join_with '','' includes, join_with '','' excludes)"

definition no_package_text :: string where
  "no_package_text = ''glob() needs a package on disk '' @ [CHR 0xE2, CHR 0x80, CHR 0x94] @ '' use the workspace build path''"

definition do_glob ::
    "pkg_disk \<Rightarrow> string list \<Rightarrow> string list \<Rightarrow> glob_session \<Rightarrow> (glob_error + string list) \<times> glob_session" where
  "do_glob disk includes excludes s =
     (case glob_dir disk s of
        None \<Rightarrow> (Inl (GlobErr no_package_text), s)
      | Some dir \<Rightarrow>
          (case gs_globs s (glob_key dir includes excludes) of
             Some hit \<Rightarrow> (Inr hit, s)
           | None \<Rightarrow>
               (let (files, t) = walk_cached disk s dir (glob_hidden s)
                in (case glob_filter includes excludes files of
                      None \<Rightarrow> (Inl GlobPanic, t)
                    | Some out \<Rightarrow>
                        (Inr (sort out), t\<lparr>gs_globs := (gs_globs t)(glob_key dir includes excludes \<mapsto> sort out)\<rparr>)))))"

section \<open>Properties of glob\<close>

text \<open>
  The matcher decides the textbook reading of a pattern on ASCII paths and panics on others; the walk
  stays within the package; the cache of results is transparent for patterns without a comma.
\<close>

subsection \<open>The meaning of a pattern\<close>

fun wild :: "string \<Rightarrow> string \<Rightarrow> bool" where
  "wild [] s \<longleftrightarrow> s = []"
| "wild (c # p) s \<longleftrightarrow>
     (if c = CHR ''*'' then \<exists>i \<le> length s. wild p (drop i s)
      else (case s of [] \<Rightarrow> False | x # xs \<Rightarrow> x = c \<and> wild p xs))"

text \<open>A segment \<open>**\<close> stands for any number of segments, any other for one.\<close>

definition seg_piece :: "string \<Rightarrow> string list \<Rightarrow> bool" where
  "seg_piece seg part \<longleftrightarrow> seg = ''**'' \<or> (\<exists>x. part = [x] \<and> wild seg x)"

definition segs_match :: "string list \<Rightarrow> string list \<Rightarrow> bool" where
  "segs_match pat path \<longleftrightarrow> (\<exists>parts. list_all2 seg_piece pat parts \<and> concat parts = path)"

definition ascii :: "string \<Rightarrow> bool" where
  "ascii s \<longleftrightarrow> (\<forall>c \<in> set s. of_char c < (128 :: nat))"

lemma ascii_drop: "ascii s \<Longrightarrow> ascii (drop i s)"
  by (auto simp: ascii_def dest: in_set_dropD)

lemma ascii_append [simp]: "ascii (a @ b) \<longleftrightarrow> ascii a \<and> ascii b"
  by (auto simp: ascii_def)

lemma ascii_boundary: "ascii s \<Longrightarrow> is_char_boundary s i \<longleftrightarrow> i \<le> length s"
  by (auto simp: is_char_boundary_def ascii_def)
    (metis le_neq_implies_less not_le nth_mem)

lemma any_opt_all:
  "(\<And>x. x \<in> set xs \<Longrightarrow> f x = Some (P x)) \<Longrightarrow> any_opt f xs = Some (\<exists>x \<in> set xs. P x)"
  by (induction xs) auto

lemma bex_upt_Suc: "(\<exists>i \<in> set [0..<Suc n]. P i) \<longleftrightarrow> (\<exists>i \<le> n. P i)"
  by (auto simp: less_Suc_eq_le simp del: upt_Suc)

lemma wild_no_star: "CHR ''*'' \<notin> set pat \<Longrightarrow> wild pat s \<longleftrightarrow> pat = s"
  by (induction pat arbitrary: s) (auto split: list.splits)

lemma wild_prefix: "CHR ''*'' \<notin> set pre \<Longrightarrow> wild (pre @ q) s \<longleftrightarrow> (\<exists>t. s = pre @ t \<and> wild q t)"
  by (induction pre arbitrary: s) (auto split: list.splits)

lemma star_match_exact: "ascii s \<Longrightarrow> star_match pat s = Some (wild pat s)"
proof (induction pat s rule: star_match.induct)
  case (1 pat s)
  show ?case
  proof (cases "split_once pat (CHR ''*'')")
    case None
    then have "CHR ''*'' \<notin> set pat" by (simp add: split_once_None)
    with None show ?thesis by (simp add: star_match.simps [of pat] wild_no_star)
  next
    case (Some pr)
    obtain pre rest where pr: "pr = (pre, rest)" by fastforce
    with Some have pat: "pat = pre @ CHR ''*'' # rest" and pre: "CHR ''*'' \<notin> set pre"
      by (simp_all add: split_once_Some)
    show ?thesis
    proof (cases "strip_prefix s pre")
      case None
      then have "\<not> wild pat s" unfolding pat wild_prefix [OF pre] by (auto simp: strip_prefix_None)
      with Some pr None show ?thesis by (simp add: star_match.simps [of pat])
    next
      case t: (Some t)
      then have s: "s = pre @ t" by (simp add: strip_prefix_Some)
      with "1.prems" have at: "ascii t" by simp
      have "any_opt (\<lambda>i. if is_char_boundary t i then star_match rest (drop i t) else None) [0..<Suc (length t)]
          = Some (\<exists>i \<in> set [0..<Suc (length t)]. wild rest (drop i t))"
      proof (rule any_opt_all)
        fix i assume i: "i \<in> set [0..<Suc (length t)]"
        then have "i \<le> length t" by auto
        then have b: "is_char_boundary t i" using ascii_boundary [OF at] by simp
        with "1.IH" [OF Some pr [symmetric] t i] ascii_drop [OF at] 
        show "(if is_char_boundary t i then star_match rest (drop i t) else None) = Some (wild rest (drop i t))"
          by simp
      qed
      also have "(\<exists>i \<in> set [0..<Suc (length t)]. wild rest (drop i t)) = wild pat s"
        unfolding pat wild_prefix [OF pre] s bex_upt_Suc by simp
      finally show ?thesis using Some pr t by (simp add: star_match.simps [of pat] del: upt_Suc)
    qed
  qed
qed

lemma segs_match_Nil: "segs_match [] path \<longleftrightarrow> path = []"
  by (auto simp: segs_match_def)

lemma segs_match_Cons:
  "segs_match (seg # pat) path \<longleftrightarrow> (\<exists>part rest. path = part @ rest \<and> seg_piece seg part \<and> segs_match pat rest)"
proof
  assume "segs_match (seg # pat) path"
  then obtain part parts where "seg_piece seg part" "list_all2 seg_piece pat parts" "part @ concat parts = path"
    by (auto simp: segs_match_def list_all2_Cons1)
  then show "\<exists>part rest. path = part @ rest \<and> seg_piece seg part \<and> segs_match pat rest"
    unfolding segs_match_def by blast
next
  assume "\<exists>part rest. path = part @ rest \<and> seg_piece seg part \<and> segs_match pat rest"
  then obtain part parts where "path = part @ concat parts" "seg_piece seg part" "list_all2 seg_piece pat parts"
    unfolding segs_match_def by blast
  then show "segs_match (seg # pat) path"
    unfolding segs_match_def by (intro exI [of _ "part # parts"]) simp
qed

lemma seg_match_exact: "(\<And>c. c \<in> set path \<Longrightarrow> ascii c) \<Longrightarrow> seg_match pat path = Some (segs_match pat path)"
proof (induction pat arbitrary: path)
  case (Cons seg pat)
  show ?case
  proof (cases "seg = ''**''")
    case True
    have "any_opt (\<lambda>i. seg_match pat (drop i path)) [0..<Suc (length path)]
        = Some (\<exists>i \<in> set [0..<Suc (length path)]. segs_match pat (drop i path))"
      by (rule any_opt_all) (use Cons in \<open>auto dest: in_set_dropD\<close>)
    also have "(\<exists>i \<in> set [0..<Suc (length path)]. segs_match pat (drop i path)) \<longleftrightarrow> segs_match (seg # pat) path"
    proof
      assume "\<exists>i \<in> set [0..<Suc (length path)]. segs_match pat (drop i path)"
      then obtain i where i: "segs_match pat (drop i path)" by blast
      have "path = take i path @ drop i path" by simp
      with i True show "segs_match (seg # pat) path" unfolding segs_match_Cons seg_piece_def by blast
    next
      assume "segs_match (seg # pat) path"
      then obtain part rest where path: "path = part @ rest" and "segs_match pat rest"
        unfolding segs_match_Cons by blast
      then have "segs_match pat (drop (length part) path)" "length part \<in> set [0..<Suc (length path)]" by simp_all
      then show "\<exists>i \<in> set [0..<Suc (length path)]. segs_match pat (drop i path)" by blast
    qed
    finally show ?thesis using True by (simp add: seg_match.simps(2) del: upt_Suc)
  next
    case False
    show ?thesis
    proof (cases path)
      case Nil
      with False show ?thesis by (simp add: seg_match.simps(2) segs_match_Cons seg_piece_def)
    next
      case (Cons x xs)
      with Cons.prems star_match_exact have "star_match seg x = Some (wild seg x)" by simp
      moreover have "seg_match pat xs = Some (segs_match pat xs)" using Cons.IH Cons.prems Cons by simp
      moreover have "segs_match (seg # pat) path \<longleftrightarrow> wild seg x \<and> segs_match pat xs"
      proof
        assume "segs_match (seg # pat) path"
        with False Cons show "wild seg x \<and> segs_match pat xs" by (auto simp: segs_match_Cons seg_piece_def)
      next
        assume "wild seg x \<and> segs_match pat xs"
        then have "path = [x] @ xs" "seg_piece seg [x]" "segs_match pat xs" using Cons by (simp_all add: seg_piece_def)
        then show "segs_match (seg # pat) path" unfolding segs_match_Cons by blast
      qed
      ultimately show ?thesis using False Cons by (simp add: seg_match.simps(2))
    qed
  qed
qed (simp add: segs_match_Nil)

lemma ascii_split: "ascii p \<Longrightarrow> c \<in> set (split_char p (CHR ''/'')) \<Longrightarrow> ascii c"
proof (induction p arbitrary: c)
  case Nil
  then show ?case by (simp add: ascii_def)
next
  case (Cons x xs)
  then have x: "of_char x < (128 :: nat)" and xs: "ascii xs" by (auto simp: ascii_def)
  obtain q qs where q: "split_char xs (CHR ''/'') = q # qs" by (meson neq_Nil_conv split_char_nonempty)
  have "\<forall>d \<in> set (q # qs). ascii d" using Cons.IH [OF xs] q by metis
  moreover have "c = [] \<or> c = x # q \<or> c \<in> set (q # qs)" using Cons.prems(2) q by (auto split: if_splits)
  ultimately show ?case using x by (auto simp: ascii_def)
qed

text \<open>C15: On an ASCII path the backtracking matcher decides exactly whether the path can be cut into one part per
  segment of the pattern, any number of components for \<open>**\<close> and one that fits it for every other.\<close>

theorem glob_match_exact:
  assumes "ascii path"
  shows "glob_match pattern path =
    Some (\<exists>parts. list_all2 (\<lambda>seg part. seg = ''**'' \<or> (\<exists>x. part = [x] \<and> wild seg x))
                    (split_char pattern (CHR ''/'')) parts \<and> concat parts = split_char path (CHR ''/''))"
  unfolding glob_match_def using seg_match_exact [OF ascii_split [OF assms]]
  by (simp add: segs_match_def seg_piece_def [abs_def])

theorem glob_match_exact_witness:
  "ascii ''a/b/c.rs'' \<and> glob_match ''a/**/*.rs'' ''a/b/c.rs'' = Some True \<and>
   (\<exists>parts. list_all2 (\<lambda>seg part. seg = ''**'' \<or> (\<exists>x. part = [x] \<and> wild seg x))
      (split_char ''a/**/*.rs'' (CHR ''/'')) parts \<and> concat parts = split_char ''a/b/c.rs'' (CHR ''/''))"
proof -
  have a: "ascii ''a/b/c.rs''" by (simp add: ascii_def)
  have "glob_match ''a/**/*.rs'' ''a/b/c.rs'' = Some True" by code_simp
  with a glob_match_exact [OF a, of "''a/**/*.rs''"] show ?thesis by simp
qed

text \<open>A name with a character of two bytes: \<open>*.rs\<close> cuts it in the middle and panics.\<close>

lemma glob_match_panics: "glob_match ''*.rs'' ([CHR 0xC3, CHR 0xA9] @ ''.rs'') = None"
  by code_simp

subsection \<open>The walk\<close>

text \<open>A path that a glob sees: it ends in a leaf, no package and no unwanted hidden name is on the way.\<close>

definition enterable :: "bool \<Rightarrow> string \<Rightarrow> wtree \<Rightarrow> bool" where
  "enterable hidden c u \<longleftrightarrow>
     (hidden \<or> \<not> starts_with c ''.'') \<and> (\<forall>es. wt_entries u = Some es \<longrightarrow> \<not> is_package es)"

fun glob_sees :: "bool \<Rightarrow> wtree \<Rightarrow> string list \<Rightarrow> bool" where
  "glob_sees hidden t [] \<longleftrightarrow> wt_entries t = None"
| "glob_sees hidden t (c # cs) \<longleftrightarrow>
     (\<exists>es u. wt_entries t = Some es \<and> (c, u) \<in> set es \<and> enterable hidden c u \<and> glob_sees hidden u cs)"

definition sees_below :: "bool \<Rightarrow> (string \<times> wtree) list \<Rightarrow> string list \<Rightarrow> bool" where
  "sees_below hidden es p \<longleftrightarrow>
     (\<exists>c cs u. p = c # cs \<and> (c, u) \<in> set es \<and> enterable hidden c u \<and> glob_sees hidden u cs)"

lemma sees_below_Nil [simp]: "\<not> sees_below hidden [] p"
  by (simp add: sees_below_def)

lemma sees_below_Cons:
  "sees_below hidden ((c, u) # es) p \<longleftrightarrow>
     sees_below hidden es p \<or> (\<exists>cs. p = c # cs \<and> enterable hidden c u \<and> glob_sees hidden u cs)"
  unfolding sees_below_def by auto

lemma glob_sees_below:
  "wt_entries t = Some es \<Longrightarrow> glob_sees hidden t p \<longleftrightarrow> sees_below hidden es p"
  by (cases p) (auto simp: sees_below_def)

lemma walk_exact:
  "f \<in> set (walk_files hidden base rel t) \<longleftrightarrow>
     (\<exists>es p. wt_entries t = Some es \<and> (base \<or> \<not> is_package es) \<and> f = rel @ p \<and> sees_below hidden es p)"
  "f \<in> set (walk_entries hidden rel es) \<longleftrightarrow> (\<exists>p. f = rel @ p \<and> sees_below hidden es p)"
proof (induction hidden base rel t and hidden rel es arbitrary: f and f rule: walk_files_walk_entries.induct)
  case (6 hidden rel name t es)
  show ?case
  proof (cases "\<not> hidden \<and> starts_with name ''.''")
    case True
    then have "\<not> enterable hidden name t" by (simp add: enterable_def)
    with True "6.IH"(1) show ?thesis by (simp add: sees_below_Cons)
  next
    case vis: False
    have rest: "f \<in> set (walk_entries hidden rel es) \<longleftrightarrow> (\<exists>p. f = rel @ p \<and> sees_below hidden es p)"
      using "6.IH"(3) [OF vis] .
    show ?thesis
    proof (cases "wt_entries t")
      case None
      then have "enterable hidden name t" "glob_sees hidden t cs \<longleftrightarrow> cs = []" for cs
        using vis by (auto simp: enterable_def) (cases cs; simp)+
      with None vis rest show ?thesis by (auto simp: sees_below_Cons)
    next
      case (Some es')
      have "f \<in> set (walk_files hidden False (rel @ [name]) t) \<longleftrightarrow>
          (\<exists>cs. f = rel @ name # cs \<and> enterable hidden name t \<and> glob_sees hidden t cs)"
        using "6.IH"(2) [OF vis] Some vis by (auto simp: enterable_def glob_sees_below)
      with Some vis rest show ?thesis by (auto simp: sees_below_Cons)
    qed
  qed
qed auto

text \<open>The walk lists exactly the leaves that can be reached from the package's directory without entering another
  package, and hidden names only when asked for.\<close>

theorem glob_walk_exact:
  "f \<in> set (walk_files hidden True [] t) \<longleftrightarrow>
     (\<exists>es. wt_entries t = Some es \<and> f \<noteq> [] \<and> glob_sees hidden t f)"
  unfolding walk_exact(1) by (auto simp: glob_sees_below sees_below_def)

lemma glob_walk_demo:
  "walk_files False True [] (WDir [(''.git'', WDir [(''x'', WFile)]), (''a'', WDir [(''BUILD'', WFile), (''b'', WFile)]),
     (''c'', WLink (Some (WDir [(''d'', WFile)])))]) = [[''c'', ''d'']]"
  by code_simp

subsection \<open>The result and its cache\<close>

definition walk_list :: "pkg_disk \<Rightarrow> string \<Rightarrow> bool \<Rightarrow> string list" where
  "walk_list disk dir hidden =
     (case disk dir of None \<Rightarrow> [] | Some t \<Rightarrow> map render_path (walk_files hidden True [] t))"

definition glob_ref :: "pkg_disk \<Rightarrow> bool \<Rightarrow> string \<Rightarrow> string list \<Rightarrow> string list \<Rightarrow> string list option" where
  "glob_ref disk hidden dir includes excludes = map_option sort (glob_filter includes excludes (walk_list disk dir hidden))"

definition clean_patterns :: "string list \<Rightarrow> bool" where
  "clean_patterns ps \<longleftrightarrow> (\<forall>p \<in> set ps. p \<noteq> [] \<and> CHR '','' \<notin> set p)"

text \<open>
  The caches hold what a fresh glob would answer; \<open>vis\<close> says for each directory whether its globs see
  hidden files, since the walk is cached under the directory alone.
\<close>

definition caches_ok :: "(string \<Rightarrow> bool) \<Rightarrow> pkg_disk \<Rightarrow> glob_session \<Rightarrow> bool" where
  "caches_ok vis disk s \<longleftrightarrow>
     (\<forall>dir fs. gs_walks s dir = Some fs \<longrightarrow> fs = walk_list disk dir (vis dir)) \<and>
     (\<forall>key out. gs_globs s key = Some out \<longrightarrow>
        (\<exists>dir inc exc. key = glob_key dir inc exc \<and> clean_patterns inc \<and> clean_patterns exc \<and>
           glob_ref disk (vis dir) dir inc exc = Some out))"

lemma join_clean_inj:
  assumes "clean_patterns ps" "clean_patterns qs" "join_with '','' ps = join_with '','' qs"
  shows "ps = qs"
proof -
  have empty: "join_with '','' xs \<noteq> []" if "clean_patterns xs" "xs \<noteq> []" for xs
    using that by (cases xs rule: remdups_adj.cases) (auto simp: clean_patterns_def)
  show ?thesis
  proof (cases "ps = [] \<or> qs = []")
    case True
    then show ?thesis using empty assms by (metis join_with.simps(1))
  next
    case False
    then have "split_char (join_with '','' ps) (CHR '','') = ps" "split_char (join_with '','' qs) (CHR '','') = qs"
      using assms(1, 2) by (auto simp: clean_patterns_def intro!: split_join_char)
    with assms(3) show ?thesis by metis
  qed
qed

lemma glob_key_inj:
  "clean_patterns i \<Longrightarrow> clean_patterns e \<Longrightarrow> clean_patterns i' \<Longrightarrow> clean_patterns e' \<Longrightarrow>
     glob_key d i e = glob_key d' i' e' \<Longrightarrow> d = d' \<and> i = i' \<and> e = e'"
  by (auto simp: glob_key_def dest: join_clean_inj)

lemma walk_cached_ok:
  assumes "caches_ok vis disk s" "gs_walks s dir \<noteq> None \<or> hidden = vis dir" "walk_cached disk s dir hidden = (fs, t)"
  shows "fs = walk_list disk dir (vis dir) \<and> caches_ok vis disk t"
proof (cases "gs_walks s dir")
  case None
  with assms(2,3) have "fs = walk_list disk dir (vis dir)" "t = s\<lparr>gs_walks := (gs_walks s)(dir \<mapsto> fs)\<rparr>"
    by (auto simp: walk_cached_def walk_list_def Let_def)
  with assms(1) show ?thesis unfolding caches_ok_def by simp
next
  case (Some hit)
  with assms show ?thesis by (auto simp: walk_cached_def caches_ok_def)
qed

lemma do_glob_cached:
  assumes "caches_ok vis disk s" "clean_patterns includes" "clean_patterns excludes"
    and "glob_dir disk s = Some dir" "gs_walks s dir \<noteq> None \<or> glob_hidden s = vis dir"
    and "do_glob disk includes excludes s = (r, t)"
  shows "caches_ok vis disk t \<and>
    r = (case glob_ref disk (vis dir) dir includes excludes of None \<Rightarrow> Inl GlobPanic | Some out \<Rightarrow> Inr out)"
proof (cases "gs_globs s (glob_key dir includes excludes)")
  case (Some hit)
  then obtain d i e where key: "glob_key dir includes excludes = glob_key d i e" and "clean_patterns i" "clean_patterns e"
    and "glob_ref disk (vis d) d i e = Some hit"
    using assms(1) unfolding caches_ok_def by blast
  with glob_key_inj [OF assms(2,3)] have "glob_ref disk (vis dir) dir includes excludes = Some hit" by metis
  with Some assms(1,4,6) show ?thesis by (simp add: do_glob_def)
next
  case None
  obtain fs u where u: "walk_cached disk s dir (glob_hidden s) = (fs, u)" by (meson surj_pair)
  from walk_cached_ok [OF assms(1,5) u] have fs: "fs = walk_list disk dir (vis dir)" and ok: "caches_ok vis disk u"
    by blast+
  show ?thesis
  proof (cases "glob_filter includes excludes fs")
    case none: None
    with None u assms(4,6) have "r = Inl GlobPanic" "t = u" by (simp_all add: do_glob_def)
    with none ok fs show ?thesis by (simp add: glob_ref_def)
  next
    case (Some out)
    with None u assms(4,6) have r: "r = Inr (sort out)"
      and t: "t = u\<lparr>gs_globs := (gs_globs u)(glob_key dir includes excludes \<mapsto> sort out)\<rparr>"
      by (simp_all add: do_glob_def)
    have ref: "glob_ref disk (vis dir) dir includes excludes = Some (sort out)" using Some fs by (simp add: glob_ref_def)
    have "caches_ok vis disk t"
      unfolding caches_ok_def t
    proof (intro conjI allI impI)
      fix d fs' assume "gs_walks (u\<lparr>gs_globs := (gs_globs u)(glob_key dir includes excludes \<mapsto> sort out)\<rparr>) d = Some fs'"
      with ok show "fs' = walk_list disk d (vis d)" by (simp add: caches_ok_def)
    next
      fix key o'
      assume "gs_globs (u\<lparr>gs_globs := (gs_globs u)(glob_key dir includes excludes \<mapsto> sort out)\<rparr>) key = Some o'"
      then have "(if key = glob_key dir includes excludes then Some (sort out) else gs_globs u key) = Some o'"
        by simp
      then consider "key = glob_key dir includes excludes" "o' = sort out" | "gs_globs u key = Some o'"
        by (cases "key = glob_key dir includes excludes") simp_all
      then show "\<exists>d i e. key = glob_key d i e \<and> clean_patterns i \<and> clean_patterns e \<and> glob_ref disk (vis d) d i e = Some o'"
      proof cases
        case 1
        with ref assms(2,3) show ?thesis by blast
      next
        case 2
        with ok show ?thesis unfolding caches_ok_def by blast
      qed
    qed
    with r ref show ?thesis by simp
  qed
qed

text \<open>
  A session on a disk that does not change: the loader moves from package to package and globs there.  The map \<open>h\<close>
  is bookkeeping of the proof: for each directory that was globbed whether the first of its globs saw hidden files.
\<close>

definition note_first :: "pkg_disk \<Rightarrow> glob_session \<Rightarrow> (string \<Rightarrow> bool option) \<Rightarrow> string \<Rightarrow> bool option" where
  "note_first disk s h =
     (case glob_dir disk s of
        None \<Rightarrow> h
      | Some dir \<Rightarrow> if h dir = None then h(dir \<mapsto> glob_hidden s) else h)"

inductive glob_run :: "pkg_disk \<Rightarrow> (string \<Rightarrow> bool option) \<Rightarrow> glob_session \<Rightarrow> bool" for disk where
  gr_start: "glob_run disk (\<lambda>_. None) (s\<lparr>gs_walks := \<lambda>_. None, gs_globs := \<lambda>_. None\<rparr>)"
| gr_package: "glob_run disk h s \<Longrightarrow> glob_run disk h (s\<lparr>gs_pkg := pkg\<rparr>)"
| gr_glob: "glob_run disk h s \<Longrightarrow> clean_patterns inc \<Longrightarrow> clean_patterns exc \<Longrightarrow>
    glob_run disk (note_first disk s h) (snd (do_glob disk inc exc s))"

lemma walk_cached_walks:
  "walk_cached disk s dir b = (fs, t) \<Longrightarrow>
     gs_globs t = gs_globs s \<and> (\<forall>d. gs_walks t d \<noteq> None \<longleftrightarrow> gs_walks s d \<noteq> None \<or> d = dir)"
  by (auto simp: walk_cached_def Let_def split: option.splits)

lemma do_glob_walks:
  assumes "\<And>key. gs_globs s key \<noteq> None \<Longrightarrow> gs_walks s (fst key) \<noteq> None" "do_glob disk inc exc s = (r, t)"
  shows "gs_globs t key \<noteq> None \<Longrightarrow> gs_walks t (fst key) \<noteq> None"
    and "gs_walks t d \<noteq> None \<longleftrightarrow> gs_walks s d \<noteq> None \<or> glob_dir disk s = Some d"
proof -
  have "(gs_globs t key \<noteq> None \<longrightarrow> gs_walks t (fst key) \<noteq> None) \<and>
      (gs_walks t d \<noteq> None \<longleftrightarrow> gs_walks s d \<noteq> None \<or> glob_dir disk s = Some d)"
  proof (cases "glob_dir disk s")
    case None
    with assms show ?thesis by (auto simp: do_glob_def)
  next
    case dir: (Some dir)
    obtain fs u where u: "walk_cached disk s dir (glob_hidden s) = (fs, u)" by (meson surj_pair)
    show ?thesis
    proof (cases "gs_globs s (glob_key dir inc exc)")
      case (Some hit)
      with assms(1) [of "glob_key dir inc exc"] have "gs_walks s dir \<noteq> None" by (simp add: glob_key_def)
      with Some dir assms show ?thesis by (auto simp: do_glob_def)
    next
      case None
      then show ?thesis
        using dir u assms(2) walk_cached_walks [OF u] assms(1) [of key]
        by (cases key) (auto simp: do_glob_def glob_key_def split: option.splits if_splits)
    qed
  qed
  then show "gs_globs t key \<noteq> None \<Longrightarrow> gs_walks t (fst key) \<noteq> None"
    "gs_walks t d \<noteq> None \<longleftrightarrow> gs_walks s d \<noteq> None \<or> glob_dir disk s = Some d" by blast+
qed

lemma glob_run_walks:
  "glob_run disk h s \<Longrightarrow>
     (\<forall>key. gs_globs s key \<noteq> None \<longrightarrow> gs_walks s (fst key) \<noteq> None) \<and> (\<forall>d. h d \<noteq> None \<longleftrightarrow> gs_walks s d \<noteq> None)"
proof (induction rule: glob_run.induct)
  case (gr_glob h s inc exc)
  obtain r t where t: "do_glob disk inc exc s = (r, t)" by (meson surj_pair)
  have walks: "gs_globs s key \<noteq> None \<Longrightarrow> gs_walks s (fst key) \<noteq> None" for key using gr_glob.IH by blast
  have "note_first disk s h d \<noteq> None \<longleftrightarrow> h d \<noteq> None \<or> glob_dir disk s = Some d" for d
    by (simp add: note_first_def split: option.split)
  then show ?case using gr_glob.IH do_glob_walks [OF walks t] by (simp add: t)
qed simp_all

definition agrees :: "(string \<Rightarrow> bool option) \<Rightarrow> (string \<Rightarrow> bool) \<Rightarrow> bool" where
  "agrees h vis \<longleftrightarrow> (\<forall>d b. h d = Some b \<longrightarrow> vis d = b)"

lemma agrees_note_first:
  assumes "agrees (note_first disk s h) vis"
  shows "agrees h vis" and "glob_dir disk s = Some dir \<Longrightarrow> h dir \<noteq> None \<or> glob_hidden s = vis dir"
proof -
  have keep: "h d = Some b \<Longrightarrow> note_first disk s h d = Some b" for d b
    by (simp add: note_first_def split: option.split)
  with assms show "agrees h vis" unfolding agrees_def by blast
  assume "glob_dir disk s = Some dir"
  then have "h dir = None \<Longrightarrow> note_first disk s h dir = Some (glob_hidden s)" by (simp add: note_first_def)
  with assms show "h dir \<noteq> None \<or> glob_hidden s = vis dir" unfolding agrees_def by metis
qed

lemma glob_run_caches: "glob_run disk h s \<Longrightarrow> agrees h vis \<Longrightarrow> caches_ok vis disk s"
proof (induction rule: glob_run.induct)
  case (gr_glob h s inc exc)
  obtain r t where t: "do_glob disk inc exc s = (r, t)" by (meson surj_pair)
  note agree = agrees_note_first [OF gr_glob.prems]
  with gr_glob.IH have ok: "caches_ok vis disk s" by blast
  show ?case
  proof (cases "glob_dir disk s")
    case None
    with ok show ?thesis by (simp add: do_glob_def)
  next
    case (Some dir)
    with agree glob_run_walks [OF gr_glob.hyps(1)] have "gs_walks s dir \<noteq> None \<or> glob_hidden s = vis dir" by blast
    with do_glob_cached [OF ok gr_glob.hyps(2,3) Some _ t] show ?thesis by (simp add: t)
  qed
qed (simp_all add: caches_ok_def)

text \<open>C16: Take any session of globs in any packages over a disk that does not change, with patterns that are not empty
  and hold no comma.  A glob then answers exactly what a fresh walk of its directory and a fresh match would, where
  the walk shows hidden files if and only if the first glob of that directory in the session did (for the first glob: if its
  own package is external).  So the two caches never change an answer, save for the hidden files of a directory that is
  globbed both as a package of the workspace and as one of an external repository.\<close>

theorem glob_cache_transparent:
  assumes "glob_run disk h s" "clean_patterns includes" "clean_patterns excludes" "glob_dir disk s = Some dir"
  shows "fst (do_glob disk includes excludes s) =
    (case glob_ref disk (case h dir of Some first \<Rightarrow> first | None \<Rightarrow> glob_hidden s) dir includes excludes of
       None \<Rightarrow> Inl GlobPanic
     | Some out \<Rightarrow> Inr out)"
proof -
  obtain r t where t: "do_glob disk includes excludes s = (r, t)" by (meson surj_pair)
  let ?vis = "\<lambda>d. case h d of Some b \<Rightarrow> b | None \<Rightarrow> glob_hidden s"
  have ok: "caches_ok ?vis disk s" by (intro glob_run_caches [OF assms(1)]) (simp add: agrees_def)
  have "gs_walks s dir \<noteq> None \<or> glob_hidden s = ?vis dir"
    using glob_run_walks [OF assms(1)] by (auto split: option.splits)
  from do_glob_cached [OF ok assms(2-4) this t] show ?thesis by (simp add: t)
qed

text \<open>What a fresh glob of ASCII paths is: the files that some include and no exclude matches, sorted.\<close>

definition selected :: "string list \<Rightarrow> string list \<Rightarrow> string \<Rightarrow> bool" where
  "selected includes excludes f \<longleftrightarrow>
     (\<exists>p \<in> set includes. glob_match p f = Some True) \<and> \<not> (\<exists>p \<in> set excludes. glob_match p f = Some True)"

lemma glob_selects_ascii: "ascii f \<Longrightarrow> glob_selects includes excludes f = Some (selected includes excludes f)"
proof -
  assume f: "ascii f"
  have m: "any_opt (\<lambda>p. glob_match p f) ps = Some (\<exists>p \<in> set ps. glob_match p f = Some True)" for ps
  proof (rule any_opt_all)
    fix p show "glob_match p f = Some (glob_match p f = Some True)"
      unfolding glob_match_exact [OF f] by (simp only: option.inject eq_True)
  qed
  show ?thesis by (simp add: glob_selects_def m selected_def)
qed

lemma glob_filter_ascii:
  "(\<And>f. f \<in> set fs \<Longrightarrow> ascii f) \<Longrightarrow> glob_filter includes excludes fs = Some (filter (selected includes excludes) fs)"
  by (induction fs) (simp_all add: glob_selects_ascii)

lemma glob_ref_ascii:
  "(\<And>f. f \<in> set (walk_list disk dir hidden) \<Longrightarrow> ascii f) \<Longrightarrow>
     glob_ref disk hidden dir includes excludes = Some (sort (filter (selected includes excludes) (walk_list disk dir hidden)))"
  by (simp add: glob_ref_def glob_filter_ascii)

subsection \<open>A package on disk\<close>

definition demo_disk :: pkg_disk where
  "demo_disk = [''/x/w'' \<mapsto> WDir [],
     ''/x/w/p'' \<mapsto> WDir [(''a'', WFile), (''a,b'', WFile), (''b'', WFile), (''.hid'', WFile),
     (''sub'', WDir [(''BUILD'', WFile), (''a'', WFile)])]]"

definition demo_glob :: glob_session where
  "demo_glob = \<lparr>gs_pkg = Some ''p'', gs_workspace = Some ''/x/w'', gs_external_base = Some ''/x'', gs_fetched_base = None,
     gs_walks = (\<lambda>_. None), gs_globs = (\<lambda>_. None)\<rparr>"

text \<open>The directory of the workspace's package \<open>p\<close> is also one of a vendored repository.\<close>

definition demo_vendored :: glob_session where
  "demo_vendored = snd (do_glob demo_disk [''*''] [] demo_glob)\<lparr>gs_pkg := Some ''@w//p''\<rparr>"

theorem glob_cache_transparent_witness:
  "glob_dir demo_disk demo_vendored = Some ''/x/w/p'' \<and> glob_hidden demo_vendored \<and>
   fst (do_glob demo_disk [''*'' , ''.hid''] [] demo_vendored) = Inr [''a'', ''a,b'', ''b'']"
proof -
  have c: "clean_patterns [''*'']" "clean_patterns [''*'', ''.hid'']" "clean_patterns []" by (simp_all add: clean_patterns_def)
  have start: "glob_run demo_disk (\<lambda>_. None) demo_glob"
    using gr_start [of demo_disk demo_glob] by (simp add: demo_glob_def)
  note run = gr_package [OF gr_glob [OF start c(1,3)], of "Some ''@w//p''"]
  have dirs: "glob_dir demo_disk demo_glob = Some ''/x/w/p''" "glob_dir demo_disk demo_vendored = Some ''/x/w/p''" by code_simp+
  have flags: "\<not> glob_hidden demo_glob" "glob_hidden demo_vendored" by code_simp+
  have first: "note_first demo_disk demo_glob (\<lambda>_. None) ''/x/w/p'' = Some False"
    using dirs(1) flags(1) by (simp add: note_first_def)
  have ref: "glob_ref demo_disk False ''/x/w/p'' [''*'', ''.hid''] [] = Some [''a'', ''a,b'', ''b'']" by code_simp
  from glob_cache_transparent [OF run [folded demo_vendored_def] c(2,3) dirs(2)] first ref dirs(2) flags(2)
  show ?thesis by simp
qed

text \<open>
  The key joins the patterns with commas: after the glob of \<open>a\<close> and \<open>b\<close>, that of the one file \<open>a,b\<close> answers
  the cached result.
\<close>

lemma glob_key_collides:
  "fst (do_glob demo_disk [''a,b''] [] demo_glob) = Inr [''a,b'']"
  "fst (do_glob demo_disk [''a,b''] [] (snd (do_glob demo_disk [''a'', ''b''] [] demo_glob))) = Inr [''a'', ''b'']"
  by code_simp+

end
