(* ===== verification/Patterns.thy ===== *)
theory Patterns
  imports Glob
begin

section \<open>Packages and target patterns\<close>

text \<open>
  \<^verbatim>\<open>crates/razel-loading/src/patterns.rs\<close> and \<open>expand_pattern\<close> of \<^verbatim>\<open>crates/razel-build/src/affected.rs\<close>: the
  discovery of the packages of a workspace with an explicit stack, and the packages that a target pattern
  selects, once for the query and once for the build.  Loading the packages is a parameter.
\<close>

subsection \<open>Discovery\<close>

definition skip_dir :: "string \<Rightarrow> bool" where
  "skip_dir name \<longleftrightarrow>
     starts_with name ''.'' \<or> starts_with name ''bazel-'' \<or> starts_with name ''razel-'' \<or>
     name \<in> {''external'', ''node_modules'', ''target''}"

definition child_rel :: "string \<Rightarrow> string \<Rightarrow> string" where
  "child_rel rel name = (if rel = [] then name else rel @ ''/'' @ name)"

fun real_dir :: "wtree \<Rightarrow> bool" where
  "real_dir (WDir es) = True"
| "real_dir _ = False"

text \<open>The directories of a listing that are walked, paired with their paths.\<close>

definition child_dirs :: "string \<Rightarrow> (string \<times> wtree) list \<Rightarrow> (wtree \<times> string) list" where
  "child_dirs rel es =
     map (\<lambda>(name, t). (t, child_rel rel name)) (filter (\<lambda>(name, t). \<not> skip_dir name \<and> real_dir t) es)"

lemma child_dirs_simps [simp]:
  "child_dirs rel [] = []"
  "child_dirs rel ((name, t) # es) =
     (if \<not> skip_dir name \<and> real_dir t then [(t, child_rel rel name)] else []) @ child_dirs rel es"
  by (simp_all add: child_dirs_def)

definition stack_size :: "(wtree \<times> string) list \<Rightarrow> nat" where
  "stack_size stack = (\<Sum>(t, rel) \<leftarrow> stack. size t)"

lemma child_dirs_size: "stack_size (child_dirs rel es) \<le> size_list (size_prod (\<lambda>x. 0) size) es"
  by (induction es) (auto simp: stack_size_def)

lemma entries_size: "wt_entries t = Some es \<Longrightarrow> size_list (size_prod (\<lambda>x. 0) size) es < size t"
  by (induction t rule: wt_entries.induct) auto

lemma stack_size_simps [simp]:
  "stack_size (rev xs @ ys) = stack_size xs + stack_size ys"
  "stack_size ((t, rel) # ys) = size t + stack_size ys"
  by (simp_all add: stack_size_def rev_map [symmetric] sum_list_rev)

text \<open>The head of the list is the top of the stack.\<close>

function discover_loop :: "(wtree \<times> string) list \<Rightarrow> string list \<Rightarrow> string list" where
  "discover_loop [] out = out"
| "discover_loop ((t, rel) # stack) out =
     (case wt_entries t of
        None \<Rightarrow> discover_loop stack out
      | Some es \<Rightarrow>
          discover_loop (rev (child_dirs rel es) @ stack) (if is_package es then out @ [rel] else out))"
  by pat_completeness auto
termination
proof (relation "measures [\<lambda>(stack, out). stack_size stack, \<lambda>(stack, out). length stack]")
  fix t rel stack out es
  assume "wt_entries t = Some es"
  then have "stack_size (child_dirs rel es) < size t"
    using entries_size child_dirs_size le_less_trans by blast
  then show "((rev (child_dirs rel es) @ stack, if is_package es then out @ [rel] else out), (t, rel) # stack, out)
      \<in> measures [\<lambda>(stack, out). stack_size stack, \<lambda>(stack, out). length stack]"
    by simp
qed auto

definition discover_packages :: "wtree \<Rightarrow> string list" where
  "discover_packages root = discover_loop [(root, [])] []"

subsection \<open>Patterns\<close>

definition split_colon_pkg :: "string \<Rightarrow> string" where
  "split_colon_pkg body = (case split_once body (CHR '':'') of Some (p, _) \<Rightarrow> p | None \<Rightarrow> body)"

definition under_package :: "string \<Rightarrow> string \<Rightarrow> bool" where
  "under_package pfx p \<longleftrightarrow> p = pfx \<or> starts_with p (pfx @ ''/'')"

definition recursive_text :: "string \<Rightarrow> string" where
  "recursive_text pattern =
     ''recursive external pattern `'' @ pattern @ ''` is not yet supported in query (q4 '' @ [CHR 0xE2, CHR 0x80, CHR 0x94] @
     '' '' @ [CHR 0xC2, CHR 0xA7] @ ''13); use a concrete `@repo//pkg:target`''"

definition external_text :: "string \<Rightarrow> string" where
  "external_text pattern =
     ''external query pattern `'' @ pattern @ ''` must be `@repo//pkg:target` (q4 '' @ [CHR 0xE2, CHR 0x80, CHR 0x94] @
     '' '' @ [CHR 0xC2, CHR 0xA7] @ ''13)''"

definition no_packages_text :: "string \<Rightarrow> string \<Rightarrow> string" where
  "no_packages_text root pattern = ''no packages match `'' @ pattern @ ''` under '' @ root"

definition packages_for_pattern :: "(string \<Rightarrow> wtree) \<Rightarrow> string \<Rightarrow> string \<Rightarrow> string + string list" where
  "packages_for_pattern tree root pattern =
     (if starts_with pattern ''@'' then
        (if contains_str pattern ''...'' then Inl (recursive_text pattern)
         else (case pkg_of pattern of None \<Rightarrow> Inl (external_text pattern) | Some pkg \<Rightarrow> Inr [pkg]))
      else
        (let body = (case strip_prefix pattern ''//'' of Some b \<Rightarrow> b | None \<Rightarrow> pattern)
         in if \<not> contains_str pattern ''...'' \<and> \<not> ends_with pattern '':all'' then Inr [split_colon_pkg body]
            else
              (let pkgs = discover_packages (tree root);
                   matched =
                     (if body = ''...'' \<or> body = ''...:all'' then pkgs
                      else
                        (case (case strip_suffix body ''/...:all'' of Some p \<Rightarrow> Some p | None \<Rightarrow> strip_suffix body ''/...'') of
                           Some pfx \<Rightarrow> filter (under_package pfx) pkgs
                         | None \<Rightarrow> filter (\<lambda>p. p = split_colon_pkg body) pkgs))
               in if matched = [] then Inl (no_packages_text root pattern) else Inr matched)))"

definition no_targets_text :: "string \<Rightarrow> nat \<Rightarrow> string" where
  "no_targets_text pattern n = ''`'' @ pattern @ ''` matched '' @ dec n @ '' package(s) but no targets''"

definition expand_pattern ::
    "(string \<Rightarrow> wtree) \<Rightarrow> (string list \<Rightarrow> string list) \<Rightarrow> string \<Rightarrow> string \<Rightarrow> string + string list" where
  "expand_pattern tree load_tree root pattern =
     (if \<not> contains_str pattern ''...'' \<and> \<not> ends_with pattern '':all'' then Inr [pattern]
      else
        (let body = (case strip_prefix pattern ''//'' of Some b \<Rightarrow> b | None \<Rightarrow> pattern);
             pkgs = discover_packages (tree root);
             matched =
               (if body = ''...'' \<or> body = ''...:all'' then pkgs
                else
                  (case (case strip_suffix body ''/...:all'' of Some p \<Rightarrow> Some p | None \<Rightarrow> strip_suffix body ''/...'') of
                     Some pfx \<Rightarrow> filter (under_package pfx) pkgs
                   | None \<Rightarrow> filter (\<lambda>p. p = split_colon_pkg body) pkgs))
         in if matched = [] then Inl (no_packages_text root pattern)
            else
              (let labels = remdups_adj (sort (load_tree matched))
               in if labels = [] then Inl (no_targets_text pattern (length matched)) else Inr labels)))"

subsection \<open>Discovery finds the packages\<close>

text \<open>A path of directories that are walked, down to the listing of its last.\<close>

fun walks_to :: "wtree \<Rightarrow> string list \<Rightarrow> (string \<times> wtree) list \<Rightarrow> bool" where
  "walks_to t [] es \<longleftrightarrow> wt_entries t = Some es"
| "walks_to t (c # cs) es \<longleftrightarrow>
     (\<exists>es' u. wt_entries t = Some es' \<and> (c, u) \<in> set es' \<and> \<not> skip_dir c \<and> real_dir u \<and> walks_to u cs es)"

definition packages_below :: "wtree \<times> string \<Rightarrow> string set" where
  "packages_below tr = {foldl child_rel (snd tr) p | p es. walks_to (fst tr) p es \<and> is_package es}"

lemma packages_below_leaf: "wt_entries t = None \<Longrightarrow> packages_below (t, rel) = {}"
  unfolding packages_below_def by (auto elim: walks_to.elims)

lemma packages_below_dir:
  assumes "wt_entries t = Some es"
  shows "packages_below (t, rel) = (if is_package es then {rel} else {}) \<union> (\<Union>tr \<in> set (child_dirs rel es). packages_below tr)"
proof (rule set_eqI)
  fix x
  have "x \<in> packages_below (t, rel) \<longleftrightarrow>
      (\<exists>p es'. walks_to t p es' \<and> is_package es' \<and> x = foldl child_rel rel p)"
    by (auto simp: packages_below_def)
  also have "\<dots> \<longleftrightarrow> is_package es \<and> x = rel \<or>
      (\<exists>c u cs es'. (c, u) \<in> set es \<and> \<not> skip_dir c \<and> real_dir u \<and> walks_to u cs es' \<and> is_package es' \<and>
         x = foldl child_rel (child_rel rel c) cs)" (is "?L \<longleftrightarrow> ?R")
  proof
    assume ?L
    then obtain p es' where "walks_to t p es'" "is_package es'" "x = foldl child_rel rel p" by blast
    with assms show ?R by (cases p) auto
  next
    assume ?R
    then show ?L
    proof (elim disjE exE conjE)
      assume "is_package es" "x = rel"
      with assms show ?L by (intro exI [of _ "[]"] exI [of _ es]) simp
    next
      fix c u cs es'
      assume "(c, u) \<in> set es" "\<not> skip_dir c" "real_dir u" "walks_to u cs es'" "is_package es'"
        "x = foldl child_rel (child_rel rel c) cs"
      with assms show ?L by (intro exI [of _ "c # cs"] exI [of _ es']) auto
    qed
  qed
  also have "\<dots> \<longleftrightarrow> x \<in> (if is_package es then {rel} else {}) \<union> (\<Union>tr \<in> set (child_dirs rel es). packages_below tr)"
    unfolding child_dirs_def packages_below_def by (auto; fastforce)
  finally show "x \<in> packages_below (t, rel) \<longleftrightarrow>
      x \<in> (if is_package es then {rel} else {}) \<union> (\<Union>tr \<in> set (child_dirs rel es). packages_below tr)" .
qed

lemma discover_loop_exact:
  "set (discover_loop stack out) = set out \<union> (\<Union>tr \<in> set stack. packages_below tr)"
proof (induction stack out rule: discover_loop.induct)
  case (2 t rel stack out)
  show ?case
  proof (cases "wt_entries t")
    case None
    with "2.IH"(1) show ?thesis by (simp add: packages_below_leaf)
  next
    case (Some es)
    with "2.IH"(2) [OF Some] show ?thesis by (auto simp: packages_below_dir)
  qed
qed simp

text \<open>Discovery lists exactly the directories with a BUILD file that can be reached from the root through real
  directories none of which is hidden, an output tree, or external.\<close>

theorem discover_packages_exact:
  "rel \<in> set (discover_packages root) \<longleftrightarrow>
     (\<exists>p es. walks_to root p es \<and> is_package es \<and> rel = foldl child_rel [] p)"
  unfolding discover_packages_def discover_loop_exact by (auto simp: packages_below_def)

subsection \<open>Recursive patterns\<close>

text \<open>\<open>//...\<close> and \<open>//pkg/...\<close>, and the packages they stand for: those reached from the root, at or below \<open>pkg\<close>.\<close>

definition recursive_pattern :: "string option \<Rightarrow> string" where
  "recursive_pattern below = (case below of None \<Rightarrow> ''//...'' | Some pkg \<Rightarrow> ''//'' @ pkg @ ''/...'')"

definition packages_at :: "wtree \<Rightarrow> string option \<Rightarrow> string set" where
  "packages_at root below =
     {rel. (\<exists>p es. walks_to root p es \<and> is_package es \<and> rel = foldl child_rel [] p) \<and>
        (case below of None \<Rightarrow> True | Some pkg \<Rightarrow> rel = pkg \<or> starts_with rel (pkg @ ''/''))}"

definition matched_packages :: "wtree \<Rightarrow> string option \<Rightarrow> string list" where
  "matched_packages root below =
     (case below of None \<Rightarrow> discover_packages root | Some pkg \<Rightarrow> filter (under_package pkg) (discover_packages root))"

lemma sort_empty: "sort xs = [] \<longleftrightarrow> xs = []"
  by (metis set_sort set_empty)

lemma matched_packages_set: "set (matched_packages root below) = packages_at root below"
proof (cases below)
  case None
  then show ?thesis by (simp add: matched_packages_def packages_at_def discover_packages_exact set_eq_iff)
qed (auto simp: matched_packages_def packages_at_def discover_packages_exact under_package_def)

lemma contains_str_infix: "contains_str (a @ p @ b) p"
  using str_find_None [of "a @ p @ b" p] by (auto simp: contains_str_def)

lemma recursive_wildcard: "\<not> starts_with (recursive_pattern below) ''@''" "contains_str (recursive_pattern below) ''...''"
  using contains_str_infix [of "''//''" "''...''" "[]"] contains_str_infix [of "''//'' @ the below @ ''/''" "''...''" "[]"]
  by (auto simp: recursive_pattern_def starts_with_Cons split: option.split)

lemma below_body:
  "strip_suffix (pkg @ ''/...'') ''/...:all'' = None" "pkg @ ''/...'' \<noteq> ''...''" "pkg @ ''/...'' \<noteq> ''...:all''"
proof -
  have l: "last (pkg @ ''/...'') = CHR ''.''" by simp
  show "pkg @ ''/...'' \<noteq> ''...:all''" using arg_cong [of "pkg @ ''/...''" "''...:all''" last] l by auto
  show "strip_suffix (pkg @ ''/...'') ''/...:all'' = None"
  proof (cases "strip_suffix (pkg @ ''/...'') ''/...:all''")
    case (Some t)
    then have "pkg @ ''/...'' = t @ ''/...:all''" by (simp only: strip_suffix_Some)
    from arg_cong [OF this, of last] show ?thesis by simp
  qed
  show "pkg @ ''/...'' \<noteq> ''...''" using arg_cong [of "pkg @ ''/...''" "''...''" length] by auto
qed

lemma recursive_matched:
  "(let body = (case strip_prefix (recursive_pattern below) ''//'' of Some b \<Rightarrow> b | None \<Rightarrow> recursive_pattern below)
    in if body = ''...'' \<or> body = ''...:all'' then discover_packages root
       else (case (case strip_suffix body ''/...:all'' of Some p \<Rightarrow> Some p | None \<Rightarrow> strip_suffix body ''/...'') of
               Some pfx \<Rightarrow> filter (under_package pfx) (discover_packages root)
             | None \<Rightarrow> filter (\<lambda>p. p = split_colon_pkg body) (discover_packages root))) = matched_packages root below"
proof (cases below)
  case None
  moreover have "strip_prefix ''//...'' ''//'' = Some ''...''" using strip_prefix_append [of "''//''" "''...''"] by simp
  ultimately show ?thesis by (simp add: recursive_pattern_def matched_packages_def)
next
  case (Some pkg)
  have "strip_prefix (''//'' @ pkg @ ''/...'') ''//'' = Some (pkg @ ''/...'')" by (rule strip_prefix_append)
  with Some show ?thesis by (simp add: recursive_pattern_def matched_packages_def below_body del: append.simps)
qed

text \<open>C18: A recursive pattern stands for exactly the packages, at or below the one it names, that are reached from the root
  through real directories none of which is hidden, an output tree or external.  The query is given these packages, the build
  loads them and answers their labels sorted and without repetition, and both refuse the pattern when there are none.\<close>

theorem recursive_pattern_exact:
  "\<exists>pkgs. set pkgs = packages_at (tree root) below \<and>
     packages_for_pattern tree root (recursive_pattern below) =
       (if pkgs = [] then Inl (no_packages_text root (recursive_pattern below)) else Inr pkgs) \<and>
     expand_pattern tree load_tree root (recursive_pattern below) =
       (if pkgs = [] then Inl (no_packages_text root (recursive_pattern below))
        else if load_tree pkgs = [] then Inl (no_targets_text (recursive_pattern below) (length pkgs))
        else Inr (remdups_adj (sort (load_tree pkgs))))"
proof (intro exI [of _ "matched_packages (tree root) below"] conjI)
  let ?pkgs = "matched_packages (tree root) below"
  note m = recursive_matched [of below "tree root", unfolded Let_def]
  show "set ?pkgs = packages_at (tree root) below" by (rule matched_packages_set)
  show "packages_for_pattern tree root (recursive_pattern below) =
      (if ?pkgs = [] then Inl (no_packages_text root (recursive_pattern below)) else Inr ?pkgs)"
    using recursive_wildcard [of below] unfolding packages_for_pattern_def Let_def m by simp
  show "expand_pattern tree load_tree root (recursive_pattern below) =
      (if ?pkgs = [] then Inl (no_packages_text root (recursive_pattern below))
       else if load_tree ?pkgs = [] then Inl (no_targets_text (recursive_pattern below) (length ?pkgs))
       else Inr (remdups_adj (sort (load_tree ?pkgs))))"
    using recursive_wildcard [of below] unfolding expand_pattern_def Let_def m by (simp add: sort_empty)
qed

end
