(* ===== verification/Analysis.thy ===== *)
theory Analysis
  imports Ir Incremental
begin

section \<open>razel-analysis and the impact query\<close>

text \<open>
  \<^verbatim>\<open>crates/razel-analysis/src/analysis.rs\<close>: the analyzed targets of a package as a graph, and \<open>affected\<close> of
  \<^verbatim>\<open>crates/razel-build/src/affected.rs\<close>, the targets and tests that an edit of some files reaches.  The Starlark
  analysis of a BUILD text is a parameter.  \<open>Debug\<close> of a text is written out for ASCII; characters above it
  are taken to be printable.
\<close>

definition infer_kind :: "string \<Rightarrow> target_kind" where
  "infer_kind name =
     (if ends_with name ''_test'' then KTest else if ends_with name ''_binary'' then KBinary else KLibrary)"

definition hex_nat :: "nat \<Rightarrow> string" where
  "hex_nat n = (if n < 16 then [hex_digit n] else [hex_digit (n div 16), hex_digit (n mod 16)])"

definition debug_char :: "char \<Rightarrow> string" where
  "debug_char c =
     (let n = of_char c :: nat in
      if n = 0 then [CHR 0x5C, CHR ''0''] else if n = 9 then [CHR 0x5C, CHR ''t'']
      else if n = 13 then [CHR 0x5C, CHR ''r''] else if n = 10 then [CHR 0x5C, CHR ''n'']
      else if n = 0x5C \<or> n = 0x22 then [CHR 0x5C, c]
      else if n < 32 \<or> n = 127 then [CHR 0x5C, CHR ''u'', CHR 0x7B] @ hex_nat n @ [CHR 0x7D]
      else [c])"

definition debug_str :: "string \<Rightarrow> string" where
  "debug_str s = [CHR 0x22] @ concat (map debug_char s) @ [CHR 0x22]"

definition debug_list :: "string list \<Rightarrow> string" where
  "debug_list ss = ''['' @ join_with '', '' (map debug_str ss) @ '']''"

subsection \<open>The graph of a package\<close>

definition target_label :: "string \<Rightarrow> string \<Rightarrow> string" where
  "target_label package name = ''//'' @ package @ '':'' @ name"

definition action_name :: "string \<Rightarrow> nat \<Rightarrow> string" where
  "action_name label i = label @ ''#'' @ dec i"

definition file_name :: "string \<Rightarrow> string \<Rightarrow> string" where
  "file_name package f = package @ ''/'' @ f"

definition wire_input :: "string \<Rightarrow> action_id \<Rightarrow> string \<Rightarrow> graph \<Rightarrow> graph" where
  "wire_input package aid inp g =
     (let fid = FileId (file_name package inp)
      in add_dep (NAction aid) (NFile fid)
           (add_file \<lparr>fn_id = fid, fn_digest = None, fn_exists = True, fn_kind = FSource\<rparr> g))"

definition wire_output :: "string \<Rightarrow> string \<Rightarrow> graph \<Rightarrow> graph" where
  "wire_output package out g =
     add_file \<lparr>fn_id = FileId (file_name package out), fn_digest = None, fn_exists = False, fn_kind = FGenerated\<rparr> g"

definition wire_action ::
    "(byte list \<Rightarrow> byte list) \<Rightarrow> string \<Rightarrow> string \<Rightarrow> nat \<times> analyzed_action \<Rightarrow> graph \<Rightarrow> graph" where
  "wire_action hash package label ia g =
     (let (i, act) = ia;
          aid = ActionId (action_name label i);
          key = digest_of hash (str_bytes
            (mnemonic act @ ''|'' @ debug_list (aa_inputs act) @ ''|'' @ debug_list (aa_outputs act)))
      in add_dep (NTarget (TargetId label)) (NAction aid)
           (fold (wire_output package) (aa_outputs act)
             (fold (wire_input package aid) (aa_inputs act)
               (add_action \<lparr>an_id = aid, an_content_key = key\<rparr> g))))"

definition wire_target :: "(byte list \<Rightarrow> byte list) \<Rightarrow> string \<Rightarrow> analyzed_target \<Rightarrow> graph \<Rightarrow> graph" where
  "wire_target hash package t g =
     (let label = target_label package (at_name t)
      in fold (wire_action hash package label) (enumerate 0 (at_actions t))
           (add_target \<lparr>tn_id = TargetId label, tn_kind = infer_kind (at_name t)\<rparr> g))"

definition wire_to_ir :: "(byte list \<Rightarrow> byte list) \<Rightarrow> string \<Rightarrow> analyzed_target list \<Rightarrow> graph" where
  "wire_to_ir hash package targets = fold (wire_target hash package) targets graph_new"

subsection \<open>The impact query\<close>

record affected_target =
  af_label :: string
  af_kind :: target_kind

record affected_report =
  af_sources :: "string list"
  af_targets :: "affected_target list"
  af_tests :: "affected_target list"

definition impact_step ::
    "graph \<Rightarrow> string \<Rightarrow> string \<Rightarrow> target_id bset \<times> target_id bset \<Rightarrow> target_id bset \<times> target_id bset" where
  "impact_step g package f acc =
     (let (t, d) = impacted_targets g (FileId (file_name package f))
      in (bs_extend (fst acc) t, bs_extend (snd acc) d))"

fun tid_text :: "target_id \<Rightarrow> string" where
  "tid_text (TargetId s) = s"

definition to_ref :: "graph \<Rightarrow> target_id \<Rightarrow> affected_target" where
  "to_ref g tid =
     \<lparr>af_label = tid_text tid, af_kind = (case g_targets g tid of Some n \<Rightarrow> tn_kind n | None \<Rightarrow> KLibrary)\<rparr>"

definition affected ::
    "(byte list \<Rightarrow> byte list) \<Rightarrow> (string \<Rightarrow> string + analyzed_target list) \<Rightarrow> string \<Rightarrow> string \<Rightarrow> string list \<Rightarrow>
     string + affected_report" where
  "affected hash analyze build_src package files =
     res_bind (analyze build_src) (\<lambda>analyzed.
       let g = wire_to_ir hash package analyzed;
           (tests, deliverables) = fold (impact_step g package) files ([], [])
       in Inr \<lparr>af_sources = files, af_targets = map (to_ref g) deliverables, af_tests = map (to_ref g) tests\<rparr>)"

subsection \<open>The edges of the graph\<close>

lemma dep_rel_add_node [simp]:
  "dep_rel (add_file fn g) = dep_rel g" "dep_rel (add_action an g) = dep_rel g" "dep_rel (add_target tn g) = dep_rel g"
  by (simp_all add: dep_rel_def deps_of_def add_file_def add_action_def add_target_def)

lemma g_targets_add [simp]:
  "g_targets (add_file fn g) = g_targets g" "g_targets (add_action an g) = g_targets g"
  "g_targets (add_dep a b g) = g_targets g" "g_targets (add_target tn g) = (g_targets g)(tn_id tn \<mapsto> tn)"
  by (simp_all add: add_file_def add_action_def add_dep_def add_target_def)

lemma wire_inputs_spec:
  "graph_ok g \<Longrightarrow> graph_ok (fold (wire_input package aid) ins g) \<and>
     dep_rel (fold (wire_input package aid) ins g)
       = {(NAction aid, NFile (FileId (file_name package i))) | i. i \<in> set ins} \<union> dep_rel g \<and>
     g_targets (fold (wire_input package aid) ins g) = g_targets g"
proof (induction ins arbitrary: g)
  case (Cons i ins)
  have "graph_ok (wire_input package aid i g)"
    using Cons.prems by (auto simp: wire_input_def Let_def intro!: inv_intros)
  from Cons.IH [OF this] show ?case
    by (auto simp: wire_input_def Let_def dep_rel_add_dep)
qed simp

lemma wire_outputs_spec:
  "graph_ok g \<Longrightarrow> graph_ok (fold (wire_output package) outs g) \<and>
     dep_rel (fold (wire_output package) outs g) = dep_rel g \<and>
     g_targets (fold (wire_output package) outs g) = g_targets g"
proof (induction outs arbitrary: g)
  case (Cons out outs)
  have "graph_ok (wire_output package out g)" using Cons.prems by (auto simp: wire_output_def intro: inv_intros)
  from Cons.IH [OF this] show ?case by (simp add: wire_output_def)
qed simp

definition action_edges :: "string \<Rightarrow> string \<Rightarrow> nat \<times> analyzed_action \<Rightarrow> (node_ref \<times> node_ref) set" where
  "action_edges package label ia =
     insert (NTarget (TargetId label), NAction (ActionId (action_name label (fst ia))))
       {(NAction (ActionId (action_name label (fst ia))), NFile (FileId (file_name package i))) | i. i \<in> set (aa_inputs (snd ia))}"

lemma wire_action_spec:
  assumes "graph_ok g"
  shows "graph_ok (wire_action hash package label ia g) \<and>
     dep_rel (wire_action hash package label ia g) = action_edges package label ia \<union> dep_rel g \<and>
     g_targets (wire_action hash package label ia g) = g_targets g"
proof -
  obtain i act where ia: "ia = (i, act)" by fastforce
  let ?aid = "ActionId (action_name label i)"
  let ?a = "add_action \<lparr>an_id = ?aid, an_content_key = digest_of hash (str_bytes
            (mnemonic act @ ''|'' @ debug_list (aa_inputs act) @ ''|'' @ debug_list (aa_outputs act)))\<rparr> g"
  have a: "graph_ok ?a" using assms by (intro inv_intros)
  let ?b = "fold (wire_input package ?aid) (aa_inputs act) ?a"
  note b = wire_inputs_spec [OF a, of package ?aid "aa_inputs act"]
  note c = wire_outputs_spec [of ?b package "aa_outputs act"]
  have w: "wire_action hash package label ia g
      = add_dep (NTarget (TargetId label)) (NAction ?aid) (fold (wire_output package) (aa_outputs act) ?b)"
    by (simp add: wire_action_def ia Let_def)
  show ?thesis
    unfolding w using b c by (auto simp: dep_rel_add_dep action_edges_def ia intro: inv_intros)
qed

lemma wire_actions_spec:
  "graph_ok g \<Longrightarrow> graph_ok (fold (wire_action hash package label) ias g) \<and>
     dep_rel (fold (wire_action hash package label) ias g) = (\<Union>ia \<in> set ias. action_edges package label ia) \<union> dep_rel g \<and>
     g_targets (fold (wire_action hash package label) ias g) = g_targets g"
proof (induction ias arbitrary: g)
  case (Cons ia ias)
  from wire_action_spec [OF Cons.prems, of hash package label ia] Cons.IH show ?case by auto
qed simp

definition target_edges :: "string \<Rightarrow> analyzed_target \<Rightarrow> (node_ref \<times> node_ref) set" where
  "target_edges package t =
     (\<Union>ia \<in> set (enumerate 0 (at_actions t)). action_edges package (target_label package (at_name t)) ia)"

lemma wire_target_spec:
  assumes "graph_ok g"
  shows "graph_ok (wire_target hash package t g) \<and>
     dep_rel (wire_target hash package t g) = target_edges package t \<union> dep_rel g \<and>
     g_targets (wire_target hash package t g) = (g_targets g)(TargetId (target_label package (at_name t)) \<mapsto>
       \<lparr>tn_id = TargetId (target_label package (at_name t)), tn_kind = infer_kind (at_name t)\<rparr>)"
proof -
  let ?n = "\<lparr>tn_id = TargetId (target_label package (at_name t)), tn_kind = infer_kind (at_name t)\<rparr>"
  have "graph_ok (add_target ?n g)" using assms by (intro inv_intros)
  from wire_actions_spec [OF this, of hash package "target_label package (at_name t)" "enumerate 0 (at_actions t)"]
  show ?thesis by (simp add: wire_target_def Let_def target_edges_def)
qed

lemma target_label_inj: "target_label package a = target_label package b \<Longrightarrow> a = b"
  by (simp add: target_label_def)

lemma hash_not_digit: "CHR ''#'' \<notin> set (dec i)"
proof
  assume "CHR ''#'' \<in> set (dec i)"
  then have "digit_val (CHR ''#'') \<noteq> None" by (rule dec_digits)
  then show False by (simp add: digit_val_def)
qed

lemma action_name_inj: "action_name a i = action_name b j \<Longrightarrow> a = b \<and> i = j"
proof -
  assume "action_name a i = action_name b j"
  then have "rsplit_once (a @ CHR ''#'' # dec i) (CHR ''#'') = rsplit_once (b @ CHR ''#'' # dec j) (CHR ''#'')"
    by (simp add: action_name_def)
  then show ?thesis using dec_inj by (simp add: hash_not_digit)
qed

definition target_node_of :: "string \<Rightarrow> analyzed_target \<Rightarrow> target_node" where
  "target_node_of package t =
     \<lparr>tn_id = TargetId (target_label package (at_name t)), tn_kind = infer_kind (at_name t)\<rparr>"

lemma wire_targets_spec:
  "graph_ok g \<Longrightarrow> graph_ok (fold (wire_target hash package) ts g) \<and>
     dep_rel (fold (wire_target hash package) ts g) = (\<Union>t \<in> set ts. target_edges package t) \<union> dep_rel g \<and>
     (\<forall>t \<in> set ts. g_targets (fold (wire_target hash package) ts g) (TargetId (target_label package (at_name t)))
        = Some (target_node_of package t)) \<and>
     (\<forall>tid. (\<forall>t \<in> set ts. tid \<noteq> TargetId (target_label package (at_name t))) \<longrightarrow>
        g_targets (fold (wire_target hash package) ts g) tid = g_targets g tid)"
proof (induction ts arbitrary: g)
  case (Cons t ts)
  note w = wire_target_spec [OF Cons.prems, of hash package t]
  let ?r = "fold (wire_target hash package) ts (wire_target hash package t g)"
  have IH: "graph_ok ?r" "dep_rel ?r = (\<Union>t \<in> set ts. target_edges package t) \<union> dep_rel (wire_target hash package t g)"
    "\<And>u. u \<in> set ts \<Longrightarrow> g_targets ?r (TargetId (target_label package (at_name u))) = Some (target_node_of package u)"
    "\<And>tid. (\<And>u. u \<in> set ts \<Longrightarrow> tid \<noteq> TargetId (target_label package (at_name u))) \<Longrightarrow>
       g_targets ?r tid = g_targets (wire_target hash package t g) tid"
    using Cons.IH w by blast+
  have t: "g_targets ?r (TargetId (target_label package (at_name t))) = Some (target_node_of package t)"
  proof (cases "\<exists>u \<in> set ts. target_label package (at_name u) = target_label package (at_name t)")
    case True
    then obtain u where "u \<in> set ts" "target_label package (at_name u) = target_label package (at_name t)" by blast
    with IH(3) [of u] target_label_inj show ?thesis by (metis target_node_of_def)
  next
    case False
    then have "g_targets ?r (TargetId (target_label package (at_name t)))
        = g_targets (wire_target hash package t g) (TargetId (target_label package (at_name t)))"
      by (intro IH(4)) force
    with w show ?thesis by (simp add: target_node_of_def)
  qed
  have other: "g_targets ?r tid = g_targets g tid"
    if "\<forall>u \<in> set (t # ts). tid \<noteq> TargetId (target_label package (at_name u))" for tid
    using that IH(4) [of tid] w by simp
  show ?case using IH(1,2) w t IH(3) other by (simp add: Un_ac)
qed simp

lemma wire_to_ir_spec:
  "graph_ok (wire_to_ir hash package ts)"
  "dep_rel (wire_to_ir hash package ts) = (\<Union>t \<in> set ts. target_edges package t)"
  "t \<in> set ts \<Longrightarrow> g_targets (wire_to_ir hash package ts) (TargetId (target_label package (at_name t)))
     = Some (target_node_of package t)"
  "(\<And>t. t \<in> set ts \<Longrightarrow> tid \<noteq> TargetId (target_label package (at_name t))) \<Longrightarrow>
     g_targets (wire_to_ir hash package ts) tid = None"
proof -
  have new: "dep_rel graph_new = {}" "g_targets graph_new = Map.empty"
    by (simp_all add: dep_rel_def deps_of_def graph_new_def)
  note w = wire_targets_spec [OF graph_ok_new, of hash package ts]
  show "graph_ok (wire_to_ir hash package ts)" "dep_rel (wire_to_ir hash package ts) = (\<Union>t \<in> set ts. target_edges package t)"
    "t \<in> set ts \<Longrightarrow> g_targets (wire_to_ir hash package ts) (TargetId (target_label package (at_name t)))
       = Some (target_node_of package t)"
    "(\<And>t. t \<in> set ts \<Longrightarrow> tid \<noteq> TargetId (target_label package (at_name t))) \<Longrightarrow>
       g_targets (wire_to_ir hash package ts) tid = None"
    unfolding wire_to_ir_def using w new by simp_all
qed

text \<open>No edge leaves a file and none enters a target, so a target reaches a file over one action.\<close>

lemma two_steps:
  assumes edges: "\<And>x y. (x, y) \<in> R \<Longrightarrow> (\<exists>t a. x = NTarget t \<and> y = NAction a) \<or> (\<exists>a f. x = NAction a \<and> y = NFile f)"
  shows "(NTarget t, NFile f) \<in> R\<^sup>+ \<longleftrightarrow> (\<exists>a. (NTarget t, NAction a) \<in> R \<and> (NAction a, NFile f) \<in> R)"
proof
  assume "(NTarget t, NFile f) \<in> R\<^sup>+"
  then have "(\<exists>a. NTarget t = NAction a \<and> (NAction a, NFile f) \<in> R) \<or>
      (\<exists>t' a. NTarget t = NTarget t' \<and> (NTarget t', NAction a) \<in> R \<and> (NAction a, NFile f) \<in> R)"
  proof (induction rule: converse_trancl_induct)
    case (base y)
    with edges [OF this] show ?case by auto
  next
    case (step y z)
    with edges [OF step(1)] show ?case by auto
  qed
  then show "\<exists>a. (NTarget t, NAction a) \<in> R \<and> (NAction a, NFile f) \<in> R" by auto
qed (auto intro: trancl_into_trancl)

lemma wired_edge:
  "(x, y) \<in> dep_rel (wire_to_ir hash package ts) \<Longrightarrow>
     (\<exists>t a. x = NTarget t \<and> y = NAction a) \<or> (\<exists>a f. x = NAction a \<and> y = NFile f)"
  by (auto simp: wire_to_ir_spec target_edges_def action_edges_def)

text \<open>The target reads the file itself: the file is an input of one of its actions.\<close>

definition reads :: "analyzed_target \<Rightarrow> string \<Rightarrow> bool" where
  "reads t f \<longleftrightarrow> (\<exists>act \<in> set (at_actions t). f \<in> set (aa_inputs act))"

lemma bex_enumerate: "(\<exists>x \<in> set (enumerate 0 xs). Q x) \<longleftrightarrow> (\<exists>i < length xs. Q (i, xs ! i))"
proof
  assume "\<exists>x \<in> set (enumerate 0 xs). Q x"
  then show "\<exists>i < length xs. Q (i, xs ! i)" by (force simp: in_set_enumerate_eq)
next
  assume "\<exists>i < length xs. Q (i, xs ! i)"
  then obtain i where "i < length xs" "Q (i, xs ! i)" by blast
  then show "\<exists>x \<in> set (enumerate 0 xs). Q x" by (intro bexI [of _ "(i, xs ! i)"]) (simp_all add: in_set_enumerate_eq)
qed

lemma target_action_edge:
  "(NTarget (TargetId l), NAction a) \<in> dep_rel (wire_to_ir hash package ts) \<longleftrightarrow>
     (\<exists>t \<in> set ts. \<exists>i < length (at_actions t). l = target_label package (at_name t) \<and> a = ActionId (action_name l i))"
  by (simp add: wire_to_ir_spec target_edges_def action_edges_def bex_enumerate) blast

lemma action_file_edge:
  "(NAction a, NFile (FileId (file_name package f))) \<in> dep_rel (wire_to_ir hash package ts) \<longleftrightarrow>
     (\<exists>t \<in> set ts. \<exists>i < length (at_actions t).
        a = ActionId (action_name (target_label package (at_name t)) i) \<and> f \<in> set (aa_inputs (at_actions t ! i)))"
  by (simp add: wire_to_ir_spec target_edges_def action_edges_def bex_enumerate file_name_def)

lemma reaches_file:
  "(NTarget (TargetId l), NFile (FileId (file_name package f))) \<in> (dep_rel (wire_to_ir hash package ts))\<^sup>+ \<longleftrightarrow>
     (\<exists>t \<in> set ts. l = target_label package (at_name t) \<and> reads t f)" (is "?reach \<longleftrightarrow> ?direct")
proof -
  let ?R = "dep_rel (wire_to_ir hash package ts)"
  have "?reach \<longleftrightarrow> (\<exists>a. (NTarget (TargetId l), NAction a) \<in> ?R \<and> (NAction a, NFile (FileId (file_name package f))) \<in> ?R)"
    by (rule two_steps) (rule wired_edge)
  also have "\<dots> \<longleftrightarrow> ?direct"
  proof
    assume "\<exists>a. (NTarget (TargetId l), NAction a) \<in> ?R \<and> (NAction a, NFile (FileId (file_name package f))) \<in> ?R"
    then obtain i u j where u: "u \<in> set ts" "j < length (at_actions u)" "f \<in> set (aa_inputs (at_actions u ! j))"
      and eq: "action_name l i = action_name (target_label package (at_name u)) j"
      unfolding target_action_edge action_file_edge by auto
    from eq have "l = target_label package (at_name u)" by (blast dest: action_name_inj)
    moreover have "reads u f" using u nth_mem unfolding reads_def by blast
    ultimately show ?direct using u(1) by blast
  next
    assume ?direct
    then obtain t act where t: "t \<in> set ts" "l = target_label package (at_name t)" "act \<in> set (at_actions t)"
      "f \<in> set (aa_inputs act)" by (auto simp: reads_def)
    then obtain i where i: "i < length (at_actions t)" "at_actions t ! i = act" by (meson in_set_conv_nth)
    show "\<exists>a. (NTarget (TargetId l), NAction a) \<in> ?R \<and> (NAction a, NFile (FileId (file_name package f))) \<in> ?R"
      unfolding target_action_edge action_file_edge using t i by blast
  qed
  finally show ?thesis .
qed

lemma impact_fold:
  "set (fst (fold (impact_step g package) files acc))
     = set (fst acc) \<union> (\<Union>f \<in> set files. set (fst (impacted_targets g (FileId (file_name package f)))))"
  "set (snd (fold (impact_step g package) files acc))
     = set (snd acc) \<union> (\<Union>f \<in> set files. set (snd (impacted_targets g (FileId (file_name package f)))))"
  by (induction files arbitrary: acc) (auto simp: impact_step_def split: prod.splits)

lemma wired_kind:
  "(\<exists>n. g_targets (wire_to_ir hash package ts) (TargetId l) = Some n \<and> P (tn_kind n)) \<and>
     (\<exists>t \<in> set ts. l = target_label package (at_name t) \<and> Q t) \<longleftrightarrow>
   (\<exists>t \<in> set ts. l = target_label package (at_name t) \<and> P (infer_kind (at_name t)) \<and> Q t)"
proof -
  have "g_targets (wire_to_ir hash package ts) (TargetId l) = Some (target_node_of package t)"
    if "t \<in> set ts" "l = target_label package (at_name t)" for t
    using wire_to_ir_spec(3) [OF that(1)] that(2) by simp
  then show ?thesis by (fastforce simp: target_node_of_def)
qed

lemma impacted_direct:
  "tid_text ` set (fst (impacted_targets (wire_to_ir hash package ts) (FileId (file_name package f))))
     = {target_label package (at_name t) | t. t \<in> set ts \<and> ends_with (at_name t) ''_test'' \<and> reads t f}" (is ?tests)
  "tid_text ` set (snd (impacted_targets (wire_to_ir hash package ts) (FileId (file_name package f))))
     = {target_label package (at_name t) | t. t \<in> set ts \<and> \<not> ends_with (at_name t) ''_test'' \<and> reads t f}" (is ?targets)
proof -
  let ?g = "wire_to_ir hash package ts"
  obtain tests dels where imp: "impacted_targets ?g (FileId (file_name package f)) = (tests, dels)" by fastforce
  note spec = impacted_split [OF wire_to_ir_spec(1) imp]
  have mem: "tid_text ` {t. Q t} = {l. Q (TargetId l)}" for Q
  proof (intro set_eqI iffI)
    fix x assume "x \<in> tid_text ` {t. Q t}"
    then obtain t where "Q t" "x = tid_text t" by auto
    then show "x \<in> {l. Q (TargetId l)}" by (cases t) simp
  next
    fix x assume "x \<in> {l. Q (TargetId l)}"
    then show "x \<in> tid_text ` {t. Q t}" by (intro image_eqI [of _ _ "TargetId x"]) simp_all
  qed
  have test: "infer_kind n = KTest \<longleftrightarrow> ends_with n ''_test''" for n
    by (simp add: infer_kind_def)
  have "tid_text ` set tests = {l. (\<exists>n. g_targets ?g (TargetId l) = Some n \<and> tn_kind n = KTest) \<and>
      (\<exists>t \<in> set ts. l = target_label package (at_name t) \<and> reads t f)}"
    using spec by (simp add: mem reaches_file conj_commute)
  then show ?tests
    using imp by (auto simp: wired_kind [where P = "\<lambda>k. k = KTest"] test)
  have "tid_text ` set dels = {l. (\<exists>n. g_targets ?g (TargetId l) = Some n \<and> tn_kind n \<noteq> KTest) \<and>
      (\<exists>t \<in> set ts. l = target_label package (at_name t) \<and> reads t f)}"
    using spec by (simp add: mem reaches_file conj_commute)
  then show ?targets
    using imp by (auto simp: wired_kind [where P = "\<lambda>k. k \<noteq> KTest"] test)
qed

text \<open>The impact of editing files of a package is the targets and tests one of whose actions reads one of the files
  itself: an edit does not reach a target through a generated file or through its \<open>deps\<close>.\<close>

theorem affected_direct:
  assumes "analyze build_src = Inr ts" "affected hash analyze build_src package files = Inr r"
  shows "af_label ` set (af_tests r) =
           {target_label package (at_name t) | t. t \<in> set ts \<and> ends_with (at_name t) ''_test'' \<and> (\<exists>f \<in> set files. reads t f)} \<and>
         af_label ` set (af_targets r) =
           {target_label package (at_name t) | t. t \<in> set ts \<and> \<not> ends_with (at_name t) ''_test'' \<and> (\<exists>f \<in> set files. reads t f)}"
proof -
  let ?g = "wire_to_ir hash package ts"
  let ?r = "fold (impact_step ?g package) files ([], [])"
  have r: "af_tests r = map (to_ref ?g) (fst ?r)" "af_targets r = map (to_ref ?g) (snd ?r)"
    using assms by (auto simp: affected_def Let_def split: prod.splits)
  have label: "af_label \<circ> to_ref ?g = tid_text" by (auto simp: to_ref_def)
  have "af_label ` set (af_tests r) = (\<Union>f \<in> set files. tid_text ` set (fst (impacted_targets ?g (FileId (file_name package f)))))"
    by (simp add: r(1) image_image [symmetric] image_comp label impact_fold image_UN)
  moreover have "af_label ` set (af_targets r) = (\<Union>f \<in> set files. tid_text ` set (snd (impacted_targets ?g (FileId (file_name package f)))))"
    by (simp add: r(2) image_comp label impact_fold image_UN)
  ultimately show ?thesis unfolding impacted_direct by auto
qed

text \<open>Two targets, the second reads what the first makes: an edit of the source reaches the first only.\<close>

definition demo_chain :: "analyzed_target list" where
  "demo_chain =
     [\<lparr>at_name = ''lib'', at_deps = [], at_actions = [\<lparr>mnemonic = ''C'', aa_argv = [], aa_inputs = [''a.c''],
        aa_outputs = [''a.o''], description = []\<rparr>], default_info = [''a.o''], at_providers = []\<rparr>,
      \<lparr>at_name = ''a_test'', at_deps = [''lib''], at_actions = [\<lparr>mnemonic = ''L'', aa_argv = [], aa_inputs = [''a.o''],
        aa_outputs = [''t''], description = []\<rparr>], default_info = [''t''], at_providers = []\<rparr>]"

theorem affected_direct_witness:
  "\<exists>r. affected (\<lambda>bs. bs) (\<lambda>_. Inr demo_chain) [] ''p'' [''a.c''] = Inr r \<and>
     af_label ` set (af_tests r) = {} \<and> af_label ` set (af_targets r) = {''//p:lib''}"
proof -
  obtain r where r: "affected (\<lambda>bs. bs) (\<lambda>_. Inr demo_chain) [] ''p'' [''a.c''] = Inr r"
    by (simp add: affected_def Let_def split_beta)
  have tests: "{target_label ''p'' (at_name t) | t. t \<in> set demo_chain \<and> ends_with (at_name t) ''_test'' \<and> (\<exists>f \<in> set [''a.c'']. reads t f)} = {}"
    by (auto simp: demo_chain_def reads_def ends_with_def starts_with_def)
  have h: "hd demo_chain \<in> set demo_chain \<and> \<not> ends_with (at_name (hd demo_chain)) ''_test'' \<and>
      (\<exists>f \<in> set [''a.c'']. reads (hd demo_chain) f) \<and> target_label ''p'' (at_name (hd demo_chain)) = ''//p:lib''"
    by (simp add: demo_chain_def reads_def ends_with_def starts_with_def target_label_def)
  have sub: "{target_label ''p'' (at_name t) | t. t \<in> set demo_chain \<and> \<not> ends_with (at_name t) ''_test'' \<and> (\<exists>f \<in> set [''a.c'']. reads t f)}
       \<subseteq> {''//p:lib''}"
    by (auto simp: demo_chain_def reads_def target_label_def)
  have dels: "{target_label ''p'' (at_name t) | t. t \<in> set demo_chain \<and> \<not> ends_with (at_name t) ''_test'' \<and> (\<exists>f \<in> set [''a.c'']. reads t f)}
       = {''//p:lib''}"
  proof (rule subset_antisym [OF sub])
    show "{''//p:lib''} \<subseteq> {target_label ''p'' (at_name t) | t. t \<in> set demo_chain \<and> \<not> ends_with (at_name t) ''_test'' \<and>
        (\<exists>f \<in> set [''a.c'']. reads t f)}"
      unfolding insert_subset mem_Collect_eq using h by (intro conjI exI [of _ "hd demo_chain"] empty_subsetI) simp_all
  qed
  show ?thesis
    using r affected_direct [where analyze = "\<lambda>_. Inr demo_chain", OF refl r, unfolded tests dels] by (intro exI [of _ r] conjI) simp_all
qed

end
