(* ===== verification/Wrapper.thy ===== *)
theory Wrapper
  imports Std_Text Std_Coll
begin

section \<open>razel-process-wrapper\<close>

text \<open>
  \<^verbatim>\<open>crates/razel-process-wrapper/src\<close>: the runner of build scripts (\<^verbatim>\<open>bs_runner.rs\<close>) writes a flags file
  (\<^verbatim>\<open>flags.rs\<close>) that the runner of rustc (\<^verbatim>\<open>rustc.rs\<close>) reads; both assemble the environment with \<^verbatim>\<open>env.rs\<close>.
  The JSON of one record is the library's: \<open>to_json\<close> and \<open>from_json\<close> are parameters.  The files a process
  reads are a map from paths to texts, the child process is a function of what it is started with.
\<close>

subsection \<open>The flags file\<close>

record flags_record =
  fr_kind :: string
  fr_args :: "string list"

datatype rerun = RerunChanged string | RerunEnvChanged string

record script_parse =
  sp_flags :: "flags_record list"
  sp_dep_metadata :: "(string \<times> string) list"
  sp_warnings :: "string list"
  sp_error :: "string option"
  sp_rerun :: "rerun list"
  sp_deviations :: "string list"

definition script_parse_default :: script_parse where
  "script_parse_default =
     \<lparr>sp_flags = [], sp_dep_metadata = [], sp_warnings = [], sp_error = None, sp_rerun = [], sp_deviations = []\<rparr>"

definition single_arg_flags :: "string list" where
  "single_arg_flags =
     [''rustc-cfg'', ''rustc-env'', ''rustc-link-lib'', ''rustc-link-search'', ''rustc-link-arg'', ''rustc-cdylib-link-arg'']"

definition malformed_text :: "string \<Rightarrow> string" where
  "malformed_text body =
     ''cargo::'' @ body @ '' '' @ [CHR 0xE2, CHR 0x80, CHR 0x94] @
     '' malformed build-script directive (no `=`; recorded, not applied)''"

definition unrecognized_text :: "string \<Rightarrow> string" where
  "unrecognized_text key =
     ''cargo::'' @ key @ '' '' @ [CHR 0xE2, CHR 0x80, CHR 0x94] @
     '' unrecognized build-script directive (recorded, not applied)''"

text \<open>The directive of a line: whether it has two colons, and what follows.\<close>

definition directive :: "string \<Rightarrow> (bool \<times> string) option" where
  "directive raw =
     (let line = str_trim_end raw
      in case strip_prefix line ''cargo::'' of
           Some b \<Rightarrow> Some (True, b)
         | None \<Rightarrow> map_option (\<lambda>b. (False, b)) (strip_prefix line ''cargo:''))"

definition apply_directive :: "bool \<Rightarrow> string \<Rightarrow> string \<Rightarrow> script_parse \<Rightarrow> script_parse" where
  "apply_directive double key value out =
     (if key \<in> set single_arg_flags then out\<lparr>sp_flags := sp_flags out @ [\<lparr>fr_kind = key, fr_args = [value]\<rparr>]\<rparr>
      else if key = ''rustc-flags'' then
        out\<lparr>sp_flags := sp_flags out @ [\<lparr>fr_kind = key, fr_args = split_whitespace value\<rparr>]\<rparr>
      else if key = ''warning'' then out\<lparr>sp_warnings := sp_warnings out @ [value]\<rparr>
      else if key = ''error'' then
        out\<lparr>sp_error := (case sp_error out of None \<Rightarrow> Some value | Some e \<Rightarrow> Some e)\<rparr>
      else if key = ''rerun-if-changed'' then out\<lparr>sp_rerun := sp_rerun out @ [RerunChanged value]\<rparr>
      else if key = ''rerun-if-env-changed'' then out\<lparr>sp_rerun := sp_rerun out @ [RerunEnvChanged value]\<rparr>
      else if key = ''metadata'' then
        (case split_once value (CHR ''='') of
           Some kv \<Rightarrow> out\<lparr>sp_dep_metadata := sp_dep_metadata out @ [kv]\<rparr>
         | None \<Rightarrow> out)
      else if double then out\<lparr>sp_deviations := sp_deviations out @ [unrecognized_text key]\<rparr>
      else out\<lparr>sp_dep_metadata := sp_dep_metadata out @ [(key, value)]\<rparr>)"

definition parse_line :: "string \<Rightarrow> script_parse \<Rightarrow> script_parse" where
  "parse_line raw out =
     (case directive raw of
        None \<Rightarrow> out
      | Some (double, body) \<Rightarrow>
          (case split_once body (CHR ''='') of
             None \<Rightarrow> if double then out\<lparr>sp_deviations := sp_deviations out @ [malformed_text body]\<rparr> else out
           | Some (key, value) \<Rightarrow> apply_directive double key value out))"

definition parse_build_script_output :: "string \<Rightarrow> script_parse" where
  "parse_build_script_output stdout = fold parse_line (str_lines stdout) script_parse_default"

definition flags_file_jsonl :: "(flags_record \<Rightarrow> string) \<Rightarrow> flags_record list \<Rightarrow> string" where
  "flags_file_jsonl to_json flags = concat (map (\<lambda>r. to_json r @ [CHR 0x0A]) flags)"

definition metadata_records :: "(string \<times> string) list \<Rightarrow> flags_record list" where
  "metadata_records dm = map (\<lambda>(k, v). \<lparr>fr_kind = ''metadata'', fr_args = [k, v]\<rparr>) dm"

definition flags_line_text :: "nat \<Rightarrow> string \<Rightarrow> string" where
  "flags_line_text n e = ''flags file line '' @ dec n @ '': '' @ e"

fun read_flags_lines :: "(string \<Rightarrow> string + flags_record) \<Rightarrow> nat \<Rightarrow> string list \<Rightarrow> string + flags_record list" where
  "read_flags_lines from_json n [] = Inr []"
| "read_flags_lines from_json n (l # ls) =
     (if str_trim l = [] then read_flags_lines from_json (Suc n) ls
      else (case from_json l of
              Inl e \<Rightarrow> Inl (flags_line_text (Suc n) e)
            | Inr r \<Rightarrow> map_sum id (Cons r) (read_flags_lines from_json (Suc n) ls)))"

definition read_flags_jsonl :: "(string \<Rightarrow> string + flags_record) \<Rightarrow> string \<Rightarrow> string + flags_record list" where
  "read_flags_jsonl from_json text = read_flags_lines from_json 0 (str_lines text)"

text \<open>The upper-case form of a name: a letter in upper case, a digit, and an underscore for every other
  character; the bytes of a character that continue it are dropped.\<close>

definition env_name :: "string \<Rightarrow> string" where
  "env_name s =
     map (\<lambda>c. let u = to_upper c in if is_alnum u then u else CHR ''_'')
       (filter (\<lambda>c. \<not> (128 \<le> (of_char c :: nat) \<and> of_char c < (192 :: nat))) s)"

definition dep_env_vars :: "(string \<Rightarrow> string + flags_record) \<Rightarrow> string \<Rightarrow> string \<Rightarrow> (string \<times> string) list" where
  "dep_env_vars from_json links text =
     (let rs = (case read_flags_jsonl from_json text of Inl e \<Rightarrow> [] | Inr rs \<Rightarrow> rs)
      in map (\<lambda>r. (''DEP_'' @ env_name links @ ''_'' @ env_name (fr_args r ! 0), fr_args r ! 1))
           (filter (\<lambda>r. fr_kind r = ''metadata'' \<and> length (fr_args r) = 2) rs))"

subsection \<open>The environment\<close>

type_synonym env_map = "(string, string) bmap"

type_synonym file_texts = "string \<Rightarrow> (string + string) option"

text \<open>What reading a file answers: \<open>None\<close> when it is missing, \<open>Inl\<close> when it cannot be read.\<close>

definition not_found_text :: string where
  "not_found_text = ''No such file or directory (os error 2)''"

definition read_text :: "file_texts \<Rightarrow> string \<Rightarrow> string + string" where
  "read_text files path = (case files path of None \<Rightarrow> Inl not_found_text | Some r \<Rightarrow> r)"

definition env_line :: "string \<Rightarrow> env_map \<Rightarrow> env_map" where
  "env_line raw out =
     (let line = str_trim raw
      in if line = [] \<or> starts_with line ''#'' then out
         else (case split_once line (CHR ''='') of
                 Some (k, v) \<Rightarrow> bm_insert (str_trim k) v out
               | None \<Rightarrow> out))"

fun env_files_into :: "file_texts \<Rightarrow> string list \<Rightarrow> env_map \<Rightarrow> string + env_map" where
  "env_files_into files [] out = Inr out"
| "env_files_into files (f # fs) out =
     (case read_text files f of
        Inl e \<Rightarrow> Inl e
      | Inr text \<Rightarrow> env_files_into files fs (fold env_line (str_lines text) out))"

definition insert_pairs :: "(string \<times> string) list \<Rightarrow> env_map \<Rightarrow> env_map" where
  "insert_pairs kvs out = fold (\<lambda>(k, v). bm_insert k v) kvs out"

definition base_env :: "file_texts \<Rightarrow> env_map \<Rightarrow> string list \<Rightarrow> (string \<times> string) list \<Rightarrow> string + env_map" where
  "base_env files baseline env_files env = map_sum id (insert_pairs env) (env_files_into files env_files baseline)"

subsection \<open>The rustc subcommand\<close>

record rustc_opts =
  ro_rustc :: string
  ro_flags_file :: "string option"
  ro_link_flags_files :: "string list"
  ro_env_files :: "string list"
  ro_env :: "(string \<times> string) list"
  ro_rustc_args :: "string list"

definition rustc_opts_default :: rustc_opts where
  "rustc_opts_default =
     \<lparr>ro_rustc = [], ro_flags_file = None, ro_link_flags_files = [], ro_env_files = [], ro_env = [], ro_rustc_args = []\<rparr>"

definition rustc_flag_text :: "string \<Rightarrow> string" where
  "rustc_flag_text a = ''rustc: expected --flag=value, got `'' @ a @ ''`''"

definition rustc_env_text :: "string \<Rightarrow> string" where
  "rustc_env_text v = ''rustc: --env expects K=V, got `'' @ v @ ''`''"

definition rustc_unknown_text :: "string \<Rightarrow> string" where
  "rustc_unknown_text f = ''rustc: unknown flag `'' @ f @ ''`''"

definition rustc_required_text :: string where
  "rustc_required_text = ''rustc: --rustc=<path> is required''"

definition rustc_separator_text :: string where
  "rustc_separator_text = ''rustc: missing `--` separator before the rustc args''"

definition set_rustc_opt :: "string \<Rightarrow> string \<Rightarrow> rustc_opts \<Rightarrow> string + rustc_opts" where
  "set_rustc_opt flag val opts =
     (if flag = ''--rustc'' then Inr (opts\<lparr>ro_rustc := val\<rparr>)
      else if flag = ''--flags-file'' then Inr (opts\<lparr>ro_flags_file := Some val\<rparr>)
      else if flag = ''--link-flags-file'' then Inr (opts\<lparr>ro_link_flags_files := ro_link_flags_files opts @ [val]\<rparr>)
      else if flag = ''--env-file'' then Inr (opts\<lparr>ro_env_files := ro_env_files opts @ [val]\<rparr>)
      else if flag = ''--env'' then
        (case split_once val (CHR ''='') of
           None \<Rightarrow> Inl (rustc_env_text val)
         | Some kv \<Rightarrow> Inr (opts\<lparr>ro_env := ro_env opts @ [kv]\<rparr>))
      else Inl (rustc_unknown_text flag))"

fun rustc_opts_from :: "string list \<Rightarrow> rustc_opts \<Rightarrow> string + rustc_opts" where
  "rustc_opts_from [] opts = Inl rustc_separator_text"
| "rustc_opts_from (a # rest) opts =
     (if a = ''--'' then
        (if ro_rustc opts = [] then Inl rustc_required_text else Inr (opts\<lparr>ro_rustc_args := rest\<rparr>))
      else
        (case split_once a (CHR ''='') of
           None \<Rightarrow> Inl (rustc_flag_text a)
         | Some (flag, val) \<Rightarrow> res_bind (set_rustc_opt flag val opts) (rustc_opts_from rest)))"

text \<open>The arguments and the environment of one record; \<open>link_flag\<close> keeps what a consumer's link inherits.\<close>

definition pair_args :: "string \<Rightarrow> string list \<Rightarrow> string list" where
  "pair_args flag xs = concat (map (\<lambda>a. [flag, a]) xs)"

definition link_args :: "string list \<Rightarrow> string list" where
  "link_args xs = concat (map (\<lambda>a. [''-C'', ''link-arg='' @ a]) xs)"

definition apply_flag ::
    "flags_record \<Rightarrow> string list \<times> (string \<times> string) list \<Rightarrow> string list \<times> (string \<times> string) list" where
  "apply_flag f acc =
     (let (args, env) = acc; k = fr_kind f
      in if k = ''rustc-cfg'' then (args @ pair_args ''--cfg'' (fr_args f), env)
         else if k = ''rustc-link-lib'' then (args @ pair_args ''-l'' (fr_args f), env)
         else if k = ''rustc-link-search'' then (args @ pair_args ''-L'' (fr_args f), env)
         else if k = ''rustc-link-arg'' \<or> k = ''rustc-cdylib-link-arg'' then (args @ link_args (fr_args f), env)
         else if k = ''rustc-flags'' then (args @ fr_args f, env)
         else if k = ''rustc-env'' then
           (args, env @ concat (map (\<lambda>a. case split_once a (CHR ''='') of Some kv \<Rightarrow> [kv] | None \<Rightarrow> []) (fr_args f)))
         else (args, env))"

definition apply_flags :: "flags_record list \<Rightarrow> string list \<times> (string \<times> string) list" where
  "apply_flags flags = fold apply_flag flags ([], [])"

definition link_flag :: "flags_record \<Rightarrow> string list \<Rightarrow> string list" where
  "link_flag f args =
     (let k = fr_kind f
      in if k = ''rustc-link-lib'' then args @ pair_args ''-l'' (fr_args f)
         else if k = ''rustc-link-search'' then args @ pair_args ''-L'' (fr_args f)
         else if k = ''rustc-link-arg'' \<or> k = ''rustc-cdylib-link-arg'' then args @ link_args (fr_args f)
         else args)"

definition link_args_only :: "flags_record list \<Rightarrow> string list" where
  "link_args_only flags = fold link_flag flags []"

text \<open>What a wrapper process sees of the world: the files, its directory, its \<open>PATH\<close>.\<close>

record wrapper_world =
  ww_files :: file_texts
  ww_cwd :: string
  ww_path :: "string option"

definition absify :: "string \<Rightarrow> string \<Rightarrow> string" where
  "absify base p =
     (if starts_with p ''/'' then p else if ends_with base ''/'' then base @ p else base @ ''/'' @ p)"

definition read_records :: "(string \<Rightarrow> string + flags_record) \<Rightarrow> file_texts \<Rightarrow> string \<Rightarrow> string + flags_record list" where
  "read_records from_json files p =
     (if files p = None then Inr [] else res_bind (read_text files p) (read_flags_jsonl from_json))"

fun read_link_args :: "(string \<Rightarrow> string + flags_record) \<Rightarrow> file_texts \<Rightarrow> string list \<Rightarrow> string + string list" where
  "read_link_args from_json files [] = Inr []"
| "read_link_args from_json files (p # ps) =
     res_bind (read_records from_json files p) (\<lambda>rs.
     res_bind (read_link_args from_json files ps) (\<lambda>rest. Inr (link_args_only rs @ rest)))"

definition absolutize :: "string \<Rightarrow> string \<Rightarrow> env_map \<Rightarrow> env_map" where
  "absolutize cwd key env =
     (case bm_get env key of
        Some v \<Rightarrow> if starts_with v ''/'' then env else bm_insert key (absify cwd v) env
      | None \<Rightarrow> env)"

text \<open>The command line and the environment that rustc is started with.\<close>

definition rustc_command ::
    "(string \<Rightarrow> string + flags_record) \<Rightarrow> wrapper_world \<Rightarrow> rustc_opts \<Rightarrow> string + string list \<times> env_map" where
  "rustc_command from_json w opts =
     res_bind (case ro_flags_file opts of None \<Rightarrow> Inr [] | Some p \<Rightarrow> read_records from_json (ww_files w) p) (\<lambda>records.
     let (extra, rustc_env) = apply_flags records
     in res_bind (read_link_args from_json (ww_files w) (ro_link_flags_files opts)) (\<lambda>links.
        res_bind (base_env (ww_files w) [] (ro_env_files opts) rustc_env) (\<lambda>env0.
        let env1 = insert_pairs (ro_env opts) env0;
            env2 = absolutize (ww_cwd w) ''CARGO_MANIFEST_DIR'' (absolutize (ww_cwd w) ''OUT_DIR'' env1);
            env3 = (if bm_get env2 ''PATH'' = None
                    then (case ww_path w of Some p \<Rightarrow> bm_insert ''PATH'' p env2 | None \<Rightarrow> env2)
                    else env2)
        in Inr (ro_rustc_args opts @ extra @ links, env3))))"

type_synonym child = "string \<Rightarrow> string list \<Rightarrow> env_map \<Rightarrow> string + int option"

definition run_rustc ::
    "(string \<Rightarrow> string + flags_record) \<Rightarrow> child \<Rightarrow> wrapper_world \<Rightarrow> rustc_opts \<Rightarrow> string + int" where
  "run_rustc from_json child w opts =
     res_bind (rustc_command from_json w opts) (\<lambda>(args, env).
     res_bind (child (ro_rustc opts) args env) (\<lambda>code. Inr (case code of Some c \<Rightarrow> c | None \<Rightarrow> - 1)))"

subsection \<open>The build-script subcommand\<close>

record run_opts =
  bo_flags_out :: string
  bo_out_dir :: string
  bo_rundir :: "string option"
  bo_env :: "(string \<times> string) list"
  bo_env_files :: "string list"
  bo_dep_metadata_files :: "(string \<times> string) list"
  bo_program :: string
  bo_args :: "string list"

definition run_opts_default :: run_opts where
  "run_opts_default =
     \<lparr>bo_flags_out = [], bo_out_dir = [], bo_rundir = None, bo_env = [], bo_env_files = [], bo_dep_metadata_files = [],
      bo_program = [], bo_args = []\<rparr>"

definition needs_value_text :: "string \<Rightarrow> string" where
  "needs_value_text a = a @ '' needs a value''"

definition missing_program_text :: string where
  "missing_program_text = ''missing program after `--`''"

definition script_env_text :: "string \<Rightarrow> string" where
  "script_env_text kv = ''--env expects KEY=VALUE, got `'' @ kv @ ''`''"

definition script_dep_text :: "string \<Rightarrow> string" where
  "script_dep_text v = ''--dep-metadata expects LINKS=FILE, got `'' @ v @ ''`''"

definition script_unknown_text :: "string \<Rightarrow> string" where
  "script_unknown_text a = ''unknown build-script flag `'' @ a @ ''`''"

definition script_separator_text :: string where
  "script_separator_text = ''missing `--` separator before the build-script program''"

text \<open>A flag that takes the next argument as its value.\<close>

definition set_run_opt :: "string \<Rightarrow> string \<Rightarrow> run_opts \<Rightarrow> string + run_opts" where
  "set_run_opt flag val opts =
     (if flag = ''--flags-out'' then Inr (opts\<lparr>bo_flags_out := val\<rparr>)
      else if flag = ''--out-dir'' then Inr (opts\<lparr>bo_out_dir := val\<rparr>)
      else if flag = ''--rundir'' then Inr (opts\<lparr>bo_rundir := Some val\<rparr>)
      else if flag = ''--env'' then
        (case split_once val (CHR ''='') of
           None \<Rightarrow> Inl (script_env_text val)
         | Some kv \<Rightarrow> Inr (opts\<lparr>bo_env := bo_env opts @ [kv]\<rparr>))
      else if flag = ''--env-file'' then Inr (opts\<lparr>bo_env_files := bo_env_files opts @ [val]\<rparr>)
      else
        (case split_once val (CHR ''='') of
           None \<Rightarrow> Inl (script_dep_text val)
         | Some kv \<Rightarrow> Inr (opts\<lparr>bo_dep_metadata_files := bo_dep_metadata_files opts @ [kv]\<rparr>)))"

definition value_flags :: "string list" where
  "value_flags = [''--flags-out'', ''--out-dir'', ''--rundir'', ''--env'', ''--env-file'', ''--dep-metadata'']"

fun run_opts_from :: "string list \<Rightarrow> run_opts \<Rightarrow> string + run_opts" where
  "run_opts_from [] opts = Inl script_separator_text"
| "run_opts_from [a] opts =
     (if a = ''--'' then Inl missing_program_text
      else if a \<in> set value_flags then Inl (needs_value_text a)
      else Inl (script_unknown_text a))"
| "run_opts_from (a # b # rest) opts =
     (if a = ''--'' then Inr (opts\<lparr>bo_program := b, bo_args := rest\<rparr>)
      else if a \<in> set value_flags then res_bind (set_run_opt a b opts) (run_opts_from rest)
      else Inl (script_unknown_text a))"

definition assemble_child_env ::
    "file_texts \<Rightarrow> string \<Rightarrow> string list \<Rightarrow> (string \<times> string) list \<Rightarrow> env_map \<Rightarrow> string + env_map" where
  "assemble_child_env files out_dir env_files env baseline =
     map_sum id (bm_insert ''OUT_DIR'' out_dir) (base_env files baseline env_files env)"

record processed =
  ps_flags_jsonl :: string
  ps_warnings :: "string list"
  ps_deviations :: "string list"
  ps_error :: "string option"

definition process_script_output :: "(flags_record \<Rightarrow> string) \<Rightarrow> string \<Rightarrow> processed" where
  "process_script_output to_json stdout =
     (let parsed = parse_build_script_output stdout;
          records = sp_flags parsed @ metadata_records (sp_dep_metadata parsed)
      in \<lparr>ps_flags_jsonl = flags_file_jsonl to_json records, ps_warnings = sp_warnings parsed,
          ps_deviations = sp_deviations parsed, ps_error = sp_error parsed\<rparr>)"

definition dep_env_into ::
    "(string \<Rightarrow> string + flags_record) \<Rightarrow> wrapper_world \<Rightarrow> string \<times> string \<Rightarrow> env_map \<Rightarrow> env_map" where
  "dep_env_into from_json w lf env =
     (case read_text (ww_files w) (absify (ww_cwd w) (snd lf)) of
        Inl e \<Rightarrow> env
      | Inr text \<Rightarrow> insert_pairs (dep_env_vars from_json (fst lf) text) env)"

text \<open>How a build script is started: its program, arguments, environment, and directory when one is given.\<close>

definition script_command ::
    "(string \<Rightarrow> string + flags_record) \<Rightarrow> wrapper_world \<Rightarrow> run_opts \<Rightarrow> string + string \<times> string list \<times> env_map \<times> string option" where
  "script_command from_json w opts =
     res_bind (assemble_child_env (ww_files w) (absify (ww_cwd w) (bo_out_dir opts)) (bo_env_files opts) (bo_env opts) [])
       (\<lambda>env0.
       let env1 = fold (dep_env_into from_json w) (bo_dep_metadata_files opts) env0;
           rundir = map_option (absify (ww_cwd w)) (bo_rundir opts);
           env2 = (case rundir of Some d \<Rightarrow> bm_insert ''CARGO_MANIFEST_DIR'' d env1 | None \<Rightarrow> env1)
       in Inr (absify (ww_cwd w) (bo_program opts), bo_args opts, env2, rundir))"

record script_output =
  so_stdout :: string
  so_code :: "int option"

type_synonym script_child = "string \<times> string list \<times> env_map \<times> string option \<Rightarrow> string + script_output"

record script_run =
  sr_result :: "string + int"
  sr_messages :: "string list"
  sr_written :: "(string \<times> string) option"

text \<open>\<open>mkdir\<close> and \<open>write\<close> answer an error when the directory or the file cannot be made.\<close>

definition run_build_script ::
    "(flags_record \<Rightarrow> string) \<Rightarrow> (string \<Rightarrow> string + flags_record) \<Rightarrow> (string \<Rightarrow> string option) \<Rightarrow>
     (string \<Rightarrow> string option) \<Rightarrow> script_child \<Rightarrow> wrapper_world \<Rightarrow> run_opts \<Rightarrow> script_run" where
  "run_build_script to_json from_json mkdir write child w opts =
     (let abs_out = absify (ww_cwd w) (bo_out_dir opts)
      in case mkdir abs_out of
           Some e \<Rightarrow> \<lparr>sr_result = Inl e, sr_messages = [], sr_written = None\<rparr>
         | None \<Rightarrow>
             (case res_bind (script_command from_json w opts) child of
                Inl e \<Rightarrow> \<lparr>sr_result = Inl e, sr_messages = [], sr_written = None\<rparr>
              | Inr out \<Rightarrow>
                  (let p = process_script_output to_json (str_replace abs_out (bo_out_dir opts) (so_stdout out));
                       msgs = map (\<lambda>x. ''warning: '' @ x) (ps_warnings p) @ ps_deviations p
                   in if so_code out \<noteq> Some 0 then
                        \<lparr>sr_result = Inr (case so_code out of Some c \<Rightarrow> c | None \<Rightarrow> 1), sr_messages = msgs, sr_written = None\<rparr>
                      else
                        (case ps_error p of
                           Some err \<Rightarrow>
                             \<lparr>sr_result = Inr 1, sr_messages = msgs @ [''error: build script reported: '' @ err],
                              sr_written = None\<rparr>
                         | None \<Rightarrow>
                             (case write (bo_flags_out opts) of
                                Some e \<Rightarrow> \<lparr>sr_result = Inl e, sr_messages = msgs, sr_written = None\<rparr>
                              | None \<Rightarrow>
                                  \<lparr>sr_result = Inr 0, sr_messages = msgs,
                                   sr_written = Some (bo_flags_out opts, ps_flags_jsonl p)\<rparr>)))))"

subsection \<open>The entry\<close>

definition usage_text :: string where
  "usage_text = ''usage: <build-script|rustc> '' @ [CHR 0xE2, CHR 0x80, CHR 0xA6]"

definition unknown_subcommand_text :: "string \<Rightarrow> string" where
  "unknown_subcommand_text s = ''unknown subcommand `'' @ s @ ''` (expected `build-script` or `rustc`)''"

definition wrapper_dispatch ::
    "(run_opts \<Rightarrow> string + int) \<Rightarrow> (rustc_opts \<Rightarrow> string + int) \<Rightarrow> string list \<Rightarrow> string + int" where
  "wrapper_dispatch script rustc args =
     (case args of
        [] \<Rightarrow> Inl usage_text
      | sub # rest \<Rightarrow>
          if sub = ''build-script'' then res_bind (run_opts_from rest run_opts_default) script
          else if sub = ''rustc'' then res_bind (rustc_opts_from rest rustc_opts_default) rustc
          else Inl (unknown_subcommand_text sub))"

text \<open>The exit status of the process: a code outside a byte is 1, an error is 2.\<close>

definition exit_status :: "string + int \<Rightarrow> int" where
  "exit_status r = (case r of Inl e \<Rightarrow> 2 | Inr code \<Rightarrow> if 0 \<le> code \<and> code < 256 then code else 1)"

end
