(* ===== verification/Wrapper_Props.thy ===== *)
theory Wrapper_Props
  imports Wrapper
begin

section \<open>Properties of the process wrapper\<close>

text \<open>
  The parser of a build script's output line by line, the flags file from its writer to its reader, and
  the environment each child is given.
\<close>

subsection \<open>Parsing is line by line\<close>

definition sp_append :: "script_parse \<Rightarrow> script_parse \<Rightarrow> script_parse" where
  "sp_append a b =
     \<lparr>sp_flags = sp_flags a @ sp_flags b, sp_dep_metadata = sp_dep_metadata a @ sp_dep_metadata b,
      sp_warnings = sp_warnings a @ sp_warnings b,
      sp_error = (case sp_error a of Some e \<Rightarrow> Some e | None \<Rightarrow> sp_error b),
      sp_rerun = sp_rerun a @ sp_rerun b, sp_deviations = sp_deviations a @ sp_deviations b\<rparr>"

lemma sp_append_default: "sp_append a script_parse_default = a" "sp_append script_parse_default a = a"
  by (cases a; auto simp: sp_append_def script_parse_default_def split: option.splits)+

lemma sp_append_assoc: "sp_append (sp_append a b) c = sp_append a (sp_append b c)"
  by (simp add: sp_append_def split: option.split)

lemma apply_directive_append:
  "apply_directive d k v (sp_append a b) = sp_append a (apply_directive d k v b)"
  by (auto simp: apply_directive_def sp_append_def split: option.split)

lemma parse_line_append: "parse_line raw (sp_append a b) = sp_append a (parse_line raw b)"
proof (cases "directive raw")
  case (Some db)
  obtain d body where db: "db = (d, body)" by fastforce
  show ?thesis
  proof (cases "split_once body (CHR ''='')")
    case None
    with Some db show ?thesis by (auto simp: parse_line_def sp_append_def split: option.split)
  next
    case kv: (Some kv)
    with Some db show ?thesis by (auto simp: parse_line_def apply_directive_append split: prod.split)
  qed
qed (simp add: parse_line_def)

lemma parse_lines_append: "fold parse_line ls (sp_append a b) = sp_append a (fold parse_line ls b)"
  by (induction ls arbitrary: b) (simp_all add: parse_line_append)

lemma str_lines_append:
  assumes "s = [] \<or> last s = CHR 0x0A"
  shows "str_lines (s @ t) = str_lines s @ str_lines t"
  using assms
proof (induction "length s" arbitrary: s rule: less_induct)
  case less
  show ?case
  proof (cases "s = []")
    case False
    with less.prems have "CHR 0x0A \<in> set s" by (metis last_in_set)
    then obtain l r where s: "s = l @ CHR 0x0A # r" "CHR 0x0A \<notin> set l" by (meson split_list_first)
    have "r = [] \<or> last r = CHR 0x0A" using less.prems s(1) by (cases "r = []") auto
    then have "str_lines (r @ t) = str_lines r @ str_lines t" by (intro less.hyps) (simp_all add: s(1))
    with s(2) show ?thesis by (simp add: s(1) str_lines_step)
  qed simp
qed

text \<open>Parsing goes line by line: what two pieces of output say is what the first says followed by what the second
  says, in order and with duplicates, and of several errors the first.\<close>

theorem parse_output_append:
  assumes "s = [] \<or> last s = CHR 0x0A"
  shows "parse_build_script_output (s @ t) = sp_append (parse_build_script_output s) (parse_build_script_output t)"
proof -
  let ?a = "fold parse_line (str_lines s) script_parse_default"
  have "fold parse_line (str_lines t) ?a = sp_append ?a (fold parse_line (str_lines t) script_parse_default)"
    using parse_lines_append [of "str_lines t" ?a script_parse_default] by (simp add: sp_append_default)
  then show ?thesis by (simp add: parse_build_script_output_def str_lines_append [OF assms])
qed

subsection \<open>The flags file\<close>

text \<open>What serde_json guarantees of a record: it reads back, and its text is one line.\<close>

definition json_line :: "(flags_record \<Rightarrow> string) \<Rightarrow> (string \<Rightarrow> string + flags_record) \<Rightarrow> flags_record \<Rightarrow> bool" where
  "json_line to_json from_json r \<longleftrightarrow>
     from_json (to_json r) = Inr r \<and> plain_line (to_json r) \<and> str_trim (to_json r) \<noteq> []"

lemma read_flags_lines_json:
  "(\<And>r. r \<in> set rs \<Longrightarrow> json_line to_json from_json r) \<Longrightarrow> read_flags_lines from_json n (map to_json rs) = Inr rs"
  by (induction rs arbitrary: n) (simp_all add: json_line_def)

lemma flags_file_reads_back:
  assumes "\<And>r. r \<in> set rs \<Longrightarrow> json_line to_json from_json r"
  shows "read_flags_jsonl from_json (flags_file_jsonl to_json rs) = Inr rs"
proof -
  have "str_lines (concat (map (\<lambda>l. l @ [CHR 0x0A]) (map to_json rs))) = map to_json rs"
    by (rule str_lines_unlines) (use assms in \<open>auto simp: json_line_def\<close>)
  moreover have "flags_file_jsonl to_json rs = concat (map (\<lambda>l. l @ [CHR 0x0A]) (map to_json rs))"
    by (simp add: flags_file_jsonl_def comp_def)
  ultimately show ?thesis using read_flags_lines_json [OF assms] by (simp add: read_flags_jsonl_def)
qed

lemma apply_flag_ignores: "fr_kind f = ''metadata'' \<Longrightarrow> apply_flag f acc = acc"
  by (simp add: apply_flag_def split_beta)

lemma apply_flags_metadata: "apply_flags (fs @ metadata_records dm) = apply_flags fs"
proof -
  have "fold apply_flag (metadata_records dm) acc = acc" for acc
    by (induction dm) (auto simp: metadata_records_def apply_flag_ignores)
  then show ?thesis by (simp add: apply_flags_def)
qed

definition link_kind :: "flags_record \<Rightarrow> bool" where
  "link_kind f \<longleftrightarrow>
     fr_kind f \<in> {''rustc-link-lib'', ''rustc-link-search'', ''rustc-link-arg'', ''rustc-cdylib-link-arg''}"

text \<open>What a consumer's link inherits is what the crate itself would be given for its link directives alone: neither
  a \<open>cfg\<close> nor an environment variable of a dependency leaks.\<close>

theorem link_args_only_filters:
  "apply_flags (filter link_kind fs) = (link_args_only fs, [])"
proof -
  have "fold apply_flag (filter link_kind fs) (args, env) = (fold link_flag fs args, env)" for args env
    by (induction fs arbitrary: args) (auto simp: apply_flag_def link_flag_def link_kind_def Let_def)
  then show ?thesis by (simp add: apply_flags_def link_args_only_def)
qed

subsection \<open>The environment\<close>

lemma bm_get_insert_pairs:
  "bm_get (insert_pairs kvs m) k = (case map_of (rev kvs) k of Some v \<Rightarrow> Some v | None \<Rightarrow> bm_get m k)"
proof (induction kvs arbitrary: m)
  case (Cons kv kvs)
  obtain k' v where kv: "kv = (k', v)" by fastforce
  have "insert_pairs (kv # kvs) m = insert_pairs kvs (bm_insert k' v m)" by (simp add: insert_pairs_def kv)
  with Cons.IH show ?case by (auto simp: kv map_add_def split: option.split)
qed (simp add: insert_pairs_def)

lemma insert_pairs_append: "insert_pairs (a @ b) m = insert_pairs b (insert_pairs a m)"
  by (simp add: insert_pairs_def)

text \<open>The assignments of an environment file.\<close>

definition env_line_pairs :: "string \<Rightarrow> (string \<times> string) list" where
  "env_line_pairs raw =
     (let line = str_trim raw
      in if line = [] \<or> starts_with line ''#'' then []
         else (case split_once line (CHR ''='') of Some (k, v) \<Rightarrow> [(str_trim k, v)] | None \<Rightarrow> []))"

definition env_pairs :: "string \<Rightarrow> (string \<times> string) list" where
  "env_pairs text = concat (map env_line_pairs (str_lines text))"

lemma env_lines_pairs: "fold env_line ls m = insert_pairs (concat (map env_line_pairs ls)) m"
proof (induction ls arbitrary: m)
  case (Cons l ls)
  have "env_line l m = insert_pairs (env_line_pairs l) m"
    by (auto simp: env_line_def env_line_pairs_def insert_pairs_def Let_def split: option.split)
  with Cons.IH show ?case by (simp add: insert_pairs_append)
qed (simp add: insert_pairs_def)

lemma env_files_pairs:
  "env_files_into files fs m = Inr env \<Longrightarrow>
     env = insert_pairs (concat (map (\<lambda>f. case files f of Some (Inr text) \<Rightarrow> env_pairs text | _ \<Rightarrow> []) fs)) m"
proof (induction fs arbitrary: m)
  case Nil
  then show ?case by (simp add: insert_pairs_def)
next
  case (Cons f fs)
  from Cons.prems obtain tx where t: "files f = Some (Inr tx)"
    by (auto simp: read_text_def split: option.splits sum.splits)
  with Cons.prems have "env_files_into files fs (fold env_line (str_lines tx) m) = Inr env"
    by (simp add: read_text_def)
  from Cons.IH [OF this] t show ?case
    by (simp add: env_lines_pairs env_pairs_def insert_pairs_append)
qed

lemma bm_get_absolutize: "k \<noteq> key \<Longrightarrow> bm_get (absolutize cwd key env) k = bm_get env k"
  by (simp add: absolutize_def split: option.split)

lemma option_case_id: "(case x of Some v \<Rightarrow> Some v | None \<Rightarrow> None) = x"
  by (cases x) simp_all

text \<open>C31: Default deny: a variable that rustc sees, apart from the three the wrapper completes, is the last assignment
  to it among the environment files in order, then the \<open>rustc-env\<close> records of the crate's own flags file,
  then the explicit ones; without an assignment it is not set.\<close>

theorem rustc_env_exact:
  assumes "rustc_command from_json w opts = Inr (args, env)"
    and "k \<notin> {''OUT_DIR'', ''CARGO_MANIFEST_DIR'', ''PATH''}"
  shows "\<exists>rs. (case ro_flags_file opts of None \<Rightarrow> Inr [] | Some p \<Rightarrow> read_records from_json (ww_files w) p) = Inr rs \<and>
    bm_get env k = map_of (rev (
      concat (map (\<lambda>f. case ww_files w f of Some (Inr text) \<Rightarrow> env_pairs text | _ \<Rightarrow> []) (ro_env_files opts)) @
      snd (apply_flags rs) @ ro_env opts)) k"
proof -
  obtain rs where rs: "(case ro_flags_file opts of None \<Rightarrow> Inr [] | Some p \<Rightarrow> read_records from_json (ww_files w) p) = Inr rs"
    using assms(1) unfolding rustc_command_def res_bind_Inr_iff by blast
  obtain extra renv where ap: "apply_flags rs = (extra, renv)" by fastforce
  from assms(1) obtain links env0 where
    b: "base_env (ww_files w) [] (ro_env_files opts) renv = Inr env0"
    and env: "env = (let env2 = absolutize (ww_cwd w) ''CARGO_MANIFEST_DIR'' (absolutize (ww_cwd w) ''OUT_DIR'' (insert_pairs (ro_env opts) env0))
       in if bm_get env2 ''PATH'' = None then (case ww_path w of Some p \<Rightarrow> bm_insert ''PATH'' p env2 | None \<Rightarrow> env2) else env2)"
    unfolding rustc_command_def rs by (auto simp: ap res_bind_Inr_iff Let_def)
  have k: "bm_get env k = bm_get (insert_pairs (ro_env opts) env0) k"
    unfolding env Let_def using assms(2) by (auto simp: bm_get_absolutize split: option.split)
  obtain env' where f: "env_files_into (ww_files w) (ro_env_files opts) [] = Inr env'" and e0: "env0 = insert_pairs renv env'"
    using b by (cases "env_files_into (ww_files w) (ro_env_files opts) []") (auto simp: base_env_def)
  let ?files = "concat (map (\<lambda>f. case ww_files w f of Some (Inr text) \<Rightarrow> env_pairs text | _ \<Rightarrow> []) (ro_env_files opts))"
  have "bm_get env k = bm_get (insert_pairs (?files @ renv @ ro_env opts) []) k"
    unfolding k e0 env_files_pairs [OF f] by (simp only: insert_pairs_append)
  also have "\<dots> = map_of (rev (?files @ renv @ ro_env opts)) k"
    unfolding bm_get_insert_pairs bm_get_Nil by (rule option_case_id)
  finally show ?thesis using rs ap by auto
qed

subsection \<open>From the build script to rustc\<close>

lemma build_script_written:
  assumes "sr_written (run_build_script to_json from_json mkdir write child w opts) = Some (p, tx)"
  obtains cmd out where "script_command from_json w opts = Inr cmd" "child cmd = Inr out" "so_code out = Some 0"
    "p = bo_flags_out opts"
    "ps_error (process_script_output to_json (str_replace (absify (ww_cwd w) (bo_out_dir opts)) (bo_out_dir opts) (so_stdout out))) = None"
    "tx = ps_flags_jsonl (process_script_output to_json (str_replace (absify (ww_cwd w) (bo_out_dir opts)) (bo_out_dir opts) (so_stdout out)))"
proof (cases "res_bind (script_command from_json w opts) child")
  case (Inl e)
  with assms show ?thesis by (simp add: run_build_script_def Let_def split: option.splits)
next
  case (Inr out)
  then obtain cmd where cmd: "script_command from_json w opts = Inr cmd" "child cmd = Inr out"
    by (auto simp: res_bind_Inr_iff)
  show ?thesis
    by (rule that [OF cmd]) (use assms Inr in \<open>simp_all add: run_build_script_def Let_def split: option.splits if_splits\<close>)
qed

text \<open>C19: What a build script prints arrives: the flags file of a successful run, read by rustc's wrapper, appends exactly
  the flags of the directives the script printed, in their order, and a run that printed an error writes no file.\<close>

theorem script_flags_reach_rustc:
  assumes "sr_written (run_build_script to_json from_json mkdir write child w opts) = Some (p, tx)"
    and "script_command from_json w opts = Inr cmd" "child cmd = Inr out"
    and "parsed = parse_build_script_output (str_replace (absify (ww_cwd w) (bo_out_dir opts)) (bo_out_dir opts) (so_stdout out))"
    and "\<forall>r \<in> set (sp_flags parsed @ metadata_records (sp_dep_metadata parsed)). json_line to_json from_json r"
    and "ro_flags_file ropts = Some p" "ww_files w' p = Some (Inr tx)" "ro_link_flags_files ropts = []"
    and "rustc_command from_json w' ropts = Inr (args, env)"
  shows "args = ro_rustc_args ropts @ fst (apply_flags (sp_flags parsed)) \<and> sp_error parsed = None \<and> p = bo_flags_out opts"
proof -
  let ?rs = "sp_flags parsed @ metadata_records (sp_dep_metadata parsed)"
  obtain cmd' out' where c: "script_command from_json w opts = Inr cmd'" "child cmd' = Inr out'" "p = bo_flags_out opts"
    "ps_error (process_script_output to_json (str_replace (absify (ww_cwd w) (bo_out_dir opts)) (bo_out_dir opts) (so_stdout out'))) = None"
    "tx = ps_flags_jsonl (process_script_output to_json (str_replace (absify (ww_cwd w) (bo_out_dir opts)) (bo_out_dir opts) (so_stdout out')))"
    using assms(1) by (rule build_script_written)
  have out: "out' = out" using assms(2,3) c(1,2) by simp
  have err: "sp_error parsed = None" and tx: "tx = flags_file_jsonl to_json ?rs"
    using c(4,5) unfolding out assms(4) by (simp_all add: process_script_output_def Let_def)
  have "read_flags_jsonl from_json tx = Inr ?rs" unfolding tx using assms(5) by (intro flags_file_reads_back) blast
  then have "read_records from_json (ww_files w') p = Inr ?rs"
    using assms(7) by (simp add: read_records_def read_text_def)
  then have "args = ro_rustc_args ropts @ fst (apply_flags ?rs)"
    using assms(6,8,9) by (auto simp: rustc_command_def res_bind_Inr_iff split_beta Let_def)
  with err c(3) show ?thesis by (simp add: apply_flags_metadata)
qed

subsection \<open>A build script\<close>

definition demo_record :: flags_record where
  "demo_record = \<lparr>fr_kind = ''rustc-cfg'', fr_args = [''simd'']\<rparr>"

definition demo_to_json :: "flags_record \<Rightarrow> string" where
  "demo_to_json r = ''{}''"

definition demo_from_json :: "string \<Rightarrow> string + flags_record" where
  "demo_from_json l = Inr demo_record"

definition demo_world :: wrapper_world where
  "demo_world = \<lparr>ww_files = [''f'' \<mapsto> Inr (''{}'' @ [CHR 0x0A])], ww_cwd = ''/x'', ww_path = None\<rparr>"

definition demo_script :: script_child where
  "demo_script cmd = Inr \<lparr>so_stdout = ''cargo::rustc-cfg=simd'' @ [CHR 0x0A] @ ''noise'', so_code = Some 0\<rparr>"

definition demo_opts :: run_opts where
  "demo_opts = run_opts_default\<lparr>bo_flags_out := ''f'', bo_out_dir := ''o'', bo_program := ''p''\<rparr>"

definition demo_rustc :: rustc_opts where
  "demo_rustc = rustc_opts_default\<lparr>ro_rustc := ''rustc'', ro_flags_file := Some ''f'', ro_env := [(''K'', ''1''), (''K'', ''2'')],
     ro_rustc_args := [''lib.rs'']\<rparr>"

lemma demo_written:
  "sr_written (run_build_script demo_to_json demo_from_json (\<lambda>_. None) (\<lambda>_. None) demo_script demo_world demo_opts)
     = Some (''f'', ''{}'' @ [CHR 0x0A])"
  by code_simp

lemma demo_command: "\<exists>env. rustc_command demo_from_json demo_world demo_rustc = Inr ([''lib.rs'', ''--cfg'', ''simd''], env)"
proof -
  have "map_sum id fst (rustc_command demo_from_json demo_world demo_rustc) = Inr [''lib.rs'', ''--cfg'', ''simd'']" by code_simp
  then show ?thesis
    by (cases "rustc_command demo_from_json demo_world demo_rustc") auto
qed

theorem script_flags_reach_rustc_witness:
  "\<exists>args env. rustc_command demo_from_json demo_world demo_rustc = Inr (args, env) \<and>
     args = [''lib.rs'', ''--cfg'', ''simd'']"
proof -
  let ?p = "parse_build_script_output (str_replace (absify (ww_cwd demo_world) (bo_out_dir demo_opts)) (bo_out_dir demo_opts)
    (''cargo::rustc-cfg=simd'' @ [CHR 0x0A] @ ''noise''))"
  obtain args env where rc: "rustc_command demo_from_json demo_world demo_rustc = Inr (args, env)" using demo_command by blast
  have parsed: "sp_flags ?p = [demo_record]" "sp_dep_metadata ?p = []" by code_simp+
  have cmd: "script_command demo_from_json demo_world demo_opts
      = Inr (''/x/p'', [], bm_insert ''OUT_DIR'' ''/x/o'' [], None)" by code_simp
  have js: "\<forall>r \<in> set (sp_flags ?p @ metadata_records (sp_dep_metadata ?p)). json_line demo_to_json demo_from_json r"
    unfolding parsed
    by (simp add: metadata_records_def json_line_def demo_to_json_def demo_from_json_def plain_line_def ends_with_def
        starts_with_def str_trim_def str_trim_start_def str_trim_end_def is_space_def)
  let ?out = "\<lparr>so_stdout = ''cargo::rustc-cfg=simd'' @ [CHR 0x0A] @ ''noise'', so_code = Some 0\<rparr>"
  have child: "demo_script (''/x/p'', [], bm_insert ''OUT_DIR'' ''/x/o'' [], None) = Inr ?out" by (rule demo_script_def)
  have parsed_out: "?p = parse_build_script_output
      (str_replace (absify (ww_cwd demo_world) (bo_out_dir demo_opts)) (bo_out_dir demo_opts) (so_stdout ?out))"
    by (simp only: script_output.select_convs)
  have ff: "ro_flags_file demo_rustc = Some ''f''" and lf: "ro_link_flags_files demo_rustc = []"
    by (simp_all add: demo_rustc_def rustc_opts_default_def)
  have wf: "ww_files demo_world ''f'' = Some (Inr (''{}'' @ [CHR 0x0A]))" by (simp add: demo_world_def)
  from script_flags_reach_rustc [OF demo_written cmd child parsed_out js ff wf lf rc]
  have "args = ro_rustc_args demo_rustc @ fst (apply_flags (sp_flags ?p))" by (rule conjunct1)
  also have "\<dots> = [''lib.rs'', ''--cfg'', ''simd'']" unfolding parsed by code_simp
  finally show ?thesis using rc by blast
qed

theorem rustc_env_exact_witness: "\<exists>args env. rustc_command demo_from_json demo_world demo_rustc = Inr (args, env) \<and> bm_get env ''K'' = Some ''2''"
proof -
  obtain args env where rc: "rustc_command demo_from_json demo_world demo_rustc = Inr (args, env)" using demo_command by blast
  have "''K'' \<notin> {''OUT_DIR'', ''CARGO_MANIFEST_DIR'', ''PATH''}" by simp
  from rustc_env_exact [OF rc this] have "bm_get env ''K'' = Some ''2''"
    by (auto simp: demo_rustc_def rustc_opts_default_def map_add_def split: option.splits)
  with rc show ?thesis by blast
qed

theorem parse_output_append_witness:
  "parse_build_script_output ((''cargo::error=a'' @ [CHR 0x0A]) @ ''cargo::error=b'')
     = sp_append (parse_build_script_output (''cargo::error=a'' @ [CHR 0x0A])) (parse_build_script_output ''cargo::error=b'') \<and>
   sp_error (parse_build_script_output ((''cargo::error=a'' @ [CHR 0x0A]) @ ''cargo::error=b'')) = Some ''a''"
proof -
  have "sp_error (parse_build_script_output ((''cargo::error=a'' @ [CHR 0x0A]) @ ''cargo::error=b'')) = Some ''a''" by code_simp
  with parse_output_append [of "''cargo::error=a'' @ [CHR 0x0A]" "''cargo::error=b''"] show ?thesis by simp
qed

end
