(* ===== verification/Lock.thy ===== *)
theory Lock
  imports Paths Std_Text Std_Fs
begin

section \<open>The lock of the \<open>@crates\<close> repositories\<close>

text \<open>
  \<^verbatim>\<open>crates/razel-loading/src/recorded.rs\<close> (the recorded inputs and their escapes), \<^verbatim>\<open>stale.rs\<close> (whether the
  workspace still is what the lock was made from) and \<^verbatim>\<open>lock.rs\<close> from the decoded JSON on.  The JSON reader
  and SHA-256 are libraries: \<open>decode\<close>, which yields the fields that the reader declares, and \<open>sha\<close>, the hex
  digest of the content of a file, are parameters.
\<close>

subsection \<open>Recorded inputs\<close>

datatype file_value = FvDir | FvEnoent | FvSha256 string

datatype recorded_input =
    RiFile string file_value
  | RiDirents string string
  | RiDirtree string string
  | RiEnv string "string option"
  | RiRepoMapping string string "string option"

fun unescape :: "string \<Rightarrow> string" where
  "unescape [] = []"
| "unescape [c] = [c]"
| "unescape (c # d # cs) =
     (if c = CHR 0x5C then
        (if d = CHR ''s'' then CHR '' '' # unescape cs
         else if d = CHR ''n'' then CHR 0x0A # unescape cs
         else if d = CHR ''0'' then CHR 0x00 # unescape cs
         else if d = CHR 0x5C then CHR 0x5C # unescape cs
         else CHR 0x5C # d # unescape cs)
      else c # unescape (d # cs))"

definition no_prefix_text :: "string \<Rightarrow> string" where
  "no_prefix_text line = ''recorded input has no `PREFIX:` tag: `'' @ line @ ''`''"

definition no_value_text :: "string \<Rightarrow> string" where
  "no_value_text line = ''FILE recorded input has no value: `'' @ line @ ''`''"

definition unknown_prefix_text :: "string \<Rightarrow> string \<Rightarrow> string" where
  "unknown_prefix_text tag line = ''unknown recorded-input prefix `'' @ tag @ ''` in `'' @ line @ ''`''"

definition null_value :: string where
  "null_value = [CHR 0x5C, CHR ''0'']"

definition file_value_of :: "string \<Rightarrow> file_value" where
  "file_value_of h = (if h = ''DIR'' then FvDir else if h = ''ENOENT'' then FvEnoent else FvSha256 h)"

definition recorded_of :: "string \<Rightarrow> string \<Rightarrow> string \<Rightarrow> string option \<Rightarrow> string + recorded_input" where
  "recorded_of line tag ident val =
     (if tag = ''FILE'' then
        (case val of Some h \<Rightarrow> Ok (RiFile ident (file_value_of h)) | None \<Rightarrow> Err (no_value_text line))
      else if tag = ''DIRENTS'' then Ok (RiDirents ident (case val of Some v \<Rightarrow> v | None \<Rightarrow> []))
      else if tag = ''DIRTREE'' then Ok (RiDirtree ident (case val of Some v \<Rightarrow> v | None \<Rightarrow> []))
      else if tag = ''ENV'' then Ok (RiEnv ident val)
      else if tag = ''REPO_MAPPING'' then
        (case split_once ident (CHR '','') of
           Some (source, apparent) \<Rightarrow> Ok (RiRepoMapping source apparent val)
         | None \<Rightarrow> Ok (RiRepoMapping ident [] val))
      else Err (unknown_prefix_text tag line))"

definition parse_one :: "string \<Rightarrow> string + recorded_input" where
  "parse_one line =
     (case split_once line (CHR '':'') of
        None \<Rightarrow> Err (no_prefix_text line)
      | Some (tag, rest) \<Rightarrow>
          (let (raw_id, raw_value) = (case split_once rest (CHR '' '') of Some p \<Rightarrow> p | None \<Rightarrow> (rest, []))
           in recorded_of line tag (unescape raw_id)
                (if raw_value = null_value then None else Some (unescape raw_value))))"

definition parse_recorded :: "string list \<Rightarrow> string + recorded_input list" where
  "parse_recorded lines = res_mapM parse_one lines"

subsection \<open>Staleness\<close>

text \<open>\<open>root\<close> is the tree of the workspace; a path of the lock is joined to it as it stands.\<close>

definition unreadable_text :: "string \<Rightarrow> string \<Rightarrow> string" where
  "unreadable_text rel e = ''MODULE.bazel.lock input `'' @ rel @ ''` is unreadable (stale?): '' @ e"

definition changed_text :: "string \<Rightarrow> string \<Rightarrow> string \<Rightarrow> string" where
  "changed_text rel actual expected =
     ''MODULE.bazel.lock is stale '' @ [CHR 0xE2, CHR 0x80, CHR 0x94] @ '' `'' @ rel @ ''` changed (sha256 '' @ actual @
     '' != recorded '' @ expected @ ''); regenerate the lock offline''"

definition exists_text :: "string \<Rightarrow> string" where
  "exists_text rel =
     ''MODULE.bazel.lock is stale '' @ [CHR 0xE2, CHR 0x80, CHR 0x94] @ '' `'' @ rel @
     ''` now exists (was absent); regenerate offline''"

definition not_dir_text :: "string \<Rightarrow> string" where
  "not_dir_text rel =
     ''MODULE.bazel.lock is stale '' @ [CHR 0xE2, CHR 0x80, CHR 0x94] @ '' `'' @ rel @
     ''` is no longer a directory; regenerate offline''"

text \<open>Reads and tests follow a link; a link leads from the workspace's root to a file or directory, not to another link.\<close>

definition sha256_file :: "(8 word list \<Rightarrow> string) \<Rightarrow> fs \<Rightarrow> path \<Rightarrow> string + string" where
  "sha256_file sha root p =
     (case fs_read root root p of
        Some (File b) \<Rightarrow> Ok (sha b)
      | Some _ \<Rightarrow> Err ''Is a directory (os error 21)''
      | None \<Rightarrow> Err ''No such file or directory (os error 2)'')"

definition check_file :: "(8 word list \<Rightarrow> string) \<Rightarrow> fs \<Rightarrow> string \<Rightarrow> file_value \<Rightarrow> string + unit" where
  "check_file sha root rel v =
     (case v of
        FvSha256 expected \<Rightarrow>
          (case sha256_file sha root (comps rel) of
             Inl e \<Rightarrow> Err (unreadable_text rel e)
           | Inr actual \<Rightarrow> if actual \<noteq> expected then Err (changed_text rel actual expected) else Ok ())
      | FvEnoent \<Rightarrow> if fs_read root root (comps rel) \<noteq> None then Err (exists_text rel) else Ok ()
      | FvDir \<Rightarrow>
          (case fs_read root root (comps rel) of Some (Dir es) \<Rightarrow> Ok () | _ \<Rightarrow> Err (not_dir_text rel)))"

definition check_input :: "(8 word list \<Rightarrow> string) \<Rightarrow> fs \<Rightarrow> recorded_input \<Rightarrow> string + unit" where
  "check_input sha root input =
     (case input of
        RiFile label v \<Rightarrow> (case strip_prefix label ''@@//'' of Some rel \<Rightarrow> check_file sha root rel v | None \<Rightarrow> Ok ())
      | _ \<Rightarrow> Ok ())"

fun check_stale :: "(8 word list \<Rightarrow> string) \<Rightarrow> fs \<Rightarrow> recorded_input list \<Rightarrow> string + unit" where
  "check_stale sha root [] = Ok ()"
| "check_stale sha root (i # is) = res_bind (check_input sha root i) (\<lambda>_. check_stale sha root is)"

subsection \<open>The lock file\<close>

text \<open>A JSON value: the members of an object are in the order of their names.\<close>

datatype json =
    JNull
  | JBool bool
  | JNum int
  | JStr string
  | JArr "json list"
  | JObj "(string \<times> json) list"

record repo_spec =
  repo_rule_id :: string
  attributes :: json

record lock_general =
  general_inputs :: "string list"
  repo_specs :: "(string, repo_spec) bmap"

record lock_file =
  lock_file_version :: nat
  module_extensions :: "(string, lock_general option) bmap"

definition accepted_versions :: "nat list" where
  "accepted_versions = [26]"

definition crate_ext_prefix :: string where
  "crate_ext_prefix = ''@@rules_rust+//crate_universe:extensions.bzl%crate''"

definition json_get :: "json \<Rightarrow> string \<Rightarrow> json option" where
  "json_get v k = (case v of JObj ms \<Rightarrow> map_of ms k | _ \<Rightarrow> None)"

definition json_str :: "json \<Rightarrow> string option" where
  "json_str v = (case v of JStr s \<Rightarrow> Some s | _ \<Rightarrow> None)"

definition json_u64 :: "json \<Rightarrow> nat option" where
  "json_u64 v = (case v of JNum n \<Rightarrow> if 0 \<le> n \<and> n < 2 ^ 64 then Some (nat n) else None | _ \<Rightarrow> None)"

definition invalid_json_text :: "string \<Rightarrow> string" where
  "invalid_json_text e = ''MODULE.bazel.lock is not valid JSON: '' @ e"

definition unsupported_text :: "nat \<Rightarrow> string" where
  "unsupported_text v =
     ''MODULE.bazel.lock lockFileVersion '' @ dec v @ '' is unsupported (accepted: [26]; Bazel HEAD is already 28 '' @
     [CHR 0xE2, CHR 0x80, CHR 0x94] @ '' regenerate the lock with a compatible Bazel, or extend the reader)''"

definition no_extension_text :: string where
  "no_extension_text =
     ''MODULE.bazel.lock has no `'' @ crate_ext_prefix @ ''` extension '' @ [CHR 0xE2, CHR 0x80, CHR 0x94] @
     '' is @crates configured?''"

definition unknown_rule_text :: "string \<Rightarrow> string \<Rightarrow> string" where
  "unknown_rule_text name rule = ''MODULE.bazel.lock repo `'' @ name @ ''` has unknown repoRuleId `'' @ rule @ ''`''"

definition no_root_text :: string where
  "no_root_text = ''MODULE.bazel.lock has no root `@crates` repo (the inline generated contents)''"

definition no_prefix_of_key_text :: string where
  "no_prefix_of_key_text = ''internal: cannot derive canonical repo prefix from the crate extension key''"

definition missing_contents_text :: "string \<Rightarrow> string" where
  "missing_contents_text name = ''root repo `'' @ name @ ''` is missing `attributes.contents`''"

definition content_text :: "string \<Rightarrow> string \<Rightarrow> string" where
  "content_text name f = ''root repo `'' @ name @ ''` content `'' @ f @ ''` is not a string''"

definition missing_field_text :: "string \<Rightarrow> string \<Rightarrow> string" where
  "missing_field_text name k = ''crate repo `'' @ name @ ''` is missing required `'' @ k @ ''`''"

fun root_files :: "string \<Rightarrow> (string \<times> json) list \<Rightarrow> (string, string) bmap \<Rightarrow> string + (string, string) bmap" where
  "root_files name [] out = Ok out"
| "root_files name ((f, v) # ms) out =
     (case json_str v of
        None \<Rightarrow> Err (content_text name f)
      | Some t \<Rightarrow> root_files name ms (bm_insert f t out))"

definition parse_root :: "string \<Rightarrow> json \<Rightarrow> string + (string, string) bmap" where
  "parse_root name attrs =
     (case json_get attrs ''contents'' of
        Some (JObj ms) \<Rightarrow> root_files name ms []
      | _ \<Rightarrow> Err (missing_contents_text name))"

definition req_str :: "string \<Rightarrow> json \<Rightarrow> string \<Rightarrow> string + string" where
  "req_str name attrs k =
     (case Option.bind (json_get attrs k) json_str of Some s \<Rightarrow> Ok s | None \<Rightarrow> Err (missing_field_text name k))"

definition crate_urls :: "json \<Rightarrow> string list option" where
  "crate_urls attrs =
     (case json_get attrs ''urls'' of
        Some (JArr a) \<Rightarrow> (let us = List.map_filter json_str a in if us = [] then None else Some us)
      | _ \<Rightarrow> None)"

definition parse_crate :: "string \<Rightarrow> json \<Rightarrow> string + crate_repo" where
  "parse_crate name attrs =
     (case crate_urls attrs of
        None \<Rightarrow> Err (missing_field_text name ''urls'')
      | Some us \<Rightarrow>
          res_bind (req_str name attrs ''sha256'') (\<lambda>sha.
          res_bind (req_str name attrs ''build_file_content'') (\<lambda>build.
          Ok \<lparr>urls = us, sha256 = sha,
              crate_strip_prefix = Option.bind (json_get attrs ''strip_prefix'') json_str,
              build_file_content = build,
              remote_patch_strip = map_option (\<lambda>n. n mod 2 ^ 32) (Option.bind (json_get attrs ''remote_patch_strip'') json_u64),
              archive_type = Option.bind (json_get attrs ''type'') json_str\<rparr>)))"

definition is_crate_extension :: "string \<Rightarrow> bool" where
  "is_crate_extension k \<longleftrightarrow>
     k = crate_ext_prefix \<or> (case strip_prefix k crate_ext_prefix of Some s \<Rightarrow> starts_with s ''%'' | None \<Rightarrow> False)"

text \<open>The repositories in the order of their names: the root's files so far and the crates so far.\<close>

definition is_root_spec :: "repo_spec \<Rightarrow> bool" where
  "is_root_spec spec \<longleftrightarrow> ends_with (repo_rule_id spec) ''%_generate_repo''"

definition is_archive_spec :: "repo_spec \<Rightarrow> bool" where
  "is_archive_spec spec \<longleftrightarrow> contains_str (repo_rule_id spec) ''http_archive''"

fun sort_specs ::
    "(string \<times> repo_spec) list \<Rightarrow> (string, string) bmap option \<Rightarrow> (string, crate_repo) bmap \<Rightarrow>
     string + (string, string) bmap option \<times> (string, crate_repo) bmap" where
  "sort_specs [] root cs = Ok (root, cs)"
| "sort_specs ((name, spec) # specs) root cs =
     (if is_root_spec spec then
        (if name = ''crates'' \<or> root = None
         then res_bind (parse_root name (attributes spec)) (\<lambda>files. sort_specs specs (Some files) cs)
         else sort_specs specs root cs)
      else if is_archive_spec spec then
        res_bind (parse_crate name (attributes spec)) (\<lambda>c. sort_specs specs root (bm_insert name c cs))
      else Err (unknown_rule_text name (repo_rule_id spec)))"

definition lock_of :: "lock_file \<Rightarrow> string + crate_lock" where
  "lock_of lock =
     (if lock_file_version lock \<notin> set accepted_versions then Err (unsupported_text (lock_file_version lock))
      else (case Option.bind (List.find (\<lambda>(k, _). is_crate_extension k) (module_extensions lock)) snd of
              None \<Rightarrow> Err no_extension_text
            | Some general \<Rightarrow>
                res_bind (sort_specs (repo_specs general) None []) (\<lambda>(root, cs).
                case root of
                  None \<Rightarrow> Err no_root_text
                | Some files \<Rightarrow>
                    (case crate_canonical_prefix crate_ext_prefix of
                       None \<Rightarrow> Err no_prefix_of_key_text
                     | Some p \<Rightarrow>
                         Ok \<lparr>lock_version = lock_file_version lock, root_contents = files, crates = cs,
                             recorded_inputs = general_inputs general, canonical_prefix = p\<rparr>))))"

definition parse_lock :: "(string \<Rightarrow> string + lock_file) \<Rightarrow> string \<Rightarrow> string + crate_lock" where
  "parse_lock decode tx =
     (case decode tx of Inl e \<Rightarrow> Err (invalid_json_text e) | Inr lock \<Rightarrow> lock_of lock)"

text \<open>What a build makes of the lock: a lock that cannot be read is no lock.\<close>

definition seed_crate_lock :: "(string \<Rightarrow> string + lock_file) \<Rightarrow> string option \<Rightarrow> crate_lock option \<Rightarrow> crate_lock option" where
  "seed_crate_lock decode content seeded =
     (case seeded of
        Some l \<Rightarrow> Some l
      | None \<Rightarrow>
          (case content of
             None \<Rightarrow> None
           | Some tx \<Rightarrow> (case parse_lock decode tx of Inr l \<Rightarrow> Some l | Inl e \<Rightarrow> None)))"

end
