(* ===== verification/Lock_Props.thy ===== *)
theory Lock_Props
  imports Lock
begin

section \<open>Properties of the lock\<close>

text \<open>
  The writer of the lock escapes what \<open>unescape\<close> reads, so a recorded input survives the trip; the gate lets
  a workspace through exactly when every recorded file is as it was; a lock that is accepted accounts for
  every repository it lists.
\<close>

subsection \<open>The escapes of the writer\<close>

definition escape_char :: "char \<Rightarrow> string" where
  "escape_char c =
     (if c = CHR 0x5C then [CHR 0x5C, CHR 0x5C]
      else if c = CHR '' '' then [CHR 0x5C, CHR ''s'']
      else if c = CHR 0x0A then [CHR 0x5C, CHR ''n'']
      else [c])"

definition escape :: "string \<Rightarrow> string" where
  "escape s = concat (map escape_char s)"

definition escape_opt :: "string option \<Rightarrow> string" where
  "escape_opt v = (case v of None \<Rightarrow> null_value | Some s \<Rightarrow> escape s)"

definition file_value_text :: "file_value \<Rightarrow> string" where
  "file_value_text v = (case v of FvDir \<Rightarrow> ''DIR'' | FvEnoent \<Rightarrow> ''ENOENT'' | FvSha256 h \<Rightarrow> h)"

definition line_of :: "string \<Rightarrow> string \<Rightarrow> string option \<Rightarrow> string" where
  "line_of kind ident v = kind @ '':'' @ escape ident @ '' '' @ escape_opt v"

fun render_input :: "recorded_input \<Rightarrow> string" where
  "render_input (RiFile label v) = line_of ''FILE'' label (Some (file_value_text v))"
| "render_input (RiDirents i v) = line_of ''DIRENTS'' i (Some v)"
| "render_input (RiDirtree i v) = line_of ''DIRTREE'' i (Some v)"
| "render_input (RiEnv n v) = line_of ''ENV'' n v"
| "render_input (RiRepoMapping s a c) = line_of ''REPO_MAPPING'' (s @ '','' @ a) c"

fun input_ok :: "recorded_input \<Rightarrow> bool" where
  "input_ok (RiFile label (FvSha256 h)) \<longleftrightarrow> h \<notin> {''DIR'', ''ENOENT''}"
| "input_ok (RiRepoMapping s a c) \<longleftrightarrow> CHR '','' \<notin> set s"
| "input_ok _ \<longleftrightarrow> True"

lemma escape_simps [simp]:
  "escape [] = []" "escape (c # cs) = escape_char c @ escape cs"
  by (simp_all add: escape_def)

lemma unescape_plain: "c \<noteq> CHR 0x5C \<Longrightarrow> unescape (c # cs) = c # unescape cs"
  by (cases cs) simp_all

lemma unescape_escape: "unescape (escape s) = s"
proof (induction s)
  case Nil
  show ?case by simp
next
  case (Cons c s)
  then show ?case by (simp add: escape_char_def unescape_plain)
qed

lemma escape_no_space: "CHR '' '' \<notin> set (escape s)"
  by (induction s) (simp_all add: escape_char_def)

lemma escape_not_null: "escape s \<noteq> null_value"
proof
  assume eq: "escape s = null_value"
  then have "unescape (escape s) = [CHR 0x00]" by (simp add: null_value_def)
  then have "s = [CHR 0x00]" by (simp add: unescape_escape)
  with eq show False by (simp add: escape_char_def null_value_def)
qed

lemma split_line:
  assumes "CHR '':'' \<notin> set kind"
  shows "parse_one (line_of kind ident v) = recorded_of (line_of kind ident v) kind ident v"
proof -
  have "split_once (line_of kind ident v) (CHR '':'') = Some (kind, escape ident @ CHR '' '' # escape_opt v)"
    using assms by (simp add: line_of_def)
  moreover have "split_once (escape ident @ CHR '' '' # escape_opt v) (CHR '' '') = Some (escape ident, escape_opt v)"
    by (simp add: escape_no_space)
  moreover have "(if escape_opt v = null_value then None else Some (unescape (escape_opt v))) = v"
    by (cases v) (simp_all add: escape_opt_def escape_not_null unescape_escape)
  ultimately show ?thesis by (simp add: parse_one_def unescape_escape)
qed

lemma file_value_of_text:
  "input_ok (RiFile label v) \<Longrightarrow> file_value_of (file_value_text v) = v"
  by (cases v) (simp_all add: file_value_of_def file_value_text_def)

lemma parse_render: "input_ok i \<Longrightarrow> parse_one (render_input i) = Ok i"
  by (cases i) (simp_all add: split_line recorded_of_def file_value_of_text)

lemma recorded_round_trip: "list_all input_ok is \<Longrightarrow> parse_recorded (map render_input is) = Ok is"
  unfolding parse_recorded_def by (induction "is") (simp_all add: parse_render)

subsection \<open>The gate\<close>

fun as_recorded :: "(8 word list \<Rightarrow> string) \<Rightarrow> fs option \<Rightarrow> file_value \<Rightarrow> bool" where
  "as_recorded sha (Some (File b)) (FvSha256 h) \<longleftrightarrow> sha b = h"
| "as_recorded sha None FvEnoent \<longleftrightarrow> True"
| "as_recorded sha (Some (Dir es)) FvDir \<longleftrightarrow> True"
| "as_recorded sha _ _ \<longleftrightarrow> False"

lemma check_file_ok: "check_file sha root rel v = Ok () \<longleftrightarrow> as_recorded sha (fs_read root root (comps rel)) v"
  by (cases v; cases "fs_read root root (comps rel)" rule: option.exhaust)
    (auto simp: check_file_def sha256_file_def split: fs.split)

lemma check_input_ok:
  "check_input sha root i = Ok () \<longleftrightarrow>
     (\<forall>rel v. i = RiFile (''@@//'' @ rel) v \<longrightarrow> as_recorded sha (fs_read root root (comps rel)) v)"
proof (cases i)
  case (RiFile label v)
  show ?thesis
  proof (cases "strip_prefix label ''@@//''")
    case None
    then have "label \<noteq> ''@@//'' @ rel" for rel by (metis option.distinct(1) strip_prefix_append)
    with RiFile None show ?thesis by (simp add: check_input_def)
  next
    case (Some rel)
    then have "label = ''@@//'' @ rel" by (simp only: strip_prefix_Some)
    then show ?thesis using RiFile Some by (simp add: check_input_def check_file_ok)
  qed
qed (simp_all add: check_input_def)

lemma check_stale_ok: "check_stale sha root is = Ok () \<longleftrightarrow> (\<forall>i \<in> set is. check_input sha root i = Ok ())"
  by (induction "is") (auto simp: res_bind_Inr_iff)

text \<open>The gate opens on the rendered inputs of a lock exactly when every recorded \<open>FILE\<close> of the workspace is as
  it was recorded.  Inputs of the other kinds are not looked at, directory listings and directory trees included, where the
  module's comment and the design gate on all \<open>FILE\<close> and \<open>DIR*\<close> inputs of the workspace.\<close>

theorem stale_gate_exact:
  assumes "list_all input_ok is"
  shows "res_bind (parse_recorded (map render_input is)) (check_stale sha root) = Ok () \<longleftrightarrow>
    (\<forall>rel v. RiFile (''@@//'' @ rel) v \<in> set is \<longrightarrow> as_recorded sha (fs_read root root (comps rel)) v)"
  unfolding recorded_round_trip [OF assms] res_bind_simps check_stale_ok check_input_ok by blast

text \<open>A changed listing or subtree of a directory does not close the gate.\<close>

lemma directory_listings_not_gated:
  "check_stale sha root [RiDirents i v, RiDirtree j w] = Ok ()"
  by (simp add: check_input_def)

subsection \<open>An accepted lock\<close>

lemma sort_specs_Cons:
  assumes "sort_specs ((n, s) # specs) root cs = Ok r"
  obtains (root_read) files where "is_root_spec s" "n = ''crates'' \<or> root = None" "parse_root n (attributes s) = Ok files"
      "sort_specs specs (Some files) cs = Ok r"
    | (root_kept) "is_root_spec s" "n \<noteq> ''crates''" "root \<noteq> None" "sort_specs specs root cs = Ok r"
    | (archive) c where "\<not> is_root_spec s" "is_archive_spec s" "parse_crate n (attributes s) = Ok c"
      "sort_specs specs root (bm_insert n c cs) = Ok r"
  using assms by (auto simp: res_bind_Inr_iff split: if_splits)

lemma sort_specs_kinds:
  "sort_specs specs root cs = Ok r \<Longrightarrow> (name, spec) \<in> set specs \<Longrightarrow>
   is_root_spec spec \<or> is_archive_spec spec \<and> (\<exists>c. parse_crate name (attributes spec) = Ok c)"
proof (induction specs arbitrary: root cs)
  case (Cons p specs)
  obtain n s where p: "p = (n, s)" by (cases p)
  from Cons.prems(1) [unfolded p] show ?case
    by (cases rule: sort_specs_Cons) (use Cons.IH Cons.prems(2) p in auto)
qed simp

definition crate_of :: "(string \<times> repo_spec) list \<Rightarrow> string \<Rightarrow> crate_repo option" where
  "crate_of specs name =
     (case map_of specs name of
        Some spec \<Rightarrow>
          if is_root_spec spec then None
          else (case parse_crate name (attributes spec) of Inl _ \<Rightarrow> None | Inr c \<Rightarrow> Some c)
      | None \<Rightarrow> None)"

lemma crate_of_Cons:
  "crate_of ((n, s) # specs) name =
     (if name = n then (if is_root_spec s then None
        else (case parse_crate n (attributes s) of Inl _ \<Rightarrow> None | Inr c \<Rightarrow> Some c))
      else crate_of specs name)"
  by (auto simp: crate_of_def)

lemma sort_specs_crates:
  "sort_specs specs root cs = Ok (root', cs') \<Longrightarrow> distinct (map fst specs) \<Longrightarrow>
   bm_get cs' name = (case crate_of specs name of Some c \<Rightarrow> Some c | None \<Rightarrow> bm_get cs name)"
proof (induction specs arbitrary: root cs)
  case Nil
  then show ?case by (simp add: crate_of_def)
next
  case (Cons p specs)
  obtain n s where p: "p = (n, s)" by (cases p)
  have fresh: "crate_of specs n = None" and d: "distinct (map fst specs)"
    using Cons.prems(2) p by (auto simp: crate_of_def map_of_eq_None_iff [THEN iffD2])
  from Cons.prems(1) [unfolded p] show ?case
  proof (cases rule: sort_specs_Cons)
    case (root_read files)
    from Cons.IH [OF root_read(4) d] root_read(1) fresh p show ?thesis by (auto simp: crate_of_Cons)
  next
    case root_kept
    from Cons.IH [OF root_kept(4) d] root_kept(1) fresh p show ?thesis by (auto simp: crate_of_Cons)
  next
    case (archive c)
    from Cons.IH [OF archive(4) d] archive(1,3) fresh p show ?thesis by (auto simp: crate_of_Cons split: option.split)
  qed
qed

lemma sort_specs_root_kept:
  "sort_specs specs (Some files) cs = Ok (root', cs') \<Longrightarrow> ''crates'' \<notin> fst ` set specs \<Longrightarrow> root' = Some files"
proof (induction specs arbitrary: cs)
  case (Cons p specs)
  obtain n s where p: "p = (n, s)" by (cases p)
  from Cons.prems(1) [unfolded p] show ?case
    by (cases rule: sort_specs_Cons) (use Cons.IH Cons.prems(2) p in auto)
qed simp

lemma sort_specs_root:
  "sort_specs specs root cs = Ok (root', cs') \<Longrightarrow> distinct (map fst specs) \<Longrightarrow>
   (''crates'', spec) \<in> set specs \<Longrightarrow> is_root_spec spec \<Longrightarrow>
   \<exists>files. parse_root ''crates'' (attributes spec) = Ok files \<and> root' = Some files"
proof (induction specs arbitrary: root cs)
  case (Cons p specs)
  obtain n s where p: "p = (n, s)" by (cases p)
  show ?case
  proof (cases "n = ''crates''")
    case True
    then have s: "s = spec" and no: "''crates'' \<notin> fst ` set specs"
      using Cons.prems(2,3) p by force+
    from Cons.prems(1) [unfolded p] show ?thesis
      by (cases rule: sort_specs_Cons)
        (use True s no Cons.prems(4) in \<open>auto dest: sort_specs_root_kept\<close>)
  next
    case False
    then have i: "(''crates'', spec) \<in> set specs" and d: "distinct (map fst specs)"
      using Cons.prems(2,3) p by auto
    from Cons.prems(1) [unfolded p] show ?thesis
      by (cases rule: sort_specs_Cons) (use Cons.IH d i Cons.prems(4) in blast)+
  qed
qed simp

definition crate_canon :: string where
  "crate_canon = ''rules_rust++crate+''"

lemma crate_prefix_value: "crate_canonical_prefix crate_ext_prefix = Some crate_canon"
  by code_simp

lemma canonical_both:
  assumes "defines_repo cl name" "canonical_prefix cl = p"
  shows "canonical_repo cl (p @ name) = Some (p @ name) \<and>
    (starts_with name p \<or> canonical_repo cl name = Some (p @ name))"
  using assms by (auto simp: canonical_repo_def strip_prefix_None strip_prefix_Some split: option.split)

text \<open>A lock that is accepted is of the known version, each of its repositories is a root or an archive that was
  read in full, its crates are exactly its archives, its root is \<open>crates\<close> when that is listed, and both names
  of a crate canonicalize to the same one.\<close>

theorem lock_accounts_for_all:
  assumes "lock_of lock = Ok cl"
    and "\<forall>k g. (k, Some g) \<in> set (module_extensions lock) \<longrightarrow> bm_ok (repo_specs g)"
  shows "\<exists>key g. (key, Some g) \<in> set (module_extensions lock) \<and> is_crate_extension key \<and> lock_version cl = 26 \<and>
    (\<forall>name spec. (name, spec) \<in> set (repo_specs g) \<longrightarrow> is_root_spec spec \<or> is_archive_spec spec) \<and>
    (\<forall>name. bm_get (crates cl) name = crate_of (repo_specs g) name) \<and>
    (\<forall>name spec. (name, spec) \<in> set (repo_specs g) \<and> \<not> is_root_spec spec \<longrightarrow>
       canonical_repo cl (crate_canon @ name) = Some (crate_canon @ name) \<and>
       (starts_with name crate_canon \<or> canonical_repo cl name = Some (crate_canon @ name))) \<and>
    (\<forall>spec. (''crates'', spec) \<in> set (repo_specs g) \<and> is_root_spec spec \<longrightarrow>
       parse_root ''crates'' (attributes spec) = Ok (root_contents cl))"
proof -
  from assms(1) have v: "lock_file_version lock = 26"
    by (simp add: lock_of_def accepted_versions_def split: if_splits)
  from assms(1) obtain g where
    g: "Option.bind (List.find (\<lambda>(k, _). is_crate_extension k) (module_extensions lock)) snd = Some g"
    by (auto simp: lock_of_def split: if_splits option.splits)
  then obtain key where key: "List.find (\<lambda>(k, _). is_crate_extension k) (module_extensions lock) = Some (key, Some g)"
    by (auto simp: Option.bind_eq_Some_conv)
  then have k: "(key, Some g) \<in> set (module_extensions lock)" "is_crate_extension key"
    by (auto simp: find_Some_iff in_set_conv_nth)
  from assms(1) obtain files cs where r: "sort_specs (repo_specs g) None [] = Ok (Some files, cs)"
    and cl: "cl = \<lparr>lock_version = 26, root_contents = files, crates = cs, recorded_inputs = general_inputs g,
      canonical_prefix = crate_canon\<rparr>"
    by (auto simp: lock_of_def g v crate_prefix_value accepted_versions_def res_bind_Inr_iff split: option.splits)
  have d: "distinct (map fst (repo_specs g))" using assms(2) k(1) by (blast intro: bm_ok_distinct)
  have c: "bm_get cs name = crate_of (repo_specs g) name" for name
    using sort_specs_crates [OF r d, of name] by (simp split: option.splits)
  have kinds: "is_root_spec spec \<or> is_archive_spec spec" if "(name, spec) \<in> set (repo_specs g)" for name spec
    using sort_specs_kinds [OF r that] by blast
  have defined: "defines_repo cl name"
    if mem: "(name, spec) \<in> set (repo_specs g)" and archive: "\<not> is_root_spec spec" for name spec
  proof -
    have "map_of (repo_specs g) name = Some spec" using d mem by simp
    moreover obtain x where "parse_crate name (attributes spec) = Ok x"
      using sort_specs_kinds [OF r mem] archive by blast
    ultimately show ?thesis using archive by (simp add: defines_repo_def cl c crate_of_def)
  qed
  have canon: "canonical_repo cl (crate_canon @ name) = Some (crate_canon @ name) \<and>
      (starts_with name crate_canon \<or> canonical_repo cl name = Some (crate_canon @ name))"
    if "(name, spec) \<in> set (repo_specs g)" "\<not> is_root_spec spec" for name spec
    using defined [OF that] by (rule canonical_both) (simp add: cl)
  have root: "parse_root ''crates'' (attributes spec) = Ok (root_contents cl)"
    if "(''crates'', spec) \<in> set (repo_specs g)" "is_root_spec spec" for spec
    using sort_specs_root [OF r d that] by (auto simp: cl)
  have version: "lock_version cl = 26" and crates: "\<And>name. bm_get (crates cl) name = crate_of (repo_specs g) name"
    by (simp_all add: cl c)
  show ?thesis using k version crates kinds canon root by blast
qed

subsection \<open>Concrete locks\<close>

definition demo_sha :: "8 word list \<Rightarrow> string" where
  "demo_sha b = dec (length b)"

definition demo_root :: fs where
  "demo_root = Dir [(''Cargo.lock'', File [0, 0]), (''sub'', Dir [])]"

definition demo_inputs :: "recorded_input list" where
  "demo_inputs = [RiFile ''@@//Cargo.lock'' (FvSha256 ''2''), RiFile ''@@//sub'' FvDir, RiFile ''@@//gone'' FvEnoent,
     RiEnv ''REPIN'' None]"

theorem stale_gate_exact_witness:
  "list_all input_ok demo_inputs \<and>
   (res_bind (parse_recorded (map render_input demo_inputs)) (check_stale demo_sha demo_root) = Ok () \<longleftrightarrow>
    (\<forall>rel v. RiFile (''@@//'' @ rel) v \<in> set demo_inputs \<longrightarrow> as_recorded demo_sha (fs_read demo_root demo_root (comps rel)) v)) \<and>
   res_bind (parse_recorded (map render_input demo_inputs)) (check_stale demo_sha demo_root) = Ok ()"
proof -
  have ok: "list_all input_ok demo_inputs" by code_simp
  moreover have "res_bind (parse_recorded (map render_input demo_inputs)) (check_stale demo_sha demo_root) = Ok ()"
    by code_simp
  ultimately show ?thesis using stale_gate_exact [OF ok, of demo_sha demo_root] by simp
qed

definition demo_crate_json :: json where
  "demo_crate_json = JObj [(''build_file_content'', JStr ''b''), (''sha256'', JStr ''s''), (''urls'', JArr [JNum 1, JStr ''u''])]"

definition demo_general :: lock_general where
  "demo_general = \<lparr>general_inputs = [], repo_specs =
     [(''crates'', \<lparr>repo_rule_id = ''x%_generate_repo'', attributes = JObj [(''contents'', JObj [])]\<rparr>),
      (''crates__a-1'', \<lparr>repo_rule_id = ''http_archive'', attributes = demo_crate_json\<rparr>)]\<rparr>"

definition demo_lock_file :: lock_file where
  "demo_lock_file = \<lparr>lock_file_version = 26, module_extensions = [(crate_ext_prefix, Some demo_general)]\<rparr>"


text \<open>A value outside the schema is not always an error: an entry of \<open>urls\<close> that is not a string is dropped.\<close>

definition demo_crate :: crate_repo where
  "demo_crate = \<lparr>urls = [''u''], sha256 = ''s'', crate_strip_prefix = None, build_file_content = ''b'',
     remote_patch_strip = None, archive_type = None\<rparr>"

lemma off_schema_url_dropped: "parse_crate name demo_crate_json = Ok demo_crate"
  by (simp add: parse_crate_def demo_crate_json_def crate_urls_def json_get_def json_str_def req_str_def demo_crate_def
      List.map_filter_def)

lemma demo_specs: "sort_specs (repo_specs demo_general) None [] = Ok (Some [], [(''crates__a-1'', demo_crate)])"
proof -
  have kinds: "is_root_spec \<lparr>repo_rule_id = ''x%_generate_repo'', attributes = JObj [(''contents'', JObj [])]\<rparr>"
    "\<not> is_root_spec \<lparr>repo_rule_id = ''http_archive'', attributes = demo_crate_json\<rparr>"
    "is_archive_spec \<lparr>repo_rule_id = ''http_archive'', attributes = demo_crate_json\<rparr>"
    by (simp_all add: is_root_spec_def is_archive_spec_def ends_with_def starts_with_def contains_str_def)
  show ?thesis
    by (simp add: demo_general_def kinds off_schema_url_dropped parse_root_def json_get_def)
qed

definition demo_cl :: crate_lock where
  "demo_cl = \<lparr>lock_version = 26, root_contents = [], crates = [(''crates__a-1'', demo_crate)],
     recorded_inputs = [], canonical_prefix = crate_canon\<rparr>"

lemma demo_lock: "lock_of demo_lock_file = Ok demo_cl"
proof -
  have "is_crate_extension crate_ext_prefix" "general_inputs demo_general = []"
    by (simp_all add: is_crate_extension_def demo_general_def)
  then show ?thesis
    by (simp add: lock_of_def demo_lock_file_def accepted_versions_def demo_specs crate_prefix_value demo_cl_def)
qed

theorem lock_accounts_for_all_witness: "lock_of demo_lock_file = Ok demo_cl \<and> lock_version demo_cl = 26"
proof -
  have "bm_ok (repo_specs demo_general)" by code_simp
  then have ok: "\<forall>k g. (k, Some g) \<in> set (module_extensions demo_lock_file) \<longrightarrow> bm_ok (repo_specs g)"
    by (simp add: demo_lock_file_def)
  from lock_accounts_for_all [OF demo_lock ok] have "lock_version demo_cl = 26" by blast
  with demo_lock show ?thesis by blast
qed

end
