(* ===== verification/Cc_Toolchain.thy ===== *)
theory Cc_Toolchain
  imports Constrain
begin

section \<open>razel-cc-toolchain: the toolchain configuration and the cc command lines\<close>

text \<open>
  \<^verbatim>\<open>crates/razel-cc-toolchain/src/lib.rs\<close>: the values that a Starlark configuration evaluates to are read into the
  feature configuration, and the argument vectors of the compile and archive actions are computed from it.
  The Starlark evaluator is a library; a value is what its accessors see of it.  The constructors that the
  embedded Starlark prelude defines (\<^verbatim>\<open>fixtures/cc_toolchain_config_lib.bzl\<close>) and the embedded macOS
  configuration (\<^verbatim>\<open>fixtures/cc_macos_core.bzl\<close>) are written out as values.
\<close>

subsection \<open>Reading a configuration\<close>

datatype star_value = SNone | SBool bool | SStr string | SList "star_value list" | SStruct "(string \<times> star_value) list"

definition cc_attr :: "star_value \<Rightarrow> string \<Rightarrow> star_value option" where
  "cc_attr v name = (case v of SStruct fs \<Rightarrow> map_of fs name | _ \<Rightarrow> None)"

definition unpack_str :: "star_value \<Rightarrow> string option" where
  "unpack_str v = (case v of SStr s \<Rightarrow> Some s | _ \<Rightarrow> None)"

definition opt_str :: "star_value \<Rightarrow> string \<Rightarrow> string option" where
  "opt_str v name = Option.bind (cc_attr v name) unpack_str"

definition str_field :: "star_value \<Rightarrow> string \<Rightarrow> string" where
  "str_field v name = (case opt_str v name of Some s \<Rightarrow> s | None \<Rightarrow> [])"

definition bool_field :: "star_value \<Rightarrow> string \<Rightarrow> bool" where
  "bool_field v name = (case cc_attr v name of Some (SBool b) \<Rightarrow> b | _ \<Rightarrow> False)"

definition list_field :: "star_value \<Rightarrow> string \<Rightarrow> star_value list" where
  "list_field v name = (case cc_attr v name of Some (SList vs) \<Rightarrow> vs | _ \<Rightarrow> [])"

definition str_list :: "star_value \<Rightarrow> string \<Rightarrow> string list" where
  "str_list v name = List.map_filter unpack_str (list_field v name)"

definition read_with_features :: "star_value \<Rightarrow> with_features" where
  "read_with_features w = \<lparr>wf_features = str_list w ''features'', not_features = str_list w ''not_features''\<rparr>"

text \<open>\<open>expand_if_equal\<close>: an absent attribute and \<open>None\<close> are no condition.\<close>

definition opt_equal :: "star_value \<Rightarrow> (string \<times> string) option" where
  "opt_equal v =
     (case cc_attr v ''expand_if_equal'' of
        None \<Rightarrow> None
      | Some e \<Rightarrow> if e = SNone then None else Some (str_field e ''variable'', str_field e ''value''))"

lemma list_field_size: "g \<in> set (list_field v name) \<Longrightarrow> size g < size v"
proof -
  assume g: "g \<in> set (list_field v name)"
  then obtain fs where fs: "v = SStruct fs" by (cases v) (simp_all add: list_field_def cc_attr_def)
  with g obtain vs where v: "v = SStruct fs" "map_of fs name = Some (SList vs)" "g \<in> set vs"
    by (cases "map_of fs name") (auto simp: list_field_def cc_attr_def split: star_value.splits)
  from v(2) have "(name, SList vs) \<in> set fs" by (rule map_of_SomeD)
  then have "size (SList vs) \<le> size_list (size_prod (\<lambda>_. 0) size) fs"
    by (rule size_list_estimation') simp
  moreover have "size g \<le> size_list size vs" using v(3) by (rule size_list_estimation') simp
  ultimately show "size g < size v" using v(1) by simp
qed

function read_flag_group :: "star_value \<Rightarrow> flag_group" where
  "read_flag_group v =
     FlagGroup (str_list v ''flags'') (map read_flag_group (list_field v ''flag_groups'')) (opt_str v ''iterate_over'')
       (case opt_str v ''expand_if_available'' of Some s \<Rightarrow> [s] | None \<Rightarrow> [])
       (case opt_str v ''expand_if_not_available'' of Some s \<Rightarrow> [s] | None \<Rightarrow> [])
       (opt_str v ''expand_if_true'') (opt_str v ''expand_if_false'') (opt_equal v)"
  by pat_completeness auto
termination
  by (relation "measure size") (auto dest: list_field_size)

declare read_flag_group.simps [simp del]

definition read_flag_set :: "star_value \<Rightarrow> flag_set" where
  "read_flag_set v =
     \<lparr>fs_actions = str_list v ''actions'', fs_with = map read_with_features (list_field v ''with_features''),
      fs_groups = map read_flag_group (list_field v ''flag_groups'')\<rparr>"

definition read_feature :: "star_value \<Rightarrow> feature" where
  "read_feature v =
     \<lparr>ft_name = str_field v ''name'', ft_enabled = bool_field v ''enabled'',
      flag_sets = map read_flag_set (list_field v ''flag_sets''), implies = str_list v ''implies'',
      requires = map (\<lambda>r. str_list r ''features'') (list_field v ''requires''), provides = str_list v ''provides''\<rparr>"

definition read_tool :: "star_value \<Rightarrow> cc_tool" where
  "read_tool t = \<lparr>ct_path = str_field t ''path'', ct_with = map read_with_features (list_field t ''with_features'')\<rparr>"

definition read_action_config :: "star_value \<Rightarrow> action_config" where
  "read_action_config v =
     \<lparr>action_name = str_field v ''action_name'', ac_tools = map read_tool (list_field v ''tools'')\<rparr>"

definition no_config_text :: string where
  "no_config_text = ''cc toolchain config must define a top-level `CONFIG`''"

text \<open>\<open>module\<close>: the evaluation of the source after the prelude, an error or the top-level names.\<close>

definition parse_feature_config :: "string + (string \<Rightarrow> star_value option) \<Rightarrow> string + feature_config" where
  "parse_feature_config module =
     res_bind module (\<lambda>names.
     case names ''CONFIG'' of
       None \<Rightarrow> Err no_config_text
     | Some config \<Rightarrow>
         Ok \<lparr>features = map read_feature (list_field config ''features''),
             action_configs = map read_action_config (list_field config ''action_configs'')\<rparr>)"

subsection \<open>The constructors of the prelude\<close>

definition str_values :: "string list \<Rightarrow> star_value" where
  "str_values ss = SList (map SStr ss)"

definition opt_value :: "string option \<Rightarrow> star_value" where
  "opt_value o' = (case o' of Some s \<Rightarrow> SStr s | None \<Rightarrow> SNone)"

definition with_feature_set :: "with_features \<Rightarrow> star_value" where
  "with_feature_set w =
     SStruct [(''features'', str_values (wf_features w)), (''not_features'', str_values (not_features w))]"

definition variable_with_value :: "string \<times> string \<Rightarrow> star_value" where
  "variable_with_value p = SStruct [(''variable'', SStr (fst p)), (''value'', SStr (snd p))]"

fun flag_group_value :: "flag_group \<Rightarrow> star_value" where
  "flag_group_value (FlagGroup flags groups iter avail not_avail if_true if_false equal) =
     SStruct
       [(''flags'', str_values flags), (''iterate_over'', opt_value iter),
        (''expand_if_available'', opt_value (case avail of [] \<Rightarrow> None | s # _ \<Rightarrow> Some s)),
        (''expand_if_not_available'', opt_value (case not_avail of [] \<Rightarrow> None | s # _ \<Rightarrow> Some s)),
        (''expand_if_true'', opt_value if_true), (''expand_if_false'', opt_value if_false),
        (''expand_if_equal'', case equal of Some p \<Rightarrow> variable_with_value p | None \<Rightarrow> SNone),
        (''flag_groups'', SList (map flag_group_value groups))]"

definition flag_set_value :: "flag_set \<Rightarrow> star_value" where
  "flag_set_value fs =
     SStruct [(''actions'', str_values (fs_actions fs)), (''with_features'', SList (map with_feature_set (fs_with fs))),
              (''flag_groups'', SList (map flag_group_value (fs_groups fs)))]"

definition feature_value :: "feature \<Rightarrow> star_value" where
  "feature_value f =
     SStruct
       [(''name'', SStr (ft_name f)), (''enabled'', SBool (ft_enabled f)),
        (''flag_sets'', SList (map flag_set_value (flag_sets f))), (''implies'', str_values (implies f)),
        (''requires'', SList (map (\<lambda>r. SStruct [(''features'', str_values r)]) (requires f))),
        (''provides'', str_values (provides f)), (''env_sets'', SList [])]"

definition tool_value :: "cc_tool \<Rightarrow> star_value" where
  "tool_value t =
     SStruct [(''path'', SStr (ct_path t)), (''with_features'', SList (map with_feature_set (ct_with t))),
              (''execution_requirements'', SList [])]"

definition action_config_value :: "action_config \<Rightarrow> star_value" where
  "action_config_value a =
     SStruct
       [(''action_name'', SStr (action_name a)), (''enabled'', SBool False), (''tools'', SList (map tool_value (ac_tools a))),
        (''flag_sets'', SList []), (''implies'', SList []), (''env_sets'', SList [])]"

definition config_value :: "feature_config \<Rightarrow> star_value" where
  "config_value cfg =
     SStruct [(''features'', SList (map feature_value (features cfg))),
              (''action_configs'', SList (map action_config_value (action_configs cfg)))]"

subsection \<open>The actions\<close>

record compile_inputs =
  source_file :: string
  output_file :: string
  dependency_file :: string
  quote_include_paths :: "string list"
  minimum_os_version :: string

record archive_inputs =
  output_execpath :: string
  libraries_to_link :: "string list"

definition compile_vars :: "compile_inputs \<Rightarrow> vars" where
  "compile_vars i =
     bm_of
       [(''source_file'', Scalar (source_file i)), (''output_file'', Scalar (output_file i)),
        (''dependency_file'', Scalar (dependency_file i)), (''minimum_os_version'', Scalar (minimum_os_version i)),
        (''quote_include_paths'', Sequence (quote_include_paths i))]"

definition cc_compile_argv :: "feature_config \<Rightarrow> compile_inputs \<Rightarrow> string list" where
  "cc_compile_argv config i = full_command_line config (select config []) ''c++-compile'' (compile_vars i)"

definition archive_vars :: "archive_inputs \<Rightarrow> vars" where
  "archive_vars i =
     bm_of [(''output_execpath'', Scalar (output_execpath i)), (''libraries_to_link'', Sequence (libraries_to_link i))]"

definition cc_archive_argv :: "feature_config \<Rightarrow> archive_inputs \<Rightarrow> string list" where
  "cc_archive_argv config i = full_command_line config (select config []) ''c++-link-static-library'' (archive_vars i)"

definition obj_stem :: "string \<Rightarrow> string" where
  "obj_stem src = (case rsplit_once src (CHR ''.'') of Some (base, _) \<Rightarrow> base | None \<Rightarrow> src)"

definition bin_root :: "string \<Rightarrow> string" where
  "bin_root cfg = ''bazel-out/'' @ cfg @ ''/bin''"

definition obj_base :: "string \<Rightarrow> string \<Rightarrow> string \<Rightarrow> string \<Rightarrow> string" where
  "obj_base cfg pkg target src = bin_root cfg @ ''/'' @ pkg @ ''/_objs/'' @ target @ ''/'' @ obj_stem src"

definition bazel_compile_inputs :: "string \<Rightarrow> string \<Rightarrow> string \<Rightarrow> string \<Rightarrow> string \<Rightarrow> compile_inputs" where
  "bazel_compile_inputs cfg pkg target src sdk =
     \<lparr>source_file = pkg @ ''/'' @ src, output_file = obj_base cfg pkg target src @ ''.o'',
      dependency_file = obj_base cfg pkg target src @ ''.d'', quote_include_paths = [''.'', bin_root cfg],
      minimum_os_version = sdk\<rparr>"

definition bazel_archive_inputs :: "string \<Rightarrow> string \<Rightarrow> string \<Rightarrow> string list \<Rightarrow> archive_inputs" where
  "bazel_archive_inputs cfg pkg target srcs =
     \<lparr>output_execpath = bin_root cfg @ ''/'' @ pkg @ ''/lib'' @ target @ ''.a'',
      libraries_to_link = map (\<lambda>s. obj_base cfg pkg target s @ ''.o'') srcs\<rparr>"

section \<open>Properties of the cc toolchain\<close>

text \<open>
  Reading what the constructors make gives back the configuration; the argument vectors of the embedded
  macOS configuration are computed for arbitrary inputs; the archive takes exactly what the compiles leave.
\<close>

subsection \<open>Reading back\<close>

lemma unpack_strings: "List.map_filter unpack_str (map SStr ss) = ss"
  by (induction ss) (simp_all add: unpack_str_def List.map_filter_simps)

lemma str_list_values [simp]: "cc_attr v n = Some (str_values ss) \<Longrightarrow> str_list v n = ss"
  by (simp add: str_list_def list_field_def str_values_def unpack_strings)

lemma opt_str_value: "cc_attr v n = Some (opt_value x) \<Longrightarrow> opt_str v n = x"
  by (cases x) (simp_all add: opt_str_def opt_value_def unpack_str_def)

lemma read_with_feature_set [simp]: "read_with_features (with_feature_set w) = w"
  by (simp add: read_with_features_def with_feature_set_def cc_attr_def)

lemma opt_equal_value:
  "cc_attr v ''expand_if_equal'' = Some (case e of Some p \<Rightarrow> variable_with_value p | None \<Rightarrow> SNone) \<Longrightarrow> opt_equal v = e"
  by (cases e)
    (simp_all add: opt_equal_def variable_with_value_def str_field_def opt_str_def cc_attr_def unpack_str_def)

fun group_ok :: "flag_group \<Rightarrow> bool" where
  "group_ok (FlagGroup flags groups iter avail not_avail if_true if_false equal) \<longleftrightarrow>
     length avail \<le> 1 \<and> length not_avail \<le> 1 \<and> list_all group_ok groups"

lemma at_most_one: "length xs \<le> 1 \<Longrightarrow> (case (case xs of [] \<Rightarrow> None | s # _ \<Rightarrow> Some s) of Some s \<Rightarrow> [s] | None \<Rightarrow> []) = xs"
  by (cases xs) auto

lemma read_flag_group_value: "group_ok g \<Longrightarrow> read_flag_group (flag_group_value g) = g"
proof (induction g rule: group_ok.induct)
  case (1 flags groups iter avail not_avail if_true if_false equal)
  let ?v = "flag_group_value (FlagGroup flags groups iter avail not_avail if_true if_false equal)"
  have fields:
    "cc_attr ?v ''flags'' = Some (str_values flags)" "cc_attr ?v ''iterate_over'' = Some (opt_value iter)"
    "cc_attr ?v ''expand_if_available'' = Some (opt_value (case avail of [] \<Rightarrow> None | s # _ \<Rightarrow> Some s))"
    "cc_attr ?v ''expand_if_not_available'' = Some (opt_value (case not_avail of [] \<Rightarrow> None | s # _ \<Rightarrow> Some s))"
    "cc_attr ?v ''expand_if_true'' = Some (opt_value if_true)" "cc_attr ?v ''expand_if_false'' = Some (opt_value if_false)"
    "cc_attr ?v ''expand_if_equal'' = Some (case equal of Some p \<Rightarrow> variable_with_value p | None \<Rightarrow> SNone)"
    "cc_attr ?v ''flag_groups'' = Some (SList (map flag_group_value groups))"
    by (simp_all add: cc_attr_def)
  have groups: "map read_flag_group (list_field ?v ''flag_groups'') = groups"
  proof -
    have "list_field ?v ''flag_groups'' = map flag_group_value groups" by (simp add: list_field_def cc_attr_def)
    then show ?thesis using 1 by (simp add: list_all_iff map_idI del: flag_group_value.simps)
  qed
  show ?case
    unfolding read_flag_group.simps [of ?v] groups str_list_values [OF fields(1)] opt_str_value [OF fields(2)]
      opt_str_value [OF fields(3)] opt_str_value [OF fields(4)] opt_str_value [OF fields(5)] opt_str_value [OF fields(6)]
      opt_equal_value [OF fields(7)]
    using 1(2) by (simp only: group_ok.simps at_most_one)
qed

lemma read_flag_set_value: "list_all group_ok (fs_groups fs) \<Longrightarrow> read_flag_set (flag_set_value fs) = fs"
  by (simp add: read_flag_set_def flag_set_value_def list_field_def cc_attr_def list_all_iff map_idI read_flag_group_value)

definition feature_ok :: "feature \<Rightarrow> bool" where
  "feature_ok f \<longleftrightarrow> list_all (\<lambda>fs. list_all group_ok (fs_groups fs)) (flag_sets f)"

lemma read_feature_value: "feature_ok f \<Longrightarrow> read_feature (feature_value f) = f"
  by (simp add: read_feature_def feature_value_def str_field_def opt_str_def unpack_str_def bool_field_def list_field_def
      cc_attr_def list_all_iff map_idI read_flag_set_value feature_ok_def comp_def)

lemma read_action_value: "read_action_config (action_config_value a) = a"
proof -
  have tool: "read_tool (tool_value t) = t" for t
    by (simp add: read_tool_def tool_value_def str_field_def opt_str_def unpack_str_def list_field_def cc_attr_def map_idI)
  show ?thesis
    by (simp add: read_action_config_def action_config_value_def str_field_def opt_str_def unpack_str_def list_field_def
        cc_attr_def map_idI tool)
qed

text \<open>A configuration written with the constructors of the prelude is read back as it was written, when no flag
  group waits on two variables at once.\<close>

theorem cc_config_round_trip:
  assumes "list_all feature_ok (features cfg)"
  shows "parse_feature_config (Ok [''CONFIG'' \<mapsto> config_value cfg]) = Ok cfg"
  using assms
  by (simp add: parse_feature_config_def config_value_def list_field_def cc_attr_def list_all_iff map_idI
      read_feature_value read_action_value)

subsection \<open>The macOS configuration\<close>

definition cc_plain :: "string list \<Rightarrow> flag_group" where
  "cc_plain flags = FlagGroup flags [] None [] [] None None None"

definition cc_if :: "string \<Rightarrow> string list \<Rightarrow> flag_group" where
  "cc_if v flags = FlagGroup flags [] None [v] [] None None None"

definition cc_each :: "string \<Rightarrow> string list \<Rightarrow> flag_group" where
  "cc_each v flags = FlagGroup flags [] (Some v) [] [] None None None"

definition cc_set :: "string \<Rightarrow> flag_group list \<Rightarrow> flag_set" where
  "cc_set act groups = \<lparr>fs_actions = [act], fs_with = [], fs_groups = groups\<rparr>"

definition cc_feature :: "string \<Rightarrow> flag_set list \<Rightarrow> feature" where
  "cc_feature name sets =
     \<lparr>ft_name = name, ft_enabled = True, flag_sets = sets, implies = [], requires = [], provides = []\<rparr>"

definition cc_action :: "string \<Rightarrow> string \<Rightarrow> action_config" where
  "cc_action act tool = \<lparr>action_name = act, ac_tools = [\<lparr>ct_path = tool, ct_with = []\<rparr>]\<rparr>"

definition default_flags :: "string list" where
  "default_flags =
     [''-fstack-protector'', ''-Wall'', ''-Wthread-safety'', ''-Wself-assign'', ''-Wunused-but-set-parameter'',
      ''-Wno-free-nonheap-object'', ''-fcolor-diagnostics'', ''-fno-omit-frame-pointer'']"

definition unfiltered_flags :: "string list" where
  "unfiltered_flags =
     [''-no-canonical-prefixes'', ''-Wno-builtin-macro-redefined'', ''-D__DATE__=\"redacted\"'',
      ''-D__TIMESTAMP__=\"redacted\"'', ''-D__TIME__=\"redacted\"'']"

definition link_tail :: "string list" where
  "link_tail =
     [''-no-canonical-prefixes'', ''-fobjc-link-runtime'', ''-headerpad_max_install_names'', ''-lc++'', ''-lm'']"

definition macos_features :: "feature list" where
  "macos_features =
     [cc_feature ''default_compile_flags''
        [cc_set ''c++-compile'' [cc_plain [''-U_FORTIFY_SOURCE'']], cc_set ''c++-compile'' [cc_plain default_flags],
         cc_set ''c++-compile'' [cc_plain [''-std=c++17'']]],
      cc_feature ''random_seed'' [cc_set ''c++-compile'' [cc_if ''output_file'' [''-frandom-seed=%{output_file}'']]],
      cc_feature ''macos_minimum_os''
        [cc_set ''c++-compile'' [cc_if ''minimum_os_version'' [''-mmacosx-version-min=%{minimum_os_version}'']]],
      cc_feature ''dependency_file''
        [cc_set ''c++-compile'' [cc_if ''dependency_file'' [''-MD'', ''-MF'', ''%{dependency_file}'']]],
      cc_feature ''include_paths''
        [cc_set ''c++-compile'' [cc_each ''quote_include_paths'' [''-iquote'', ''%{quote_include_paths}'']]],
      cc_feature ''compiler_input_flags'' [cc_set ''c++-compile'' [cc_plain [''-c'', ''%{source_file}'']]],
      cc_feature ''compiler_output_flags'' [cc_set ''c++-compile'' [cc_plain [''-o'', ''%{output_file}'']]],
      cc_feature ''unfiltered_compile_flags'' [cc_set ''c++-compile'' [cc_plain unfiltered_flags]],
      cc_feature ''archiver_flags''
        [cc_set ''c++-link-static-library''
           [cc_plain [''-D'', ''-no_warning_for_no_symbols'', ''-static''],
            cc_if ''output_execpath'' [''-o'', ''%{output_execpath}''],
            cc_each ''libraries_to_link'' [''%{libraries_to_link}'']]],
      cc_feature ''link_executable_flags''
        [cc_set ''c++-link-executable''
           [cc_if ''output_execpath'' [''-o'', ''%{output_execpath}''],
            cc_each ''libraries_to_link'' [''%{libraries_to_link}''],
            cc_plain [''-Wl,-S''],
            cc_if ''minimum_os_version'' [''-mmacosx-version-min=%{minimum_os_version}''],
            cc_plain link_tail]]]"

definition macos_core :: feature_config where
  "macos_core =
     \<lparr>features = macos_features,
      action_configs =
        [cc_action ''c++-compile'' ''external/<repo>/cc_wrapper.sh'',
         cc_action ''c++-link-static-library'' ''/usr/bin/libtool'',
         cc_action ''c++-link-executable'' ''external/<repo>/cc_wrapper.sh'']\<rparr>"

text \<open>The flags of each shape of group.\<close>

lemma plain_map: "list_all (\<lambda>f. CHR ''%'' \<notin> set f) flags \<Longrightarrow> map (\<lambda>f. substitute f vars) flags = flags"
  by (simp add: list_all_iff map_idI substitute_lit)

lemma expand_plain_subst: "expand_flag_group (cc_plain flags) vars = map (\<lambda>f. substitute f vars) flags"
  by (simp add: cc_plain_def gates_ok_def)

lemma expand_if:
  "expand_flag_group (cc_if v flags) vars = (if has_var vars v then map (\<lambda>f. substitute f vars) flags else [])"
  by (simp add: cc_if_def gates_ok_def)

lemma expand_each:
  "bm_get vars v = Some (Sequence items) \<Longrightarrow>
   expand_flag_group (cc_each v flags) vars =
     concat (map (\<lambda>item. map (\<lambda>f. substitute f (bm_insert v (Scalar item) vars)) flags) items)"
  by (simp add: cc_each_def gates_ok_def)

lemma substitute_whole:
  "CHR ''%'' \<notin> set l \<Longrightarrow> CHR ''}'' \<notin> set v \<Longrightarrow> bm_get vars v = Some (Scalar x) \<Longrightarrow>
   substitute (l @ ''%{'' @ v @ ''}'') vars = l @ x"
  using substitute_lit_ref [of l v "[]" vars] substitute_lit [of "[]" vars] by simp

lemma macos_names:
  "map ft_name macos_features =
     [''default_compile_flags'', ''random_seed'', ''macos_minimum_os'', ''dependency_file'', ''include_paths'',
      ''compiler_input_flags'', ''compiler_output_flags'', ''unfiltered_compile_flags'', ''archiver_flags'',
      ''link_executable_flags'']"
  by (simp add: macos_features_def cc_feature_def)

lemma macos_select: "select macos_core [] = map ft_name macos_features"
  by code_simp

lemma command_line_all:
  assumes "distinct (map ft_name (features cfg))"
  shows "command_line cfg (map ft_name (features cfg)) act vars =
    concat (map (\<lambda>f. concat (map (flag_set_flags (map ft_name (features cfg)) act vars) (flag_sets f))) (features cfg))"
proof -
  have get: "fc_get cfg (ft_name f) = Some f" if f: "f \<in> set (features cfg)" for f
  proof -
    obtain g where g: "fc_get cfg (ft_name f) = Some g"
      using f fc_get_None [of cfg "ft_name f"] by blast
    from fc_get_Some [OF g] f assms have "g = f" by (auto simp: distinct_map dest: inj_onD)
    with g show ?thesis by simp
  qed
  show ?thesis
    unfolding command_line_def map_map comp_def by (rule arg_cong [where f = concat], rule map_cong) (simp_all add: get)
qed

lemma cc_set_flags:
  "flag_set_flags enabled act vars (cc_set a groups) =
     (if act = a then concat (map (\<lambda>g. expand_flag_group g vars) groups) else [])"
  by (simp add: flag_set_flags_def cc_set_def with_features_ok_def)

lemma feature_flags: "flag_sets (cc_feature name sets) = sets"
  by (simp add: cc_feature_def)

lemma macos_distinct: "distinct (map ft_name (features macos_core))"
  by (simp add: macos_core_def macos_names)

lemma macos_line:
  "full_command_line macos_core (select macos_core []) act vars =
     (case tool_path macos_core (map ft_name macos_features) act of None \<Rightarrow> [] | Some t \<Rightarrow> [t]) @
     concat (map (\<lambda>f. concat (map (flag_set_flags (map ft_name macos_features) act vars) (flag_sets f))) macos_features)"
  using command_line_all [OF macos_distinct, of act vars]
  unfolding full_command_line_def macos_select by (simp add: macos_core_def)

lemma macos_tools:
  "tool_path macos_core enabled ''c++-compile'' = Some ''external/<repo>/cc_wrapper.sh''"
  "tool_path macos_core enabled ''c++-link-static-library'' = Some ''/usr/bin/libtool''"
  by (simp_all add: tool_path_def macos_core_def cc_action_def with_features_ok_def)

lemma compile_vars_get:
  "bm_get (compile_vars i) ''source_file'' = Some (Scalar (source_file i))"
  "bm_get (compile_vars i) ''output_file'' = Some (Scalar (output_file i))"
  "bm_get (compile_vars i) ''dependency_file'' = Some (Scalar (dependency_file i))"
  "bm_get (compile_vars i) ''minimum_os_version'' = Some (Scalar (minimum_os_version i))"
  "bm_get (compile_vars i) ''quote_include_paths'' = Some (Sequence (quote_include_paths i))"
  by (simp_all add: compile_vars_def bm_get_of)

lemma compile_has: 
  "has_var (compile_vars i) ''output_file''" "has_var (compile_vars i) ''minimum_os_version''"
  "has_var (compile_vars i) ''dependency_file''"
  by (simp_all add: has_var_def compile_vars_get)

lemma compile_templates:
  "substitute ''%{source_file}'' (compile_vars i) = source_file i"
  "substitute ''%{output_file}'' (compile_vars i) = output_file i"
  "substitute ''%{dependency_file}'' (compile_vars i) = dependency_file i"
  "substitute ''-frandom-seed=%{output_file}'' (compile_vars i) = ''-frandom-seed='' @ output_file i"
  "substitute ''-mmacosx-version-min=%{minimum_os_version}'' (compile_vars i) = ''-mmacosx-version-min='' @ minimum_os_version i"
  "substitute ''%{quote_include_paths}'' (bm_insert ''quote_include_paths'' (Scalar x) (compile_vars i)) = x"
  using substitute_whole [of "[]" "''source_file''" "compile_vars i"] substitute_whole [of "[]" "''output_file''" "compile_vars i"]
    substitute_whole [of "[]" "''dependency_file''" "compile_vars i"]
    substitute_whole [of "''-frandom-seed=''" "''output_file''" "compile_vars i"]
    substitute_whole [of "''-mmacosx-version-min=''" "''minimum_os_version''" "compile_vars i"]
    substitute_whole [of "[]" "''quote_include_paths''" "bm_insert ''quote_include_paths'' (Scalar x) (compile_vars i)"]
  by (simp_all add: compile_vars_get)

lemma plain_flags: "list_all (\<lambda>f. CHR ''%'' \<notin> set f) default_flags" "list_all (\<lambda>f. CHR ''%'' \<notin> set f) unfiltered_flags"
  by (simp_all add: default_flags_def unfiltered_flags_def)

text \<open>With the embedded configuration, a compile is the compiler wrapper with the fixed flags, the seed and the
  minimum version, the dependency file, one \<open>-iquote\<close> per include path, the source, the output and the fixed tail,
  in this order, whatever the inputs are.\<close>

theorem macos_compile_argv:
  "cc_compile_argv macos_core i =
     [''external/<repo>/cc_wrapper.sh'', ''-U_FORTIFY_SOURCE''] @ default_flags @
     [''-std=c++17'', ''-frandom-seed='' @ output_file i, ''-mmacosx-version-min='' @ minimum_os_version i,
      ''-MD'', ''-MF'', dependency_file i] @
     concat (map (\<lambda>p. [''-iquote'', p]) (quote_include_paths i)) @
     [''-c'', source_file i, ''-o'', output_file i] @ unfiltered_flags"
  unfolding cc_compile_argv_def macos_line macos_tools
  by (simp add: macos_features_def feature_flags cc_set_flags plain_map [OF plain_flags(1)] plain_map [OF plain_flags(2)]
      expand_plain_subst expand_if compile_has expand_each [OF compile_vars_get(5)] compile_templates substitute_lit
      del: expand_flag_group.simps)

lemma archive_vars_get:
  "bm_get (archive_vars i) ''output_execpath'' = Some (Scalar (output_execpath i))"
  "bm_get (archive_vars i) ''libraries_to_link'' = Some (Sequence (libraries_to_link i))"
  by (simp_all add: archive_vars_def bm_get_of)

lemma archive_templates:
  "has_var (archive_vars i) ''output_execpath''"
  "substitute ''%{output_execpath}'' (archive_vars i) = output_execpath i"
  "substitute ''%{libraries_to_link}'' (bm_insert ''libraries_to_link'' (Scalar x) (archive_vars i)) = x"
  using substitute_whole [of "[]" "''output_execpath''" "archive_vars i"]
    substitute_whole [of "[]" "''libraries_to_link''" "bm_insert ''libraries_to_link'' (Scalar x) (archive_vars i)"]
  by (simp_all add: archive_vars_get has_var_def)

lemma macos_archive_argv:
  "cc_archive_argv macos_core i =
     [''/usr/bin/libtool'', ''-D'', ''-no_warning_for_no_symbols'', ''-static'', ''-o'', output_execpath i] @
     libraries_to_link i"
  unfolding cc_archive_argv_def macos_line macos_tools
  by (simp add: macos_features_def feature_flags cc_set_flags expand_plain_subst expand_if archive_templates
      expand_each [OF archive_vars_get(2)] substitute_lit del: expand_flag_group.simps)

text \<open>The archive of a target names exactly the objects that the compiles of its sources write, in the order of the
  sources: what follows the output of the archiver's command line is, source by source, what follows the
  \<open>-o\<close> of that source's compile.\<close>

theorem archive_takes_the_objects:
  "cc_archive_argv macos_core (bazel_archive_inputs cfg pkg target srcs) =
     [''/usr/bin/libtool'', ''-D'', ''-no_warning_for_no_symbols'', ''-static'', ''-o'',
      bin_root cfg @ ''/'' @ pkg @ ''/lib'' @ target @ ''.a''] @
     map (\<lambda>src. output_file (bazel_compile_inputs cfg pkg target src sdk)) srcs \<and>
   (\<forall>src. \<exists>pre post. cc_compile_argv macos_core (bazel_compile_inputs cfg pkg target src sdk) =
     pre @ [''-c'', pkg @ ''/'' @ src, ''-o'', output_file (bazel_compile_inputs cfg pkg target src sdk)] @ post)"
proof -
  have "\<exists>pre post. cc_compile_argv macos_core i = pre @ [''-c'', source_file i, ''-o'', output_file i] @ post" for i
    unfolding macos_compile_argv append.assoc [symmetric] by blast
  from this [of "bazel_compile_inputs cfg pkg target src sdk" for src]
  have "\<forall>src. \<exists>pre post. cc_compile_argv macos_core (bazel_compile_inputs cfg pkg target src sdk) =
     pre @ [''-c'', pkg @ ''/'' @ src, ''-o'', output_file (bazel_compile_inputs cfg pkg target src sdk)] @ post"
    by (simp add: bazel_compile_inputs_def)
  then show ?thesis by (simp add: macos_archive_argv bazel_archive_inputs_def bazel_compile_inputs_def)
qed

text \<open>Sources that differ in their last extension alone are compiled to the same object.\<close>

lemma objects_collide:
  "output_file (bazel_compile_inputs cfg pkg target ''a.c'' sdk) = output_file (bazel_compile_inputs cfg pkg target ''a.cc'' sdk)"
proof -
  have "obj_stem ''a.c'' = ''a''" "obj_stem ''a.cc'' = ''a''" by (simp_all add: obj_stem_def rsplit_once_def)
  then show ?thesis by (simp add: bazel_compile_inputs_def obj_base_def)
qed

theorem cc_config_round_trip_witness:
  "list_all feature_ok (features macos_core) \<and> parse_feature_config (Ok [''CONFIG'' \<mapsto> config_value macos_core]) = Ok macos_core"
proof -
  have "list_all feature_ok (features macos_core)"
    by (simp add: macos_core_def macos_features_def cc_feature_def feature_ok_def cc_set_def cc_plain_def cc_if_def cc_each_def)
  from cc_config_round_trip [OF this] this show ?thesis by blast
qed

end
