(* ===== verification/Loader_Dds.thy ===== *)
theory Loader_Dds
  imports Incremental Dds_Props
begin

section \<open>The loader's provider registry and its fact store\<close>

text \<open>
  \<^verbatim>\<open>crates/razel-loading/src/registry.rs\<close> (which provider fields exist and how each is folded onto the
  dependents), \<^verbatim>\<open>dds.rs\<close> (analyzed targets as facts of the store of \<open>Dds\<close>), the readers of
  \<^verbatim>\<open>state/types.rs\<close>, the parts of \<^verbatim>\<open>deps.rs\<close> that record a target and read a recorded dependency, and the
  producers of \<^verbatim>\<open>crates/razel-analysis/src/producer.rs\<close>, which fill a store from declared attributes.
  An error that the code formats from a merge error is that merge error here.
\<close>

subsection \<open>The registry\<close>

datatype fold_policy = Plain | PrunedBy field_id

record dep_fold =
  projection :: string
  policy :: fold_policy

record field_spec =
  spec_kind :: field_kind
  spec_fold :: "dep_fold option"

type_synonym provider_registry = "(provider_type_id, (field_id, field_spec) bmap) bmap"

definition register_field :: "string \<Rightarrow> string \<Rightarrow> field_spec \<Rightarrow> provider_registry \<Rightarrow> provider_registry" where
  "register_field prov field spec r = bm_entry prov [] (bm_insert field spec) r"

definition provider_types :: "provider_registry \<Rightarrow> provider_type_id list" where
  "provider_types r = bm_keys r"

definition registry_kind :: "provider_registry \<Rightarrow> provider_type_id \<Rightarrow> field_id \<Rightarrow> field_kind option" where
  "registry_kind r prov field = map_option spec_kind (Option.bind (bm_get r prov) (\<lambda>m. bm_get m field))"

definition registry_schema :: "provider_registry \<Rightarrow> provider_type_id \<Rightarrow> provider_schema option" where
  "registry_schema r prov =
     map_option (\<lambda>m. fold (\<lambda>(f, spec) s. schema_field f (spec_kind spec) s) m []) (bm_get r prov)"

definition dep_folds :: "provider_registry \<Rightarrow> provider_type_id \<Rightarrow> (field_id \<times> field_kind \<times> dep_fold) list" where
  "dep_folds r prov =
     (case bm_get r prov of
        None \<Rightarrow> []
      | Some m \<Rightarrow> List.map_filter (\<lambda>(f, s). map_option (\<lambda>d. (f, spec_kind s, d)) (spec_fold s)) m)"

definition folded_field :: "field_kind \<Rightarrow> string \<Rightarrow> fold_policy \<Rightarrow> field_spec" where
  "folded_field k proj pol = \<lparr>spec_kind = k, spec_fold = Some \<lparr>projection = proj, policy = pol\<rparr>\<rparr>"

definition own_field :: "field_kind \<Rightarrow> field_spec" where
  "own_field k = \<lparr>spec_kind = k, spec_fold = None\<rparr>"

definition builtin_fields :: "(string \<times> string \<times> field_spec) list" where
  "builtin_fields =
     [(''DefaultInfo'', ''files'', own_field KSet),
      (''CcInfo'', ''hdrs'', folded_field KSet ''headers'' Plain),
      (''CcInfo'', ''cflags'', folded_field KSet ''cflags'' Plain),
      (''CcInfo'', ''libs'', folded_field KSet ''libs'' Plain),
      (''JavaInfo'', ''compile_jars'', folded_field KDepset ''compile_jars'' Plain),
      (''JavaInfo'', ''runtime_jars'', folded_field KDepset ''runtime_jars'' (PrunedBy ''neverlink'')),
      (''JavaInfo'', ''neverlink'', own_field KScalar),
      (''PyInfo'', ''srcs'', folded_field KSet ''py_srcs'' Plain),
      (''BuildScriptRun'', ''flags_file'', own_field KSet),
      (''BuildScriptRun'', ''out_dir'', own_field KSet),
      (''BuildScriptRun'', ''links'', own_field KSet),
      (''RustProcMacro'', ''marker'', own_field KSet),
      (''RustLinkInfo'', ''bs_flags'', folded_field KSet ''rust_link_bs_flags'' Plain)]"

definition builtin_registry :: provider_registry where
  "builtin_registry = fold (\<lambda>(p, f, s). register_field p f s) builtin_fields []"

subsection \<open>Targets as facts\<close>

datatype store_error = BadName string | BadFact merge_error

definition loader_key :: "instance_id \<Rightarrow> string \<Rightarrow> string + target_key" where
  "loader_key inst name =
     (case parse_canonical name of
        Inr l \<Rightarrow> Ok (TargetKey inst l)
      | Inl _ \<Rightarrow>
          (case parse_canonical (''//:'' @ name) of
             Inr l \<Rightarrow> Ok (TargetKey inst l)
           | Inl (LabelError m) \<Rightarrow> Err (''invalid label: '' @ m)))"

definition loader_set :: "string list \<Rightarrow> field_value" where
  "loader_set xs = FSet (bs_of (map SStr xs))"

definition store_schemas :: "provider_registry \<Rightarrow> dds \<Rightarrow> dds" where
  "store_schemas r d =
     fold (\<lambda>ty d. case registry_schema r ty of Some s \<Rightarrow> register_schema ty s d | None \<Rightarrow> d) (provider_types r) d"

definition new_store :: dds where
  "new_store = store_schemas builtin_registry dds_new"

text \<open>The providers of a target, gathered by type; one assertion per type, in the order of the types.\<close>

definition providers_by_type :: "analyzed_target \<Rightarrow> (provider_type_id, (field_id \<times> field_value) list) bmap" where
  "providers_by_type t =
     fold (\<lambda>((ty, fid), v) m. bm_entry ty [] (\<lambda>l. l @ [(fid, v)]) m) (at_providers t) []"

definition gather_provider :: "(field_id \<times> field_value) list \<Rightarrow> dds_provider" where
  "gather_provider fvs = fold (\<lambda>(f, v) p. provider_with f v p) fvs []"

fun assert_facts :: "target_key \<Rightarrow> (provider_type_id \<times> dds_provider) list \<Rightarrow> dds \<Rightarrow> store_error option \<times> dds" where
  "assert_facts key [] d = (None, d)"
| "assert_facts key ((ty, p) # fs) d =
     (case dds_assert key ty p d of
        (Some e, d') \<Rightarrow> (Some (BadFact e), d')
      | (None, d') \<Rightarrow> assert_facts key fs d')"

definition target_facts :: "analyzed_target \<Rightarrow> (provider_type_id \<times> dds_provider) list" where
  "target_facts t =
     (''DefaultInfo'', provider_with ''files'' (loader_set (default_info t)) []) #
     map (\<lambda>(ty, fvs). (ty, gather_provider fvs)) (providers_by_type t)"

definition assert_target :: "instance_id \<Rightarrow> analyzed_target \<Rightarrow> dds \<Rightarrow> store_error option \<times> dds" where
  "assert_target inst t d =
     (case loader_key inst (at_name t) of
        Inl e \<Rightarrow> (Some (BadName e), d)
      | Inr key \<Rightarrow>
          (case assert_facts key (target_facts t) d of
             (Some e, d') \<Rightarrow> (Some e, d')
           | (None, d') \<Rightarrow>
               (case res_mapM (loader_key inst) (at_deps t) of
                  Inl e \<Rightarrow> (Some (BadName e), d')
                | Inr deps \<Rightarrow> (None, assert_deps key deps d'))))"

fun assert_targets :: "instance_id \<Rightarrow> analyzed_target list \<Rightarrow> dds \<Rightarrow> store_error + dds" where
  "assert_targets inst [] d = Inr d"
| "assert_targets inst (t # ts) d =
     (case assert_target inst t d of
        (Some e, _) \<Rightarrow> Inl e
      | (None, d') \<Rightarrow> assert_targets inst ts d')"

definition to_dds :: "analyzed_target list \<Rightarrow> instance_id \<Rightarrow> store_error + dds" where
  "to_dds targets inst = assert_targets inst targets new_store"

subsection \<open>What a dependent reads\<close>

definition scalar_str :: "scalar \<Rightarrow> string option" where
  "scalar_str s = (case s of SStr x \<Rightarrow> Some x | _ \<Rightarrow> None)"

definition to_strs :: "scalar list \<Rightarrow> string list" where
  "to_strs xs = List.map_filter scalar_str xs"

definition fold_one :: "dds \<Rightarrow> target_key \<Rightarrow> provider_type_id \<Rightarrow> field_id \<times> field_kind \<times> dep_fold \<Rightarrow> (string \<times> string list) option" where
  "fold_one d root ty f =
     (case f of (field, kind, df) \<Rightarrow>
        (case kind of
           KSet \<Rightarrow> Some (projection df, to_strs (fold_set d root ty field))
         | KDepset \<Rightarrow>
             (case policy df of
                Plain \<Rightarrow> Some (projection df, to_strs (fold_depset d root ty field))
              | PrunedBy p \<Rightarrow> Some (projection df, to_strs (fold_depset_pruned d root ty field p)))
         | KScalar \<Rightarrow> None))"

definition fold_dep_fields :: "dds \<Rightarrow> target_key \<Rightarrow> (string \<times> string list) list" where
  "fold_dep_fields d root =
     concat (map (\<lambda>ty. List.map_filter (fold_one d root ty) (dep_folds builtin_registry ty)) (provider_types builtin_registry))"

definition field_strs :: "analyzed_target \<Rightarrow> string \<Rightarrow> string \<Rightarrow> string list" where
  "field_strs t ty field =
     (case bm_get (at_providers t) (ty, field) of
        Some (FSet s) \<Rightarrow> to_strs s
      | Some (FDepset v) \<Rightarrow> to_strs v
      | _ \<Rightarrow> [])"

definition scalar_bool :: "analyzed_target \<Rightarrow> string \<Rightarrow> string \<Rightarrow> bool" where
  "scalar_bool t ty field \<longleftrightarrow> bm_get (at_providers t) (ty, field) = Some (FScalar (SBool True))"

definition set_provider :: "string \<Rightarrow> string \<Rightarrow> field_value \<Rightarrow> analyzed_target \<Rightarrow> analyzed_target" where
  "set_provider ty field v t = t\<lparr>at_providers := bm_insert (ty, field) v (at_providers t)\<rparr>"

definition set_set :: "string \<Rightarrow> string \<Rightarrow> string list \<Rightarrow> analyzed_target \<Rightarrow> analyzed_target" where
  "set_set ty field vs t = set_provider ty field (loader_set vs) t"

record build_script_run_info =
  bsr_flags_file :: string
  bsr_out_dir :: string
  bsr_links :: "string option"

record dep_info =
  di_libs :: "string list"
  di_canon :: string
  di_fields :: "(string, string list) bmap"
  di_build_script :: "build_script_run_info option"
  di_proc_macro :: bool

definition dep_field :: "dep_info \<Rightarrow> string \<Rightarrow> string list" where
  "dep_field d proj = (case bm_get (di_fields d) proj of Some xs \<Rightarrow> xs | None \<Rightarrow> [])"

definition hd_opt :: "'a list \<Rightarrow> 'a option" where
  "hd_opt xs = (case xs of [] \<Rightarrow> None | x # _ \<Rightarrow> Some x)"

definition build_script_edge :: "analyzed_target \<Rightarrow> build_script_run_info option" where
  "build_script_edge t =
     map_option (\<lambda>f. \<lparr>bsr_flags_file = f,
         bsr_out_dir = (case hd_opt (field_strs t ''BuildScriptRun'' ''out_dir'') of Some o' \<Rightarrow> o' | None \<Rightarrow> []),
         bsr_links = hd_opt (field_strs t ''BuildScriptRun'' ''links'')\<rparr>)
       (hd_opt (field_strs t ''BuildScriptRun'' ''flags_file''))"

text \<open>The part of a session that recording a target and resolving a recorded dependency touch.\<close>

record facts_session =
  fs_dds :: "dds option"
  fs_results :: "string \<Rightarrow> analyzed_target option"
  fs_targets :: "analyzed_target list"
  fs_fold_cache :: "string \<Rightarrow> (string \<times> string list) list option"

definition session_dds :: "facts_session \<Rightarrow> dds" where
  "session_dds s = (case fs_dds s of Some d \<Rightarrow> d | None \<Rightarrow> new_store)"

text \<open>\<open>None\<close> is the panic of the \<open>expect\<close>; the waiters of the declaration are woken by \<open>publish_decl\<close> of \<open>Sched\<close>.\<close>

definition record_target :: "analyzed_target \<Rightarrow> facts_session \<Rightarrow> facts_session option" where
  "record_target t s =
     (case assert_target single_instance t (session_dds s) of
        (Some e, _) \<Rightarrow> None
      | (None, d) \<Rightarrow>
          Some (s\<lparr>fs_dds := Some d, fs_results := (fs_results s)(at_name t \<mapsto> t), fs_targets := fs_targets s @ [t]\<rparr>))"

definition dep_fields :: "string \<Rightarrow> facts_session \<Rightarrow> string + (string \<times> string list) list \<times> facts_session" where
  "dep_fields canon s =
     (case fs_fold_cache s canon of
        Some hit \<Rightarrow> Ok (hit, s)
      | None \<Rightarrow>
          res_bind (loader_key single_instance canon) (\<lambda>key.
          let f = fold_dep_fields (session_dds s) key
          in Ok (f, s\<lparr>fs_dds := Some (session_dds s), fs_fold_cache := (fs_fold_cache s)(canon \<mapsto> f)\<rparr>)))"

text \<open>A dependency that is recorded under its canonical name.\<close>

definition resolve_recorded :: "string \<Rightarrow> analyzed_target \<Rightarrow> facts_session \<Rightarrow> string + dep_info \<times> facts_session" where
  "resolve_recorded canon t s =
     res_bind (dep_fields canon s) (\<lambda>(fvs, s').
     Ok (\<lparr>di_libs = default_info t, di_canon = canon, di_fields = bm_of fvs, di_build_script = build_script_edge t,
          di_proc_macro = (field_strs t ''RustProcMacro'' ''marker'' \<noteq> [])\<rparr>, s'))"

subsection \<open>Producers\<close>

record target_attrs =
  ta_name :: string
  ta_srcs :: "string list"
  ta_hdrs :: "string list"
  ta_cflags :: "string list"
  ta_deps :: "string list"

type_synonym producer = "target_key \<Rightarrow> target_attrs \<Rightarrow> dds \<Rightarrow> (provider_type_id \<times> dds_provider) list"

definition cc_library :: producer where
  "cc_library key attrs d =
     [(''DefaultInfo'', provider_with ''files'' (loader_set [''lib'' @ ta_name attrs @ ''.a'']) []),
      (''CcInfo'', provider_with ''cflags'' (loader_set (ta_cflags attrs))
        (provider_with ''hdrs'' (loader_set (ta_hdrs attrs)) []))]"

definition rust_library :: producer where
  "rust_library key attrs d =
     (let rlib = ''lib'' @ ta_name attrs @ ''.rlib''
      in [(''DefaultInfo'', provider_with ''files'' (loader_set [rlib]) []),
          (''CrateInfo'', provider_with ''rlibs'' (loader_set [rlib]) [])])"

definition assemble_schemas :: dds where
  "assemble_schemas =
     register_schema ''CrateInfo'' (schema_field ''rlibs'' KSet [])
       (register_schema ''CcInfo'' (schema_field ''cflags'' KSet (schema_field ''hdrs'' KSet []))
         (register_schema ''DefaultInfo'' (schema_field ''files'' KSet []) dds_new))"

fun assemble_into :: "instance_id \<Rightarrow> (target_attrs \<times> producer) list \<Rightarrow> dds \<Rightarrow> store_error + dds" where
  "assemble_into inst [] d = Inr d"
| "assemble_into inst ((attrs, produce) # ds) d =
     (case loader_key inst (ta_name attrs) of
        Inl e \<Rightarrow> Inl (BadName e)
      | Inr key \<Rightarrow>
          (case assert_facts key (produce key attrs d) d of
             (Some e, _) \<Rightarrow> Inl e
           | (None, d') \<Rightarrow>
               (case res_mapM (loader_key inst) (ta_deps attrs) of
                  Inl e \<Rightarrow> Inl (BadName e)
                | Inr deps \<Rightarrow> assemble_into inst ds (assert_deps key deps d'))))"

definition assemble :: "instance_id \<Rightarrow> (target_attrs \<times> producer) list \<Rightarrow> store_error + dds" where
  "assemble inst decls = assemble_into inst decls assemble_schemas"

end
