(* ===== verification/Loader_Dds_Props.thy ===== *)
theory Loader_Dds_Props
  imports Loader_Dds
begin

section \<open>The loader's facts: what a dependent sees\<close>

text \<open>
  The store made from analyzed targets holds exactly their own providers and dependencies, so a folded field
  is the union over the closure of the dependencies; the cache of the folds never answers anything but the
  live fold, as long as a target is recorded before its dependents.
\<close>

subsection \<open>Assertions\<close>

lemma dds_assert_fresh:
  assumes "dds_assert k ty p d = (None, d')" "provider_of d k ty = None"
  shows "provider_of d' k' ty' = (if (k', ty') = (k, ty) then Some p else provider_of d k' ty')"
  using assms by (auto simp: dds_assert_def provider_of_def split: option.splits prod.splits)

lemma dds_assert_deps: "dds_assert k ty p d = (r, d') \<Longrightarrow> dds_deps d' = dds_deps d"
  by (auto simp: dds_assert_def split: option.splits prod.splits)

lemma assert_facts_deps: "assert_facts k fs d = (r, d') \<Longrightarrow> dds_deps d' = dds_deps d"
  by (induction k fs d rule: assert_facts.induct) (auto split: prod.splits option.splits dest: dds_assert_deps)

lemma assert_facts_other_key:
  "assert_facts k fs d = (r, d') \<Longrightarrow> k' \<noteq> k \<Longrightarrow> provider_of d' k' ty = provider_of d k' ty"
proof (induction k fs d rule: assert_facts.induct)
  case (2 key ty' p fs d)
  obtain r1 d1 where a: "dds_assert key ty' p d = (r1, d1)" by force
  have "provider_of d1 k' ty = provider_of d k' ty" using dds_assert_others [OF a] 2(3) by simp
  with 2 a show ?case by (cases r1) auto
qed simp

lemma assert_facts_other_type:
  "assert_facts k fs d = (r, d') \<Longrightarrow> ty \<notin> fst ` set fs \<Longrightarrow> provider_of d' k ty = provider_of d k ty"
proof (induction k fs d rule: assert_facts.induct)
  case (2 key ty' p fs d)
  obtain r1 d1 where a: "dds_assert key ty' p d = (r1, d1)" by force
  have "provider_of d1 key ty = provider_of d key ty" using dds_assert_others [OF a] 2(3) by simp
  with 2 a show ?case by (cases r1) auto
qed simp

lemma assert_facts_new:
  "assert_facts k fs d = (None, d') \<Longrightarrow> distinct (map fst fs) \<Longrightarrow> provider_of d k ty = None \<Longrightarrow>
   provider_of d' k ty = map_of fs ty"
proof (induction k fs d rule: assert_facts.induct)
  case (2 key ty' p fs d)
  obtain d1 where a: "dds_assert key ty' p d = (None, d1)" and r: "assert_facts key fs d1 = (None, d')"
    using 2(2) by (auto split: prod.splits option.splits)
  show ?case
  proof (cases "ty = ty'")
    case True
    with 2(3) have "ty \<notin> fst ` set fs" by simp
    from assert_facts_other_type [OF r this] dds_assert_fresh [OF a] 2(4) True show ?thesis by simp
  next
    case False
    then have "provider_of d1 key ty = None" using dds_assert_others [OF a] 2(4) by simp
    with 2(1) [OF a [symmetric] refl r] 2(3) False show ?thesis by simp
  qed
qed simp

subsection \<open>The providers of a target by type\<close>

lemma by_type_fold:
  "bm_get (fold (\<lambda>((ty, fid), v) m. bm_entry ty [] (\<lambda>l. l @ [(fid, v)]) m) ps m) ty =
     (let here = map (\<lambda>((_, f), v). (f, v)) (filter (\<lambda>((ty', _), _). ty' = ty) ps)
      in if here = [] then bm_get m ty else Some ((case bm_get m ty of None \<Rightarrow> [] | Some l \<Rightarrow> l) @ here))"
proof (induction ps arbitrary: m)
  case (Cons p ps)
  obtain ty' f v where "p = ((ty', f), v)" by (metis prod.collapse)
  with Cons show ?case by (auto simp: Let_def split: option.split)
qed simp

lemma by_type_ok: "bm_ok m \<Longrightarrow> bm_ok (fold (\<lambda>((ty, fid), v) m. bm_entry ty [] (\<lambda>l. l @ [(fid, v)]) m) ps m)"
  by (induction ps arbitrary: m) (auto split: prod.split)

lemma providers_by_type_ok: "bm_ok (providers_by_type t)"
  unfolding providers_by_type_def by (rule by_type_ok) simp

lemma gather_fold: "bm_get (fold (\<lambda>(f, v) p. provider_with f v p) fvs p) f =
    (case map_of (rev fvs) f of Some v \<Rightarrow> Some v | None \<Rightarrow> bm_get p f)"
  by (induction fvs arbitrary: p) (auto simp: provider_with_def map_add_def split: option.split)

lemma map_of_rev_distinct: "distinct (map fst xs) \<Longrightarrow> map_of (rev xs) = map_of xs"
  by (rule map_of_eqI) (auto simp: rev_map [symmetric])

lemma map_of_here:
  "distinct (map fst ps) \<Longrightarrow>
   map_of (map (\<lambda>((_, f), v). (f, v)) (filter (\<lambda>((ty', _), _). ty' = ty) ps)) f = map_of ps (ty, f)"
  by (induction ps) (auto split: prod.splits)

lemma distinct_here:
  "distinct (map fst ps) \<Longrightarrow> distinct (map fst (map (\<lambda>((_, f), v). (f, v)) (filter (\<lambda>((ty', _), _). ty' = ty) ps)))"
  by (induction ps) (force split: prod.splits)+

lemma gathered_field:
  assumes "bm_ok (at_providers t)"
  shows "Option.bind (bm_get (providers_by_type t) ty) (\<lambda>fvs. bm_get (gather_provider fvs) f) = bm_get (at_providers t) (ty, f)"
proof -
  let ?here = "map (\<lambda>((_, f), v). (f, v)) (filter (\<lambda>((ty', _), _). ty' = ty) (at_providers t))"
  have d: "distinct (map fst (at_providers t))" using assms by (rule bm_ok_distinct)
  have get: "bm_get (providers_by_type t) ty = (if ?here = [] then None else Some ?here)"
    unfolding providers_by_type_def by_type_fold by (simp add: Let_def)
  have "bm_get (gather_provider ?here) f = map_of ?here f"
    unfolding gather_provider_def gather_fold map_of_rev_distinct [OF distinct_here [OF d]] by (simp split: option.split)
  also have "\<dots> = bm_get (at_providers t) (ty, f)" unfolding map_of_here [OF d] bm_get_def ..
  finally have field: "bm_get (gather_provider ?here) f = bm_get (at_providers t) (ty, f)" .
  show ?thesis
  proof (cases "?here = []")
    case True
    with field show ?thesis by (simp add: get gather_provider_def)
  next
    case False
    with field show ?thesis by (simp add: get)
  qed
qed

subsection \<open>A recorded target\<close>

lemma target_facts_fields:
  assumes "assert_facts k (target_facts t) d = (None, d')" "bm_ok (at_providers t)"
    and "\<And>ty. provider_of d k ty = None" "ty \<noteq> ''DefaultInfo''"
  shows "field_of d' ty f k = bm_get (at_providers t) (ty, f)"
proof -
  let ?own = "map (\<lambda>(ty, fvs). (ty, gather_provider fvs)) (providers_by_type t)"
  let ?info = "provider_with ''files'' (loader_set (default_info t)) []"
  obtain d1 where a: "dds_assert k ''DefaultInfo'' ?info d = (None, d1)" and r: "assert_facts k ?own d1 = (None, d')"
    using assms(1) by (auto simp: target_facts_def split: prod.splits option.splits)
  have own: "map_of ?own ty = map_option gather_provider (bm_get (providers_by_type t) ty)"
    by (simp add: map_of_map bm_get_def)
  have "provider_of d1 k ty = None" using dds_assert_fresh [OF a assms(3)] assms(3,4) by simp
  moreover have "distinct (map fst ?own)"
    using bm_ok_distinct [OF providers_by_type_ok [of t]] by (simp add: comp_def case_prod_beta)
  ultimately have "provider_of d' k ty = map_option gather_provider (bm_get (providers_by_type t) ty)"
    using assert_facts_new [OF r] own by simp
  then show ?thesis
    using gathered_field [OF assms(2), of ty f]
    by (simp add: field_of_def) (cases "bm_get (providers_by_type t) ty"; simp)
qed

lemma assert_target_Ok:
  assumes "assert_target inst t d = (None, d')"
  obtains k deps d1 where "loader_key inst (at_name t) = Ok k" "res_mapM (loader_key inst) (at_deps t) = Ok deps"
    "assert_facts k (target_facts t) d = (None, d1)" "d' = assert_deps k deps d1"
  using assms by (auto simp: assert_target_def split: sum.splits prod.splits option.splits)

lemma field_of_assert_deps [simp]: "field_of (assert_deps k ds d) ty f k' = field_of d ty f k'"
  by (simp add: field_of_def provider_of_def assert_deps_def)

lemma dep_keys_assert_deps: "dep_keys (assert_deps k ds d) k' = (if k' = k then ds else dep_keys d k')"
  by (simp add: dep_keys_def assert_deps_def)

definition unknown_key :: "dds \<Rightarrow> target_key \<Rightarrow> bool" where
  "unknown_key d k \<longleftrightarrow> (\<forall>ty. provider_of d k ty = None) \<and> dep_keys d k = []"

lemma assert_target_new:
  assumes "assert_target inst t d = (None, d')" "bm_ok (at_providers t)" "loader_key inst (at_name t) = Ok k"
    and "unknown_key d k"
  shows "ty \<noteq> ''DefaultInfo'' \<Longrightarrow> field_of d' ty f k = bm_get (at_providers t) (ty, f)"
    and "res_mapM (loader_key inst) (at_deps t) = Ok (dep_keys d' k)"
    and "k' \<noteq> k \<Longrightarrow> provider_of d' k' = provider_of d k' \<and> dep_keys d' k' = dep_keys d k'"
proof -
  from assms(1,3) obtain deps d1 where a: "res_mapM (loader_key inst) (at_deps t) = Ok deps"
    "assert_facts k (target_facts t) d = (None, d1)" "d' = assert_deps k deps d1"
    by (auto elim!: assert_target_Ok)
  show "field_of d' ty f k = bm_get (at_providers t) (ty, f)" if "ty \<noteq> ''DefaultInfo''"
    using target_facts_fields [OF a(2) assms(2) _ that, of f] assms(4) a(3) by (simp add: unknown_key_def)
  show "res_mapM (loader_key inst) (at_deps t) = Ok (dep_keys d' k)"
    using a(1,3) by (simp add: dep_keys_assert_deps)
  show "provider_of d' k' = provider_of d k' \<and> dep_keys d' k' = dep_keys d k'" if "k' \<noteq> k"
    using assert_facts_other_key [OF a(2) that] assert_facts_deps [OF a(2)] that a(3)
    by (auto simp: dep_keys_assert_deps fun_eq_iff) (simp_all add: dep_keys_def provider_of_def assert_deps_def)
qed

lemma store_schemas_facts:
  "providers (store_schemas r d) = providers d \<and> dds_deps (store_schemas r d) = dds_deps d"
proof -
  have "providers (fold (\<lambda>ty d. case registry_schema r ty of Some s \<Rightarrow> register_schema ty s d | None \<Rightarrow> d) tys d) = providers d \<and>
      dds_deps (fold (\<lambda>ty d. case registry_schema r ty of Some s \<Rightarrow> register_schema ty s d | None \<Rightarrow> d) tys d) = dds_deps d" for tys
    by (induction tys arbitrary: d) (auto simp: register_schema_def split: option.split)
  then show ?thesis by (simp add: store_schemas_def)
qed

lemma new_store_unknown [simp]: "unknown_key new_store k"
  using store_schemas_facts [of builtin_registry dds_new]
  by (simp add: unknown_key_def provider_of_def dep_keys_def new_store_def dds_new_def)

definition target_key_of :: "instance_id \<Rightarrow> analyzed_target \<Rightarrow> target_key option" where
  "target_key_of inst t = (case loader_key inst (at_name t) of Inl _ \<Rightarrow> None | Inr k \<Rightarrow> Some k)"

lemma target_key_of_Some: "target_key_of inst t = Some k \<longleftrightarrow> loader_key inst (at_name t) = Ok k"
  by (simp add: target_key_of_def split: sum.split)

lemma assert_targets_exact:
  "assert_targets inst ts d = Inr d' \<Longrightarrow> distinct (map (target_key_of inst) ts) \<Longrightarrow>
   \<forall>t \<in> set ts. bm_ok (at_providers t) \<and> (\<forall>k. target_key_of inst t = Some k \<longrightarrow> unknown_key d k) \<Longrightarrow>
   (\<forall>t \<in> set ts. \<exists>k. target_key_of inst t = Some k \<and> res_mapM (loader_key inst) (at_deps t) = Ok (dep_keys d' k) \<and>
      (\<forall>ty f. ty \<noteq> ''DefaultInfo'' \<longrightarrow> field_of d' ty f k = bm_get (at_providers t) (ty, f))) \<and>
   (\<forall>k. Some k \<notin> target_key_of inst ` set ts \<longrightarrow> provider_of d' k = provider_of d k \<and> dep_keys d' k = dep_keys d k)"
proof (induction ts arbitrary: d)
  case (Cons t ts)
  obtain d1 where a: "assert_target inst t d = (None, d1)" and r: "assert_targets inst ts d1 = Inr d'"
    using Cons.prems(1) by (auto split: prod.splits option.splits)
  obtain k where k: "loader_key inst (at_name t) = Ok k" using a by (rule assert_target_Ok)
  then have kt: "target_key_of inst t = Some k" by (simp add: target_key_of_Some)
  have ok: "bm_ok (at_providers t)" and unk: "unknown_key d k" using Cons.prems(3) kt by auto
  note new = assert_target_new [OF a ok k unk]
  have fresh: "Some k \<notin> target_key_of inst ` set ts" using Cons.prems(2) kt by auto
  have "\<forall>u \<in> set ts. bm_ok (at_providers u) \<and> (\<forall>j. target_key_of inst u = Some j \<longrightarrow> unknown_key d1 j)"
  proof (intro ballI conjI allI impI)
    fix u assume u: "u \<in> set ts"
    then show "bm_ok (at_providers u)" using Cons.prems(3) by simp
    fix j assume j: "target_key_of inst u = Some j"
    with u fresh have "j \<noteq> k" by (metis imageI)
    moreover have "unknown_key d j" using Cons.prems(3) u j by simp
    ultimately show "unknown_key d1 j" using new(3) [of j] by (simp add: unknown_key_def)
  qed
  with Cons.IH [OF r] Cons.prems(2)
  have ih: "\<forall>t \<in> set ts. \<exists>k. target_key_of inst t = Some k \<and> res_mapM (loader_key inst) (at_deps t) = Ok (dep_keys d' k) \<and>
      (\<forall>ty f. ty \<noteq> ''DefaultInfo'' \<longrightarrow> field_of d' ty f k = bm_get (at_providers t) (ty, f))"
    and others: "\<forall>k. Some k \<notin> target_key_of inst ` set ts \<longrightarrow> provider_of d' k = provider_of d1 k \<and> dep_keys d' k = dep_keys d1 k"
    by simp_all
  have same: "provider_of d' k = provider_of d1 k" "dep_keys d' k = dep_keys d1 k" using others fresh by simp_all
  have here: "res_mapM (loader_key inst) (at_deps t) = Ok (dep_keys d' k)" using new(2) same by simp
  have fields: "field_of d' ty f k = bm_get (at_providers t) (ty, f)" if "ty \<noteq> ''DefaultInfo''" for ty f
    using new(1) [OF that, of f] same(1) by (simp add: field_of_def)
  have rest: "provider_of d' j = provider_of d j \<and> dep_keys d' j = dep_keys d j"
    if "Some j \<notin> target_key_of inst ` set (t # ts)" for j
    using that kt new(3) [of j] others by auto
  from ih kt here fields rest show ?case by simp
qed simp

text \<open>The store of analyzed targets holds each target's own providers and dependencies and nothing else.\<close>

theorem to_dds_exact:
  assumes "to_dds ts inst = Inr d" "distinct (map (target_key_of inst) ts)" "\<forall>t \<in> set ts. bm_ok (at_providers t)"
  shows "(\<forall>t \<in> set ts. \<exists>k. target_key_of inst t = Some k \<and> res_mapM (loader_key inst) (at_deps t) = Ok (dep_keys d k) \<and>
      (\<forall>ty f. ty \<noteq> ''DefaultInfo'' \<longrightarrow> field_of d ty f k = bm_get (at_providers t) (ty, f))) \<and>
    (\<forall>k. Some k \<notin> target_key_of inst ` set ts \<longrightarrow> unknown_key d k)"
  using assert_targets_exact [OF assms(1) [unfolded to_dds_def] assms(2)] assms(3)
    new_store_unknown by (simp add: unknown_key_def)

subsection \<open>A fold sees only what is reachable\<close>

definition agree_on :: "target_key set \<Rightarrow> dds \<Rightarrow> dds \<Rightarrow> bool" where
  "agree_on S d d' \<longleftrightarrow>
     (\<forall>k \<in> S. provider_of d' k = provider_of d k \<and> dep_keys d' k = dep_keys d k \<and> set (dep_keys d k) \<subseteq> S)"

lemma agree_field: "agree_on S d d' \<Longrightarrow> k \<in> S \<Longrightarrow> field_of d' ty f k = field_of d ty f k"
  by (simp add: agree_on_def field_of_def)

lemma agree_set_loop:
  "agree_on S d d' \<Longrightarrow> set stack \<subseteq> S \<Longrightarrow>
   fold_set_loop d' ty field visited stack acc = fold_set_loop d ty field visited stack acc"
proof (induction d ty field visited stack acc rule: fold_set_loop.induct)
  case (2 d ty field visited t stack acc)
  have "dep_keys d' t = dep_keys d t" "set (dep_keys d t) \<subseteq> S" "field_of d' ty field t = field_of d ty field t"
    using 2(3,4) agree_field by (auto simp: agree_on_def)
  with 2 show ?case by simp
qed simp

lemma agree_depset_loop:
  "agree_on S d d' \<Longrightarrow> set stack \<subseteq> S \<Longrightarrow>
   fold_depset_loop d' ty field visited stack sa = fold_depset_loop d ty field visited stack sa"
proof (induction d ty field visited stack sa rule: fold_depset_loop.induct)
  case (2 d ty field visited t stack sa)
  have "dep_keys d' t = dep_keys d t" "set (dep_keys d t) \<subseteq> S" "field_of d' ty field t = field_of d ty field t"
    using 2(3,4) agree_field by (auto simp: agree_on_def)
  with 2 show ?case by simp
qed simp

lemma agree_pruned_loop:
  "agree_on S d d' \<Longrightarrow> set stack \<subseteq> S \<Longrightarrow>
   fold_pruned_loop d' ty field prune visited stack sa = fold_pruned_loop d ty field prune visited stack sa"
proof (induction d ty field prune visited stack sa rule: fold_pruned_loop.induct)
  case (2 d ty field prune visited t stack sa)
  have "dep_keys d' t = dep_keys d t" "set (dep_keys d t) \<subseteq> S" "field_of d' ty field t = field_of d ty field t"
    "pruned d' ty prune t = pruned d ty prune t"
    using 2(4,5) agree_field by (auto simp: agree_on_def pruned_def)
  with 2 show ?case by simp
qed simp

lemma agree_fold_fields:
  assumes "agree_on S d d'" "root \<in> S"
  shows "fold_dep_fields d' root = fold_dep_fields d root"
proof -
  have r: "set [root] \<subseteq> S" using assms(2) by simp
  have folds: "fold_set d' root ty f = fold_set d root ty f" "fold_depset d' root ty f = fold_depset d root ty f"
    "fold_depset_pruned d' root ty f p = fold_depset_pruned d root ty f p" for ty f p
    by (simp_all only: fold_set_def fold_depset_def fold_depset_pruned_def agree_set_loop [OF assms(1) r]
        agree_depset_loop [OF assms(1) r] agree_pruned_loop [OF assms(1) r])
  have "fold_one d' root = fold_one d root"
    by (intro ext) (simp only: fold_one_def folds)
  then show ?thesis by (simp only: fold_dep_fields_def)
qed

subsection \<open>The closure of a set field\<close>

definition target_edges :: "instance_id \<Rightarrow> analyzed_target list \<Rightarrow> (target_key \<times> target_key) set" where
  "target_edges inst ts =
     {(k, k'). \<exists>t \<in> set ts. target_key_of inst t = Some k \<and> (\<exists>dn \<in> set (at_deps t). loader_key inst dn = Ok k')}"

definition set_strs :: "analyzed_target \<Rightarrow> string \<Rightarrow> string \<Rightarrow> string set" where
  "set_strs t ty field = (case bm_get (at_providers t) (ty, field) of Some (FSet s) \<Rightarrow> {x. SStr x \<in> set s} | _ \<Rightarrow> {})"

definition closure_strs :: "instance_id \<Rightarrow> analyzed_target list \<Rightarrow> target_key \<Rightarrow> string \<Rightarrow> string \<Rightarrow> string set" where
  "closure_strs inst ts root ty field =
     (\<Union>t \<in> {t \<in> set ts. \<exists>k. target_key_of inst t = Some k \<and> (root, k) \<in> (target_edges inst ts)\<^sup>*}. set_strs t ty field)"

lemma res_mapM_set: "res_mapM f xs = Inr ys \<Longrightarrow> set ys = {y. \<exists>x \<in> set xs. f x = Inr y}"
  by (induction xs arbitrary: ys) (auto simp: res_bind_Inr_iff)

lemma set_to_strs: "set (to_strs xs) = {x. SStr x \<in> set xs}"
proof -
  have "set (List.map_filter scalar_str xs) = {x. SStr x \<in> set xs}"
  proof (induction xs)
    case (Cons s xs)
    then show ?case by (cases s) (auto simp: scalar_str_def List.map_filter_simps)
  qed (simp add: List.map_filter_simps)
  then show ?thesis by (simp only: to_strs_def)
qed

lemma store_edges:
  assumes "to_dds ts inst = Inr d" "distinct (map (target_key_of inst) ts)" "\<forall>t \<in> set ts. bm_ok (at_providers t)"
  shows "{(x, y). y \<in> set (dep_keys d x)} = target_edges inst ts"
proof (intro set_eqI iffI; clarify)
  note exact = to_dds_exact [OF assms]
  fix x y
  {
    assume y: "y \<in> set (dep_keys d x)"
    then have "\<not> unknown_key d x" by (auto simp: unknown_key_def)
    with exact obtain t where t: "t \<in> set ts" "target_key_of inst t = Some x" by force
    with exact have "res_mapM (loader_key inst) (at_deps t) = Ok (dep_keys d x)" by fastforce
    from res_mapM_set [OF this] y t show "(x, y) \<in> target_edges inst ts" by (auto simp: target_edges_def)
  next
    assume "(x, y) \<in> target_edges inst ts"
    then obtain t dn where t: "t \<in> set ts" "target_key_of inst t = Some x" "dn \<in> set (at_deps t)" "loader_key inst dn = Ok y"
      by (auto simp: target_edges_def)
    with exact have "res_mapM (loader_key inst) (at_deps t) = Ok (dep_keys d x)" by fastforce
    from res_mapM_set [OF this] t show "y \<in> set (dep_keys d x)" by auto
  }
qed

lemma closure_of_set_field:
  assumes "to_dds ts inst = Inr d" "distinct (map (target_key_of inst) ts)" "\<forall>t \<in> set ts. bm_ok (at_providers t)"
    and "ty \<noteq> ''DefaultInfo''"
  shows "set (to_strs (fold_set d root ty field)) = closure_strs inst ts root ty field"
proof -
  note exact = to_dds_exact [OF assms(1-3)]
  have own: "{x. SStr x \<in> own_set d ty field k} = (\<Union>t \<in> {t \<in> set ts. target_key_of inst t = Some k}. set_strs t ty field)" for k
  proof (cases "Some k \<in> target_key_of inst ` set ts")
    case True
    then obtain t where t: "t \<in> set ts" "target_key_of inst t = Some k" by force
    have "u = t" if "u \<in> set ts" "target_key_of inst u = Some k" for u
      using assms(2) t that by (metis distinct_map inj_onD)
    then have "{t \<in> set ts. target_key_of inst t = Some k} = {t}" using t by blast
    moreover have "field_of d ty field k = bm_get (at_providers t) (ty, field)"
      using exact t assms(4) by fastforce
    ultimately show ?thesis by (auto simp: own_set_def set_strs_def split: option.split field_value.split)
  next
    case False
    with exact have "unknown_key d k" by blast
    then have "own_set d ty field k = {}" by (simp add: own_set_def field_of_def unknown_key_def)
    moreover have "{t \<in> set ts. target_key_of inst t = Some k} = {}" using False by force
    ultimately show ?thesis by (simp only: SUP_empty empty_iff empty_def [symmetric])
  qed
  have "set (fold_set d root ty field) = (\<Union>t \<in> (target_edges inst ts)\<^sup>* `` {root}. own_set d ty field t)"
    using fold_set_spec [of d root ty field] unfolding store_edges [OF assms(1-3)] by blast
  then have "set (to_strs (fold_set d root ty field)) =
      (\<Union>k \<in> (target_edges inst ts)\<^sup>* `` {root}. {x. SStr x \<in> own_set d ty field k})"
    unfolding set_to_strs by blast
  also have "\<dots> = closure_strs inst ts root ty field"
    unfolding own closure_strs_def by blast
  finally show ?thesis .
qed

subsection \<open>The session\<close>

text \<open>
  The sessions considered record each target once and before the targets that depend on it, as analysis on demand
  does in one thread; between the records, dependencies that are recorded are resolved.  A target that two workers
  record twice is the subject of \<open>Loader_Again\<close>, a store of any shape that of \<open>fold_set_exact\<close> and
  \<open>fold_depset_preorder\<close>; no session here loses the rows of a package whose load failed (\<open>purge_partial_package\<close> of \<open>Sched\<close>).
\<close>

inductive facts_reach :: "facts_session \<Rightarrow> bool" where
  fr_init: "facts_reach \<lparr>fs_dds = None, fs_results = Map.empty, fs_targets = [], fs_fold_cache = Map.empty\<rparr>"
| fr_record: "facts_reach s \<Longrightarrow> record_target t s = Some s' \<Longrightarrow> target_key_of single_instance t = Some k \<Longrightarrow>
    bm_ok (at_providers t) \<Longrightarrow> Some k \<notin> target_key_of single_instance ` set (fs_targets s) \<Longrightarrow>
    k \<notin> snd ` target_edges single_instance (fs_targets s) \<Longrightarrow> facts_reach s'"
| fr_resolve: "facts_reach s \<Longrightarrow> fs_results s canon = Some t \<Longrightarrow> resolve_recorded canon t s = Ok (di, s') \<Longrightarrow> facts_reach s'"

lemma assert_targets_append:
  "assert_targets inst ts d = Inr d' \<Longrightarrow> assert_target inst t d' = (None, d'') \<Longrightarrow>
   assert_targets inst (ts @ [t]) d = Inr d''"
  by (induction ts arbitrary: d) (auto split: prod.splits option.splits)

definition facts_inv :: "facts_session \<Rightarrow> bool" where
  "facts_inv s \<longleftrightarrow>
     to_dds (fs_targets s) single_instance = Inr (session_dds s) \<and>
     distinct (map (target_key_of single_instance) (fs_targets s)) \<and>
     (\<forall>t \<in> set (fs_targets s). bm_ok (at_providers t)) \<and>
     (\<forall>canon t. fs_results s canon = Some t \<longrightarrow> t \<in> set (fs_targets s) \<and> at_name t = canon) \<and>
     (\<forall>canon f. fs_fold_cache s canon = Some f \<longrightarrow>
        (\<exists>t \<in> set (fs_targets s). \<exists>k. at_name t = canon \<and> target_key_of single_instance t = Some k \<and>
           f = fold_dep_fields (session_dds s) k))"

lemma facts_invD:
  assumes "facts_inv s"
  shows "to_dds (fs_targets s) single_instance = Inr (session_dds s)"
    "distinct (map (target_key_of single_instance) (fs_targets s))"
    "\<forall>t \<in> set (fs_targets s). bm_ok (at_providers t)"
    "fs_results s canon = Some t \<Longrightarrow> t \<in> set (fs_targets s) \<and> at_name t = canon"
    "fs_fold_cache s canon = Some f \<Longrightarrow> \<exists>t \<in> set (fs_targets s). \<exists>k. at_name t = canon \<and>
       target_key_of single_instance t = Some k \<and> f = fold_dep_fields (session_dds s) k"
  using assms by (simp_all add: facts_inv_def)

lemma record_target_Some:
  assumes "record_target t s = Some s'"
  obtains d where "assert_target single_instance t (session_dds s) = (None, d)" "session_dds s' = d"
    "fs_targets s' = fs_targets s @ [t]" "fs_results s' = (fs_results s)(at_name t \<mapsto> t)" "fs_fold_cache s' = fs_fold_cache s"
  using assms by (auto simp: record_target_def session_dds_def split: prod.splits option.splits)

lemma record_agrees:
  assumes inv: "facts_inv s" and r: "record_target t s = Some s'" and k: "target_key_of single_instance t = Some k"
    and ok: "bm_ok (at_providers t)" and fresh: "Some k \<notin> target_key_of single_instance ` set (fs_targets s)"
    and no_edge: "k \<notin> snd ` target_edges single_instance (fs_targets s)" and root: "root \<noteq> k"
  shows "fold_dep_fields (session_dds s') root = fold_dep_fields (session_dds s) root"
proof -
  obtain d where a: "assert_target single_instance t (session_dds s) = (None, d)" "session_dds s' = d"
    using r by (rule record_target_Some)
  note i = facts_invD(1-3) [OF inv]
  have "unknown_key (session_dds s) k" using to_dds_exact [OF i] fresh by blast
  from assert_target_new(3) [OF a(1) ok k [unfolded target_key_of_Some] this]
  have same: "provider_of d x = provider_of (session_dds s) x \<and> dep_keys d x = dep_keys (session_dds s) x" if "x \<noteq> k" for x
    using that .
  have no_dep: "k \<notin> set (dep_keys (session_dds s) x)" for x
  proof
    assume "k \<in> set (dep_keys (session_dds s) x)"
    then have "(x, k) \<in> target_edges single_instance (fs_targets s)"
      unfolding store_edges [OF i, symmetric] by simp
    with no_edge show False by force
  qed
  have "agree_on (- {k}) (session_dds s) d" using same no_dep by (auto simp: agree_on_def)
  from agree_fold_fields [OF this] root a(2) show ?thesis by simp
qed

lemma record_inv:
  assumes inv: "facts_inv s" and r: "record_target t s = Some s'" and k: "target_key_of single_instance t = Some k"
    and ok: "bm_ok (at_providers t)" and fresh: "Some k \<notin> target_key_of single_instance ` set (fs_targets s)"
    and no_edge: "k \<notin> snd ` target_edges single_instance (fs_targets s)"
  shows "facts_inv s'"
proof -
  obtain d where a: "assert_target single_instance t (session_dds s) = (None, d)" "session_dds s' = d"
    "fs_targets s' = fs_targets s @ [t]" "fs_results s' = (fs_results s)(at_name t \<mapsto> t)" "fs_fold_cache s' = fs_fold_cache s"
    using r by (rule record_target_Some)
  note i = facts_invD [OF inv]
  have store: "to_dds (fs_targets s') single_instance = Inr (session_dds s')"
    using assert_targets_append [OF i(1) [unfolded to_dds_def] a(1)] by (simp add: to_dds_def a)
  have keys: "distinct (map (target_key_of single_instance) (fs_targets s'))"
    using i(2) fresh k by (simp add: a)
  have oks: "\<forall>t \<in> set (fs_targets s'). bm_ok (at_providers t)" using i(3) ok by (simp add: a)
  have results: "\<forall>canon u. fs_results s' canon = Some u \<longrightarrow> u \<in> set (fs_targets s') \<and> at_name u = canon"
    using i(4) by (auto simp: a split: if_splits)
  have cache: "\<exists>u \<in> set (fs_targets s'). \<exists>j. at_name u = canon \<and> target_key_of single_instance u = Some j \<and>
      f = fold_dep_fields (session_dds s') j" if hit: "fs_fold_cache s' canon = Some f" for canon f
  proof -
    obtain u j where u: "u \<in> set (fs_targets s)" "at_name u = canon" "target_key_of single_instance u = Some j"
      "f = fold_dep_fields (session_dds s) j" using i(5) hit unfolding a by blast
    have "j \<noteq> k" using u(1,3) fresh by (metis imageI)
    from record_agrees [OF inv r k ok fresh no_edge this] u show ?thesis
      by (intro bexI [of _ u] exI [of _ j]) (simp_all add: a)
  qed
  from store keys oks results cache show ?thesis unfolding facts_inv_def by blast
qed

lemma dep_fields_live:
  assumes inv: "facts_inv s" and t: "fs_results s canon = Some t" and r: "dep_fields canon s = Ok (fvs, s')"
  shows "facts_inv s' \<and> fs_targets s' = fs_targets s \<and>
    (\<exists>k. target_key_of single_instance t = Some k \<and> fvs = fold_dep_fields (session_dds s) k)"
proof (cases "fs_fold_cache s canon")
  case (Some hit)
  with r have [simp]: "fvs = hit" "s' = s" by (simp_all add: dep_fields_def)
  obtain u k where u: "u \<in> set (fs_targets s)" "at_name u = canon" "target_key_of single_instance u = Some k"
    "hit = fold_dep_fields (session_dds s) k" using facts_invD(5) [OF inv Some] by blast
  have "target_key_of single_instance t = Some k"
    using facts_invD(4) [OF inv t] u(2,3) by (simp add: target_key_of_def)
  with inv u(4) show ?thesis by simp
next
  case None
  with r obtain k where k: "loader_key single_instance canon = Ok k" "fvs = fold_dep_fields (session_dds s) k"
    "s' = s\<lparr>fs_dds := Some (session_dds s), fs_fold_cache := (fs_fold_cache s)(canon \<mapsto> fvs)\<rparr>"
    by (auto simp: dep_fields_def res_bind_Inr_iff Let_def)
  have tk: "t \<in> set (fs_targets s)" "at_name t = canon" "target_key_of single_instance t = Some k"
    using facts_invD(4) [OF inv t] k(1) by (simp_all add: target_key_of_Some)
  have "session_dds s' = session_dds s" by (simp add: k(3) session_dds_def)
  moreover have "\<exists>u \<in> set (fs_targets s). \<exists>j. at_name u = c \<and> target_key_of single_instance u = Some j \<and>
      f = fold_dep_fields (session_dds s) j" if "fs_fold_cache s' c = Some f" for c f
    using that facts_invD(5) [OF inv, of c f] tk k(2) by (auto simp: k(3) split: if_splits)
  ultimately have "facts_inv s'"
    using facts_invD(1-4) [OF inv] unfolding facts_inv_def by (simp add: k(3))
  with tk(3) k(2,3) show ?thesis by simp
qed

lemma facts_reach_inv: "facts_reach s \<Longrightarrow> facts_inv s"
proof (induction rule: facts_reach.induct)
  case fr_init
  show ?case by (simp add: facts_inv_def session_dds_def to_dds_def)
next
  case (fr_record s t s' k)
  show ?case by (rule record_inv [OF fr_record.IH fr_record.hyps(2-6)])
next
  case (fr_resolve s canon t di s')
  then obtain fvs where "dep_fields canon s = Ok (fvs, s')"
    by (auto simp: resolve_recorded_def res_bind_Inr_iff)
  from dep_fields_live [OF fr_resolve.IH fr_resolve.hyps(2) this] show ?case by blast
qed

subsection \<open>What a dependent sees\<close>

lemma builtin_types:
  "provider_types builtin_registry =
     [''BuildScriptRun'', ''CcInfo'', ''DefaultInfo'', ''JavaInfo'', ''PyInfo'', ''RustLinkInfo'', ''RustProcMacro'']"
  by code_simp

lemma builtin_folds:
  "dep_folds builtin_registry ''BuildScriptRun'' = []" "dep_folds builtin_registry ''DefaultInfo'' = []"
  "dep_folds builtin_registry ''RustProcMacro'' = []"
  "dep_folds builtin_registry ''CcInfo'' =
     [(''cflags'', KSet, \<lparr>projection = ''cflags'', policy = Plain\<rparr>), (''hdrs'', KSet, \<lparr>projection = ''headers'', policy = Plain\<rparr>),
      (''libs'', KSet, \<lparr>projection = ''libs'', policy = Plain\<rparr>)]"
  "dep_folds builtin_registry ''JavaInfo'' =
     [(''compile_jars'', KDepset, \<lparr>projection = ''compile_jars'', policy = Plain\<rparr>),
      (''runtime_jars'', KDepset, \<lparr>projection = ''runtime_jars'', policy = PrunedBy ''neverlink''\<rparr>)]"
  "dep_folds builtin_registry ''PyInfo'' = [(''srcs'', KSet, \<lparr>projection = ''py_srcs'', policy = Plain\<rparr>)]"
  "dep_folds builtin_registry ''RustLinkInfo'' = [(''bs_flags'', KSet, \<lparr>projection = ''rust_link_bs_flags'', policy = Plain\<rparr>)]"
  by code_simp+

lemma fold_fields_all:
  "fold_dep_fields d k =
     [(''cflags'', to_strs (fold_set d k ''CcInfo'' ''cflags'')), (''headers'', to_strs (fold_set d k ''CcInfo'' ''hdrs'')),
      (''libs'', to_strs (fold_set d k ''CcInfo'' ''libs'')),
      (''compile_jars'', to_strs (fold_depset d k ''JavaInfo'' ''compile_jars'')),
      (''runtime_jars'', to_strs (fold_depset_pruned d k ''JavaInfo'' ''runtime_jars'' ''neverlink'')),
      (''py_srcs'', to_strs (fold_set d k ''PyInfo'' ''srcs'')),
      (''rust_link_bs_flags'', to_strs (fold_set d k ''RustLinkInfo'' ''bs_flags''))]"
  unfolding fold_dep_fields_def builtin_types
  by (simp add: builtin_folds fold_one_def List.map_filter_simps)

definition set_projections :: "(string \<times> string \<times> string) list" where
  "set_projections =
     [(''cflags'', ''CcInfo'', ''cflags''), (''headers'', ''CcInfo'', ''hdrs''), (''libs'', ''CcInfo'', ''libs''),
      (''py_srcs'', ''PyInfo'', ''srcs''), (''rust_link_bs_flags'', ''RustLinkInfo'', ''bs_flags'')]"

lemma seven_fields:
  "map_of (rev [(''cflags'', a), (''headers'', b), (''libs'', c), (''compile_jars'', d), (''runtime_jars'', e), (''py_srcs'', f),
     (''rust_link_bs_flags'', g)]) =
   [''cflags'' \<mapsto> a, ''headers'' \<mapsto> b, ''libs'' \<mapsto> c, ''compile_jars'' \<mapsto> d, ''runtime_jars'' \<mapsto> e, ''py_srcs'' \<mapsto> f,
    ''rust_link_bs_flags'' \<mapsto> g]"
  by simp

lemma projected_field:
  assumes "(proj, ty, field) \<in> set set_projections"
  shows "map_of (rev (fold_dep_fields d k)) proj = Some (to_strs (fold_set d k ty field)) \<and> ty \<noteq> ''DefaultInfo''"
proof -
  have "(proj, ty, field) = (''cflags'', ''CcInfo'', ''cflags'') \<or> (proj, ty, field) = (''headers'', ''CcInfo'', ''hdrs'') \<or>
      (proj, ty, field) = (''libs'', ''CcInfo'', ''libs'') \<or> (proj, ty, field) = (''py_srcs'', ''PyInfo'', ''srcs'') \<or>
      (proj, ty, field) = (''rust_link_bs_flags'', ''RustLinkInfo'', ''bs_flags'')"
    using assms unfolding set_projections_def by (simp only: list.set insert_iff empty_iff HOL.simp_thms)
  then show ?thesis
    unfolding fold_fields_all seven_fields by (elim disjE) (simp_all only: prod.inject, simp_all)
qed

text \<open>In a session that records each target once and before the targets that depend on it, with resolutions of recorded
  dependencies in between, the cached folds included, a resolved dependency shows its own files and, for every set-valued
  field, exactly what the targets in the closure of its dependencies provide.\<close>

theorem dependents_see_closure:
  assumes "facts_reach s" "fs_results s canon = Some t" "resolve_recorded canon t s = Ok (di, s')"
    and "(proj, ty, field) \<in> set set_projections"
  shows "di_libs di = default_info t \<and>
    (\<exists>k. target_key_of single_instance t = Some k \<and>
       set (dep_field di proj) = closure_strs single_instance (fs_targets s) k ty field)"
proof -
  have inv: "facts_inv s" using assms(1) by (rule facts_reach_inv)
  from assms(3) obtain fvs where f: "dep_fields canon s = Ok (fvs, s')" and di: "di_fields di = bm_of fvs" "di_libs di = default_info t"
    by (auto simp: resolve_recorded_def res_bind_Inr_iff)
  from dep_fields_live [OF inv assms(2) f] obtain k where
    k: "target_key_of single_instance t = Some k" "fvs = fold_dep_fields (session_dds s) k" by blast
  note p = projected_field [OF assms(4), of "session_dds s" k]
  have "dep_field di proj = to_strs (fold_set (session_dds s) k ty field)"
    using p by (simp add: dep_field_def di(1) k(2) bm_get_of)
  then have "set (dep_field di proj) = closure_strs single_instance (fs_targets s) k ty field"
    using closure_of_set_field [OF facts_invD(1-3) [OF inv]] p by simp
  with k(1) di(2) show ?thesis by blast
qed

subsection \<open>A session\<close>

definition demo_base :: analyzed_target where
  "demo_base = \<lparr>at_name = ''//p:b'', at_deps = [], at_actions = [], default_info = [''b.a''],
     at_providers = [((''CcInfo'', ''hdrs''), FSet [SStr ''b.h''])]\<rparr>"

definition demo_app :: analyzed_target where
  "demo_app = \<lparr>at_name = ''//p:a'', at_deps = [''//p:b''], at_actions = [], default_info = [''a.a''],
     at_providers = [((''CcInfo'', ''hdrs''), FSet [SStr ''a.h''])]\<rparr>"

definition demo_facts1 :: dds where
  "demo_facts1 = snd (assert_target single_instance demo_base new_store)"

definition demo_facts2 :: dds where
  "demo_facts2 = snd (assert_target single_instance demo_app demo_facts1)"

definition demo_session :: facts_session where
  "demo_session = \<lparr>fs_dds = Some demo_facts2, fs_results = [''//p:b'' \<mapsto> demo_base, ''//p:a'' \<mapsto> demo_app],
     fs_targets = [demo_base, demo_app], fs_fold_cache = Map.empty\<rparr>"

lemma demo_asserted:
  "fst (assert_target single_instance demo_base new_store) = None"
  "fst (assert_target single_instance demo_app demo_facts1) = None"
  "target_key_of single_instance demo_base = Some (TargetKey 0 (Label [] ''p'' ''b''))"
  "target_key_of single_instance demo_app = Some (TargetKey 0 (Label [] ''p'' ''a''))"
  "bm_ok (at_providers demo_base)" "bm_ok (at_providers demo_app)"
  "loader_key single_instance ''//p:a'' = Ok (TargetKey 0 (Label [] ''p'' ''a''))"
  by code_simp+

lemma demo_names: "at_name demo_base = ''//p:b''" "at_name demo_app = ''//p:a''" "at_deps demo_base = []"
  by (simp_all add: demo_base_def demo_app_def)

lemma demo_session_reach: "facts_reach demo_session"
proof -
  let ?s0 = "\<lparr>fs_dds = None, fs_results = Map.empty, fs_targets = [], fs_fold_cache = Map.empty\<rparr> :: facts_session"
  let ?s1 = "\<lparr>fs_dds = Some demo_facts1, fs_results = [''//p:b'' \<mapsto> demo_base], fs_targets = [demo_base],
    fs_fold_cache = Map.empty\<rparr> :: facts_session"
  have a1: "assert_target single_instance demo_base new_store = (None, demo_facts1)"
    and a2: "assert_target single_instance demo_app demo_facts1 = (None, demo_facts2)"
    using demo_asserted(1,2) by (simp_all add: prod_eq_iff demo_facts1_def demo_facts2_def)
  have r1: "record_target demo_base ?s0 = Some ?s1"
    by (simp add: record_target_def session_dds_def a1 demo_names)
  have r2: "record_target demo_app ?s1 = Some demo_session"
    by (simp add: record_target_def session_dds_def a2 demo_session_def demo_names)
  have "facts_reach ?s1"
    by (rule fr_record [OF fr_init r1 demo_asserted(3) demo_asserted(5)]) (simp_all add: target_edges_def)
  then show ?thesis
    by (rule fr_record [OF _ r2 demo_asserted(4) demo_asserted(6)])
      (simp_all add: target_edges_def demo_asserted(3) demo_names)
qed

theorem dependents_see_closure_witness:
  "\<exists>di s'. resolve_recorded ''//p:a'' demo_app demo_session = Ok (di, s') \<and>
     set (dep_field di ''headers'') =
       closure_strs single_instance [demo_base, demo_app] (TargetKey 0 (Label [] ''p'' ''a'')) ''CcInfo'' ''hdrs''"
proof -
  have res: "fs_results demo_session ''//p:a'' = Some demo_app" by (simp add: demo_session_def)
  have "resolve_recorded ''//p:a'' demo_app demo_session \<noteq> Inl e" for e
    by (simp add: resolve_recorded_def dep_fields_def demo_session_def demo_asserted(7) Let_def)
  then obtain di s' where r: "resolve_recorded ''//p:a'' demo_app demo_session = Ok (di, s')"
    by (cases "resolve_recorded ''//p:a'' demo_app demo_session") auto
  have p: "(''headers'', ''CcInfo'', ''hdrs'') \<in> set set_projections" by (simp add: set_projections_def)
  from dependents_see_closure [OF demo_session_reach res r p] demo_asserted(4)
  have "set (dep_field di ''headers'') =
      closure_strs single_instance (fs_targets demo_session) (TargetKey 0 (Label [] ''p'' ''a'')) ''CcInfo'' ''hdrs''" by simp
  with r show ?thesis by (auto simp: demo_session_def)
qed

end
