(* ===== verification/Loader_Again.thy ===== *)
theory Loader_Again
  imports Loader_Dds_Props
begin

section \<open>Recording a target again\<close>

text \<open>
  Two workers may analyze the same target (\<^verbatim>\<open>state/types.rs\<close>: results overwrite by label, the idempotent
  re-analysis).  The store merges instead of overwriting; a second assertion of the same facts changes
  nothing and never panics.  The producers of razel-analysis fill a store as the loader does.
\<close>

subsection \<open>Merging what is there\<close>

fun value_sorted :: "field_value \<Rightarrow> bool" where
  "value_sorted (FSet s) \<longleftrightarrow> bs_ok s"
| "value_sorted _ \<longleftrightarrow> True"

definition provider_sorted :: "dds_provider \<Rightarrow> bool" where
  "provider_sorted p \<longleftrightarrow> bm_ok p \<and> (\<forall>(f, v) \<in> set p. value_sorted v)"

definition absorbs :: "provider_type_id \<Rightarrow> dds_provider \<Rightarrow> dds_provider \<Rightarrow> bool" where
  "absorbs ty q p \<longleftrightarrow> (\<forall>(f, v) \<in> set p. \<exists>m. bm_get q f = Some m \<and> merge_value m v ty f = Inr m)"

lemma append_dedup_set: "set (append_dedup a b) = set a \<union> set b"
  by (induction a b rule: append_dedup.induct) auto

lemma append_dedup_in: "set b \<subseteq> set a \<Longrightarrow> append_dedup a b = a"
  by (induction a b rule: append_dedup.induct) auto

lemma bs_extend_in: "bs_ok a \<Longrightarrow> set b \<subseteq> set a \<Longrightarrow> bs_extend a b = a"
  by (rule bs_eq_by_set) auto

lemma merge_value_sorted: "merge_value a b ty f = Inr m \<Longrightarrow> value_sorted a \<Longrightarrow> value_sorted m"
  by (induction a b ty f rule: merge_value.induct) (auto split: if_splits)

lemma merge_value_again: "merge_value a b ty f = Inr m \<Longrightarrow> value_sorted a \<Longrightarrow> merge_value m b ty f = Inr m"
  by (induction a b ty f rule: merge_value.induct)
    (auto split: if_splits simp: append_dedup_in append_dedup_set bs_extend_in)

lemma merge_value_keeps:
  "merge_value a b ty f = Inr m \<Longrightarrow> value_sorted a \<Longrightarrow> merge_value a w ty f = Inr a \<Longrightarrow> merge_value m w ty f = Inr m"
proof (induction a b ty f rule: merge_value.induct)
  case (2 a b prov field)
  obtain s where w: "w = FSet s" using 2(3) by (cases w) auto
  with 2 have "bs_extend a s = a" by simp
  then have "set s \<subseteq> set a" by (metis Un_upper2 set_bs_extend)
  then have "bs_extend (bs_extend a b) s = bs_extend a b" using 2(2) by (intro bs_extend_in) auto
  with 2 w show ?case by auto
next
  case (3 a b prov field)
  obtain s where w: "w = FDepset s" using 3(3) by (cases w) auto
  with 3 have "append_dedup a s = a" by simp
  then have "set s \<subseteq> set a" by (metis Un_upper2 append_dedup_set)
  then have "append_dedup (append_dedup a b) s = append_dedup a b" by (intro append_dedup_in) (auto simp: append_dedup_set)
  with 3 w show ?case by auto
qed (auto split: if_splits)

lemma merge_value_same: "value_sorted v \<Longrightarrow> merge_value v v ty f = Inr v"
  by (cases v) (auto simp: append_dedup_in bs_extend_in)

lemma sorted_get: "provider_sorted p \<Longrightarrow> bm_get p f = Some v \<Longrightarrow> value_sorted v"
  by (auto simp: provider_sorted_def dest: bm_get_Some_in_set)

lemma provider_sorted_insert: "provider_sorted p \<Longrightarrow> value_sorted v \<Longrightarrow> provider_sorted (bm_insert f v p)"
  unfolding provider_sorted_def
proof (intro conjI ballI)
  assume p: "bm_ok p \<and> (\<forall>(f, v) \<in> set p. value_sorted v)" and v: "value_sorted v"
  show ok: "bm_ok (bm_insert f v p)" using p by simp
  fix x assume "x \<in> set (bm_insert f v p)"
  moreover obtain g w where x: "x = (g, w)" by (cases x)
  ultimately have "bm_get (bm_insert f v p) g = Some w" using ok by (simp only: bm_get_in_set)
  then show "case x of (f, v) \<Rightarrow> value_sorted v"
    using p v x by (auto split: if_splits dest: bm_get_Some_in_set)
qed

lemma absorbs_self: "provider_sorted p \<Longrightarrow> absorbs ty p p"
  unfolding absorbs_def
  by (auto simp: provider_sorted_def bm_get_in_set merge_value_same split: prod.splits)

lemma merge_fields_grows:
  "merge_fields ty fs q = (None, q') \<Longrightarrow> provider_sorted q \<Longrightarrow> \<forall>(f, v) \<in> set fs. value_sorted v \<Longrightarrow>
   provider_sorted q' \<and> (\<forall>p. absorbs ty q p \<longrightarrow> absorbs ty q' p) \<and> absorbs ty q' fs"
proof (induction ty fs q rule: merge_fields.induct)
  case (1 ty q)
  then show ?case by (simp add: absorbs_def)
next
  case (2 ty f v fs q)
  define m where "m = (case bm_get q f of None \<Rightarrow> Inr v | Some cur \<Rightarrow> merge_value cur v ty f)"
  obtain w where w: "m = Inr w" and rest: "merge_fields ty fs (bm_insert f w q) = (None, q')"
    using 2(3) by (auto simp: m_def split: option.splits sum.splits)
  have v: "value_sorted v" using 2(5) by simp
  have ws: "value_sorted w \<and> merge_value w v ty f = Inr w"
  proof (cases "bm_get q f")
    case None
    with w v merge_value_same [OF v] show ?thesis by (simp add: m_def)
  next
    case (Some cur)
    then have "merge_value cur v ty f = Inr w" "value_sorted cur" using w sorted_get [OF 2(4)] by (simp_all add: m_def)
    then show ?thesis by (blast intro: merge_value_sorted merge_value_again)
  qed
  have keep: "absorbs ty (bm_insert f w q) p" if "absorbs ty q p" for p
    unfolding absorbs_def
  proof (clarify)
    fix g u assume "(g, u) \<in> set p"
    with that obtain c where c: "bm_get q g = Some c" "merge_value c u ty g = Inr c" by (auto simp: absorbs_def)
    show "\<exists>m. bm_get (bm_insert f w q) g = Some m \<and> merge_value m u ty g = Inr m"
      using c w merge_value_keeps [OF _ sorted_get [OF 2(4) c(1)] c(2)] by (auto simp: m_def)
  qed
  have ih: "provider_sorted q' \<and> (\<forall>p. absorbs ty (bm_insert f w q) p \<longrightarrow> absorbs ty q' p) \<and> absorbs ty q' fs"
  proof (cases "bm_get q f")
    case None
    with 2(1) [OF None] rest w 2(5) provider_sorted_insert [OF 2(4) conjunct1 [OF ws]] show ?thesis by (simp add: m_def)
  next
    case (Some cur)
    with 2(2) [OF Some, of w] rest w 2(5) provider_sorted_insert [OF 2(4) conjunct1 [OF ws]] show ?thesis by (simp add: m_def)
  qed
  have "absorbs ty (bm_insert f w q) [(f, v)]" using ws by (simp add: absorbs_def)
  with ih have "absorbs ty q' [(f, v)]" by blast
  then have "absorbs ty q' ((f, v) # fs)" using ih by (simp add: absorbs_def)
  with ih keep show ?case by blast
qed

lemma merge_fields_again: "absorbs ty q fs \<Longrightarrow> bm_ok q \<Longrightarrow> merge_fields ty fs q = (None, q)"
proof (induction ty fs q rule: merge_fields.induct)
  case (2 ty f v fs q)
  obtain m where m: "bm_get q f = Some m" "merge_value m v ty f = Inr m" using 2(3) by (auto simp: absorbs_def)
  have same: "bm_insert f m q = q" by (rule bm_eq_by_get) (use 2(4) m in auto)
  have "absorbs ty q fs" using 2(3) by (simp add: absorbs_def)
  with 2(2) [OF m] 2(4) same have "merge_fields ty fs q = (None, q)" by simp
  with m same show ?case by simp
qed simp

subsection \<open>Asserting again\<close>

definition store_sorted :: "dds \<Rightarrow> bool" where
  "store_sorted d \<longleftrightarrow> bm_ok (providers d) \<and> (\<forall>k ty p. provider_of d k ty = Some p \<longrightarrow> provider_sorted p)"

definition holds :: "target_key \<Rightarrow> dds \<Rightarrow> provider_type_id \<Rightarrow> dds_provider \<Rightarrow> bool" where
  "holds k d ty p \<longleftrightarrow>
     (\<exists>schema q. bm_get (schemas d) ty = Some schema \<and> check_fields schema ty p = None \<and>
        provider_of d k ty = Some q \<and> absorbs ty q p)"

lemma assert_holding:
  assumes "holds k d ty p" "store_sorted d"
  shows "dds_assert k ty p d = (None, d)"
proof -
  obtain schema q where h: "bm_get (schemas d) ty = Some schema" "check_fields schema ty p = None"
    "bm_get (providers d) (k, ty) = Some q" "absorbs ty q p"
    using assms(1) by (auto simp: holds_def provider_of_def)
  have q: "bm_ok q" using assms(2) h(3) by (auto simp: store_sorted_def provider_sorted_def provider_of_def)
  have "bm_insert (k, ty) q (providers d) = providers d"
    by (rule bm_eq_by_get) (use assms(2) h(3) in \<open>auto simp: store_sorted_def\<close>)
  then show ?thesis using h merge_fields_again [OF h(4) q] by (simp add: dds_assert_def)
qed

lemma assert_makes_hold:
  assumes a: "dds_assert k ty p d = (None, d')" and s: "store_sorted d" and p: "provider_sorted p"
  shows "store_sorted d' \<and> holds k d' ty p \<and> (\<forall>ty' p'. holds k d ty' p' \<longrightarrow> holds k d' ty' p')"
proof -
  obtain schema where sc: "bm_get (schemas d) ty = Some schema" "check_fields schema ty p = None"
    using a by (auto simp: dds_assert_def split: option.splits prod.splits)
  obtain q where q: "d' = d\<lparr>providers := bm_insert (k, ty) q (providers d)\<rparr>" "provider_sorted q" "absorbs ty q p"
    "\<forall>q0 p'. provider_of d k ty = Some q0 \<longrightarrow> absorbs ty q0 p' \<longrightarrow> absorbs ty q p'"
  proof (cases "provider_of d k ty")
    case None
    then show ?thesis
      using a sc p absorbs_self [OF p] by (intro that [of p]) (simp_all add: dds_assert_def provider_of_def)
  next
    case (Some q0)
    then obtain q where m: "merge_fields ty p q0 = (None, q)" and d': "d' = d\<lparr>providers := bm_insert (k, ty) q (providers d)\<rparr>"
      using a sc by (auto simp: dds_assert_def provider_of_def split: prod.splits)
    have "provider_sorted q0" using s Some by (simp add: store_sorted_def)
    from merge_fields_grows [OF m this] p d' Some show ?thesis
      by (intro that [of q]) (auto simp: provider_sorted_def)
  qed
  have prov: "provider_of d' k' ty' = (if (k', ty') = (k, ty) then Some q else provider_of d k' ty')" for k' ty'
    by (auto simp: q(1) provider_of_def)
  have "schemas d' = schemas d" by (simp add: q(1))
  then have "holds k d' ty p" using sc q(3) by (simp add: holds_def prov)
  moreover have "store_sorted d'" using s q(2) by (auto simp: store_sorted_def prov) (simp add: q(1))
  moreover have "holds k d' ty' p'" if "holds k d ty' p'" for ty' p'
    using that q(4) \<open>schemas d' = schemas d\<close> by (cases "ty' = ty") (auto simp: holds_def prov)
  ultimately show ?thesis by blast
qed

lemma assert_facts_hold:
  "assert_facts k fs d = (None, d') \<Longrightarrow> store_sorted d \<Longrightarrow> \<forall>(ty, p) \<in> set fs. provider_sorted p \<Longrightarrow>
   store_sorted d' \<and> (\<forall>(ty, p) \<in> set fs. holds k d' ty p) \<and> (\<forall>ty p. holds k d ty p \<longrightarrow> holds k d' ty p)"
proof (induction k fs d rule: assert_facts.induct)
  case (2 k ty p fs d)
  obtain d1 where a: "dds_assert k ty p d = (None, d1)" and r: "assert_facts k fs d1 = (None, d')"
    using 2(2) by (auto split: prod.splits option.splits)
  have "provider_sorted p" using 2(4) by simp
  note h = assert_makes_hold [OF a 2(3) this]
  have "store_sorted d' \<and> (\<forall>(ty, p) \<in> set fs. holds k d' ty p) \<and> (\<forall>ty p. holds k d1 ty p \<longrightarrow> holds k d' ty p)"
    using 2(1) [OF a [symmetric] refl r] h 2(4) by simp
  with h show ?case by simp
qed simp

lemma assert_facts_holding:
  "\<forall>(ty, p) \<in> set fs. holds k d ty p \<Longrightarrow> store_sorted d \<Longrightarrow> assert_facts k fs d = (None, d)"
  by (induction fs) (auto simp: assert_holding)

text \<open>Recording the same analyzed target once more is accepted and leaves the store as it is.\<close>

theorem record_again:
  assumes "assert_target inst t d = (None, d')" "store_sorted d" "bm_ok (dds_deps d)"
    and "\<forall>(ty, p) \<in> set (target_facts t). provider_sorted p"
  shows "assert_target inst t d' = (None, d') \<and> store_sorted d' \<and> bm_ok (dds_deps d')"
proof -
  obtain k deps d1 where k: "loader_key inst (at_name t) = Ok k" and deps: "res_mapM (loader_key inst) (at_deps t) = Ok deps"
    and f: "assert_facts k (target_facts t) d = (None, d1)" and d': "d' = assert_deps k deps d1"
    using assms(1) by (rule assert_target_Ok)
  note h = assert_facts_hold [OF f assms(2,4)]
  have sorted: "store_sorted d'" using h by (simp add: d' store_sorted_def assert_deps_def provider_of_def)
  have hold: "\<forall>(ty, p) \<in> set (target_facts t). holds k d' ty p"
    using h by (auto simp: d' holds_def assert_deps_def provider_of_def)
  have ok: "bm_ok (dds_deps d')" using assms(3) assert_facts_deps [OF f] by (simp add: d' assert_deps_def)
  have "bm_insert k deps (dds_deps d') = dds_deps d'"
    by (rule bm_eq_by_get) (use ok in \<open>auto simp: d' assert_deps_def\<close>)
  then have "assert_deps k deps d' = d'" by (simp add: assert_deps_def)
  with assert_facts_holding [OF hold sorted] k deps sorted ok show ?thesis by (simp add: assert_target_def)
qed

lemma new_store_sorted: "store_sorted new_store" "bm_ok (dds_deps new_store)"
  using store_schemas_facts [of builtin_registry dds_new]
  by (simp_all add: store_sorted_def provider_of_def new_store_def dds_new_def)

theorem record_again_witness:
  "assert_target single_instance demo_base demo_facts1 = (None, demo_facts1)"
proof -
  have a: "assert_target single_instance demo_base new_store = (None, demo_facts1)"
    using demo_asserted(1) by (simp add: prod_eq_iff demo_facts1_def)
  have "target_facts demo_base =
      [(''DefaultInfo'', [(''files'', FSet [SStr ''b.a''])]), (''CcInfo'', [(''hdrs'', FSet [SStr ''b.h''])])]"
    by code_simp
  then have "\<forall>(ty, p) \<in> set (target_facts demo_base). provider_sorted p" by (simp add: provider_sorted_def)
  from record_again [OF a new_store_sorted this] show ?thesis by blast
qed

subsection \<open>Producers\<close>

definition cc_target :: "target_attrs \<Rightarrow> analyzed_target" where
  "cc_target a =
     \<lparr>at_name = ta_name a, at_deps = ta_deps a, at_actions = [], default_info = [''lib'' @ ta_name a @ ''.a''],
      at_providers = [((''CcInfo'', ''cflags''), loader_set (ta_cflags a)), ((''CcInfo'', ''hdrs''), loader_set (ta_hdrs a))]\<rparr>"

lemma cc_library_facts: "target_facts (cc_target a) = cc_library key a d"
  by (simp add: target_facts_def cc_target_def cc_library_def providers_by_type_def gather_provider_def provider_with_def
      bm_entry_def bm_get_def)

text \<open>Assembling \<open>cc_library\<close> declarations is asserting the targets they stand for.\<close>

lemma assemble_cc:
  "assemble_into inst (map (\<lambda>a. (a, cc_library)) as) d = assert_targets inst (map cc_target as) d"
proof (induction as arbitrary: d)
  case (Cons a as)
  have "at_name (cc_target a) = ta_name a" "at_deps (cc_target a) = ta_deps a" by (simp_all add: cc_target_def)
  with Cons show ?case
    by (simp add: assert_target_def cc_library_facts [of a, symmetric] split: sum.split prod.split option.split)
qed simp

end
