(* ===== verification/Make_Vars.thy ===== *)
theory Make_Vars
  imports Std_Text Paths
begin

section \<open>The command of a genrule\<close>

text \<open>
  \<^verbatim>\<open>crates/razel-loading/src/genrule_cmd.rs\<close>: the Make variables of a genrule's \<open>cmd\<close>.  \<open>loc\<close> lists, for every
  source, output and tool as it is written, the paths it stands for.
\<close>

subsection \<open>The expansion\<close>

definition not_in_genrule_text :: "string \<Rightarrow> string" where
  "not_in_genrule_text x = ''$(location '' @ x @ ''): `'' @ x @ ''` is not in this genrule's srcs/outs/tools''"

definition one_output_text :: string where
  "one_output_text = ''$@ requires exactly one output (genrule)''"

definition one_src_text :: string where
  "one_src_text = ''$< requires exactly one src (genrule)''"

definition one_paren_output_text :: string where
  "one_paren_output_text = ''$(@) needs exactly one output''"

definition many_files_text :: "string \<Rightarrow> nat \<Rightarrow> string" where
  "many_files_text x n =
     ''$(location '' @ x @ '') matches '' @ dec n @ '' files '' @ [CHR 0xE2, CHR 0x80, CHR 0x94] @
     '' use $(locations '' @ [CHR 0xE2, CHR 0x80, CHR 0xA6] @ '')''"

definition not_modeled_text :: "string \<Rightarrow> string" where
  "not_modeled_text inner =
     ''$('' @ inner @ '') is not a modeled genrule Make variable (razel models SRCS/OUTS/location/locations)''"

definition escape_text :: "string \<Rightarrow> string" where
  "escape_text c = ''unsupported `$` escape `$'' @ c @ ''` in genrule cmd''"

type_synonym locations = "(string \<times> string list) list"

record genrule_env =
  ge_srcs :: "string list"
  ge_outs :: "string list"
  ge_loc :: locations
  ge_out_dir :: string

definition lookup_location :: "locations \<Rightarrow> string \<Rightarrow> string + string list" where
  "lookup_location loc x =
     (case List.find (\<lambda>(k, _). k = x) loc of
        Some (_, v) \<Rightarrow> Ok v
      | None \<Rightarrow>
          (case List.find (\<lambda>(k, _). trim_start (CHR '':'') k = trim_start (CHR '':'') x) loc of
             Some (_, v) \<Rightarrow> Ok v
           | None \<Rightarrow> Err (not_in_genrule_text x)))"

definition exactly_one :: "string \<Rightarrow> string list \<Rightarrow> string + string" where
  "exactly_one e xs = (case xs of [one] \<Rightarrow> Ok one | _ \<Rightarrow> Err e)"

text \<open>The value of \<open>$(inner)\<close>.\<close>

definition make_var :: "genrule_env \<Rightarrow> string \<Rightarrow> string + string" where
  "make_var g inner =
     (case split_once inner (CHR '' '') of
        None \<Rightarrow>
          if inner = ''SRCS'' then Ok (join_with '' '' (ge_srcs g))
          else if inner = ''OUTS'' then Ok (join_with '' '' (ge_outs g))
          else if inner = ''@D'' \<or> inner = ''RULEDIR'' then Ok (ge_out_dir g)
          else if inner = ''GENDIR'' \<or> inner = ''BINDIR'' then Ok ''bazel-out/bin''
          else if inner = ''COMPILATION_MODE'' then Ok ''fastbuild''
          else if inner = ''TARGET_CPU'' then Ok ''darwin_arm64''
          else if inner = ''@'' then exactly_one one_paren_output_text (ge_outs g)
          else Err (not_modeled_text inner)
      | Some (kind, x) \<Rightarrow>
          if kind \<in> {''location'', ''rootpath'', ''execpath''} then
            res_bind (lookup_location (ge_loc g) (str_trim x)) (\<lambda>v.
            exactly_one (many_files_text x (length v)) v)
          else if kind \<in> {''locations'', ''rootpaths'', ''execpaths''} then
            map_sum id (join_with '' '') (lookup_location (ge_loc g) (str_trim x))
          else Err (not_modeled_text inner))"

lemma dropWhile_length: "length (dropWhile P xs) \<le> length xs"
  by (induction xs) auto

function expand_cmd :: "genrule_env \<Rightarrow> string \<Rightarrow> string + string" where
  "expand_cmd g [] = Ok []"
| "expand_cmd g (c # cs) =
     (if c \<noteq> CHR ''$'' then map_sum id (Cons c) (expand_cmd g cs)
      else
        (case cs of
           [] \<Rightarrow> Err (escape_text [])
         | d # rest \<Rightarrow>
             if d = CHR ''$'' then map_sum id (Cons (CHR ''$'')) (expand_cmd g rest)
             else if d = CHR ''@'' then
               res_bind (exactly_one one_output_text (ge_outs g)) (\<lambda>v. map_sum id ((@) v) (expand_cmd g rest))
             else if d = CHR ''<'' then
               res_bind (exactly_one one_src_text (ge_srcs g)) (\<lambda>v. map_sum id ((@) v) (expand_cmd g rest))
             else if d = CHR ''('' then
               res_bind (make_var g (takeWhile (\<lambda>x. x \<noteq> CHR '')'') rest)) (\<lambda>v.
               map_sum id ((@) v) (expand_cmd g (tl (dropWhile (\<lambda>x. x \<noteq> CHR '')'') rest))))
             else Err (escape_text (whole_char d rest))))"
  by pat_completeness auto
termination
  by (relation "measure (\<lambda>(g, s). length s)") (auto simp: less_Suc_eq_le le_SucI le_trans [OF diff_le_self le_SucI [OF dropWhile_length]])

declare expand_cmd.simps [simp del]

definition expand_genrule_cmd :: "string \<Rightarrow> string list \<Rightarrow> string list \<Rightarrow> locations \<Rightarrow> string \<Rightarrow> string + string" where
  "expand_genrule_cmd cmd srcs outs loc odir =
     expand_cmd \<lparr>ge_srcs = srcs, ge_outs = outs, ge_loc = loc, ge_out_dir = odir\<rparr> cmd"

subsection \<open>Templates\<close>

text \<open>A command as pieces: literal text, the escaped dollar, the short forms, and a variable in parentheses.\<close>

datatype make_piece = MLit string | MDollar | MOut | MSrc | MVar string

fun make_text :: "make_piece \<Rightarrow> string" where
  "make_text (MLit l) = l"
| "make_text MDollar = ''$$''"
| "make_text MOut = ''$@''"
| "make_text MSrc = ''$<''"
| "make_text (MVar v) = ''$('' @ v @ '')''"

fun make_ok :: "make_piece \<Rightarrow> bool" where
  "make_ok (MLit l) \<longleftrightarrow> CHR ''$'' \<notin> set l"
| "make_ok (MVar v) \<longleftrightarrow> CHR '')'' \<notin> set v"
| "make_ok _ \<longleftrightarrow> True"

fun make_value :: "genrule_env \<Rightarrow> make_piece \<Rightarrow> string + string" where
  "make_value g (MLit l) = Ok l"
| "make_value g MDollar = Ok ''$''"
| "make_value g MOut = exactly_one one_output_text (ge_outs g)"
| "make_value g MSrc = exactly_one one_src_text (ge_srcs g)"
| "make_value g (MVar v) = make_var g v"

definition pieces_text :: "make_piece list \<Rightarrow> string" where
  "pieces_text ps = concat (map make_text ps)"

definition pieces_value :: "genrule_env \<Rightarrow> make_piece list \<Rightarrow> string + string" where
  "pieces_value g ps = map_sum id concat (res_mapM (make_value g) ps)"

lemma pieces_simps [simp]:
  "pieces_text [] = []" "pieces_text (p # ps) = make_text p @ pieces_text ps"
  "pieces_value g [] = Ok []"
  "pieces_value g (p # ps) = res_bind (make_value g p) (\<lambda>v. map_sum id ((@) v) (pieces_value g ps))"
  by (simp_all add: pieces_text_def pieces_value_def res_bind_def split: sum.split)

lemma expand_lit: "CHR ''$'' \<notin> set l \<Longrightarrow> expand_cmd g (l @ cs) = map_sum id ((@) l) (expand_cmd g cs)"
  by (induction l; cases "expand_cmd g cs") (auto simp: expand_cmd.simps)

lemma takeWhile_close: "CHR '')'' \<notin> set v \<Longrightarrow> takeWhile (\<lambda>x. x \<noteq> CHR '')'') (v @ CHR '')'' # r) = v"
  "CHR '')'' \<notin> set v \<Longrightarrow> dropWhile (\<lambda>x. x \<noteq> CHR '')'') (v @ CHR '')'' # r) = CHR '')'' # r"
  by (induction v) auto

lemma expand_pieces: "list_all make_ok ps \<Longrightarrow> expand_cmd g (pieces_text ps) = pieces_value g ps"
proof (induction ps)
  case Nil
  show ?case by (simp add: expand_cmd.simps)
next
  case (Cons p ps)
  then have ih: "expand_cmd g (pieces_text ps) = pieces_value g ps" by simp
  show ?case
  proof (cases p)
    case (MLit l)
    with Cons.prems ih show ?thesis by (simp add: expand_lit)
  next
    case (MVar v)
    with Cons.prems ih show ?thesis by (simp add: expand_cmd.simps takeWhile_close)
  qed (use ih in \<open>cases "pieces_value g ps"; simp add: expand_cmd.simps\<close>)+
qed

text \<open>Every command that is accepted is such a sequence, but for a last parenthesis that may be missing.\<close>

definition template_of :: "string \<Rightarrow> make_piece list \<Rightarrow> bool" where
  "template_of cmd ps \<longleftrightarrow> list_all make_ok ps \<and> (cmd = pieces_text ps \<or> cmd @ '')'' = pieces_text ps)"

lemma template_Cons: "template_of cmd ps \<Longrightarrow> make_ok p \<Longrightarrow> template_of (make_text p @ cmd) (p # ps)"
  by (auto simp: template_of_def)

lemma pieces_value_Cons:
  "make_value g p = Ok v \<Longrightarrow> pieces_value g ps = Ok out \<Longrightarrow> pieces_value g (p # ps) = Ok (v @ out)"
  by simp

lemma close_cases:
  obtains (closed) "rest = takeWhile (\<lambda>x. x \<noteq> CHR '')'') rest @ CHR '')'' # tl (dropWhile (\<lambda>x. x \<noteq> CHR '')'') rest)"
  | (unclosed) "CHR '')'' \<notin> set rest" "takeWhile (\<lambda>x. x \<noteq> CHR '')'') rest = rest" "dropWhile (\<lambda>x. x \<noteq> CHR '')'') rest = []"
proof (cases "CHR '')'' \<in> set rest")
  case True
  then have "dropWhile (\<lambda>x. x \<noteq> CHR '')'') rest \<noteq> []" by (induction rest) auto
  then have "dropWhile (\<lambda>x. x \<noteq> CHR '')'') rest = CHR '')'' # tl (dropWhile (\<lambda>x. x \<noteq> CHR '')'') rest)"
    using hd_dropWhile [of "\<lambda>x. x \<noteq> CHR '')''" rest] by (cases "dropWhile (\<lambda>x. x \<noteq> CHR '')'') rest") auto
  then show ?thesis using closed by (metis takeWhile_dropWhile_id)
next
  case False
  then have "takeWhile (\<lambda>x. x \<noteq> CHR '')'') rest = rest" "dropWhile (\<lambda>x. x \<noteq> CHR '')'') rest = []"
    by (induction rest) auto
  with False show ?thesis using unclosed by blast
qed

lemma map_sum_Ok: "map_sum id f r = Ok y \<longleftrightarrow> (\<exists>x. r = Ok x \<and> y = f x)"
  by (cases r) auto

lemma make_text_not_Nil: "p \<noteq> MLit [] \<Longrightarrow> make_text p \<noteq> []"
  by (cases p) auto

lemma expand_template: "expand_cmd g cmd = Ok out \<Longrightarrow> \<exists>ps. template_of cmd ps \<and> pieces_value g ps = Ok out"
proof (induction "length cmd" arbitrary: cmd out rule: less_induct)
  case less
  have step: ?case if t: "cmd = make_text p @ rest" "p \<noteq> MLit []" "make_ok p" "make_value g p = Ok v" "out = v @ out'"
    and r: "expand_cmd g rest = Ok out'" for p rest v out'
  proof -
    have "length rest < length cmd" using t(1) make_text_not_Nil [OF t(2)] by simp
    from less(1) [OF this r] obtain ps where "template_of rest ps" "pieces_value g ps = Ok out'" by auto
    with t show ?thesis using template_Cons pieces_value_Cons by metis
  qed
  show ?case
  proof (cases cmd)
    case Nil
    with less(2) have "template_of cmd [] \<and> pieces_value g [] = Ok out"
      by (simp add: expand_cmd.simps template_of_def)
    then show ?thesis by (rule exI)
  next
    case (Cons c cs)
    note eq = less(2) [unfolded Cons expand_cmd.simps(2)]
    show ?thesis
    proof (cases "c = CHR ''$''")
      case False
      then obtain out' where o: "expand_cmd g cs = Ok out'" "out = [c] @ out'"
        using eq by (simp add: map_sum_Ok) blast
      show ?thesis by (rule step [of "MLit [c]" cs "[c]" out']) (use o False Cons in auto)
    next
      case True
      then obtain d rest where d: "cs = d # rest" using eq by (cases cs) simp_all
      note eq = eq [unfolded d True, simplified]
      consider "d = CHR ''$''" | "d = CHR ''@''" | "d = CHR ''<''" | "d = CHR ''(''"
        using eq by (simp split: if_splits)
      then show ?thesis
      proof cases
        case 1
        then obtain out' where o: "expand_cmd g rest = Ok out'" "out = ''$'' @ out'"
          using eq by (simp add: map_sum_Ok) blast
        show ?thesis by (rule step [of MDollar rest "''$''" out']) (use o 1 Cons True d in auto)
      next
        case 2
        then obtain v out' where o: "exactly_one one_output_text (ge_outs g) = Ok v"
            "expand_cmd g rest = Ok out'" "out = v @ out'"
          using eq by (simp add: map_sum_Ok res_bind_Inr_iff) blast
        show ?thesis by (rule step [of MOut rest v out']) (use o 2 Cons True d in auto)
      next
        case 3
        then obtain v out' where o: "exactly_one one_src_text (ge_srcs g) = Ok v"
            "expand_cmd g rest = Ok out'" "out = v @ out'"
          using eq by (simp add: map_sum_Ok res_bind_Inr_iff) blast
        show ?thesis by (rule step [of MSrc rest v out']) (use o 3 Cons True d in auto)
      next
        case 4
        define inner where "inner = takeWhile (\<lambda>x. x \<noteq> CHR '')'') rest"
        define tail where "tail = tl (dropWhile (\<lambda>x. x \<noteq> CHR '')'') rest)"
        from 4 eq obtain v out' where o: "make_var g inner = Ok v" "expand_cmd g tail = Ok out'" "out = v @ out'"
          unfolding inner_def tail_def by (simp add: map_sum_Ok res_bind_Inr_iff) blast
        have ok: "CHR '')'' \<notin> set inner" unfolding inner_def by (auto dest: set_takeWhileD)
        show ?thesis
        proof (cases rest rule: close_cases)
          case closed
          then have "cmd = make_text (MVar inner) @ tail"
            using Cons True d 4 by (simp add: inner_def tail_def)
          then show ?thesis by (rule step) (use ok o in auto)
        next
          case unclosed
          then have "inner = rest" "tail = []" by (simp_all only: inner_def tail_def list.sel)
          then have "cmd @ '')'' = pieces_text [MVar inner]" using Cons True d 4 by simp
          then have "template_of cmd [MVar inner] \<and> pieces_value g [MVar inner] = Ok out"
            using o ok \<open>tail = []\<close> by (simp add: template_of_def expand_cmd.simps)
          then show ?thesis by (rule exI)
        qed
      qed
    qed
  qed
qed

subsection \<open>The property\<close>

text \<open>no Make variable passes silently.  A genrule's command is accepted exactly as a sequence of literal
  text, the escaped dollar, the short forms and modeled variables, each of which has a value, and the result is the
  concatenation of those values; the only malformed text that is let through is a last variable whose closing
  parenthesis is missing.\<close>

theorem genrule_cmd_exact:
  "(list_all make_ok ps \<longrightarrow>
      expand_genrule_cmd (pieces_text ps) srcs outs loc odir
      = pieces_value \<lparr>ge_srcs = srcs, ge_outs = outs, ge_loc = loc, ge_out_dir = odir\<rparr> ps) \<and>
   (expand_genrule_cmd cmd srcs outs loc odir = Ok out \<longrightarrow>
      (\<exists>qs. list_all make_ok qs \<and> (cmd = pieces_text qs \<or> cmd @ '')'' = pieces_text qs) \<and>
        pieces_value \<lparr>ge_srcs = srcs, ge_outs = outs, ge_loc = loc, ge_out_dir = odir\<rparr> qs = Ok out))"
  using expand_pieces expand_template unfolding expand_genrule_cmd_def template_of_def by blast

definition demo_cmd :: string where
  "demo_cmd = ''cp $< $$X $(OUTS)''"

definition demo_pieces :: "make_piece list" where
  "demo_pieces = [MLit ''cp '', MSrc, MLit '' '', MDollar, MLit ''X '', MVar ''OUTS'']"

lemma demo_cmd_value: "expand_genrule_cmd demo_cmd [''a''] [''b'', ''c''] [] ''d'' = Ok ''cp a $X b c''"
  by code_simp

theorem genrule_cmd_exact_witness:
  "list_all make_ok demo_pieces \<and>
   expand_genrule_cmd (pieces_text demo_pieces) [''a''] [''b'', ''c''] [] ''d'' = Ok ''cp a $X b c'' \<and>
   (\<exists>qs. list_all make_ok qs \<and> (demo_cmd = pieces_text qs \<or> demo_cmd @ '')'' = pieces_text qs) \<and>
     pieces_value \<lparr>ge_srcs = [''a''], ge_outs = [''b'', ''c''], ge_loc = [], ge_out_dir = ''d''\<rparr> qs = Ok ''cp a $X b c'')"
proof -
  have ok: "list_all make_ok demo_pieces" by code_simp
  have v: "pieces_value \<lparr>ge_srcs = [''a''], ge_outs = [''b'', ''c''], ge_loc = [], ge_out_dir = ''d''\<rparr> demo_pieces
           = Ok ''cp a $X b c''" by code_simp
  note p = genrule_cmd_exact [of demo_pieces "[''a'']" "[''b'', ''c'']" "[]" "''d''" demo_cmd "''cp a $X b c''"]
  show ?thesis using p ok v demo_cmd_value by simp
qed

lemma unclosed_variable_accepted: "expand_genrule_cmd ''$(SRCS'' [''a''] [] [] [] = Ok ''a''"
  by code_simp

end
