(* ===== verification/Flag_Table.thy ===== *)
theory Flag_Table
  imports Main
begin

section \<open>The flag table\<close>

text \<open>
  \<^verbatim>\<open>crates/razel-loading/src/bazel_flags.rs\<close>: \<open>FlagSpec\<close> and the table \<open>BAZEL_FLAGS\<close>, entry by entry, in the
  order of the file.  A definition holds up to twenty-one entries; \<open>bazel_flags\<close> is their concatenation.
\<close>

record flag_spec =
  fs_name :: string
  fs_abbrev :: "char option"
  fs_takes_value :: bool
  fs_allow_multiple :: bool
  fs_silent :: bool

definition flag :: "string \<Rightarrow> char option \<Rightarrow> bool \<Rightarrow> bool \<Rightarrow> bool \<Rightarrow> flag_spec" where
  "flag n a v m s = \<lparr>fs_name = n, fs_abbrev = a, fs_takes_value = v, fs_allow_multiple = m, fs_silent = s\<rparr>"

definition bazel_flags_1 :: "flag_spec list" where
  "bazel_flags_1 =
    [flag ''action_cache'' None False False False,
     flag ''action_cache_store_output_metadata'' None False False False,
     flag ''action_env'' None True True False,
     flag ''adb'' None True False False,
     flag ''adb_arg'' None True True False,
     flag ''add_go_exec_groups_to_binary_rules'' None False False False,
     flag ''all'' None False False False,
     flag ''all_repos'' None False False False,
     flag ''all_visible_repos'' None False False False,
     flag ''allow_analysis_cache_discard'' None False False False,
     flag ''allow_analysis_failures'' None False False False,
     flag ''allow_experimental_loads'' None False False False,
     flag ''allow_local_tests'' None False False False,
     flag ''allow_one_action_on_resource_unavailable'' None False False False,
     flag ''allow_unresolved_symlinks'' None False False False,
     flag ''allow_yanked_versions'' None True True False,
     flag ''allowed_cpu_values'' None True False False,
     flag ''allowed_local_actions_regex'' None True False False,
     flag ''allowed_strategies_by_exec_platform'' None True True False,
     flag ''always_profile_slow_operations'' None False False False,
     flag ''analysis_testing_deps_limit'' None True False False]"

definition bazel_flags_2 :: "flag_spec list" where
  "bazel_flags_2 =
    [flag ''analyze'' None False False False,
     flag ''android_compiler'' None True False False,
     flag ''android_cpu'' None True False False,
     flag ''android_crosstool_top'' None True False False,
     flag ''android_dynamic_mode'' None True False False,
     flag ''android_fixed_resource_neverlinking'' None False False False,
     flag ''android_grte_top'' None True False False,
     flag ''android_manifest_merger'' None True False False,
     flag ''android_manifest_merger_order'' None True False False,
     flag ''android_platforms'' None True False False,
     flag ''android_resource_shrinking'' None False False False,
     flag ''android_sdk'' None True False False,
     flag ''announce'' None False False False,
     flag ''announce_rc'' None False False False,
     flag ''apk_signing_method'' None True False False,
     flag ''apple_crosstool_top'' None True False False,
     flag ''apple_generate_dsym'' None False False False,
     flag ''apple_platform_type'' None True False False,
     flag ''apple_platforms'' None True False False,
     flag ''apple_split_cpu'' None True False False,
     flag ''archived_tree_artifact_mnemonics_filter'' None True False False]"

definition bazel_flags_3 :: "flag_spec list" where
  "bazel_flags_3 =
    [flag ''aspect_deps'' None True False False,
     flag ''aspects'' None True True False,
     flag ''aspects_parameters'' None True True False,
     flag ''async'' None False False False,
     flag ''attempt_to_print_relative_paths'' None False False False,
     flag ''auto_cpu_environment_group'' None True False False,
     flag ''auto_output_filter'' None True False False,
     flag ''autodetect_server_javabase'' None False False True,
     flag ''base_module'' None True False False,
     flag ''batch'' None False False True,
     flag ''batch_cpu_scheduling'' None False False True,
     flag ''bazelrc'' None True True True,
     flag ''bep_maximum_open_remote_upload_files'' None True False False,
     flag ''bes_backend'' None True False False,
     flag ''bes_best_effort'' None False False False,
     flag ''bes_check_preceding_lifecycle_events'' None False False False,
     flag ''bes_header'' None True True False,
     flag ''bes_instance_name'' None True False False,
     flag ''bes_keywords'' None True True False,
     flag ''bes_lifecycle_events'' None False False False,
     flag ''bes_oom_finish_upload_timeout'' None True False False]"

definition bazel_flags_4 :: "flag_spec list" where
  "bazel_flags_4 =
    [flag ''bes_outerr_buffer_size'' None True False False,
     flag ''bes_outerr_chunk_size'' None True False False,
     flag ''bes_proxy'' None True False False,
     flag ''bes_results_url'' None True False False,
     flag ''bes_system_keywords'' None True True False,
     flag ''bes_timeout'' None True False False,
     flag ''bes_upload_mode'' None True False False,
     flag ''binary_path'' None True False False,
     flag ''block_for_lock'' None False False True,
     flag ''build'' None False False False,
     flag ''build_event_binary_file'' None True False False,
     flag ''build_event_binary_file_path_conversion'' None False False False,
     flag ''build_event_binary_file_upload_mode'' None True False False,
     flag ''build_event_json_file'' None True False False,
     flag ''build_event_json_file_path_conversion'' None False False False,
     flag ''build_event_json_file_upload_mode'' None True False False,
     flag ''build_event_max_named_set_of_file_entries'' None True False False,
     flag ''build_event_publish_all_actions'' None False False False,
     flag ''build_event_text_file'' None True False False,
     flag ''build_event_text_file_path_conversion'' None False False False,
     flag ''build_event_text_file_upload_mode'' None True False False]"

definition bazel_flags_5 :: "flag_spec list" where
  "bazel_flags_5 =
    [flag ''build_event_upload_max_retries'' None True False False,
     flag ''build_manual_tests'' None False False False,
     flag ''build_metadata'' None True True False,
     flag ''build_python_zip'' None True False False,
     flag ''build_request_id'' None True False False,
     flag ''build_runfile_links'' None False False False,
     flag ''build_runfile_manifests'' None False False False,
     flag ''build_tag_filters'' None True False False,
     flag ''build_test_dwp'' None False False False,
     flag ''build_tests_only'' None False False False,
     flag ''bytecode_optimization_pass_actions'' None True False False,
     flag ''bytecode_optimizers'' None True False False,
     flag ''cache_computed_file_digests'' None True False False,
     flag ''cache_test_results'' (Some (CHR ''t'')) True False False,
     flag ''canonicalize_policy'' None False False False,
     flag ''cc_dotd_files'' None False False False,
     flag ''cc_include_scanning'' None False False False,
     flag ''cc_output_directory_tag'' None True False False,
     flag ''cc_proto_library_header_suffixes'' None True False False,
     flag ''cc_proto_library_source_suffixes'' None True False False,
     flag ''charset'' None True False False]"

definition bazel_flags_6 :: "flag_spec list" where
  "bazel_flags_6 =
    [flag ''check_bazel_compatibility'' None True False False,
     flag ''check_bzl_visibility'' None False False False,
     flag ''check_direct_dependencies'' None True False False,
     flag ''check_fileset_dependencies_recursively'' None False False False,
     flag ''check_licenses'' None False False False,
     flag ''check_tests_up_to_date'' None False False False,
     flag ''check_up_to_date'' None False False False,
     flag ''check_visibility'' None False False False,
     flag ''client_cwd'' None True False False,
     flag ''client_debug'' None False False True,
     flag ''client_env'' None True True False,
     flag ''collapse_duplicate_defines'' None False False False,
     flag ''collect_code_coverage'' None False False False,
     flag ''color'' None True False False,
     flag ''combined_report'' None True False False,
     flag ''command_port'' None True False True,
     flag ''command_wait_time'' None True False False,
     flag ''compilation_mode'' (Some (CHR ''c'')) True False False,
     flag ''compile_one_dependency'' None False False False,
     flag ''compiler'' None True False False,
     flag ''config'' None True True False]"

definition bazel_flags_7 :: "flag_spec list" where
  "bazel_flags_7 =
    [flag ''configure'' None False False False,
     flag ''conlyopt'' None True True False,
     flag ''connect_timeout_secs'' None True False True,
     flag ''consistent_labels'' None False False False,
     flag ''copt'' None True True False,
     flag ''coverage_output_generator'' None True False False,
     flag ''coverage_report_generator'' None True False False,
     flag ''coverage_support'' None True False False,
     flag ''cpu'' None True False False,
     flag ''credential_helper'' None True True False,
     flag ''credential_helper_cache_duration'' None True False False,
     flag ''credential_helper_timeout'' None True False False,
     flag ''crosstool_top'' None True False False,
     flag ''cs_fdo_absolute_path'' None True False False,
     flag ''cs_fdo_instrument'' None True False False,
     flag ''cs_fdo_profile'' None True False False,
     flag ''curses'' None True False False,
     flag ''custom_malloc'' None True False False,
     flag ''cxxopt'' None True True False,
     flag ''cycles'' None False False False,
     flag ''debug_app'' None True False False]"

definition bazel_flags_8 :: "flag_spec list" where
  "bazel_flags_8 =
    [flag ''debug_spawn_scheduler'' None False False False,
     flag ''default_override'' None True True False,
     flag ''default_system_javabase'' None True False True,
     flag ''default_test_resources'' None True True False,
     flag ''default_visibility'' None True False False,
     flag ''defer_param_files'' None False False False,
     flag ''define'' None True True False,
     flag ''deleted_packages'' None True True False,
     flag ''depth'' None True False False,
     flag ''desugar_for_android'' None False False False,
     flag ''desugar_java8_libs'' None False False False,
     flag ''device'' None True False False,
     flag ''device_debug_entitlements'' None False False False,
     flag ''dexopts_supported_in_dexmerger'' None True False False,
     flag ''dexopts_supported_in_dexsharder'' None True False False,
     flag ''dexopts_supported_in_incremental_dexing'' None True False False,
     flag ''digest_function'' None True False True,
     flag ''directory_creation_cache'' None True False False,
     flag ''disallow_strict_deps_for_jpl'' None False False False,
     flag ''discard_actions_after_execution'' None False False False,
     flag ''discard_analysis_cache'' None False False False]"

definition bazel_flags_9 :: "flag_spec list" where
  "bazel_flags_9 =
    [flag ''disk_cache'' None True False False,
     flag ''distdir'' None True True True,
     flag ''downloader_config'' None True True False,
     flag ''dump_all'' None False False False,
     flag ''dynamic_local_execution_delay'' None True False False,
     flag ''dynamic_local_strategy'' None True True False,
     flag ''dynamic_mode'' None True False False,
     flag ''dynamic_remote_strategy'' None True True False,
     flag ''emacs'' None False False False,
     flag ''embed_label'' None True False False,
     flag ''emit_script_path_in_exec_request'' None False False False,
     flag ''enable_bzlmod'' None False False False,
     flag ''enable_fdo_profile_absolute_path'' None False False False,
     flag ''enable_platform_specific_config'' None False False False,
     flag ''enable_propeller_optimize_absolute_paths'' None False False False,
     flag ''enable_remaining_fdo_absolute_paths'' None False False False,
     flag ''enable_runfiles'' None True False False,
     flag ''enable_workspace'' None False False False,
     flag ''enforce_constraints'' None False False False,
     flag ''enforce_proguard_file_extension'' None False False False,
     flag ''enforce_project_configs'' None False False False]"

definition bazel_flags_10 :: "flag_spec list" where
  "bazel_flags_10 =
    [flag ''enforce_transitive_configs_for_config_feature_flag'' None False False False,
     flag ''exec_aspects'' None True True False,
     flag ''execution_graph_log_queued_bytes_limit'' None True False False,
     flag ''execution_log_binary_file'' None True False False,
     flag ''execution_log_compact_file'' None True False False,
     flag ''execution_log_json_file'' None True False False,
     flag ''execution_log_mnemonic_filter'' None True False False,
     flag ''execution_log_sort'' None False False False,
     flag ''expand_test_suites'' None False False False,
     flag ''experimental_action_cache_gc_idle_delay'' None True False False,
     flag ''experimental_action_cache_gc_max_age'' None True False False,
     flag ''experimental_action_cache_gc_threshold'' None True False False,
     flag ''experimental_action_listener'' None True True False,
     flag ''experimental_action_resource_set'' None False False False,
     flag ''experimental_active_directories'' None True False False,
     flag ''experimental_add_test_support_to_compile_time_deps'' None False False False,
     flag ''experimental_allow_map_directory'' None False False False,
     flag ''experimental_allow_project_files'' None False False False,
     flag ''experimental_allow_runtime_deps_on_neverlink'' None False False False,
     flag ''experimental_analysis_cache_bail_on_missing_fingerprint'' None False False False,
     flag ''experimental_analysis_cache_enable_metadata_queries'' None False False False]"

definition bazel_flags_11 :: "flag_spec list" where
  "bazel_flags_11 =
    [flag ''experimental_analysis_cache_key_distinguisher_for_testing'' None True False False,
     flag ''experimental_analysis_cache_server_checksum_override'' None True False False,
     flag ''experimental_analysis_cache_service'' None True False False,
     flag ''experimental_android_compress_java_resources'' None False False False,
     flag ''experimental_android_library_exports_manifest_default'' None False False False,
     flag ''experimental_android_resource_cycle_shrinking'' None False False False,
     flag ''experimental_android_resource_name_obfuscation'' None False False False,
     flag ''experimental_android_resource_path_shortening'' None False False False,
     flag ''experimental_android_resource_shrinking'' None False False False,
     flag ''experimental_announce_profile_path'' None False False False,
     flag ''experimental_aquery_dump_after_build_format'' None True False False,
     flag ''experimental_aquery_dump_after_build_output_file'' None True False False,
     flag ''experimental_async_execution'' None False False False,
     flag ''experimental_async_execution_max_concurrent_actions'' None True False False,
     flag ''experimental_bep_target_summary'' None False False False,
     flag ''experimental_build_event_expand_filesets'' None False False False,
     flag ''experimental_build_event_output_group_mode'' None True True False,
     flag ''experimental_build_event_upload_retry_minimum_delay'' None True False False,
     flag ''experimental_build_event_upload_strategy'' None True False False,
     flag ''experimental_build_transitive_python_runfiles'' None False False False,
     flag ''experimental_builtins_bzl_path'' None True False False]"

definition bazel_flags_12 :: "flag_spec list" where
  "bazel_flags_12 =
    [flag ''experimental_builtins_dummy'' None False False False,
     flag ''experimental_builtins_injection_override'' None True True False,
     flag ''experimental_bzl_visibility'' None False False False,
     flag ''experimental_cancel_concurrent_tests'' None True False False,
     flag ''experimental_cc_implementation_deps'' None False False False,
     flag ''experimental_cc_shared_library'' None False False False,
     flag ''experimental_cc_skylark_api_enabled_packages'' None True False False,
     flag ''experimental_cc_static_library'' None False False False,
     flag ''experimental_cgroup_parent'' None True False True,
     flag ''experimental_check_external_other_files'' None False False False,
     flag ''experimental_check_external_repository_files'' None False False False,
     flag ''experimental_check_output_files'' None False False False,
     flag ''experimental_circuit_breaker_strategy'' None True False False,
     flag ''experimental_collect_code_coverage_for_generated_files'' None False False False,
     flag ''experimental_collect_load_average_in_profiler'' None False False False,
     flag ''experimental_collect_local_action_metrics'' None False False False,
     flag ''experimental_collect_local_sandbox_action_metrics'' None False False False,
     flag ''experimental_collect_pressure_stall_indicators'' None False False False,
     flag ''experimental_collect_resource_estimation'' None False False False,
     flag ''experimental_collect_skyframe_counts_in_profiler'' None False False False,
     flag ''experimental_collect_system_network_usage'' None False False False]"

definition bazel_flags_13 :: "flag_spec list" where
  "bazel_flags_13 =
    [flag ''experimental_collect_worker_data_in_profiler'' None False False False,
     flag ''experimental_command_profile'' None True False False,
     flag ''experimental_convenience_symlinks'' None True False False,
     flag ''experimental_convenience_symlinks_bep_event'' None False False False,
     flag ''experimental_cpp_compile_resource_estimation'' None False False False,
     flag ''experimental_cpp_modules'' None False False False,
     flag ''experimental_cpu_load_scheduling'' None False False False,
     flag ''experimental_cpu_load_scheduling_window_size'' None True False False,
     flag ''experimental_debug_selects_always_succeed'' None False False False,
     flag ''experimental_disable_external_package'' None False False False,
     flag ''experimental_disallow_legacy_java_toolchain_flags'' None False False False,
     flag ''experimental_disk_cache_gc_idle_delay'' None True False False,
     flag ''experimental_disk_cache_gc_max_age'' None True False False,
     flag ''experimental_disk_cache_gc_max_size'' None True False False,
     flag ''experimental_docker_image'' None True False False,
     flag ''experimental_docker_privileged'' None False False False,
     flag ''experimental_docker_use_customized_images'' None False False False,
     flag ''experimental_docker_verbose'' None False False False,
     flag ''experimental_dormant_deps'' None False False False,
     flag ''experimental_dynamic_exclude_tools'' None False False False,
     flag ''experimental_dynamic_ignore_local_signals'' None True False False]"

definition bazel_flags_14 :: "flag_spec list" where
  "bazel_flags_14 =
    [flag ''experimental_dynamic_local_load_factor'' None True False False,
     flag ''experimental_dynamic_slow_remote_time'' None True False False,
     flag ''experimental_enable_android_migration_apis'' None False False False,
     flag ''experimental_enable_aspect_hints'' None False False False,
     flag ''experimental_enable_critical_path_profiling'' None False False False,
     flag ''experimental_enable_docker_sandbox'' None False False False,
     flag ''experimental_enable_execution_graph_log'' None False False False,
     flag ''experimental_enable_first_class_macros'' None False False False,
     flag ''experimental_enable_jspecify'' None False False False,
     flag ''experimental_enable_scl_dialect'' None False False False,
     flag ''experimental_enable_skyfocus'' None False False False,
     flag ''experimental_enable_starlark_doc_extract'' None False False False,
     flag ''experimental_enable_starlark_set'' None False False False,
     flag ''experimental_enable_thread_dump'' None False False False,
     flag ''experimental_enforce_transitive_visibility'' None False False False,
     flag ''experimental_exclude_defines_from_exec_config'' None False False False,
     flag ''experimental_exec_config'' None True False False,
     flag ''experimental_execution_graph_enable_edges_from_filewrite_actions'' None False False False,
     flag ''experimental_execution_graph_include_change_pruned_actions'' None False False False,
     flag ''experimental_execution_graph_log_dep_type'' None True False False,
     flag ''experimental_execution_graph_log_path'' None True False False]"

definition bazel_flags_15 :: "flag_spec list" where
  "bazel_flags_15 =
    [flag ''experimental_execution_graph_log_queue_size'' None True False False,
     flag ''experimental_explicit_aspects'' None False False False,
     flag ''experimental_extended_sanity_checks'' None False False False,
     flag ''experimental_extra_action_filter'' None True False False,
     flag ''experimental_extra_action_top_level_only'' None False False False,
     flag ''experimental_fetch_all_coverage_outputs'' None False False False,
     flag ''experimental_fix_deps_tool'' None True False False,
     flag ''experimental_force_gc_after_build'' None False False False,
     flag ''experimental_frontier_violation_check'' None True False False,
     flag ''experimental_frontier_violation_verbose'' None False False False,
     flag ''experimental_fsvc_threads'' None True False False,
     flag ''experimental_generate_llvm_lcov'' None False False False,
     flag ''experimental_genquery_use_graphless_query'' None True False False,
     flag ''experimental_get_android_java_resources_from_optimized_jar'' None False False False,
     flag ''experimental_google_legacy_api'' None False False False,
     flag ''experimental_graphless_query'' None True False False,
     flag ''experimental_import_deps_checking'' None True False False,
     flag ''experimental_include_default_values'' None False False False,
     flag ''experimental_include_scanning_parallelism'' None True False False,
     flag ''experimental_include_xcode_execution_requirements'' None False False False,
     flag ''experimental_incremental_dexing_after_proguard'' None True False False]"

definition bazel_flags_16 :: "flag_spec list" where
  "bazel_flags_16 =
    [flag ''experimental_inmemory_dotd_files'' None False False False,
     flag ''experimental_inmemory_dotincludes_files'' None False False False,
     flag ''experimental_inmemory_jdeps_files'' None False False False,
     flag ''experimental_inmemory_sandbox_stashes'' None False False False,
     flag ''experimental_install_base_gc_max_age'' None True False False,
     flag ''experimental_isolated_extension_usages'' None False False False,
     flag ''experimental_java_classpath'' None True False False,
     flag ''experimental_java_header_compilation_direct_deps'' None False False False,
     flag ''experimental_java_header_input_pruning'' None False False False,
     flag ''experimental_java_proto_add_allowed_public_imports'' None False False False,
     flag ''experimental_java_test_auto_create_deploy_jar'' None False False False,
     flag ''experimental_lazy_macro_expansion_packages'' None True False False,
     flag ''experimental_limit_android_lint_to_android_constrained_java'' None False False False,
     flag ''experimental_link_static_libraries_once'' None False False False,
     flag ''experimental_local_java_optimization_configuration'' None True False False,
     flag ''experimental_local_java_optimizations'' None False False False,
     flag ''experimental_local_lockfree_output'' None False False False,
     flag ''experimental_local_retries_on_crash'' None True False False,
     flag ''experimental_materialize_param_files_directly'' None False False False,
     flag ''experimental_max_directories_to_eagerly_visit_in_globbing'' None True False False,
     flag ''experimental_merged_skyframe_analysis_execution'' None False False False]"

definition bazel_flags_17 :: "flag_spec list" where
  "bazel_flags_17 =
    [flag ''experimental_objc_provider_from_linked'' None False False False,
     flag ''experimental_omitfp'' None False False False,
     flag ''experimental_one_version_enforcement'' None True False False,
     flag ''experimental_oom_sensitive_skyfunctions_semaphore_size'' None True False False,
     flag ''experimental_output_paths'' None True False False,
     flag ''experimental_override_platform_cpu_name'' None True True False,
     flag ''experimental_parallel_aquery_output'' None False False False,
     flag ''experimental_parse_headers_skipped_if_corresponding_srcs_found'' None False False False,
     flag ''experimental_persistent_aar_extractor'' None False False False,
     flag ''experimental_platform_cc_test'' None False False False,
     flag ''experimental_platform_in_output_dir'' None True False False,
     flag ''experimental_platforms_api'' None False False False,
     flag ''experimental_post_profile_started_event'' None False False False,
     flag ''experimental_prefer_mutual_xcode'' None False False False,
     flag ''experimental_process_wrapper_graceful_sigterm'' None False False False,
     flag ''experimental_profile_action_counts'' None False False False,
     flag ''experimental_profile_additional_tasks'' None True True False,
     flag ''experimental_profile_include_primary_output'' None False False False,
     flag ''experimental_profile_include_target_configuration'' None False False False,
     flag ''experimental_profile_include_target_label'' None False False False,
     flag ''experimental_propagate_custom_flag'' None True True False]"

definition bazel_flags_18 :: "flag_spec list" where
  "bazel_flags_18 =
    [flag ''experimental_proto_descriptor_sets_include_source_info'' None False False False,
     flag ''experimental_proto_extra_actions'' None False False False,
     flag ''experimental_publish_package_metrics_in_bep'' None False False False,
     flag ''experimental_py_binaries_include_label'' None False False False,
     flag ''experimental_python_import_all_repositories'' None False False False,
     flag ''experimental_record_metrics_for_all_mnemonics'' None False False False,
     flag ''experimental_record_skyframe_metrics'' None False False False,
     flag ''experimental_remotable_source_manifests'' None False False False,
     flag ''experimental_remote_analysis_cache'' None True False False,
     flag ''experimental_remote_analysis_cache_concurrency'' None True False False,
     flag ''experimental_remote_analysis_cache_deadline'' None True False False,
     flag ''experimental_remote_analysis_cache_max_batch_size'' None True False False,
     flag ''experimental_remote_analysis_cache_mode'' None True False False,
     flag ''experimental_remote_analysis_cache_storage'' None True False False,
     flag ''experimental_remote_analysis_unreachable_cache_retry_interval'' None True False False,
     flag ''experimental_remote_analysis_write_proxy'' None True False False,
     flag ''experimental_remote_cache_chunking'' None False False False,
     flag ''experimental_remote_cache_compression_threshold'' None True False False,
     flag ''experimental_remote_cache_eviction_retries'' None True False False,
     flag ''experimental_remote_cache_lease_extension'' None False False False,
     flag ''experimental_remote_cache_ttl'' None True False False]"

definition bazel_flags_19 :: "flag_spec list" where
  "bazel_flags_19 =
    [flag ''experimental_remote_capture_corrupted_outputs'' None True False False,
     flag ''experimental_remote_discard_merkle_trees'' None False False False,
     flag ''experimental_remote_execution_keepalive'' None False False False,
     flag ''experimental_remote_failure_rate_threshold'' None True False False,
     flag ''experimental_remote_failure_window_interval'' None True False False,
     flag ''experimental_remote_include_extraction_size_threshold'' None True False False,
     flag ''experimental_remote_mark_tool_inputs'' None False False False,
     flag ''experimental_remote_output_service'' None True False False,
     flag ''experimental_remote_output_service_output_path_prefix'' None True False False,
     flag ''experimental_remote_repo_contents_cache'' None False False False,
     flag ''experimental_remote_require_cached'' None False False False,
     flag ''experimental_remote_scrubbing_config'' None True False False,
     flag ''experimental_remove_r_classes_from_instrumentation_test_jar'' None False False False,
     flag ''experimental_repo_remote_exec'' None False False False,
     flag ''experimental_repository_cache_hardlinks'' None False False True,
     flag ''experimental_repository_ctx_execute_wasm'' None False False False,
     flag ''experimental_repository_ctx_wasm_compilation'' None False False False,
     flag ''experimental_repository_downloader_retries'' None True False True,
     flag ''experimental_require_availability_info'' None False False False,
     flag ''experimental_retain_test_configuration_across_testonly'' None False False False,
     flag ''experimental_reuse_include_scanning_threads'' None False False False]"

definition bazel_flags_20 :: "flag_spec list" where
  "bazel_flags_20 =
    [flag ''experimental_rule_extension_api'' None True False False,
     flag ''experimental_run_android_lint_on_java_rules'' None False False False,
     flag ''experimental_run_bep_event_include_residue'' None False False False,
     flag ''experimental_run_in_user_cgroup'' None False False True,
     flag ''experimental_sandbox_async_tree_delete_idle_threads'' None True False False,
     flag ''experimental_sandbox_enforce_resources_regexp'' None True False False,
     flag ''experimental_sandbox_limits'' None True True False,
     flag ''experimental_sandbox_memory_limit_mb'' None True False False,
     flag ''experimental_sandboxfs_map_symlink_targets'' None False False False,
     flag ''experimental_save_feature_state'' None False False False,
     flag ''experimental_scale_timeouts'' None True False True,
     flag ''experimental_show_artifacts'' None False False False,
     flag ''experimental_shrink_worker_pool'' None False False False,
     flag ''experimental_sibling_repository_layout'' None False False False,
     flag ''experimental_single_package_toolchain_binding'' None False False False,
     flag ''experimental_skip_ttvs_for_genquery'' None False False False,
     flag ''experimental_skycache_analysis_only'' None False False False,
     flag ''experimental_skycache_minimize_memory'' None False False False,
     flag ''experimental_skyfocus_dump_keys'' None True False False,
     flag ''experimental_skyfocus_dump_post_gc_stats'' None False False False,
     flag ''experimental_skyframe_cpu_heavy_skykeys_thread_pool_size'' None True False False]"

definition bazel_flags_21 :: "flag_spec list" where
  "bazel_flags_21 =
    [flag ''experimental_skyframe_error_handling_refactor'' None False False False,
     flag ''experimental_skyframe_memory_dump'' None True False False,
     flag ''experimental_skyframe_native_filesets'' None False False False,
     flag ''experimental_skyframe_prepare_analysis'' None False False False,
     flag ''experimental_skyframe_target_pattern_evaluator'' None False False False,
     flag ''experimental_skylark_debug'' None False False False,
     flag ''experimental_skylark_debug_reset_analysis'' None False False False,
     flag ''experimental_skylark_debug_server_port'' None True False False,
     flag ''experimental_skylark_debug_verbose_logging'' None False False False,
     flag ''experimental_skymeld_analysis_overlap_percentage'' None True False False,
     flag ''experimental_spawn_scheduler'' None True False False,
     flag ''experimental_split_coverage_postprocessing'' None False False False,
     flag ''experimental_starlark_cc_import'' None False False False,
     flag ''experimental_starlark_dynamic_type_checking'' None True False False,
     flag ''experimental_starlark_static_type_checking'' None True False False,
     flag ''experimental_starlark_type_checking'' None True False False,
     flag ''experimental_starlark_type_syntax'' None True False False,
     flag ''experimental_starlark_types'' None False False False,
     flag ''experimental_starlark_types_allowed_paths'' None True False False,
     flag ''experimental_stats_summary'' None False False False,
     flag ''experimental_stream_log_file_uploads'' None False False False]"

definition bazel_flags_22 :: "flag_spec list" where
  "bazel_flags_22 =
    [flag ''experimental_strict_java_deps'' None True False False,
     flag ''experimental_strict_repo_env'' None False False False,
     flag ''experimental_thread_dump_action_execution_inactivity_duration'' None True False False,
     flag ''experimental_thread_dump_interval'' None True False False,
     flag ''experimental_throttle_action_cache_check'' None False False False,
     flag ''experimental_throttle_remote_action_building'' None False False False,
     flag ''experimental_tool_command_line'' None True False False,
     flag ''experimental_total_worker_memory_limit_mb'' None True False False,
     flag ''experimental_turbine_annotation_processing'' None False False False,
     flag ''experimental_turbine_cpu_reservation'' None True False False,
     flag ''experimental_ui_debug_all_events'' None False False False,
     flag ''experimental_ui_max_stdouterr_bytes'' None True False False,
     flag ''experimental_unsupported_and_brittle_include_scanning'' None False False False,
     flag ''experimental_use_cpp_compile_action_args_params_file'' None False False False,
     flag ''experimental_use_event_based_build_completion_status'' None False False False,
     flag ''experimental_use_hermetic_linux_sandbox'' None False False False,
     flag ''experimental_use_llvm_covmap'' None False False False,
     flag ''experimental_use_new_worker_pool'' None False False False,
     flag ''experimental_use_platforms_in_output_dir_legacy_heuristic'' None False False False,
     flag ''experimental_use_semaphore_for_jobs'' None False False False,
     flag ''experimental_use_validation_aspect'' None False False False]"

definition bazel_flags_23 :: "flag_spec list" where
  "bazel_flags_23 =
    [flag ''experimental_use_windows_sandbox'' None False False False,
     flag ''experimental_windows_sandbox_path'' None True False False,
     flag ''experimental_windows_watchfs'' None False False False,
     flag ''experimental_worker_allowlist'' None True False False,
     flag ''experimental_worker_as_resource'' None False False False,
     flag ''experimental_worker_cancellation'' None False False False,
     flag ''experimental_worker_memory_limit_mb'' None True False False,
     flag ''experimental_worker_metrics_poll_interval'' None True False False,
     flag ''experimental_worker_multiplex_sandboxing'' None False False False,
     flag ''experimental_worker_sandbox_hardening'' None False False False,
     flag ''experimental_worker_sandbox_inmemory_tracking'' None True True False,
     flag ''experimental_worker_strict_flagfiles'' None False False False,
     flag ''experimental_worker_use_cgroups_on_linux'' None False False False,
     flag ''experimental_workspace_rules_log_file'' None True False False,
     flag ''experimental_writable_outputs'' None False False False,
     flag ''explain'' None True False False,
     flag ''explicit_java_test_deps'' None False False False,
     flag ''expunge'' None False False False,
     flag ''expunge_async'' None True False False,
     flag ''extension_filter'' None True False False,
     flag ''extension_info'' None True False False]"

definition bazel_flags_24 :: "flag_spec list" where
  "bazel_flags_24 =
    [flag ''extension_usages'' None True False False,
     flag ''extra_classpath'' None True False True,
     flag ''extra_execution_platforms'' None True False False,
     flag ''extra_toolchains'' None True True False,
     flag ''extract_data_time'' None True False False,
     flag ''failure_detail_out'' None True False True,
     flag ''fat_apk_cpu'' None True False False,
     flag ''fatal_event_bus_exceptions'' None False False True,
     flag ''fdo_instrument'' None True False False,
     flag ''fdo_optimize'' None True False False,
     flag ''fdo_prefetch_hints'' None True False False,
     flag ''fdo_profile'' None True False False,
     flag ''features'' None True True False,
     flag ''fetch'' None False False False,
     flag ''fission'' None True False False,
     flag ''flag_alias'' None True True False,
     flag ''flag_clash_canary'' None False False False,
     flag ''flag_clash_canary_expander1'' None True False False,
     flag ''flag_clash_canary_expander2'' None True False False,
     flag ''flaky_test_attempts'' None True True False,
     flag ''for_command'' None True False False]"

definition bazel_flags_25 :: "flag_spec list" where
  "bazel_flags_25 =
    [flag ''force'' None False False False,
     flag ''force_ignore_dash_static'' None False False False,
     flag ''force_pic'' None False False False,
     flag ''force_python'' None True False False,
     flag ''force_starlark_stack_trace'' None False False False,
     flag ''from'' None True False False,
     flag ''gc_churning_threshold'' None True False False,
     flag ''gc_churning_threshold_if_multiple_top_level_targets'' None True False False,
     flag ''gc_thrashing_limits'' None True False False,
     flag ''gc_thrashing_threshold'' None True False False,
     flag ''generate_json_trace_profile'' None True False False,
     flag ''genrule_strategy'' None True False False,
     flag ''gnu_format'' None False False False,
     flag ''google_auth_scopes'' None True False False,
     flag ''google_credentials'' None True False False,
     flag ''google_default_credentials'' None False False False,
     flag ''grpc_keepalive_time'' None True False False,
     flag ''grpc_keepalive_timeout'' None True False False,
     flag ''grte_top'' None True False False,
     flag ''guard_against_concurrent_changes'' None True False False,
     flag ''heap_dump_on_oom'' None False False False]"

definition bazel_flags_26 :: "flag_spec list" where
  "bazel_flags_26 =
    [flag ''help_verbosity'' None True False False,
     flag ''heuristically_drop_nodes'' None False False False,
     flag ''hide_aspect_results'' None True False False,
     flag ''high_priority_workers'' None True True False,
     flag ''home_rc'' None False False True,
     flag ''host_action_env'' None True True False,
     flag ''host_compilation_mode'' None True False False,
     flag ''host_compiler'' None True False False,
     flag ''host_conlyopt'' None True True False,
     flag ''host_copt'' None True True False,
     flag ''host_cpu'' None True False False,
     flag ''host_crosstool_top'' None True False False,
     flag ''host_cxxopt'' None True True False,
     flag ''host_features'' None True True False,
     flag ''host_force_python'' None True False False,
     flag ''host_grte_top'' None True False False,
     flag ''host_java_launcher'' None True False False,
     flag ''host_java_toolchain'' None True False False,
     flag ''host_javabase'' None True False False,
     flag ''host_javacopt'' None True True False,
     flag ''host_jvm_args'' None True True False]"

definition bazel_flags_27 :: "flag_spec list" where
  "bazel_flags_27 =
    [flag ''host_jvm_debug'' None True False False,
     flag ''host_jvmopt'' None True True False,
     flag ''host_linkopt'' None True True False,
     flag ''host_macos_minimum_os'' None True False False,
     flag ''host_per_file_copt'' None True True False,
     flag ''host_platform'' None True False False,
     flag ''http_connector_attempts'' None True False True,
     flag ''http_connector_retry_max_timeout'' None True False True,
     flag ''http_max_parallel_downloads'' None True False True,
     flag ''http_timeout_scaling'' None True False True,
     flag ''idle_server_tasks'' None False False True,
     flag ''iff_heap_size_greater_than'' None True False False,
     flag ''ignore_all_rc_files'' None False False True,
     flag ''ignore_dev_dependency'' None False False False,
     flag ''implicit_deps'' None False False False,
     flag ''include_artifacts'' None False False False,
     flag ''include_aspects'' None False False False,
     flag ''include_builtin'' None False False False,
     flag ''include_commandline'' None False False False,
     flag ''include_config_fragments_provider'' None True False False,
     flag ''include_file_write_contents'' None False False False]"

definition bazel_flags_28 :: "flag_spec list" where
  "bazel_flags_28 =
    [flag ''include_param_files'' None False False False,
     flag ''include_pruned_inputs'' None False False False,
     flag ''include_unused'' None False False False,
     flag ''incompatible_allow_python_version_transitions'' None False False False,
     flag ''incompatible_allow_tags_propagation'' None False False False,
     flag ''incompatible_always_check_depset_elements'' None False False False,
     flag ''incompatible_always_include_files_in_data'' None False False False,
     flag ''incompatible_auto_configure_host_platform'' None False False False,
     flag ''incompatible_auto_exec_groups'' None False False False,
     flag ''incompatible_autoload_externally'' None True False False,
     flag ''incompatible_bazel_test_exec_run_under'' None False False False,
     flag ''incompatible_bep_cpu_from_platform'' None False False False,
     flag ''incompatible_builtin_objc_strip_action'' None False False False,
     flag ''incompatible_check_testonly_for_output_files'' None False False False,
     flag ''incompatible_compact_repo_mapping_manifest'' None False False False,
     flag ''incompatible_config_setting_private_default_visibility'' None False False False,
     flag ''incompatible_default_to_explicit_init_py'' None False False False,
     flag ''incompatible_depset_for_java_output_source_jars'' None False False False,
     flag ''incompatible_depset_for_libraries_to_link_getter'' None False False False,
     flag ''incompatible_disable_autoloads_in_main_repo'' None False False False,
     flag ''incompatible_disable_legacy_cc_provider'' None False False False]"

definition bazel_flags_29 :: "flag_spec list" where
  "bazel_flags_29 =
    [flag ''incompatible_disable_legacy_flags_cc_toolchain_api'' None False False False,
     flag ''incompatible_disable_native_apple_binary_rule'' None False False False,
     flag ''incompatible_disable_native_repo_rules'' None False False False,
     flag ''incompatible_disable_nocopts'' None False False False,
     flag ''incompatible_disable_non_executable_java_binary'' None False False False,
     flag ''incompatible_disable_objc_library_transition'' None False False False,
     flag ''incompatible_disable_select_on'' None True False False,
     flag ''incompatible_disable_starlark_host_transitions'' None False False False,
     flag ''incompatible_disable_target_default_provider_fields'' None False False False,
     flag ''incompatible_disable_target_provider_fields'' None False False False,
     flag ''incompatible_disable_transitions_on'' None True False False,
     flag ''incompatible_disallow_ctx_resolve_tools'' None False False False,
     flag ''incompatible_disallow_empty_glob'' None True False False,
     flag ''incompatible_disallow_java_import_exports'' None False False False,
     flag ''incompatible_disallow_legacy_py_provider'' None False False False,
     flag ''incompatible_disallow_sdk_frameworks_attributes'' None False False False,
     flag ''incompatible_disallow_struct_provider_syntax'' None False False False,
     flag ''incompatible_do_not_split_linking_cmdline'' None False False False,
     flag ''incompatible_dont_collect_native_libraries_in_data'' None False False False,
     flag ''incompatible_dont_enable_host_nonhost_crosstool_features'' None False False False,
     flag ''incompatible_dont_use_javasourceinfoprovider'' None False False False]"

definition bazel_flags_30 :: "flag_spec list" where
  "bazel_flags_30 =
    [flag ''incompatible_enable_apple_toolchain_resolution'' None False False False,
     flag ''incompatible_enable_cc_toolchain_resolution'' None False False False,
     flag ''incompatible_enable_cgo_toolchain_resolution'' None False False False,
     flag ''incompatible_enable_deprecated_label_apis'' None False False False,
     flag ''incompatible_enable_profile_by_default'' None False False False,
     flag ''incompatible_enable_proto_toolchain_resolution'' None True False False,
     flag ''incompatible_enforce_config_setting_visibility'' None False False False,
     flag ''incompatible_enforce_starlark_utf8'' None True False False,
     flag ''incompatible_exclude_starlark_flags_from_exec_config'' None False False False,
     flag ''incompatible_exclusive_test_sandboxed'' None False False False,
     flag ''incompatible_existing_rules_immutable_view'' None False False False,
     flag ''incompatible_fail_on_unknown_attributes'' None False False False,
     flag ''incompatible_filegroup_runfiles_for_data'' None False False False,
     flag ''incompatible_fix_package_group_reporoot_syntax'' None True False False,
     flag ''incompatible_java_info_merge_runtime_module_flags'' None False False False,
     flag ''incompatible_legacy_local_fallback'' None False False False,
     flag ''incompatible_lexicographical_output'' None False False False,
     flag ''incompatible_limit_platforms_in_output_dir_to'' None True False False,
     flag ''incompatible_load_java_rules_from_bzl'' None False False False,
     flag ''incompatible_load_proto_rules_from_bzl'' None False False False,
     flag ''incompatible_load_python_rules_from_bzl'' None False False False]"

definition bazel_flags_31 :: "flag_spec list" where
  "bazel_flags_31 =
    [flag ''incompatible_locations_prefers_executable'' None False False False,
     flag ''incompatible_macos_set_install_name'' None False False False,
     flag ''incompatible_make_thinlto_command_lines_standalone'' None False False False,
     flag ''incompatible_merge_genfiles_directory'' None False False False,
     flag ''incompatible_modify_execution_info_additive'' None False False False,
     flag ''incompatible_multi_release_deploy_jars'' None False False False,
     flag ''incompatible_new_actions_api'' None False False False,
     flag ''incompatible_no_attr_license'' None False False False,
     flag ''incompatible_no_implicit_file_export'' None True False False,
     flag ''incompatible_no_implicit_watch_label'' None False False False,
     flag ''incompatible_no_package_distribs'' None False False False,
     flag ''incompatible_no_rule_outputs_param'' None False False False,
     flag ''incompatible_objc_alwayslink_by_default'' None False False False,
     flag ''incompatible_override_toolchain_transition'' None False False False,
     flag ''incompatible_package_group_build_output'' None False False False,
     flag ''incompatible_package_group_has_public_syntax'' None True False False,
     flag ''incompatible_package_group_includes_double_slash'' None True False False,
     flag ''incompatible_py2_outputs_are_suffixed'' None False False False,
     flag ''incompatible_py3_is_default'' None False False False,
     flag ''incompatible_python_disable_py2'' None False False False,
     flag ''incompatible_python_disallow_native_rules'' None False False False]"

definition bazel_flags_32 :: "flag_spec list" where
  "bazel_flags_32 =
    [flag ''incompatible_remote_local_fallback_for_remote_cache'' None False False False,
     flag ''incompatible_remove_binary_profile'' None False False False,
     flag ''incompatible_remove_ctx_android_fragment'' None False False False,
     flag ''incompatible_remove_ctx_apple_fragment'' None False False False,
     flag ''incompatible_remove_ctx_objc_fragment'' None False False False,
     flag ''incompatible_remove_ctx_py_fragment'' None False False False,
     flag ''incompatible_remove_legacy_whole_archive'' None False False False,
     flag ''incompatible_remove_old_python_version_api'' None False False False,
     flag ''incompatible_repo_env_ignores_action_env'' None False False False,
     flag ''incompatible_require_ctx_in_configure_features'' None False False False,
     flag ''incompatible_require_javaplugininfo_in_javacommon'' None False False False,
     flag ''incompatible_require_linker_input_cc_api'' None False False False,
     flag ''incompatible_require_mnemonic_for_run_actions'' None False False False,
     flag ''incompatible_resolve_select_keys_eagerly'' None False False False,
     flag ''incompatible_run_shell_command_string'' None False False False,
     flag ''incompatible_simplify_unconditional_selects_in_rule_attrs'' None False False False,
     flag ''incompatible_skip_genfiles_symlink'' None False False False,
     flag ''incompatible_stop_exporting_build_file_path'' None False False False,
     flag ''incompatible_stop_exporting_language_modules'' None False False False,
     flag ''incompatible_strict_action_env'' None False False False,
     flag ''incompatible_strip_executable_safely'' None False False False]"

definition bazel_flags_33 :: "flag_spec list" where
  "bazel_flags_33 =
    [flag ''incompatible_target_cpu_from_platform'' None False False False,
     flag ''incompatible_top_level_aspects_require_providers'' None False False False,
     flag ''incompatible_unambiguous_label_stringification'' None False False False,
     flag ''incompatible_use_cc_configure_from_rules_cc'' None False False False,
     flag ''incompatible_use_cpp_compile_header_mnemonic'' None False False False,
     flag ''incompatible_use_new_cgroup_implementation'' None False False False,
     flag ''incompatible_use_plus_in_repo_names'' None False False False,
     flag ''incompatible_use_python_toolchains'' None False False False,
     flag ''incompatible_use_specific_tool_files'' None False False False,
     flag ''incompatible_use_toolchain_resolution_for_java_rules'' None False False False,
     flag ''incompatible_validate_top_level_header_inclusions'' None False False False,
     flag ''incompatible_visibility_private_attributes_at_definition'' None False False False,
     flag ''incremental'' None False False False,
     flag ''incremental_install_verbosity'' None True False False,
     flag ''infer_universe_scope'' None False False False,
     flag ''info_output_type'' None True False False,
     flag ''inject_repository'' None True True False,
     flag ''install_base'' None True False True,
     flag ''install_md5'' None True False True,
     flag ''instrument_test_targets'' None False False False,
     flag ''instrumentation_filter'' None True False False]"

definition bazel_flags_34 :: "flag_spec list" where
  "bazel_flags_34 =
    [flag ''interface_shared_objects'' None False False False,
     flag ''internal_persistent_android_dex_desugar'' None False False False,
     flag ''internal_persistent_busybox_tools'' None False False False,
     flag ''internal_persistent_multiplex_android_dex_desugar'' None False False False,
     flag ''internal_persistent_multiplex_busybox_tools'' None False False False,
     flag ''internal_spawn_scheduler'' None False False False,
     flag ''internal_starlark_flag_test_canary'' None False False False,
     flag ''internal_starlark_utf_8_byte_strings'' None False False False,
     flag ''invocation_id'' None True False False,
     flag ''invocation_policy'' None True False True,
     flag ''io_nice_level'' None True False True,
     flag ''ios_minimum_os'' None True False False,
     flag ''ios_multi_cpus'' None True True False,
     flag ''ios_sdk_version'' None True False False,
     flag ''isatty'' None False False False,
     flag ''j2objc_dead_code_removal'' None False False False,
     flag ''j2objc_dead_code_report'' None True False False,
     flag ''j2objc_translation_flags'' None True True False,
     flag ''java_debug'' None True False False,
     flag ''java_deps'' None False False False,
     flag ''java_header_compilation'' None False False False]"

definition bazel_flags_35 :: "flag_spec list" where
  "bazel_flags_35 =
    [flag ''java_language_version'' None True False False,
     flag ''java_launcher'' None True False False,
     flag ''java_optimization_mode'' None True False False,
     flag ''java_runtime_version'' None True False False,
     flag ''java_toolchain'' None True False False,
     flag ''javabase'' None True False False,
     flag ''javacopt'' None True True False,
     flag ''jobs'' (Some (CHR ''j'')) True False False,
     flag ''jvm_heap_histogram_internal_object_pattern'' None True False False,
     flag ''jvmopt'' None True True False,
     flag ''keep_backend_build_event_connections_alive'' None False False False,
     flag ''keep_going'' (Some (CHR ''k'')) False False False,
     flag ''keep_state_after_build'' None False False False,
     flag ''legacy_bazel_java_test'' None False False False,
     flag ''legacy_external_runfiles'' None False False False,
     flag ''legacy_globbing_threads'' None True False False,
     flag ''legacy_important_outputs'' None False False False,
     flag ''legacy_main_dex_list_generator'' None True False False,
     flag ''legacy_whole_archive'' None False False False,
     flag ''line_terminator_null'' None False False False,
     flag ''linkopt'' None True True False]"

definition bazel_flags_36 :: "flag_spec list" where
  "bazel_flags_36 =
    [flag ''loading_phase_threads'' None True False False,
     flag ''local_resources'' None True True False,
     flag ''local_startup_timeout_secs'' None True False True,
     flag ''local_termination_grace_seconds'' None True False False,
     flag ''local_test_jobs'' None True False False,
     flag ''lock_install_base'' None False False True,
     flag ''lockfile_mode'' None True False False,
     flag ''log_top_n_packages'' None True False False,
     flag ''logging'' None True False False,
     flag ''long'' (Some (CHR ''l'')) True False False,
     flag ''ltobackendopt'' None True True False,
     flag ''ltoindexopt'' None True True False,
     flag ''macos_cpus'' None True True False,
     flag ''macos_minimum_os'' None True False False,
     flag ''macos_qos_class'' None True False True,
     flag ''macos_sdk_version'' None True False False,
     flag ''make_variables_source'' None True False False,
     flag ''materialize_param_files'' None False False False,
     flag ''max_computation_steps'' None True False False,
     flag ''max_config_changes_to_show'' None True False False,
     flag ''max_idle_secs'' None True False True]"

definition bazel_flags_37 :: "flag_spec list" where
  "bazel_flags_37 =
    [flag ''max_test_output_bytes'' None True False False,
     flag ''memory'' None True False False,
     flag ''memory_profile'' None True False False,
     flag ''memory_profile_stable_heap_parameters'' None True False False,
     flag ''memprof_profile'' None True False False,
     flag ''merge_android_manifest_permissions'' None False False False,
     flag ''min_param_file_size'' None True False False,
     flag ''minimum_os_version'' None True False False,
     flag ''mobile_install_aspect'' None True False False,
     flag ''mobile_install_supported_rules'' None True False False,
     flag ''mode'' None True False False,
     flag ''modify_execution_info'' None True True False,
     flag ''module_mirrors'' None True True False,
     flag ''nested_set_depth_limit'' None True False False,
     flag ''nodep_deps'' None False False False,
     flag ''noorder_results'' None True False False,
     flag ''null'' None True False False,
     flag ''objc_enable_binary_stripping'' None False False False,
     flag ''objc_generate_linkmap'' None False False False,
     flag ''objc_use_dotd_pruning'' None False False False,
     flag ''objccopt'' None True True False]"

definition bazel_flags_38 :: "flag_spec list" where
  "bazel_flags_38 =
    [flag ''omit_run_args'' None False False False,
     flag ''one_version_enforcement_on_java_tests'' None False False False,
     flag ''oom_message'' None True False False,
     flag ''optimizing_dexer'' None True False False,
     flag ''option_sources'' None True False True,
     flag ''order_output'' None True False False,
     flag ''order_results'' None True False False,
     flag ''output'' None True False False,
     flag ''output_base'' None True False True,
     flag ''output_file'' None True False False,
     flag ''output_filter'' None True False False,
     flag ''output_groups'' None True True False,
     flag ''output_tree_tracking'' None False False False,
     flag ''output_user_root'' None True False True,
     flag ''override_module'' None True True False,
     flag ''override_repository'' None True True False,
     flag ''package_path'' None True False False,
     flag ''packages'' None False False False,
     flag ''per_file_copt'' None True True False,
     flag ''per_file_ltobackendopt'' None True True False,
     flag ''persistent_android_dex_desugar'' None True False False]"

definition bazel_flags_39 :: "flag_spec list" where
  "bazel_flags_39 =
    [flag ''persistent_android_resource_processor'' None True False False,
     flag ''persistent_multiplex_android_dex_desugar'' None True False False,
     flag ''persistent_multiplex_android_resource_processor'' None True False False,
     flag ''persistent_multiplex_android_tools'' None True False False,
     flag ''platform_mappings'' None True False False,
     flag ''platform_suffix'' None True False False,
     flag ''platforms'' None True False False,
     flag ''plugin'' None True True False,
     flag ''portable_paths'' None False False True,
     flag ''preemptible'' None False False True,
     flag ''print_action_mnemonics'' None True True False,
     flag ''print_relative_test_log_paths'' None False False False,
     flag ''process_headers_in_dependencies'' None False False False,
     flag ''product_name'' None True False True,
     flag ''profile'' None True False False,
     flag ''profiles_to_retain'' None True False False,
     flag ''progress_in_terminal_title'' None False False False,
     flag ''progress_report_interval'' None True False False,
     flag ''proguard_top'' None True False False,
     flag ''propeller_optimize'' None True False False,
     flag ''propeller_optimize_absolute_cc_profile'' None True False False]"

definition bazel_flags_40 :: "flag_spec list" where
  "bazel_flags_40 =
    [flag ''propeller_optimize_absolute_ld_profile'' None True False False,
     flag ''proto_compiler'' None True False False,
     flag ''proto_profile'' None False False False,
     flag ''proto_profile_path'' None True False False,
     flag ''proto_toolchain_for_cc'' None True False False,
     flag ''proto_toolchain_for_j2objc'' None True False False,
     flag ''proto_toolchain_for_java'' None True False False,
     flag ''proto_toolchain_for_javalite'' None True False False,
     flag ''protocopt'' None True True False,
     flag ''python_native_rules_allowlist'' None True False False,
     flag ''python_path'' None True False False,
     flag ''python_top'' None True False False,
     flag ''python_version'' None True False False,
     flag ''query_file'' None True False False,
     flag ''quiet'' None False False True,
     flag ''rc_source'' None True True False,
     flag ''record_full_profiler_data'' None False False False,
     flag ''record_metrics_for_all_packages'' None False False False,
     flag ''redirect_local_instrumentation_output_writes'' None False False False,
     flag ''registry'' None True True False,
     flag ''relative_locations'' None False False False]"

definition bazel_flags_41 :: "flag_spec list" where
  "bazel_flags_41 =
    [flag ''remote_accept_cached'' None False False False,
     flag ''remote_analysis_json_log'' None True False False,
     flag ''remote_build_event_upload'' None True False False,
     flag ''remote_bytestream_uri_prefix'' None True False False,
     flag ''remote_cache'' None True False False,
     flag ''remote_cache_async'' None False False False,
     flag ''remote_cache_compression'' None False False False,
     flag ''remote_cache_header'' None True True False,
     flag ''remote_default_exec_properties'' None True True False,
     flag ''remote_download_all'' None True False False,
     flag ''remote_download_minimal'' None True False False,
     flag ''remote_download_outputs'' None True False False,
     flag ''remote_download_regex'' None True True False,
     flag ''remote_download_symlink_template'' None True False False,
     flag ''remote_download_toplevel'' None True False False,
     flag ''remote_downloader'' None True False False,
     flag ''remote_downloader_header'' None True True False,
     flag ''remote_downloader_local_fallback'' None False False False,
     flag ''remote_downloader_propagate_credentials'' None False False False,
     flag ''remote_exec_header'' None True True False,
     flag ''remote_execution_priority'' None True False False]"

definition bazel_flags_42 :: "flag_spec list" where
  "bazel_flags_42 =
    [flag ''remote_executor'' None True False False,
     flag ''remote_grpc_log'' None True False False,
     flag ''remote_header'' None True True False,
     flag ''remote_instance_name'' None True False False,
     flag ''remote_local_fallback'' None False False False,
     flag ''remote_local_fallback_strategy'' None True False False,
     flag ''remote_max_concurrency_per_connection'' None True False False,
     flag ''remote_max_connections'' None True False False,
     flag ''remote_print_execution_messages'' None True False False,
     flag ''remote_proxy'' None True False False,
     flag ''remote_result_cache_priority'' None True False False,
     flag ''remote_retries'' None True False False,
     flag ''remote_retry_max_delay'' None True False False,
     flag ''remote_timeout'' None True False False,
     flag ''remote_upload_local_results'' None False False False,
     flag ''remote_verify_downloads'' None False False False,
     flag ''repo'' None True True False,
     flag ''repo_contents_cache'' None True False True,
     flag ''repo_contents_cache_gc_idle_delay'' None True False True,
     flag ''repo_contents_cache_gc_max_age'' None True False True,
     flag ''repo_env'' None True True False]"

definition bazel_flags_43 :: "flag_spec list" where
  "bazel_flags_43 =
    [flag ''repositories_without_autoloads'' None True False False,
     flag ''repository_cache'' None True False True,
     flag ''repository_disable_download'' None False False True,
     flag ''restart_reason'' None True False False,
     flag ''reuse_sandbox_directories'' None False False False,
     flag ''rewind_lost_inputs'' None False False False,
     flag ''rule_classes'' None False False False,
     flag ''rules'' None False False False,
     flag ''run'' None False False True,
     flag ''run_env'' None True True True,
     flag ''run_in_client'' None False False False,
     flag ''run_in_cwd'' None False False True,
     flag ''run_under'' None True False False,
     flag ''run_validations'' None False False False,
     flag ''runs_per_test'' None True True False,
     flag ''runs_per_test_detects_flakes'' None False False False,
     flag ''sandbox_add_mount_pair'' None True True False,
     flag ''sandbox_base'' None True False False,
     flag ''sandbox_block_path'' None True True False,
     flag ''sandbox_debug'' None False False False,
     flag ''sandbox_default_allow_network'' None False False False]"

definition bazel_flags_44 :: "flag_spec list" where
  "bazel_flags_44 =
    [flag ''sandbox_enable_loopback_device'' None False False False,
     flag ''sandbox_explicit_pseudoterminal'' None False False False,
     flag ''sandbox_fake_hostname'' None False False False,
     flag ''sandbox_fake_username'' None False False False,
     flag ''sandbox_tmpfs_path'' None True True False,
     flag ''sandbox_writable_path'' None True True False,
     flag ''save_temps'' None False False False,
     flag ''scl_config'' None True False False,
     flag ''script_path'' None True False False,
     flag ''separate_aspect_deps'' None False False False,
     flag ''serialized_frontier_profile'' None True False False,
     flag ''server_javabase'' None True False False,
     flag ''server_jvm_out'' None True False True,
     flag ''share_native_deps'' None False False False,
     flag ''shell_executable'' None True False False,
     flag ''short'' None True False False,
     flag ''show_config_fragments'' None True False False,
     flag ''show_loading_progress'' None False False False,
     flag ''show_make_env'' None False False False,
     flag ''show_progress'' None False False False,
     flag ''show_progress_rate_limit'' None True False False]"

definition bazel_flags_45 :: "flag_spec list" where
  "bazel_flags_45 =
    [flag ''show_result'' None True False False,
     flag ''show_timestamps'' None False False False,
     flag ''shutdown_on_low_sys_mem'' None False False True,
     flag ''skip_incompatible_explicit_targets'' None False False False,
     flag ''skyframe'' None True False False,
     flag ''skyframe_high_water_mark_full_gc_drops_per_invocation'' None True False False,
     flag ''skyframe_high_water_mark_minor_gc_drops_per_invocation'' None True False False,
     flag ''skyframe_high_water_mark_threshold'' None True False False,
     flag ''skyframe_state'' None False False False,
     flag ''skykey_filter'' None True False False,
     flag ''skylark_memory'' None True False False,
     flag ''slim_profile'' None False False False,
     flag ''spawn_strategy'' None True False False,
     flag ''split_apks'' None False False False,
     flag ''split_bytecode_optimization_pass'' None False False False,
     flag ''stamp'' None False False False,
     flag ''starlark_cpu_profile'' None True False False,
     flag ''start'' None True False False,
     flag ''start_app'' None True False False,
     flag ''start_end_lib'' None False False False,
     flag ''startup_time'' None True False False]"

definition bazel_flags_46 :: "flag_spec list" where
  "bazel_flags_46 =
    [flag ''strategy'' None True True False,
     flag ''strategy_regexp'' None True True False,
     flag ''strict_deps_java_protos'' None False False False,
     flag ''strict_proto_deps'' None True False False,
     flag ''strict_public_imports'' None True False False,
     flag ''strict_system_includes'' None False False False,
     flag ''strict_test_suite'' None False False False,
     flag ''strip'' None True False False,
     flag ''stripopt'' None True True False,
     flag ''subcommands'' (Some (CHR ''s'')) False False False,
     flag ''symlink_prefix'' None True False False,
     flag ''system_rc'' None False False True,
     flag ''target_environment'' None True True False,
     flag ''target_pattern_file'' None True False False,
     flag ''target_platform_fallback'' None True False False,
     flag ''terminal_columns'' None True False False,
     flag ''test_arg'' None True True False,
     flag ''test_env'' None True True False,
     flag ''test_filter'' None True False False,
     flag ''test_keep_going'' None False False False,
     flag ''test_lang_filters'' None True False False]"

definition bazel_flags_47 :: "flag_spec list" where
  "bazel_flags_47 =
    [flag ''test_output'' None True False False,
     flag ''test_result_expiration'' None True False False,
     flag ''test_runner_fail_fast'' None False False False,
     flag ''test_sharding_strategy'' None True False False,
     flag ''test_size_filters'' None True False False,
     flag ''test_strategy'' None True False False,
     flag ''test_summary'' None True False False,
     flag ''test_tag_filters'' None True False False,
     flag ''test_timeout'' None True False False,
     flag ''test_timeout_filters'' None True False False,
     flag ''test_tmpdir'' None True False False,
     flag ''test_verbose_timeout_warnings'' None False False False,
     flag ''tls_authority_override'' None True False False,
     flag ''tls_certificate'' None True False False,
     flag ''tls_client_certificate'' None True False False,
     flag ''tls_client_key'' None True False False,
     flag ''tool_deps'' None False False False,
     flag ''tool_java_language_version'' None True False False,
     flag ''tool_java_runtime_version'' None True False False,
     flag ''tool_tag'' None True False False,
     flag ''toolchain_resolution_debug'' None True False False]"

definition bazel_flags_48 :: "flag_spec list" where
  "bazel_flags_48 =
    [flag ''track_incremental_state'' None False False False,
     flag ''transitions'' None True False False,
     flag ''trim_test_configuration'' None False False False,
     flag ''tvos_cpus'' None True True False,
     flag ''tvos_minimum_os'' None True False False,
     flag ''tvos_sdk_version'' None True False False,
     flag ''ui_actions_shown'' None True False False,
     flag ''ui_event_filters'' None True True False,
     flag ''unconditional_warning'' None True True False,
     flag ''universe_scope'' None True False False,
     flag ''unix_digest_hash_attribute_name'' None True False True,
     flag ''unlimit_coredumps'' None False False True,
     flag ''use_action_cache'' None False False False,
     flag ''use_ijars'' None False False False,
     flag ''use_platforms_in_apple_crosstool_transition'' None False False False,
     flag ''use_target_platform_for_tests'' None False False False,
     flag ''use_top_level_targets_for_symlinks'' None False False False,
     flag ''vendor_dir'' None True False False,
     flag ''verbose'' None False False False,
     flag ''verbose_explanations'' None False False False,
     flag ''verbose_failures'' None False False False]"

definition bazel_flags_49 :: "flag_spec list" where
  "bazel_flags_49 =
    [flag ''verbose_test_summary'' None False False False,
     flag ''verbose_visibility_errors'' None False False False,
     flag ''version_window_for_dirty_node_gc'' None True False False,
     flag ''visionos_cpus'' None True True False,
     flag ''watchfs'' None False False False,
     flag ''watchos_cpus'' None True True False,
     flag ''watchos_minimum_os'' None True False False,
     flag ''watchos_sdk_version'' None True False False,
     flag ''windows_enable_symlinks'' None False False True,
     flag ''worker_extra_flag'' None True True False,
     flag ''worker_max_instances'' None True True False,
     flag ''worker_max_multiplex_instances'' None True True False,
     flag ''worker_multiplex'' None False False False,
     flag ''worker_quit_after_build'' None False False False,
     flag ''worker_sandboxing'' None False False False,
     flag ''worker_verbose'' None False False False,
     flag ''workspace_directory'' None True False True,
     flag ''workspace_rc'' None False False True,
     flag ''workspace_status_command'' None True False False,
     flag ''write_command_log'' None False False True,
     flag ''xbinary_fdo'' None True False False]"

definition bazel_flags_50 :: "flag_spec list" where
  "bazel_flags_50 =
    [flag ''xcode_version'' None True False False,
     flag ''xcode_version_config'' None True False False,
     flag ''zip_undeclared_test_outputs'' None False False False]"

definition bazel_flags :: "flag_spec list" where
  "bazel_flags =
     bazel_flags_1 @ bazel_flags_2 @ bazel_flags_3 @ bazel_flags_4 @ bazel_flags_5 @ bazel_flags_6 @
     bazel_flags_7 @ bazel_flags_8 @ bazel_flags_9 @ bazel_flags_10 @ bazel_flags_11 @ bazel_flags_12 @
     bazel_flags_13 @ bazel_flags_14 @ bazel_flags_15 @ bazel_flags_16 @ bazel_flags_17 @ bazel_flags_18 @
     bazel_flags_19 @ bazel_flags_20 @ bazel_flags_21 @ bazel_flags_22 @ bazel_flags_23 @ bazel_flags_24 @
     bazel_flags_25 @ bazel_flags_26 @ bazel_flags_27 @ bazel_flags_28 @ bazel_flags_29 @ bazel_flags_30 @
     bazel_flags_31 @ bazel_flags_32 @ bazel_flags_33 @ bazel_flags_34 @ bazel_flags_35 @ bazel_flags_36 @
     bazel_flags_37 @ bazel_flags_38 @ bazel_flags_39 @ bazel_flags_40 @ bazel_flags_41 @ bazel_flags_42 @
     bazel_flags_43 @ bazel_flags_44 @ bazel_flags_45 @ bazel_flags_46 @ bazel_flags_47 @ bazel_flags_48 @
     bazel_flags_49 @ bazel_flags_50"

end
