(* ===== verification/Args.thy ===== *)
theory Args
  imports Flag_Table Std_Text Select
begin

section \<open>The command line\<close>

text \<open>
  \<^verbatim>\<open>crates/razel-loading/src/args.rs\<close>, the parser the command line tool and the daemon share: \<open>Opts\<close>, the
  table of razel's own flags, the handlers, \<open>parse_opts\<close>, and the \<open>rc\<close> files in front of the arguments.  What goes
  to the standard error is the field \<open>op_stderr\<close>.  The canonical path of a relative workspace is a parameter of
  the model, the file system's answer.
\<close>

subsection \<open>The options\<close>

record opts =
  op_workspace :: string
  op_cache :: "string option"
  op_socket :: "string option"
  op_daemon :: bool
  op_batch :: bool
  op_cbor :: bool
  op_compilation_mode :: "string option"
  op_copts :: "string list"
  op_cxxopts :: "string list"
  op_conlyopts :: "string list"
  op_defines :: "string list"
  op_linkopts :: "string list"
  op_jobs :: nat
  op_expunge :: bool
  op_bazel_build_compat :: bool
  op_positionals :: "string list"
  op_stderr :: "string list"

definition default_opts :: opts where
  "default_opts =
     \<lparr>op_workspace = ''.'', op_cache = None, op_socket = None, op_daemon = False, op_batch = False, op_cbor = False,
      op_compilation_mode = None, op_copts = [], op_cxxopts = [], op_conlyopts = [], op_defines = [],
      op_linkopts = [], op_jobs = 0, op_expunge = False, op_bazel_build_compat = False, op_positionals = [],
      op_stderr = []\<rparr>"

text \<open>The fields of \<open>GlobalFlags\<close> that are not the default.\<close>

record global_flags =
  gfl_copts :: "string list"
  gfl_linkopts :: "string list"
  gfl_compilation_mode :: string
  gfl_defines :: "(string \<times> string) list"
  gfl_jobs :: nat
  gfl_bazel_build_compat :: bool
  gfl_bin_tree_layout :: bool

definition bazel_build_compat_env :: "string option \<Rightarrow> bool" where
  "bazel_build_compat_env var =
     (case var of None \<Rightarrow> False
      | Some v \<Rightarrow> List.map to_lower (str_trim v) \<in> {''1'', ''t'', ''true''})"

definition mode_copts :: "string option \<Rightarrow> string list" where
  "mode_copts m =
     (if m = Some ''opt'' then [''-O2'', ''-DNDEBUG''] else if m = Some ''dbg'' then [''-O0'', ''-g''] else [])"

definition opts_global_flags :: "string option \<Rightarrow> opts \<Rightarrow> global_flags" where
  "opts_global_flags compat_env a =
     \<lparr>gfl_copts =
        mode_copts (op_compilation_mode a) @ op_copts a @ op_cxxopts a @ op_conlyopts a @
        List.map (\<lambda>d. ''-D'' @ d) (op_defines a),
      gfl_linkopts = op_linkopts a,
      gfl_compilation_mode = (case op_compilation_mode a of Some m \<Rightarrow> m | None \<Rightarrow> []),
      gfl_defines = List.map_filter (\<lambda>d. split_once d (CHR ''='')) (op_defines a),
      gfl_jobs = op_jobs a,
      gfl_bazel_build_compat = (op_bazel_build_compat a \<or> bazel_build_compat_env compat_env),
      gfl_bin_tree_layout = True\<rparr>"

subsection \<open>Flags and handlers\<close>

definition razel_flags :: "flag_spec list" where
  "razel_flags =
     [flag ''workspace'' (Some (CHR ''C'')) True False False,
      flag ''socket'' None True False False,
      flag ''daemon'' None False False False,
      flag ''batch'' None False False False,
      flag ''cbor'' None False False False,
      flag ''bazel_build_compat'' None False False False,
      flag ''cache'' None True False False]"

definition cache_deprecated_text :: string where
  "cache_deprecated_text = ''razel: --cache is deprecated; Bazel spells it --disk_cache''"

definition on_value :: "string option \<Rightarrow> string list" where
  "on_value v = (case v of Some x \<Rightarrow> [x] | None \<Rightarrow> [])"

definition set_jobs :: "opts \<Rightarrow> string option \<Rightarrow> opts" where
  "set_jobs a v = (case Option.bind v (parse_uint (2 ^ 64)) of Some n \<Rightarrow> a\<lparr>op_jobs := n\<rparr> | None \<Rightarrow> a)"

definition handlers :: "(string \<times> (opts \<Rightarrow> string option \<Rightarrow> opts)) list" where
  "handlers =
     [(''workspace'', \<lambda>a v. case v of Some w \<Rightarrow> a\<lparr>op_workspace := w\<rparr> | None \<Rightarrow> a),
      (''disk_cache'', \<lambda>a v. a\<lparr>op_cache := v\<rparr>),
      (''cache'', \<lambda>a v. a\<lparr>op_cache := v, op_stderr := op_stderr a @ [cache_deprecated_text]\<rparr>),
      (''socket'', \<lambda>a v. a\<lparr>op_socket := v\<rparr>),
      (''daemon'', \<lambda>a v. a\<lparr>op_daemon := (v \<noteq> Some ''false'')\<rparr>),
      (''batch'', \<lambda>a v. a\<lparr>op_batch := (v \<noteq> Some ''false'')\<rparr>),
      (''cbor'', \<lambda>a v. a\<lparr>op_cbor := (v \<noteq> Some ''false'')\<rparr>),
      (''compilation_mode'', \<lambda>a v. a\<lparr>op_compilation_mode := v\<rparr>),
      (''copt'', \<lambda>a v. a\<lparr>op_copts := op_copts a @ on_value v\<rparr>),
      (''cxxopt'', \<lambda>a v. a\<lparr>op_cxxopts := op_cxxopts a @ on_value v\<rparr>),
      (''conlyopt'', \<lambda>a v. a\<lparr>op_conlyopts := op_conlyopts a @ on_value v\<rparr>),
      (''linkopt'', \<lambda>a v. a\<lparr>op_linkopts := op_linkopts a @ on_value v\<rparr>),
      (''define'', \<lambda>a v. a\<lparr>op_defines := op_defines a @ on_value v\<rparr>),
      (''jobs'', set_jobs),
      (''expunge'', \<lambda>a v. a\<lparr>op_expunge := (v \<noteq> Some ''false'')\<rparr>),
      (''bazel_build_compat'', \<lambda>a v. a\<lparr>op_bazel_build_compat := (v \<noteq> Some ''false'')\<rparr>)]"

text \<open>The flags of both tables, razel's own first.\<close>

definition all_flags :: "flag_spec list" where
  "all_flags = razel_flags @ bazel_flags"

definition spec_long :: "flag_spec list \<Rightarrow> string \<Rightarrow> flag_spec option" where
  "spec_long T name = List.find (\<lambda>f. fs_name f = name) T"

definition spec_short :: "flag_spec list \<Rightarrow> char \<Rightarrow> flag_spec option" where
  "spec_short T c = List.find (\<lambda>f. fs_abbrev f = Some c) T"

definition resolve_long :: "flag_spec list \<Rightarrow> string \<Rightarrow> (flag_spec \<times> bool) option" where
  "resolve_long T name =
     (case spec_long T name of
        Some s \<Rightarrow> Some (s, False)
      | None \<Rightarrow>
          (case strip_prefix name ''no'' of
             None \<Rightarrow> None
           | Some stripped \<Rightarrow>
               (case spec_long T stripped of
                  Some s \<Rightarrow> if fs_takes_value s then None else Some (s, True)
                | None \<Rightarrow> None)))"

definition option_ignored_text :: "string \<Rightarrow> string" where
  "option_ignored_text n = ''razel: `'' @ n @ ''` is a recognized Bazel option, not yet supported by razel '' @
     [CHR 0xE2, CHR 0x80, CHR 0x94] @ '' ignoring''"

definition dispatch_flag :: "opts \<Rightarrow> flag_spec \<Rightarrow> string option \<Rightarrow> opts" where
  "dispatch_flag a s v =
     (case List.find (\<lambda>(n, _). n = fs_name s) handlers of
        Some (_, h) \<Rightarrow> h a v
      | None \<Rightarrow> if fs_silent s then a else a\<lparr>op_stderr := op_stderr a @ [option_ignored_text (fs_name s)]\<rparr>)"

subsection \<open>The parser\<close>

definition unknown_long_text :: "string \<Rightarrow> string" where
  "unknown_long_text n = ''unrecognized option `--'' @ n @ ''` (not a Bazel flag)''"

definition unknown_short_text :: "string \<Rightarrow> string" where
  "unknown_short_text c = ''unrecognized option `-'' @ c @ ''`''"

definition value_missing_text :: "string \<Rightarrow> string" where
  "value_missing_text n = ''`'' @ n @ ''` requires a value''"

definition is_positional :: "string \<Rightarrow> bool" where
  "is_positional arg \<longleftrightarrow> arg = ''-'' \<or> \<not> starts_with arg ''-''"

text \<open>The flag a word names, whether it is negated, and the value the word carries.\<close>

definition flag_of :: "flag_spec list \<Rightarrow> string \<Rightarrow> string + flag_spec \<times> bool \<times> string option" where
  "flag_of T arg =
     (case strip_prefix arg ''--'' of
        Some body \<Rightarrow>
          (let (name, inline_v) = (case split_once body (CHR ''='') of Some (n, v) \<Rightarrow> (n, Some v) | None \<Rightarrow> (body, None))
           in case resolve_long T name of
                Some (s, neg) \<Rightarrow> Ok (s, neg, inline_v)
              | None \<Rightarrow> Err (unknown_long_text name))
      | None \<Rightarrow>
          (let c = arg ! 1; attached = drop 2 arg
           in case spec_short T c of
                Some s \<Rightarrow> Ok (s, False, if attached = [] then None else Some attached)
              | None \<Rightarrow> Err (unknown_short_text (whole_char c attached))))"

definition add_positional :: "opts \<Rightarrow> string \<Rightarrow> opts" where
  "add_positional a w = a\<lparr>op_positionals := op_positionals a @ [w]\<rparr>"

fun parse_words :: "flag_spec list \<Rightarrow> opts \<Rightarrow> bool \<Rightarrow> string list \<Rightarrow> string + opts" where
  "parse_words T a targets_only [] = Ok a"
| "parse_words T a targets_only (arg # args) =
     (if targets_only \<or> is_positional arg then parse_words T (add_positional a arg) targets_only args
      else if arg = ''--'' then parse_words T a True args
      else
        res_bind (flag_of T arg) (\<lambda>(s, neg, v).
          if fs_takes_value s then
            if v = None \<and> \<not> neg then
              (case args of
                 [] \<Rightarrow> Err (value_missing_text (fs_name s))
               | x # args' \<Rightarrow> parse_words T (dispatch_flag a s (Some x)) targets_only args')
            else parse_words T (dispatch_flag a s v) targets_only args
          else parse_words T (dispatch_flag a s (Some (if neg then ''false'' else ''true''))) targets_only args))"

declare parse_words.simps [simp del]

definition cannot_resolve_text :: "string \<Rightarrow> string \<Rightarrow> string" where
  "cannot_resolve_text w e = ''cannot resolve workspace '' @ w @ '': '' @ e"

definition absolute_workspace :: "(string \<Rightarrow> string + string) \<Rightarrow> opts \<Rightarrow> string + opts" where
  "absolute_workspace canon a =
     (if starts_with (op_workspace a) ''/'' then Ok a
      else
        (case canon (op_workspace a) of
           Inl e \<Rightarrow> Err (cannot_resolve_text (op_workspace a) e)
         | Inr w \<Rightarrow> Ok (a\<lparr>op_workspace := w\<rparr>)))"

definition parse_opts :: "(string \<Rightarrow> string + string) \<Rightarrow> string list \<Rightarrow> string + opts" where
  "parse_opts canon args = res_bind (parse_words all_flags default_opts False args) (absolute_workspace canon)"

definition default_socket :: "string \<Rightarrow> string" where
  "default_socket w = path_join w ''.razel-daemon.sock''"

subsection \<open>The \<open>rc\<close> files\<close>

definition split_once_space :: "string \<Rightarrow> (string \<times> string) option" where
  "split_once_space s =
     (case dropWhile (\<lambda>c. \<not> is_space c) s of
        [] \<Rightarrow> None
      | _ # rest \<Rightarrow> Some (takeWhile (\<lambda>c. \<not> is_space c) s, rest))"

definition rc_line_flags :: "string list \<Rightarrow> string \<Rightarrow> string list" where
  "rc_line_flags commands line =
     (let t = str_trim line
      in if t = [] \<or> starts_with t ''#'' then []
         else
           (case split_once_space t of
              Some (cmd, rest) \<Rightarrow> if cmd \<in> set commands then split_whitespace rest else []
            | None \<Rightarrow> []))"

text \<open>\<open>read\<close> is the content of a file that can be read.\<close>

definition rc_lite_flags :: "(string \<Rightarrow> string option) \<Rightarrow> string \<Rightarrow> string list \<Rightarrow> string list" where
  "rc_lite_flags read workspace commands =
     concat (List.map (\<lambda>rc.
       case read (path_join workspace rc) of
         None \<Rightarrow> []
       | Some src \<Rightarrow> concat (List.map (rc_line_flags commands) (str_lines src))) [''.bazelrc'', ''.razelrc''])"

definition parse_opts_with_rc ::
    "(string \<Rightarrow> string + string) \<Rightarrow> (string \<Rightarrow> string option) \<Rightarrow> string list \<Rightarrow> string list \<Rightarrow> string + opts" where
  "parse_opts_with_rc canon read commands args =
     res_bind (parse_opts canon args) (\<lambda>pre.
       let rc = rc_lite_flags read (op_workspace pre) commands
       in if rc = [] then Ok pre else parse_opts canon (rc @ args))"

end
