(* ===== verification/Args_Props.thy ===== *)
theory Args_Props
  imports Args
begin

section \<open>Properties of the command line\<close>

text \<open>
  A command line is a sequence of items, positional arguments and the spellings of a flag; the parser accepts exactly
  the items over its tables and applies them in order.  The flags of the \<open>rc\<close> files come first.  The lookups in the
  table that the examples need are computed part by part.
\<close>

subsection \<open>Words as items\<close>

text \<open>A positional argument, or one of the spellings of a flag.\<close>

datatype arg_item =
    Positional string
  | LongValue flag_spec string
  | LongNext flag_spec string
  | LongBool flag_spec "string option"
  | LongNo flag_spec "string option"
  | ShortValue flag_spec char string
  | ShortNext flag_spec char string
  | ShortBool flag_spec char string

definition with_inline :: "string option \<Rightarrow> string" where
  "with_inline v = (case v of None \<Rightarrow> [] | Some x \<Rightarrow> ''='' @ x)"

fun item_words :: "arg_item \<Rightarrow> string list" where
  "item_words (Positional w) = [w]"
| "item_words (LongValue s v) = [''--'' @ fs_name s @ ''='' @ v]"
| "item_words (LongNext s v) = [''--'' @ fs_name s, v]"
| "item_words (LongBool s v) = [''--'' @ fs_name s @ with_inline v]"
| "item_words (LongNo s v) = [''--no'' @ fs_name s @ with_inline v]"
| "item_words (ShortValue s c v) = [CHR ''-'' # c # v]"
| "item_words (ShortNext s c v) = [[CHR ''-'', c], v]"
| "item_words (ShortBool s c v) = [CHR ''-'' # c # v]"

definition long_ok :: "flag_spec list \<Rightarrow> flag_spec \<Rightarrow> bool" where
  "long_ok T s \<longleftrightarrow> spec_long T (fs_name s) = Some s \<and> CHR ''='' \<notin> set (fs_name s)"

definition short_ok :: "flag_spec list \<Rightarrow> flag_spec \<Rightarrow> char \<Rightarrow> bool" where
  "short_ok T s c \<longleftrightarrow> spec_short T c = Some s \<and> c \<noteq> CHR ''-''"

fun item_ok :: "flag_spec list \<Rightarrow> arg_item \<Rightarrow> bool" where
  "item_ok T (Positional w) \<longleftrightarrow> is_positional w"
| "item_ok T (LongValue s v) \<longleftrightarrow> long_ok T s \<and> fs_takes_value s"
| "item_ok T (LongNext s v) \<longleftrightarrow> long_ok T s \<and> fs_takes_value s \<and> fs_name s \<noteq> []"
| "item_ok T (LongBool s v) \<longleftrightarrow> long_ok T s \<and> \<not> fs_takes_value s \<and> (fs_name s \<noteq> [] \<or> v \<noteq> None)"
| "item_ok T (LongNo s v) \<longleftrightarrow> long_ok T s \<and> \<not> fs_takes_value s \<and> spec_long T (''no'' @ fs_name s) = None"
| "item_ok T (ShortValue s c v) \<longleftrightarrow> short_ok T s c \<and> fs_takes_value s \<and> v \<noteq> []"
| "item_ok T (ShortNext s c v) \<longleftrightarrow> short_ok T s c \<and> fs_takes_value s"
| "item_ok T (ShortBool s c v) \<longleftrightarrow> short_ok T s c \<and> \<not> fs_takes_value s"

fun apply_item :: "arg_item \<Rightarrow> opts \<Rightarrow> opts" where
  "apply_item (Positional w) a = add_positional a w"
| "apply_item (LongValue s v) a = dispatch_flag a s (Some v)"
| "apply_item (LongNext s v) a = dispatch_flag a s (Some v)"
| "apply_item (LongBool s v) a = dispatch_flag a s (Some ''true'')"
| "apply_item (LongNo s v) a = dispatch_flag a s (Some ''false'')"
| "apply_item (ShortValue s c v) a = dispatch_flag a s (Some v)"
| "apply_item (ShortNext s c v) a = dispatch_flag a s (Some v)"
| "apply_item (ShortBool s c v) a = dispatch_flag a s (Some ''true'')"

lemma spec_long_name: "spec_long T n = Some s \<Longrightarrow> fs_name s = n"
  unfolding spec_long_def by (auto simp: find_Some_iff)

lemma flag_word: "\<not> is_positional (CHR ''-'' # c # w)"
  by (simp add: is_positional_def starts_with_def)

lemma flag_of_long_eq:
  "CHR ''='' \<notin> set n \<Longrightarrow> resolve_long T n = Some (s, neg) \<Longrightarrow>
   flag_of T (''--'' @ n @ with_inline v) = Ok (s, neg, v)"
  by (cases v)
    (simp_all add: flag_of_def with_inline_def strip_prefix_def starts_with_def split_once_append split_once_None [THEN iffD2])

lemma flag_of_short:
  "short_ok T s c \<Longrightarrow> flag_of T (CHR ''-'' # c # v) = Ok (s, False, if v = [] then None else Some v)"
  by (simp add: flag_of_def short_ok_def strip_prefix_def starts_with_def)

lemma resolve_long_name: "long_ok T s \<Longrightarrow> resolve_long T (fs_name s) = Some (s, False)"
  by (simp add: long_ok_def resolve_long_def)

lemma resolve_long_no:
  "item_ok T (LongNo s v) \<Longrightarrow> resolve_long T (''no'' @ fs_name s) = Some (s, True)"
  by (simp add: long_ok_def resolve_long_def strip_prefix_def starts_with_def)

lemma flag_of_long: "long_ok T s \<Longrightarrow> flag_of T (''--'' @ fs_name s @ with_inline v) = Ok (s, False, v)"
  by (rule flag_of_long_eq [OF _ resolve_long_name]) (simp_all add: long_ok_def)

lemma flag_of_no: "item_ok T (LongNo s v) \<Longrightarrow> flag_of T (''--'' @ (''no'' @ fs_name s) @ with_inline v) = Ok (s, True, v)"
  by (rule flag_of_long_eq [OF _ resolve_long_no]) (simp_all add: long_ok_def)

lemma parse_step:
  assumes "\<not> is_positional w" "w \<noteq> ''--''"
  shows "parse_words T a False (w # args) =
    res_bind (flag_of T w) (\<lambda>(s, neg, v).
      if fs_takes_value s then
        if v = None \<and> \<not> neg then
          (case args of
             [] \<Rightarrow> Err (value_missing_text (fs_name s))
           | x # args' \<Rightarrow> parse_words T (dispatch_flag a s (Some x)) False args')
        else parse_words T (dispatch_flag a s v) False args
      else parse_words T (dispatch_flag a s (Some (if neg then ''false'' else ''true''))) False args)"
  using assms by (simp add: parse_words.simps)

lemma long_word: "\<not> is_positional (''--'' @ w)" "''--'' @ w = ''--'' \<longleftrightarrow> w = []"
  by (simp_all add: flag_word)

lemma parse_item:
  "item_ok T it \<Longrightarrow> parse_words T a False (item_words it @ args) = parse_words T (apply_item it a) False args"
proof (cases it)
  case (Positional w)
  assume "item_ok T it"
  with Positional show ?thesis by (simp add: parse_words.simps)
next
  case (LongValue s v)
  assume ok: "item_ok T it"
  have "flag_of T (''--'' @ fs_name s @ ''='' @ v) = Ok (s, False, Some v)"
    using flag_of_long [of T s "Some v"] ok LongValue by (simp add: with_inline_def)
  with ok LongValue show ?thesis by (simp add: parse_step flag_word)
next
  case (LongNext s v)
  assume ok: "item_ok T it"
  have "flag_of T (''--'' @ fs_name s) = Ok (s, False, None)"
    using flag_of_long [of T s None] ok LongNext by (simp add: with_inline_def)
  with ok LongNext show ?thesis by (simp add: parse_step flag_word)
next
  case (LongBool s v)
  assume ok: "item_ok T it"
  have "flag_of T (''--'' @ fs_name s @ with_inline v) = Ok (s, False, v)"
    using flag_of_long [of T s v] ok LongBool by simp
  moreover have "fs_name s @ with_inline v \<noteq> []"
    using ok LongBool by (auto simp: with_inline_def)
  ultimately show ?thesis using ok LongBool by (simp add: parse_step flag_word)
next
  case (LongNo s v)
  assume ok: "item_ok T it"
  have "flag_of T (''--'' @ (''no'' @ fs_name s) @ with_inline v) = Ok (s, True, v)"
    using flag_of_no ok LongNo by simp
  with ok LongNo show ?thesis by (simp add: parse_step flag_word)
next
  case (ShortValue s c v)
  assume ok: "item_ok T it"
  with ShortValue show ?thesis by (simp add: parse_step flag_word flag_of_short short_ok_def)
next
  case (ShortNext s c v)
  assume ok: "item_ok T it"
  then have "flag_of T (CHR ''-'' # c # []) = Ok (s, False, None)"
    using ShortNext flag_of_short [of T s c "[]"] by simp
  with ok ShortNext show ?thesis by (simp add: parse_step flag_word short_ok_def)
next
  case (ShortBool s c v)
  assume ok: "item_ok T it"
  with ShortBool show ?thesis by (simp add: parse_step flag_word flag_of_short short_ok_def)
qed

text \<open>Every word that is accepted is an item.\<close>

lemma resolve_long_cases:
  assumes "resolve_long T n = Some (s, neg)"
  obtains "\<not> neg" "n = fs_name s" "spec_long T n = Some s"
  | "neg" "n = ''no'' @ fs_name s" "spec_long T n = None" "spec_long T (fs_name s) = Some s" "\<not> fs_takes_value s"
  using assms spec_long_name
  by (fastforce simp: resolve_long_def strip_prefix_def starts_with_iff split: option.splits if_splits)

lemma flag_of_long_cases:
  assumes "flag_of T (''--'' @ body) = Ok (s, neg, v)"
  obtains n where "body = n @ with_inline v" "CHR ''='' \<notin> set n" "resolve_long T n = Some (s, neg)"
  using assms
  by (cases "split_once body (CHR ''='')")
    (auto simp: flag_of_def strip_prefix_def starts_with_def with_inline_def split_once_None split_once_Some
      split: option.splits)

lemma flag_of_short_cases:
  assumes "flag_of T (CHR ''-'' # c # w) = Ok (s, neg, v)" "c \<noteq> CHR ''-''"
  shows "\<not> neg" "short_ok T s c" "v = (if w = [] then None else Some w)"
  using assms by (auto simp: flag_of_def strip_prefix_def starts_with_def short_ok_def split: option.splits)

definition word_item :: "flag_spec list \<Rightarrow> arg_item \<Rightarrow> string list \<Rightarrow> flag_spec \<Rightarrow> string option \<Rightarrow> bool" where
  "word_item T it ws s v \<longleftrightarrow> item_ok T it \<and> item_words it = ws \<and> (\<forall>a. apply_item it a = dispatch_flag a s v)"

lemma long_word_item:
  assumes "flag_of T (''--'' @ body) = Ok (s, neg, v)" "body \<noteq> []"
  shows "fs_takes_value s \<and> \<not> neg \<and>
           (case v of None \<Rightarrow> \<forall>x. \<exists>it. word_item T it [''--'' @ body, x] s (Some x)
            | Some x \<Rightarrow> \<exists>it. word_item T it [''--'' @ body] s (Some x)) \<or>
         \<not> fs_takes_value s \<and>
           (\<exists>it. word_item T it [''--'' @ body] s (Some (if neg then ''false'' else ''true'')))"
proof -
  obtain n where n: "body = n @ with_inline v" "CHR ''='' \<notin> set n" "resolve_long T n = Some (s, neg)"
    using assms(1) by (rule flag_of_long_cases)
  from n(3) show ?thesis
  proof (cases rule: resolve_long_cases)
    case 1
    then have ok: "long_ok T s" using n by (simp add: long_ok_def)
    show ?thesis
    proof (cases "fs_takes_value s")
      case True
      show ?thesis
      proof (cases v)
        case None
        then have "word_item T (LongNext s x) [''--'' @ body, x] s (Some x)" for x
          using 1 ok True n assms(2) by (simp add: word_item_def with_inline_def)
        with True 1 None show ?thesis by auto
      next
        case (Some x)
        then have "word_item T (LongValue s x) [''--'' @ body] s (Some x)"
          using 1 ok True n by (simp add: word_item_def with_inline_def)
        with True 1 Some show ?thesis by auto
      qed
    next
      case False
      have "word_item T (LongBool s v) [''--'' @ body] s (Some ''true'')"
        using 1 ok False n assms(2) by (cases v) (auto simp: word_item_def with_inline_def)
      with False 1 show ?thesis by auto
    qed
  next
    case 2
    have "word_item T (LongNo s v) [''--'' @ body] s (Some ''false'')"
      using 2 n by (simp add: word_item_def long_ok_def)
    with 2 show ?thesis by auto
  qed
qed

lemma short_word_item:
  assumes "flag_of T (CHR ''-'' # c # w) = Ok (s, neg, v)" "c \<noteq> CHR ''-''"
  shows "fs_takes_value s \<and> \<not> neg \<and>
           (case v of None \<Rightarrow> \<forall>x. \<exists>it. word_item T it [CHR ''-'' # c # w, x] s (Some x)
            | Some x \<Rightarrow> \<exists>it. word_item T it [CHR ''-'' # c # w] s (Some x)) \<or>
         \<not> fs_takes_value s \<and>
           (\<exists>it. word_item T it [CHR ''-'' # c # w] s (Some (if neg then ''false'' else ''true'')))"
proof -
  note f = flag_of_short_cases [OF assms]
  show ?thesis
  proof (cases "fs_takes_value s")
    case True
    show ?thesis
    proof (cases w)
      case Nil
      then have "word_item T (ShortNext s c x) [CHR ''-'' # c # w, x] s (Some x)" for x
        using f True by (simp add: word_item_def)
      with True f Nil show ?thesis by auto
    next
      case (Cons d ds)
      then have "word_item T (ShortValue s c w) [CHR ''-'' # c # w] s (Some w)"
        using f True by (simp add: word_item_def)
      with True f Cons show ?thesis by auto
    qed
  next
    case False
    have "word_item T (ShortBool s c w) [CHR ''-'' # c # w] s (Some ''true'')"
      using f False by (simp add: word_item_def)
    with False f show ?thesis by auto
  qed
qed

lemma flag_word_item:
  assumes "\<not> is_positional w" "w \<noteq> ''--''" "flag_of T w = Ok (s, neg, v)"
  shows "fs_takes_value s \<and> \<not> neg \<and>
           (case v of None \<Rightarrow> \<forall>x. \<exists>it. word_item T it [w, x] s (Some x)
            | Some x \<Rightarrow> \<exists>it. word_item T it [w] s (Some x)) \<or>
         \<not> fs_takes_value s \<and> (\<exists>it. word_item T it [w] s (Some (if neg then ''false'' else ''true'')))"
proof -
  from assms(1) obtain c r where w: "w = CHR ''-'' # c # r"
    by (cases w; cases "tl w") (auto simp: is_positional_def starts_with_def)
  show ?thesis
  proof (cases "c = CHR ''-''")
    case True
    then have w': "w = ''--'' @ r" using w by simp
    show ?thesis unfolding w' by (rule long_word_item) (use assms w' in auto)
  next
    case False
    show ?thesis unfolding w by (rule short_word_item) (use False assms w in auto)
  qed
qed

definition items_args :: "arg_item list \<Rightarrow> string list \<Rightarrow> string list \<Rightarrow> bool" where
  "items_args its ts args \<longleftrightarrow>
     args = concat (map item_words its) \<and> ts = [] \<or> args = concat (map item_words its) @ ''--'' # ts"

definition parsed_as :: "flag_spec list \<Rightarrow> opts \<Rightarrow> string list \<Rightarrow> opts \<Rightarrow> bool" where
  "parsed_as T a args b \<longleftrightarrow>
     (\<exists>its ts. list_all (item_ok T) its \<and> items_args its ts args \<and> b = fold (\<lambda>w a. add_positional a w) ts (fold apply_item its a))"

lemma parse_targets_only: "parse_words T a True ws = Ok (fold (\<lambda>w a. add_positional a w) ws a)"
  by (induction ws arbitrary: a) (simp_all add: parse_words.simps)

lemma parse_items:
  "list_all (item_ok T) its \<Longrightarrow>
   parse_words T a False (concat (map item_words its) @ args) = parse_words T (fold apply_item its a) False args"
  by (induction its arbitrary: a) (simp_all add: parse_item)

lemma parsed_as_sound: "parsed_as T a args b \<Longrightarrow> parse_words T a False args = Ok b"
proof -
  assume "parsed_as T a args b"
  then obtain its ts where i: "list_all (item_ok T) its" "items_args its ts args"
    "b = fold (\<lambda>w a. add_positional a w) ts (fold apply_item its a)"
    unfolding parsed_as_def by blast
  have "is_positional ''--'' = False" by (simp add: is_positional_def starts_with_def)
  then show ?thesis
    using i parse_items [OF i(1), of a "[]"] parse_items [OF i(1), of a "''--'' # ts"]
    by (auto simp: items_args_def parse_targets_only parse_words.simps)
qed

lemma parsed_as_Cons:
  assumes "word_item T it ws s v" "parsed_as T (dispatch_flag a s v) args b"
  shows "parsed_as T a (ws @ args) b"
proof -
  from assms(2) obtain its ts where i: "list_all (item_ok T) its" "items_args its ts args"
    "b = fold (\<lambda>w a. add_positional a w) ts (fold apply_item its (dispatch_flag a s v))"
    unfolding parsed_as_def by blast
  then have "list_all (item_ok T) (it # its) \<and> items_args (it # its) ts (ws @ args) \<and>
      b = fold (\<lambda>w a. add_positional a w) ts (fold apply_item (it # its) a)"
    using assms(1) by (auto simp: items_args_def word_item_def)
  then show ?thesis unfolding parsed_as_def by blast
qed

lemma parsed_as_positional:
  assumes "is_positional w" "parsed_as T (add_positional a w) args b"
  shows "parsed_as T a (w # args) b"
proof -
  from assms(2) obtain its ts where i: "list_all (item_ok T) its" "items_args its ts args"
    "b = fold (\<lambda>w a. add_positional a w) ts (fold apply_item its (add_positional a w))"
    unfolding parsed_as_def by blast
  then have "list_all (item_ok T) (Positional w # its) \<and> items_args (Positional w # its) ts (w # args) \<and>
      b = fold (\<lambda>w a. add_positional a w) ts (fold apply_item (Positional w # its) a)"
    using assms(1) by (auto simp: items_args_def)
  then show ?thesis unfolding parsed_as_def by blast
qed

lemma parsed_as_Nil: "parsed_as T a [] a"
  unfolding parsed_as_def items_args_def by (rule exI [of _ "[]"], rule exI [of _ "[]"]) simp

lemma parsed_as_stop: "parsed_as T a (''--'' # ws) (fold (\<lambda>w a. add_positional a w) ws a)"
  unfolding parsed_as_def items_args_def by (rule exI [of _ "[]"], rule exI [of _ ws]) simp

lemma parsed_as_complete: "parse_words T a False args = Ok b \<Longrightarrow> parsed_as T a args b"
proof (induction "length args" arbitrary: a args rule: less_induct)
  case less
  show ?case
  proof (cases args)
    case Nil
    with less(2) show ?thesis by (simp add: parse_words.simps parsed_as_Nil)
  next
    case (Cons w ws)
    have ih: "parse_words T c False ws = Ok b \<Longrightarrow> parsed_as T c ws b" for c
      by (rule less(1)) (simp_all add: Cons)
    consider "is_positional w" | "w = ''--''" | "\<not> is_positional w" "w \<noteq> ''--''" by blast
    then show ?thesis
    proof cases
      case 1
      with less(2) Cons have "parse_words T (add_positional a w) False ws = Ok b" by (simp add: parse_words.simps)
      then show ?thesis using parsed_as_positional [OF 1 ih] Cons by simp
    next
      case 2
      with less(2) Cons have "b = fold (\<lambda>w a. add_positional a w) ws a"
        by (simp add: parse_words.simps parse_targets_only is_positional_def starts_with_def)
      with 2 Cons show ?thesis by (simp add: parsed_as_stop)
    next
      case 3
      note eq = less(2) [unfolded Cons parse_step [OF 3]]
      then obtain s neg v where f: "flag_of T w = Ok (s, neg, v)" by (cases "flag_of T w") auto
      note it = flag_word_item [OF 3 f]
      note eq = eq [unfolded f res_bind_simps prod.case]
      show ?thesis
      proof (cases "fs_takes_value s")
        case True
        show ?thesis
        proof (cases v)
          case None
          then obtain x ws' where ws: "ws = x # ws'" using eq True it by (cases ws) auto
          obtain i where i: "word_item T i [w, x] s (Some x)" using it True None by auto
          have "parse_words T (dispatch_flag a s (Some x)) False ws' = Ok b" using eq True None it ws by auto
          then have "parsed_as T (dispatch_flag a s (Some x)) ws' b" by (intro less(1)) (simp_all add: Cons ws)
          from parsed_as_Cons [OF i this] show ?thesis by (simp add: Cons ws)
        next
          case (Some x)
          obtain i where i: "word_item T i [w] s v" using it True Some by auto
          have "parse_words T (dispatch_flag a s v) False ws = Ok b" using eq True Some it by auto
          from parsed_as_Cons [OF i ih [OF this]] show ?thesis by (simp add: Cons)
        qed
      next
        case False
        define v' where "v' = Some (if neg then ''false'' else ''true'')"
        obtain i where i: "word_item T i [w] s v'" using it False by (auto simp: v'_def)
        have "parse_words T (dispatch_flag a s v') False ws = Ok b" using eq False by (simp add: v'_def)
        from parsed_as_Cons [OF i ih [OF this]] show ?thesis by (simp add: Cons)
      qed
    qed
  qed
qed

lemma parsed_as_iff: "parse_words T a False args = Ok b \<longleftrightarrow> parsed_as T a args b"
  using parsed_as_sound parsed_as_complete by blast

subsection \<open>The properties\<close>

text \<open>C33: a command line is accepted exactly as a sequence of positional arguments and of the spellings of the flags
  of the two tables, with an optional \<open>--\<close> and more positional arguments; the options are what the items do, applied
  in the order of the line.\<close>

theorem command_line_exact:
  "parse_words all_flags default_opts False args = Ok b \<longleftrightarrow>
   (\<exists>its ts. list_all (item_ok all_flags) its \<and>
      (args = concat (map item_words its) \<and> ts = [] \<or> args = concat (map item_words its) @ ''--'' # ts) \<and>
      b = fold (\<lambda>w a. add_positional a w) ts (fold apply_item its default_opts))"
  by (rule parsed_as_iff [unfolded parsed_as_def items_args_def])

text \<open>the flags of the \<open>rc\<close> files act before the arguments, so that the command line wins: when they are complete
  items, the arguments are parsed from the options the files leave.\<close>

theorem rc_flags_first:
  assumes "parse_opts canon args = Ok pre"
    and "rc_lite_flags read (op_workspace pre) commands = concat (map item_words its)"
    and "list_all (item_ok all_flags) its"
  shows "parse_opts_with_rc canon read commands args =
    res_bind (parse_words all_flags (fold apply_item its default_opts) False args) (absolute_workspace canon)"
proof (cases "its = []")
  case True
  then show ?thesis using assms by (simp add: parse_opts_with_rc_def parse_opts_def)
next
  case False
  then have "concat (map item_words its) \<noteq> []" by (cases its; cases "hd its") auto
  then show ?thesis
    using assms by (simp add: parse_opts_with_rc_def parse_opts_def parse_items del: concat_eq_Nil_conv)
qed

text \<open>Looking a flag up, one part of the table after the other.\<close>

lemma find_two_parts: "List.find P (xs @ ys) = (case List.find P xs of None \<Rightarrow> List.find P ys | Some x \<Rightarrow> Some x)"
  by (induction xs) auto

lemma find_part: "xs = ys \<Longrightarrow> List.find P xs = List.find P ys"
  by simp

lemmas find_parts =
  bazel_flags_1_def [THEN find_part] bazel_flags_2_def [THEN find_part] bazel_flags_3_def [THEN find_part]
  bazel_flags_4_def [THEN find_part] bazel_flags_5_def [THEN find_part] bazel_flags_6_def [THEN find_part]
  bazel_flags_7_def [THEN find_part] bazel_flags_8_def [THEN find_part] bazel_flags_9_def [THEN find_part]
  bazel_flags_10_def [THEN find_part] bazel_flags_11_def [THEN find_part] bazel_flags_12_def [THEN find_part]
  bazel_flags_13_def [THEN find_part] bazel_flags_14_def [THEN find_part] bazel_flags_15_def [THEN find_part]
  bazel_flags_16_def [THEN find_part] bazel_flags_17_def [THEN find_part] bazel_flags_18_def [THEN find_part]
  bazel_flags_19_def [THEN find_part] bazel_flags_20_def [THEN find_part] bazel_flags_21_def [THEN find_part]
  bazel_flags_22_def [THEN find_part] bazel_flags_23_def [THEN find_part] bazel_flags_24_def [THEN find_part]
  bazel_flags_25_def [THEN find_part] bazel_flags_26_def [THEN find_part] bazel_flags_27_def [THEN find_part]
  bazel_flags_28_def [THEN find_part] bazel_flags_29_def [THEN find_part] bazel_flags_30_def [THEN find_part]
  bazel_flags_31_def [THEN find_part] bazel_flags_32_def [THEN find_part] bazel_flags_33_def [THEN find_part]
  bazel_flags_34_def [THEN find_part] bazel_flags_35_def [THEN find_part] bazel_flags_36_def [THEN find_part]
  bazel_flags_37_def [THEN find_part] bazel_flags_38_def [THEN find_part] bazel_flags_39_def [THEN find_part]
  bazel_flags_40_def [THEN find_part] bazel_flags_41_def [THEN find_part] bazel_flags_42_def [THEN find_part]
  bazel_flags_43_def [THEN find_part] bazel_flags_44_def [THEN find_part] bazel_flags_45_def [THEN find_part]
  bazel_flags_46_def [THEN find_part] bazel_flags_47_def [THEN find_part] bazel_flags_48_def [THEN find_part]
  bazel_flags_49_def [THEN find_part] bazel_flags_50_def [THEN find_part]

lemmas flag_lookup = spec_long_def spec_short_def all_flags_def find_two_parts bazel_flags_def
  razel_flags_def [THEN find_part] flag_def find_parts

definition copt_flag :: flag_spec where
  "copt_flag = flag ''copt'' None True True False"

definition mode_flag :: flag_spec where
  "mode_flag = flag ''compilation_mode'' (Some (CHR ''c'')) True False False"

definition batch_flag :: flag_spec where
  "batch_flag = flag ''batch'' None False False False"

lemma copt_lookup: "spec_long all_flags ''copt'' = Some copt_flag"
  by (simp add: flag_lookup copt_flag_def)

lemma mode_lookup: "spec_short all_flags (CHR ''c'') = Some mode_flag"
  by (simp add: flag_lookup mode_flag_def)

lemma batch_lookup: "spec_long all_flags ''batch'' = Some batch_flag"
  by (simp add: flag_lookup batch_flag_def)

lemma batch_items_ok:
  "item_ok all_flags (LongBool batch_flag v)" "item_ok all_flags (ShortValue mode_flag (CHR ''c'') ''opt'')"
  "item_ok all_flags (ShortNext mode_flag (CHR ''c'') ''dbg'')" "item_ok all_flags (LongValue copt_flag w)"
  "item_ok all_flags (LongNext copt_flag w)"
  using batch_lookup mode_lookup copt_lookup
  by (auto simp: long_ok_def short_ok_def batch_flag_def mode_flag_def copt_flag_def flag_def)

lemma parse_last_item: "item_ok T it \<Longrightarrow> parse_words T a False (item_words it) = Ok (apply_item it a)"
  using parse_item [of T it a "[]"] by (simp add: parse_words.simps)

lemma flag_effects [simp]:
  "dispatch_flag a batch_flag v = a\<lparr>op_batch := (v \<noteq> Some ''false'')\<rparr>"
  "dispatch_flag a mode_flag v = a\<lparr>op_compilation_mode := v\<rparr>"
  "dispatch_flag a copt_flag v = a\<lparr>op_copts := op_copts a @ on_value v\<rparr>"
  by (simp_all add: dispatch_flag_def handlers_def batch_flag_def mode_flag_def copt_flag_def flag_def)

definition demo_rc :: "string \<Rightarrow> string option" where
  "demo_rc f = (if f = ''/w/.bazelrc'' then Some ''build --copt=-g -c dbg'' else None)"

definition demo_rc_items :: "arg_item list" where
  "demo_rc_items = [LongValue copt_flag ''-g'', ShortNext mode_flag (CHR ''c'') ''dbg'']"

lemma demo_rc_flags: "rc_lite_flags demo_rc ''/w'' [''build''] = concat (map item_words demo_rc_items)"
  by code_simp

lemma demo_opt: "parse_words all_flags a False [''-copt''] = Ok (a\<lparr>op_compilation_mode := Some ''opt''\<rparr>)"
  using parse_last_item [OF batch_items_ok(2), of a] by simp

lemma demo_rc_pre:
  "parse_opts (\<lambda>_. Ok ''/w'') [''-copt''] = Ok (default_opts\<lparr>op_compilation_mode := Some ''opt'', op_workspace := ''/w''\<rparr>)"
  by (simp add: parse_opts_def demo_opt absolute_workspace_def default_opts_def starts_with_def)

theorem rc_flags_first_witness:
  "parse_opts_with_rc (\<lambda>_. Ok ''/w'') demo_rc [''build''] [''-copt'']
   = Ok (default_opts\<lparr>op_compilation_mode := Some ''opt'', op_copts := [''-g''], op_workspace := ''/w''\<rparr>)"
proof -
  have "rc_lite_flags demo_rc (op_workspace (default_opts\<lparr>op_compilation_mode := Some ''opt'', op_workspace := ''/w''\<rparr>)) [''build'']
      = concat (map item_words demo_rc_items)"
    using demo_rc_flags by simp
  from rc_flags_first [OF demo_rc_pre this] show ?thesis
    using batch_items_ok
    by (simp add: demo_rc_items_def demo_opt absolute_workspace_def default_opts_def starts_with_def on_value_def)
qed

text \<open>Every flag with a handler is in the tables: no handler is dead.\<close>

lemma known_cxxopt: "spec_long all_flags ''cxxopt'' \<noteq> None"
  by (simp add: flag_lookup)

lemma known_conlyopt: "spec_long all_flags ''conlyopt'' \<noteq> None"
  by (simp add: flag_lookup)

lemma known_compilation_mode: "spec_long all_flags ''compilation_mode'' \<noteq> None"
  by (simp add: flag_lookup)

lemma known_define: "spec_long all_flags ''define'' \<noteq> None"
  by (simp add: flag_lookup)

lemma known_disk_cache: "spec_long all_flags ''disk_cache'' \<noteq> None"
  by (simp add: flag_lookup)

lemma known_expunge: "spec_long all_flags ''expunge'' \<noteq> None"
  by (simp add: flag_lookup)

lemma known_jobs: "spec_long all_flags ''jobs'' \<noteq> None"
  by (simp add: flag_lookup)

lemma known_linkopt: "spec_long all_flags ''linkopt'' \<noteq> None"
  by (simp add: flag_lookup)

lemma razel_flags_known:
  "spec_long all_flags ''workspace'' \<noteq> None" "spec_long all_flags ''cache'' \<noteq> None"
  "spec_long all_flags ''socket'' \<noteq> None" "spec_long all_flags ''daemon'' \<noteq> None"
  "spec_long all_flags ''cbor'' \<noteq> None" "spec_long all_flags ''bazel_build_compat'' \<noteq> None"
  by (simp_all add: flag_lookup)

lemma handlers_recognized: "list_all (\<lambda>n. spec_long all_flags n \<noteq> None) (map fst handlers)"
  using known_cxxopt known_conlyopt known_compilation_mode known_define known_disk_cache known_expunge known_jobs
    known_linkopt copt_lookup batch_lookup razel_flags_known
  by (simp add: handlers_def del: not_None_eq)

text \<open>The value written to a boolean flag is dropped: \<open>--batch=false\<close> turns the flag on.\<close>

lemma batch_false_means_true:
  "parse_words all_flags a False [''--batch=false''] = Ok (a\<lparr>op_batch := True\<rparr>)"
  using parse_last_item [OF batch_items_ok(1), of a "Some ''false''"]
  by (simp add: batch_flag_def [THEN arg_cong [of _ _ fs_name]] flag_def with_inline_def)

text \<open>A flag of an \<open>rc\<close> file that lacks its value takes the first argument of the command line.\<close>

lemma rc_takes_argument:
  "parse_words all_flags a False ([''--copt''] @ [''//a'']) = Ok (a\<lparr>op_copts := op_copts a @ [''//a'']\<rparr>)"
  using parse_last_item [OF batch_items_ok(5), of a "''//a''"]
  by (simp add: copt_flag_def [THEN arg_cong [of _ _ fs_name]] flag_def on_value_def)

end
