(* ===== verification/Ws.thy ===== *)
theory Ws
  imports Cbor Std_Text
begin

section \<open>The websocket edge\<close>

text \<open>
  \<^verbatim>\<open>crates/grazel-cli-lib/src/ws.rs\<close>: the handshake (SHA-1 and base64 written by hand), the frames of RFC 6455, and
  the connection that turns the length-prefixed frames of the socket protocol into websocket messages.  A stream is
  the bytes the client sends; what is written to it is a list of bytes.  Writes succeed.
\<close>

unbundle bit_operations_syntax

subsection \<open>SHA-1\<close>

type_synonym u32 = "32 word"

function chunks_of :: "nat \<Rightarrow> 'a list \<Rightarrow> 'a list list" where
  "chunks_of n xs = (if n = 0 \<or> xs = [] then [] else take n xs # chunks_of n (drop n xs))"
  by pat_completeness auto
termination
  by (relation "measure (\<lambda>(n, xs). length xs)") auto

declare chunks_of.simps [simp del]

definition u32_be :: "byte list \<Rightarrow> u32" where
  "u32_be bs = word_of_nat (be_val bs)"

definition u32_bytes :: "u32 \<Rightarrow> byte list" where
  "u32_bytes w = be_bytes 4 (unat w)"

definition sha_pad :: "byte list \<Rightarrow> byte list" where
  "sha_pad bs =
     bs @ 0x80 # replicate ((119 - length bs mod 64) mod 64) 0 @ be_bytes 8 (8 * length bs)"

primrec sha_extend :: "nat \<Rightarrow> u32 list \<Rightarrow> u32 list" where
  "sha_extend 0 w = w"
| "sha_extend (Suc k) w =
     (let i = length w
      in sha_extend k (w @ [word_rotl 1 (w ! (i - 3) XOR w ! (i - 8) XOR w ! (i - 14) XOR w ! (i - 16))]))"

type_synonym sha_state = "u32 \<times> u32 \<times> u32 \<times> u32 \<times> u32"

definition sha_f :: "nat \<Rightarrow> u32 \<Rightarrow> u32 \<Rightarrow> u32 \<Rightarrow> u32 \<times> u32" where
  "sha_f i b c d =
     (if i \<le> 19 then ((b AND c) OR (NOT b AND d), 0x5A827999)
      else if i \<le> 39 then (b XOR c XOR d, 0x6ED9EBA1)
      else if i \<le> 59 then ((b AND c) OR (b AND d) OR (c AND d), 0x8F1BBCDC)
      else (b XOR c XOR d, 0xCA62C1D6))"

fun sha_round :: "nat \<times> u32 \<Rightarrow> sha_state \<Rightarrow> sha_state" where
  "sha_round (i, wi) (a, b, c, d, e) =
     (let (f, k) = sha_f i b c d
      in (word_rotl 5 a + f + e + k + wi, a, word_rotl 30 b, c, d))"

fun sha_add :: "sha_state \<Rightarrow> sha_state \<Rightarrow> sha_state" where
  "sha_add (a, b, c, d, e) (a', b', c', d', e') = (a + a', b + b', c + c', d + d', e + e')"

definition sha_chunk :: "byte list \<Rightarrow> sha_state \<Rightarrow> sha_state" where
  "sha_chunk chunk h =
     (let w = sha_extend 64 (map u32_be (chunks_of 4 chunk))
      in sha_add h (fold sha_round (enumerate 0 w) h))"

definition sha1 :: "byte list \<Rightarrow> byte list" where
  "sha1 bs =
     (case fold sha_chunk (chunks_of 64 (sha_pad bs))
        (0x67452301, 0xEFCDAB89, 0x98BADCFE, 0x10325476, 0xC3D2E1F0) of
        (a, b, c, d, e) \<Rightarrow> u32_bytes a @ u32_bytes b @ u32_bytes c @ u32_bytes d @ u32_bytes e)"

subsection \<open>Base 64\<close>

definition base64_abc :: string where
  "base64_abc = ''ABCDEFGHIJKLMNOPQRSTUVWXYZabcdefghijklmnopqrstuvwxyz0123456789+/''"

definition byte_or_zero :: "byte list \<Rightarrow> nat \<Rightarrow> byte" where
  "byte_or_zero bs i = (if i < length bs then bs ! i else 0)"

definition base64_chunk :: "byte list \<Rightarrow> string" where
  "base64_chunk chunk =
     (let n = push_bit 16 (ucast (byte_or_zero chunk 0)) OR push_bit 8 (ucast (byte_or_zero chunk 1))
              OR (ucast (byte_or_zero chunk 2) :: u32);
          sym = (\<lambda>k. base64_abc ! unat (drop_bit k n AND 63))
      in [sym 18, sym 12,
          if 1 < length chunk then sym 6 else CHR ''='',
          if 2 < length chunk then sym 0 else CHR ''=''])"

definition base64 :: "byte list \<Rightarrow> string" where
  "base64 bs = concat (map base64_chunk (chunks_of 3 bs))"

definition ws_guid :: string where
  "ws_guid = ''258EAFA5-E914-47DA-95CA-C5AB0DC85B11''"

definition accept_key :: "string \<Rightarrow> string" where
  "accept_key client_key = base64 (sha1 (str_bytes (str_trim client_key @ ws_guid)))"

subsection \<open>Frames\<close>

definition write_message :: "byte list \<Rightarrow> byte list" where
  "write_message payload =
     (let n = length payload
      in 0x82 #
         (if n < 126 then [word_of_nat n]
          else if n < 65536 then 126 # be_bytes 2 n
          else 127 # be_bytes 8 n) @ payload)"

datatype ws_read = WsMessage "byte list" | WsClosed | WsEof | WsPanic

definition apply_mask :: "byte list \<Rightarrow> byte list \<Rightarrow> byte list" where
  "apply_mask msk payload = map (\<lambda>(i, b). b XOR msk ! (i mod 4)) (enumerate 0 payload)"

record ws_header =
  wh_opcode :: byte
  wh_masked :: bool
  wh_len :: nat
  wh_mask :: "byte list"

definition ws_read_len :: "nat \<Rightarrow> byte list \<Rightarrow> (nat \<times> byte list) option" where
  "ws_read_len len s =
     (if len = 126 then map_option (\<lambda>(x, r). (be_val x, r)) (take_bytes 2 s)
      else if len = 127 then map_option (\<lambda>(x, r). (be_val x, r)) (take_bytes 8 s)
      else Some (len, s))"

definition read_ws_header :: "byte list \<Rightarrow> (ws_header \<times> byte list) option" where
  "read_ws_header s =
     Option.bind (take_bytes 2 s) (\<lambda>(h, s1).
     Option.bind (ws_read_len (unat (h ! 1 AND 0x7F)) s1) (\<lambda>(len, s2).
     let masked = (h ! 1 AND 0x80 \<noteq> 0)
     in map_option (\<lambda>(msk, s3). (\<lparr>wh_opcode = h ! 0 AND 0x0F, wh_masked = masked, wh_len = len, wh_mask = msk\<rparr>, s3))
          (if masked then take_bytes 4 s2 else Some ([0, 0, 0, 0], s2))))"

definition pong :: "byte list \<Rightarrow> byte list" where
  "pong payload = 0x8A # word_of_nat (length payload) # payload"

lemma take_bytes_length: "take_bytes n s = Some (a, r) \<Longrightarrow> length s = n + length r"
  by (auto simp: take_bytes_def split: if_splits)

lemma ws_read_len_length: "ws_read_len l s = Some (len, r) \<Longrightarrow> length r \<le> length s"
  by (auto simp: ws_read_len_def dest: take_bytes_length split: if_splits)

lemma read_ws_header_length: "read_ws_header s = Some (h, r) \<Longrightarrow> length r < length s"
  by (auto simp: read_ws_header_def Let_def bind_eq_Some_conv dest!: take_bytes_length ws_read_len_length split: if_splits)

text \<open>What is read, the rest of the stream, and what is written to it meanwhile.\<close>

function read_message :: "byte list \<Rightarrow> ws_read \<times> byte list \<times> byte list" where
  "read_message s =
     (case read_ws_header s of
        None \<Rightarrow> (WsEof, [], [])
      | Some (h, s1) \<Rightarrow>
          if 2 ^ 63 \<le> wh_len h then (WsPanic, s1, [])
          else
            (case take_bytes (wh_len h) s1 of
               None \<Rightarrow> (WsEof, [], [])
             | Some (raw, s2) \<Rightarrow>
                 (let payload = (if wh_masked h then apply_mask (wh_mask h) raw else raw)
                  in if wh_opcode h = 2 \<or> wh_opcode h = 1 then (WsMessage payload, s2, [])
                     else if wh_opcode h = 8 then (WsClosed, s2, [])
                     else if wh_opcode h = 9 then
                       (case read_message s2 of (r, s3, out) \<Rightarrow> (r, s3, pong payload @ out))
                     else read_message s2)))"
  by pat_completeness auto
termination
  by (relation "measure length") (auto dest!: take_bytes_length read_ws_header_length)

declare read_message.simps [simp del]

subsection \<open>The connection\<close>

record ws_conn =
  wc_stream :: "byte list"
  wc_inbuf :: "byte list"
  wc_outbuf :: "byte list"
  wc_sent :: "byte list"

definition queue_in :: "ws_conn \<Rightarrow> byte list \<Rightarrow> ws_conn" where
  "queue_in c payload = c\<lparr>wc_inbuf := be_bytes 4 (length payload) @ payload\<rparr>"

datatype ws_io = IoBytes "byte list" | IoError | IoPanic

text \<open>\<open>read\<close> into a buffer of \<open>n\<close> bytes.\<close>

definition conn_read :: "nat \<Rightarrow> ws_conn \<Rightarrow> ws_io \<times> ws_conn" where
  "conn_read n c =
     (if 0 < n \<and> wc_inbuf c \<noteq> [] then (IoBytes (take n (wc_inbuf c)), c\<lparr>wc_inbuf := drop n (wc_inbuf c)\<rparr>)
      else
        (case read_message (wc_stream c) of
           (r, s, out) \<Rightarrow>
             (let c1 = c\<lparr>wc_stream := s, wc_sent := wc_sent c @ out\<rparr>
              in case r of
                   WsMessage msg \<Rightarrow>
                     (let c2 = queue_in c1 msg
                      in (IoBytes (take n (wc_inbuf c2)), c2\<lparr>wc_inbuf := drop n (wc_inbuf c2)\<rparr>))
                 | WsClosed \<Rightarrow> (IoBytes [], c1)
                 | WsEof \<Rightarrow> (IoError, c1)
                 | WsPanic \<Rightarrow> (IoPanic, c1))))"

text \<open>Every complete frame at the front of the buffer, and what is left of it.\<close>

function drain_out :: "byte list \<Rightarrow> byte list list \<times> byte list" where
  "drain_out buf =
     (if length buf < 4 then ([], buf)
      else
        (let len = be_val (take 4 buf)
         in if length buf < 4 + len then ([], buf)
            else (case drain_out (drop (4 + len) buf) of (ps, r) \<Rightarrow> (take len (drop 4 buf) # ps, r))))"
  by pat_completeness auto
termination
  by (relation "measure length") auto

declare drain_out.simps [simp del]

definition conn_write :: "byte list \<Rightarrow> ws_conn \<Rightarrow> ws_conn" where
  "conn_write buf c =
     (case drain_out (wc_outbuf c @ buf) of
        (ps, r) \<Rightarrow> c\<lparr>wc_outbuf := r, wc_sent := wc_sent c @ concat (map write_message ps)\<rparr>)"

subsection \<open>Where the first message goes\<close>

datatype ws_route = StreamOf "byte list" | MemberConn | RoutePanic

definition ws_streams :: "byte list list" where
  "ws_streams = [str_bytes ''build.subscribe'', str_bytes ''invocation.events'']"

definition ws_route_of :: "byte list \<Rightarrow> ws_route" where
  "ws_route_of first =
     (case decode first of
        None \<Rightarrow> RoutePanic
      | Some req \<Rightarrow>
          (case cbor_get req 1 of
             None \<Rightarrow> RoutePanic
           | Some (CText method) \<Rightarrow> if method \<in> set ws_streams then StreamOf method else MemberConn
           | Some _ \<Rightarrow> MemberConn))"

definition error_envelope :: "byte list \<Rightarrow> cbor" where
  "error_envelope e = CMap [(1, CBool False), (3, CText e)]"

definition err_message :: "byte list \<Rightarrow> byte list" where
  "err_message e = write_message (enc (error_envelope e))"

definition upgrade_response :: "string \<Rightarrow> string" where
  "upgrade_response client_key =
     ''HTTP/1.1 101 Switching Protocols'' @ [CHR 0x0D, CHR 0x0A] @ ''Upgrade: websocket'' @ [CHR 0x0D, CHR 0x0A] @
     ''Connection: Upgrade'' @ [CHR 0x0D, CHR 0x0A] @ ''Sec-WebSocket-Accept: '' @ accept_key client_key @
     [CHR 0x0D, CHR 0x0A, CHR 0x0D, CHR 0x0A]"

lemma base64_vectors: "base64 (str_bytes ''foob'') = ''Zm9vYg==''" "base64 (str_bytes ''foobar'') = ''Zm9vYmFy''"
  by code_simp+

end
