(* ===== verification/Ws_Props.thy ===== *)
theory Ws_Props
  imports Ws
begin

section \<open>Properties of the websocket edge\<close>

text \<open>
  The frames of RFC 6455 as a reference: the reader takes what the reference writes, masked or not, and the writer
  writes what the reference has.  The connection is insensitive to how its writes are cut.
\<close>

unbundle bit_operations_syntax

subsection \<open>Frames of RFC 6455\<close>

text \<open>A final frame with an opcode, masked or not.\<close>

definition ws_len_bytes :: "byte \<Rightarrow> nat \<Rightarrow> byte list" where
  "ws_len_bytes mb n =
     (if n < 126 then [mb OR word_of_nat n]
      else if n < 65536 then (mb OR 126) # be_bytes 2 n
      else (mb OR 127) # be_bytes 8 n)"

definition ws_frame :: "nat \<Rightarrow> byte list option \<Rightarrow> byte list \<Rightarrow> byte list" where
  "ws_frame op mk p =
     (0x80 OR word_of_nat op) # ws_len_bytes (if mk = None then 0 else 0x80) (length p) @
     (case mk of None \<Rightarrow> p | Some m \<Rightarrow> m @ apply_mask m p)"

definition frame_ok :: "nat \<Rightarrow> byte list option \<Rightarrow> byte list \<Rightarrow> bool" where
  "frame_ok op mk p \<longleftrightarrow> op < 16 \<and> length p < 2 ^ 63 \<and> (case mk of None \<Rightarrow> True | Some m \<Rightarrow> length m = 4)"

lemma opcode_byte: "op < 16 \<Longrightarrow> (0x80 OR word_of_nat op :: byte) AND 0x0F = word_of_nat op"
proof -
  assume "op < 16"
  moreover have "\<forall>op \<in> set [0..<16]. (0x80 OR word_of_nat op :: byte) AND 0x0F = word_of_nat op" by code_simp
  ultimately show ?thesis by auto
qed

lemma len_byte:
  assumes "i < 128" "mb = 0 \<or> mb = (0x80 :: byte)"
  shows "unat ((mb OR word_of_nat i) AND 0x7F) = i" "(mb OR word_of_nat i) AND 0x80 \<noteq> 0 \<longleftrightarrow> mb \<noteq> 0"
proof -
  have "\<forall>i \<in> set [0..<128]. \<forall>mb \<in> set [0, 0x80 :: byte].
      unat ((mb OR word_of_nat i) AND 0x7F) = i \<and> ((mb OR word_of_nat i) AND 0x80 \<noteq> 0 \<longleftrightarrow> mb \<noteq> 0)"
    by code_simp
  with assms show "unat ((mb OR word_of_nat i) AND 0x7F) = i" "(mb OR word_of_nat i) AND 0x80 \<noteq> 0 \<longleftrightarrow> mb \<noteq> 0"
    by auto
qed

lemma len_bytes_read:
  assumes "n < 2 ^ 64" "mb = 0 \<or> mb = (0x80 :: byte)"
  obtains b bs where "ws_len_bytes mb n = b # bs" "b AND 0x80 \<noteq> 0 \<longleftrightarrow> mb \<noteq> 0"
    "\<And>r. ws_read_len (unat (b AND 0x7F)) (bs @ r) = Some (n, r)"
proof -
  note lb = len_byte [OF _ assms(2)]
  have arg: "ws_read_len i (be_bytes k n @ r) = Some (n, r)"
    if "(i, k) = (126, 2) \<or> (i, k) = (127, 8)" "n < 256 ^ k" for i k r
    using that take_be_bytes [of k n r] be_val_bytes [of k n] by (auto simp: ws_read_len_def simp del: be_bytes.simps)
  consider "n < 126" | "126 \<le> n" "n < 65536" | "65536 \<le> n" by linarith
  then show thesis
  proof cases
    case 1
    then show thesis using that [of "mb OR word_of_nat n" "[]"] lb [of n]
      by (simp add: ws_len_bytes_def ws_read_len_def)
  next
    case 2
    then show thesis using that [of "mb OR 126" "be_bytes 2 n"] lb [of 126] arg [of 126 2]
      by (simp add: ws_len_bytes_def del: be_bytes.simps)
  next
    case 3
    then show thesis using that [of "mb OR 127" "be_bytes 8 n"] lb [of 127] arg [of 127 8] assms(1)
      by (simp add: ws_len_bytes_def del: be_bytes.simps)
  qed
qed

lemma apply_mask_length [simp]: "length (apply_mask m p) = length p"
  by (simp add: apply_mask_def)

lemma apply_mask_involution [simp]: "apply_mask m (apply_mask m p) = p"
  by (rule nth_equalityI) (simp_all add: apply_mask_def nth_enumerate_eq xor.assoc)

lemma read_frame:
  assumes "frame_ok op mk p"
  shows "read_message (ws_frame op mk p @ rest) =
    (if op = 2 \<or> op = 1 then (WsMessage p, rest, [])
     else if op = 8 then (WsClosed, rest, [])
     else if op = 9 then (case read_message rest of (r, s, out) \<Rightarrow> (r, s, pong p @ out))
     else read_message rest)"
proof -
  define mb :: byte where "mb = (if mk = None then 0 else 0x80)"
  have mb: "mb = 0 \<or> mb = 0x80" by (simp add: mb_def)
  have len: "length p < 2 ^ 64" using assms by (simp add: frame_ok_def)
  obtain b bs where l: "ws_len_bytes mb (length p) = b # bs" "b AND 0x80 \<noteq> 0 \<longleftrightarrow> mb \<noteq> 0"
    "\<And>r. ws_read_len (unat (b AND 0x7F)) (bs @ r) = Some (length p, r)"
    by (rule len_bytes_read [OF len mb], rule that)
  define raw where "raw = (case mk of None \<Rightarrow> p | Some m \<Rightarrow> apply_mask m p)"
  define msk where "msk = (case mk of None \<Rightarrow> [0, 0, 0, 0] | Some m \<Rightarrow> m)"
  have h: "read_ws_header (ws_frame op mk p @ rest) =
      Some (\<lparr>wh_opcode = word_of_nat op, wh_masked = (mk \<noteq> None), wh_len = length p, wh_mask = msk\<rparr>, raw @ rest)"
  proof (cases mk)
    case None
    then show ?thesis using l assms opcode_byte [of op]
      by (simp add: ws_frame_def read_ws_header_def take_bytes_def mb_def [symmetric] raw_def msk_def frame_ok_def)
        (simp add: mb_def)
  next
    case (Some m)
    have "take_bytes 4 (m @ x) = Some (m, x)" for x using Some assms by (simp add: frame_ok_def take_bytes_def)
    moreover have "take_bytes 2 (x # y # z) = Some ([x, y], z)" for x y z by (simp add: take_bytes_def)
    ultimately show ?thesis using Some l assms opcode_byte [of op]
      by (simp add: ws_frame_def read_ws_header_def mb_def [symmetric] raw_def msk_def frame_ok_def)
        (simp add: mb_def)
  qed
  have t: "take_bytes (length p) (raw @ rest) = Some (raw, rest)"
    by (simp add: take_bytes_def raw_def split: option.split)
  have p: "(if mk \<noteq> None then apply_mask msk raw else raw) = p"
    by (simp add: raw_def msk_def split: option.split)
  have ops: "word_of_nat op = (word_of_nat k :: byte) \<longleftrightarrow> op = k" if "k < 16" for k
    using assms that by (auto simp: frame_ok_def word_of_nat_eq_iff take_bit_nat_def)
  have lt: "\<not> 2 ^ 63 \<le> length p" using assms by (simp add: frame_ok_def)
  define s where "s = ws_frame op mk p @ rest"
  note h' = h [folded s_def]
  show ?thesis
    unfolding s_def [symmetric] using ops [of 1] ops [of 2] ops [of 8] ops [of 9] lt p
    by (cases "mk = None") (simp_all add: read_message.simps [of s] h' t Let_def)
qed

subsection \<open>Messages between control frames\<close>

datatype ws_control = Ping "byte list option" "byte list" | Pong "byte list option" "byte list"

fun control_frame :: "ws_control \<Rightarrow> byte list" where
  "control_frame (Ping mk q) = ws_frame 9 mk q"
| "control_frame (Pong mk q) = ws_frame 10 mk q"

fun control_ok :: "ws_control \<Rightarrow> bool" where
  "control_ok (Ping mk q) \<longleftrightarrow> frame_ok 9 mk q"
| "control_ok (Pong mk q) \<longleftrightarrow> frame_ok 10 mk q"

fun control_answer :: "ws_control \<Rightarrow> byte list" where
  "control_answer (Ping mk q) = pong q"
| "control_answer (Pong mk q) = []"

lemma read_controls:
  "list_all control_ok cs \<Longrightarrow>
   read_message (concat (map control_frame cs) @ s) =
     (case read_message s of (r, t, out) \<Rightarrow> (r, t, concat (map control_answer cs) @ out))"
proof (induction cs)
  case Nil
  show ?case by (simp split: prod.split)
next
  case (Cons c cs)
  then show ?case by (cases c) (simp_all add: read_frame split: prod.split)
qed

lemma write_message_frame: "write_message p = ws_frame 2 None p"
  by (simp add: write_message_def ws_frame_def ws_len_bytes_def Let_def)

lemma pong_frame: "length q < 126 \<Longrightarrow> pong q = ws_frame 10 None q"
  by (simp add: pong_def ws_frame_def ws_len_bytes_def)

lemma read_write_message: "length p < 2 ^ 63 \<Longrightarrow> read_message (write_message p @ rest) = (WsMessage p, rest, [])"
  by (simp add: write_message_frame read_frame frame_ok_def)

text \<open>The answer to a ping of 126 bytes is no frame at all.\<close>

lemma long_pong_malformed:
  assumes "length q = 126"
  shows "pong q \<noteq> ws_frame op None p"
proof
  assume eq: "pong q = ws_frame op None p"
  then have l: "126 # q = ws_len_bytes 0 (length p) @ p" using assms by (simp add: pong_def ws_frame_def)
  consider "length p < 126" | "126 \<le> length p" "length p < 65536" | "65536 \<le> length p" by linarith
  then show False
  proof cases
    case 1
    with l have "length q = length p" by (simp add: ws_len_bytes_def)
    with 1 assms show False by simp
  next
    case 2
    with l have "length q = 2 + length p" by (simp add: ws_len_bytes_def del: be_bytes.simps)
    with 2 assms show False by simp
  next
    case 3
    with l have "length q = 8 + length p" by (simp add: ws_len_bytes_def del: be_bytes.simps)
    with 3 assms show False by simp
  qed
qed

text \<open>A header alone, with a length beyond what an allocation can have, makes the reader panic.\<close>

lemma huge_header_panics:
  assumes "2 ^ 63 \<le> n" "n < 2 ^ 64" "op < 16"
  shows "fst (read_message ((0x80 OR word_of_nat op) # ws_len_bytes 0 n)) = WsPanic"
proof -
  obtain b bs where l: "ws_len_bytes 0 n = b # bs" "b AND 0x80 = 0"
    "\<And>r. ws_read_len (unat (b AND 0x7F)) (bs @ r) = Some (n, r)"
    by (rule len_bytes_read [OF assms(2), of 0], simp, rule that) auto
  have "read_ws_header ((0x80 OR word_of_nat op) # ws_len_bytes 0 n) =
      Some (\<lparr>wh_opcode = word_of_nat op, wh_masked = False, wh_len = n, wh_mask = [0, 0, 0, 0]\<rparr>, [])"
    using l(1,2) l(3) [of "[]"] opcode_byte [OF assms(3)] by (simp add: read_ws_header_def take_bytes_def)
  then show ?thesis using assms by (simp add: read_message.simps [of "(0x80 OR word_of_nat op) # ws_len_bytes 0 n"])
qed

subsection \<open>Frames of the socket protocol\<close>

definition uds_frame :: "byte list \<Rightarrow> byte list" where
  "uds_frame p = be_bytes 4 (length p) @ p"

lemma drain_short: "length buf < 4 \<Longrightarrow> drain_out buf = ([], buf)"
  by (simp add: drain_out.simps)

lemma drain_frame:
  "length p < 2 ^ 32 \<Longrightarrow> drain_out (uds_frame p @ s) = (case drain_out s of (ps, r) \<Rightarrow> (p # ps, r))"
  using be_val_bytes [of 4 "length p"]
  by (simp add: drain_out.simps [of "be_bytes 4 (length p) @ p @ s"] uds_frame_def del: be_bytes.simps)

lemma drain_append:
  "drain_out (a @ b) = (case drain_out a of (ps, r) \<Rightarrow> case drain_out (r @ b) of (qs, r') \<Rightarrow> (ps @ qs, r'))"
proof (induction a rule: drain_out.induct)
  case (1 buf)
  show ?case
  proof (cases "length buf < 4 \<or> length buf < 4 + be_val (take 4 buf)")
    case True
    then have "drain_out buf = ([], buf)" by (auto simp: drain_out.simps [of buf] Let_def)
    then show ?thesis by (simp split: prod.split)
  next
    case False
    define len where "len = be_val (take 4 buf)"
    have l: "\<not> length buf < 4" "\<not> length buf < 4 + len" using False by (auto simp: len_def)
    have a: "drain_out buf = (case drain_out (drop (4 + len) buf) of (ps, r) \<Rightarrow> (take len (drop 4 buf) # ps, r))"
      using l by (simp add: drain_out.simps [of buf] len_def Let_def)
    have b: "drain_out (buf @ b) = (case drain_out (drop (4 + len) buf @ b) of (ps, r) \<Rightarrow> (take len (drop 4 buf) # ps, r))"
      using l by (simp add: drain_out.simps [of "buf @ b"] len_def Let_def)
    have "drain_out (drop (4 + len) buf @ b) = (case drain_out (drop (4 + len) buf) of (ps, r) \<Rightarrow>
        case drain_out (r @ b) of (qs, r') \<Rightarrow> (ps @ qs, r'))"
      using "1.IH" [OF l(1) len_def] l(2) by simp
    with a b show ?thesis by (simp split: prod.splits)
  qed
qed

lemma drain_frames:
  "(\<And>p. p \<in> set ps \<Longrightarrow> length p < 2 ^ 32) \<Longrightarrow> drain_out (concat (map uds_frame ps)) = (ps, [])"
  by (induction ps) (simp_all add: drain_short drain_frame)

text \<open>Writing piece by piece is writing the whole.\<close>

lemma conn_write_append: "conn_write b (conn_write a c) = conn_write (a @ b) c"
  using drain_append [of "wc_outbuf c @ a" b]
  by (simp add: conn_write_def split: prod.splits)

lemma conn_writes: "wc_outbuf c = [] \<Longrightarrow> fold conn_write chunks c = conn_write (concat chunks) c"
proof (induction chunks rule: rev_induct)
  case Nil
  then show ?case by (simp add: conn_write_def drain_short)
next
  case (snoc b chunks)
  then show ?case by (simp add: conn_write_append)
qed

lemma be_bytes_4:
  "be_bytes 4 n = [word_of_nat (n div 256 ^ 3), word_of_nat (n div 256 ^ 2), word_of_nat (n div 256), word_of_nat n]"
proof -
  have "(4 :: nat) = Suc (Suc (Suc (Suc 0)))" by simp
  then show ?thesis by (simp only: be_bytes.simps) (simp add: numeral_2_eq_2 numeral_3_eq_3)
qed

text \<open>Both framings are prefix codes: a client can tell any two sequences of answers apart.\<close>

interpretation uds: prefix_code uds_frame "\<lambda>p. length p < 2 ^ 32"
proof
  show "x = y \<and> r = s" if "length x < 2 ^ 32" "length y < 2 ^ 32" "uds_frame x @ r = uds_frame y @ s" for x y r s
  proof -
    have "drain_out (uds_frame x @ r) = drain_out (uds_frame y @ s)" using that(3) by simp
    then have "x = y" unfolding drain_frame [OF that(1)] drain_frame [OF that(2)] by (simp split: prod.splits)
    with that(3) show ?thesis by simp
  qed
  show "uds_frame x \<noteq> []" for x by (simp add: uds_frame_def be_bytes_4)
qed

interpretation ws: prefix_code write_message "\<lambda>p. length p < 2 ^ 63"
proof
  show "x = y \<and> r = s" if "length x < 2 ^ 63" "length y < 2 ^ 63" "write_message x @ r = write_message y @ s" for x y r s
  proof -
    have "read_message (write_message x @ r) = read_message (write_message y @ s)" using that(3) by (rule arg_cong)
    then show ?thesis unfolding read_write_message [OF that(1)] read_write_message [OF that(2)] by simp
  qed
  show "write_message x \<noteq> []" for x by (simp add: write_message_def Let_def)
qed

lemma answers_distinguished:
  "list_all (\<lambda>p. length p < 2 ^ 63) ps \<Longrightarrow> list_all (\<lambda>p. length p < 2 ^ 63) qs \<Longrightarrow>
   concat (map write_message ps) = concat (map write_message qs) \<Longrightarrow> ps = qs"
  by (rule ws.concat_prefix)

subsection \<open>The properties\<close>

text \<open>a client's message is read as it was sent, masked or not and whatever control frames come before it: each ping
  is answered with its payload, the rest of the stream stays, and what the server writes reads back the same way.\<close>

theorem ws_message_read:
  assumes "list_all control_ok cs" "frame_ok op mk p" "op = 1 \<or> op = 2"
  shows "read_message (concat (map control_frame cs) @ ws_frame op mk p @ rest) =
           (WsMessage p, rest, concat (map control_answer cs)) \<and>
         read_message (write_message p @ rest) = (WsMessage p, rest, [])"
  using assms by (auto simp: read_controls read_frame read_write_message frame_ok_def)

theorem ws_message_read_witness:
  "read_message (concat (map control_frame [Ping (Some [1, 2, 3, 4]) [7], Pong None []]) @ ws_frame 2 (Some [9, 8, 7, 6]) [5] @ [3]) =
     (WsMessage [5], [3], [0x8A, 1, 7])"
  using ws_message_read [of "[Ping (Some [1, 2, 3, 4]) [7], Pong None []]" 2 "Some [9, 8, 7, 6]" "[5]" "[3]"]
  by (simp add: frame_ok_def pong_def)

text \<open>C24: the two transports carry the same payloads: however the server cuts the length-prefixed frames of its answers
  into writes, the websocket client receives exactly one binary message per frame, with the same bytes, and nothing
  stays behind.\<close>

theorem ws_transport_exact:
  assumes "\<forall>p \<in> set ps. length p < 2 ^ 32" "concat chunks = concat (map uds_frame ps)" "wc_outbuf c = []"
  shows "fold conn_write chunks c = c\<lparr>wc_sent := wc_sent c @ concat (map (ws_frame 2 None) ps)\<rparr>"
proof -
  have "drain_out (concat (map uds_frame ps)) = (ps, [])" using assms(1) by (intro drain_frames) auto
  moreover have "write_message = ws_frame 2 None" by (rule ext) (rule write_message_frame)
  ultimately show ?thesis using assms by (simp add: conn_writes conn_write_def)
qed

definition demo_conn :: ws_conn where
  "demo_conn = \<lparr>wc_stream = [], wc_inbuf = [], wc_outbuf = [], wc_sent = []\<rparr>"

theorem ws_transport_exact_witness:
  "fold conn_write [[0, 0], [0, 1, 9, 0, 0, 0], [2, 7, 8]] demo_conn = demo_conn\<lparr>wc_sent := [0x82, 1, 9, 0x82, 2, 7, 8]\<rparr>"
proof -
  have "concat [[0, 0], [0, 1, 9, 0, 0, 0], [2, 7, 8]] = concat (map uds_frame [[9], [7, 8]])"
    by (simp add: uds_frame_def be_bytes_4)
  from ws_transport_exact [OF _ this, of demo_conn] show ?thesis
    by (simp add: demo_conn_def ws_frame_def ws_len_bytes_def)
qed

text \<open>The length of the base64 text.\<close>

lemma base64_length: "length (base64 bs) = 4 * ((length bs + 2) div 3)"
proof (induction "3 :: nat" bs rule: chunks_of.induct)
  case (1 bs)
  show ?case
  proof (cases "bs = []")
    case True
    then show ?thesis by (simp add: base64_def chunks_of.simps)
  next
    case False
    have "length (base64 (drop 3 bs)) = 4 * ((length (drop 3 bs) + 2) div 3)" by (rule 1) (simp add: False)
    moreover have "base64 bs = base64_chunk (take 3 bs) @ base64 (drop 3 bs)"
      using False by (simp add: base64_def chunks_of.simps [of 3 bs])
    moreover have "length (base64_chunk (take 3 bs)) = 4" by (simp add: base64_chunk_def Let_def)
    moreover have "Suc (Suc (n - 3)) div 3 + 1 = Suc (Suc n) div 3" if "0 < n" for n :: nat using that by presburger
    moreover have "0 < length bs" using False by simp
    ultimately show ?thesis by fastforce
  qed
qed

lemma pad_length: "\<exists>q. n + 1 + (119 - n mod 64) mod 64 + 8 = 64 * (q :: nat)"
proof -
  define r where "r = n mod 64"
  define q where "q = n div 64"
  have n: "n = 64 * q + r" and r: "r < 64" by (simp_all add: r_def q_def)
  show ?thesis
  proof (cases "r \<le> 55")
    case True
    then have "119 - r = 64 + (55 - r)" by linarith
    then have k: "(119 - r) mod 64 = 55 - r" by (simp only: mod_add_self1) simp
    have "n + 1 + (55 - r) + 8 = 64 * (q + 1)" using n True by arith
    then show ?thesis unfolding r_def [symmetric] k by (rule exI)
  next
    case False
    then have k: "(119 - r) mod 64 = 119 - r" by simp
    have "n + 1 + (119 - r) + 8 = 64 * (q + 2)" using n r by arith
    then show ?thesis unfolding r_def [symmetric] k by (rule exI)
  qed
qed

lemma sha_pad_blocks: "length (sha_pad bs) mod 64 = 0"
proof -
  obtain q where q: "length bs + 1 + (119 - length bs mod 64) mod 64 + 8 = 64 * q"
    using pad_length [of "length bs"] by (rule exE)
  have "length (sha_pad bs) = length bs + 1 + (119 - length bs mod 64) mod 64 + 8"
    unfolding sha_pad_def by (simp only: length_append list.size length_replicate length_be_bytes)
  with q have "length (sha_pad bs) = 64 * q" by (rule trans [rotated])
  then show ?thesis by simp
qed

end
