(* ===== verification/Views.thy ===== *)
theory Views
  imports Cbor Std_Coll
begin

section \<open>The fan-out of the view streams\<close>

text \<open>
  \<^verbatim>\<open>crates/grazel-cli-lib/src/views.rs\<close>: one upstream per key, shared by bounded buffers.  A buffer is known by a number
  of its own, as the \<open>Arc\<close> the entry of the map and the subscription share.  The lock of the map makes subscribing,
  the delivery of a frame, the end of an upstream and a drop atomic; \<open>recv\<close> is split where it releases the lock of the
  buffer, between the look at \<open>closed\<close> and the wait.  \<open>sb_got\<close> is what \<open>recv\<close> has returned, \<open>sb_overflowed\<close> records
  whether the buffer was ever cleared.
\<close>

subsection \<open>Producers\<close>

datatype shape = ShapeAtom | ShapeLog

definition self_request :: "string \<Rightarrow> cbor option" where
  "self_request key =
     (if key = ''build.subscribe'' then Some (CMap [(1, CText (str_bytes ''build.subscribe'')), (2, CNull)])
      else if key = ''invocation.events'' then Some (CMap [(1, CText (str_bytes ''invocation.events'')), (2, CNull)])
      else None)"

definition self_open :: "string \<Rightarrow> byte list option" where
  "self_open key = map_option (\<lambda>req. be_bytes 4 (length (enc req)) @ enc req) (self_request key)"

definition self_shape :: "string \<Rightarrow> shape" where
  "self_shape key = (if key = ''invocation.events'' then ShapeLog else ShapeAtom)"

subsection \<open>Buffers\<close>

definition resync_marker :: "nat \<Rightarrow> byte list" where
  "resync_marker dropped =
     enc (CMap [(1, CBool False),
                (3, CText (str_bytes (''resync: dropped='' @ dec dropped @ '' (slow consumer; '' @
                      [CHR 0xC2, CHR 0xA7] @ ''4b)'')))])"

datatype recv_phase = RIdle | RChecked | RParked

record sub_buf =
  sb_q :: "byte list list"
  sb_closed :: bool
  sb_phase :: recv_phase
  sb_got :: "byte list list"
  sb_overflowed :: bool

definition new_buf :: sub_buf where
  "new_buf = \<lparr>sb_q = [], sb_closed = False, sb_phase = RIdle, sb_got = [], sb_overflowed = False\<rparr>"

definition wake :: "recv_phase \<Rightarrow> recv_phase" where
  "wake p = (if p = RParked then RIdle else p)"

definition push_frame :: "nat \<Rightarrow> byte list \<Rightarrow> sub_buf \<Rightarrow> sub_buf" where
  "push_frame bound frame b =
     (let full = bound \<le> length (sb_q b);
          q = (if full then [resync_marker (length (sb_q b))] else sb_q b)
      in b\<lparr>sb_q := q @ [frame], sb_phase := wake (sb_phase b), sb_overflowed := (sb_overflowed b \<or> full)\<rparr>)"

definition close_buf :: "sub_buf \<Rightarrow> sub_buf" where
  "close_buf b = b\<lparr>sb_closed := True, sb_phase := wake (sb_phase b)\<rparr>"

text \<open>\<open>recv\<close> up to the wait: a frame, the end of the stream, or the wait with the lock still held.\<close>

definition recv_check :: "sub_buf \<Rightarrow> byte list option option \<times> sub_buf" where
  "recv_check b =
     (case sb_q b of
        f # q \<Rightarrow> (Some (Some f), b\<lparr>sb_q := q, sb_got := sb_got b @ [f]\<rparr>)
      | [] \<Rightarrow> if sb_closed b then (Some None, b) else (None, b\<lparr>sb_phase := RChecked\<rparr>))"

definition recv_wait :: "sub_buf \<Rightarrow> sub_buf" where
  "recv_wait b = b\<lparr>sb_phase := RParked\<rparr>"

subsection \<open>The map of the upstreams\<close>

record fan_entry =
  fe_gen :: nat
  fe_subs :: "(nat \<times> nat) list"
  fe_next_id :: nat
  fe_shape :: shape
  fe_history :: "byte list list"

record subscription =
  su_key :: string
  su_id :: nat
  su_buf :: nat

record fanout =
  fo_map :: "(string, fan_entry) bmap"
  fo_next_gen :: nat
  fo_bufs :: "nat \<Rightarrow> sub_buf"
  fo_next_buf :: nat
  fo_readers :: "(string \<times> nat) list"
  fo_live :: "subscription list"
  fo_file :: string

definition fanout_new :: fanout where
  "fanout_new =
     \<lparr>fo_map = [], fo_next_gen = 0, fo_bufs = (\<lambda>_. new_buf), fo_next_buf = 0, fo_readers = [], fo_live = [], fo_file = []\<rparr>"

definition state_lines :: "(string, fan_entry) bmap \<Rightarrow> string list" where
  "state_lines m = sort (map (\<lambda>(k, e). k @ '' '' @ dec (length (fe_subs e))) m)"

definition write_state_file :: "fanout \<Rightarrow> fanout" where
  "write_state_file s = s\<lparr>fo_file := join_with [CHR 0x0A] (state_lines (fo_map s)) @ [CHR 0x0A]\<rparr>"

definition set_buf :: "nat \<Rightarrow> sub_buf \<Rightarrow> fanout \<Rightarrow> fanout" where
  "set_buf h b s = s\<lparr>fo_bufs := (fo_bufs s)(h := b)\<rparr>"

definition new_entry :: "(string \<Rightarrow> shape) \<Rightarrow> string \<Rightarrow> nat \<Rightarrow> fan_entry" where
  "new_entry shapes key gen =
     \<lparr>fe_gen = gen, fe_subs = [], fe_next_id = 0, fe_shape = shapes key, fe_history = []\<rparr>"

text \<open>The upstream of a key: opened by the first subscriber.\<close>

definition ensure_entry :: "(string \<Rightarrow> shape) \<Rightarrow> string \<Rightarrow> fanout \<Rightarrow> fanout" where
  "ensure_entry shapes key s =
     (case bm_get (fo_map s) key of
        Some _ \<Rightarrow> s
      | None \<Rightarrow>
          (let gen = Suc (fo_next_gen s)
           in s\<lparr>fo_next_gen := gen, fo_map := bm_insert key (new_entry shapes key gen) (fo_map s),
                fo_readers := (key, gen) # fo_readers s\<rparr>))"

definition attach :: "nat \<Rightarrow> string \<Rightarrow> fan_entry \<Rightarrow> fanout \<Rightarrow> fanout" where
  "attach bound key e s =
     (let id = fe_next_id e; h = fo_next_buf s;
          b = fold (push_frame bound) (fe_history e) new_buf;
          e' = e\<lparr>fe_next_id := Suc id, fe_subs := fe_subs e @ [(id, h)]\<rparr>
      in write_state_file
           (set_buf h b (s\<lparr>fo_next_buf := Suc h, fo_map := bm_insert key e' (fo_map s),
              fo_live := \<lparr>su_key = key, su_id = id, su_buf = h\<rparr> # fo_live s\<rparr>)))"

definition fan_subscribe :: "nat \<Rightarrow> (string \<Rightarrow> shape) \<Rightarrow> (string \<Rightarrow> bool) \<Rightarrow> string \<Rightarrow> fanout \<Rightarrow> fanout option" where
  "fan_subscribe bound shapes opens key s =
     (if bm_get (fo_map s) key = None \<and> \<not> opens key then None
      else
        (let s1 = ensure_entry shapes key s
         in map_option (\<lambda>e. attach bound key e s1) (bm_get (fo_map s1) key)))"

text \<open>\<open>Drop\<close> of a subscription.\<close>

definition fan_drop :: "subscription \<Rightarrow> fanout \<Rightarrow> fanout" where
  "fan_drop su s =
     (let s1 = set_buf (su_buf su) (close_buf (fo_bufs s (su_buf su))) s;
          s2 = s1\<lparr>fo_live := remove1 su (fo_live s1)\<rparr>
      in write_state_file
           (case bm_get (fo_map s2) (su_key su) of
              None \<Rightarrow> s2
            | Some e \<Rightarrow>
                (let subs = filter (\<lambda>(id, _). id \<noteq> su_id su) (fe_subs e)
                 in s2\<lparr>fo_map := (if subs = [] then bm_remove (su_key su) (fo_map s2)
                                 else bm_insert (su_key su) (e\<lparr>fe_subs := subs\<rparr>) (fo_map s2))\<rparr>)))"

subsection \<open>The reader of an upstream\<close>

definition push_all :: "nat \<Rightarrow> byte list \<Rightarrow> (nat \<times> nat) list \<Rightarrow> (nat \<Rightarrow> sub_buf) \<Rightarrow> nat \<Rightarrow> sub_buf" where
  "push_all bound frame subs bufs = fold (\<lambda>(_, h) bs. bs(h := push_frame bound frame (bs h))) subs bufs"

definition close_all :: "(nat \<times> nat) list \<Rightarrow> (nat \<Rightarrow> sub_buf) \<Rightarrow> nat \<Rightarrow> sub_buf" where
  "close_all subs bufs = fold (\<lambda>(_, h) bs. bs(h := close_buf (bs h))) subs bufs"

text \<open>The end of the loop: the subscribers of this generation lose their stream.\<close>

definition reader_end :: "string \<Rightarrow> nat \<Rightarrow> fanout \<Rightarrow> fanout" where
  "reader_end key gen s =
     (let s1 = s\<lparr>fo_readers := remove1 (key, gen) (fo_readers s)\<rparr>
      in case bm_get (fo_map s1) key of
           None \<Rightarrow> s1
         | Some e \<Rightarrow>
             if fe_gen e = gen then
               s1\<lparr>fo_bufs := close_all (fe_subs e) (fo_bufs s1), fo_map := bm_remove key (fo_map s1)\<rparr>
             else s1)"

definition next_history :: "fan_entry \<Rightarrow> byte list \<Rightarrow> byte list list" where
  "next_history e frame = (case fe_shape e of ShapeAtom \<Rightarrow> [frame] | ShapeLog \<Rightarrow> fe_history e @ [frame])"

definition reader_frame :: "nat \<Rightarrow> string \<Rightarrow> nat \<Rightarrow> byte list \<Rightarrow> fanout \<Rightarrow> fanout" where
  "reader_frame bound key gen frame s =
     (case bm_get (fo_map s) key of
        None \<Rightarrow> reader_end key gen s
      | Some e \<Rightarrow>
          if fe_gen e = gen then
            s\<lparr>fo_map := bm_insert key (e\<lparr>fe_history := next_history e frame\<rparr>) (fo_map s),
              fo_bufs := push_all bound frame (fe_subs e) (fo_bufs s)\<rparr>
          else reader_end key gen s)"

text \<open>The subscribers whose lock is free.\<close>

definition lockable :: "string \<Rightarrow> fanout \<Rightarrow> bool" where
  "lockable key s =
     (case bm_get (fo_map s) key of
        None \<Rightarrow> True
      | Some e \<Rightarrow> list_all (\<lambda>(_, h). sb_phase (fo_bufs s h) \<noteq> RChecked) (fe_subs e))"

subsection \<open>Steps\<close>

inductive fan_step :: "nat \<Rightarrow> (string \<Rightarrow> shape) \<Rightarrow> fanout \<Rightarrow> fanout \<Rightarrow> bool" for bound shapes where
  Subscribe: "fan_subscribe bound shapes opens key s = Some s' \<Longrightarrow> fan_step bound shapes s s'"
| Frame: "(key, gen) \<in> set (fo_readers s) \<Longrightarrow> lockable key s \<Longrightarrow>
    fan_step bound shapes s (reader_frame bound key gen frame s)"
| UpstreamEnd: "(key, gen) \<in> set (fo_readers s) \<Longrightarrow> fan_step bound shapes s (reader_end key gen s)"
| RecvCheck: "su \<in> set (fo_live s) \<Longrightarrow> sb_phase (fo_bufs s (su_buf su)) = RIdle \<Longrightarrow>
    fan_step bound shapes s (set_buf (su_buf su) (snd (recv_check (fo_bufs s (su_buf su)))) s)"
| RecvWait: "su \<in> set (fo_live s) \<Longrightarrow> sb_phase (fo_bufs s (su_buf su)) = RChecked \<Longrightarrow>
    fan_step bound shapes s (set_buf (su_buf su) (recv_wait (fo_bufs s (su_buf su))) s)"
| CloseStep: "h < fo_next_buf s \<Longrightarrow> fan_step bound shapes s (set_buf h (close_buf (fo_bufs s h)) s)"
| DropStep: "su \<in> set (fo_live s) \<Longrightarrow> sb_phase (fo_bufs s (su_buf su)) = RIdle \<Longrightarrow>
    fan_step bound shapes s (fan_drop su s)"

inductive fan_reach :: "nat \<Rightarrow> (string \<Rightarrow> shape) \<Rightarrow> fanout \<Rightarrow> bool" for bound shapes where
  Start: "fan_reach bound shapes fanout_new"
| Step: "fan_reach bound shapes s \<Longrightarrow> fan_step bound shapes s s' \<Longrightarrow> fan_reach bound shapes s'"

end
