(* ===== verification/Views_Props.thy ===== *)
theory Views_Props
  imports Views
begin

section \<open>Properties of the fan-out\<close>

text \<open>
  The invariant ties each attached buffer to the history of its entry; every step keeps it.  A subscription that no
  entry lists stays so, and a trace reaches such a state.
\<close>

subsection \<open>The invariant\<close>

definition sub_inv :: "fan_entry \<Rightarrow> sub_buf \<Rightarrow> bool" where
  "sub_inv e b \<longleftrightarrow>
     (fe_history e \<noteq> [] \<longrightarrow> sb_got b @ sb_q b \<noteq> [] \<and> last (sb_got b @ sb_q b) = last (fe_history e)) \<and>
     (fe_shape e = ShapeLog \<longrightarrow> \<not> sb_overflowed b \<longrightarrow> sb_got b @ sb_q b = fe_history e)"

definition holds_buf :: "(string, fan_entry) bmap \<Rightarrow> string \<Rightarrow> fan_entry \<Rightarrow> nat \<Rightarrow> bool" where
  "holds_buf m k e h \<longleftrightarrow> bm_get m k = Some e \<and> h \<in> snd ` set (fe_subs e)"

definition fan_ok :: "nat \<Rightarrow> (string, fan_entry) bmap \<Rightarrow> (nat \<Rightarrow> sub_buf) \<Rightarrow> nat \<Rightarrow> bool" where
  "fan_ok bound m bufs nb \<longleftrightarrow>
     bm_ok m \<and>
     (\<forall>h. length (sb_q (bufs h)) \<le> max bound 2) \<and>
     (\<forall>k e h. holds_buf m k e h \<longrightarrow> h < nb \<and> sub_inv e (bufs h)) \<and>
     (\<forall>k e. bm_get m k = Some e \<longrightarrow> distinct (map snd (fe_subs e))) \<and>
     (\<forall>k e k' e' h. holds_buf m k e h \<longrightarrow> holds_buf m k' e' h \<longrightarrow> k = k')"

definition same_frames :: "sub_buf \<Rightarrow> sub_buf \<Rightarrow> bool" where
  "same_frames b b' \<longleftrightarrow> sb_got b' @ sb_q b' = sb_got b @ sb_q b \<and> sb_overflowed b' = sb_overflowed b \<and>
     length (sb_q b') \<le> length (sb_q b)"

definition shrunk :: "fan_entry \<Rightarrow> fan_entry \<Rightarrow> bool" where
  "shrunk e e' \<longleftrightarrow> fe_history e' = fe_history e \<and> fe_shape e' = fe_shape e \<and> (\<exists>P. fe_subs e' = filter P (fe_subs e))"

lemma same_frames_refl [simp]: "same_frames b b"
  by (simp add: same_frames_def)

lemma shrunk_refl [simp]: "shrunk e e"
  by (simp add: shrunk_def) (rule exI [of _ "\<lambda>_. True"], simp)

lemma shrunk_subs: "shrunk e e' \<Longrightarrow> h \<in> snd ` set (fe_subs e') \<Longrightarrow> h \<in> snd ` set (fe_subs e)"
  unfolding shrunk_def by auto

lemma sub_inv_same: "sub_inv e b \<Longrightarrow> same_frames b b' \<Longrightarrow> shrunk e e' \<Longrightarrow> sub_inv e' b'"
  unfolding sub_inv_def same_frames_def shrunk_def by simp

lemma fan_ok_shrink:
  assumes ok: "fan_ok bound m bufs nb" and m': "bm_ok m'"
    and sh: "\<And>k e'. bm_get m' k = Some e' \<Longrightarrow> \<exists>e. bm_get m k = Some e \<and> shrunk e e'"
    and b: "\<And>h. same_frames (bufs h) (bufs' h)"
  shows "fan_ok bound m' bufs' nb"
proof -
  have old: "\<exists>e. holds_buf m k e h \<and> shrunk e e'" if "holds_buf m' k e' h" for k e' h
    using sh [of k e'] that shrunk_subs unfolding holds_buf_def by blast
  have "length (sb_q (bufs' h)) \<le> max bound 2" for h
    using ok b [of h] unfolding fan_ok_def same_frames_def by (meson le_trans)
  moreover have "h < nb \<and> sub_inv e' (bufs' h)" if "holds_buf m' k e' h" for k e' h
    using old [OF that] ok b [of h] sub_inv_same unfolding fan_ok_def by meson
  moreover have "distinct (map snd (fe_subs e'))" if "bm_get m' k = Some e'" for k e'
    using sh [OF that] ok unfolding fan_ok_def shrunk_def by (metis distinct_map_filter)
  moreover have "k = k'" if "holds_buf m' k e h" "holds_buf m' k' e' h" for k e k' e' h
    using old [OF that(1)] old [OF that(2)] ok unfolding fan_ok_def by meson
  ultimately show ?thesis using m' unfolding fan_ok_def by meson
qed

subsection \<open>Buffers\<close>

lemma push_frame_got [simp]: "sb_got (push_frame bound f b) = sb_got b"
  by (simp add: push_frame_def Let_def)

lemma push_frame_bound: "length (sb_q b) \<le> max bound 2 \<Longrightarrow> length (sb_q (push_frame bound f b)) \<le> max bound 2"
  by (auto simp: push_frame_def Let_def)

lemma push_frame_last: "sb_q (push_frame bound f b) \<noteq> []" "last (sb_got b @ sb_q (push_frame bound f b)) = f"
  by (simp_all add: push_frame_def Let_def)

lemma push_frame_over:
  "\<not> sb_overflowed (push_frame bound f b) \<Longrightarrow> \<not> sb_overflowed b \<and> sb_q (push_frame bound f b) = sb_q b @ [f]"
  by (auto simp: push_frame_def Let_def)

lemma sub_inv_push:
  assumes "sub_inv e b"
  shows "sub_inv (e\<lparr>fe_history := next_history e f\<rparr>) (push_frame bound f b)"
  using assms push_frame_last(1) [of bound f b] push_frame_last(2) [of b bound f] push_frame_over [of bound f b]
  by (auto simp: sub_inv_def next_history_def split: shape.splits)

lemma fold_push_got [simp]: "sb_got (fold (push_frame bound) fs b) = sb_got b"
  by (induction fs arbitrary: b) simp_all

lemma fold_push_bound:
  "length (sb_q b) \<le> max bound 2 \<Longrightarrow> length (sb_q (fold (push_frame bound) fs b)) \<le> max bound 2"
  by (induction fs arbitrary: b) (simp_all add: push_frame_bound del: max.bounded_iff)

lemma sub_inv_catch_up: "sub_inv e (fold (push_frame bound) (fe_history e) new_buf)"
proof -
  have "fs \<noteq> [] \<longrightarrow> sb_q (fold (push_frame bound) fs new_buf) \<noteq> [] \<and> last (sb_q (fold (push_frame bound) fs new_buf)) = last fs" for fs
    using push_frame_last by (cases fs rule: rev_cases) (simp_all add: push_frame_def Let_def)
  moreover have "\<not> sb_overflowed (fold (push_frame bound) fs new_buf) \<longrightarrow> sb_q (fold (push_frame bound) fs new_buf) = fs" for fs
  proof (induction fs rule: rev_induct)
    case Nil
    show ?case by (simp add: new_buf_def)
  next
    case (snoc f fs)
    then show ?case using push_frame_over [of bound f "fold (push_frame bound) fs new_buf"] by auto
  qed
  ultimately show ?thesis by (auto simp: sub_inv_def new_buf_def)
qed

lemma same_frames_close: "same_frames b (close_buf b)"
  by (simp add: same_frames_def close_buf_def)

lemma same_frames_wait: "same_frames b (recv_wait b)"
  by (simp add: same_frames_def recv_wait_def)

lemma same_frames_check: "same_frames b (snd (recv_check b))"
  by (auto simp: same_frames_def recv_check_def split: list.split)

lemma push_all_Nil [simp]: "push_all bound f [] bufs = bufs"
  by (simp add: push_all_def)

lemma push_all_Cons [simp]:
  "push_all bound f (p # subs) bufs = push_all bound f subs (bufs(snd p := push_frame bound f (bufs (snd p))))"
  by (simp add: push_all_def case_prod_beta)

lemma push_all_other: "h \<notin> snd ` set subs \<Longrightarrow> push_all bound f subs bufs h = bufs h"
  by (induction subs arbitrary: bufs) auto

lemma push_all_own:
  "distinct (map snd subs) \<Longrightarrow> h \<in> snd ` set subs \<Longrightarrow> push_all bound f subs bufs h = push_frame bound f (bufs h)"
proof (induction subs arbitrary: bufs)
  case (Cons p subs)
  then show ?case by (cases "h = snd p") (auto simp: push_all_other)
qed simp

lemma close_all_frames: "same_frames (bufs h) (close_all subs bufs h)"
  unfolding close_all_def
proof (induction subs arbitrary: bufs)
  case (Cons p subs)
  have "same_frames (bufs h) ((bufs(snd p := close_buf (bufs (snd p)))) h)"
    using same_frames_close by simp
  with Cons [of "bufs(snd p := close_buf (bufs (snd p)))"] show ?case
    by (simp add: case_prod_beta same_frames_def)
qed simp

subsection \<open>Every step keeps the invariant\<close>

lemma fan_ok_push:
  assumes ok: "fan_ok bound m bufs nb" and e: "bm_get m key = Some e"
  shows "fan_ok bound (bm_insert key (e\<lparr>fe_history := next_history e f\<rparr>) m) (push_all bound f (fe_subs e) bufs) nb"
proof -
  let ?e = "e\<lparr>fe_history := next_history e f\<rparr>"
  let ?m = "bm_insert key ?e m"
  have d: "distinct (map snd (fe_subs e))" using ok e unfolding fan_ok_def by meson
  note own = push_all_own [OF d]
  have new: "k = key \<and> e' = ?e \<and> holds_buf m key e h \<or> k \<noteq> key \<and> holds_buf m k e' h" if "holds_buf ?m k e' h" for k e' h
    using that e by (auto simp: holds_buf_def split: if_splits)
  have sep: "h \<notin> snd ` set (fe_subs e)" if "k \<noteq> key" "holds_buf m k e' h" for k e' h
    using that ok e unfolding fan_ok_def holds_buf_def by metis
  have "length (sb_q (push_all bound f (fe_subs e) bufs h)) \<le> max bound 2" for h
  proof (cases "h \<in> snd ` set (fe_subs e)")
    case True
    have "length (sb_q (bufs h)) \<le> max bound 2" using ok unfolding fan_ok_def by meson
    then show ?thesis unfolding own [OF True] by (rule push_frame_bound)
  next
    case False
    have "length (sb_q (bufs h)) \<le> max bound 2" using ok unfolding fan_ok_def by meson
    then show ?thesis unfolding push_all_other [OF False] .
  qed
  moreover have "h < nb \<and> sub_inv e' (push_all bound f (fe_subs e) bufs h)" if "holds_buf ?m k e' h" for k e' h
    using new [OF that]
  proof (elim disjE conjE)
    assume a: "k = key" "e' = ?e" "holds_buf m key e h"
    then have "h \<in> snd ` set (fe_subs e)" "h < nb" "sub_inv e (bufs h)"
      using ok unfolding fan_ok_def holds_buf_def by meson+
    then show ?thesis unfolding own [OF \<open>h \<in> _\<close>] a(2) by (simp add: sub_inv_push)
  next
    assume a: "k \<noteq> key" "holds_buf m k e' h"
    then have "h < nb" "sub_inv e' (bufs h)" using ok unfolding fan_ok_def by meson+
    then show ?thesis unfolding push_all_other [OF sep [OF a]] by simp
  qed
  moreover have "distinct (map snd (fe_subs e'))" if "bm_get ?m k = Some e'" for k e'
    using that d ok unfolding fan_ok_def by (cases "k = key") auto
  moreover have "k = k'" if "holds_buf ?m k e1 h" "holds_buf ?m k' e2 h" for k e1 k' e2 h
    using new [OF that(1)] new [OF that(2)] ok unfolding fan_ok_def by meson
  moreover have "bm_ok ?m" using ok by (simp add: fan_ok_def)
  ultimately show ?thesis unfolding fan_ok_def by meson
qed

lemma fan_ok_attach:
  assumes ok: "fan_ok bound m bufs nb" and e: "bm_get m key = Some e"
  shows "fan_ok bound (bm_insert key (e\<lparr>fe_next_id := i, fe_subs := fe_subs e @ [(n, nb)]\<rparr>) m)
    (bufs(nb := fold (push_frame bound) (fe_history e) new_buf)) (Suc nb)"
proof -
  let ?e = "e\<lparr>fe_next_id := i, fe_subs := fe_subs e @ [(n, nb)]\<rparr>"
  let ?m = "bm_insert key ?e m"
  let ?b = "fold (push_frame bound) (fe_history e) new_buf"
  have old: "h < nb" if "holds_buf m k e' h" for k e' h using that ok unfolding fan_ok_def by meson
  have new: "k = key \<and> e' = ?e \<and> (h = nb \<or> holds_buf m key e h) \<or> k \<noteq> key \<and> holds_buf m k e' h"
    if "holds_buf ?m k e' h" for k e' h
    using that e by (auto simp: holds_buf_def split: if_splits)
  have "length (sb_q ((bufs(nb := ?b)) h)) \<le> max bound 2" for h
  proof (cases "h = nb")
    case True
    have "length (sb_q new_buf) \<le> max bound 2" by (simp add: new_buf_def)
    from fold_push_bound [OF this] show ?thesis using True by simp
  next
    case False
    then show ?thesis using ok unfolding fan_ok_def by simp
  qed
  moreover have "h < Suc nb \<and> sub_inv e' ((bufs(nb := ?b)) h)" if hb: "holds_buf ?m k e' h" for k e' h
  proof (cases "h = nb")
    case True
    then have "e' = ?e" using new [OF hb] old by blast
    then show ?thesis using True sub_inv_catch_up [of e bound] by (simp add: sub_inv_def)
  next
    case False
    then consider "e' = ?e" "holds_buf m key e h" | "holds_buf m k e' h" using new [OF hb] by blast
    then show ?thesis
    proof cases
      case 1
      then have "h < nb" "sub_inv e (bufs h)" using ok unfolding fan_ok_def by meson+
      then show ?thesis using 1 False by (simp add: sub_inv_def)
    next
      case 2
      then have "h < nb" "sub_inv e' (bufs h)" using ok unfolding fan_ok_def by meson+
      then show ?thesis using False by simp
    qed
  qed
  moreover have "distinct (map snd (fe_subs e'))" if "bm_get ?m k = Some e'" for k e'
  proof (cases "k = key")
    case True
    have "distinct (map snd (fe_subs e))" using ok e unfolding fan_ok_def by meson
    moreover have "nb \<notin> snd ` set (fe_subs e)" using old [of key e nb] e by (auto simp: holds_buf_def)
    ultimately show ?thesis using that True by auto
  next
    case False
    then show ?thesis using that ok unfolding fan_ok_def by simp
  qed
  moreover have "k = k'" if "holds_buf ?m k e1 h" "holds_buf ?m k' e2 h" for k e1 k' e2 h
  proof (cases "h = nb")
    case True
    then show ?thesis using new [OF that(1)] new [OF that(2)] old by blast
  next
    case False
    then show ?thesis using new [OF that(1)] new [OF that(2)] ok unfolding fan_ok_def by meson
  qed
  moreover have "bm_ok ?m" using ok by (simp add: fan_ok_def)
  ultimately show ?thesis unfolding fan_ok_def by meson
qed

definition fan_inv :: "nat \<Rightarrow> fanout \<Rightarrow> bool" where
  "fan_inv bound s \<longleftrightarrow> fan_ok bound (fo_map s) (fo_bufs s) (fo_next_buf s)"

lemma fan_inv_file [simp]: "fan_inv bound (write_state_file s) \<longleftrightarrow> fan_inv bound s"
  by (simp add: fan_inv_def write_state_file_def)

lemma fan_inv_new: "fan_inv bound fanout_new"
  by (simp add: fan_inv_def fanout_new_def fan_ok_def holds_buf_def new_buf_def)

lemma fan_inv_set_buf:
  assumes "fan_inv bound s" "same_frames (fo_bufs s h) b"
  shows "fan_inv bound (set_buf h b s)"
proof -
  note ok = assms(1) [unfolded fan_inv_def]
  have "bm_ok (fo_map s)" using ok unfolding fan_ok_def by (rule conjunct1)
  from fan_ok_shrink [OF ok this, of "(fo_bufs s)(h := b)"] show ?thesis
    using assms(2) shrunk_refl by (simp add: fan_inv_def set_buf_def)
qed

lemma fan_inv_ensure: "fan_inv bound s \<Longrightarrow> fan_inv bound (ensure_entry shapes key s)"
proof (cases "bm_get (fo_map s) key")
  case None
  assume inv: "fan_inv bound s"
  let ?e = "new_entry shapes key (Suc (fo_next_gen s))"
  have "holds_buf (bm_insert key ?e (fo_map s)) k e h \<longleftrightarrow> holds_buf (fo_map s) k e h" for k e h
    using None by (auto simp: holds_buf_def new_entry_def)
  moreover have "distinct (map snd (fe_subs e))" if "bm_get (bm_insert key ?e (fo_map s)) k = Some e" for k e
    using that inv by (cases "k = key") (auto simp: fan_inv_def fan_ok_def new_entry_def)
  ultimately have "fan_ok bound (bm_insert key ?e (fo_map s)) (fo_bufs s) (fo_next_buf s)"
    using inv unfolding fan_inv_def fan_ok_def by simp
  then show ?thesis using None by (simp add: fan_inv_def ensure_entry_def Let_def)
qed (simp add: ensure_entry_def)

lemma fan_inv_subscribe:
  assumes "fan_inv bound s" "fan_subscribe bound shapes opens key s = Some s'"
  shows "fan_inv bound s'"
proof -
  let ?s1 = "ensure_entry shapes key s"
  obtain e where e: "bm_get (fo_map ?s1) key = Some e" "s' = attach bound key e ?s1"
    using assms(2) by (auto simp: fan_subscribe_def Let_def split: if_splits)
  have "fan_ok bound (fo_map ?s1) (fo_bufs ?s1) (fo_next_buf ?s1)"
    using fan_inv_ensure [OF assms(1)] by (simp add: fan_inv_def)
  from fan_ok_attach [OF this e(1)] show ?thesis
    by (simp add: e(2) attach_def Let_def fan_inv_def write_state_file_def set_buf_def)
qed

lemma fan_inv_frame: "fan_inv bound s \<Longrightarrow> bm_get (fo_map s) key = Some e \<Longrightarrow>
    fan_inv bound (s\<lparr>fo_map := bm_insert key (e\<lparr>fe_history := next_history e f\<rparr>) (fo_map s),
      fo_bufs := push_all bound f (fe_subs e) (fo_bufs s)\<rparr>)"
  using fan_ok_push by (simp add: fan_inv_def)

lemma fan_inv_end: "fan_inv bound s \<Longrightarrow> fan_inv bound (reader_end key gen s)"
proof (cases "bm_get (fo_map s) key")
  case (Some e)
  assume inv: "fan_inv bound s"
  have ok: "bm_ok (fo_map s)" using inv by (simp add: fan_inv_def fan_ok_def)
  have "fan_ok bound (bm_remove key (fo_map s)) (close_all (fe_subs e) (fo_bufs s)) (fo_next_buf s)"
    by (rule fan_ok_shrink [OF inv [unfolded fan_inv_def]])
      (use ok close_all_frames in \<open>auto simp: bm_get_remove split: if_splits\<close>)
  with inv Some show ?thesis by (simp add: reader_end_def fan_inv_def Let_def)
qed (simp add: reader_end_def fan_inv_def Let_def)

lemma shrunk_filter: "shrunk e (e\<lparr>fe_subs := filter P (fe_subs e)\<rparr>)"
  unfolding shrunk_def by auto

lemma fan_inv_drop: "fan_inv bound s \<Longrightarrow> fan_inv bound (fan_drop su s)"
proof -
  assume inv: "fan_inv bound s"
  define s1 where "s1 = set_buf (su_buf su) (close_buf (fo_bufs s (su_buf su))) s"
  have inv1: "fan_inv bound s1" unfolding s1_def by (rule fan_inv_set_buf [OF inv same_frames_close])
  have ok: "bm_ok (fo_map s1)" using inv1 by (simp add: fan_inv_def fan_ok_def)
  have sh: "fan_ok bound m (fo_bufs s1) (fo_next_buf s1)"
    if "bm_get (fo_map s1) (su_key su) = Some e"
      "m = bm_remove (su_key su) (fo_map s1) \<or> m = bm_insert (su_key su) (e\<lparr>fe_subs := filter P (fe_subs e)\<rparr>) (fo_map s1)"
    for m e P
    by (rule fan_ok_shrink [OF inv1 [unfolded fan_inv_def]])
      (use ok that shrunk_filter in \<open>auto simp: bm_get_remove split: if_splits\<close>)
  show ?thesis
  proof (cases "bm_get (fo_map s1) (su_key su)")
    case None
    then show ?thesis using inv1 by (simp add: fan_drop_def s1_def [symmetric] Let_def) (simp add: fan_inv_def)
  next
    case (Some e)
    then show ?thesis
      using sh [OF Some disjI1 [OF refl]] sh [OF Some disjI2 [OF refl], of "\<lambda>(i, _). i \<noteq> su_id su"]
      by (simp add: fan_drop_def s1_def [symmetric] Let_def) (simp add: fan_inv_def)
  qed
qed

lemma fan_inv_step: "fan_step bound shapes s s' \<Longrightarrow> fan_inv bound s \<Longrightarrow> fan_inv bound s'"
proof (induction rule: fan_step.induct)
  case (Frame key gen s frame)
  then show ?case using fan_inv_frame fan_inv_end by (simp add: reader_frame_def split: option.split)
qed (auto intro: fan_inv_subscribe fan_inv_end fan_inv_drop fan_inv_set_buf same_frames_close same_frames_wait same_frames_check)

lemma fan_inv_reach: "fan_reach bound shapes s \<Longrightarrow> fan_inv bound s"
  by (induction rule: fan_reach.induct) (auto intro: fan_inv_new fan_inv_step)

subsection \<open>The properties\<close>

text \<open>C23: however slow a subscriber is, its buffer holds at most the bound (two, when the bound is smaller), and as long as
  it is attached the newest item it has or will get is the upstream's latest frame; on a log it gets every frame of the
  upstream from the first one on, in order, unless its buffer was cleared.\<close>

theorem fanout_bounded_and_fresh:
  assumes "fan_reach bound shapes s"
  shows "length (sb_q (fo_bufs s h)) \<le> max bound 2 \<and>
    (\<forall>key e i. bm_get (fo_map s) key = Some e \<longrightarrow> (i, h) \<in> set (fe_subs e) \<longrightarrow>
      (fe_history e \<noteq> [] \<longrightarrow>
        sb_got (fo_bufs s h) @ sb_q (fo_bufs s h) \<noteq> [] \<and>
        last (sb_got (fo_bufs s h) @ sb_q (fo_bufs s h)) = last (fe_history e)) \<and>
      (fe_shape e = ShapeLog \<longrightarrow> \<not> sb_overflowed (fo_bufs s h) \<longrightarrow>
        sb_got (fo_bufs s h) @ sb_q (fo_bufs s h) = fe_history e))"
proof (intro conjI allI impI)
  have ok: "fan_ok bound (fo_map s) (fo_bufs s) (fo_next_buf s)"
    using fan_inv_reach [OF assms] by (simp add: fan_inv_def)
  then show "length (sb_q (fo_bufs s h)) \<le> max bound 2" unfolding fan_ok_def by meson
  fix key e i
  assume e: "bm_get (fo_map s) key = Some e" "(i, h) \<in> set (fe_subs e)"
  then have "holds_buf (fo_map s) key e h" by (force simp: holds_buf_def)
  then have inv: "sub_inv e (fo_bufs s h)" using ok unfolding fan_ok_def by meson
  show "sb_got (fo_bufs s h) @ sb_q (fo_bufs s h) \<noteq> []" "last (sb_got (fo_bufs s h) @ sb_q (fo_bufs s h)) = last (fe_history e)"
    if "fe_history e \<noteq> []" using inv that unfolding sub_inv_def by blast+
  show "sb_got (fo_bufs s h) @ sb_q (fo_bufs s h) = fe_history e"
    if "fe_shape e = ShapeLog" "\<not> sb_overflowed (fo_bufs s h)" using inv that unfolding sub_inv_def by blast
qed

subsection \<open>A subscriber that is cut off\<close>

definition orphan :: "nat \<Rightarrow> fanout \<Rightarrow> bool" where
  "orphan h s \<longleftrightarrow> h < fo_next_buf s \<and> (\<forall>k e. \<not> holds_buf (fo_map s) k e h)"

lemma file_fields [simp]:
  "fo_map (write_state_file s) = fo_map s" "fo_bufs (write_state_file s) = fo_bufs s"
  "fo_next_buf (write_state_file s) = fo_next_buf s" "fo_live (write_state_file s) = fo_live s"
  "fo_readers (write_state_file s) = fo_readers s" "fo_next_gen (write_state_file s) = fo_next_gen s"
  by (simp_all add: write_state_file_def)

lemma set_buf_fields [simp]:
  "fo_map (set_buf h b s) = fo_map s" "fo_bufs (set_buf h b s) = (fo_bufs s)(h := b)"
  "fo_next_buf (set_buf h b s) = fo_next_buf s" "fo_live (set_buf h b s) = fo_live s"
  "fo_readers (set_buf h b s) = fo_readers s" "fo_next_gen (set_buf h b s) = fo_next_gen s"
  by (simp_all add: set_buf_def)

definition frames_of :: "fanout \<Rightarrow> nat \<Rightarrow> byte list list" where
  "frames_of s h = sb_got (fo_bufs s h) @ sb_q (fo_bufs s h)"

definition keeps_orphan :: "nat \<Rightarrow> fanout \<Rightarrow> fanout \<Rightarrow> bool" where
  "keeps_orphan h s s' \<longleftrightarrow> orphan h s' \<and> frames_of s' h = frames_of s h"

lemma orphan_set_buf:
  "orphan h s \<Longrightarrow> same_frames (fo_bufs s h') b \<Longrightarrow> keeps_orphan h s (set_buf h' b s)"
  by (auto simp: keeps_orphan_def orphan_def frames_of_def same_frames_def)

lemma orphan_subscribe:
  assumes "orphan h s" "fan_subscribe bound shapes opens key s = Some s'"
  shows "keeps_orphan h s s'"
proof -
  let ?s1 = "ensure_entry shapes key s"
  obtain e where e: "bm_get (fo_map ?s1) key = Some e" "s' = attach bound key e ?s1"
    using assms(2) by (auto simp: fan_subscribe_def Let_def split: if_splits)
  have s1: "orphan h ?s1" "fo_bufs ?s1 = fo_bufs s" "fo_next_buf ?s1 = fo_next_buf s"
    using assms(1) by (auto simp: ensure_entry_def orphan_def holds_buf_def new_entry_def Let_def split: option.splits if_splits)
  have no: "h \<notin> snd ` set (fe_subs e)" using s1(1) e(1) by (auto simp: orphan_def holds_buf_def)
  have "h < fo_next_buf s" using assms(1) by (simp add: orphan_def)
  moreover have "\<not> holds_buf (fo_map s') k e' h" for k e'
    using s1 no calculation by (auto simp: e(2) attach_def Let_def holds_buf_def orphan_def split: if_splits)
  ultimately show ?thesis
    by (simp add: keeps_orphan_def orphan_def frames_of_def e(2) attach_def Let_def s1(2,3))
qed

lemma close_all_same: "sb_got (close_all subs bufs h) @ sb_q (close_all subs bufs h) = sb_got (bufs h) @ sb_q (bufs h)"
  using close_all_frames [of bufs h subs] by (simp add: same_frames_def)

lemma orphan_end: "fan_inv bound s \<Longrightarrow> orphan h s \<Longrightarrow> keeps_orphan h s (reader_end key gen s)"
  by (auto simp: keeps_orphan_def reader_end_def Let_def orphan_def holds_buf_def frames_of_def close_all_same
      fan_inv_def fan_ok_def bm_get_remove split: option.splits if_splits)

lemma orphan_frame:
  assumes "fan_inv bound s" "orphan h s"
  shows "keeps_orphan h s (reader_frame bound key gen f s)"
proof (cases "bm_get (fo_map s) key")
  case None
  then show ?thesis using orphan_end [OF assms] by (simp add: reader_frame_def)
next
  case (Some e)
  then have no: "h \<notin> snd ` set (fe_subs e)" using assms(2) by (auto simp: orphan_def holds_buf_def)
  show ?thesis
  proof (cases "fe_gen e = gen")
    case True
    have "\<not> holds_buf (bm_insert key (e\<lparr>fe_history := next_history e f\<rparr>) (fo_map s)) k e' h" for k e'
      using no assms(2) by (auto simp: holds_buf_def orphan_def split: if_splits)
    with True Some assms(2) show ?thesis
      by (simp add: keeps_orphan_def orphan_def frames_of_def reader_frame_def push_all_other [OF no])
  next
    case False
    then show ?thesis using Some orphan_end [OF assms] by (simp add: reader_frame_def)
  qed
qed

lemma orphan_drop:
  assumes "fan_inv bound s" "orphan h s"
  shows "keeps_orphan h s (fan_drop su s)"
proof -
  have ok: "bm_ok (fo_map s)" using assms(1) by (simp add: fan_inv_def fan_ok_def)
  have "\<not> holds_buf (fo_map (fan_drop su s)) k e' h" for k e'
    using ok assms(2)
    by (auto simp: fan_drop_def Let_def holds_buf_def orphan_def bm_get_remove split: option.splits if_splits) force
  moreover have "frames_of (fan_drop su s) h = frames_of s h" "fo_next_buf (fan_drop su s) = fo_next_buf s"
    by (simp_all add: fan_drop_def Let_def frames_of_def close_buf_def split: option.split)
  ultimately show ?thesis using assms(2) by (simp add: keeps_orphan_def orphan_def)
qed

lemma orphan_step: "fan_step bound shapes s s' \<Longrightarrow> fan_inv bound s \<Longrightarrow> orphan h s \<Longrightarrow> keeps_orphan h s s'"
  by (induction rule: fan_step.induct)
    (auto intro: orphan_subscribe orphan_frame orphan_end orphan_drop orphan_set_buf same_frames_close same_frames_wait same_frames_check)

lemma orphan_steps:
  assumes "(fan_step bound shapes)\<^sup>*\<^sup>* s s'" "fan_inv bound s" "orphan h s"
  shows "keeps_orphan h s s' \<and> fan_inv bound s'"
  using assms(1)
proof (induction rule: rtranclp_induct)
  case base
  then show ?case using assms(2,3) by (simp add: keeps_orphan_def)
next
  case (step a b)
  then have "keeps_orphan h a b" using orphan_step by (auto simp: keeps_orphan_def)
  with step show ?case using fan_inv_step by (auto simp: keeps_orphan_def)
qed

text \<open>The trace: the upstream of a subscriber ends, another one subscribes to the key, and the first is dropped.\<close>

definition key_k :: string where
  "key_k = ''k''"

definition su_first :: subscription where
  "su_first = \<lparr>su_key = key_k, su_id = 0, su_buf = 0\<rparr>"

definition su_second :: subscription where
  "su_second = \<lparr>su_key = key_k, su_id = 0, su_buf = 1\<rparr>"

definition trace_1 :: "nat \<Rightarrow> (string \<Rightarrow> shape) \<Rightarrow> fanout" where
  "trace_1 bound shapes = attach bound key_k (new_entry shapes key_k 1) (ensure_entry shapes key_k fanout_new)"

definition trace_2 :: "nat \<Rightarrow> (string \<Rightarrow> shape) \<Rightarrow> fanout" where
  "trace_2 bound shapes = reader_end key_k 1 (trace_1 bound shapes)"

definition trace_3 :: "nat \<Rightarrow> (string \<Rightarrow> shape) \<Rightarrow> fanout" where
  "trace_3 bound shapes = attach bound key_k (new_entry shapes key_k 2) (ensure_entry shapes key_k (trace_2 bound shapes))"

definition trace_4 :: "nat \<Rightarrow> (string \<Rightarrow> shape) \<Rightarrow> fanout" where
  "trace_4 bound shapes = fan_drop su_first (trace_3 bound shapes)"

lemma subscribe_new:
  assumes "bm_get (fo_map s) key = None" "gen = Suc (fo_next_gen s)"
  shows "fan_subscribe bound shapes (\<lambda>_. True) key s =
    Some (attach bound key (new_entry shapes key gen) (ensure_entry shapes key s))"
  using assms by (simp add: fan_subscribe_def ensure_entry_def Let_def)

lemma trace_1_fields:
  "fo_map (trace_1 bound shapes) = [(key_k, (new_entry shapes key_k 1)\<lparr>fe_next_id := 1, fe_subs := [(0, 0)]\<rparr>)]"
  "fo_next_gen (trace_1 bound shapes) = 1" "fo_next_buf (trace_1 bound shapes) = 1"
  "fo_readers (trace_1 bound shapes) = [(key_k, 1)]" "fo_live (trace_1 bound shapes) = [su_first]"
  "fo_bufs (trace_1 bound shapes) = (\<lambda>_. new_buf)"
  by (simp_all add: trace_1_def attach_def ensure_entry_def fanout_new_def new_entry_def Let_def su_first_def fun_upd_idem)

lemma trace_2_fields:
  "fo_map (trace_2 bound shapes) = []" "fo_next_gen (trace_2 bound shapes) = 1" "fo_next_buf (trace_2 bound shapes) = 1"
  "fo_readers (trace_2 bound shapes) = []" "fo_live (trace_2 bound shapes) = [su_first]"
  "fo_bufs (trace_2 bound shapes) = (\<lambda>_. new_buf)(0 := close_buf new_buf)"
  by (simp_all add: trace_2_def reader_end_def trace_1_fields bm_get_def new_entry_def Let_def close_all_def)

lemma trace_3_fields:
  "fo_map (trace_3 bound shapes) = [(key_k, (new_entry shapes key_k 2)\<lparr>fe_next_id := 1, fe_subs := [(0, 1)]\<rparr>)]"
  "fo_next_buf (trace_3 bound shapes) = 2" "fo_live (trace_3 bound shapes) = [su_second, su_first]"
  "fo_bufs (trace_3 bound shapes) = (\<lambda>_. new_buf)(0 := close_buf new_buf)"
  by (simp_all add: trace_3_def attach_def ensure_entry_def trace_2_fields new_entry_def Let_def su_second_def fun_upd_idem)

lemma trace_4_fields:
  "fo_map (trace_4 bound shapes) = []" "fo_next_buf (trace_4 bound shapes) = 2"
  "fo_live (trace_4 bound shapes) = [su_second]" "fo_bufs (trace_4 bound shapes) 1 = new_buf"
  by (simp_all add: trace_4_def fan_drop_def trace_3_fields bm_get_def new_entry_def Let_def su_first_def su_second_def)

lemma trace_reach:
  "fan_reach bound shapes (trace_1 bound shapes)" "fan_reach bound shapes (trace_4 bound shapes)"
proof -
  have "fan_step bound shapes fanout_new (trace_1 bound shapes)"
    unfolding trace_1_def by (rule Subscribe [OF subscribe_new]) (simp_all add: fanout_new_def)
  then show 1: "fan_reach bound shapes (trace_1 bound shapes)" by (rule Step [OF Start])
  have "fan_step bound shapes (trace_1 bound shapes) (trace_2 bound shapes)"
    unfolding trace_2_def by (rule UpstreamEnd) (simp add: trace_1_fields)
  with 1 have 2: "fan_reach bound shapes (trace_2 bound shapes)" by (rule Step)
  have "fan_step bound shapes (trace_2 bound shapes) (trace_3 bound shapes)"
    unfolding trace_3_def by (rule Subscribe [OF subscribe_new]) (simp_all add: trace_2_fields)
  with 2 have 3: "fan_reach bound shapes (trace_3 bound shapes)" by (rule Step)
  have "fan_step bound shapes (trace_3 bound shapes) (trace_4 bound shapes)"
    unfolding trace_4_def by (rule DropStep) (simp_all add: trace_3_fields su_first_def close_buf_def new_buf_def wake_def)
  with 3 show "fan_reach bound shapes (trace_4 bound shapes)" by (rule Step)
qed

text \<open>dropping a subscription whose upstream has ended takes away a later subscriber of the same key, because the
  numbers of the subscribers start anew with each upstream: an open subscription can be cut off for good, no run of
  the fan-out ever hands it a frame again.\<close>

theorem late_drop_cuts_off:
  "\<exists>s su. fan_reach bound shapes s \<and> su \<in> set (fo_live s) \<and> \<not> sb_closed (fo_bufs s (su_buf su)) \<and>
     (\<forall>s'. (fan_step bound shapes)\<^sup>*\<^sup>* s s' \<longrightarrow>
        sb_got (fo_bufs s' (su_buf su)) @ sb_q (fo_bufs s' (su_buf su)) = [])"
proof (intro exI conjI allI impI)
  show r: "fan_reach bound shapes (trace_4 bound shapes)" by (rule trace_reach)
  show "su_second \<in> set (fo_live (trace_4 bound shapes))" by (simp add: trace_4_fields)
  have b: "fo_bufs (trace_4 bound shapes) (su_buf su_second) = new_buf"
    by (simp add: su_second_def trace_4_fields(4) [simplified])
  then show "\<not> sb_closed (fo_bufs (trace_4 bound shapes) (su_buf su_second))" by (simp add: new_buf_def)
  fix s' assume "(fan_step bound shapes)\<^sup>*\<^sup>* (trace_4 bound shapes) s'"
  from orphan_steps [OF this fan_inv_reach [OF r], of "su_buf su_second"]
  have "frames_of s' (su_buf su_second) = frames_of (trace_4 bound shapes) (su_buf su_second)"
    by (simp add: orphan_def holds_buf_def trace_4_fields su_second_def keeps_orphan_def)
  with b show "sb_got (fo_bufs s' (su_buf su_second)) @ sb_q (fo_bufs s' (su_buf su_second)) = []"
    by (simp add: frames_of_def new_buf_def)
qed

theorem late_drop_cuts_off_witness:
  "\<exists>s su. fan_reach 4 (\<lambda>_. ShapeLog) s \<and> su \<in> set (fo_live s) \<and> \<not> sb_closed (fo_bufs s (su_buf su)) \<and>
     sb_got (fo_bufs s (su_buf su)) @ sb_q (fo_bufs s (su_buf su)) = []"
  using late_drop_cuts_off [of 4 "\<lambda>_. ShapeLog"] by blast

text \<open>A close that falls between the look at \<open>closed\<close> and the wait wakes nobody: the closed subscriber sleeps.\<close>

theorem closed_subscriber_sleeps:
  "\<exists>s su. fan_reach bound shapes s \<and> su \<in> set (fo_live s) \<and>
     sb_closed (fo_bufs s (su_buf su)) \<and> sb_phase (fo_bufs s (su_buf su)) = RParked"
proof -
  define p1 where "p1 = set_buf 0 (snd (recv_check (fo_bufs (trace_1 bound shapes) 0))) (trace_1 bound shapes)"
  define p2 where "p2 = set_buf 0 (close_buf (fo_bufs p1 0)) p1"
  define p3 where "p3 = set_buf 0 (recv_wait (fo_bufs p2 0)) p2"
  have live: "su_first \<in> set (fo_live (trace_1 bound shapes))" "su_buf su_first = 0"
    by (simp_all add: trace_1_fields su_first_def)
  have "fan_step bound shapes (trace_1 bound shapes) p1"
    using RecvCheck [OF live(1)] unfolding p1_def live(2) by (simp add: trace_1_fields new_buf_def)
  then have r1: "fan_reach bound shapes p1" by (rule Step [OF trace_reach(1)])
  have "fan_step bound shapes p1 p2"
    unfolding p2_def by (rule CloseStep) (simp add: p1_def trace_1_fields)
  with r1 have r2: "fan_reach bound shapes p2" by (rule Step)
  have live2: "su_first \<in> set (fo_live p2)" using live by (simp add: p2_def p1_def)
  have ph: "sb_phase (fo_bufs p2 0) = RChecked"
    by (simp add: p2_def p1_def trace_1_fields recv_check_def new_buf_def close_buf_def wake_def)
  have "fan_step bound shapes p2 p3"
    using RecvWait [OF live2] ph unfolding p3_def live(2) by simp
  with r2 have r3: "fan_reach bound shapes p3" by (rule Step)
  have "su_first \<in> set (fo_live p3)" "sb_closed (fo_bufs p3 0)" "sb_phase (fo_bufs p3 0) = RParked"
    using live2 by (simp_all add: p3_def recv_wait_def p2_def close_buf_def)
  with r3 live(2) show ?thesis by metis
qed

text \<open>When an upstream ends, the state file still lists its subscribers.\<close>

lemma state_file_stale:
  "fan_reach bound shapes (trace_2 bound shapes) \<and> fo_map (trace_2 bound shapes) = [] \<and>
   fo_file (trace_2 bound shapes) = fo_file (trace_1 bound shapes)"
proof -
  have "fan_step bound shapes (trace_1 bound shapes) (trace_2 bound shapes)"
    unfolding trace_2_def by (rule UpstreamEnd) (simp add: trace_1_fields)
  then have "fan_reach bound shapes (trace_2 bound shapes)" by (rule Step [OF trace_reach(1)])
  then show ?thesis by (simp add: trace_2_fields(1)) (simp add: trace_2_def reader_end_def Let_def split: option.split)
qed

text \<open>The number in a marker counts the cleared entries, an earlier marker among them: after three frames are lost it
  says two.\<close>

lemma marker_undercounts:
  "sb_q (fold (push_frame 2) [[1], [2], [3], [4]] new_buf) = [resync_marker 2, [4]]"
  by (simp add: push_frame_def new_buf_def Let_def numeral_2_eq_2)

theorem fanout_bounded_and_fresh_witness:
  "length (sb_q (fo_bufs (trace_1 4 (\<lambda>_. ShapeLog)) 0)) \<le> 4"
  using fanout_bounded_and_fresh [OF trace_reach(1) [of 4 "\<lambda>_. ShapeLog"], of 0] by simp

end
