(* ===== verification/Wire_Types.thy ===== *)
theory Wire_Types
  imports Actor Cbor
begin

section \<open>The messages on the wire\<close>

text \<open>
  \<^verbatim>\<open>crates/razel-wire/src/generated.rs\<close>: the types of the protocol and their two conversions.  A conversion from the
  wire that meets a missing key or a value of another kind panics, which is \<open>None\<close>.  The locale states what a
  message type promises, and is interpreted for each of them.
\<close>

subsection \<open>Fields\<close>

definition bytes_str :: "byte list \<Rightarrow> string" where
  "bytes_str bs = map (\<lambda>b. char_of (unat b)) bs"

definition text_cbor :: "string \<Rightarrow> cbor" where
  "text_cbor s = CText (str_bytes s)"

fun as_int :: "cbor \<Rightarrow> int option" where
  "as_int (CInt n) = Some n"
| "as_int _ = None"

fun as_text :: "cbor \<Rightarrow> string option" where
  "as_text (CText s) = Some (bytes_str s)"
| "as_text _ = None"

fun as_bytes :: "cbor \<Rightarrow> byte list option" where
  "as_bytes (CBytes b) = Some b"
| "as_bytes _ = None"

fun as_array :: "cbor \<Rightarrow> cbor list option" where
  "as_array (CArray a) = Some a"
| "as_array _ = None"

fun opt_mapM :: "('a \<Rightarrow> 'b option) \<Rightarrow> 'a list \<Rightarrow> 'b list option" where
  "opt_mapM f [] = Some []"
| "opt_mapM f (x # xs) = Option.bind (f x) (\<lambda>y. map_option (Cons y) (opt_mapM f xs))"

definition msg_field :: "(cbor \<Rightarrow> 'a option) \<Rightarrow> int \<Rightarrow> cbor \<Rightarrow> 'a option" where
  "msg_field f k c = Option.bind (cbor_get c k) f"

definition as_list :: "(cbor \<Rightarrow> 'a option) \<Rightarrow> cbor \<Rightarrow> 'a list option" where
  "as_list f c = Option.bind (as_array c) (opt_mapM f)"

definition as_opt :: "(cbor \<Rightarrow> 'a option) \<Rightarrow> cbor \<Rightarrow> 'a option option" where
  "as_opt f c = (if c = CNull then Some None else map_option Some (f c))"

definition opt_cbor :: "('a \<Rightarrow> cbor) \<Rightarrow> 'a option \<Rightarrow> cbor" where
  "opt_cbor f v = (case v of Some x \<Rightarrow> f x | None \<Rightarrow> CNull)"

definition list_cbor :: "('a \<Rightarrow> cbor) \<Rightarrow> 'a list \<Rightarrow> cbor" where
  "list_cbor f xs = CArray (map f xs)"

subsection \<open>Enumerations\<close>

fun kind_wire :: "target_class \<Rightarrow> int" where
  "kind_wire TLibrary = 0" | "kind_wire TBinary = 1" | "kind_wire TTest = 2"

definition kind_from_wire :: "int \<Rightarrow> target_class option" where
  "kind_from_wire v = (if v = 0 then Some TLibrary else if v = 1 then Some TBinary else if v = 2 then Some TTest else None)"

fun status_wire :: "build_status \<Rightarrow> int" where
  "status_wire StCached = 0" | "status_wire StBuilt = 1" | "status_wire StFailed = 2"

definition status_from_wire :: "int \<Rightarrow> build_status option" where
  "status_from_wire v = (if v = 0 then Some StCached else if v = 1 then Some StBuilt else if v = 2 then Some StFailed else None)"

definition as_kind :: "cbor \<Rightarrow> target_class option" where
  "as_kind c = Option.bind (as_int c) kind_from_wire"

definition as_status :: "cbor \<Rightarrow> build_status option" where
  "as_status c = Option.bind (as_int c) status_from_wire"

subsection \<open>Messages\<close>

fun artifact_cbor :: "string \<times> byte list \<Rightarrow> cbor" where
  "artifact_cbor (p, d) = CMap [(1, text_cbor p), (2, CBytes d)]"

definition cbor_artifact :: "cbor \<Rightarrow> (string \<times> byte list) option" where
  "cbor_artifact c =
     Option.bind (msg_field as_text 1 c) (\<lambda>p. Option.bind (msg_field as_bytes 2 c) (\<lambda>d. Some (p, d)))"

type_synonym target_ref = "string \<times> target_class"

fun target_ref_cbor :: "target_ref \<Rightarrow> cbor" where
  "target_ref_cbor (l, k) = CMap [(1, text_cbor l), (2, CInt (kind_wire k))]"

definition cbor_target_ref :: "cbor \<Rightarrow> target_ref option" where
  "cbor_target_ref c =
     Option.bind (msg_field as_text 1 c) (\<lambda>l. Option.bind (msg_field as_kind 2 c) (\<lambda>k. Some (l, k)))"

definition build_result_cbor :: "build_result \<Rightarrow> cbor" where
  "build_result_cbor r =
     CMap [(1, text_cbor (br_target r)), (2, CInt (status_wire (br_status r))), (3, CInt (br_recomputes r)),
           (4, list_cbor artifact_cbor (br_outputs r)), (5, opt_cbor text_cbor (br_message r))]"

definition cbor_build_result :: "cbor \<Rightarrow> build_result option" where
  "cbor_build_result c =
     Option.bind (msg_field as_text 1 c) (\<lambda>t.
     Option.bind (msg_field as_status 2 c) (\<lambda>s.
     Option.bind (msg_field as_int 3 c) (\<lambda>n.
     Option.bind (msg_field (as_list cbor_artifact) 4 c) (\<lambda>os.
     Option.bind (msg_field (as_opt as_text) 5 c) (\<lambda>m.
     Some \<lparr>br_target = t, br_status = s, br_recomputes = n, br_outputs = os, br_message = m\<rparr>)))))"

definition sync_ack_cbor :: "int \<Rightarrow> cbor" where
  "sync_ack_cbor n = CMap [(1, CInt n)]"

definition cbor_sync_ack :: "cbor \<Rightarrow> int option" where
  "cbor_sync_ack c = msg_field as_int 1 c"

type_synonym version_info = "string \<times> int"

fun version_cbor :: "version_info \<Rightarrow> cbor" where
  "version_cbor (v, p) = CMap [(1, text_cbor v), (2, CInt p)]"

definition cbor_version :: "cbor \<Rightarrow> version_info option" where
  "cbor_version c =
     Option.bind (msg_field as_text 1 c) (\<lambda>v. Option.bind (msg_field as_int 2 c) (\<lambda>p. Some (v, p)))"

definition started_cbor :: "string \<Rightarrow> cbor" where
  "started_cbor i = CMap [(1, text_cbor i)]"

definition cbor_started :: "cbor \<Rightarrow> string option" where
  "cbor_started c = msg_field as_text 1 c"

record progress =
  pr_invocation :: string
  pr_phase :: string
  pr_done :: int
  pr_total :: int
  pr_detail :: "string option"

definition progress_cbor :: "progress \<Rightarrow> cbor" where
  "progress_cbor p =
     CMap [(1, text_cbor (pr_invocation p)), (2, text_cbor (pr_phase p)), (3, CInt (pr_done p)),
           (4, CInt (pr_total p)), (5, opt_cbor text_cbor (pr_detail p))]"

definition cbor_progress :: "cbor \<Rightarrow> progress option" where
  "cbor_progress c =
     Option.bind (msg_field as_text 1 c) (\<lambda>i.
     Option.bind (msg_field as_text 2 c) (\<lambda>ph.
     Option.bind (msg_field as_int 3 c) (\<lambda>d.
     Option.bind (msg_field as_int 4 c) (\<lambda>t.
     Option.bind (msg_field (as_opt as_text) 5 c) (\<lambda>m.
     Some \<lparr>pr_invocation = i, pr_phase = ph, pr_done = d, pr_total = t, pr_detail = m\<rparr>)))))"

record invocation_event =
  ev_invocation :: string
  ev_seq :: int
  ev_progress :: "progress option"
  ev_result :: "build_result option"

definition event_cbor :: "invocation_event \<Rightarrow> cbor" where
  "event_cbor e =
     CMap [(1, text_cbor (ev_invocation e)), (2, CInt (ev_seq e)), (3, opt_cbor progress_cbor (ev_progress e)),
           (4, opt_cbor build_result_cbor (ev_result e))]"

definition cbor_event :: "cbor \<Rightarrow> invocation_event option" where
  "cbor_event c =
     Option.bind (msg_field as_text 1 c) (\<lambda>i.
     Option.bind (msg_field as_int 2 c) (\<lambda>s.
     Option.bind (msg_field (as_opt cbor_progress) 3 c) (\<lambda>p.
     Option.bind (msg_field (as_opt cbor_build_result) 4 c) (\<lambda>r.
     Some \<lparr>ev_invocation = i, ev_seq = s, ev_progress = p, ev_result = r\<rparr>))))"

record hello =
  he_build_version :: string
  he_protocol :: int
  he_workspace_root :: string

definition hello_cbor :: "hello \<Rightarrow> cbor" where
  "hello_cbor h =
     CMap [(1, text_cbor (he_build_version h)), (2, CInt (he_protocol h)), (3, text_cbor (he_workspace_root h))]"

definition cbor_hello :: "cbor \<Rightarrow> hello option" where
  "cbor_hello c =
     Option.bind (msg_field as_text 1 c) (\<lambda>v.
     Option.bind (msg_field as_int 2 c) (\<lambda>p.
     Option.bind (msg_field as_text 3 c) (\<lambda>w.
     Some \<lparr>he_build_version = v, he_protocol = p, he_workspace_root = w\<rparr>)))"

record impact_set =
  im_sources :: "string list"
  im_targets :: "target_ref list"
  im_tests :: "target_ref list"

definition impact_cbor :: "impact_set \<Rightarrow> cbor" where
  "impact_cbor i =
     CMap [(1, list_cbor text_cbor (im_sources i)), (2, list_cbor target_ref_cbor (im_targets i)),
           (3, list_cbor target_ref_cbor (im_tests i))]"

definition cbor_impact :: "cbor \<Rightarrow> impact_set option" where
  "cbor_impact c =
     Option.bind (msg_field (as_list as_text) 1 c) (\<lambda>s.
     Option.bind (msg_field (as_list cbor_target_ref) 2 c) (\<lambda>t.
     Option.bind (msg_field (as_list cbor_target_ref) 3 c) (\<lambda>u.
     Some \<lparr>im_sources = s, im_targets = t, im_tests = u\<rparr>)))"

definition target_status_cbor :: "target_status \<Rightarrow> cbor" where
  "target_status_cbor t =
     CMap [(1, text_cbor (ts_label t)), (2, CInt (kind_wire (ts_kind t))), (3, CInt (status_wire (ts_status t))),
           (4, CBytes (ts_digest t))]"

definition cbor_target_status :: "cbor \<Rightarrow> target_status option" where
  "cbor_target_status c =
     Option.bind (msg_field as_text 1 c) (\<lambda>l.
     Option.bind (msg_field as_kind 2 c) (\<lambda>k.
     Option.bind (msg_field as_status 3 c) (\<lambda>s.
     Option.bind (msg_field as_bytes 4 c) (\<lambda>d.
     Some \<lparr>ts_label = l, ts_kind = k, ts_status = s, ts_digest = d\<rparr>))))"

definition build_state_cbor :: "build_state \<Rightarrow> cbor" where
  "build_state_cbor b = CMap [(1, CInt (bs_revision b)), (2, list_cbor target_status_cbor (bs_targets b))]"

definition cbor_build_state :: "cbor \<Rightarrow> build_state option" where
  "cbor_build_state c =
     Option.bind (msg_field as_int 1 c) (\<lambda>r.
     Option.bind (msg_field (as_list cbor_target_status) 2 c) (\<lambda>t.
     Some \<lparr>bs_revision = r, bs_targets = t\<rparr>))"

text \<open>A message of the corpus, decoded and encoded again.\<close>

definition reencode :: "string \<Rightarrow> cbor \<Rightarrow> cbor option" where
  "reencode message c =
     (if message = ''OutputArtifact'' then map_option artifact_cbor (cbor_artifact c)
      else if message = ''TargetRef'' then map_option target_ref_cbor (cbor_target_ref c)
      else if message = ''BuildResult'' then map_option build_result_cbor (cbor_build_result c)
      else if message = ''SyncAck'' then map_option sync_ack_cbor (cbor_sync_ack c)
      else if message = ''VersionInfo'' then map_option version_cbor (cbor_version c)
      else if message = ''ImpactSet'' then map_option impact_cbor (cbor_impact c)
      else if message = ''TargetStatus'' then map_option target_status_cbor (cbor_target_status c)
      else if message = ''BuildState'' then map_option build_state_cbor (cbor_build_state c)
      else None)"

subsection \<open>The contract of a message type\<close>

locale wire_type =
  fixes to_wire :: "'a \<Rightarrow> cbor"
    and from_wire :: "cbor \<Rightarrow> 'a option"
    and fits :: "'a \<Rightarrow> bool"
  assumes reads: "fits x \<Longrightarrow> from_wire (to_wire x) = Some x"
    and wire_ok: "fits x \<Longrightarrow> cbor_ok (to_wire x)"
    and normal: "canon (to_wire x) = to_wire x"
    and not_null: "to_wire x \<noteq> CNull"
begin

lemma through_bytes: "fits x \<Longrightarrow> Option.bind (decode (enc (to_wire x))) from_wire = Some x"
proof -
  assume x: "fits x"
  have "decode (enc (to_wire x)) = Some (canon (to_wire x))"
    using dec_enc [OF wire_ok [OF x], of "Suc (length (enc (to_wire x)))" "[]"]
    by (simp add: decode_def del: dec_item.simps)
  with x show ?thesis by (simp add: normal reads)
qed

lemma list_back: "\<forall>x \<in> set xs. fits x \<Longrightarrow> as_list from_wire (list_cbor to_wire xs) = Some xs"
proof -
  assume "\<forall>x \<in> set xs. fits x"
  then have "opt_mapM from_wire (map to_wire xs) = Some xs" by (induction xs) (simp_all add: reads)
  then show ?thesis by (simp add: as_list_def list_cbor_def)
qed

lemma list_ok: "\<forall>x \<in> set xs. fits x \<Longrightarrow> length xs < 2 ^ 64 \<Longrightarrow> cbor_ok (list_cbor to_wire xs)"
  by (auto simp: list_cbor_def wire_ok)

lemma list_normal: "canon (list_cbor to_wire xs) = list_cbor to_wire xs"
  by (simp add: list_cbor_def normal comp_def)

lemma opt_back: "(\<And>x. v = Some x \<Longrightarrow> fits x) \<Longrightarrow> as_opt from_wire (opt_cbor to_wire v) = Some v"
  by (cases v) (simp_all add: as_opt_def opt_cbor_def reads not_null)

lemma opt_ok: "(\<And>x. v = Some x \<Longrightarrow> fits x) \<Longrightarrow> cbor_ok (opt_cbor to_wire v)"
  by (cases v) (simp_all add: opt_cbor_def wire_ok)

lemma opt_normal: "canon (opt_cbor to_wire v) = opt_cbor to_wire v"
  by (cases v) (simp_all add: opt_cbor_def normal)

end

section \<open>The messages round trip\<close>

text \<open>
  Every message type keeps the contract of \<open>wire_type\<close>: what the daemon sends, encoded to bytes, is what a client
  reads back.  A message fits when its numbers are 64-bit and its texts are UTF-8.
\<close>

definition text_fits :: "string \<Rightarrow> bool" where
  "text_fits s \<longleftrightarrow> length s < 2 ^ 64 \<and> utf8_ok (str_bytes s)"

lemma bytes_str_back [simp]: "bytes_str (str_bytes s) = s"
  by (induction s) (simp_all add: bytes_str_def str_bytes_def unat_of_nat)

lemma length_str_bytes' [simp]: "length (str_bytes s) = length s"
  by (simp add: str_bytes_def)

lemma msg_field_simps [simp]:
  "msg_field f k (CMap ((k', v) # m)) = (if k' = k then f v else msg_field f k (CMap m))"
  by (simp add: msg_field_def)

interpretation str_msg: wire_type text_cbor as_text text_fits
  by unfold_locales (simp_all add: text_cbor_def text_fits_def)

lemma kind_back [simp]: "as_kind (CInt (kind_wire k)) = Some k"
  by (cases k) (simp_all add: as_kind_def kind_from_wire_def)

lemma status_back [simp]: "as_status (CInt (status_wire s)) = Some s"
  by (cases s) (simp_all add: as_status_def status_from_wire_def)

lemma wire_small [simp]: "i64_ok (kind_wire k)" "i64_ok (status_wire s)"
  by (cases k; simp add: i64_ok_def) (cases s; simp add: i64_ok_def)

lemma key_ok [simp]: "i64_ok 1" "i64_ok 2" "i64_ok 3" "i64_ok 4" "i64_ok 5"
  by (simp_all add: i64_ok_def)

lemma text_normal [simp]: "canon (text_cbor s) = text_cbor s" "text_cbor s \<noteq> CNull"
  by (simp_all add: text_cbor_def)

fun artifact_fits :: "string \<times> byte list \<Rightarrow> bool" where
  "artifact_fits (p, d) \<longleftrightarrow> text_fits p \<and> length d < 2 ^ 64"

interpretation artifact: wire_type artifact_cbor cbor_artifact artifact_fits
proof
  fix x :: "string \<times> byte list"
  obtain p d where x: "x = (p, d)" by (cases x)
  show "artifact_fits x \<Longrightarrow> cbor_artifact (artifact_cbor x) = Some x"
    by (simp add: x cbor_artifact_def str_msg.reads)
  show "artifact_fits x \<Longrightarrow> cbor_ok (artifact_cbor x)"
    by (simp add: x str_msg.wire_ok)
  show "canon (artifact_cbor x) = artifact_cbor x" "artifact_cbor x \<noteq> CNull"
    by (simp_all add: x)
qed

fun ref_fits :: "target_ref \<Rightarrow> bool" where
  "ref_fits (l, k) \<longleftrightarrow> text_fits l"

interpretation ref: wire_type target_ref_cbor cbor_target_ref ref_fits
proof
  fix x :: target_ref
  obtain l k where x: "x = (l, k)" by (cases x)
  show "ref_fits x \<Longrightarrow> cbor_target_ref (target_ref_cbor x) = Some x"
    by (simp add: x cbor_target_ref_def str_msg.reads)
  show "ref_fits x \<Longrightarrow> cbor_ok (target_ref_cbor x)"
    by (simp add: x str_msg.wire_ok)
  show "canon (target_ref_cbor x) = target_ref_cbor x" "target_ref_cbor x \<noteq> CNull"
    by (simp_all add: x)
qed

definition result_fits :: "build_result \<Rightarrow> bool" where
  "result_fits r \<longleftrightarrow> text_fits (br_target r) \<and> i64_ok (br_recomputes r) \<and> length (br_outputs r) < 2 ^ 64 \<and>
     (\<forall>x \<in> set (br_outputs r). artifact_fits x) \<and> (\<forall>m. br_message r = Some m \<longrightarrow> text_fits m)"

interpretation result: wire_type build_result_cbor cbor_build_result result_fits
  by unfold_locales
    (auto simp: build_result_cbor_def cbor_build_result_def result_fits_def str_msg.reads str_msg.wire_ok
      artifact.list_back artifact.list_ok artifact.list_normal str_msg.opt_back str_msg.opt_ok str_msg.opt_normal)

interpretation sync_ack: wire_type sync_ack_cbor cbor_sync_ack i64_ok
  by unfold_locales (simp_all add: sync_ack_cbor_def cbor_sync_ack_def)

fun version_fits :: "version_info \<Rightarrow> bool" where
  "version_fits (v, p) \<longleftrightarrow> text_fits v \<and> i64_ok p"

interpretation version: wire_type version_cbor cbor_version version_fits
proof
  fix x :: version_info
  obtain v p where x: "x = (v, p)" by (cases x)
  show "version_fits x \<Longrightarrow> cbor_version (version_cbor x) = Some x"
    by (simp add: x cbor_version_def str_msg.reads)
  show "version_fits x \<Longrightarrow> cbor_ok (version_cbor x)"
    by (simp add: x str_msg.wire_ok)
  show "canon (version_cbor x) = version_cbor x" "version_cbor x \<noteq> CNull"
    by (simp_all add: x)
qed

interpretation started: wire_type started_cbor cbor_started text_fits
  by unfold_locales (simp_all add: started_cbor_def cbor_started_def str_msg.reads str_msg.wire_ok)

definition progress_fits :: "progress \<Rightarrow> bool" where
  "progress_fits p \<longleftrightarrow> text_fits (pr_invocation p) \<and> text_fits (pr_phase p) \<and> i64_ok (pr_done p) \<and> i64_ok (pr_total p) \<and>
     (\<forall>m. pr_detail p = Some m \<longrightarrow> text_fits m)"

interpretation progress: wire_type progress_cbor cbor_progress progress_fits
  by unfold_locales
    (auto simp: progress_cbor_def cbor_progress_def progress_fits_def str_msg.reads str_msg.wire_ok
      str_msg.opt_back str_msg.opt_ok str_msg.opt_normal)

definition event_fits :: "invocation_event \<Rightarrow> bool" where
  "event_fits e \<longleftrightarrow> text_fits (ev_invocation e) \<and> i64_ok (ev_seq e) \<and>
     (\<forall>p. ev_progress e = Some p \<longrightarrow> progress_fits p) \<and> (\<forall>r. ev_result e = Some r \<longrightarrow> result_fits r)"

interpretation event: wire_type event_cbor cbor_event event_fits
  by unfold_locales
    (auto simp: event_cbor_def cbor_event_def event_fits_def str_msg.reads str_msg.wire_ok
      progress.opt_back progress.opt_ok progress.opt_normal result.opt_back result.opt_ok result.opt_normal)

definition hello_fits :: "hello \<Rightarrow> bool" where
  "hello_fits h \<longleftrightarrow> text_fits (he_build_version h) \<and> i64_ok (he_protocol h) \<and> text_fits (he_workspace_root h)"

interpretation hello: wire_type hello_cbor cbor_hello hello_fits
  by unfold_locales (auto simp: hello_cbor_def cbor_hello_def hello_fits_def str_msg.reads str_msg.wire_ok)

definition impact_fits :: "impact_set \<Rightarrow> bool" where
  "impact_fits i \<longleftrightarrow>
     length (im_sources i) < 2 ^ 64 \<and> length (im_targets i) < 2 ^ 64 \<and> length (im_tests i) < 2 ^ 64 \<and>
     (\<forall>s \<in> set (im_sources i). text_fits s) \<and> (\<forall>t \<in> set (im_targets i). ref_fits t) \<and>
     (\<forall>t \<in> set (im_tests i). ref_fits t)"

interpretation impact: wire_type impact_cbor cbor_impact impact_fits
  by unfold_locales
    (auto simp: impact_cbor_def cbor_impact_def impact_fits_def str_msg.list_back str_msg.list_ok str_msg.list_normal
      ref.list_back ref.list_ok ref.list_normal)

definition target_status_fits :: "target_status \<Rightarrow> bool" where
  "target_status_fits t \<longleftrightarrow> text_fits (ts_label t) \<and> length (ts_digest t) < 2 ^ 64"

interpretation tstatus: wire_type target_status_cbor cbor_target_status target_status_fits
  by unfold_locales
    (auto simp: target_status_cbor_def cbor_target_status_def target_status_fits_def str_msg.reads str_msg.wire_ok)

definition build_state_fits :: "build_state \<Rightarrow> bool" where
  "build_state_fits b \<longleftrightarrow> i64_ok (bs_revision b) \<and> length (bs_targets b) < 2 ^ 64 \<and>
     (\<forall>t \<in> set (bs_targets b). target_status_fits t)"

interpretation bstate: wire_type build_state_cbor cbor_build_state build_state_fits
  by unfold_locales
    (auto simp: build_state_cbor_def cbor_build_state_def build_state_fits_def
      tstatus.list_back tstatus.list_ok tstatus.list_normal)

text \<open>The bytes of a message that fits are a fixed point of the re-encoding.\<close>

lemma reencode_messages:
  "artifact_fits x \<Longrightarrow> reencode ''OutputArtifact'' (artifact_cbor x) = Some (artifact_cbor x)"
  "ref_fits t \<Longrightarrow> reencode ''TargetRef'' (target_ref_cbor t) = Some (target_ref_cbor t)"
  "result_fits r \<Longrightarrow> reencode ''BuildResult'' (build_result_cbor r) = Some (build_result_cbor r)"
  "i64_ok n \<Longrightarrow> reencode ''SyncAck'' (sync_ack_cbor n) = Some (sync_ack_cbor n)"
  "version_fits v \<Longrightarrow> reencode ''VersionInfo'' (version_cbor v) = Some (version_cbor v)"
  "impact_fits i \<Longrightarrow> reencode ''ImpactSet'' (impact_cbor i) = Some (impact_cbor i)"
  "target_status_fits s \<Longrightarrow> reencode ''TargetStatus'' (target_status_cbor s) = Some (target_status_cbor s)"
  "build_state_fits b \<Longrightarrow> reencode ''BuildState'' (build_state_cbor b) = Some (build_state_cbor b)"
  by (simp_all add: reencode_def artifact.reads ref.reads result.reads sync_ack.reads version.reads impact.reads
    tstatus.reads bstate.reads)

text \<open>C35: what the daemon tells a client arrives as it was: an event of an invocation with its progress and its result, the
  state of the build graph, an impact set and a greeting are read back from their bytes.\<close>

theorem messages_round_trip:
  "(event_fits e \<longrightarrow> Option.bind (decode (enc (event_cbor e))) cbor_event = Some e) \<and>
   (build_state_fits b \<longrightarrow> Option.bind (decode (enc (build_state_cbor b))) cbor_build_state = Some b) \<and>
   (impact_fits i \<longrightarrow> Option.bind (decode (enc (impact_cbor i))) cbor_impact = Some i) \<and>
   (hello_fits h \<longrightarrow> Option.bind (decode (enc (hello_cbor h))) cbor_hello = Some h)"
  by (intro conjI impI) (erule event.through_bytes bstate.through_bytes impact.through_bytes hello.through_bytes)+

definition demo_event :: invocation_event where
  "demo_event = \<lparr>ev_invocation = ''i'', ev_seq = 7, ev_progress = None,
     ev_result = Some \<lparr>br_target = ''//a'', br_status = StBuilt, br_recomputes = 2, br_outputs = [(''o'', [1, 2])],
       br_message = None\<rparr>\<rparr>"

definition demo_hello :: hello where
  "demo_hello = \<lparr>he_build_version = ''1'', he_protocol = 3, he_workspace_root = ''/w''\<rparr>"

lemma ascii_fits: "utf8_ok (str_bytes s) \<Longrightarrow> length s < 100 \<Longrightarrow> text_fits s"
  by (simp add: text_fits_def)

lemma demo_texts: "text_fits ''i''" "text_fits ''//a''" "text_fits ''o''" "text_fits ''1''" "text_fits ''/w''"
  by (simp_all add: text_fits_def str_bytes_def)

theorem messages_round_trip_witness:
  "Option.bind (decode (enc (event_cbor demo_event))) cbor_event = Some demo_event \<and>
   Option.bind (decode (enc (build_state_cbor \<lparr>bs_revision = 4, bs_targets = []\<rparr>))) cbor_build_state
     = Some \<lparr>bs_revision = 4, bs_targets = []\<rparr> \<and>
   Option.bind (decode (enc (impact_cbor \<lparr>im_sources = [''o''], im_targets = [(''//a'', TTest)], im_tests = []\<rparr>))) cbor_impact
     = Some \<lparr>im_sources = [''o''], im_targets = [(''//a'', TTest)], im_tests = []\<rparr> \<and>
   Option.bind (decode (enc (hello_cbor demo_hello))) cbor_hello = Some demo_hello"
proof -
  have "event_fits demo_event"
    using demo_texts by (simp add: demo_event_def event_fits_def result_fits_def i64_ok_def)
  moreover have "build_state_fits \<lparr>bs_revision = 4, bs_targets = []\<rparr>"
    by (simp add: build_state_fits_def)
  moreover have "impact_fits \<lparr>im_sources = [''o''], im_targets = [(''//a'', TTest)], im_tests = []\<rparr>"
    using demo_texts by (simp add: impact_fits_def)
  moreover have "hello_fits demo_hello"
    using demo_texts by (simp add: hello_fits_def demo_hello_def)
  ultimately show ?thesis using messages_round_trip by blast
qed

end
