(* ===== verification/Golden.thy ===== *)
theory Golden
  imports Analysis Std_Text
begin

section \<open>Comparing action graphs\<close>

text \<open>
  \<^verbatim>\<open>crates/razel-parity/src/lib.rs\<close>: a recorded action listing is brought to a form that does not depend on the host,
  read into actions, and compared with the actions razel declares.
\<close>

subsection \<open>Normalizing a listing\<close>

text \<open>The component after each occurrence of \<open>pre\<close>, which is not empty.\<close>

function normalize_segment :: "string \<Rightarrow> string \<Rightarrow> string \<Rightarrow> string" where
  "normalize_segment pre ph rest =
     (case (if pre = [] then None else str_find rest pre) of
        None \<Rightarrow> rest
      | Some i \<Rightarrow>
          (let after = drop (i + length pre) rest
           in take i rest @ pre @
              (case split_once after (CHR ''/'') of
                 Some (_, tail) \<Rightarrow> ph @ ''/'' @ normalize_segment pre ph tail
               | None \<Rightarrow> normalize_segment pre ph after)))"
  by pat_completeness auto

lemma str_find_fits: "str_find s p = Some i \<Longrightarrow> i + length p \<le> length s"
proof (induction s p arbitrary: i rule: str_find.induct)
  case (1 p)
  then show ?case by (auto split: if_splits)
next
  case (2 c s p)
  show ?case
  proof (cases "starts_with (c # s) p")
    case True
    with 2(2) have "i = 0" by simp
    with True show ?thesis by (auto simp: starts_with_iff) (metis length_Cons length_append le_add1)
  next
    case False
    with 2(2) obtain j where "str_find s p = Some j" "i = Suc j" by auto
    with 2(1) False show ?thesis by auto
  qed
qed

lemma split_once_length: "split_once s c = Some (a, b) \<Longrightarrow> length b < length s"
  by (auto simp: split_once_Some)

lemma found_shorter: "(if p = [] then None else str_find s p) = Some i \<Longrightarrow> length (drop (i + length p) s) < length s"
  by (cases p) (auto dest: str_find_fits)

termination normalize_segment
  by (relation "measure (\<lambda>(pre, ph, rest). length rest)")
    (auto dest!: found_shorter split_once_length)

declare normalize_segment.simps [simp del]

definition value_end :: "char \<Rightarrow> bool" where
  "value_end c \<longleftrightarrow> is_space c \<or> c = CHR 0x27 \<or> c = CHR 0x22"

function replace_value :: "string \<Rightarrow> string \<Rightarrow> string \<Rightarrow> string" where
  "replace_value key ph rest =
     (case (if key = [] then None else str_find rest key) of
        None \<Rightarrow> rest
      | Some i \<Rightarrow>
          take i rest @ key @ ph @
          replace_value key ph (dropWhile (\<lambda>c. \<not> value_end c) (drop (i + length key) rest)))"
  by pat_completeness auto
termination
  by (relation "measure (\<lambda>(key, ph, rest). length rest)")
    (auto dest!: found_shorter intro: le_less_trans [OF length_dropWhile_le])

declare replace_value.simps [simp del]

function normalize_rust_hash :: "string \<Rightarrow> string" where
  "normalize_rust_hash [] = []"
| "normalize_rust_hash (c # cs) =
     (let n = length (takeWhile is_digit cs)
      in if c = CHR ''-'' \<and> 6 \<le> n then ''-<hash>'' @ normalize_rust_hash (drop n cs)
         else c # normalize_rust_hash cs)"
  by pat_completeness auto
termination
  by (relation "measure length") auto

definition dropped_prefixes :: "string list" where
  "dropped_prefixes =
     [''ActionKey:'', ''Configuration:'', ''# Configuration:'', ''Execution platform:'', ''# Execution platform:'']"

definition normalize_line :: "string \<Rightarrow> string option" where
  "normalize_line raw =
     (let line = str_trim_end raw
      in if list_ex (starts_with (str_trim_start line)) dropped_prefixes then None
         else
           Some (str_replace '' (File)'' [] (str_replace '' (TreeArtifact)'' []
             (normalize_rust_hash
               (replace_value ''-mmacosx-version-min='' ''<sdk>''
                 (normalize_segment ''external/'' ''<repo>''
                   (normalize_segment ''bazel-out/'' ''<cfg>'' line)))))))"

definition normalize :: "string \<Rightarrow> string" where
  "normalize raw = concat (map (\<lambda>l. l @ [CHR 0x0A]) (List.map_filter normalize_line (str_lines raw)))"

subsection \<open>Actions\<close>

record paction =
  pa_mnemonic :: string
  pa_argv :: "string list"
  pa_inputs :: "string list"
  pa_outputs :: "string list"


text \<open>\<open>s.split(p)\<close> for a text \<open>p\<close> that is not empty.\<close>

function split_str :: "string \<Rightarrow> string \<Rightarrow> string list" where
  "split_str p s =
     (case (if p = [] then None else str_find s p) of
        None \<Rightarrow> [s]
      | Some i \<Rightarrow> take i s # split_str p (drop (i + length p) s))"
  by pat_completeness auto
termination
  by (relation "measure (\<lambda>(p, s). length s)") (auto dest!: found_shorter)

declare split_str.simps [simp del]

fun find_map :: "('a \<Rightarrow> 'b option) \<Rightarrow> 'a list \<Rightarrow> 'b option" where
  "find_map f [] = None"
| "find_map f (x # xs) = (case f x of Some y \<Rightarrow> Some y | None \<Rightarrow> find_map f xs)"

definition line_value :: "string \<Rightarrow> string \<Rightarrow> string option" where
  "line_value block key =
     find_map (\<lambda>l. map_option str_trim (strip_prefix (str_trim_start l) key)) (str_lines block)"

definition until_char :: "char \<Rightarrow> string \<Rightarrow> string" where
  "until_char c s = takeWhile (\<lambda>x. x \<noteq> c) s"

definition parse_bracket_list :: "string \<Rightarrow> string \<Rightarrow> string list" where
  "parse_bracket_list block key =
     (case str_find block key of
        None \<Rightarrow> []
      | Some start \<Rightarrow>
          sort (filter (\<lambda>s. s \<noteq> []) (split_str '', '' (until_char (CHR '']'') (drop (start + length key) block)))))"

definition command_line_key :: string where
  "command_line_key = ''Command Line: (exec ''"

definition trim_quotes :: "string \<Rightarrow> string" where
  "trim_quotes t = rev (dropWhile (\<lambda>c. c = CHR 0x27) (rev (dropWhile (\<lambda>c. c = CHR 0x27) t)))"

definition parse_command_line :: "string \<Rightarrow> string list" where
  "parse_command_line block =
     (case str_find block command_line_key of
        None \<Rightarrow> []
      | Some start \<Rightarrow>
          map trim_quotes
            (filter (\<lambda>t. t \<noteq> [CHR 0x5C])
              (split_whitespace (until_char (CHR '')'') (drop (start + length command_line_key) block)))))"

definition parse_action_block :: "string \<Rightarrow> paction" where
  "parse_action_block block =
     \<lparr>pa_mnemonic = (case line_value block ''Mnemonic:'' of Some m \<Rightarrow> m | None \<Rightarrow> []),
      pa_argv = parse_command_line block,
      pa_inputs = parse_bracket_list block ''Inputs: ['',
      pa_outputs = parse_bracket_list block ''Outputs: [''\<rparr>"

definition action_mark :: string where
  "action_mark = ''action '' @ [CHR 0x27]"

definition parse_golden :: "string \<Rightarrow> paction list" where
  "parse_golden golden = map parse_action_block (drop 1 (split_str action_mark golden))"

subsection \<open>Argument vectors of rustc\<close>

definition is_wrapper :: "string \<Rightarrow> bool" where
  "is_wrapper t \<longleftrightarrow> t = ''razel-process-wrapper'' \<or> ends_with t ''process_wrapper'' \<or> ends_with t ''process-wrapper''"

definition canonicalize_rust_argv :: "string list \<Rightarrow> string list" where
  "canonicalize_rust_argv args =
     (let wrapped = (case args of t # _ \<Rightarrow> is_wrapper t | [] \<Rightarrow> False) \<or>
                    (case args of _ # t # _ \<Rightarrow> t = ''process-wrapper'' | _ \<Rightarrow> False);
          rest = (if wrapped \<and> ''--'' \<in> set args then tl (dropWhile (\<lambda>t. t \<noteq> ''--'') args) else args)
      in case rest of
           t # ts \<Rightarrow> if t = ''rustc'' \<or> ends_with t ''/rustc'' then ts else rest
         | [] \<Rightarrow> [])"

definition deviation_flag :: "string \<Rightarrow> bool" where
  "deviation_flag s \<longleftrightarrow>
     starts_with s ''--sysroot='' \<or> starts_with s ''--remap-path-prefix='' \<or>
     starts_with s ''--codegen=linker='' \<or> starts_with s ''--codegen=link-arg=''"

fun strip_rust_deviation_flags :: "string list \<Rightarrow> string list" where
  "strip_rust_deviation_flags [] = []"
| "strip_rust_deviation_flags (t # ts) =
     (if t = ''-L'' then (case ts of [] \<Rightarrow> [] | _ # us \<Rightarrow> strip_rust_deviation_flags us)
      else if deviation_flag t then strip_rust_deviation_flags ts
      else t # strip_rust_deviation_flags ts)"

subsection \<open>The comparison\<close>











section \<open>Properties of the comparison\<close>

text \<open>
  A clean report means that the two graphs agree action by action, up to the omitted mnemonics and the inputs that are
  not compared.  Neither of the two normal forms is reached in one pass on every text.
\<close>

subsection \<open>The index\<close>



subsection \<open>The loop over the golden actions\<close>








subsection \<open>The properties\<close>




text \<open>The canonical argument vector is not a fixed point: a wrapper under a wrapper takes two passes.\<close>

lemma canonicalize_not_idempotent:
  "canonicalize_rust_argv [''process_wrapper'', ''--'', ''rustc'', ''rustc'', ''x''] = [''rustc'', ''x'']"
  "canonicalize_rust_argv [''rustc'', ''x''] = [''x'']"
  by code_simp+

text \<open>Removing the kind of an artifact can leave white space at the end of a line, which a second pass removes.\<close>

lemma normalize_not_idempotent:
  "normalize ''x  (File)'' = ''x '' @ [CHR 0x0A]" "normalize (''x '' @ [CHR 0x0A]) = ''x'' @ [CHR 0x0A]"
  by code_simp+

end
