(* ===== verification/Scope.thy ===== *)
theory Scope
  imports Std_Text
begin

section \<open>Scopes and their paths\<close>

text \<open>
  \<^verbatim>\<open>crates/grazel-cli-lib/src/scope.rs\<close> and \<^verbatim>\<open>paths.rs\<close>: which scope a workspace belongs to, and where its socket and its
  state lie.  \<open>read\<close> is the content of a file that can be read.  Errors are a datatype with the values their texts show.
\<close>

datatype scope_error =
    InvalidScope string
  | RcInvalidScope string string
  | RazelrcKey string
  | SocketTooLong string nat
  | NoHome

definition is_lower :: "char \<Rightarrow> bool" where
  "is_lower c \<longleftrightarrow> (let n = of_char c :: nat in 97 \<le> n \<and> n \<le> 122)"

definition validate_scope_name :: "string \<Rightarrow> scope_error + unit" where
  "validate_scope_name name =
     (let ok_head = (case name of [] \<Rightarrow> False | c # _ \<Rightarrow> is_lower c \<or> is_digit c);
          ok_rest = list_all (\<lambda>c. is_lower c \<or> is_digit c \<or> c = CHR ''_'' \<or> c = CHR ''-'') name
      in if \<not> ok_head \<or> \<not> ok_rest \<or> 32 < length name then Inl (InvalidScope name) else Inr ())"

text \<open>\<open>base.join(name)\<close>.\<close>

definition path_push :: "string \<Rightarrow> string \<Rightarrow> string" where
  "path_push base name =
     (if starts_with name ''/'' then name
      else if base = [] \<or> ends_with base ''/'' then base @ name
      else base @ ''/'' @ name)"

fun rc_scope_line :: "string \<Rightarrow> string list \<Rightarrow> scope_error + string option" where
  "rc_scope_line rc [] = Inr None"
| "rc_scope_line rc (raw # rest) =
     (let line = str_trim raw
      in if line = [] \<or> starts_with line ''#'' then rc_scope_line rc rest
         else
           (case strip_prefix line ''service_scope='' of
              Some v \<Rightarrow>
                (case validate_scope_name (str_trim v) of
                   Inl _ \<Rightarrow> Inl (RcInvalidScope rc (str_trim v))
                 | Inr _ \<Rightarrow> Inr (Some (str_trim v)))
            | None \<Rightarrow> rc_scope_line rc rest))"

definition read_rc_scope :: "(string \<Rightarrow> string option) \<Rightarrow> string \<Rightarrow> scope_error + string option" where
  "read_rc_scope read workspace =
     (let rc = path_push workspace ''.grazelrc''
      in case read rc of None \<Rightarrow> Inr None | Some src \<Rightarrow> rc_scope_line rc (str_lines src))"

definition check_razelrc :: "(string \<Rightarrow> string option) \<Rightarrow> string \<Rightarrow> scope_error + unit" where
  "check_razelrc read workspace =
     (let rc = path_push workspace ''.razelrc''
      in case read rc of
           None \<Rightarrow> Inr ()
         | Some src \<Rightarrow>
             if list_ex (\<lambda>l. starts_with (str_trim l) ''service_scope='') (str_lines src) then Inl (RazelrcKey rc)
             else Inr ())"

definition default_scope :: string where
  "default_scope = ''default''"

definition resolve_scope ::
    "(string \<Rightarrow> string option) \<Rightarrow> string option \<Rightarrow> string option \<Rightarrow> string \<Rightarrow> scope_error + string" where
  "resolve_scope read flg var workspace =
     res_bind (check_razelrc read workspace) (\<lambda>_.
     res_bind
       (case flg of
          Some f \<Rightarrow> Inr f
        | None \<Rightarrow>
            (case var of
               Some e \<Rightarrow> Inr e
             | None \<Rightarrow> map_sum id (\<lambda>r. case r of Some rc \<Rightarrow> rc | None \<Rightarrow> default_scope) (read_rc_scope read workspace)))
       (\<lambda>chosen. map_sum id (\<lambda>_. chosen) (validate_scope_name chosen)))"

definition uds_path_max :: nat where
  "uds_path_max = 103"

record scope_paths =
  sp_scope :: string
  sp_home :: string
  sp_socket :: string
  sp_state_dir :: string
  sp_daemon_json :: string

definition grazel_home :: "string option \<Rightarrow> string option \<Rightarrow> scope_error + string" where
  "grazel_home override user_home =
     (case override of
        Some h \<Rightarrow> Inr h
      | None \<Rightarrow> (case user_home of Some h \<Rightarrow> Inr (path_push h ''.grazel'') | None \<Rightarrow> Inl NoHome))"

definition scope_paths_new :: "string \<Rightarrow> string \<Rightarrow> scope_error + scope_paths" where
  "scope_paths_new home scope =
     res_bind (validate_scope_name scope) (\<lambda>_.
       let socket = path_push (path_push home ''.uds'') scope;
           state_dir = path_push (path_push home ''scopes'') scope
       in if uds_path_max < length socket then Inl (SocketTooLong socket (length socket))
          else Inr \<lparr>sp_scope = scope, sp_home = home, sp_socket = socket, sp_state_dir = state_dir,
                    sp_daemon_json = path_push state_dir ''daemon.json''\<rparr>)"

subsection \<open>What a scope name can be\<close>

definition scope_name_ok :: "string \<Rightarrow> bool" where
  "scope_name_ok name \<longleftrightarrow> validate_scope_name name = Inr ()"

lemma scope_name_chars:
  "scope_name_ok name \<Longrightarrow> name \<noteq> [] \<and> length name \<le> 32 \<and> CHR ''/'' \<notin> set name \<and> CHR ''.'' \<notin> set name"
  by (auto simp: scope_name_ok_def validate_scope_name_def list_all_iff is_lower_def is_digit_def Let_def split: if_splits list.splits)

lemma validate_Inr: "validate_scope_name name = Inr u \<longleftrightarrow> scope_name_ok name"
  by (simp add: scope_name_ok_def)

lemma path_push_inj: "\<not> starts_with a ''/'' \<Longrightarrow> \<not> starts_with b ''/'' \<Longrightarrow> path_push base a = path_push base b \<Longrightarrow> a = b"
  by (auto simp: path_push_def split: if_splits)

lemma no_leading_slash: "scope_name_ok name \<Longrightarrow> \<not> starts_with name ''/''"
  using scope_name_chars [of name] by (cases name) (auto simp: starts_with_def)

lemma push_under:
  assumes "scope_name_ok name" "d \<noteq> []" "\<not> ends_with d ''/''" "\<not> starts_with d ''/''"
  shows "path_push (path_push home d) name = path_push home d @ ''/'' @ name"
proof -
  have "\<not> ends_with (path_push home d) ''/''" "path_push home d \<noteq> []"
    using assms(2-4) by (cases "rev d"; auto simp: path_push_def ends_with_def starts_with_Cons split: if_splits)+
  then show ?thesis using no_leading_slash [OF assms(1)] by (simp add: path_push_def)
qed

text \<open>A scope that is resolved has a valid name, from the first source that gives one; its socket lies directly in the
  socket directory, its path fits the limit of the system, and distinct scopes of a home have distinct sockets and
  state directories.\<close>

theorem scope_contract:
  assumes "resolve_scope read flg var workspace = Inr name" "scope_paths_new home name = Inr p"
  shows "scope_name_ok name" "length (sp_socket p) \<le> 103"
    "sp_socket p = path_push home ''.uds'' @ ''/'' @ name"
    "scope_paths_new home other = Inr q \<Longrightarrow> other \<noteq> name \<Longrightarrow>
       sp_socket q \<noteq> sp_socket p \<and> sp_state_dir q \<noteq> sp_state_dir p"
    "flg = Some f \<Longrightarrow> name = f" "flg = None \<Longrightarrow> var = Some e \<Longrightarrow> name = e"
proof -
  show ok: "scope_name_ok name"
    using assms(2) by (auto simp: scope_paths_new_def res_bind_Inr_iff validate_Inr)
  have dirs: "''.uds'' \<noteq> []" "\<not> ends_with ''.uds'' ''/''" "\<not> starts_with ''.uds'' ''/''"
    "''scopes'' \<noteq> []" "\<not> ends_with ''scopes'' ''/''" "\<not> starts_with ''scopes'' ''/''"
    by (simp_all add: ends_with_def starts_with_def)
  have p: "sp_socket r = path_push home ''.uds'' @ ''/'' @ s \<and> sp_state_dir r = path_push home ''scopes'' @ ''/'' @ s \<and>
      length (sp_socket r) \<le> 103"
    if "scope_paths_new home s = Inr r" for s r
  proof -
    have "scope_name_ok s" using that by (auto simp: scope_paths_new_def res_bind_Inr_iff validate_Inr)
    from push_under [OF this dirs(1-3)] push_under [OF this dirs(4-6)] that show ?thesis
      by (auto simp: scope_paths_new_def res_bind_Inr_iff uds_path_max_def Let_def split: if_splits)
  qed
  show "length (sp_socket p) \<le> 103" "sp_socket p = path_push home ''.uds'' @ ''/'' @ name" using p [OF assms(2)] by blast+
  show "sp_socket q \<noteq> sp_socket p \<and> sp_state_dir q \<noteq> sp_state_dir p" if "scope_paths_new home other = Inr q" "other \<noteq> name"
    using p [OF assms(2)] p [OF that(1)] that(2) by simp
  show "name = f" if "flg = Some f" using assms(1) that by (auto simp: resolve_scope_def res_bind_Inr_iff) (cases "validate_scope_name f"; simp)
  show "name = e" if "flg = None" "var = Some e" using assms(1) that by (auto simp: resolve_scope_def res_bind_Inr_iff) (cases "validate_scope_name e"; simp)
qed

end
