(* ===== verification/Label_Value.thy ===== *)
theory Label_Value
  imports Paths
begin

section \<open>Labels as values\<close>

text \<open>
  \<^verbatim>\<open>crates/razel-loading/src/labels.rs\<close>: the value of \<open>Label(...)\<close> in a build file, its text, its attributes, and the
  resolution of a label text relative to it.
\<close>

record label_value =
  lv_repo :: "string option"
  lv_package :: string
  lv_name :: string

definition label_text :: "label_value \<Rightarrow> string" where
  "label_text l =
     (case lv_repo l of
        Some r \<Rightarrow> r @ ''//'' @ lv_package l @ '':'' @ lv_name l
      | None \<Rightarrow> ''//'' @ lv_package l @ '':'' @ lv_name l)"

definition label_attr :: "label_value \<Rightarrow> string \<Rightarrow> string option" where
  "label_attr l a =
     (if a = ''package'' then Some (lv_package l)
      else if a = ''name'' then Some (lv_name l)
      else if a = ''workspace_name'' \<or> a = ''repo_name'' then
        Some (case lv_repo l of Some r \<Rightarrow> trim_start (CHR ''@'') r | None \<Rightarrow> [])
      else if a = ''workspace_root'' then
        Some (case lv_repo l of Some r \<Rightarrow> ''external/'' @ trim_start (CHR ''@'') r | None \<Rightarrow> [])
      else None)"

definition split_pkg_name :: "string \<Rightarrow> string \<times> string" where
  "split_pkg_name rest =
     (case split_once rest (CHR '':'') of
        Some (p, n) \<Rightarrow> (p, n)
      | None \<Rightarrow> (rest, rsplit_last rest (CHR ''/'')))"

definition label_relative :: "label_value \<Rightarrow> string \<Rightarrow> label_value" where
  "label_relative me rel =
     (case strip_prefix rel ''//'' of
        Some rest \<Rightarrow>
          (case split_pkg_name rest of (p, n) \<Rightarrow> \<lparr>lv_repo = lv_repo me, lv_package = p, lv_name = n\<rparr>)
      | None \<Rightarrow>
          if starts_with rel ''@'' then
            (case split_once_str rel ''//'' of
               Some (r, rest) \<Rightarrow>
                 (case split_pkg_name rest of (p, n) \<Rightarrow> \<lparr>lv_repo = Some r, lv_package = p, lv_name = n\<rparr>)
             | None \<Rightarrow> \<lparr>lv_repo = Some rel, lv_package = [], lv_name = trim_start (CHR ''@'') rel\<rparr>)
          else \<lparr>lv_repo = lv_repo me, lv_package = lv_package me, lv_name = trim_start (CHR '':'') rel\<rparr>)"

definition same_package_label :: "label_value \<Rightarrow> string \<Rightarrow> label_value" where
  "same_package_label me n =
     \<lparr>lv_repo = lv_repo me, lv_package = lv_package me, lv_name = trim_start (CHR '':'') n\<rparr>"

text \<open>A label as the loader makes them: a repository starts with \<open>@\<close> and has no slash, a package no colon.\<close>

definition label_value_ok :: "label_value \<Rightarrow> bool" where
  "label_value_ok l \<longleftrightarrow> CHR '':'' \<notin> set (lv_package l) \<and>
     (case lv_repo l of None \<Rightarrow> True | Some r \<Rightarrow> starts_with r ''@'' \<and> CHR ''/'' \<notin> set r)"

lemma split_once_str_first:
  "CHR ''/'' \<notin> set r \<Longrightarrow> split_once_str (r @ ''//'' @ s) ''//'' = Some (r, s)"
proof -
  assume "CHR ''/'' \<notin> set r"
  then have "str_find (r @ ''//'' @ s) ''//'' = Some (length r)"
    by (induction r) (auto simp: starts_with_def)
  then show ?thesis by (simp add: split_once_str_def)
qed

text \<open>The text of a label names the label again, from every label when it names a repository, and from the labels of
  its own repository otherwise.\<close>

theorem label_text_relative:
  assumes "label_value_ok l" "lv_repo l = None \<longrightarrow> lv_repo me = None"
  shows "label_relative me (label_text l) = l"
proof (cases "lv_repo l")
  case None
  have "strip_prefix (''//'' @ x) ''//'' = Some x" for x by (simp add: strip_prefix_def starts_with_def)
  with None assms show ?thesis
    by (simp add: label_relative_def label_text_def split_pkg_name_def label_value_ok_def)
next
  case (Some r)
  then have r: "starts_with r ''@''" "CHR ''/'' \<notin> set r" using assms(1) by (simp_all add: label_value_ok_def)
  then obtain t where t: "r = CHR ''@'' # t" by (auto simp: starts_with_iff)
  have "strip_prefix (r @ ''//'' @ x) ''//'' = None" "starts_with (r @ ''//'' @ x) ''@''" for x
    by (simp_all add: t strip_prefix_def starts_with_def)
  moreover have "split_once (lv_package l @ '':'' @ lv_name l) (CHR '':'') = Some (lv_package l, lv_name l)"
    using assms(1) by (simp add: label_value_ok_def)
  ultimately show ?thesis using Some split_once_str_first [OF r(2)]
    by (simp add: label_relative_def label_text_def split_pkg_name_def label_value_ok_def del: append_Cons)
qed

lemma label_relative_same:
  "\<not> starts_with n ''//'' \<Longrightarrow> \<not> starts_with n ''@'' \<Longrightarrow> label_relative me n = same_package_label me n"
  by (simp add: label_relative_def same_package_label_def strip_prefix_def)

end
