(* ===== verification/Cargo_Env.thy ===== *)
theory Cargo_Env
  imports Std_Text Std_Coll
begin

section \<open>The environment of a build script\<close>

text \<open>
  \<^verbatim>\<open>crates/razel-loading/src/cargo_support.rs\<close>: the variables a build script sees for its target, the phases of the
  attributes of a build script, and the \<open>CARGO_PKG\<close> variables read from a manifest.
\<close>

subsection \<open>The target\<close>

definition nth_part :: "string list \<Rightarrow> nat \<Rightarrow> string" where
  "nth_part ps i = (if i < length ps then ps ! i else [])"

definition cargo_cfg_env :: "string \<Rightarrow> (string \<times> string) list" where
  "cargo_cfg_env triple =
     (let p = split_char triple (CHR ''-'');
          arch = nth_part p 0; vendor = nth_part p 1; sys = nth_part p 2; abi = nth_part p 3;
          (os, env) =
            (if sys = ''darwin'' then (''macos'', [])
             else if sys = ''linux'' then (''linux'', if abi = [] then ''gnu'' else abi)
             else (sys, abi));
          feature = (if arch = ''x86_64'' then ''fxsr,sse,sse2'' else if arch = ''aarch64'' then ''neon'' else [])
      in [(''CARGO_CFG_TARGET_ARCH'', arch),
          (''CARGO_CFG_TARGET_OS'', os),
          (''CARGO_CFG_TARGET_FAMILY'', ''unix''),
          (''CARGO_CFG_TARGET_VENDOR'', vendor),
          (''CARGO_CFG_TARGET_ENV'', env),
          (''CARGO_CFG_TARGET_POINTER_WIDTH'', ''64''),
          (''CARGO_CFG_TARGET_ENDIAN'', ''little''),
          (''CARGO_CFG_TARGET_FEATURE'', feature),
          (''CARGO_CFG_UNIX'', []),
          (''CARGO_CFG_PANIC'', ''unwind'')])"

subsection \<open>The attributes\<close>

datatype bs_verdict = BsCompileArgv | BsCompile | BsRun | BsIgnored

definition build_script_attr_verdict :: "string \<Rightarrow> bs_verdict option" where
  "build_script_attr_verdict a =
     (if a \<in> {''crate_name'', ''crate_root'', ''crate_features'', ''rustc_flags''} then Some BsCompileArgv
      else if a \<in> {''proc_macro_deps'', ''rustc_env'', ''aliases''} then Some BsCompile
      else if a \<in> {''version'', ''pkg_name'', ''rustc_env_files'', ''build_script_env'', ''data'', ''compile_data'',
                   ''tools'', ''links'', ''rundir'', ''link_deps''} then Some BsRun
      else if a \<in> {''tags'', ''visibility''} then Some BsIgnored
      else None)"

subsection \<open>The manifest\<close>

definition dquote :: char where
  "dquote = CHR 0x22"

definition trim_char_start :: "char \<Rightarrow> string \<Rightarrow> string" where
  "trim_char_start c s = dropWhile (\<lambda>x. x = c) s"

definition trim_char_end :: "char \<Rightarrow> string \<Rightarrow> string" where
  "trim_char_end c s = rev (dropWhile (\<lambda>x. x = c) (rev s))"

definition unquoted :: "string \<Rightarrow> string" where
  "unquoted s = trim_char_end dquote (trim_char_start dquote s)"

definition toml_value :: "string \<Rightarrow> string" where
  "toml_value v =
     (case strip_prefix v ''['' of
        Some inner \<Rightarrow>
          join_with '':'' (filter (\<lambda>s. s \<noteq> [])
            (map (\<lambda>s. unquoted (str_trim s)) (split_char (trim_char_end (CHR '']'') inner) (CHR '',''))))
      | None \<Rightarrow> unquoted v)"

fun toml_package :: "bool \<Rightarrow> (string, string) bmap \<Rightarrow> string list \<Rightarrow> (string, string) bmap" where
  "toml_package in_pkg pkg [] = pkg"
| "toml_package in_pkg pkg (raw # rest) =
     (let line = str_trim raw
      in if starts_with line ''['' then toml_package (line = ''[package]'') pkg rest
         else if \<not> in_pkg \<or> line = [] \<or> starts_with line ''#'' then toml_package in_pkg pkg rest
         else
           (case split_once line (CHR ''='') of
              Some (k, v) \<Rightarrow> toml_package in_pkg (bm_insert (str_trim k) (toml_value (str_trim v)) pkg) rest
            | None \<Rightarrow> toml_package in_pkg pkg rest))"

definition optional_vars :: "(string \<times> string) list" where
  "optional_vars =
     [(''authors'', ''CARGO_PKG_AUTHORS''), (''description'', ''CARGO_PKG_DESCRIPTION''),
      (''homepage'', ''CARGO_PKG_HOMEPAGE''), (''repository'', ''CARGO_PKG_REPOSITORY''),
      (''license'', ''CARGO_PKG_LICENSE''), (''license-file'', ''CARGO_PKG_LICENSE_FILE''),
      (''rust-version'', ''CARGO_PKG_RUST_VERSION''), (''readme'', ''CARGO_PKG_README'')]"

definition pkg_get :: "(string, string) bmap \<Rightarrow> string \<Rightarrow> string" where
  "pkg_get pkg k = (case bm_get pkg k of Some v \<Rightarrow> v | None \<Rightarrow> [])"

definition cargo_pkg_lines :: "(string, string) bmap \<Rightarrow> string list" where
  "cargo_pkg_lines pkg =
     (let version = pkg_get pkg ''version'';
          (core, pre) = (case split_once version (CHR ''-'') of Some (c, p) \<Rightarrow> (c, p) | None \<Rightarrow> (version, []));
          parts = split_char core (CHR ''.'')
      in [''CARGO_PKG_NAME='' @ pkg_get pkg ''name'',
          ''CARGO_PKG_VERSION='' @ version,
          ''CARGO_PKG_VERSION_MAJOR='' @ nth_part parts 0,
          ''CARGO_PKG_VERSION_MINOR='' @ nth_part parts 1,
          ''CARGO_PKG_VERSION_PATCH='' @ nth_part parts 2,
          ''CARGO_PKG_VERSION_PRE='' @ pre] @
         List.map_filter (\<lambda>(k, var). map_option (\<lambda>v. var @ ''='' @ v) (bm_get pkg k)) optional_vars)"

definition cargo_pkg_env_content :: "string \<Rightarrow> string" where
  "cargo_pkg_env_content toml =
     join_with [CHR 0x0A] (cargo_pkg_lines (toml_package False [] (str_lines toml))) @ [CHR 0x0A]"

subsection \<open>What the manifest gives\<close>

text \<open>The version of a manifest without a pre-release comes apart at its dots and goes together again.\<close>

lemma version_parts:
  assumes "bm_get pkg ''version'' = Some (a @ ''.'' @ b @ ''.'' @ c)"
    "\<forall>x \<in> set [a, b, c]. CHR ''.'' \<notin> set x \<and> CHR ''-'' \<notin> set x"
  shows "take 6 (cargo_pkg_lines pkg) =
    [''CARGO_PKG_NAME='' @ pkg_get pkg ''name'', ''CARGO_PKG_VERSION='' @ a @ ''.'' @ b @ ''.'' @ c,
     ''CARGO_PKG_VERSION_MAJOR='' @ a, ''CARGO_PKG_VERSION_MINOR='' @ b, ''CARGO_PKG_VERSION_PATCH='' @ c,
     ''CARGO_PKG_VERSION_PRE='']"
proof -
  have v: "pkg_get pkg ''version'' = a @ ''.'' @ b @ ''.'' @ c" using assms(1) by (simp add: pkg_get_def)
  have "split_once (a @ ''.'' @ b @ ''.'' @ c) (CHR ''-'') = None" using assms(2) by (simp add: split_once_None)
  moreover have "split_char (a @ ''.'' @ b @ ''.'' @ c) (CHR ''.'') = [a, b, c]"
    using assms(2) by (simp add: split_char_append split_char_no_sep)
  ultimately show ?thesis unfolding cargo_pkg_lines_def v Let_def by (simp add: nth_part_def)
qed

text \<open>A manifest is read line by line: what its first lines give does not depend on the rest.\<close>

lemma toml_package_append:
  "\<exists>b. toml_package in_pkg pkg (xs @ ys) = toml_package b (toml_package in_pkg pkg xs) ys"
proof (induction in_pkg pkg xs rule: toml_package.induct)
  case (1 in_pkg pkg)
  show ?case by auto
next
  case (2 in_pkg pkg raw rest)
  then show ?case by (auto simp: Let_def split: option.split)
qed

text \<open>A comment behind a value becomes part of it.\<close>

definition commented_line :: string where
  "commented_line = ''version = '' @ [CHR 0x22] @ ''1.0.0'' @ [CHR 0x22] @ '' # now''"

lemma comment_is_kept:
  "bm_get (toml_package True [] [commented_line]) ''version'' = Some (''1.0.0'' @ [CHR 0x22] @ '' # now'')"
  by code_simp

end
