(* ===== verification/Rpc.thy ===== *)
theory Rpc
  imports Wire_Types Scope Analysis
begin

section \<open>The daemon's protocol\<close>

text \<open>
  \<^verbatim>\<open>crates/razel-daemon/src/rpc.rs\<close>: frames, envelopes, the routing of requests, the progress stream of a build, and the
  two subscriptions.  A panic of a connection's thread is \<open>None\<close> or \<open>CoPanic\<close>; the reply of the build actor, the file
  system and the analysis of a package are fields of the environment.
\<close>

subsection \<open>Frames\<close>

definition write_frame :: "byte list \<Rightarrow> byte list option" where
  "write_frame bytes = (if length bytes < 2 ^ 32 then Some (be_bytes 4 (length bytes) @ bytes) else None)"

definition read_frame :: "byte list \<Rightarrow> (byte list \<times> byte list) option" where
  "read_frame stream = Option.bind (take_bytes 4 stream) (\<lambda>(len, rest). take_bytes (be_val len) rest)"

subsection \<open>Envelopes\<close>

definition rpc_ok :: "cbor \<Rightarrow> cbor" where
  "rpc_ok payload = CMap [(1, CBool True), (2, payload), (3, CNull)]"

definition rpc_err :: "string \<Rightarrow> cbor" where
  "rpc_err msg = CMap [(1, CBool False), (2, CNull), (3, text_cbor msg)]"

definition rpc_payload :: "cbor \<Rightarrow> (string + cbor) option" where
  "rpc_payload resp =
     Option.bind (cbor_get resp 1) (\<lambda>flag.
       if flag = CBool True then map_option Inr (cbor_get resp 2)
       else map_option (\<lambda>e. Inl (case as_text e of Some s \<Rightarrow> s | None \<Rightarrow> ''unknown daemon error'')) (cbor_get resp 3))"

definition rpc_request :: "string \<Rightarrow> cbor \<Rightarrow> cbor" where
  "rpc_request method args = CMap [(1, text_cbor method), (2, args)]"

definition build_args :: "string list \<Rightarrow> string \<Rightarrow> cbor" where
  "build_args args cwd = CMap [(1, list_cbor text_cbor args), (2, text_cbor cwd)]"

definition req_version :: cbor where
  "req_version = rpc_request ''version'' CNull"

definition req_build :: "string list \<Rightarrow> string \<Rightarrow> cbor" where
  "req_build args cwd = rpc_request ''build'' (build_args args cwd)"

definition req_build_stream :: "string list \<Rightarrow> string \<Rightarrow> cbor" where
  "req_build_stream args cwd = rpc_request ''build.stream'' (build_args args cwd)"

definition req_clean :: "bool \<Rightarrow> cbor" where
  "req_clean expunge = rpc_request ''clean'' (CBool expunge)"

definition req_shutdown :: cbor where
  "req_shutdown = rpc_request ''shutdown'' CNull"

definition req_affected :: "string list \<Rightarrow> cbor" where
  "req_affected files = rpc_request ''affected'' (list_cbor text_cbor files)"

definition req_subscribe :: cbor where
  "req_subscribe = rpc_request ''build.subscribe'' CNull"

definition req_hello :: "hello \<Rightarrow> cbor" where
  "req_hello h = rpc_request ''hello'' (hello_cbor h)"

definition req_run :: "string \<Rightarrow> string list \<Rightarrow> cbor" where
  "req_run target args = rpc_request ''run'' (CMap [(1, text_cbor target), (2, list_cbor text_cbor args)])"

definition req_invocation_events :: cbor where
  "req_invocation_events = rpc_request ''invocation.events'' CNull"

subsection \<open>Unary requests\<close>

record rpc_env =
  re_workspace :: string
  re_version :: string
  re_build_id :: string
  re_canon :: "string \<Rightarrow> string option"
  re_file :: "string \<Rightarrow> (string + string) option"
  re_hash :: "byte list \<Rightarrow> byte list"
  re_analyze :: "string \<Rightarrow> string + analyzed_target list"
  re_build :: "string list \<Rightarrow> string \<Rightarrow> string + build_result"

datatype rpc_effect =
    EffInvalidate
  | EffInvalidateExecution
  | EffBuild "string list" string
  | EffRun nat string

definition protocol_rev :: int where
  "protocol_rev = 1"

definition inv_id :: "nat \<Rightarrow> string" where
  "inv_id n = ''inv-'' @ dec n"

definition long_dash :: string where
  "long_dash = [CHR 0xE2, CHR 0x80, CHR 0x94]"

definition text_items :: "cbor list \<Rightarrow> string list" where
  "text_items items = List.map_filter as_text items"

definition do_hello :: "rpc_env \<Rightarrow> cbor \<Rightarrow> (string + version_info) option" where
  "do_hello v args =
     map_option (\<lambda>h.
       if he_protocol h \<noteq> protocol_rev then
         Inl (''wire protocol mismatch: client speaks '' @ int_dec (he_protocol h) @ '', daemon speaks '' @
           int_dec protocol_rev @ '' '' @ long_dash @ '' restart the older side (client build '' @ he_build_version h @
           '', daemon build '' @ re_version v @ '')'')
       else
         (let served = (case re_canon v (re_workspace v) of Some p \<Rightarrow> p | None \<Rightarrow> re_workspace v);
              asked = (case re_canon v (he_workspace_root h) of Some p \<Rightarrow> p | None \<Rightarrow> he_workspace_root h)
          in if served \<noteq> asked then
               Inl (''this daemon serves workspace '' @ served @ '', hello named '' @ asked)
             else Inr (re_version v @ ''+'' @ re_build_id v, protocol_rev)))
       (cbor_hello args)"

definition cwd_of :: "rpc_env \<Rightarrow> cbor \<Rightarrow> string" where
  "cwd_of v c = (case as_text c of Some s \<Rightarrow> s | None \<Rightarrow> re_workspace v)"

definition do_build :: "rpc_env \<Rightarrow> cbor \<Rightarrow> ((string + build_result) \<times> rpc_effect list) option" where
  "do_build v args =
     Option.bind (cbor_get args 1) (\<lambda>items.
       case as_array items of
         None \<Rightarrow> Some (Inl ''build: missing args'', [])
       | Some a \<Rightarrow>
           map_option (\<lambda>c. (re_build v (text_items a) (cwd_of v c), [EffBuild (text_items a) (cwd_of v c)]))
             (cbor_get args 2))"

definition do_run :: "nat \<Rightarrow> cbor \<Rightarrow> ((string + string) \<times> rpc_effect list) option" where
  "do_run runs args =
     map_option (\<lambda>t.
       case as_text t of
         None \<Rightarrow> (Inl ''run: missing target'', [])
       | Some target \<Rightarrow> (Inr (inv_id (runs + 1)), [EffRun (runs + 1) target]))
       (cbor_get args 1)"

fun wire_kind :: "target_kind \<Rightarrow> target_class" where
  "wire_kind KLibrary = TLibrary" | "wire_kind KBinary = TBinary" | "wire_kind KTest = TTest"

definition wire_ref :: "affected_target \<Rightarrow> target_ref" where
  "wire_ref a = (af_label a, wire_kind (af_kind a))"

definition impact :: "rpc_env \<Rightarrow> string list \<Rightarrow> string + impact_set" where
  "impact v files =
     (case find (\<lambda>p. re_file v p \<noteq> None) (map (path_push (re_workspace v)) [''BUILD'', ''BUILD.bazel'']) of
        None \<Rightarrow> Inl (''no BUILD in '' @ re_workspace v)
      | Some p \<Rightarrow>
          res_bind (case re_file v p of Some r \<Rightarrow> r | None \<Rightarrow> Inl []) (\<lambda>src.
          res_bind (affected (re_hash v) (re_analyze v) src [] files) (\<lambda>a.
            Inr \<lparr>im_sources = af_sources a, im_targets = map wire_ref (af_targets a), im_tests = map wire_ref (af_tests a)\<rparr>)))"

definition do_affected :: "rpc_env \<Rightarrow> cbor \<Rightarrow> string + impact_set" where
  "do_affected v args =
     (case as_array args of
        None \<Rightarrow> Inl ''affected: expected a files array''
      | Some items \<Rightarrow> impact v (text_items items))"

definition envelope :: "('a \<Rightarrow> cbor) \<Rightarrow> string + 'a \<Rightarrow> cbor" where
  "envelope f r = (case r of Inr x \<Rightarrow> rpc_ok (f x) | Inl e \<Rightarrow> rpc_err e)"

definition dispatch_rpc :: "rpc_env \<Rightarrow> nat \<Rightarrow> cbor \<Rightarrow> (cbor \<times> rpc_effect list) option" where
  "dispatch_rpc v runs req =
     Option.bind (cbor_get req 1) (\<lambda>m.
       case as_text m of
         None \<Rightarrow> Some (rpc_err ''malformed request: missing method'', [])
       | Some method \<Rightarrow>
           Option.bind (cbor_get req 2) (\<lambda>args.
             if method = ''version'' then Some (rpc_ok (version_cbor (re_version v, protocol_rev)), [])
             else if method = ''hello'' then map_option (\<lambda>r. (envelope version_cbor r, [])) (do_hello v args)
             else if method = ''build'' then
               map_option (\<lambda>(r, es). (envelope build_result_cbor r, es)) (do_build v args)
             else if method = ''run'' then map_option (\<lambda>(r, es). (envelope started_cbor r, es)) (do_run runs args)
             else if method = ''affected'' then Some (envelope impact_cbor (do_affected v args), [])
             else if method = ''clean'' then
               (case args of
                  CBool expunge \<Rightarrow>
                    Some (rpc_ok (CBool True), [if expunge then EffInvalidate else EffInvalidateExecution])
                | _ \<Rightarrow> None)
             else Some (rpc_err (''unknown method '' @ debug_str method), [])))"

subsection \<open>A connection\<close>

text \<open>What becomes of a connection: a thread that panics, an error frame of the accept loop, one reply, a stream, or the
  end of the process.\<close>

datatype conn_outcome =
    CoPanic
  | CoError string
  | CoReply "byte list" "rpc_effect list"
  | CoStreamState
  | CoStreamEvents
  | CoStreamBuild cbor
  | CoShutdown

definition reply_with :: "cbor \<Rightarrow> rpc_effect list \<Rightarrow> conn_outcome" where
  "reply_with resp es =
     (case write_frame (enc resp) of Some f \<Rightarrow> CoReply f es | None \<Rightarrow> CoError ''frame too large'')"

definition handle_conn :: "rpc_env \<Rightarrow> nat \<Rightarrow> byte list \<Rightarrow> conn_outcome" where
  "handle_conn v runs inbound =
     (case read_frame inbound of
        None \<Rightarrow> CoError ''failed to fill whole buffer''
      | Some (bytes, _) \<Rightarrow>
          (case Option.bind (decode bytes) (\<lambda>req. map_option (Pair req) (cbor_get req 1)) of
             None \<Rightarrow> CoPanic
           | Some (req, m) \<Rightarrow>
               (case as_text m of
                  None \<Rightarrow> reply_with (rpc_err ''malformed request: missing method'') []
                | Some method \<Rightarrow>
                    if method = ''build.subscribe'' then CoStreamState
                    else if method = ''invocation.events'' then CoStreamEvents
                    else if method = ''build.stream'' then CoStreamBuild req
                    else if method = ''shutdown'' then CoShutdown
                    else
                      (case dispatch_rpc v runs req of
                         None \<Rightarrow> CoPanic
                       | Some (resp, es) \<Rightarrow> reply_with resp es))))"

text \<open>A client's call: the frame it writes, the connection at the daemon, and the response it reads.  \<open>None\<close> is an I/O error
  or a panic of either side.\<close>

definition rpc_call :: "rpc_env \<Rightarrow> nat \<Rightarrow> cbor \<Rightarrow> (cbor \<times> rpc_effect list) option" where
  "rpc_call v runs req =
     Option.bind (write_frame (enc req)) (\<lambda>f.
       case handle_conn v runs f of
         CoReply r es \<Rightarrow> Option.bind (read_frame r) (\<lambda>(bytes, _). map_option (\<lambda>resp. (resp, es)) (decode bytes))
       | _ \<Rightarrow> None)"

end
