(* ===== verification/Rpc_Streams.thy ===== *)
theory Rpc_Streams
  imports Rpc
begin

section \<open>The daemon's streams\<close>

text \<open>
  The three streams of \<^verbatim>\<open>crates/razel-daemon/src/rpc.rs\<close>: the progress of one build, the log of the invocations, and the
  state of the build graph.  The channel of a build is the list of the lines it delivers; the log and the state are step
  relations over the runs, the commits of the actor and the subscribers.
\<close>

subsection \<open>The progress of a build\<close>

definition unit_sep :: char where
  "unit_sep = CHR 0x1F"

definition parse_i64 :: "string \<Rightarrow> int option" where
  "parse_i64 s =
     (case s of
        c # ds \<Rightarrow>
          if c = CHR ''-'' then
            (if ds = [] then None else map_option (\<lambda>n. - int n) (parse_digits (2 ^ 63 + 1) 0 ds))
          else map_option int (parse_uint (2 ^ 63) s)
      | [] \<Rightarrow> None)"

definition build_name :: string where
  "build_name = ''build''"

record build_stream =
  bt_seq :: int
  bt_total :: int
  bt_done :: int
  bt_running :: "string list"

definition stream_new :: build_stream where
  "stream_new = \<lparr>bt_seq = 0, bt_total = 0, bt_done = 0, bt_running = []\<rparr>"

definition progress_event :: "string \<Rightarrow> string \<Rightarrow> build_stream \<Rightarrow> invocation_event" where
  "progress_event phase detail s =
     \<lparr>ev_invocation = build_name, ev_seq = bt_seq s,
      ev_progress = Some \<lparr>pr_invocation = build_name, pr_phase = phase, pr_done = bt_done s, pr_total = bt_total s,
        pr_detail = Some detail\<rparr>,
      ev_result = None\<rparr>"

definition stream_tag :: "string \<Rightarrow> build_stream \<Rightarrow> build_stream" where
  "stream_tag line s =
     (case split_once line unit_sep of
        None \<Rightarrow> s
      | Some (tag, rest) \<Rightarrow>
          if tag = ''T'' then
            s\<lparr>bt_total := (case parse_i64 rest of Some n \<Rightarrow> n | None \<Rightarrow> 0), bt_done := 0, bt_running := []\<rparr>
          else if tag = ''S'' then s\<lparr>bt_running := bt_running s @ [rest]\<rparr>
          else if tag = ''F'' then s\<lparr>bt_done := bt_done s + 1, bt_running := remove1 rest (bt_running s)\<rparr>
          else s)"

definition stream_line :: "string \<Rightarrow> build_stream \<Rightarrow> invocation_event \<times> build_stream" where
  "stream_line line s =
     (let s1 = s\<lparr>bt_seq := bt_seq s + 1\<rparr>
      in case split_once line unit_sep of
           Some (tag, rest) \<Rightarrow>
             if tag = ''L'' then
               (let (desc, output) = (case split_once rest unit_sep of Some p \<Rightarrow> p | None \<Rightarrow> ([], rest))
                in (progress_event ''log'' (''From '' @ desc @ '':'' @ [CHR 0x0A] @ output) s1, s1))
             else
               (let s2 = stream_tag line s1
                in (progress_event ''execute'' (join_with [CHR 0x0A] (bt_running s2)) s2, s2))
         | None \<Rightarrow> (progress_event ''execute'' (join_with [CHR 0x0A] (bt_running s1)) s1, s1))"

text \<open>\<open>client\<close> tells of each frame, by the number of its event, whether its write succeeds.  The last component is whether
  the build was cancelled because a write failed.\<close>

definition send_event :: "(int \<Rightarrow> bool) \<Rightarrow> invocation_event \<Rightarrow> byte list option" where
  "send_event client ev =
     Option.bind (write_frame (enc (rpc_ok (event_cbor ev)))) (\<lambda>f. if client (ev_seq ev) then Some f else None)"

fun stream_lines :: "(int \<Rightarrow> bool) \<Rightarrow> string list \<Rightarrow> build_stream \<Rightarrow> byte list list \<times> build_stream \<times> bool" where
  "stream_lines client [] s = ([], s, False)"
| "stream_lines client (line # lines) s =
     (let (ev, s1) = stream_line line s
      in case send_event client ev of
           None \<Rightarrow> ([], s1, True)
         | Some f \<Rightarrow> (case stream_lines client lines s1 of (fs, s2, gone) \<Rightarrow> (f # fs, s2, gone)))"

definition terminal_event :: "string + build_result \<Rightarrow> build_stream \<Rightarrow> invocation_event" where
  "terminal_event r s =
     \<lparr>ev_invocation = build_name, ev_seq = bt_seq s + 1, ev_progress = None,
      ev_result = Some (case r of
        Inr br \<Rightarrow> br
      | Inl e \<Rightarrow> \<lparr>br_target = [], br_status = StFailed, br_recomputes = 0, br_outputs = [], br_message = Some e\<rparr>)\<rparr>"

text \<open>\<open>result\<close> is what the actor's channel delivers, \<open>None\<close> when the actor died.\<close>

definition stream_build ::
    "(int \<Rightarrow> bool) \<Rightarrow> string list \<Rightarrow> (string + build_result) option \<Rightarrow> byte list list \<times> bool" where
  "stream_build client lines result =
     (case stream_lines client lines stream_new of
        (fs, s, gone) \<Rightarrow>
          if gone then (fs, True)
          else
            (case result of
               None \<Rightarrow> (fs, False)
             | Some r \<Rightarrow>
                 (case send_event client (terminal_event r s) of
                    None \<Rightarrow> (fs, False)
                  | Some f \<Rightarrow> (fs @ [f], False))))"

definition stream_request :: "rpc_env \<Rightarrow> cbor \<Rightarrow> (string list \<times> string) option" where
  "stream_request v req =
     Option.bind (cbor_get req 2) (\<lambda>cargs.
     Option.bind (cbor_get cargs 1) (\<lambda>items.
     map_option (\<lambda>c. ((case as_array items of Some a \<Rightarrow> text_items a | None \<Rightarrow> []), cwd_of v c)) (cbor_get cargs 2)))"

subsection \<open>The log of the invocations\<close>

datatype run_state = RunLoad string | RunBuild string | RunDone string build_result

definition run_event :: "nat \<Rightarrow> int \<Rightarrow> progress option \<Rightarrow> build_result option \<Rightarrow> invocation_event" where
  "run_event n i p r = \<lparr>ev_invocation = inv_id n, ev_seq = i, ev_progress = p, ev_result = r\<rparr>"

definition load_event :: "nat \<Rightarrow> string \<Rightarrow> invocation_event" where
  "load_event n target =
     run_event n 1 (Some \<lparr>pr_invocation = inv_id n, pr_phase = ''load'', pr_done = 0, pr_total = 0, pr_detail = Some target\<rparr>) None"

definition run_result :: "string \<Rightarrow> string + build_result \<Rightarrow> build_result" where
  "run_result target r =
     (case r of
        Inr br \<Rightarrow> br
      | Inl e \<Rightarrow> \<lparr>br_target = target, br_status = StFailed, br_recomputes = 0, br_outputs = [], br_message = Some e\<rparr>)"

definition result_event :: "nat \<Rightarrow> build_result \<Rightarrow> invocation_event" where
  "result_event n br = run_event n 2 None (Some br)"

record log_sub =
  ls_idx :: nat
  ls_batch :: "invocation_event list"
  ls_sent :: "invocation_event list"

definition log_sub_new :: log_sub where
  "log_sub_new = \<lparr>ls_idx = 0, ls_batch = [], ls_sent = []\<rparr>"

record log_sys =
  lg_count :: nat
  lg_events :: "invocation_event list"
  lg_runs :: "nat \<Rightarrow> run_state option"
  lg_subs :: "nat \<Rightarrow> log_sub option"

definition log_new :: log_sys where
  "log_new = \<lparr>lg_count = 0, lg_events = [], lg_runs = Map.empty, lg_subs = Map.empty\<rparr>"

definition log_emit :: "invocation_event \<Rightarrow> log_sys \<Rightarrow> log_sys" where
  "log_emit ev s = s\<lparr>lg_events := lg_events s @ [ev]\<rparr>"

inductive log_step :: "log_sys \<Rightarrow> log_sys \<Rightarrow> bool" where
  run: "log_step s (s\<lparr>lg_count := lg_count s + 1, lg_runs := (lg_runs s)(lg_count s + 1 \<mapsto> RunLoad target)\<rparr>)"
| load: "lg_runs s n = Some (RunLoad target) \<Longrightarrow>
    log_step s (log_emit (load_event n target) (s\<lparr>lg_runs := (lg_runs s)(n \<mapsto> RunBuild target)\<rparr>))"
| result: "lg_runs s n = Some (RunBuild target) \<Longrightarrow> br = run_result target r \<Longrightarrow>
    log_step s (log_emit (result_event n br) (s\<lparr>lg_runs := (lg_runs s)(n \<mapsto> RunDone target br)\<rparr>))"
| subscribe: "lg_subs s c = None \<Longrightarrow> log_step s (s\<lparr>lg_subs := (lg_subs s)(c \<mapsto> log_sub_new)\<rparr>)"
| take_batch: "lg_subs s c = Some u \<Longrightarrow> ls_batch u = [] \<Longrightarrow> length (lg_events s) \<noteq> ls_idx u \<Longrightarrow>
    log_step s (s\<lparr>lg_subs := (lg_subs s)(c \<mapsto>
      u\<lparr>ls_batch := drop (ls_idx u) (lg_events s), ls_idx := length (lg_events s)\<rparr>)\<rparr>)"
| write_event: "lg_subs s c = Some u \<Longrightarrow> ls_batch u = ev # evs \<Longrightarrow>
    log_step s (s\<lparr>lg_subs := (lg_subs s)(c \<mapsto> u\<lparr>ls_batch := evs, ls_sent := ls_sent u @ [ev]\<rparr>)\<rparr>)"
| client_gone: "lg_subs s c = Some u \<Longrightarrow> ls_batch u \<noteq> [] \<Longrightarrow> log_step s (s\<lparr>lg_subs := (lg_subs s)(c := None)\<rparr>)"

definition log_reachable :: "log_sys \<Rightarrow> bool" where
  "log_reachable s \<longleftrightarrow> log_step\<^sup>*\<^sup>* log_new s"

subsection \<open>The state of the build graph\<close>

text \<open>One subscriber.  The actor commits a result under the lock, which the subscriber takes to copy the state.\<close>

record atom_sys =
  at_state :: build_state
  at_last :: int
  at_snapshot :: "build_state option"
  at_sent :: "build_state list"

definition atom_new :: atom_sys where
  "atom_new =
     \<lparr>at_state = \<lparr>bs_revision = 0, bs_targets = []\<rparr>, at_last = - (2 ^ 63), at_snapshot = None, at_sent = []\<rparr>"

inductive atom_step :: "atom_sys \<Rightarrow> atom_sys \<Rightarrow> bool" where
  commit: "atom_step s (s\<lparr>at_state := commit_snapshot br (at_state s)\<rparr>)"
| take_state: "at_snapshot s = None \<Longrightarrow> bs_revision (at_state s) \<noteq> at_last s \<Longrightarrow>
    atom_step s (s\<lparr>at_snapshot := Some (at_state s), at_last := bs_revision (at_state s)\<rparr>)"
| write_state: "at_snapshot s = Some b \<Longrightarrow> atom_step s (s\<lparr>at_snapshot := None, at_sent := at_sent s @ [b]\<rparr>)"

definition atom_reachable :: "atom_sys \<Rightarrow> bool" where
  "atom_reachable s \<longleftrightarrow> atom_step\<^sup>*\<^sup>* atom_new s"

inductive_cases atom_stepE: "atom_step s s'"
inductive_cases log_stepE: "log_step s s'"

section \<open>Properties of the daemon's streams\<close>

text \<open>
  The events of a build are those of its lines, in order and numbered from one, and its stream is cut only where the client
  is gone; a subscriber of the log is behind it but never beside it; a subscriber of the state sees increasing revisions.
\<close>

subsection \<open>The progress of a build\<close>

definition stream_after :: "string list \<Rightarrow> build_stream" where
  "stream_after lines = fold (\<lambda>l s. snd (stream_line l s)) lines stream_new"

fun events_from :: "string list \<Rightarrow> build_stream \<Rightarrow> invocation_event list" where
  "events_from [] s = []"
| "events_from (l # ls) s = fst (stream_line l s) # events_from ls (snd (stream_line l s))"

lemma length_events [simp]: "length (events_from ls s) = length ls"
  by (induction ls arbitrary: s) simp_all

lemma events_nth: "k < length ls \<Longrightarrow>
   events_from ls s ! k = fst (stream_line (ls ! k) (fold (\<lambda>l s. snd (stream_line l s)) (take k ls) s))"
proof (induction ls arbitrary: s k)
  case (Cons l ls)
  then show ?case by (cases k) simp_all
qed simp

lemma stream_lines_spec:
  "stream_lines client ls s = (fs, t, gone) \<Longrightarrow>
     fs = map the (takeWhile (\<lambda>f. f \<noteq> None) (map (send_event client) (events_from ls s))) \<and>
     (gone \<longleftrightarrow> (\<exists>ev \<in> set (events_from ls s). send_event client ev = None)) \<and>
     (\<not> gone \<longrightarrow> t = fold (\<lambda>l s. snd (stream_line l s)) ls s)"
proof (induction ls arbitrary: s fs t gone)
  case (Cons l ls)
  obtain ev s1 where l: "stream_line l s = (ev, s1)" by (cases "stream_line l s")
  obtain fs' t' gone' where r: "stream_lines client ls s1 = (fs', t', gone')" by (cases "stream_lines client ls s1")
  show ?case using Cons.prems Cons.IH [OF r] by (cases "send_event client ev") (auto simp: l r)
qed simp

subsection \<open>Counting\<close>

definition line_tag :: "string \<Rightarrow> string" where
  "line_tag l = (case split_once l unit_sep of Some (t, _) \<Rightarrow> t | None \<Rightarrow> [])"

definition line_rest :: "string \<Rightarrow> string" where
  "line_rest l = (case split_once l unit_sep of Some (_, r) \<Rightarrow> r | None \<Rightarrow> [])"

definition last_pass :: "string list \<Rightarrow> string list" where
  "last_pass ls = rev (takeWhile (\<lambda>l. line_tag l \<noteq> ''T'') (rev ls))"

definition finished_lines :: "string list \<Rightarrow> string list" where
  "finished_lines ls = map line_rest (filter (\<lambda>l. line_tag l = ''F'') (last_pass ls))"

definition started_lines :: "string list \<Rightarrow> string list" where
  "started_lines ls = map line_rest (filter (\<lambda>l. line_tag l = ''S'') (last_pass ls))"

lemma last_pass_snoc: "last_pass (ls @ [l]) = (if line_tag l = ''T'' then [] else last_pass ls @ [l])"
  by (simp add: last_pass_def)

lemma stream_line_state:
  "bt_seq (snd (stream_line l s)) = bt_seq s + 1"
  "bt_done (snd (stream_line l s)) =
     (if line_tag l = ''T'' then 0 else if line_tag l = ''F'' then bt_done s + 1 else bt_done s)"
  "bt_running (snd (stream_line l s)) =
     (if line_tag l = ''T'' then [] else if line_tag l = ''S'' then bt_running s @ [line_rest l]
      else if line_tag l = ''F'' then remove1 (line_rest l) (bt_running s) else bt_running s)"
  by (auto simp: stream_line_def stream_tag_def line_tag_def line_rest_def Let_def split: option.split prod.split)

lemma stream_line_event:
  "ev_seq (fst (stream_line l s)) = bt_seq s + 1"
  "ev_result (fst (stream_line l s)) = None"
  "\<exists>p. ev_progress (fst (stream_line l s)) = Some p \<and> pr_done p = bt_done (snd (stream_line l s)) \<and>
     (line_tag l \<noteq> ''L'' \<longrightarrow> pr_detail p = Some (join_with [CHR 0x0A] (bt_running (snd (stream_line l s)))))"
  by (auto simp: stream_line_def stream_tag_def line_tag_def progress_event_def Let_def split: option.split prod.split)

lemma stream_after_snoc: "stream_after (ls @ [l]) = snd (stream_line l (stream_after ls))"
  by (simp add: stream_after_def)

lemma seq_after: "bt_seq (stream_after ls) = int (length ls)"
  by (induction ls rule: rev_induct) (simp_all add: stream_after_snoc stream_line_state, simp add: stream_after_def stream_new_def)

lemma done_after: "bt_done (stream_after ls) = int (length (finished_lines ls))"
proof (induction ls rule: rev_induct)
  case Nil
  show ?case by (simp add: stream_after_def stream_new_def finished_lines_def last_pass_def)
next
  case (snoc l ls)
  then show ?case by (simp add: stream_after_snoc stream_line_state finished_lines_def last_pass_snoc)
qed

text \<open>Every finish of a pass belongs to a start before it.\<close>

definition paired :: "string list \<Rightarrow> bool" where
  "paired ls \<longleftrightarrow> (\<forall>k \<le> length ls. mset (finished_lines (take k ls)) \<subseteq># mset (started_lines (take k ls)))"

lemma paired_snoc: "paired (ls @ [l]) \<Longrightarrow> paired ls \<and> mset (finished_lines (ls @ [l])) \<subseteq># mset (started_lines (ls @ [l]))"
proof -
  assume p: "paired (ls @ [l])"
  have "mset (finished_lines (take k ls)) \<subseteq># mset (started_lines (take k ls))" if "k \<le> length ls" for k
    using p that unfolding paired_def by (auto dest: spec [of _ k])
  moreover have "mset (finished_lines (ls @ [l])) \<subseteq># mset (started_lines (ls @ [l]))"
    using p unfolding paired_def by (auto dest: spec [of _ "Suc (length ls)"])
  ultimately show ?thesis by (simp add: paired_def)
qed

lemma diff_add_mset: "B \<subseteq># A \<Longrightarrow> add_mset x (A - B) = add_mset x A - B"
  by (auto simp: multiset_eq_iff subseteq_mset_def Suc_diff_le)

lemma running_after:
  "paired ls \<Longrightarrow> mset (bt_running (stream_after ls)) = mset (started_lines ls) - mset (finished_lines ls)"
proof (induction ls rule: rev_induct)
  case Nil
  show ?case by (simp add: stream_after_def stream_new_def finished_lines_def started_lines_def last_pass_def)
next
  case (snoc l ls)
  from paired_snoc [OF snoc.prems] snoc.IH
  have ih: "mset (bt_running (stream_after ls)) = mset (started_lines ls) - mset (finished_lines ls)"
    and sub: "mset (finished_lines ls) \<subseteq># mset (started_lines ls)"
    by (auto simp: paired_def dest: spec [of _ "length ls"])
  show ?case
    using ih sub
    by (auto simp: stream_after_snoc stream_line_state finished_lines_def started_lines_def last_pass_snoc diff_add_mset)
qed

definition build_events :: "string list \<Rightarrow> (string + build_result) option \<Rightarrow> invocation_event list" where
  "build_events lines result =
     events_from lines stream_new @ (case result of None \<Rightarrow> [] | Some r \<Rightarrow> [terminal_event r (stream_after lines)])"

lemma line_event:
  assumes "k < length lines"
  shows "build_events lines result ! k = fst (stream_line (lines ! k) (stream_after (take k lines)))"
    and "stream_after (take (Suc k) lines) = snd (stream_line (lines ! k) (stream_after (take k lines)))"
  using assms
  by (simp_all add: build_events_def nth_append events_nth stream_after_def take_Suc_conv_app_nth)

lemma build_seqs: "i < length (build_events lines result) \<Longrightarrow> ev_seq (build_events lines result ! i) = int i + 1"
proof (cases "i < length lines")
  case True
  then show ?thesis by (simp add: line_event stream_line_event seq_after)
next
  case False
  assume "i < length (build_events lines result)"
  with False have "i = length lines" "result \<noteq> None" by (auto simp: build_events_def split: option.splits)
  then show ?thesis by (auto simp: build_events_def nth_append terminal_event_def seq_after)
qed

text \<open>the frames of a build are its events up to the first that the client does not take; the events are numbered from
  one, the last one alone carries the result; the progress of a line counts the actions finished since the last total, and the
  actions it shows are those started and not finished.  The build is cancelled exactly when a progress frame cannot be
  written.\<close>

theorem build_stream_exact:
  "stream_build client lines result =
     (map the (takeWhile (\<lambda>f. f \<noteq> None) (map (send_event client) (build_events lines result))),
      \<exists>ev \<in> set (events_from lines stream_new). send_event client ev = None) \<and>
   (\<forall>i < length (build_events lines result). ev_seq (build_events lines result ! i) = int i + 1) \<and>
   (\<forall>k < length lines. \<exists>p. ev_progress (build_events lines result ! k) = Some p \<and>
      ev_result (build_events lines result ! k) = None \<and>
      pr_done p = int (length (finished_lines (take (Suc k) lines))) \<and>
      (paired (take (Suc k) lines) \<and> line_tag (lines ! k) \<noteq> ''L'' \<longrightarrow>
        (\<exists>shown. pr_detail p = Some (join_with [CHR 0x0A] shown) \<and>
           mset shown = mset (started_lines (take (Suc k) lines)) - mset (finished_lines (take (Suc k) lines)))))"
proof (intro conjI allI impI)
  obtain fs t gone where l: "stream_lines client lines stream_new = (fs, t, gone)"
    by (cases "stream_lines client lines stream_new")
  note spec = stream_lines_spec [OF l]
  show "stream_build client lines result =
     (map the (takeWhile (\<lambda>f. f \<noteq> None) (map (send_event client) (build_events lines result))),
      \<exists>ev \<in> set (events_from lines stream_new). send_event client ev = None)"
  proof (cases gone)
    case True
    with spec have "\<exists>f \<in> set (map (send_event client) (events_from lines stream_new)). f = None"
      by (auto simp: image_iff intro: sym)
    with True spec show ?thesis by (auto simp: stream_build_def l build_events_def takeWhile_append1)
  next
    case False
    let ?sent = "map (send_event client) (events_from lines stream_new)"
    have "f \<noteq> None" if "f \<in> set ?sent" for f
      using that False spec by auto
    then have tw: "\<And>ys. takeWhile (\<lambda>f. f \<noteq> None) (?sent @ ys) = ?sent @ takeWhile (\<lambda>f. f \<noteq> None) ys"
      by (intro takeWhile_append2) blast
    from tw [of "[]"] have tw0: "takeWhile (\<lambda>f. f \<noteq> None) ?sent = ?sent" by (simp only: append_Nil2 takeWhile.simps)
    from spec have fs: "fs = map the ?sent" unfolding tw0 by blast
    have t: "t = stream_after lines" using False spec by (simp add: stream_after_def)
    have gone: "(\<exists>ev \<in> set (events_from lines stream_new). send_event client ev = None) \<longleftrightarrow> False"
      using False spec by simp
    show ?thesis
    proof (cases result)
      case None
      then have ev: "map (send_event client) (build_events lines result) = ?sent" by (simp add: build_events_def)
      show ?thesis unfolding ev tw0 gone using False None by (simp add: stream_build_def l fs)
    next
      case (Some r)
      then have ev: "map (send_event client) (build_events lines result) = ?sent @ [send_event client (terminal_event r t)]"
        by (simp add: build_events_def t)
      show ?thesis unfolding ev tw gone using False Some
        by (cases "send_event client (terminal_event r t)") (simp_all add: stream_build_def l fs)
    qed
  qed
  show "ev_seq (build_events lines result ! i) = int i + 1" if "i < length (build_events lines result)" for i
    using build_seqs [OF that] .
  fix k assume k: "k < length lines"
  let ?s = "stream_after (take k lines)"
  obtain p where p: "ev_progress (fst (stream_line (lines ! k) ?s)) = Some p"
    "pr_done p = bt_done (stream_after (take (Suc k) lines))"
    "line_tag (lines ! k) \<noteq> ''L'' \<longrightarrow> pr_detail p = Some (join_with [CHR 0x0A] (bt_running (stream_after (take (Suc k) lines))))"
    using stream_line_event(3) [of "lines ! k" ?s] line_event(2) [OF k] by auto
  then show "\<exists>p. ev_progress (build_events lines result ! k) = Some p \<and>
      ev_result (build_events lines result ! k) = None \<and>
      pr_done p = int (length (finished_lines (take (Suc k) lines))) \<and>
      (paired (take (Suc k) lines) \<and> line_tag (lines ! k) \<noteq> ''L'' \<longrightarrow>
        (\<exists>shown. pr_detail p = Some (join_with [CHR 0x0A] shown) \<and>
           mset shown = mset (started_lines (take (Suc k) lines)) - mset (finished_lines (take (Suc k) lines))))"
    using running_after [of "take (Suc k) lines"] by (auto simp: line_event(1) [OF k] stream_line_event(2) done_after)
qed

definition demo_lines :: "string list" where
  "demo_lines = [''T'' @ [unit_sep] @ ''2'', ''S'' @ [unit_sep] @ ''a'', ''S'' @ [unit_sep] @ ''b'', ''F'' @ [unit_sep] @ ''a'']"

theorem build_stream_exact_witness:
  "\<exists>p shown. ev_progress (build_events demo_lines None ! 3) = Some p \<and> pr_done p = 1 \<and>
     pr_detail p = Some (join_with [CHR 0x0A] shown) \<and> mset shown = {#''b''#}"
proof -
  have f: "finished_lines (take 4 demo_lines) = [''a'']" "started_lines (take 4 demo_lines) = [''a'', ''b'']"
    "line_tag (demo_lines ! 3) = ''F''" by code_simp+
  have "\<forall>k \<in> set [0..<5]. mset (finished_lines (take k demo_lines)) \<subseteq># mset (started_lines (take k demo_lines))"
    by code_simp
  then have "paired (take 4 demo_lines)" by (auto simp: paired_def demo_lines_def)
  moreover have "3 < length demo_lines" by (simp add: demo_lines_def)
  ultimately show ?thesis
    using build_stream_exact [of "\<lambda>_. True" demo_lines None] f by (fastforce dest: spec [of _ 3])
qed

subsection \<open>The log\<close>

definition run_history :: "nat \<Rightarrow> run_state option \<Rightarrow> invocation_event list" where
  "run_history n r =
     (case r of
        Some (RunBuild t) \<Rightarrow> [load_event n t]
      | Some (RunDone t br) \<Rightarrow> [load_event n t, result_event n br]
      | _ \<Rightarrow> [])"

definition events_of :: "nat \<Rightarrow> invocation_event list \<Rightarrow> invocation_event list" where
  "events_of n evs = filter (\<lambda>e. ev_invocation e = inv_id n) evs"

definition log_inv :: "log_sys \<Rightarrow> bool" where
  "log_inv s \<longleftrightarrow>
     (\<forall>n. (lg_runs s n \<noteq> None) = (1 \<le> n \<and> n \<le> lg_count s)) \<and>
     (\<forall>n. events_of n (lg_events s) = run_history n (lg_runs s n)) \<and>
     (\<forall>c u. lg_subs s c = Some u \<longrightarrow>
        ls_idx u \<le> length (lg_events s) \<and> ls_sent u @ ls_batch u = take (ls_idx u) (lg_events s))"

lemma inv_id_inj [simp]: "inv_id m = inv_id n \<longleftrightarrow> m = n"
  by (auto simp: inv_id_def dest: dec_inj)

lemma event_invocation [simp]:
  "ev_invocation (load_event n t) = inv_id n" "ev_invocation (result_event n br) = inv_id n"
  by (simp_all add: load_event_def result_event_def run_event_def)

lemma log_inv_step:
  assumes "log_step s s'" "log_inv s"
  shows "log_inv s'"
  using assms
proof (induction rule: log_step.induct)
  case (run s target)
  then have "(lg_runs s (lg_count s + 1) \<noteq> None) = (1 \<le> lg_count s + 1 \<and> lg_count s + 1 \<le> lg_count s)"
    unfolding log_inv_def by blast
  then have "lg_runs s (lg_count s + 1) = None" by simp
  moreover from run have "events_of (lg_count s + 1) (lg_events s) = run_history (lg_count s + 1) (lg_runs s (lg_count s + 1))"
    unfolding log_inv_def by blast
  ultimately show ?case using run by (auto simp: log_inv_def run_history_def)
next
  case (load s n target)
  then show ?case by (auto simp: log_inv_def log_emit_def events_of_def run_history_def intro: le_SucI)
next
  case (result s n target br r)
  then show ?case by (auto simp: log_inv_def log_emit_def events_of_def run_history_def intro: le_SucI)
next
  case (subscribe s c)
  then show ?case by (auto simp: log_inv_def log_sub_new_def)
next
  case (take_batch s c u)
  then have "ls_sent u = take (ls_idx u) (lg_events s)" unfolding log_inv_def by force
  with take_batch show ?case by (auto simp: log_inv_def)
next
  case (write_event s c u ev evs)
  then have "ls_sent u @ ev # evs = take (ls_idx u) (lg_events s)" unfolding log_inv_def by metis
  with write_event show ?case by (auto simp: log_inv_def)
next
  case (client_gone s c u)
  then show ?case by (auto simp: log_inv_def)
qed

lemma log_inv_new: "log_inv log_new"
  by (simp add: log_inv_def log_new_def events_of_def run_history_def)

lemma log_inv_reachable: "log_reachable s \<Longrightarrow> log_inv s"
  unfolding log_reachable_def by (induction rule: rtranclp_induct) (auto intro: log_inv_step log_inv_new)

lemma log_subscriber_facts:
  assumes "log_reachable s" "lg_subs s c = Some u"
  shows "ls_sent u = take (length (ls_sent u)) (lg_events s)"
    and "ls_batch u = [] \<and> ls_idx u = length (lg_events s) \<longrightarrow> ls_sent u = lg_events s"
    and "events_of n (ls_sent u) = take (length (events_of n (ls_sent u))) (run_history n (lg_runs s n))"
    and "events_of n (lg_events s) = run_history n (lg_runs s n)"
proof -
  from log_inv_reachable [OF assms(1)] assms(2)
  have i: "ls_idx u \<le> length (lg_events s)" "ls_sent u @ ls_batch u = take (ls_idx u) (lg_events s)"
    and h: "events_of n (lg_events s) = run_history n (lg_runs s n)" for n
    unfolding log_inv_def by blast+
  obtain rest where r: "lg_events s = ls_sent u @ rest"
    using i(2) by (metis append.assoc append_take_drop_id)
  have "events_of n (ls_sent u @ rest) = events_of n (ls_sent u) @ events_of n rest" by (simp add: events_of_def)
  with h [of n] r show "events_of n (ls_sent u) = take (length (events_of n (ls_sent u))) (run_history n (lg_runs s n))"
    by (metis append_eq_conv_conj)
  show "ls_sent u = take (length (ls_sent u)) (lg_events s)" using r by simp
  show "ls_batch u = [] \<and> ls_idx u = length (lg_events s) \<longrightarrow> ls_sent u = lg_events s" using i by auto
  show "events_of n (lg_events s) = run_history n (lg_runs s n)" by (rule h)
qed

text \<open>whatever the interleaving of the runs, the subscribers and their connections, what a subscriber has got is a prefix
  of the log, and it is the whole log when the subscriber has nothing to take or to write; of every invocation it has got a
  prefix of the load event and the result, never one without the other before it and never one twice.\<close>

theorem log_subscriber_exact:
  assumes "log_reachable s" "lg_subs s c = Some u"
  shows "ls_sent u = take (length (ls_sent u)) (lg_events s) \<and>
    (ls_batch u = [] \<and> ls_idx u = length (lg_events s) \<longrightarrow> ls_sent u = lg_events s) \<and>
    events_of n (ls_sent u) = take (length (events_of n (ls_sent u))) (run_history n (lg_runs s n))"
  using log_subscriber_facts [OF assms] by blast

text \<open>A log of one failed run that a subscriber has read to its end.\<close>

definition demo_failed :: build_result where
  "demo_failed = run_result ''t'' (Inl ''e'')"

definition demo_log :: log_sys where
  "demo_log =
     \<lparr>lg_count = 1, lg_events = [load_event 1 ''t'', result_event 1 demo_failed],
      lg_runs = [1 \<mapsto> RunDone ''t'' demo_failed],
      lg_subs = [0 \<mapsto> \<lparr>ls_idx = 2, ls_batch = [], ls_sent = [load_event 1 ''t'', result_event 1 demo_failed]\<rparr>]\<rparr>"

lemma demo_log_reachable: "log_reachable demo_log"
proof -
  let ?l = "load_event 1 ''t''" and ?r = "result_event 1 demo_failed"
  define at where "at evs rs sub = \<lparr>lg_count = 1, lg_events = evs, lg_runs = [1 \<mapsto> rs], lg_subs = [0 \<mapsto> sub]\<rparr>"
    for evs rs and sub :: log_sub
  define u where "u i batch sent = \<lparr>ls_idx = i, ls_batch = batch, ls_sent = sent\<rparr>" for i batch sent
  let ?s = "\<lparr>lg_count = 0, lg_events = [], lg_runs = Map.empty, lg_subs = [0 \<mapsto> log_sub_new]\<rparr>"
  have "log_step log_new ?s" using subscribe [of log_new 0] by (simp add: log_new_def)
  moreover have "log_step ?s (at [] (RunLoad ''t'') log_sub_new)" using run [of ?s "''t''"] by (simp add: at_def)
  moreover have "log_step (at [] (RunLoad ''t'') log_sub_new) (at [?l] (RunBuild ''t'') log_sub_new)"
    using load [of "at [] (RunLoad ''t'') log_sub_new" 1 "''t''"] by (simp add: at_def log_emit_def)
  moreover have "log_step (at [?l] (RunBuild ''t'') log_sub_new) (at [?l, ?r] (RunDone ''t'' demo_failed) log_sub_new)"
    using result [of "at [?l] (RunBuild ''t'') log_sub_new" 1 "''t''" demo_failed "Inl ''e''"]
    by (simp add: at_def log_emit_def demo_failed_def)
  moreover have "log_step (at [?l, ?r] (RunDone ''t'' demo_failed) log_sub_new) (at [?l, ?r] (RunDone ''t'' demo_failed) (u 2 [?l, ?r] []))"
    using take_batch [of "at [?l, ?r] (RunDone ''t'' demo_failed) log_sub_new" 0 log_sub_new]
    by (simp add: at_def u_def log_sub_new_def numeral_2_eq_2)
  moreover have "log_step (at [?l, ?r] (RunDone ''t'' demo_failed) (u 2 (ev # evs) sent))
      (at [?l, ?r] (RunDone ''t'' demo_failed) (u 2 evs (sent @ [ev])))" for ev evs sent
    using write_event [of "at [?l, ?r] (RunDone ''t'' demo_failed) (u 2 (ev # evs) sent)" 0 "u 2 (ev # evs) sent"]
    by (simp add: at_def u_def)
  note this [of ?l "[?r]" "[]"] this [of ?r "[]" "[?l]"]
  ultimately have "log_step\<^sup>*\<^sup>* log_new (at [?l, ?r] (RunDone ''t'' demo_failed) (u 2 [] [?l, ?r]))"
    unfolding append.simps by (meson rtranclp.rtrancl_into_rtrancl rtranclp.rtrancl_refl)
  then show ?thesis by (simp add: log_reachable_def demo_log_def at_def u_def)
qed

subsection \<open>The state\<close>

definition atom_inv :: "atom_sys \<Rightarrow> bool" where
  "atom_inv s \<longleftrightarrow>
     (let got = at_sent s @ (case at_snapshot s of Some b \<Rightarrow> [b] | None \<Rightarrow> [])
      in sorted_wrt (<) (map bs_revision got) \<and> 0 \<le> bs_revision (at_state s) \<and>
         (if got = [] then at_last s < 0
          else bs_revision (last got) = at_last s \<and> at_last s \<le> bs_revision (at_state s) \<and>
               (at_last s = bs_revision (at_state s) \<longrightarrow> last got = at_state s)))"

lemma atom_inv_step:
  assumes "atom_step s s'" "atom_inv s"
  shows "atom_inv s'"
  using assms
proof (induction rule: atom_step.induct)
  case (commit s br)
  then show ?case by (auto simp: atom_inv_def Let_def commit_snapshot_def split: if_splits)
next
  case (take_state s)
  let ?got = "at_sent s"
  from take_state have inv: "sorted_wrt (<) (map bs_revision ?got)" "0 \<le> bs_revision (at_state s)"
    "?got \<noteq> [] \<Longrightarrow> bs_revision (last ?got) < bs_revision (at_state s)"
    by (auto simp: atom_inv_def Let_def split: if_splits)
  have "bs_revision b < bs_revision (at_state s)" if "b \<in> set ?got" for b
  proof -
    from that have ne: "?got \<noteq> []" by auto
    then have split: "map bs_revision ?got = map bs_revision (butlast ?got) @ [bs_revision (last ?got)]"
      by (metis append_butlast_last_id list.simps(8,9) map_append)
    have "b \<in> set (butlast ?got) \<or> b = last ?got" using that ne by (metis append_butlast_last_id Un_iff list.set(1,2) set_append singletonD)
    then have "bs_revision b \<le> bs_revision (last ?got)"
      using inv(1) unfolding split sorted_wrt_append by auto
    with inv(3) [OF ne] show ?thesis by simp
  qed
  with take_state inv show ?case by (auto simp: atom_inv_def Let_def sorted_wrt_append)
next
  case (write_state s b)
  then show ?case by (auto simp: atom_inv_def Let_def)
qed

lemma atom_inv_new: "atom_inv atom_new"
  by (simp add: atom_inv_def atom_new_def)

lemma atom_inv_reachable: "atom_reachable s \<Longrightarrow> atom_inv s"
  unfolding atom_reachable_def
  by (induction rule: rtranclp_induct) (auto intro: atom_inv_step atom_inv_new)

text \<open>A subscriber of the state gets each revision at most once and in order, and when it has nothing to do the last it got is
  the current one: no commit is missed for good.\<close>

theorem state_subscriber_fresh:
  assumes "atom_reachable s"
  shows "sorted_wrt (<) (map bs_revision (at_sent s))"
    and "at_snapshot s = None \<Longrightarrow> at_last s = bs_revision (at_state s) \<Longrightarrow> at_sent s \<noteq> [] \<and> last (at_sent s) = at_state s"
  using atom_inv_reachable [OF assms] by (auto simp: atom_inv_def Let_def sorted_wrt_append split: if_splits option.splits)

end
