(* ===== verification/Rpc_Props.thy ===== *)
theory Rpc_Props
  imports Rpc_Streams Wire_Types
begin

section \<open>Properties of the daemon's protocol\<close>

text \<open>
  A call over a connection is the local call; the frames of a build are the events of its lines, cut where the client is
  gone; a subscriber of the log sees a prefix of it, and a subscriber of the state sees increasing revisions.
\<close>

subsection \<open>Frames\<close>

lemma be_val_be_bytes_4: "n < 2 ^ 32 \<Longrightarrow> be_val (be_bytes 4 n) = n"
  by (simp add: be_val_bytes)

lemma frame_round_trip:
  assumes "length bytes < 2 ^ 32"
  shows "\<exists>f. write_frame bytes = Some f \<and> read_frame (f @ rest) = Some (bytes, rest)"
proof -
  have "take_bytes 4 ((be_bytes 4 (length bytes) @ bytes) @ rest) = Some (be_bytes 4 (length bytes), bytes @ rest)"
    using take_be_bytes [of 4 "length bytes" "bytes @ rest"] by (simp del: be_bytes.simps)
  then show ?thesis using assms by (simp add: write_frame_def read_frame_def be_val_be_bytes_4 del: be_bytes.simps)
qed

definition sendable :: "cbor \<Rightarrow> bool" where
  "sendable c \<longleftrightarrow> cbor_ok c \<and> length (enc c) < 2 ^ 32"

lemma sendable_decode: "sendable c \<Longrightarrow> canon c = c \<Longrightarrow> decode (enc c) = Some c"
  using dec_enc [of c "Suc (length (enc c))" "[]"] by (simp add: sendable_def decode_def del: dec_item.simps)

lemma sendable_frame:
  assumes "sendable c"
  shows "\<exists>f. write_frame (enc c) = Some f \<and> read_frame f = Some (enc c, [])"
  using frame_round_trip [of "enc c" "[]"] assms by (simp add: sendable_def)

text \<open>The methods that get one reply.\<close>

definition unary :: "string \<Rightarrow> bool" where
  "unary m \<longleftrightarrow> m \<notin> {''build.subscribe'', ''invocation.events'', ''build.stream'', ''shutdown''}"

lemma as_text_cbor [simp]: "as_text (text_cbor s) = Some s"
  by (simp add: text_cbor_def)

lemma request_method [simp]: "cbor_get (rpc_request m args) 1 = Some (text_cbor m)" "cbor_get (rpc_request m args) 2 = Some args"
  by (simp_all add: rpc_request_def)

lemma canon_request [simp]: "canon (rpc_request m args) = rpc_request m args \<longleftrightarrow> canon args = args"
  by (auto simp: rpc_request_def)

lemma canon_envelope [simp]: "(\<And>x. canon (f x) = f x) \<Longrightarrow> canon (envelope f r) = envelope f r"
  by (cases r) (simp_all add: envelope_def rpc_ok_def rpc_err_def)

lemma rpc_call_dispatch:
  assumes "sendable (rpc_request m args)" "canon args = args" "unary m"
    and "dispatch_rpc v runs (rpc_request m args) = Some (resp, es)" "sendable resp" "canon resp = resp"
  shows "rpc_call v runs (rpc_request m args) = Some (resp, es)"
proof -
  obtain f where f: "write_frame (enc (rpc_request m args)) = Some f" "read_frame f = Some (enc (rpc_request m args), [])"
    using sendable_frame [OF assms(1)] by blast
  obtain g where g: "write_frame (enc resp) = Some g" "read_frame g = Some (enc resp, [])"
    using sendable_frame [OF assms(5)] by blast
  have "handle_conn v runs f = CoReply g es"
    using assms(2-4) by (simp add: handle_conn_def f sendable_decode [OF assms(1)] unary_def reply_with_def g)
  then show ?thesis by (simp add: rpc_call_def f g sendable_decode [OF assms(5,6)])
qed

lemma text_items_list [simp]: "text_items (map text_cbor xs) = xs"
  by (induction xs) (simp_all add: text_items_def List.map_filter_simps)

text \<open>What the client makes of a response.\<close>

definition rpc_answer :: "(cbor \<Rightarrow> 'a option) \<Rightarrow> cbor \<Rightarrow> (string + 'a) option" where
  "rpc_answer from_wire resp =
     Option.bind (rpc_payload resp) (\<lambda>r. case r of Inl e \<Rightarrow> Some (Inl e) | Inr c \<Rightarrow> map_option Inr (from_wire c))"

lemma answer_envelope:
  "(\<And>x. r = Inr x \<Longrightarrow> from_wire (f x) = Some x) \<Longrightarrow> rpc_answer from_wire (envelope f r) = Some r"
  by (cases r) (simp_all add: rpc_answer_def envelope_def rpc_payload_def rpc_ok_def rpc_err_def)

definition reply_fits :: "('a \<Rightarrow> cbor) \<Rightarrow> ('a \<Rightarrow> bool) \<Rightarrow> string + 'a \<Rightarrow> bool" where
  "reply_fits f fits r \<longleftrightarrow> sendable (envelope f r) \<and> (case r of Inr x \<Rightarrow> fits x | Inl _ \<Rightarrow> True)"

text \<open>C28: over a connection a client gets exactly the answer of the daemon: the reply of the build actor to the very
  arguments and directory it sent, the impact of its files, and the identifier of the run that is started.\<close>

theorem remote_is_local:
  assumes "sendable (req_build args cwd)" "reply_fits build_result_cbor result_fits (re_build v args cwd)"
    and "sendable (req_affected files)" "reply_fits impact_cbor impact_fits (impact v files)"
    and "sendable (req_run target rest)" "sendable (rpc_ok (started_cbor (inv_id (runs + 1))))"
  shows "(\<exists>resp. rpc_call v runs (req_build args cwd) = Some (resp, [EffBuild args cwd]) \<and>
      rpc_answer cbor_build_result resp = Some (re_build v args cwd)) \<and>
    (\<exists>resp. rpc_call v runs (req_affected files) = Some (resp, []) \<and>
      rpc_answer cbor_impact resp = Some (impact v files)) \<and>
    (\<exists>resp. rpc_call v runs (req_run target rest) = Some (resp, [EffRun (runs + 1) target]) \<and>
      rpc_answer cbor_started resp = Some (Inr (inv_id (runs + 1))))"
proof (intro conjI exI)
  let ?b = "envelope build_result_cbor (re_build v args cwd)"
  have "dispatch_rpc v runs (req_build args cwd) = Some (?b, [EffBuild args cwd])"
    by (simp add: dispatch_rpc_def req_build_def do_build_def build_args_def list_cbor_def cwd_of_def)
  with assms(1,2) show "rpc_call v runs (req_build args cwd) = Some (?b, [EffBuild args cwd])"
    unfolding req_build_def by (intro rpc_call_dispatch)
      (simp_all add: unary_def reply_fits_def build_args_def str_msg.list_normal result.normal)
  show "rpc_answer cbor_build_result ?b = Some (re_build v args cwd)"
    using assms(2) by (intro answer_envelope) (simp add: reply_fits_def result.reads)
  let ?i = "envelope impact_cbor (impact v files)"
  have "dispatch_rpc v runs (req_affected files) = Some (?i, [])"
    by (simp add: dispatch_rpc_def req_affected_def do_affected_def list_cbor_def)
  with assms(3,4) show "rpc_call v runs (req_affected files) = Some (?i, [])"
    unfolding req_affected_def by (intro rpc_call_dispatch) (simp_all add: unary_def reply_fits_def str_msg.list_normal impact.normal)
  show "rpc_answer cbor_impact ?i = Some (impact v files)"
    using assms(4) by (intro answer_envelope) (simp add: reply_fits_def impact.reads)
  let ?r = "envelope started_cbor (Inr (inv_id (runs + 1)))"
  have "dispatch_rpc v runs (req_run target rest) = Some (?r, [EffRun (runs + 1) target])"
    by (simp add: dispatch_rpc_def req_run_def do_run_def)
  with assms(5,6) show "rpc_call v runs (req_run target rest) = Some (?r, [EffRun (runs + 1) target])"
    unfolding req_run_def by (intro rpc_call_dispatch)
      (simp_all add: unary_def envelope_def str_msg.list_normal started.normal rpc_ok_def)
  show "rpc_answer cbor_started ?r = Some (Inr (inv_id (runs + 1)))"
    by (intro answer_envelope) (simp add: cbor_started_def started_cbor_def)
qed

subsection \<open>Requests that are not answered\<close>

text \<open>A request without a method, or without arguments, or a \<open>clean\<close> whose flag is not a boolean, panics the thread of its
  connection; the client sees the connection close.\<close>

lemma missing_key_panics:
  assumes "write_frame (enc req) = Some f" "read_frame f = Some (enc req, [])" "decode (enc req) = Some req"
    and "cbor_get req 1 = None \<or> (\<exists>m. cbor_get req 1 = Some (text_cbor m) \<and> unary m \<and> cbor_get req 2 = None)"
  shows "handle_conn v runs f = CoPanic"
  using assms(4) by (auto simp: handle_conn_def assms(2,3) dispatch_rpc_def unary_def)

lemma clean_not_bool_panics: "(\<And>b. args \<noteq> CBool b) \<Longrightarrow> dispatch_rpc v runs (rpc_request ''clean'' args) = None"
  by (cases args) (auto simp: dispatch_rpc_def)

lemma build_without_args_panics: "dispatch_rpc v runs (rpc_request ''build'' CNull) = None"
  by (simp add: dispatch_rpc_def do_build_def)

lemma clean_effect:
  "dispatch_rpc v runs (req_clean expunge) =
     Some (rpc_ok (CBool True), [if expunge then EffInvalidate else EffInvalidateExecution])"
  by (simp add: dispatch_rpc_def req_clean_def)

text \<open>A daemon greets a client exactly when the two speak the same protocol and mean the same workspace.\<close>

lemma hello_exact:
  assumes "hello_fits h"
  shows "(\<exists>i. do_hello v (hello_cbor h) = Some (Inr i)) \<longleftrightarrow>
    he_protocol h = protocol_rev \<and>
    (case re_canon v (re_workspace v) of Some p \<Rightarrow> p | None \<Rightarrow> re_workspace v) =
    (case re_canon v (he_workspace_root h) of Some p \<Rightarrow> p | None \<Rightarrow> he_workspace_root h)"
  using assms by (simp add: do_hello_def hello.reads Let_def)

definition demo_rpc :: rpc_env where
  "demo_rpc = \<lparr>re_workspace = ''/w'', re_version = ''1'', re_build_id = ''b'', re_canon = (\<lambda>p. Some p),
     re_file = (\<lambda>p. if p = ''/w/BUILD'' then Some (Inr []) else None), re_hash = (\<lambda>bs. bs), re_analyze = (\<lambda>_. Inr []),
     re_build = (\<lambda>args cwd. Inl ''no'')\<rparr>"

theorem remote_is_local_witness:
  "(\<exists>resp. rpc_call demo_rpc 0 (req_build [''a''] ''/w'') = Some (resp, [EffBuild [''a''] ''/w'']) \<and>
      rpc_answer cbor_build_result resp = Some (Inl ''no'')) \<and>
   (\<exists>resp. rpc_call demo_rpc 0 (req_affected [''f'']) = Some (resp, []) \<and>
      rpc_answer cbor_impact resp = Some (Inr \<lparr>im_sources = [''f''], im_targets = [], im_tests = []\<rparr>)) \<and>
   (\<exists>resp. rpc_call demo_rpc 0 (req_run ''t'' []) = Some (resp, [EffRun 1 ''t'']) \<and>
      rpc_answer cbor_started resp = Some (Inr ''inv-1''))"
proof -
  have send: "sendable (req_build [''a''] ''/w'')" "sendable (req_affected [''f''])" "sendable (req_run ''t'' [])"
    "sendable (rpc_ok (started_cbor (inv_id (0 + 1))))"
    "sendable (rpc_err ''no'')" "sendable (rpc_ok (impact_cbor \<lparr>im_sources = [''f''], im_targets = [], im_tests = []\<rparr>))"
    by (simp_all add: sendable_def req_build_def req_affected_def req_run_def rpc_request_def build_args_def list_cbor_def
      rpc_ok_def rpc_err_def started_cbor_def impact_cbor_def text_cbor_def str_bytes_def head_def i64_ok_def inv_id_def
      dec.simps)
  have step: "impact_step graph_new [] ''f'' ([], []) = ([], [])" by code_simp
  have i: "impact demo_rpc [''f''] = Inr \<lparr>im_sources = [''f''], im_targets = [], im_tests = []\<rparr>"
    by (simp add: impact_def demo_rpc_def path_push_def starts_with_def ends_with_def affected_def wire_to_ir_def step)
  have "inv_id 1 = ''inv-1''" by code_simp
  moreover have "impact_fits \<lparr>im_sources = [''f''], im_targets = [], im_tests = []\<rparr>"
    by (simp add: impact_fits_def text_fits_def str_bytes_def)
  ultimately show ?thesis
    using remote_is_local [of "[''a'']" "''/w''" demo_rpc "[''f'']" "''t''" "[]" 0] send i
    by (simp add: reply_fits_def envelope_def demo_rpc_def)
qed

end
