(* ===== verification/Grazeld.thy ===== *)
theory Grazeld
  imports Rpc
begin

section \<open>The scope daemon\<close>

text \<open>
  \<^verbatim>\<open>crates/grazel-cli-lib/src/daemon.rs\<close>: a daemon that serves the workspaces of a scope, one server for each, with the
  writer claim of a workspace held as long as it is a member.  A thread that panics under the lock of the members poisons
  it, and every later \<open>lock().unwrap()\<close> panics.  The environment gives the outcome of the file system and of the claim;
  the servers are those of \<open>Rpc\<close>.
\<close>

unbundle bit_operations_syntax

subsection \<open>Envelopes and names\<close>

definition gz_ok :: "cbor \<Rightarrow> cbor" where
  "gz_ok payload = CMap [(1, CBool True), (2, payload)]"

definition gz_err :: "string \<Rightarrow> cbor" where
  "gz_err msg = CMap [(1, CBool False), (3, text_cbor msg)]"

definition fnv_step :: "64 word \<Rightarrow> byte \<Rightarrow> 64 word" where
  "fnv_step h b = (h XOR ucast b) * 0x100000001b3"

definition digest16 :: "string \<Rightarrow> string" where
  "digest16 s = concat (map hex_byte (be_bytes 8 (unat (foldl fnv_step 0xcbf29ce484222325 (str_bytes s)))))"

subsection \<open>Members\<close>

record member =
  mb_pinned :: bool
  mb_last :: nat
  mb_runs :: nat

record gz_env =
  ge_canon :: "string \<Rightarrow> string + string"
  ge_acquire :: "string \<Rightarrow> string + unit"
  ge_mkdir :: "string \<Rightarrow> string + unit"
  ge_write :: "string \<Rightarrow> string + unit"
  ge_server :: "string \<Rightarrow> rpc_env"

record grazeld =
  gz_scope :: string
  gz_state_dir :: string
  gz_advertised :: int
  gz_version :: string
  gz_now :: nat
  gz_active :: nat
  gz_last_done :: nat
  gz_members :: "(string \<times> member) list"
  gz_locks :: "string set"
  gz_files :: "string \<Rightarrow> string option"
  gz_poisoned :: bool

definition members_dir :: "grazeld \<Rightarrow> string" where
  "members_dir s = path_push (gz_state_dir s) ''members''"

definition member_file :: "grazeld \<Rightarrow> string \<Rightarrow> string" where
  "member_file s root = path_push (members_dir s) (digest16 root)"

definition touch_member :: "string \<Rightarrow> grazeld \<Rightarrow> grazeld" where
  "touch_member root s =
     s\<lparr>gz_members := map (\<lambda>(r, m). (r, if r = root then m\<lparr>mb_last := gz_now s\<rparr> else m)) (gz_members s)\<rparr>"

definition member_line :: "bool \<Rightarrow> string \<Rightarrow> string" where
  "member_line pinned root = (if pinned then ''pinned'' else ''dynamic'') @ '' '' @ root @ [CHR 0x0A]"

definition open_member :: "gz_env \<Rightarrow> string \<Rightarrow> bool \<Rightarrow> grazeld \<Rightarrow> (string + unit) \<times> grazeld" where
  "open_member w given pinned s =
     (case ge_canon w given of
        Inl e \<Rightarrow> (Inl (''workspace '' @ given @ '': '' @ e), s)
      | Inr root \<Rightarrow>
          if map_of (gz_members s) root \<noteq> None then (Inr (), touch_member root s)
          else
            (case res_bind (ge_acquire w root) (\<lambda>_. res_bind (ge_mkdir w (members_dir s)) (\<lambda>_. ge_write w (member_file s root))) of
               Inl e \<Rightarrow> (Inl e, s)
             | Inr _ \<Rightarrow>
                 (Inr (), s\<lparr>gz_members := gz_members s @ [(root, \<lparr>mb_pinned = pinned, mb_last = gz_now s, mb_runs = 0\<rparr>)],
                            gz_locks := insert root (gz_locks s),
                            gz_files := (gz_files s)(member_file s root \<mapsto> member_line pinned root)\<rparr>)))"

definition close_member :: "string \<Rightarrow> grazeld \<Rightarrow> grazeld" where
  "close_member root s =
     s\<lparr>gz_members := filter (\<lambda>(r, m). r \<noteq> root) (gz_members s), gz_locks := gz_locks s - {root},
       gz_files := (gz_files s)(member_file s root := None)\<rparr>"

definition idle_members :: "nat \<Rightarrow> grazeld \<Rightarrow> string list" where
  "idle_members timeout s =
     map fst (filter (\<lambda>(r, m). \<not> mb_pinned m \<and> timeout < gz_now s - mb_last m) (gz_members s))"

definition sweep_members :: "nat \<Rightarrow> grazeld \<Rightarrow> grazeld" where
  "sweep_members timeout s = fold close_member (idle_members timeout s) s"

text \<open>\<open>cleanup_and_exit\<close>, as far as the members go.\<close>

definition cleanup :: "grazeld \<Rightarrow> grazeld" where
  "cleanup s = fold close_member (map fst (gz_members s)) s"

text \<open>The \<open>pinned=\<close> lines of \<open>scope.rc\<close>; a failure ends the start of the daemon.\<close>

fun pin_lines :: "gz_env \<Rightarrow> string list \<Rightarrow> grazeld \<Rightarrow> string + grazeld" where
  "pin_lines w [] s = Inr s"
| "pin_lines w (raw # rest) s =
     (case strip_prefix (str_trim raw) ''pinned='' of
        None \<Rightarrow> pin_lines w rest s
      | Some root \<Rightarrow>
          (case open_member w (str_trim root) True s of
             (Inl e, _) \<Rightarrow> Inl (''pinned workspace: '' @ e)
           | (Inr _, s1) \<Rightarrow> pin_lines w rest s1))"

subsection \<open>Requests\<close>

definition no_member :: string where
  "no_member = ''no workspace member: hello first''"

definition ambiguous :: "grazeld \<Rightarrow> string" where
  "ambiguous s =
     ''scope '' @ debug_str (gz_scope s) @ '' serves '' @ dec (length (gz_members s)) @
     '' workspaces; per-invocation routing arrives with GR3''"

text \<open>The effects of a reply are those of the server at a root.\<close>

datatype gz_result =
    GzPanic grazeld
  | GzReply cbor bool "(string \<times> rpc_effect) list" grazeld

definition started_runs :: "rpc_effect list \<Rightarrow> nat" where
  "started_runs es = length (filter (\<lambda>e. case e of EffRun n t \<Rightarrow> True | _ \<Rightarrow> False) es)"

definition to_sole :: "gz_env \<Rightarrow> cbor \<Rightarrow> grazeld \<Rightarrow> gz_result" where
  "to_sole w req s =
     (if gz_poisoned s then GzPanic s
      else
        (case gz_members s of
           [] \<Rightarrow> GzReply (gz_err no_member) False [] s
         | [(root, m)] \<Rightarrow>
             (case dispatch_rpc (ge_server w root) (mb_runs m) req of
                None \<Rightarrow> GzPanic (s\<lparr>gz_members := [(root, m\<lparr>mb_last := gz_now s\<rparr>)], gz_poisoned := True\<rparr>)
              | Some (resp, es) \<Rightarrow>
                  GzReply resp False (map (Pair root) es)
                    (s\<lparr>gz_members := [(root, m\<lparr>mb_last := gz_now s, mb_runs := mb_runs m + started_runs es\<rparr>)]\<rparr>))
         | _ \<Rightarrow> GzReply (gz_err (ambiguous s)) False [] s))"

definition gz_hello :: "gz_env \<Rightarrow> cbor \<Rightarrow> grazeld \<Rightarrow> gz_result" where
  "gz_hello w req s =
     (let greet = gz_ok (version_cbor (gz_version s, gz_advertised s))
      in case Option.bind (cbor_get req 2) cbor_hello of
           None \<Rightarrow> GzPanic s
         | Some h \<Rightarrow>
             if he_protocol h \<noteq> gz_advertised s then GzReply greet False [] s
             else if gz_poisoned s \<and> (\<exists>root. ge_canon w (he_workspace_root h) = Inr root) then GzPanic s
             else
               (case open_member w (he_workspace_root h) False s of
                  (Inl e, s1) \<Rightarrow> GzReply (gz_err e) False [] s1
                | (Inr _, s1) \<Rightarrow> GzReply greet False [] s1))"

definition gz_respond :: "gz_env \<Rightarrow> cbor \<Rightarrow> grazeld \<Rightarrow> gz_result" where
  "gz_respond w req s =
     (case cbor_get req 1 of
        None \<Rightarrow> GzPanic s
      | Some m \<Rightarrow>
          (case as_text m of
             None \<Rightarrow> GzReply (gz_err ''malformed request: missing method'') False [] s
           | Some method \<Rightarrow>
               if method = ''hello'' then gz_hello w req s
               else if method = ''shutdown'' then GzReply (gz_ok CNull) True [] s
               else if method = ''build.subscribe'' then
                 GzReply (gz_err ''build.subscribe via grazeld arrives with GR3'') False [] s
               else to_sole w req s))"

definition sole_member_server :: "grazeld \<Rightarrow> string + string" where
  "sole_member_server s =
     (case gz_members s of
        [] \<Rightarrow> Inl no_member
      | [(root, m)] \<Rightarrow> Inr root
      | _ \<Rightarrow> Inl (ambiguous s))"

text \<open>A connection of the socket: what it gets, or the server and the bytes that are replayed to it.\<close>

datatype gz_outcome =
    GoPanic grazeld
  | GoIoError
  | GoFrame "byte list" bool "(string \<times> rpc_effect) list" grazeld
  | GoHandOver string "byte list"

definition stream_method :: "string \<Rightarrow> bool" where
  "stream_method m \<longleftrightarrow> m = ''invocation.events'' \<or> m = ''build.subscribe''"

definition replay_frame :: "byte list \<Rightarrow> byte list" where
  "replay_frame raw = be_bytes 4 (length raw mod 2 ^ 32) @ raw"

definition frame_reply :: "cbor \<Rightarrow> bool \<Rightarrow> (string \<times> rpc_effect) list \<Rightarrow> grazeld \<Rightarrow> gz_outcome" where
  "frame_reply resp shut es s =
     (case write_frame (enc resp) of Some f \<Rightarrow> GoFrame f shut es s | None \<Rightarrow> GoIoError)"

definition gz_handle :: "gz_env \<Rightarrow> byte list \<Rightarrow> grazeld \<Rightarrow> gz_outcome" where
  "gz_handle w inbound s =
     (case read_frame inbound of
        None \<Rightarrow> GoIoError
      | Some (raw, rest) \<Rightarrow>
          (case Option.bind (decode raw) (\<lambda>req. map_option (Pair req) (cbor_get req 1)) of
             None \<Rightarrow> GoPanic s
           | Some (req, m) \<Rightarrow>
               (case as_text m of
                  Some method \<Rightarrow>
                    if stream_method method then
                      (if gz_poisoned s then GoPanic s
                       else
                         (case sole_member_server s of
                            Inl e \<Rightarrow> frame_reply (gz_err e) False [] s
                          | Inr root \<Rightarrow> GoHandOver root (replay_frame raw @ rest)))
                    else
                      (case gz_respond w req s of
                         GzPanic s1 \<Rightarrow> GoPanic s1
                       | GzReply resp shut es s1 \<Rightarrow> frame_reply resp shut es s1)
                | None \<Rightarrow>
                    (case gz_respond w req s of
                       GzPanic s1 \<Rightarrow> GoPanic s1
                     | GzReply resp shut es s1 \<Rightarrow> frame_reply resp shut es s1))))"

subsection \<open>The daemon at work\<close>

text \<open>
  The threads of the daemon: the accept loops of the socket and of HTTP, one thread per connection, the runs, the sweep
  of the members and the idle watchdog.  Nothing makes two atomic operations of different threads one, so a connection
  goes through five states: accepted and not yet counted, counted and being served, served, with the time of its end
  recorded, and gone; and the watchdog reads the time of the last end, then the number of connections, then the clock, and
  only then exits.  Exiting takes the lock of the members and keeps it, so it is one step.  A run keeps its server, not its
  membership.  A reply whose write fails ends the connection without the shutdown it may ask for; a shutdown, a stream
  or an exit that meets the poisoned lock panics.
\<close>

datatype watch_phase = WatchSleep | WatchSince nat | WatchQuiet nat | WatchLeaving | WatchDead

record gz_sys =
  sys_gz :: grazeld
  sys_accepted :: nat
  sys_open :: nat
  sys_served :: nat
  sys_stamped :: nat
  sys_running :: "(string \<times> nat) list"
  sys_watch :: watch_phase
  sys_exited :: bool

definition gz_new :: "string \<Rightarrow> string \<Rightarrow> int \<Rightarrow> string \<Rightarrow> grazeld" where
  "gz_new scope dir advertised version =
     \<lparr>gz_scope = scope, gz_state_dir = dir, gz_advertised = advertised, gz_version = version, gz_now = 0, gz_active = 0,
      gz_last_done = 0, gz_members = [], gz_locks = {}, gz_files = Map.empty, gz_poisoned = False\<rparr>"

text \<open>The end of a connection: the time, then the number.\<close>

definition stamp_done :: "grazeld \<Rightarrow> grazeld" where
  "stamp_done s = s\<lparr>gz_last_done := gz_now s\<rparr>"

definition leave :: "grazeld \<Rightarrow> grazeld" where
  "leave s = s\<lparr>gz_active := gz_active s - 1\<rparr>"

definition runs_of :: "(string \<times> rpc_effect) list \<Rightarrow> (string \<times> nat) list" where
  "runs_of es = List.map_filter (\<lambda>(root, e). case e of EffRun n t \<Rightarrow> Some (root, n) | _ \<Rightarrow> None) es"

inductive gz_step :: "gz_env \<Rightarrow> nat \<Rightarrow> nat option \<Rightarrow> gz_sys \<Rightarrow> gz_sys \<Rightarrow> bool" for w member_idle idle where
  tick: "\<not> sys_exited s \<Longrightarrow> gz_step w member_idle idle s (s\<lparr>sys_gz := (sys_gz s)\<lparr>gz_now := gz_now (sys_gz s) + 1\<rparr>\<rparr>)"
| accept: "\<not> sys_exited s \<Longrightarrow> sys_accepted s < 2 \<Longrightarrow>
    gz_step w member_idle idle s (s\<lparr>sys_accepted := sys_accepted s + 1\<rparr>)"
| enter: "\<not> sys_exited s \<Longrightarrow> 0 < sys_accepted s \<Longrightarrow>
    gz_step w member_idle idle s
      (s\<lparr>sys_gz := (sys_gz s)\<lparr>gz_active := gz_active (sys_gz s) + 1\<rparr>, sys_accepted := sys_accepted s - 1, sys_open := sys_open s + 1\<rparr>)"
| reply: "\<not> sys_exited s \<Longrightarrow> 0 < sys_open s \<Longrightarrow> gz_respond w req (sys_gz s) = GzReply resp shut es g \<Longrightarrow>
    gz_step w member_idle idle s
      (s\<lparr>sys_gz := g, sys_open := sys_open s - 1, sys_served := sys_served s + 1, sys_running := sys_running s @ runs_of es\<rparr>)"
| shut_down: "\<not> sys_exited s \<Longrightarrow> 0 < sys_open s \<Longrightarrow> \<not> gz_poisoned (sys_gz s) \<Longrightarrow>
    gz_respond w req (sys_gz s) = GzReply resp True es g \<Longrightarrow>
    gz_step w member_idle idle s (s\<lparr>sys_gz := cleanup g, sys_exited := True\<rparr>)"
| panic: "\<not> sys_exited s \<Longrightarrow> 0 < sys_open s \<Longrightarrow> gz_respond w req (sys_gz s) = GzPanic g \<Longrightarrow>
    gz_step w member_idle idle s (s\<lparr>sys_gz := g, sys_open := sys_open s - 1\<rparr>)"
| lock_panic: "\<not> sys_exited s \<Longrightarrow> 0 < sys_open s \<Longrightarrow> gz_poisoned (sys_gz s) \<Longrightarrow>
    gz_step w member_idle idle s (s\<lparr>sys_open := sys_open s - 1\<rparr>)"
| hang_up: "\<not> sys_exited s \<Longrightarrow> 0 < sys_open s \<Longrightarrow>
    gz_step w member_idle idle s (s\<lparr>sys_open := sys_open s - 1, sys_served := sys_served s + 1\<rparr>)"
| stamp: "\<not> sys_exited s \<Longrightarrow> 0 < sys_served s \<Longrightarrow>
    gz_step w member_idle idle s
      (s\<lparr>sys_gz := stamp_done (sys_gz s), sys_served := sys_served s - 1, sys_stamped := sys_stamped s + 1\<rparr>)"
| go: "\<not> sys_exited s \<Longrightarrow> 0 < sys_stamped s \<Longrightarrow>
    gz_step w member_idle idle s (s\<lparr>sys_gz := leave (sys_gz s), sys_stamped := sys_stamped s - 1\<rparr>)"
| run_done: "\<not> sys_exited s \<Longrightarrow> r \<in> set (sys_running s) \<Longrightarrow>
    gz_step w member_idle idle s (s\<lparr>sys_running := remove1 r (sys_running s)\<rparr>)"
| sweep: "\<not> sys_exited s \<Longrightarrow> \<not> gz_poisoned (sys_gz s) \<Longrightarrow>
    gz_step w member_idle idle s (s\<lparr>sys_gz := sweep_members member_idle (sys_gz s)\<rparr>)"
| watch_since: "\<not> sys_exited s \<Longrightarrow> idle = Some t \<Longrightarrow> sys_watch s = WatchSleep \<Longrightarrow>
    gz_step w member_idle idle s (s\<lparr>sys_watch := WatchSince (gz_last_done (sys_gz s))\<rparr>)"
| watch_active: "\<not> sys_exited s \<Longrightarrow> sys_watch s = WatchSince since \<Longrightarrow>
    gz_step w member_idle idle s (s\<lparr>sys_watch := (if gz_active (sys_gz s) = 0 then WatchQuiet since else WatchSleep)\<rparr>)"
| watch_elapsed: "\<not> sys_exited s \<Longrightarrow> idle = Some t \<Longrightarrow> sys_watch s = WatchQuiet since \<Longrightarrow>
    gz_step w member_idle idle s
      (s\<lparr>sys_watch := (if t < gz_now (sys_gz s) - since then WatchLeaving else WatchSleep)\<rparr>)"
| watch_exit: "\<not> sys_exited s \<Longrightarrow> sys_watch s = WatchLeaving \<Longrightarrow> \<not> gz_poisoned (sys_gz s) \<Longrightarrow>
    gz_step w member_idle idle s (s\<lparr>sys_gz := cleanup (sys_gz s), sys_exited := True\<rparr>)"
| watch_panic: "\<not> sys_exited s \<Longrightarrow> sys_watch s = WatchLeaving \<Longrightarrow> gz_poisoned (sys_gz s) \<Longrightarrow>
    gz_step w member_idle idle s (s\<lparr>sys_watch := WatchDead\<rparr>)"

definition gz_start :: "grazeld \<Rightarrow> gz_sys" where
  "gz_start g =
     \<lparr>sys_gz = g, sys_accepted = 0, sys_open = 0, sys_served = 0, sys_stamped = 0, sys_running = [], sys_watch = WatchSleep,
      sys_exited = False\<rparr>"

definition gz_reachable :: "gz_env \<Rightarrow> nat \<Rightarrow> nat option \<Rightarrow> grazeld \<Rightarrow> gz_sys \<Rightarrow> bool" where
  "gz_reachable w member_idle idle g s \<longleftrightarrow> (gz_step w member_idle idle)\<^sup>*\<^sup>* (gz_start g) s"

end
