(* ===== verification/Grazeld_Props.thy ===== *)
theory Grazeld_Props
  imports Grazeld Rpc_Props
begin

section \<open>Properties of the scope daemon\<close>

text \<open>
  A workspace is claimed exactly as long as it is a member, pinned members stay, and every connection that was counted
  stays counted until its thread ends.  Three behaviours are not what the code means: an exit for idleness can cut a
  connection off that was accepted after the watchdog's look, a run outlives the claim of its workspace, and one malformed
  request poisons the lock of the members for good.
\<close>

subsection \<open>Members and claims\<close>

definition roots :: "grazeld \<Rightarrow> string list" where
  "roots s = map fst (gz_members s)"

definition claims_ok :: "grazeld \<Rightarrow> bool" where
  "claims_ok s \<longleftrightarrow> distinct (roots s) \<and> gz_locks s = set (roots s)"

definition pinned_roots :: "grazeld \<Rightarrow> string set" where
  "pinned_roots s = fst ` {x \<in> set (gz_members s). mb_pinned (snd x)}"

lemma roots_touch [simp]: "roots (touch_member root s) = roots s"
  by (simp add: roots_def touch_member_def comp_def case_prod_unfold)

lemma pinned_touch [simp]: "pinned_roots (touch_member root s) = pinned_roots s"
proof -
  let ?f = "\<lambda>(r, m :: member). (r, if r = root then m\<lparr>mb_last := gz_now s\<rparr> else m)"
  have f: "fst (?f x) = fst x" "mb_pinned (snd (?f x)) = mb_pinned (snd x)" for x
    by (simp_all add: case_prod_unfold)
  have "{y \<in> ?f ` A. mb_pinned (snd y)} = ?f ` {x \<in> A. mb_pinned (snd x)}" for A
    using f(2) by blast
  then have "fst ` {y \<in> set (map ?f xs). mb_pinned (snd y)} = fst ` {x \<in> set xs. mb_pinned (snd x)}" for xs
    by (simp only: set_map image_image f(1))
  moreover have "gz_members (touch_member root s) = map ?f (gz_members s)" by (simp add: touch_member_def)
  ultimately show ?thesis unfolding pinned_roots_def by presburger
qed

lemma claims_touch [simp]: "claims_ok (touch_member root s) = claims_ok s"
  by (simp add: claims_ok_def) (simp add: touch_member_def)

definition keeps :: "grazeld \<Rightarrow> grazeld \<Rightarrow> bool" where
  "keeps s s' \<longleftrightarrow> claims_ok s' \<and> pinned_roots s \<subseteq> pinned_roots s' \<and> gz_active s' = gz_active s \<and>
     (gz_poisoned s \<longrightarrow> gz_poisoned s')"

lemma keeps_refl: "claims_ok s \<Longrightarrow> keeps s s"
  by (simp add: keeps_def)

lemma keeps_touch: "claims_ok s \<Longrightarrow> keeps s (touch_member root s)"
  by (simp add: keeps_def) (simp add: touch_member_def)

lemma keeps_add:
  assumes "claims_ok s" "map_of (gz_members s) root = None"
  shows "keeps s (s\<lparr>gz_members := gz_members s @ [(root, m)], gz_locks := insert root (gz_locks s), gz_files := f\<rparr>)"
  using assms by (auto simp: keeps_def claims_ok_def roots_def pinned_roots_def map_of_eq_None_iff)

lemma keeps_open:
  assumes "claims_ok s"
  shows "keeps s (snd (open_member w given pinned s))"
proof (cases "ge_canon w given")
  case (Inl e)
  then show ?thesis using assms by (simp add: open_member_def keeps_refl)
next
  case (Inr root)
  show ?thesis
  proof (cases "map_of (gz_members s) root")
    case None
    then show ?thesis using Inr keeps_add [OF assms None] keeps_refl [OF assms]
      by (simp add: open_member_def split: sum.split)
  next
    case (Some m)
    then show ?thesis using Inr assms by (simp add: open_member_def keeps_touch)
  qed
qed

lemma roots_close: "roots (close_member root s) = filter (\<lambda>r. r \<noteq> root) (roots s)"
  by (simp add: roots_def close_member_def filter_map comp_def case_prod_unfold)

lemma close_other [simp]:
  "gz_active (close_member root s) = gz_active s" "gz_poisoned (close_member root s) = gz_poisoned s"
  "gz_locks (close_member root s) = gz_locks s - {root}"
  by (simp_all add: close_member_def)

lemma claims_close: "claims_ok s \<Longrightarrow> claims_ok (close_member root s)"
  by (simp add: claims_ok_def roots_close set_diff_eq)

lemma pinned_close: "pinned_roots (close_member root s) = pinned_roots s - {root}"
proof -
  have "gz_members (close_member root s) = filter (\<lambda>x. fst x \<noteq> root) (gz_members s)"
    by (simp add: close_member_def case_prod_unfold)
  then show ?thesis unfolding pinned_roots_def by auto
qed

lemma claims_close_all:
  "claims_ok s \<Longrightarrow> claims_ok (fold close_member rs s)"
  "gz_active (fold close_member rs s) = gz_active s" "gz_poisoned (fold close_member rs s) = gz_poisoned s"
  by (induction rs arbitrary: s) (simp_all add: claims_close)

lemma pinned_close_all: "pinned_roots (fold close_member rs s) = pinned_roots s - set rs"
  by (induction rs arbitrary: s) (simp_all add: pinned_close Diff_insert2 [symmetric])

lemma roots_close_all: "set (roots (fold close_member rs s)) = set (roots s) - set rs"
proof (induction rs arbitrary: s)
  case (Cons r rs)
  then show ?case unfolding fold_simps comp_apply Cons roots_close by auto
qed simp

lemma sweep_keeps_pinned: "claims_ok s \<Longrightarrow> pinned_roots (sweep_members t s) = pinned_roots s"
proof -
  assume ok: "claims_ok s"
  have "root \<notin> set (idle_members t s)" if "root \<in> pinned_roots s" for root
  proof
    assume "root \<in> set (idle_members t s)"
    then obtain m where m: "(root, m) \<in> set (gz_members s)" "\<not> mb_pinned m" by (auto simp: idle_members_def)
    from that obtain m' where m': "(root, m') \<in> set (gz_members s)" "mb_pinned m'" by (force simp: pinned_roots_def)
    from ok m(1) m'(1) have "m = m'" by (auto simp: claims_ok_def roots_def dest: eq_key_imp_eq_value)
    with m(2) m'(2) show False by simp
  qed
  then show ?thesis by (auto simp: sweep_members_def pinned_close_all)
qed

lemma cleanup_empty: "claims_ok s \<Longrightarrow> gz_members (cleanup s) = [] \<and> gz_locks (cleanup s) = {}"
proof -
  assume "claims_ok s"
  then have "claims_ok (cleanup s)" by (simp add: cleanup_def claims_close_all)
  moreover have "set (roots (cleanup s)) = {}"
    unfolding cleanup_def roots_close_all by (simp add: roots_def)
  ultimately show ?thesis by (simp add: claims_ok_def roots_def)
qed

lemma keeps_sole_member:
  "claims_ok s \<Longrightarrow> gz_members s = [(root, m)] \<Longrightarrow> mb_pinned m' = mb_pinned m \<Longrightarrow>
     keeps s (s\<lparr>gz_members := [(root, m')]\<rparr>) \<and> keeps s (s\<lparr>gz_members := [(root, m')], gz_poisoned := True\<rparr>)"
  by (auto simp: keeps_def claims_ok_def roots_def pinned_roots_def)

fun result_state :: "gz_result \<Rightarrow> grazeld" where
  "result_state (GzPanic s) = s"
| "result_state (GzReply resp shut es s) = s"

lemma keeps_sole:
  assumes "claims_ok s"
  shows "keeps s (result_state (to_sole w req s))"
proof (cases "gz_poisoned s")
  case True
  then show ?thesis using assms by (simp add: to_sole_def keeps_refl)
next
  case False
  consider (none) "gz_members s = []" | (one) root m where "gz_members s = [(root, m)]"
    | (more) x y zs where "gz_members s = x # y # zs"
    by (metis list.exhaust surj_pair)
  then show ?thesis
  proof cases
    case none
    with False assms show ?thesis by (simp add: to_sole_def keeps_refl)
  next
    case one
    with False keeps_sole_member [OF assms one] show ?thesis by (simp add: to_sole_def split: option.split)
  next
    case more
    with False assms show ?thesis by (cases x) (simp add: to_sole_def keeps_refl)
  qed
qed

lemma keeps_hello:
  assumes "claims_ok s"
  shows "keeps s (result_state (gz_hello w req s))"
proof (cases "Option.bind (cbor_get req 2) cbor_hello")
  case None
  then show ?thesis using assms by (simp add: gz_hello_def keeps_refl)
next
  case (Some h)
  obtain r s1 where o: "open_member w (he_workspace_root h) False s = (r, s1)"
    by (cases "open_member w (he_workspace_root h) False s")
  have "keeps s s1" using keeps_open [OF assms, of w "he_workspace_root h" False] by (simp add: o)
  then have "keeps s (result_state (case (r, s1) of (Inl e, s1) \<Rightarrow> GzReply (gz_err e) False [] s1
      | (Inr u, s1) \<Rightarrow> GzReply (gz_ok (version_cbor (gz_version s, gz_advertised s))) False [] s1))"
    by (cases r) simp_all
  then show ?thesis using keeps_refl [OF assms] unfolding gz_hello_def Some Let_def option.case o
    by (simp only: result_state.simps simp_thms split: if_split)
qed

lemma keeps_respond: "claims_ok s \<Longrightarrow> keeps s (result_state (gz_respond w req s))"
  by (simp add: gz_respond_def keeps_refl keeps_sole keeps_hello split: option.split)

subsection \<open>The daemon at work\<close>

lemma claims_leave [simp]:
  "claims_ok (leave g) = claims_ok g" "pinned_roots (leave g) = pinned_roots g"
  "claims_ok (stamp_done g) = claims_ok g" "pinned_roots (stamp_done g) = pinned_roots g"
  by (simp_all add: leave_def stamp_done_def claims_ok_def roots_def pinned_roots_def)

lemma leave_other [simp]:
  "gz_active (leave g) = gz_active g - 1" "gz_poisoned (leave g) = gz_poisoned g" "gz_locks (leave g) = gz_locks g"
  "gz_active (stamp_done g) = gz_active g" "gz_poisoned (stamp_done g) = gz_poisoned g" "gz_locks (stamp_done g) = gz_locks g"
  by (simp_all add: leave_def stamp_done_def)

lemma claims_counters [simp]:
  "claims_ok (g\<lparr>gz_now := n\<rparr>) = claims_ok g" "pinned_roots (g\<lparr>gz_now := n\<rparr>) = pinned_roots g"
  "claims_ok (g\<lparr>gz_active := n\<rparr>) = claims_ok g" "pinned_roots (g\<lparr>gz_active := n\<rparr>) = pinned_roots g"
  by (simp_all add: claims_ok_def roots_def pinned_roots_def)

definition gz_inv :: "string set \<Rightarrow> gz_sys \<Rightarrow> bool" where
  "gz_inv pins s \<longleftrightarrow> claims_ok (sys_gz s) \<and>
     (if sys_exited s then gz_members (sys_gz s) = [] \<and> gz_locks (sys_gz s) = {}
      else pins \<subseteq> pinned_roots (sys_gz s) \<and> sys_open s + sys_served s + sys_stamped s \<le> gz_active (sys_gz s))"

lemma gz_inv_step:
  assumes "gz_step w member_idle idle s s'" "gz_inv pins s"
  shows "gz_inv pins s'"
  using assms
proof (induction rule: gz_step.induct)
  case (reply s req resp shut es g)
  then have "keeps (sys_gz s) g" using keeps_respond [of "sys_gz s" w req] by (simp add: gz_inv_def)
  with reply show ?case by (auto simp: gz_inv_def keeps_def)
next
  case (shut_down s req resp es g)
  then have "claims_ok g" using keeps_respond [of "sys_gz s" w req] by (simp add: gz_inv_def keeps_def)
  with cleanup_empty [OF this] show ?case by (simp add: gz_inv_def cleanup_def claims_close_all)
next
  case (panic s req g)
  then have "keeps (sys_gz s) g" using keeps_respond [of "sys_gz s" w req] by (simp add: gz_inv_def)
  with panic show ?case by (auto simp: gz_inv_def keeps_def)
next
  case (sweep s)
  then show ?case
    by (simp add: gz_inv_def sweep_keeps_pinned) (simp add: sweep_members_def claims_close_all)
next
  case (watch_exit s)
  then have ok: "claims_ok (sys_gz s)" by (simp add: gz_inv_def)
  with cleanup_empty [OF ok] show ?case by (simp add: gz_inv_def cleanup_def claims_close_all)
next
  case (lock_panic s)
  then show ?case by (auto simp: gz_inv_def)
qed (auto simp: gz_inv_def)

lemma gz_inv_start: "claims_ok g \<Longrightarrow> gz_inv (pinned_roots g) (gz_start g)"
  by (simp add: gz_inv_def gz_start_def)

lemma gz_inv_reachable:
  assumes "gz_reachable w member_idle idle g s" "claims_ok g"
  shows "gz_inv (pinned_roots g) s"
  using assms(1) unfolding gz_reachable_def
  by (induction rule: rtranclp_induct) (auto intro: gz_inv_step gz_inv_start assms(2))

lemma pin_lines_claims: "pin_lines w lines g = Inr g' \<Longrightarrow> claims_ok g \<Longrightarrow> claims_ok g'"
proof (induction w lines g rule: pin_lines.induct)
  case (2 w raw rest s)
  show ?case
  proof (cases "strip_prefix (str_trim raw) ''pinned=''")
    case None
    with 2 show ?thesis by simp
  next
    case (Some root)
    obtain r s1 where o: "open_member w (str_trim root) True s = (r, s1)"
      by (cases "open_member w (str_trim root) True s")
    have "claims_ok s1" using keeps_open [OF 2(4), of w "str_trim root" True] by (simp add: o keeps_def)
    moreover have "pin_lines w rest s1 = Inr g' \<Longrightarrow> claims_ok s1 \<Longrightarrow> claims_ok g'" if "r = Inr ()"
      using 2(2) [OF Some o [symmetric] that] by blast
    ultimately show ?thesis using 2(3) Some o by (cases r) simp_all
  qed
qed simp

text \<open>C26: A daemon started with the pins of its \<open>scope.rc\<close> holds the writer claim of exactly the workspaces that are its
  members, each once, whatever requests, sweeps, looks of the watchdog and panics follow in any interleaving of its threads; a
  pinned workspace stays a member until the daemon exits, and a daemon that has exited holds no claim.  The number the watchdog
  looks at is never less than that of the connections that were counted and whose threads have not ended.\<close>

theorem scope_claims_exact:
  assumes "pin_lines w lines (gz_new scope dir advertised version) = Inr g"
    and "gz_reachable w member_idle idle g s"
  shows "distinct (map fst (gz_members (sys_gz s))) \<and> gz_locks (sys_gz s) = fst ` set (gz_members (sys_gz s)) \<and>
    (sys_exited s \<longrightarrow> gz_locks (sys_gz s) = {}) \<and>
    (\<not> sys_exited s \<longrightarrow> pinned_roots g \<subseteq> gz_locks (sys_gz s)) \<and>
    (\<not> sys_exited s \<longrightarrow> sys_open s + sys_served s + sys_stamped s \<le> gz_active (sys_gz s))"
proof -
  have "claims_ok (gz_new scope dir advertised version)" by (simp add: claims_ok_def roots_def gz_new_def)
  from pin_lines_claims [OF assms(1) this] have "gz_inv (pinned_roots g) s" by (rule gz_inv_reachable [OF assms(2)])
  then show ?thesis by (auto simp: gz_inv_def claims_ok_def roots_def pinned_roots_def split: if_splits)
qed

subsection \<open>A poisoned lock\<close>

text \<open>Once a request has panicked under the lock, the daemon answers no greeting of its own protocol and no request for a
  workspace any more, it never exits, and it never gives up a claim.\<close>

lemma poisoned_step:
  assumes "gz_step w member_idle idle s s'" "gz_poisoned (sys_gz s)" "\<not> sys_exited s" "claims_ok (sys_gz s)"
  shows "gz_poisoned (sys_gz s') \<and> \<not> sys_exited s' \<and> claims_ok (sys_gz s')"
  using assms
proof (induction rule: gz_step.induct)
  case (reply s req resp shut es g)
  then have "keeps (sys_gz s) g" using keeps_respond [of "sys_gz s" w req] by simp
  with reply show ?case by (simp add: keeps_def)
next
  case (panic s req g)
  then have "keeps (sys_gz s) g" using keeps_respond [of "sys_gz s" w req] by simp
  with panic show ?case by (simp add: keeps_def)
qed simp_all

lemma poisoned_refuses:
  assumes "gz_poisoned s"
  shows "m \<notin> {''hello'', ''shutdown'', ''build.subscribe''} \<Longrightarrow> gz_respond w (rpc_request m args) s = GzPanic s"
    and "hello_fits h \<Longrightarrow> he_protocol h = gz_advertised s \<Longrightarrow> ge_canon w (he_workspace_root h) = Inr root \<Longrightarrow>
      gz_respond w (req_hello h) s = GzPanic s"
  using assms by (simp_all add: gz_respond_def to_sole_def gz_hello_def req_hello_def hello.reads Let_def)

lemma malformed_build_poisons:
  assumes "gz_members s = [(root, m)]" "\<not> gz_poisoned s"
  shows "\<exists>s'. gz_respond w (rpc_request ''build'' CNull) s = GzPanic s' \<and> gz_poisoned s'"
  using assms build_without_args_panics by (simp add: gz_respond_def to_sole_def)

subsection \<open>A run outlives its claim\<close>

lemma gz_ticks:
  assumes "gz_reachable w member_idle idle g s" "\<not> sys_exited s"
  shows "gz_reachable w member_idle idle g (s\<lparr>sys_gz := (sys_gz s)\<lparr>gz_now := gz_now (sys_gz s) + n\<rparr>\<rparr>)"
proof (induction n)
  case 0
  show ?case using assms by simp
next
  case (Suc n)
  let ?s = "s\<lparr>sys_gz := (sys_gz s)\<lparr>gz_now := gz_now (sys_gz s) + n\<rparr>\<rparr>"
  have "gz_step w member_idle idle ?s (?s\<lparr>sys_gz := (sys_gz ?s)\<lparr>gz_now := gz_now (sys_gz ?s) + 1\<rparr>\<rparr>)"
    using assms(2) by (intro tick) simp
  with Suc show ?case unfolding gz_reachable_def by (simp add: rtranclp.rtrancl_into_rtrancl)
qed

definition demo_gz :: gz_env where
  "demo_gz = \<lparr>ge_canon = Inr, ge_acquire = (\<lambda>_. Inr ()), ge_mkdir = (\<lambda>_. Inr ()), ge_write = (\<lambda>_. Inr ()),
     ge_server = (\<lambda>root. demo_rpc)\<rparr>"

definition demo_greeting :: hello where
  "demo_greeting = \<lparr>he_build_version = ''1'', he_protocol = 1, he_workspace_root = ''/w''\<rparr>"

definition demo_start :: grazeld where
  "demo_start = gz_new ''s'' ''/h'' 1 ''1''"

text \<open>The state with \<open>c\<close> connections being served, \<open>e\<close> served, and the runs \<open>rs\<close> going on.\<close>

definition gz_at :: "grazeld \<Rightarrow> nat \<Rightarrow> nat \<Rightarrow> (string \<times> nat) list \<Rightarrow> gz_sys" where
  "gz_at g c e rs =
     \<lparr>sys_gz = g, sys_accepted = 0, sys_open = c, sys_served = e, sys_stamped = 0, sys_running = rs, sys_watch = WatchSleep,
      sys_exited = False\<rparr>"

text \<open>A connection comes in and is answered.\<close>

lemma gz_exchange:
  assumes "gz_reachable w member_idle idle g0 (gz_at g 0 e rs)"
    and "gz_respond w req (g\<lparr>gz_active := gz_active g + 1\<rparr>) = GzReply resp shut es g'"
  shows "gz_reachable w member_idle idle g0 (gz_at g' 0 (e + 1) (rs @ runs_of es))"
proof -
  let ?s1 = "(gz_at g 0 e rs)\<lparr>sys_accepted := 1\<rparr>" and ?s2 = "gz_at (g\<lparr>gz_active := gz_active g + 1\<rparr>) 1 e rs"
  have "gz_step w member_idle idle (gz_at g 0 e rs) ?s1"
    using accept [of "gz_at g 0 e rs" w member_idle idle] by (simp add: gz_at_def)
  moreover have "gz_step w member_idle idle ?s1 ?s2"
    using enter [of ?s1 w member_idle idle] by (simp add: gz_at_def)
  moreover have "gz_step w member_idle idle ?s2 (gz_at g' 0 (e + 1) (rs @ runs_of es))"
    using reply [of ?s2 w req resp shut es g' member_idle idle] assms(2) by (simp add: gz_at_def)
  ultimately show ?thesis using assms(1) unfolding gz_reachable_def by (meson rtranclp.rtrancl_into_rtrancl)
qed

definition demo_member :: member where
  "demo_member = \<lparr>mb_pinned = False, mb_last = 0, mb_runs = 0\<rparr>"

text \<open>After a greeting for \<open>/w\<close>, and after a run in it was started.\<close>

definition demo_greeted :: grazeld where
  "demo_greeted = demo_start\<lparr>gz_active := 1, gz_members := [(''/w'', demo_member)], gz_locks := {''/w''},
     gz_files := (gz_files demo_start)(member_file demo_start ''/w'' \<mapsto> member_line False ''/w'')\<rparr>"

definition demo_started :: grazeld where
  "demo_started = demo_greeted\<lparr>gz_active := 2, gz_members := [(''/w'', demo_member\<lparr>mb_runs := 1\<rparr>)]\<rparr>"

lemma demo_greets:
  "gz_respond demo_gz (req_hello demo_greeting) (demo_start\<lparr>gz_active := gz_active demo_start + 1\<rparr>) =
     GzReply (gz_ok (version_cbor (''1'', 1))) False [] demo_greeted"
proof -
  have "cbor_hello (hello_cbor demo_greeting) = Some demo_greeting"
    by (simp add: hello_cbor_def cbor_hello_def demo_greeting_def)
  moreover have "member_file (demo_start\<lparr>gz_active := Suc 0\<rparr>) r = member_file demo_start r" for r
    by (simp add: member_file_def members_dir_def demo_start_def gz_new_def)
  ultimately show ?thesis
    by (simp add: gz_respond_def gz_hello_def req_hello_def open_member_def demo_greeted_def demo_member_def demo_start_def gz_new_def
      demo_greeting_def demo_gz_def)
qed

lemma demo_starts:
  "gz_respond demo_gz (req_run ''t'' []) (demo_greeted\<lparr>gz_active := gz_active demo_greeted + 1\<rparr>) =
     GzReply (rpc_ok (started_cbor (inv_id 1))) False [(''/w'', EffRun 1 ''t'')] demo_started"
  by (simp add: gz_respond_def to_sole_def req_run_def demo_started_def demo_greeted_def demo_member_def demo_start_def gz_new_def
    demo_gz_def dispatch_rpc_def do_run_def envelope_def started_runs_def)

lemma demo_run_reached: "gz_reachable demo_gz member_idle idle demo_start (gz_at demo_started 0 2 [(''/w'', 1)])"
proof -
  have "gz_reachable demo_gz member_idle idle demo_start (gz_at demo_start 0 0 [])"
    by (simp add: gz_reachable_def gz_start_def gz_at_def)
  from gz_exchange [OF this demo_greets]
  have "gz_reachable demo_gz member_idle idle demo_start (gz_at demo_greeted 0 1 [])"
    by (simp add: runs_of_def List.map_filter_simps)
  from gz_exchange [OF this demo_starts] show ?thesis
    by (simp add: runs_of_def List.map_filter_simps numeral_2_eq_2)
qed

text \<open>C38: the claim of a workspace can be released while a run of it goes on: the run keeps its server, and the sweep sees a
  member that no request has used for longer than the limit, whatever the limit is.\<close>

theorem run_outlives_claim:
  "\<exists>w g s. gz_reachable w member_idle None g s \<and> gz_members g = [] \<and>
     (\<exists>root n. (root, n) \<in> set (sys_running s) \<and> root \<notin> gz_locks (sys_gz s))"
proof -
  let ?g = "demo_started\<lparr>gz_now := gz_now demo_started + (member_idle + 1)\<rparr>"
  let ?s = "gz_at ?g 0 2 [(''/w'', 1)]" and ?t = "gz_at (sweep_members member_idle ?g) 0 2 [(''/w'', 1)]"
  have "gz_reachable demo_gz member_idle None demo_start ?s"
    using gz_ticks [OF demo_run_reached, where n = "member_idle + 1"] by (simp add: gz_at_def)
  moreover have "gz_step demo_gz member_idle None ?s ?t"
    using sweep [of ?s demo_gz member_idle None]
    by (simp add: gz_at_def demo_started_def demo_greeted_def demo_start_def gz_new_def)
  ultimately have "gz_reachable demo_gz member_idle None demo_start ?t"
    unfolding gz_reachable_def by (rule rtranclp.rtrancl_into_rtrancl)
  moreover have "idle_members member_idle ?g = [''/w'']"
    by (simp add: idle_members_def demo_started_def demo_greeted_def demo_member_def demo_start_def gz_new_def)
  then have "''/w'' \<notin> gz_locks (sweep_members member_idle ?g)"
    by (simp add: sweep_members_def)
  moreover have "gz_members demo_start = []" by (simp add: demo_start_def gz_new_def)
  ultimately show ?thesis
    by (intro exI [of _ demo_gz] exI [of _ demo_start] exI [of _ ?t] conjI) (auto simp: gz_at_def)
qed

subsection \<open>An exit for idleness\<close>

text \<open>The watchdog decides on a count it read before: whatever the limit, the daemon can exit with a connection accepted,
  counted and not yet answered.\<close>

theorem idle_exit_cuts_connection:
  "\<exists>s. gz_reachable w member_idle (Some t) (gz_new scope dir advertised version) s \<and> sys_exited s \<and> sys_open s = 1"
proof -
  let ?g = "(gz_new scope dir advertised version)\<lparr>gz_now := t + 1\<rparr>"
  let ?step = "gz_step w member_idle (Some t)"
  let ?s = "gz_at ?g 0 0 []"
  let ?quiet = "?s\<lparr>sys_watch := WatchQuiet 0\<rparr>" and ?leaving = "?s\<lparr>sys_watch := WatchLeaving\<rparr>"
  let ?late = "?leaving\<lparr>sys_accepted := 1\<rparr>"
  let ?counted = "?leaving\<lparr>sys_gz := ?g\<lparr>gz_active := 1\<rparr>, sys_open := 1\<rparr>"
  let ?gone = "?counted\<lparr>sys_gz := cleanup (?g\<lparr>gz_active := 1\<rparr>), sys_exited := True\<rparr>"
  have "gz_reachable w member_idle (Some t) (gz_new scope dir advertised version) (gz_start (gz_new scope dir advertised version))"
    by (simp add: gz_reachable_def)
  from gz_ticks [OF this, of "t + 1"]
  have start: "?step\<^sup>*\<^sup>* (gz_start (gz_new scope dir advertised version)) ?s"
    by (simp add: gz_reachable_def gz_start_def gz_at_def gz_new_def)
  have "?step ?s (?s\<lparr>sys_watch := WatchSince 0\<rparr>)"
    using watch_since [of ?s "Some t" t w member_idle] by (simp add: gz_at_def gz_new_def)
  moreover have "?step (?s\<lparr>sys_watch := WatchSince 0\<rparr>) ?quiet"
    using watch_active [of "?s\<lparr>sys_watch := WatchSince 0\<rparr>" 0 w member_idle "Some t"] by (simp add: gz_at_def gz_new_def)
  moreover have "?step ?quiet ?leaving"
    using watch_elapsed [of ?quiet "Some t" t 0 w member_idle] by (simp add: gz_at_def gz_new_def)
  moreover have "?step ?leaving ?late"
    using accept [of ?leaving w member_idle "Some t"] by (simp add: gz_at_def)
  moreover have "?step ?late ?counted"
    using enter [of ?late w member_idle "Some t"] by (simp add: gz_at_def gz_new_def)
  moreover have "?step ?counted ?gone"
    using watch_exit [of ?counted w member_idle "Some t"] by (simp add: gz_at_def gz_new_def)
  ultimately have "?step\<^sup>*\<^sup>* ?s ?gone" by (meson converse_rtranclp_into_rtranclp r_into_rtranclp)
  with start have "gz_reachable w member_idle (Some t) (gz_new scope dir advertised version) ?gone"
    unfolding gz_reachable_def by (rule rtranclp_trans)
  then show ?thesis by (intro exI [of _ ?gone]) (simp add: gz_at_def)
qed

text \<open>A daemon with one pin, swept after a while: the pinned workspace keeps its claim.\<close>

definition demo_pins :: "string list" where
  "demo_pins = [''pinned=/p'']"

theorem scope_claims_exact_witness:
  "\<exists>g s. pin_lines demo_gz demo_pins demo_start = Inr g \<and> pinned_roots g = {''/p''} \<and>
     gz_reachable demo_gz 0 None g s \<and> gz_locks (sys_gz s) = fst ` set (gz_members (sys_gz s)) \<and>
     pinned_roots g \<subseteq> gz_locks (sys_gz s)"
proof -
  have root: "strip_prefix (str_trim ''pinned=/p'') ''pinned='' = Some ''/p''" "str_trim ''/p'' = ''/p''"
    by code_simp+
  obtain g where g: "pin_lines demo_gz demo_pins demo_start = Inr g" "pinned_roots g = {''/p''}" "\<not> gz_poisoned g"
    by (simp add: demo_pins_def root open_member_def demo_gz_def demo_start_def gz_new_def pinned_roots_def Collect_conv_if)
  let ?t = "(gz_start g)\<lparr>sys_gz := (sys_gz (gz_start g))\<lparr>gz_now := gz_now (sys_gz (gz_start g)) + 1\<rparr>\<rparr>"
  let ?s = "?t\<lparr>sys_gz := sweep_members 0 (sys_gz ?t)\<rparr>"
  have "gz_reachable demo_gz 0 None g (gz_start g)" by (simp add: gz_reachable_def)
  then have "gz_reachable demo_gz 0 None g ?t" by (rule gz_ticks) (simp add: gz_start_def)
  moreover have "gz_step demo_gz 0 None ?t ?s" by (rule sweep) (simp_all add: gz_start_def g)
  ultimately have r: "gz_reachable demo_gz 0 None g ?s" unfolding gz_reachable_def by (rule rtranclp.rtrancl_into_rtrancl)
  have "\<not> sys_exited ?s" by (simp add: gz_start_def)
  with g r scope_claims_exact [OF g(1) [unfolded demo_start_def] r] show ?thesis by blast
qed

end
