(* ===== verification/Http.thy ===== *)
theory Http
  imports Grazeld Std_Text Grazeld_Props
begin

section \<open>The HTTP edge\<close>

text \<open>
  \<^verbatim>\<open>crates/grazel-cli-lib/src/http.rs\<close>: one request for each connection, whose body is a request of the daemon and whose
  response body is its response.  A connection is the list of what its reads return; an empty read or the end of the list
  is the end of the stream.  Writes succeed.
\<close>

unbundle bit_operations_syntax

subsection \<open>Text\<close>

text \<open>\<open>String::from_utf8_lossy\<close>: every maximal part of an ill-formed sequence becomes U+FFFD.\<close>

definition utf8_replacement :: "byte list" where
  "utf8_replacement = [0xEF, 0xBF, 0xBD]"

definition second_ok :: "byte \<Rightarrow> byte \<Rightarrow> bool" where
  "second_ok a b \<longleftrightarrow>
     (if a = 0xe0 then 0xa0 \<le> b \<and> b \<le> 0xbf
      else if a = 0xed then 0x80 \<le> b \<and> b \<le> 0x9f
      else if a = 0xf0 then 0x90 \<le> b \<and> b \<le> 0xbf
      else if a = 0xf4 then 0x80 \<le> b \<and> b \<le> 0x8f
      else cont b)"

definition utf8_width :: "byte \<Rightarrow> nat" where
  "utf8_width a =
     (if a < 0x80 then 1 else if 0xc2 \<le> a \<and> a \<le> 0xdf then 2 else if 0xe0 \<le> a \<and> a \<le> 0xef then 3
      else if 0xf0 \<le> a \<and> a \<le> 0xf4 then 4 else 0)"

text \<open>The length of the well-formed part of a sequence after its first byte, at most \<open>n\<close>.\<close>

definition tail_len :: "byte \<Rightarrow> nat \<Rightarrow> byte list \<Rightarrow> nat" where
  "tail_len a n bs =
     (case take n bs of
        b # cs \<Rightarrow> if second_ok a b then 1 + length (takeWhile cont cs) else 0
      | [] \<Rightarrow> 0)"

function utf8_lossy :: "byte list \<Rightarrow> byte list" where
  "utf8_lossy [] = []"
| "utf8_lossy (a # bs) =
     (let w = utf8_width a; n = tail_len a (w - 1) bs
      in if w = 0 then utf8_replacement @ utf8_lossy bs
         else (if n + 1 = w then a # take n bs else utf8_replacement) @ utf8_lossy (drop n bs))"
  by pat_completeness auto
termination
  by (relation "measure length") auto

definition lossy_str :: "byte list \<Rightarrow> string" where
  "lossy_str bs = bytes_str (utf8_lossy bs)"

definition eq_ignore_case :: "string \<Rightarrow> string \<Rightarrow> bool" where
  "eq_ignore_case a b \<longleftrightarrow> map to_lower a = map to_lower b"

subsection \<open>Reading a request\<close>

definition head_end :: "byte list" where
  "head_end = [0x0D, 0x0A, 0x0D, 0x0A]"

text \<open>\<open>buf.windows(4).position(...)\<close>.\<close>

fun find_head :: "byte list \<Rightarrow> nat option" where
  "find_head [] = None"
| "find_head (b # bs) = (if take 4 (b # bs) = head_end then Some 0 else map_option Suc (find_head bs))"

datatype head_read = HeadAt nat "byte list" "byte list list" | HeadTooLarge | HeadGone

definition head_limit :: nat where
  "head_limit = 64 * 1024"

fun read_head :: "byte list \<Rightarrow> byte list list \<Rightarrow> head_read" where
  "read_head buf chunks =
     (case find_head buf of
        Some p \<Rightarrow> HeadAt p buf chunks
      | None \<Rightarrow>
          if head_limit < length buf then HeadTooLarge
          else (case chunks of [] \<Rightarrow> HeadGone | c # cs \<Rightarrow> if c = [] then HeadGone else read_head (buf @ c) cs))"

declare read_head.simps [simp del]

fun read_body :: "nat \<Rightarrow> byte list \<Rightarrow> byte list list \<Rightarrow> byte list option" where
  "read_body n body chunks =
     (if n \<le> length body then Some body
      else (case chunks of [] \<Rightarrow> None | c # cs \<Rightarrow> if c = [] then None else read_body n (body @ c) cs))"

declare read_body.simps [simp del]

definition header_value :: "string list \<Rightarrow> string \<Rightarrow> string option" where
  "header_value lines name =
     map_option (\<lambda>(k, v). str_trim v)
       (find (\<lambda>(k, v). eq_ignore_case k name) (List.map_filter (\<lambda>l. split_once l (CHR '':'')) lines))"

definition content_length :: "string list \<Rightarrow> nat" where
  "content_length lines =
     (case Option.bind (header_value lines ''content-length'') (parse_uint (2 ^ 64)) of Some n \<Rightarrow> n | None \<Rightarrow> 0)"

definition word_at :: "string list \<Rightarrow> nat \<Rightarrow> string" where
  "word_at ws i = (if i < length ws then ws ! i else [])"

subsection \<open>Answering\<close>

definition crlf :: string where
  "crlf = [CHR 0x0D, CHR 0x0A]"

definition respond_http :: "string \<Rightarrow> byte list \<Rightarrow> byte list" where
  "respond_http status body =
     str_bytes (''HTTP/1.1 '' @ status @ crlf @ ''Content-Type: application/cbor'' @ crlf @
       ''Content-Length: '' @ dec (length body) @ crlf @ ''Connection: close'' @ crlf @ crlf) @ body"

datatype http_outcome =
    HoGone
  | HoPanic grazeld
  | HoPlain "byte list"
  | HoUpgrade string
  | HoReply "byte list" bool "(string \<times> rpc_effect) list" grazeld

definition http_handle :: "gz_env \<Rightarrow> byte list list \<Rightarrow> grazeld \<Rightarrow> http_outcome" where
  "http_handle w chunks s =
     (case read_head [] chunks of
        HeadGone \<Rightarrow> HoGone
      | HeadTooLarge \<Rightarrow> HoPlain (respond_http ''431 Request Header Fields Too Large'' [])
      | HeadAt p buf rest \<Rightarrow>
          (let lines = str_lines (lossy_str (take p buf));
               words = split_whitespace (word_at lines 0);
               headers = drop 1 lines
           in if word_at words 0 = ''GET'' \<and> word_at words 1 = ''/events'' then
                (case header_value headers ''sec-websocket-key'' of
                   Some key \<Rightarrow> HoUpgrade key
                 | None \<Rightarrow> HoPlain (respond_http ''400 Bad Request'' []))
              else if word_at words 1 \<noteq> ''/rpc'' then HoPlain (respond_http ''404 Not Found'' [])
              else if word_at words 0 \<noteq> ''POST'' then HoPlain (respond_http ''405 Method Not Allowed'' [])
              else
                (case read_body (content_length headers) (drop (p + 4) buf) rest of
                   None \<Rightarrow> HoGone
                 | Some body \<Rightarrow>
                     (case decode body of
                        None \<Rightarrow> HoPanic s
                      | Some req \<Rightarrow>
                          (case gz_respond w req s of
                             GzPanic s1 \<Rightarrow> HoPanic s1
                           | GzReply resp shut es s1 \<Rightarrow> HoReply (respond_http ''200 OK'' (enc resp)) shut es s1)))))"

section \<open>The HTTP edge carries what the socket carries\<close>

text \<open>
  However the network cuts a request into reads, the edge finds its head and its body, and the response body is the
  response that the socket would have framed.
\<close>

subsection \<open>The text of a head\<close>

lemma utf8_lossy_ok: "utf8_ok bs \<Longrightarrow> utf8_lossy bs = bs"
proof (induction bs rule: utf8_ok.induct)
  case (2 a bs)
  show ?case
  proof (cases "a < 0x80")
    case True
    with 2 show ?thesis by (simp add: utf8_width_def tail_len_def)
  next
    case False
    with 2(5) obtain b bs1 where b: "bs = b # bs1" by (auto split: list.splits)
    show ?thesis
    proof (cases "0xc2 \<le> a \<and> a \<le> 0xdf")
      case True
      with 2(5) False b have "cont b" "utf8_ok bs1" by auto
      moreover have "utf8_width a = 2" "second_ok a b = cont b"
        using True False by (auto simp: utf8_width_def second_ok_def)
      ultimately show ?thesis using 2(2) [OF False b True] by (simp add: tail_len_def b)
    next
      case no2: False
      with 2(5) False b obtain c bs2 where c: "bs1 = c # bs2" by (auto split: list.splits)
      show ?thesis
      proof (cases "0xe0 \<le> a \<and> a \<le> 0xef")
        case True
        with 2(5) False b c no2 have ok: "cont b" "cont c" "a = 0xe0 \<longrightarrow> 0xa0 \<le> b" "a = 0xed \<longrightarrow> b \<le> 0x9f" "utf8_ok bs2"
          by auto
        moreover have "utf8_width a = 3" using True False no2 by (auto simp: utf8_width_def)
        moreover have "second_ok a b" using ok True by (auto simp: second_ok_def cont_def)
        ultimately show ?thesis using 2(3) [OF False b no2 c True] by (simp add: tail_len_def b c)
      next
        case no3: False
        with 2(5) False b c no2 obtain d bs3 where d: "bs2 = d # bs3" by (auto split: list.splits)
        with 2(5) False b c no2 no3 have ok: "0xf0 \<le> a" "a \<le> 0xf4" "cont b" "cont c" "cont d"
          "a = 0xf0 \<longrightarrow> 0x90 \<le> b" "a = 0xf4 \<longrightarrow> b \<le> 0x8f" "utf8_ok bs3" by auto
        moreover have "utf8_width a = 4" using ok(1,2) False no2 no3 by (auto simp: utf8_width_def)
        moreover have "second_ok a b" using ok no3 by (auto simp: second_ok_def cont_def)
        ultimately show ?thesis using 2(4) [OF False b no2 c no3 d] by (simp add: tail_len_def b c d)
      qed
    qed
  qed
qed simp

subsection \<open>Reading\<close>

lemma find_head_append: "find_head xs = Some p \<Longrightarrow> find_head (xs @ ys) = Some p \<and> p + 4 \<le> length xs"
proof (induction xs arbitrary: p)
  case (Cons x xs)
  show ?case
  proof (cases "take 4 (x # xs) = head_end")
    case True
    then have "length (take 4 (x # xs)) = length head_end" by (rule arg_cong)
    then have l: "3 \<le> length xs" by (auto simp: head_end_def min_def split: if_splits)
    then have "take 4 ((x # xs) @ ys) = take 4 (x # xs)" by simp
    with True l Cons.prems show ?thesis by simp
  next
    case False
    with Cons.prems obtain q where q: "find_head xs = Some q" "p = Suc q" by auto
    with Cons.IH [OF q(1)] have *: "find_head (xs @ ys) = Some q" "q + 4 \<le> length xs" by auto
    then have "take 4 ((x # xs) @ ys) = take 4 (x # xs)" by simp
    with False * q show ?thesis by simp
  qed
qed simp

lemma find_head_inside: "find_head (buf @ ys) = Some p \<Longrightarrow> p + 4 \<le> length buf \<Longrightarrow> find_head buf = Some p"
proof (induction buf arbitrary: p)
  case (Cons x xs)
  show ?case
  proof (cases "take 4 (x # xs) = head_end")
    case True
    then have "take 4 (x # xs @ ys) = head_end" using Cons.prems(2) by (simp add: head_end_def)
    with True Cons.prems(1) show ?thesis by simp
  next
    case False
    show ?thesis
    proof (cases "length xs < 3")
      case True
      with Cons.prems have "p = 0 \<and> False" by simp
      then show ?thesis by simp
    next
      case l: False
      then have t: "take 4 (x # xs @ ys) = take 4 (x # xs)" by simp
      with False Cons.prems(1) obtain q where "find_head (xs @ ys) = Some q" "p = Suc q" by auto
      with Cons.IH [of q] Cons.prems(2) False show ?thesis by simp
    qed
  qed
qed simp

lemma read_head_finds:
  assumes "find_head msg = Some p" "p + 4 \<le> head_limit" "buf @ concat chunks = msg" "[] \<notin> set chunks"
  shows "\<exists>buf' rest. read_head buf chunks = HeadAt p buf' rest \<and> buf' @ concat rest = msg \<and> [] \<notin> set rest \<and> p + 4 \<le> length buf'"
  using assms(3,4)
proof (induction chunks arbitrary: buf)
  case Nil
  with assms(1) find_head_append [OF assms(1), of "[]"] show ?case by (subst read_head.simps) auto
next
  case (Cons c cs)
  show ?case
  proof (cases "find_head buf")
    case None
    have "length buf \<le> head_limit"
      using find_head_inside [of buf "concat (c # cs)" p] assms(1,2) Cons.prems(1) None by (cases "p + 4 \<le> length buf") auto
    with None Cons.prems Cons.IH [of "buf @ c"] show ?thesis by (subst read_head.simps) auto
  next
    case (Some q)
    with find_head_append [OF Some, of "concat (c # cs)"] Cons.prems assms(1)
    show ?thesis by (subst read_head.simps) auto
  qed
qed

lemma read_body_all:
  "body @ concat chunks = msg \<Longrightarrow> length msg = n \<Longrightarrow> [] \<notin> set chunks \<Longrightarrow> read_body n body chunks = Some msg"
proof (induction chunks arbitrary: body)
  case Nil
  then show ?case by (subst read_body.simps) simp
next
  case (Cons c cs)
  then have "\<not> n \<le> length body" by auto
  with Cons show ?case by (subst read_body.simps) auto
qed

subsection \<open>One protocol, two transports\<close>

text \<open>A head that posts \<open>n\<close> bytes to the daemon.\<close>

definition post_head :: "byte list \<Rightarrow> nat \<Rightarrow> bool" where
  "post_head hdr n \<longleftrightarrow>
     (let lines = str_lines (lossy_str hdr); words = split_whitespace (word_at lines 0)
      in word_at words 0 = ''POST'' \<and> word_at words 1 = ''/rpc'' \<and> content_length (drop 1 lines) = n)"

definition http_request :: "byte list \<Rightarrow> cbor \<Rightarrow> byte list" where
  "http_request hdr req = hdr @ head_end @ enc req"

lemma http_answers:
  assumes "find_head (hdr @ head_end) = Some (length hdr)" "length hdr + 4 \<le> head_limit" "post_head hdr (length (enc req))"
    and "concat chunks = http_request hdr req" "[] \<notin> set chunks" "sendable req" "canon req = req"
  shows "http_handle w chunks s =
    (case gz_respond w req s of
       GzPanic s1 \<Rightarrow> HoPanic s1
     | GzReply resp shut es s1 \<Rightarrow> HoReply (respond_http ''200 OK'' (enc resp)) shut es s1)"
proof -
  have f: "find_head (http_request hdr req) = Some (length hdr)"
    using find_head_append [OF assms(1), of "enc req"] by (simp add: http_request_def)
  obtain buf rest where r: "read_head [] chunks = HeadAt (length hdr) buf rest" "buf @ concat rest = http_request hdr req"
    "[] \<notin> set rest" "length hdr + 4 \<le> length buf"
    using read_head_finds [OF f assms(2), of "[]" chunks] assms(4,5) by auto
  have hdr: "take (length hdr) buf = hdr"
    using arg_cong [OF r(2), of "take (length hdr)"] r(4) by (simp add: http_request_def)
  have "drop (length hdr + 4) (buf @ concat rest) = enc req"
    unfolding r(2) by (simp add: http_request_def head_end_def)
  then have "drop (length hdr + 4) buf @ concat rest = enc req" using r(4) by simp
  then have b: "read_body (length (enc req)) (drop (length hdr + 4) buf) rest = Some (enc req)"
    by (rule read_body_all) (simp_all add: r(3))
  show ?thesis
    using assms(3) by (simp add: http_handle_def r(1) hdr post_head_def Let_def b sendable_decode [OF assms(6,7)])
qed

lemma socket_answers:
  assumes "write_frame (enc req) = Some f" "sendable req" "canon req = req"
    and "cbor_get req 1 = Some (text_cbor m)" "\<not> stream_method m"
  shows "gz_handle w f s =
    (case gz_respond w req s of GzPanic s1 \<Rightarrow> GoPanic s1 | GzReply resp shut es s1 \<Rightarrow> frame_reply resp shut es s1)"
proof -
  have "length (enc req) < 2 ^ 32" using assms(2) by (simp add: sendable_def)
  from frame_round_trip [OF this, of "[]"] assms(1) have "read_frame f = Some (enc req, [])" by auto
  then show ?thesis using assms(4,5) by (simp add: gz_handle_def sendable_decode [OF assms(2,3)])
qed

lemma socket_streams:
  assumes "write_frame (enc req) = Some f" "sendable req" "canon req = req"
    and "cbor_get req 1 = Some (text_cbor m)" "stream_method m" "\<not> gz_poisoned s"
  shows "gz_handle w f s =
    (case sole_member_server s of Inl e \<Rightarrow> frame_reply (gz_err e) False [] s | Inr root \<Rightarrow> GoHandOver root f)"
proof -
  have l: "length (enc req) < 2 ^ 32" using assms(2) by (simp add: sendable_def)
  with frame_round_trip [OF l, of "[]"] assms(1) have r: "read_frame f = Some (enc req, [])" by auto
  from l assms(1) have "replay_frame (enc req) = f" by (auto simp: replay_frame_def write_frame_def split: if_splits)
  with r show ?thesis using assms(4-6)
    by (simp add: gz_handle_def sendable_decode [OF assms(2,3)] split: sum.split)
qed

text \<open>C36: A request is a map in canonical CBOR with a method, of less than 2^32 bytes, and it is posted to \<open>/rpc\<close> with its own
  length as the content length, under a head that fits the limit.  In whatever pieces it arrives, a request whose method is no
  stream has the same effects and the same response bytes over HTTP as in a frame of the socket, and the two panic together;
  only a response too long for a frame is answered over HTTP alone.  The two streams are not served over HTTP: the socket
  hands the connection over to the server of the sole member, with the frame replayed, where HTTP answers
  \<open>build.subscribe\<close> with an error and starts nothing.\<close>

theorem http_is_socket:
  assumes "find_head (hdr @ head_end) = Some (length hdr)" "length hdr + 4 \<le> head_limit" "post_head hdr (length (enc req))"
    and "concat chunks = http_request hdr req" "[] \<notin> set chunks" "sendable req" "canon req = req"
    and "cbor_get req 1 = Some (text_cbor m)"
  shows "\<exists>f. write_frame (enc req) = Some f \<and>
    (if stream_method m then
       (\<not> gz_poisoned s \<longrightarrow> gz_handle w f s =
          (case sole_member_server s of Inl e \<Rightarrow> frame_reply (gz_err e) False [] s | Inr root \<Rightarrow> GoHandOver root f)) \<and>
       (m = ''build.subscribe'' \<longrightarrow> (\<exists>e. http_handle w chunks s = HoReply (respond_http ''200 OK'' (enc (gz_err e))) False [] s))
     else
       (case gz_handle w f s of
          GoPanic s1 \<Rightarrow> http_handle w chunks s = HoPanic s1
        | GoIoError \<Rightarrow> \<exists>resp shut es s1. http_handle w chunks s = HoReply (respond_http ''200 OK'' (enc resp)) shut es s1 \<and>
            2 ^ 32 \<le> length (enc resp)
        | GoFrame r shut es s1 \<Rightarrow> \<exists>body. write_frame body = Some r \<and>
            http_handle w chunks s = HoReply (respond_http ''200 OK'' body) shut es s1
        | GoHandOver root bytes \<Rightarrow> False))"
proof -
  obtain f where f: "write_frame (enc req) = Some f" using sendable_frame [OF assms(6)] by blast
  note h = http_answers [OF assms(1-7), of w s]
  show ?thesis
  proof (cases "stream_method m")
    case True
    have "http_handle w chunks s = HoReply (respond_http ''200 OK'' (enc (gz_err ''build.subscribe via grazeld arrives with GR3''))) False [] s"
      if "m = ''build.subscribe''"
      using h assms(8) that by (simp add: gz_respond_def)
    with True f socket_streams [OF f assms(6-8) True] show ?thesis by auto
  next
    case False
    note g = socket_answers [OF f assms(6-8) False, of w s]
    show ?thesis
    proof (cases "gz_respond w req s")
      case (GzPanic s1)
      then show ?thesis using f g h False by simp
    next
      case (GzReply resp shut es s1)
      then have "2 ^ 32 \<le> length (enc resp)" if "write_frame (enc resp) = None"
        using that by (auto simp: write_frame_def split: if_splits)
      then show ?thesis using f g h GzReply False by (cases "write_frame (enc resp)") (auto simp: frame_reply_def)
    qed
  qed
qed

definition demo_head :: "byte list" where
  "demo_head = str_bytes (''POST /rpc HTTP/1.1'' @ crlf @ ''Content-Length: 12'')"

theorem http_is_socket_witness:
  "\<exists>f body r. write_frame (enc req_version) = Some f \<and> write_frame body = Some r \<and>
     gz_handle demo_gz f demo_start = GoFrame r False [] demo_start \<and>
     http_handle demo_gz [take 10 (http_request demo_head req_version), drop 10 (http_request demo_head req_version)] demo_start =
       HoReply (respond_http ''200 OK'' body) False [] demo_start"
proof -
  have send: "sendable req_version" "canon req_version = req_version" "length (enc req_version) = 12"
    by (simp_all add: sendable_def req_version_def rpc_request_def text_cbor_def str_bytes_def head_def i64_ok_def as_u64_def)
  have lines: "str_lines (lossy_str demo_head) = [''POST /rpc HTTP/1.1'', ''Content-Length: 12'']" by code_simp
  have words: "split_whitespace ''POST /rpc HTTP/1.1'' = [''POST'', ''/rpc'', ''HTTP/1.1'']" by code_simp
  have val: "header_value [''Content-Length: 12''] ''content-length'' = Some ''12''" by code_simp
  have "parse_uint (2 ^ 64) ''12'' = Some 12" by (simp add: parse_uint_def digit_val_def)
  then have post: "post_head demo_head 12"
    by (simp add: post_head_def lines word_at_def words content_length_def val)
  have fits: "find_head (demo_head @ head_end) = Some (length demo_head)" by code_simp
  have "length demo_head = 38" by (simp add: demo_head_def crlf_def str_bytes_def)
  with fits post have hdr: "find_head (demo_head @ head_end) = Some (length demo_head)" "length demo_head + 4 \<le> head_limit"
    "post_head demo_head 12" "10 < length demo_head"
    by (simp_all add: head_limit_def)
  let ?chunks = "[take 10 (http_request demo_head req_version), drop 10 (http_request demo_head req_version)]"
  have parts: "concat ?chunks = http_request demo_head req_version" "[] \<notin> set ?chunks"
    using hdr(4) by (auto simp: http_request_def head_end_def)
  have m: "cbor_get req_version 1 = Some (text_cbor ''version'')" "\<not> stream_method ''version''"
    by (simp_all add: req_version_def stream_method_def)
  from http_is_socket [OF hdr(1,2) _ parts send(1,2) m(1), where w = demo_gz and s = demo_start] send(3) hdr(3) m(2)
  obtain f where f: "write_frame (enc req_version) = Some f"
    and c: "case gz_handle demo_gz f demo_start of
       GoPanic s1 \<Rightarrow> http_handle demo_gz ?chunks demo_start = HoPanic s1
     | GoIoError \<Rightarrow> \<exists>resp shut es s1. http_handle demo_gz ?chunks demo_start = HoReply (respond_http ''200 OK'' (enc resp)) shut es s1 \<and>
         2 ^ 32 \<le> length (enc resp)
     | GoFrame r shut es s1 \<Rightarrow> \<exists>body. write_frame body = Some r \<and>
         http_handle demo_gz ?chunks demo_start = HoReply (respond_http ''200 OK'' body) shut es s1
     | GoHandOver root bytes \<Rightarrow> False"
    by auto
  have "gz_respond demo_gz req_version demo_start = GzReply (gz_err no_member) False [] demo_start"
    by (simp add: gz_respond_def req_version_def to_sole_def demo_start_def gz_new_def)
  moreover have "sendable (gz_err no_member)"
    by (simp add: sendable_def gz_err_def no_member_def text_cbor_def str_bytes_def head_def i64_ok_def as_u64_def)
  then obtain r where "write_frame (enc (gz_err no_member)) = Some r" using sendable_frame by blast
  ultimately have "gz_handle demo_gz f demo_start = GoFrame r False [] demo_start"
    using socket_answers [OF f send(1,2) m, of demo_gz demo_start] by (simp add: frame_reply_def)
  with c f show ?thesis by auto
qed

end
