(* ===== verification/Dial.thy ===== *)
theory Dial
  imports Grazeld Rpc_Streams Wire_Types
begin

section \<open>Dialing a scope\<close>

text \<open>
  \<^verbatim>\<open>crates/grazel-cli-lib/src/dial.rs\<close>: how a client finds the daemon of its scope, starts or replaces it, and follows a
  run.  What the world answers (calls, the pid file, the launch) is an argument; what the client does to it is a list of
  effects.  \<open>None\<close> is a panic.
\<close>

subsection \<open>Greeting\<close>

datatype hello_err = HeConnect string | HeApp string

definition try_hello :: "string + cbor \<Rightarrow> (hello_err + version_info) option" where
  "try_hello call =
     (case call of
        Inl e \<Rightarrow> Some (Inl (HeConnect e))
      | Inr resp \<Rightarrow>
          Option.bind (rpc_payload resp) (\<lambda>r.
            case r of Inl e \<Rightarrow> Some (Inl (HeApp e)) | Inr c \<Rightarrow> map_option Inr (cbor_version c)))"

definition gz_req_hello :: "string \<Rightarrow> string \<Rightarrow> cbor" where
  "gz_req_hello version root =
     rpc_request ''hello'' (hello_cbor \<lparr>he_build_version = version, he_protocol = protocol_rev, he_workspace_root = root\<rparr>)"

definition pid_key :: string where
  "pid_key = [CHR 0x22] @ ''pid'' @ [CHR 0x22] @ '':''"

text \<open>The pid in \<open>daemon.json\<close>: the digits after its key, which something must follow.\<close>

definition daemon_pid :: "string option \<Rightarrow> nat option" where
  "daemon_pid json =
     Option.bind json (\<lambda>src.
     Option.bind (split_once_str src pid_key) (\<lambda>(_, rest).
       let digits = (case split_once_str rest pid_key of Some (d, _) \<Rightarrow> d | None \<Rightarrow> rest);
           ds = takeWhile is_digit digits
       in if ds = digits then None else parse_u32 ds))"

text \<open>The attempts within the patience; an answer of the daemon ends them, whatever it is.\<close>

fun hello_loop :: "string \<Rightarrow> string \<Rightarrow> (hello_err + version_info) list \<Rightarrow> string + version_info" where
  "hello_loop sock seen [] = Inl (''daemon at '' @ sock @ '' never answered hello: '' @ seen)"
| "hello_loop sock seen (Inr v # rest) = Inr v"
| "hello_loop sock seen (Inl (HeApp e) # rest) = Inl e"
| "hello_loop sock seen (Inl (HeConnect e) # rest) = hello_loop sock e rest"

definition hello_attempts :: nat where
  "hello_attempts = 200"

definition hello_or_fail :: "string \<Rightarrow> (nat \<Rightarrow> hello_err + version_info) \<Rightarrow> string + version_info" where
  "hello_or_fail sock answers = hello_loop sock [] (map answers [0..<hello_attempts])"

subsection \<open>Ensuring a daemon\<close>

datatype dial_effect = DeStop | DeRemoveSocket | DeLaunch

record dial_world =
  dw_first :: "hello_err + version_info"
  dw_sock :: bool
  dw_json :: "string option"
  dw_alive :: "nat \<Rightarrow> bool"
  dw_stop :: "string + bool"
  dw_launch :: "string + unit"
  dw_answers :: "nat \<Rightarrow> hello_err + version_info"
  dw_json_after :: "string option"

record dial_outcome =
  do_version :: version_info
  do_pid :: nat
  do_restarted :: bool

definition dial_done :: "scope_paths \<Rightarrow> string option \<Rightarrow> version_info \<Rightarrow> bool \<Rightarrow> string + dial_outcome" where
  "dial_done p json v restarted =
     (case daemon_pid json of
        None \<Rightarrow> Inl (''daemon answered but '' @ sp_daemon_json p @ '' has no pid'')
      | Some pid \<Rightarrow> Inr \<lparr>do_version = v, do_pid = pid, do_restarted = restarted\<rparr>)"

definition scope_debug :: "scope_paths \<Rightarrow> string" where
  "scope_debug p = ''scope '' @ debug_str (sp_scope p)"

definition ensure_mismatch :: "dial_world \<Rightarrow> scope_paths \<Rightarrow> bool \<Rightarrow> version_info \<Rightarrow> (string + dial_outcome) \<times> dial_effect list" where
  "ensure_mismatch w p autostart v =
     (if \<not> autostart then
        (Inl (scope_debug p @ '' daemon speaks wire protocol '' @ int_dec (snd v) @ '', client speaks '' @
           int_dec protocol_rev @ '' (--no_autostart: not restarting)''), [])
      else
        (case dw_stop w of
           Inl e \<Rightarrow> (Inl e, [DeStop])
         | Inr _ \<Rightarrow>
             (case dw_launch w of
                Inl e \<Rightarrow> (Inl e, [DeStop, DeLaunch])
              | Inr _ \<Rightarrow>
                  (res_bind (hello_or_fail (sp_socket p) (dw_answers w)) (\<lambda>v2.
                     if snd v2 \<noteq> protocol_rev then Inl (''relaunched daemon STILL speaks '' @ int_dec (snd v2))
                     else dial_done p (dw_json_after w) v2 True), [DeStop, DeLaunch]))))"

definition ensure_cold :: "dial_world \<Rightarrow> scope_paths \<Rightarrow> bool \<Rightarrow> (string + dial_outcome) \<times> dial_effect list" where
  "ensure_cold w p autostart =
     (if \<not> autostart then (Inl (''no daemon for '' @ scope_debug p @ '' (--no_autostart)''), [])
      else
        (case dw_launch w of
           Inl e \<Rightarrow> (Inl e, [DeRemoveSocket, DeLaunch])
         | Inr _ \<Rightarrow>
             (res_bind (hello_or_fail (sp_socket p) (dw_answers w)) (\<lambda>v. dial_done p (dw_json_after w) v False),
              [DeRemoveSocket, DeLaunch])))"

definition ensure_connect :: "dial_world \<Rightarrow> scope_paths \<Rightarrow> bool \<Rightarrow> string \<Rightarrow> (string + dial_outcome) \<times> dial_effect list" where
  "ensure_connect w p autostart e =
     (case daemon_pid (dw_json w) of
        Some pid \<Rightarrow>
          if dw_alive w pid \<and> dw_sock w then
            (Inl (scope_debug p @ '' daemon (pid '' @ dec pid @ '') is alive but its socket refuses: '' @ e), [])
          else ensure_cold w p autostart
      | None \<Rightarrow> ensure_cold w p autostart)"

definition dial_ensure :: "dial_world \<Rightarrow> scope_paths \<Rightarrow> bool \<Rightarrow> (string + dial_outcome) \<times> dial_effect list" where
  "dial_ensure w p autostart =
     (case dw_first w of
        Inr v \<Rightarrow>
          if snd v = protocol_rev then (dial_done p (dw_json w) v False, []) else ensure_mismatch w p autostart v
      | Inl (HeApp e) \<Rightarrow> (Inl (scope_debug p @ '' hello rejected: '' @ e), [])
      | Inl (HeConnect e) \<Rightarrow> ensure_connect w p autostart e)"

subsection \<open>Following a run\<close>

text \<open>The frames of the event log as the client reads them; the end of the list is an I/O error.\<close>

fun follow_run :: "string \<Rightarrow> cbor list \<Rightarrow> (string + build_result) option" where
  "follow_run i [] = Some (Inl ''event stream: failed to fill whole buffer'')"
| "follow_run i (fr # frs) =
     Option.bind (rpc_payload fr) (\<lambda>r.
       case r of
         Inl e \<Rightarrow> Some (Inl e)
       | Inr c \<Rightarrow>
           Option.bind (cbor_event c) (\<lambda>ev.
             if ev_invocation ev \<noteq> i then follow_run i frs
             else (case ev_result ev of Some br \<Rightarrow> Some (Inr br) | None \<Rightarrow> follow_run i frs)))"

definition progress_line :: "progress \<Rightarrow> string" where
  "progress_line p =
     ''['' @ pr_phase p @ ''] '' @ int_dec (pr_done p) @ ''/'' @ int_dec (pr_total p) @
     (case pr_detail p of Some d \<Rightarrow> '' '' @ d | None \<Rightarrow> [])"

text \<open>What becomes of the result: the program to run, or an error.\<close>

definition run_verdict :: "string \<Rightarrow> string \<Rightarrow> build_result \<Rightarrow> string + string" where
  "run_verdict workspace target r =
     (if br_status r \<noteq> StBuilt then
        Inl (''run '' @ target @ '': build failed'' @ (case br_message r of Some m \<Rightarrow> '': '' @ m | None \<Rightarrow> []))
      else
        (case br_outputs r of
           [] \<Rightarrow> Inl (''run '' @ target @ '': produced no runnable output'')
         | (path, _) # _ \<Rightarrow> Inr (path_push workspace path)))"

definition run_exit_code :: "int option \<Rightarrow> int" where
  "run_exit_code code = min 255 (max 0 (case code of Some c \<Rightarrow> c | None \<Rightarrow> 1))"

section \<open>Properties of dialing\<close>

text \<open>
  Without leave to start a daemon a dial does nothing to the world; a client that follows the log of a daemon gets the
  result of the run it started and of no other.
\<close>

lemma no_autostart_no_effect: "snd (dial_ensure w p False) = []"
  by (simp add: dial_ensure_def ensure_mismatch_def ensure_connect_def ensure_cold_def
    split: sum.split hello_err.split option.split)

text \<open>A daemon that answers is never replaced unless it speaks another protocol, and one that refuses is left alone.\<close>

lemma dial_effects:
  "snd (dial_ensure w p autostart) \<noteq> [] \<Longrightarrow>
     (\<exists>v. dw_first w = Inr v \<and> snd v \<noteq> protocol_rev) \<or> (\<exists>e. dw_first w = Inl (HeConnect e))"
  by (auto simp: dial_ensure_def split: sum.splits hello_err.splits if_splits)

text \<open>After a cold start the protocol of the answer is not compared.\<close>

lemma dial_protocol:
  "fst (dial_ensure w p autostart) = Inr r \<Longrightarrow> snd (do_version r) = protocol_rev \<or> DeRemoveSocket \<in> set (snd (dial_ensure w p autostart))"
  by (auto simp: dial_ensure_def ensure_mismatch_def ensure_connect_def ensure_cold_def dial_done_def res_bind_Inr_iff
    split: sum.splits hello_err.splits option.splits if_splits)

subsection \<open>Following a run\<close>

definition log_frame :: "invocation_event \<Rightarrow> cbor" where
  "log_frame ev = rpc_ok (event_cbor ev)"

lemma follow_frame:
  "event_fits ev \<Longrightarrow> follow_run i (log_frame ev # frs) =
     (if ev_invocation ev \<noteq> i then follow_run i frs
      else (case ev_result ev of Some br \<Rightarrow> Some (Inr br) | None \<Rightarrow> follow_run i frs))"
  by (simp add: log_frame_def rpc_ok_def rpc_payload_def event.reads)

lemma follow_events:
  assumes "\<forall>ev \<in> set evs. event_fits ev"
  shows "follow_run (inv_id n) (map log_frame evs) =
    (case List.map_filter ev_result (events_of n evs) of
       br # _ \<Rightarrow> Some (Inr br)
     | [] \<Rightarrow> Some (Inl ''event stream: failed to fill whole buffer''))"
  using assms by (induction evs) (simp_all add: follow_frame events_of_def List.map_filter_simps del: follow_run.simps(2) split: option.split)

lemma run_history_results:
  "List.map_filter ev_result (run_history n r) = (case r of Some (RunDone t br) \<Rightarrow> [br] | _ \<Rightarrow> [])"
  by (simp add: run_history_def load_event_def result_event_def run_event_def List.map_filter_simps
    split: option.split run_state.split)

lemma results_of_prefix:
  "List.map_filter f (take k xs) = [] \<or> (\<exists>b bs cs. List.map_filter f (take k xs) = b # bs \<and> List.map_filter f xs = b # cs)"
proof -
  have "List.map_filter f xs = List.map_filter f (take k xs) @ List.map_filter f (drop k xs)"
    by (metis append_take_drop_id filter_append map_append List.map_filter_def)
  then show ?thesis by (cases "List.map_filter f (take k xs)") auto
qed

text \<open>C39: a client that follows the log of the daemon over its subscription gets either the end of its stream or the result of
  the very run it started; and once the run is done and the subscription has delivered everything, it gets that result.\<close>

theorem follower_gets_its_run:
  assumes "log_reachable s" "lg_subs s c = Some u" "\<forall>ev \<in> set (lg_events s). event_fits ev"
  shows "(\<forall>br. follow_run (inv_id n) (map log_frame (ls_sent u)) = Some (Inr br) \<longrightarrow>
      (\<exists>target. lg_runs s n = Some (RunDone target br))) \<and>
    (ls_batch u = [] \<and> ls_idx u = length (lg_events s) \<longrightarrow>
      (\<forall>target br. lg_runs s n = Some (RunDone target br) \<longrightarrow>
        follow_run (inv_id n) (map log_frame (ls_sent u)) = Some (Inr br)))"
proof -
  note sub = log_subscriber_facts [OF assms(1,2)]
  have fits: "\<forall>ev \<in> set (ls_sent u). event_fits ev" using sub(1) assms(3) by (metis in_set_takeD)
  note follow = follow_events [OF fits, of n]
  have "\<exists>target. lg_runs s n = Some (RunDone target br)"
    if "follow_run (inv_id n) (map log_frame (ls_sent u)) = Some (Inr br)" for br
  proof -
    from that follow obtain bs where "List.map_filter ev_result (events_of n (ls_sent u)) = br # bs"
      by (auto split: list.splits)
    with sub(3) [of n] results_of_prefix [of ev_result "length (events_of n (ls_sent u))" "run_history n (lg_runs s n)"]
    have "br \<in> set (List.map_filter ev_result (run_history n (lg_runs s n)))" by auto
    then show ?thesis by (cases "lg_runs s n") (auto simp: run_history_results split: run_state.splits)
  qed
  moreover have "follow_run (inv_id n) (map log_frame (ls_sent u)) = Some (Inr br)"
    if "ls_batch u = []" "ls_idx u = length (lg_events s)" "lg_runs s n = Some (RunDone target br)" for target br
  proof -
    from sub(2) that(1,2) have "ls_sent u = lg_events s" by simp
    with sub(4) [of n] have "events_of n (ls_sent u) = run_history n (lg_runs s n)" by simp
    then show ?thesis by (simp add: follow run_history_results that(3))
  qed
  ultimately show ?thesis by blast
qed

theorem follower_gets_its_run_witness:
  "follow_run (inv_id 1) (map log_frame (lg_events demo_log)) = Some (Inr demo_failed) \<and>
     lg_runs demo_log 1 = Some (RunDone ''t'' demo_failed)"
proof -
  let ?u = "\<lparr>ls_idx = 2, ls_batch = [], ls_sent = lg_events demo_log\<rparr>"
  have u: "lg_subs demo_log 0 = Some ?u" by (simp add: demo_log_def)
  have "inv_id 1 = ''inv-1''" by code_simp
  then have "text_fits (inv_id 1)" "text_fits ''t''" "text_fits ''e''" "text_fits ''load''"
    by (simp_all add: text_fits_def str_bytes_def)
  then have fits: "\<forall>ev \<in> set (lg_events demo_log). event_fits ev"
    by (simp add: demo_log_def event_fits_def load_event_def result_event_def run_event_def progress_fits_def
      result_fits_def demo_failed_def run_result_def i64_ok_def)
  have r: "lg_runs demo_log 1 = Some (RunDone ''t'' demo_failed)" by (simp add: demo_log_def)
  show ?thesis
    using follower_gets_its_run [OF demo_log_reachable u fits, of 1] r by (simp add: demo_log_def)
qed

text \<open>The second run of a target that is up to date is an error: its result is cached, and only a built one is run.\<close>

lemma cached_run_fails:
  "br_status r = StCached \<Longrightarrow> br_message r = None \<Longrightarrow> run_verdict ws target r = Inl (''run '' @ target @ '': build failed'')"
  by (simp add: run_verdict_def)

end
