(* ===== verification/Grazel_Cli.thy ===== *)
theory Grazel_Cli
  imports Scope Grazeld
begin

section \<open>The command line of grazel\<close>

text \<open>
  \<^verbatim>\<open>crates/grazel-cli-lib/src/lib.rs\<close>: which verb goes where, and the flags that grazel takes off a command line before it
  hands the rest to razel.  The environment gives the current directory and canonical paths.
\<close>

record grazel_flags =
  gf_scope :: "string option"
  gf_workspace :: "string option"
  gf_stage :: "string option"
  gf_idle_timeout :: "nat option"
  gf_member_idle_timeout :: "nat option"
  gf_http_bind :: "string option"
  gf_view_buffer :: "nat option"
  gf_no_autostart :: bool
  gf_all :: bool
  gf_list :: bool

definition flags_none :: grazel_flags where
  "flags_none =
     \<lparr>gf_scope = None, gf_workspace = None, gf_stage = None, gf_idle_timeout = None, gf_member_idle_timeout = None,
      gf_http_bind = None, gf_view_buffer = None, gf_no_autostart = False, gf_all = False, gf_list = False\<rparr>"

definition parse_u64 :: "string \<Rightarrow> nat option" where
  "parse_u64 s = parse_uint (2 ^ 64) s"

text \<open>One argument: \<open>None\<close> when it is none of grazel's flags.\<close>

definition grazel_flag :: "string \<Rightarrow> grazel_flags \<Rightarrow> grazel_flags option" where
  "grazel_flag a f =
     (case strip_prefix a ''--scope='' of Some v \<Rightarrow> Some (f\<lparr>gf_scope := Some v\<rparr>) | None \<Rightarrow>
     (case strip_prefix a ''--workspace='' of Some v \<Rightarrow> Some (f\<lparr>gf_workspace := Some v\<rparr>) | None \<Rightarrow>
     (case strip_prefix a ''--stage='' of Some v \<Rightarrow> Some (f\<lparr>gf_stage := Some v\<rparr>) | None \<Rightarrow>
     (case strip_prefix a ''--idle-timeout='' of Some v \<Rightarrow> Some (f\<lparr>gf_idle_timeout := parse_u64 v\<rparr>) | None \<Rightarrow>
     (case strip_prefix a ''--member-idle-timeout='' of Some v \<Rightarrow> Some (f\<lparr>gf_member_idle_timeout := parse_u64 v\<rparr>) | None \<Rightarrow>
     (case strip_prefix a ''--http-bind='' of Some v \<Rightarrow> Some (f\<lparr>gf_http_bind := Some v\<rparr>) | None \<Rightarrow>
     (case strip_prefix a ''--view-buffer='' of Some v \<Rightarrow> Some (f\<lparr>gf_view_buffer := parse_u64 v\<rparr>) | None \<Rightarrow>
       if a = ''--no_autostart'' \<or> a = ''--no-autostart'' then Some (f\<lparr>gf_no_autostart := True\<rparr>)
       else if a = ''--all'' then Some (f\<lparr>gf_all := True\<rparr>)
       else if a = ''--list'' then Some (f\<lparr>gf_list := True\<rparr>)
       else None)))))))"

fun split_args :: "string list \<Rightarrow> grazel_flags \<Rightarrow> string list \<Rightarrow> grazel_flags \<times> string list" where
  "split_args [] f rest = (f, rest)"
| "split_args (a # as) f rest =
     (case grazel_flag a f of Some g \<Rightarrow> split_args as g rest | None \<Rightarrow> split_args as f (rest @ [a]))"

datatype route_kind = RtGrazel | RtRouted | RtRun | RtHelp | RtRazel

definition grazel_route :: "string list \<Rightarrow> route_kind" where
  "grazel_route args =
     (case args of
        [] \<Rightarrow> RtRazel
      | verb # _ \<Rightarrow>
          if verb \<in> {''scope'', ''ws'', ''version'', ''daemon'', ''shutdown''} then RtGrazel
          else if verb \<in> {''build'', ''affected''} then RtRouted
          else if verb = ''run'' then RtRun
          else if verb = ''help'' then RtHelp
          else RtRazel)"

subsection \<open>Routed verbs\<close>

definition no_daemon :: "string \<Rightarrow> bool" where
  "no_daemon a \<longleftrightarrow> a = ''--no_daemon'' \<or> a = ''--no-daemon''"

definition explicit_route :: "string \<Rightarrow> bool" where
  "explicit_route a \<longleftrightarrow> a = ''--daemon'' \<or> a = ''--socket'' \<or> starts_with a ''--socket=''"

fun peel_route :: "string list \<Rightarrow> string option \<Rightarrow> bool \<Rightarrow> string list \<Rightarrow> string option \<times> bool \<times> string list" where
  "peel_route [] sc local rest = (sc, local, rest)"
| "peel_route (a # as) sc local rest =
     (case strip_prefix a ''--scope='' of
        Some v \<Rightarrow> peel_route as (Some v) local rest
      | None \<Rightarrow> if no_daemon a then peel_route as sc True rest else peel_route as sc local (rest @ [a]))"

text \<open>The workspace that razel's own parser will see, found without taking the flag away.\<close>

fun scan_workspace :: "string list \<Rightarrow> string option \<Rightarrow> string option" where
  "scan_workspace [] ws = ws"
| "scan_workspace (a # as) ws =
     (if a = ''-C'' \<or> a = ''--workspace'' then
        scan_workspace as (case as of v # _ \<Rightarrow> Some v | [] \<Rightarrow> None)
      else
        (case strip_prefix a ''--workspace='' of
           Some v \<Rightarrow> scan_workspace as (Some v)
         | None \<Rightarrow> scan_workspace as ws))"

definition grazel_workspace :: "string option \<Rightarrow> (string \<Rightarrow> string option) \<Rightarrow> string option \<Rightarrow> string" where
  "grazel_workspace cwd canonical ws =
     (let w = (case ws of Some w \<Rightarrow> w | None \<Rightarrow> (case cwd of Some c \<Rightarrow> c | None \<Rightarrow> ''.''))
      in case canonical w of Some c \<Rightarrow> c | None \<Rightarrow> w)"

datatype routed = DelegateRazel "string list" | RoutedError string

text \<open>\<open>dial scope workspace\<close> resolves the scope, ensures its daemon and gives its socket.\<close>

definition routed_razel_verb ::
    "string option \<Rightarrow> (string \<Rightarrow> string option) \<Rightarrow> (string option \<Rightarrow> string \<Rightarrow> string + string) \<Rightarrow> string list \<Rightarrow> routed" where
  "routed_razel_verb cwd canonical dial args =
     (if list_ex explicit_route args then DelegateRazel args
      else
        (case peel_route args None False [] of
           (sc, local, rest) \<Rightarrow>
             if local then DelegateRazel rest
             else
               (case dial sc (grazel_workspace cwd canonical (scan_workspace rest None)) of
                  Inl e \<Rightarrow> RoutedError e
                | Inr sock \<Rightarrow> DelegateRazel (rest @ [''--daemon'', ''--socket'', sock]))))"

subsection \<open>The run verb\<close>

record run_args =
  ra_scope :: "string option"
  ra_target :: "string option"
  ra_args :: "string list"
  ra_workspace :: "string option"

definition run_args_none :: run_args where
  "run_args_none = \<lparr>ra_scope = None, ra_target = None, ra_args = [], ra_workspace = None\<rparr>"

fun parse_run :: "string list \<Rightarrow> run_args \<Rightarrow> string + run_args" where
  "parse_run [] r = Inr r"
| "parse_run (a # as) r =
     (if a = ''--'' then Inr (r\<lparr>ra_args := as\<rparr>)
      else
        (case strip_prefix a ''--scope='' of
           Some v \<Rightarrow> parse_run as (r\<lparr>ra_scope := Some v\<rparr>)
         | None \<Rightarrow>
             if a = ''-C'' \<or> a = ''--workspace'' then
               (case as of
                  [] \<Rightarrow> Inr (r\<lparr>ra_workspace := None\<rparr>)
                | v # bs \<Rightarrow> parse_run bs (r\<lparr>ra_workspace := Some v\<rparr>))
             else
               (case strip_prefix a ''--workspace='' of
                  Some v \<Rightarrow> parse_run as (r\<lparr>ra_workspace := Some v\<rparr>)
                | None \<Rightarrow>
                    if ra_target r = None \<and> \<not> starts_with a ''-'' then parse_run as (r\<lparr>ra_target := Some a\<rparr>)
                    else Inl (''grazel run: unsupported argument '' @ debug_str a @
                              '' (target, --scope, -C, and `-- args` for now)''))))"

text \<open>\<open>Inl\<close> is razel's own local run.\<close>

definition grazel_run :: "string list \<Rightarrow> string list + (string + run_args)" where
  "grazel_run args =
     (if list_ex no_daemon args then
        Inl (''run'' # filter (\<lambda>a. \<not> no_daemon a \<and> \<not> starts_with a ''--scope='') args)
      else
        Inr (res_bind (parse_run args run_args_none) (\<lambda>r.
          if ra_target r = None then Inl (''grazel run: expected <target> [-- args'' @ [CHR 0xE2, CHR 0x80, CHR 0xA6] @ '']'') else Inr r)))"

subsection \<open>What reaches razel\<close>

definition peeled :: "string \<Rightarrow> bool" where
  "peeled a \<longleftrightarrow> starts_with a ''--scope='' \<or> no_daemon a"

lemma peel_route_rest: "snd (snd (peel_route args sc local rest)) = rest @ filter (\<lambda>a. \<not> peeled a) args"
  by (induction args sc local rest rule: peel_route.induct)
    (auto simp: peeled_def strip_prefix_def split: option.split)

lemma peel_route_local: "fst (snd (peel_route args sc local rest)) \<longleftrightarrow>
    local \<or> (\<exists>a \<in> set args. no_daemon a \<and> \<not> starts_with a ''--scope='')"
  by (induction args sc local rest rule: peel_route.induct) (auto simp: strip_prefix_def)

lemma chain_None:
  "(case x of Some v \<Rightarrow> Some (g v) | None \<Rightarrow> r) = None \<longleftrightarrow> x = None \<and> r = None"
  "(if P then Some y else r) = None \<longleftrightarrow> \<not> P \<and> r = None"
  by (cases x) simp_all

lemma grazel_flag_none: "grazel_flag a f = None \<longleftrightarrow> grazel_flag a g = None"
  unfolding grazel_flag_def chain_None ..

lemma split_args_rest: "snd (split_args args f rest) = rest @ filter (\<lambda>a. grazel_flag a flags_none = None) args"
proof (induction args f rest rule: split_args.induct)
  case (2 a as f rest)
  then show ?case using grazel_flag_none [of a f flags_none] by (cases "grazel_flag a f") simp_all
qed simp

text \<open>A build or an impact query reaches razel's parser with its own arguments in their order: all of them when the caller
  chose the route, all but the flags of grazel otherwise, followed by the route that grazel found.\<close>

theorem routed_arguments:
  assumes "routed_razel_verb cwd canonical dial args = DelegateRazel out"
  shows "if list_ex explicit_route args then out = args
    else out = filter (\<lambda>a. \<not> peeled a) args \<or>
      (\<exists>sock. out = filter (\<lambda>a. \<not> peeled a) args @ [''--daemon'', ''--socket'', sock])"
proof (cases "list_ex explicit_route args")
  case True
  then show ?thesis using assms by (simp add: routed_razel_verb_def)
next
  case False
  obtain sc local rest where p: "peel_route args None False [] = (sc, local, rest)"
    by (cases "peel_route args None False []")
  then have "rest = filter (\<lambda>a. \<not> peeled a) args" using peel_route_rest [of args None False "[]"] by simp
  with False assms show ?thesis by (auto simp: routed_razel_verb_def p split: if_splits sum.splits)
qed

text \<open>The flags that a local run drops are dropped behind \<open>--\<close> as well, where they belong to the program.\<close>

definition program_line :: "string list" where
  "program_line = [''--no_daemon'', ''t'', ''--'', ''--scope=x'', ''--no-daemon'']"

lemma local_run_drops_program_arguments: "grazel_run program_line = Inl [''run'', ''t'', ''--'']"
  by code_simp

end
