(* ===== verification/Spec2Isabelle.thy ===== *)
theory Spec2Isabelle
  imports Vfs Query_Props Query_Run Dds_Props Cbor Constrain Exec_Props Incremental_Props Sched_Props Actor_Props Outlock Select_Props Glob Patterns Analysis Wrapper_Props Lock_Props Cc_Toolchain Loader_Again Make_Vars Args_Props Ws_Props Views_Props Wire_Types Golden Scope Label_Value Cargo_Env Rpc_Props Rpc_Streams Http Dial Grazel_Cli
begin

text \<open>
  razel is a build system in Rust that reads Bazel's build files; grazel is its daemon and command line around it.
  This library models the part of it that decides: what is rebuilt, what an action's result is, what a query
  answers, which thread may go on, what a command line means, what a client of the daemon receives.  Paths below are
  relative to \<^verbatim>\<open>crates/\<close>.

  \<^bold>\<open>How the parts meet.\<close>  The command line (\<^verbatim>\<open>razel-loading/src/args.rs\<close>) gives options to the loader or to the daemon.  The
  loader evaluates build files in several threads that wait for each other's packages (\<^verbatim>\<open>state/sched.rs\<close>,
  \<^verbatim>\<open>state/wait.rs\<close>), with the labels, globs, selects, locks and provider facts of \<^verbatim>\<open>razel-loading\<close>.  Its analyzed
  targets are configured into the incremental builder (\<^verbatim>\<open>razel-build\<close>), whose nodes live in the demand-driven engine
  (\<^verbatim>\<open>razel-engine\<close>); an action node is run by the executor through the output cache and a sandbox (\<^verbatim>\<open>razel-exec\<close>), for
  Rust targets behind the process wrapper.  The daemon (\<^verbatim>\<open>razel-daemon\<close>) keeps one warm builder per workspace behind a
  lock file and folds file changes into it; clients reach it over the socket protocol (\<^verbatim>\<open>razel-wire\<close>), directly or through
  the scope daemon of \<^verbatim>\<open>grazel-cli-lib\<close>, which serves several workspaces and adds an HTTP and a websocket edge.  Queries (\<^verbatim>\<open>razel-query\<close>) run over the loaded targets.

  \<^bold>\<open>Foundations.\<close>
  \<^item> \<^verbatim>\<open>Prelude\<close>: results as sums (\<open>Err\<close>, \<open>Ok\<close>, \<open>res_bind\<close> for \<open>?\<close>), the fact collections, search invariants.
  \<^item> \<^verbatim>\<open>Std_Str\<close>, \<^verbatim>\<open>Std_Text\<close>: the methods of \<open>str\<close> the code calls, on UTF-8 bytes.  \<^verbatim>\<open>Std_Coll\<close>: \<open>BTreeMap\<close> and
    \<open>BTreeSet\<close> as sorted lists, first-occurrence hash sets.  \<^verbatim>\<open>Std_Fs\<close>: directory trees with links.

  \<^bold>\<open>Data.\<close>
  \<^item> \<^verbatim>\<open>Core\<close> (\<^verbatim>\<open>razel-core\<close>), \<^verbatim>\<open>Vfs\<close>, \<^verbatim>\<open>Ir\<close>, \<^verbatim>\<open>Actions\<close>: digests, labels, overlay views, the file/action/target graph and
    what an edit of a file reaches in it, the content key of an action; equal keys mean equal actions.
  \<^item> \<^verbatim>\<open>Dds\<close>, \<^verbatim>\<open>Dds_Props\<close>: the provider store, its schemas and folds.  In any store, cyclic or not, a list fold is the
    elements along the recursive preorder walk and a set fold the union over what the target reaches.
  \<^item> \<^verbatim>\<open>Cbor\<close>, \<^verbatim>\<open>Wire_Types\<close>: the wire codec and the messages of the protocol; the locale \<open>wire_type\<close> is
    the contract of a message and every message is an instance of it.

  \<^bold>\<open>The engine\<close> (\<^verbatim>\<open>razel-engine/src/lib.rs\<close>).
  \<^item> \<^verbatim>\<open>Engine\<close>: the serial evaluator.  \<^verbatim>\<open>Engine_Sound\<close> states the contract of an evaluator of single keys as the locale
    \<open>validating_request\<close>, \<^verbatim>\<open>Engine_Request\<close> closes it over the recursion and collects the facts of the top-level
    request; \<^verbatim>\<open>Engine_Spec\<close> is an evaluator without memory, which \<^verbatim>\<open>Engine_Props\<close> proves refined in every state that
    \<^verbatim>\<open>Engine_Reach\<close> reaches, errors included.
  \<^item> \<^verbatim>\<open>Par_Collect\<close>, \<^verbatim>\<open>Engine_Par\<close>, \<^verbatim>\<open>Par_Inv\<close>, \<^verbatim>\<open>Par_Run\<close>, \<^verbatim>\<open>Par_Props\<close>: the parallel request as a step relation over
    all schedules; it agrees with the serial one, never hangs and never panics.

  \<^bold>\<open>Building.\<close>
  \<^item> \<^verbatim>\<open>Exec\<close>, \<^verbatim>\<open>Exec_Props\<close>: copies, the output cache, sandboxes; outputs survive the cache, where nothing stands in
    the way of what is restored.  Lemmas at the end show what the executor does not ensure: a persistent sandbox keeps old outputs, a
    restored directory keeps old files, and an input edited during its action is cached under the old key.
  \<^item> \<^verbatim>\<open>Incremental\<close>, \<^verbatim>\<open>Incremental_Props\<close>, \<^verbatim>\<open>Drive\<close>, \<^verbatim>\<open>Analysis\<close>: the incremental builder over the engine, the build driver, the
    impact query; a warm builder reads what a fresh one would.  Here the executor is a parameter, a function of the
    action and of the digests of its inputs; the three lemmas just named are where \<^verbatim>\<open>razel-exec\<close> departs from that.
  \<^item> \<^verbatim>\<open>Constrain\<close>, \<^verbatim>\<open>Cc_Toolchain\<close>: feature selection and the command lines of the embedded C++
    configuration.  \<^verbatim>\<open>Make_Vars\<close>: the Make variables of a genrule.  \<^verbatim>\<open>Cargo_Env\<close>:
    the variables of a cargo build script.
  \<^item> \<^verbatim>\<open>Wrapper\<close>, \<^verbatim>\<open>Wrapper_Props\<close>: the process wrapper, from a build script's output to rustc's arguments and environment.

  \<^bold>\<open>Loading and querying.\<close>
  \<^item> \<^verbatim>\<open>Sched\<close>, \<^verbatim>\<open>Sched_Props\<close>: the wait graph of the loader's threads; no deadlock, no lost wakeup.
  \<^item> \<^verbatim>\<open>Paths\<close>, \<^verbatim>\<open>Lock\<close>, \<^verbatim>\<open>Lock_Props\<close>, \<^verbatim>\<open>Select\<close>, \<^verbatim>\<open>Select_Props\<close>, \<^verbatim>\<open>Glob\<close>, \<^verbatim>\<open>Patterns\<close>: canonical labels, the crate lock and
    its staleness gate, which looks at the files of the lock alone, configurable attributes, globbing with its two caches over
    sessions of globs, and the packages that a recursive pattern stands for.  \<^verbatim>\<open>Label_Value\<close>: labels as values of a build file.
  \<^item> \<^verbatim>\<open>Loader_Dds\<close>, \<^verbatim>\<open>Loader_Dds_Props\<close>, \<^verbatim>\<open>Loader_Again\<close>: the provider registry and the loader's fact store.
  \<^item> \<^verbatim>\<open>Loaded\<close>, \<^verbatim>\<open>Query_Parse\<close>, \<^verbatim>\<open>Query_Print\<close>, \<^verbatim>\<open>Query_Graph\<close>, \<^verbatim>\<open>Query_Reach\<close>, \<^verbatim>\<open>Query_Eval\<close>, \<^verbatim>\<open>Query_Props\<close>, \<^verbatim>\<open>Query_Run\<close>: the
    loaded targets and the query language, from text to output; \<open>denotes\<close> is its abstract meaning.

  \<^bold>\<open>Daemon and clients.\<close>
  \<^item> \<^verbatim>\<open>Flag_Table\<close>, \<^verbatim>\<open>Args\<close>, \<^verbatim>\<open>Args_Props\<close>: the flag table of Bazel, entry by entry, and the option parser; a command line is
    accepted exactly as a sequence of spellings of known flags.
  \<^item> \<^verbatim>\<open>Actor\<close>, \<^verbatim>\<open>Actor_Props\<close>, \<^verbatim>\<open>Outlock\<close>: the warm-build actor with the watcher and the clients as its
    environment, and the writer lock of a workspace as steps of several processes.  The loader that the actor calls is a parameter that can
    fail, panic and change the tree; outputs are looked for below the execution root, and a build is one step, so an edit comes
    before or after it.  The lock is shown not to exclude: \<open>reap_race_two_holders\<close>.
  \<^item> \<^verbatim>\<open>Ws\<close>, \<^verbatim>\<open>Ws_Props\<close>, \<^verbatim>\<open>Views\<close>, \<^verbatim>\<open>Views_Props\<close>: the websocket edge and the stream fan-out.
    \<^verbatim>\<open>Scope\<close>: the scope of a workspace and its paths.
  \<^item> \<^verbatim>\<open>Rpc\<close>, \<^verbatim>\<open>Rpc_Streams\<close>, \<^verbatim>\<open>Rpc_Props\<close>: the daemon's protocol (\<^verbatim>\<open>razel-daemon/src/rpc.rs\<close>), from the frame
    to the dispatch, and its three streams; a call over a connection is the local call.
  \<^item> \<^verbatim>\<open>Grazeld\<close>, \<^verbatim>\<open>Grazeld_Props\<close>, \<^verbatim>\<open>Http\<close>, \<^verbatim>\<open>Dial\<close>, \<^verbatim>\<open>Grazel_Cli\<close>: the scope daemon of
    \<^verbatim>\<open>grazel-cli-lib\<close> with its members and their claims, its connections and its idle watchdog cut at every atomic operation, its HTTP edge, the dial of a client and the routing of verbs.
  \<^item> \<^verbatim>\<open>Golden\<close>: the comparison of declared actions with a recorded listing of Bazel.

  \<^bold>\<open>Conventions.\<close>  Structs are records, enums datatypes, errors the left side of a sum or \<open>None\<close>; a panic is a value of
  its own wherever the code can panic.  \<open>u32\<close> and \<open>u8\<close> are words where they are computed with, numbers that are only
  counted are \<open>nat\<close>, and a cast that truncates is written out.  Threads and processes are inductive step relations, one
  step for what a lock makes atomic and for each atomic operation outside one.  Libraries outside the repository (SHA-256, regex, serde, Starlark, the file
  system where it is only asked) are arguments of the definitions that use them.

  \<^bold>\<open>Bounds and fuel.\<close>  A request recurses with fuel \<open>Suc (length (nodes e))\<close>: the keys on the stack are distinct nodes, so it
  never runs out (\<open>engine_never_panics\<close>); \<open>spec_eval\<close> takes the same fuel.  \<open>collect_order\<close> has fuel for each target once.
  The bound on the parser's recursion grows with the number of tokens, and \<open>p_expr_total\<close> shows it is enough.  \<open>condition_matches\<close> stops at depth 16 and
  the walk of the wait graph after 128 steps because the code does; the absence of deadlocks is stated for at most
  128 threads for that reason.  Other loops recurse on a measure with a termination proof.

  \<^bold>\<open>Not modelled.\<close>  The Starlark side of the loader (\<^verbatim>\<open>dialect.rs\<close>, \<^verbatim>\<open>engine.rs\<close>, \<^verbatim>\<open>values.rs\<close>, \<^verbatim>\<open>rules/\<close>, \<^verbatim>\<open>decls/\<close> and the native
  rules): it is glue between the evaluator of the \<^verbatim>\<open>starlark\<close> crate, which is not part of the repository, and Rust
  callbacks on its heap values.  The sockets, process start and signals, what a verb prints, progress rendering, fetching over the network, the code generators of \<^verbatim>\<open>xtask\<close>, and the test crates: they are
  input and output.  Time is not modelled; a timeout is a step that may happen at any moment.
\<close>

end
